(* ===== verification/Prelude.thy ===== *)
theory Prelude
  imports Main "HOL-Library.FSet" "HOL-Library.Finite_Map" "HOL-Library.List_Lexorder"
    "HOL-Library.Char_ord" "HOL-Library.Word"
begin

text \<open>
  Shared vocabulary of the development: results with an error branch, the reading of Rust's
  ordered containers (a \<open>BTreeMap\<close> is a finite map walked in key order, a \<open>BTreeSet\<close> is a
  finite set walked in order), the merge of optional minima, reachability closures for the
  worklist loops, and the interface of a replicated join (a \<open>locale\<close> with its convergence lemma).
\<close>

named_theorems result_simps "evaluation of results with an error branch"
named_theorems map_simps "pointwise reading of finite map operations"

type_synonym u8 = "8 word"
type_synonym u16 = "16 word"
type_synonym u32 = "32 word"
type_synonym bytes = "u8 list"

subsection \<open>Results with an error branch\<close>

type_synonym ('e, 'a) result = "'e + 'a"

fun and_then :: "('e, 'a) result \<Rightarrow> ('a \<Rightarrow> ('e, 'b) result) \<Rightarrow> ('e, 'b) result" where
  "and_then (Inl e) f = Inl e"
| "and_then (Inr a) f = f a"

lemma and_then_cong [fundef_cong]:
  "r = r' \<Longrightarrow> (\<And>a. r' = Inr a \<Longrightarrow> f a = g a) \<Longrightarrow> and_then r f = and_then r' g"
  by (cases r') auto

lemma and_then_InrE:
  assumes "and_then r f = Inr b"
  obtains a where "r = Inr a" and "f a = Inr b"
  using assms by (cases r) auto

lemma and_then_InlE:
  assumes "and_then r f = Inl e"
  obtains "r = Inl e" | a where "r = Inr a" and "f a = Inl e"
  using assms by (cases r) auto

lemma and_then_Inr_iff: "and_then r f = Inr b \<longleftrightarrow> (\<exists>a. r = Inr a \<and> f a = Inr b)"
  by (cases r) auto

lemma and_then_Inl_iff: "and_then r f = Inl e \<longleftrightarrow> r = Inl e \<or> (\<exists>a. r = Inr a \<and> f a = Inl e)"
  by (cases r) auto

text \<open>\<open>iter().map(f).collect::<Result<Vec<_>, _>>()\<close>: the first error wins.\<close>

fun traverse :: "('a \<Rightarrow> ('e, 'b) result) \<Rightarrow> 'a list \<Rightarrow> ('e, 'b list) result" where
  "traverse f [] = Inr []"
| "traverse f (x # xs) =
     and_then (f x) (\<lambda>y. and_then (traverse f xs) (\<lambda>ys. Inr (y # ys)))"

lemma traverse_cong [fundef_cong]:
  "xs = ys \<Longrightarrow> (\<And>x. x \<in> set ys \<Longrightarrow> f x = g x) \<Longrightarrow> traverse f xs = traverse g ys"
proof (induction ys arbitrary: xs)
  case Nil
  then show ?case by simp
next
  case (Cons y ys)
  then have "traverse f ys = traverse g ys" and "f y = g y" by auto
  then show ?case using Cons.prems(1) by simp
qed

lemma traverse_Inr_iff:
  "traverse f xs = Inr ys \<longleftrightarrow> list_all2 (\<lambda>x y. f x = Inr y) xs ys"
  by (induction xs arbitrary: ys) (auto simp: and_then_Inr_iff list_all2_Cons1)

lemma traverse_Inr_length: "traverse f xs = Inr ys \<Longrightarrow> length ys = length xs"
  by (simp add: traverse_Inr_iff list_all2_lengthD)

lemma traverse_Inr_all:
  "traverse f xs = Inr ys \<Longrightarrow> (\<And>x y. f x = Inr y \<Longrightarrow> P y) \<Longrightarrow> \<forall>y\<in>set ys. P y"
  by (induction xs arbitrary: ys) (auto simp: and_then_Inr_iff)

lemma traverse_Inr_map:
  "traverse f xs = Inr ys \<Longrightarrow> (\<And>x y. f x = Inr y \<Longrightarrow> k y = g x) \<Longrightarrow> map k ys = map g xs"
  by (induction xs arbitrary: ys) (auto simp: and_then_Inr_iff)

lemma traverse_succeeds:
  "(\<And>x. x \<in> set xs \<Longrightarrow> \<exists>y. f x = Inr y) \<Longrightarrow> \<exists>ys. traverse f xs = Inr ys"
proof (induction xs)
  case (Cons x xs)
  then obtain y ys where "f x = Inr y" and "traverse f xs = Inr ys" by (meson list.set_intros)
  then show ?case by simp
qed simp

lemma traverse_all_Inr: "(\<And>x. x \<in> set xs \<Longrightarrow> f x = Inr (g x)) \<Longrightarrow> traverse f xs = Inr (map g xs)"
  by (induction xs) auto

text \<open>A loop body that may fail, folded over a list: the first error stops the loop.\<close>

fun fold_result :: "('s \<Rightarrow> 'a \<Rightarrow> ('e, 's) result) \<Rightarrow> 's \<Rightarrow> 'a list \<Rightarrow> ('e, 's) result" where
  "fold_result f s [] = Inr s"
| "fold_result f s (x # xs) = and_then (f s x) (\<lambda>s'. fold_result f s' xs)"

lemma fold_result_cong [fundef_cong]:
  "s = t \<Longrightarrow> xs = ys \<Longrightarrow> (\<And>s x. x \<in> set ys \<Longrightarrow> f s x = g s x) \<Longrightarrow>
    fold_result f s xs = fold_result g t ys"
proof (induction ys arbitrary: s t xs)
  case Nil
  then show ?case by simp
next
  case (Cons y ys)
  have step: "f t y = g t y" using Cons.prems(3) by simp
  have rest: "fold_result f u ys = fold_result g u ys" for u
    using Cons.IH [of u u ys] Cons.prems(3) by simp
  show ?case using Cons.prems(1,2) step rest by (cases "g t y") auto
qed

lemma fold_result_append:
  "fold_result f s (xs @ ys) = and_then (fold_result f s xs) (\<lambda>s. fold_result f s ys)"
proof (induction xs arbitrary: s)
  case (Cons x xs)
  then show ?case by (cases "f s x") simp_all
qed simp

lemma fold_result_invariant:
  assumes "fold_result f s xs = Inr t" and "I s"
    and "\<And>s x s'. x \<in> set xs \<Longrightarrow> I s \<Longrightarrow> f s x = Inr s' \<Longrightarrow> I s'"
  shows "I t"
  using assms
proof (induction xs arbitrary: s)
  case Nil
  then show ?case by simp
next
  case (Cons x xs)
  from Cons.prems(1) obtain s' where s': "f s x = Inr s'" "fold_result f s' xs = Inr t"
    by (auto simp: and_then_Inr_iff)
  have "I s'" using Cons.prems(2,3) s'(1) by auto
  then show ?case using Cons.IH [OF s'(2)] Cons.prems(3) by auto
qed

lemmas result_eqs [result_simps] = and_then.simps traverse.simps fold_result.simps

subsection \<open>Ordered containers\<close>

abbreviation keys_of :: "('k::linorder, 'v) fmap \<Rightarrow> 'k list" where
  "keys_of m \<equiv> sorted_list_of_fset (fmdom m)"

abbreviation elems :: "'a::linorder fset \<Rightarrow> 'a list" where
  "elems s \<equiv> sorted_list_of_fset s"

lemma set_sorted_list_of_fmap:
  "set (sorted_list_of_fmap m) = {(k, v). fmlookup m k = Some v}"
  by (auto simp: sorted_list_of_fmap_def fmlookup_dom_iff image_iff)

lemma map_fst_sorted_list_of_fmap [simp]: "map fst (sorted_list_of_fmap m) = keys_of m"
  by (simp add: sorted_list_of_fmap_def comp_def)

lemma distinct_keys_of [simp]: "distinct (sorted_list_of_fset s)"
  by (simp add: sorted_list_of_fset.rep_eq)

lemma sorted_keys_of [simp]: "sorted (sorted_list_of_fset s)"
  by (simp add: sorted_list_of_fset.rep_eq)

definition get_or_empty :: "('k, 'v list) fmap \<Rightarrow> 'k \<Rightarrow> 'v list" where
  "get_or_empty m k = (case fmlookup m k of Some vs \<Rightarrow> vs | None \<Rightarrow> [])"

text \<open>
  A worklist step marks a fresh id and pushes its successors: either fewer unmarked keys are left,
  or the id has no successors and the stack gets shorter.
\<close>

lemma stack_search_step:
  assumes "i |\<notin>| v"
  shows "fcard (fmdom N |-| finsert i v) < fcard (fmdom N |-| v)
    \<or> fcard (fmdom N |-| finsert i v) = fcard (fmdom N |-| v)
      \<and> length (rev (get_or_empty N i) @ s) < length (i # s)"
proof (cases "i |\<in>| fmdom N")
  case True
  with assms have "fmdom N |-| finsert i v |\<subset>| fmdom N |-| v" by auto
  then show ?thesis by (blast intro: pfsubset_fcard_mono)
next
  case False
  then have "get_or_empty N i = []" and "fmdom N |-| finsert i v = fmdom N |-| v"
    by (auto simp: get_or_empty_def dest: fmdom_notD)
  then show ?thesis by simp
qed

text \<open>\<open>Vec::sort\<close> then \<open>Vec::dedup\<close>, which drops equal neighbours.\<close>

definition sort_dedup :: "'a::linorder list \<Rightarrow> 'a list" where
  "sort_dedup xs = remdups_adj (sort xs)"

lemma sort_dedup_sorted [simp]: "sorted (sort_dedup xs)"
  by (simp add: sort_dedup_def sorted_remdups_adj)

lemma sort_dedup_set [simp]: "set (sort_dedup xs) = set xs"
  by (simp add: sort_dedup_def)

lemma sort_dedup_distinct [simp]: "distinct (sort_dedup xs)"
proof -
  have "sorted ys \<Longrightarrow> distinct (remdups_adj ys)" for ys :: "'a list"
  proof (induction ys rule: remdups_adj.induct)
    case (3 x y xs)
    have "x \<notin> set (remdups_adj (y # xs))" if "x \<noteq> y"
      using that "3.prems" by (auto simp del: remdups_adj.simps)
    then show ?case using 3 by auto
  qed auto
  then show ?thesis by (simp add: sort_dedup_def)
qed

lemma sort_dedup_eq: "sort_dedup xs = sorted_list_of_set (set xs)"
  by (rule sorted_distinct_set_unique) auto

lemma sort_dedup_idem [simp]: "sort_dedup (sort_dedup xs) = sort_dedup xs"
  by (simp add: sort_dedup_eq)

subsection \<open>What a worklist reaches\<close>

definition next_rel :: "('id, 'id list) fmap \<Rightarrow> ('id \<times> 'id) set" where
  "next_rel N = {(x, y). y \<in> set (get_or_empty N x)}"

lemma next_rel_iff: "(x, y) \<in> next_rel N \<longleftrightarrow> (\<exists>ys. fmlookup N x = Some ys \<and> y \<in> set ys)"
  by (auto simp: next_rel_def get_or_empty_def eq_commute [of "Some _"] split: option.splits)

lemma next_rel_Image: "next_rel N `` {x} = set (get_or_empty N x)"
  by (auto simp: next_rel_def)

lemma next_rel_dom: "(x, y) \<in> next_rel N \<Longrightarrow> x |\<in>| fmdom N"
  by (auto simp: next_rel_iff fmdomI)

lemma next_rel_trancl_dom: "(x, y) \<in> (next_rel N)\<^sup>+ \<Longrightarrow> x |\<in>| fmdom N"
  by (meson tranclD next_rel_dom)

lemma rtrancl_closed_mod:
  assumes "R `` V \<subseteq> V \<union> S"
  shows "R\<^sup>* `` V \<subseteq> V \<union> R\<^sup>* `` S"
proof -
  have "y \<in> V \<union> R\<^sup>* `` S" if "(x, y) \<in> R\<^sup>*" "x \<in> V" for x y
    using that
  proof (induction rule: rtrancl_induct)
    case (step y z)
    then show ?case using assms by (auto intro: rtrancl_into_rtrancl)
  qed auto
  then show ?thesis by auto
qed

text \<open>One step of the worklist, as a fact about closures.\<close>

lemma search_marked:
  assumes "R `` V \<subseteq> V \<union> insert i S" and "i \<in> V"
  shows "R `` V \<subseteq> V \<union> S" and "V \<union> R\<^sup>* `` insert i S = V \<union> R\<^sup>* `` S"
proof -
  show c: "R `` V \<subseteq> V \<union> S" using assms by auto
  then show "V \<union> R\<^sup>* `` insert i S = V \<union> R\<^sup>* `` S"
    using rtrancl_closed_mod [OF c] assms(2) by auto
qed

lemma search_fresh:
  assumes "R `` V \<subseteq> V \<union> insert i S"
  shows "R `` insert i V \<subseteq> insert i V \<union> (R `` {i} \<union> S)"
    and "insert i V \<union> R\<^sup>* `` (R `` {i} \<union> S) = V \<union> R\<^sup>* `` insert i S"
proof -
  show "R `` insert i V \<subseteq> insert i V \<union> (R `` {i} \<union> S)" using assms by auto
  have "insert i (R\<^sup>* `` (R `` {i})) = R\<^sup>* `` {i}"
    by (auto intro: converse_rtrancl_into_rtrancl elim: converse_rtranclE)
  then show "insert i V \<union> R\<^sup>* `` (R `` {i} \<union> S) = V \<union> R\<^sup>* `` insert i S"
    by auto
qed

lemma sorted_list_of_fset_empty [simp]: "sorted_list_of_fset {||} = []"
  by (simp add: sorted_list_of_fset.rep_eq)

subsection \<open>Optional minima and pointwise folds\<close>

fun opt_min :: "'a::linorder option \<Rightarrow> 'a option \<Rightarrow> 'a option" where
  "opt_min None y = y"
| "opt_min x None = x"
| "opt_min (Some a) (Some b) = Some (min a b)"

lemma opt_min_None2 [simp]: "opt_min x None = x"
  by (cases x) auto

lemma opt_min_commute: "opt_min x y = opt_min y x"
  by (cases x; cases y) (auto simp: min.commute)

lemma opt_min_assoc: "opt_min (opt_min x y) z = opt_min x (opt_min y z)"
  by (cases x; cases y; cases z) (auto simp: min.assoc)

lemma opt_min_idem [simp]: "opt_min x x = x"
  by (cases x) auto

lemma opt_min_left_idem [simp]: "opt_min x (opt_min x y) = opt_min x y"
  by (simp add: opt_min_assoc [symmetric])

lemma opt_min_left_commute: "opt_min x (opt_min y z) = opt_min y (opt_min x z)"
  by (metis opt_min_assoc opt_min_commute)

text \<open>
  A loop over an ordered map whose body touches one key of the state at a time reads, at each
  key, as one application of the body's effect.
\<close>

lemma foldl_pointwise:
  assumes "\<And>m k v j. look (f m (k, v)) j = (if j = k then h v (look m j) else look m j)"
    and "distinct (map fst xs)"
  shows "look (foldl f m xs) j = (case map_of xs j of None \<Rightarrow> look m j | Some v \<Rightarrow> h v (look m j))"
  using assms(2)
proof (induction xs arbitrary: m)
  case Nil
  then show ?case by simp
next
  case (Cons x xs)
  obtain k v where x: "x = (k, v)" by (cases x)
  show ?case
  proof (cases "j = k")
    case True
    then have "map_of xs j = None" using Cons.prems x by (auto simp: map_of_eq_None_iff image_iff)
    then show ?thesis using Cons x True by (simp add: assms(1))
  next
    case False
    then show ?thesis using Cons x by (simp add: assms(1) split: option.split)
  qed
qed

subsection \<open>Replicated joins\<close>

locale replicated_join =
  fixes join :: "'a \<Rightarrow> 'a \<Rightarrow> 'a" and wf :: "'a \<Rightarrow> bool"
  assumes join_wf: "wf x \<Longrightarrow> wf y \<Longrightarrow> wf (join x y)"
    and join_commute: "wf x \<Longrightarrow> wf y \<Longrightarrow> join x y = join y x"
    and join_assoc: "wf x \<Longrightarrow> wf y \<Longrightarrow> wf z \<Longrightarrow> join (join x y) z = join x (join y z)"
    and join_idem: "wf x \<Longrightarrow> join x x = x"
begin

lemma replay_wf: "wf a \<Longrightarrow> (\<And>x. x \<in> set xs \<Longrightarrow> wf x) \<Longrightarrow> wf (foldl join a xs)"
  by (induction xs arbitrary: a) (auto intro: join_wf)

lemma absorb_step: "wf x \<Longrightarrow> wf a \<Longrightarrow> wf b \<Longrightarrow> join x a = a \<Longrightarrow> join x (join a b) = join a b"
  by (metis join_assoc)

lemma replay_absorbs_base:
  "wf x \<Longrightarrow> wf a \<Longrightarrow> (\<And>y. y \<in> set xs \<Longrightarrow> wf y) \<Longrightarrow> join x a = a
    \<Longrightarrow> join x (foldl join a xs) = foldl join a xs"
  by (induction xs arbitrary: a) (auto intro: join_wf absorb_step)

lemma replay_absorbs_member:
  "wf a \<Longrightarrow> (\<And>y. y \<in> set xs \<Longrightarrow> wf y) \<Longrightarrow> x \<in> set xs
    \<Longrightarrow> join x (foldl join a xs) = foldl join a xs"
proof (induction xs arbitrary: a)
  case Nil
  then show ?case by simp
next
  case (Cons y ys)
  have wf: "wf y" "wf (join a y)" using Cons.prems by (auto intro: join_wf)
  show ?case
  proof (cases "x = y")
    case True
    have "join y (join a y) = join a y"
      using Cons.prems wf by (metis join_assoc join_commute join_idem)
    then show ?thesis using replay_absorbs_base [of y "join a y" ys] Cons.prems wf True by simp
  next
    case False
    then show ?thesis using Cons.IH [of "join a y"] Cons.prems wf by simp
  qed
qed

lemma replay_below:
  "wf a \<Longrightarrow> wf z \<Longrightarrow> join a z = z \<Longrightarrow> (\<And>y. y \<in> set xs \<Longrightarrow> wf y \<and> join y z = z)
    \<Longrightarrow> join (foldl join a xs) z = z"
proof (induction xs arbitrary: a)
  case Nil
  then show ?case by simp
next
  case (Cons y ys)
  then have "wf y" "join y z = z" by auto
  then have "join (join a y) z = z" using Cons.prems by (simp add: join_assoc)
  then show ?case using Cons \<open>wf y\<close> by (simp add: join_wf)
qed

text \<open>Replaying the same set of states in any order, with any repetition, gives the same state.\<close>

lemma replay_convergence:
  assumes "wf a" "\<And>x. x \<in> set xs \<Longrightarrow> wf x" "set xs = set ys"
  shows "foldl join a xs = foldl join a ys"
proof -
  have wfx: "wf (foldl join a xs)" and wfy: "wf (foldl join a ys)"
    using assms by (auto intro!: replay_wf)
  have base: "join a (foldl join a zs) = foldl join a zs" if "set zs = set ys" for zs
    using assms that by (intro replay_absorbs_base) (auto intro: join_idem)
  have mem: "join x (foldl join a zs) = foldl join a zs" if "set zs = set ys" "x \<in> set ys" for x zs
    using assms that by (intro replay_absorbs_member) auto
  have xy: "join (foldl join a xs) (foldl join a ys) = foldl join a ys"
    using assms wfy by (intro replay_below) (auto intro: base mem)
  have yx: "join (foldl join a ys) (foldl join a xs) = foldl join a xs"
    using assms wfx by (intro replay_below) (auto intro: base mem)
  have "join (foldl join a xs) (foldl join a ys) = join (foldl join a ys) (foldl join a xs)"
    by (rule join_commute [OF wfx wfy])
  then show ?thesis using xy yx by simp
qed

end

subsection \<open>Append-only stores\<close>

text \<open>
  The interface of immutable storage: a write lands only where nothing is stored yet. A batch of
  writes then keeps every stored value and gives each fresh key its first value.
\<close>

locale immutable_store =
  fixes put :: "'s \<Rightarrow> 'k \<Rightarrow> 'v \<Rightarrow> 's" and get :: "'s \<Rightarrow> 'k \<Rightarrow> 'v option"
  assumes get_put:
    "get (put s k v) j = (if j = k \<and> get s k = None then Some v else get s j)"
begin

lemma put_keeps: "get s k = Some v \<Longrightarrow> get (put s i w) k = Some v"
  by (auto simp: get_put)

lemma get_batch:
  "get (foldl (\<lambda>s (k, v). put s k v) s kvs) j =
    (case get s j of Some v \<Rightarrow> Some v | None \<Rightarrow> map_of kvs j)"
  by (induction kvs arbitrary: s) (auto simp: get_put split: option.splits)

lemma batch_keeps:
  "get s k = Some v \<Longrightarrow> get (foldl (\<lambda>s (k, v). put s k v) s kvs) k = Some v"
  by (simp add: get_batch)

end

end
