(* ===== verification/Errors.thy ===== *)
theory Errors
  imports Prelude
begin

text \<open>
  The error enums of nook-auth2 (src/errors/validation.rs, src/errors/multi_device.rs), variant by
  variant; the storage provider variants of ValidationError are left out.  An error of another crate that a variant wraps (serde, age) is its rendered message;
  the counts in a payload are natural numbers.
\<close>

subsection \<open>ValidationError\<close>

datatype (plugins only: code size) validation_error =
  UnknownStorageMode string
| UnknownDeviceMode string
| UnknownVaultType string
| UnknownVaultApplication string
| VaultApplicationTypeMismatch string string
| SentinelExtensionForbidden
| ExtensionApprovalApplicationForbidden string
| UnknownReplicationType string
| UnsupportedProviderReplication string string
| SimpleVaultHasSentinelPolicy
| InvalidSentinelPolicy
| SentinelVaultHasFullKeyEnvelopes
| SimpleVaultHasSentinelShares
| InvalidSentinelShareSet
| SecretDataRequired
| SecretIdRequired
| SecretIdInvalid
| SecretIdReserved
| StoreIdInvalid
| StoreIdReserved
| AuthKeyIdInvalid
| DeviceIdInvalid
| Bip39Empty
| Bip39Invalid
| AuthenticatorIssuerRequired
| AuthenticatorSecretInvalid
| AuthenticatorIssuerCatalogInvalid
| AuthenticatorDigitsInvalid
| AuthenticatorPeriodInvalid
| AuthenticatorUriInvalid
| AuthenticatorBackupCodesInvalid
| CreditCardTitleRequired
| CreditCardNumberInvalid
| CreditCardExpirationInvalid
| CreditCardCvvInvalid
| PersonalDataTextInvalid
| PersonNameRequired
| PersonBirthDateInvalid
| PersonEmailInvalid
| PersonPhoneInvalid
| AddressLine1Required
| IdentityDocumentNumberRequired
| IdentityDocumentDateInvalid
| IdentityDocumentSsnInvalid
| IdentityDocumentExpiryBeforeIssue
| InternationalAccountIbanRequired
| InternationalAccountIbanInvalid
| SwiftBicInvalid
| DomesticAccountNumberRequired
| DomesticAccountNumberInvalid
| RoutingNumberRequired
| RoutingNumberInvalid
| SymmetricKeyInvalid
| IdentityInviteIdInvalid
| SecretFingerprintKeyInvalid
| AgeArmoredInvalid
| DevicePublicKeyInvalid
| DeviceIdentitySecretInvalid
| Sha256HexInvalid
| IdentityVaultEventIdInvalid
| DeviceSigningPublicKeyInvalid
| IsoTimestampInvalid
| SigningSeedInvalid

type_synonym 'a validation = "(validation_error, 'a) result"

subsection \<open>MultiDeviceError\<close>

datatype (plugins only: code size) multi_device_error =
  GenerateKey string
| GenerateId string
| InvalidRecipientPublicKey string
| AuthEnvelopeJson string
| AuthEnvelopeMissingKeys
| InvalidDeviceIdentity string
| IdentityLabelEmpty
| DuplicateIdentity string
| IdentityNotFound string
| IdentityEnrollmentRequired
| RetiredAppKey
| DuplicateVaultOwnership string
| AppKeyRevokedFromIdentity string
| AppKeyNotIdentityMember string
| IdentityAlreadyInUse string
| PasskeySignerNotListed string
| ReplicatedIdentityAlreadyLocal string
| AppKeyBelongsToAnotherIdentity string
| StaleVaultDekEpoch string string
| DuplicateAppKeyOwnership string
| InvalidIdentitySelection
| StagedIdentityConflict string
| UnsealedProviderCredential
| JoinRequestJson string
| MemberEntrySerialize string
| MemberEntryJson string
| MemberRecordKeyMismatch string string
| InvalidMemberId
| DeviceNameTooLong
| CannotRemoveLastAccess
| DeviceNotFound
| AuthEnvelopesSerialize string
| JoinRequestSerialize string
| AuthEnvelopeNotFound string string
| SentinelShareNotFound string
| InvalidSentinelThreshold
| InvalidSentinelGenesisSession
| InvalidSentinelGenesisSignature
| DuplicateSentinelGenesisParticipant string
| SentinelGenesisRosterFull
| SentinelParticipantCountOverflow
| SentinelGenesisIncomplete nat nat
| SentinelGenesisDeliveryRecipientMismatch
| InvalidSentinelGenesisPayload
| InvalidCompressedPayload
| StandaloneSentinelGenesisAnnouncementRejected
| InvalidSentinelUnlockSession
| InvalidSentinelUnlockSignature
| InvalidSentinelUnlockPayload
| DuplicateSentinelUnlockParticipant string
| SentinelUnlockRecipientMismatch
| NotEnoughSentinelShares nat nat
| SentinelShareJson string
| SentinelShareSerialize string
| SentinelSharePayload string
| InvalidSentinelShareEncoding
| SentinelCeremonyRequired
| SentinelRevocationUnsupported
| MemberRosterBuildFailed
| MissingSecretType string
| Validation validation_error
| VaultCrypto string
| Age string

type_synonym 'a multi_device = "(multi_device_error, 'a) result"

end
