(* ===== verification/CausalGraph.thy ===== *)
theory CausalGraph
  imports Prelude
begin

text \<open>
  The causal index of immutable replicated events
  (\<^verbatim>\<open>nook-replication/src/causal_graph.rs\<close>): parent sets, the recorded rejections
  (\<open>quarantine_roots\<close>), the members of cycles and the derived quarantine. Each worklist loop
  of the source is a terminating function over its stack; the stack's top is the list's head, so
  pushing a parent list in order puts its last element on top (\<open>rev ps @ stack\<close>).
\<close>

subsection \<open>State and requests\<close>

datatype 'id causal_insert_status =
  CausalApplied
| CausalPending (missing_parents: "'id list")
| CausalQuarantined (quarantine_reason: string)
| CausalDuplicate
| CausalConflict

datatype 'id event_parents = UnknownEventParents | KnownParents "'id list"

record 'id causal_event_insertion =
  ins_id :: 'id
  ins_parents :: "'id list"

record 'id causal_quarantine =
  quar_id :: 'id
  quar_reason :: string

datatype causal_graph_error = CausalCycle | CausalTopologicalSortStalled

record 'id causal_graph =
  cg_parents :: "('id, 'id list) fmap"
  cg_quarantine_roots :: "('id, string) fmap"
  cg_cyclic :: "'id fset"
  cg_quarantined :: "('id, string) fmap"

record 'id causal_insertion =
  ci_graph :: "'id causal_graph"
  ci_status :: "'id causal_insert_status"

definition conflict_reason :: string where
  "conflict_reason = ''Conflicting causal parent sets for the same event id''"

definition cycle_reason :: string where
  "cycle_reason = ''Causal graph contains a cycle''"

definition ancestor_reason :: string where
  "ancestor_reason = ''Ancestor event was rejected''"

definition new_graph :: "'id causal_graph" where
  "new_graph = \<lparr>cg_parents = fmempty, cg_quarantine_roots = fmempty, cg_cyclic = {||},
     cg_quarantined = fmempty\<rparr>"

definition graph_len :: "'id causal_graph \<Rightarrow> nat" where
  "graph_len g = fcard (fmdom (cg_parents g))"

definition graph_is_empty :: "'id causal_graph \<Rightarrow> bool" where
  "graph_is_empty g \<longleftrightarrow> fmdom (cg_parents g) = {||}"

definition contains :: "'id causal_graph \<Rightarrow> 'id \<Rightarrow> bool" where
  "contains g i \<longleftrightarrow> i |\<in>| fmdom (cg_parents g)"

definition parents_of :: "'id causal_graph \<Rightarrow> 'id \<Rightarrow> 'id event_parents" where
  "parents_of g i = (case fmlookup (cg_parents g) i of
     Some ps \<Rightarrow> KnownParents ps | None \<Rightarrow> UnknownEventParents)"

subsection \<open>Rejection bookkeeping\<close>

definition normalize_parents :: "'id::linorder list \<Rightarrow> 'id list" where
  "normalize_parents ps = sort_dedup ps"

definition merge_quarantine_reason ::
    "('id, string) fmap \<Rightarrow> 'id \<Rightarrow> string \<Rightarrow> ('id, string) fmap" where
  "merge_quarantine_reason reasons i reason =
     (case fmlookup reasons i of
        Some existing \<Rightarrow> if reason < existing then fmupd i reason reasons else reasons
      | None \<Rightarrow> fmupd i reason reasons)"

definition merge_reason_for ::
    "string \<Rightarrow> ('id, string) fmap \<Rightarrow> 'id list \<Rightarrow> ('id, string) fmap" where
  "merge_reason_for reason reasons is =
     foldl (\<lambda>m i. merge_quarantine_reason m i reason) reasons is"

definition rejected_descendants ::
    "('id::linorder, 'id list) fmap \<Rightarrow> ('id, string) fmap \<Rightarrow> 'id list" where
  "rejected_descendants P q =
     map fst (filter (\<lambda>(i, ps). i |\<notin>| fmdom q \<and> (\<exists>p\<in>set ps. p |\<in>| fmdom q))
       (sorted_list_of_fmap P))"

lemma merge_quarantine_reason_dom [simp]:
  "fmdom (merge_quarantine_reason m i r) = finsert i (fmdom m)"
  by (auto simp: merge_quarantine_reason_def fmlookup_dom_iff split: option.splits)

lemma merge_reason_for_dom [simp]:
  "fmdom (merge_reason_for r m is) = fmdom m |\<union>| fset_of_list is"
  unfolding merge_reason_for_def by (induction "is" arbitrary: m) auto

lemma set_rejected_descendants:
  "set (rejected_descendants P q) =
     {i. i |\<notin>| fmdom q \<and> (\<exists>ps. fmlookup P i = Some ps \<and> (\<exists>p\<in>set ps. p |\<in>| fmdom q))}"
  unfolding rejected_descendants_def by (auto simp: set_sorted_list_of_fmap image_iff)

function quarantine_loop ::
    "('id::linorder, 'id list) fmap \<Rightarrow> ('id, string) fmap \<Rightarrow> ('id, string) fmap" where
  "quarantine_loop P q =
     (let rejected = rejected_descendants P q
      in if rejected = [] then q
         else quarantine_loop P (merge_reason_for ancestor_reason q rejected))"
  by pat_completeness auto
termination
proof (relation "measure (\<lambda>(P, q). fcard (fmdom P |-| fmdom q))", goal_cases)
  case (2 P q rej)
  then have i: "hd rej \<in> set rej" by simp
  with 2 have "hd rej |\<in>| fmdom P" "hd rej |\<notin>| fmdom q"
    by (auto simp: set_rejected_descendants fmdomI)
  with i show ?case
    by (auto intro!: pfsubset_fcard_mono simp: fset_of_list_elem)
qed simp

declare quarantine_loop.simps [simp del]

definition quarantine_base :: "'id::linorder causal_graph \<Rightarrow> ('id, string) fmap" where
  "quarantine_base g =
     merge_reason_for cycle_reason (cg_quarantine_roots g) (elems (cg_cyclic g))"

definition recompute_quarantine :: "'id::linorder causal_graph \<Rightarrow> 'id causal_graph" where
  "recompute_quarantine g =
     g\<lparr>cg_quarantined := quarantine_loop (cg_parents g) (quarantine_base g)\<rparr>"

subsection \<open>Operations on the causal graph\<close>

text \<open>\<open>ancestor_ids_present\<close>: every id reached from the given parents is recorded.\<close>

function ancestor_ids_present_loop ::
    "('id, 'id list) fmap \<Rightarrow> 'id fset \<Rightarrow> 'id list \<Rightarrow> bool" where
  "ancestor_ids_present_loop P visited [] = True"
| "ancestor_ids_present_loop P visited (i # stack) =
     (if i |\<in>| visited then ancestor_ids_present_loop P visited stack
      else case fmlookup P i of
        None \<Rightarrow> False
      | Some parent_ids \<Rightarrow>
          ancestor_ids_present_loop P (finsert i visited) (rev parent_ids @ stack))"
  by pat_completeness auto
termination
proof (relation "measures [\<lambda>(P, v, s). fcard (fmdom P |-| v), \<lambda>(P, v, s). length s]", goal_cases)
  case (3 P v i s ps)
  then show ?case
    using stack_search_step [of i v P s] by (simp only: in_measures prod.case get_or_empty_def) simp
qed auto

definition ancestor_ids_present :: "'id causal_graph \<Rightarrow> 'id list \<Rightarrow> bool" where
  "ancestor_ids_present g ps = ancestor_ids_present_loop (cg_parents g) {||} (rev ps)"

definition ancestors_present :: "'id causal_graph \<Rightarrow> 'id \<Rightarrow> bool" where
  "ancestors_present g i = (case fmlookup (cg_parents g) i of
     None \<Rightarrow> False | Some ps \<Rightarrow> ancestor_ids_present g ps)"

text \<open>The two scans of \<open>cycle_members\<close> share one loop: collect what a stack reaches.\<close>

function reach_loop :: "('id, 'id list) fmap \<Rightarrow> 'id fset \<Rightarrow> 'id list \<Rightarrow> 'id fset" where
  "reach_loop N visited [] = visited"
| "reach_loop N visited (i # stack) =
     (if i |\<in>| visited then reach_loop N visited stack
      else reach_loop N (finsert i visited) (rev (get_or_empty N i) @ stack))"
  by pat_completeness auto
termination
proof (relation "measures [\<lambda>(N, v, s). fcard (fmdom N |-| v), \<lambda>(N, v, s). length s]", goal_cases)
  case (3 N v i s)
  then show ?case
    using stack_search_step [of i v N s] by (simp only: in_measures prod.case) simp
qed auto

definition reverse_index :: "('id::linorder, 'id list) fmap \<Rightarrow> ('id, 'id list) fmap" where
  "reverse_index P =
     foldl (\<lambda>r (i, ps). foldl (\<lambda>r p. fmupd p (get_or_empty r p @ [i]) r) r ps)
       fmempty (sorted_list_of_fmap P)"

definition cycle_members :: "'id::linorder causal_graph \<Rightarrow> 'id \<Rightarrow> 'id fset" where
  "cycle_members g origin =
     (let ancestors =
            reach_loop (cg_parents g) {||} (rev (get_or_empty (cg_parents g) origin))
      in if origin |\<notin>| ancestors then {||}
         else let descendants = reach_loop (reverse_index (cg_parents g)) {||} [origin]
              in ancestors |\<inter>| descendants)"

definition all_cyclic_ids :: "'id::linorder causal_graph \<Rightarrow> 'id fset" where
  "all_cyclic_ids g =
     foldl (\<lambda>acc i. acc |\<union>| cycle_members g i) {||} (keys_of (cg_parents g))"

definition insert_event ::
    "'id::linorder causal_graph \<Rightarrow> 'id causal_event_insertion \<Rightarrow> 'id causal_insertion" where
  "insert_event g request =
     (let i = ins_id request; ps = normalize_parents (ins_parents request) in
      case fmlookup (cg_parents g) i of
        Some existing \<Rightarrow>
          if existing = ps then \<lparr>ci_graph = g, ci_status = CausalDuplicate\<rparr>
          else
            let replaced = ps < existing;
                g1 = (if replaced then g\<lparr>cg_parents := fmupd i ps (cg_parents g)\<rparr> else g);
                g2 = g1\<lparr>cg_quarantine_roots :=
                  merge_quarantine_reason (cg_quarantine_roots g1) i conflict_reason\<rparr>;
                g3 = (if replaced then g2\<lparr>cg_cyclic := all_cyclic_ids g2\<rparr> else g2)
            in \<lparr>ci_graph = recompute_quarantine g3, ci_status = CausalConflict\<rparr>
      | None \<Rightarrow>
          let missing = filter (\<lambda>p. p |\<notin>| fmdom (cg_parents g)) ps;
              g1 = g\<lparr>cg_parents := fmupd i ps (cg_parents g)\<rparr>;
              g2 = g1\<lparr>cg_cyclic := cg_cyclic g1 |\<union>| cycle_members g1 i\<rparr>;
              g3 = recompute_quarantine g2;
              status = (case fmlookup (cg_quarantined g3) i of
                  Some reason \<Rightarrow> CausalQuarantined reason
                | None \<Rightarrow>
                    if ancestor_ids_present g3 ps then CausalApplied else CausalPending missing)
          in \<lparr>ci_graph = g3, ci_status = status\<rparr>)"

definition quarantine_event ::
    "'id::linorder causal_graph \<Rightarrow> 'id causal_quarantine \<Rightarrow> 'id causal_graph" where
  "quarantine_event g request =
     recompute_quarantine (g\<lparr>cg_quarantine_roots :=
       merge_quarantine_reason (cg_quarantine_roots g) (quar_id request) (quar_reason request)\<rparr>)"

definition applicable_ids :: "'id::linorder causal_graph \<Rightarrow> 'id list" where
  "applicable_ids g =
     filter (\<lambda>i. i |\<notin>| fmdom (cg_quarantined g) \<and> ancestors_present g i) (keys_of (cg_parents g))"

definition pending_ids :: "'id::linorder causal_graph \<Rightarrow> 'id list" where
  "pending_ids g =
     map fst (filter (\<lambda>(i, ps). ps \<noteq> [] \<and> \<not> ancestor_ids_present g ps
         \<and> i |\<notin>| fmdom (cg_quarantined g))
       (sorted_list_of_fmap (cg_parents g)))"

definition heads :: "'id::linorder causal_graph \<Rightarrow> 'id list" where
  "heads g =
     (let referenced =
            foldl (\<lambda>acc (i, ps). if i |\<in>| fmdom (cg_quarantined g) then acc
                                 else acc |\<union>| fset_of_list ps)
              {||} (sorted_list_of_fmap (cg_parents g))
      in filter (\<lambda>i. i |\<notin>| fmdom (cg_quarantined g) \<and> i |\<notin>| referenced)
           (keys_of (cg_parents g)))"

function is_ancestor_loop ::
    "('id, 'id list) fmap \<Rightarrow> 'id \<Rightarrow> 'id fset \<Rightarrow> 'id list \<Rightarrow> bool" where
  "is_ancestor_loop P ancestor visited [] = False"
| "is_ancestor_loop P ancestor visited (i # stack) =
     (if i = ancestor then True
      else if i |\<in>| visited then is_ancestor_loop P ancestor visited stack
      else is_ancestor_loop P ancestor (finsert i visited) (rev (get_or_empty P i) @ stack))"
  by pat_completeness auto
termination
proof (relation
    "measures [\<lambda>(P, a, v, s). fcard (fmdom P |-| v), \<lambda>(P, a, v, s). length s]", goal_cases)
  case (3 P a v i s)
  then show ?case
    using stack_search_step [of i v P s] by (simp only: in_measures prod.case) simp
qed auto

definition is_ancestor :: "'id causal_graph \<Rightarrow> 'id \<Rightarrow> 'id \<Rightarrow> bool" where
  "is_ancestor g ancestor descendant =
     (if ancestor = descendant then True
      else case fmlookup (cg_parents g) descendant of
        None \<Rightarrow> False
      | Some ps \<Rightarrow> is_ancestor_loop (cg_parents g) ancestor {||} (rev ps))"

definition are_concurrent :: "'id causal_graph \<Rightarrow> 'id \<Rightarrow> 'id \<Rightarrow> bool" where
  "are_concurrent g left right \<longleftrightarrow>
     left \<noteq> right \<and> \<not> is_ancestor g left right \<and> \<not> is_ancestor g right left
     \<and> left |\<in>| fmdom (cg_parents g) \<and> right |\<in>| fmdom (cg_parents g)"

text \<open>\<open>topological_order\<close>: layers of events whose parents are already placed.\<close>

definition topo_ready ::
    "('id::linorder, 'id list) fmap \<Rightarrow> 'id list \<Rightarrow> 'id fset \<Rightarrow> 'id list" where
  "topo_ready P ordered remaining =
     filter (\<lambda>i. case fmlookup P i of
         None \<Rightarrow> False
       | Some ps \<Rightarrow> \<forall>p\<in>set ps. p \<in> set ordered \<or> p |\<notin>| remaining)
       (elems remaining)"

definition topo_place ::
    "'id fset \<times> 'id list \<Rightarrow> 'id list \<Rightarrow> 'id fset \<times> 'id list" where
  "topo_place st ready = foldl (\<lambda>(remaining, ordered) i. (remaining |-| {|i|}, ordered @ [i])) st ready"

lemma topo_place_eq [simp]:
  "topo_place (remaining, ordered) ready = (remaining |-| fset_of_list ready, ordered @ ready)"
  unfolding topo_place_def by (induction ready arbitrary: remaining ordered) auto

function topo_loop ::
    "('id::linorder, 'id list) fmap \<Rightarrow> 'id list \<Rightarrow> 'id fset \<Rightarrow> (causal_graph_error, 'id list) result"
where
  "topo_loop P ordered remaining =
     (if remaining = {||} then Inr ordered
      else let ready = topo_ready P ordered remaining in
        if ready = [] then Inl CausalCycle
        else let (remaining', ordered') = topo_place (remaining, ordered) ready in
          if fcard remaining' = fcard remaining then Inl CausalTopologicalSortStalled
          else topo_loop P ordered' remaining')"
  by pat_completeness auto
termination
proof (relation "measure (\<lambda>(P, ordered, remaining). fcard remaining)", goal_cases)
  case (2 P ordered remaining ready pr r' o')
  then have "fcard r' \<le> fcard remaining" by (auto intro!: fcard_mono)
  with 2 show ?case by simp
qed simp

declare topo_loop.simps [simp del]

definition topological_order ::
    "'id::linorder causal_graph \<Rightarrow> (causal_graph_error, 'id list) result" where
  "topological_order g = topo_loop (cg_parents g) [] (fset_of_list (applicable_ids g))"

subsection \<open>The worklist loops compute closures\<close>

lemma reach_loop_correct:
  assumes "next_rel N `` fset V \<subseteq> fset V \<union> set S"
  shows "fset (reach_loop N V S) = fset V \<union> (next_rel N)\<^sup>* `` set S"
  using assms
proof (induction N V S rule: reach_loop.induct)
  case (1 N V)
  then show ?case by simp
next
  case (2 N V i S)
  show ?case
  proof (cases "i |\<in>| V")
    case True
    with 2 search_marked [of "next_rel N" "fset V" i "set S"] show ?thesis by simp
  next
    case False
    with 2 search_fresh [of "next_rel N" "fset V" i "set S"] show ?thesis
      by (simp add: next_rel_Image)
  qed
qed

corollary reach_loop_from_empty: "fset (reach_loop N {||} S) = (next_rel N)\<^sup>* `` set S"
  by (simp add: reach_loop_correct)

lemma ancestor_ids_present_loop_correct:
  assumes "next_rel P `` fset V \<subseteq> fset V \<union> set S" and "V |\<subseteq>| fmdom P"
  shows "ancestor_ids_present_loop P V S \<longleftrightarrow> (next_rel P)\<^sup>* `` set S \<subseteq> fset (fmdom P)"
  using assms
proof (induction P V S rule: ancestor_ids_present_loop.induct)
  case (1 P V)
  then show ?case by simp
next
  case (2 P V i S)
  have V: "fset V \<subseteq> fset (fmdom P)" using "2.prems" by blast
  show ?case
  proof (cases "i |\<in>| V")
    case True
    note marked = search_marked [of "next_rel P" "fset V" i "set S"]
    have "(next_rel P)\<^sup>* `` set (i # S) \<subseteq> fset (fmdom P)
        \<longleftrightarrow> fset V \<union> (next_rel P)\<^sup>* `` insert i (set S) \<subseteq> fset (fmdom P)"
      using V by auto
    also have "\<dots> \<longleftrightarrow> (next_rel P)\<^sup>* `` set S \<subseteq> fset (fmdom P)"
      using marked(2) True "2.prems"(1) V by auto
    finally show ?thesis using 2 True marked(1) by simp
  next
    case False
    show ?thesis
    proof (cases "fmlookup P i")
      case None
      then have "i \<notin> fset (fmdom P)" by (simp add: fmdom_notI)
      with False None show ?thesis by auto
    next
      case (Some ps)
      then have i: "i |\<in>| fmdom P" by (rule fmdomI)
      have ps: "set ps = next_rel P `` {i}" using Some by (simp add: next_rel_Image get_or_empty_def)
      note fresh = search_fresh [of "next_rel P" "fset V" i "set S"]
      have "ancestor_ids_present_loop P V (i # S)
          = ((next_rel P)\<^sup>* `` (next_rel P `` {i} \<union> set S) \<subseteq> fset (fmdom P))"
        using 2 False Some i fresh(1) ps by simp
      also have "\<dots> \<longleftrightarrow> insert i (fset V) \<union> (next_rel P)\<^sup>* `` (next_rel P `` {i} \<union> set S)
          \<subseteq> fset (fmdom P)"
        using i V by auto
      also have "\<dots> \<longleftrightarrow> fset V \<union> (next_rel P)\<^sup>* `` insert i (set S) \<subseteq> fset (fmdom P)"
        using fresh(2) "2.prems"(1) by simp
      also have "\<dots> \<longleftrightarrow> (next_rel P)\<^sup>* `` set (i # S) \<subseteq> fset (fmdom P)"
        using V by auto
      finally show ?thesis .
    qed
  qed
qed

lemma is_ancestor_loop_correct:
  assumes "next_rel P `` fset V \<subseteq> fset V \<union> set S" and "a |\<notin>| V"
  shows "is_ancestor_loop P a V S \<longleftrightarrow> a \<in> (next_rel P)\<^sup>* `` set S"
  using assms
proof (induction P a V S rule: is_ancestor_loop.induct)
  case (1 P a V)
  then show ?case by simp
next
  case (2 P a V i S)
  show ?case
  proof (cases "i = a \<or> i |\<in>| V")
    case True
    with 2 search_marked [of "next_rel P" "fset V" i "set S"] show ?thesis by auto
  next
    case False
    note fresh = search_fresh [of "next_rel P" "fset V" i "set S"]
    have "is_ancestor_loop P a V (i # S) = (a \<in> (next_rel P)\<^sup>* `` (next_rel P `` {i} \<union> set S))"
      using 2 False fresh(1) by (simp add: next_rel_Image)
    then show ?thesis using fresh(2) "2.prems" False by auto
  qed
qed

lemma ancestor_ids_present_iff:
  "ancestor_ids_present g ps \<longleftrightarrow> (next_rel (cg_parents g))\<^sup>* `` set ps \<subseteq> fset (fmdom (cg_parents g))"
  by (simp add: ancestor_ids_present_def ancestor_ids_present_loop_correct)

lemma ancestors_present_iff:
  "ancestors_present g i \<longleftrightarrow> (next_rel (cg_parents g))\<^sup>* `` {i} \<subseteq> fset (fmdom (cg_parents g))"
proof (cases "fmlookup (cg_parents g) i")
  case None
  then show ?thesis by (auto simp: ancestors_present_def dest: fmdom_notI)
next
  case (Some ps)
  then have ps: "set ps = next_rel (cg_parents g) `` {i}" by (simp add: next_rel_Image get_or_empty_def)
  have i: "i |\<in>| fmdom (cg_parents g)" using Some by (rule fmdomI)
  have "insert i ((next_rel (cg_parents g))\<^sup>* `` set ps) = (next_rel (cg_parents g))\<^sup>* `` {i}"
    using search_fresh(2) [of "next_rel (cg_parents g)" "{}" i "{}"] ps by simp
  then have "(next_rel (cg_parents g))\<^sup>* `` {i} \<subseteq> fset (fmdom (cg_parents g))
      \<longleftrightarrow> (next_rel (cg_parents g))\<^sup>* `` set ps \<subseteq> fset (fmdom (cg_parents g))"
    using i by (metis insert_subset)
  then show ?thesis
    using Some by (simp add: ancestors_present_def ancestor_ids_present_iff)
qed

lemma is_ancestor_iff:
  "is_ancestor g a d \<longleftrightarrow> (d, a) \<in> (next_rel (cg_parents g))\<^sup>*"
proof (cases "fmlookup (cg_parents g) d")
  case None
  then have "(d, a) \<in> (next_rel (cg_parents g))\<^sup>* \<longleftrightarrow> a = d"
    by (auto simp: next_rel_iff elim: converse_rtranclE)
  with None show ?thesis by (auto simp: is_ancestor_def)
next
  case (Some ps)
  then have ps: "set ps = next_rel (cg_parents g) `` {d}" by (simp add: next_rel_Image get_or_empty_def)
  have "insert d ((next_rel (cg_parents g))\<^sup>* `` set ps) = (next_rel (cg_parents g))\<^sup>* `` {d}"
    using search_fresh(2) [of "next_rel (cg_parents g)" "{}" d "{}"] ps by simp
  with Some show ?thesis by (auto simp: is_ancestor_def is_ancestor_loop_correct)
qed

subsection \<open>Cycle detection\<close>

lemma get_or_empty_fmupd [simp]:
  "get_or_empty (fmupd k v m) x = (if k = x then v else get_or_empty m x)"
  by (simp add: get_or_empty_def)

lemma get_or_empty_fmempty [simp]: "get_or_empty fmempty x = []"
  by (simp add: get_or_empty_def)

lemma reverse_push:
  "set (get_or_empty (foldl (\<lambda>r p. fmupd p (get_or_empty r p @ [i]) r) r ps) q)
    = set (get_or_empty r q) \<union> {c. c = i \<and> q \<in> set ps}"
  by (induction ps arbitrary: r) auto

lemma reverse_fold:
  "set (get_or_empty
      (foldl (\<lambda>r (i, ps). foldl (\<lambda>r p. fmupd p (get_or_empty r p @ [i]) r) r ps) r xs) q)
    = set (get_or_empty r q) \<union> {c. \<exists>ps. (c, ps) \<in> set xs \<and> q \<in> set ps}"
  by (induction xs arbitrary: r) (auto simp: reverse_push)

lemma next_rel_reverse_index: "next_rel (reverse_index P) = (next_rel P)\<inverse>"
proof -
  have "set (get_or_empty (reverse_index P) q) = {c. (c, q) \<in> next_rel P}" for q
    unfolding reverse_index_def
    by (simp add: reverse_fold set_sorted_list_of_fmap next_rel_iff)
  then show ?thesis by (auto simp: next_rel_def)
qed

lemma fset_cycle_members:
  "fset (cycle_members g o1) =
     {x. (o1, x) \<in> (next_rel (cg_parents g))\<^sup>+ \<and> (x, o1) \<in> (next_rel (cg_parents g))\<^sup>*}"
proof -
  define R where "R = next_rel (cg_parents g)"
  let ?anc = "reach_loop (cg_parents g) {||} (rev (get_or_empty (cg_parents g) o1))"
  let ?desc = "reach_loop (reverse_index (cg_parents g)) {||} [o1]"
  have anc: "fset ?anc = {x. (o1, x) \<in> R\<^sup>+}"
    unfolding reach_loop_from_empty R_def [symmetric]
    by (simp add: next_rel_Image [symmetric] R_def [symmetric] trancl_unfold_left relcomp.simps
        Image_iff) blast
  have desc: "fset ?desc = {x. (x, o1) \<in> R\<^sup>*}"
    unfolding reach_loop_from_empty next_rel_reverse_index
    by (auto simp: R_def rtrancl_converse)
  show ?thesis
  proof (cases "(o1, o1) \<in> R\<^sup>+")
    case True
    then have "o1 |\<in>| ?anc" using anc by auto
    then show ?thesis
      using anc desc by (auto simp: cycle_members_def Let_def R_def)
  next
    case False
    then have "o1 |\<notin>| ?anc" using anc by auto
    moreover have "{x. (o1, x) \<in> R\<^sup>+ \<and> (x, o1) \<in> R\<^sup>*} = {}"
      using False by (auto dest: trancl_rtrancl_trancl)
    ultimately show ?thesis by (simp add: cycle_members_def R_def)
  qed
qed

lemma foldl_funion: "fset (foldl (\<lambda>acc i. acc |\<union>| f i) A xs) = fset A \<union> (\<Union>i\<in>set xs. fset (f i))"
  by (induction xs arbitrary: A) auto

lemma fset_all_cyclic_ids: "fset (all_cyclic_ids g) = {x. (x, x) \<in> (next_rel (cg_parents g))\<^sup>+}"
proof -
  define R where "R = next_rel (cg_parents g)"
  have "fset (all_cyclic_ids g)
      = (\<Union>i\<in>fset (fmdom (cg_parents g)). {x. (i, x) \<in> R\<^sup>+ \<and> (x, i) \<in> R\<^sup>*})"
    by (simp add: all_cyclic_ids_def foldl_funion fset_cycle_members R_def)
  also have "\<dots> = {x. (x, x) \<in> R\<^sup>+}"
    using next_rel_trancl_dom [of _ _ "cg_parents g"]
    by (auto simp: R_def [symmetric] dest: rtrancl_trancl_trancl)
  finally show ?thesis by (simp add: R_def)
qed

subsection \<open>The derived quarantine\<close>

lemma quarantine_base_dom:
  "fset (fmdom (quarantine_base g)) = fset (fmdom (cg_quarantine_roots g)) \<union> fset (cg_cyclic g)"
  by (auto simp: quarantine_base_def fset_of_list_elem)

text \<open>The rejection of an id spreads along the causal edges, against the parent direction.\<close>

lemma quarantine_loop_dom:
  "fset (fmdom (quarantine_loop P q)) = {x. \<exists>r. r |\<in>| fmdom q \<and> (x, r) \<in> (next_rel P)\<^sup>*}"
proof (induction P q rule: quarantine_loop.induct)
  case (1 P q)
  define R where "R = next_rel P"
  let ?rej = "rejected_descendants P q"
  have rej: "set ?rej = {i. i |\<notin>| fmdom q \<and> (\<exists>p. (i, p) \<in> R \<and> p |\<in>| fmdom q)}"
    by (auto simp: set_rejected_descendants R_def next_rel_iff)
  show ?case
  proof (cases "?rej = []")
    case True
    have "x |\<in>| fmdom q" if "(x, r) \<in> R\<^sup>*" "r |\<in>| fmdom q" for x r
      using that
    proof (induction rule: converse_rtrancl_induct)
      case (step y z)
      then show ?case using rej True by auto
    qed
    then show ?thesis
      using True by (auto simp: quarantine_loop.simps [of P q] R_def)
  next
    case False
    have "fset (fmdom (quarantine_loop P q))
        = {x. \<exists>r. (r |\<in>| fmdom q \<or> r \<in> set ?rej) \<and> (x, r) \<in> R\<^sup>*}"
      using False 1
      by (simp add: quarantine_loop.simps [of P q] R_def fset_of_list_elem)
    also have "\<dots> = {x. \<exists>r. r |\<in>| fmdom q \<and> (x, r) \<in> R\<^sup>*}"
      using rej by (auto intro: rtrancl_into_rtrancl)
    finally show ?thesis by (simp add: R_def)
  qed
qed

lemma recompute_quarantine_dom:
  "fset (fmdom (cg_quarantined (recompute_quarantine g))) =
     {x. \<exists>r. (r |\<in>| fmdom (cg_quarantine_roots g) \<or> r |\<in>| cg_cyclic g)
           \<and> (x, r) \<in> (next_rel (cg_parents g))\<^sup>*}"
  using quarantine_base_dom [of g] by (auto simp: recompute_quarantine_def quarantine_loop_dom)

lemma recompute_quarantine_fields [simp]:
  "cg_parents (recompute_quarantine g) = cg_parents g"
  "cg_quarantine_roots (recompute_quarantine g) = cg_quarantine_roots g"
  "cg_cyclic (recompute_quarantine g) = cg_cyclic g"
  by (simp_all add: recompute_quarantine_def)

subsection \<open>Well-formed graphs\<close>

definition wf_graph :: "'id::linorder causal_graph \<Rightarrow> bool" where
  "wf_graph g \<longleftrightarrow>
     (\<forall>i ps. fmlookup (cg_parents g) i = Some ps \<longrightarrow> normalize_parents ps = ps)
     \<and> cg_cyclic g = all_cyclic_ids g \<and> recompute_quarantine g = g"

lemma wf_graphD_norm: "wf_graph g \<Longrightarrow> fmlookup (cg_parents g) i = Some ps \<Longrightarrow> normalize_parents ps = ps"
  by (simp add: wf_graph_def)

lemma wf_graphD_cyclic: "wf_graph g \<Longrightarrow> cg_cyclic g = all_cyclic_ids g"
  by (simp add: wf_graph_def)

lemma wf_graphD_quarantine: "wf_graph g \<Longrightarrow> recompute_quarantine g = g"
  by (simp add: wf_graph_def)

lemma recompute_quarantine_idem [simp]:
  "recompute_quarantine (recompute_quarantine g) = recompute_quarantine g"
  by (simp add: recompute_quarantine_def quarantine_base_def)

lemma all_cyclic_ids_parents: "cg_parents g = cg_parents h \<Longrightarrow> all_cyclic_ids g = all_cyclic_ids h"
  by (rule iffD1 [OF fset_inject]) (simp add: fset_all_cyclic_ids)

lemma all_cyclic_ids_simps [simp]:
  "all_cyclic_ids (g\<lparr>cg_cyclic := C\<rparr>) = all_cyclic_ids g"
  "all_cyclic_ids (g\<lparr>cg_quarantine_roots := Q\<rparr>) = all_cyclic_ids g"
  by (rule all_cyclic_ids_parents, simp)+

lemma wf_graph_recomputeI:
  assumes "\<And>i ps. fmlookup (cg_parents g) i = Some ps \<Longrightarrow> normalize_parents ps = ps"
    and "cg_cyclic g = all_cyclic_ids g"
  shows "wf_graph (recompute_quarantine g)"
  using assms all_cyclic_ids_parents [of "recompute_quarantine g" g] by (simp add: wf_graph_def)

lemma wf_new_graph: "wf_graph new_graph"
proof -
  have "fset (all_cyclic_ids (new_graph :: 'a causal_graph)) = {}"
    using next_rel_trancl_dom [of _ _ "fmempty :: ('a, 'a list) fmap"]
    by (auto simp: fset_all_cyclic_ids new_graph_def)
  moreover have "quarantine_base (new_graph :: 'a causal_graph) = fmempty"
    by (simp add: quarantine_base_def new_graph_def merge_reason_for_def)
  moreover have "rejected_descendants (fmempty :: ('a, 'a list) fmap) fmempty = []"
    by (simp add: rejected_descendants_def sorted_list_of_fmap_def)
  ultimately show ?thesis
    by (simp add: wf_graph_def new_graph_def recompute_quarantine_def
        quarantine_loop.simps [of fmempty fmempty] fset_inject [symmetric])
qed

text \<open>
  The incremental step of \<open>insert\<close>: a new event's parent set can close cycles only through
  that event.
\<close>

lemma trancl_new_source:
  assumes "\<And>c. (i, c) \<notin> R" and "R' = R \<union> {i} \<times> S"
  shows "(x, y) \<in> R'\<^sup>+ \<Longrightarrow> (x, y) \<in> R\<^sup>+ \<or> (x, i) \<in> R'\<^sup>* \<and> (i, y) \<in> R'\<^sup>+"
proof (induction rule: trancl_induct)
  case (base y)
  then show ?case using assms(2) by auto
next
  case (step y z)
  show ?case
  proof (cases "y = i")
    case True
    then show ?thesis using step.hyps by auto
  next
    case False
    then have "(y, z) \<in> R" using step.hyps(2) assms(2) by auto
    then show ?thesis using step.IH step.hyps(2) by (auto intro: trancl_into_trancl)
  qed
qed

lemma next_rel_fmupd_new:
  assumes "i |\<notin>| fmdom P"
  shows "next_rel (fmupd i ps P) = next_rel P \<union> {i} \<times> set ps"
proof -
  have "get_or_empty P i = []" using assms by (simp add: get_or_empty_def fmdom_notD)
  then show ?thesis by (auto simp: next_rel_def split: if_splits)
qed

lemma cycle_members_incremental:
  assumes wf: "wf_graph g" and new: "i |\<notin>| fmdom (cg_parents g)"
    and g1: "g1 = g\<lparr>cg_parents := fmupd i ps (cg_parents g)\<rparr>"
  shows "cg_cyclic g1 |\<union>| cycle_members g1 i = all_cyclic_ids g1"
proof -
  define R where "R = next_rel (cg_parents g)"
  define R' where "R' = next_rel (cg_parents g1)"
  have R': "R' = R \<union> {i} \<times> set ps" by (simp add: R'_def R_def g1 next_rel_fmupd_new new)
  have src: "(i, c) \<notin> R" for c using new next_rel_dom [of i c] by (auto simp: R_def)
  have old: "fset (cg_cyclic g1) = {x. (x, x) \<in> R\<^sup>+}"
    using wf by (simp add: g1 wf_graph_def fset_all_cyclic_ids R_def)
  have "R\<^sup>+ \<subseteq> R'\<^sup>+" by (auto simp: R' intro: trancl_mono)
  moreover have "(x, x) \<in> R'\<^sup>+ \<Longrightarrow> (x, x) \<in> R\<^sup>+ \<or> (i, x) \<in> R'\<^sup>+ \<and> (x, i) \<in> R'\<^sup>*" for x
    using trancl_new_source [OF src R'] by blast
  moreover have "(i, x) \<in> R'\<^sup>+ \<Longrightarrow> (x, i) \<in> R'\<^sup>* \<Longrightarrow> (x, x) \<in> R'\<^sup>+" for x
    by (rule rtrancl_trancl_trancl)
  ultimately have "fset (cg_cyclic g1) \<union> fset (cycle_members g1 i) = {x. (x, x) \<in> R'\<^sup>+}"
    unfolding old fset_cycle_members R'_def [symmetric] by auto
  then show ?thesis
    by (simp add: fset_inject [symmetric] fset_all_cyclic_ids R'_def)
qed

lemma wf_insert_event: "wf_graph g \<Longrightarrow> wf_graph (ci_graph (insert_event g req))"
proof -
  assume wf: "wf_graph g"
  let ?i = "ins_id req" and ?ps = "normalize_parents (ins_parents req)"
  note norm = wf_graphD_norm [OF wf]
  have nn: "normalize_parents ?ps = ?ps" by (simp add: normalize_parents_def)
  show ?thesis
  proof (cases "fmlookup (cg_parents g) ?i")
    case None
    then have new: "?i |\<notin>| fmdom (cg_parents g)" by (rule fmdom_notI)
    show ?thesis
      using None norm nn cycle_members_incremental [OF wf new refl, of ?ps]
      by (simp add: insert_event_def Let_def, intro wf_graph_recomputeI) (simp_all split: if_splits)
  next
    case (Some existing)
    then show ?thesis
      using wf norm nn wf_graphD_cyclic [OF wf]
      by (simp add: insert_event_def Let_def)
        (intro conjI impI wf_graph_recomputeI; simp split: if_splits)
  qed
qed

lemma wf_quarantine_event: "wf_graph g \<Longrightarrow> wf_graph (quarantine_event g req)"
  unfolding quarantine_event_def
  by (rule wf_graph_recomputeI) (simp_all add: wf_graphD_norm wf_graphD_cyclic)

subsection \<open>Applicability and topological order\<close>

lemma set_applicable_ids:
  "set (applicable_ids g) = {i. i |\<notin>| fmdom (cg_quarantined g) \<and> ancestors_present g i}"
  by (auto simp: applicable_ids_def ancestors_present_def split: option.splits dest: fmdom_notI fmdomI)

lemma distinct_applicable_ids [simp]: "distinct (applicable_ids g)"
  by (simp add: applicable_ids_def)

lemma wf_graph_quarantined:
  assumes "wf_graph g"
  shows "i |\<in>| fmdom (cg_quarantined g) \<longleftrightarrow>
    (\<exists>r. (r |\<in>| fmdom (cg_quarantine_roots g) \<or> (r, r) \<in> (next_rel (cg_parents g))\<^sup>+)
       \<and> (i, r) \<in> (next_rel (cg_parents g))\<^sup>*)"
proof -
  have "fset (cg_cyclic g) = {r. (r, r) \<in> (next_rel (cg_parents g))\<^sup>+}"
    using assms by (simp add: wf_graphD_cyclic fset_all_cyclic_ids)
  then show ?thesis
    using recompute_quarantine_dom [of g] by (auto simp: wf_graphD_quarantine [OF assms])
qed

lemma applicable_parent_closed:
  assumes "wf_graph g" "i \<in> set (applicable_ids g)" "(i, p) \<in> (next_rel (cg_parents g))\<^sup>*"
  shows "p \<in> set (applicable_ids g)"
  using assms
  by (auto simp: set_applicable_ids wf_graph_quarantined ancestors_present_iff)
    (meson rtrancl_trans)+

lemma applicable_acyclic:
  assumes "wf_graph g" "i \<in> set (applicable_ids g)"
  shows "(i, i) \<notin> (next_rel (cg_parents g))\<^sup>+"
  using assms by (auto simp: set_applicable_ids wf_graph_quarantined)

text \<open>In a finite non-empty set without a cycle, some member has no parent in the set.\<close>

lemma acyclic_minimal:
  assumes "finite A" "A \<noteq> {}" "\<And>x. x \<in> A \<Longrightarrow> (x, x) \<notin> R\<^sup>+"
  shows "\<exists>x\<in>A. \<forall>y. (x, y) \<in> R \<longrightarrow> y \<notin> A"
proof -
  let ?S = "(R \<inter> A \<times> A)\<inverse>"
  have "finite ?S" using assms(1) by (simp add: finite_subset [of _ "A \<times> A"])
  moreover have "acyclic ?S"
  proof (rule acyclicI, intro allI notI)
    fix x assume "(x, x) \<in> ?S\<^sup>+"
    then have "(x, x) \<in> (R \<inter> A \<times> A)\<^sup>+" by (simp add: trancl_converse)
    then have "(x, x) \<in> R\<^sup>+" "x \<in> A"
      by (auto intro: trancl_mono dest: tranclD)
    then show False using assms(3) by blast
  qed
  ultimately have "wf ?S" by (rule finite_acyclic_wf)
  then obtain x where "x \<in> A" "\<And>y. (y, x) \<in> ?S \<Longrightarrow> y \<notin> A"
    using assms(2) by (metis wfE_min ex_in_conv)
  then show ?thesis by blast
qed

lemma set_topo_ready:
  "set (topo_ready P ordered remaining) =
     {i. i |\<in>| remaining \<and> i |\<in>| fmdom P
       \<and> (\<forall>p. (i, p) \<in> next_rel P \<longrightarrow> p \<in> set ordered \<or> p |\<notin>| remaining)}"
  by (auto simp: topo_ready_def next_rel_iff fmdomI split: option.splits dest: fmdom_notD)

lemma distinct_topo_ready [simp]: "distinct (topo_ready P ordered remaining)"
  by (simp add: topo_ready_def)

definition placed_after_parents :: "('id, 'id list) fmap \<Rightarrow> 'id list \<Rightarrow> bool" where
  "placed_after_parents P xs \<longleftrightarrow>
     (\<forall>k < length xs. \<forall>p. (xs ! k, p) \<in> next_rel P \<longrightarrow> p \<in> set (take k xs))"

lemma placed_after_parents_append:
  assumes "placed_after_parents P xs"
    and "\<And>y p. y \<in> set ys \<Longrightarrow> (y, p) \<in> next_rel P \<Longrightarrow> p \<in> set xs"
  shows "placed_after_parents P (xs @ ys)"
  unfolding placed_after_parents_def
proof (intro allI impI)
  fix k p
  assume k: "k < length (xs @ ys)" and p: "((xs @ ys) ! k, p) \<in> next_rel P"
  show "p \<in> set (take k (xs @ ys))"
  proof (cases "k < length xs")
    case True
    then show ?thesis using assms(1) p by (auto simp: placed_after_parents_def nth_append)
  next
    case False
    then have "ys ! (k - length xs) \<in> set ys" using k by auto
    then show ?thesis using assms(2) p False by (auto simp: nth_append)
  qed
qed

lemma topo_loop_total:
  assumes "\<And>i. i |\<in>| remaining \<Longrightarrow> i |\<in>| fmdom P \<and> (i, i) \<notin> (next_rel P)\<^sup>+"
    and "\<And>i p. i |\<in>| remaining \<Longrightarrow> (i, p) \<in> next_rel P \<Longrightarrow> p |\<in>| remaining \<or> p \<in> set ordered"
    and "set ordered \<inter> fset remaining = {}" "distinct ordered" "placed_after_parents P ordered"
  shows "\<exists>xs. topo_loop P ordered remaining = Inr xs \<and> set xs = set ordered \<union> fset remaining
    \<and> distinct xs \<and> placed_after_parents P xs"
  using assms
proof (induction P ordered remaining rule: topo_loop.induct)
  case (1 P ordered remaining)
  show ?case
  proof (cases "remaining = {||}")
    case True
    then have "topo_loop P ordered remaining = Inr ordered"
      by (simp add: topo_loop.simps [of P ordered "{||}"])
    then show ?thesis using True "1.prems" by auto
  next
    case False
    let ?ready = "topo_ready P ordered remaining"
    obtain i where i: "i |\<in>| remaining" "\<And>p. (i, p) \<in> next_rel P \<Longrightarrow> p |\<notin>| remaining"
      using acyclic_minimal [of "fset remaining" "next_rel P"] False "1.prems"(1)
      by (auto simp: fset_eq_iff)
    then have i_ready: "i \<in> set ?ready" using "1.prems"(1,2) by (auto simp: set_topo_ready)
    define remaining' where "remaining' = remaining |-| fset_of_list ?ready"
    have "remaining' |\<subset>| remaining"
      using i(1) i_ready by (auto simp: remaining'_def fset_of_list_elem)
    then have smaller: "fcard remaining' \<noteq> fcard remaining"
      by (metis less_irrefl pfsubset_fcard_mono)
    have loop: "topo_loop P ordered remaining = topo_loop P (ordered @ ?ready) remaining'"
      using False i_ready smaller
      by (auto simp: topo_loop.simps [of P ordered remaining] remaining'_def Let_def)
    have ready: "y |\<in>| remaining" "(y, p) \<in> next_rel P \<Longrightarrow> p \<in> set ordered" if "y \<in> set ?ready" for y p
      using that "1.prems"(2) by (auto simp: set_topo_ready)
    have "\<exists>xs. topo_loop P (ordered @ ?ready) remaining' = Inr xs
        \<and> set xs = set (ordered @ ?ready) \<union> fset remaining' \<and> distinct xs \<and> placed_after_parents P xs"
    proof (rule "1.IH" [OF False refl _ refl, of remaining' "ordered @ ?ready"])
      show "?ready \<noteq> []" using i_ready by auto
      show "(remaining', ordered @ ?ready) = topo_place (remaining, ordered) ?ready"
        by (simp add: remaining'_def)
      show "fcard remaining' \<noteq> fcard remaining" by (rule smaller)
      show "\<And>i. i |\<in>| remaining' \<Longrightarrow> i |\<in>| fmdom P \<and> (i, i) \<notin> (next_rel P)\<^sup>+"
        using "1.prems"(1) by (auto simp: remaining'_def)
      show "\<And>i p. i |\<in>| remaining' \<Longrightarrow> (i, p) \<in> next_rel P
          \<Longrightarrow> p |\<in>| remaining' \<or> p \<in> set (ordered @ ?ready)"
        using "1.prems"(2) by (auto simp: remaining'_def fset_of_list_elem)
      show "set (ordered @ ?ready) \<inter> fset remaining' = {}"
        using "1.prems"(3) by (auto simp: remaining'_def fset_of_list_elem)
      show "distinct (ordered @ ?ready)" using "1.prems"(3,4) ready(1) by auto
      show "placed_after_parents P (ordered @ ?ready)"
        by (rule placed_after_parents_append [OF "1.prems"(5) ready(2)])
    qed
    moreover have "set (ordered @ ?ready) \<union> fset remaining' = set ordered \<union> fset remaining"
      using ready(1) by (auto simp: remaining'_def fset_of_list_elem)
    ultimately show ?thesis unfolding loop by simp
  qed
qed

lemma topological_order_total:
  assumes "wf_graph g"
  shows "\<exists>xs. topological_order g = Inr xs \<and> set xs = set (applicable_ids g) \<and> distinct xs
    \<and> placed_after_parents (cg_parents g) xs"
proof -
  have dom: "i |\<in>| fmdom (cg_parents g)" if "i \<in> set (applicable_ids g)" for i
    using that by (auto simp: applicable_ids_def)
  have step: "(i, p) \<in> next_rel (cg_parents g) \<Longrightarrow> p \<in> set (applicable_ids g)"
    if "i \<in> set (applicable_ids g)" for i p
    using applicable_parent_closed [OF assms that] by blast
  show ?thesis
    using topo_loop_total [of "fset_of_list (applicable_ids g)" "cg_parents g" "[]"]
      dom step applicable_acyclic [OF assms]
    by (simp add: topological_order_def fset_of_list_elem placed_after_parents_def fset_of_list.rep_eq)
qed

lemma heads_spec:
  "set (heads g) = {i. i |\<in>| fmdom (cg_parents g) \<and> i |\<notin>| fmdom (cg_quarantined g)
     \<and> (\<forall>c. (c, i) \<in> next_rel (cg_parents g) \<longrightarrow> c |\<in>| fmdom (cg_quarantined g))}"
proof -
  have fold: "fset (foldl (\<lambda>acc (i, ps). if i |\<in>| q then acc else acc |\<union>| fset_of_list ps) A xs)
      = fset A \<union> {p. \<exists>(i, ps) \<in> set xs. i |\<notin>| q \<and> p \<in> set ps}"
    for q A and xs :: "('a \<times> 'a list) list"
    by (induction xs arbitrary: A) (auto simp: fset_of_list.rep_eq split: if_splits)
  show ?thesis
    by (auto simp: heads_def Let_def fold set_sorted_list_of_fmap next_rel_iff)
qed

lemma set_pending_ids:
  "set (pending_ids g) = {i. i |\<in>| fmdom (cg_parents g) \<and> i |\<notin>| fmdom (cg_quarantined g)
     \<and> \<not> ancestors_present g i}"
proof -
  have "ps \<noteq> []" if "\<not> ancestor_ids_present g ps" for ps
    using that by (auto simp: ancestor_ids_present_iff)
  then show ?thesis
    by (auto simp: pending_ids_def set_sorted_list_of_fmap ancestors_present_def image_iff
        fmlookup_dom_iff split: option.splits)
qed

end
