(* ===== verification/CausalUnion.thy ===== *)
theory CausalUnion
  imports CausalGraph
begin

text \<open>
  The union of two causal graphs (\<^verbatim>\<open>nook-replication/src/causal_graph/union.rs\<close>) and its
  algebra. A graph is determined by its cells (recorded parents and recorded rejection of each id);
  union joins cells, so it is commutative, associative and idempotent on well-formed graphs, and
  inserting or rejecting an event is the union with a one-event graph. The interface is the locale
  \<open>replicated_join\<close>, interpreted here on the code's union.
\<close>

definition union_parent_step ::
    "'id::linorder causal_graph \<Rightarrow> 'id \<times> 'id list \<Rightarrow> 'id causal_graph" where
  "union_parent_step merged entry =
     (case entry of (i, other_parents) \<Rightarrow>
       let ps = normalize_parents other_parents in
       case fmlookup (cg_parents merged) i of
         Some existing \<Rightarrow>
           if existing \<noteq> ps then
             let m = (if ps < existing
                      then merged\<lparr>cg_parents := fmupd i ps (cg_parents merged)\<rparr> else merged)
             in m\<lparr>cg_quarantine_roots :=
                  merge_quarantine_reason (cg_quarantine_roots m) i conflict_reason\<rparr>
           else merged
       | None \<Rightarrow> merged\<lparr>cg_parents := fmupd i ps (cg_parents merged)\<rparr>)"

definition union_root_step ::
    "'id causal_graph \<Rightarrow> 'id \<times> string \<Rightarrow> 'id causal_graph" where
  "union_root_step merged entry =
     (case entry of (i, reason) \<Rightarrow>
       merged\<lparr>cg_quarantine_roots :=
         merge_quarantine_reason (cg_quarantine_roots merged) i reason\<rparr>)"

definition union_graph ::
    "'id::linorder causal_graph \<Rightarrow> 'id causal_graph \<Rightarrow> 'id causal_graph" where
  "union_graph self other =
     (let merged1 = foldl union_parent_step self (sorted_list_of_fmap (cg_parents other));
          merged2 = foldl union_root_step merged1 (sorted_list_of_fmap (cg_quarantine_roots other));
          merged3 = merged2\<lparr>cg_cyclic := all_cyclic_ids merged2\<rparr>
      in recompute_quarantine merged3)"

text \<open>
  Everything a causal graph derives depends on its cells: for each id its recorded parents and its
  recorded rejection. Two cells join by the smaller entry, and two different parent sets add the
  conflict reason.
\<close>

type_synonym 'id cell = "'id list option \<times> string option"

definition cell :: "'id causal_graph \<Rightarrow> 'id \<Rightarrow> 'id cell" where
  "cell g i = (fmlookup (cg_parents g) i, fmlookup (cg_quarantine_roots g) i)"

fun parent_conflict :: "'id list option \<Rightarrow> 'id list option \<Rightarrow> string option" where
  "parent_conflict (Some a) (Some b) = (if a = b then None else Some conflict_reason)"
| "parent_conflict _ _ = None"

definition join_cell :: "'id::linorder cell \<Rightarrow> 'id cell \<Rightarrow> 'id cell" where
  "join_cell c d = (opt_min (fst c) (fst d),
     opt_min (opt_min (snd c) (snd d)) (parent_conflict (fst c) (fst d)))"

lemma parent_conflict_commute: "parent_conflict p q = parent_conflict q p"
  by (cases p; cases q) auto

lemma join_cell_commute: "join_cell c d = join_cell d c"
  by (simp add: join_cell_def opt_min_commute parent_conflict_commute)

lemma join_cell_idem: "join_cell c c = c"
  by (cases c; cases "fst c") (auto simp: join_cell_def)

lemma parent_conflict_assoc:
  "opt_min (parent_conflict p q) (parent_conflict (opt_min p q) r)
    = opt_min (parent_conflict q r) (parent_conflict p (opt_min q r))"
  by (cases p; cases q; cases r) (auto simp: min_def)

lemma join_cell_assoc: "join_cell (join_cell c d) e = join_cell c (join_cell d e)"
proof -
  obtain p1 q1 p2 q2 p3 q3 where c: "c = (p1, q1)" "d = (p2, q2)" "e = (p3, q3)"
    by (metis surj_pair)
  have "opt_min (opt_min (opt_min (opt_min q1 q2) (parent_conflict p1 p2)) q3)
          (parent_conflict (opt_min p1 p2) p3)
      = opt_min (opt_min q1 (opt_min q2 q3))
          (opt_min (parent_conflict p1 p2) (parent_conflict (opt_min p1 p2) p3))"
    by (simp add: opt_min_assoc opt_min_commute opt_min_left_commute)
  also have "\<dots> = opt_min (opt_min q1 (opt_min q2 q3))
          (opt_min (parent_conflict p2 p3) (parent_conflict p1 (opt_min p2 p3)))"
    by (simp only: parent_conflict_assoc)
  also have "\<dots> = opt_min (opt_min q1 (opt_min (opt_min q2 q3) (parent_conflict p2 p3)))
          (parent_conflict p1 (opt_min p2 p3))"
    by (simp add: opt_min_assoc opt_min_commute opt_min_left_commute)
  finally show ?thesis by (simp add: c join_cell_def opt_min_assoc)
qed

lemma lookup_merge_quarantine_reason [simp]:
  "fmlookup (merge_quarantine_reason m i r) j =
     (if j = i then opt_min (fmlookup m j) (Some r) else fmlookup m j)"
  by (auto simp: merge_quarantine_reason_def min_def split: option.splits)

lemma wf_graph_eqI:
  assumes "wf_graph g" "wf_graph h" "\<And>i. cell g i = cell h i"
  shows "g = h"
proof -
  have P: "cg_parents g = cg_parents h" and Q: "cg_quarantine_roots g = cg_quarantine_roots h"
    using assms(3) by (auto intro: fmap_ext simp: cell_def)
  have "fset (all_cyclic_ids g) = fset (all_cyclic_ids h)" using P by (simp add: fset_all_cyclic_ids)
  then have C: "cg_cyclic g = cg_cyclic h" using assms(1,2) by (simp add: wf_graph_def fset_inject)
  have "cg_quarantined g = quarantine_loop (cg_parents g) (quarantine_base g)"
    and "cg_quarantined h = quarantine_loop (cg_parents h) (quarantine_base h)"
    using assms(1,2) by (metis wf_graph_def recompute_quarantine_def causal_graph.select_convs(4)
        causal_graph.surjective causal_graph.update_convs(4))+
  then show ?thesis using P Q C by (simp add: quarantine_base_def)
qed

lemma cell_recompute [simp]: "cell (recompute_quarantine g) i = cell g i"
  by (simp add: cell_def)

lemma cell_simps [simp]:
  "cell (g\<lparr>cg_cyclic := C\<rparr>) i = cell g i"
  "cell (g\<lparr>cg_quarantine_roots := Q\<rparr>) i = (fmlookup (cg_parents g) i, fmlookup Q i)"
  "cell (g\<lparr>cg_parents := P\<rparr>) i = (fmlookup P i, fmlookup (cg_quarantine_roots g) i)"
  by (simp_all add: cell_def)

subsection \<open>Union joins cells\<close>

lemma cell_union_parent_step:
  "cell (union_parent_step m (i, ps)) j =
     (if j = i then join_cell (cell m j) (Some (normalize_parents ps), None) else cell m j)"
  by (auto simp: union_parent_step_def Let_def cell_def join_cell_def min_def
      split: option.splits)

lemma cell_union_root_step:
  "cell (union_root_step m (i, r)) j =
     (if j = i then join_cell (cell m j) (None, Some r) else cell m j)"
  by (auto simp: union_root_step_def cell_def join_cell_def)

lemma join_cell_None [simp]: "join_cell c (None, None) = c" "join_cell (None, None) c = c"
  by (simp_all add: join_cell_def)

lemma join_cell_split: "join_cell c (p, q) = join_cell (join_cell c (p, None)) (None, q)"
  by (simp add: join_cell_assoc) (simp add: join_cell_def)

lemma distinct_map_fst_sorted_list_of_fmap [simp]: "distinct (map fst (sorted_list_of_fmap m))"
  by simp

lemma cell_union_graph:
  assumes "wf_graph h"
  shows "cell (union_graph g h) i = join_cell (cell g i) (cell h i)"
proof -
  have 1: "cell (foldl union_parent_step g (sorted_list_of_fmap (cg_parents h))) i
      = join_cell (cell g i) (fmlookup (cg_parents h) i, None)"
    using foldl_pointwise [where look = cell and f = union_parent_step and m = g and j = i
        and h = "\<lambda>ps c. join_cell c (Some (normalize_parents ps), None)",
        OF cell_union_parent_step, OF distinct_map_fst_sorted_list_of_fmap, of "cg_parents h"]
      wf_graphD_norm [OF assms, of i]
    by (simp split: option.splits)
  have 2: "cell (foldl union_root_step m (sorted_list_of_fmap (cg_quarantine_roots h))) i
      = join_cell (cell m i) (None, fmlookup (cg_quarantine_roots h) i)" for m
    using foldl_pointwise [where look = cell and f = union_root_step and m = m and j = i
        and h = "\<lambda>r c. join_cell c (None, Some r)",
        OF cell_union_root_step, OF distinct_map_fst_sorted_list_of_fmap, of "cg_quarantine_roots h"]
    by (simp split: option.splits)
  show ?thesis
    unfolding union_graph_def Let_def cell_recompute cell_simps 2 1
    by (simp add: join_cell_split [symmetric]) (simp add: cell_def)
qed

lemma wf_union_graph:
  assumes "wf_graph g" "wf_graph h"
  shows "wf_graph (union_graph g h)"
proof -
  define m where "m = foldl union_root_step
    (foldl union_parent_step g (sorted_list_of_fmap (cg_parents h)))
    (sorted_list_of_fmap (cg_quarantine_roots h))"
  have u: "union_graph g h = recompute_quarantine (m\<lparr>cg_cyclic := all_cyclic_ids m\<rparr>)"
    by (simp add: union_graph_def m_def Let_def)
  have "normalize_parents ps = ps" if "fmlookup (cg_parents m) i = Some ps" for i ps
  proof -
    have "cell m i = join_cell (cell g i) (cell h i)"
      using cell_union_graph [OF assms(2), of g i] by (simp add: u cell_def)
    moreover have "fst (cell m i) = Some ps" using that by (simp add: cell_def)
    ultimately have "fst (join_cell (cell g i) (cell h i)) = Some ps" by simp
    then have "fmlookup (cg_parents g) i = Some ps \<or> fmlookup (cg_parents h) i = Some ps"
      by (auto simp: join_cell_def cell_def min_def elim!: opt_min.elims split: if_splits)
    then show ?thesis using assms wf_graphD_norm by blast
  qed
  then show ?thesis unfolding u by (intro wf_graph_recomputeI) simp_all
qed

interpretation causal_join: replicated_join union_graph wf_graph
proof
  fix x y z :: "'a causal_graph"
  assume wf: "wf_graph x"
  show "union_graph x x = x"
    by (rule wf_graph_eqI) (simp_all add: wf wf_union_graph cell_union_graph join_cell_idem)
  assume wfy: "wf_graph y"
  show "wf_graph (union_graph x y)" by (rule wf_union_graph [OF wf wfy])
  show "union_graph x y = union_graph y x"
    by (rule wf_graph_eqI) (simp_all add: wf wfy wf_union_graph cell_union_graph join_cell_commute)
  assume wfz: "wf_graph z"
  show "union_graph (union_graph x y) z = union_graph x (union_graph y z)"
    by (rule wf_graph_eqI)
      (simp_all add: wf wfy wfz wf_union_graph cell_union_graph join_cell_assoc)
qed

subsection \<open>Operations are joins\<close>

datatype 'id causal_op = OpInsert "'id causal_event_insertion" | OpQuarantine "'id causal_quarantine"

fun apply_op :: "'id::linorder causal_graph \<Rightarrow> 'id causal_op \<Rightarrow> 'id causal_graph" where
  "apply_op g (OpInsert r) = ci_graph (insert_event g r)"
| "apply_op g (OpQuarantine r) = quarantine_event g r"

lemma wf_apply_op: "wf_graph g \<Longrightarrow> wf_graph (apply_op g x)"
  by (cases x) (simp_all add: wf_insert_event wf_quarantine_event)

lemma cell_insert_event:
  "wf_graph g \<Longrightarrow> cell (ci_graph (insert_event g r)) i =
     (if i = ins_id r then join_cell (cell g i) (Some (normalize_parents (ins_parents r)), None)
      else cell g i)"
  by (auto simp: insert_event_def Let_def cell_def join_cell_def min_def split: option.splits)

lemma cell_quarantine_event:
  "cell (quarantine_event g r) i =
     (if i = quar_id r then join_cell (cell g i) (None, Some (quar_reason r)) else cell g i)"
  by (auto simp: quarantine_event_def cell_def join_cell_def)

lemma cell_new_graph [simp]: "cell new_graph i = (None, None)"
  by (simp add: cell_def new_graph_def)

lemma apply_op_is_union:
  assumes "wf_graph g"
  shows "apply_op g x = union_graph g (apply_op new_graph x)"
proof (rule wf_graph_eqI)
  show "wf_graph (apply_op g x)" by (rule wf_apply_op [OF assms])
  show "wf_graph (union_graph g (apply_op new_graph x))"
    by (intro wf_union_graph assms wf_apply_op wf_new_graph)
  show "cell (apply_op g x) i = cell (union_graph g (apply_op new_graph x)) i" for i
    using assms wf_apply_op [OF wf_new_graph, of x]
    by (cases x) (simp_all add: cell_union_graph cell_insert_event cell_quarantine_event wf_new_graph)
qed

lemma replay_is_union:
  "wf_graph g \<Longrightarrow> foldl apply_op g ops = foldl union_graph g (map (apply_op new_graph) ops)"
  by (induction ops arbitrary: g) (simp_all add: apply_op_is_union [symmetric] wf_apply_op)

lemma wf_replay: "wf_graph g \<Longrightarrow> wf_graph (foldl apply_op g ops)"
  by (induction ops arbitrary: g) (simp_all add: wf_apply_op)

subsection \<open>Graphs the public interface can build\<close>

inductive reachable_graph :: "'id::linorder causal_graph \<Rightarrow> bool" where
  reachable_new: "reachable_graph new_graph"
| reachable_insert: "reachable_graph g \<Longrightarrow> reachable_graph (ci_graph (insert_event g r))"
| reachable_quarantine: "reachable_graph g \<Longrightarrow> reachable_graph (quarantine_event g q)"
| reachable_union: "reachable_graph g \<Longrightarrow> reachable_graph h \<Longrightarrow> reachable_graph (union_graph g h)"

lemma reachable_wf: "reachable_graph g \<Longrightarrow> wf_graph g"
  by (induction rule: reachable_graph.induct)
    (simp_all add: wf_new_graph wf_insert_event wf_quarantine_event wf_union_graph)

lemma non_quarantined_acyclic:
  "wf_graph g \<Longrightarrow> i |\<notin>| fmdom (cg_quarantined g) \<Longrightarrow> (i, i) \<notin> (next_rel (cg_parents g))\<^sup>+"
  by (auto simp: wf_graph_quarantined)

lemma heads_cover_wf:
  assumes "wf_graph g" "i |\<in>| fmdom (cg_parents g)" "i |\<notin>| fmdom (cg_quarantined g)"
  shows "\<exists>h\<in>set (heads g). (h, i) \<in> (next_rel (cg_parents g))\<^sup>*"
proof -
  define R where "R = next_rel (cg_parents g)"
  let ?A = "{c. c |\<in>| fmdom (cg_parents g) \<and> c |\<notin>| fmdom (cg_quarantined g) \<and> (c, i) \<in> R\<^sup>*}"
  have "finite ?A" by (rule finite_subset [of _ "fset (fmdom (cg_parents g))"]) auto
  moreover have "?A \<noteq> {}" using assms by auto
  moreover have "(x, x) \<notin> (R\<inverse>)\<^sup>+" if "x \<in> ?A" for x
    using non_quarantined_acyclic [OF assms(1), of x] that by (simp add: R_def trancl_converse)
  ultimately obtain h where h: "h \<in> ?A" "\<And>c. (h, c) \<in> R\<inverse> \<Longrightarrow> c \<notin> ?A"
    using acyclic_minimal [of ?A "R\<inverse>"] by blast
  have "c |\<in>| fmdom (cg_quarantined g)" if "(c, h) \<in> R" for c
    using h that next_rel_dom [of c h "cg_parents g"]
    by (auto simp: R_def intro: converse_rtrancl_into_rtrancl)
  then have "h \<in> set (heads g)" using h(1) by (auto simp: heads_spec R_def)
  then show ?thesis using h(1) by (auto simp: R_def)
qed

lemma insert_event_parents_new:
  "fmlookup (cg_parents g) (ins_id r) = None \<Longrightarrow>
    cg_parents (ci_graph (insert_event g r))
      = fmupd (ins_id r) (normalize_parents (ins_parents r)) (cg_parents g)"
  by (simp add: insert_event_def Let_def)

lemma insert_event_status_new:
  assumes "fmlookup (cg_parents g) (ins_id r) = None"
  shows "ci_status (insert_event g r) =
    (case fmlookup (cg_quarantined (ci_graph (insert_event g r))) (ins_id r) of
       Some reason \<Rightarrow> CausalQuarantined reason
     | None \<Rightarrow> if ins_id r \<in> set (applicable_ids (ci_graph (insert_event g r))) then CausalApplied
         else CausalPending (filter (\<lambda>p. p |\<notin>| fmdom (cg_parents g))
           (normalize_parents (ins_parents r))))"
  using assms
  by (auto simp: insert_event_def Let_def set_applicable_ids ancestors_present_def
      dest: fmdom_notI split: option.splits)

subsection \<open>Properties\<close>

definition ex_insert :: "nat \<Rightarrow> nat list \<Rightarrow> nat causal_graph \<Rightarrow> nat causal_graph" where
  "ex_insert i ps g = ci_graph (insert_event g \<lparr>ins_id = i, ins_parents = ps\<rparr>)"

definition ex_diamond :: "nat causal_graph" where
  "ex_diamond = ex_insert 4 [3, 2] (ex_insert 3 [1] (ex_insert 2 [1] (ex_insert 1 [] new_graph)))"

definition ex_cycle :: "nat causal_graph" where
  "ex_cycle = ex_insert 3 [2] (ex_insert 2 [1] (ex_insert 1 [2] new_graph))"

lemma reachable_ex_insert: "reachable_graph g \<Longrightarrow> reachable_graph (ex_insert i ps g)"
  by (simp add: ex_insert_def reachable_insert)

lemma reachable_examples: "reachable_graph ex_diamond" "reachable_graph ex_cycle"
  by (simp_all add: ex_diamond_def ex_cycle_def reachable_ex_insert reachable_new)

text \<open>C40: the deterministic topological sort never fails on a graph built through the public
  interface: neither \<open>Cycle\<close> nor \<open>TopologicalSortStalled\<close> is reachable. Its result lists
  exactly the applicable events, each once and only after all of its parents.\<close>

theorem topological_order_never_fails:
  assumes "reachable_graph g"
  shows "\<exists>xs. topological_order g = Inr xs \<and> distinct xs \<and> set xs = set (applicable_ids g)
    \<and> (\<forall>k < length xs. \<forall>p. (xs ! k, p) \<in> next_rel (cg_parents g) \<longrightarrow> p \<in> set (take k xs))"
  using topological_order_total [OF reachable_wf [OF assms]]
  by (auto simp: placed_after_parents_def)

theorem topological_order_never_fails_witness:
  "topological_order ex_diamond = Inr [1, 2, 3, 4] \<and> set (applicable_ids ex_diamond) = {1, 2, 3, 4}"
proof -
  have "topological_order ex_diamond = Inr [1, 2, 3, 4]" by code_simp
  then show ?thesis
    using topological_order_never_fails [OF reachable_examples(1)] by auto
qed

text \<open>C38: strong convergence. Replaying any two histories of insertions and rejections that contain
  the same requests, in any order and with any repetition, builds the same graph, with the same
  parents, rejections, cycle index and derived quarantine.\<close>

theorem replay_order_irrelevant:
  assumes "set ops = set ops'"
  shows "foldl apply_op new_graph ops = foldl apply_op new_graph ops'"
  unfolding replay_is_union [OF wf_new_graph] using assms
  by (intro causal_join.replay_convergence) (auto simp: wf_new_graph wf_apply_op)

theorem replay_order_irrelevant_witness:
  "foldl apply_op new_graph
      [OpInsert \<lparr>ins_id = 1, ins_parents = [2 :: nat]\<rparr>, OpInsert \<lparr>ins_id = 1, ins_parents = [3]\<rparr>]
    = foldl apply_op new_graph
      [OpInsert \<lparr>ins_id = 1, ins_parents = [3]\<rparr>, OpInsert \<lparr>ins_id = 1, ins_parents = [2]\<rparr>]"
  by (rule replay_order_irrelevant) auto

text \<open>Union is a join. On graphs of the public interface it is commutative, associative and
  idempotent, and inserting or rejecting an event is the union with the graph of that one request.\<close>

theorem union_graph_is_join:
  assumes "reachable_graph g" "reachable_graph h" "reachable_graph k"
  shows "union_graph g h = union_graph h g
    \<and> union_graph (union_graph g h) k = union_graph g (union_graph h k)
    \<and> union_graph g g = g
    \<and> ci_graph (insert_event g r) = union_graph g (ci_graph (insert_event new_graph r))
    \<and> quarantine_event g q = union_graph g (quarantine_event new_graph q)"
proof -
  note wf = assms [THEN reachable_wf]
  show ?thesis
    using causal_join.join_commute [OF wf(1,2)] causal_join.join_assoc [OF wf]
      causal_join.join_idem [OF wf(1)] apply_op_is_union [OF wf(1), of "OpInsert r"]
      apply_op_is_union [OF wf(1), of "OpQuarantine q"]
    by simp
qed

theorem union_graph_is_join_witness:
  "union_graph ex_diamond ex_cycle = union_graph ex_cycle ex_diamond
    \<and> cg_quarantined (union_graph ex_diamond ex_cycle) \<noteq> fmempty"
proof
  show "union_graph ex_diamond ex_cycle = union_graph ex_cycle ex_diamond"
    using union_graph_is_join [OF reachable_examples(1) reachable_examples(2) reachable_new] by simp
  have "fmlookup (cg_quarantined (union_graph ex_diamond ex_cycle)) 4 = Some ancestor_reason"
    by code_simp
  then show "cg_quarantined (union_graph ex_diamond ex_cycle) \<noteq> fmempty" by auto
qed

text \<open>The incrementally maintained cycle index is exact: an id is in it exactly when it is its
  own strict ancestor, and it equals the index recomputed from scratch.\<close>

theorem cycle_index_exact:
  assumes "reachable_graph g"
  shows "(i |\<in>| cg_cyclic g \<longleftrightarrow> (i, i) \<in> (next_rel (cg_parents g))\<^sup>+)
    \<and> cg_cyclic g = all_cyclic_ids g"
  using wf_graphD_cyclic [OF reachable_wf [OF assms]] by (simp add: fset_all_cyclic_ids)

theorem cycle_index_exact_witness:
  "1 |\<in>| cg_cyclic ex_cycle \<and> (1, 1) \<in> (next_rel (cg_parents ex_cycle))\<^sup>+
    \<and> (3, 3) \<notin> (next_rel (cg_parents ex_cycle))\<^sup>+"
proof -
  have "1 |\<in>| cg_cyclic ex_cycle" "3 |\<notin>| cg_cyclic ex_cycle" by code_simp+
  then show ?thesis
    using conjunct1 [OF cycle_index_exact [OF reachable_examples(2), of 1]]
      conjunct1 [OF cycle_index_exact [OF reachable_examples(2), of 3]] by blast
qed

text \<open>The derived quarantine is exact. An id is quarantined exactly when it is, or descends
  from, an explicitly rejected id or a member of a cycle.\<close>

theorem quarantine_exact:
  assumes "reachable_graph g"
  shows "i |\<in>| fmdom (cg_quarantined g) \<longleftrightarrow>
    (\<exists>r. (r |\<in>| fmdom (cg_quarantine_roots g) \<or> (r, r) \<in> (next_rel (cg_parents g))\<^sup>+)
       \<and> (i, r) \<in> (next_rel (cg_parents g))\<^sup>*)"
  by (rule wf_graph_quarantined [OF reachable_wf [OF assms]])

theorem quarantine_exact_witness:
  "\<exists>r. (r |\<in>| fmdom (cg_quarantine_roots ex_cycle) \<or> (r, r) \<in> (next_rel (cg_parents ex_cycle))\<^sup>+)
       \<and> (3, r) \<in> (next_rel (cg_parents ex_cycle))\<^sup>*"
proof -
  have "3 |\<in>| fmdom (cg_quarantined ex_cycle)" by code_simp
  then show ?thesis using quarantine_exact [OF reachable_examples(2), of 3] by simp
qed

text \<open>The status an insertion reports. A recorded id answers \<open>Duplicate\<close> for the same parent
  set and \<open>Conflict\<close> otherwise; a fresh id is reported quarantined, applied or pending exactly as
  the new graph classifies it, a pending status naming its unrecorded direct parents.\<close>

theorem insert_event_reports_status:
  "ci_status (insert_event g r) =
    (case fmlookup (cg_parents g) (ins_id r) of
       Some existing \<Rightarrow> if existing = normalize_parents (ins_parents r) then CausalDuplicate
         else CausalConflict
     | None \<Rightarrow>
        (case fmlookup (cg_quarantined (ci_graph (insert_event g r))) (ins_id r) of
           Some reason \<Rightarrow> CausalQuarantined reason
         | None \<Rightarrow> if ins_id r \<in> set (applicable_ids (ci_graph (insert_event g r))) then CausalApplied
             else CausalPending (filter (\<lambda>p. p |\<notin>| fmdom (cg_parents g))
               (normalize_parents (ins_parents r)))))"
proof (cases "fmlookup (cg_parents g) (ins_id r)")
  case None
  then show ?thesis using insert_event_status_new [OF None] by simp
next
  case (Some existing)
  then show ?thesis by (simp add: insert_event_def Let_def)
qed

text \<open>Ancestry queries. \<open>is_ancestor\<close> decides the reflexive transitive closure of the parent
  relation, and \<open>are_concurrent\<close> holds exactly for two recorded ids unrelated by it.\<close>

theorem ancestry_queries_exact:
  "(is_ancestor g a d \<longleftrightarrow> (d, a) \<in> (next_rel (cg_parents g))\<^sup>*)
    \<and> (are_concurrent g a d \<longleftrightarrow> a |\<in>| fmdom (cg_parents g) \<and> d |\<in>| fmdom (cg_parents g)
        \<and> (d, a) \<notin> (next_rel (cg_parents g))\<^sup>* \<and> (a, d) \<notin> (next_rel (cg_parents g))\<^sup>*)"
  by (auto simp: is_ancestor_iff are_concurrent_def)

text \<open>The heads form a frontier. Every recorded event that is not quarantined is a head or an
  ancestor of a head, and the parent of a non-quarantined event is never a head.\<close>

theorem heads_are_frontier:
  assumes "reachable_graph g" "i |\<in>| fmdom (cg_parents g)" "i |\<notin>| fmdom (cg_quarantined g)"
  shows "(\<exists>h\<in>set (heads g). is_ancestor g i h)
    \<and> (\<forall>p. (i, p) \<in> next_rel (cg_parents g) \<longrightarrow> p \<notin> set (heads g))"
  using heads_cover_wf [OF reachable_wf [OF assms(1)] assms(2,3)] assms(3)
  by (auto simp: is_ancestor_iff heads_spec)

theorem heads_are_frontier_witness:
  "heads ex_diamond = [4] \<and> (\<exists>h\<in>set (heads ex_diamond). is_ancestor ex_diamond 1 h)"
proof -
  have "1 |\<in>| fmdom (cg_parents ex_diamond)" "1 |\<notin>| fmdom (cg_quarantined ex_diamond)"
    and h: "heads ex_diamond = [4]" by code_simp+
  then show ?thesis using heads_are_frontier [OF reachable_examples(1), of 1] by simp
qed

end
