(* ===== verification/ReplicaStore.thy ===== *)
theory ReplicaStore
  imports Prelude
begin

text \<open>
  Append-only replica bytes and the durable outbox of each provider
  (\<^verbatim>\<open>nook-replication/src/replica_store.rs\<close>). An event id keeps the first payload stored under
  it. Where the source has \<open>unreachable!\<close>, \<open>put_event\<close> has the value \<open>None\<close>, shown never to be
  returned. Both the event map and each provider's outbox provide the interface
  \<open>immutable_store\<close>.
\<close>

subsection \<open>State, requests and outcomes\<close>

datatype replica_event_bytes = UnknownEventBytes | StoredBytes bytes

datatype replica_insert_status = ReplicaInserted | ReplicaDuplicate | ReplicaConflict

fun immutable_insert_status :: "replica_event_bytes \<Rightarrow> bytes \<Rightarrow> replica_insert_status" where
  "immutable_insert_status UnknownEventBytes incoming = ReplicaInserted"
| "immutable_insert_status (StoredBytes b) incoming =
     (if b = incoming then ReplicaDuplicate else ReplicaConflict)"

record 'id replica_event_write =
  rw_event_id :: 'id
  rw_bytes :: bytes

record 'id replica_outbox_write =
  ow_provider_id :: string
  ow_event :: "'id replica_event_write"

record 'id replica_outbox_removal =
  or_provider_id :: string
  or_event_id :: 'id

record 'id replica_store =
  rs_events :: "('id, bytes) fmap"
  rs_outbox :: "(string, ('id, bytes) fmap) fmap"

record 'id replica_write =
  rwr_store :: "'id replica_store"
  rwr_status :: replica_insert_status

datatype replica_outbox_removal_result = NotQueued | Removed bytes

record 'id replica_dequeue =
  rd_store :: "'id replica_store"
  rd_removal :: replica_outbox_removal_result

datatype remote_event_log_classification =
  RemoteEmpty
| RemoteSameStore (same_store_id: string)
| RemoteDifferentStore (local_store_id: string) (remote_store_id: string)
| RemoteMultipleStores (store_ids: "string list")

definition new_store :: "'id replica_store" where
  "new_store = \<lparr>rs_events = fmempty, rs_outbox = fmempty\<rparr>"

subsection \<open>Operations\<close>

definition put_event ::
    "'id replica_store \<Rightarrow> 'id replica_event_write \<Rightarrow> 'id replica_write option" where
  "put_event s request =
     (let i = rw_event_id request; storage_bytes = rw_bytes request;
          entry = fmlookup (rs_events s) i;
          existing = (case entry of Some b \<Rightarrow> StoredBytes b | None \<Rightarrow> UnknownEventBytes)
      in case (immutable_insert_status existing storage_bytes, entry) of
           (ReplicaInserted, None) \<Rightarrow>
             Some \<lparr>rwr_store = s\<lparr>rs_events := fmupd i storage_bytes (rs_events s)\<rparr>,
                    rwr_status = ReplicaInserted\<rparr>
         | (ReplicaDuplicate, Some _) \<Rightarrow> Some \<lparr>rwr_store = s, rwr_status = ReplicaDuplicate\<rparr>
         | (ReplicaConflict, Some _) \<Rightarrow> Some \<lparr>rwr_store = s, rwr_status = ReplicaConflict\<rparr>
         | (ReplicaInserted, Some _) \<Rightarrow> None
         | (ReplicaDuplicate, None) \<Rightarrow> None
         | (ReplicaConflict, None) \<Rightarrow> None)"

definition contains_event :: "'id replica_store \<Rightarrow> 'id \<Rightarrow> bool" where
  "contains_event s i \<longleftrightarrow> i |\<in>| fmdom (rs_events s)"

definition get_bytes :: "'id replica_store \<Rightarrow> 'id \<Rightarrow> replica_event_bytes" where
  "get_bytes s i = (case fmlookup (rs_events s) i of
     Some b \<Rightarrow> StoredBytes b | None \<Rightarrow> UnknownEventBytes)"

definition event_ids :: "'id::linorder replica_store \<Rightarrow> 'id list" where
  "event_ids s = keys_of (rs_events s)"

definition entries_or_default ::
    "'id replica_store \<Rightarrow> string \<Rightarrow> ('id, bytes) fmap" where
  "entries_or_default s p = (case fmlookup (rs_outbox s) p of Some e \<Rightarrow> e | None \<Rightarrow> fmempty)"

definition queue_outbox ::
    "'id replica_store \<Rightarrow> 'id replica_outbox_write \<Rightarrow> 'id replica_write" where
  "queue_outbox s request =
     (let p = ow_provider_id request; i = rw_event_id (ow_event request);
          b = rw_bytes (ow_event request); entries = entries_or_default s p;
          (entries', status) = (case fmlookup entries i of
              Some stored \<Rightarrow> (entries, if stored = b then ReplicaDuplicate else ReplicaConflict)
            | None \<Rightarrow> (fmupd i b entries, ReplicaInserted))
      in \<lparr>rwr_store = s\<lparr>rs_outbox := fmupd p entries' (rs_outbox s)\<rparr>, rwr_status = status\<rparr>)"

definition dequeue_outbox ::
    "'id replica_store \<Rightarrow> 'id replica_outbox_removal \<Rightarrow> 'id replica_dequeue" where
  "dequeue_outbox s request =
     (case fmlookup (rs_outbox s) (or_provider_id request) of
        None \<Rightarrow> \<lparr>rd_store = s, rd_removal = NotQueued\<rparr>
      | Some entries \<Rightarrow>
          let s' = s\<lparr>rs_outbox :=
                fmupd (or_provider_id request) (fmdrop (or_event_id request) entries) (rs_outbox s)\<rparr>
          in case fmlookup entries (or_event_id request) of
               Some b \<Rightarrow> \<lparr>rd_store = s', rd_removal = Removed b\<rparr>
             | None \<Rightarrow> \<lparr>rd_store = s', rd_removal = NotQueued\<rparr>)"

definition pending_outbox ::
    "'id::linorder replica_store \<Rightarrow> string \<Rightarrow> ('id \<times> bytes) list" where
  "pending_outbox s p = (case fmlookup (rs_outbox s) p of
     Some entries \<Rightarrow> sorted_list_of_fmap entries | None \<Rightarrow> [])"

definition outbox_entries ::
    "'id::linorder replica_store \<Rightarrow> (string \<times> 'id \<times> bytes) list" where
  "outbox_entries s =
     concat (map (\<lambda>(p, entries). map (\<lambda>(i, b). (p, i, b)) (sorted_list_of_fmap entries))
       (sorted_list_of_fmap (rs_outbox s)))"

definition excluding_events :: "'id replica_store \<Rightarrow> 'id fset \<Rightarrow> 'id replica_store" where
  "excluding_events s excluded =
     s\<lparr>rs_events := fmfilter (\<lambda>i. i |\<notin>| excluded) (rs_events s),
       rs_outbox := fmmap (fmfilter (\<lambda>i. i |\<notin>| excluded)) (rs_outbox s)\<rparr>"

definition missing_event_ids :: "'id::linorder replica_store \<Rightarrow> 'id fset \<Rightarrow> 'id list" where
  "missing_event_ids s remote_ids = filter (\<lambda>i. i |\<notin>| remote_ids) (keys_of (rs_events s))"

subsection \<open>Lemmas\<close>

lemma put_event_eq:
  "put_event s r = Some
     (case fmlookup (rs_events s) (rw_event_id r) of
        None \<Rightarrow> \<lparr>rwr_store = s\<lparr>rs_events := fmupd (rw_event_id r) (rw_bytes r) (rs_events s)\<rparr>,
                 rwr_status = ReplicaInserted\<rparr>
      | Some b \<Rightarrow> \<lparr>rwr_store = s,
                   rwr_status = (if b = rw_bytes r then ReplicaDuplicate else ReplicaConflict)\<rparr>)"
  by (simp add: put_event_def Let_def split: option.split)

definition stored_bytes :: "'id replica_store \<Rightarrow> 'id \<Rightarrow> bytes option" where
  "stored_bytes s i = fmlookup (rs_events s) i"

definition put_bytes :: "'id replica_store \<Rightarrow> 'id \<Rightarrow> bytes \<Rightarrow> 'id replica_store" where
  "put_bytes s i b = rwr_store (the (put_event s \<lparr>rw_event_id = i, rw_bytes = b\<rparr>))"

definition queued_bytes :: "string \<Rightarrow> 'id replica_store \<Rightarrow> 'id \<Rightarrow> bytes option" where
  "queued_bytes p s i = fmlookup (entries_or_default s p) i"

definition queue_bytes :: "string \<Rightarrow> 'id replica_store \<Rightarrow> 'id \<Rightarrow> bytes \<Rightarrow> 'id replica_store" where
  "queue_bytes p s i b = rwr_store (queue_outbox s
     \<lparr>ow_provider_id = p, ow_event = \<lparr>rw_event_id = i, rw_bytes = b\<rparr>\<rparr>)"

lemma entries_or_default_upd [simp]:
  "entries_or_default (s\<lparr>rs_outbox := fmupd p e (rs_outbox s)\<rparr>) q =
    (if p = q then e else entries_or_default s q)"
  by (simp add: entries_or_default_def)

interpretation events: immutable_store put_bytes stored_bytes
  by unfold_locales (auto simp: put_bytes_def stored_bytes_def put_event_eq split: option.split)

interpretation outbox: immutable_store "queue_bytes p" "queued_bytes p" for p
  by unfold_locales
    (auto simp: queue_bytes_def queued_bytes_def queue_outbox_def Let_def split: option.split)

lemma queue_outbox_frame:
  "rs_events (rwr_store (queue_outbox s r)) = rs_events s"
  "q \<noteq> ow_provider_id r \<Longrightarrow>
    entries_or_default (rwr_store (queue_outbox s r)) q = entries_or_default s q"
  by (simp_all add: queue_outbox_def Let_def split: option.split)

lemma dequeue_outbox_eq:
  "entries_or_default (rd_store (dequeue_outbox s r)) q =
     (if q = or_provider_id r then fmdrop (or_event_id r) (entries_or_default s q)
      else entries_or_default s q)"
  "rd_removal (dequeue_outbox s r) =
     (case queued_bytes (or_provider_id r) s (or_event_id r) of
        Some b \<Rightarrow> Removed b | None \<Rightarrow> NotQueued)"
  "rs_events (rd_store (dequeue_outbox s r)) = rs_events s"
  by (auto simp: dequeue_outbox_def queued_bytes_def Let_def entries_or_default_def
      split: option.split)

lemma sorted_list_of_fmap_empty [simp]: "sorted_list_of_fmap fmempty = []"
  by (simp add: sorted_list_of_fmap_def)

lemma pending_outbox_eq: "pending_outbox s p = sorted_list_of_fmap (entries_or_default s p)"
  by (simp add: pending_outbox_def entries_or_default_def split: option.split)

lemma set_outbox_entries:
  "(p, i, b) \<in> set (outbox_entries s) \<longleftrightarrow> queued_bytes p s i = Some b"
  by (auto simp: outbox_entries_def set_sorted_list_of_fmap queued_bytes_def
      entries_or_default_def split: option.split)

subsection \<open>Properties\<close>

text \<open>Stored event bytes are immutable. A write never panics, stores its bytes exactly when the id
  is new, and reports \<open>Duplicate\<close> or \<open>Conflict\<close> otherwise; every other id and the outbox are
  untouched.\<close>

theorem put_event_immutable:
  "\<exists>w. put_event s r = Some w
    \<and> rwr_status w = immutable_insert_status (get_bytes s (rw_event_id r)) (rw_bytes r)
    \<and> (\<forall>i. get_bytes (rwr_store w) i =
        (if i = rw_event_id r \<and> get_bytes s i = UnknownEventBytes then StoredBytes (rw_bytes r)
         else get_bytes s i))
    \<and> rs_outbox (rwr_store w) = rs_outbox s"
  by (auto simp: put_event_eq get_bytes_def split: option.split)

text \<open>The outbox of a provider. An event queued for one provider stays with its first bytes until
  it is dequeued for that provider, which returns exactly those bytes; other providers and the
  stored events never change.\<close>

theorem outbox_queue_dequeue:
  assumes "queued_bytes p s i = None"
  shows "queued_bytes p (queue_bytes p s i b) i = Some b
    \<and> queue_bytes p (queue_bytes p s i b) i b' = queue_bytes p s i b
    \<and> rd_removal (dequeue_outbox (queue_bytes p s i b) \<lparr>or_provider_id = p, or_event_id = i\<rparr>)
        = Removed b
    \<and> pending_outbox (rd_store (dequeue_outbox (queue_bytes p s i b)
          \<lparr>or_provider_id = p, or_event_id = i\<rparr>)) p = pending_outbox s p
    \<and> (\<forall>q. q \<noteq> p \<longrightarrow> pending_outbox (queue_bytes p s i b) q = pending_outbox s q)
    \<and> rs_events (queue_bytes p s i b) = rs_events s"
proof -
  have q: "queued_bytes p (queue_bytes p s i b) i = Some b"
    using outbox.get_put [of p s i b i] assms by simp
  have e: "entries_or_default (queue_bytes p s i b) p = fmupd i b (entries_or_default s p)"
    using assms by (simp add: queue_bytes_def queue_outbox_def queued_bytes_def Let_def)
  have "fmdrop i (fmupd i b (entries_or_default s p)) = entries_or_default s p"
    using assms by (intro fmap_ext) (auto simp: queued_bytes_def)
  moreover have "queue_bytes p (queue_bytes p s i b) i b' = queue_bytes p s i b"
    using assms by (simp add: queue_bytes_def queue_outbox_def queued_bytes_def Let_def)
  moreover have "q \<noteq> p \<Longrightarrow> entries_or_default (queue_bytes p s i b) q = entries_or_default s q" for q
    by (simp add: queue_bytes_def queue_outbox_frame)
  moreover have "rs_events (queue_bytes p s i b) = rs_events s"
    using queue_outbox_frame(1) by (simp add: queue_bytes_def)
  ultimately show ?thesis
    using q e by (simp add: dequeue_outbox_eq pending_outbox_eq)
qed

theorem outbox_queue_dequeue_witness:
  "pending_outbox (queue_bytes ''drive'' new_store (1 :: nat) [7]) ''github'' = []
    \<and> rd_removal (dequeue_outbox (queue_bytes ''drive'' new_store (1 :: nat) [7])
        \<lparr>or_provider_id = ''drive'', or_event_id = 1\<rparr>) = Removed [7]"
proof -
  have "queued_bytes ''drive'' new_store (1 :: nat) = None"
    by (simp add: queued_bytes_def entries_or_default_def new_store_def)
  from outbox_queue_dequeue [OF this, of "[7]"] show ?thesis
    by (simp add: pending_outbox_def new_store_def)
qed

text \<open>Exclusion and repair. Excluding a set of ids removes exactly those ids from the stored
  events and from every outbox, and the repair plan lists exactly the stored ids the remote does
  not have, in order and without repetition.\<close>

theorem exclusion_and_repair_plan:
  "get_bytes (excluding_events s excluded) i =
      (if i |\<in>| excluded then UnknownEventBytes else get_bytes s i)
    \<and> ((p, i, b) \<in> set (outbox_entries (excluding_events s excluded)) \<longleftrightarrow>
        i |\<notin>| excluded \<and> (p, i, b) \<in> set (outbox_entries s))
    \<and> set (missing_event_ids s remote) = {i. contains_event s i \<and> i |\<notin>| remote}
    \<and> sorted (missing_event_ids s remote) \<and> distinct (missing_event_ids s remote)"
  by (auto simp: excluding_events_def get_bytes_def set_outbox_entries queued_bytes_def
      entries_or_default_def missing_event_ids_def contains_event_def sorted_wrt_filter
      split: option.split)

end
