(* ===== verification/Text.thy ===== *)
theory Text
  imports Prelude
begin

text \<open>
  The string operations of the standard library that the modelled code uses, on the UTF-8 bytes of
  a string (one HOL character per byte): the White_Space characters as byte sequences, trim,
  split_whitespace and join.  A byte sequence of a whitespace character starts with a lead byte, so
  in a well-formed string it is met only at a character boundary.
\<close>

subsection \<open>White space\<close>

text \<open>The number of bytes of the whitespace character a string starts with, 0 when there is none.\<close>

fun ws_len :: "string \<Rightarrow> nat" where
  "ws_len [] = 0"
| "ws_len (a # s) =
     (if a \<in> set [CHR 0x09, CHR 0x0A, CHR 0x0B, CHR 0x0C, CHR 0x0D, CHR 0x20] then 1
      else if a = CHR 0xC2 \<and> take 1 s \<in> set [[CHR 0x85], [CHR 0xA0]] then 2
      else if a = CHR 0xE1 \<and> take 2 s = [CHR 0x9A, CHR 0x80]
         \<or> a = CHR 0xE2 \<and> take 1 s = [CHR 0x80]
             \<and> take 1 (drop 1 s) \<in> set [[CHR 0x80], [CHR 0x81], [CHR 0x82], [CHR 0x83], [CHR 0x84],
                 [CHR 0x85], [CHR 0x86], [CHR 0x87], [CHR 0x88], [CHR 0x89], [CHR 0x8A],
                 [CHR 0xA8], [CHR 0xA9], [CHR 0xAF]]
         \<or> a = CHR 0xE2 \<and> take 2 s = [CHR 0x81, CHR 0x9F]
         \<or> a = CHR 0xE3 \<and> take 2 s = [CHR 0x80, CHR 0x80]
      then 3 else 0)"

declare ws_len.simps(2) [simp del]

text \<open>Printable ASCII characters other than the blank start no whitespace character.\<close>

definition plain_char :: "char \<Rightarrow> bool" where
  "plain_char c \<longleftrightarrow> 0x20 < (of_char c :: nat) \<and> (of_char c :: nat) < 0x7F"

lemma plain_char_neq:
  "\<not> plain_char (CHR 0x09)" "\<not> plain_char (CHR 0x0A)" "\<not> plain_char (CHR 0x0B)" "\<not> plain_char (CHR 0x0C)"
  "\<not> plain_char (CHR 0x0D)" "\<not> plain_char (CHR 0x20)" "\<not> plain_char (CHR 0xC2)" "\<not> plain_char (CHR 0xE1)"
  "\<not> plain_char (CHR 0xE2)" "\<not> plain_char (CHR 0xE3)"
  by (simp_all add: plain_char_def)

lemma ws_len_plain:
  assumes "plain_char c"
  shows "ws_len (c # s) = 0"
proof -
  have lead: "c \<noteq> CHR 0xC2" "c \<noteq> CHR 0xE1" "c \<noteq> CHR 0xE2" "c \<noteq> CHR 0xE3"
    using assms plain_char_neq by metis+
  have ascii: "c \<notin> set [CHR 0x09, CHR 0x0A, CHR 0x0B, CHR 0x0C, CHR 0x0D, CHR 0x20]"
    using assms plain_char_neq by (simp only: list.set insert_iff empty_iff) blast
  show ?thesis
    by (simp only: ws_len.simps(2) lead ascii simp_thms if_False)
qed

lemma ws_len_blank: "ws_len (CHR '' '' # s) = 1"
  by (simp add: ws_len.simps(2))

subsection \<open>trim\<close>

function trim_start :: "string \<Rightarrow> string" where
  "trim_start s = (if s = [] \<or> ws_len s = 0 then s else trim_start (drop (ws_len s) s))"
  by pat_completeness auto
termination by (relation "measure length") (auto simp: length_greater_0_conv [symmetric] simp del: length_greater_0_conv)

declare trim_start.simps [simp del]

definition ws_len_end :: "string \<Rightarrow> nat" where
  "ws_len_end s =
     (if ws_len (drop (length s - 1) s) = 1 then 1
      else if 2 \<le> length s \<and> ws_len (drop (length s - 2) s) = 2 then 2
      else if 3 \<le> length s \<and> ws_len (drop (length s - 3) s) = 3 then 3 else 0)"

function trim_end :: "string \<Rightarrow> string" where
  "trim_end s = (if s = [] \<or> ws_len_end s = 0 then s else trim_end (take (length s - ws_len_end s) s))"
  by pat_completeness auto
termination by (relation "measure length") (auto simp: length_greater_0_conv [symmetric] simp del: length_greater_0_conv)

declare trim_end.simps [simp del]

definition trim :: "string \<Rightarrow> string" where
  "trim s = trim_end (trim_start s)"

lemma trim_plain:
  assumes "list_all plain_char s"
  shows "trim s = s"
proof (cases "s = []")
  case False
  then have start: "trim_start s = s"
    using assms by (cases s) (auto simp: ws_len_plain trim_start.simps)
  have "ws_len (drop (length s - k) s) = 0" if "0 < k" "k \<le> length s" for k
  proof -
    have "drop (length s - k) s = s ! (length s - k) # drop (Suc (length s - k)) s"
      using that by (intro Cons_nth_drop_Suc [symmetric]) simp
    then show ?thesis using assms that by (simp add: list_all_length ws_len_plain)
  qed
  then have "ws_len_end s = 0" using False by (simp add: ws_len_end_def Suc_le_eq)
  then show ?thesis by (simp add: trim_def start trim_end.simps)
qed (simp add: trim_def trim_start.simps trim_end.simps)

lemma length_trim_end: "length (trim_end s) \<le> length s"
proof (induction s rule: trim_end.induct)
  case (1 s)
  then show ?case by (subst trim_end.simps) force
qed

subsection \<open>split_whitespace and join\<close>

function split_words :: "string \<Rightarrow> string \<Rightarrow> string list" where
  "split_words word [] = (if word = [] then [] else [word])"
| "split_words word (c # s) =
     (if ws_len (c # s) = 0 then split_words (word @ [c]) s
      else (if word = [] then [] else [word]) @ split_words [] (drop (ws_len (c # s)) (c # s)))"
  by pat_completeness auto
termination by (relation "measure (\<lambda>(w, s). length s)") auto

declare split_words.simps(2) [simp del]

definition split_whitespace :: "string \<Rightarrow> string list" where
  "split_whitespace s = split_words [] s"

fun join :: "string \<Rightarrow> string list \<Rightarrow> string" where
  "join sep [] = []"
| "join sep [s] = s"
| "join sep (s # t # ss) = s @ sep @ join sep (t # ss)"

lemma split_words_plain: "list_all plain_char s \<Longrightarrow> split_words w (s @ r) = split_words (w @ s) r"
  by (induction s arbitrary: w) (simp_all add: split_words.simps(2) ws_len_plain)

lemma split_words_blank: "split_words w (CHR '' '' # s) = (if w = [] then [] else [w]) @ split_words [] s"
  by (simp add: split_words.simps(2) ws_len_blank)

text \<open>Splitting a blank-separated list of plain words returns the words.\<close>

lemma split_whitespace_join:
  assumes "list_all (\<lambda>w. w \<noteq> [] \<and> list_all plain_char w) ws"
  shows "split_whitespace (join '' '' ws) = ws"
  using assms unfolding split_whitespace_def
proof (induction "'' '' :: string" ws rule: join.induct)
  case (2 w)
  then show ?case using split_words_plain [of w "[]" "[]"] by simp
next
  case (3 w v ws)
  then show ?case
    using split_words_plain [of w "[]" "'' '' @ join '' '' (v # ws)"] by (simp add: split_words_blank)
qed simp

end
