(* ===== verification/Ids.thy ===== *)
theory Ids
  imports Text Errors
begin

text \<open>
  Vault identifiers (nook-auth2/src/ids.rs) and wire values (nook-auth2/src/wire/metadata.rs,
  records.rs): parsing with its trimming, prefixes and shape checks.  Each identifier is a
  one-field datatype around the bytes of its string, ordered as the string is.
\<close>

subsection \<open>Bytes of a string\<close>

definition strip_prefix :: "string \<Rightarrow> string \<Rightarrow> string option" where
  "strip_prefix p s = (if take (length p) s = p then Some (drop (length p) s) else None)"

definition is_ascii_digit :: "char \<Rightarrow> bool" where
  "is_ascii_digit c \<longleftrightarrow> 48 \<le> (of_char c :: nat) \<and> (of_char c :: nat) \<le> 57"

definition is_ascii_alphanumeric :: "char \<Rightarrow> bool" where
  "is_ascii_alphanumeric c \<longleftrightarrow> is_ascii_digit c
     \<or> 65 \<le> (of_char c :: nat) \<and> (of_char c :: nat) \<le> 90
     \<or> 97 \<le> (of_char c :: nat) \<and> (of_char c :: nat) \<le> 122"

definition is_ascii_hexdigit :: "char \<Rightarrow> bool" where
  "is_ascii_hexdigit c \<longleftrightarrow> is_ascii_digit c
     \<or> 65 \<le> (of_char c :: nat) \<and> (of_char c :: nat) \<le> 70
     \<or> 97 \<le> (of_char c :: nat) \<and> (of_char c :: nat) \<le> 102"

lemma strip_prefix_Some: "strip_prefix p s = Some r \<longleftrightarrow> s = p @ r"
  by (auto simp: strip_prefix_def) (metis append_take_drop_id)

lemma strip_prefix_append [simp]: "strip_prefix p (p @ r) = Some r"
  by (simp add: strip_prefix_Some)

lemma alphanumeric_plain: "is_ascii_alphanumeric c \<Longrightarrow> plain_char c"
  by (auto simp: is_ascii_alphanumeric_def is_ascii_digit_def plain_char_def)

lemma hexdigit_plain: "is_ascii_hexdigit c \<Longrightarrow> plain_char c"
  by (auto simp: is_ascii_hexdigit_def is_ascii_digit_def plain_char_def)

subsection \<open>CompactToken\<close>

datatype compact_token = CompactToken (token_str: string)

definition compact_token_is_valid :: "string \<Rightarrow> bool" where
  "compact_token_is_valid token \<longleftrightarrow> length token = 11
     \<and> list_all (\<lambda>b. is_ascii_alphanumeric b \<or> b = CHR ''-'' \<or> b = CHR ''_'') token"

definition compact_token_parse :: "string \<Rightarrow> compact_token validation" where
  "compact_token_parse raw =
     (let token = trim raw
      in if \<not> compact_token_is_valid token then Inl StoreIdInvalid else Inr (CompactToken token))"

subsection \<open>AppId\<close>

datatype app_id = AppId (app_id_str: string)

type_synonym device_id = app_id

definition app_id_is_valid :: "string \<Rightarrow> bool" where
  "app_id_is_valid i \<longleftrightarrow> length i = 16 \<and> list_all is_ascii_hexdigit i"

definition app_id_parse :: "string \<Rightarrow> app_id validation" where
  "app_id_parse raw =
     (let i = trim raw in if \<not> app_id_is_valid i then Inl DeviceIdInvalid else Inr (AppId i))"

subsection \<open>AuthKeyId\<close>

datatype auth_key_id = AuthKeyId (auth_key_id_str: string)

abbreviation (input) AUTH_KEY_ID_PREFIX :: string where "AUTH_KEY_ID_PREFIX \<equiv> ''key_''"

definition auth_is_digest :: "string \<Rightarrow> bool" where
  "auth_is_digest digest \<longleftrightarrow> length digest = 64 \<and> list_all is_ascii_hexdigit digest"

definition auth_digest_from :: "string \<Rightarrow> string validation" where
  "auth_digest_from i =
     (case strip_prefix AUTH_KEY_ID_PREFIX i of
        None \<Rightarrow> Inl AuthKeyIdInvalid
      | Some digest \<Rightarrow> if \<not> auth_is_digest digest then Inl AuthKeyIdInvalid else Inr digest)"

definition auth_from_digest_hex :: "string \<Rightarrow> auth_key_id validation" where
  "auth_from_digest_hex digest_hex =
     (if \<not> auth_is_digest digest_hex then Inl AuthKeyIdInvalid
      else Inr (AuthKeyId (AUTH_KEY_ID_PREFIX @ digest_hex)))"

definition auth_key_id_parse :: "string \<Rightarrow> auth_key_id validation" where
  "auth_key_id_parse raw =
     (let trimmed = trim raw in and_then (auth_digest_from trimmed) auth_from_digest_hex)"

definition auth_key_id_is_valid :: "string \<Rightarrow> bool" where
  "auth_key_id_is_valid i \<longleftrightarrow> (case auth_digest_from i of Inr _ \<Rightarrow> True | Inl _ \<Rightarrow> False)"

definition auth_digest :: "auth_key_id \<Rightarrow> string validation" where
  "auth_digest k = auth_digest_from (auth_key_id_str k)"

subsection \<open>StoreId\<close>

datatype store_id = StoreId (store_id_str: string)

abbreviation (input) STORE_ID_PREFIX :: string where "STORE_ID_PREFIX \<equiv> ''store_''"

definition store_from_token :: "compact_token \<Rightarrow> store_id" where
  "store_from_token token = StoreId (STORE_ID_PREFIX @ token_str token)"

definition store_from_raw_token :: "string \<Rightarrow> store_id validation" where
  "store_from_raw_token raw =
     and_then (compact_token_parse raw) (\<lambda>token.
       case app_id_parse (token_str token) of
         Inr _ \<Rightarrow> Inl StoreIdReserved
       | Inl _ \<Rightarrow> Inr (store_from_token token))"

definition store_id_parse :: "string \<Rightarrow> store_id validation" where
  "store_id_parse raw =
     (let trimmed = trim raw in
      case strip_prefix STORE_ID_PREFIX trimmed of
        Some token \<Rightarrow> store_from_raw_token token
      | None \<Rightarrow> store_from_raw_token trimmed)"

subsection \<open>SecretId\<close>

datatype secret_id = SecretId (secret_id_str: string)

abbreviation (input) SECRET_ID_PREFIX :: string where "SECRET_ID_PREFIX \<equiv> ''secret_''"

definition secret_id_parse :: "string \<Rightarrow> secret_id validation" where
  "secret_id_parse raw =
     (let trimmed = trim raw in
      if trimmed = [] then Inl SecretIdRequired
      else case strip_prefix SECRET_ID_PREFIX trimmed of
        None \<Rightarrow> Inl SecretIdInvalid
      | Some token \<Rightarrow>
          if \<not> compact_token_is_valid token then Inl SecretIdInvalid
          else if (case app_id_parse token of Inr _ \<Rightarrow> True | Inl _ \<Rightarrow> False) \<or> auth_key_id_is_valid trimmed
          then Inl SecretIdReserved
          else Inr (SecretId (SECRET_ID_PREFIX @ token)))"

definition secret_from_token :: "compact_token \<Rightarrow> secret_id validation" where
  "secret_from_token token = Inr (SecretId (SECRET_ID_PREFIX @ token_str token))"

definition secret_from_raw_token :: "string \<Rightarrow> secret_id validation" where
  "secret_from_raw_token raw = and_then (compact_token_parse raw) secret_from_token"

text \<open>The conversion from a persisted row label keeps every nonblank label.\<close>

definition secret_id_try_from :: "string \<Rightarrow> secret_id validation" where
  "secret_id_try_from value = (if trim value = [] then Inl SecretIdRequired else Inr (SecretId value))"

subsection \<open>Wire metadata\<close>

datatype sha256_hex = Sha256Hex (sha256_hex_str: string)

definition sha256_hex_parse :: "string \<Rightarrow> sha256_hex validation" where
  "sha256_hex_parse raw =
     (let hex = trim raw
      in if length hex \<noteq> 64 \<or> \<not> list_all is_ascii_hexdigit hex then Inl Sha256HexInvalid
         else Inr (Sha256Hex hex))"

datatype identity_vault_event_id = IdentityVaultEventId string

definition identity_vault_event_id_parse :: "string \<Rightarrow> identity_vault_event_id validation" where
  "identity_vault_event_id_parse raw =
     (let value = trim raw in
      case strip_prefix ''sha256u:'' value of
        None \<Rightarrow> Inl IdentityVaultEventIdInvalid
      | Some digest \<Rightarrow>
          if length digest \<noteq> 43
             \<or> \<not> list_all (\<lambda>b. is_ascii_alphanumeric b \<or> b = CHR ''-'' \<or> b = CHR ''_'') digest
          then Inl IdentityVaultEventIdInvalid else Inr (IdentityVaultEventId value))"

datatype device_signing_public_key = Unavailable | Ed25519Hex string

definition signing_key_parse :: "string \<Rightarrow> device_signing_public_key validation" where
  "signing_key_parse raw =
     (let hex = trim raw in
      if hex = [] then Inr Unavailable
      else if length hex \<noteq> 64 \<or> \<not> list_all is_ascii_hexdigit hex
      then Inl DeviceSigningPublicKeyInvalid else Inr (Ed25519Hex hex))"

fun signing_key_str :: "device_signing_public_key \<Rightarrow> string" where
  "signing_key_str Unavailable = []"
| "signing_key_str (Ed25519Hex value) = value"

definition signing_key_from_trusted :: "string \<Rightarrow> device_signing_public_key" where
  "signing_key_from_trusted value = (if value = [] then Unavailable else Ed25519Hex value)"

definition signing_key_is_empty :: "device_signing_public_key \<Rightarrow> bool" where
  "signing_key_is_empty k \<longleftrightarrow> (case k of Unavailable \<Rightarrow> True | Ed25519Hex _ \<Rightarrow> False)"

datatype iso_timestamp = IsoTimestamp (iso_timestamp_str: string)

definition iso_timestamp_parse :: "string \<Rightarrow> iso_timestamp validation" where
  "iso_timestamp_parse raw =
     (let timestamp = trim raw in
      if timestamp = [] then Inl IsoTimestampInvalid
      else if CHR ''T'' \<notin> set timestamp \<and> \<not> list_ex is_ascii_digit timestamp
      then Inl IsoTimestampInvalid else Inr (IsoTimestamp timestamp))"

definition signing_seed_parse :: "string \<Rightarrow> string validation" where
  "signing_seed_parse raw =
     (let seed = trim raw
      in if length seed \<noteq> 64 \<or> \<not> list_all is_ascii_hexdigit seed then Inl SigningSeedInvalid else Inr seed)"

subsection \<open>SecretType\<close>

datatype secret_type =
  Login | ApiKey | SeedPhrase | SecureNote | Passkey | Authenticator | CreditCard | FileAttachment
| Person | Address | IdentityDocument | InternationalAccount | DomesticAccount

datatype secret_category = Secrets | PersonalData

fun secret_type_str :: "secret_type \<Rightarrow> string" where
  "secret_type_str Login = ''login''"
| "secret_type_str ApiKey = ''api-key''"
| "secret_type_str SeedPhrase = ''seed-phrase''"
| "secret_type_str SecureNote = ''secure-note''"
| "secret_type_str Passkey = ''passkey''"
| "secret_type_str Authenticator = ''authenticator''"
| "secret_type_str CreditCard = ''credit-card''"
| "secret_type_str FileAttachment = ''file-attachment''"
| "secret_type_str Person = ''person''"
| "secret_type_str Address = ''address''"
| "secret_type_str IdentityDocument = ''identity-document''"
| "secret_type_str InternationalAccount = ''international-account''"
| "secret_type_str DomesticAccount = ''domestic-account''"

text \<open>parse matches the literals in the order of the source; None stands for UnknownSecretType.\<close>

definition secret_type_parse :: "string \<Rightarrow> secret_type option" where
  "secret_type_parse value =
     (if value = ''login'' then Some Login
      else if value = ''api-key'' then Some ApiKey
      else if value = ''seed-phrase'' then Some SeedPhrase
      else if value = ''secure-note'' then Some SecureNote
      else if value = ''passkey'' then Some Passkey
      else if value = ''authenticator'' then Some Authenticator
      else if value = ''credit-card'' then Some CreditCard
      else if value = ''file-attachment'' then Some FileAttachment
      else if value = ''person'' then Some Person
      else if value = ''address'' then Some Address
      else if value = ''identity-document'' then Some IdentityDocument
      else if value = ''international-account'' then Some InternationalAccount
      else if value = ''domestic-account'' then Some DomesticAccount
      else None)"

fun secret_type_category :: "secret_type \<Rightarrow> secret_category" where
  "secret_type_category Login = Secrets"
| "secret_type_category ApiKey = Secrets"
| "secret_type_category SeedPhrase = Secrets"
| "secret_type_category SecureNote = Secrets"
| "secret_type_category Passkey = Secrets"
| "secret_type_category Authenticator = Secrets"
| "secret_type_category FileAttachment = Secrets"
| "secret_type_category Person = PersonalData"
| "secret_type_category Address = PersonalData"
| "secret_type_category IdentityDocument = PersonalData"
| "secret_type_category InternationalAccount = PersonalData"
| "secret_type_category DomesticAccount = PersonalData"
| "secret_type_category CreditCard = PersonalData"

datatype record_type_declaration = SecretDeclared secret_type | Undeclared

record stored_secret_record =
  sr_key :: secret_id
  sr_secret_type :: record_type_declaration
  sr_value :: string

subsection \<open>Ordering of identifiers\<close>

text \<open>The derived Ord of a one-field tuple struct compares the field.\<close>

instantiation app_id :: linorder
begin

definition less_eq_app_id :: "app_id \<Rightarrow> app_id \<Rightarrow> bool" where
  "less_eq_app_id a b \<longleftrightarrow> app_id_str a \<le> app_id_str b"

definition less_app_id :: "app_id \<Rightarrow> app_id \<Rightarrow> bool" where
  "less_app_id a b \<longleftrightarrow> app_id_str a < app_id_str b"

instance
  by standard (auto simp: less_eq_app_id_def less_app_id_def app_id.expand)

end

instantiation auth_key_id :: linorder
begin

definition less_eq_auth_key_id :: "auth_key_id \<Rightarrow> auth_key_id \<Rightarrow> bool" where
  "less_eq_auth_key_id a b \<longleftrightarrow> auth_key_id_str a \<le> auth_key_id_str b"

definition less_auth_key_id :: "auth_key_id \<Rightarrow> auth_key_id \<Rightarrow> bool" where
  "less_auth_key_id a b \<longleftrightarrow> auth_key_id_str a < auth_key_id_str b"

instance
  by standard (auto simp: less_eq_auth_key_id_def less_auth_key_id_def auth_key_id.expand)

end

instantiation store_id :: linorder
begin

definition less_eq_store_id :: "store_id \<Rightarrow> store_id \<Rightarrow> bool" where
  "less_eq_store_id a b \<longleftrightarrow> store_id_str a \<le> store_id_str b"

definition less_store_id :: "store_id \<Rightarrow> store_id \<Rightarrow> bool" where
  "less_store_id a b \<longleftrightarrow> store_id_str a < store_id_str b"

instance
  by standard (auto simp: less_eq_store_id_def less_store_id_def store_id.expand)

end

instantiation secret_id :: linorder
begin

definition less_eq_secret_id :: "secret_id \<Rightarrow> secret_id \<Rightarrow> bool" where
  "less_eq_secret_id a b \<longleftrightarrow> secret_id_str a \<le> secret_id_str b"

definition less_secret_id :: "secret_id \<Rightarrow> secret_id \<Rightarrow> bool" where
  "less_secret_id a b \<longleftrightarrow> secret_id_str a < secret_id_str b"

instance
  by standard (auto simp: less_eq_secret_id_def less_secret_id_def secret_id.expand)

end

subsection \<open>Shapes\<close>

lemma list_all_plain:
  "list_all P s \<Longrightarrow> (\<And>c. P c \<Longrightarrow> plain_char c) \<Longrightarrow> list_all plain_char s"
  by (simp add: list_all_iff)

lemma token_plain: "compact_token_is_valid t \<Longrightarrow> list_all plain_char t"
proof -
  have "plain_char (CHR ''-'')" "plain_char (CHR ''_'')" by (simp_all add: plain_char_def)
  then show "list_all plain_char t" if "compact_token_is_valid t"
    using that alphanumeric_plain unfolding compact_token_is_valid_def list_all_iff by blast
qed

lemma hex_plain: "list_all is_ascii_hexdigit t \<Longrightarrow> list_all plain_char t"
  using list_all_plain hexdigit_plain by blast

lemma prefixes_plain: "list_all plain_char ''store_''" "list_all plain_char ''secret_''" "list_all plain_char ''key_''"
  by (simp_all add: plain_char_def)

lemma trim_prefixed:
  "list_all plain_char p \<Longrightarrow> list_all plain_char t \<Longrightarrow> trim (p @ t) = p @ t"
  by (rule trim_plain) simp

lemma token_not_app_id: "compact_token_is_valid t \<Longrightarrow> app_id_parse t = Inl DeviceIdInvalid"
  using trim_plain [OF token_plain, of t]
  by (simp add: app_id_parse_def app_id_is_valid_def compact_token_is_valid_def)

lemma store_from_raw_token_eq:
  "store_from_raw_token raw =
    (if compact_token_is_valid (trim raw) then Inr (StoreId (''store_'' @ trim raw)) else Inl StoreIdInvalid)"
  by (simp add: store_from_raw_token_def compact_token_parse_def Let_def token_not_app_id store_from_token_def)

lemma store_id_parse_valid:
  assumes "compact_token_is_valid t"
  shows "store_id_parse (''store_'' @ t) = Inr (StoreId (''store_'' @ t))"
  using assms unfolding store_id_parse_def Let_def
    trim_prefixed [OF prefixes_plain(1) token_plain [OF assms]] strip_prefix_append option.case
  by (simp only: store_from_raw_token_eq trim_plain [OF token_plain [OF assms]] if_True)

lemma store_id_parse_Inr:
  "store_id_parse raw = Inr i \<Longrightarrow> \<exists>t. compact_token_is_valid t \<and> i = StoreId (''store_'' @ t)"
  unfolding store_id_parse_def store_from_raw_token_eq Let_def
  by (auto simp only: split: option.splits if_splits)

lemma no_auth_digest:
  "auth_digest_from (''secret_'' @ t) = Inl AuthKeyIdInvalid"
  by (simp add: auth_digest_from_def strip_prefix_def)

lemma secret_id_parse_valid:
  assumes "compact_token_is_valid t"
  shows "secret_id_parse (''secret_'' @ t) = Inr (SecretId (''secret_'' @ t))"
  using assms unfolding secret_id_parse_def Let_def
    trim_prefixed [OF prefixes_plain(2) token_plain [OF assms]] strip_prefix_append option.case
    auth_key_id_is_valid_def no_auth_digest token_not_app_id [OF assms]
  by simp

lemma secret_id_parse_Inr:
  "secret_id_parse raw = Inr i \<Longrightarrow> \<exists>t. compact_token_is_valid t \<and> i = SecretId (''secret_'' @ t)"
  unfolding secret_id_parse_def Let_def by (auto simp only: split: option.splits if_splits)

lemma auth_key_id_parse_valid:
  assumes "auth_is_digest d"
  shows "auth_key_id_parse (''key_'' @ d) = Inr (AuthKeyId (''key_'' @ d))"
proof -
  have plain: "list_all plain_char d" using assms hex_plain by (simp add: auth_is_digest_def)
  show ?thesis
    using assms unfolding auth_key_id_parse_def Let_def trim_prefixed [OF prefixes_plain(3) plain]
      auth_digest_from_def strip_prefix_append option.case
    by (simp only: auth_from_digest_hex_def simp_thms if_False and_then.simps)
qed

lemma auth_key_id_parse_Inr:
  "auth_key_id_parse raw = Inr i \<Longrightarrow> \<exists>d. auth_is_digest d \<and> i = AuthKeyId (''key_'' @ d)"
  unfolding auth_key_id_parse_def auth_from_digest_hex_def Let_def
  by (auto simp only: and_then_Inr_iff split: if_splits)

lemma app_id_parse_valid: "app_id_is_valid d \<Longrightarrow> app_id_parse d = Inr (AppId d)"
  using trim_plain [OF hex_plain, of d] by (simp add: app_id_parse_def app_id_is_valid_def)

lemma app_id_parse_Inr: "app_id_parse raw = Inr i \<Longrightarrow> app_id_is_valid (app_id_str i)"
  by (auto simp: app_id_parse_def Let_def split: if_splits)

subsection \<open>Properties\<close>

text \<open>Parsing an identifier normalises it: what a store, secret, auth key or app id parser
  accepts has the shape of its kind (the prefix and an 11-byte token, a 64-digit or a 16-digit
  hex string), and parsing the identifier's own string again returns the same identifier.\<close>

theorem identifiers_parse_to_canonical_form:
  assumes "store_id_parse r1 = Inr st" and "secret_id_parse r2 = Inr se"
    and "auth_key_id_parse r3 = Inr au" and "app_id_parse r4 = Inr ap"
  shows "(\<exists>t. compact_token_is_valid t \<and> store_id_str st = ''store_'' @ t)
       \<and> store_id_parse (store_id_str st) = Inr st
       \<and> (\<exists>t. compact_token_is_valid t \<and> secret_id_str se = ''secret_'' @ t)
       \<and> secret_id_parse (secret_id_str se) = Inr se
       \<and> (\<exists>d. auth_is_digest d \<and> auth_key_id_str au = ''key_'' @ d)
       \<and> auth_key_id_parse (auth_key_id_str au) = Inr au
       \<and> app_id_is_valid (app_id_str ap) \<and> app_id_parse (app_id_str ap) = Inr ap"
proof -
  obtain t where "compact_token_is_valid t" "st = StoreId (''store_'' @ t)"
    using store_id_parse_Inr [OF assms(1)] by blast
  moreover obtain t' where "compact_token_is_valid t'" "se = SecretId (''secret_'' @ t')"
    using secret_id_parse_Inr [OF assms(2)] by blast
  moreover obtain d where "auth_is_digest d" "au = AuthKeyId (''key_'' @ d)"
    using auth_key_id_parse_Inr [OF assms(3)] by blast
  moreover note app_id_parse_Inr [OF assms(4)]
  ultimately show ?thesis
    using store_id_parse_valid secret_id_parse_valid auth_key_id_parse_valid app_id_parse_valid
    by (simp only: store_id.sel secret_id.sel auth_key_id.sel) (metis app_id.collapse)
qed

definition ex_digest :: string where
  "ex_digest = replicate 64 (CHR ''a'')"

theorem identifiers_parse_to_canonical_form_witness:
  "store_id_parse (''store_'' @ ''Abcdef_1234'') = Inr (StoreId (''store_'' @ ''Abcdef_1234''))
   \<and> secret_id_parse (''secret_'' @ ''Abcdef_1234'') = Inr (SecretId (''secret_'' @ ''Abcdef_1234''))
   \<and> auth_key_id_parse (''key_'' @ ex_digest) = Inr (AuthKeyId (''key_'' @ ex_digest))
   \<and> app_id_parse ''0123456789abcdef'' = Inr (AppId ''0123456789abcdef'')"
proof -
  have token: "compact_token_is_valid ''Abcdef_1234''" by code_simp
  have digest: "auth_is_digest ex_digest" by code_simp
  have app: "app_id_is_valid ''0123456789abcdef''" by code_simp
  show ?thesis
    using identifiers_parse_to_canonical_form [OF store_id_parse_valid [OF token]
        secret_id_parse_valid [OF token] auth_key_id_parse_valid [OF digest] app_id_parse_valid [OF app]]
    by (simp only: store_id.sel secret_id.sel auth_key_id.sel app_id.sel)
qed

text \<open>The reserved errors of the store and secret id parsers are never returned: an accepted
  token has 11 bytes, so it is no 16-digit app id, and a secret id starts with its own prefix,
  so it is no auth key id.\<close>

theorem reserved_errors_unreachable:
  "store_id_parse raw \<noteq> Inl StoreIdReserved \<and> store_from_raw_token raw \<noteq> Inl StoreIdReserved
   \<and> secret_id_parse raw \<noteq> Inl SecretIdReserved"
proof -
  have "secret_id_parse raw \<noteq> Inl SecretIdReserved"
  proof (cases "strip_prefix ''secret_'' (trim raw)")
    case (Some t)
    then have "trim raw = ''secret_'' @ t" by (simp only: strip_prefix_Some)
    then have "auth_digest_from (trim raw) = Inl AuthKeyIdInvalid" by (simp only: no_auth_digest)
    then show ?thesis
      using Some token_not_app_id [of t]
      by (auto simp: secret_id_parse_def Let_def auth_key_id_is_valid_def split: if_splits)
  qed (auto simp: secret_id_parse_def Let_def)
  then show ?thesis
    by (auto simp: store_id_parse_def store_from_raw_token_eq Let_def split: option.splits)
qed

text \<open>Secret type names are in bijection with the types: parse accepts exactly the names that
  as_str produces, and inverts it.\<close>

theorem secret_type_names:
  "secret_type_parse value = Some t \<longleftrightarrow> value = secret_type_str t"
proof
  assume "secret_type_parse value = Some t"
  then show "value = secret_type_str t" by (auto simp: secret_type_parse_def split: if_splits)
next
  assume "value = secret_type_str t"
  then show "secret_type_parse value = Some t" by (cases t) (simp_all add: secret_type_parse_def)
qed

end
