(* ===== verification/Slip39Words.thy ===== *)
theory Slip39Words
  imports Text
begin

text \<open>
  The word table of SLIP-39 (nook-auth2/src/auth/slip39_wordlist.txt, one word per line), in chunks
  of 64 words, and what the mnemonic codec needs of it, as a locale: 1024 words, strictly
  increasing, each a nonempty string of plain characters.  The lookups are proved in the locale
  and interpreted on the table of the file.
\<close>

subsection \<open>slice::binary_search\<close>

function binary_search_loop :: "'a :: linorder list \<Rightarrow> 'a \<Rightarrow> nat \<Rightarrow> nat \<Rightarrow> nat" where
  "binary_search_loop xs x base width =
     (if 1 < width then
        let half = width div 2; mid = base + half
        in binary_search_loop xs x (if x < xs ! mid then base else mid) (width - half)
      else base)"
  by pat_completeness auto
termination by (relation "measure (\<lambda>(xs, x, base, width). width)") auto

declare binary_search_loop.simps [simp del]

definition binary_search :: "'a :: linorder list \<Rightarrow> 'a \<Rightarrow> nat option" where
  "binary_search xs x =
     (if xs = [] then None
      else let base = binary_search_loop xs x 0 (length xs)
           in if xs ! base = x then Some base else None)"

lemma binary_search_loop_bound:
  "0 < width \<Longrightarrow> base + width \<le> length xs \<Longrightarrow> binary_search_loop xs x base width < length xs"
proof (induction width arbitrary: base rule: less_induct)
  case (less width)
  show ?case
  proof (cases "1 < width")
    case True
    let ?base = "if x < xs ! (base + width div 2) then base else base + width div 2"
    have "binary_search_loop xs x ?base (width - width div 2) < length xs"
      using less.prems True by (intro less.IH) auto
    then show ?thesis using True by (subst binary_search_loop.simps) (simp add: Let_def)
  next
    case False
    then show ?thesis using less.prems by (subst binary_search_loop.simps) simp
  qed
qed

lemma binary_search_loop_finds:
  assumes "sorted_wrt (<) xs" and "i < length xs"
  shows "base \<le> i \<Longrightarrow> i < base + width \<Longrightarrow> base + width \<le> length xs
    \<Longrightarrow> binary_search_loop xs (xs ! i) base width = i"
proof (induction width arbitrary: base rule: less_induct)
  case (less width)
  show ?case
  proof (cases "1 < width")
    case True
    let ?half = "width div 2"
    let ?base = "if xs ! i < xs ! (base + ?half) then base else base + ?half"
    have mid: "base + ?half < length xs" using True less.prems(3) by linarith
    have "xs ! i < xs ! (base + ?half) \<longleftrightarrow> i < base + ?half"
      using assms mid
      by (metis linorder_neqE_nat not_less_iff_gr_or_eq order_less_imp_not_less sorted_wrt_nth_less)
    then have "?base \<le> i" "i < ?base + (width - ?half)" "?base + (width - ?half) \<le> length xs"
      using less.prems True by auto
    moreover have "width - ?half < width" using True by simp
    ultimately have "binary_search_loop xs (xs ! i) ?base (width - ?half) = i"
      using less.IH by blast
    then show ?thesis
      using True by (subst binary_search_loop.simps) (simp add: Let_def)
  next
    case False
    then show ?thesis
      using less.prems by (subst binary_search_loop.simps) simp
  qed
qed

lemma binary_search_nth:
  "sorted_wrt (<) xs \<Longrightarrow> i < length xs \<Longrightarrow> binary_search xs (xs ! i) = Some i"
  using binary_search_loop_finds [of xs i 0 "length xs"] by (auto simp: binary_search_def)

lemma binary_search_Some: "binary_search xs x = Some i \<Longrightarrow> i < length xs \<and> xs ! i = x"
  using binary_search_loop_bound [of "length xs" 0 xs x]
  by (auto simp: binary_search_def Let_def split: if_splits)

subsection \<open>The interface of a word table\<close>

locale word_table =
  fixes words :: "string list"
  assumes count: "length words = 1024"
    and increasing: "sorted_wrt (<) words"
    and plain: "list_all (\<lambda>w. w \<noteq> [] \<and> list_all plain_char w) words"
begin

lemma lookup_nth: "i < 1024 \<Longrightarrow> binary_search words (words ! i) = Some i"
  using binary_search_nth [OF increasing] by (simp add: count)

lemma lookup_Some: "binary_search words w = Some i \<Longrightarrow> i < 1024 \<and> words ! i = w"
  using binary_search_Some [of words w i] by (simp add: count)

lemma nth_plain: "i < 1024 \<Longrightarrow> words ! i \<noteq> [] \<and> list_all plain_char (words ! i)"
  using plain unfolding list_all_length [of _ words] count by blast

lemma split_join:
  assumes "\<forall>i\<in>set ks. i < 1024"
  shows "split_whitespace (join '' '' (map ((!) words) ks)) = map ((!) words) ks"
  using assms nth_plain by (intro split_whitespace_join) (auto simp: list.pred_map list.pred_set comp_def)

end

subsection \<open>The table of the file\<close>

definition words_0 :: "string list" where
  "words_0 = [''academic'', ''acid'', ''acne'', ''acquire'', ''acrobat'', ''activity'', ''actress'',
    ''adapt'', ''adequate'', ''adjust'', ''admit'', ''adorn'', ''adult'', ''advance'',
    ''advocate'', ''afraid'', ''again'', ''agency'', ''agree'', ''aide'', ''aircraft'',
    ''airline'', ''airport'', ''ajar'', ''alarm'', ''album'', ''alcohol'', ''alien'',
    ''alive'', ''alpha'', ''already'', ''alto'', ''aluminum'', ''always'', ''amazing'',
    ''ambition'', ''amount'', ''amuse'', ''analysis'', ''anatomy'', ''ancestor'', ''ancient'',
    ''angel'', ''angry'', ''animal'', ''answer'', ''antenna'', ''anxiety'', ''apart'',
    ''aquatic'', ''arcade'', ''arena'', ''argue'', ''armed'', ''artist'', ''artwork'',
    ''aspect'', ''auction'', ''august'', ''aunt'', ''average'', ''aviation'', ''avoid'',
    ''award'']"

definition words_1 :: "string list" where
  "words_1 = [''away'', ''axis'', ''axle'', ''beam'', ''beard'', ''beaver'', ''become'', ''bedroom'',
    ''behavior'', ''being'', ''believe'', ''belong'', ''benefit'', ''best'', ''beyond'',
    ''bike'', ''biology'', ''birthday'', ''bishop'', ''black'', ''blanket'', ''blessing'',
    ''blimp'', ''blind'', ''blue'', ''body'', ''bolt'', ''boring'', ''born'', ''both'',
    ''boundary'', ''bracelet'', ''branch'', ''brave'', ''breathe'', ''briefing'', ''broken'',
    ''brother'', ''browser'', ''bucket'', ''budget'', ''building'', ''bulb'', ''bulge'',
    ''bumpy'', ''bundle'', ''burden'', ''burning'', ''busy'', ''buyer'', ''cage'', ''calcium'',
    ''camera'', ''campus'', ''canyon'', ''capacity'', ''capital'', ''capture'', ''carbon'',
    ''cards'', ''careful'', ''cargo'', ''carpet'', ''carve'']"

definition words_2 :: "string list" where
  "words_2 = [''category'', ''cause'', ''ceiling'', ''center'', ''ceramic'', ''champion'', ''change'',
    ''charity'', ''check'', ''chemical'', ''chest'', ''chew'', ''chubby'', ''cinema'',
    ''civil'', ''class'', ''clay'', ''cleanup'', ''client'', ''climate'', ''clinic'',
    ''clock'', ''clogs'', ''closet'', ''clothes'', ''club'', ''cluster'', ''coal'',
    ''coastal'', ''coding'', ''column'', ''company'', ''corner'', ''costume'', ''counter'',
    ''course'', ''cover'', ''cowboy'', ''cradle'', ''craft'', ''crazy'', ''credit'',
    ''cricket'', ''criminal'', ''crisis'', ''critical'', ''crowd'', ''crucial'', ''crunch'',
    ''crush'', ''crystal'', ''cubic'', ''cultural'', ''curious'', ''curly'', ''custody'',
    ''cylinder'', ''daisy'', ''damage'', ''dance'', ''darkness'', ''database'', ''daughter'',
    ''deadline'']"

definition words_3 :: "string list" where
  "words_3 = [''deal'', ''debris'', ''debut'', ''decent'', ''decision'', ''declare'', ''decorate'',
    ''decrease'', ''deliver'', ''demand'', ''density'', ''deny'', ''depart'', ''depend'',
    ''depict'', ''deploy'', ''describe'', ''desert'', ''desire'', ''desktop'', ''destroy'',
    ''detailed'', ''detect'', ''device'', ''devote'', ''diagnose'', ''dictate'', ''diet'',
    ''dilemma'', ''diminish'', ''dining'', ''diploma'', ''disaster'', ''discuss'', ''disease'',
    ''dish'', ''dismiss'', ''display'', ''distance'', ''dive'', ''divorce'', ''document'',
    ''domain'', ''domestic'', ''dominant'', ''dough'', ''downtown'', ''dragon'', ''dramatic'',
    ''dream'', ''dress'', ''drift'', ''drink'', ''drove'', ''drug'', ''dryer'', ''duckling'',
    ''duke'', ''duration'', ''dwarf'', ''dynamic'', ''early'', ''earth'', ''easel'']"

definition words_4 :: "string list" where
  "words_4 = [''easy'', ''echo'', ''eclipse'', ''ecology'', ''edge'', ''editor'', ''educate'',
    ''either'', ''elbow'', ''elder'', ''election'', ''elegant'', ''element'', ''elephant'',
    ''elevator'', ''elite'', ''else'', ''email'', ''emerald'', ''emission'', ''emperor'',
    ''emphasis'', ''employer'', ''empty'', ''ending'', ''endless'', ''endorse'', ''enemy'',
    ''energy'', ''enforce'', ''engage'', ''enjoy'', ''enlarge'', ''entrance'', ''envelope'',
    ''envy'', ''epidemic'', ''episode'', ''equation'', ''equip'', ''eraser'', ''erode'',
    ''escape'', ''estate'', ''estimate'', ''evaluate'', ''evening'', ''evidence'', ''evil'',
    ''evoke'', ''exact'', ''example'', ''exceed'', ''exchange'', ''exclude'', ''excuse'',
    ''execute'', ''exercise'', ''exhaust'', ''exotic'', ''expand'', ''expect'', ''explain'',
    ''express'']"

definition words_5 :: "string list" where
  "words_5 = [''extend'', ''extra'', ''eyebrow'', ''facility'', ''fact'', ''failure'', ''faint'',
    ''fake'', ''false'', ''family'', ''famous'', ''fancy'', ''fangs'', ''fantasy'', ''fatal'',
    ''fatigue'', ''favorite'', ''fawn'', ''fiber'', ''fiction'', ''filter'', ''finance'',
    ''findings'', ''finger'', ''firefly'', ''firm'', ''fiscal'', ''fishing'', ''fitness'',
    ''flame'', ''flash'', ''flavor'', ''flea'', ''flexible'', ''flip'', ''float'', ''floral'',
    ''fluff'', ''focus'', ''forbid'', ''force'', ''forecast'', ''forget'', ''formal'',
    ''fortune'', ''forward'', ''founder'', ''fraction'', ''fragment'', ''frequent'',
    ''freshman'', ''friar'', ''fridge'', ''friendly'', ''frost'', ''froth'', ''frozen'',
    ''fumes'', ''funding'', ''furl'', ''fused'', ''galaxy'', ''game'', ''garbage'']"

definition words_6 :: "string list" where
  "words_6 = [''garden'', ''garlic'', ''gasoline'', ''gather'', ''general'', ''genius'', ''genre'',
    ''genuine'', ''geology'', ''gesture'', ''glad'', ''glance'', ''glasses'', ''glen'',
    ''glimpse'', ''goat'', ''golden'', ''graduate'', ''grant'', ''grasp'', ''gravity'',
    ''gray'', ''greatest'', ''grief'', ''grill'', ''grin'', ''grocery'', ''gross'', ''group'',
    ''grownup'', ''grumpy'', ''guard'', ''guest'', ''guilt'', ''guitar'', ''gums'', ''hairy'',
    ''hamster'', ''hand'', ''hanger'', ''harvest'', ''have'', ''havoc'', ''hawk'', ''hazard'',
    ''headset'', ''health'', ''hearing'', ''heat'', ''helpful'', ''herald'', ''herd'',
    ''hesitate'', ''hobo'', ''holiday'', ''holy'', ''home'', ''hormone'', ''hospital'',
    ''hour'', ''huge'', ''human'', ''humidity'', ''hunting'']"

definition words_7 :: "string list" where
  "words_7 = [''husband'', ''hush'', ''husky'', ''hybrid'', ''idea'', ''identify'', ''idle'', ''image'',
    ''impact'', ''imply'', ''improve'', ''impulse'', ''include'', ''income'', ''increase'',
    ''index'', ''indicate'', ''industry'', ''infant'', ''inform'', ''inherit'', ''injury'',
    ''inmate'', ''insect'', ''inside'', ''install'', ''intend'', ''intimate'', ''invasion'',
    ''involve'', ''iris'', ''island'', ''isolate'', ''item'', ''ivory'', ''jacket'', ''jerky'',
    ''jewelry'', ''join'', ''judicial'', ''juice'', ''jump'', ''junction'', ''junior'',
    ''junk'', ''jury'', ''justice'', ''kernel'', ''keyboard'', ''kidney'', ''kind'',
    ''kitchen'', ''knife'', ''knit'', ''laden'', ''ladle'', ''ladybug'', ''lair'', ''lamp'',
    ''language'', ''large'', ''laser'', ''laundry'', ''lawsuit'']"

definition words_8 :: "string list" where
  "words_8 = [''leader'', ''leaf'', ''learn'', ''leaves'', ''lecture'', ''legal'', ''legend'', ''legs'',
    ''lend'', ''length'', ''level'', ''liberty'', ''library'', ''license'', ''lift'',
    ''likely'', ''lilac'', ''lily'', ''lips'', ''liquid'', ''listen'', ''literary'',
    ''living'', ''lizard'', ''loan'', ''lobe'', ''location'', ''losing'', ''loud'',
    ''loyalty'', ''luck'', ''lunar'', ''lunch'', ''lungs'', ''luxury'', ''lying'', ''lyrics'',
    ''machine'', ''magazine'', ''maiden'', ''mailman'', ''main'', ''makeup'', ''making'',
    ''mama'', ''manager'', ''mandate'', ''mansion'', ''manual'', ''marathon'', ''march'',
    ''market'', ''marvel'', ''mason'', ''material'', ''math'', ''maximum'', ''mayor'',
    ''meaning'', ''medal'', ''medical'', ''member'', ''memory'', ''mental'']"

definition words_9 :: "string list" where
  "words_9 = [''merchant'', ''merit'', ''method'', ''metric'', ''midst'', ''mild'', ''military'',
    ''mineral'', ''minister'', ''miracle'', ''mixed'', ''mixture'', ''mobile'', ''modern'',
    ''modify'', ''moisture'', ''moment'', ''morning'', ''mortgage'', ''mother'', ''mountain'',
    ''mouse'', ''move'', ''much'', ''mule'', ''multiple'', ''muscle'', ''museum'', ''music'',
    ''mustang'', ''nail'', ''national'', ''necklace'', ''negative'', ''nervous'', ''network'',
    ''news'', ''nuclear'', ''numb'', ''numerous'', ''nylon'', ''oasis'', ''obesity'',
    ''object'', ''observe'', ''obtain'', ''ocean'', ''often'', ''olympic'', ''omit'', ''oral'',
    ''orange'', ''orbit'', ''order'', ''ordinary'', ''organize'', ''ounce'', ''oven'',
    ''overall'', ''owner'', ''paces'', ''pacific'', ''package'', ''paid'']"

definition words_10 :: "string list" where
  "words_10 = [''painting'', ''pajamas'', ''pancake'', ''pants'', ''papa'', ''paper'', ''parcel'',
    ''parking'', ''party'', ''patent'', ''patrol'', ''payment'', ''payroll'', ''peaceful'',
    ''peanut'', ''peasant'', ''pecan'', ''penalty'', ''pencil'', ''percent'', ''perfect'',
    ''permit'', ''petition'', ''phantom'', ''pharmacy'', ''photo'', ''phrase'', ''physics'',
    ''pickup'', ''picture'', ''piece'', ''pile'', ''pink'', ''pipeline'', ''pistol'',
    ''pitch'', ''plains'', ''plan'', ''plastic'', ''platform'', ''playoff'', ''pleasure'',
    ''plot'', ''plunge'', ''practice'', ''prayer'', ''preach'', ''predator'', ''pregnant'',
    ''premium'', ''prepare'', ''presence'', ''prevent'', ''priest'', ''primary'', ''priority'',
    ''prisoner'', ''privacy'', ''prize'', ''problem'', ''process'', ''profile'', ''program'',
    ''promise'']"

definition words_11 :: "string list" where
  "words_11 = [''prospect'', ''provide'', ''prune'', ''public'', ''pulse'', ''pumps'', ''punish'',
    ''puny'', ''pupal'', ''purchase'', ''purple'', ''python'', ''quantity'', ''quarter'',
    ''quick'', ''quiet'', ''race'', ''racism'', ''radar'', ''railroad'', ''rainbow'',
    ''raisin'', ''random'', ''ranked'', ''rapids'', ''raspy'', ''reaction'', ''realize'',
    ''rebound'', ''rebuild'', ''recall'', ''receiver'', ''recover'', ''regret'', ''regular'',
    ''reject'', ''relate'', ''remember'', ''remind'', ''remove'', ''render'', ''repair'',
    ''repeat'', ''replace'', ''require'', ''rescue'', ''research'', ''resident'', ''response'',
    ''result'', ''retailer'', ''retreat'', ''reunion'', ''revenue'', ''review'', ''reward'',
    ''rhyme'', ''rhythm'', ''rich'', ''rival'', ''river'', ''robin'', ''rocky'', ''romantic'']"

definition words_12 :: "string list" where
  "words_12 = [''romp'', ''roster'', ''round'', ''royal'', ''ruin'', ''ruler'', ''rumor'', ''sack'',
    ''safari'', ''salary'', ''salon'', ''salt'', ''satisfy'', ''satoshi'', ''saver'', ''says'',
    ''scandal'', ''scared'', ''scatter'', ''scene'', ''scholar'', ''science'', ''scout'',
    ''scramble'', ''screw'', ''script'', ''scroll'', ''seafood'', ''season'', ''secret'',
    ''security'', ''segment'', ''senior'', ''shadow'', ''shaft'', ''shame'', ''shaped'',
    ''sharp'', ''shelter'', ''sheriff'', ''short'', ''should'', ''shrimp'', ''sidewalk'',
    ''silent'', ''silver'', ''similar'', ''simple'', ''single'', ''sister'', ''skin'',
    ''skunk'', ''slap'', ''slavery'', ''sled'', ''slice'', ''slim'', ''slow'', ''slush'',
    ''smart'', ''smear'', ''smell'', ''smirk'', ''smith'']"

definition words_13 :: "string list" where
  "words_13 = [''smoking'', ''smug'', ''snake'', ''snapshot'', ''sniff'', ''society'', ''software'',
    ''soldier'', ''solution'', ''soul'', ''source'', ''space'', ''spark'', ''speak'',
    ''species'', ''spelling'', ''spend'', ''spew'', ''spider'', ''spill'', ''spine'',
    ''spirit'', ''spit'', ''spray'', ''sprinkle'', ''square'', ''squeeze'', ''stadium'',
    ''staff'', ''standard'', ''starting'', ''station'', ''stay'', ''steady'', ''step'',
    ''stick'', ''stilt'', ''story'', ''strategy'', ''strike'', ''style'', ''subject'',
    ''submit'', ''sugar'', ''suitable'', ''sunlight'', ''superior'', ''surface'', ''surprise'',
    ''survive'', ''sweater'', ''swimming'', ''swing'', ''switch'', ''symbolic'', ''sympathy'',
    ''syndrome'', ''system'', ''tackle'', ''tactics'', ''tadpole'', ''talent'', ''task'',
    ''taste'']"

definition words_14 :: "string list" where
  "words_14 = [''taught'', ''taxi'', ''teacher'', ''teammate'', ''teaspoon'', ''temple'', ''tenant'',
    ''tendency'', ''tension'', ''terminal'', ''testify'', ''texture'', ''thank'', ''that'',
    ''theater'', ''theory'', ''therapy'', ''thorn'', ''threaten'', ''thumb'', ''thunder'',
    ''ticket'', ''tidy'', ''timber'', ''timely'', ''ting'', ''tofu'', ''together'',
    ''tolerate'', ''total'', ''toxic'', ''tracks'', ''traffic'', ''training'', ''transfer'',
    ''trash'', ''traveler'', ''treat'', ''trend'', ''trial'', ''tricycle'', ''trip'',
    ''triumph'', ''trouble'', ''true'', ''trust'', ''twice'', ''twin'', ''type'', ''typical'',
    ''ugly'', ''ultimate'', ''umbrella'', ''uncover'', ''undergo'', ''unfair'', ''unfold'',
    ''unhappy'', ''union'', ''universe'', ''unkind'', ''unknown'', ''unusual'', ''unwrap'']"

definition words_15 :: "string list" where
  "words_15 = [''upgrade'', ''upstairs'', ''username'', ''usher'', ''usual'', ''valid'', ''valuable'',
    ''vampire'', ''vanish'', ''various'', ''vegan'', ''velvet'', ''venture'', ''verdict'',
    ''verify'', ''very'', ''veteran'', ''vexed'', ''victim'', ''video'', ''view'', ''vintage'',
    ''violence'', ''viral'', ''visitor'', ''visual'', ''vitamins'', ''vocal'', ''voice'',
    ''volume'', ''voter'', ''voting'', ''walnut'', ''warmth'', ''warn'', ''watch'', ''wavy'',
    ''wealthy'', ''weapon'', ''webcam'', ''welcome'', ''welfare'', ''western'', ''width'',
    ''wildlife'', ''window'', ''wine'', ''wireless'', ''wisdom'', ''withdraw'', ''wits'',
    ''wolf'', ''woman'', ''work'', ''worthy'', ''wrap'', ''wrist'', ''writing'', ''wrote'',
    ''year'', ''yelp'', ''yield'', ''yoga'', ''zero'']"

definition wordlist :: "string list" where
  "wordlist = words_0 @ words_1 @ words_2 @ words_3 @ words_4 @ words_5 @ words_6 @ words_7
     @ words_8 @ words_9 @ words_10 @ words_11 @ words_12 @ words_13 @ words_14 @ words_15"

definition lowercase :: "string \<Rightarrow> bool" where
  "lowercase w \<longleftrightarrow> w \<noteq> [] \<and> list_all (\<lambda>c. CHR ''a'' \<le> c \<and> c \<le> CHR ''z'') w"

lemma lowercase_plain: "lowercase w \<Longrightarrow> w \<noteq> [] \<and> list_all plain_char w"
  by (auto simp: lowercase_def list_all_iff less_eq_char_def plain_char_def)

definition chunk_ok :: "string list \<Rightarrow> bool" where
  "chunk_ok ws \<longleftrightarrow> length ws = 64 \<and> successively (<) ws \<and> list_all lowercase ws"

lemma chunk_0: "chunk_ok words_0"
  by (simp add: chunk_ok_def lowercase_def words_0_def)

lemma chunk_1: "chunk_ok words_1"
  by (simp add: chunk_ok_def lowercase_def words_1_def)

lemma chunk_2: "chunk_ok words_2"
  by (simp add: chunk_ok_def lowercase_def words_2_def)

lemma chunk_3: "chunk_ok words_3"
  by (simp add: chunk_ok_def lowercase_def words_3_def)

lemma chunk_4: "chunk_ok words_4"
  by (simp add: chunk_ok_def lowercase_def words_4_def)

lemma chunk_5: "chunk_ok words_5"
  by (simp add: chunk_ok_def lowercase_def words_5_def)

lemma chunk_6: "chunk_ok words_6"
  by (simp add: chunk_ok_def lowercase_def words_6_def)

lemma chunk_7: "chunk_ok words_7"
  by (simp add: chunk_ok_def lowercase_def words_7_def)

lemma chunk_8: "chunk_ok words_8"
  by (simp add: chunk_ok_def lowercase_def words_8_def)

lemma chunk_9: "chunk_ok words_9"
  by (simp add: chunk_ok_def lowercase_def words_9_def)

lemma chunk_10: "chunk_ok words_10"
  by (simp add: chunk_ok_def lowercase_def words_10_def)

lemma chunk_11: "chunk_ok words_11"
  by (simp add: chunk_ok_def lowercase_def words_11_def)

lemma chunk_12: "chunk_ok words_12"
  by (simp add: chunk_ok_def lowercase_def words_12_def)

lemma chunk_13: "chunk_ok words_13"
  by (simp add: chunk_ok_def lowercase_def words_13_def)

lemma chunk_14: "chunk_ok words_14"
  by (simp add: chunk_ok_def lowercase_def words_14_def)

lemma chunk_15: "chunk_ok words_15"
  by (simp add: chunk_ok_def lowercase_def words_15_def)

lemma chunk_borders:
  "last words_0 < hd words_1"
  "last words_1 < hd words_2"
  "last words_2 < hd words_3"
  "last words_3 < hd words_4"
  "last words_4 < hd words_5"
  "last words_5 < hd words_6"
  "last words_6 < hd words_7"
  "last words_7 < hd words_8"
  "last words_8 < hd words_9"
  "last words_9 < hd words_10"
  "last words_10 < hd words_11"
  "last words_11 < hd words_12"
  "last words_12 < hd words_13"
  "last words_13 < hd words_14"
  "last words_14 < hd words_15"
  by (simp_all add: words_0_def words_1_def words_2_def words_3_def words_4_def words_5_def words_6_def words_7_def words_8_def words_9_def words_10_def words_11_def words_12_def words_13_def words_14_def words_15_def)

definition table_part :: "nat \<Rightarrow> string list \<Rightarrow> bool" where
  "table_part n ws \<longleftrightarrow> length ws = 64 * n \<and> ws \<noteq> [] \<and> successively (<) ws \<and> list_all lowercase ws"

lemma table_part_last: "chunk_ok ws \<Longrightarrow> table_part 1 ws"
  by (auto simp: table_part_def chunk_ok_def)

lemma table_part_append:
  "chunk_ok ws \<Longrightarrow> table_part n ws' \<Longrightarrow> last ws < hd ws' \<Longrightarrow> m = Suc n \<Longrightarrow> table_part m (ws @ ws')"
  by (auto simp: table_part_def chunk_ok_def successively_append_iff)

lemma chunk_nonempty: "chunk_ok ws \<Longrightarrow> hd (ws @ ws') = hd ws"
  by (cases ws) (auto simp: chunk_ok_def)

lemma wordlist_table: "table_part 16 wordlist"
proof -
  have "table_part 1 words_15" by (rule table_part_last [OF chunk_15])
  then have "table_part 2 (words_14 @ words_15)"
    using table_part_append [OF chunk_14, of 1 _ 2] chunk_borders(15) by simp
  then have "table_part 3 (words_13 @ words_14 @ words_15)"
    using table_part_append [OF chunk_13, of 2 _ 3] chunk_borders(14) by (simp add: chunk_nonempty [OF chunk_14])
  then have "table_part 4 (words_12 @ words_13 @ words_14 @ words_15)"
    using table_part_append [OF chunk_12, of 3 _ 4] chunk_borders(13) by (simp add: chunk_nonempty [OF chunk_13])
  then have "table_part 5 (words_11 @ words_12 @ words_13 @ words_14 @ words_15)"
    using table_part_append [OF chunk_11, of 4 _ 5] chunk_borders(12) by (simp add: chunk_nonempty [OF chunk_12])
  then have "table_part 6 (words_10 @ words_11 @ words_12 @ words_13 @ words_14 @ words_15)"
    using table_part_append [OF chunk_10, of 5 _ 6] chunk_borders(11) by (simp add: chunk_nonempty [OF chunk_11])
  then have "table_part 7 (words_9 @ words_10 @ words_11 @ words_12 @ words_13 @ words_14 @ words_15)"
    using table_part_append [OF chunk_9, of 6 _ 7] chunk_borders(10) by (simp add: chunk_nonempty [OF chunk_10])
  then have "table_part 8 (words_8 @ words_9 @ words_10 @ words_11 @ words_12 @ words_13 @ words_14 @ words_15)"
    using table_part_append [OF chunk_8, of 7 _ 8] chunk_borders(9) by (simp add: chunk_nonempty [OF chunk_9])
  then have "table_part 9 (words_7 @ words_8 @ words_9 @ words_10 @ words_11 @ words_12 @ words_13 @ words_14 @ words_15)"
    using table_part_append [OF chunk_7, of 8 _ 9] chunk_borders(8) by (simp add: chunk_nonempty [OF chunk_8])
  then have "table_part 10 (words_6 @ words_7 @ words_8 @ words_9 @ words_10 @ words_11 @ words_12 @ words_13 @ words_14 @ words_15)"
    using table_part_append [OF chunk_6, of 9 _ 10] chunk_borders(7) by (simp add: chunk_nonempty [OF chunk_7])
  then have "table_part 11 (words_5 @ words_6 @ words_7 @ words_8 @ words_9 @ words_10 @ words_11 @ words_12 @ words_13 @ words_14 @ words_15)"
    using table_part_append [OF chunk_5, of 10 _ 11] chunk_borders(6) by (simp add: chunk_nonempty [OF chunk_6])
  then have "table_part 12 (words_4 @ words_5 @ words_6 @ words_7 @ words_8 @ words_9 @ words_10 @ words_11 @ words_12 @ words_13 @ words_14 @ words_15)"
    using table_part_append [OF chunk_4, of 11 _ 12] chunk_borders(5) by (simp add: chunk_nonempty [OF chunk_5])
  then have "table_part 13 (words_3 @ words_4 @ words_5 @ words_6 @ words_7 @ words_8 @ words_9 @ words_10 @ words_11 @ words_12 @ words_13 @ words_14 @ words_15)"
    using table_part_append [OF chunk_3, of 12 _ 13] chunk_borders(4) by (simp add: chunk_nonempty [OF chunk_4])
  then have "table_part 14 (words_2 @ words_3 @ words_4 @ words_5 @ words_6 @ words_7 @ words_8 @ words_9 @ words_10 @ words_11 @ words_12 @ words_13 @ words_14 @ words_15)"
    using table_part_append [OF chunk_2, of 13 _ 14] chunk_borders(3) by (simp add: chunk_nonempty [OF chunk_3])
  then have "table_part 15 (words_1 @ words_2 @ words_3 @ words_4 @ words_5 @ words_6 @ words_7 @ words_8 @ words_9 @ words_10 @ words_11 @ words_12 @ words_13 @ words_14 @ words_15)"
    using table_part_append [OF chunk_1, of 14 _ 15] chunk_borders(2) by (simp add: chunk_nonempty [OF chunk_2])
  then have "table_part 16 (words_0 @ words_1 @ words_2 @ words_3 @ words_4 @ words_5 @ words_6 @ words_7 @ words_8 @ words_9 @ words_10 @ words_11 @ words_12 @ words_13 @ words_14 @ words_15)"
    using table_part_append [OF chunk_0, of 15 _ 16] chunk_borders(1) by (simp add: chunk_nonempty [OF chunk_1])
  then show ?thesis by (simp only: wordlist_def append_assoc)
qed

interpretation slip39: word_table wordlist
proof
  show "length wordlist = 1024" using wordlist_table by (simp add: table_part_def)
  show "sorted_wrt (<) wordlist"
    using wordlist_table by (simp add: table_part_def successively_conv_sorted_wrt [OF transp_on_less])
  show "list_all (\<lambda>w. w \<noteq> [] \<and> list_all plain_char w) wordlist"
    using wordlist_table lowercase_plain by (auto simp: table_part_def list_all_iff)
qed

end
