(* ===== verification/Gf256.thy ===== *)
theory Gf256
  imports Errors
begin

text \<open>
  Arithmetic of the SLIP-39 secret polynomial: FieldElement of
  nook-auth2/src/auth/slip39/polynomial.rs.  multiply, power and divide are the byte loops of the
  source; the type gf256 wraps a byte so that they are the operations of a field, and divide is
  its division.
\<close>

unbundle bit_operations_syntax

subsection \<open>FieldElement\<close>

definition xtime :: "u8 \<Rightarrow> u8" where
  "xtime left = (let high = left AND 0x80; shifted = push_bit 1 left
     in if high \<noteq> 0 then shifted XOR 0x1b else shifted)"

lemma drop_bit_1_less:
  assumes "right \<noteq> 0"
  shows "unat (drop_bit (Suc 0) right) < unat (right :: 'a::len word)"
proof -
  have "unat (drop_bit (Suc 0) right) = unat right div 2"
    by (simp only: unat_drop_bit_eq) (simp add: drop_bit_eq_div)
  then show ?thesis using assms by (simp add: unat_eq_0 [symmetric])
qed

function multiply_loop :: "u8 \<Rightarrow> u8 \<Rightarrow> u8 \<Rightarrow> u8" where
  "multiply_loop left right product =
     (if right = 0 then product
      else multiply_loop (xtime left) (drop_bit 1 right)
             (if right AND 1 \<noteq> 0 then product XOR left else product))"
  by pat_completeness auto

termination
  by (relation "measure (\<lambda>(left, right, product). unat right)") (auto intro: drop_bit_1_less)

declare multiply_loop.simps [simp del]

definition multiply :: "u8 \<Rightarrow> u8 \<Rightarrow> u8" where
  "multiply left right = multiply_loop left right 0"

function power_loop :: "u8 \<Rightarrow> u8 \<Rightarrow> u8 \<Rightarrow> u8" where
  "power_loop value exponent result =
     (if exponent = 0 then result
      else power_loop (multiply value value) (drop_bit 1 exponent)
             (if exponent AND 1 \<noteq> 0 then multiply result value else result))"
  by pat_completeness auto
termination
  by (relation "measure (\<lambda>(v, exponent, r). unat exponent)") (auto intro: drop_bit_1_less)

declare power_loop.simps [simp del]

definition gf_power :: "u8 \<Rightarrow> u8 \<Rightarrow> u8" where
  "gf_power value exponent = power_loop value exponent 1"

lemma multiply_example: "multiply 0x57 0x83 = 0xc1"
  by (simp add: multiply_def multiply_loop.simps xtime_def)

lemma xtime_xor: "xtime (a XOR b) = xtime a XOR xtime b"
proof -
  have test: "(w AND 0x80 \<noteq> 0) = bit w 7" for w :: u8
    using bit_iff_and_push_bit_not_eq_0 [of w 7] by simp
  show ?thesis unfolding xtime_def Let_def test
    by (auto simp: bit_xor_iff push_bit_xor ac_simps)
qed

subsection \<open>Linearity\<close>

definition additive :: "(u8 \<Rightarrow> u8) \<Rightarrow> bool" where
  "additive f \<longleftrightarrow> (\<forall>a b. f (a XOR b) = f a XOR f b)"

lemma additive_zero: "additive f \<Longrightarrow> f 0 = 0"
  unfolding additive_def by (metis xor_self_eq)

text \<open>Exclusive or over the bits of a byte.\<close>

definition bit_sum :: "(nat \<Rightarrow> u8) \<Rightarrow> u8 \<Rightarrow> u8" where
  "bit_sum f b = foldr (\<lambda>k acc. (if bit b k then f k else 0) XOR acc) [0..<8] 0"

lemma foldr_xor_xor:
  "foldr (\<lambda>k acc. (f k XOR g k) XOR acc) ks (0 :: u8)
    = foldr (\<lambda>k acc. f k XOR acc) ks 0 XOR foldr (\<lambda>k acc. g k XOR acc) ks 0"
  by (induction ks) (simp_all add: xor.assoc xor.left_commute)

lemma bit_sum_add: "bit_sum f (a XOR b) = bit_sum f a XOR bit_sum f b"
proof -
  have "(\<lambda>k acc. (if bit (a XOR b) k then f k else 0) XOR acc)
      = (\<lambda>k acc. ((if bit a k then f k else 0) XOR (if bit b k then f k else 0)) XOR acc)"
    by (intro ext) (auto simp: bit_xor_iff)
  then show ?thesis by (simp add: bit_sum_def foldr_xor_xor)
qed

lemma bit_sum_fun_add: "bit_sum (\<lambda>k. f k XOR g k) b = bit_sum f b XOR bit_sum g b"
proof -
  have "(\<lambda>k acc. (if bit b k then f k XOR g k else 0) XOR acc)
      = (\<lambda>k acc. ((if bit b k then f k else 0) XOR (if bit b k then g k else 0)) XOR acc)"
    by (intro ext) auto
  then show ?thesis by (simp add: bit_sum_def foldr_xor_xor)
qed

lemma additive_bit_sum:
  assumes "additive h"
  shows "h (bit_sum f b) = bit_sum (\<lambda>k. h (f k)) b"
proof -
  have "h (foldr (\<lambda>k acc. (if bit b k then f k else 0) XOR acc) ks 0)
      = foldr (\<lambda>k acc. (if bit b k then h (f k) else 0) XOR acc) ks 0" for ks
    using assms additive_zero [OF assms] by (induction ks) (auto simp: additive_def)
  then show ?thesis by (simp add: bit_sum_def)
qed

lemma bit_foldr_xor:
  "bit (foldr (\<lambda>k acc. f k XOR acc) ks (0::u8)) n \<longleftrightarrow> odd (length (filter (\<lambda>k. bit (f k) n) ks))"
  by (induction ks) (auto simp: bit_xor_iff)
lemma bit_sum_basis: "bit_sum (\<lambda>k. push_bit k 1) b = b"
proof (rule bit_word_eqI)
  fix n assume n: "n < LENGTH(8)"
  have "filter (\<lambda>k. bit (if bit b k then push_bit k 1 else (0::u8)) n) [0..<8] = filter (\<lambda>k. k = n \<and> bit b n) [0..<8]"
    using n by (intro filter_cong) (auto simp: bit_push_bit_iff bit_1_iff simp del: push_bit_of_1)
  also have "\<dots> = (if bit b n then [n] else [])"
  proof -
    have "filter (\<lambda>k. k = n) [0..<8] = [n]"
      using n by (simp add: upt_conv_Cons)
    then show ?thesis by simp
  qed
  finally show "bit (bit_sum (\<lambda>k. push_bit k 1) b) n \<longleftrightarrow> bit b n"
    by (simp only: bit_sum_def bit_foldr_xor) auto
qed

lemma bit_sum_cong: "(\<And>k. k < 8 \<Longrightarrow> bit b k \<Longrightarrow> f k = g k) \<Longrightarrow> bit_sum f b = bit_sum g b"
  unfolding bit_sum_def by (intro foldr_cong) auto

lemma bit_sum_step:
  "bit_sum f b = (if b AND 1 \<noteq> 0 then f 0 else 0) XOR bit_sum (\<lambda>k. f (Suc k)) (drop_bit 1 b)"
proof -
  have hi: "\<not> bit b 8" using bit_imp_le_length [of b 8] by auto
  have lo: "b AND 1 \<noteq> 0 \<longleftrightarrow> bit b 0" by (simp add: and_one_eq bit_0 odd_iff_mod_2_eq_one)
  have up: "[0..<8] = 0 # map Suc [0..<7]" by (simp add: map_Suc_upt upt_conv_Cons)
  have down: "[0..<8] = [0..<7] @ [7]" by (simp add: upt_conv_Cons)
  have "bit_sum (\<lambda>k. f (Suc k)) (drop_bit 1 b)
      = foldr (\<lambda>k acc. (if bit b (Suc k) then f (Suc k) else 0) XOR acc) ([0..<7] @ [7]) 0"
    unfolding bit_sum_def down by (simp add: bit_drop_bit_eq comp_def)
  also have "\<dots> = foldr (\<lambda>k acc. (if bit b k then f k else 0) XOR acc) (map Suc [0..<7]) 0"
    using hi by (simp add: foldr_map comp_def)
  finally show ?thesis
    unfolding lo bit_sum_def up by simp
qed

lemma additive_eq_on_basis:
  assumes "additive f" and "additive g"
    and "list_all (\<lambda>k. f (push_bit k 1) = g (push_bit k 1)) [0..<8]"
  shows "f b = g b"
proof -
  have "f b = bit_sum (\<lambda>k. f (push_bit k 1)) b"
    using additive_bit_sum [OF assms(1), of "\<lambda>k. push_bit k 1" b] by (simp only: bit_sum_basis)
  also have "\<dots> = bit_sum (\<lambda>k. g (push_bit k 1)) b"
    using assms(3) by (intro bit_sum_cong) (auto simp: list_all_iff)
  also have "\<dots> = g b"
    using additive_bit_sum [OF assms(2), of "\<lambda>k. push_bit k 1" b] by (simp only: bit_sum_basis)
  finally show ?thesis .
qed

lemma foldr_skip: "foldr (\<lambda>k acc. acc) ks z = z"
  by (induction ks) auto

lemma multiply_loop_eq:
  "multiply_loop a b p = p XOR bit_sum (\<lambda>k. (xtime ^^ k) a) b"
proof (induction a b p rule: multiply_loop.induct)
  case (1 a b p)
  show ?case
  proof (cases "b = 0")
    case True
    then show ?thesis by (subst multiply_loop.simps) (simp add: bit_sum_def foldr_skip)
  next
    case False
    then show ?thesis
      using 1 by (subst multiply_loop.simps, subst bit_sum_step)
        (auto simp: funpow_swap1 xor.assoc simp del: multiply_loop.simps)
  qed
qed

lemma multiply_eq: "multiply a b = bit_sum (\<lambda>k. (xtime ^^ k) a) b"
  by (simp add: multiply_def multiply_loop_eq)

lemma additive_xtime_power: "additive (xtime ^^ k)"
  by (induction k) (auto simp: additive_def xtime_xor)

lemma additive_multiply_right: "additive (multiply a)"
  by (simp add: additive_def multiply_eq bit_sum_add)

lemma additive_multiply_left: "additive (\<lambda>a. multiply a b)"
  using additive_xtime_power by (simp add: additive_def multiply_eq flip: bit_sum_fun_add)

lemma additive_compose: "additive f \<Longrightarrow> additive g \<Longrightarrow> additive (\<lambda>x. f (g x))"
  by (simp add: additive_def)

lemma additive_id: "additive (\<lambda>x. x)"
  by (simp add: additive_def)

lemma multiply_xtime_left: "multiply (xtime a) b = xtime (multiply a b)"
proof -
  have "additive xtime" by (simp add: additive_def xtime_xor)
  then show ?thesis by (simp add: multiply_eq additive_bit_sum funpow_swap1)
qed

lemma foldr_xor_single:
  "distinct ks \<Longrightarrow> foldr (\<lambda>i acc. (if i = k then c else 0) XOR acc) ks (0 :: u8) = (if k \<in> set ks then c else 0)"
  by (induction ks) auto

lemma multiply_basis:
  assumes "k < 8"
  shows "multiply a (push_bit k 1) = (xtime ^^ k) a"
proof -
  have single: "(if bit (push_bit k (1 :: u8)) i then (xtime ^^ i) a else 0)
      = (if i = k then (xtime ^^ k) a else 0)" if "i < 8" for i
    using that by (auto simp: bit_push_bit_iff bit_1_iff simp del: push_bit_of_1)
  have "multiply a (push_bit k 1) = foldr (\<lambda>i acc. (if i = k then (xtime ^^ k) a else 0) XOR acc) [0..<8] 0"
    unfolding multiply_eq bit_sum_def by (intro foldr_cong) (simp_all only: single set_upt atLeastLessThan_iff)
  then show ?thesis using assms by (simp only: foldr_xor_single distinct_upt) simp
qed

lemma additive_eq_on_bytes:
  assumes "additive f" and "additive g"
    and "map f [0x01, 0x02, 0x04, 0x08, 0x10, 0x20, 0x40, 0x80]
       = map g [0x01, 0x02, 0x04, 0x08, 0x10, 0x20, 0x40, 0x80]"
  shows "f b = g b"
proof (rule additive_eq_on_basis [OF assms(1, 2)])
  have "map (\<lambda>k. push_bit k (1 :: u8)) [0..<8] = [0x01, 0x02, 0x04, 0x08, 0x10, 0x20, 0x40, 0x80]"
    by (simp add: upt_rec)
  then show "list_all (\<lambda>k. f (push_bit k 1) = g (push_bit k 1)) [0..<8]"
    using assms(3) by (simp add: upt_rec)
qed

lemma multiply_reduction: "multiply a 0x1b = xtime (xtime (xtime (xtime (xtime (xtime (xtime (xtime a)))))))"
proof (rule additive_eq_on_bytes [OF additive_multiply_left])
  show "additive (\<lambda>a. xtime (xtime (xtime (xtime (xtime (xtime (xtime (xtime a))))))))"
    by (simp add: additive_def xtime_xor)
qed code_simp

lemma xtime_basis: "k < 8 \<Longrightarrow> k \<noteq> 7 \<Longrightarrow> xtime (push_bit k 1) = push_bit (Suc k) 1"
proof -
  assume "k < 8" and "k \<noteq> 7"
  then have "k \<in> {0, 1, 2, 3, 4, 5, 6}" by auto
  then show ?thesis by (auto simp: xtime_def)
qed

lemma multiply_xtime_basis:
  assumes "k < 8"
  shows "multiply a (xtime (push_bit k 1)) = xtime (multiply a (push_bit k 1))"
proof (cases "k = 7")
  case True
  have "multiply a 0x1b = xtime ((xtime ^^ 7) a)"
    by (simp only: multiply_reduction) (simp add: numeral_eq_Suc)
  moreover have "xtime (push_bit 7 1) = 0x1b" by code_simp
  ultimately show ?thesis
    unfolding True by (simp only: multiply_basis [of 7 a])
next
  case False
  then have "Suc k < 8" using assms by simp
  moreover have "xtime (push_bit k 1) = push_bit (Suc k) 1"
    using xtime_basis False assms by blast
  ultimately show ?thesis
    using assms by (simp only: multiply_basis) simp
qed

lemma multiply_xtime_right: "multiply a (xtime b) = xtime (multiply a b)"
proof (rule additive_eq_on_basis [of "\<lambda>b. multiply a (xtime b)" "\<lambda>b. xtime (multiply a b)" b])
  show "list_all (\<lambda>k. multiply a (xtime (push_bit k 1)) = xtime (multiply a (push_bit k 1))) [0..<8]"
    unfolding list_all_iff by (intro ballI multiply_xtime_basis) simp
  show "additive (\<lambda>b. multiply a (xtime b))" "additive (\<lambda>b. xtime (multiply a b))"
    using additive_multiply_right [of a] by (simp_all add: additive_def xtime_xor)
qed

lemma multiply_one_left: "multiply 1 b = b"
  by (rule additive_eq_on_bytes [OF additive_multiply_right additive_id]) code_simp

lemma multiply_one_right: "multiply a 1 = a"
  using multiply_basis [of 0 a] by simp

lemma multiply_xtimes_left: "multiply ((xtime ^^ k) a) b = (xtime ^^ k) (multiply a b)"
  by (induction k) (simp_all add: multiply_xtime_left)

lemma multiply_xtimes_right: "multiply a ((xtime ^^ k) b) = (xtime ^^ k) (multiply a b)"
  by (induction k) (simp_all add: multiply_xtime_right)

lemma multiply_commute: "multiply a b = multiply b a"
proof (rule additive_eq_on_basis [OF additive_multiply_left additive_multiply_right])
  have "multiply (push_bit k 1) b = multiply b (push_bit k 1)" if k: "k < 8" for k
  proof -
    have "push_bit k 1 = (xtime ^^ k) 1"
      using multiply_basis [OF k, of 1] multiply_one_left by metis
    then show ?thesis
      by (metis multiply_xtimes_left multiply_xtimes_right multiply_one_left multiply_one_right)
  qed
  then show "list_all (\<lambda>k. multiply (push_bit k 1) b = multiply b (push_bit k 1)) [0..<8]"
    by (simp add: list_all_iff)
qed

lemma multiply_assoc: "multiply (multiply a b) c = multiply a (multiply b c)"
proof -
  have "multiply a (multiply b c) = bit_sum (\<lambda>k. multiply a ((xtime ^^ k) b)) c"
    by (simp add: multiply_eq [of b c] additive_bit_sum [OF additive_multiply_right])
  then show ?thesis by (simp add: multiply_xtimes_right multiply_eq [of "multiply a b"])
qed

subsection \<open>The field\<close>

typedef gf256 = "UNIV :: u8 set"
  morphisms byte_of field_of by simp

setup_lifting type_definition_gf256

lemmas gf_inject [simp] = byte_of_inject field_of_inject [OF UNIV_I UNIV_I]
lemmas gf_inverse [simp] = byte_of_inverse field_of_inverse [OF UNIV_I]

instantiation gf256 :: comm_ring_1
begin

lift_definition zero_gf256 :: gf256 is "0 :: u8" .
lift_definition one_gf256 :: gf256 is "1 :: u8" .
lift_definition plus_gf256 :: "gf256 \<Rightarrow> gf256 \<Rightarrow> gf256" is "(XOR)" .
lift_definition minus_gf256 :: "gf256 \<Rightarrow> gf256 \<Rightarrow> gf256" is "(XOR)" .
lift_definition uminus_gf256 :: "gf256 \<Rightarrow> gf256" is "\<lambda>a. a" .
lift_definition times_gf256 :: "gf256 \<Rightarrow> gf256 \<Rightarrow> gf256" is multiply .

instance
proof
  fix a b c :: gf256
  show "a + b + c = a + (b + c)" by transfer (rule xor.assoc)
  show "a + b = b + a" by transfer (rule xor.commute)
  show "0 + a = a" by transfer simp
  show "- a + a = 0" by transfer simp
  show "a - b = a + - b" by transfer simp
  show "a * b * c = a * (b * c)" by transfer (rule multiply_assoc)
  show "a * b = b * a" by transfer (rule multiply_commute)
  show "1 * a = a" by transfer (rule multiply_one_left)
  show "(a + b) * c = a * c + b * c"
    by transfer (use additive_multiply_left in \<open>auto simp: additive_def\<close>)
  show "(0 :: gf256) \<noteq> 1" by transfer simp
qed

end

subsection \<open>Inverses\<close>

definition square :: "u8 \<Rightarrow> u8" where
  "square a = multiply a a"

lemma additive_square: "additive square"
proof (unfold additive_def square_def, intro allI)
  fix a b
  have "multiply (a XOR b) (a XOR b)
      = (multiply a a XOR multiply a b) XOR (multiply b a XOR multiply b b)"
    using additive_multiply_left additive_multiply_right
    by (simp add: additive_def xor.assoc xor.left_commute)
  then show "multiply (a XOR b) (a XOR b) = multiply a a XOR multiply b b"
    by (simp add: multiply_commute [of b a] xor.assoc xor.left_commute)
qed

lemma square_bytes:
  "map square [0x01, 0x02, 0x04, 0x08, 0x10, 0x20, 0x40, 0x80]
     = [0x01, 0x04, 0x10, 0x40, 0x1b, 0x6c, 0xab, 0x9a]"
  "map square [0x01, 0x04, 0x10, 0x40, 0x1b, 0x6c, 0xab, 0x9a]
     = [0x01, 0x10, 0x1b, 0xab, 0x5e, 0x97, 0xb3, 0xc5]"
  "map square [0x01, 0x10, 0x1b, 0xab, 0x5e, 0x97, 0xb3, 0xc5]
     = [0x01, 0x1b, 0x5e, 0xb3, 0xe4, 0x94, 0xe8, 0x20]"
  "map square [0x01, 0x1b, 0x5e, 0xb3, 0xe4, 0x94, 0xe8, 0x20]
     = [0x01, 0x5e, 0xe4, 0xe8, 0x4d, 0x91, 0x1d, 0x6c]"
  "map square [0x01, 0x5e, 0xe4, 0xe8, 0x4d, 0x91, 0x1d, 0x6c]
     = [0x01, 0xe4, 0x4d, 0x1d, 0xfa, 0x80, 0x4a, 0x97]"
  "map square [0x01, 0xe4, 0x4d, 0x1d, 0xfa, 0x80, 0x4a, 0x97]
     = [0x01, 0x4d, 0xfa, 0x4a, 0x02, 0x9a, 0xef, 0x94]"
  "map square [0x01, 0x4d, 0xfa, 0x4a, 0x02, 0x9a, 0xef, 0x94]
     = [0x01, 0xfa, 0x02, 0xef, 0x04, 0xc5, 0x08, 0x91]"
  "map square [0x01, 0xfa, 0x02, 0xef, 0x04, 0xc5, 0x08, 0x91]
     = [0x01, 0x02, 0x04, 0x08, 0x10, 0x20, 0x40, 0x80]"
  by code_simp+

lemma square_eight:
  "square (square (square (square (square (square (square (square a))))))) = a"
proof (rule additive_eq_on_bytes [OF _ additive_id])
  show "additive (\<lambda>a. square (square (square (square (square (square (square (square a))))))))"
    using additive_square by (simp add: additive_def)
qed (use square_bytes in simp)

lemma square_not_fixed:
  "list_all (\<lambda>e. square e \<noteq> e) (map word_of_int [2..255])"
  by code_simp

lemma idempotent_bytes:
  assumes "multiply e e = e"
  shows "e = 0 \<or> e = 1"
proof (rule ccontr)
  assume e: "\<not> (e = 0 \<or> e = 1)"
  then have "uint e \<noteq> 0" and "uint e \<noteq> 1"
    by (metis word_of_int_uint word_of_int_0, metis word_of_int_uint word_of_int_1)
  moreover have "0 \<le> uint e" and "uint e < 256" using uint_bounded [of e] by simp_all
  ultimately have "2 \<le> uint e" and "uint e \<le> 255" by linarith+
  then have "uint e \<in> set [2..255]" by (simp only: set_upto atLeastAtMost_iff)
  then have "word_of_int (uint e) \<in> set (map word_of_int [2..255] :: u8 list)" by (metis image_eqI list.set_map)
  then show False
    using square_not_fixed assms by (simp only: list_all_iff word_of_int_uint square_def)
qed

text \<open>power is exponentiation, and the exponent 254 inverts every nonzero byte.\<close>

lemma byte_of_times: "multiply (byte_of a) (byte_of b) = byte_of (a * b)"
  by transfer simp

lemma unat_split:
  "unat (b :: u8) = 2 * unat (drop_bit 1 b) + (if b AND 1 \<noteq> 0 then 1 else 0)"
proof -
  have "unat (drop_bit 1 b) = unat b div 2"
    by (simp only: unat_drop_bit_eq) (simp add: drop_bit_eq_div)
  moreover have "b AND 1 \<noteq> 0 \<longleftrightarrow> odd (unat b)"
    by (simp add: and_one_eq unat_mod_distrib flip: unat_eq_0) presburger
  ultimately show ?thesis by (simp split: if_splits)
qed

lemma power_loop_eq:
  "power_loop (byte_of v) e (byte_of r) = byte_of (r * v ^ unat e)"
proof (induction "byte_of v" e "byte_of r" arbitrary: v r rule: power_loop.induct)
  case (1 e v r)
  show ?case
  proof (cases "e = 0")
    case True
    then show ?thesis by (subst power_loop.simps) simp
  next
    case False
    have "r * v ^ unat e = (if e AND 1 \<noteq> 0 then r * v else r) * (v * v) ^ unat (drop_bit 1 e)"
      by (subst unat_split [of e]) (simp add: power_mult power2_eq_square)
    then show ?thesis
      using 1 [OF False, of "v * v" "if e AND 1 \<noteq> 0 then r * v else r"] False
      by (subst power_loop.simps) (simp add: byte_of_times split: if_splits)
  qed
qed

lemma gf_power_eq: "gf_power (byte_of v) e = byte_of (v ^ unat e)"
  using power_loop_eq [of v e 1] by (simp add: gf_power_def one_gf256.rep_eq)

lemma power_256: "(a :: gf256) ^ 256 = a"
proof -
  have "byte_of (x * x) = square (byte_of x)" for x by (simp add: square_def byte_of_times)
  then have "byte_of (x ^ 2) = square (byte_of x)" for x by (simp add: power2_eq_square)
  then have "byte_of ((((((((a\<^sup>2)\<^sup>2)\<^sup>2)\<^sup>2)\<^sup>2)\<^sup>2)\<^sup>2)\<^sup>2) = byte_of a"
    by (simp only: square_eight)
  then show ?thesis by (simp flip: power_mult)
qed

lemma power_255:
  assumes "(a :: gf256) \<noteq> 0"
  shows "a ^ 255 = 1"
proof -
  let ?e = "a ^ 255"
  have step: "a * ?e = a"
    using power_256 [of a] by (simp flip: power_Suc)
  have "?e * ?e = a ^ 254 * (a * ?e)"
    by (simp add: ac_simps flip: power_Suc power_add)
  also have "\<dots> = ?e"
    unfolding step by (simp add: ac_simps flip: power_Suc)
  finally have "multiply (byte_of ?e) (byte_of ?e) = byte_of ?e" by (simp only: byte_of_times)
  then have "byte_of ?e = byte_of 0 \<or> byte_of ?e = byte_of 1"
    using idempotent_bytes by (simp add: zero_gf256.rep_eq one_gf256.rep_eq)
  then have "?e = 0 \<or> ?e = 1" by (simp only: byte_of_inject)
  then show ?thesis using step assms by auto
qed

instantiation gf256 :: field
begin

definition inverse_gf256 :: "gf256 \<Rightarrow> gf256" where
  "inverse_gf256 a = a ^ 254"

definition divide_gf256 :: "gf256 \<Rightarrow> gf256 \<Rightarrow> gf256" where
  "divide_gf256 a b = a * inverse b"

instance
proof
  fix a b :: gf256
  show "a \<noteq> 0 \<Longrightarrow> inverse a * a = 1"
    using power_255 [of a] by (simp add: inverse_gf256_def ac_simps flip: power_Suc)
  show "a div b = a * inverse b" by (rule divide_gf256_def)
  show "inverse 0 = (0 :: gf256)" by (simp add: inverse_gf256_def)
qed

end

text \<open>FieldElement::divide, with its guard on the denominator.\<close>

definition gf_divide :: "u8 \<Rightarrow> u8 \<Rightarrow> u8 multi_device" where
  "gf_divide numerator denominator =
     (if denominator = 0 then Inl InvalidSentinelShareEncoding
      else if numerator = 0 then Inr 0
      else Inr (multiply numerator (gf_power denominator 254)))"

lemma byte_of_eq_0: "byte_of x = 0 \<longleftrightarrow> x = 0"
  by (metis byte_of_inject zero_gf256.rep_eq)

lemma gf_divide_eq: "b \<noteq> 0 \<Longrightarrow> gf_divide (byte_of a) (byte_of b) = Inr (byte_of (a / b))"
  by (auto simp: gf_divide_def byte_of_eq_0 gf_power_eq byte_of_times divide_gf256_def inverse_gf256_def
      zero_gf256.rep_eq)

end
