(* ===== verification/Lagrange.thy ===== *)
theory Lagrange
  imports Prelude
begin

text \<open>
  Interpolation over a field, by values only.  A function has degree below n when n successive
  divided differences exhaust it; such a function is determined by its values at n points, and the
  Lagrange form through n points has degree below n.  The secret polynomial of SLIP-39 is used
  through these lemmas, at the field of the bytes.
\<close>

subsection \<open>Functions of bounded degree\<close>

fun deg_less :: "nat \<Rightarrow> ('a :: field \<Rightarrow> 'a) \<Rightarrow> bool" where
  "deg_less 0 f \<longleftrightarrow> (\<forall>x. f x = 0)"
| "deg_less (Suc n) f \<longleftrightarrow> (\<forall>a. \<exists>g. deg_less n g \<and> (\<forall>x. f x = f a + (x - a) * g x))"

lemma deg_less_zero: "deg_less n (\<lambda>x. 0)"
proof (induction n)
  case (Suc n)
  then show ?case by auto
qed simp

lemma deg_less_const: "deg_less (Suc n) (\<lambda>x. c)"
  using deg_less_zero [of n] by (auto intro!: exI [of _ "\<lambda>x. 0"])

lemma deg_less_add: "deg_less n f \<Longrightarrow> deg_less n g \<Longrightarrow> deg_less n (\<lambda>x. f x + g x)"
proof (induction n arbitrary: f g)
  case (Suc n)
  show ?case
  proof (simp only: deg_less.simps, intro allI)
    fix a
    obtain f' g' where f': "deg_less n f'" "\<And>x. f x = f a + (x - a) * f' x"
      and g': "deg_less n g'" "\<And>x. g x = g a + (x - a) * g' x"
      using Suc.prems unfolding deg_less.simps by metis
    have "f x + g x = f a + g a + (x - a) * (f' x + g' x)" for x
      using f'(2) [of x] g'(2) [of x] by (simp add: algebra_simps)
    then show "\<exists>h. deg_less n h \<and> (\<forall>x. f x + g x = f a + g a + (x - a) * h x)"
      using Suc.IH [OF f'(1) g'(1)] by blast
  qed
qed simp

lemma deg_less_scale: "deg_less n f \<Longrightarrow> deg_less n (\<lambda>x. c * f x)"
proof (induction n arbitrary: f)
  case (Suc n)
  show ?case
  proof (simp only: deg_less.simps, intro allI)
    fix a
    obtain f' where f': "deg_less n f'" "\<And>x. f x = f a + (x - a) * f' x"
      using Suc.prems unfolding deg_less.simps by metis
    have "c * f x = c * f a + (x - a) * (c * f' x)" for x
      using f'(2) [of x] by (metis distrib_left mult.left_commute)
    then show "\<exists>h. deg_less n h \<and> (\<forall>x. c * f x = c * f a + (x - a) * h x)"
      using Suc.IH [OF f'(1)] by blast
  qed
qed simp

lemma deg_less_Suc: "deg_less n f \<Longrightarrow> deg_less (Suc n) f"
proof (induction n arbitrary: f)
  case 0
  then show ?case by (auto intro!: exI [of _ "\<lambda>x. 0"])
next
  case (Suc n)
  then show ?case by (metis deg_less.simps(2))
qed

lemma deg_less_mono: "m \<le> n \<Longrightarrow> deg_less m f \<Longrightarrow> deg_less n f"
  by (induction rule: dec_induct) (auto intro: deg_less_Suc simp del: deg_less.simps)

lemma deg_less_linear_factor: "deg_less n f \<Longrightarrow> deg_less (Suc n) (\<lambda>x. (x - b) * f x)"
proof (induction n arbitrary: f)
  case 0
  then show ?case by (auto intro!: exI [of _ "\<lambda>x. 0"])
next
  case (Suc n)
  show ?case
  proof (subst deg_less.simps, intro allI)
    fix a
    obtain g where g: "deg_less n g" "\<And>x. f x = f a + (x - a) * g x"
      using Suc.prems unfolding deg_less.simps by metis
    have "(x - b) * f x = (a - b) * f a + (x - a) * (f x + (a - b) * g x)" for x
    proof -
      have "(x - b) * f x = (x - a) * f x + (a - b) * f x" by (simp add: algebra_simps)
      also have "(a - b) * f x = (a - b) * f a + (x - a) * ((a - b) * g x)"
        by (subst g(2) [of x]) (simp add: algebra_simps)
      finally show ?thesis by (simp add: algebra_simps)
    qed
    moreover have "deg_less (Suc n) (\<lambda>x. f x + (a - b) * g x)"
      using Suc.prems deg_less_Suc [OF deg_less_scale [OF g(1)]] by (rule deg_less_add)
    ultimately show "\<exists>h. deg_less (Suc n) h \<and> (\<forall>x. (x - b) * f x = (a - b) * f a + (x - a) * h x)"
      by blast
  qed
qed

lemma deg_less_sum_list:
  "(\<And>k. k \<in> set ks \<Longrightarrow> deg_less n (f k)) \<Longrightarrow> deg_less n (\<lambda>x. \<Sum>k\<leftarrow>ks. f k x)"
proof (induction ks)
  case Nil
  then show ?case using deg_less_zero by simp
next
  case (Cons k ks)
  then show ?case using deg_less_add [of n "f k" "\<lambda>x. \<Sum>k\<leftarrow>ks. f k x"] by simp
qed

text \<open>A function of degree below n with n roots vanishes.\<close>

lemma deg_less_roots:
  assumes "deg_less n f" and "distinct xs" and "n \<le> length xs" and "\<forall>x\<in>set xs. f x = 0"
  shows "f y = 0"
  using assms
proof (induction n arbitrary: f xs y)
  case (Suc n)
  then obtain a ys where xs: "xs = a # ys" by (cases xs) auto
  obtain g where g: "deg_less n g" "\<And>x. f x = f a + (x - a) * g x"
    using Suc.prems(1) unfolding deg_less.simps by metis
  have "f a = 0" using Suc.prems(4) xs by simp
  then have f: "f x = (x - a) * g x" for x using g(2) by (metis add_0)
  have "g x = 0" if "x \<in> set ys" for x
    using f [of x] that Suc.prems(2,4) xs by auto
  then have "g y = 0"
    using Suc.IH [of g ys] g(1) Suc.prems(2,3) xs by simp
  then show ?case using f [of y] by simp
qed simp

lemma deg_less_unique:
  assumes "deg_less n f" and "deg_less n g" and "distinct xs" and "n \<le> length xs"
    and "\<forall>x\<in>set xs. f x = g x"
  shows "f y = g y"
proof -
  have "deg_less n (\<lambda>x. f x + (- 1) * g x)"
    using assms(1) deg_less_scale [OF assms(2)] by (rule deg_less_add)
  then have "f y + (- 1) * g y = 0"
    using deg_less_roots [of n "\<lambda>x. f x + (- 1) * g x" xs y] assms(3-5) by simp
  then show ?thesis by simp
qed

subsection \<open>The Lagrange form\<close>

definition lagrange_basis :: "'a :: field list \<Rightarrow> 'a \<Rightarrow> 'a \<Rightarrow> 'a" where
  "lagrange_basis xs a x = (\<Prod>b\<leftarrow>filter (\<lambda>b. b \<noteq> a) xs. (x - b) / (a - b))"

definition lagrange :: "('a :: field \<times> 'a) list \<Rightarrow> 'a \<Rightarrow> 'a" where
  "lagrange ps x = (\<Sum>p\<leftarrow>ps. snd p * lagrange_basis (map fst ps) (fst p) x)"

lemma deg_less_basis: "deg_less (Suc (length (filter (\<lambda>b. b \<noteq> a) xs))) (lagrange_basis xs a)"
proof (induction xs)
  case Nil
  then show ?case using deg_less_const [of 0 1] by (simp add: lagrange_basis_def [abs_def])
next
  case (Cons b xs)
  show ?case
  proof (cases "b = a")
    case True
    then show ?thesis using Cons by (simp add: lagrange_basis_def [abs_def])
  next
    case False
    have "lagrange_basis (b # xs) a = (\<lambda>x. inverse (a - b) * ((x - b) * lagrange_basis xs a x))"
      using False by (intro ext) (simp add: lagrange_basis_def divide_inverse ac_simps)
    then show ?thesis
      using deg_less_scale [OF deg_less_linear_factor [OF Cons]] False by simp
  qed
qed

lemma filter_other_length:
  "distinct xs \<Longrightarrow> a \<in> set xs \<Longrightarrow> Suc (length (filter (\<lambda>b. b \<noteq> a) xs)) = length xs"
proof (induction xs)
  case (Cons b xs)
  then show ?case
    using filter_id_conv [of "\<lambda>b. b \<noteq> a" xs] by (cases "a = b") auto
qed simp

lemma deg_less_lagrange:
  assumes "distinct (map fst ps)"
  shows "deg_less (length ps) (lagrange ps)"
proof -
  have "deg_less (length ps) (\<lambda>x. snd p * lagrange_basis (map fst ps) (fst p) x)" if "p \<in> set ps" for p
    using deg_less_scale [OF deg_less_basis [of "fst p" "map fst ps"]]
      filter_other_length [OF assms, of "fst p"] that by (simp del: deg_less.simps)
  then show ?thesis
    unfolding lagrange_def [abs_def] by (rule deg_less_sum_list)
qed

lemma lagrange_basis_self: "lagrange_basis xs a a = 1"
  by (induction xs) (auto simp: lagrange_basis_def)

lemma lagrange_basis_other: "b \<in> set xs \<Longrightarrow> b \<noteq> a \<Longrightarrow> lagrange_basis xs a b = 0"
  by (auto simp: lagrange_basis_def prod_list_zero_iff)

lemma lagrange_node:
  assumes "distinct (map fst ps)" and "(a, y) \<in> set ps"
  shows "lagrange ps a = y"
proof -
  have summand: "snd p * lagrange_basis (map fst ps) (fst p) a = (if p = (a, y) then y else 0)"
    if "p \<in> set ps" for p
  proof (cases "fst p = a")
    case True
    then have "p = (a, y)"
      using assms that by (metis eq_key_imp_eq_value prod.collapse)
    then show ?thesis by (simp add: lagrange_basis_self)
  next
    case False
    moreover have "a \<in> set (map fst ps)" using assms(2) by force
    ultimately show ?thesis using lagrange_basis_other [of a "map fst ps" "fst p"] by auto
  qed
  have "lagrange ps a = (\<Sum>p\<leftarrow>ps. if p = (a, y) then y else 0)"
    unfolding lagrange_def by (intro arg_cong [where f = sum_list] map_cong refl summand)
  also have "\<dots> = y"
  proof -
    have "distinct qs \<Longrightarrow> (\<Sum>p\<leftarrow>qs. if p = (a, y) then y else 0) = (if (a, y) \<in> set qs then y else 0)" for qs
      by (induction qs) auto
    then show ?thesis using assms by (simp add: distinct_map)
  qed
  finally show ?thesis .
qed

text \<open>Any quorum of points of a function of degree below n interpolates the function.\<close>

lemma lagrange_eq:
  assumes "deg_less n f" and "n \<le> length ps" and "distinct (map fst ps)"
    and "\<forall>(a, y)\<in>set ps. y = f a"
  shows "lagrange ps x = f x"
proof (rule deg_less_unique [of "length ps" "lagrange ps" f "map fst ps" x])
  show "deg_less (length ps) (lagrange ps)" using assms(3) by (rule deg_less_lagrange)
  show "deg_less (length ps) f" using assms(1,2) deg_less_mono by blast
  show "\<forall>x\<in>set (map fst ps). lagrange ps x = f x"
    using assms(3,4) lagrange_node by fastforce
qed (use assms(3) in auto)

end
