(* ===== verification/Shamir.thy ===== *)
theory Shamir
  imports Gf256 Lagrange
begin

text \<open>
  The SLIP-39 secret polynomial (nook-auth2/src/auth/slip39/polynomial.rs): splitting a secret
  into indexed shares, interpolating shares at an index, recovering the secret with its digest
  check, and the HMAC the digest is cut from.

  The crates the file calls are parameters: sha256 is the array of digest bytes of a message, and
  rng is the outcome of the numbered calls of getrandom::fill, an error or the bytes written into
  a buffer of the given length.  Buffers have their length by construction, as in the source.
\<close>

unbundle bit_operations_syntax

type_synonym sha256_fn = "bytes \<Rightarrow> nat \<Rightarrow> u8"
type_synonym rng_fn = "nat \<Rightarrow> nat \<Rightarrow> (string, nat \<Rightarrow> u8) result"

record raw_share =
  rs_index :: u8
  rs_value :: bytes

abbreviation (input) DIGEST_BYTES :: nat where "DIGEST_BYTES \<equiv> 4"
abbreviation (input) DIGEST_INDEX :: u8 where "DIGEST_INDEX \<equiv> 254"
abbreviation (input) SECRET_INDEX :: u8 where "SECRET_INDEX \<equiv> 255"

subsection \<open>Randomness and digest\<close>

definition random_fill :: "rng_fn \<Rightarrow> nat \<Rightarrow> nat \<Rightarrow> bytes multi_device" where
  "random_fill rng call n =
     (case rng call n of Inl e \<Rightarrow> Inl (GenerateKey e) | Inr f \<Rightarrow> Inr (map f [0..<n]))"

text \<open>Copying an iterator into a buffer, as far as both reach.\<close>

definition copy_into :: "bytes \<Rightarrow> bytes \<Rightarrow> bytes" where
  "copy_into buffer input = take (length buffer) input @ drop (length input) buffer"

lemma length_copy_into [simp]: "length (copy_into buffer input) = length buffer"
  by (simp add: copy_into_def)

definition sha256_digest :: "sha256_fn \<Rightarrow> bytes \<Rightarrow> bytes" where
  "sha256_digest sha message = map (sha message) [0..<32]"

definition hmac_digest :: "sha256_fn \<Rightarrow> bytes \<Rightarrow> bytes \<Rightarrow> bytes" where
  "hmac_digest sha key message =
     (let normalized =
            (if length key > 64 then copy_into (replicate 64 0) (sha256_digest sha key)
             else copy_into (replicate 64 0) key);
          inner_pad = map (\<lambda>key. 0x36 XOR key) normalized;
          outer_pad = map (\<lambda>key. 0x5c XOR key) normalized
      in sha256_digest sha (outer_pad @ sha256_digest sha (inner_pad @ message)))"

definition share_digest :: "sha256_fn \<Rightarrow> bytes \<Rightarrow> bytes \<Rightarrow> bytes" where
  "share_digest sha random_part secret =
     copy_into (replicate DIGEST_BYTES 0) (hmac_digest sha random_part secret)"

lemma length_share_digest [simp]: "length (share_digest sha r s) = DIGEST_BYTES"
  by (simp add: share_digest_def)

subsection \<open>Interpolation\<close>

definition basis_at :: "raw_share list \<Rightarrow> u8 \<Rightarrow> raw_share \<Rightarrow> u8 multi_device" where
  "basis_at shares target share =
     fold_result (\<lambda>basis other.
       if rs_index other \<noteq> rs_index share
       then let numerator = target XOR rs_index other;
                denominator = rs_index share XOR rs_index other
            in and_then (gf_divide numerator denominator) (\<lambda>q. Inr (multiply basis q))
       else Inr basis) 1 shares"

definition accumulate :: "bytes \<Rightarrow> bytes \<Rightarrow> u8 \<Rightarrow> bytes" where
  "accumulate result value basis =
     map2 (\<lambda>output value. output XOR multiply value basis) result value @ drop (length value) result"

definition interpolate :: "raw_share list \<Rightarrow> u8 \<Rightarrow> bytes multi_device" where
  "interpolate shares target =
     (case shares of
        [] \<Rightarrow> Inl InvalidSentinelShareEncoding
      | first # _ \<Rightarrow>
          let n = length (rs_value first) in
          if card (set (map rs_index shares)) \<noteq> length shares
             \<or> (\<exists>share\<in>set shares. length (rs_value share) \<noteq> n)
          then Inl InvalidSentinelShareEncoding
          else (case find (\<lambda>share. rs_index share = target) shares of
                  Some share \<Rightarrow> Inr (rs_value share)
                | None \<Rightarrow>
                    fold_result (\<lambda>result share.
                      and_then (basis_at shares target share)
                        (\<lambda>basis. Inr (accumulate result (rs_value share) basis)))
                      (replicate n 0) shares))"

subsection \<open>Splitting and recovering\<close>

definition u8_try_from :: "nat \<Rightarrow> u8 multi_device" where
  "u8_try_from index = (if index < 256 then Inr (of_nat index) else Inl InvalidSentinelShareEncoding)"

definition random_share :: "rng_fn \<Rightarrow> nat \<Rightarrow> nat \<Rightarrow> nat \<Rightarrow> raw_share multi_device" where
  "random_share rng calls n index =
     and_then (random_fill rng (calls + index) n) (\<lambda>value.
     and_then (u8_try_from index) (\<lambda>i. Inr \<lparr>rs_index = i, rs_value = value\<rparr>))"

definition derived_share :: "raw_share list \<Rightarrow> nat \<Rightarrow> raw_share multi_device" where
  "derived_share base_points index =
     and_then (u8_try_from index) (\<lambda>i.
     and_then (interpolate base_points i) (\<lambda>value. Inr \<lparr>rs_index = i, rs_value = value\<rparr>))"

definition base_points_of :: "sha256_fn \<Rightarrow> raw_share list \<Rightarrow> bytes \<Rightarrow> bytes \<Rightarrow> raw_share list" where
  "base_points_of sha shares random_part secret =
     shares @ [\<lparr>rs_index = DIGEST_INDEX, rs_value = share_digest sha random_part secret @ random_part\<rparr>,
               \<lparr>rs_index = SECRET_INDEX, rs_value = secret\<rparr>]"

definition split_secret ::
    "rng_fn \<Rightarrow> sha256_fn \<Rightarrow> nat \<Rightarrow> u8 \<Rightarrow> u8 \<Rightarrow> bytes \<Rightarrow> raw_share list multi_device" where
  "split_secret rng sha calls threshold share_count secret =
     (if threshold = 0 \<or> share_count < threshold \<or> 16 < share_count
         \<or> length secret < 16 \<or> \<not> 2 dvd length secret
      then Inl InvalidSentinelShareEncoding
      else if threshold = 1
      then Inr (map (\<lambda>index. \<lparr>rs_index = of_nat index, rs_value = secret\<rparr>) [0..<unat share_count])
      else let random_share_count = unat (threshold - 2) in
        and_then (traverse (random_share rng calls (length secret)) [0..<random_share_count]) (\<lambda>shares.
        and_then (random_fill rng (calls + random_share_count) (length secret - DIGEST_BYTES)) (\<lambda>random_part.
        and_then (traverse (derived_share (base_points_of sha shares random_part secret))
                   [random_share_count..<unat share_count]) (\<lambda>derived.
        Inr (shares @ derived)))))"

definition recover_secret :: "sha256_fn \<Rightarrow> u8 \<Rightarrow> raw_share list \<Rightarrow> bytes multi_device" where
  "recover_secret sha threshold shares =
     (if threshold = 0 \<or> length shares < unat threshold
      then Inl (NotEnoughSentinelShares (unat threshold) (length shares))
      else if threshold = 1
      then (case shares of [] \<Rightarrow> Inl InvalidSentinelShareEncoding | share # _ \<Rightarrow> Inr (rs_value share))
      else
        and_then (interpolate shares SECRET_INDEX) (\<lambda>secret.
        and_then (interpolate shares DIGEST_INDEX) (\<lambda>digest_share.
          if length digest_share < DIGEST_BYTES then Inl InvalidSentinelShareEncoding
          else if take DIGEST_BYTES digest_share
                    \<noteq> share_digest sha (drop DIGEST_BYTES digest_share) secret
          then Inl InvalidSentinelShareEncoding
          else Inr secret)))"

subsection \<open>Interpolation is the Lagrange form\<close>

lemma field_of_xor: "field_of (a XOR b) = field_of a - field_of b"
  by (simp add: minus_gf256.abs_eq)

lemma field_of_0: "field_of 0 = 0"
  by (simp add: zero_gf256_def)

lemma field_of_1: "field_of 1 = 1"
  by (simp add: one_gf256_def)

lemma gf_divide_bytes:
  "b \<noteq> 0 \<Longrightarrow> gf_divide a b = Inr (byte_of (field_of a / field_of b))"
  using gf_divide_eq [of "field_of b" "field_of a"] by (simp flip: byte_of_eq_0)

lemma multiply_bytes: "multiply a b = byte_of (field_of a * field_of b)"
  using byte_of_times [of "field_of a" "field_of b"] by simp

definition index_of :: "raw_share \<Rightarrow> gf256" where
  "index_of share = field_of (rs_index share)"

definition point_at :: "nat \<Rightarrow> raw_share \<Rightarrow> gf256 \<times> gf256" where
  "point_at k share = (index_of share, field_of (rs_value share ! k))"

lemma basis_at_eq:
  "basis_at shares target share
    = Inr (byte_of (lagrange_basis (map index_of shares) (index_of share) (field_of target)))"
proof -
  have "fold_result (\<lambda>basis other.
       if rs_index other \<noteq> rs_index share
       then let numerator = target XOR rs_index other;
                denominator = rs_index share XOR rs_index other
            in and_then (gf_divide numerator denominator) (\<lambda>q. Inr (multiply basis q))
       else Inr basis) b shares
    = Inr (byte_of (field_of b * lagrange_basis (map index_of shares) (index_of share) (field_of target)))"
    for b
  proof (induction shares arbitrary: b)
    case Nil
    then show ?case by (simp add: lagrange_basis_def)
  next
    case (Cons other shares)
    have "rs_index share XOR rs_index other \<noteq> 0" if "rs_index other \<noteq> rs_index share"
      using that by (metis xor_self_eq xor.right_neutral xor.assoc)
    then show ?case
      using Cons by (auto simp: Let_def gf_divide_bytes lagrange_basis_def index_of_def field_of_xor
          multiply_bytes mult.assoc)
  qed
  from this [of 1] show ?thesis by (simp add: basis_at_def field_of_1)
qed

lemma accumulate_nth:
  assumes "length value = length result" and "k < length result"
  shows "accumulate result value basis ! k
    = byte_of (field_of (result ! k) + field_of (value ! k) * field_of basis)"
  using assms by (simp add: accumulate_def nth_append multiply_bytes plus_gf256.rep_eq)

lemma length_accumulate: "length value = length result \<Longrightarrow> length (accumulate result value b) = length result"
  by (simp add: accumulate_def)

definition valid_points :: "raw_share list \<Rightarrow> nat \<Rightarrow> bool" where
  "valid_points shares n \<longleftrightarrow>
     shares \<noteq> [] \<and> distinct (map rs_index shares) \<and> (\<forall>share\<in>set shares. length (rs_value share) = n)"

lemma accumulate_all:
  assumes "\<forall>share\<in>set shares. length (rs_value share) = n" and "length result = n"
  shows "fold_result (\<lambda>result share. Inr (accumulate result (rs_value share) (byte_of (w share)))) result shares
    = (Inr (map (\<lambda>k. byte_of (field_of (result ! k) + (\<Sum>s\<leftarrow>shares. field_of (rs_value s ! k) * w s))) [0..<n])
       :: bytes multi_device)"
  using assms
proof (induction shares arbitrary: result)
  case Nil
  then show ?case by (auto intro: nth_equalityI)
next
  case (Cons share shares)
  have "fold_result (\<lambda>result share. Inr (accumulate result (rs_value share) (byte_of (w share))))
      (accumulate result (rs_value share) (byte_of (w share))) shares
    = (Inr (map (\<lambda>k. byte_of (field_of (accumulate result (rs_value share) (byte_of (w share)) ! k)
        + (\<Sum>s\<leftarrow>shares. field_of (rs_value s ! k) * w s))) [0..<n]) :: bytes multi_device)"
    by (rule Cons.IH) (use Cons.prems in \<open>auto simp: length_accumulate\<close>)
  then show ?case
    using Cons.prems by (auto simp: accumulate_nth add.assoc)
qed

lemma distinct_index_of: "distinct (map index_of shares) \<longleftrightarrow> distinct (map rs_index shares)"
  by (simp add: distinct_map inj_on_def index_of_def)

lemma interpolate_eq:
  assumes "valid_points shares n"
  shows "interpolate shares target
    = Inr (map (\<lambda>k. byte_of (lagrange (map (point_at k) shares) (field_of target))) [0..<n])"
proof -
  obtain first rest where shares: "shares = first # rest"
    using assms by (cases shares) (auto simp: valid_points_def)
  have dist: "distinct (map rs_index shares)" and len: "\<forall>share\<in>set shares. length (rs_value share) = n"
    using assms by (auto simp: valid_points_def)
  then have card: "card (set (map rs_index shares)) = length shares"
    using distinct_card by fastforce
  have guard: "\<not> (card (set (map rs_index shares)) \<noteq> length shares
      \<or> (\<exists>share\<in>set shares. length (rs_value share) \<noteq> length (rs_value first)))"
    using card len shares by auto
  have nodes: "map fst (map (point_at k) shares) = map index_of shares" for k
    by (simp add: point_at_def comp_def)
  show ?thesis
  proof (cases "find (\<lambda>share. rs_index share = target) shares")
    case (Some share)
    then have share: "share \<in> set shares" "rs_index share = target"
      by (auto simp: find_Some_iff)
    have "lagrange (map (point_at k) shares) (field_of target) = field_of (rs_value share ! k)" for k
    proof (rule lagrange_node)
      show "distinct (map fst (map (point_at k) shares))"
        using dist by (simp only: nodes distinct_index_of)
      show "(field_of target, field_of (rs_value share ! k)) \<in> set (map (point_at k) shares)"
        using share by (force simp: point_at_def index_of_def)
    qed
    then have "rs_value share = map (\<lambda>k. byte_of (lagrange (map (point_at k) shares) (field_of target))) [0..<n]"
      using len share(1) by (auto intro: nth_equalityI)
    then show ?thesis
      using guard Some unfolding shares interpolate_def Let_def by simp
  next
    case None
    have "fold_result (\<lambda>result share.
        and_then (basis_at shares target share)
          (\<lambda>basis. Inr (accumulate result (rs_value share) basis))) (replicate n 0) shares
      = Inr (map (\<lambda>k. byte_of (lagrange (map (point_at k) shares) (field_of target))) [0..<n])"
    proof -
      have "(\<Sum>s\<leftarrow>shares. field_of (rs_value s ! k)
            * lagrange_basis (map index_of shares) (index_of s) (field_of target))
          = lagrange (map (point_at k) shares) (field_of target)" for k
        unfolding lagrange_def by (simp only: nodes map_map) (simp add: point_at_def comp_def)
      then show ?thesis
        using accumulate_all [OF len, of "replicate n 0"
            "\<lambda>s. lagrange_basis (map index_of shares) (index_of s) (field_of target)"]
        by (auto simp: basis_at_eq field_of_0)
    qed
    then show ?thesis
      using guard None len unfolding shares interpolate_def Let_def by simp
  qed
qed

subsection \<open>Shares on a curve\<close>

text \<open>
  A family of shares lies on a curve f when the k-th byte of each is the value of f k at its
  index.  Any quorum of shares on a curve of degree below the threshold interpolates the curve.
\<close>

definition on_curve :: "(nat \<Rightarrow> gf256 \<Rightarrow> gf256) \<Rightarrow> nat \<Rightarrow> raw_share \<Rightarrow> bool" where
  "on_curve f n share \<longleftrightarrow> rs_value share = map (\<lambda>k. byte_of (f k (index_of share))) [0..<n]"

lemma interpolate_curve:
  assumes "\<And>k. deg_less t (f k)" and "\<forall>share\<in>set shares. on_curve f n share"
    and "distinct (map rs_index shares)" and "t \<le> length shares" and "shares \<noteq> []"
  shows "interpolate shares target = Inr (map (\<lambda>k. byte_of (f k (field_of target))) [0..<n])"
proof -
  have "valid_points shares n"
    using assms(2,3,5) by (auto simp: valid_points_def on_curve_def)
  moreover have "lagrange (map (point_at k) shares) x = f k x" if "k < n" for k x
  proof (rule lagrange_eq [of t])
    show "distinct (map fst (map (point_at k) shares))"
      using assms(3) by (simp add: point_at_def comp_def flip: distinct_index_of)
    show "\<forall>(a, y)\<in>set (map (point_at k) shares). y = f k a"
      using assms(2) that by (auto simp: point_at_def on_curve_def)
  qed (use assms(1,4) in auto)
  ultimately show ?thesis by (simp add: interpolate_eq)
qed

definition curve_of :: "raw_share list \<Rightarrow> nat \<Rightarrow> gf256 \<Rightarrow> gf256" where
  "curve_of shares k = lagrange (map (point_at k) shares)"

lemma curve_of_points:
  assumes "valid_points shares n"
  shows "deg_less (length shares) (curve_of shares k)"
    and "\<forall>share\<in>set shares. on_curve (curve_of shares) n share"
proof -
  have dist: "distinct (map fst (map (point_at k) shares))" for k
    using assms by (simp add: point_at_def comp_def valid_points_def flip: distinct_index_of)
  then show "deg_less (length shares) (curve_of shares k)"
    using deg_less_lagrange [OF dist [of k]] by (simp add: curve_of_def [abs_def])
  show "\<forall>share\<in>set shares. on_curve (curve_of shares) n share"
  proof
    fix share assume share: "share \<in> set shares"
    have "curve_of shares k (index_of share) = field_of (rs_value share ! k)" for k
      unfolding curve_of_def using share by (intro lagrange_node [OF dist]) (auto simp: point_at_def)
    moreover have "length (rs_value share) = n" using share assms by (simp add: valid_points_def)
    ultimately show "on_curve (curve_of shares) n share"
      by (auto simp: on_curve_def intro: nth_equalityI)
  qed
qed

subsection \<open>The shares that split issues\<close>

lemma random_fill_Inr: "random_fill rng c n = Inr v \<Longrightarrow> length v = n"
  by (auto simp: random_fill_def split: sum.splits)

lemma random_share_Inr:
  assumes "random_share rng calls n index = Inr share"
  shows "rs_index share = of_nat index" and "length (rs_value share) = n" and "index < 256"
  using assms random_fill_Inr
  by (auto simp: random_share_def and_then_Inr_iff u8_try_from_def split: if_splits)

lemma of_nat_u8_inj: "i < 256 \<Longrightarrow> j < 256 \<Longrightarrow> (of_nat i :: u8) = of_nat j \<longleftrightarrow> i = j"
  by (simp add: word_of_nat_eq_iff take_bit_nat_eq_self)

definition split_admits :: "u8 \<Rightarrow> u8 \<Rightarrow> bytes \<Rightarrow> bool" where
  "split_admits threshold share_count secret \<longleftrightarrow>
     threshold \<noteq> 0 \<and> threshold \<le> share_count \<and> share_count \<le> 16
     \<and> 16 \<le> length secret \<and> 2 dvd length secret"

lemma split_secret_admits:
  "split_secret rng sha calls t n secret = Inr shares \<Longrightarrow> split_admits t n secret"
  by (auto simp: split_secret_def split_admits_def not_le not_less split: if_splits)

lemma split_secret_steps:
  assumes "split_secret rng sha calls t n secret = Inr shares" and "t \<noteq> 1"
  obtains rs rp ds where "traverse (random_share rng calls (length secret)) [0..<unat (t - 2)] = Inr rs"
    and "random_fill rng (calls + unat (t - 2)) (length secret - DIGEST_BYTES) = Inr rp"
    and "traverse (derived_share (base_points_of sha rs rp secret)) [unat (t - 2)..<unat n] = Inr ds"
    and "shares = rs @ ds"
  using assms by (auto simp: split_secret_def and_then_Inr_iff Let_def split: if_splits)

lemma split_admits_unat:
  assumes "split_admits t n secret" and "t \<noteq> 1"
  shows "2 \<le> unat t" and "unat t \<le> unat n" and "unat n \<le> 16" and "unat (t - 2) = unat t - 2"
    and "16 \<le> length secret"
proof -
  have "unat t \<noteq> 0" using assms(1) by (simp add: split_admits_def unat_eq_0)
  moreover have "unat t \<noteq> 1" using assms(2) by (metis unsigned_1 word_unat_eq_iff)
  ultimately show two: "2 \<le> unat t" by linarith
  then show "unat (t - 2) = unat t - 2" by (simp add: unat_sub_if')
  show "unat t \<le> unat n" "unat n \<le> 16" "16 \<le> length secret"
    using assms(1) by (simp_all add: split_admits_def word_le_nat_alt)
qed

lemma random_shares:
  assumes "traverse (random_share rng calls n) [0..<m] = Inr rs"
  shows "map rs_index rs = map of_nat [0..<m]" and "\<forall>s\<in>set rs. length (rs_value s) = n"
    and "length rs = m"
  using traverse_Inr_map [OF assms random_share_Inr(1)] traverse_Inr_all [OF assms random_share_Inr(2)]
    traverse_Inr_length [OF assms] by simp_all

lemma of_nat_u8_eq_numeral: "i < 16 \<Longrightarrow> (of_nat i :: u8) \<noteq> 254" "i < 16 \<Longrightarrow> (of_nat i :: u8) \<noteq> 255"
  using of_nat_u8_inj [of i 254] of_nat_u8_inj [of i 255] by auto

lemma distinct_of_nat_u8: "m \<le> 256 \<Longrightarrow> distinct (map of_nat [0..<m] :: u8 list)"
  by (auto simp: distinct_map inj_on_def of_nat_u8_inj)

lemma base_points_valid:
  assumes "split_admits t n secret" and "t \<noteq> 1"
    and rs: "traverse (random_share rng calls (length secret)) [0..<unat (t - 2)] = Inr rs"
    and rp: "random_fill rng c (length secret - DIGEST_BYTES) = Inr rp"
  shows "valid_points (base_points_of sha rs rp secret) (length secret)"
    and "length (base_points_of sha rs rp secret) = unat t"
proof -
  note tn = split_admits_unat [OF assms(1,2)]
  note shape = random_shares [OF rs, unfolded tn(4)]
  have small: "i < unat t - 2 \<Longrightarrow> i < 16" for i using tn by linarith
  have "distinct (map rs_index rs)"
    unfolding shape(1) using tn by (intro distinct_of_nat_u8) linarith
  moreover have "x \<noteq> 254 \<and> x \<noteq> 255" if "x \<in> set (map rs_index rs)" for x
    using that small of_nat_u8_eq_numeral unfolding shape(1) by auto
  moreover from this have "254 \<notin> set (map rs_index rs)" "255 \<notin> set (map rs_index rs)" by blast+
  ultimately show "valid_points (base_points_of sha rs rp secret) (length secret)"
    using shape(2) random_fill_Inr [OF rp] tn(5)
    by (auto simp: valid_points_def base_points_of_def)
  show "length (base_points_of sha rs rp secret) = unat t"
    using tn(1) by (simp add: base_points_of_def shape(3))
qed

lemma split_secret_curve:
  assumes split: "split_secret rng sha calls t n secret = Inr shares" and "t \<noteq> 1"
  obtains f rp where "\<And>k. deg_less (unat t) (f k)"
    and "\<forall>share\<in>set shares. on_curve f (length secret) share"
    and "map rs_index shares = map of_nat [0..<unat n]"
    and "map (\<lambda>k. byte_of (f k (field_of SECRET_INDEX))) [0..<length secret] = secret"
    and "map (\<lambda>k. byte_of (f k (field_of DIGEST_INDEX))) [0..<length secret] = share_digest sha rp secret @ rp"
proof -
  let ?L = "length secret"
  obtain rs rp ds where rs: "traverse (random_share rng calls ?L) [0..<unat (t - 2)] = Inr rs"
    and rp: "random_fill rng (calls + unat (t - 2)) (?L - DIGEST_BYTES) = Inr rp"
    and ds: "traverse (derived_share (base_points_of sha rs rp secret)) [unat (t - 2)..<unat n] = Inr ds"
    and shares: "shares = rs @ ds"
    using split_secret_steps [OF assms] .
  have tn: "2 \<le> unat t" "unat t \<le> unat n" "unat n \<le> 16" and t2: "unat (t - 2) = unat t - 2"
    and L: "16 \<le> ?L"
    using split_admits_unat [OF split_secret_admits [OF split] assms(2)] by blast+
  have rs_shape: "map rs_index rs = map of_nat [0..<unat t - 2]"
    using random_shares [OF rs] by (simp only: t2)
  let ?base = "base_points_of sha rs rp secret"
  have valid: "valid_points ?base ?L" and lbase: "length ?base = unat t"
    using base_points_valid [OF split_secret_admits [OF split] assms(2) rs rp] by blast+
  let ?f = "curve_of ?base"
  have deg: "deg_less (unat t) (?f k)" for k
    using curve_of_points(1) [OF valid, of k] by (simp add: lbase)
  have base_curve: "\<forall>share\<in>set ?base. on_curve ?f ?L share"
    using curve_of_points(2) [OF valid] .
  have derived: "rs_index s = of_nat i \<and> on_curve ?f ?L s" if "derived_share ?base i = Inr s" for i s
    using that interpolate_eq [OF valid, of "of_nat i"]
    by (auto simp: derived_share_def and_then_Inr_iff u8_try_from_def on_curve_def index_of_def curve_of_def
        split: if_splits)
  show thesis
  proof (rule that [of ?f rp])
    show "\<forall>share\<in>set shares. on_curve ?f ?L share"
    proof -
      have "\<forall>share\<in>set rs. on_curve ?f ?L share" using base_curve by (simp add: base_points_of_def)
      moreover have "\<forall>share\<in>set ds. on_curve ?f ?L share"
        using traverse_Inr_all [OF ds, of "on_curve ?f ?L"] derived by blast
      ultimately show ?thesis using shares by auto
    qed
    show "map rs_index shares = map of_nat [0..<unat n]"
    proof -
      have "map rs_index ds = map of_nat [unat t - 2..<unat n]"
        using traverse_Inr_map [OF ds, of rs_index of_nat] derived unfolding t2 by blast
      moreover have "[0..<unat n] = [0..<unat t - 2] @ [unat t - 2..<unat n]"
        using tn upt_add_eq_append [of 0 "unat t - 2" "unat n - (unat t - 2)"]
        by (simp only: le_add_diff_inverse)
      ultimately show ?thesis
        using shares rs_shape by simp
    qed
    show "map (\<lambda>k. byte_of (?f k (field_of SECRET_INDEX))) [0..<?L] = secret"
      and "map (\<lambda>k. byte_of (?f k (field_of DIGEST_INDEX))) [0..<?L] = share_digest sha rp secret @ rp"
      using base_curve by (auto simp: base_points_of_def on_curve_def index_of_def)
  qed (rule deg)
qed

lemma recover_any_quorum:
  assumes "split_secret rng sha calls t n secret = Inr shares"
    and "set quorum \<subseteq> set shares" and "distinct (map rs_index quorum)" and "unat t \<le> length quorum"
  shows "recover_secret sha t quorum = Inr secret"
proof (cases "t = 1")
  case True
  then show ?thesis
    using assms by (cases quorum) (auto simp: split_secret_def recover_secret_def split: if_splits)
next
  case False
  obtain f rp where f: "\<And>k. deg_less (unat t) (f k)"
    "\<forall>share\<in>set shares. on_curve f (length secret) share"
    "map (\<lambda>k. byte_of (f k (field_of SECRET_INDEX))) [0..<length secret] = secret"
    "map (\<lambda>k. byte_of (f k (field_of DIGEST_INDEX))) [0..<length secret] = share_digest sha rp secret @ rp"
    using split_secret_curve [OF assms(1) False] by metis
  have t0: "t \<noteq> 0" using split_secret_admits [OF assms(1)] by (simp add: split_admits_def)
  then have "unat t \<noteq> 0" by (simp add: unat_eq_0)
  then have "quorum \<noteq> []" using assms(4) by auto
  then have "interpolate quorum target = Inr (map (\<lambda>k. byte_of (f k (field_of target))) [0..<length secret])"
    for target
    using assms(2-4) f(1,2) by (intro interpolate_curve [of "unat t"]) auto
  then show ?thesis
    using t0 False assms(4) by (simp add: recover_secret_def f(3,4))
qed

lemma split_secret_succeeds:
  assumes admits: "split_admits t n secret" and rng: "\<And>c len. \<exists>bs. rng c len = Inr bs"
  shows "\<exists>shares. split_secret rng sha calls t n secret = Inr shares"
proof (cases "t = 1")
  case True
  then show ?thesis using admits by (auto simp: split_secret_def split_admits_def not_less not_le)
next
  case False
  note tn = split_admits_unat [OF admits False]
  have fill: "\<exists>v. random_fill rng c len = Inr v" for c len
    using rng [of c len] by (auto simp: random_fill_def)
  have "\<exists>s. random_share rng calls (length secret) i = Inr s" if "i < 256" for i
    using fill [of "calls + i" "length secret"] that by (auto simp: random_share_def u8_try_from_def)
  then have "\<exists>rs. traverse (random_share rng calls (length secret)) [0..<unat (t - 2)] = Inr rs"
    using tn by (intro traverse_succeeds) auto
  then obtain rs where rs: "traverse (random_share rng calls (length secret)) [0..<unat (t - 2)] = Inr rs" ..
  obtain rp where rp: "random_fill rng (calls + unat (t - 2)) (length secret - DIGEST_BYTES) = Inr rp"
    using fill by blast
  have "\<exists>s. derived_share (base_points_of sha rs rp secret) i = Inr s" if "i < 256" for i
    using interpolate_eq [OF base_points_valid(1) [OF admits False rs rp]] that
    by (auto simp: derived_share_def u8_try_from_def)
  then obtain ds where "traverse (derived_share (base_points_of sha rs rp secret)) [unat (t - 2)..<unat n] = Inr ds"
    using traverse_succeeds [of "[unat (t - 2)..<unat n]" "derived_share (base_points_of sha rs rp secret)"] tn
    by (auto simp: Bex_def)
  then show ?thesis
    using admits False rs rp by (auto simp: split_secret_def split_admits_def Let_def not_less not_le)
qed

lemma split_secret_shape:
  assumes "split_secret rng sha calls t n secret = Inr shares"
  shows "map rs_index shares = map of_nat [0..<unat n]"
    and "\<forall>share\<in>set shares. length (rs_value share) = length secret"
proof -
  consider "t = 1" | "t \<noteq> 1" by blast
  then have "map rs_index shares = map of_nat [0..<unat n]
      \<and> (\<forall>share\<in>set shares. length (rs_value share) = length secret)"
  proof cases
    case 1
    then show ?thesis using assms by (auto simp: split_secret_def comp_def split: if_splits)
  next
    case 2
    then show ?thesis
      using split_secret_curve [OF assms 2] unfolding on_curve_def by (metis length_map length_upt minus_nat.diff_0)
  qed
  then show "map rs_index shares = map of_nat [0..<unat n]"
    and "\<forall>share\<in>set shares. length (rs_value share) = length secret" by blast+
qed

subsection \<open>Properties\<close>

text \<open>A concrete generator and hash for the examples.\<close>

definition ex_rng :: rng_fn where
  "ex_rng call len = Inr (\<lambda>i. of_nat (7 * call + 3 * i + 1))"

definition ex_sha :: sha256_fn where
  "ex_sha message i = of_nat (length message + 5 * i)"

definition ex_secret :: bytes where
  "ex_secret = map of_nat [1..<17]"

lemma ex_split: "\<exists>shares. split_secret ex_rng ex_sha 0 2 3 ex_secret = Inr shares"
  by (rule split_secret_succeeds) (simp_all add: split_admits_def ex_secret_def ex_rng_def)

text \<open>Bytes under multiply and exclusive or are a field in which gf_divide is division: dividing and
  multiplying back returns the numerator for every nonzero denominator, a zero denominator is
  refused, and power is exponentiation.\<close>

theorem field_element_division:
  "gf_divide numerator denominator
     = (if denominator = 0 then Inl InvalidSentinelShareEncoding
        else Inr (byte_of (field_of numerator / field_of denominator)))
   \<and> ((\<exists>q. gf_divide numerator denominator = Inr q \<and> multiply q denominator = numerator)
        \<longleftrightarrow> denominator \<noteq> 0)
   \<and> gf_power numerator exponent = byte_of (field_of numerator ^ unat exponent)"
proof -
  have "multiply (byte_of (field_of numerator / field_of denominator)) denominator = numerator"
    if "denominator \<noteq> 0"
  proof -
    have "field_of denominator \<noteq> 0" using that byte_of_eq_0 [of "field_of denominator"] by simp
    then show ?thesis by (simp add: multiply_bytes)
  qed
  moreover have "gf_power numerator exponent = byte_of (field_of numerator ^ unat exponent)"
    using gf_power_eq [of "field_of numerator" exponent] by simp
  ultimately show ?thesis
    by (cases "denominator = 0") (simp_all add: gf_divide_bytes gf_divide_def [of _ 0])
qed

text \<open>Any quorum recovers: threshold many or more distinct shares of one split, in any order,
  interpolate back to the secret, digest check included.\<close>

theorem shamir_quorum_recovers:
  assumes "split_secret rng sha calls t n secret = Inr shares"
    and "set quorum \<subseteq> set shares" and "distinct (map rs_index quorum)" and "unat t \<le> length quorum"
  shows "recover_secret sha t quorum = Inr secret"
  using assms by (rule recover_any_quorum)

theorem shamir_quorum_recovers_witness:
  "\<exists>shares. split_secret ex_rng ex_sha 0 2 3 ex_secret = Inr shares
     \<and> recover_secret ex_sha 2 [shares ! 2, shares ! 0] = Inr ex_secret"
proof -
  obtain shares where shares: "split_secret ex_rng ex_sha 0 2 3 ex_secret = Inr shares"
    using ex_split by blast
  then have index: "map rs_index shares = [0, 1, 2]"
    using split_secret_shape(1) [OF shares] by (simp add: upt_rec)
  then obtain a b c where "shares = [a, b, c]" and "rs_index a = 0" and "rs_index c = 2" by auto
  then have "recover_secret ex_sha 2 [shares ! 2, shares ! 0] = Inr ex_secret"
    by (intro shamir_quorum_recovers [OF shares]) auto
  then show ?thesis using shares by blast
qed

text \<open>Splitting with working randomness succeeds exactly on the admitted policies (threshold
  between one and the count, at most sixteen shares, an even secret of at least sixteen bytes), and
  then yields one share of the secret's length for each index from zero.\<close>

theorem split_admits_exactly:
  assumes rng: "\<And>c len. \<exists>bs. rng c len = Inr bs"
  shows "(\<exists>shares. split_secret rng sha calls t n secret = Inr shares
             \<and> map rs_index shares = map of_nat [0..<unat n]
             \<and> (\<forall>share\<in>set shares. length (rs_value share) = length secret))
         \<longleftrightarrow> 1 \<le> t \<and> t \<le> n \<and> n \<le> 16 \<and> 16 \<le> length secret \<and> even (length secret)"
proof -
  have "1 \<le> t \<longleftrightarrow> t \<noteq> 0" by (simp add: word_le_nat_alt Suc_le_eq flip: unat_eq_0)
  then have admits: "split_admits t n secret
      \<longleftrightarrow> 1 \<le> t \<and> t \<le> n \<and> n \<le> 16 \<and> 16 \<le> length secret \<and> even (length secret)"
    by (auto simp: split_admits_def)
  show ?thesis
    unfolding admits [symmetric]
  proof
    assume "split_admits t n secret"
    then obtain shares where "split_secret rng sha calls t n secret = Inr shares"
      using split_secret_succeeds rng by blast
    then show "\<exists>shares. split_secret rng sha calls t n secret = Inr shares
             \<and> map rs_index shares = map of_nat [0..<unat n]
             \<and> (\<forall>share\<in>set shares. length (rs_value share) = length secret)"
      using split_secret_shape by blast
  qed (use split_secret_admits in blast)
qed

theorem split_admits_exactly_witness:
  "\<exists>shares. split_secret ex_rng ex_sha 0 2 3 ex_secret = Inr shares
     \<and> map rs_index shares = map of_nat [0..<unat (3 :: u8)]
     \<and> (\<forall>share\<in>set shares. length (rs_value share) = length ex_secret)"
  by (subst split_admits_exactly) (simp_all add: ex_rng_def ex_secret_def)
end
