(* ===== verification/Mnemonic.thy ===== *)
theory Mnemonic
  imports Slip39Words Shamir
begin

text \<open>
  SLIP-39 mnemonics (nook-auth2/src/auth/slip39/mnemonic.rs): the packing of bytes into ten-bit
  words, the RS1024 checksum, and Share::encode and Share::decode over the word table.
\<close>

unbundle bit_operations_syntax

record share =
  sh_identifier :: u16
  sh_iteration_exponent :: u8
  sh_member_index :: u8
  sh_member_threshold :: u8
  sh_value :: bytes

abbreviation (input) SECRET_BYTES :: nat where "SECRET_BYTES \<equiv> 32"
abbreviation (input) CHECKSUM_WORDS :: nat where "CHECKSUM_WORDS \<equiv> 3"
abbreviation (input) METADATA_WORDS :: nat where "METADATA_WORDS \<equiv> 4"
abbreviation (input) MNEMONIC_WORDS_256 :: nat where "MNEMONIC_WORDS_256 \<equiv> 33"

subsection \<open>MnemonicWords\<close>

definition get_or_invalid :: "'a list \<Rightarrow> nat \<Rightarrow> 'a multi_device" where
  "get_or_invalid xs i = (if i < length xs then Inr (xs ! i) else Inl InvalidSentinelShareEncoding)"

definition integer_words :: "u32 \<Rightarrow> nat \<Rightarrow> u16 list" where
  "integer_words value n =
     map (\<lambda>position. ucast (drop_bit (position * 10) value AND 1023)) (rev [0..<n])"

definition words_to_u32 :: "u16 list \<Rightarrow> u32" where
  "words_to_u32 words = foldl (\<lambda>value word. push_bit 10 value OR ucast word) 0 words"

definition bytes_to_words :: "bytes \<Rightarrow> u16 list multi_device" where
  "bytes_to_words bytes =
     (let word_count = (length bytes * 8 + 9) div 10;
          padding = word_count * 10 - length bytes * 8
      in fold_result (\<lambda>words bit.
           and_then (get_or_invalid bytes (bit div 8)) (\<lambda>byte.
             if byte AND push_bit (7 - bit mod 8) 1 \<noteq> 0
             then let padded_bit = padding + bit in
               and_then (get_or_invalid words (padded_bit div 10)) (\<lambda>word.
                 Inr (words[padded_bit div 10 := word OR push_bit (9 - padded_bit mod 10) 1]))
             else Inr words))
           (replicate word_count 0) [0..<length bytes * 8])"

definition words_to_bytes :: "u16 list \<Rightarrow> bytes multi_device" where
  "words_to_bytes words =
     (let padded_bits = length words * 10;
          padding = padded_bits mod 16
      in if padding > 8 \<or> (\<exists>word\<in>set words. word > 1023) then Inl InvalidSentinelShareEncoding
         else and_then
           (fold_result (\<lambda>_ bit.
              and_then (get_or_invalid words (bit div 10)) (\<lambda>word.
                if word AND push_bit (9 - bit mod 10) 1 \<noteq> 0 then Inl InvalidSentinelShareEncoding
                else Inr ())) () [0..<padding]) (\<lambda>_.
           let byte_count = (padded_bits - padding) div 8 in
           if byte_count < 16 then Inl InvalidSentinelShareEncoding
           else fold_result (\<lambda>bytes bit.
             let source = padding + bit in
             and_then (get_or_invalid words (source div 10)) (\<lambda>word.
               if word AND push_bit (9 - source mod 10) 1 \<noteq> 0
               then and_then (get_or_invalid bytes (bit div 8)) (\<lambda>byte.
                 Inr (bytes[bit div 8 := byte OR push_bit (7 - bit mod 8) 1]))
               else Inr bytes))
             (replicate byte_count 0) [0..<byte_count * 8]))"

subsection \<open>Checksum\<close>

definition EXTENDABLE_CUSTOMIZATION :: bytes where
  "EXTENDABLE_CUSTOMIZATION = map of_char ''shamir_extendable''"

definition GENERATORS :: "u32 list" where
  "GENERATORS = [0x00e0e040, 0x01c1c080, 0x03838100, 0x07070200, 0x0e0e0009,
     0x1c0c2412, 0x38086c24, 0x3090fc48, 0x21b1f890, 0x03f3f120]"

definition polymod_step :: "u32 \<Rightarrow> u16 \<Rightarrow> u32" where
  "polymod_step checksum value =
     (let top = drop_bit 20 checksum
      in foldl (\<lambda>checksum (index, generator).
           if drop_bit index top AND 1 \<noteq> 0 then checksum XOR generator else checksum)
         (push_bit 10 (checksum AND 0x000fffff) XOR ucast value) (enumerate 0 GENERATORS))"

definition polymod :: "u16 list \<Rightarrow> u32" where
  "polymod values = foldl polymod_step 1 values"

definition checksum_create :: "u16 list \<Rightarrow> u16 list" where
  "checksum_create data =
     (let checksum = polymod (map ucast EXTENDABLE_CUSTOMIZATION @ data @ replicate CHECKSUM_WORDS 0) XOR 1
      in [ucast (drop_bit 20 checksum AND 1023), ucast (drop_bit 10 checksum AND 1023),
          ucast (checksum AND 1023)])"

definition checksum_verify :: "u16 list \<Rightarrow> bool" where
  "checksum_verify data \<longleftrightarrow> polymod (map ucast EXTENDABLE_CUSTOMIZATION @ data) = 1"

subsection \<open>Share\<close>

definition encode_share :: "share \<Rightarrow> string multi_device" where
  "encode_share s =
     (if length (sh_value s) \<noteq> SECRET_BYTES \<or> sh_member_threshold s = 0 \<or> sh_member_threshold s > 16
         \<or> sh_member_index s > 15 \<or> sh_iteration_exponent s > 15
      then Inl InvalidSentinelShareEncoding
      else
        let id_ext_exponent = push_bit 5 (ucast (sh_identifier s)) OR push_bit 4 1
              OR ucast (sh_iteration_exponent s);
            group_member_parameters = push_bit 4 (ucast (sh_member_index s))
              OR ucast (sh_member_threshold s - 1);
            indices = integer_words id_ext_exponent 2 @ integer_words group_member_parameters 2
        in and_then (bytes_to_words (sh_value s)) (\<lambda>value_words.
           let indices = indices @ value_words;
               indices = indices @ checksum_create indices
           in and_then (traverse (\<lambda>index. get_or_invalid wordlist (unat index)) indices) (\<lambda>mnemonic.
              Inr (join '' '' mnemonic))))"

definition word_index :: "string \<Rightarrow> u16 multi_device" where
  "word_index word =
     (case binary_search wordlist word of
        None \<Rightarrow> Inl InvalidSentinelShareEncoding
      | Some index \<Rightarrow> if index < 2 ^ 16 then Inr (of_nat index) else Inl InvalidSentinelShareEncoding)"

definition decode_share :: "string \<Rightarrow> share multi_device" where
  "decode_share mnemonic =
     and_then (traverse word_index (split_whitespace mnemonic)) (\<lambda>indices.
       if length indices \<noteq> MNEMONIC_WORDS_256 \<or> \<not> checksum_verify indices
       then Inl InvalidSentinelShareEncoding
       else
         let id_ext_exponent = words_to_u32 (take 2 indices);
             shifted = drop_bit 5 id_ext_exponent
         in if shifted > 0xffff then Inl InvalidSentinelShareEncoding
         else
         let identifier = ucast shifted :: u16;
             extendable = drop_bit 4 id_ext_exponent AND 1;
             iteration_exponent = ucast (id_ext_exponent AND 0x0f)
         in if identifier > 0x7fff \<or> extendable \<noteq> 1 then Inl InvalidSentinelShareEncoding
         else
         let parameters = words_to_u32 (take 2 (drop 2 indices));
             group_index = ucast (drop_bit 16 parameters AND 0x0f) :: u8;
             group_threshold = ucast (drop_bit 12 parameters AND 0x0f) + 1 :: u8;
             group_count = ucast (drop_bit 8 parameters AND 0x0f) + 1 :: u8;
             member_index = ucast (drop_bit 4 parameters AND 0x0f);
             member_threshold = ucast (parameters AND 0x0f) + 1
         in if group_index \<noteq> 0 \<or> group_threshold \<noteq> 1 \<or> group_count \<noteq> 1
         then Inl InvalidSentinelShareEncoding
         else and_then (words_to_bytes (take (length indices - CHECKSUM_WORDS - METADATA_WORDS)
                (drop METADATA_WORDS indices))) (\<lambda>value.
           if length value \<noteq> SECRET_BYTES then Inl InvalidSentinelShareEncoding
           else Inr \<lparr>sh_identifier = identifier, sh_iteration_exponent = iteration_exponent,
                     sh_member_index = member_index, sh_member_threshold = member_threshold,
                     sh_value = value\<rparr>))"

subsection \<open>Bits of the packed words\<close>

lemma and_push_bit_1: "(w AND push_bit n 1 = 0) = (\<not> bit w n)" for w :: "'a :: len word"
  by (metis bit_iff_and_push_bit_not_eq_0)

lemma bit_push_bit_1_word: "bit (push_bit m (1 :: 'a :: len word)) n \<longleftrightarrow> n = m \<and> n < LENGTH('a)"
  by (auto simp: bit_push_bit_iff bit_1_iff simp del: push_bit_of_1 dest: bit_imp_le_length)

lemma word_position:
  assumes "j < w"
  shows "i * w + (w - 1 - j) = p \<longleftrightarrow> i = p div w \<and> j = w - 1 - p mod (w :: nat)"
proof
  assume p: "i * w + (w - 1 - j) = p"
  have r: "w - 1 - j < w" using assms by simp
  then have "p div w = i" "p mod w = w - 1 - j" by (simp_all flip: p)
  then show "i = p div w \<and> j = w - 1 - p mod w" using assms by simp
next
  assume "i = p div w \<and> j = w - 1 - p mod w"
  moreover have "p mod w < w" using assms by simp
  moreover have "p div w * w + p mod w = p" by simp
  ultimately show "i * w + (w - 1 - j) = p" by simp
qed

text \<open>
  Both packing loops set bits of a list of words one by one, most significant first.  The copy of
  n source bits to the positions from off on sets exactly these.
\<close>

lemma copy_bits:
  fixes out :: "'a :: len word list"
  assumes "0 < w" and "w \<le> LENGTH('a)" and "off + n \<le> length out * w"
  shows "\<exists>out'. fold_result (\<lambda>out k. if src k
        then and_then (get_or_invalid out ((off + k) div w)) (\<lambda>v.
          Inr (out[(off + k) div w := v OR push_bit (w - 1 - (off + k) mod w) 1]))
        else Inr out) out [0..<n] = Inr out'
      \<and> length out' = length out
      \<and> (\<forall>i<length out. \<forall>j. bit (out' ! i) j \<longleftrightarrow> bit (out ! i) j
           \<or> j < w \<and> off \<le> i * w + (w - 1 - j) \<and> i * w + (w - 1 - j) < off + n
             \<and> src (i * w + (w - 1 - j) - off))"
  using assms(3)
proof (induction n)
  case 0
  show ?case by auto
next
  case (Suc n)
  then obtain out' where out': "fold_result (\<lambda>out k. if src k
        then and_then (get_or_invalid out ((off + k) div w)) (\<lambda>v.
          Inr (out[(off + k) div w := v OR push_bit (w - 1 - (off + k) mod w) 1]))
        else Inr out) out [0..<n] = Inr out'"
    and len: "length out' = length out"
    and bits: "\<And>i j. i < length out \<Longrightarrow> bit (out' ! i) j \<longleftrightarrow> bit (out ! i) j
           \<or> j < w \<and> off \<le> i * w + (w - 1 - j) \<and> i * w + (w - 1 - j) < off + n
             \<and> src (i * w + (w - 1 - j) - off)" by auto
  have target: "(off + n) div w < length out"
    using Suc.prems assms(1) by (simp add: div_less_iff_less_mult)
  let ?new = "if src n then out'[(off + n) div w := out' ! ((off + n) div w) OR push_bit (w - 1 - (off + n) mod w) 1]
    else out'"
  show ?case
  proof (intro exI [of _ ?new] conjI allI impI)
    show "fold_result (\<lambda>out k. if src k
        then and_then (get_or_invalid out ((off + k) div w)) (\<lambda>v.
          Inr (out[(off + k) div w := v OR push_bit (w - 1 - (off + k) mod w) 1]))
        else Inr out) out [0..<Suc n] = Inr ?new"
      using target len by (simp add: fold_result_append out' get_or_invalid_def)
    show "length ?new = length out" using len by simp
    fix i j assume i: "i < length out"
    show "bit (?new ! i) j \<longleftrightarrow> bit (out ! i) j
       \<or> j < w \<and> off \<le> i * w + (w - 1 - j) \<and> i * w + (w - 1 - j) < off + Suc n
         \<and> src (i * w + (w - 1 - j) - off)"
    proof (cases "j < w")
      case True
      have "bit (?new ! i) j \<longleftrightarrow> bit (out' ! i) j \<or> src n \<and> i * w + (w - 1 - j) = off + n"
        using i len target True assms(2)
        unfolding word_position [OF True]
        by (auto simp: nth_list_update bit_or_iff bit_push_bit_1_word simp del: push_bit_of_1)
      then show ?thesis
        using bits [OF i, of j] True by (auto simp only: less_Suc_eq add_Suc_right add_diff_cancel_left' le_add1)
    next
      case False
      then have "bit (?new ! i) j \<longleftrightarrow> bit (out' ! i) j"
        using i len target assms(1)
        by (auto simp: nth_list_update bit_or_iff bit_push_bit_1_word simp del: push_bit_of_1)
      then show ?thesis using False i by (simp add: bits)
    qed
  qed
qed

definition word_count_of :: "nat \<Rightarrow> nat" where
  "word_count_of n = (n * 8 + 9) div 10"

definition padding_of :: "nat \<Rightarrow> nat" where
  "padding_of n = word_count_of n * 10 - n * 8"

lemma word_count_padding: "word_count_of n * 10 = padding_of n + n * 8" "padding_of n < 10"
  unfolding padding_of_def word_count_of_def by linarith+

lemma bytes_to_words_bits:
  "\<exists>ws. bytes_to_words bytes = Inr ws \<and> length ws = word_count_of (length bytes)
    \<and> (\<forall>i<length ws. \<forall>j. bit (ws ! i) j \<longleftrightarrow> j < 10 \<and> padding_of (length bytes) \<le> i * 10 + (9 - j)
         \<and> bit (bytes ! ((i * 10 + (9 - j) - padding_of (length bytes)) div 8))
             (7 - (i * 10 + (9 - j) - padding_of (length bytes)) mod 8))"
proof -
  let ?n = "length bytes" and ?pad = "padding_of (length bytes)"
  let ?src = "\<lambda>k. bit (bytes ! (k div 8)) (7 - k mod 8)"
  let ?out = "replicate (word_count_of ?n) (0 :: u16)"
  have "bytes_to_words bytes = fold_result (\<lambda>out k. if ?src k
        then and_then (get_or_invalid out ((?pad + k) div 10)) (\<lambda>v.
          Inr (out[(?pad + k) div 10 := v OR push_bit (10 - 1 - (?pad + k) mod 10) 1]))
        else Inr out) ?out [0..<?n * 8]"
    unfolding bytes_to_words_def Let_def word_count_of_def padding_of_def
    by (intro fold_result_cong refl)
      (auto simp: get_or_invalid_def and_push_bit_1 div_less_iff_less_mult simp del: push_bit_of_1)
  moreover have "?pad + ?n * 8 \<le> length ?out * 10" by (simp add: word_count_padding)
  ultimately obtain ws where "bytes_to_words bytes = Inr ws" and len: "length ws = word_count_of ?n"
    and bits: "\<forall>i<length ?out. \<forall>j. bit (ws ! i) j \<longleftrightarrow> bit (?out ! i) j
           \<or> j < 10 \<and> ?pad \<le> i * 10 + (10 - 1 - j) \<and> i * 10 + (10 - 1 - j) < ?pad + ?n * 8
             \<and> ?src (i * 10 + (10 - 1 - j) - ?pad)"
    using copy_bits [of 10 ?pad "?n * 8" ?out ?src] by auto
  moreover have "i * 10 + (10 - 1 - j) < ?pad + ?n * 8" if "i < word_count_of ?n" for i j
    using that word_count_padding(1) [of ?n] by linarith
  ultimately show ?thesis by (intro exI [of _ ws]) simp
qed

lemma padding_loop:
  fixes words :: "u16 list"
  assumes "\<forall>k<m. k div 10 < length words \<and> \<not> bit (words ! (k div 10)) (9 - k mod 10)"
  shows "fold_result (\<lambda>_ k. and_then (get_or_invalid words (k div 10)) (\<lambda>word.
      if word AND push_bit (9 - k mod 10) 1 \<noteq> 0 then Inl InvalidSentinelShareEncoding else Inr ())) () [0..<m]
    = Inr ()"
  using assms
  by (induction m) (auto simp: fold_result_append get_or_invalid_def and_push_bit_1 simp del: push_bit_of_1)

lemma words_to_bytes_bits:
  assumes "length words * 10 = pad + n * 8" and "pad = length words * 10 mod 16" and "pad \<le> 8" and "16 \<le> n"
    and "\<forall>word\<in>set words. word \<le> 1023"
    and "\<forall>k<pad. \<not> bit (words ! (k div 10)) (9 - k mod 10)"
  shows "\<exists>bs. words_to_bytes words = Inr bs \<and> length bs = n
    \<and> (\<forall>i<n. \<forall>j. bit (bs ! i) j \<longleftrightarrow> j < 8
         \<and> bit (words ! ((pad + (i * 8 + (7 - j))) div 10)) (9 - (pad + (i * 8 + (7 - j))) mod 10))"
proof -
  let ?src = "\<lambda>k. bit (words ! ((pad + k) div 10)) (9 - (pad + k) mod 10)"
  let ?out = "replicate n (0 :: u8)"
  have inside: "(pad + k) div 10 < length words" if "k < n * 8" for k
    using that assms(1) by (simp add: div_less_iff_less_mult)
  have "k div 10 < length words" if "k < pad" for k
    using that assms(1) by (simp add: div_less_iff_less_mult)
  then have loop: "fold_result (\<lambda>_ k. and_then (get_or_invalid words (k div 10)) (\<lambda>word.
      if word AND push_bit (9 - k mod 10) 1 \<noteq> 0 then Inl InvalidSentinelShareEncoding else Inr ())) () [0..<pad]
    = Inr ()"
    using assms(6) by (intro padding_loop) blast
  have count: "(length words * 10 - pad) div 8 = n" using assms(1) by simp
  have "words_to_bytes words = fold_result (\<lambda>bytes bit.
             and_then (get_or_invalid words ((pad + bit) div 10)) (\<lambda>word.
               if word AND push_bit (9 - (pad + bit) mod 10) 1 \<noteq> 0
               then and_then (get_or_invalid bytes (bit div 8)) (\<lambda>byte.
                 Inr (bytes[bit div 8 := byte OR push_bit (7 - bit mod 8) 1]))
               else Inr bytes)) ?out [0..<n * 8]"
    unfolding words_to_bytes_def Let_def assms(2) [symmetric] loop count
    using assms(3-5) by (auto simp: not_less)
  also have "\<dots> = fold_result (\<lambda>out k. if ?src k
        then and_then (get_or_invalid out ((0 + k) div 8)) (\<lambda>v.
          Inr (out[(0 + k) div 8 := v OR push_bit (8 - 1 - (0 + k) mod 8) 1]))
        else Inr out) ?out [0..<n * 8]"
    using inside
    by (intro fold_result_cong refl) (auto simp: get_or_invalid_def [of words] and_push_bit_1 simp del: push_bit_of_1)
  finally obtain bs where "words_to_bytes words = Inr bs" and "length bs = n"
    and bits: "\<forall>i<n. \<forall>j. bit (bs ! i) j \<longleftrightarrow> j < 8 \<and> i * 8 + (8 - 1 - j) < n * 8 \<and> ?src (i * 8 + (8 - 1 - j))"
    using copy_bits [of 8 0 "n * 8" ?out ?src] by auto
  moreover have "i * 8 + (8 - 1 - j) < n * 8" if "i < n" for i j using that by linarith
  ultimately show ?thesis by (intro exI [of _ bs]) simp
qed

lemma words_bytes_roundtrip:
  assumes "even (length bytes)" and "16 \<le> length bytes"
  shows "\<exists>ws. bytes_to_words bytes = Inr ws \<and> length ws = word_count_of (length bytes)
    \<and> (\<forall>w\<in>set ws. w \<le> 1023) \<and> words_to_bytes ws = Inr bytes"
proof -
  let ?n = "length bytes" and ?pad = "padding_of (length bytes)"
  obtain ws where ws: "bytes_to_words bytes = Inr ws" "length ws = word_count_of ?n"
    and bits: "\<And>i j. i < length ws \<Longrightarrow> bit (ws ! i) j \<longleftrightarrow> j < 10 \<and> ?pad \<le> i * 10 + (9 - j)
         \<and> bit (bytes ! ((i * 10 + (9 - j) - ?pad) div 8)) (7 - (i * 10 + (9 - j) - ?pad) mod 8)"
    using bytes_to_words_bits [of bytes] by auto
  have small: "w \<le> 1023" if "w \<in> set ws" for w
  proof -
    have "take_bit 10 w = w"
      using that bits by (auto simp: in_set_conv_nth bit_take_bit_iff intro!: bit_word_eqI)
    moreover have "mask 10 = (1023 :: u16)" by (simp add: mask_eq_exp_minus_1)
    ultimately show ?thesis by (metis take_bit_eq_mask word_and_le1)
  qed
  have total: "length ws * 10 = ?pad + ?n * 8" by (simp add: ws word_count_padding)
  have mod: "?pad = length ws * 10 mod 16" and pad: "?pad \<le> 8"
  proof -
    obtain m where m: "?n = 2 * m" using assms(1) by auto
    show "?pad = length ws * 10 mod 16"
      using word_count_padding(2) [of ?n] unfolding total m by simp
    have "even (?pad + ?n * 8)" unfolding total [symmetric] by simp
    then have "even ?pad" by simp
    then show "?pad \<le> 8" using word_count_padding(2) [of ?n] by presburger
  qed
  have zero: "\<forall>k<?pad. \<not> bit (ws ! (k div 10)) (9 - k mod 10)"
  proof (intro allI impI)
    fix k assume k: "k < ?pad"
    then have "k div 10 = 0" "k mod 10 = k" "0 < length ws"
      using word_count_padding(2) [of ?n] total assms(2) by auto
    then show "\<not> bit (ws ! (k div 10)) (9 - k mod 10)" using k bits [of 0 "9 - k"] word_count_padding(2) [of ?n] by simp
  qed
  obtain bs where bs: "words_to_bytes ws = Inr bs" "length bs = ?n"
    and bits': "\<And>i j. i < ?n \<Longrightarrow> bit (bs ! i) j \<longleftrightarrow> j < 8
         \<and> bit (ws ! ((?pad + (i * 8 + (7 - j))) div 10)) (9 - (?pad + (i * 8 + (7 - j))) mod 10)"
    using words_to_bytes_bits [OF total mod pad assms(2) _ zero] small by auto
  have "bs = bytes"
  proof (intro nth_equalityI bit_word_eqI)
    fix i j assume i: "i < length bs" and j: "j < LENGTH(8)"
    define q where "q = i * 8 + (7 - j)"
    have q: "q div 8 = i" "7 - q mod 8 = j"
      using word_position [of j 8 i q] j by (simp_all add: q_def)
    have p: "(?pad + q) div 10 < length ws"
      using i bs(2) total by (simp add: q_def div_less_iff_less_mult)
    have again: "(?pad + q) div 10 * 10 + (9 - (9 - (?pad + q) mod 10)) = ?pad + q"
      using div_mult_mod_eq [of "?pad + q" 10] by (simp add: less_Suc_eq_le [symmetric])
    have "bit (bs ! i) j \<longleftrightarrow> bit (ws ! ((?pad + q) div 10)) (9 - (?pad + q) mod 10)"
      using bits' [of i j] i bs(2) j by (simp only: q_def [symmetric]) simp
    also have "\<dots> \<longleftrightarrow> bit (bytes ! i) j"
      unfolding bits [OF p] again using q by (simp add: le_less_trans [OF diff_le_self])
    finally show "bit (bs ! i) j \<longleftrightarrow> bit (bytes ! i) j" .
  qed (use bs in simp)
  then show ?thesis using ws bs small by blast
qed

subsection \<open>The checksum accepts what it creates\<close>

definition bits_below :: "nat \<Rightarrow> 'a :: len word \<Rightarrow> bool" where
  "bits_below k w \<longleftrightarrow> (\<forall>n\<ge>k. \<not> bit w n)"

lemma bits_below_bit: "bits_below k w \<Longrightarrow> bit w n \<Longrightarrow> n < k"
  unfolding bits_below_def using not_le by blast

lemma bits_below_xor: "bits_below k v \<Longrightarrow> bits_below k w \<Longrightarrow> bits_below k (v XOR w)"
  by (simp add: bits_below_def bit_xor_iff)

lemma bits_below_mono: "bits_below k w \<Longrightarrow> k \<le> m \<Longrightarrow> bits_below m w"
  by (simp add: bits_below_def)

lemma bits_below_push: "bits_below k w \<Longrightarrow> bits_below (m + k) (push_bit m w)"
  by (auto simp: bits_below_def bit_push_bit_iff)

lemma bits_below_ucast: "bits_below k w \<Longrightarrow> bits_below k (ucast w)"
  by (simp add: bits_below_def bit_ucast_iff)

lemma bits_below_take: "bits_below k (take_bit k w)"
  by (simp add: bits_below_def bit_take_bit_iff)

lemma take_bit_below: "bits_below k w \<Longrightarrow> take_bit k w = w"
  by (intro bit_word_eqI) (auto simp: bit_take_bit_iff bits_below_bit)

lemma drop_bit_below: "bits_below k w \<Longrightarrow> drop_bit k w = 0"
  by (intro bit_word_eqI) (simp add: bit_drop_bit_eq bits_below_def)

lemma take_bit_10: "w AND 1023 = take_bit 10 w" for w :: "'a :: len word"
  by (simp add: take_bit_eq_mask mask_eq_exp_minus_1)

lemma take_bit_20: "w AND 0x000fffff = take_bit 20 (w :: u32)"
  by (simp add: take_bit_eq_mask mask_eq_exp_minus_1)

lemma foldl_generators_xor:
  "foldl (\<lambda>c (i, g). if P i then c XOR g else c) (x XOR y) gs
    = foldl (\<lambda>c (i, g). if P i then c XOR g else c) x gs XOR (y :: u32)"
proof (induction gs arbitrary: x)
  case (Cons ig gs)
  have "(x XOR y) XOR snd ig = (x XOR snd ig) XOR y" by (simp add: ac_simps)
  then show ?case using Cons by (cases ig) simp
qed simp

lemma foldl_generators_below:
  "bits_below k x \<Longrightarrow> \<forall>(i, g)\<in>set gs. bits_below k (g :: u32) \<Longrightarrow>
    bits_below k (foldl (\<lambda>c (i, g). if P i then c XOR g else c) x gs)"
  by (induction gs arbitrary: x) (auto simp: bits_below_xor)

lemma polymod_step_xor: "polymod_step c v = polymod_step c 0 XOR ucast v"
  using foldl_generators_xor [of "\<lambda>i. drop_bit i (drop_bit 20 c) AND 1 \<noteq> 0" "push_bit 10 (c AND 0x000fffff)" "ucast v"]
  by (simp add: polymod_step_def Let_def)

lemma polymod_step_low:
  assumes "bits_below 20 y"
  shows "polymod_step (x XOR y) 0 = polymod_step x 0 XOR push_bit 10 y"
proof -
  have "drop_bit 20 (x XOR y) = drop_bit 20 x"
    by (simp only: drop_bit_xor drop_bit_below [OF assms] xor.right_neutral)
  moreover have "push_bit 10 (take_bit 20 (x XOR y)) = push_bit 10 (take_bit 20 x) XOR push_bit 10 y"
    by (simp only: take_bit_xor push_bit_xor take_bit_below [OF assms])
  ultimately show ?thesis
    unfolding polymod_step_def Let_def take_bit_20
    using foldl_generators_xor [of "\<lambda>i. drop_bit i (drop_bit 20 x) AND 1 \<noteq> 0"
        "push_bit 10 (take_bit 20 x)" "push_bit 10 y"] by simp
qed

lemma generators_below: "\<forall>(i, g)\<in>set (enumerate 0 GENERATORS). bits_below 30 g"
proof -
  have "list_all (\<lambda>g. \<not> bit g 30 \<and> \<not> bit g 31) GENERATORS" by (simp add: GENERATORS_def)
  moreover have "bits_below 30 g" if "\<not> bit g 30 \<and> \<not> bit g 31" for g :: u32
    unfolding bits_below_def
  proof (intro allI impI)
    fix n :: nat assume "30 \<le> n"
    then have "n = 30 \<or> n = 31 \<or> 32 \<le> n" by auto
    then show "\<not> bit g n" using that bit_imp_le_length [of g n] by auto
  qed
  ultimately have "list_all (bits_below 30) GENERATORS" by (auto simp: list_all_iff)
  then show ?thesis by (auto simp: list_all_iff enumerate_eq_zip dest: set_zip_rightD)
qed

lemma polymod_step_bound: "bits_below 30 (polymod_step c 0)"
  unfolding polymod_step_def Let_def take_bit_20
  using foldl_generators_below [OF _ generators_below] bits_below_push [OF bits_below_take, of 10 20 c]
  by simp

lemma polymod_three:
  assumes "bits_below 10 a" and "bits_below 10 b"
  shows "polymod_step (polymod_step (polymod_step s a) b) c
    = polymod_step (polymod_step (polymod_step s 0) 0) 0
        XOR (push_bit 20 (ucast a) XOR push_bit 10 (ucast b) XOR ucast c)"
proof -
  have a: "bits_below 20 (ucast a :: u32)"
    using bits_below_mono [OF bits_below_ucast [OF assms(1)], of 20] by simp
  have ab: "bits_below 20 (push_bit 10 (ucast a) XOR ucast b :: u32)"
    using bits_below_push [OF bits_below_ucast [OF assms(1)], of 10]
      bits_below_mono [OF bits_below_ucast [OF assms(2)], of 20] by (intro bits_below_xor) simp_all
  have "polymod_step (polymod_step s a) b
      = polymod_step (polymod_step s 0) 0 XOR (push_bit 10 (ucast a) XOR ucast b)"
    unfolding polymod_step_xor [of _ b] polymod_step_xor [of _ a] polymod_step_low [OF a]
    by (simp only: xor.assoc)
  then show ?thesis
    unfolding polymod_step_xor [of _ c] using polymod_step_low [OF ab]
    by (simp add: push_bit_xor xor.assoc)
qed

lemma checksum_parts:
  assumes "bits_below 30 (cs :: u32)"
  shows "push_bit 20 (ucast (ucast (drop_bit 20 cs AND 1023) :: u16))
      XOR push_bit 10 (ucast (ucast (drop_bit 10 cs AND 1023) :: u16))
      XOR ucast (ucast (cs AND 1023) :: u16) = cs" (is "?parts = cs")
proof (intro bit_word_eqI)
  fix n assume "n < LENGTH(32)"
  then show "bit ?parts n \<longleftrightarrow> bit cs n"
    using bits_below_bit [OF assms, of n]
    unfolding take_bit_10
    by (cases "n < 10"; cases "n < 20")
      (auto simp: bit_xor_iff bit_push_bit_iff bit_ucast_iff bit_take_bit_iff bit_drop_bit_eq)
qed

lemma checksum_create_verifies: "checksum_verify (data @ checksum_create data)"
proof -
  let ?s = "foldl polymod_step 1 (map ucast EXTENDABLE_CUSTOMIZATION @ data)"
  define cs where "cs = polymod_step (polymod_step (polymod_step ?s 0) 0) 0 XOR 1"
  have "bits_below 30 (1 :: u32)" by (simp add: bits_below_def bit_1_iff)
  then have below: "bits_below 30 cs" unfolding cs_def by (intro bits_below_xor polymod_step_bound)
  have create: "checksum_create data
      = [ucast (drop_bit 20 cs AND 1023), ucast (drop_bit 10 cs AND 1023), ucast (cs AND 1023)]"
    by (simp add: checksum_create_def polymod_def cs_def numeral_3_eq_3)
  have small: "bits_below 10 (ucast (w AND 1023) :: u16)" for w :: u32
    unfolding take_bit_10 by (intro bits_below_ucast bits_below_take)
  have "polymod (map ucast EXTENDABLE_CUSTOMIZATION @ data @ checksum_create data)
      = polymod_step (polymod_step (polymod_step ?s 0) 0) 0 XOR cs"
    unfolding polymod_def create
    using polymod_three [OF small small] checksum_parts [OF below] by (simp add: foldl_append)
  also have "\<dots> = 1"
    by (simp add: cs_def flip: xor.assoc)
  finally show ?thesis by (simp add: checksum_verify_def)
qed

lemma checksum_create_length: "length (checksum_create data) = 3"
  by (simp add: checksum_create_def Let_def)

lemma checksum_create_below: "\<forall>w\<in>set (checksum_create data). bits_below 10 w"
  unfolding checksum_create_def Let_def take_bit_10
  by (auto simp del: take_bit_xor intro!: bits_below_ucast bits_below_take)

subsection \<open>Round trip of Share\<close>

lemma bits_below_unat: "unat w < 2 ^ k \<Longrightarrow> bits_below k w"
proof -
  assume "unat w < 2 ^ k"
  then have "unat (take_bit k w) = unat w" by (simp add: unsigned_take_bit_eq take_bit_nat_eq_self)
  then have "take_bit k w = w" by (simp only: word_unat_eq_iff)
  then show ?thesis using bits_below_take [of k w] by simp
qed

lemma bits_below_le_1023: "w \<le> 1023 \<Longrightarrow> bits_below 10 (w :: u16)"
  by (intro bits_below_unat) (simp add: word_le_nat_alt)

lemma below_10_unat: "bits_below 10 (w :: u16) \<Longrightarrow> unat w < 1024"
proof -
  assume "bits_below 10 w"
  then have "w = take_bit 10 w" by (simp add: take_bit_below)
  then have "unat w = take_bit 10 (unat w)" by (metis unsigned_take_bit_eq)
  then show ?thesis using take_bit_nat_less_exp [of 10 "unat w"] by simp
qed

lemma integer_words_2:
  "integer_words value 2 = [ucast (drop_bit 10 value AND 1023), ucast (value AND 1023)]"
  by (simp add: integer_words_def upt_rec)

lemma words_of_integer:
  assumes "bits_below 20 value"
  shows "words_to_u32 (integer_words value 2) = value"
proof (intro bit_word_eqI)
  fix n assume "n < LENGTH(32)"
  then show "bit (words_to_u32 (integer_words value 2)) n \<longleftrightarrow> bit value n"
    using bits_below_bit [OF assms, of n]
    unfolding integer_words_2 words_to_u32_def take_bit_10
    by (cases "n < 10") (auto simp: bit_or_iff bit_push_bit_iff bit_ucast_iff bit_take_bit_iff bit_drop_bit_eq)
qed

lemma integer_words_below: "\<forall>w\<in>set (integer_words value n). bits_below 10 w"
  unfolding integer_words_def take_bit_10 by (auto intro!: bits_below_ucast bits_below_take)

text \<open>A share that encode accepts and that decode can return.\<close>

definition wf_share :: "share \<Rightarrow> bool" where
  "wf_share s \<longleftrightarrow> length (sh_value s) = SECRET_BYTES \<and> sh_identifier s \<le> 0x7fff
     \<and> 1 \<le> sh_member_threshold s \<and> sh_member_threshold s \<le> 16
     \<and> sh_member_index s \<le> 15 \<and> sh_iteration_exponent s \<le> 15"

lemma bits_below_or: "bits_below k v \<Longrightarrow> bits_below k w \<Longrightarrow> bits_below k (v OR w)"
  by (simp add: bits_below_def bit_or_iff)

lemma packed_fields:
  fixes i :: "'a :: len word" and e :: "'b :: len word"
  assumes i: "bits_below m i" and e: "bits_below k e" and "m + k \<le> 32"
  defines "v \<equiv> push_bit k (ucast i) OR ucast e :: u32"
  shows "bits_below (m + k) v" and "drop_bit k v = ucast i" and "take_bit k v = ucast e"
proof -
  have bits: "bit v n \<longleftrightarrow> (if n < k then bit e n else n < 32 \<and> bit i (n - k))" for n
    using bits_below_bit [OF e, of n] bits_below_bit [OF i, of "n - k"] assms(3)
    by (auto simp: v_def bit_or_iff bit_push_bit_iff bit_ucast_iff)
  show "bits_below (m + k) v"
    using i by (auto simp: bits_below_def bits)
  show "drop_bit k v = ucast i"
    using assms(3)
    by (intro bit_word_eqI) (auto simp: bit_drop_bit_eq bits bit_ucast_iff dest: bits_below_bit [OF i])
  show "take_bit k v = ucast e"
    using bits_below_bit [OF e] assms(3)
    by (intro bit_word_eqI) (auto simp: bit_take_bit_iff bits bit_ucast_iff)
qed

lemma id_ext_fields:
  fixes i :: u16 and e :: u8
  assumes "i \<le> 0x7fff" and "e \<le> 15"
  defines "v \<equiv> push_bit 5 (ucast i) OR push_bit 4 1 OR ucast e :: u32"
  shows "bits_below 20 v" and "drop_bit 5 v = ucast i" and "drop_bit 4 v AND 1 = 1" and "v AND 0x0f = ucast e"
proof -
  have i: "bits_below 15 i" and e: "bits_below 4 e"
    using assms(1,2) by (auto intro!: bits_below_unat simp: word_le_nat_alt)
  have one: "bits_below 1 (1 :: u8)" by (intro bits_below_unat) simp
  let ?low = "push_bit 4 (ucast (1 :: u8)) OR ucast e :: u32"
  note low = packed_fields [OF one e, simplified]
  have v: "v = push_bit 5 (ucast i) OR ucast ?low" by (simp add: v_def)
  have below: "bits_below 5 ?low" using low(1) by simp
  note high = packed_fields [OF i below, folded v]
  show "bits_below 20 v" "drop_bit 5 v = ucast i" using high by simp_all
  have five: "take_bit 5 v = ?low" using high(3) by simp
  have "drop_bit 4 v AND 1 = drop_bit 4 (take_bit 5 v) AND 1"
    by (intro bit_word_eqI) (auto simp: bit_and_iff bit_drop_bit_eq bit_take_bit_iff bit_1_iff)
  also have "\<dots> = 1" unfolding five using low(2) by simp
  finally show "drop_bit 4 v AND 1 = 1" .
  have "v AND 0x0f = take_bit 4 (take_bit 5 v)"
    by (simp add: take_bit_eq_mask mask_eq_exp_minus_1 and.assoc)
  also have "\<dots> = ucast e" unfolding five using low(3) by simp
  finally show "v AND 0x0f = ucast e" .
qed

lemma member_fields:
  fixes i e :: u8
  assumes "i \<le> 15" and "e \<le> 15"
  defines "v \<equiv> push_bit 4 (ucast i) OR ucast e :: u32"
  shows "bits_below 20 v" and "drop_bit 16 v AND 0x0f = 0" and "drop_bit 12 v AND 0x0f = 0"
    and "drop_bit 8 v AND 0x0f = 0" and "drop_bit 4 v AND 0x0f = ucast i" and "v AND 0x0f = ucast e"
proof -
  have i: "bits_below 4 i" and e: "bits_below 4 e"
    using assms(1,2) by (auto intro!: bits_below_unat simp: word_le_nat_alt)
  note v = packed_fields [OF i e, folded v_def, simplified]
  have zero: "drop_bit k v = 0" if "8 \<le> k" for k
    by (rule drop_bit_below [OF bits_below_mono [OF v(1) that]])
  show "bits_below 20 v" by (rule bits_below_mono [OF v(1)]) simp
  show "drop_bit 16 v AND 0x0f = 0" "drop_bit 12 v AND 0x0f = 0" "drop_bit 8 v AND 0x0f = 0"
    by (simp_all add: zero)
  have fifteen: "w AND 0x0f = take_bit 4 w" for w :: u32
    by (simp add: take_bit_eq_mask mask_eq_exp_minus_1)
  show "drop_bit 4 v AND 0x0f = ucast i"
    unfolding v(2) fifteen by (intro take_bit_below bits_below_ucast i)
  show "v AND 0x0f = ucast e" unfolding fifteen by (rule v(3))
qed

lemma traverse_words:
  "\<forall>w\<in>set ws. bits_below 10 (w :: u16) \<Longrightarrow>
    traverse (\<lambda>index. get_or_invalid wordlist (unat index)) ws = Inr (map (\<lambda>w. wordlist ! unat w) ws)"
  using below_10_unat slip39.count by (intro traverse_all_Inr) (simp add: get_or_invalid_def)

lemma traverse_word_index:
  "\<forall>w\<in>set ws. bits_below 10 w \<Longrightarrow> traverse word_index (map (\<lambda>w. wordlist ! unat w) ws) = Inr ws"
proof (induction ws)
  case (Cons w ws)
  then have "unat w < 1024" using below_10_unat by simp
  then have "word_index (wordlist ! unat w) = Inr w" by (simp add: word_index_def slip39.lookup_nth)
  then show ?case using Cons by simp
qed simp

lemma ucast_back:
  "ucast (ucast (a :: u16) :: u32) = a" "ucast (ucast (b :: u8) :: u32) = b"
  by (intro bit_word_eqI; auto simp: bit_ucast_iff)+

lemma ucast_u16_max: "\<not> 0xffff < (ucast (a :: u16) :: u32)"
proof -
  have "unat a < 2 ^ 16" using unsigned_less [of a] by simp
  then have "unat (ucast a :: u32) < 2 ^ 16" by (simp add: unsigned_ucast_eq take_bit_nat_eq_self)
  then show ?thesis by (simp add: word_less_nat_alt)
qed

lemma decode_encode:
  assumes "wf_share s"
  shows "\<exists>m. encode_share s = Inr m \<and> decode_share m = Inr s"
proof -
  let ?id = "push_bit 5 (ucast (sh_identifier s)) OR push_bit 4 1 OR ucast (sh_iteration_exponent s) :: u32"
  let ?par = "push_bit 4 (ucast (sh_member_index s)) OR ucast (sh_member_threshold s - 1) :: u32"
  have wf: "length (sh_value s) = 32" "sh_identifier s \<le> 0x7fff" "sh_member_index s \<le> 15"
    "sh_iteration_exponent s \<le> 15" "1 \<le> sh_member_threshold s" "sh_member_threshold s \<le> 16"
    using assms by (simp_all add: wf_share_def)
  have t: "sh_member_threshold s - 1 \<le> 15"
    using wf(5,6) by (simp add: word_le_nat_alt unat_sub_if')
  obtain ws where ws: "bytes_to_words (sh_value s) = Inr ws" "length ws = 26"
    "\<forall>w\<in>set ws. bits_below 10 w" "words_to_bytes ws = Inr (sh_value s)"
    using words_bytes_roundtrip [of "sh_value s"] wf(1) bits_below_le_1023 by (auto simp: word_count_of_def)
  define data where "data = integer_words ?id 2 @ integer_words ?par 2 @ ws"
  define indices where "indices = data @ checksum_create data"
  have below: "\<forall>w\<in>set indices. bits_below 10 w"
    using ws(3) integer_words_below checksum_create_below by (auto simp: indices_def data_def)
  have len: "length data = 30" "length indices = 33"
    by (simp_all add: data_def indices_def ws(2) integer_words_2 checksum_create_length)
  have parts: "take 2 indices = integer_words ?id 2" "take 2 (drop 2 indices) = integer_words ?par 2"
    "take 26 (drop 4 indices) = ws"
    by (simp_all add: indices_def data_def integer_words_2 ws(2))
  have "encode_share s = Inr (join '' '' (map (\<lambda>w. wordlist ! unat w) indices))"
  proof -
    have "traverse (\<lambda>index. get_or_invalid wordlist (unat index)) indices
      = Inr (map (\<lambda>w. wordlist ! unat w) indices)" using below by (rule traverse_words)
    moreover have "\<not> sh_member_threshold s > 16" "sh_member_threshold s \<noteq> 0" "\<not> sh_member_index s > 15"
        "\<not> sh_iteration_exponent s > 15"
      using wf by (auto simp: not_less)
    ultimately show ?thesis
      using wf(1) ws(1) unfolding encode_share_def Let_def indices_def data_def by simp
  qed
  moreover have "decode_share (join '' '' (map (\<lambda>w. wordlist ! unat w) indices)) = Inr s"
  proof -
    have "split_whitespace (join '' '' (map (\<lambda>w. wordlist ! unat w) indices))
        = map (\<lambda>w. wordlist ! unat w) indices"
      using slip39.split_join [of "map unat indices"] below below_10_unat by (simp add: comp_def)
    then have "traverse word_index (split_whitespace (join '' '' (map (\<lambda>w. wordlist ! unat w) indices)))
        = Inr indices"
      using traverse_word_index [OF below] by simp
    moreover have "checksum_verify indices"
      unfolding indices_def by (rule checksum_create_verifies)
    ultimately show ?thesis
      using id_ext_fields [OF wf(2,4)] member_fields [OF wf(3) t] wf ws(4)
      unfolding decode_share_def Let_def
      by (simp add: len parts words_of_integer ucast_back ucast_u16_max not_less [of _ "sh_identifier s"])
  qed
  ultimately show ?thesis by blast
qed

subsection \<open>Properties\<close>

definition ex_share :: share where
  "ex_share = \<lparr>sh_identifier = 0x1234, sh_iteration_exponent = 0, sh_member_index = 3,
     sh_member_threshold = 2, sh_value = map of_nat [100..<132]\<rparr>"

text \<open>The mnemonic of a share decodes to the share: every share within the field widths encodes
  and decodes to itself, and encode refuses a share outside of them (a value of another length,
  a threshold, index or exponent out of range).\<close>

theorem mnemonic_roundtrip:
  assumes "wf_share s"
  shows "\<exists>m. encode_share s = Inr m \<and> decode_share m = Inr s \<and> length (split_whitespace m) = 33"
proof -
  obtain m where m: "encode_share s = Inr m" "decode_share m = Inr s"
    using decode_encode [OF assms] by blast
  have "length (split_whitespace m) = 33"
    using m(2) traverse_Inr_length [of word_index "split_whitespace m"]
    by (auto simp: decode_share_def and_then_Inr_iff split: if_splits)
  then show ?thesis using m by blast
qed

theorem mnemonic_roundtrip_witness:
  "\<exists>m. encode_share ex_share = Inr m \<and> decode_share m = Inr ex_share \<and> length (split_whitespace m) = 33"
  by (rule mnemonic_roundtrip) (simp add: wf_share_def ex_share_def)

text \<open>Packing bytes into ten-bit words loses nothing: an even number of at least sixteen bytes
  packs into words of at most 1023 with zero padding, and unpacks to the same bytes.\<close>

theorem word_packing_roundtrip:
  assumes "even (length bytes)" and "16 \<le> length bytes"
  shows "\<exists>ws. bytes_to_words bytes = Inr ws \<and> words_to_bytes ws = Inr bytes
     \<and> length ws = (8 * length bytes + 9) div 10 \<and> (\<forall>w\<in>set ws. w \<le> 1023)"
  using words_bytes_roundtrip [OF assms] by (auto simp: word_count_of_def mult.commute)

theorem word_packing_roundtrip_witness:
  "\<exists>ws. bytes_to_words (map of_nat [0..<32]) = Inr ws \<and> words_to_bytes ws = Inr (map of_nat [0..<32])
     \<and> length ws = (8 * length (map of_nat [0..<32] :: bytes) + 9) div 10 \<and> (\<forall>w\<in>set ws. w \<le> 1023)"
  by (rule word_packing_roundtrip) simp_all

lemma xor_solve: "x XOR y = z \<Longrightarrow> y = x XOR (z :: 'a :: len word)"
  by (auto simp flip: xor.assoc)

lemma checksum_parts_back:
  assumes "bits_below 10 a" and "bits_below 10 b" and "bits_below 10 (c :: u16)"
  defines "cs \<equiv> push_bit 20 (ucast a) XOR push_bit 10 (ucast b) XOR ucast c :: u32"
  shows "ucast (drop_bit 20 cs AND 1023) = a" and "ucast (drop_bit 10 cs AND 1023) = b"
    and "ucast (cs AND 1023) = c"
proof -
  note high = assms(1-3) [unfolded bits_below_def, rule_format]
  note low = assms(1-3) [THEN bits_below_bit]
  show "ucast (drop_bit 20 cs AND 1023) = a" "ucast (drop_bit 10 cs AND 1023) = b" "ucast (cs AND 1023) = c"
    unfolding cs_def take_bit_10
    by (intro bit_word_eqI; auto simp: bit_xor_iff bit_push_bit_iff bit_ucast_iff bit_take_bit_iff
        bit_drop_bit_eq high simp del: take_bit_xor drop_bit_xor dest: low)+
qed

text \<open>The checksum accepts exactly the three words it creates: data followed by three ten-bit
  words verifies if and only if these are the created ones, so no change of the checksum words
  goes unnoticed.\<close>

theorem checksum_exact:
  assumes "\<forall>w\<in>set cs. w \<le> 1023" and "length cs = 3"
  shows "checksum_verify (data @ cs) \<longleftrightarrow> cs = checksum_create data"
proof
  assume verify: "checksum_verify (data @ cs)"
  obtain a b c where cs: "cs = [a, b, c]" using assms(2) by (auto simp: numeral_3_eq_3 length_Suc_conv)
  have below: "bits_below 10 a" "bits_below 10 b" "bits_below 10 c"
    using assms(1) bits_below_le_1023 by (simp_all add: cs)
  let ?s = "foldl polymod_step 1 (map ucast EXTENDABLE_CUSTOMIZATION @ data)"
  let ?sss = "polymod_step (polymod_step (polymod_step ?s 0) 0) 0"
  let ?pack = "push_bit 20 (ucast a) XOR push_bit 10 (ucast b) XOR ucast c :: u32"
  have "?sss XOR ?pack = 1"
    using verify polymod_three [OF below(1,2), of ?s c] by (simp add: checksum_verify_def polymod_def cs)
  then have "?pack = ?sss XOR 1" by (rule xor_solve)
  then have "checksum_create data
      = [ucast (drop_bit 20 ?pack AND 1023), ucast (drop_bit 10 ?pack AND 1023), ucast (?pack AND 1023)]"
    by (simp add: checksum_create_def polymod_def numeral_3_eq_3)
  also have "\<dots> = cs" unfolding checksum_parts_back [OF below] cs ..
  finally show "cs = checksum_create data" ..
next
  assume "cs = checksum_create data"
  then show "checksum_verify (data @ cs)" using checksum_create_verifies by simp
qed

theorem checksum_exact_witness:
  "checksum_verify ([1, 2] @ [3, 4, 5]) \<longleftrightarrow> [3, 4, 5] = checksum_create [1, 2]"
  by (rule checksum_exact) simp_all
end
