(* ===== verification/Slip39.thy ===== *)
theory Slip39
  imports Mnemonic
begin

text \<open>
  The sentinel's use of SLIP-39 (nook-auth2/src/auth/slip39.rs and slip39/cipher.rs): the Feistel
  cipher of the master secret, issuing a secret as mnemonics, and admitting and recovering a
  quorum of mnemonics.  The key derivation pbkdf2_hmac is a parameter: the bytes it writes into
  an output buffer, from the password, the salt, the iteration count and the buffer's length.
\<close>

unbundle bit_operations_syntax

type_synonym pbkdf2_fn = "bytes \<Rightarrow> bytes \<Rightarrow> u32 \<Rightarrow> nat \<Rightarrow> nat \<Rightarrow> u8"

abbreviation (input) ROUND_ITERATIONS :: u32 where "ROUND_ITERATIONS \<equiv> 2500"
abbreviation (input) ROUND_COUNT :: nat where "ROUND_COUNT \<equiv> 4"
abbreviation (input) ITERATION_EXPONENT :: u8 where "ITERATION_EXPONENT \<equiv> 0"

subsection \<open>MasterSecretCipher\<close>

record cipher =
  cipher_passphrase :: bytes
  cipher_exponent :: u8

definition cipher_round :: "pbkdf2_fn \<Rightarrow> cipher \<Rightarrow> u8 \<Rightarrow> bytes \<Rightarrow> bytes" where
  "cipher_round kdf c rnd right =
     (let password = rnd # cipher_passphrase c;
          iterations = push_bit (unat (cipher_exponent c)) ROUND_ITERATIONS
      in map (kdf password right iterations (length right)) [0..<length right])"

definition xor_bytes :: "bytes \<Rightarrow> bytes \<Rightarrow> bytes" where
  "xor_bytes left right = map2 (XOR) left right"

definition feistel_step :: "pbkdf2_fn \<Rightarrow> cipher \<Rightarrow> bytes \<times> bytes \<Rightarrow> u8 \<Rightarrow> bytes \<times> bytes" where
  "feistel_step kdf c = (\<lambda>(left, right) rnd.
     let derived = cipher_round kdf c rnd right; next_right = xor_bytes left derived
     in (right, next_right))"

definition feistel :: "pbkdf2_fn \<Rightarrow> cipher \<Rightarrow> bytes \<Rightarrow> u8 list \<Rightarrow> bytes" where
  "feistel kdf c input rounds =
     (let middle = length input div 2;
          (left, right) = foldl (feistel_step kdf c) (take middle input, drop middle input) rounds
      in right @ left)"

definition encrypt_secret :: "pbkdf2_fn \<Rightarrow> cipher \<Rightarrow> bytes \<Rightarrow> bytes" where
  "encrypt_secret kdf c secret = feistel kdf c secret (map of_nat [0..<ROUND_COUNT])"

definition decrypt_secret :: "pbkdf2_fn \<Rightarrow> cipher \<Rightarrow> bytes \<Rightarrow> bytes multi_device" where
  "decrypt_secret kdf c encrypted =
     (if length encrypted \<noteq> SECRET_BYTES \<or> \<not> 2 dvd length encrypted
      then Inl InvalidSentinelShareEncoding
      else Inr (feistel kdf c encrypted (rev (map of_nat [0..<ROUND_COUNT]))))"

subsection \<open>Policy\<close>

definition threshold_is_valid_for :: "u8 \<Rightarrow> u8 \<Rightarrow> bool" where
  "threshold_is_valid_for threshold participants \<longleftrightarrow> threshold \<ge> 2 \<and> threshold \<le> participants"

definition is_supported_quorum :: "u8 \<Rightarrow> bool" where
  "is_supported_quorum participants \<longleftrightarrow> participants \<ge> 2 \<and> participants \<le> 16"

definition validate_policy :: "u8 \<Rightarrow> u8 \<Rightarrow> unit multi_device" where
  "validate_policy threshold share_count =
     (if \<not> threshold_is_valid_for threshold share_count \<or> \<not> is_supported_quorum share_count
      then Inl InvalidSentinelThreshold else Inr ())"

subsection \<open>SentinelSecretSplitRequest\<close>

definition share_of :: "u16 \<Rightarrow> u8 \<Rightarrow> raw_share \<Rightarrow> share" where
  "share_of identifier threshold raw =
     \<lparr>sh_identifier = identifier, sh_iteration_exponent = ITERATION_EXPONENT,
      sh_member_index = rs_index raw, sh_member_threshold = threshold, sh_value = rs_value raw\<rparr>"

definition identifier_of :: "bytes \<Rightarrow> u16" where
  "identifier_of b = (push_bit 8 (ucast (b ! 0)) OR ucast (b ! 1)) AND 0x7fff"

definition issue ::
    "pbkdf2_fn \<Rightarrow> rng_fn \<Rightarrow> sha256_fn \<Rightarrow> bytes \<Rightarrow> u8 \<Rightarrow> u8 \<Rightarrow> string list multi_device" where
  "issue kdf rng sha master_secret threshold share_count =
     and_then (validate_policy threshold share_count) (\<lambda>_.
     and_then (random_fill rng 0 2) (\<lambda>identifier_bytes.
       let identifier = identifier_of identifier_bytes;
           encrypted = encrypt_secret kdf \<lparr>cipher_passphrase = [], cipher_exponent = ITERATION_EXPONENT\<rparr>
             master_secret
       in and_then (split_secret rng sha 1 threshold share_count encrypted) (\<lambda>raw_shares.
          traverse (\<lambda>raw. encode_share (share_of identifier threshold raw)) raw_shares)))"

subsection \<open>SentinelSecretRecoveryRequest and AdmittedQuorum\<close>

datatype recovery_threshold_policy = SentinelQuorum | InteroperabilityVector

record recovery_request =
  rr_mnemonics :: "string list"
  rr_passphrase :: bytes
  rr_policy :: recovery_threshold_policy

definition sentinel_request :: "string list \<Rightarrow> recovery_request" where
  "sentinel_request mnemonics =
     \<lparr>rr_mnemonics = mnemonics, rr_passphrase = [], rr_policy = SentinelQuorum\<rparr>"

definition validate_passphrase :: "bytes \<Rightarrow> unit multi_device" where
  "validate_passphrase passphrase =
     (if list_all (\<lambda>byte. 32 \<le> byte \<and> byte \<le> 126) passphrase \<or> passphrase = []
      then Inr () else Inl InvalidSentinelShareEncoding)"

record admitted_quorum =
  aq_threshold :: u8
  aq_iteration_exponent :: u8
  aq_shares :: "raw_share list"

definition admit :: "string list \<Rightarrow> admitted_quorum multi_device" where
  "admit mnemonics =
     and_then (traverse decode_share mnemonics) (\<lambda>shares.
       case shares of
         [] \<Rightarrow> Inl (NotEnoughSentinelShares 2 0)
       | first # _ \<Rightarrow>
         let identifier = sh_identifier first;
             iteration_exponent = sh_iteration_exponent first;
             threshold = sh_member_threshold first
         in if \<exists>share\<in>set shares. sh_identifier share \<noteq> identifier
                \<or> sh_iteration_exponent share \<noteq> iteration_exponent
                \<or> sh_member_threshold share \<noteq> threshold
                \<or> length (sh_value share) \<noteq> SECRET_BYTES
            then Inl InvalidSentinelShareEncoding
            else if \<not> distinct (map sh_member_index shares) then Inl InvalidSentinelShareEncoding
            else let required = unat threshold in
              if length shares < required
              then Inl (NotEnoughSentinelShares required (length shares))
              else Inr \<lparr>aq_threshold = threshold, aq_iteration_exponent = iteration_exponent,
                        aq_shares = map (\<lambda>share. \<lparr>rs_index = sh_member_index share, rs_value = sh_value share\<rparr>)
                          (take required shares)\<rparr>)"

definition recover_quorum :: "pbkdf2_fn \<Rightarrow> sha256_fn \<Rightarrow> bytes \<Rightarrow> admitted_quorum \<Rightarrow> bytes multi_device" where
  "recover_quorum kdf sha passphrase q =
     and_then (recover_secret sha (aq_threshold q) (aq_shares q)) (\<lambda>encrypted.
     and_then (decrypt_secret kdf
         \<lparr>cipher_passphrase = passphrase, cipher_exponent = aq_iteration_exponent q\<rparr> encrypted) (\<lambda>decrypted.
       if length decrypted \<noteq> SECRET_BYTES then Inl InvalidSentinelShareEncoding else Inr decrypted))"

definition recover_request :: "pbkdf2_fn \<Rightarrow> sha256_fn \<Rightarrow> recovery_request \<Rightarrow> bytes multi_device" where
  "recover_request kdf sha r =
     and_then (validate_passphrase (rr_passphrase r)) (\<lambda>_.
     and_then
       (case (rr_policy r, rr_mnemonics r) of
          (SentinelQuorum, first # _) \<Rightarrow>
            and_then (decode_share first) (\<lambda>share.
              if sh_member_threshold share < 2 then Inl InvalidSentinelThreshold else Inr ())
        | _ \<Rightarrow> Inr ()) (\<lambda>_.
     and_then (admit (rr_mnemonics r)) (recover_quorum kdf sha (rr_passphrase r))))"

subsection \<open>The Feistel network inverts\<close>

lemma length_round [simp]: "length (cipher_round kdf c r right) = length right"
  by (simp add: cipher_round_def Let_def)

lemma length_xor_bytes [simp]: "length (xor_bytes a b) = min (length a) (length b)"
  by (simp add: xor_bytes_def)

lemma xor_bytes_cancel: "length a = length b \<Longrightarrow> xor_bytes (xor_bytes a b) b = a"
  by (auto simp: xor_bytes_def xor.assoc intro: nth_equalityI)

lemma feistel_step_inverse:
  assumes "length l = length r" and "feistel_step kdf c (l, r) k = (l', r')"
  shows "length l' = length r' \<and> length l' = length l \<and> feistel_step kdf c (r', l') k = (r, l)"
  using assms by (auto simp: feistel_step_def Let_def xor_bytes_cancel)

lemma feistel_rounds_inverse:
  assumes "length l = length r" and "foldl (feistel_step kdf c) (l, r) ks = (l', r')"
  shows "length l' = length l \<and> length r' = length l
    \<and> foldl (feistel_step kdf c) (r', l') (rev ks) = (r, l)"
  using assms
proof (induction ks arbitrary: l r)
  case (Cons k ks)
  obtain l1 r1 where s: "feistel_step kdf c (l, r) k = (l1, r1)" by fastforce
  note step = feistel_step_inverse [OF Cons.prems(1) s]
  have "foldl (feistel_step kdf c) (l1, r1) ks = (l', r')" using Cons.prems(2) by (simp add: s)
  then show ?case using Cons.IH [of l1 r1] step by simp
qed simp

lemma decrypt_encrypt:
  assumes "length secret = 32"
  shows "length (encrypt_secret kdf c secret) = 32"
    and "decrypt_secret kdf c (encrypt_secret kdf c secret) = Inr secret"
proof -
  let ?ks = "map of_nat [0..<4] :: u8 list"
  obtain l r where lr: "foldl (feistel_step kdf c) (take 16 secret, drop 16 secret) ?ks = (l, r)"
    by fastforce
  have inv: "length l = 16 \<and> length r = 16
      \<and> foldl (feistel_step kdf c) (r, l) (rev ?ks) = (drop 16 secret, take 16 secret)"
    using feistel_rounds_inverse [OF _ lr] assms by simp
  have enc: "encrypt_secret kdf c secret = r @ l"
    unfolding encrypt_secret_def feistel_def Let_def using assms lr by simp
  then show "length (encrypt_secret kdf c secret) = 32" using inv by simp
  have "feistel kdf c (r @ l) (rev ?ks) = secret"
    unfolding feistel_def Let_def using inv by simp
  then show "decrypt_secret kdf c (encrypt_secret kdf c secret) = Inr secret"
    using inv unfolding decrypt_secret_def enc by simp
qed

subsection \<open>Issued mnemonics recover\<close>

lemma identifier_of_bound: "identifier_of b \<le> 0x7fff"
  by (simp add: identifier_of_def word_and_le1)

lemma validate_policy_Inr:
  "validate_policy t n = Inr () \<longleftrightarrow> 2 \<le> t \<and> t \<le> n \<and> n \<le> 16"
  by (auto simp: validate_policy_def threshold_is_valid_for_def is_supported_quorum_def)

lemma issue_steps:
  assumes "issue kdf rng sha master t n = Inr mnemonics" and "length master = 32"
  obtains shares ident where "ident \<le> 0x7fff"
    and "split_secret rng sha 1 t n (encrypt_secret kdf \<lparr>cipher_passphrase = [], cipher_exponent = 0\<rparr> master)
          = Inr shares"
    and "list_all2 (\<lambda>raw m. encode_share (share_of ident t raw) = Inr m) shares mnemonics"
    and "2 \<le> t" and "t \<le> n" and "n \<le> 16"
  using assms identifier_of_bound
  by (auto simp: issue_def and_then_Inr_iff Let_def traverse_Inr_iff validate_policy_Inr)

lemma issued_share_decodes:
  assumes "identifier \<le> 0x7fff" and "2 \<le> t" and "t \<le> n" and "n \<le> 16"
    and "split_secret rng sha 1 t n encrypted = Inr shares" and "length encrypted = 32"
    and "raw \<in> set shares"
  shows "\<exists>m. encode_share (share_of identifier t raw) = Inr m
    \<and> decode_share m = Inr (share_of identifier t raw)"
proof (rule decode_encode)
  have "rs_index raw \<in> set (map rs_index shares)" using assms(7) by simp
  then have "rs_index raw \<in> of_nat ` {..<unat n}"
    by (simp add: split_secret_shape(1) [OF assms(5)] lessThan_atLeast0)
  moreover have "(of_nat i :: u8) \<le> 15" if "i < unat n" for i
  proof -
    have "i < 16" using that assms(4) by (simp add: word_le_nat_alt)
    then show ?thesis by (simp add: word_le_nat_alt unat_of_nat)
  qed
  ultimately have "rs_index raw \<le> 15" by auto
  moreover have "1 \<le> t" "t \<le> 16" using assms(2-4) by (simp_all add: word_le_nat_alt)
  ultimately show "wf_share (share_of identifier t raw)"
    using assms split_secret_shape(2) [OF assms(5)] by (simp add: wf_share_def share_of_def)
qed

lemma list_all2_on_right: "list_all2 P xs ys \<Longrightarrow> y \<in> set ys \<Longrightarrow> \<exists>x\<in>set xs. P x y"
  by (induction rule: list_all2_induct) auto

lemma issued_quorum_decodes:
  assumes "issue kdf rng sha master t n = Inr mnemonics" and "length master = 32"
    and "set qs \<subseteq> set mnemonics" and "distinct qs"
  obtains ident raws shares where
    "split_secret rng sha 1 t n (encrypt_secret kdf \<lparr>cipher_passphrase = [], cipher_exponent = 0\<rparr> master)
       = Inr shares"
    and "traverse decode_share qs = Inr (map (share_of ident t) raws)"
    and "set raws \<subseteq> set shares" and "distinct (map rs_index raws)" and "2 \<le> t"
proof -
  obtain shares ident where ident: "ident \<le> 0x7fff"
    and shares: "split_secret rng sha 1 t n (encrypt_secret kdf \<lparr>cipher_passphrase = [], cipher_exponent = 0\<rparr> master)
          = Inr shares"
    and enc: "list_all2 (\<lambda>raw m. encode_share (share_of ident t raw) = Inr m) shares mnemonics"
    and policy: "2 \<le> t" "t \<le> n" "n \<le> 16"
    using issue_steps [OF assms(1,2)] .
  have "\<exists>raw. raw \<in> set shares \<and> encode_share (share_of ident t raw) = Inr m
      \<and> decode_share m = Inr (share_of ident t raw)" if m: "m \<in> set mnemonics" for m
  proof -
    obtain raw where "raw \<in> set shares" "encode_share (share_of ident t raw) = Inr m"
      using list_all2_on_right [OF enc m] by blast
    then show ?thesis
      using issued_share_decodes [OF ident policy shares decrypt_encrypt(1) [OF assms(2)]] by fastforce
  qed
  then obtain g where g: "\<And>m. m \<in> set mnemonics \<Longrightarrow> g m \<in> set shares
      \<and> encode_share (share_of ident t (g m)) = Inr m \<and> decode_share m = Inr (share_of ident t (g m))"
    by metis
  have "distinct (map rs_index shares)"
  proof -
    have "n \<le> 16 \<Longrightarrow> unat n \<le> 256" by (simp add: word_le_nat_alt)
    then show ?thesis
      unfolding split_secret_shape(1) [OF shares] using policy(3) by (intro distinct_of_nat_u8)
  qed
  then have inj: "inj_on rs_index (set shares)" by (simp add: distinct_map)
  show thesis
  proof (rule that [of shares ident "map g qs"])
    show "traverse decode_share qs = Inr (map (share_of ident t) (map g qs))"
      using traverse_all_Inr [of qs decode_share "\<lambda>m. share_of ident t (g m)"] g assms(3)
      by (simp add: comp_def subset_iff)
    show "set (map g qs) \<subseteq> set shares" using g assms(3) by auto
    have "m = m'" if "m \<in> set qs" "m' \<in> set qs" "rs_index (g m) = rs_index (g m')" for m m'
    proof -
      have same: "g m = g m'" using inj_onD [OF inj that(3)] g assms(3) that by blast
      have "encode_share (share_of ident t (g m)) = Inr m" "encode_share (share_of ident t (g m')) = Inr m'"
        using g assms(3) that by blast+
      then show ?thesis unfolding same by simp
    qed
    then show "distinct (map rs_index (map g qs))"
      using assms(4) by (auto simp: distinct_map inj_on_def)
  qed (use shares policy in simp_all)
qed

lemma admit_quorum:
  assumes "traverse decode_share qs = Inr (map (share_of ident t) raws)"
    and "distinct (map rs_index raws)" and "\<forall>raw\<in>set raws. length (rs_value raw) = 32"
    and "unat t \<le> length raws" and "t \<noteq> 0"
  shows "admit qs = Inr \<lparr>aq_threshold = t, aq_iteration_exponent = 0, aq_shares = take (unat t) raws\<rparr>"
proof -
  have "raws \<noteq> []" using assms(4,5) by (auto simp: unat_eq_0)
  moreover have "distinct (map sh_member_index (map (share_of ident t) raws))"
    using assms(2) by (simp add: comp_def share_of_def)
  moreover have "map (\<lambda>share. \<lparr>rs_index = sh_member_index share, rs_value = sh_value share\<rparr>)
      (take k (map (share_of ident t) raws)) = take k raws" for k
  proof -
    have "(\<lambda>raw. \<lparr>rs_index = rs_index raw, rs_value = rs_value raw\<rparr>) = (\<lambda>raw :: raw_share. raw)" by auto
    then show ?thesis by (simp add: take_map share_of_def comp_def)
  qed
  ultimately show ?thesis
    using assms(3,4) unfolding admit_def assms(1)
    by (cases raws) (auto simp: Let_def share_of_def not_less)
qed

lemma recover_issued:
  assumes "issue kdf rng sha master t n = Inr mnemonics" and "length master = 32"
    and "set qs \<subseteq> set mnemonics" and "distinct qs" and "unat t \<le> length qs"
  shows "recover_request kdf sha (sentinel_request qs) = Inr master"
proof -
  obtain ident raws shares where
    shares: "split_secret rng sha 1 t n (encrypt_secret kdf \<lparr>cipher_passphrase = [], cipher_exponent = 0\<rparr> master)
       = Inr shares"
    and dec: "traverse decode_share qs = Inr (map (share_of ident t) raws)"
    and raws: "set raws \<subseteq> set shares" "distinct (map rs_index raws)" and t2: "2 \<le> t"
    using issued_quorum_decodes [OF assms(1-4)] .
  have t0: "t \<noteq> 0" "2 \<le> unat t" using t2 by (auto simp: word_le_nat_alt)
  have len: "length raws = length qs" using traverse_Inr_length [OF dec] by simp
  have "\<forall>raw\<in>set raws. length (rs_value raw) = 32"
    using split_secret_shape(2) [OF shares] decrypt_encrypt(1) [OF assms(2)] raws(1) by auto
  then have admit: "admit qs = Inr \<lparr>aq_threshold = t, aq_iteration_exponent = 0, aq_shares = take (unat t) raws\<rparr>"
    using admit_quorum [OF dec raws(2) _ _ t0(1)] assms(5) len by simp
  have recover: "recover_secret sha t (take (unat t) raws)
      = Inr (encrypt_secret kdf \<lparr>cipher_passphrase = [], cipher_exponent = 0\<rparr> master)"
    using raws assms(5) len
    by (intro recover_any_quorum [OF shares]) (auto simp: distinct_take take_map [symmetric] dest: in_set_takeD)
  obtain first rest where qs: "qs = first # rest" using assms(5) t0(2) by (cases qs) auto
  obtain share where "decode_share first = Inr share" "sh_member_threshold share = t"
    using dec unfolding qs by (auto simp: and_then_Inr_iff share_of_def)
  then show ?thesis
    unfolding recover_request_def sentinel_request_def recover_quorum_def
    using admit recover decrypt_encrypt(2) [OF assms(2)] qs t2 assms(2)
    by (simp add: validate_passphrase_def not_less)
qed

subsection \<open>Properties\<close>

definition ex_kdf :: pbkdf2_fn where
  "ex_kdf password salt iterations n i = of_nat (length password + length salt + i)"

definition ex_master :: bytes where
  "ex_master = map of_nat [0..<32]"

lemma issue_succeeds:
  assumes "\<And>c len. \<exists>bs. rng c len = Inr bs" and "length master = 32"
    and "2 \<le> t" and "t \<le> n" and "n \<le> 16"
  shows "\<exists>mnemonics. issue kdf rng sha master t n = Inr mnemonics \<and> length mnemonics = unat n
    \<and> distinct mnemonics"
proof -
  let ?c = "\<lparr>cipher_passphrase = [], cipher_exponent = 0\<rparr>"
  obtain b where b: "random_fill rng 0 2 = Inr b"
    using assms(1) [of 0 2] by (auto simp: random_fill_def)
  have "t \<noteq> 0" using assms(3) by auto
  then have "split_admits t n (encrypt_secret kdf ?c master)"
    using assms(4,5) decrypt_encrypt(1) [OF assms(2)] by (simp add: split_admits_def)
  then obtain shares where shares: "split_secret rng sha 1 t n (encrypt_secret kdf ?c master) = Inr shares"
    using split_secret_succeeds assms(1) by blast
  let ?enc = "\<lambda>raw. encode_share (share_of (identifier_of b) t raw)"
  note decodes = issued_share_decodes [OF identifier_of_bound [of b] assms(3-5) shares decrypt_encrypt(1) [OF assms(2)]]
  obtain ms where ms: "traverse ?enc shares = Inr ms"
    using traverse_succeeds [of shares ?enc] decodes by blast
  have "map rs_index shares = map (\<lambda>m. case decode_share m of Inr s \<Rightarrow> sh_member_index s | Inl _ \<Rightarrow> 0) ms"
  proof -
    have "list_all2 (\<lambda>raw m. rs_index raw = (case decode_share m of Inr s \<Rightarrow> sh_member_index s | Inl _ \<Rightarrow> 0)) shares ms"
      using ms unfolding traverse_Inr_iff
    proof (rule list.rel_mono_strong)
      fix raw m assume raw: "raw \<in> set shares" and "?enc raw = Inr m"
      then show "rs_index raw = (case decode_share m of Inr s \<Rightarrow> sh_member_index s | Inl _ \<Rightarrow> 0)"
        using decodes [OF raw] by (auto simp: share_of_def)
    qed
    then show ?thesis by (simp add: list_all2_conv_all_nth list_eq_iff_nth_eq)
  qed
  moreover have "distinct (map rs_index shares)"
    unfolding split_secret_shape(1) [OF shares] using assms(5) by (intro distinct_of_nat_u8) (simp add: word_le_nat_alt)
  ultimately have "distinct ms" by (metis distinct_map)
  moreover have "length ms = unat n"
    using traverse_Inr_length [OF ms] arg_cong [OF split_secret_shape(1) [OF shares], of length] by simp
  moreover have "issue kdf rng sha master t n = Inr ms"
    using assms(3-5) b shares ms by (simp add: issue_def validate_policy_Inr [THEN iffD2] Let_def)
  ultimately show ?thesis by blast
qed

text \<open>C37: a quorum of issued mnemonics recovers the master secret: any threshold many distinct
  mnemonics of an issued set, in any order, are admitted and recovered to the 32 bytes that were
  issued, for every key derivation, hash and randomness.\<close>

theorem sentinel_quorum_recovers:
  assumes "issue kdf rng sha master t n = Inr mnemonics" and "length master = 32"
    and "set qs \<subseteq> set mnemonics" and "distinct qs" and "unat t \<le> length qs"
  shows "recover_request kdf sha (sentinel_request qs) = Inr master"
  using assms by (rule recover_issued)

lemma ex_issue: "\<exists>mnemonics. issue ex_kdf ex_rng ex_sha ex_master 2 3 = Inr mnemonics
    \<and> length mnemonics = 3 \<and> distinct mnemonics"
  using issue_succeeds [of ex_rng ex_master 2 3 ex_kdf ex_sha] by (simp add: ex_rng_def ex_master_def)

theorem sentinel_quorum_recovers_witness:
  "\<exists>mnemonics. issue ex_kdf ex_rng ex_sha ex_master 2 3 = Inr mnemonics
     \<and> recover_request ex_kdf ex_sha (sentinel_request [mnemonics ! 2, mnemonics ! 0]) = Inr ex_master"
proof -
  obtain ms where ms: "issue ex_kdf ex_rng ex_sha ex_master 2 3 = Inr ms" "length ms = 3" "distinct ms"
    using ex_issue by blast
  have "recover_request ex_kdf ex_sha (sentinel_request [ms ! 2, ms ! 0]) = Inr ex_master"
  proof (rule sentinel_quorum_recovers [OF ms(1)])
    show "set [ms ! 2, ms ! 0] \<subseteq> set ms" using ms(2) by simp
    show "distinct [ms ! 2, ms ! 0]" using ms(2,3) by (simp add: nth_eq_iff_index_eq)
  qed (simp_all add: ex_master_def)
  then show ?thesis using ms(1) by blast
qed

text \<open>Issuing is total on its policy: with working randomness and a 32-byte secret it returns
  share_count distinct mnemonics exactly for thresholds from 2 to a share count of at most 16, and
  refuses every other policy as an invalid threshold, before any randomness is drawn.\<close>

theorem issue_policy_exact:
  assumes "\<And>c len. \<exists>bs. rng c len = Inr bs" and "length master = 32"
  shows "((\<exists>mnemonics. issue kdf rng sha master t n = Inr mnemonics
            \<and> length mnemonics = unat n \<and> distinct mnemonics)
          \<longleftrightarrow> 2 \<le> t \<and> t \<le> n \<and> n \<le> 16)
       \<and> (issue kdf rng sha master t n = Inl InvalidSentinelThreshold \<or> 2 \<le> t \<and> t \<le> n \<and> n \<le> 16)"
proof -
  have "issue kdf rng sha master t n = Inl InvalidSentinelThreshold" if "\<not> (2 \<le> t \<and> t \<le> n \<and> n \<le> 16)"
    using that validate_policy_Inr [of t n] by (auto simp: issue_def validate_policy_def split: if_splits)
  then show ?thesis using issue_succeeds [OF assms] by fastforce
qed

theorem issue_policy_exact_witness:
  "((\<exists>mnemonics. issue ex_kdf ex_rng ex_sha ex_master 5 4 = Inr mnemonics
            \<and> length mnemonics = unat (4 :: u8) \<and> distinct mnemonics)
          \<longleftrightarrow> 2 \<le> (5 :: u8) \<and> (5 :: u8) \<le> 4 \<and> (4 :: u8) \<le> 16)
       \<and> (issue ex_kdf ex_rng ex_sha ex_master 5 4 = Inl InvalidSentinelThreshold
          \<or> 2 \<le> (5 :: u8) \<and> (5 :: u8) \<le> 4 \<and> (4 :: u8) \<le> 16)"
  by (rule issue_policy_exact) (simp_all add: ex_rng_def ex_master_def)

text \<open>What admission accepts is a quorum: the shares come from decoded mnemonics that agree on
  identifier, exponent and threshold, carry distinct member indexes and 32-byte values, and exactly
  threshold many of them are kept.\<close>

theorem admitted_quorum_wf:
  assumes "admit mnemonics = Inr q"
  shows "\<exists>shares. traverse decode_share mnemonics = Inr shares
     \<and> aq_shares q = map (\<lambda>s. \<lparr>rs_index = sh_member_index s, rs_value = sh_value s\<rparr>)
                      (take (unat (aq_threshold q)) shares)
     \<and> length (aq_shares q) = unat (aq_threshold q)
     \<and> distinct (map rs_index (aq_shares q))
     \<and> (\<exists>i. \<forall>s\<in>set shares. sh_identifier s = i \<and> sh_iteration_exponent s = aq_iteration_exponent q
            \<and> sh_member_threshold s = aq_threshold q \<and> length (sh_value s) = 32)"
proof -
  obtain shares where dec': "traverse decode_share mnemonics = Inr shares"
    using assms by (auto simp: admit_def and_then_Inr_iff)
  moreover have "shares \<noteq> []" using assms dec' by (auto simp: admit_def)
  ultimately obtain first rest where shares: "shares = first # rest"
    and dec: "traverse decode_share mnemonics = Inr (first # rest)" by (cases shares) auto
  have "distinct (map sh_member_index shares)" "unat (aq_threshold q) \<le> length shares"
    "\<exists>i. \<forall>s\<in>set shares. sh_identifier s = i \<and> sh_iteration_exponent s = aq_iteration_exponent q
            \<and> sh_member_threshold s = aq_threshold q \<and> length (sh_value s) = 32"
    "aq_shares q = map (\<lambda>s. \<lparr>rs_index = sh_member_index s, rs_value = sh_value s\<rparr>)
                      (take (unat (aq_threshold q)) shares)"
    using assms unfolding admit_def dec shares by (auto simp: Let_def split: if_splits)
  moreover from this have "distinct (map rs_index (aq_shares q))" by (simp add: comp_def distinct_take flip: take_map)
  ultimately show ?thesis by (intro exI [of _ shares]) (simp add: dec')
qed

theorem admitted_quorum_wf_witness:
  "\<exists>mnemonics q shares. admit mnemonics = Inr q \<and> traverse decode_share mnemonics = Inr shares
     \<and> length (aq_shares q) = unat (aq_threshold q) \<and> distinct (map rs_index (aq_shares q))"
proof -
  obtain ms where ms: "issue ex_kdf ex_rng ex_sha ex_master 2 3 = Inr ms" "length ms = 3" "distinct ms"
    using ex_issue by blast
  have "recover_request ex_kdf ex_sha (sentinel_request ms) = Inr ex_master"
    by (rule recover_issued [OF ms(1)]) (use ms in \<open>simp_all add: ex_master_def\<close>)
  then obtain q where "admit ms = Inr q"
    by (auto simp: recover_request_def sentinel_request_def and_then_Inr_iff)
  then show ?thesis using admitted_quorum_wf [of ms q] by blast
qed
end
