(* ===== verification/Events.thy ===== *)
theory Events
  imports Ids
begin

text \<open>
  The data of the vault log (nook-event-log/src): event identifiers, the error enum (errors.rs),
  vault operations and the event body with its structural checks (event.rs), key epochs
  (epoch.rs, epoch_checkpoint_state.rs, epoch_vault_name.rs) and fingerprints (fingerprint.rs).
  Ciphertexts, labels and public encryption keys are strings, as their newtypes are.
\<close>

subsection \<open>EventId\<close>

datatype event_id = EventId (event_id_str: string)

instantiation event_id :: linorder
begin

definition less_eq_event_id :: "event_id \<Rightarrow> event_id \<Rightarrow> bool" where
  "less_eq_event_id a b \<longleftrightarrow> event_id_str a \<le> event_id_str b"

definition less_event_id :: "event_id \<Rightarrow> event_id \<Rightarrow> bool" where
  "less_event_id a b \<longleftrightarrow> event_id_str a < event_id_str b"

instance
  by standard (auto simp: less_eq_event_id_def less_event_id_def event_id.expand)

end

subsection \<open>EventError\<close>

datatype (plugins only: code size) event_error =
  LocalAppendQuarantined event_id string
| VaultFiledTwice string
| InvalidValue validation_error
| EventIdMissingPrefix string
| EventIdInvalidDigest string
| JsonSerialize string
| EventBodySerialize string
| EventSerialize string
| ParseStoredEvent string
| ParseRemoteEvent string
| SignatureMissingPrefix string
| SignatureInvalidHex string
| SignatureWrongLength
| SignatureVerificationFailed
| MissingActorSigningPublicKey
| ActorSigningPublicKeyWrongLength
| ActorSigningPublicKeyInvalid
| ActorSigningKeyMismatch string string
| UnauthorizedActor string
| UnsupportedSchemaVersion u32
| MissingEpochCheckpointReplacement string
| InvalidEpochCheckpointStructure string
| EventStoreIdMismatch string string
| MissingEventParents
| MultipleGenesisRoots
| RemoteEventIdMismatch string
| SigningSeedGeneration string
| SigningSeedWrongLength
| AuthKeyIdError string
| GraphCycle
| TopologicalSortStalled
| MissingEvent string
| ProjectionStoreMismatch
| ProjectionReplayMismatch
| MissingOutboxEntry
| MissingGenesisBytes
| UnsupportedIdentitySchemaVersion u32
| IdentityControlInvalid string
| IdentityApprovalIncomplete string

type_synonym 'a event_result = "(event_error, 'a) result"

text \<open>\<open>InvalidValue\<close> is the variant Validation; its From conversion is the one that the question
  mark applies to a ValidationError.\<close>

fun validated :: "'a validation \<Rightarrow> 'a event_result" where
  "validated (Inl e) = Inl (InvalidValue e)"
| "validated (Inr a) = Inr a"

subsection \<open>Operations\<close>

datatype secret_fingerprint = SecretFingerprint (fingerprint_str: string)

definition fingerprint_parse :: "string \<Rightarrow> (string, secret_fingerprint) result" where
  "fingerprint_parse value =
     (if trim value = [] then Inl ''secret fingerprint must not be empty'' else Inr (SecretFingerprint value))"

definition is_current_secret_version :: "secret_fingerprint \<Rightarrow> bool" where
  "is_current_secret_version f \<longleftrightarrow> strip_prefix ''hmac-sha256:v2:'' (fingerprint_str f) \<noteq> None"

record encrypted_secret_payload =
  sp_id :: secret_id
  sp_secret_type :: secret_type
  sp_ciphertext :: string
  sp_identity_fingerprint :: secret_fingerprint
  sp_fingerprint :: secret_fingerprint

definition payload_to_stored :: "encrypted_secret_payload \<Rightarrow> stored_secret_record" where
  "payload_to_stored p =
     \<lparr>sr_key = sp_id p, sr_secret_type = SecretDeclared (sp_secret_type p), sr_value = sp_ciphertext p\<rparr>"

record sentinel_share_issued =
  si_device_id :: device_id
  si_version :: u32
  si_threshold :: u8
  si_required_participants :: u8
  si_share_index :: u8
  si_ciphertext :: string

datatype epoch_metadata_state = LegacyRetain | Replace "stored_secret_record list"

datatype epoch_vault_name = Unnamed | Named string

definition is_legacy_retain :: "epoch_metadata_state \<Rightarrow> bool" where
  "is_legacy_retain s \<longleftrightarrow> (case s of LegacyRetain \<Rightarrow> True | Replace _ \<Rightarrow> False)"

definition is_unnamed :: "epoch_vault_name \<Rightarrow> bool" where
  "is_unnamed n \<longleftrightarrow> (case n of Unnamed \<Rightarrow> True | Named _ \<Rightarrow> False)"

datatype (plugins only: code size) vault_operation =
  VaultImported sha256_hex "encrypted_secret_payload list"
| SecretCreated encrypted_secret_payload
| SecretDeleted secret_id
| SecretReplaced secret_id encrypted_secret_payload
| SecretConflictResolved secret_id secret_id "secret_id list"
| JoinRequested device_id string device_signing_public_key string
| JoinApproved device_id string device_signing_public_key string string string
| SentinelParticipantEnrolled device_id string device_signing_public_key string
| SentinelSharesIssued "sentinel_share_issued list"
| JoinDenied device_id
| MemberRenamed device_id string
| DeviceRevoked device_id
| VaultCleared
| VaultNamed string
| EpochCheckpoint "encrypted_secret_payload list" sha256_hex epoch_metadata_state epoch_vault_name

fun is_vault_imported :: "vault_operation \<Rightarrow> bool" where
  "is_vault_imported (VaultImported _ _) = True"
| "is_vault_imported _ = False"

fun is_epoch_checkpoint :: "vault_operation \<Rightarrow> bool" where
  "is_epoch_checkpoint (EpochCheckpoint _ _ _ _) = True"
| "is_epoch_checkpoint _ = False"

fun is_sentinel_architecture_evidence :: "vault_operation \<Rightarrow> bool" where
  "is_sentinel_architecture_evidence (SentinelParticipantEnrolled _ _ _ _) = True"
| "is_sentinel_architecture_evidence (SentinelSharesIssued _) = True"
| "is_sentinel_architecture_evidence (EpochCheckpoint _ _ (Replace records) _) =
     list_ex (\<lambda>r. strip_prefix ''sentinel_share:'' (secret_id_str (sr_key r)) \<noteq> None) records"
| "is_sentinel_architecture_evidence _ = False"

datatype epoch_rotation_reason = RotationGenesis | RotationDeviceRevoked | AccessGrant | ConcurrentVaultMutation

record epoch_record =
  er_epoch :: event_id
  er_started_by :: event_id
  er_reason :: epoch_rotation_reason

datatype epoch_transition = Unchanged | Rotated epoch_rotation_reason

fun rotation_reason_str :: "epoch_rotation_reason \<Rightarrow> string" where
  "rotation_reason_str RotationGenesis = ''genesis''"
| "rotation_reason_str RotationDeviceRevoked = ''device-revoked''"
| "rotation_reason_str AccessGrant = ''access-grant''"
| "rotation_reason_str ConcurrentVaultMutation = ''concurrent-vault-mutation''"

fun operation_starts_epoch :: "vault_operation \<Rightarrow> epoch_transition" where
  "operation_starts_epoch (VaultImported _ _) = Rotated RotationGenesis"
| "operation_starts_epoch (DeviceRevoked _) = Rotated RotationDeviceRevoked"
| "operation_starts_epoch _ = Unchanged"

definition concurrent_epoch_rotations_conflict :: "epoch_rotation_reason \<Rightarrow> epoch_rotation_reason \<Rightarrow> bool" where
  "concurrent_epoch_rotations_conflict left right =
     (let left_rotates_access = (left = RotationDeviceRevoked);
          right_rotates_access = (right = RotationDeviceRevoked);
          left_mutates_access = (left = AccessGrant \<or> left = ConcurrentVaultMutation);
          right_mutates_access = (right = AccessGrant \<or> right = ConcurrentVaultMutation)
      in left_rotates_access \<and> (right_rotates_access \<or> right_mutates_access)
         \<or> right_rotates_access \<and> left_mutates_access)"

subsection \<open>Body\<close>

record vault_event_body =
  schema_version :: u32
  store_id :: store_id
  actor_id :: auth_key_id
  actor_signing_public_key :: device_signing_public_key
  parents :: "event_id list"
  created_at :: iso_timestamp
  key_epoch :: event_id
  operations :: "vault_operation list"

record vault_event =
  body :: vault_event_body
  signature :: string

abbreviation (input) SCHEMA_V2 :: u32 where "SCHEMA_V2 \<equiv> 2"
abbreviation (input) SCHEMA_V3 :: u32 where "SCHEMA_V3 \<equiv> 3"
abbreviation (input) SCHEMA_CURRENT :: u32 where "SCHEMA_CURRENT \<equiv> 3"

definition schema_is_supported :: "u32 \<Rightarrow> bool" where
  "schema_is_supported v \<longleftrightarrow> v \<ge> SCHEMA_V2 \<and> v \<le> SCHEMA_CURRENT"

datatype genesis_contents = GenesisOther | GenesisEmpty | GenesisPopulated

definition genesis_import_contents :: "vault_event_body \<Rightarrow> genesis_contents" where
  "genesis_import_contents b =
     (case operations b of
        [VaultImported _ secrets] \<Rightarrow> if secrets = [] then GenesisEmpty else GenesisPopulated
      | _ \<Rightarrow> GenesisOther)"

datatype rotation_trigger = TriggerOther | TriggerDeviceRevoked

definition security_rotation_trigger :: "vault_event_body \<Rightarrow> rotation_trigger" where
  "security_rotation_trigger b =
     (case operations b of [DeviceRevoked _] \<Rightarrow> TriggerDeviceRevoked | _ \<Rightarrow> TriggerOther)"

datatype checkpoint_requirement = NotRequired | SecurityRotationParent event_id

definition epoch_checkpoint_requirement :: "vault_event_body \<Rightarrow> checkpoint_requirement event_result" where
  "epoch_checkpoint_requirement b =
     (let checkpoints = length (filter is_epoch_checkpoint (operations b))
      in if checkpoints = 0 \<or> schema_version b < SCHEMA_V3 then Inr NotRequired
         else if checkpoints \<noteq> 1 \<or> length (operations b) \<noteq> 1
         then Inl (InvalidEpochCheckpointStructure ''checkpoint must be the event's sole operation'')
         else case parents b of
             [parent] \<Rightarrow>
               if key_epoch b \<noteq> parent
               then Inl (InvalidEpochCheckpointStructure
                      ''checkpoint key epoch must equal its direct parent id'')
               else Inr (SecurityRotationParent parent)
           | _ \<Rightarrow> Inl (InvalidEpochCheckpointStructure ''checkpoint must have exactly one direct parent''))"

text \<open>The checkpoint requirement is exact: none is imposed on an old schema or without a checkpoint,
  and a security rotation parent is required exactly when a current event consists of one
  checkpoint, has one parent and carries it as its key epoch; everything else is refused.\<close>

theorem checkpoint_requirement_exact:
  "(epoch_checkpoint_requirement b = Inr NotRequired
      \<longleftrightarrow> \<not> (3 \<le> schema_version b \<and> list_ex is_epoch_checkpoint (operations b)))
   \<and> (epoch_checkpoint_requirement b = Inr (SecurityRotationParent p)
      \<longleftrightarrow> 3 \<le> schema_version b \<and> (\<exists>op. operations b = [op] \<and> is_epoch_checkpoint op)
          \<and> parents b = [p] \<and> key_epoch b = p)"
proof -
  have none: "length (filter is_epoch_checkpoint (operations b)) = 0
      \<longleftrightarrow> \<not> list_ex is_epoch_checkpoint (operations b)"
    by (simp add: filter_empty_conv list_ex_iff)
  show ?thesis
    unfolding epoch_checkpoint_requirement_def Let_def none
    by (auto split: list.splits if_splits simp: length_Suc_conv not_less)
qed

end
