(* ===== verification/EventJson.thy ===== *)
theory EventJson
  imports Events "HOL-Library.Multiset"
begin

text \<open>
  The JSON form of an event body and its canonicalization (nook-event-log/src/event_bytes.rs and
  the serde attributes of event.rs, records.rs).  An object is the list of its entries in the
  order they were inserted; canonicalize_json sorts the entries of every object by key.
\<close>

subsection \<open>Canonical JSON\<close>

datatype json =
  JNull | JBool bool | JNum int | JStr string | JArr "json list" | JObj "(string \<times> json) list"

function canonicalize_json :: "json \<Rightarrow> json" where
  "canonicalize_json (JObj entries) =
     JObj (map (\<lambda>(key, item). (key, canonicalize_json item)) (sort_key fst entries))"
| "canonicalize_json (JArr items) = JArr (map canonicalize_json items)"
| "canonicalize_json JNull = JNull"
| "canonicalize_json (JBool b) = JBool b"
| "canonicalize_json (JNum n) = JNum n"
| "canonicalize_json (JStr s) = JStr s"
  by pat_completeness auto
termination
proof (relation "measure size", goal_cases)
  case (2 entries e key item)
  then have "(key, item) \<in> set entries" by simp
  then have "size_prod (\<lambda>_. 0) size (key, item) < Suc (size_list (size_prod (\<lambda>_. 0) size) entries)"
    using size_list_estimation' [of "(key, item)" entries "size_prod (\<lambda>_. 0) size (key, item)"]
    by fastforce
  then show ?case by simp
next
  case (3 items item)
  then show ?case using size_list_estimation' [of item items "size item" size] by fastforce
qed simp

lemma sort_key_fst_idem [simp]: "sort_key fst (sort_key fst (xs :: (string \<times> 'a) list)) = sort_key fst xs"
  by (rule sort_key_id_if_sorted) simp

lemma map_entries_fst: "map fst (map (\<lambda>(k, v). (k, f v)) xs) = map fst xs"
  by (induction xs) auto

lemma sort_key_map_snd:
  "sort_key fst (map (\<lambda>(k, v). (k, f v)) xs) = map (\<lambda>(k, v). (k, f v)) (sort_key fst (xs :: ('k :: linorder \<times> 'a) list))"
proof -
  have "insort_key fst (a, f b) (map (\<lambda>(k, v). (k, f v)) xs) = map (\<lambda>(k, v). (k, f v)) (insort_key fst (a, b) xs)"
    for a b and xs :: "('k \<times> 'a) list" by (induction xs) auto
  then show ?thesis by (induction xs) auto
qed

lemma canonicalize_idem: "canonicalize_json (canonicalize_json v) = canonicalize_json v"
proof (induction v rule: canonicalize_json.induct)
  case (1 entries)
  let ?f = "\<lambda>(k, v). (k, canonicalize_json v)"
  have "canonicalize_json (canonicalize_json (JObj entries))
      = JObj (map ?f (sort_key fst (map ?f (sort_key fst entries))))" by simp
  also have "sort_key fst (map ?f (sort_key fst entries)) = map ?f (sort_key fst entries)"
    unfolding sort_key_map_snd sort_key_fst_idem ..
  also have "map ?f (map ?f (sort_key fst entries)) = map ?f (sort_key fst entries)"
    using 1 by (auto intro!: map_cong)
  finally show ?case by simp
qed (auto simp: comp_def)

lemma map_of_sort_key:
  assumes "distinct (map fst m)"
  shows "map_of (sort_key fst m) = map_of m"
  using assms by (intro map_of_eqI) (auto simp: distinct_map inj_on_def) 

text \<open>Equal canonical objects agree on every key.\<close>

lemma canonical_field:
  assumes "canonicalize_json (JObj m) = canonicalize_json (JObj m')"
    and "distinct (map fst m)" and "distinct (map fst m')"
  shows "map_option canonicalize_json (map_of m k) = map_option canonicalize_json (map_of m' k)"
proof -
  have "map_of (map (\<lambda>(k, v). (k, canonicalize_json v)) (sort_key fst n)) k
      = map_option canonicalize_json (map_of n k)" if "distinct (map fst n)" for n
    using map_of_sort_key [OF that] by (simp add: map_of_map)
  from this [OF assms(2)] this [OF assms(3)] assms(1) show ?thesis by simp
qed

text \<open>Two values are the same up to the order of object entries.\<close>

inductive same_json :: "json \<Rightarrow> json \<Rightarrow> bool" where
  same_refl: "same_json v v"
| same_array: "list_all2 same_json xs ys \<Longrightarrow> same_json (JArr xs) (JArr ys)"
| same_object: "list_all2 (rel_prod (=) same_json) xs ys \<Longrightarrow> mset ys = mset zs
    \<Longrightarrow> same_json (JObj xs) (JObj zs)"

text \<open>The keys of every object are distinct, as the keys of a Map are.\<close>

primrec distinct_keys :: "json \<Rightarrow> bool" where
  "distinct_keys JNull \<longleftrightarrow> True"
| "distinct_keys (JBool b) \<longleftrightarrow> True"
| "distinct_keys (JNum n) \<longleftrightarrow> True"
| "distinct_keys (JStr s) \<longleftrightarrow> True"
| "distinct_keys (JArr items) \<longleftrightarrow> list_all distinct_keys items"
| "distinct_keys (JObj entries) \<longleftrightarrow>
     distinct (map fst entries) \<and> list_all (\<lambda>(key, ok). ok) (map (map_prod id distinct_keys) entries)"

lemma distinct_keys_object [simp]:
  "distinct_keys (JObj entries) \<longleftrightarrow> distinct (map fst entries) \<and> (\<forall>(k, v)\<in>set entries. distinct_keys v)"
  by (auto simp: list_all_iff)

declare distinct_keys.simps(6) [simp del]

lemma sort_key_fst_cong:
  assumes "mset xs = mset ys" and "distinct (map fst xs)"
  shows "sort_key fst xs = sort_key fst (ys :: (string \<times> 'a) list)"
proof (rule sort_key_inj_key_eq)
  show "mset xs = mset (sort_key fst ys)" using assms(1) by simp
  show "inj_on fst (set xs)" using assms(2) by (simp add: distinct_map)
qed simp

lemma list_all2_entries:
  assumes "list_all2 (rel_prod (=) R) xs ys" and "\<And>k v w. (k, v) \<in> set xs \<Longrightarrow> R v w \<Longrightarrow> f v = g w"
  shows "map (\<lambda>(k, v). (k, f v)) xs = map (\<lambda>(k, w). (k, g w)) ys"
  using assms by (induction rule: list_all2_induct) (auto, metis)

lemma list_all2_items:
  assumes "list_all2 R xs ys" and "\<And>v w. v \<in> set xs \<Longrightarrow> R v w \<Longrightarrow> f v = g w"
  shows "map f xs = map g ys"
  using assms by (induction rule: list_all2_induct) auto

lemma map_eq_list_all2: "map f xs = map g ys \<longleftrightarrow> list_all2 (\<lambda>x y. f x = g y) xs ys"
  by (simp only: list_all2_eq list_all2_map1 list_all2_map2)

lemma canonical_atoms [simp]:
  "JNull = canonicalize_json w \<longleftrightarrow> w = JNull" "JBool b = canonicalize_json w \<longleftrightarrow> w = JBool b"
  "JNum n = canonicalize_json w \<longleftrightarrow> w = JNum n" "JStr s = canonicalize_json w \<longleftrightarrow> w = JStr s"
  by (cases w; auto)+

lemma same_json_canonical:
  assumes "same_json v w" and "distinct_keys v"
  shows "canonicalize_json v = canonicalize_json w"
  using assms
proof (induction rule: same_json.induct)
  case (same_array xs ys)
  then show ?case by (auto intro!: list_all2_items simp: list_all_iff)
next
  case (same_object xs ys zs)
  let ?f = "\<lambda>(k, v). (k, canonicalize_json v)"
  have xs: "map ?f xs = map ?f ys"
    by (rule list_all2_entries [OF same_object.IH]) (use same_object.prems in auto)
  from arg_cong [OF this, of "map fst"] have "map fst xs = map fst ys" by (simp only: map_entries_fst)
  then have ys: "distinct (map fst ys)" using same_object.prems by simp
  have "map ?f (sort_key fst xs) = map ?f (sort_key fst ys)"
    using xs by (simp only: sort_key_map_snd [symmetric])
  then show ?case
    unfolding canonicalize_json.simps sort_key_fst_cong [OF same_object.hyps(1) ys, symmetric]
    by (simp only:)
qed simp

lemma canonical_same_json:
  "canonicalize_json v = canonicalize_json w \<Longrightarrow> same_json v w"
proof (induction v arbitrary: w)
  case (JArr items)
  obtain items' where w: "w = JArr items'" using JArr.prems by (cases w) auto
  with JArr.prems have "list_all2 (\<lambda>x y. canonicalize_json x = canonicalize_json y) items items'"
    by (simp add: map_eq_list_all2)
  then have "list_all2 same_json items items'"
    by (rule list.rel_mono_strong) (use JArr.IH in auto)
  then show ?case unfolding w by (rule same_array)
next
  case (JObj entries)
  obtain entries' where w: "w = JObj entries'" using JObj.prems by (cases w) auto
  let ?f = "\<lambda>(k, v). (k, canonicalize_json v)"
  have "map ?f (sort_key fst entries) = map ?f (sort_key fst entries')"
    using JObj.prems by (simp add: w)
  then have "list_all2 (\<lambda>p q. ?f p = ?f q) (sort_key fst entries) (sort_key fst entries')"
    by (simp add: map_eq_list_all2)
  then have "list_all2 (rel_prod (=) same_json) (sort_key fst entries) (sort_key fst entries')"
    by (rule list.rel_mono_strong) (use JObj.IH in \<open>force simp: rel_prod_conv\<close>)
  then obtain ys where "list_all2 (rel_prod (=) same_json) entries ys" "mset ys = mset (sort_key fst entries')"
    by (rule list_all2_reorder_left_invariance [THEN exE]) auto
  then show ?case unfolding w by (intro same_object [of entries ys]) simp_all
qed (auto intro: same_refl)

subsection \<open>The JSON of an event body\<close>

text \<open>
  What serde_json::to_value writes for the derived encoders: a struct is the object of its fields
  under their names or renames, a newtype is its content, VaultOperation carries the kebab-case
  variant name under the key type, and a skipped field has no entry.
\<close>

abbreviation json_string :: "string \<Rightarrow> string \<Rightarrow> string \<times> json" where
  "json_string key s \<equiv> (key, JStr s)"

definition payload_value :: "encrypted_secret_payload \<Rightarrow> json" where
  "payload_value p = JObj
     [json_string ''id'' (secret_id_str (sp_id p)),
      json_string ''type'' (secret_type_str (sp_secret_type p)),
      json_string ''ciphertext'' (sp_ciphertext p),
      json_string ''identity_fingerprint'' (fingerprint_str (sp_identity_fingerprint p)),
      json_string ''fingerprint'' (fingerprint_str (sp_fingerprint p))]"

definition share_issued_value :: "sentinel_share_issued \<Rightarrow> json" where
  "share_issued_value s = JObj
     [json_string ''device_id'' (app_id_str (si_device_id s)),
      (''version'', JNum (uint (si_version s))),
      (''threshold'', JNum (uint (si_threshold s))),
      (''required_participants'', JNum (uint (si_required_participants s))),
      (''share_index'', JNum (uint (si_share_index s))),
      json_string ''ciphertext'' (si_ciphertext s)]"

definition stored_record_value :: "stored_secret_record \<Rightarrow> json" where
  "stored_record_value r = JObj
     (json_string ''id'' (secret_id_str (sr_key r))
      # (case sr_secret_type r of
           Undeclared \<Rightarrow> []
         | SecretDeclared t \<Rightarrow> [json_string ''type'' (secret_type_str t)])
      @ [json_string ''data'' (sr_value r)])"

fun operation_tag :: "vault_operation \<Rightarrow> string" where
  "operation_tag (VaultImported _ _) = ''vault-imported''"
| "operation_tag (SecretCreated _) = ''secret-created''"
| "operation_tag (SecretDeleted _) = ''secret-deleted''"
| "operation_tag (SecretReplaced _ _) = ''secret-replaced''"
| "operation_tag (SecretConflictResolved _ _ _) = ''secret-conflict-resolved''"
| "operation_tag (JoinRequested _ _ _ _) = ''join-requested''"
| "operation_tag (JoinApproved _ _ _ _ _ _) = ''join-approved''"
| "operation_tag (SentinelParticipantEnrolled _ _ _ _) = ''sentinel-participant-enrolled''"
| "operation_tag (SentinelSharesIssued _) = ''sentinel-shares-issued''"
| "operation_tag (JoinDenied _) = ''join-denied''"
| "operation_tag (MemberRenamed _ _) = ''member-renamed''"
| "operation_tag (DeviceRevoked _) = ''device-revoked''"
| "operation_tag VaultCleared = ''vault-cleared''"
| "operation_tag (VaultNamed _) = ''vault-named''"
| "operation_tag (EpochCheckpoint _ _ _ _) = ''epoch-checkpoint''"

fun operation_fields :: "vault_operation \<Rightarrow> (string \<times> json) list" where
  "operation_fields (VaultImported hash secrets) =
     [json_string ''source_content_hash'' (sha256_hex_str hash),
      (''secrets'', JArr (map payload_value secrets))]"
| "operation_fields (SecretCreated secret) = [(''secret'', payload_value secret)]"
| "operation_fields (SecretDeleted i) = [json_string ''secret_id'' (secret_id_str i)]"
| "operation_fields (SecretReplaced old new_secret) =
     [json_string ''old_id'' (secret_id_str old), (''new_secret'', payload_value new_secret)]"
| "operation_fields (SecretConflictResolved old chosen rejected) =
     [json_string ''old_id'' (secret_id_str old),
      json_string ''chosen_secret_id'' (secret_id_str chosen),
      (''rejected_secret_ids'', JArr (map (\<lambda>i. JStr (secret_id_str i)) rejected))]"
| "operation_fields (JoinRequested device encryption signing label) =
     [json_string ''device_id'' (app_id_str device),
      json_string ''encryption_public_key'' encryption,
      json_string ''signing_public_key'' (signing_key_str signing),
      json_string ''label'' label]"
| "operation_fields (JoinApproved device encryption signing label secrets_key members_key) =
     [json_string ''device_id'' (app_id_str device),
      json_string ''encryption_public_key'' encryption,
      json_string ''signing_public_key'' (signing_key_str signing),
      json_string ''label'' label,
      json_string ''secrets_key_ciphertext'' secrets_key,
      json_string ''members_key_ciphertext'' members_key]"
| "operation_fields (SentinelParticipantEnrolled device encryption signing label) =
     [json_string ''device_id'' (app_id_str device),
      json_string ''encryption_public_key'' encryption,
      json_string ''signing_public_key'' (signing_key_str signing),
      json_string ''label'' label]"
| "operation_fields (SentinelSharesIssued shares) =
     [(''shares'', JArr (map share_issued_value shares))]"
| "operation_fields (JoinDenied device) = [json_string ''device_id'' (app_id_str device)]"
| "operation_fields (MemberRenamed device label) =
     [json_string ''device_id'' (app_id_str device), json_string ''label'' label]"
| "operation_fields (DeviceRevoked device) = [json_string ''device_id'' (app_id_str device)]"
| "operation_fields VaultCleared = []"
| "operation_fields (VaultNamed name) = [json_string ''name'' name]"
| "operation_fields (EpochCheckpoint secrets members_hash meta vault_name) =
     [(''secrets'', JArr (map payload_value secrets)),
      json_string ''members_checkpoint_hash'' (sha256_hex_str members_hash)]
     @ (case meta of
          LegacyRetain \<Rightarrow> []
        | Replace records \<Rightarrow> [(''rotated_meta_records'', JArr (map stored_record_value records))])
     @ (case vault_name of Unnamed \<Rightarrow> [] | Named name \<Rightarrow> [json_string ''vault_name'' name])"

definition operation_value :: "vault_operation \<Rightarrow> json" where
  "operation_value op = JObj (json_string ''type'' (operation_tag op) # operation_fields op)"

definition body_value :: "vault_event_body \<Rightarrow> json" where
  "body_value b = JObj
     [(''schema_version'', JNum (uint (schema_version b))),
      json_string ''store_id'' (store_id_str (store_id b)),
      json_string ''actor_id'' (auth_key_id_str (actor_id b)),
      json_string ''actor_signing_public_key'' (signing_key_str (actor_signing_public_key b)),
      (''parents'', JArr (map (\<lambda>p. JStr (event_id_str p)) (parents b))),
      json_string ''created_at'' (iso_timestamp_str (created_at b)),
      json_string ''key_epoch'' (event_id_str (key_epoch b)),
      (''operations'', JArr (map operation_value (operations b)))]"

definition to_canonical_value :: "vault_event_body \<Rightarrow> json" where
  "to_canonical_value b =
     canonicalize_json (body_value (b\<lparr>parents := sort_key event_id_str (parents b)\<rparr>))"

subsection \<open>The canonical form determines the body\<close>

definition signing_key_wf :: "device_signing_public_key \<Rightarrow> bool" where
  "signing_key_wf k \<longleftrightarrow> k \<noteq> Ed25519Hex []"

lemma signing_key_str_inject:
  "signing_key_wf j \<Longrightarrow> signing_key_wf k \<Longrightarrow> signing_key_str j = signing_key_str k \<longleftrightarrow> j = k"
  by (cases j; cases k) (auto simp: signing_key_wf_def)

fun operation_wf :: "vault_operation \<Rightarrow> bool" where
  "operation_wf (JoinRequested _ _ signing _) = signing_key_wf signing"
| "operation_wf (JoinApproved _ _ signing _ _ _) = signing_key_wf signing"
| "operation_wf (SentinelParticipantEnrolled _ _ signing _) = signing_key_wf signing"
| "operation_wf _ = True"

definition body_wf :: "vault_event_body \<Rightarrow> bool" where
  "body_wf b \<longleftrightarrow> signing_key_wf (actor_signing_public_key b) \<and> list_all operation_wf (operations b)"

lemma newtype_inject [simp]:
  "secret_id_str i = secret_id_str j \<longleftrightarrow> i = j" "app_id_str d = app_id_str e \<longleftrightarrow> d = e"
  "sha256_hex_str h = sha256_hex_str g \<longleftrightarrow> h = g" "fingerprint_str f = fingerprint_str f' \<longleftrightarrow> f = f'"
  "event_id_str p = event_id_str q \<longleftrightarrow> p = q" "store_id_str s = store_id_str t \<longleftrightarrow> s = t"
  "auth_key_id_str k = auth_key_id_str k' \<longleftrightarrow> k = k'"
  "iso_timestamp_str c = iso_timestamp_str c' \<longleftrightarrow> c = c'"
  by (auto intro: secret_id.expand app_id.expand sha256_hex.expand secret_fingerprint.expand
      event_id.expand store_id.expand auth_key_id.expand iso_timestamp.expand)

lemma secret_type_str_inject [simp]: "secret_type_str s = secret_type_str t \<longleftrightarrow> s = t"
  by (cases s; cases t) simp_all

lemma map_canonical_inject:
  assumes "\<And>x y. x \<in> set xs \<Longrightarrow> y \<in> set ys \<Longrightarrow> canonicalize_json (f x) = canonicalize_json (f y) \<longleftrightarrow> x = y"
  shows "map (canonicalize_json \<circ> f) xs = map (canonicalize_json \<circ> f) ys \<longleftrightarrow> xs = ys"
  using assms by (induction xs ys rule: list_induct2') auto

lemma payload_value_inject [simp]:
  "canonicalize_json (payload_value p) = canonicalize_json (payload_value q) \<longleftrightarrow> p = q"
proof
  assume eq: "canonicalize_json (payload_value p) = canonicalize_json (payload_value q)"
  note field = canonical_field [OF eq [unfolded payload_value_def]]
  show "p = q"
    using field [of "''id''"] field [of "''type''"] field [of "''ciphertext''"]
      field [of "''identity_fingerprint''"] field [of "''fingerprint''"]
    by simp
qed simp

lemma share_issued_value_inject [simp]:
  "canonicalize_json (share_issued_value s) = canonicalize_json (share_issued_value t) \<longleftrightarrow> s = t"
proof
  assume eq: "canonicalize_json (share_issued_value s) = canonicalize_json (share_issued_value t)"
  note field = canonical_field [OF eq [unfolded share_issued_value_def]]
  show "s = t"
    using field [of "''device_id''"] field [of "''version''"] field [of "''threshold''"]
      field [of "''required_participants''"] field [of "''share_index''"] field [of "''ciphertext''"]
    by (simp add: word_uint_eq_iff)
qed simp

lemma stored_record_value_inject [simp]:
  "canonicalize_json (stored_record_value r) = canonicalize_json (stored_record_value s) \<longleftrightarrow> r = s"
proof
  assume eq: "canonicalize_json (stored_record_value r) = canonicalize_json (stored_record_value s)"
  note field = canonical_field [OF eq [unfolded stored_record_value_def]]
  have "distinct (map fst (json_string ''id'' i
      # (case t of Undeclared \<Rightarrow> [] | SecretDeclared t \<Rightarrow> [json_string ''type'' (secret_type_str t)])
      @ [json_string ''data'' d]))" for i t d
    by (cases t) simp_all
  note field = field [OF this this]
  show "r = s"
    using field [of "''id''"] field [of "''type''"] field [of "''data''"]
    by (cases "sr_secret_type r"; cases "sr_secret_type s")
      simp_all
qed simp

lemma operation_tag_fields_distinct: "distinct (''type'' # map fst (operation_fields op))"
  by (cases op) (simp_all split: epoch_metadata_state.split epoch_vault_name.split)

lemma list_json_inject:
  "(\<And>x y. canonicalize_json (f x) = canonicalize_json (f y) \<longleftrightarrow> x = y)
    \<Longrightarrow> canonicalize_json (JArr (map f xs)) = canonicalize_json (JArr (map f ys)) \<longleftrightarrow> xs = ys"
  using map_canonical_inject [of xs ys f] by (simp add: comp_def)

lemmas list_values_inject =
  list_json_inject [of payload_value, OF payload_value_inject]
  list_json_inject [of share_issued_value, OF share_issued_value_inject]
  list_json_inject [of stored_record_value, OF stored_record_value_inject]

lemma secret_ids_inject:
  "canonicalize_json (JArr (map (\<lambda>i. JStr (secret_id_str i)) xs))
    = canonicalize_json (JArr (map (\<lambda>i. JStr (secret_id_str i)) ys)) \<longleftrightarrow> xs = ys"
  by (rule list_json_inject) simp

declare canonicalize_json.simps(2) [simp del]

lemma operation_value_inject:
  assumes "operation_wf a" and "operation_wf b"
  shows "canonicalize_json (operation_value a) = canonicalize_json (operation_value b) \<longleftrightarrow> a = b"
proof
  assume eq: "canonicalize_json (operation_value a) = canonicalize_json (operation_value b)"
  have "distinct (map fst (json_string ''type'' (operation_tag op) # operation_fields op))" for op
    using operation_tag_fields_distinct [of op] by simp
  note field = canonical_field [OF eq [unfolded operation_value_def] this this]
  have tag: "operation_tag a = operation_tag b" using field [of "''type''"] by simp
  note wf = assms
  note inject = signing_key_str_inject list_values_inject secret_ids_inject
  show "a = b"
  proof (cases a)
    case VaultImported
    with tag wf field [of "''source_content_hash''"] field [of "''secrets''"]
    show ?thesis by (cases b) (simp_all add: inject)
  next
    case SecretCreated
    with tag wf field [of "''secret''"]
    show ?thesis by (cases b) (simp_all add: inject)
  next
    case SecretDeleted
    with tag wf field [of "''secret_id''"]
    show ?thesis by (cases b) (simp_all add: inject)
  next
    case SecretReplaced
    with tag wf field [of "''old_id''"] field [of "''new_secret''"]
    show ?thesis by (cases b) (simp_all add: inject)
  next
    case SecretConflictResolved
    with tag wf field [of "''old_id''"] field [of "''chosen_secret_id''"] field [of "''rejected_secret_ids''"]
    show ?thesis by (cases b) (simp_all add: inject)
  next
    case JoinRequested
    with tag wf field [of "''device_id''"] field [of "''encryption_public_key''"] field [of "''signing_public_key''"] field [of "''label''"]
    show ?thesis by (cases b) (simp_all add: inject)
  next
    case JoinApproved
    with tag wf field [of "''device_id''"] field [of "''encryption_public_key''"] field [of "''signing_public_key''"] field [of "''label''"] field [of "''secrets_key_ciphertext''"] field [of "''members_key_ciphertext''"]
    show ?thesis by (cases b) (simp_all add: inject)
  next
    case SentinelParticipantEnrolled
    with tag wf field [of "''device_id''"] field [of "''encryption_public_key''"] field [of "''signing_public_key''"] field [of "''label''"]
    show ?thesis by (cases b) (simp_all add: inject)
  next
    case SentinelSharesIssued
    with tag wf field [of "''shares''"]
    show ?thesis by (cases b) (simp_all add: inject)
  next
    case JoinDenied
    with tag wf field [of "''device_id''"]
    show ?thesis by (cases b) (simp_all add: inject)
  next
    case MemberRenamed
    with tag wf field [of "''device_id''"] field [of "''label''"]
    show ?thesis by (cases b) (simp_all add: inject)
  next
    case DeviceRevoked
    with tag wf field [of "''device_id''"]
    show ?thesis by (cases b) (simp_all add: inject)
  next
    case VaultCleared
    with tag wf 
    show ?thesis by (cases b) (simp_all add: inject)
  next
    case VaultNamed
    with tag wf field [of "''name''"]
    show ?thesis by (cases b) (simp_all add: inject)
  next
    case (EpochCheckpoint s h m v)
    moreover obtain s' h' m' v' where "b = EpochCheckpoint s' h' m' v'"
      using tag EpochCheckpoint by (cases b) auto
    ultimately show ?thesis
      using field [of "''secrets''"] field [of "''members_checkpoint_hash''"]
        field [of "''rotated_meta_records''"] field [of "''vault_name''"]
      by (cases m; cases v; cases m'; cases v'; simp add: inject)
  qed
qed simp

lemma body_value_inject:
  assumes "body_wf a" and "body_wf b"
  shows "canonicalize_json (body_value a) = canonicalize_json (body_value b) \<longleftrightarrow> a = b"
proof
  assume eq: "canonicalize_json (body_value a) = canonicalize_json (body_value b)"
  note field = canonical_field [OF eq [unfolded body_value_def]]
  have parents: "canonicalize_json (JArr (map (\<lambda>p. JStr (event_id_str p)) xs))
      = canonicalize_json (JArr (map (\<lambda>p. JStr (event_id_str p)) ys)) \<longleftrightarrow> xs = ys" for xs ys
    by (rule list_json_inject) simp
  have "canonicalize_json (JArr (map operation_value (operations a)))
      = canonicalize_json (JArr (map operation_value (operations b)))"
    using field [of "''operations''"] by simp
  then have "map (canonicalize_json \<circ> operation_value) (operations a)
      = map (canonicalize_json \<circ> operation_value) (operations b)"
    by (simp add: canonicalize_json.simps(2) comp_def)
  then have operations: "operations a = operations b"
    using assms by (subst (asm) map_canonical_inject)
      (auto simp: body_wf_def list_all_iff operation_value_inject)
  have "actor_signing_public_key a = actor_signing_public_key b"
    using field [of "''actor_signing_public_key''"] assms
    by (simp add: body_wf_def signing_key_str_inject)
  then show "a = b"
    using operations field [of "''schema_version''"] field [of "''store_id''"] field [of "''actor_id''"]
      field [of "''parents''"] field [of "''created_at''"] field [of "''key_epoch''"]
    by (simp add: parents word_uint_eq_iff)
qed simp

lemma sort_event_ids: "sort_key event_id_str ps = sort_key event_id_str qs \<longleftrightarrow> mset ps = mset qs"
proof
  assume "sort_key event_id_str ps = sort_key event_id_str qs"
  then show "mset ps = mset qs" by (metis mset_sort)
next
  assume "mset ps = mset qs"
  then show "sort_key event_id_str ps = sort_key event_id_str qs"
    by (intro sort_key_inj_key_eq) (auto simp: inj_on_def)
qed

text \<open>Canonicalization keeps exactly the information of a JSON value: two values with distinct
  object keys have the same canonical form if and only if they differ in the order of object
  entries only, and the canonical form is its own.\<close>

theorem canonical_json_exact:
  assumes "distinct_keys v"
  shows "(canonicalize_json v = canonicalize_json w \<longleftrightarrow> same_json v w)
    \<and> canonicalize_json (canonicalize_json v) = canonicalize_json v"
  using assms same_json_canonical canonical_same_json canonicalize_idem by blast

theorem canonical_json_exact_witness:
  "canonicalize_json (JObj [(''b'', JNum 2), (''a'', JObj [(''d'', JNum 4), (''c'', JNum 3)])])
      = JObj [(''a'', JObj [(''c'', JNum 3), (''d'', JNum 4)]), (''b'', JNum 2)]
   \<and> same_json (JObj [(''b'', JNum 2), (''a'', JNull)]) (JObj [(''a'', JNull), (''b'', JNum 2)])"
proof
  have "canonicalize_json (JObj [(''b'', JNum 2), (''a'', JNull)])
      = canonicalize_json (JObj [(''a'', JNull), (''b'', JNum 2)])" by simp
  then show "same_json (JObj [(''b'', JNum 2), (''a'', JNull)]) (JObj [(''a'', JNull), (''b'', JNum 2)])"
    by (subst conjunct1 [OF canonical_json_exact, symmetric]) simp_all
qed simp

lemma canonical_value_iff:
  assumes "body_wf a" and "body_wf b"
  shows "to_canonical_value a = to_canonical_value b
    \<longleftrightarrow> a\<lparr>parents := []\<rparr> = b\<lparr>parents := []\<rparr> \<and> mset (parents a) = mset (parents b)"
proof -
  have "to_canonical_value a = to_canonical_value b
      \<longleftrightarrow> a\<lparr>parents := sort_key event_id_str (parents a)\<rparr> = b\<lparr>parents := sort_key event_id_str (parents b)\<rparr>"
    unfolding to_canonical_value_def
    by (rule body_value_inject) (use assms in \<open>simp_all add: body_wf_def\<close>)
  also have "\<dots> \<longleftrightarrow> a\<lparr>parents := []\<rparr> = b\<lparr>parents := []\<rparr> \<and> mset (parents a) = mset (parents b)"
    by (cases a; cases b) (auto simp: sort_event_ids)
  finally show ?thesis .
qed

text \<open>The signed bytes cover every field: the canonical values of two bodies are equal if and
  only if the bodies agree on every field but the order of their parents.\<close>

theorem canonical_value_determines_body:
  assumes "body_wf a" and "body_wf b"
  shows "to_canonical_value a = to_canonical_value b
    \<longleftrightarrow> a\<lparr>parents := []\<rparr> = b\<lparr>parents := []\<rparr> \<and> mset (parents a) = mset (parents b)"
  using assms by (rule canonical_value_iff)

definition ex_body :: vault_event_body where
  "ex_body = \<lparr>schema_version = 3, store_id = StoreId ''store_Abcdef_1234'', actor_id = AuthKeyId ''key_a'',
     actor_signing_public_key = Ed25519Hex ''ab'', parents = [EventId ''p'', EventId ''o''],
     created_at = IsoTimestamp ''2026-06-28T00:00:00Z'', key_epoch = EventId ''o'',
     operations = [SecretDeleted (SecretId ''secret_1''), VaultCleared]\<rparr>"

theorem canonical_value_determines_body_witness:
  "to_canonical_value ex_body = to_canonical_value (ex_body\<lparr>parents := [EventId ''o'', EventId ''p'']\<rparr>)
   \<and> to_canonical_value ex_body \<noteq> to_canonical_value (ex_body\<lparr>operations := [VaultCleared]\<rparr>)"
  by (subst canonical_value_determines_body; (subst canonical_value_determines_body)?)
    (simp_all add: ex_body_def body_wf_def signing_key_wf_def)

end
