(* ===== verification/Envelope.thy ===== *)
theory Envelope
  imports EventJson
begin

text \<open>
  The signed envelope of the vault log (nook-event-log/src): event identifiers and signatures
  (canonical.rs), canonical bytes (event_bytes.rs), the signing identity (signing.rs), the
  validation of an event (event.rs) and building events (builder.rs).

  The crates are the fields of the record crates: hex, base64, sha2, ed25519-dalek, the serde_json
  writer and the serde_yaml codec.  crate_laws states the documented behaviour of the codecs and of
  signing that the round-trip properties rely on.
\<close>

definition bytes_of_string :: "string \<Rightarrow> bytes" where
  "bytes_of_string s = map of_char s"

definition string_of_bytes :: "bytes \<Rightarrow> string" where
  "string_of_bytes bs = map (\<lambda>b. char_of (unat b)) bs"

lemma unat_of_char: "unat (of_char c :: u8) = of_char c"
proof -
  have "unat (of_nat (of_char c) :: u8) = of_char c" by (simp add: unat_of_nat)
  then show ?thesis unfolding of_nat_of_char .
qed

lemma string_of_bytes_of_string [simp]: "string_of_bytes (bytes_of_string s) = s"
  by (simp add: string_of_bytes_def bytes_of_string_def comp_def unat_of_char)

record crates =
  hex_encode :: "bytes \<Rightarrow> string"
  hex_decode :: "string \<Rightarrow> (string, bytes) result"
  b64_encode :: "bytes \<Rightarrow> string"
  b64_decode :: "string \<Rightarrow> (string, bytes) result"
  sha256 :: "bytes \<Rightarrow> bytes"
  verifying_key_of :: "bytes \<Rightarrow> bytes"
  verifying_key_from_bytes :: "bytes \<Rightarrow> bytes option"
  ed25519_sign :: "bytes \<Rightarrow> bytes \<Rightarrow> bytes"
  ed25519_verify :: "bytes \<Rightarrow> bytes \<Rightarrow> bytes \<Rightarrow> bool"
  json_to_vec :: "json \<Rightarrow> (string, bytes) result"
  yaml_to_string :: "vault_event \<Rightarrow> (string, string) result"
  yaml_from_str :: "string \<Rightarrow> (string, vault_event) result"

subsection \<open>EventId and canonical bytes\<close>

abbreviation (input) EVENT_ID_PREFIX :: string where "EVENT_ID_PREFIX \<equiv> ''sha256u:''"

definition event_id_parse :: "crates \<Rightarrow> string \<Rightarrow> event_id event_result" where
  "event_id_parse c raw =
     (let trimmed = trim raw in
      case strip_prefix EVENT_ID_PREFIX trimmed of
        None \<Rightarrow> Inl (EventIdMissingPrefix trimmed)
      | Some encoded \<Rightarrow>
          if length encoded \<noteq> 43 then Inl (EventIdInvalidDigest encoded)
          else case b64_decode c encoded of
              Inl _ \<Rightarrow> Inl (EventIdInvalidDigest encoded)
            | Inr bs \<Rightarrow>
                if length bs \<noteq> 32 then Inl (EventIdInvalidDigest encoded)
                else Inr (EventId (EVENT_ID_PREFIX @ encoded)))"

definition event_id_from_sha256_bytes :: "crates \<Rightarrow> bytes \<Rightarrow> event_id" where
  "event_id_from_sha256_bytes c bs = EventId (EVENT_ID_PREFIX @ b64_encode c bs)"

fun hex_decoded :: "(string, 'a) result \<Rightarrow> 'a event_result" where
  "hex_decoded (Inl e) = Inl (SignatureInvalidHex e)"
| "hex_decoded (Inr a) = Inr a"

definition event_id_from_sha256_hex :: "crates \<Rightarrow> string \<Rightarrow> event_id event_result" where
  "event_id_from_sha256_hex c hex_digest =
     and_then (hex_decoded (hex_decode c hex_digest)) (\<lambda>bs.
       if length bs \<noteq> 32 then Inl (EventIdInvalidDigest hex_digest)
       else Inr (event_id_from_sha256_bytes c bs))"

definition event_id_from_body_bytes :: "crates \<Rightarrow> bytes \<Rightarrow> event_id" where
  "event_id_from_body_bytes c body_bytes = event_id_from_sha256_bytes c (sha256 c body_bytes)"

definition encoded_digest :: "event_id \<Rightarrow> string" where
  "encoded_digest i =
     (case strip_prefix EVENT_ID_PREFIX (event_id_str i) of None \<Rightarrow> event_id_str i | Some e \<Rightarrow> e)"

fun json_written :: "(string, bytes) result \<Rightarrow> bytes event_result" where
  "json_written (Inl e) = Inl (JsonSerialize e)"
| "json_written (Inr bs) = Inr bs"

definition canonical_from_json :: "crates \<Rightarrow> json \<Rightarrow> bytes event_result" where
  "canonical_from_json c v = json_written (json_to_vec c (canonicalize_json v))"

definition to_canonical_bytes :: "crates \<Rightarrow> vault_event_body \<Rightarrow> bytes event_result" where
  "to_canonical_bytes c b = canonical_from_json c (to_canonical_value b)"

definition body_event_id :: "crates \<Rightarrow> vault_event_body \<Rightarrow> event_id event_result" where
  "body_event_id c b =
     and_then (to_canonical_bytes c b) (\<lambda>bs. Inr (event_id_from_body_bytes c bs))"

subsection \<open>Ed25519Signature\<close>

abbreviation (input) SIGNATURE_PREFIX :: string where "SIGNATURE_PREFIX \<equiv> ''ed25519:''"

definition signature_bytes :: "crates \<Rightarrow> string \<Rightarrow> bytes event_result" where
  "signature_bytes c s =
     (case strip_prefix SIGNATURE_PREFIX s of
        None \<Rightarrow> Inl (SignatureMissingPrefix s)
      | Some hex \<Rightarrow>
          and_then (hex_decoded (hex_decode c hex)) (\<lambda>bs.
            if length bs \<noteq> 64 then Inl SignatureWrongLength else Inr bs))"

definition signature_parse :: "crates \<Rightarrow> string \<Rightarrow> string event_result" where
  "signature_parse c raw = and_then (signature_bytes c raw) (\<lambda>_. Inr (trim raw))"

definition from_signature :: "crates \<Rightarrow> bytes \<Rightarrow> string" where
  "from_signature c sig_bytes = SIGNATURE_PREFIX @ hex_encode c sig_bytes"

definition signature_sign :: "crates \<Rightarrow> bytes \<Rightarrow> bytes \<Rightarrow> string" where
  "signature_sign c body_bytes signing_key = from_signature c (ed25519_sign c signing_key body_bytes)"

definition signature_verify :: "crates \<Rightarrow> string \<Rightarrow> bytes \<Rightarrow> bytes \<Rightarrow> unit event_result" where
  "signature_verify c s body_bytes verifying_key =
     and_then (signature_bytes c s) (\<lambda>bs.
       if ed25519_verify c verifying_key body_bytes bs then Inr ()
       else Inl SignatureVerificationFailed)"

subsection \<open>SigningIdentity\<close>

datatype signing_identity = SigningIdentity (signing_key: bytes)

definition from_seed_hex :: "crates \<Rightarrow> string \<Rightarrow> (signing_identity \<times> string) event_result" where
  "from_seed_hex c seed_hex =
     and_then (validated (signing_seed_parse seed_hex)) (\<lambda>seed.
     and_then (hex_decoded (hex_decode c seed)) (\<lambda>bs.
       if length bs \<noteq> 32 then Inl SigningSeedWrongLength
       else Inr (SigningIdentity bs, seed)))"

text \<open>The argument is the result of getrandom::fill on the seed buffer.\<close>

definition generate_identity ::
    "crates \<Rightarrow> (string, bytes) result \<Rightarrow> (signing_identity \<times> string) event_result" where
  "generate_identity c filled =
     (case filled of
        Inl e \<Rightarrow> Inl (SigningSeedGeneration e)
      | Inr seed \<Rightarrow> from_seed_hex c (hex_encode c seed))"

definition from_seed_hex_stored :: "crates \<Rightarrow> string \<Rightarrow> signing_identity event_result" where
  "from_seed_hex_stored c seed_hex = and_then (from_seed_hex c seed_hex) (\<lambda>p. Inr (fst p))"

definition verifying_key :: "crates \<Rightarrow> signing_identity \<Rightarrow> bytes" where
  "verifying_key c i = verifying_key_of c (signing_key i)"

definition public_key_hex :: "crates \<Rightarrow> signing_identity \<Rightarrow> string" where
  "public_key_hex c i = hex_encode c (verifying_key c i)"

definition public_key :: "crates \<Rightarrow> signing_identity \<Rightarrow> device_signing_public_key" where
  "public_key c i = signing_key_from_trusted (public_key_hex c i)"

definition actor_id_for_verifying_key :: "crates \<Rightarrow> bytes \<Rightarrow> auth_key_id event_result" where
  "actor_id_for_verifying_key c vk =
     (let digest = hex_encode c (sha256 c vk) in validated (auth_from_digest_hex digest))"

definition verifying_key_from_public_key_hex :: "crates \<Rightarrow> string \<Rightarrow> bytes event_result" where
  "verifying_key_from_public_key_hex c raw =
     and_then (hex_decoded (hex_decode c (trim raw))) (\<lambda>bs.
       if length bs \<noteq> 32 then Inl ActorSigningPublicKeyWrongLength
       else case verifying_key_from_bytes c bs of
           None \<Rightarrow> Inl ActorSigningPublicKeyInvalid
         | Some vk \<Rightarrow> Inr vk)"

definition actor_id_for_public_key_hex :: "crates \<Rightarrow> string \<Rightarrow> auth_key_id event_result" where
  "actor_id_for_public_key_hex c raw =
     and_then (verifying_key_from_public_key_hex c raw) (actor_id_for_verifying_key c)"

definition identity_actor_id :: "crates \<Rightarrow> signing_identity \<Rightarrow> auth_key_id event_result" where
  "identity_actor_id c i = actor_id_for_verifying_key c (verifying_key c i)"

definition sign_bytes :: "crates \<Rightarrow> signing_identity \<Rightarrow> bytes \<Rightarrow> string" where
  "sign_bytes c i body_bytes = signature_sign c body_bytes (signing_key i)"

definition verify_bytes :: "crates \<Rightarrow> bytes \<Rightarrow> string \<Rightarrow> bytes \<Rightarrow> unit event_result" where
  "verify_bytes c body_bytes s vk =
     and_then (signature_parse c s) (\<lambda>parsed. signature_verify c parsed body_bytes vk)"

subsection \<open>Signing and validating an event\<close>

definition event_id_of :: "crates \<Rightarrow> vault_event \<Rightarrow> event_id event_result" where
  "event_id_of c ev = body_event_id c (body ev)"

definition sign_body :: "crates \<Rightarrow> vault_event_body \<Rightarrow> bytes \<Rightarrow> vault_event event_result" where
  "sign_body c b key =
     and_then (to_canonical_bytes c b) (\<lambda>body_bytes.
       Inr \<lparr>body = b, signature = signature_sign c body_bytes key\<rparr>)"

definition verify_signature :: "crates \<Rightarrow> vault_event \<Rightarrow> bytes \<Rightarrow> unit event_result" where
  "verify_signature c ev vk =
     and_then (to_canonical_bytes c (body ev)) (\<lambda>body_bytes.
       signature_verify c (signature ev) body_bytes vk)"

definition validate_actor_signature :: "crates \<Rightarrow> vault_event \<Rightarrow> unit event_result" where
  "validate_actor_signature c ev =
     (let key = actor_signing_public_key (body ev) in
      if signing_key_is_empty key then Inl MissingActorSigningPublicKey
      else
        and_then (verifying_key_from_public_key_hex c (signing_key_str key)) (\<lambda>vk.
        and_then (actor_id_for_verifying_key c vk) (\<lambda>signing_key_actor_id.
          if signing_key_actor_id \<noteq> actor_id (body ev)
          then Inl (ActorSigningKeyMismatch (auth_key_id_str (actor_id (body ev)))
                      (auth_key_id_str signing_key_actor_id))
          else verify_signature c ev vk)))"

fun is_legacy_checkpoint :: "vault_operation \<Rightarrow> bool" where
  "is_legacy_checkpoint (EpochCheckpoint _ _ LegacyRetain _) = True"
| "is_legacy_checkpoint _ = False"

definition validate_envelope :: "crates \<Rightarrow> vault_event \<Rightarrow> store_id \<Rightarrow> event_id event_result" where
  "validate_envelope c ev expected_store_id =
     (if \<not> schema_is_supported (schema_version (body ev))
      then Inl (UnsupportedSchemaVersion (schema_version (body ev)))
      else if store_id (body ev) \<noteq> expected_store_id
      then Inl (EventStoreIdMismatch (store_id_str expected_store_id) (store_id_str (store_id (body ev))))
      else if schema_version (body ev) \<ge> SCHEMA_V3 \<and> list_ex is_legacy_checkpoint (operations (body ev))
      then Inl (MissingEpochCheckpointReplacement ''rotated_meta_records'')
      else if parents (body ev) = [] \<and> \<not> list_ex is_vault_imported (operations (body ev))
      then Inl MissingEventParents
      else
        and_then (traverse (\<lambda>p. event_id_parse c (event_id_str p)) (parents (body ev))) (\<lambda>_.
        and_then (event_id_parse c (event_id_str (key_epoch (body ev)))) (\<lambda>_.
        and_then (validate_actor_signature c ev) (\<lambda>_.
          event_id_of c ev))))"

subsection \<open>Storage\<close>

text \<open>
  str::from_utf8 of the standard library: the position of the first malformed sequence, with its
  length when more bytes follow, and the text that its error displays.
\<close>

definition continuation :: "u8 \<Rightarrow> bool" where
  "continuation b \<longleftrightarrow> 0x80 \<le> b \<and> b \<le> 0xBF"

definition second_byte_ok :: "u8 \<Rightarrow> u8 \<Rightarrow> bool" where
  "second_byte_ok a b \<longleftrightarrow>
     (if a = 0xE0 then 0xA0 \<le> b \<and> b \<le> 0xBF
      else if a = 0xED then 0x80 \<le> b \<and> b \<le> 0x9F
      else if a = 0xF0 then 0x90 \<le> b \<and> b \<le> 0xBF
      else if a = 0xF4 then 0x80 \<le> b \<and> b \<le> 0x8F
      else continuation b)"

definition utf8_width :: "u8 \<Rightarrow> nat" where
  "utf8_width a =
     (if a < 0x80 then 1 else if a < 0xC2 then 0 else if a < 0xE0 then 2
      else if a < 0xF0 then 3 else if a < 0xF5 then 4 else 0)"

fun utf8_tail :: "nat \<Rightarrow> nat \<Rightarrow> bytes \<Rightarrow> (nat option, bytes) result" where
  "utf8_tail done_bytes 0 bs = Inr bs"
| "utf8_tail done_bytes (Suc n) [] = Inl None"
| "utf8_tail done_bytes (Suc n) (b # bs) =
     (if continuation b then utf8_tail (Suc done_bytes) n bs else Inl (Some done_bytes))"

fun utf8_sequence :: "u8 \<Rightarrow> bytes \<Rightarrow> (nat option, bytes) result" where
  "utf8_sequence a bs =
     (let w = utf8_width a in
      if w = 0 then Inl (Some 1)
      else if w = 1 then Inr bs
      else case bs of
          [] \<Rightarrow> Inl None
        | b # rest \<Rightarrow> if second_byte_ok a b then utf8_tail 2 (w - 2) rest else Inl (Some 1))"

lemma utf8_tail_length: "utf8_tail k n bs = Inr rest \<Longrightarrow> length rest \<le> length bs"
  by (induction k n bs rule: utf8_tail.induct) (auto split: if_splits)

lemma utf8_sequence_length: "utf8_sequence a bs = Inr rest \<Longrightarrow> length rest \<le> length bs"
  by (auto simp: Let_def split: if_splits list.splits dest: utf8_tail_length)

declare utf8_sequence.simps [simp del]

function utf8_error :: "nat \<Rightarrow> bytes \<Rightarrow> (nat \<times> nat option) option" where
  "utf8_error valid_up_to [] = None"
| "utf8_error valid_up_to (a # bs) =
     (case utf8_sequence a bs of
        Inl error_len \<Rightarrow> Some (valid_up_to, error_len)
      | Inr rest \<Rightarrow> utf8_error (valid_up_to + (1 + length bs - length rest)) rest)"
  by pat_completeness auto
termination
  by (relation "measure (\<lambda>(_, bs). length bs)") (auto dest: utf8_sequence_length)

fun digits :: "nat \<Rightarrow> string" where
  "digits n = (if n < 10 then [char_of (48 + n)] else digits (n div 10) @ [char_of (48 + n mod 10)])"

fun utf8_message :: "nat \<times> nat option \<Rightarrow> string" where
  "utf8_message (valid_up_to, Some error_len) =
     ''invalid utf-8 sequence of '' @ digits error_len @ '' bytes from index '' @ digits valid_up_to"
| "utf8_message (valid_up_to, None) =
     ''incomplete utf-8 byte sequence from index '' @ digits valid_up_to"

definition serialize_event_storage_yaml :: "crates \<Rightarrow> vault_event \<Rightarrow> bytes event_result" where
  "serialize_event_storage_yaml c ev =
     (case yaml_to_string c ev of
        Inl e \<Rightarrow> Inl (EventSerialize e)
      | Inr yaml \<Rightarrow>
          Inr (bytes_of_string (if yaml \<noteq> [] \<and> last yaml = CHR 0x0A then yaml else yaml @ [CHR 0x0A])))"

definition parse_event_storage_bytes :: "crates \<Rightarrow> bytes \<Rightarrow> vault_event event_result" where
  "parse_event_storage_bytes c bs =
     (case utf8_error 0 bs of
        Some e \<Rightarrow> Inl (ParseStoredEvent (''event storage bytes are not UTF-8: '' @ utf8_message e))
      | None \<Rightarrow>
          (case yaml_from_str c (string_of_bytes bs) of
             Inl e \<Rightarrow> Inl (ParseStoredEvent (''YAML parse failed: '' @ e))
           | Inr ev \<Rightarrow> Inr ev))"

definition parse_remote_event_storage_bytes :: "crates \<Rightarrow> bytes \<Rightarrow> vault_event event_result" where
  "parse_remote_event_storage_bytes c bs =
     (case parse_event_storage_bytes c bs of
        Inl (ParseStoredEvent message) \<Rightarrow> Inl (ParseRemoteEvent message)
      | other \<Rightarrow> other)"

subsection \<open>Building events\<close>

record genesis_import_request =
  gr_store_id :: store_id
  gr_actor_id :: auth_key_id
  gr_key_epoch :: event_id
  gr_source_content_hash :: sha256_hex
  gr_secrets :: "encrypted_secret_payload list"
  gr_created_at :: iso_timestamp
  gr_signing_key :: bytes

definition build_genesis_import_event :: "crates \<Rightarrow> genesis_import_request \<Rightarrow> vault_event event_result" where
  "build_genesis_import_event c request =
     (let vk = verifying_key_of c (gr_signing_key request) in
      and_then (actor_id_for_verifying_key c vk) (\<lambda>signing_actor_id.
        if signing_actor_id \<noteq> gr_actor_id request
        then Inl (ActorSigningKeyMismatch (auth_key_id_str (gr_actor_id request))
                    (auth_key_id_str signing_actor_id))
        else sign_body c
          \<lparr>schema_version = SCHEMA_CURRENT, store_id = gr_store_id request, actor_id = gr_actor_id request,
           actor_signing_public_key = signing_key_from_trusted (hex_encode c vk), parents = [],
           created_at = gr_created_at request, key_epoch = gr_key_epoch request,
           operations = [VaultImported (gr_source_content_hash request) (gr_secrets request)]\<rparr>
          (gr_signing_key request)))"

record append_event_input =
  ai_store_id :: store_id
  ai_actor_id :: auth_key_id
  ai_signing_identity :: signing_identity
  ai_parents :: "event_id list"
  ai_key_epoch :: event_id
  ai_created_at :: iso_timestamp
  ai_operations :: "vault_operation list"

definition build_event :: "crates \<Rightarrow> append_event_input \<Rightarrow> (vault_event \<times> bytes) event_result" where
  "build_event c input =
     and_then (identity_actor_id c (ai_signing_identity input)) (\<lambda>signing_actor_id.
       if signing_actor_id \<noteq> ai_actor_id input
       then Inl (ActorSigningKeyMismatch (auth_key_id_str (ai_actor_id input))
                   (auth_key_id_str signing_actor_id))
       else
         let b = \<lparr>schema_version = SCHEMA_CURRENT, store_id = ai_store_id input,
                  actor_id = ai_actor_id input,
                  actor_signing_public_key = public_key c (ai_signing_identity input),
                  parents = sort_dedup (ai_parents input),
                  created_at = ai_created_at input, key_epoch = ai_key_epoch input,
                  operations = ai_operations input\<rparr>
         in and_then (sign_body c b (signing_key (ai_signing_identity input))) (\<lambda>ev.
            and_then (serialize_event_storage_yaml c ev) (\<lambda>bs. Inr (ev, bs))))"

definition heads_from_event_ids :: "event_id list \<Rightarrow> event_id list" where
  "heads_from_event_ids heads = sort_dedup heads"

definition observed_heads_parse :: "crates \<Rightarrow> string list \<Rightarrow> event_id list event_result" where
  "observed_heads_parse c raw =
     and_then (traverse (event_id_parse c) raw) (\<lambda>ids. Inr (heads_from_event_ids ids))"

end
