(* ===== verification/EventGraph.thy ===== *)
theory EventGraph
  imports Envelope CausalUnion
begin

text \<open>
  The validated event graph (nook-event-log/src/graph.rs, graph/authorization.rs,
  graph/authorization/membership.rs, graph/roster.rs): events by id beside their causal index,
  insertion with the quarantine of unauthorized events, the actors authorized by an event's causal
  past, and the roster of devices.
\<close>

subsection \<open>State\<close>

datatype event_pending_reason = MissingParents "event_id list"

datatype event_insert_status =
  EventApplied
| EventPending event_pending_reason
| EventQuarantined string
| EventDuplicate

record event_graph =
  eg_events :: "(event_id, vault_event) fmap"
  eg_causal :: "event_id causal_graph"

record event_graph_insert =
  gi_event :: vault_event
  gi_expected_store_id :: string

datatype vault_architecture = Simple | Sentinel

datatype graph_evidence =
  EvidenceUnavailable
| GenesisOnly vault_event
| Established vault_event

datatype event_lookup_result = UnknownEvent | Recorded vault_event

definition new_event_graph :: event_graph where
  "new_event_graph = \<lparr>eg_events = fmempty, eg_causal = new_graph\<rparr>"

definition event_graph_len :: "event_graph \<Rightarrow> nat" where
  "event_graph_len g = graph_len (eg_causal g)"

definition event_graph_is_empty :: "event_graph \<Rightarrow> bool" where
  "event_graph_is_empty g = graph_is_empty (eg_causal g)"

definition event_graph_contains :: "event_graph \<Rightarrow> event_id \<Rightarrow> bool" where
  "event_graph_contains g i = contains (eg_causal g) i"

definition event_lookup :: "event_graph \<Rightarrow> event_id \<Rightarrow> event_lookup_result" where
  "event_lookup g i = (case fmlookup (eg_events g) i of Some ev \<Rightarrow> Recorded ev | None \<Rightarrow> UnknownEvent)"

definition quarantined :: "event_graph \<Rightarrow> (event_id, string) fmap" where
  "quarantined g = cg_quarantined (eg_causal g)"

definition applicable_events :: "event_graph \<Rightarrow> vault_event list" where
  "applicable_events g = List.map_filter (fmlookup (eg_events g)) (applicable_ids (eg_causal g))"

definition pending_events :: "event_graph \<Rightarrow> (event_id \<times> vault_event) list" where
  "pending_events g =
     List.map_filter (\<lambda>i. map_option (Pair i) (fmlookup (eg_events g) i)) (pending_ids (eg_causal g))"

definition event_heads :: "event_graph \<Rightarrow> event_id list" where
  "event_heads g = heads (eg_causal g)"

definition event_is_ancestor :: "event_graph \<Rightarrow> event_id \<Rightarrow> event_id \<Rightarrow> bool" where
  "event_is_ancestor g ancestor descendant = is_ancestor (eg_causal g) ancestor descendant"

definition events_are_concurrent :: "event_graph \<Rightarrow> event_id \<Rightarrow> event_id \<Rightarrow> bool" where
  "events_are_concurrent g left right = are_concurrent (eg_causal g) left right"

definition classify_vault_architecture :: "event_graph \<Rightarrow> vault_architecture" where
  "classify_vault_architecture g =
     (if list_ex (\<lambda>(_, ev). list_ex is_sentinel_architecture_evidence (operations (body ev)))
           (sorted_list_of_fmap (eg_events g))
      then Sentinel else Simple)"

definition replacement_evidence :: "event_graph \<Rightarrow> graph_evidence" where
  "replacement_evidence g =
     (if event_graph_is_empty g \<or> pending_events g \<noteq> [] \<or> quarantined g \<noteq> fmempty then EvidenceUnavailable
      else case filter (\<lambda>ev. parents (body ev) = []) (map snd (sorted_list_of_fmap (eg_events g))) of
          [] \<Rightarrow> EvidenceUnavailable
        | root # others \<Rightarrow>
            if others \<noteq> [] then EvidenceUnavailable
            else if event_graph_len g = 1 then GenesisOnly root else Established root)"

subsection \<open>Membership self-enrollment\<close>

definition operation_is_self_signed ::
    "crates \<Rightarrow> vault_event \<Rightarrow> device_signing_public_key \<Rightarrow> bool event_result" where
  "operation_is_self_signed c ev key =
     (if signing_key_is_empty key then Inr False
      else if actor_signing_public_key (body ev) \<noteq> key then Inr False
      else and_then (actor_id_for_public_key_hex c (signing_key_str key)) (\<lambda>request_actor.
             Inr (request_actor = actor_id (body ev))))"

text \<open>The loop over the operations: the pair records whether a request and an approval were seen;
  None is an early return of false.\<close>

fun self_signed_loop ::
    "crates \<Rightarrow> vault_event \<Rightarrow> bool \<times> bool \<Rightarrow> vault_operation list \<Rightarrow> (bool \<times> bool) option event_result"
where
  "self_signed_loop c ev seen [] = Inr (Some seen)"
| "self_signed_loop c ev (requested, approved) (op # ops) =
     (case op of
        JoinRequested _ _ key _ \<Rightarrow>
          and_then (operation_is_self_signed c ev key) (\<lambda>ok.
            if \<not> ok then Inr None else self_signed_loop c ev (True, approved) ops)
      | JoinApproved _ _ key _ _ _ \<Rightarrow>
          and_then (operation_is_self_signed c ev key) (\<lambda>ok.
            if \<not> ok then Inr None else self_signed_loop c ev (requested, True) ops)
      | _ \<Rightarrow> Inr None)"

text \<open>A worklist over recorded events: an unvisited recorded id leaves fewer unvisited ones, an
  unrecorded one only shortens the stack.\<close>

lemma unvisited_recorded:
  "i |\<notin>| v \<Longrightarrow> fmlookup events i = Some ev \<Longrightarrow> fcard (fmdom events |-| finsert i v) < fcard (fmdom events |-| v)"
  by (intro pfsubset_fcard_mono) (auto dest: fmdomI)

lemma unvisited_unrecorded:
  "fmlookup events i = None \<Longrightarrow> fmdom events |-| finsert i v = fmdom events |-| v"
  by (auto dest: fmdom_notD fmdom_notI)

function evidence_loop :: "(event_id, vault_event) fmap \<Rightarrow> event_id fset \<Rightarrow> event_id list \<Rightarrow> bool" where
  "evidence_loop events visited [] = False"
| "evidence_loop events visited (i # stack) =
     (if i |\<in>| visited then evidence_loop events visited stack
      else case fmlookup events i of
          None \<Rightarrow> evidence_loop events (finsert i visited) stack
        | Some parent \<Rightarrow>
            if list_ex is_sentinel_architecture_evidence (operations (body parent)) then True
            else evidence_loop events (finsert i visited) (rev (parents (body parent)) @ stack))"
  by pat_completeness auto
termination
  by (relation "measures [\<lambda>(events, v, s). fcard (fmdom events |-| v), \<lambda>(events, v, s). length s]")
    (auto simp: unvisited_recorded unvisited_unrecorded)

definition ancestry_has_sentinel_architecture_evidence :: "event_graph \<Rightarrow> vault_event \<Rightarrow> bool" where
  "ancestry_has_sentinel_architecture_evidence g ev =
     evidence_loop (eg_events g) {||} (rev (parents (body ev)))"

definition is_self_signed_membership_event :: "crates \<Rightarrow> event_graph \<Rightarrow> vault_event \<Rightarrow> bool event_result" where
  "is_self_signed_membership_event c g ev =
     (if operations (body ev) = [] then Inr False
      else and_then (self_signed_loop c ev (False, False) (operations (body ev))) (\<lambda>seen.
        case seen of
          None \<Rightarrow> Inr False
        | Some (requested, approved) \<Rightarrow>
            if approved \<and> ancestry_has_sentinel_architecture_evidence g ev then Inr False
            else Inr (requested \<or> approved)))"

subsection \<open>Actors authorized by the causal past\<close>

record authorization =
  az_authorized :: "auth_key_id fset"
  az_actor_by_device :: "(device_id, auth_key_id) fmap"
  az_revoked :: "device_id fset"

definition no_authorization :: authorization where
  "no_authorization = \<lparr>az_authorized = {||}, az_actor_by_device = fmempty, az_revoked = {||}\<rparr>"

definition approve_actor ::
    "crates \<Rightarrow> authorization \<Rightarrow> device_id \<Rightarrow> device_signing_public_key \<Rightarrow> authorization event_result" where
  "approve_actor c az device key =
     (if signing_key_is_empty key then Inr az
      else and_then (actor_id_for_public_key_hex c (signing_key_str key)) (\<lambda>actor.
        Inr (az\<lparr>az_actor_by_device := fmupd device actor (az_actor_by_device az),
                az_authorized := finsert actor (az_authorized az)\<rparr>)))"

fun authorize_operation :: "crates \<Rightarrow> authorization \<Rightarrow> vault_operation \<Rightarrow> authorization event_result" where
  "authorize_operation c az (JoinApproved device _ key _ _ _) = approve_actor c az device key"
| "authorize_operation c az (SentinelParticipantEnrolled device _ key _) = approve_actor c az device key"
| "authorize_operation c az (DeviceRevoked device) = Inr (az\<lparr>az_revoked := finsert device (az_revoked az)\<rparr>)"
| "authorize_operation c az _ = Inr az"

definition authorize_event :: "crates \<Rightarrow> authorization \<Rightarrow> vault_event \<Rightarrow> authorization event_result" where
  "authorize_event c az ev =
     fold_result (authorize_operation c)
       (if parents (body ev) = [] \<and> list_ex is_vault_imported (operations (body ev))
        then az\<lparr>az_authorized := finsert (actor_id (body ev)) (az_authorized az)\<rparr> else az)
       (operations (body ev))"

function authorized_loop ::
    "crates \<Rightarrow> (event_id, vault_event) fmap \<Rightarrow> event_id fset \<Rightarrow> event_id list \<Rightarrow> authorization
      \<Rightarrow> authorization event_result"
where
  "authorized_loop c events visited [] az = Inr az"
| "authorized_loop c events visited (i # stack) az =
     (if i |\<in>| visited then authorized_loop c events visited stack az
      else case fmlookup events i of
          None \<Rightarrow> authorized_loop c events (finsert i visited) stack az
        | Some parent \<Rightarrow>
            and_then (authorize_event c az parent) (\<lambda>az'.
              authorized_loop c events (finsert i visited) (rev (parents (body parent)) @ stack) az'))"
  by pat_completeness auto
termination
  by (relation "measures [\<lambda>(c, events, v, s, az). fcard (fmdom events |-| v), \<lambda>(c, events, v, s, az). length s]")
    (auto simp: unvisited_recorded unvisited_unrecorded)

text \<open>Every revoked device loses the actor it is mapped to.\<close>

definition remove_revoked :: "authorization \<Rightarrow> auth_key_id fset" where
  "remove_revoked az =
     foldl (\<lambda>authorized device.
         case fmlookup (az_actor_by_device az) device of
           Some actor \<Rightarrow> authorized |-| {|actor|}
         | None \<Rightarrow> authorized)
       (az_authorized az) (elems (az_revoked az))"

definition authorized_actors_before :: "crates \<Rightarrow> event_graph \<Rightarrow> vault_event \<Rightarrow> auth_key_id fset event_result" where
  "authorized_actors_before c g ev =
     and_then (authorized_loop c (eg_events g) {||} (rev (parents (body ev))) no_authorization)
       (\<lambda>az. Inr (remove_revoked az))"

definition validate_event_actor_authorized :: "crates \<Rightarrow> event_graph \<Rightarrow> vault_event \<Rightarrow> unit event_result" where
  "validate_event_actor_authorized c g ev =
     (if parents (body ev) = [] then Inr ()
      else and_then (is_self_signed_membership_event c g ev) (\<lambda>self_signed.
        if self_signed then Inr ()
        else and_then (authorized_actors_before c g ev) (\<lambda>authorized.
          if actor_id (body ev) |\<in>| authorized then Inr ()
          else Inl (UnauthorizedActor (auth_key_id_str (actor_id (body ev)))))))"

subsection \<open>Quarantine of rejected events\<close>

definition validate_epoch_checkpoint_structure :: "event_graph \<Rightarrow> vault_event \<Rightarrow> unit event_result" where
  "validate_epoch_checkpoint_structure g ev =
     and_then (epoch_checkpoint_requirement (body ev)) (\<lambda>requirement.
       case requirement of
         NotRequired \<Rightarrow> Inr ()
       | SecurityRotationParent parent_id \<Rightarrow>
           (case fmlookup (eg_events g) parent_id of
              None \<Rightarrow> Inl (MissingEvent (event_id_str parent_id))
            | Some parent \<Rightarrow>
                (case security_rotation_trigger (body parent) of
                   TriggerOther \<Rightarrow> Inl (InvalidEpochCheckpointStructure
                     ''checkpoint parent must be one security rotation trigger'')
                 | TriggerDeviceRevoked \<Rightarrow> Inr ())))"

datatype quarantine_decision = Retain | Quarantine string

definition classify_event_actor_quarantine ::
    "crates \<Rightarrow> event_graph \<Rightarrow> vault_event \<Rightarrow> quarantine_decision event_result" where
  "classify_event_actor_quarantine c g ev =
     (case validate_event_actor_authorized c g ev of
        Inr () \<Rightarrow> Inr Retain
      | Inl (UnauthorizedActor actor) \<Rightarrow>
          Inr (Quarantine (''Event actor '' @ actor @ '' was not authorized in causal history''))
      | Inl cause \<Rightarrow> Inl cause)"

definition classify_event_quarantine :: "crates \<Rightarrow> event_graph \<Rightarrow> event_id \<Rightarrow> quarantine_decision event_result" where
  "classify_event_quarantine c g i =
     (if i |\<in>| fmdom (quarantined g) then Inr Retain
      else case fmlookup (eg_events g) i of
          None \<Rightarrow> Inl (MissingEvent (event_id_str i))
        | Some ev \<Rightarrow>
            if \<not> ancestor_ids_present (eg_causal g) (parents (body ev)) then Inr Retain
            else if list_ex (\<lambda>p. p |\<in>| fmdom (quarantined g)) (parents (body ev))
            then Inr (Quarantine ''Ancestor event was rejected'')
            else case validate_epoch_checkpoint_structure g ev of
                Inl (InvalidEpochCheckpointStructure reason) \<Rightarrow>
                  Inr (Quarantine (''Invalid security epoch checkpoint: '' @ reason))
              | _ \<Rightarrow> classify_event_actor_quarantine c g ev)"

text \<open>One pass over the ids of a snapshot: the flag records a change, an error carries the graph
  as it is.\<close>

fun quarantine_pass ::
    "crates \<Rightarrow> event_graph \<Rightarrow> bool \<Rightarrow> event_id list
      \<Rightarrow> (event_graph \<times> event_error, event_graph \<times> bool) result"
where
  "quarantine_pass c g changed [] = Inr (g, changed)"
| "quarantine_pass c g changed (i # is) =
     (case classify_event_quarantine c g i of
        Inr Retain \<Rightarrow> quarantine_pass c g changed is
      | Inr (Quarantine reason) \<Rightarrow>
          quarantine_pass c
            (g\<lparr>eg_causal := quarantine_event (eg_causal g) \<lparr>quar_id = i, quar_reason = reason\<rparr>\<rparr>) True is
      | Inl cause \<Rightarrow> Inl (g, cause))"

lemma quarantine_event_fields [simp]:
  "cg_parents (quarantine_event g r) = cg_parents g"
  "fmdom (cg_quarantine_roots (quarantine_event g r)) = finsert (quar_id r) (fmdom (cg_quarantine_roots g))"
  by (simp_all add: quarantine_event_def)

lemma quarantine_event_roots:
  "fmdom (cg_quarantine_roots (quarantine_event g r)) |\<subseteq>| fmdom (cg_quarantined (quarantine_event g r))"
proof
  fix i assume "i |\<in>| fmdom (cg_quarantine_roots (quarantine_event g r))"
  then show "i |\<in>| fmdom (cg_quarantined (quarantine_event g r))"
    unfolding quarantine_event_def recompute_quarantine_dom by auto
qed

abbreviation reject_roots :: "event_graph \<Rightarrow> event_id fset" where
  "reject_roots g \<equiv> fmdom (cg_quarantine_roots (eg_causal g))"

definition unrejected :: "event_graph \<Rightarrow> nat" where
  "unrejected g = fcard (fmdom (eg_events g) |-| reject_roots g)"

lemma classify_Quarantine:
  "classify_event_quarantine c g i = Inr (Quarantine reason) \<Longrightarrow>
    i |\<in>| fmdom (eg_events g) \<and> i |\<notin>| fmdom (quarantined g)"
  by (auto simp: classify_event_quarantine_def split: if_splits option.splits intro: fmdomI)

text \<open>A pass either changes nothing or rejects recorded events that were not rejected before.\<close>

lemma quarantine_pass_step:
  assumes "quarantine_pass c g changed is = Inr (g', changed')"
  shows "eg_events g' = eg_events g \<and> cg_parents (eg_causal g') = cg_parents (eg_causal g)
    \<and> (g' = g \<and> changed' = changed
       \<or> changed' \<and> reject_roots g' |\<subseteq>| fmdom (quarantined g')
         \<and> (reject_roots g |\<subseteq>| fmdom (quarantined g) \<longrightarrow> unrejected g' < unrejected g))"
  using assms
proof (induction c g changed "is" rule: quarantine_pass.induct)
  case (2 c g changed i "is")
  show ?case
  proof (cases "classify_event_quarantine c g i")
    case (Inr d)
    show ?thesis
    proof (cases d)
      case Retain
      then show ?thesis using 2 Inr by simp
    next
      case (Quarantine reason)
      let ?g = "g\<lparr>eg_causal := quarantine_event (eg_causal g) \<lparr>quar_id = i, quar_reason = reason\<rparr>\<rparr>"
      have pass: "quarantine_pass c ?g True is = Inr (g', changed')" using 2(3) Inr Quarantine by simp
      note IH = 2(2) [OF Inr Quarantine pass]
      have roots: "reject_roots ?g |\<subseteq>| fmdom (quarantined ?g)"
        using quarantine_event_roots [of "eg_causal g" "\<lparr>quar_id = i, quar_reason = reason\<rparr>"]
        by (simp add: quarantined_def)
      have "unrejected ?g < unrejected g" if sub: "reject_roots g |\<subseteq>| fmdom (quarantined g)"
      proof -
        have "i |\<in>| fmdom (eg_events g)" "i |\<notin>| reject_roots g"
          using classify_Quarantine Inr Quarantine sub by auto
        then show ?thesis unfolding unrejected_def by (intro pfsubset_fcard_mono) auto
      qed
      then show ?thesis using IH roots by auto
    qed
  qed (use 2 in simp)
qed simp

function quarantine_rejected ::
    "crates \<Rightarrow> event_graph \<Rightarrow> (event_graph \<times> event_error, event_graph) result"
where
  "quarantine_rejected c g =
     (case quarantine_pass c g False (keys_of (eg_events g)) of
        Inl rejection \<Rightarrow> Inl rejection
      | Inr (g', changed) \<Rightarrow> if changed then quarantine_rejected c g' else Inr g')"
  by pat_completeness auto
termination
proof (relation "measures [\<lambda>(c, g). if reject_roots g |\<subseteq>| fmdom (quarantined g) then 0 else 1,
    \<lambda>(c, g). unrejected g]", goal_cases)
  case (2 c g p g' changed)
  then have "quarantine_pass c g False (keys_of (eg_events g)) = Inr (g', True)" by simp
  from quarantine_pass_step [OF this] show ?case by auto
qed simp

declare quarantine_rejected.simps [simp del]

subsection \<open>Insertion\<close>

datatype event_graph_admission = AdmitDuplicate | AdmitConflict event_id | AdmitInsert event_id

definition event_admission :: "crates \<Rightarrow> event_graph \<Rightarrow> event_graph_insert \<Rightarrow> event_graph_admission event_result" where
  "event_admission c g request =
     (let ev = gi_event request in
      and_then (validated (store_id_parse (gi_expected_store_id request))) (\<lambda>st.
      and_then (validate_envelope c ev st) (\<lambda>i.
        case fmlookup (eg_events g) i of
          Some existing \<Rightarrow>
            and_then (to_canonical_bytes c (body existing)) (\<lambda>old_bytes.
            and_then (to_canonical_bytes c (body ev)) (\<lambda>new_bytes.
              if old_bytes = new_bytes then Inr AdmitDuplicate else Inr (AdmitConflict i)))
        | None \<Rightarrow> Inr (AdmitInsert i))))"

definition event_status :: "event_graph \<Rightarrow> event_id \<Rightarrow> event_id causal_insert_status \<Rightarrow> event_insert_status" where
  "event_status g i inserted =
     (case fmlookup (quarantined g) i of
        Some reason \<Rightarrow> EventQuarantined reason
      | None \<Rightarrow>
          (case inserted of
             CausalApplied \<Rightarrow> EventApplied
           | CausalPending missing \<Rightarrow> EventPending (MissingParents missing)
           | CausalQuarantined reason \<Rightarrow> EventQuarantined reason
           | CausalDuplicate \<Rightarrow> EventDuplicate
           | CausalConflict \<Rightarrow> EventQuarantined ''Conflicting causal parent sets for the same event id''))"

definition insert_vault_event ::
    "crates \<Rightarrow> event_graph \<Rightarrow> event_graph_insert
      \<Rightarrow> (event_graph \<times> event_error, event_graph \<times> event_insert_status) result"
where
  "insert_vault_event c g request =
     (let ev = gi_event request in
      case event_admission c g request of
        Inl cause \<Rightarrow> Inl (g, cause)
      | Inr AdmitDuplicate \<Rightarrow> Inr (g, EventDuplicate)
      | Inr (AdmitConflict i) \<Rightarrow>
          Inr (g\<lparr>eg_causal := quarantine_event (eg_causal g)
                 \<lparr>quar_id = i, quar_reason = ''Same event id with different canonical bytes''\<rparr>\<rparr>,
               EventQuarantined ''hash mismatch at event path'')
      | Inr (AdmitInsert i) \<Rightarrow>
          let inserted = insert_event (eg_causal g) \<lparr>ins_id = i, ins_parents = parents (body ev)\<rparr>
          in and_then (quarantine_rejected c
                (g\<lparr>eg_events := fmupd i ev (eg_events g), eg_causal := ci_graph inserted\<rparr>)) (\<lambda>g'.
             Inr (g', event_status g' i (ci_status inserted))))"

subsection \<open>Ordering, union\<close>

definition validate_authorizations :: "crates \<Rightarrow> event_graph \<Rightarrow> unit event_result" where
  "validate_authorizations c g =
     (let applicable = applicable_events g in
      if length (filter (\<lambda>ev. parents (body ev) = []) applicable) > 1 then Inl MultipleGenesisRoots
      else fold_result (\<lambda>_ ev.
             and_then (validate_epoch_checkpoint_structure g ev) (\<lambda>_.
               validate_event_actor_authorized c g ev)) () applicable)"

definition event_topological_order :: "crates \<Rightarrow> event_graph \<Rightarrow> event_id list event_result" where
  "event_topological_order c g =
     and_then (validate_authorizations c g) (\<lambda>_.
       case topological_order (eg_causal g) of
         Inl CausalCycle \<Rightarrow> Inl GraphCycle
       | Inl CausalTopologicalSortStalled \<Rightarrow> Inl TopologicalSortStalled
       | Inr ids \<Rightarrow> Inr ids)"

definition event_union :: "event_graph \<Rightarrow> event_graph \<Rightarrow> event_graph" where
  "event_union self other =
     (let merged = foldl (\<lambda>events (i, ev). if i |\<in>| fmdom events then events else fmupd i ev events)
            (eg_events self) (sorted_list_of_fmap (eg_events other))
      in self\<lparr>eg_events := merged, eg_causal := union_graph (eg_causal self) (eg_causal other)\<rparr>)"

subsection \<open>Roster\<close>

record vault_roster_member =
  rm_device_id :: device_id
  rm_encryption_public_key :: string
  rm_signing_public_key :: device_signing_public_key
  rm_label :: string

record vault_authorized_roster =
  vr_members :: "vault_roster_member list"
  vr_revoked :: "device_id list"

record roster_scan =
  rs_approvals :: "(event_id \<times> vault_roster_member) list"
  rs_revocations :: "(event_id \<times> device_id) list"
  rs_labels :: "(device_id, string) fmap"

fun roster_operation :: "event_id \<Rightarrow> roster_scan \<Rightarrow> vault_operation \<Rightarrow> roster_scan" where
  "roster_operation i s (JoinApproved device encryption signing label _ _) =
     (if signing_key_is_empty signing then s
      else s\<lparr>rs_approvals := rs_approvals s @
        [(i, \<lparr>rm_device_id = device, rm_encryption_public_key = encryption,
              rm_signing_public_key = signing, rm_label = label\<rparr>)]\<rparr>)"
| "roster_operation i s (DeviceRevoked device) = s\<lparr>rs_revocations := rs_revocations s @ [(i, device)]\<rparr>"
| "roster_operation i s (MemberRenamed device label) = s\<lparr>rs_labels := fmupd device label (rs_labels s)\<rparr>"
| "roster_operation i s _ = s"

definition roster_event :: "event_graph \<Rightarrow> roster_scan \<Rightarrow> event_id \<Rightarrow> roster_scan" where
  "roster_event g s i =
     (case fmlookup (eg_events g) i of
        None \<Rightarrow> s
      | Some ev \<Rightarrow> foldl (roster_operation i) s (operations (body ev)))"

definition roster_members :: "event_graph \<Rightarrow> roster_scan \<Rightarrow> (device_id, vault_roster_member) fmap" where
  "roster_members g s =
     foldl (\<lambda>members (approval, member).
         if list_all (\<lambda>(revocation, _). event_is_ancestor g revocation approval)
              (filter (\<lambda>(_, revoked). revoked = rm_device_id member) (rs_revocations s))
         then fmupd (rm_device_id member) member members else members)
       fmempty (rs_approvals s)"

definition rename_members ::
    "(device_id, vault_roster_member) fmap \<Rightarrow> (device_id \<times> string) list \<Rightarrow> (device_id, vault_roster_member) fmap" where
  "rename_members members labels =
     foldl (\<lambda>m (device, label).
         case fmlookup m device of
           Some member \<Rightarrow> fmupd device (member\<lparr>rm_label := label\<rparr>) m
         | None \<Rightarrow> m)
       members labels"

definition authorized_roster :: "crates \<Rightarrow> event_graph \<Rightarrow> vault_authorized_roster event_result" where
  "authorized_roster c g =
     and_then (event_topological_order c g) (\<lambda>ids.
       let s = foldl (roster_event g)
             \<lparr>rs_approvals = [], rs_revocations = [], rs_labels = fmempty\<rparr> ids;
           members = rename_members (roster_members g s) (sorted_list_of_fmap (rs_labels s));
           revoked = sort_dedup (filter (\<lambda>d. d |\<notin>| fmdom members) (map snd (rs_revocations s)))
       in Inr \<lparr>vr_members = map snd (sorted_list_of_fmap members), vr_revoked = revoked\<rparr>)"

end
