(* ===== verification/EnvelopeLaws.thy ===== *)
theory EnvelopeLaws
  imports Envelope "HOL-Library.Countable"
begin

text \<open>
  What a validated envelope proves about its author, what a built event satisfies, and what an
  event identifier binds.  The laws of the crates are hypotheses; ex_crates satisfies them with
  positional encodings in base 16 and base 64.
\<close>

subsection \<open>The laws of the crates\<close>

definition crate_laws :: "crates \<Rightarrow> bool" where
  "crate_laws c \<longleftrightarrow>
     (\<forall>bs. hex_decode c (hex_encode c bs) = Inr bs \<and> length (hex_encode c bs) = 2 * length bs
        \<and> list_all is_ascii_hexdigit (hex_encode c bs))
   \<and> (\<forall>bs. length bs = 32 \<longrightarrow> length (b64_encode c bs) = 43 \<and> list_all plain_char (b64_encode c bs)
        \<and> b64_decode c (b64_encode c bs) = Inr bs)
   \<and> (\<forall>bs. length (sha256 c bs) = 32)
   \<and> (\<forall>k. length (verifying_key_of c k) = 32
        \<and> verifying_key_from_bytes c (verifying_key_of c k) = Some (verifying_key_of c k))
   \<and> (\<forall>k m. length (ed25519_sign c k m) = 64
        \<and> ed25519_verify c (verifying_key_of c k) m (ed25519_sign c k m))"

lemma crate_lawsD:
  assumes "crate_laws c"
  shows "hex_decode c (hex_encode c bs) = Inr bs" and "length (hex_encode c bs) = 2 * length bs"
    and "list_all is_ascii_hexdigit (hex_encode c bs)"
    and "length bs = 32 \<Longrightarrow> length (b64_encode c bs) = 43"
    and "length bs = 32 \<Longrightarrow> list_all plain_char (b64_encode c bs)"
    and "length bs = 32 \<Longrightarrow> b64_decode c (b64_encode c bs) = Inr bs"
    and "length (sha256 c bs) = 32"
    and "length (verifying_key_of c k) = 32"
    and "verifying_key_from_bytes c (verifying_key_of c k) = Some (verifying_key_of c k)"
    and "length (ed25519_sign c k m) = 64"
    and "ed25519_verify c (verifying_key_of c k) m (ed25519_sign c k m)"
  using assms by (simp_all add: crate_laws_def)

text \<open>An identifier computed from a digest parses to itself.\<close>

lemma event_id_from_digest_parses:
  assumes "crate_laws c" and "length bs = 32"
  shows "event_id_parse c (event_id_str (event_id_from_sha256_bytes c bs))
    = Inr (event_id_from_sha256_bytes c bs)"
proof -
  note laws = crate_lawsD(4,5,6) [OF assms]
  have "list_all plain_char EVENT_ID_PREFIX" by code_simp
  then have "list_all plain_char (EVENT_ID_PREFIX @ b64_encode c bs)" using laws(2) by simp
  then have "trim (EVENT_ID_PREFIX @ b64_encode c bs) = EVENT_ID_PREFIX @ b64_encode c bs"
    by (rule trim_plain)
  then show ?thesis
    by (simp only: event_id_parse_def event_id_from_sha256_bytes_def event_id.sel Let_def
        strip_prefix_append option.case laws assms(2) sum.case simp_thms if_False)
qed

lemma body_event_id_parses:
  assumes "crate_laws c" and "body_event_id c b = Inr i"
  shows "event_id_parse c (event_id_str i) = Inr i"
  using assms event_id_from_digest_parses [OF assms(1) crate_lawsD(7) [OF assms(1)]]
  by (auto simp: body_event_id_def and_then_Inr_iff event_id_from_body_bytes_def)

lemma hex_trim: "crate_laws c \<Longrightarrow> trim (hex_encode c bs) = hex_encode c bs"
  using crate_lawsD(3) [of c bs] by (intro trim_plain) (auto simp: list_all_iff hexdigit_plain)

text \<open>The actor id of a verifying key is its digest.\<close>

lemma actor_id_of_key:
  assumes "crate_laws c"
  shows "actor_id_for_verifying_key c vk = Inr (AuthKeyId (AUTH_KEY_ID_PREFIX @ hex_encode c (sha256 c vk)))"
  using crate_lawsD(2,3) [OF assms, of "sha256 c vk"] crate_lawsD(7) [OF assms, of vk]
  by (simp add: actor_id_for_verifying_key_def auth_from_digest_hex_def auth_is_digest_def)

lemma key_from_public_hex:
  assumes "crate_laws c"
  shows "verifying_key_from_public_key_hex c (hex_encode c (verifying_key_of c k)) = Inr (verifying_key_of c k)"
  using crate_lawsD(1,8,9) [OF assms] hex_trim [OF assms]
  by (simp add: verifying_key_from_public_key_hex_def)

lemma signature_verifies:
  assumes "crate_laws c"
  shows "signature_verify c (signature_sign c bs k) bs (verifying_key_of c k) = Inr ()"
  using crate_lawsD(1,10,11) [OF assms]
  by (simp add: signature_verify_def signature_sign_def from_signature_def signature_bytes_def
      strip_prefix_append del: append.simps)

text \<open>A body signed with its own key passes the actor check.\<close>

lemma signed_body_actor:
  assumes laws: "crate_laws c" and ev: "sign_body c b k = Inr ev"
    and key: "actor_signing_public_key b = signing_key_from_trusted (hex_encode c (verifying_key_of c k))"
    and actor: "actor_id_for_verifying_key c (verifying_key_of c k) = Inr (actor_id b)"
  shows "body ev = b" and "validate_actor_signature c ev = Inr ()"
proof -
  obtain bs where bs: "to_canonical_bytes c b = Inr bs"
    and e: "ev = \<lparr>body = b, signature = signature_sign c bs k\<rparr>"
    using ev by (auto simp: sign_body_def and_then_Inr_iff)
  show "body ev = b" by (simp add: e)
  have "hex_encode c (verifying_key_of c k) \<noteq> []"
    using crate_lawsD(2,8) [OF laws] by (metis length_0_conv mult_eq_0_iff zero_neq_numeral)
  then have "actor_signing_public_key b = Ed25519Hex (hex_encode c (verifying_key_of c k))"
    by (simp add: key signing_key_from_trusted_def)
  then show "validate_actor_signature c ev = Inr ()"
    using key_from_public_hex [OF laws] actor signature_verifies [OF laws]
    by (simp add: validate_actor_signature_def e signing_key_is_empty_def verify_signature_def bs)
qed

subsection \<open>Instances of the crates\<close>

text \<open>Numerals of k digits to a base, least significant first.\<close>

primrec to_base :: "nat \<Rightarrow> nat \<Rightarrow> nat \<Rightarrow> nat list" where
  "to_base b 0 n = []"
| "to_base b (Suc k) n = n mod b # to_base b k (n div b)"

primrec from_base :: "nat \<Rightarrow> nat list \<Rightarrow> nat" where
  "from_base b [] = 0"
| "from_base b (d # ds) = d + b * from_base b ds"

lemma length_to_base [simp]: "length (to_base b k n) = k"
  by (induction k arbitrary: n) auto

lemma to_base_below: "0 < b \<Longrightarrow> d \<in> set (to_base b k n) \<Longrightarrow> d < b"
  by (induction k arbitrary: n) auto

lemma from_to_base: "n < b ^ k \<Longrightarrow> from_base b (to_base b k n) = n"
proof (induction k arbitrary: n)
  case (Suc k)
  then have "n div b < b ^ k" by (simp add: less_mult_imp_div_less mult.commute)
  then show ?case using Suc.IH by simp
qed simp

lemma to_from_base: "\<forall>d\<in>set ds. d < b \<Longrightarrow> to_base b (length ds) (from_base b ds) = ds"
  by (induction ds) auto

lemma from_base_below: "\<forall>d\<in>set ds. d < b \<Longrightarrow> from_base b ds < b ^ length ds"
proof (induction ds)
  case (Cons d ds)
  then have "Suc (from_base b ds) * b \<le> b ^ length ds * b" by (intro mult_le_mono1) simp
  then show ?case using Cons.prems by (simp add: mult.commute)
qed simp

definition ex_value :: "bytes \<Rightarrow> nat" where
  "ex_value bs = from_base 256 (map unat bs)"

definition ex_bytes :: "nat \<Rightarrow> nat \<Rightarrow> bytes" where
  "ex_bytes k n = map of_nat (to_base 256 k n)"

lemma unat_byte: "unat (w :: u8) < 256"
  using unsigned_less [of w, where ?'a = nat] by simp

lemma ex_bytes_value: "ex_bytes (length bs) (ex_value bs) = bs"
proof -
  have "\<forall>d\<in>set (map unat bs). d < 256" using unat_byte by auto
  from to_from_base [OF this] show ?thesis by (simp add: ex_bytes_def ex_value_def comp_def)
qed

lemma ex_value_below: "ex_value bs < 256 ^ length bs"
  using from_base_below [of "map unat bs" 256] unat_byte by (simp add: ex_value_def)

definition ex_hex_digit :: "nat \<Rightarrow> char" where
  "ex_hex_digit d = char_of (if d < 10 then 48 + d else 87 + d)"

definition ex_hex_value :: "char \<Rightarrow> nat" where
  "ex_hex_value ch = (let n = of_char ch in if n < 58 then n - 48 else n - 87)"

lemma ex_hex_digits:
  assumes "d < 16"
  shows "ex_hex_value (ex_hex_digit d) = d" and "is_ascii_hexdigit (ex_hex_digit d)"
proof -
  have "of_char (ex_hex_digit d) = (if d < 10 then 48 + d else 87 + d)"
    using assms by (simp add: ex_hex_digit_def)
  then show "ex_hex_value (ex_hex_digit d) = d" "is_ascii_hexdigit (ex_hex_digit d)"
    using assms by (auto simp: ex_hex_value_def is_ascii_hexdigit_def is_ascii_digit_def Let_def)
qed

definition ex_hex_encode :: "bytes \<Rightarrow> string" where
  "ex_hex_encode bs = map ex_hex_digit (to_base 16 (2 * length bs) (ex_value bs))"

definition ex_hex_decode :: "string \<Rightarrow> (string, bytes) result" where
  "ex_hex_decode s =
     (if even (length s) \<and> list_all is_ascii_hexdigit s
      then Inr (ex_bytes (length s div 2) (from_base 16 (map ex_hex_value s)))
      else Inl ''invalid hex'')"

lemma ex_hex:
  "ex_hex_decode (ex_hex_encode bs) = Inr bs" "length (ex_hex_encode bs) = 2 * length bs"
  "list_all is_ascii_hexdigit (ex_hex_encode bs)"
proof -
  have digit: "d < 16" if "d \<in> set (to_base 16 (2 * length bs) (ex_value bs))" for d
    using to_base_below [OF _ that] by simp
  then show all: "list_all is_ascii_hexdigit (ex_hex_encode bs)"
    by (auto simp: ex_hex_encode_def list_all_iff ex_hex_digits)
  show len: "length (ex_hex_encode bs) = 2 * length bs" by (simp add: ex_hex_encode_def)
  have "map ex_hex_value (ex_hex_encode bs) = to_base 16 (2 * length bs) (ex_value bs)"
    using digit by (auto simp: ex_hex_encode_def comp_def ex_hex_digits intro!: map_idI)
  moreover have "ex_value bs < 16 ^ (2 * length bs)" using ex_value_below [of bs] by (simp add: power_mult)
  ultimately have "from_base 16 (map ex_hex_value (ex_hex_encode bs)) = ex_value bs"
    by (simp add: from_to_base)
  then show "ex_hex_decode (ex_hex_encode bs) = Inr bs"
    using all len by (simp add: ex_hex_decode_def ex_bytes_value)
qed

definition ex_b64_encode :: "bytes \<Rightarrow> string" where
  "ex_b64_encode bs = map (\<lambda>d. char_of (d + 48)) (to_base 64 43 (ex_value bs))"

definition ex_b64_decode :: "string \<Rightarrow> (string, bytes) result" where
  "ex_b64_decode s = Inr (ex_bytes 32 (from_base 64 (map (\<lambda>ch. of_char ch - 48) s)))"

lemma ex_b64:
  assumes "length bs = 32"
  shows "length (ex_b64_encode bs) = 43" "list_all plain_char (ex_b64_encode bs)"
    "ex_b64_decode (ex_b64_encode bs) = Inr bs"
proof -
  have digit: "d < 64" if "d \<in> set (to_base 64 43 (ex_value bs))" for d
    using to_base_below [OF _ that] by simp
  then show "length (ex_b64_encode bs) = 43" "list_all plain_char (ex_b64_encode bs)"
    by (auto simp: ex_b64_encode_def list_all_iff plain_char_def dest!: digit)
  have "map (\<lambda>ch. of_char ch - 48) (ex_b64_encode bs) = to_base 64 43 (ex_value bs)"
    using digit by (force simp: ex_b64_encode_def comp_def intro!: map_idI)
  moreover have "ex_value bs < 64 ^ 43"
    using ex_value_below [of bs] by (simp add: assms)
  ultimately show "ex_b64_decode (ex_b64_encode bs) = Inr bs"
    using ex_bytes_value [of bs] by (simp add: ex_b64_decode_def from_to_base assms)
qed

instance json :: countable
  by countable_datatype

definition ex_crates :: crates where
  "ex_crates = \<lparr>hex_encode = ex_hex_encode, hex_decode = ex_hex_decode,
     b64_encode = ex_b64_encode, b64_decode = ex_b64_decode, sha256 = (\<lambda>bs. replicate 32 (hd (bs @ [0]))),
     verifying_key_of = (\<lambda>k. replicate 32 (of_nat (length k))), verifying_key_from_bytes = Some,
     ed25519_sign = (\<lambda>k m. replicate 64 (of_nat (length m))),
     ed25519_verify = (\<lambda>vk m s. s = replicate 64 (of_nat (length m))),
     json_to_vec = (\<lambda>v. Inr (replicate (to_nat v) 0)),
     yaml_to_string = (\<lambda>_. Inr ''event''), yaml_from_str = (\<lambda>_. Inl ''no event'')\<rparr>"

lemma ex_crates_laws: "crate_laws ex_crates"
  by (simp add: crate_laws_def ex_crates_def ex_hex ex_b64)

text \<open>The identifiers of the bytes 0 to 255, in the order of small bytes.\<close>

definition ex_id :: "nat \<Rightarrow> event_id" where
  "ex_id n = event_id_from_sha256_bytes ex_crates (replicate 32 (of_nat n))"

lemma ex_id_inject: "m < 256 \<Longrightarrow> n < 256 \<Longrightarrow> ex_id m = ex_id n \<longleftrightarrow> m = n"
proof
  assume small: "m < 256" "n < 256" and "ex_id m = ex_id n"
  then have "b64_encode ex_crates (replicate 32 (of_nat m)) = b64_encode ex_crates (replicate 32 (of_nat n))"
    by (simp add: ex_id_def event_id_from_sha256_bytes_def)
  then have "(Inr (replicate 32 (of_nat m)) :: (string, bytes) result) = Inr (replicate 32 (of_nat n))"
    using crate_lawsD(6) [OF ex_crates_laws] by (metis length_replicate)
  then have "(of_nat m :: u8) = of_nat n" by (simp add: numeral_eq_Suc)
  then have "unat (of_nat m :: u8) = unat (of_nat n :: u8)" by simp
  then show "m = n" using small by (simp add: unat_of_nat)
qed simp

lemma ex_id_less: "m < n \<Longrightarrow> n < 64 \<Longrightarrow> ex_id m < ex_id n"
proof -
  assume less: "m < n" "n < 64"
  have head: "\<exists>rest. b64_encode ex_crates (replicate 32 (of_nat k)) = char_of (k + 48) # rest" if "k < 64" for k
  proof -
    obtain x where x: "from_base 256 (replicate 31 k) = x" by blast
    have "unat (of_nat k :: u8) = k" using that by (simp add: unat_of_nat)
    moreover have "replicate 32 (of_nat k :: u8) = of_nat k # replicate 31 (of_nat k)" by (simp add: numeral_eq_Suc)
    ultimately have "ex_value (replicate 32 (of_nat k)) = k + 64 * (4 * x)"
      by (simp add: ex_value_def x del: replicate.simps)
    then have "ex_value (replicate 32 (of_nat k)) mod 64 = k" using that by (simp only: mod_mult_self2 mod_less)
    moreover have "to_base 64 43 v = v mod 64 # to_base 64 42 (v div 64)" for v
      using to_base.simps(2) [of 64 42 v] by simp
    ultimately show ?thesis by (simp add: ex_crates_def ex_b64_encode_def)
  qed
  obtain r1 r2 where "b64_encode ex_crates (replicate 32 (of_nat m)) = char_of (m + 48) # r1"
    and "b64_encode ex_crates (replicate 32 (of_nat n)) = char_of (n + 48) # r2"
    using head [of m] head [of n] less by auto
  moreover have "(char_of (m + 48) :: char) < char_of (n + 48)" using less by (simp add: less_char_def)
  ultimately show "ex_id m < ex_id n"
    by (simp add: ex_id_def event_id_from_sha256_bytes_def less_event_id_def)
qed

text \<open>The JSON writer distinguishes values.\<close>

definition json_injective :: "crates \<Rightarrow> bool" where
  "json_injective c \<longleftrightarrow> (\<forall>v w bs. json_to_vec c v = Inr bs \<longrightarrow> json_to_vec c w = Inr bs \<longrightarrow> v = w)"

lemma ex_json_injective: "json_injective ex_crates"
  by (auto simp: json_injective_def ex_crates_def replicate_eq_replicate)

subsection \<open>Properties\<close>

lemma signature_bytesE:
  assumes "signature_bytes c s = Inr sig"
  obtains hex where "s = ''ed25519:'' @ hex" "hex_decode c hex = Inr sig" "length sig = 64"
  using assms unfolding signature_bytes_def
  by (auto simp: strip_prefix_Some and_then_Inr_iff split: option.splits if_splits elim!: hex_decoded.elims)

lemma validate_actor_signatureE:
  assumes "validate_actor_signature c ev = Inr ()"
  obtains raw vk bs sig hex
  where "hex_decode c (trim (signing_key_str (actor_signing_public_key (body ev)))) = Inr raw"
    and "length raw = 32" and "verifying_key_from_bytes c raw = Some vk"
    and "actor_id (body ev) = AuthKeyId (''key_'' @ hex_encode c (sha256 c vk))"
    and "to_canonical_bytes c (body ev) = Inr bs"
    and "signature ev = ''ed25519:'' @ hex" and "hex_decode c hex = Inr sig" and "length sig = 64"
    and "ed25519_verify c vk bs sig"
proof -
  obtain vk a where vk: "verifying_key_from_public_key_hex c (signing_key_str (actor_signing_public_key (body ev))) = Inr vk"
    and a: "actor_id_for_verifying_key c vk = Inr a" "a = actor_id (body ev)"
    and sig: "verify_signature c ev vk = Inr ()"
    using assms by (auto simp: validate_actor_signature_def Let_def and_then_Inr_iff split: if_splits)
  obtain raw where "hex_decode c (trim (signing_key_str (actor_signing_public_key (body ev)))) = Inr raw"
    "length raw = 32" "verifying_key_from_bytes c raw = Some vk"
    using vk by (auto simp: verifying_key_from_public_key_hex_def and_then_Inr_iff
        split: if_splits option.splits elim!: hex_decoded.elims)
  moreover have "actor_id (body ev) = AuthKeyId (''key_'' @ hex_encode c (sha256 c vk))"
    using a by (auto simp: actor_id_for_verifying_key_def auth_from_digest_hex_def Let_def
        split: if_splits elim!: validated.elims)
  moreover obtain bs where "to_canonical_bytes c (body ev) = Inr bs"
    and v: "signature_verify c (signature ev) bs vk = Inr ()"
    using sig by (auto simp: verify_signature_def and_then_Inr_iff)
  moreover obtain s where s: "signature_bytes c (signature ev) = Inr s" "ed25519_verify c vk bs s"
    using v by (auto simp: signature_verify_def and_then_Inr_iff split: if_splits)
  moreover obtain hex where "signature ev = ''ed25519:'' @ hex" "hex_decode c hex = Inr s" "length s = 64"
    using s(1) by (rule signature_bytesE)
  ultimately show ?thesis using that by blast
qed

text \<open>C4: a validated envelope is authentic: it names the expected vault in a supported schema, its
  signature verifies over its canonical bytes under the public key it carries, its actor id is the
  digest of that key, its id is the digest of the same bytes, only an import has no parents, and
  a current checkpoint replaces the metadata records.\<close>

theorem validated_envelope_is_authentic:
  assumes "validate_envelope c ev st = Inr i"
  shows "store_id (body ev) = st \<and> schema_version (body ev) \<in> {2, 3}
    \<and> (\<exists>raw vk bs hex sig.
         hex_decode c (trim (signing_key_str (actor_signing_public_key (body ev)))) = Inr raw
       \<and> verifying_key_from_bytes c raw = Some vk
       \<and> actor_id (body ev) = AuthKeyId (''key_'' @ hex_encode c (sha256 c vk))
       \<and> to_canonical_bytes c (body ev) = Inr bs
       \<and> signature ev = ''ed25519:'' @ hex \<and> hex_decode c hex = Inr sig \<and> length sig = 64
       \<and> ed25519_verify c vk bs sig
       \<and> i = EventId (''sha256u:'' @ b64_encode c (sha256 c bs)))
    \<and> (parents (body ev) = [] \<longrightarrow> list_ex is_vault_imported (operations (body ev)))
    \<and> (schema_version (body ev) = 3 \<longrightarrow> \<not> list_ex is_legacy_checkpoint (operations (body ev)))"
proof -
  have checks: "schema_is_supported (schema_version (body ev))" "store_id (body ev) = st"
    "\<not> (schema_version (body ev) \<ge> 3 \<and> list_ex is_legacy_checkpoint (operations (body ev)))"
    "\<not> (parents (body ev) = [] \<and> \<not> list_ex is_vault_imported (operations (body ev)))"
    "validate_actor_signature c ev = Inr ()" "event_id_of c ev = Inr i"
    using assms by (auto simp: validate_envelope_def and_then_Inr_iff split: if_splits)
  from checks(5) obtain raw vk bs sig hex where key:
    "hex_decode c (trim (signing_key_str (actor_signing_public_key (body ev)))) = Inr raw"
    "verifying_key_from_bytes c raw = Some vk"
    "actor_id (body ev) = AuthKeyId (''key_'' @ hex_encode c (sha256 c vk))"
    "to_canonical_bytes c (body ev) = Inr bs"
    "signature ev = ''ed25519:'' @ hex" "hex_decode c hex = Inr sig" "length sig = 64"
    "ed25519_verify c vk bs sig"
    by (rule validate_actor_signatureE)
  have "i = EventId (''sha256u:'' @ b64_encode c (sha256 c bs))"
    using checks(6) key(4) by (simp add: event_id_of_def body_event_id_def event_id_from_body_bytes_def
        event_id_from_sha256_bytes_def)
  moreover have "schema_version (body ev) \<in> {2, 3}"
    using checks(1) by (auto simp: schema_is_supported_def word_le_nat_alt unat_arith_simps word_unat_eq_iff)
  ultimately show ?thesis using checks(2,3,4) key by auto
qed

lemma traverse_ok_iff: "(\<exists>ys. traverse f xs = Inr ys) \<longleftrightarrow> (\<forall>x\<in>set xs. \<exists>y. f x = Inr y)"
  by (induction xs) (auto simp: and_then_Inr_iff)

text \<open>The structural conditions that validation puts on the input of a built event.\<close>

definition input_valid :: "crates \<Rightarrow> append_event_input \<Rightarrow> bool" where
  "input_valid c input \<longleftrightarrow>
     (\<forall>p\<in>set (ai_parents input). \<exists>i. event_id_parse c (event_id_str p) = Inr i)
   \<and> (\<exists>i. event_id_parse c (event_id_str (ai_key_epoch input)) = Inr i)
   \<and> (ai_parents input = [] \<longrightarrow> list_ex is_vault_imported (ai_operations input))
   \<and> \<not> list_ex is_legacy_checkpoint (ai_operations input)"

lemma build_eventE:
  assumes "build_event c input = Inr (ev, bs)"
  obtains b where "sign_body c b (signing_key (ai_signing_identity input)) = Inr ev"
    and "identity_actor_id c (ai_signing_identity input) = Inr (ai_actor_id input)"
    and "b = \<lparr>schema_version = 3, store_id = ai_store_id input,
                  actor_id = ai_actor_id input,
                  actor_signing_public_key = public_key c (ai_signing_identity input),
                  parents = sort_dedup (ai_parents input),
                  created_at = ai_created_at input, key_epoch = ai_key_epoch input,
                  operations = ai_operations input\<rparr>"
  using assms unfolding build_event_def Let_def by (auto simp: and_then_Inr_iff split: if_splits)

lemma sort_dedup_Nil [simp]: "sort_dedup xs = [] \<longleftrightarrow> xs = []"
  by (metis set_empty sort_dedup_set)

lemma validate_built_event:
  assumes laws: "crate_laws c" and "build_event c input = Inr (ev, bs)"
  shows "validate_envelope c ev (ai_store_id input) = Inr i
    \<longleftrightarrow> input_valid c input \<and> body_event_id c (body ev) = Inr i"
proof -
  obtain b where sign: "sign_body c b (signing_key (ai_signing_identity input)) = Inr ev"
    and actor: "identity_actor_id c (ai_signing_identity input) = Inr (ai_actor_id input)"
    and b: "b = \<lparr>schema_version = 3, store_id = ai_store_id input, actor_id = ai_actor_id input,
       actor_signing_public_key = public_key c (ai_signing_identity input),
       parents = sort_dedup (ai_parents input), created_at = ai_created_at input,
       key_epoch = ai_key_epoch input, operations = ai_operations input\<rparr>"
    using assms(2) by (rule build_eventE)
  have "validate_actor_signature c ev = Inr ()" and ev: "body ev = b"
    using signed_body_actor [OF laws sign] actor
    by (simp_all add: b public_key_def public_key_hex_def verifying_key_def identity_actor_id_def)
  moreover have "schema_is_supported 3" by (simp add: schema_is_supported_def)
  ultimately show ?thesis
    using traverse_ok_iff [of "\<lambda>p. event_id_parse c (event_id_str p)" "sort_dedup (ai_parents input)"]
    by (auto simp: validate_envelope_def and_then_Inr_iff event_id_of_def b input_valid_def)
qed

lemma built_event_id:
  assumes "build_event c input = Inr (ev, bs)"
  shows "\<exists>i. body_event_id c (body ev) = Inr i"
  using assms by (rule build_eventE) (auto simp: sign_body_def body_event_id_def and_then_Inr_iff)

text \<open>Build and validate agree: an event built from an input validates for its own vault exactly
  when the input is structurally valid, with the id of its body, which parses to itself; the
  parents are signed in order and without repetition.\<close>

theorem built_event_validates:
  assumes "crate_laws c" and "build_event c input = Inr (ev, bs)"
  shows "\<exists>i. body_event_id c (body ev) = Inr i \<and> event_id_parse c (event_id_str i) = Inr i
    \<and> (validate_envelope c ev (ai_store_id input) = Inr i \<longleftrightarrow> input_valid c input)
    \<and> sorted (parents (body ev)) \<and> distinct (parents (body ev))
    \<and> set (parents (body ev)) = set (ai_parents input)"
proof -
  obtain b where sign: "sign_body c b (signing_key (ai_signing_identity input)) = Inr ev"
    and b: "parents b = sort_dedup (ai_parents input)"
    using assms(2) by (rule build_eventE) simp
  then have ev: "body ev = b" and "\<exists>i. body_event_id c b = Inr i"
    by (auto simp: sign_body_def body_event_id_def and_then_Inr_iff)
  then obtain i where i: "body_event_id c b = Inr i" by blast
  then show ?thesis
    using validate_built_event [OF assms, of i] body_event_id_parses [OF assms(1) i] by (simp add: ev b)
qed

definition ex_identity :: signing_identity where
  "ex_identity = SigningIdentity [1]"

definition ex_actor :: auth_key_id where
  "ex_actor = AuthKeyId (''key_'' @ ex_hex_encode (replicate 32 1))"

definition ex_secret :: encrypted_secret_payload where
  "ex_secret = \<lparr>sp_id = SecretId ''secret_aaaaaaaaaaa'', sp_secret_type = ApiKey, sp_ciphertext = ''cipher'',
     sp_identity_fingerprint = SecretFingerprint ''identity'', sp_fingerprint = SecretFingerprint ''version''\<rparr>"

definition ex_input :: append_event_input where
  "ex_input = \<lparr>ai_store_id = StoreId ''store_Abcdef_1234'', ai_actor_id = ex_actor,
     ai_signing_identity = ex_identity, ai_parents = [], ai_key_epoch = EventId (''sha256u:'' @ replicate 43 (CHR ''a'')),
     ai_created_at = IsoTimestamp ''2026-06-28T00:00:00Z'',
     ai_operations = [VaultImported (Sha256Hex ''00'') [], VaultCleared, SecretCreated ex_secret]\<rparr>"

lemma ex_input_actor: "identity_actor_id ex_crates (ai_signing_identity ex_input) = Inr (ai_actor_id ex_input)"
  using actor_id_of_key [OF ex_crates_laws, of "replicate 32 1"]
  by (simp add: identity_actor_id_def verifying_key_def ex_input_def ex_identity_def ex_actor_def ex_crates_def)

lemma ex_event_built: "\<exists>ev bs. build_event ex_crates ex_input = Inr (ev, bs)"
  using ex_input_actor
  by (auto simp: build_event_def Let_def sign_body_def to_canonical_bytes_def canonical_from_json_def
      and_then_Inr_iff serialize_event_storage_yaml_def ex_crates_def)

lemma ex_epoch_parses: "event_id_parse ex_crates (''sha256u:'' @ replicate 43 (CHR ''a'')) = Inr (EventId (''sha256u:'' @ replicate 43 (CHR ''a'')))"
proof -
  have "list_all plain_char (''sha256u:'' @ replicate 43 (CHR ''a''))" by code_simp
  then show ?thesis
    by (simp only: event_id_parse_def trim_plain Let_def strip_prefix_append option.case length_replicate simp_thms if_False)
      (simp add: ex_crates_def ex_b64_decode_def ex_bytes_def)
qed

lemma ex_input_valid: "input_valid ex_crates ex_input"
  using ex_epoch_parses by (auto simp: input_valid_def ex_input_def)

theorem built_event_validates_witness:
  "\<exists>ev bs i. build_event ex_crates ex_input = Inr (ev, bs)
     \<and> validate_envelope ex_crates ev (ai_store_id ex_input) = Inr i"
proof -
  obtain ev bs where ev: "build_event ex_crates ex_input = Inr (ev, bs)" using ex_event_built by blast
  from built_event_validates [OF ex_crates_laws this] show ?thesis using ev ex_input_valid by blast
qed

theorem validated_envelope_is_authentic_witness:
  "\<exists>ev i. validate_envelope ex_crates ev (StoreId ''store_Abcdef_1234'') = Inr i
     \<and> (\<exists>bs. to_canonical_bytes ex_crates (body ev) = Inr bs
          \<and> i = EventId (''sha256u:'' @ b64_encode ex_crates (sha256 ex_crates bs)))"
proof -
  obtain ev bs where built: "build_event ex_crates ex_input = Inr (ev, bs)" using ex_event_built by blast
  then obtain i where "body_event_id ex_crates (body ev) = Inr i" using built_event_id by blast
  with built have "validate_envelope ex_crates ev (ai_store_id ex_input) = Inr i"
    using validate_built_event [OF ex_crates_laws] ex_input_valid by blast
  then have v: "validate_envelope ex_crates ev (StoreId ''store_Abcdef_1234'') = Inr i"
    by (simp add: ex_input_def)
  from validated_envelope_is_authentic [OF this] v show ?thesis by blast
qed

text \<open>An event id binds the body: two well-formed bodies with the same id agree on every field up
  to the order of their parents, unless the digest has a collision; and the order of the parents
  changes neither the canonical bytes nor the id.\<close>

theorem event_id_binds_body:
  assumes "crate_laws c" and "json_injective c" and "body_wf a" and "body_wf b"
    and "to_canonical_bytes c a = Inr x" and "to_canonical_bytes c b = Inr y"
  shows "body_event_id c a = body_event_id c b
    \<longleftrightarrow> a\<lparr>parents := []\<rparr> = b\<lparr>parents := []\<rparr> \<and> mset (parents a) = mset (parents b)
        \<or> x \<noteq> y \<and> sha256 c x = sha256 c y"
proof -
  have "b64_encode c (sha256 c x) = b64_encode c (sha256 c y) \<longleftrightarrow> sha256 c x = sha256 c y"
    using crate_lawsD(6) [OF assms(1) crate_lawsD(7) [OF assms(1)]] by (metis sum.inject(2))
  then have id: "body_event_id c a = body_event_id c b \<longleftrightarrow> sha256 c x = sha256 c y"
    by (simp add: body_event_id_def assms event_id_from_body_bytes_def event_id_from_sha256_bytes_def)
  have "x = y \<longleftrightarrow> canonicalize_json (to_canonical_value a) = canonicalize_json (to_canonical_value b)"
    using assms(2,5,6)
    by (auto simp: to_canonical_bytes_def canonical_from_json_def json_injective_def elim!: json_written.elims)
  also have "\<dots> \<longleftrightarrow> a\<lparr>parents := []\<rparr> = b\<lparr>parents := []\<rparr> \<and> mset (parents a) = mset (parents b)"
    unfolding to_canonical_value_def canonicalize_idem
    using assms(3,4) by (fold to_canonical_value_def) (rule canonical_value_iff)
  finally show ?thesis using id by auto
qed

definition ex_signed_body :: "event_id list \<Rightarrow> vault_event_body" where
  "ex_signed_body ps = \<lparr>schema_version = 3, store_id = StoreId ''store_Abcdef_1234'', actor_id = ex_actor,
     actor_signing_public_key = Unavailable, parents = ps,
     created_at = IsoTimestamp ''2026-06-28T00:00:00Z'', key_epoch = EventId ''e'', operations = [VaultCleared]\<rparr>"

theorem event_id_binds_body_witness:
  "body_event_id ex_crates (ex_signed_body [EventId ''p'', EventId ''o''])
    = body_event_id ex_crates (ex_signed_body [EventId ''o'', EventId ''p''])"
proof -
  have "\<exists>x. to_canonical_bytes ex_crates b = Inr x" for b
    by (simp add: to_canonical_bytes_def canonical_from_json_def ex_crates_def)
  then obtain x y where "to_canonical_bytes ex_crates (ex_signed_body [EventId ''p'', EventId ''o'']) = Inr x"
    and "to_canonical_bytes ex_crates (ex_signed_body [EventId ''o'', EventId ''p'']) = Inr y" by blast
  from event_id_binds_body [OF ex_crates_laws ex_json_injective _ _ this] show ?thesis
    by (simp add: ex_signed_body_def body_wf_def signing_key_wf_def)
qed

end
