(* ===== verification/EventGraphLaws.thy ===== *)
theory EventGraphLaws
  imports EventGraph EnvelopeLaws
begin

text \<open>
  What the event graph guarantees: the loops over the causal past visit each recorded ancestor once,
  insertion keeps the graph well formed and leaves no applicable event unauthorized, and the order
  of a graph built by insertion fails on competing roots only.
\<close>

subsection \<open>The recorded ancestors in visiting order\<close>

function visit_order :: "(event_id, vault_event) fmap \<Rightarrow> event_id fset \<Rightarrow> event_id list \<Rightarrow> event_id list" where
  "visit_order events visited [] = []"
| "visit_order events visited (i # stack) =
     (if i |\<in>| visited then visit_order events visited stack
      else case fmlookup events i of
          None \<Rightarrow> visit_order events (finsert i visited) stack
        | Some parent \<Rightarrow> i # visit_order events (finsert i visited) (rev (parents (body parent)) @ stack))"
  by pat_completeness auto
termination
  by (relation "measures [\<lambda>(events, v, s). fcard (fmdom events |-| v), \<lambda>(events, v, s). length s]")
    (auto simp: unvisited_recorded unvisited_unrecorded)

definition parent_map :: "(event_id, vault_event) fmap \<Rightarrow> (event_id, event_id list) fmap" where
  "parent_map events = fmmap (\<lambda>ev. parents (body ev)) events"

lemma parent_map_simps [simp]:
  "fmdom (parent_map events) = fmdom events"
  "fmlookup (parent_map events) i = map_option (\<lambda>ev. parents (body ev)) (fmlookup events i)"
  "get_or_empty (parent_map events) i = (case fmlookup events i of Some ev \<Rightarrow> parents (body ev) | None \<Rightarrow> [])"
  by (simp_all add: parent_map_def get_or_empty_def split: option.split)

lemma visit_order_reach:
  "set (visit_order events v s) = (fset (reach_loop (parent_map events) v s) - fset v) \<inter> fset (fmdom events)
    \<and> fset v \<subseteq> fset (reach_loop (parent_map events) v s)"
proof (induction events v s rule: visit_order.induct)
  case (2 events v i s)
  then show ?case
    by (cases "i |\<in>| v"; cases "fmlookup events i")
      (auto dest: fmdom_notI fmdomI simp: fmdom_notD)
qed simp

lemma set_visit_order:
  "set (visit_order events {||} s) = (next_rel (parent_map events))\<^sup>* `` set s \<inter> fset (fmdom events)"
  using visit_order_reach [of events "{||}" s] reach_loop_from_empty [of "parent_map events" s] by simp

lemma evidence_loop_visits:
  "evidence_loop events v s \<longleftrightarrow>
    (\<exists>i\<in>set (visit_order events v s). \<exists>ev. fmlookup events i = Some ev
       \<and> list_ex is_sentinel_architecture_evidence (operations (body ev)))"
  by (induction events v s rule: visit_order.induct) (auto split: option.splits)

lemma authorized_loop_visits:
  "authorized_loop c events v s az
    = fold_result (\<lambda>az i. authorize_event c az (the (fmlookup events i))) az (visit_order events v s)"
  by (induction c events v s az rule: authorized_loop.induct)
    (auto split: option.splits intro!: and_then_cong)

subsection \<open>What the causal past authorizes\<close>

definition approved_key :: "crates \<Rightarrow> device_signing_public_key \<Rightarrow> auth_key_id option" where
  "approved_key c key =
     (if signing_key_is_empty key then None
      else case actor_id_for_public_key_hex c (signing_key_str key) of Inr a \<Rightarrow> Some a | Inl _ \<Rightarrow> None)"

fun approves :: "crates \<Rightarrow> vault_operation \<Rightarrow> (device_id \<times> auth_key_id) option" where
  "approves c (JoinApproved device _ key _ _ _) = map_option (Pair device) (approved_key c key)"
| "approves c (SentinelParticipantEnrolled device _ key _) = map_option (Pair device) (approved_key c key)"
| "approves c _ = None"

text \<open>The actors an event makes members: the author of an import root and every approved key.\<close>

definition grants :: "crates \<Rightarrow> vault_event \<Rightarrow> auth_key_id \<Rightarrow> bool" where
  "grants c ev a \<longleftrightarrow>
     parents (body ev) = [] \<and> list_ex is_vault_imported (operations (body ev)) \<and> actor_id (body ev) = a
   \<or> (\<exists>op\<in>set (operations (body ev)). \<exists>d. approves c op = Some (d, a))"

definition revokes :: "vault_event \<Rightarrow> device_id \<Rightarrow> bool" where
  "revokes ev d \<longleftrightarrow> DeviceRevoked d \<in> set (operations (body ev))"

definition causal_past :: "event_graph \<Rightarrow> vault_event \<Rightarrow> vault_event set" where
  "causal_past g ev =
     {e. \<exists>i\<in>(next_rel (parent_map (eg_events g)))\<^sup>* `` set (parents (body ev)). fmlookup (eg_events g) i = Some e}"

lemma approve_actor_Inr:
  "approve_actor c az d key = Inr az' \<longleftrightarrow>
     az' = (case approved_key c key of
              None \<Rightarrow> az
            | Some a \<Rightarrow> az\<lparr>az_actor_by_device := fmupd d a (az_actor_by_device az),
                           az_authorized := finsert a (az_authorized az)\<rparr>)
     \<and> (signing_key_is_empty key \<or> approved_key c key \<noteq> None)"
  by (cases "actor_id_for_public_key_hex c (signing_key_str key)")
    (auto simp: approve_actor_def approved_key_def)

lemma authorize_operation_Inr:
  assumes "authorize_operation c az op = Inr az'"
  shows "(a |\<in>| az_authorized az' \<longleftrightarrow> a |\<in>| az_authorized az \<or> (\<exists>d. approves c op = Some (d, a)))"
    and "(d |\<in>| az_revoked az' \<longleftrightarrow> d |\<in>| az_revoked az \<or> op = DeviceRevoked d)"
    and "fmlookup (az_actor_by_device az') d
      = (case approves c op of Some (d', a) \<Rightarrow> if d' = d then Some a else fmlookup (az_actor_by_device az) d
         | None \<Rightarrow> fmlookup (az_actor_by_device az) d)"
  using assms by (cases op; auto simp: approve_actor_Inr split: option.splits)+

lemma fold_result_collects:
  assumes "fold_result f s xs = Inr s'" and "\<And>s x s'. f s x = Inr s' \<Longrightarrow> P s' \<longleftrightarrow> P s \<or> Q x"
  shows "P s' \<longleftrightarrow> P s \<or> (\<exists>x\<in>set xs. Q x)"
  using assms(1)
proof (induction xs arbitrary: s)
  case (Cons x xs)
  then obtain t where "f s x = Inr t" "fold_result f t xs = Inr s'" by (auto simp: and_then_Inr_iff)
  then show ?case using Cons.IH [of t] assms(2) [of s x t] by auto
qed simp

lemma fold_result_origin:
  assumes "fold_result f s xs = Inr s'" and "P s'" and "\<And>s x s'. f s x = Inr s' \<Longrightarrow> P s' \<Longrightarrow> P s \<or> Q x"
  shows "P s \<or> (\<exists>x\<in>set xs. Q x)"
  using assms(1,2)
proof (induction xs arbitrary: s)
  case (Cons x xs)
  then obtain t where "f s x = Inr t" "fold_result f t xs = Inr s'" by (auto simp: and_then_Inr_iff)
  then show ?case using Cons.IH [of t] Cons.prems(2) assms(3) [of s x t] by auto
qed simp

lemma authorize_operations_Inr:
  assumes "fold_result (authorize_operation c) az ops = Inr az'"
  shows "a |\<in>| az_authorized az' \<longleftrightarrow> a |\<in>| az_authorized az \<or> (\<exists>op\<in>set ops. \<exists>d. approves c op = Some (d, a))"
    and "d |\<in>| az_revoked az' \<longleftrightarrow> d |\<in>| az_revoked az \<or> DeviceRevoked d \<in> set ops"
    and "fmlookup (az_actor_by_device az') d = Some a
      \<Longrightarrow> fmlookup (az_actor_by_device az) d = Some a \<or> (\<exists>op\<in>set ops. approves c op = Some (d, a))"
proof -
  show "a |\<in>| az_authorized az' \<longleftrightarrow> a |\<in>| az_authorized az \<or> (\<exists>op\<in>set ops. \<exists>d. approves c op = Some (d, a))"
    by (rule fold_result_collects [OF assms]) (rule authorize_operation_Inr(1))
  have "d |\<in>| az_revoked az' \<longleftrightarrow> d |\<in>| az_revoked az \<or> (\<exists>op\<in>set ops. op = DeviceRevoked d)"
    by (rule fold_result_collects [OF assms]) (rule authorize_operation_Inr(2))
  then show "d |\<in>| az_revoked az' \<longleftrightarrow> d |\<in>| az_revoked az \<or> DeviceRevoked d \<in> set ops" by auto
  show "fmlookup (az_actor_by_device az) d = Some a \<or> (\<exists>op\<in>set ops. approves c op = Some (d, a))"
    if "fmlookup (az_actor_by_device az') d = Some a"
    by (rule fold_result_origin [where P = "\<lambda>az. fmlookup (az_actor_by_device az) d = Some a", OF assms that]) (auto simp: authorize_operation_Inr(3) split: option.splits if_splits)
qed

lemma authorize_event_Inr:
  assumes "authorize_event c az ev = Inr az'"
  shows "a |\<in>| az_authorized az' \<longleftrightarrow> a |\<in>| az_authorized az \<or> grants c ev a"
    and "d |\<in>| az_revoked az' \<longleftrightarrow> d |\<in>| az_revoked az \<or> revokes ev d"
    and "fmlookup (az_actor_by_device az') d = Some a
      \<Longrightarrow> fmlookup (az_actor_by_device az) d = Some a \<or> (\<exists>op\<in>set (operations (body ev)). approves c op = Some (d, a))"
proof -
  note facts = authorize_operations_Inr [OF assms [unfolded authorize_event_def]]
  show "a |\<in>| az_authorized az' \<longleftrightarrow> a |\<in>| az_authorized az \<or> grants c ev a"
    using facts(1) [of a] by (auto simp: grants_def)
  show "d |\<in>| az_revoked az' \<longleftrightarrow> d |\<in>| az_revoked az \<or> revokes ev d"
    using facts(2) [of d] by (auto simp: revokes_def)
  show "fmlookup (az_actor_by_device az) d = Some a \<or> (\<exists>op\<in>set (operations (body ev)). approves c op = Some (d, a))"
    if "fmlookup (az_actor_by_device az') d = Some a"
    using facts(3) [OF that] by (auto split: if_splits)
qed

lemma authorize_events_Inr:
  assumes "fold_result (authorize_event c) az es = Inr az'"
  shows "a |\<in>| az_authorized az' \<longleftrightarrow> a |\<in>| az_authorized az \<or> (\<exists>e\<in>set es. grants c e a)"
    and "d |\<in>| az_revoked az' \<longleftrightarrow> d |\<in>| az_revoked az \<or> (\<exists>e\<in>set es. revokes e d)"
    and "fmlookup (az_actor_by_device az') d = Some a
      \<Longrightarrow> fmlookup (az_actor_by_device az) d = Some a
        \<or> (\<exists>e\<in>set es. \<exists>op\<in>set (operations (body e)). approves c op = Some (d, a))"
proof -
  show "a |\<in>| az_authorized az' \<longleftrightarrow> a |\<in>| az_authorized az \<or> (\<exists>e\<in>set es. grants c e a)"
    by (rule fold_result_collects [OF assms]) (rule authorize_event_Inr(1))
  show "d |\<in>| az_revoked az' \<longleftrightarrow> d |\<in>| az_revoked az \<or> (\<exists>e\<in>set es. revokes e d)"
    by (rule fold_result_collects [OF assms]) (rule authorize_event_Inr(2))
  show "fmlookup (az_actor_by_device az) d = Some a
        \<or> (\<exists>e\<in>set es. \<exists>op\<in>set (operations (body e)). approves c op = Some (d, a))"
    if "fmlookup (az_actor_by_device az') d = Some a"
    by (rule fold_result_origin [where P = "\<lambda>az. fmlookup (az_actor_by_device az) d = Some a", OF assms that]) (rule authorize_event_Inr(3))
qed

definition past_events :: "event_graph \<Rightarrow> vault_event \<Rightarrow> vault_event list" where
  "past_events g ev =
     map (\<lambda>i. the (fmlookup (eg_events g) i)) (visit_order (eg_events g) {||} (rev (parents (body ev))))"

lemma set_past_events: "set (past_events g ev) = causal_past g ev"
proof -
  have "(\<lambda>i. the (fmlookup m i)) ` (X \<inter> fset (fmdom m)) = {e. \<exists>i\<in>X. fmlookup m i = Some e}"
    for X and m :: "(event_id, vault_event) fmap"
    by (force simp: image_iff fmlookup_dom_iff)
  then show ?thesis by (simp add: past_events_def causal_past_def set_visit_order)
qed

lemma fold_result_map: "fold_result f s (map h xs) = fold_result (\<lambda>s x. f s (h x)) s xs"
  by (induction xs arbitrary: s) (auto intro!: and_then_cong)

lemma authorized_actors_before_eq:
  "authorized_actors_before c g ev
    = and_then (fold_result (authorize_event c) no_authorization (past_events g ev)) (\<lambda>az. Inr (remove_revoked az))"
  by (simp add: authorized_actors_before_def authorized_loop_visits past_events_def fold_result_map)

lemma remove_revoked_iff:
  "a |\<in>| remove_revoked az \<longleftrightarrow> a |\<in>| az_authorized az
    \<and> (\<forall>d. d |\<in>| az_revoked az \<longrightarrow> fmlookup (az_actor_by_device az) d \<noteq> Some a)"
proof -
  have "a |\<in>| foldl (\<lambda>A d. case fmlookup m d of Some x \<Rightarrow> A |-| {|x|} | None \<Rightarrow> A) A ds
      \<longleftrightarrow> a |\<in>| A \<and> (\<forall>d\<in>set ds. fmlookup m d \<noteq> Some a)" for A and ds :: "device_id list" and m :: "(device_id, auth_key_id) fmap"
    by (induction ds arbitrary: A) (auto split: option.splits)
  then show ?thesis by (auto simp: remove_revoked_def)
qed

text \<open>Only the causal past authorizes. An actor is authorized before an event only if a recorded
  ancestor is an import root by that actor or approves its key; and an actor granted by an ancestor
  stays authorized unless some ancestor revokes a device that an ancestor approved with that key.\<close>

theorem authorized_actors_characterized:
  assumes "authorized_actors_before c g ev = Inr actors"
  shows "(a |\<in>| actors \<longrightarrow> (\<exists>e\<in>causal_past g ev. grants c e a))
    \<and> ((\<exists>e\<in>causal_past g ev. grants c e a)
        \<and> \<not> (\<exists>d. (\<exists>e\<in>causal_past g ev. revokes e d)
               \<and> (\<exists>e\<in>causal_past g ev. \<exists>op\<in>set (operations (body e)). approves c op = Some (d, a)))
        \<longrightarrow> a |\<in>| actors)"
proof -
  obtain az where az: "fold_result (authorize_event c) no_authorization (past_events g ev) = Inr az"
    and actors: "actors = remove_revoked az"
    using assms by (auto simp: authorized_actors_before_eq and_then_Inr_iff)
  note facts = authorize_events_Inr [OF az, unfolded set_past_events]
  show ?thesis
    using facts(1) [of a] facts(2) facts(3) [of _ a]
    unfolding actors remove_revoked_iff no_authorization_def by simp blast
qed

subsection \<open>Well-formed event graphs\<close>

text \<open>The causal index has the parents of every recorded event, and events are stored under their id.\<close>

definition event_graph_wf :: "crates \<Rightarrow> event_graph \<Rightarrow> bool" where
  "event_graph_wf c g \<longleftrightarrow>
     wf_graph (eg_causal g)
   \<and> (\<forall>i. fmlookup (cg_parents (eg_causal g)) i
        = map_option (\<lambda>ev. normalize_parents (parents (body ev))) (fmlookup (eg_events g) i))
   \<and> (\<forall>i ev. fmlookup (eg_events g) i = Some ev \<longrightarrow> body_event_id c (body ev) = Inr i)"

text \<open>Nothing is left to quarantine.\<close>

definition settled :: "crates \<Rightarrow> event_graph \<Rightarrow> bool" where
  "settled c g \<longleftrightarrow> (\<forall>i. i |\<in>| fmdom (eg_events g) \<longrightarrow> classify_event_quarantine c g i = Inr Retain)"

lemma event_graph_wf_causal:
  assumes "event_graph_wf c g" and "wf_graph h" and "cg_parents h = cg_parents (eg_causal g)"
  shows "event_graph_wf c (g\<lparr>eg_causal := h\<rparr>)"
  using assms by (simp add: event_graph_wf_def)

lemma event_graph_wf_quarantine:
  "event_graph_wf c g \<Longrightarrow> event_graph_wf c (g\<lparr>eg_causal := quarantine_event (eg_causal g) r\<rparr>)"
  by (rule event_graph_wf_causal) (auto simp: event_graph_wf_def wf_quarantine_event)

lemma quarantine_pass_wf:
  assumes "event_graph_wf c g"
  shows "case quarantine_pass c g changed is of Inr (g', _) \<Rightarrow> event_graph_wf c g' | Inl (g', _) \<Rightarrow> event_graph_wf c g'"
  using assms
  by (induction c g changed "is" rule: quarantine_pass.induct)
    (auto split: sum.splits quarantine_decision.splits simp: event_graph_wf_quarantine)

lemma quarantine_pass_True: "quarantine_pass c g True is = Inr (g', changed) \<Longrightarrow> changed"
  using quarantine_pass_step [of c g True "is" g' changed] by blast

lemma quarantine_pass_unchanged:
  "quarantine_pass c g False is = Inr (g', False) \<Longrightarrow>
    g' = g \<and> (\<forall>i\<in>set is. classify_event_quarantine c g i = Inr Retain)"
proof (induction "is")
  case (Cons i "is")
  then show ?case
    by (auto split: sum.splits quarantine_decision.splits dest: quarantine_pass_True)
qed simp

lemma quarantine_rejected_wf:
  assumes "event_graph_wf c g"
  shows "case quarantine_rejected c g of
      Inr g' \<Rightarrow> event_graph_wf c g' \<and> settled c g' \<and> eg_events g' = eg_events g
          \<and> cg_parents (eg_causal g') = cg_parents (eg_causal g)
    | Inl (g', _) \<Rightarrow> event_graph_wf c g'"
  using assms
proof (induction c g rule: quarantine_rejected.induct)
  case (1 c g)
  show ?case
  proof (cases "quarantine_pass c g False (keys_of (eg_events g))")
    case (Inl rejection)
    then show ?thesis
      using quarantine_pass_wf [OF 1(2), of False "keys_of (eg_events g)"]
      by (simp add: quarantine_rejected.simps [of c g] split: prod.splits)
  next
    case (Inr p)
    obtain g1 changed where p: "p = (g1, changed)" by (cases p)
    note pass = Inr [unfolded p]
    have wf: "event_graph_wf c g1"
      using quarantine_pass_wf [OF 1(2), of False "keys_of (eg_events g)"] pass by simp
    show ?thesis
    proof (cases changed)
      case True
      then show ?thesis
        using 1(1) [OF Inr p [symmetric] True wf] quarantine_pass_step [OF pass]
        by (auto simp: quarantine_rejected.simps [of c g] pass split: sum.splits prod.splits)
    next
      case False
      then show ?thesis
        using quarantine_pass_unchanged [of c g "keys_of (eg_events g)" g1] pass wf 1(2)
        by (auto simp: quarantine_rejected.simps [of c g] settled_def)
    qed
  qed
qed

lemma validate_envelope_id:
  "validate_envelope c ev st = Inr i \<Longrightarrow> body_event_id c (body ev) = Inr i"
  by (auto simp: validate_envelope_def and_then_Inr_iff event_id_of_def split: if_splits)

lemma event_graph_wf_insert:
  assumes wf: "event_graph_wf c g" and new: "fmlookup (eg_events g) i = None"
    and id: "body_event_id c (body ev) = Inr i"
  shows "event_graph_wf c (g\<lparr>eg_events := fmupd i ev (eg_events g),
      eg_causal := ci_graph (insert_event (eg_causal g) \<lparr>ins_id = i, ins_parents = parents (body ev)\<rparr>)\<rparr>)"
proof -
  let ?r = "\<lparr>ins_id = i, ins_parents = parents (body ev)\<rparr>"
  have "fmlookup (cg_parents (eg_causal g)) (ins_id ?r) = None"
    using wf new by (simp add: event_graph_wf_def)
  from insert_event_parents_new [OF this] show ?thesis
    using wf id by (auto simp: event_graph_wf_def wf_insert_event)
qed

text \<open>Authorization and checkpoint structure look at the recorded events only.\<close>

lemma authorization_cong:
  assumes "eg_events g = eg_events h"
  shows "validate_event_actor_authorized c g ev = validate_event_actor_authorized c h ev"
    and "validate_epoch_checkpoint_structure g ev = validate_epoch_checkpoint_structure h ev"
    and "classify_event_actor_quarantine c g ev = classify_event_actor_quarantine c h ev"
  unfolding validate_event_actor_authorized_def validate_epoch_checkpoint_structure_def
    classify_event_actor_quarantine_def is_self_signed_membership_event_def
    ancestry_has_sentinel_architecture_evidence_def authorized_actors_before_def assms
  by (rule refl)+

lemma wf_parent_rel:
  assumes "event_graph_wf c g" and "fmlookup (eg_events g) i = Some ev"
  shows "p \<in> set (parents (body ev)) \<longleftrightarrow> (i, p) \<in> next_rel (cg_parents (eg_causal g))"
  using assms by (simp add: event_graph_wf_def next_rel_iff normalize_parents_def)

lemma wf_quarantined_parent:
  assumes "event_graph_wf c g" and "fmlookup (eg_events g) i = Some ev"
    and "p \<in> set (parents (body ev))" and "p |\<in>| fmdom (quarantined g)"
  shows "i |\<in>| fmdom (quarantined g)"
proof -
  have "wf_graph (eg_causal g)" using assms(1) by (simp add: event_graph_wf_def)
  moreover have "(i, p) \<in> next_rel (cg_parents (eg_causal g))" using wf_parent_rel assms(1-3) by blast
  ultimately show ?thesis
    using assms(4) by (auto simp: quarantined_def wf_graph_quarantined intro: converse_rtrancl_into_rtrancl)
qed

lemma quarantine_event_mono:
  assumes "wf_graph g" and "i |\<in>| fmdom (cg_quarantined g)"
  shows "i |\<in>| fmdom (cg_quarantined (quarantine_event g r))"
  using assms wf_quarantine_event [OF assms(1), of r] by (auto simp: wf_graph_quarantined)

lemma settled_quarantine:
  assumes wf: "event_graph_wf c g" and settled: "settled c g"
  shows "settled c (g\<lparr>eg_causal := quarantine_event (eg_causal g) r\<rparr>)"
  unfolding settled_def
proof (intro allI impI)
  let ?g = "g\<lparr>eg_causal := quarantine_event (eg_causal g) r\<rparr>"
  have wf': "event_graph_wf c ?g" using wf by (rule event_graph_wf_quarantine)
  fix i assume "i |\<in>| fmdom (eg_events ?g)"
  then obtain ev where ev: "fmlookup (eg_events g) i = Some ev" by (auto simp: fmlookup_dom_iff)
  then have retain: "classify_event_quarantine c g i = Inr Retain"
    using settled by (simp add: settled_def fmdomI)
  show "classify_event_quarantine c ?g i = Inr Retain"
  proof (cases "i |\<in>| fmdom (quarantined ?g)")
    case True
    then show ?thesis by (simp add: classify_event_quarantine_def)
  next
    case False
    have "wf_graph (eg_causal g)" using wf by (simp add: event_graph_wf_def)
    from quarantine_event_mono [OF this] have old: "i |\<notin>| fmdom (quarantined g)"
      using False by (auto simp: quarantined_def)
    have parents: "\<not> list_ex (\<lambda>p. p |\<in>| fmdom (quarantined h)) (parents (body ev))"
      if "event_graph_wf c h" "eg_events h = eg_events g" "i |\<notin>| fmdom (quarantined h)" for h
      using wf_quarantined_parent [OF that(1), of i ev] that ev by (auto simp: list_ex_iff)
    have events: "eg_events ?g = eg_events g" by simp
    have "ancestor_ids_present (eg_causal ?g) ps = ancestor_ids_present (eg_causal g) ps" for ps
      by (simp add: ancestor_ids_present_def)
    then have "classify_event_quarantine c ?g i = classify_event_quarantine c g i"
      using False old parents [OF wf'] parents [OF wf] ev
      unfolding classify_event_quarantine_def authorization_cong [OF events] by simp
    then show ?thesis using retain by simp
  qed
qed

text \<open>Insertion keeps the graph well formed, in a rejected graph too, and settles it.\<close>

lemma insert_vault_event_wf:
  assumes wf: "event_graph_wf c g"
  shows "case insert_vault_event c g r of
      Inr (g', _) \<Rightarrow> event_graph_wf c g' \<and> (settled c g \<longrightarrow> settled c g')
    | Inl (g', _) \<Rightarrow> event_graph_wf c g'"
proof (cases "event_admission c g r")
  case (Inl cause)
  then show ?thesis using wf by (simp add: insert_vault_event_def)
next
  case (Inr admission)
  show ?thesis
  proof (cases admission)
    case (AdmitInsert i)
    then have "fmlookup (eg_events g) i = None" "body_event_id c (body (gi_event r)) = Inr i"
      using Inr by (auto simp: event_admission_def Let_def and_then_Inr_iff split: option.splits if_splits
          dest: validate_envelope_id)
    from quarantine_rejected_wf [OF event_graph_wf_insert [OF wf this]] show ?thesis
      using Inr AdmitInsert by (auto simp: insert_vault_event_def Let_def split: sum.splits)
  qed (use Inr wf event_graph_wf_quarantine [OF wf] settled_quarantine [OF wf] in
      \<open>simp_all add: insert_vault_event_def\<close>)
qed

text \<open>The graphs that successful insertions build.\<close>

inductive event_history :: "crates \<Rightarrow> event_graph \<Rightarrow> bool" for c where
  history_new: "event_history c new_event_graph"
| history_insert: "event_history c g \<Longrightarrow> insert_vault_event c g r = Inr (g', status) \<Longrightarrow> event_history c g'"

lemma event_history_wf: "event_history c g \<Longrightarrow> event_graph_wf c g \<and> settled c g"
proof (induction rule: event_history.induct)
  case history_new
  have "cg_parents (new_graph :: event_id causal_graph) = fmempty" by (simp add: new_graph_def)
  then show ?case by (simp add: new_event_graph_def event_graph_wf_def settled_def wf_new_graph)
next
  case (history_insert g r g' status)
  then show ?case using insert_vault_event_wf [of c g r] by simp
qed

lemma applicable_event_authorized:
  assumes wf: "event_graph_wf c g" and settled: "settled c g"
    and i: "i \<in> set (applicable_ids (eg_causal g))" and ev: "fmlookup (eg_events g) i = Some ev"
  shows "validate_event_actor_authorized c g ev = Inr () \<and> validate_epoch_checkpoint_structure g ev = Inr ()"
proof -
  have lookup: "fmlookup (cg_parents (eg_causal g)) j
      = map_option (\<lambda>ev. normalize_parents (parents (body ev))) (fmlookup (eg_events g) j)" for j
    using wf by (simp add: event_graph_wf_def)
  have not_q: "i |\<notin>| fmdom (quarantined g)" and "ancestors_present (eg_causal g) i"
    using i by (auto simp: set_applicable_ids quarantined_def)
  then have present: "(next_rel (cg_parents (eg_causal g)))\<^sup>* `` set (parents (body ev))
      \<subseteq> fset (fmdom (cg_parents (eg_causal g)))"
    using lookup ev by (auto simp: ancestors_present_def ancestor_ids_present_iff normalize_parents_def)
  have retain: "classify_event_quarantine c g i = Inr Retain"
    using settled ev by (simp add: settled_def fmdomI)
  have "\<not> list_ex (\<lambda>p. p |\<in>| fmdom (quarantined g)) (parents (body ev))"
    using wf_quarantined_parent [OF wf ev] not_q by (auto simp: list_ex_iff)
  then have decision: "(case validate_epoch_checkpoint_structure g ev of
        Inl (InvalidEpochCheckpointStructure reason) \<Rightarrow> Inr (Quarantine (''Invalid security epoch checkpoint: '' @ reason))
      | _ \<Rightarrow> classify_event_actor_quarantine c g ev) = Inr Retain"
    using retain not_q ev present by (simp add: classify_event_quarantine_def ancestor_ids_present_iff)
  have parent: "fmlookup (eg_events g) p \<noteq> None" if "p \<in> set (parents (body ev))" for p
  proof -
    have "p |\<in>| fmdom (cg_parents (eg_causal g))" using present that by auto
    then show ?thesis using lookup [of p] by (auto simp: fmlookup_dom_iff)
  qed
  have "validate_epoch_checkpoint_structure g ev = Inr ()
      \<or> (\<exists>reason. validate_epoch_checkpoint_structure g ev = Inl (InvalidEpochCheckpointStructure reason))"
    using parent
    by (auto simp: validate_epoch_checkpoint_structure_def epoch_checkpoint_requirement_def Let_def
        split: list.splits option.splits rotation_trigger.splits)
  then have checkpoint: "validate_epoch_checkpoint_structure g ev = Inr ()" using decision by auto
  then have "classify_event_actor_quarantine c g ev = Inr Retain" using decision by simp
  then have "validate_event_actor_authorized c g ev = Inr ()"
    by (auto simp: classify_event_actor_quarantine_def split: sum.splits event_error.splits)
  with checkpoint show ?thesis by simp
qed

lemma applicable_events_lookup:
  "ev \<in> set (applicable_events g) \<longleftrightarrow> (\<exists>i\<in>set (applicable_ids (eg_causal g)). fmlookup (eg_events g) i = Some ev)"
  by (auto simp: applicable_events_def List.map_filter_def image_iff)

lemma fold_result_unit: "(\<And>x. x \<in> set xs \<Longrightarrow> f () x = Inr ()) \<Longrightarrow> fold_result f () xs = Inr ()"
  by (induction xs) auto

lemma history_event_passes:
  assumes "event_history c g" and "ev \<in> set (applicable_events g)"
  shows "validate_event_actor_authorized c g ev = Inr () \<and> validate_epoch_checkpoint_structure g ev = Inr ()"
  using assms(2) applicable_event_authorized event_history_wf [OF assms(1)] by (auto simp: applicable_events_lookup)

lemma history_validates:
  "event_history c g \<Longrightarrow> validate_authorizations c g \<in> {Inl MultipleGenesisRoots, Inr ()}"
  by (auto simp: validate_authorizations_def Let_def history_event_passes intro!: fold_result_unit)

lemma history_causal_order:
  assumes "event_history c g"
  obtains ids where "topological_order (eg_causal g) = Inr ids" and "distinct ids"
    and "set ids = set (applicable_ids (eg_causal g))" and "placed_after_parents (cg_parents (eg_causal g)) ids"
  using topological_order_total [of "eg_causal g"] event_history_wf [OF assms] by (auto simp: event_graph_wf_def)

text \<open>An operation by which the signer of an event asks to join, or enters itself, under its own key.\<close>

fun own_membership :: "crates \<Rightarrow> vault_event \<Rightarrow> vault_operation \<Rightarrow> bool" where
  "own_membership c ev (JoinRequested _ _ key _) \<longleftrightarrow> operation_is_self_signed c ev key = Inr True"
| "own_membership c ev (JoinApproved _ _ key _ _ _) \<longleftrightarrow> operation_is_self_signed c ev key = Inr True"
| "own_membership c ev _ \<longleftrightarrow> False"

lemma self_signed_loop_own:
  assumes "self_signed_loop c ev seen ops = Inr (Some (requested, approved))"
  shows "list_all (own_membership c ev) ops \<and> (\<not> approved \<longrightarrow> list_all (\<lambda>op. approves c op = None) ops)"
proof -
  have "list_all (own_membership c ev) ops \<and> (snd seen \<longrightarrow> approved) \<and> (\<not> approved \<longrightarrow> list_all (\<lambda>op. approves c op = None) ops)"
    using assms
  proof (induction ops arbitrary: seen)
    case (Cons op ops)
    obtain r a where seen: "seen = (r, a)" by (cases seen)
    obtain seen' where "own_membership c ev op" "self_signed_loop c ev seen' ops = Inr (Some (requested, approved))"
      "a \<longrightarrow> snd seen'" "\<not> snd seen' \<longrightarrow> approves c op = None"
      using Cons.prems unfolding seen by (cases op) (auto simp: and_then_Inr_iff split: if_splits)
    then show ?case using Cons.IH [of seen'] by (auto simp: seen)
  qed simp
  then show ?thesis by blast
qed

text \<open>The events that pass without an authorized signer: those that only ask to join or enter the
  signer itself, and of these an entry only where no ancestor shows a Sentinel vault.\<close>

definition own_membership_event :: "crates \<Rightarrow> event_graph \<Rightarrow> vault_event \<Rightarrow> bool" where
  "own_membership_event c g ev \<longleftrightarrow> operations (body ev) \<noteq> [] \<and> list_all (own_membership c ev) (operations (body ev))
     \<and> (list_ex (\<lambda>op. approves c op \<noteq> None) (operations (body ev)) \<longrightarrow> \<not> ancestry_has_sentinel_architecture_evidence g ev)"

lemma self_signed_membership_own:
  assumes "is_self_signed_membership_event c g ev = Inr True"
  shows "own_membership_event c g ev"
proof -
  let ?ops = "operations (body ev)"
  obtain requested approved where "?ops \<noteq> []" and loop: "self_signed_loop c ev (False, False) ?ops = Inr (Some (requested, approved))"
    and evidence: "\<not> (approved \<and> ancestry_has_sentinel_architecture_evidence g ev)"
    using assms unfolding is_self_signed_membership_event_def
    by (auto simp: and_then_Inr_iff split: if_split_asm option.split_asm)
  then show ?thesis
    using self_signed_loop_own [OF loop] by (cases approved) (simp_all add: own_membership_event_def list_all_iff list_ex_iff)
qed

lemma authorized_event_cases:
  assumes "validate_event_actor_authorized c g ev = Inr ()"
  obtains "parents (body ev) = []" | "own_membership_event c g ev"
  | actors where "authorized_actors_before c g ev = Inr actors" "actor_id (body ev) |\<in>| actors"
proof (cases "parents (body ev) = []")
  case False
  then obtain self_signed where own: "is_self_signed_membership_event c g ev = Inr self_signed"
    and rest: "\<not> self_signed \<longrightarrow> (\<exists>actors. authorized_actors_before c g ev = Inr actors \<and> actor_id (body ev) |\<in>| actors)"
    using assms unfolding validate_event_actor_authorized_def by (auto simp: and_then_Inr_iff split: if_split_asm)
  show ?thesis
  proof (cases self_signed)
    case True
    then show ?thesis using own self_signed_membership_own that(2) by simp
  next
    case False
    then show ?thesis using rest that(3) by blast
  qed
qed (rule that(1))

text \<open>C1: a history built by insertion contains no unauthorized applicable event. Every event whose
  ancestors are present and that is not quarantined passes the checkpoint check, and either has no
  parents, or consists of requests and approvals of its signer's own key only, with no evidence of a
  Sentinel vault before an approval, or its signer is among the actors its causal past authorizes,
  where some ancestor made it a member. Ordering the graph fails on competing genesis roots only, and
  otherwise lists exactly the applicable events, each after all of its parents.\<close>

theorem history_is_authorized:
  assumes "event_history c g"
  shows "(\<forall>ev\<in>set (applicable_events g). validate_epoch_checkpoint_structure g ev = Inr ()
        \<and> validate_event_actor_authorized c g ev = Inr ()
        \<and> (parents (body ev) = [] \<or> own_membership_event c g ev
           \<or> (\<exists>actors. authorized_actors_before c g ev = Inr actors \<and> actor_id (body ev) |\<in>| actors
                \<and> (\<exists>e\<in>causal_past g ev. grants c e (actor_id (body ev))))))
    \<and> (event_topological_order c g = Inl MultipleGenesisRoots
       \<or> (\<exists>ids. event_topological_order c g = Inr ids \<and> distinct ids
            \<and> set ids = set (applicable_ids (eg_causal g))
            \<and> placed_after_parents (cg_parents (eg_causal g)) ids))"
proof (rule conjI, rule ballI)
  fix ev assume "ev \<in> set (applicable_events g)"
  note passes = history_event_passes [OF assms this]
  then have "validate_event_actor_authorized c g ev = Inr ()" by simp
  then show "validate_epoch_checkpoint_structure g ev = Inr () \<and> validate_event_actor_authorized c g ev = Inr ()
      \<and> (parents (body ev) = [] \<or> own_membership_event c g ev
         \<or> (\<exists>actors. authorized_actors_before c g ev = Inr actors \<and> actor_id (body ev) |\<in>| actors
              \<and> (\<exists>e\<in>causal_past g ev. grants c e (actor_id (body ev)))))"
    using passes authorized_actors_characterized [of c g ev _ "actor_id (body ev)"]
    by (cases rule: authorized_event_cases) fast+
next
  show "event_topological_order c g = Inl MultipleGenesisRoots
    \<or> (\<exists>ids. event_topological_order c g = Inr ids \<and> distinct ids \<and> set ids = set (applicable_ids (eg_causal g))
         \<and> placed_after_parents (cg_parents (eg_causal g)) ids)"
    using history_validates [OF assms] history_causal_order [OF assms]
    by (metis (mono_tags, lifting) Inl_Inr_False and_then.simps event_topological_order_def insert_iff singletonD sum.simps(6))
qed

subsection \<open>A history with one event\<close>

lemma insert_root_quarantined:
  "cg_quarantined (ci_graph (insert_event new_graph \<lparr>ins_id = i, ins_parents = []\<rparr>)) = fmempty"
  "cg_parents (ci_graph (insert_event new_graph \<lparr>ins_id = i, ins_parents = []\<rparr>)) = fmupd i [] fmempty"
proof -
  let ?g = "ci_graph (insert_event new_graph \<lparr>ins_id = i, ins_parents = []\<rparr>)"
  have parents: "cg_parents ?g = fmupd i [] fmempty"
    using insert_event_parents_new [of new_graph "\<lparr>ins_id = i, ins_parents = []\<rparr>"]
    by (simp add: new_graph_def normalize_parents_def sort_dedup_def)
  then have empty: "next_rel (cg_parents ?g) = {}" by (auto simp: next_rel_iff split: if_splits)
  have roots: "cg_quarantine_roots ?g = fmempty" by (simp add: insert_event_def new_graph_def Let_def)
  have "wf_graph ?g" by (rule wf_insert_event) (rule wf_new_graph)
  then have "fmdom (cg_quarantined ?g) = {||}"
    by (intro fset_eqI) (simp add: wf_graph_quarantined empty roots)
  then show "cg_quarantined ?g = fmempty" by (metis fmdom_empty fmdom_notD fmempty_lookup fmap_ext fempty_iff)
  show "cg_parents ?g = fmupd i [] fmempty" by (rule parents)
qed

lemma insert_root:
  assumes "event_admission c new_event_graph r = Inr (AdmitInsert i)"
    and root: "parents (body (gi_event r)) = []"
    and ops: "\<not> list_ex is_epoch_checkpoint (operations (body (gi_event r)))"
  shows "\<exists>g status. insert_vault_event c new_event_graph r = Inr (g, status)
    \<and> eg_events g = fmupd i (gi_event r) fmempty \<and> applicable_events g = [gi_event r]"
proof -
  let ?g = "new_event_graph\<lparr>eg_events := fmupd i (gi_event r) (eg_events new_event_graph),
     eg_causal := ci_graph (insert_event new_graph \<lparr>ins_id = i, ins_parents = []\<rparr>)\<rparr>"
  have keys: "keys_of (eg_events ?g) = [i]" by (simp add: new_event_graph_def sorted_list_of_fset.rep_eq)
  have "filter is_epoch_checkpoint (operations (body (gi_event r))) = []"
    using ops by (simp add: filter_empty_conv list_ex_iff)
  then have "validate_epoch_checkpoint_structure ?g (gi_event r) = Inr ()"
    by (simp add: validate_epoch_checkpoint_structure_def epoch_checkpoint_requirement_def)
  then have "classify_event_quarantine c ?g i = Inr Retain"
    using root by (simp add: classify_event_quarantine_def quarantined_def insert_root_quarantined
        classify_event_actor_quarantine_def validate_event_actor_authorized_def split: unit.split)
  then have "quarantine_rejected c ?g = Inr ?g"
    by (subst quarantine_rejected.simps) (simp only: keys, simp)
  then have ins: "insert_vault_event c new_event_graph r
      = Inr (?g, event_status ?g i (ci_status (insert_event new_graph \<lparr>ins_id = i, ins_parents = []\<rparr>)))"
    using assms(1) root by (simp add: insert_vault_event_def new_event_graph_def Let_def)
  have "applicable_ids (eg_causal ?g) = [i]"
    by (simp add: applicable_ids_def insert_root_quarantined ancestors_present_def
        ancestor_ids_present_def sorted_list_of_fset.rep_eq)
  then have "applicable_events ?g = [gi_event r]"
    by (simp add: applicable_events_def List.map_filter_def new_event_graph_def)
  then show ?thesis using ins by (simp add: new_event_graph_def)
qed

definition ex_insert_request :: "vault_event \<Rightarrow> event_graph_insert" where
  "ex_insert_request ev = \<lparr>gi_event = ev, gi_expected_store_id = ''store_Abcdef_1234''\<rparr>"

lemma ex_history:
  "\<exists>ev g. event_history ex_crates g \<and> applicable_events g = [ev] \<and> parents (body ev) = []
     \<and> store_id (body ev) = StoreId ''store_Abcdef_1234'' \<and> operations (body ev) = ai_operations ex_input"
proof -
  obtain ev bs where built: "build_event ex_crates ex_input = Inr (ev, bs)" using ex_event_built by blast
  then obtain i where i: "body_event_id ex_crates (body ev) = Inr i" using built_event_id by blast
  have body: "parents (body ev) = []" "\<not> list_ex is_epoch_checkpoint (operations (body ev))"
    "store_id (body ev) = StoreId ''store_Abcdef_1234''" "operations (body ev) = ai_operations ex_input"
    using built by (auto elim!: build_eventE simp: sign_body_def and_then_Inr_iff ex_input_def sort_dedup_def)
  have "validate_envelope ex_crates ev (StoreId ''store_Abcdef_1234'') = Inr i"
    using validate_built_event [OF ex_crates_laws built, of i] ex_input_valid i by (simp add: ex_input_def)
  moreover have "store_id_parse ''store_Abcdef_1234'' = Inr (StoreId ''store_Abcdef_1234'')"
    by code_simp
  ultimately have "event_admission ex_crates new_event_graph (ex_insert_request ev) = Inr (AdmitInsert i)"
    by (simp add: event_admission_def ex_insert_request_def new_event_graph_def)
  from insert_root [OF this] obtain g status where "insert_vault_event ex_crates new_event_graph (ex_insert_request ev) = Inr (g, status)"
    and "applicable_events g = [ev]"
    using body by (auto simp: ex_insert_request_def)
  then show ?thesis using body history_insert [OF history_new] by blast
qed

theorem history_is_authorized_witness:
  "\<exists>g ev. event_history ex_crates g \<and> applicable_events g = [ev]
     \<and> validate_event_actor_authorized ex_crates g ev = Inr ()"
proof -
  obtain ev g where g: "event_history ex_crates g" "applicable_events g = [ev]" using ex_history by blast
  from history_is_authorized [OF g(1)] show ?thesis using g by auto
qed

subsection \<open>Approvals and revocations\<close>

text \<open>An approval that cannot be decoded poisons its descendants. When an ancestor approves a device
  under a signing key that is no valid Ed25519 key, the authorized actors of every descendant are an
  error, never a set, so no descendant is classified as authorized, unauthorized or quarantined for
  its actor.\<close>

theorem undecodable_approval_blocks_descendants:
  assumes "e \<in> causal_past g ev" and "JoinApproved d x key l s m \<in> set (operations (body e))"
    and "\<not> signing_key_is_empty key" and "actor_id_for_public_key_hex c (signing_key_str key) = Inl err"
  shows "\<exists>cause. authorized_actors_before c g ev = Inl cause"
proof -
  have step: False if "fold_result (authorize_operation c) az ops = Inr az'" "JoinApproved d x key l s m \<in> set ops"
    for az az' ops
    using that
  proof (induction ops arbitrary: az)
    case (Cons op ops)
    then obtain az1 where "authorize_operation c az op = Inr az1"
      and "fold_result (authorize_operation c) az1 ops = Inr az'" by (auto simp: and_then_Inr_iff)
    then show ?case using Cons assms(3,4) by (auto simp: approve_actor_def)
  qed simp
  have event: False if "fold_result (authorize_event c) az es = Inr az'" "e \<in> set es" for az az' es
    using that
  proof (induction es arbitrary: az)
    case (Cons e' es)
    then obtain az1 where "authorize_event c az e' = Inr az1"
      and "fold_result (authorize_event c) az1 es = Inr az'" by (auto simp: and_then_Inr_iff)
    then show ?case using Cons step assms(2) by (auto simp: authorize_event_def)
  qed simp
  show ?thesis
    using event [of no_authorization "past_events g ev"] assms(1)
    by (cases "fold_result (authorize_event c) no_authorization (past_events g ev)")
      (auto simp: authorized_actors_before_eq set_past_events)
qed

definition ex_event :: "event_id list \<Rightarrow> vault_operation list \<Rightarrow> vault_event" where
  "ex_event ps ops = \<lparr>body = \<lparr>schema_version = 3, store_id = StoreId ''store_Abcdef_1234'',
     actor_id = AuthKeyId ''key_owner'', actor_signing_public_key = Unavailable, parents = ps,
     created_at = IsoTimestamp ''T'', key_epoch = EventId ''e'', operations = ops\<rparr>, signature = ''''\<rparr>"

abbreviation ex_approval :: "string \<Rightarrow> vault_operation" where
  "ex_approval key \<equiv> JoinApproved (AppId ''d'') ''age'' (Ed25519Hex key) ''phone'' ''s'' ''m''"

text \<open>A chain of events, each with the one before as its only parent.\<close>

fun chain :: "nat \<Rightarrow> event_id list \<Rightarrow> vault_operation list list \<Rightarrow> (event_id \<times> vault_event) list" where
  "chain n ps [] = []"
| "chain n ps (ops # rest) = (let i = EventId (replicate n (CHR ''i'')) in (i, ex_event ps ops) # chain (Suc n) [i] rest)"

definition ex_chain :: "vault_operation list list \<Rightarrow> event_graph" where
  "ex_chain opss = new_event_graph\<lparr>eg_events := fmap_of_list (chain 1 [] opss)\<rparr>"

theorem undecodable_approval_blocks_descendants_witness:
  "\<exists>cause. authorized_actors_before ex_crates
     (ex_chain [[VaultImported (Sha256Hex ''00'') []], [ex_approval ''zz'']]) (ex_event [EventId ''ii''] []) = Inl cause"
proof -
  let ?g = "ex_chain [[VaultImported (Sha256Hex ''00'') []], [ex_approval ''zz'']]"
  have "fmlookup (eg_events ?g) (EventId ''ii'') = Some (ex_event [EventId ''i''] [ex_approval ''zz''])"
    by (simp add: ex_chain_def fmlookup_of_list numeral_2_eq_2 Let_def)
  then have "ex_event [EventId ''i''] [ex_approval ''zz''] \<in> causal_past ?g (ex_event [EventId ''ii''] [])"
    by (force simp: causal_past_def ex_event_def)
  moreover have "\<exists>err. actor_id_for_public_key_hex ex_crates (signing_key_str (Ed25519Hex ''zz'')) = Inl err"
  proof -
    have "trim ''zz'' = ''zz''" by code_simp
    moreover have "ex_hex_decode ''zz'' = Inl ''invalid hex''" by (simp add: ex_hex_decode_def is_ascii_hexdigit_def is_ascii_digit_def)
    ultimately show ?thesis
      by (simp add: actor_id_for_public_key_hex_def verifying_key_from_public_key_hex_def ex_crates_def)
  qed
  ultimately show ?thesis
    using undecodable_approval_blocks_descendants [of "ex_event [EventId ''i''] [ex_approval ''zz'']" ?g "ex_event [EventId ''ii''] []"
        "AppId ''d''" "''age''" "Ed25519Hex ''zz''" "''phone''" "''s''" "''m''" ex_crates]
    by (auto simp: ex_event_def signing_key_is_empty_def)
qed

text \<open>A linear history: the import, then three events on top of each other, and an event after them.\<close>

definition linear_history ::
    "event_graph \<Rightarrow> vault_event \<Rightarrow> auth_key_id \<Rightarrow> vault_operation \<Rightarrow> vault_operation \<Rightarrow> vault_operation \<Rightarrow> bool" where
  "linear_history g ev owner op1 op2 op3 \<longleftrightarrow>
     (\<exists>i0 i1 i2 i3 e0 e1 e2 e3 hash secrets.
        distinct [i0, i1, i2, i3] \<and> parents (body ev) = [i3]
      \<and> fmlookup (eg_events g) i3 = Some e3 \<and> parents (body e3) = [i2] \<and> operations (body e3) = [op3]
      \<and> fmlookup (eg_events g) i2 = Some e2 \<and> parents (body e2) = [i1] \<and> operations (body e2) = [op2]
      \<and> fmlookup (eg_events g) i1 = Some e1 \<and> parents (body e1) = [i0] \<and> operations (body e1) = [op1]
      \<and> fmlookup (eg_events g) i0 = Some e0 \<and> parents (body e0) = []
      \<and> operations (body e0) = [VaultImported hash secrets] \<and> actor_id (body e0) = owner)"

lemma linear_history_past:
  assumes "linear_history g ev owner op1 op2 op3"
  shows "\<exists>e0 e1 e2 e3 hash secrets. past_events g ev = [e3, e2, e1, e0]
    \<and> parents (body e0) = [] \<and> operations (body e0) = [VaultImported hash secrets] \<and> actor_id (body e0) = owner
    \<and> (\<forall>c az. authorize_event c az e1 = and_then (authorize_operation c az op1) Inr
         \<and> authorize_event c az e2 = and_then (authorize_operation c az op2) Inr
         \<and> authorize_event c az e3 = and_then (authorize_operation c az op3) Inr)"
  using assms unfolding linear_history_def
  by (elim exE conjE) (fastforce simp: past_events_def authorize_event_def)

lemma approve_actor_decoded:
  "actor_id_for_public_key_hex c (signing_key_str key) = Inr k \<Longrightarrow> \<not> signing_key_is_empty key \<Longrightarrow>
    approve_actor c az d key = Inr (az\<lparr>az_actor_by_device := fmupd d k (az_actor_by_device az),
      az_authorized := finsert k (az_authorized az)\<rparr>)"
  by (simp add: approve_actor_def)

lemma twice_approved_actors:
  assumes "linear_history g ev owner (JoinApproved d x1 key1 l1 s1 m1) (JoinApproved d x2 key2 l2 s2 m2) (DeviceRevoked d)"
    and "\<not> signing_key_is_empty key1" and "actor_id_for_public_key_hex c (signing_key_str key1) = Inr k1"
    and "\<not> signing_key_is_empty key2" and "actor_id_for_public_key_hex c (signing_key_str key2) = Inr k2"
  shows "authorized_actors_before c g ev = Inr ({|owner, k2|} |-| {|k1|})"
proof -
  obtain e0 e1 e2 e3 hash secrets where past: "past_events g ev = [e3, e2, e1, e0]"
    "parents (body e0) = []" "operations (body e0) = [VaultImported hash secrets]" "actor_id (body e0) = owner"
    and steps: "\<And>c az. authorize_event c az e1 = and_then (authorize_operation c az (JoinApproved d x1 key1 l1 s1 m1)) Inr"
    "\<And>c az. authorize_event c az e2 = and_then (authorize_operation c az (JoinApproved d x2 key2 l2 s2 m2)) Inr"
    "\<And>c az. authorize_event c az e3 = and_then (authorize_operation c az (DeviceRevoked d)) Inr"
    using linear_history_past [OF assms(1)] by blast
  show ?thesis
    using assms(2-5)
    by (auto simp: authorized_actors_before_eq past steps approve_actor_decoded no_authorization_def
        authorize_event_def [of _ _ e0] remove_revoked_def sorted_list_of_fset.rep_eq)
qed

text \<open>C39: a revocation removes one key of a device only. When a device was approved under one key and
  then under another, and the device is revoked afterwards, the first key is no longer authorized,
  but the second one still is.\<close>

theorem revocation_keeps_newer_key:
  assumes "linear_history g ev owner (JoinApproved d x1 key1 l1 s1 m1) (JoinApproved d x2 key2 l2 s2 m2) (DeviceRevoked d)"
    and "\<not> signing_key_is_empty key1" and "actor_id_for_public_key_hex c (signing_key_str key1) = Inr k1"
    and "\<not> signing_key_is_empty key2" and "actor_id_for_public_key_hex c (signing_key_str key2) = Inr k2"
  shows "authorized_actors_before c g ev = Inr ({|owner, k2|} |-| {|k1|})"
  using assms by (rule twice_approved_actors)

text \<open>A device that was approved, revoked and approved again is not authorized: the revocation counts
  wherever it stands in the causal past.\<close>

theorem reapproval_after_revocation_is_ineffective:
  assumes "linear_history g ev owner (JoinApproved d x1 key1 l1 s1 m1) (DeviceRevoked d) (JoinApproved d x2 key2 l2 s2 m2)"
    and "\<not> signing_key_is_empty key1" and "actor_id_for_public_key_hex c (signing_key_str key1) = Inr k"
    and "\<not> signing_key_is_empty key2" and "actor_id_for_public_key_hex c (signing_key_str key2) = Inr k"
  shows "authorized_actors_before c g ev = Inr ({|owner|} |-| {|k|})"
proof -
  obtain e0 e1 e2 e3 hash secrets where past: "past_events g ev = [e3, e2, e1, e0]"
    "parents (body e0) = []" "operations (body e0) = [VaultImported hash secrets]" "actor_id (body e0) = owner"
    and steps: "\<And>c az. authorize_event c az e1 = and_then (authorize_operation c az (JoinApproved d x1 key1 l1 s1 m1)) Inr"
    "\<And>c az. authorize_event c az e2 = and_then (authorize_operation c az (DeviceRevoked d)) Inr"
    "\<And>c az. authorize_event c az e3 = and_then (authorize_operation c az (JoinApproved d x2 key2 l2 s2 m2)) Inr"
    using linear_history_past [OF assms(1)] by blast
  show ?thesis
    using assms(2-5)
    by (auto simp: authorized_actors_before_eq past steps approve_actor_decoded no_authorization_def
        authorize_event_def [of _ _ e0] remove_revoked_def sorted_list_of_fset.rep_eq)
qed

definition ex_key :: "nat \<Rightarrow> string" where
  "ex_key n = ex_hex_encode (replicate 32 (of_nat n))"

lemma ex_key_actor:
  "actor_id_for_public_key_hex ex_crates (ex_key n) = Inr (AuthKeyId (''key_'' @ ex_key n))"
proof -
  have vk: "verifying_key_of ex_crates (replicate n 0) = replicate 32 (of_nat n)" by (simp add: ex_crates_def)
  have key: "hex_encode ex_crates = ex_hex_encode" by (simp add: ex_crates_def)
  have "sha256 ex_crates (replicate 32 (of_nat n)) = replicate 32 (of_nat n)"
    by (simp add: ex_crates_def numeral_eq_Suc)
  then show ?thesis
    using key_from_public_hex [OF ex_crates_laws, of "replicate n 0"]
      actor_id_of_key [OF ex_crates_laws, of "replicate 32 (of_nat n)"]
    by (simp add: actor_id_for_public_key_hex_def vk key ex_key_def)
qed

lemma ex_key_inject: "ex_key 1 \<noteq> ex_key 2"
proof
  assume "ex_key 1 = ex_key 2"
  then have "(Inr (replicate 32 1) :: (string, bytes) result) = Inr (replicate 32 2)"
    using ex_hex(1) unfolding ex_key_def by (metis of_nat_1 of_nat_numeral)
  then show False by (simp add: numeral_eq_Suc)
qed

lemma ex_linear_history:
  "linear_history (ex_chain [[VaultImported (Sha256Hex ''00'') []], [op1], [op2], [op3]])
     (ex_event [EventId ''iiii''] []) (AuthKeyId ''key_owner'') op1 op2 op3"
  unfolding linear_history_def
  by (rule exI [of _ "EventId ''i''"], rule exI [of _ "EventId ''ii''"], rule exI [of _ "EventId ''iii''"],
      rule exI [of _ "EventId ''iiii''"])
    (simp add: ex_chain_def fmlookup_of_list Let_def eval_nat_numeral, simp add: ex_event_def)

theorem revocation_keeps_newer_key_witness:
  "\<exists>actors. authorized_actors_before ex_crates
      (ex_chain [[VaultImported (Sha256Hex ''00'') []], [ex_approval (ex_key 1)], [ex_approval (ex_key 2)],
        [DeviceRevoked (AppId ''d'')]]) (ex_event [EventId ''iiii''] []) = Inr actors
     \<and> AuthKeyId (''key_'' @ ex_key 2) |\<in>| actors \<and> AuthKeyId (''key_'' @ ex_key 1) |\<notin>| actors"
proof -
  note history = ex_linear_history [of "ex_approval (ex_key 1)" "ex_approval (ex_key 2)" "DeviceRevoked (AppId ''d'')"]
  have "authorized_actors_before ex_crates
      (ex_chain [[VaultImported (Sha256Hex ''00'') []], [ex_approval (ex_key 1)], [ex_approval (ex_key 2)],
        [DeviceRevoked (AppId ''d'')]]) (ex_event [EventId ''iiii''] [])
    = Inr ({|AuthKeyId ''key_owner'', AuthKeyId (''key_'' @ ex_key 2)|} |-| {|AuthKeyId (''key_'' @ ex_key 1)|})"
    by (rule revocation_keeps_newer_key [OF history]) (simp_all add: ex_key_actor signing_key_is_empty_def)
  then show ?thesis using ex_key_inject by auto
qed

theorem reapproval_after_revocation_is_ineffective_witness:
  "\<exists>actors. authorized_actors_before ex_crates
      (ex_chain [[VaultImported (Sha256Hex ''00'') []], [ex_approval (ex_key 1)], [DeviceRevoked (AppId ''d'')],
        [ex_approval (ex_key 1)]]) (ex_event [EventId ''iiii''] []) = Inr actors
     \<and> AuthKeyId (''key_'' @ ex_key 1) |\<notin>| actors"
proof -
  note history = ex_linear_history [of "ex_approval (ex_key 1)" "DeviceRevoked (AppId ''d'')" "ex_approval (ex_key 1)"]
  have "authorized_actors_before ex_crates
      (ex_chain [[VaultImported (Sha256Hex ''00'') []], [ex_approval (ex_key 1)], [DeviceRevoked (AppId ''d'')],
        [ex_approval (ex_key 1)]]) (ex_event [EventId ''iiii''] [])
    = Inr ({|AuthKeyId ''key_owner''|} |-| {|AuthKeyId (''key_'' @ ex_key 1)|})"
    by (rule reapproval_after_revocation_is_ineffective [OF history]) (simp_all add: ex_key_actor signing_key_is_empty_def)
  then show ?thesis by auto
qed

text \<open>The authorization characterization applies to the same histories.\<close>

theorem authorized_actors_characterized_witness:
  "\<exists>e. e \<in> causal_past (ex_chain [[VaultImported (Sha256Hex ''00'') []], [ex_approval (ex_key 1)],
      [ex_approval (ex_key 2)], [DeviceRevoked (AppId ''d'')]]) (ex_event [EventId ''iiii''] [])
    \<and> grants ex_crates e (AuthKeyId (''key_'' @ ex_key 2))"
proof -
  let ?g = "ex_chain [[VaultImported (Sha256Hex ''00'') []], [ex_approval (ex_key 1)], [ex_approval (ex_key 2)],
        [DeviceRevoked (AppId ''d'')]]"
  have "authorized_actors_before ex_crates ?g (ex_event [EventId ''iiii''] [])
    = Inr ({|AuthKeyId ''key_owner'', AuthKeyId (''key_'' @ ex_key 2)|} |-| {|AuthKeyId (''key_'' @ ex_key 1)|})"
    by (rule twice_approved_actors [OF ex_linear_history]) (simp_all add: ex_key_actor signing_key_is_empty_def)
  from authorized_actors_characterized [OF this, of "AuthKeyId (''key_'' @ ex_key 2)"] show ?thesis
    using ex_key_inject by auto
qed

end
