(* ===== verification/Projection.thy ===== *)
theory Projection
  imports EventGraphLaws
begin

text \<open>
  The encrypted vault state derived from the event graph (nook-event-log/src/projection.rs,
  projection/operation_application.rs, projection/security_conflicts.rs): the secrets, the key
  epoch and the vault name after the events in topological order, the conflicts between concurrent
  events, and the checkpoint that commits the current epoch.
\<close>

subsection \<open>State\<close>

datatype projected_secret_lifecycle = Live | Deleted event_id

datatype projected_secret_origin = Created | Replacement secret_id

record projected_secret =
  pj_record :: stored_secret_record
  pj_identity_fingerprint :: secret_fingerprint
  pj_fingerprint :: secret_fingerprint
  pj_created_by :: event_id
  pj_lifecycle :: projected_secret_lifecycle
  pj_origin :: projected_secret_origin

definition is_live :: "event_graph \<Rightarrow> projected_secret \<Rightarrow> bool" where
  "is_live g s =
     (case pj_lifecycle s of Live \<Rightarrow> True | Deleted by \<Rightarrow> \<not> event_is_ancestor g (pj_created_by s) by)"

record secret_replacement_conflict =
  rc_old_secret_id :: secret_id
  rc_candidates :: "(event_id, secret_id) fmap"

record security_conflict =
  sc_events :: "event_id list"
  sc_reasons :: "epoch_rotation_reason list"

datatype projected_vault_name = NameUnset | NameSet string

datatype projection_epoch = BeforeGenesis | CurrentEpoch event_id

record vault_projection =
  vp_store_id :: store_id
  vp_epoch :: projection_epoch
  vp_epoch_history :: "epoch_record list"
  vp_secrets :: "(secret_id, projected_secret) fmap"
  vp_vault_name :: projected_vault_name
  vp_replacement_conflicts :: "(secret_id, secret_replacement_conflict) fmap"
  vp_security_conflicts :: "security_conflict list"
  vp_unresolved_schema :: bool
  vp_cleared :: bool

definition before_genesis_placeholder :: store_id where
  "before_genesis_placeholder = StoreId ''store_abcdefghijk''"

definition default_projection :: vault_projection where
  "default_projection =
     \<lparr>vp_store_id = before_genesis_placeholder, vp_epoch = BeforeGenesis, vp_epoch_history = [],
      vp_secrets = fmempty, vp_vault_name = NameUnset, vp_replacement_conflicts = fmempty,
      vp_security_conflicts = [], vp_unresolved_schema = False, vp_cleared = False\<rparr>"

datatype projection_integrity = UnresolvedSchema | BlockingConflicts | Resolved

definition has_blocking_conflicts :: "vault_projection \<Rightarrow> bool" where
  "has_blocking_conflicts p \<longleftrightarrow> vp_replacement_conflicts p \<noteq> fmempty \<or> vp_security_conflicts p \<noteq> []"

definition integrity :: "vault_projection \<Rightarrow> projection_integrity" where
  "integrity p =
     (if vp_unresolved_schema p then UnresolvedSchema
      else if has_blocking_conflicts p then BlockingConflicts else Resolved)"

text \<open>\<open>collect\<close> into a BTreeMap: a later pair replaces an earlier one with its key.\<close>

definition collect_map :: "('k \<times> 'v) list \<Rightarrow> ('k, 'v) fmap" where
  "collect_map kvs = foldl (\<lambda>m (k, v). fmupd k v m) fmempty kvs"

definition live_secrets :: "vault_projection \<Rightarrow> event_graph \<Rightarrow> (string, stored_secret_record) fmap" where
  "live_secrets p g =
     collect_map (map (\<lambda>(i, s). (secret_id_str i, pj_record s))
       (filter (\<lambda>(_, s). is_live g s) (sorted_list_of_fmap (vp_secrets p))))"

subsection \<open>One operation\<close>

type_synonym replacements = "(secret_id, (event_id \<times> secret_id) list) fmap"

definition insert_secret ::
    "vault_projection \<Rightarrow> event_id \<Rightarrow> encrypted_secret_payload \<Rightarrow> projected_secret_origin \<Rightarrow> vault_projection" where
  "insert_secret p i secret origin =
     p\<lparr>vp_secrets := fmupd (sp_id secret)
         \<lparr>pj_record = payload_to_stored secret, pj_identity_fingerprint = sp_identity_fingerprint secret,
          pj_fingerprint = sp_fingerprint secret, pj_created_by = i, pj_lifecycle = Live,
          pj_origin = origin\<rparr>
         (vp_secrets p)\<rparr>"

definition insert_created ::
    "event_id \<Rightarrow> vault_projection \<Rightarrow> encrypted_secret_payload list \<Rightarrow> vault_projection" where
  "insert_created i p secrets = foldl (\<lambda>p secret. insert_secret p i secret Created) p secrets"

definition mark_deleted :: "event_id \<Rightarrow> vault_projection \<Rightarrow> secret_id \<Rightarrow> vault_projection" where
  "mark_deleted i p sid =
     (case fmlookup (vp_secrets p) sid of
        Some entry \<Rightarrow> p\<lparr>vp_secrets := fmupd sid (entry\<lparr>pj_lifecycle := Deleted i\<rparr>) (vp_secrets p)\<rparr>
      | None \<Rightarrow> p)"

text \<open>The chosen secret of a resolved conflict is looked up and ignored.\<close>

fun apply_operation ::
    "event_id \<Rightarrow> vault_operation \<Rightarrow> vault_projection \<times> replacements \<Rightarrow> vault_projection \<times> replacements" where
  "apply_operation i (VaultImported _ secrets) (p, rs) = (insert_created i p secrets, rs)"
| "apply_operation i (EpochCheckpoint secrets _ _ vault_name) (p, rs) =
     (insert_created i
        (p\<lparr>vp_secrets := fmempty,
           vp_vault_name := (case vault_name of Named name \<Rightarrow> NameSet name | Unnamed \<Rightarrow> NameUnset)\<rparr>)
        secrets, rs)"
| "apply_operation i (SecretCreated secret) (p, rs) = (insert_secret p i secret Created, rs)"
| "apply_operation i (SecretDeleted sid) (p, rs) = (mark_deleted i p sid, rs)"
| "apply_operation i (SecretReplaced old_id new_secret) (p, rs) =
     (insert_secret (mark_deleted i p old_id) i new_secret (Replacement old_id),
      fmupd old_id (get_or_empty rs old_id @ [(i, sp_id new_secret)]) rs)"
| "apply_operation i (SecretConflictResolved old_id _ rejected) (p, rs) =
     (let p' = foldl (mark_deleted i) p rejected
      in (p'\<lparr>vp_replacement_conflicts := fmdrop old_id (vp_replacement_conflicts p')\<rparr>, fmdrop old_id rs))"
| "apply_operation i (VaultNamed name) (p, rs) = (p\<lparr>vp_vault_name := NameSet name\<rparr>, rs)"
| "apply_operation i VaultCleared (p, rs) = (p\<lparr>vp_cleared := True, vp_secrets := fmempty\<rparr>, rs)"
| "apply_operation i _ (p, rs) = (p, rs)"

subsection \<open>The loop over the events\<close>

record projection_state =
  st_projection :: vault_projection
  st_epoch_events :: "(event_id, epoch_rotation_reason) fmap"
  st_security_events :: "(event_id, epoch_rotation_reason) fmap"
  st_replacements :: replacements

fun is_join_approved :: "vault_operation \<Rightarrow> bool" where
  "is_join_approved (JoinApproved _ _ _ _ _ _) = True"
| "is_join_approved _ = False"

fun is_join_requested :: "vault_operation \<Rightarrow> bool" where
  "is_join_requested (JoinRequested _ _ _ _) = True"
| "is_join_requested _ = False"

text \<open>\<open>entry(k).or_insert(v)\<close>.\<close>

definition or_insert :: "'k \<Rightarrow> 'v \<Rightarrow> ('k, 'v) fmap \<Rightarrow> ('k, 'v) fmap" where
  "or_insert k v m = (case fmlookup m k of Some _ \<Rightarrow> m | None \<Rightarrow> fmupd k v m)"

definition note_security_event ::
    "event_id \<Rightarrow> vault_operation \<Rightarrow> (event_id, epoch_rotation_reason) fmap \<Rightarrow> (event_id, epoch_rotation_reason) fmap" where
  "note_security_event i op m =
     (let m' = (case operation_starts_epoch op of Rotated reason \<Rightarrow> fmupd i reason m | Unchanged \<Rightarrow> m)
      in if is_join_approved op then or_insert i AccessGrant m'
         else if \<not> (is_epoch_checkpoint op \<or> is_join_requested op) then or_insert i ConcurrentVaultMutation m'
         else m')"

definition project_operation :: "event_id \<Rightarrow> projection_state \<Rightarrow> vault_operation \<Rightarrow> projection_state" where
  "project_operation i s op =
     (let epochs = (case operation_starts_epoch op of
                      Rotated reason \<Rightarrow> fmupd i reason (st_epoch_events s)
                    | Unchanged \<Rightarrow> st_epoch_events s);
          applied = apply_operation i op (st_projection s, st_replacements s)
      in s\<lparr>st_projection := fst applied, st_epoch_events := epochs,
           st_security_events := note_security_event i op (st_security_events s),
           st_replacements := snd applied\<rparr>)"

definition project_epoch :: "crates \<Rightarrow> event_id \<Rightarrow> vault_event \<Rightarrow> projection_state \<Rightarrow> projection_state" where
  "project_epoch c i ev s =
     (case event_id_parse c (event_id_str (key_epoch (body ev))) of
        Inl _ \<Rightarrow> s
      | Inr epoch \<Rightarrow>
          let p = st_projection s in
          if vp_epoch p = CurrentEpoch epoch then s
          else
            let history =
                  (case fmlookup (st_epoch_events s) i of
                     Some reason \<Rightarrow> vp_epoch_history p @ [\<lparr>er_epoch = epoch, er_started_by = i, er_reason = reason\<rparr>]
                   | None \<Rightarrow> vp_epoch_history p)
            in s\<lparr>st_projection := p\<lparr>vp_epoch_history := history, vp_epoch := CurrentEpoch epoch\<rparr>\<rparr>)"

definition project_event ::
    "crates \<Rightarrow> event_graph \<Rightarrow> store_id \<Rightarrow> projection_state \<Rightarrow> event_id \<Rightarrow> projection_state event_result" where
  "project_event c g expected_store s i =
     (case event_lookup g i of
        UnknownEvent \<Rightarrow> Inl (MissingEvent (event_id_str i))
      | Recorded ev \<Rightarrow>
          if store_id (body ev) \<noteq> expected_store then Inl ProjectionStoreMismatch
          else if \<not> schema_is_supported (schema_version (body ev))
          then Inr (s\<lparr>st_projection := (st_projection s)\<lparr>vp_unresolved_schema := True\<rparr>\<rparr>)
          else Inr (project_epoch c i ev (foldl (project_operation i) s (operations (body ev)))))"

definition projection_start :: "store_id \<Rightarrow> projection_state" where
  "projection_start st =
     \<lparr>st_projection = default_projection\<lparr>vp_store_id := st\<rparr>, st_epoch_events = fmempty,
      st_security_events = fmempty, st_replacements = fmempty\<rparr>"

definition project_events ::
    "crates \<Rightarrow> event_graph \<Rightarrow> store_id \<Rightarrow> event_id list \<Rightarrow> projection_state event_result" where
  "project_events c g st order = fold_result (project_event c g st) (projection_start st) order"

subsection \<open>Conflicts\<close>

fun security_conflicts_of ::
    "event_graph \<Rightarrow> (event_id, epoch_rotation_reason) fmap \<Rightarrow> event_id list \<Rightarrow> security_conflict list" where
  "security_conflicts_of g reasons [] = []"
| "security_conflicts_of g reasons (left # ids) =
     map (\<lambda>right. \<lparr>sc_events = [left, right],
                   sc_reasons = [the (fmlookup reasons left), the (fmlookup reasons right)]\<rparr>)
       (filter (\<lambda>right. events_are_concurrent g left right
          \<and> concurrent_epoch_rotations_conflict (the (fmlookup reasons left)) (the (fmlookup reasons right))) ids)
     @ security_conflicts_of g reasons ids"

definition detect_security_conflicts ::
    "event_graph \<Rightarrow> (event_id, epoch_rotation_reason) fmap \<Rightarrow> security_conflict list" where
  "detect_security_conflicts g reasons = security_conflicts_of g reasons (keys_of reasons)"

definition has_concurrent :: "event_graph \<Rightarrow> event_id list \<Rightarrow> bool" where
  "has_concurrent g ids \<longleftrightarrow>
     list_ex (\<lambda>left. list_ex (\<lambda>right. left \<noteq> right \<and> events_are_concurrent g left right) ids) ids"

definition detect_replacement_conflicts ::
    "event_graph \<Rightarrow> replacements \<Rightarrow> (secret_id, secret_replacement_conflict) fmap" where
  "detect_replacement_conflicts g rs =
     foldl (\<lambda>conflicts (old_id, entries).
         if has_concurrent g (map fst entries) \<and> length entries > 1
         then fmupd old_id \<lparr>rc_old_secret_id = old_id, rc_candidates = collect_map entries\<rparr> conflicts
         else conflicts)
       fmempty (sorted_list_of_fmap rs)"

definition projection_finish :: "event_graph \<Rightarrow> projection_state \<Rightarrow> vault_projection" where
  "projection_finish g s =
     (st_projection s)\<lparr>vp_security_conflicts := detect_security_conflicts g (st_security_events s),
        vp_replacement_conflicts := detect_replacement_conflicts g (st_replacements s)\<rparr>"

definition from_graph :: "crates \<Rightarrow> event_graph \<Rightarrow> string \<Rightarrow> vault_projection event_result" where
  "from_graph c g st =
     and_then (validated (store_id_parse st)) (\<lambda>expected_store.
     and_then (event_topological_order c g) (\<lambda>order.
     and_then (project_events c g expected_store order) (\<lambda>s.
       Inr (projection_finish g s))))"

definition assert_replay_invariant :: "crates \<Rightarrow> event_graph \<Rightarrow> string \<Rightarrow> unit event_result" where
  "assert_replay_invariant c g st =
     and_then (from_graph c g st) (\<lambda>baseline.
       fold_result (\<lambda>_ _.
           and_then (from_graph c g st) (\<lambda>again.
             if again \<noteq> baseline then Inl ProjectionReplayMismatch else Inr ()))
         () [0 ..< (3 :: nat)])"

subsection \<open>The checkpoint of the current epoch\<close>

datatype current_checkpoint = Unrotated | Committed event_id

definition collect_checkpoint :: "event_graph \<Rightarrow> event_id list \<Rightarrow> event_id \<Rightarrow> event_id list event_result" where
  "collect_checkpoint g checkpoints i =
     (case event_lookup g i of
        UnknownEvent \<Rightarrow> Inl (MissingEvent (event_id_str i))
      | Recorded ev \<Rightarrow>
          if \<not> list_ex is_epoch_checkpoint (operations (body ev)) then Inr checkpoints
          else if parents (body ev) \<noteq> [key_epoch (body ev)]
          then Inl (InvalidEpochCheckpointStructure ''checkpoint does not directly commit its key epoch'')
          else Inr (checkpoints @ [i]))"

definition latest_checkpoints :: "event_graph \<Rightarrow> event_id list \<Rightarrow> event_id list" where
  "latest_checkpoints g checkpoints =
     filter (\<lambda>candidate.
       \<not> list_ex (\<lambda>other. candidate \<noteq> other \<and> event_is_ancestor g candidate other) checkpoints) checkpoints"

definition current_epoch_checkpoint :: "crates \<Rightarrow> event_graph \<Rightarrow> current_checkpoint event_result" where
  "current_epoch_checkpoint c g =
     and_then (event_topological_order c g) (\<lambda>order.
     and_then (fold_result (collect_checkpoint g) [] order) (\<lambda>checkpoints.
       let current = latest_checkpoints g checkpoints
       in if length current > 1
          then Inl (InvalidEpochCheckpointStructure ''multiple concurrent epoch checkpoints remain'')
          else case current of
              checkpoint # _ \<Rightarrow> Inr (Committed checkpoint)
            | [] \<Rightarrow> Inr Unrotated))"

end
