(* ===== verification/EventStore.thy ===== *)
theory EventStore
  imports ReplicaStore Projection "HOL-Library.Product_Lexorder"
begin

text \<open>
  The local event store and its union with a provider (nook-event-log/src/store.rs, store/lookup.rs,
  store/outbox.rs, store/transitions.rs, store/remote.rs, remote_epoch_visibility.rs): stored YAML
  bytes by event id, loading them into a graph, appending a signed event, checking and classifying
  remote records, hiding incomplete security transitions, and the prepared union.
\<close>

subsection \<open>State, requests and outcomes\<close>

record local_event_store =
  ls_replica :: "event_id replica_store"

datatype local_event_bytes = UnknownLocalEvent | StoredLocal bytes

record local_event_write =
  lw_event_id :: event_id
  lw_bytes :: bytes

record local_outbox_write =
  low_provider_id :: string
  low_event :: local_event_write

record local_outbox_removal =
  lor_provider_id :: string
  lor_event_id :: event_id

record local_event_append =
  la_event :: vault_event
  la_store_id :: string

record local_event_append_outcome =
  ao_store :: local_event_store
  ao_event_id :: event_id
  ao_status :: event_insert_status

datatype local_outbox_removal_result = NotQueuedLocally | RemovedLocally bytes

record local_outbox_removed =
  lr_store :: local_event_store
  lr_removal :: local_outbox_removal_result

record local_event_store_rejection =
  sr_store :: local_event_store
  sr_cause :: event_error

definition new_local_store :: local_event_store where
  "new_local_store = \<lparr>ls_replica = new_store\<rparr>"

subsection \<open>Store and outbox\<close>

definition local_put_event :: "local_event_store \<Rightarrow> local_event_write \<Rightarrow> local_event_store" where
  "local_put_event s request =
     s\<lparr>ls_replica := put_bytes (ls_replica s) (lw_event_id request) (lw_bytes request)\<rparr>"

definition local_get_bytes :: "local_event_store \<Rightarrow> event_id \<Rightarrow> local_event_bytes" where
  "local_get_bytes s i =
     (case get_bytes (ls_replica s) i of
        UnknownEventBytes \<Rightarrow> UnknownLocalEvent
      | StoredBytes bs \<Rightarrow> StoredLocal bs)"

definition local_event_ids :: "local_event_store \<Rightarrow> event_id list" where
  "local_event_ids s = event_ids (ls_replica s)"

definition local_missing_event_ids :: "local_event_store \<Rightarrow> event_id fset \<Rightarrow> event_id list" where
  "local_missing_event_ids s remote_ids = missing_event_ids (ls_replica s) remote_ids"

definition local_queue_outbox :: "local_event_store \<Rightarrow> local_outbox_write \<Rightarrow> local_event_store" where
  "local_queue_outbox s request =
     s\<lparr>ls_replica := rwr_store (queue_outbox (ls_replica s)
        \<lparr>ow_provider_id = low_provider_id request,
         ow_event = \<lparr>rw_event_id = lw_event_id (low_event request), rw_bytes = lw_bytes (low_event request)\<rparr>\<rparr>)\<rparr>"

definition local_dequeue_outbox :: "local_event_store \<Rightarrow> local_outbox_removal \<Rightarrow> local_outbox_removed" where
  "local_dequeue_outbox s request =
     (let removed = dequeue_outbox (ls_replica s)
            \<lparr>or_provider_id = lor_provider_id request, or_event_id = lor_event_id request\<rparr>
      in \<lparr>lr_store = s\<lparr>ls_replica := rd_store removed\<rparr>,
          lr_removal = (case rd_removal removed of NotQueued \<Rightarrow> NotQueuedLocally | Removed bs \<Rightarrow> RemovedLocally bs)\<rparr>)"

definition local_pending_outbox :: "local_event_store \<Rightarrow> string \<Rightarrow> (event_id \<times> bytes) list" where
  "local_pending_outbox s provider = pending_outbox (ls_replica s) provider"

subsection \<open>Loading and appending\<close>

text \<open>One insertion with the rejected graph dropped, as \<open>map_err(EventGraphRejection::into_cause)\<close>.\<close>

definition insert_next :: "crates \<Rightarrow> string \<Rightarrow> event_graph \<Rightarrow> vault_event \<Rightarrow> event_graph event_result" where
  "insert_next c st g ev =
     (case insert_vault_event c g \<lparr>gi_event = ev, gi_expected_store_id = st\<rparr> of
        Inl (_, cause) \<Rightarrow> Inl cause
      | Inr (g', _) \<Rightarrow> Inr g')"

definition load_event :: "crates \<Rightarrow> local_event_store \<Rightarrow> string \<Rightarrow> event_graph \<Rightarrow> event_id \<Rightarrow> event_graph event_result" where
  "load_event c s st g i =
     (case get_bytes (ls_replica s) i of
        UnknownEventBytes \<Rightarrow> Inl (MissingEvent (event_id_str i))
      | StoredBytes bs \<Rightarrow> and_then (parse_event_storage_bytes c bs) (insert_next c st g))"

definition load_graph :: "crates \<Rightarrow> local_event_store \<Rightarrow> string \<Rightarrow> event_graph event_result" where
  "load_graph c s st = fold_result (load_event c s st) new_event_graph (event_ids (ls_replica s))"

definition prepare_append ::
    "crates \<Rightarrow> local_event_store \<Rightarrow> local_event_append \<Rightarrow> (event_id \<times> bytes \<times> event_insert_status) event_result" where
  "prepare_append c s request =
     (let ev = la_event request in
      and_then (validated (store_id_parse (la_store_id request))) (\<lambda>expected.
      and_then (validate_envelope c ev expected) (\<lambda>i.
      and_then (serialize_event_storage_yaml c ev) (\<lambda>bs.
        if contains_event (ls_replica s) i then Inr (i, bs, EventDuplicate)
        else
          and_then (load_graph c s (la_store_id request)) (\<lambda>g.
            case insert_vault_event c g \<lparr>gi_event = ev, gi_expected_store_id = la_store_id request\<rparr> of
              Inl (_, cause) \<Rightarrow> Inl cause
            | Inr (_, status) \<Rightarrow> Inr (i, bs, status))))))"

definition append_event ::
    "crates \<Rightarrow> local_event_store \<Rightarrow> local_event_append
      \<Rightarrow> (local_event_store_rejection, local_event_append_outcome) result"
where
  "append_event c s request =
     (case prepare_append c s request of
        Inl cause \<Rightarrow> Inl \<lparr>sr_store = s, sr_cause = cause\<rparr>
      | Inr (i, bs, status) \<Rightarrow>
          let s' = (case status of
                EventQuarantined _ \<Rightarrow> s
              | EventDuplicate \<Rightarrow> s
              | _ \<Rightarrow> local_put_event s \<lparr>lw_event_id = i, lw_bytes = bs\<rparr>)
          in Inr \<lparr>ao_store = s', ao_event_id = i, ao_status = status\<rparr>)"

subsection \<open>Checked remote events and classification\<close>

record checked_remote_event =
  cr_event :: vault_event

definition checked_remote_parse :: "crates \<Rightarrow> event_id \<Rightarrow> bytes \<Rightarrow> checked_remote_event event_result" where
  "checked_remote_parse c i bs =
     and_then (parse_remote_event_storage_bytes c bs) (\<lambda>ev.
     and_then (event_id_of c ev) (\<lambda>actual.
       if actual \<noteq> i then Inl (RemoteEventIdMismatch (event_id_str i))
       else if \<not> schema_is_supported (schema_version (body ev))
       then Inl (UnsupportedSchemaVersion (schema_version (body ev)))
       else and_then (validate_actor_signature c ev) (\<lambda>_. Inr \<lparr>cr_event = ev\<rparr>)))"

definition checked_store_id :: "checked_remote_event \<Rightarrow> store_id" where
  "checked_store_id e = store_id (body (cr_event e))"

definition belongs_to_store :: "checked_remote_event \<Rightarrow> string \<Rightarrow> bool" where
  "belongs_to_store e st \<longleftrightarrow> store_id_str (checked_store_id e) = st"

datatype remote_store_identity = EmptyIdentity | Identified string

definition remote_store_step ::
    "crates \<Rightarrow> string fset \<Rightarrow> event_id \<times> bytes \<Rightarrow> string fset event_result" where
  "remote_store_step c ids record =
     and_then (checked_remote_parse c (fst record) (snd record)) (\<lambda>e.
       Inr (finsert (store_id_str (checked_store_id e)) ids))"

definition trimmed_identity :: "remote_store_identity \<Rightarrow> remote_store_identity" where
  "trimmed_identity active =
     (case active of
        Identified st \<Rightarrow> if trim st \<noteq> [] then Identified (trim st) else EmptyIdentity
      | EmptyIdentity \<Rightarrow> EmptyIdentity)"

definition classify_remote ::
    "crates \<Rightarrow> (event_id \<times> bytes) list \<Rightarrow> remote_store_identity \<Rightarrow> remote_event_log_classification event_result" where
  "classify_remote c events active =
     and_then (fold_result (remote_store_step c) {||} events) (\<lambda>remote_ids.
       if remote_ids = {||} then Inr RemoteEmpty
       else if fcard remote_ids > 1 then Inr (RemoteMultipleStores (elems remote_ids))
       else case elems remote_ids of
           [] \<Rightarrow> Inl (MissingEvent ''provider-store-id'')
         | remote # _ \<Rightarrow>
             (case trimmed_identity active of
                Identified local_id \<Rightarrow>
                  if local_id \<noteq> remote then Inr (RemoteDifferentStore local_id remote)
                  else Inr (RemoteSameStore remote)
              | EmptyIdentity \<Rightarrow> Inr (RemoteSameStore remote)))"

subsection \<open>Visibility of security epochs\<close>

fun is_device_revoked :: "vault_operation \<Rightarrow> bool" where
  "is_device_revoked (DeviceRevoked _) = True"
| "is_device_revoked _ = False"

definition starts_security_epoch :: "vault_event \<Rightarrow> bool" where
  "starts_security_epoch ev \<longleftrightarrow> list_ex is_device_revoked (operations (body ev))"

datatype checkpoint_commit = NotCheckpoint | Commits event_id

definition committed_epoch_parent :: "vault_event \<Rightarrow> checkpoint_commit" where
  "committed_epoch_parent ev =
     (case parents (body ev) of
        [parent] \<Rightarrow>
          if list_ex is_epoch_checkpoint (operations (body ev)) \<and> key_epoch (body ev) = parent
          then Commits parent else NotCheckpoint
      | _ \<Rightarrow> NotCheckpoint)"

definition commit_parent :: "vault_event \<Rightarrow> event_id option" where
  "commit_parent ev = (case committed_epoch_parent ev of Commits p \<Rightarrow> Some p | NotCheckpoint \<Rightarrow> None)"

definition collect_local ::
    "crates \<Rightarrow> local_event_store \<Rightarrow> event_id fset \<Rightarrow> (event_id, vault_event) fmap \<Rightarrow> event_id
      \<Rightarrow> (event_id, vault_event) fmap event_result"
where
  "collect_local c s excluded events i =
     (if i |\<in>| excluded then Inr events
      else case local_get_bytes s i of
          UnknownLocalEvent \<Rightarrow> Inl (MissingEvent (event_id_str i))
        | StoredLocal bs \<Rightarrow> and_then (parse_event_storage_bytes c bs) (\<lambda>ev. Inr (fmupd i ev events)))"

definition collect_remote ::
    "crates \<Rightarrow> event_id fset \<Rightarrow> (event_id, vault_event) fmap \<Rightarrow> event_id \<times> bytes
      \<Rightarrow> (event_id, vault_event) fmap event_result"
where
  "collect_remote c excluded events record =
     (if fst record |\<in>| excluded \<or> fst record |\<in>| fmdom events then Inr events
      else and_then (parse_event_storage_bytes c (snd record)) (\<lambda>ev. Inr (fmupd (fst record) ev events)))"

definition build_local_graph ::
    "crates \<Rightarrow> local_event_store \<Rightarrow> (event_id \<times> bytes) list \<Rightarrow> string \<Rightarrow> event_id fset
      \<Rightarrow> event_graph event_result"
where
  "build_local_graph c s remote st excluded =
     and_then (fold_result (collect_local c s excluded) fmempty (local_event_ids s)) (\<lambda>events.
     and_then (fold_result (collect_remote c excluded) events remote) (\<lambda>events.
       fold_result (insert_next c st) new_event_graph (map snd (sorted_list_of_fmap events))))"

definition incomplete_security_transition_events :: "crates \<Rightarrow> event_graph \<Rightarrow> event_id fset event_result" where
  "incomplete_security_transition_events c g =
     (let committed = fset_of_list (List.map_filter commit_parent (applicable_events g)) in
      and_then (traverse (event_id_of c) (filter starts_security_epoch (applicable_events g))) (\<lambda>triggers.
        let incomplete = filter (\<lambda>i. i |\<notin>| committed) triggers
        in Inr (fset_of_list (filter
             (\<lambda>i. list_ex (\<lambda>trigger. trigger = i \<or> event_is_ancestor g trigger i) incomplete)
             (map fst (sorted_list_of_fmap (eg_events g)))))))"

definition visibility_gated_remote_events ::
    "crates \<Rightarrow> local_event_store \<Rightarrow> (event_id \<times> bytes) list \<Rightarrow> string \<Rightarrow> (event_id \<times> bytes) list event_result" where
  "visibility_gated_remote_events c s remote st =
     and_then (build_local_graph c s remote st {||}) (\<lambda>g.
     and_then (incomplete_security_transition_events c g) (\<lambda>hidden.
     and_then (traverse (\<lambda>(i, bs). and_then (parse_event_storage_bytes c bs) (\<lambda>ev. Inr (i, bs, ev))) remote) (\<lambda>events.
       Inr (map (\<lambda>(i, bs, _). (i, bs)) (filter (\<lambda>(i, _, _). i |\<notin>| hidden) events)))))"

subsection \<open>Order of provider writes\<close>

definition publish_priority :: "vault_event \<Rightarrow> nat" where
  "publish_priority ev =
     (case committed_epoch_parent ev of
        Commits _ \<Rightarrow> 0
      | NotCheckpoint \<Rightarrow> if starts_security_epoch ev then 2 else 1)"

definition note_priority ::
    "crates \<Rightarrow> (event_id, nat) fmap \<Rightarrow> event_id \<times> bytes \<Rightarrow> (event_id, nat) fmap event_result" where
  "note_priority c priorities record =
     and_then (parse_event_storage_bytes c (snd record)) (\<lambda>ev.
       Inr (fmupd (fst record) (publish_priority ev) priorities))"

text \<open>\<open>sort_by_key\<close> is stable.\<close>

definition order_writes :: "crates \<Rightarrow> (event_id \<times> bytes) list \<Rightarrow> (event_id \<times> bytes) list event_result" where
  "order_writes c events =
     and_then (fold_result (note_priority c) fmempty events) (\<lambda>priorities.
       Inr (sort_key (\<lambda>(i, _). (case fmlookup priorities i of Some p \<Rightarrow> p | None \<Rightarrow> 1, i)) events))"

subsection \<open>Union with a provider\<close>

record local_remote_union =
  ru_remote_events :: "(event_id \<times> bytes) list"
  ru_store_id :: string

record local_remote_union_outcome =
  uo_store :: local_event_store
  uo_imported :: "event_id list"
  uo_heads :: "string list"

record prepared_remote_union =
  pu_local :: local_event_store
  pu_additions :: "(event_id \<times> bytes) list"
  pu_excluded :: "event_id fset"
  pu_heads :: "string list"

definition check_remote_event :: "crates \<Rightarrow> store_id \<Rightarrow> unit \<Rightarrow> event_id \<times> bytes \<Rightarrow> unit event_result" where
  "check_remote_event c expected _ record =
     and_then (parse_remote_event_storage_bytes c (snd record)) (\<lambda>ev.
     and_then (event_id_of c ev) (\<lambda>actual.
       if actual \<noteq> fst record then Inl (RemoteEventIdMismatch (event_id_str (fst record)))
       else and_then (validate_envelope c ev expected) (\<lambda>_. Inr ())))"

definition add_remote ::
    "local_event_store \<Rightarrow> (event_id \<times> bytes) list \<times> event_id fset \<Rightarrow> event_id \<times> bytes
      \<Rightarrow> (event_id \<times> bytes) list \<times> event_id fset"
where
  "add_remote s acc record =
     (if local_get_bytes s (fst record) \<noteq> UnknownLocalEvent \<or> fst record |\<in>| snd acc then acc
      else (fst acc @ [record], finsert (fst record) (snd acc)))"

definition prepare_union_parts ::
    "crates \<Rightarrow> local_event_store \<Rightarrow> local_remote_union
      \<Rightarrow> ((event_id \<times> bytes) list \<times> event_id fset \<times> string list) event_result"
where
  "prepare_union_parts c s request =
     (let remote = ru_remote_events request; st = ru_store_id request in
      and_then (validated (store_id_parse st)) (\<lambda>expected.
      and_then (fold_result (check_remote_event c expected) () remote) (\<lambda>_.
      and_then (visibility_gated_remote_events c s remote st) (\<lambda>visible.
        let additions = fst (foldl (add_remote s) ([], {||}) visible) in
        and_then (build_local_graph c s additions st {||}) (\<lambda>g.
        and_then (incomplete_security_transition_events c g) (\<lambda>incomplete.
          let excluded = fmdom (quarantined g) |\<union>| incomplete in
          and_then (build_local_graph c s additions st excluded) (\<lambda>accepted.
            Inr (filter (\<lambda>(i, _). i |\<notin>| excluded) additions, excluded,
                 map event_id_str (event_heads accepted)))))))))"

definition prepare_union ::
    "crates \<Rightarrow> local_event_store \<Rightarrow> local_remote_union
      \<Rightarrow> (local_event_store_rejection, prepared_remote_union) result"
where
  "prepare_union c s request =
     (case prepare_union_parts c s request of
        Inr (additions, excluded, head_ids) \<Rightarrow>
          Inr \<lparr>pu_local = s, pu_additions = additions, pu_excluded = excluded, pu_heads = head_ids\<rparr>
      | Inl cause \<Rightarrow> Inl \<lparr>sr_store = s, sr_cause = cause\<rparr>)"

definition commit_union :: "prepared_remote_union \<Rightarrow> local_remote_union_outcome" where
  "commit_union p =
     (let start = (pu_local p)\<lparr>ls_replica := excluding_events (ls_replica (pu_local p)) (pu_excluded p)\<rparr>;
          (imported, s) = foldl (\<lambda>(imported, s) (i, bs).
              (imported @ [i], local_put_event s \<lparr>lw_event_id = i, lw_bytes = bs\<rparr>))
            ([], start) (pu_additions p)
      in \<lparr>uo_store = s, uo_imported = imported, uo_heads = pu_heads p\<rparr>)"

definition union_remote ::
    "crates \<Rightarrow> local_event_store \<Rightarrow> local_remote_union
      \<Rightarrow> (local_event_store_rejection, local_remote_union_outcome) result"
where
  "union_remote c s request = and_then (prepare_union c s request) (\<lambda>p. Inr (commit_union p))"

end
