(* ===== verification/EventLogExamples.thy ===== *)
theory EventLogExamples
  imports EventGraphLaws
begin

text \<open>
  Logs of several events as histories: inserting an authorized event whose parents are present keeps
  a graph intact, so a list of events by one owner, each on top of earlier ones, is a history.  The
  crates of a log write the JSON of its n-th body as the byte n.
\<close>

subsection \<open>Inserting on top of an intact graph\<close>

lemma visit_order_frame:
  assumes "\<forall>j e. fmlookup events j = Some e \<longrightarrow> i \<notin> set (parents (body e))" and "i \<notin> set s"
  shows "visit_order (fmupd i ev events) v s = visit_order events v s \<and> i \<notin> set (visit_order events v s)"
  using assms by (induction events v s rule: visit_order.induct) (auto split: option.splits)

definition intact :: "crates \<Rightarrow> event_graph \<Rightarrow> bool" where
  "intact c g \<longleftrightarrow> event_graph_wf c g \<and> settled c g \<and> cg_quarantined (eg_causal g) = fmempty
     \<and> (\<forall>i ev. fmlookup (eg_events g) i = Some ev \<longrightarrow> set (parents (body ev)) \<subseteq> fset (fmdom (eg_events g)))"

lemma intact_new: "intact c new_event_graph"
  using event_history_wf [OF history_new, of c] by (simp add: intact_def new_event_graph_def new_graph_def)

lemma next_rel_closed:
  assumes "\<And>x y. (x, y) \<in> R \<Longrightarrow> y \<in> D" and "S \<subseteq> D"
  shows "R\<^sup>* `` S \<subseteq> D"
proof -
  have "y \<in> D" if "(x, y) \<in> R\<^sup>*" "x \<in> D" for x y
    using that by (induction rule: rtrancl_induct) (auto dest: assms(1))
  then show ?thesis using assms(2) by auto
qed

lemma intact_closed:
  assumes "intact c g" and "set ps \<subseteq> fset (fmdom (eg_events g))"
  shows "ancestor_ids_present (eg_causal g) ps"
proof -
  have lookup: "\<forall>i. fmlookup (cg_parents (eg_causal g)) i
        = map_option (\<lambda>ev. normalize_parents (parents (body ev))) (fmlookup (eg_events g) i)"
    and closed: "\<forall>i ev. fmlookup (eg_events g) i = Some ev \<longrightarrow> set (parents (body ev)) \<subseteq> fset (fmdom (eg_events g))"
    using assms(1) by (auto simp: intact_def event_graph_wf_def)
  have dom: "fset (fmdom (cg_parents (eg_causal g))) = fset (fmdom (eg_events g))"
    using lookup by (auto simp: fmlookup_dom_iff)
  have "y \<in> fset (fmdom (eg_events g))" if "(x, y) \<in> next_rel (cg_parents (eg_causal g))" for x y
    using that lookup closed by (fastforce simp: next_rel_iff normalize_parents_def)
  then show ?thesis
    unfolding ancestor_ids_present_iff dom using assms(2) by (intro next_rel_closed) auto
qed

lemma quarantine_pass_retain:
  "(\<And>i. i \<in> set is \<Longrightarrow> classify_event_quarantine c g i = Inr Retain) \<Longrightarrow> quarantine_pass c g b is = Inr (g, b)"
  by (induction "is") auto

text \<open>The event graph with one more event, before quarantine.\<close>

definition extended :: "event_graph \<Rightarrow> event_id \<Rightarrow> vault_event \<Rightarrow> event_graph" where
  "extended g i ev = g\<lparr>eg_events := fmupd i ev (eg_events g),
     eg_causal := ci_graph (insert_event (eg_causal g) \<lparr>ins_id = i, ins_parents = parents (body ev)\<rparr>)\<rparr>"

lemma extended_unquarantined:
  assumes intact: "intact c g" and new: "fmlookup (eg_events g) i = None"
    and parents: "set (parents (body ev)) \<subseteq> fset (fmdom (eg_events g))"
    and id: "body_event_id c (body ev) = Inr i"
  shows "cg_quarantined (eg_causal (extended g i ev)) = fmempty" and "event_graph_wf c (extended g i ev)"
proof -
  have wf: "event_graph_wf c g" and none: "cg_quarantined (eg_causal g) = fmempty"
    and closed: "\<And>j e. fmlookup (eg_events g) j = Some e \<Longrightarrow> set (parents (body e)) \<subseteq> fset (fmdom (eg_events g))"
    using intact by (auto simp: intact_def)
  show ext: "event_graph_wf c (extended g i ev)"
    unfolding extended_def by (rule event_graph_wf_insert [OF wf new id])
  let ?R = "next_rel (cg_parents (eg_causal g))" and ?h = "eg_causal (extended g i ev)"
  have causal: "wf_graph (eg_causal g)" "wf_graph ?h" using wf ext by (auto simp: event_graph_wf_def)
  have lookup: "\<And>j. fmlookup (cg_parents (eg_causal g)) j
        = map_option (\<lambda>ev. normalize_parents (parents (body ev))) (fmlookup (eg_events g) j)"
    using wf by (simp add: event_graph_wf_def)
  have new': "i |\<notin>| fmdom (cg_parents (eg_causal g))" using new lookup by (simp add: fmlookup_dom_iff)
  have roots_g: "fmdom (cg_quarantine_roots (eg_causal g)) = {||}" and acyclic: "\<And>x. (x, x) \<notin> ?R\<^sup>+"
    using wf_graph_quarantined [OF causal(1)] none by (auto intro!: fset_eqI)
  have parents_h: "cg_parents ?h = fmupd i (normalize_parents (parents (body ev))) (cg_parents (eg_causal g))"
    using insert_event_parents_new [of "eg_causal g" "\<lparr>ins_id = i, ins_parents = parents (body ev)\<rparr>"] new'
    by (simp add: extended_def fmdom_notD)
  have roots_h: "cg_quarantine_roots ?h = cg_quarantine_roots (eg_causal g)"
    using new' by (simp add: extended_def insert_event_def Let_def fmdom_notD)
  let ?R' = "next_rel (cg_parents ?h)"
  have R': "?R' = ?R \<union> {i} \<times> set (parents (body ev))"
    using next_rel_fmupd_new [OF new'] by (simp add: parents_h normalize_parents_def)
  have target: "(x, y) \<in> ?R' \<Longrightarrow> y \<noteq> i" for x y
    using closed parents new lookup by (fastforce simp: R' next_rel_iff normalize_parents_def fmlookup_dom_iff)
  have "(x, x) \<notin> ?R'\<^sup>+" for x
  proof
    assume cycle: "(x, x) \<in> ?R'\<^sup>+"
    have "(x, y) \<in> ?R\<^sup>+ \<or> x = i" if "(x, y) \<in> ?R'\<^sup>+" for y
      using that
    proof (induction rule: trancl_induct)
      case (step y z)
      have "y \<noteq> i" using step.hyps(1) target by (metis tranclE)
      then have "(y, z) \<in> ?R" using step.hyps(2) by (auto simp: R')
      then show ?case using step.IH by auto
    qed (auto simp: R')
    moreover have "x \<noteq> i" using cycle target by (metis tranclE)
    ultimately have "(x, x) \<in> ?R\<^sup>+" using cycle by blast
    then show False using acyclic by blast
  qed
  then have "fmdom (cg_quarantined ?h) = {||}"
    using wf_graph_quarantined [OF causal(2)] roots_g by (auto simp: roots_h intro!: fset_eqI)
  then show "cg_quarantined ?h = fmempty" by (metis fmdom_empty fmdom_notD fmempty_lookup fmap_ext fempty_iff)
qed

text \<open>Events recorded before a new one keep their classification.\<close>

lemma classify_frame:
  assumes intact: "intact c g" and new: "fmlookup (eg_events g) i = None"
    and j: "fmlookup (eg_events g) j = Some e"
    and h: "eg_events h = fmupd i ev (eg_events g)"
  shows "validate_event_actor_authorized c h e = validate_event_actor_authorized c g e"
    and "validate_epoch_checkpoint_structure h e = validate_epoch_checkpoint_structure g e"
proof -
  have wf: "event_graph_wf c g"
    and closed: "\<And>j e. fmlookup (eg_events g) j = Some e \<Longrightarrow> set (parents (body e)) \<subseteq> fset (fmdom (eg_events g))"
    using intact by (auto simp: intact_def)
  have not_parent: "\<forall>j e. fmlookup (eg_events g) j = Some e \<longrightarrow> i \<notin> set (parents (body e))"
    using closed new by (fastforce simp: fmlookup_dom_iff)
  have stack: "i \<notin> set (rev (parents (body e)))" using not_parent j by auto
  note frame = visit_order_frame [OF not_parent stack, of ev "{||}"]
  have evidence: "evidence_loop (eg_events h) {||} (rev (parents (body e)))
      = evidence_loop (eg_events g) {||} (rev (parents (body e)))"
    unfolding evidence_loop_visits h using frame by (fastforce split: if_splits)
  have loop: "authorized_loop c (eg_events h) {||} (rev (parents (body e))) no_authorization
      = authorized_loop c (eg_events g) {||} (rev (parents (body e))) no_authorization"
    unfolding authorized_loop_visits h using frame by (auto intro!: fold_result_cong)
  show "validate_event_actor_authorized c h e = validate_event_actor_authorized c g e"
    unfolding validate_event_actor_authorized_def is_self_signed_membership_event_def
      ancestry_has_sentinel_architecture_evidence_def authorized_actors_before_def evidence loop by (rule refl)
  have "fmlookup (eg_events h) p = fmlookup (eg_events g) p"
    if "epoch_checkpoint_requirement (body e) = Inr (SecurityRotationParent p)" for p
  proof -
    have "p \<in> set (parents (body e))"
      using that by (auto simp: epoch_checkpoint_requirement_def Let_def split: if_splits list.splits)
    then have "p \<noteq> i" using not_parent j by blast
    then show ?thesis by (simp add: h)
  qed
  then show "validate_epoch_checkpoint_structure h e = validate_epoch_checkpoint_structure g e"
    unfolding validate_epoch_checkpoint_structure_def
    by (intro and_then_cong) (auto split: checkpoint_requirement.split)
qed

lemma insert_extends:
  assumes intact: "intact c g" and admitted: "event_admission c g r = Inr (AdmitInsert i)"
    and ev: "ev = gi_event r" and parents: "set (parents (body ev)) \<subseteq> fset (fmdom (eg_events g))"
    and checkpoint: "validate_epoch_checkpoint_structure (extended g i ev) ev = Inr ()"
    and authorized: "validate_event_actor_authorized c (extended g i ev) ev = Inr ()"
  shows "\<exists>status. insert_vault_event c g r = Inr (extended g i ev, status)"
    and "intact c (extended g i ev)"
proof -
  let ?h = "extended g i ev"
  have new: "fmlookup (eg_events g) i = None" and id: "body_event_id c (body ev) = Inr i"
    using admitted ev by (auto simp: event_admission_def Let_def and_then_Inr_iff split: option.splits if_splits
        dest: validate_envelope_id)
  note none = extended_unquarantined [OF intact new parents id]
  have events: "eg_events ?h = fmupd i ev (eg_events g)" by (simp add: extended_def)
  have wf: "event_graph_wf c g" and settled: "settled c g" and q: "cg_quarantined (eg_causal g) = fmempty"
    using intact by (auto simp: intact_def)
  have closed: "set (parents (body e)) \<subseteq> fset (fmdom (eg_events ?h))" if "fmlookup (eg_events ?h) j = Some e" for j e
    using that intact parents by (auto simp: events intact_def split: if_splits)
  have retain: "classify_event_quarantine c ?h j = Inr Retain" if j: "j |\<in>| fmdom (eg_events ?h)" for j
  proof -
    have passes: "validate_event_actor_authorized c ?h e = Inr () \<and> validate_epoch_checkpoint_structure ?h e = Inr ()"
      if e: "fmlookup (eg_events ?h) j = Some e" for e
    proof (cases "j = i")
      case True
      then show ?thesis using e checkpoint authorized by (simp add: events)
    next
      case False
      then have old: "fmlookup (eg_events g) j = Some e" using e by (simp add: events)
      have "ancestor_ids_present (eg_causal g) (parents (body e))"
        using intact old by (intro intact_closed [OF intact]) (auto simp: intact_def)
      then have "j \<in> set (applicable_ids (eg_causal g))"
        using old wf q by (simp add: set_applicable_ids ancestors_present_def event_graph_wf_def
            ancestor_ids_present_iff normalize_parents_def)
      from applicable_event_authorized [OF wf settled this old]
      show ?thesis using classify_frame [OF intact new old events] by simp
    qed
    then show ?thesis
      using j none(1) by (auto simp: classify_event_quarantine_def quarantined_def fmlookup_dom_iff
          classify_event_actor_quarantine_def list_ex_iff split: unit.split)
  qed
  then have "quarantine_pass c ?h False (keys_of (eg_events ?h)) = Inr (?h, False)"
    by (intro quarantine_pass_retain) simp
  then have "quarantine_rejected c ?h = Inr ?h" by (subst quarantine_rejected.simps) simp
  then have "insert_vault_event c g r
      = Inr (?h, event_status ?h i (ci_status (insert_event (eg_causal g) \<lparr>ins_id = i, ins_parents = parents (body ev)\<rparr>)))"
    using admitted ev by (simp add: insert_vault_event_def Let_def extended_def)
  then show "\<exists>status. insert_vault_event c g r = Inr (?h, status)" by blast
  show "intact c ?h"
    using none retain closed by (auto simp: intact_def settled_def)
qed

subsection \<open>Logs of one owner\<close>

text \<open>An entry of a log: the positions of its parents, the position of its key epoch, its operations.\<close>

type_synonym log_entry = "nat list \<times> nat \<times> vault_operation list"

definition log_body :: "log_entry \<Rightarrow> vault_event_body" where
  "log_body entry = (case entry of (ps, e, ops) \<Rightarrow>
     \<lparr>schema_version = 3, store_id = StoreId ''store_Abcdef_1234'', actor_id = ex_actor,
      actor_signing_public_key = public_key ex_crates ex_identity, parents = map ex_id ps,
      created_at = IsoTimestamp ''2026-06-28T00:00:00Z'', key_epoch = ex_id e, operations = ops\<rparr>)"

definition log_json :: "log_entry \<Rightarrow> json" where
  "log_json entry = canonicalize_json (to_canonical_value (log_body entry))"

definition log_event :: "log_entry list \<Rightarrow> nat \<Rightarrow> vault_event" where
  "log_event log n = \<lparr>body = log_body (log ! n),
     signature = signature_sign ex_crates [of_nat n] (signing_key ex_identity)\<rparr>"

text \<open>The YAML of the n-th event starts with the character n.\<close>

definition log_yaml :: "log_entry list \<Rightarrow> vault_event \<Rightarrow> string" where
  "log_yaml log ev = [char_of (length (takeWhile (\<lambda>k. log_event log k \<noteq> ev) [0..<length log]))]"

fun log_unyaml :: "log_entry list \<Rightarrow> string \<Rightarrow> (string, vault_event) result" where
  "log_unyaml log [] = Inl ''no event''"
| "log_unyaml log (ch # _) = Inr (log_event log (of_char ch))"

definition log_crates :: "log_entry list \<Rightarrow> crates" where
  "log_crates log = ex_crates
     \<lparr>json_to_vec := \<lambda>j. Inr [of_nat (length (takeWhile (\<lambda>entry. log_json entry \<noteq> j) log))],
      yaml_to_string := \<lambda>ev. Inr (log_yaml log ev), yaml_from_str := log_unyaml log\<rparr>"

lemma log_crates_fields [simp]:
  "hex_encode (log_crates log) = hex_encode ex_crates" "hex_decode (log_crates log) = hex_decode ex_crates"
  "b64_encode (log_crates log) = b64_encode ex_crates" "b64_decode (log_crates log) = b64_decode ex_crates"
  "sha256 (log_crates log) = sha256 ex_crates" "verifying_key_of (log_crates log) = verifying_key_of ex_crates"
  "verifying_key_from_bytes (log_crates log) = verifying_key_from_bytes ex_crates"
  "ed25519_sign (log_crates log) = ed25519_sign ex_crates" "ed25519_verify (log_crates log) = ed25519_verify ex_crates"
  by (simp_all add: log_crates_def)

lemma log_crates_laws: "crate_laws (log_crates log)"
  using ex_crates_laws by (simp add: crate_laws_def)

lemma ex_id_parses: "event_id_parse (log_crates log) (event_id_str (ex_id n)) = Inr (ex_id n)"
  using event_id_from_digest_parses [OF log_crates_laws, of "replicate 32 (of_nat n)" log]
  by (simp add: ex_id_def event_id_from_sha256_bytes_def)

text \<open>Different bodies: the entries differ in their operations or their parents.\<close>

definition log_distinct :: "log_entry list \<Rightarrow> bool" where
  "log_distinct log \<longleftrightarrow> length log < 256
     \<and> (\<forall>i<length log. \<forall>j<i. log_json (log ! j) \<noteq> log_json (log ! i))"

lemma log_body_id:
  assumes "log_distinct log" and "n < length log"
  shows "to_canonical_bytes (log_crates log) (log_body (log ! n)) = Inr [of_nat n]"
    and "body_event_id (log_crates log) (log_body (log ! n)) = Inr (ex_id n)"
proof -
  have "takeWhile (\<lambda>entry. log_json entry \<noteq> log_json (log ! n)) log = take n log"
    using assms by (intro takeWhile_eq_take_P_nth) (auto simp: log_distinct_def)
  then have "length (takeWhile (\<lambda>entry. log_json entry \<noteq> log_json (log ! n)) log) = n" using assms(2) by simp
  then show bytes: "to_canonical_bytes (log_crates log) (log_body (log ! n)) = Inr [of_nat n]"
    by (simp add: to_canonical_bytes_def canonical_from_json_def log_crates_def log_json_def)
  then show "body_event_id (log_crates log) (log_body (log ! n)) = Inr (ex_id n)"
    by (simp add: body_event_id_def event_id_from_body_bytes_def event_id_from_sha256_bytes_def ex_id_def ex_crates_def)
qed

lemma log_body_fields [simp]:
  "schema_version (log_body entry) = 3" "store_id (log_body entry) = StoreId ''store_Abcdef_1234''"
  "actor_id (log_body entry) = ex_actor" "parents (log_body entry) = map ex_id (fst entry)"
  "key_epoch (log_body entry) = ex_id (fst (snd entry))" "operations (log_body entry) = snd (snd entry)"
  "actor_signing_public_key (log_body entry) = public_key ex_crates ex_identity"
  by (simp_all add: log_body_def split: prod.split)

lemma log_event_validates:
  assumes "log_distinct log" and "n < length log"
    and ops: "\<not> list_ex is_legacy_checkpoint (snd (snd (log ! n)))"
    and root: "fst (log ! n) = [] \<Longrightarrow> list_ex is_vault_imported (snd (snd (log ! n)))"
  shows "validate_envelope (log_crates log) (log_event log n) (StoreId ''store_Abcdef_1234'') = Inr (ex_id n)"
proof -
  let ?c = "log_crates log" and ?b = "log_body (log ! n)"
  note id = log_body_id [OF assms(1,2)]
  have "sign_body ?c ?b (signing_key ex_identity) = Inr (log_event log n)"
    by (simp add: sign_body_def id log_event_def signature_sign_def from_signature_def)
  moreover have "actor_signing_public_key ?b
      = signing_key_from_trusted (hex_encode ?c (verifying_key_of ?c (signing_key ex_identity)))"
    by (simp add: public_key_def public_key_hex_def verifying_key_def)
  moreover have "actor_id_for_verifying_key ?c (verifying_key_of ?c (signing_key ex_identity)) = Inr (actor_id ?b)"
    using actor_id_of_key [OF log_crates_laws, of log "replicate 32 1"]
    by (simp add: ex_actor_def ex_identity_def ex_crates_def)
  ultimately have actor: "validate_actor_signature ?c (log_event log n) = Inr ()"
    by (rule signed_body_actor(2) [OF log_crates_laws])
  have "\<exists>ys. traverse (\<lambda>p. event_id_parse ?c (event_id_str p)) (map ex_id ps) = Inr ys" for ps
    unfolding traverse_ok_iff by (auto simp: ex_id_parses)
  then show ?thesis
    using ops root actor id
    by (auto simp: validate_envelope_def log_event_def schema_is_supported_def and_then_Inr_iff ex_id_parses event_id_of_def)
qed

fun plain_operation :: "vault_operation \<Rightarrow> bool" where
  "plain_operation (JoinRequested _ _ _ _) = False"
| "plain_operation (JoinApproved _ _ _ _ _ _) = False"
| "plain_operation (SentinelParticipantEnrolled _ _ _ _) = False"
| "plain_operation (EpochCheckpoint _ _ LegacyRetain _) = False"
| "plain_operation _ = True"

definition plain_entry :: "log_entry list \<Rightarrow> nat \<Rightarrow> bool" where
  "plain_entry log n \<longleftrightarrow>
     (case log ! n of (ps, e, ops) \<Rightarrow>
        list_all (\<lambda>p. p < n) ps \<and> (ps = [] \<longleftrightarrow> n = 0) \<and> list_all plain_operation ops \<and> ops \<noteq> []
      \<and> (n = 0 \<longrightarrow> list_ex is_vault_imported ops)
      \<and> (list_ex is_epoch_checkpoint ops \<longrightarrow> length ops = 1 \<and> ps = [e]
           \<and> (\<exists>d. snd (snd (log ! e)) = [DeviceRevoked d])))"

definition plain_log :: "log_entry list \<Rightarrow> bool" where
  "plain_log log \<longleftrightarrow> log_distinct log \<and> (\<forall>n<length log. plain_entry log n)"

text \<open>The graph of a log whose positions were inserted from the end of the list to its front.\<close>

primrec log_graph :: "log_entry list \<Rightarrow> nat list \<Rightarrow> event_graph" where
  "log_graph log [] = new_event_graph"
| "log_graph log (n # ns) = extended (log_graph log ns) (ex_id n) (log_event log n)"

text \<open>Each position once, after its parents.\<close>

primrec insertion_order :: "log_entry list \<Rightarrow> nat list \<Rightarrow> bool" where
  "insertion_order log [] = True"
| "insertion_order log (n # ns) \<longleftrightarrow>
     n < length log \<and> n \<notin> set ns \<and> set (fst (log ! n)) \<subseteq> set ns \<and> insertion_order log ns"

lemma insertion_order_below: "insertion_order log ns \<Longrightarrow> k \<in> set ns \<Longrightarrow> k < length log"
  by (induction ns) auto

lemma insertion_order_parents: "insertion_order log ns \<Longrightarrow> k \<in> set ns \<Longrightarrow> set (fst (log ! k)) \<subseteq> set ns"
  by (induction ns) auto

lemma log_graph_lookup:
  assumes "insertion_order log ns" and "length log < 256"
  shows "fmlookup (eg_events (log_graph log ns)) i = Some ev \<longleftrightarrow> (\<exists>k\<in>set ns. i = ex_id k \<and> ev = log_event log k)"
  using assms
proof (induction ns)
  case (Cons n ns)
  have "ex_id k \<noteq> ex_id n" if "k \<in> set ns" for k
    using that Cons.prems insertion_order_below [of log ns k] ex_id_inject [of k n] by auto
  then show ?case using Cons by (auto simp: extended_def)
qed (simp add: new_event_graph_def)

lemma plain_self_signed:
  assumes "ops \<noteq> []" and "list_all plain_operation ops"
  shows "self_signed_loop c ev seen ops = Inr None"
proof -
  obtain op rest where ops: "ops = op # rest" using assms(1) by (cases ops) auto
  obtain requested approved where "seen = (requested, approved)" by (cases seen)
  then show ?thesis using assms(2) ops by (cases op) auto
qed

lemma plain_approves: "plain_operation op \<Longrightarrow> authorize_operation c az op = Inr (case op of
    DeviceRevoked d \<Rightarrow> az\<lparr>az_revoked := finsert d (az_revoked az)\<rparr> | _ \<Rightarrow> az)"
  by (cases op) auto

lemma plain_authorizes:
  assumes "\<forall>e\<in>set es. list_all plain_operation (operations (body e))"
  shows "\<exists>az'. fold_result (authorize_event c) az es = Inr az' \<and> az_actor_by_device az' = az_actor_by_device az"
  using assms
proof (induction es arbitrary: az)
  case (Cons e es)
  have "\<exists>az'. fold_result (authorize_operation c) az ops = Inr az' \<and> az_actor_by_device az' = az_actor_by_device az"
    if "list_all plain_operation ops" for ops az
    using that
  proof (induction ops arbitrary: az)
    case (Cons op ops)
    then obtain az1 where "authorize_operation c az op = Inr az1" "az_actor_by_device az1 = az_actor_by_device az"
      by (cases op) auto
    then show ?case using Cons by fastforce
  qed simp
  note ops = this
  have "list_all plain_operation (operations (body e))" using Cons.prems by simp
  from ops [OF this, of "if parents (body e) = [] \<and> list_ex is_vault_imported (operations (body e))
        then az\<lparr>az_authorized := finsert (actor_id (body e)) (az_authorized az)\<rparr> else az"]
  obtain az1 where "authorize_event c az e = Inr az1" "az_actor_by_device az1 = az_actor_by_device az"
    unfolding authorize_event_def by (auto split: if_splits)
  then show ?case using Cons by fastforce
qed simp

lemma log_event_body [simp]: "body (log_event log n) = log_body (log ! n)"
  by (simp add: log_event_def)

lemma plain_entry_facts:
  assumes "plain_entry log n"
  shows "p \<in> set (fst (log ! n)) \<Longrightarrow> p < n" and "fst (log ! n) = [] \<longleftrightarrow> n = 0"
    and "list_all plain_operation (snd (snd (log ! n)))" and "snd (snd (log ! n)) \<noteq> []"
    and "n = 0 \<Longrightarrow> list_ex is_vault_imported (snd (snd (log ! n)))"
    and "list_ex is_epoch_checkpoint (snd (snd (log ! n))) \<Longrightarrow>
      length (snd (snd (log ! n))) = 1 \<and> fst (log ! n) = [fst (snd (log ! n))]
      \<and> (\<exists>d. snd (snd (log ! fst (snd (log ! n)))) = [DeviceRevoked d])"
  using assms by (auto simp: plain_entry_def list_all_iff split: prod.splits)

lemma plain_no_legacy: "list_all plain_operation ops \<Longrightarrow> \<not> list_ex is_legacy_checkpoint ops"
proof (induction ops)
  case (Cons op ops)
  have "plain_operation op \<Longrightarrow> \<not> is_legacy_checkpoint op" by (cases op rule: is_legacy_checkpoint.cases) auto
  then show ?case using Cons by simp
qed simp

text \<open>The owner is authorized for every event after the root.\<close>

lemma log_event_authorized:
  assumes plain: "plain_log log" and order: "insertion_order log (n # ns)"
    and h: "h = log_graph log (n # ns)"
  shows "validate_event_actor_authorized c h (log_event log n) = Inr ()"
proof (cases "n = 0")
  case True
  then show ?thesis
    using plain_entry_facts(2) [of log n] plain order by (simp add: validate_event_actor_authorized_def plain_log_def)
next
  case False
  have small: "length log < 256" using plain by (simp add: plain_log_def log_distinct_def)
  note lookup = log_graph_lookup [OF order small, folded h]
  have recorded: "fmlookup (eg_events h) (ex_id k) = Some (log_event log k)" if "k \<in> set (n # ns)" for k
    using lookup [of "ex_id k" "log_event log k"] that by blast
  have entry: "plain_entry log k" if "k \<in> set (n # ns)" for k
    using plain insertion_order_below [OF order that] by (simp add: plain_log_def)
  have parent: "\<exists>p\<in>set (fst (log ! k)). p < k \<and> p \<in> set (n # ns)"
    if k: "k \<in> set (n # ns)" "k \<noteq> 0" for k
  proof -
    have "fst (log ! k) \<noteq> []" using plain_entry_facts(2) [OF entry [OF k(1)]] k(2) by blast
    then obtain p where "p \<in> set (fst (log ! k))" by (cases "fst (log ! k)") auto
    then show ?thesis
      using plain_entry_facts(1) [OF entry [OF k(1)]] insertion_order_parents [OF order k(1)] by blast
  qed
  have reach: "k \<in> set (n # ns) \<Longrightarrow>
      0 \<in> set (n # ns) \<and> (ex_id k, ex_id 0) \<in> (next_rel (parent_map (eg_events h)))\<^sup>*" for k
  proof (induction k rule: less_induct)
    case (less k)
    show ?case
    proof (cases "k = 0")
      case False
      then obtain p where p: "p \<in> set (fst (log ! k))" "p < k" "p \<in> set (n # ns)"
        using parent [OF less.prems] by blast
      have "(ex_id k, ex_id p) \<in> next_rel (parent_map (eg_events h))"
        using p(1) recorded [OF less.prems] by (auto simp: next_rel_iff)
      then show ?thesis using less.IH [OF p(2,3)] by (auto intro: converse_rtrancl_into_rtrancl)
    qed (use less.prems in simp)
  qed
  have root: "log_event log 0 \<in> causal_past h (log_event log n)"
  proof -
    obtain p where "p \<in> set (fst (log ! n))" "p \<in> set (n # ns)" using parent [of n] False by auto
    then show ?thesis using reach [of p] recorded [of 0] by (auto simp: causal_past_def)
  qed
  have past: "\<forall>e\<in>set (past_events h (log_event log n)). list_all plain_operation (operations (body e))"
    using lookup plain_entry_facts(3) [OF entry] by (fastforce simp: set_past_events causal_past_def)
  obtain az where az: "fold_result (authorize_event c) no_authorization (past_events h (log_event log n)) = Inr az"
    and devices: "az_actor_by_device az = fmempty"
    using plain_authorizes [OF past, of c no_authorization] by (auto simp: no_authorization_def)
  have "0 \<in> set (n # ns)" using reach [of n] by simp
  then have "grants c (log_event log 0) ex_actor"
    using plain_entry_facts(2,5) [OF entry [of 0]] by (simp add: grants_def)
  then have "ex_actor |\<in>| az_authorized az" using authorize_events_Inr(1) [OF az] root by (auto simp: set_past_events)
  then have "ex_actor |\<in>| remove_revoked az" by (simp add: remove_revoked_iff devices)
  moreover have "is_self_signed_membership_event c h (log_event log n) = Inr False"
    using plain_self_signed plain_entry_facts(3,4) [OF entry [of n]] by (simp add: is_self_signed_membership_event_def)
  ultimately show ?thesis
    by (simp add: validate_event_actor_authorized_def authorized_actors_before_eq az)
qed

lemma log_event_checkpoint:
  assumes plain: "plain_log log" and order: "insertion_order log (n # ns)"
  shows "validate_epoch_checkpoint_structure (log_graph log (n # ns)) (log_event log n) = Inr ()"
proof -
  have small: "length log < 256" and entry: "plain_entry log n" using plain order by (auto simp: plain_log_def log_distinct_def)
  show ?thesis
  proof (cases "list_ex is_epoch_checkpoint (snd (snd (log ! n)))")
    case False
    then have "filter is_epoch_checkpoint (snd (snd (log ! n))) = []" by (simp add: filter_empty_conv list_ex_iff)
    then show ?thesis by (simp add: validate_epoch_checkpoint_structure_def epoch_checkpoint_requirement_def)
  next
    case True
    note shape = plain_entry_facts(6) [OF entry True]
    let ?p = "fst (snd (log ! n))"
    have "?p \<in> set (n # ns)" using shape order by auto
    then have "fmlookup (eg_events (log_graph log (n # ns))) (ex_id ?p) = Some (log_event log ?p)"
      using log_graph_lookup [OF order small, of "ex_id ?p" "log_event log ?p"] by blast
    moreover have "filter is_epoch_checkpoint (snd (snd (log ! n))) = snd (snd (log ! n))"
      using shape True by (cases "snd (snd (log ! n))") auto
    ultimately show ?thesis using shape
      by (auto simp: validate_epoch_checkpoint_structure_def epoch_checkpoint_requirement_def
          security_rotation_trigger_def simp del: log_graph.simps)
  qed
qed

definition log_request :: "log_entry list \<Rightarrow> nat \<Rightarrow> event_graph_insert" where
  "log_request log n = \<lparr>gi_event = log_event log n, gi_expected_store_id = ''store_Abcdef_1234''\<rparr>"

lemma log_step:
  assumes plain: "plain_log log" and order: "insertion_order log (n # ns)"
    and intact: "intact (log_crates log) (log_graph log ns)"
  shows "event_admission (log_crates log) (log_graph log ns) (log_request log n) = Inr (AdmitInsert (ex_id n))"
    and "\<exists>status. insert_vault_event (log_crates log) (log_graph log ns) (log_request log n)
      = Inr (log_graph log (n # ns), status)"
    and "intact (log_crates log) (log_graph log (n # ns))"
proof -
  let ?c = "log_crates log" and ?g = "log_graph log ns"
  have n: "n < length log" and order': "insertion_order log ns" using order by auto
  have small: "length log < 256" and entry: "plain_entry log n" using plain n by (auto simp: plain_log_def log_distinct_def)
  note facts = plain_entry_facts [OF entry]
  have "fmlookup (eg_events ?g) (ex_id n) = None"
  proof (rule ccontr)
    assume "fmlookup (eg_events ?g) (ex_id n) \<noteq> None"
    then obtain k where "k \<in> set ns" "ex_id n = ex_id k" using log_graph_lookup [OF order' small] by auto
    then show False
      using small n order insertion_order_below [OF order', of k] ex_id_inject [of n k] by auto
  qed
  moreover have "validate_envelope ?c (log_event log n) (StoreId ''store_Abcdef_1234'') = Inr (ex_id n)"
    using plain n facts(2,3,5) by (intro log_event_validates) (auto simp: plain_log_def dest: plain_no_legacy)
  moreover have "store_id_parse ''store_Abcdef_1234'' = Inr (StoreId ''store_Abcdef_1234'')" by code_simp
  ultimately show admitted: "event_admission ?c ?g (log_request log n) = Inr (AdmitInsert (ex_id n))"
    by (simp add: event_admission_def log_request_def)
  have parents: "set (parents (body (log_event log n))) \<subseteq> fset (fmdom (eg_events ?g))"
  proof
    fix i assume "i \<in> set (parents (body (log_event log n)))"
    then obtain p where "i = ex_id p" "p \<in> set ns" using order by auto
    then have "fmlookup (eg_events ?g) i = Some (log_event log p)" using log_graph_lookup [OF order' small] by blast
    then show "i \<in> fset (fmdom (eg_events ?g))" by (rule fmdomI)
  qed
  note step = insert_extends [OF intact admitted _ parents, unfolded log_request_def, simplified,
      folded log_graph.simps(2), OF log_event_checkpoint [OF plain order] log_event_authorized [OF plain order refl]]
  show "\<exists>status. insert_vault_event ?c ?g (log_request log n) = Inr (log_graph log (n # ns), status)"
    using step(1) by (simp only: log_request_def)
  show "intact ?c (log_graph log (n # ns))" using step(2) .
qed

lemma log_history:
  assumes plain: "plain_log log"
  shows "insertion_order log ns \<Longrightarrow>
    event_history (log_crates log) (log_graph log ns) \<and> intact (log_crates log) (log_graph log ns)"
proof (induction ns)
  case Nil
  then show ?case by (simp add: history_new intact_new)
next
  case (Cons n ns)
  then have IH: "event_history (log_crates log) (log_graph log ns)" "intact (log_crates log) (log_graph log ns)" by auto
  from log_step [OF plain Cons.prems IH(2)] IH(1) show ?case by (metis history_insert)
qed

subsection \<open>The graph of a whole log\<close>

abbreviation whole :: "log_entry list \<Rightarrow> event_graph" where
  "whole log \<equiv> log_graph log (rev [0..<length log])"

lemma whole_insertion_order:
  assumes "plain_log log"
  shows "n \<le> length log \<Longrightarrow> insertion_order log (rev [0..<n])"
proof (induction n)
  case (Suc n)
  then have "plain_entry log n" using assms by (simp add: plain_log_def)
  from plain_entry_facts(1) [OF this] show ?case using Suc by auto
qed simp

lemma plain_log_small: "plain_log log \<Longrightarrow> length log < 256"
  by (simp add: plain_log_def log_distinct_def)

lemma whole_history: "plain_log log \<Longrightarrow> event_history (log_crates log) (whole log)"
  using log_history whole_insertion_order by blast

lemma whole_lookup: "plain_log log \<Longrightarrow> k < length log \<Longrightarrow> fmlookup (eg_events (whole log)) (ex_id k) = Some (log_event log k)"
  using log_graph_lookup [OF whole_insertion_order [OF _ order_refl] plain_log_small] by auto

lemma whole_parents:
  assumes "plain_log log"
  shows "fmlookup (cg_parents (eg_causal (whole log))) i
    = map_option (\<lambda>ev. normalize_parents (parents (body ev))) (fmlookup (eg_events (whole log)) i)"
  using log_history [OF assms whole_insertion_order [OF assms order_refl]] by (simp add: intact_def event_graph_wf_def)

lemma whole_applicable:
  assumes "plain_log log"
  shows "set (applicable_ids (eg_causal (whole log))) = {ex_id k | k. k < length log}"
proof -
  note intact = log_history [OF assms whole_insertion_order [OF assms order_refl], THEN conjunct2]
  note lookup = log_graph_lookup [OF whole_insertion_order [OF assms order_refl] plain_log_small [OF assms]]
  have present: "ancestor_ids_present (eg_causal (whole log)) (normalize_parents (map ex_id (fst (log ! k))))" if "k < length log" for k
  proof (rule intact_closed [OF intact])
    have "set (parents (body (log_event log k))) \<subseteq> fset (fmdom (eg_events (whole log)))"
      using intact whole_lookup [OF assms that] unfolding intact_def by blast
    then show "set (normalize_parents (map ex_id (fst (log ! k)))) \<subseteq> fset (fmdom (eg_events (whole log)))"
      by (simp add: normalize_parents_def)
  qed
  have "i |\<notin>| fmdom (cg_quarantined (eg_causal (whole log)))" for i using intact by (simp add: intact_def)
  moreover have "fmlookup (eg_events (whole log)) i = Some ev
      \<longleftrightarrow> (\<exists>k<length log. i = ex_id k \<and> ev = log_event log k)" for i ev
    using lookup [of i ev] by auto
  ultimately show ?thesis
    using present whole_lookup [OF assms]
    by (auto simp: set_applicable_ids ancestors_present_def whole_parents [OF assms] split: option.splits)
qed

lemma whole_applicable_events:
  assumes "plain_log log"
  shows "set (applicable_events (whole log)) = {log_event log k | k. k < length log}"
proof (intro set_eqI iffI)
  fix ev assume "ev \<in> set (applicable_events (whole log))"
  then obtain k where "k < length log" "fmlookup (eg_events (whole log)) (ex_id k) = Some ev"
    unfolding applicable_events_lookup whole_applicable [OF assms] by blast
  then show "ev \<in> {log_event log k | k. k < length log}" using whole_lookup [OF assms] by fastforce
next
  fix ev assume "ev \<in> {log_event log k | k. k < length log}"
  then show "ev \<in> set (applicable_events (whole log))"
    unfolding applicable_events_lookup whole_applicable [OF assms] using whole_lookup [OF assms] by blast
qed

lemma whole_order:
  assumes plain: "plain_log log"
  obtains ids where "event_topological_order (log_crates log) (whole log) = Inr ids"
proof -
  let ?g = "whole log" and ?root = "\<lambda>ev. parents (body ev) = []"
  have recorded: "fmlookup (eg_events ?g) i \<noteq> None" if "i \<in> set (applicable_ids (eg_causal ?g))" for i
    using that whole_lookup [OF plain] by (auto simp: whole_applicable [OF plain])
  then have "applicable_events ?g = map (\<lambda>i. the (fmlookup (eg_events ?g) i)) (applicable_ids (eg_causal ?g))"
    unfolding applicable_events_def List.map_filter_def by (subst filter_True) (simp_all add: comp_def)
  then have "length (filter ?root (applicable_events ?g))
      = length (filter (\<lambda>i. ?root (the (fmlookup (eg_events ?g) i))) (applicable_ids (eg_causal ?g)))"
    by (simp add: filter_map comp_def)
  moreover have "i = ex_id 0"
    if i: "i \<in> set (applicable_ids (eg_causal ?g))" "?root (the (fmlookup (eg_events ?g) i))" for i
  proof -
    obtain k where k: "i = ex_id k" "k < length log" using i(1) unfolding whole_applicable [OF plain] by blast
    then have "fst (log ! k) = []" using i(2) whole_lookup [OF plain] by simp
    then show ?thesis using plain_entry_facts(2) [of log k] plain k by (simp add: plain_log_def)
  qed
  then have "set (filter (\<lambda>i. ?root (the (fmlookup (eg_events ?g) i))) (applicable_ids (eg_causal ?g))) \<subseteq> {ex_id 0}"
    by auto
  moreover have "distinct (filter (\<lambda>i. ?root (the (fmlookup (eg_events ?g) i))) (applicable_ids (eg_causal ?g)))"
    by (simp add: applicable_ids_def)
  ultimately have "length (filter ?root (applicable_events ?g)) \<le> 1"
    by (metis card_mono distinct_card finite.emptyI finite_insert is_singletonI is_singleton_altdef)
  then have "validate_authorizations (log_crates log) ?g \<noteq> Inl MultipleGenesisRoots"
    by (auto simp: validate_authorizations_def Let_def
        fold_result_unit history_event_passes [OF whole_history [OF plain]])
  then have "validate_authorizations (log_crates log) ?g = Inr ()"
    using history_validates [OF whole_history [OF plain]] by simp
  moreover obtain ids where "topological_order (eg_causal ?g) = Inr ids"
    using history_causal_order [OF whole_history [OF plain]] .
  ultimately have "event_topological_order (log_crates log) ?g = Inr ids" by (simp add: event_topological_order_def)
  then show ?thesis by (rule that)
qed

lemma whole_ancestor_step:
  assumes "plain_log log" and "k < length log" and "p \<in> set (fst (log ! k))"
  shows "event_is_ancestor (whole log) (ex_id p) (ex_id k)"
proof -
  have "(ex_id k, ex_id p) \<in> next_rel (cg_parents (eg_causal (whole log)))"
    using whole_lookup [OF assms(1,2)] assms(3) by (simp add: next_rel_iff whole_parents [OF assms(1)] normalize_parents_def)
  then show ?thesis by (auto simp: event_is_ancestor_def is_ancestor_iff)
qed

text \<open>In a linear log, each event on top of the one before, no events are concurrent.\<close>

definition linear_log :: "log_entry list \<Rightarrow> bool" where
  "linear_log log \<longleftrightarrow> plain_log log \<and> (\<forall>k<length log. 0 < k \<longrightarrow> fst (log ! k) = [k - 1])"

lemma linear_log_ordered:
  assumes "linear_log log"
  shows "j \<le> k \<Longrightarrow> k < length log \<Longrightarrow> event_is_ancestor (whole log) (ex_id j) (ex_id k)"
proof (induction k)
  case (Suc k)
  have "event_is_ancestor (whole log) (ex_id k) (ex_id (Suc k))"
    using assms Suc.prems by (intro whole_ancestor_step) (auto simp: linear_log_def)
  then show ?case
    using Suc by (cases "j = Suc k") (auto simp: event_is_ancestor_def is_ancestor_iff le_Suc_eq)
qed (simp add: event_is_ancestor_def is_ancestor_iff)

lemma linear_log_not_concurrent:
  assumes "linear_log log"
  shows "\<not> events_are_concurrent (whole log) i j"
proof
  assume conc: "events_are_concurrent (whole log) i j"
  have plain: "plain_log log" using assms by (simp add: linear_log_def)
  have "\<exists>k<length log. x = ex_id k" if "x |\<in>| fmdom (cg_parents (eg_causal (whole log)))" for x
    using that log_graph_lookup [OF whole_insertion_order [OF plain order_refl] plain_log_small [OF plain]]
    by (auto simp: fmlookup_dom_iff whole_parents [OF plain])
  moreover have "i |\<in>| fmdom (cg_parents (eg_causal (whole log)))" "j |\<in>| fmdom (cg_parents (eg_causal (whole log)))"
    using conc by (simp_all add: events_are_concurrent_def are_concurrent_def)
  ultimately obtain k l where "k < length log" "l < length log" "i = ex_id k" "j = ex_id l" by meson
  then show False
    using conc linear_log_ordered [OF assms, of k l] linear_log_ordered [OF assms, of l k]
    by (cases "k \<le> l") (auto simp: events_are_concurrent_def are_concurrent_def event_is_ancestor_def)
qed

text \<open>Entries with different operations have different bodies.\<close>

lemma log_key_wf: "signing_key_wf (public_key ex_crates ex_identity)"
  by (auto simp: public_key_def signing_key_from_trusted_def signing_key_wf_def)

lemma log_json_operations:
  assumes "list_all operation_wf (snd (snd a))" and "list_all operation_wf (snd (snd b))" and "log_json a = log_json b"
  shows "snd (snd a) = snd (snd b)"
proof -
  have "to_canonical_value (log_body a) = to_canonical_value (log_body b)"
    using assms(3) by (simp add: log_json_def to_canonical_value_def canonicalize_idem)
  moreover have "body_wf (log_body a)" "body_wf (log_body b)" using assms(1,2) log_key_wf by (simp_all add: body_wf_def)
  ultimately have "operations ((log_body a)\<lparr>parents := []\<rparr>) = operations ((log_body b)\<lparr>parents := []\<rparr>)"
    by (simp only: canonical_value_iff)
  then show ?thesis by simp
qed

lemma log_distinctI:
  assumes "length log < 256" and "\<forall>entry\<in>set log. list_all operation_wf (snd (snd entry))"
    and "distinct (map (\<lambda>entry. snd (snd entry)) log)"
  shows "log_distinct log"
proof -
  have "log_json (log ! j) \<noteq> log_json (log ! i)" if "i < length log" "j < i" for i j
  proof
    assume "log_json (log ! j) = log_json (log ! i)"
    then have "snd (snd (log ! j)) = snd (snd (log ! i))"
      using assms(2) that by (intro log_json_operations) auto
    then show False using assms(3) that by (simp add: distinct_conv_nth)
  qed
  then show ?thesis using assms(1) by (simp add: log_distinct_def)
qed

text \<open>An import, a mutation, a revocation and the checkpoint that commits its epoch.\<close>

definition ex_revocation_log :: "log_entry list" where
  "ex_revocation_log =
     [([], 0, [VaultImported (Sha256Hex ''00'') []]), ([0], 0, [SecretCreated ex_secret]),
      ([1], 1, [DeviceRevoked (AppId ''d'')]),
      ([2], 2, [EpochCheckpoint [ex_secret] (Sha256Hex ''00'') (Replace []) Unnamed])]"

lemma ex_revocation_linear: "linear_log ex_revocation_log"
proof -
  have "log_distinct ex_revocation_log"
    by (rule log_distinctI) (simp_all add: ex_revocation_log_def)
  moreover have "\<forall>n<length ex_revocation_log. plain_entry ex_revocation_log n \<and> (0 < n \<longrightarrow> fst (ex_revocation_log ! n) = [n - 1])"
    by (simp add: ex_revocation_log_def plain_entry_def less_Suc_eq all_conj_distrib numeral_eq_Suc)
  ultimately show ?thesis by (simp add: linear_log_def plain_log_def)
qed

end
