(* ===== verification/ProjectionLaws.thy ===== *)
theory ProjectionLaws
  imports Projection EventLogExamples
begin

text \<open>
  What the projection guarantees: each secret is the fold of its own effects, comes from an applicable
  event and is dead only below a deletion; a projection without conflicts has every revocation
  ordered with every mutation; and the projection depends on the causal order only as far as
  concurrent events touch different secrets.
\<close>

subsection \<open>The effect of the operations on one secret\<close>

definition projected_of :: "event_id \<Rightarrow> projected_secret_origin \<Rightarrow> encrypted_secret_payload \<Rightarrow> projected_secret" where
  "projected_of i origin secret =
     \<lparr>pj_record = payload_to_stored secret, pj_identity_fingerprint = sp_identity_fingerprint secret,
      pj_fingerprint = sp_fingerprint secret, pj_created_by = i, pj_lifecycle = Live, pj_origin = origin\<rparr>"

definition insert_effect ::
    "event_id \<Rightarrow> secret_id \<Rightarrow> projected_secret_origin \<Rightarrow> projected_secret option \<Rightarrow> encrypted_secret_payload
      \<Rightarrow> projected_secret option" where
  "insert_effect i sid origin x secret = (if sp_id secret = sid then Some (projected_of i origin secret) else x)"

definition delete_effect ::
    "event_id \<Rightarrow> secret_id \<Rightarrow> projected_secret option \<Rightarrow> secret_id \<Rightarrow> projected_secret option" where
  "delete_effect i sid x d = (if d = sid then map_option (\<lambda>e. e\<lparr>pj_lifecycle := Deleted i\<rparr>) x else x)"

fun secret_effect ::
    "event_id \<Rightarrow> secret_id \<Rightarrow> projected_secret option \<Rightarrow> vault_operation \<Rightarrow> projected_secret option" where
  "secret_effect i sid x (VaultImported _ secrets) = foldl (insert_effect i sid Created) x secrets"
| "secret_effect i sid x (EpochCheckpoint secrets _ _ _) = foldl (insert_effect i sid Created) None secrets"
| "secret_effect i sid x (SecretCreated secret) = insert_effect i sid Created x secret"
| "secret_effect i sid x (SecretDeleted d) = delete_effect i sid x d"
| "secret_effect i sid x (SecretReplaced old_id secret) =
     insert_effect i sid (Replacement old_id) (delete_effect i sid x old_id) secret"
| "secret_effect i sid x (SecretConflictResolved _ _ rejected) = foldl (delete_effect i sid) x rejected"
| "secret_effect i sid x VaultCleared = None"
| "secret_effect i sid x _ = x"

lemma insert_secret_lookup [map_simps]:
  "fmlookup (vp_secrets (insert_secret p i secret origin)) sid
    = insert_effect i sid origin (fmlookup (vp_secrets p) sid) secret"
  by (simp add: insert_secret_def insert_effect_def projected_of_def)

lemma mark_deleted_lookup [map_simps]:
  "fmlookup (vp_secrets (mark_deleted i p d)) sid = delete_effect i sid (fmlookup (vp_secrets p) sid) d"
  by (auto simp: mark_deleted_def delete_effect_def split: option.split)

lemma insert_created_lookup [map_simps]:
  "fmlookup (vp_secrets (insert_created i p secrets)) sid
    = foldl (insert_effect i sid Created) (fmlookup (vp_secrets p) sid) secrets"
  unfolding insert_created_def by (induction secrets arbitrary: p) (simp_all add: map_simps)

lemma mark_deleted_fold_lookup [map_simps]:
  "fmlookup (vp_secrets (foldl (mark_deleted i) p ds)) sid
    = foldl (delete_effect i sid) (fmlookup (vp_secrets p) sid) ds"
  by (induction ds arbitrary: p) (simp_all add: map_simps)

lemma apply_operation_lookup:
  "fmlookup (vp_secrets (fst (apply_operation i op (p, rs)))) sid
    = secret_effect i sid (fmlookup (vp_secrets p) sid) op"
  by (cases op) (simp_all add: map_simps Let_def)

lemma project_operation_lookup [map_simps]:
  "fmlookup (vp_secrets (st_projection (project_operation i s op))) sid
    = secret_effect i sid (fmlookup (vp_secrets (st_projection s)) sid) op"
  by (simp add: project_operation_def apply_operation_lookup Let_def)

lemma project_operations_lookup [map_simps]:
  "fmlookup (vp_secrets (st_projection (foldl (project_operation i) s ops))) sid
    = foldl (secret_effect i sid) (fmlookup (vp_secrets (st_projection s)) sid) ops"
  by (induction ops arbitrary: s) (simp_all add: map_simps)

lemma project_epoch_keeps [simp]:
  "vp_secrets (st_projection (project_epoch c i ev s)) = vp_secrets (st_projection s)"
  "vp_unresolved_schema (st_projection (project_epoch c i ev s)) = vp_unresolved_schema (st_projection s)"
  "st_security_events (project_epoch c i ev s) = st_security_events s"
  "st_replacements (project_epoch c i ev s) = st_replacements s"
  by (simp_all add: project_epoch_def Let_def split: sum.split)

text \<open>The operations that an event contributes: none when its schema is unknown.\<close>

definition projected_operations :: "event_graph \<Rightarrow> event_id \<Rightarrow> vault_operation list" where
  "projected_operations g i =
     (case fmlookup (eg_events g) i of
        Some ev \<Rightarrow> if schema_is_supported (schema_version (body ev)) then operations (body ev) else []
      | None \<Rightarrow> [])"

lemma project_event_Inr:
  assumes "project_event c g st s i = Inr s'"
  shows "\<exists>ev. fmlookup (eg_events g) i = Some ev \<and> store_id (body ev) = st
    \<and> (schema_is_supported (schema_version (body ev))
         \<and> s' = project_epoch c i ev (foldl (project_operation i) s (projected_operations g i))
       \<or> projected_operations g i = []
         \<and> s' = s\<lparr>st_projection := (st_projection s)\<lparr>vp_unresolved_schema := True\<rparr>\<rparr>)"
  using assms
  by (auto simp: project_event_def event_lookup_def projected_operations_def split: option.splits if_splits)

lemma project_event_lookup:
  assumes "project_event c g st s i = Inr s'"
  shows "fmlookup (vp_secrets (st_projection s')) sid
    = foldl (secret_effect i sid) (fmlookup (vp_secrets (st_projection s)) sid) (projected_operations g i)"
  using project_event_Inr [OF assms] by (auto simp: map_simps)

lemma project_fold_lookup:
  assumes "fold_result (project_event c g st) s ids = Inr s'"
  shows "fmlookup (vp_secrets (st_projection s')) sid
    = foldl (\<lambda>x i. foldl (secret_effect i sid) x (projected_operations g i))
        (fmlookup (vp_secrets (st_projection s)) sid) ids"
  using assms
  by (induction ids arbitrary: s) (auto simp: and_then_Inr_iff project_event_lookup)

lemma validated_Inr_iff [simp]: "validated r = Inr a \<longleftrightarrow> r = Inr a"
  by (cases r) auto

lemma from_graphE:
  assumes "from_graph c g st = Inr p"
  obtains store ids s where "store_id_parse st = Inr store" and "event_topological_order c g = Inr ids"
    and "fold_result (project_event c g store) (projection_start store) ids = Inr s"
    and "p = projection_finish g s"
  using assms by (auto simp: from_graph_def and_then_Inr_iff project_events_def)

lemma from_graph_lookup:
  assumes "from_graph c g st = Inr p" and "event_topological_order c g = Inr ids"
  shows "fmlookup (vp_secrets p) sid
    = foldl (\<lambda>x i. foldl (secret_effect i sid) x (projected_operations g i)) None ids"
  using assms by (elim from_graphE)
    (simp add: project_fold_lookup projection_finish_def projection_start_def default_projection_def)

text \<open>The projection is pointwise: whatever else happens in the vault, the entry of a secret is the fold
  of the effects of the operations on that secret alone, over the events in topological order.\<close>

theorem projected_secret_is_fold:
  assumes "from_graph c g st = Inr p"
  shows "\<exists>ids. event_topological_order c g = Inr ids
    \<and> (\<forall>sid. fmlookup (vp_secrets p) sid
         = foldl (\<lambda>x i. foldl (secret_effect i sid) x (projected_operations g i)) None ids)"
proof -
  obtain ids where ids: "event_topological_order c g = Inr ids" using from_graphE [OF assms] .
  with from_graph_lookup [OF assms ids] show ?thesis by blast
qed

subsection \<open>Histories\<close>

text \<open>Every recorded event of a history passed the envelope checks of its own store.\<close>

definition events_validated :: "crates \<Rightarrow> event_graph \<Rightarrow> bool" where
  "events_validated c g \<longleftrightarrow>
     (\<forall>i ev. fmlookup (eg_events g) i = Some ev \<longrightarrow> validate_envelope c ev (store_id (body ev)) = Inr i)"

lemma validate_envelope_store: "validate_envelope c ev st = Inr i \<Longrightarrow> store_id (body ev) = st"
  by (auto simp: validate_envelope_def split: if_splits)

lemma validate_envelope_schema: "validate_envelope c ev st = Inr i \<Longrightarrow> schema_is_supported (schema_version (body ev))"
  by (auto simp: validate_envelope_def split: if_splits)

lemma insert_vault_event_validated:
  assumes ins: "insert_vault_event c g r = Inr (g', status)" and wf: "event_graph_wf c g" and ok: "events_validated c g"
  shows "events_validated c g'"
proof (cases "event_admission c g r")
  case (Inr admission)
  show ?thesis
  proof (cases admission)
    case (AdmitInsert i)
    have env: "fmlookup (eg_events g) i = None"
      "validate_envelope c (gi_event r) (store_id (body (gi_event r))) = Inr i"
      using Inr AdmitInsert
      by (auto simp: event_admission_def Let_def and_then_Inr_iff split: option.splits if_splits
          dest: validate_envelope_store)
    have "body_event_id c (body (gi_event r)) = Inr i" using env(2) by (rule validate_envelope_id)
    from quarantine_rejected_wf [OF event_graph_wf_insert [OF wf env(1) this]]
    have "eg_events g' = fmupd i (gi_event r) (eg_events g)"
      using ins Inr AdmitInsert by (auto simp: insert_vault_event_def Let_def and_then_Inr_iff)
    then show ?thesis using ok env(2) by (simp add: events_validated_def)
  qed (use assms Inr in \<open>auto simp: insert_vault_event_def events_validated_def\<close>)
qed (use ins in \<open>simp add: insert_vault_event_def\<close>)

lemma event_history_validated: "event_history c g \<Longrightarrow> events_validated c g"
proof (induction rule: event_history.induct)
  case (history_insert g r g' status)
  then show ?case using insert_vault_event_validated event_history_wf by blast
qed (simp add: events_validated_def new_event_graph_def)

lemma applicable_event_id:
  assumes "event_history c g" and "fmlookup (eg_events g) i = Some ev" and "ev \<in> set (applicable_events g)"
  shows "i \<in> set (applicable_ids (eg_causal g))"
proof -
  obtain j where j: "j \<in> set (applicable_ids (eg_causal g))" "fmlookup (eg_events g) j = Some ev"
    using assms(3) by (auto simp: applicable_events_lookup)
  have "event_graph_wf c g" using event_history_wf [OF assms(1)] ..
  then have "body_event_id c (body ev) = Inr k" if "fmlookup (eg_events g) k = Some ev" for k
    using that unfolding event_graph_wf_def by blast
  from this [OF assms(2)] this [OF j(2)] j(1) show ?thesis by simp
qed

lemma history_order:
  assumes "event_history c g" and "event_topological_order c g = Inr ids"
  shows "set ids = set (applicable_ids (eg_causal g))" and "distinct ids"
    and "placed_after_parents (cg_parents (eg_causal g)) ids"
    and "i \<in> set ids \<Longrightarrow> \<exists>ev. fmlookup (eg_events g) i = Some ev \<and> schema_is_supported (schema_version (body ev))
          \<and> projected_operations g i = operations (body ev)"
proof -
  have wf: "event_graph_wf c g" using event_history_wf [OF assms(1)] ..
  obtain order where "topological_order (eg_causal g) = Inr order" and order: "distinct order"
    "set order = set (applicable_ids (eg_causal g))" "placed_after_parents (cg_parents (eg_causal g)) order"
    using history_causal_order [OF assms(1)] .
  then have "order = ids" using assms(2) by (auto simp: event_topological_order_def and_then_Inr_iff)
  with order show set: "set ids = set (applicable_ids (eg_causal g))" and "distinct ids"
    and "placed_after_parents (cg_parents (eg_causal g)) ids" by auto
  assume "i \<in> set ids"
  then have "i |\<in>| fmdom (cg_parents (eg_causal g))" by (auto simp: set set_applicable_ids ancestors_present_iff)
  then obtain ev where ev: "fmlookup (eg_events g) i = Some ev"
    using wf by (auto simp: event_graph_wf_def fmlookup_dom_iff)
  moreover from this have "validate_envelope c ev (store_id (body ev)) = Inr i"
    using event_history_validated [OF assms(1)] by (auto simp: events_validated_def)
  from validate_envelope_schema [OF this] have "schema_is_supported (schema_version (body ev))" .
  ultimately show "\<exists>ev. fmlookup (eg_events g) i = Some ev \<and> schema_is_supported (schema_version (body ev))
          \<and> projected_operations g i = operations (body ev)"
    by (simp add: projected_operations_def)
qed

text \<open>Without an unknown schema the projection never sets its flag.\<close>

lemma apply_operation_keeps_schema:
  "vp_unresolved_schema (fst (apply_operation i op (p, rs))) = vp_unresolved_schema p"
proof -
  have ins: "vp_unresolved_schema (insert_secret p i s o1) = vp_unresolved_schema p" for p s o1
    by (simp add: insert_secret_def)
  have insc: "vp_unresolved_schema (insert_created i p ss) = vp_unresolved_schema p" for p ss
    unfolding insert_created_def by (induction ss arbitrary: p) (simp_all add: ins)
  have del: "vp_unresolved_schema (mark_deleted i p d) = vp_unresolved_schema p" for p d
    by (simp add: mark_deleted_def split: option.split)
  have dels: "vp_unresolved_schema (foldl (mark_deleted i) p ds) = vp_unresolved_schema p" for p ds
    by (induction ds arbitrary: p) (simp_all add: del)
  show ?thesis by (cases op) (simp_all add: ins insc del dels Let_def)
qed

lemma project_operations_keep_schema [simp]:
  "vp_unresolved_schema (st_projection (foldl (project_operation i) s ops)) = vp_unresolved_schema (st_projection s)"
  by (induction ops arbitrary: s) (simp_all add: project_operation_def Let_def apply_operation_keeps_schema)

lemma project_fold_outcome:
  assumes "\<And>i. i \<in> set ids \<Longrightarrow> \<exists>ev. fmlookup (eg_events g) i = Some ev \<and> schema_is_supported (schema_version (body ev))"
  shows "if \<exists>i\<in>set ids. \<exists>ev. fmlookup (eg_events g) i = Some ev \<and> store_id (body ev) \<noteq> st
    then fold_result (project_event c g st) s ids = Inl ProjectionStoreMismatch
    else \<exists>s'. fold_result (project_event c g st) s ids = Inr s'
           \<and> vp_unresolved_schema (st_projection s') = vp_unresolved_schema (st_projection s)"
  using assms
proof (induction ids arbitrary: s)
  case (Cons i ids)
  obtain ev where ev: "fmlookup (eg_events g) i = Some ev" "schema_is_supported (schema_version (body ev))"
    using Cons.prems [of i] by auto
  show ?case
  proof (cases "store_id (body ev) = st")
    case True
    then have step: "project_event c g st s i
        = Inr (project_epoch c i ev (foldl (project_operation i) s (operations (body ev))))"
      using ev by (simp add: project_event_def event_lookup_def)
    have mismatch: "(\<exists>j\<in>set (i # ids). \<exists>ev. fmlookup (eg_events g) j = Some ev \<and> store_id (body ev) \<noteq> st)
        \<longleftrightarrow> (\<exists>j\<in>set ids. \<exists>ev. fmlookup (eg_events g) j = Some ev \<and> store_id (body ev) \<noteq> st)"
      using True ev by auto
    have "\<exists>ev. fmlookup (eg_events g) j = Some ev \<and> schema_is_supported (schema_version (body ev))"
      if "j \<in> set ids" for j using Cons.prems [of j] that by simp
    from Cons.IH [OF this, of "project_epoch c i ev (foldl (project_operation i) s (operations (body ev)))"]
    show ?thesis
      unfolding mismatch fold_result.simps step and_then.simps project_epoch_keeps project_operations_keep_schema .
  next
    case False
    then show ?thesis using ev by (auto simp: project_event_def event_lookup_def)
  qed
qed simp

lemma ex_projection:
  "\<exists>g ev i p. event_history ex_crates g \<and> applicable_events g = [ev] \<and> applicable_ids (eg_causal g) = [i]
     \<and> fmlookup (eg_events g) i = Some ev \<and> operations (body ev) = ai_operations ex_input
     \<and> from_graph ex_crates g ''store_Abcdef_1234'' = Inr p
     \<and> fmlookup (vp_secrets p) (sp_id ex_secret) = Some (projected_of i Created ex_secret)"
proof -
  obtain ev g where g: "event_history ex_crates g" "applicable_events g = [ev]"
    "store_id (body ev) = StoreId ''store_Abcdef_1234''" "operations (body ev) = ai_operations ex_input"
    using ex_history by blast
  have st: "store_id_parse ''store_Abcdef_1234'' = Inr (StoreId ''store_Abcdef_1234'')" by code_simp
  obtain ids where ids: "topological_order (eg_causal g) = Inr ids" "distinct ids"
    "set ids = set (applicable_ids (eg_causal g))" using history_causal_order [OF g(1)] .
  have "validate_authorizations ex_crates g = Inr ()"
    using history_validates [OF g(1)] g(2) history_event_passes [OF g(1), of ev]
    by (simp add: validate_authorizations_def Let_def split: if_splits)
  then have order: "event_topological_order ex_crates g = Inr ids" using ids by (simp add: event_topological_order_def)
  note events = history_order(4) [OF g(1) order]
  have recorded: "fmlookup (eg_events g) j \<noteq> None" if "j \<in> set (applicable_ids (eg_causal g))" for j
    using events [of j] that ids(3) by auto
  then have "applicable_events g = map (\<lambda>j. the (fmlookup (eg_events g) j)) (applicable_ids (eg_causal g))"
    unfolding applicable_events_def List.map_filter_def by (subst filter_True) (simp_all add: comp_def)
  then obtain i where i: "applicable_ids (eg_causal g) = [i]" using g(2) by (auto simp: Cons_eq_map_conv)
  then have ev: "fmlookup (eg_events g) i = Some ev"
    using recorded [of i] g(2) by (auto simp: applicable_events_def List.map_filter_def)
  have single: "ids = [i]" using ids i by (cases ids; cases "tl ids") auto
  have "\<exists>s. project_events ex_crates g (StoreId ''store_Abcdef_1234'') ids = Inr s"
    using events [of i] ev g(3) unfolding single
    by (auto simp: project_events_def project_event_def event_lookup_def)
  then obtain p where p: "from_graph ex_crates g ''store_Abcdef_1234'' = Inr p"
    using order by (auto simp: from_graph_def st)
  have "fmlookup (vp_secrets p) (sp_id ex_secret) = Some (projected_of i Created ex_secret)"
    using from_graph_lookup [OF p order, of "sp_id ex_secret"] events [of i] ev g(4)
    by (auto simp: single ex_input_def insert_effect_def)
  then show ?thesis using g(1,2,4) i ev p by blast
qed

lemma replay_invariant_eq:
  "assert_replay_invariant c g st = and_then (from_graph c g st) (\<lambda>_. Inr ())"
  by (cases "from_graph c g st") (simp_all add: assert_replay_invariant_def eval_nat_numeral)

text \<open>Deriving the projection of a history fails in exactly two ways: the graph has competing genesis
  roots, or an applicable event belongs to another store. Otherwise it returns a projection that
  never meets an unknown schema, and the replay check agrees with it, so a replay mismatch is
  never reported.\<close>

theorem projection_outcome:
  assumes "event_history c g" and "store_id_parse st = Inr store"
  shows "if event_topological_order c g = Inl MultipleGenesisRoots
    then from_graph c g st = Inl MultipleGenesisRoots
      \<and> assert_replay_invariant c g st = Inl MultipleGenesisRoots
    else if \<exists>ev\<in>set (applicable_events g). store_id (body ev) \<noteq> store
    then from_graph c g st = Inl ProjectionStoreMismatch
      \<and> assert_replay_invariant c g st = Inl ProjectionStoreMismatch
    else \<exists>p. from_graph c g st = Inr p \<and> \<not> vp_unresolved_schema p
      \<and> assert_replay_invariant c g st = Inr ()"
proof (cases "event_topological_order c g")
  case (Inl e)
  obtain order where "topological_order (eg_causal g) = Inr order" using history_causal_order [OF assms(1)] .
  then have "e = MultipleGenesisRoots"
    using Inl history_validates [OF assms(1)] by (auto simp: event_topological_order_def)
  then show ?thesis using Inl assms(2) by (simp add: replay_invariant_eq from_graph_def)
next
  case (Inr ids)
  note order = history_order [OF assms(1) Inr]
  have stores: "(\<exists>ev\<in>set (applicable_events g). store_id (body ev) \<noteq> store)
      \<longleftrightarrow> (\<exists>i\<in>set ids. \<exists>ev. fmlookup (eg_events g) i = Some ev \<and> store_id (body ev) \<noteq> store)"
    unfolding order(1) Bex_def applicable_events_lookup by blast
  have start: "\<not> vp_unresolved_schema (st_projection (projection_start store))"
    by (simp add: projection_start_def default_projection_def)
  have outcome: "if \<exists>i\<in>set ids. \<exists>ev. fmlookup (eg_events g) i = Some ev \<and> store_id (body ev) \<noteq> store
    then project_events c g store ids = Inl ProjectionStoreMismatch
    else \<exists>s'. project_events c g store ids = Inr s'
           \<and> vp_unresolved_schema (st_projection s') = vp_unresolved_schema (st_projection (projection_start store))"
    unfolding project_events_def by (rule project_fold_outcome) (use order(4) in blast)
  have graph: "from_graph c g st = and_then (project_events c g store ids) (\<lambda>s. Inr (projection_finish g s))"
    using assms(2) Inr by (simp add: from_graph_def)
  show ?thesis
  proof (cases "\<exists>i\<in>set ids. \<exists>ev. fmlookup (eg_events g) i = Some ev \<and> store_id (body ev) \<noteq> store")
    case True
    then have "project_events c g store ids = Inl ProjectionStoreMismatch" using outcome by simp
    then show ?thesis using True Inr unfolding stores by (simp add: graph replay_invariant_eq)
  next
    case False
    have "\<exists>s'. project_events c g store ids = Inr s' \<and> \<not> vp_unresolved_schema (st_projection s')"
      using outcome start unfolding if_not_P [OF False] by auto
    then obtain s' where "project_events c g store ids = Inr s'" "\<not> vp_unresolved_schema (st_projection s')" by blast
    then show ?thesis using False Inr unfolding stores
      by (simp add: graph replay_invariant_eq projection_finish_def)
  qed
qed

theorem projection_outcome_witness:
  "\<exists>g p. event_history ex_crates g \<and> applicable_events g \<noteq> []
     \<and> from_graph ex_crates g ''store_Abcdef_1234'' = Inr p \<and> \<not> vp_unresolved_schema p"
proof -
  obtain g ev p where g: "event_history ex_crates g" "applicable_events g = [ev]"
    "from_graph ex_crates g ''store_Abcdef_1234'' = Inr p" using ex_projection by blast
  have st: "store_id_parse ''store_Abcdef_1234'' = Inr (StoreId ''store_Abcdef_1234'')" by code_simp
  from projection_outcome [OF g(1) st] g show ?thesis by (auto split: if_splits)
qed

subsection \<open>Where projected secrets come from\<close>

fun written_secrets :: "vault_operation \<Rightarrow> encrypted_secret_payload list" where
  "written_secrets (VaultImported _ secrets) = secrets"
| "written_secrets (EpochCheckpoint secrets _ _ _) = secrets"
| "written_secrets (SecretCreated secret) = [secret]"
| "written_secrets (SecretReplaced _ secret) = [secret]"
| "written_secrets _ = []"

fun deleted_secrets :: "vault_operation \<Rightarrow> secret_id list" where
  "deleted_secrets (SecretDeleted d) = [d]"
| "deleted_secrets (SecretReplaced old_id _) = [old_id]"
| "deleted_secrets (SecretConflictResolved _ _ rejected) = rejected"
| "deleted_secrets _ = []"

text \<open>An entry is backed by events: its creator wrote the very payload, and its deleter deletes the id.\<close>

definition backed :: "(event_id \<Rightarrow> vault_operation list) \<Rightarrow> event_id set \<Rightarrow> secret_id \<Rightarrow> projected_secret \<Rightarrow> bool" where
  "backed ops_of I sid s \<longleftrightarrow>
     pj_created_by s \<in> I
   \<and> (\<exists>op\<in>set (ops_of (pj_created_by s)). \<exists>payload\<in>set (written_secrets op). sp_id payload = sid
        \<and> pj_record s = payload_to_stored payload
        \<and> pj_identity_fingerprint s = sp_identity_fingerprint payload \<and> pj_fingerprint s = sp_fingerprint payload)
   \<and> (case pj_lifecycle s of
        Live \<Rightarrow> True
      | Deleted by \<Rightarrow> by \<in> I \<and> (\<exists>op\<in>set (ops_of by). sid \<in> set (deleted_secrets op)))"

definition backed_opt ::
    "(event_id \<Rightarrow> vault_operation list) \<Rightarrow> event_id set \<Rightarrow> secret_id \<Rightarrow> projected_secret option \<Rightarrow> bool" where
  "backed_opt ops_of I sid x \<longleftrightarrow> (case x of None \<Rightarrow> True | Some s \<Rightarrow> backed ops_of I sid s)"

lemma insert_effect_backed:
  "backed_opt ops_of I sid x \<Longrightarrow> i \<in> I \<Longrightarrow> op \<in> set (ops_of i) \<Longrightarrow> payload \<in> set (written_secrets op) \<Longrightarrow>
    backed_opt ops_of I sid (insert_effect i sid origin x payload)"
  by (auto simp: backed_opt_def backed_def insert_effect_def projected_of_def)

lemma delete_effect_backed:
  "backed_opt ops_of I sid x \<Longrightarrow> i \<in> I \<Longrightarrow> op \<in> set (ops_of i) \<Longrightarrow> d \<in> set (deleted_secrets op) \<Longrightarrow>
    backed_opt ops_of I sid (delete_effect i sid x d)"
  by (auto simp: backed_opt_def backed_def delete_effect_def split: option.splits)

lemma foldl_invariant:
  "I x \<Longrightarrow> (\<And>x y. y \<in> set ys \<Longrightarrow> I x \<Longrightarrow> I (f x y)) \<Longrightarrow> I (foldl f x ys)"
  by (induction ys arbitrary: x) auto

lemma secret_effect_backed:
  assumes "backed_opt ops_of I sid x" and "i \<in> I" and "op \<in> set (ops_of i)"
  shows "backed_opt ops_of I sid (secret_effect i sid x op)"
proof -
  have none: "backed_opt ops_of I sid None" by (simp add: backed_opt_def)
  have inserted: "backed_opt ops_of I sid (foldl (insert_effect i sid origin) y ss)"
    if "backed_opt ops_of I sid y" "set ss \<subseteq> set (written_secrets op)" for origin y ss
    using that assms(2,3) by (intro foldl_invariant [where I = "backed_opt ops_of I sid"])
      (auto intro: insert_effect_backed)
  have deleted: "backed_opt ops_of I sid (foldl (delete_effect i sid) y ds)"
    if "backed_opt ops_of I sid y" "set ds \<subseteq> set (deleted_secrets op)" for y ds
    using that assms(2,3) by (intro foldl_invariant [where I = "backed_opt ops_of I sid"])
      (auto intro: delete_effect_backed)
  show ?thesis
    using assms none inserted [of None] inserted [of x] deleted [of x]
      insert_effect_backed [of ops_of I sid _ i op] delete_effect_backed [of ops_of I sid x i op]
    by (cases op) auto
qed

lemma projected_backed:
  assumes "event_topological_order c g = Inr ids"
    and "fmlookup (vp_secrets p) sid
      = foldl (\<lambda>x i. foldl (secret_effect i sid) x (projected_operations g i)) None ids"
  shows "backed_opt (projected_operations g) (set ids) sid (fmlookup (vp_secrets p) sid)"
  unfolding assms(2)
  by (intro foldl_invariant [where I = "backed_opt (projected_operations g) (set ids) sid"])
    (auto simp: backed_opt_def [of _ _ _ None] intro!: secret_effect_backed)

text \<open>C5: every secret of the projection of a history is authentic: the event that created it is applicable, was
  signed by an actor authorized by its causal past and wrote exactly this record under this id; and
  a secret is dead only if an applicable authorized event that deletes its id causally follows its
  creation, so a deletion that did not see the secret cannot remove it.\<close>

theorem projected_secrets_are_authentic:
  assumes history: "event_history c g" and p: "from_graph c g st = Inr p"
    and s: "fmlookup (vp_secrets p) sid = Some s"
  shows "(\<exists>ev\<in>set (applicable_events g). fmlookup (eg_events g) (pj_created_by s) = Some ev
        \<and> validate_event_actor_authorized c g ev = Inr ()
        \<and> (\<exists>op\<in>set (operations (body ev)). \<exists>payload\<in>set (written_secrets op).
             sp_id payload = sid \<and> pj_record s = payload_to_stored payload
             \<and> pj_fingerprint s = sp_fingerprint payload))
    \<and> (is_live g s
       \<or> (\<exists>by. \<exists>ev\<in>set (applicable_events g). fmlookup (eg_events g) by = Some ev
            \<and> validate_event_actor_authorized c g ev = Inr ()
            \<and> (\<exists>op\<in>set (operations (body ev)). sid \<in> set (deleted_secrets op))
            \<and> event_is_ancestor g (pj_created_by s) by))"
proof -
  obtain ids where ids: "event_topological_order c g = Inr ids" using from_graphE [OF p] .
  note order = history_order [OF history ids]
  have backed: "backed (projected_operations g) (set ids) sid s"
    using projected_backed [OF ids from_graph_lookup [OF p ids], of sid] s by (simp add: backed_opt_def)
  have event: "\<exists>ev\<in>set (applicable_events g). fmlookup (eg_events g) i = Some ev
      \<and> validate_event_actor_authorized c g ev = Inr () \<and> projected_operations g i = operations (body ev)"
    if "i \<in> set ids" for i
  proof -
    obtain ev where ev: "fmlookup (eg_events g) i = Some ev" "projected_operations g i = operations (body ev)"
      using order(4) \<open>i \<in> set ids\<close> by blast
    then have "ev \<in> set (applicable_events g)" using \<open>i \<in> set ids\<close> order(1) by (auto simp: applicable_events_lookup)
    then show ?thesis using ev history_event_passes [OF history] by blast
  qed
  have created: "pj_created_by s \<in> set ids" "\<exists>op\<in>set (projected_operations g (pj_created_by s)).
      \<exists>payload\<in>set (written_secrets op). sp_id payload = sid \<and> pj_record s = payload_to_stored payload
        \<and> pj_fingerprint s = sp_fingerprint payload"
    using backed unfolding backed_def by blast+
  moreover have "is_live g s \<or> (\<exists>by\<in>set ids. (\<exists>op\<in>set (projected_operations g by). sid \<in> set (deleted_secrets op))
      \<and> event_is_ancestor g (pj_created_by s) by)"
    using backed by (auto simp: backed_def is_live_def split: projected_secret_lifecycle.splits)
  ultimately show ?thesis using event by metis
qed

theorem projected_secret_is_fold_witness:
  "\<exists>g ids i. event_topological_order ex_crates g = Inr ids
     \<and> foldl (\<lambda>x i. foldl (secret_effect i (sp_id ex_secret)) x (projected_operations g i)) None ids
        = Some (projected_of i Created ex_secret)"
proof -
  obtain g i p where p: "from_graph ex_crates g ''store_Abcdef_1234'' = Inr p"
    and s: "fmlookup (vp_secrets p) (sp_id ex_secret) = Some (projected_of i Created ex_secret)"
    using ex_projection by blast
  from projected_secret_is_fold [OF p] obtain ids where "event_topological_order ex_crates g = Inr ids"
    and "fmlookup (vp_secrets p) (sp_id ex_secret)
      = foldl (\<lambda>x i. foldl (secret_effect i (sp_id ex_secret)) x (projected_operations g i)) None ids" by blast
  then have result: "event_topological_order ex_crates g = Inr ids
     \<and> foldl (\<lambda>x i. foldl (secret_effect i (sp_id ex_secret)) x (projected_operations g i)) None ids
        = Some (projected_of i Created ex_secret)" using s by simp
  show ?thesis
    by (rule exI [where x = g], rule exI [where x = ids], rule exI [where x = i], rule result)
qed

theorem projected_secrets_are_authentic_witness:
  "\<exists>g ev. ev \<in> set (applicable_events g) \<and> validate_event_actor_authorized ex_crates g ev = Inr ()
     \<and> (\<exists>op\<in>set (operations (body ev)). \<exists>payload\<in>set (written_secrets op). sp_id payload = sp_id ex_secret)"
proof -
  obtain g i p where g: "event_history ex_crates g" and p: "from_graph ex_crates g ''store_Abcdef_1234'' = Inr p"
    and s: "fmlookup (vp_secrets p) (sp_id ex_secret) = Some (projected_of i Created ex_secret)"
    using ex_projection by blast
  from projected_secrets_are_authentic [OF g p s] show ?thesis by blast
qed

subsection \<open>Conflicts between concurrent events\<close>

text \<open>The reason under which an event is recorded, one operation at a time.\<close>

definition note_reason :: "epoch_rotation_reason option \<Rightarrow> vault_operation \<Rightarrow> epoch_rotation_reason option" where
  "note_reason r op =
     (case operation_starts_epoch op of
        Rotated reason \<Rightarrow> Some reason
      | Unchanged \<Rightarrow>
          if r \<noteq> None \<or> is_epoch_checkpoint op \<or> is_join_requested op then r
          else if is_join_approved op then Some AccessGrant else Some ConcurrentVaultMutation)"

definition event_reason :: "vault_operation list \<Rightarrow> epoch_rotation_reason option" where
  "event_reason ops = foldl note_reason None ops"

lemma or_insert_lookup [map_simps]:
  "fmlookup (or_insert k v m) j = (if j = k then (case fmlookup m k of Some w \<Rightarrow> Some w | None \<Rightarrow> Some v) else fmlookup m j)"
  by (auto simp: or_insert_def split: option.split)

lemma rotating_operations:
  "operation_starts_epoch op = Rotated reason \<Longrightarrow> \<not> is_epoch_checkpoint op \<and> \<not> is_join_requested op \<and> \<not> is_join_approved op"
  by (cases op) auto

lemma joining_operations: "is_join_approved op \<Longrightarrow> \<not> is_epoch_checkpoint op \<and> \<not> is_join_requested op"
  by (cases op) auto

lemma note_security_event_lookup:
  "fmlookup (note_security_event i op m) j = (if j = i then note_reason (fmlookup m i) op else fmlookup m j)"
  by (auto simp: note_security_event_def note_reason_def map_simps Let_def
      dest: rotating_operations joining_operations split: epoch_transition.split option.split)

lemma project_operations_security:
  "fmlookup (st_security_events (foldl (project_operation i) s ops)) j
    = (if j = i then foldl note_reason (fmlookup (st_security_events s) i) ops
       else fmlookup (st_security_events s) j)"
  by (induction ops arbitrary: s) (simp_all add: project_operation_def Let_def note_security_event_lookup)

lemma project_event_security:
  assumes "project_event c g st s i = Inr s'"
  shows "fmlookup (st_security_events s') j
    = (if j = i then foldl note_reason (fmlookup (st_security_events s) i) (projected_operations g i)
       else fmlookup (st_security_events s) j)"
  using project_event_Inr [OF assms] by (auto simp: project_operations_security)

lemma project_fold_security:
  assumes "fold_result (project_event c g st) s ids = Inr s'" and "distinct ids"
  shows "fmlookup (st_security_events s') j
    = (if j \<in> set ids then foldl note_reason (fmlookup (st_security_events s) j) (projected_operations g j)
       else fmlookup (st_security_events s) j)"
  using assms by (induction ids arbitrary: s) (auto simp: and_then_Inr_iff project_event_security)

lemma note_reason_fold_None:
  "foldl note_reason (Some r) ops \<noteq> None"
proof (induction ops arbitrary: r)
  case (Cons op ops)
  have "\<exists>r'. note_reason (Some r) op = Some r'" by (auto simp: note_reason_def split: epoch_transition.split)
  then show ?case using Cons by auto
qed simp

definition mutating :: "vault_operation \<Rightarrow> bool" where
  "mutating op \<longleftrightarrow> \<not> is_epoch_checkpoint op \<and> \<not> is_join_requested op"

lemma note_reason_mutating:
  assumes "\<not> is_vault_imported op"
  shows "note_reason r op =
    (if \<exists>d. op = DeviceRevoked d then Some RotationDeviceRevoked
     else if r \<noteq> None \<or> \<not> mutating op then r
     else if is_join_approved op then Some AccessGrant else Some ConcurrentVaultMutation)"
  using assms by (cases op) (auto simp: note_reason_def mutating_def)

text \<open>Without an import, an event with a mutating operation is recorded, and with a revocation it is
  recorded under that reason.\<close>

lemma event_reason_mutating:
  assumes "\<not> list_ex is_vault_imported ops"
  shows "foldl note_reason r ops =
    (if \<exists>d. DeviceRevoked d \<in> set ops then Some RotationDeviceRevoked
     else if r \<noteq> None \<or> \<not> list_ex mutating ops then r
     else if is_join_approved (hd (filter mutating ops)) then Some AccessGrant else Some ConcurrentVaultMutation)"
  using assms
proof (induction ops arbitrary: r)
  case (Cons op ops)
  have "mutating (DeviceRevoked d)" for d by (simp add: mutating_def)
  then show ?case using Cons by (auto simp: note_reason_mutating)
qed simp

lemma set_security_conflicts_of:
  "sc \<in> set (security_conflicts_of g reasons ids) \<Longrightarrow>
    \<exists>l\<in>set ids. \<exists>r\<in>set ids. sc = \<lparr>sc_events = [l, r], sc_reasons = [the (fmlookup reasons l), the (fmlookup reasons r)]\<rparr>
      \<and> events_are_concurrent g l r
      \<and> concurrent_epoch_rotations_conflict (the (fmlookup reasons l)) (the (fmlookup reasons r))"
  by (induction ids) auto

lemma security_conflicts_of_complete:
  assumes "l \<in> set ids" and "r \<in> set ids" and "events_are_concurrent g l r"
    and "concurrent_epoch_rotations_conflict (the (fmlookup reasons l)) (the (fmlookup reasons r))"
  shows "security_conflicts_of g reasons ids \<noteq> []"
  using assms
proof (induction ids)
  case (Cons i ids)
  have sym: "events_are_concurrent g r l" "concurrent_epoch_rotations_conflict (the (fmlookup reasons r)) (the (fmlookup reasons l))"
    using assms(3,4) by (auto simp: events_are_concurrent_def are_concurrent_def concurrent_epoch_rotations_conflict_def Let_def)
  have "l \<noteq> r" using assms(3) by (auto simp: events_are_concurrent_def are_concurrent_def)
  then consider "l = i \<and> r \<in> set ids" | "r = i \<and> l \<in> set ids" | "l \<in> set ids \<and> r \<in> set ids"
    using Cons.prems(1,2) by auto
  then show ?case
    by cases (use Cons sym in \<open>auto simp: filter_empty_conv\<close>)
qed simp

lemma from_graph_security:
  assumes history: "event_history c g" and p: "from_graph c g st = Inr p" and ids: "event_topological_order c g = Inr ids"
  obtains reasons where "vp_security_conflicts p = detect_security_conflicts g reasons"
    and "\<And>i. fmlookup reasons i = (if i \<in> set ids then event_reason (projected_operations g i) else None)"
proof -
  obtain store s where s: "fold_result (project_event c g store) (projection_start store) ids = Inr s"
    and p': "p = projection_finish g s" using from_graphE [OF p] ids by (metis Inr_inject)
  show thesis
  proof (rule that)
    show "vp_security_conflicts p = detect_security_conflicts g (st_security_events s)"
      by (simp add: p' projection_finish_def)
    show "fmlookup (st_security_events s) i = (if i \<in> set ids then event_reason (projected_operations g i) else None)" for i
      using project_fold_security [OF s history_order(2) [OF history ids], of i]
      by (simp add: projection_start_def event_reason_def)
  qed
qed

text \<open>C6: a projection without blocking conflicts has every device revocation causally ordered with every
  mutation of the vault: of two applicable events, one that revokes a device and one that does
  anything but checkpoint or ask to join, one is an ancestor of the other. So no device acted on the
  vault concurrently with a revocation unnoticed. (Events that import are excluded: the import
  takes over as their recorded reason.)\<close>

theorem unconflicted_revocations_are_ordered:
  assumes history: "event_history c g" and p: "from_graph c g st = Inr p" and clear: "\<not> has_blocking_conflicts p"
    and a: "fmlookup (eg_events g) i = Some a" "a \<in> set (applicable_events g)" "DeviceRevoked d \<in> set (operations (body a))"
    and b: "fmlookup (eg_events g) j = Some b" "b \<in> set (applicable_events g)" "list_ex mutating (operations (body b))"
    and no_import: "\<not> list_ex is_vault_imported (operations (body a) @ operations (body b))"
  shows "event_is_ancestor g i j \<or> event_is_ancestor g j i"
proof (rule ccontr)
  assume unordered: "\<not> (event_is_ancestor g i j \<or> event_is_ancestor g j i)"
  obtain ids where ids: "event_topological_order c g = Inr ids" using from_graphE [OF p] .
  obtain reasons where conflicts: "vp_security_conflicts p = detect_security_conflicts g reasons"
    and reasons: "\<And>i. fmlookup reasons i = (if i \<in> set ids then event_reason (projected_operations g i) else None)"
    using from_graph_security [OF history p ids] by metis
  note order = history_order [OF history ids]
  have wf: "event_graph_wf c g" using event_history_wf [OF history] ..
  have recorded: "k \<in> set ids \<and> projected_operations g k = operations (body e) \<and> k |\<in>| fmdom (cg_parents (eg_causal g))"
    if "fmlookup (eg_events g) k = Some e" "e \<in> set (applicable_events g)" for k e
  proof -
    have "k \<in> set ids" using applicable_event_id [OF history that] order(1) by simp
    then show ?thesis using order(4) [of k] that wf by (auto simp: event_graph_wf_def fmlookup_dom_iff)
  qed
  have ra: "fmlookup reasons i = Some RotationDeviceRevoked"
    using reasons [of i] recorded [OF a(1,2)] a(3) no_import event_reason_mutating [of "operations (body a)" None]
    by (auto simp: event_reason_def)
  have "\<exists>r. event_reason (operations (body b)) = Some r \<and> r \<noteq> RotationGenesis"
    using b(3) no_import by (simp add: event_reason_def event_reason_mutating)
  then obtain r where rb: "fmlookup reasons j = Some r" "r \<noteq> RotationGenesis"
    using reasons [of j] recorded [OF b(1,2)] by auto
  have "concurrent_epoch_rotations_conflict RotationDeviceRevoked r"
    using rb(2) by (cases r) (simp_all add: concurrent_epoch_rotations_conflict_def)
  moreover have "events_are_concurrent g i j"
    using unordered recorded [OF a(1,2)] recorded [OF b(1,2)]
    by (auto simp: events_are_concurrent_def are_concurrent_def event_is_ancestor_def is_ancestor_iff)
  ultimately have "detect_security_conflicts g reasons \<noteq> []"
    unfolding detect_security_conflicts_def
    using security_conflicts_of_complete [of i "keys_of reasons" j g reasons] ra rb(1) by (simp add: fmdomI)
  then show False using clear conflicts by (simp add: has_blocking_conflicts_def)
qed

text \<open>A whole log projects.\<close>

lemma whole_projects:
  assumes plain: "plain_log log"
  obtains p where "from_graph (log_crates log) (whole log) ''store_Abcdef_1234'' = Inr p"
proof -
  let ?c = "log_crates log" and ?g = "whole log" and ?st = "StoreId ''store_Abcdef_1234''"
  obtain ids where ids: "event_topological_order ?c ?g = Inr ids" using whole_order [OF plain] .
  have recorded: "\<exists>k<length log. fmlookup (eg_events ?g) i = Some (log_event log k)" if "i \<in> set ids" for i
  proof -
    have "i \<in> {ex_id k | k. k < length log}"
      using that history_order(1) [OF whole_history [OF plain] ids] whole_applicable [OF plain] by simp
    then obtain k where "i = ex_id k" "k < length log" by blast
    with whole_lookup [OF plain this(2)] show ?thesis by blast
  qed
  have supported: "\<exists>ev. fmlookup (eg_events ?g) i = Some ev \<and> schema_is_supported (schema_version (body ev))"
    if "i \<in> set ids" for i
    using history_order(4) [OF whole_history [OF plain] ids that] by blast
  have "\<not> (\<exists>i\<in>set ids. \<exists>ev. fmlookup (eg_events ?g) i = Some ev \<and> store_id (body ev) \<noteq> ?st)"
    using recorded by fastforce
  note same = if_not_P [OF this]
  have "\<exists>s. fold_result (project_event ?c ?g ?st) (projection_start ?st) ids = Inr s"
    using project_fold_outcome [of ids ?g ?st ?c "projection_start ?st", OF supported] unfolding same by blast
  moreover have "store_id_parse ''store_Abcdef_1234'' = Inr ?st" by code_simp
  ultimately show ?thesis using that ids by (auto simp: from_graph_def project_events_def)
qed

lemma no_concurrency_no_conflicts:
  assumes "from_graph c g st = Inr p" and "\<And>i j. \<not> events_are_concurrent g i j"
  shows "\<not> has_blocking_conflicts p"
proof -
  obtain s where p: "p = projection_finish g s" using from_graphE [OF assms(1)] .
  have "security_conflicts_of g reasons ids = []" for reasons ids
    using set_security_conflicts_of [of _ g reasons ids] assms(2) by (cases "security_conflicts_of g reasons ids") auto
  moreover have "\<not> has_concurrent g ids" for ids using assms(2) by (simp add: has_concurrent_def list_ex_iff)
  then have "foldl (\<lambda>conflicts (old_id, entries).
         if has_concurrent g (map fst entries) \<and> length entries > 1
         then fmupd old_id \<lparr>rc_old_secret_id = old_id, rc_candidates = collect_map entries\<rparr> conflicts
         else conflicts) m xs = m" for m and xs :: "(secret_id \<times> (event_id \<times> secret_id) list) list"
    by (induction xs arbitrary: m) auto
  ultimately show ?thesis
    by (simp add: p has_blocking_conflicts_def projection_finish_def detect_security_conflicts_def
        detect_replacement_conflicts_def)
qed

theorem unconflicted_revocations_are_ordered_witness:
  "event_is_ancestor (whole ex_revocation_log) (ex_id 2) (ex_id 1)
   \<or> event_is_ancestor (whole ex_revocation_log) (ex_id 1) (ex_id 2)"
proof -
  have plain: "plain_log ex_revocation_log" using ex_revocation_linear by (simp add: linear_log_def)
  obtain p where p: "from_graph (log_crates ex_revocation_log) (whole ex_revocation_log) ''store_Abcdef_1234'' = Inr p"
    using whole_projects [OF plain] .
  have clear: "\<not> has_blocking_conflicts p"
    using no_concurrency_no_conflicts [OF p] linear_log_not_concurrent [OF ex_revocation_linear] by blast
  have len: "1 < length ex_revocation_log" "2 < length ex_revocation_log" by (simp_all add: ex_revocation_log_def)
  have applicable: "log_event ex_revocation_log k \<in> set (applicable_events (whole ex_revocation_log))"
    if "k < length ex_revocation_log" for k
    unfolding whole_applicable_events [OF plain] using that by blast
  show ?thesis
  proof (rule unconflicted_revocations_are_ordered [OF whole_history [OF plain] p clear
        whole_lookup [OF plain len(2)] applicable [OF len(2)] _ whole_lookup [OF plain len(1)] applicable [OF len(1)]])
    show "DeviceRevoked (AppId ''d'') \<in> set (operations (body (log_event ex_revocation_log 2)))"
      by (simp add: ex_revocation_log_def)
    show "list_ex mutating (operations (body (log_event ex_revocation_log 1)))"
      by (simp add: ex_revocation_log_def mutating_def)
    show "\<not> list_ex is_vault_imported (operations (body (log_event ex_revocation_log 2))
        @ operations (body (log_event ex_revocation_log 1)))"
      by (simp add: ex_revocation_log_def)
  qed
qed

text \<open>An import in the same event hides a revocation. The reason recorded for an event that revokes a device
  and then imports is the import's, which conflicts with nothing, so no conflict of the projection
  names that event, whatever happened concurrently.\<close>

theorem import_masks_revocation:
  assumes history: "event_history c g" and p: "from_graph c g st = Inr p"
    and a: "fmlookup (eg_events g) i = Some a" "a \<in> set (applicable_events g)"
      "operations (body a) = [DeviceRevoked d, VaultImported h secrets]"
  shows "\<forall>conflict\<in>set (vp_security_conflicts p). i \<notin> set (sc_events conflict)"
proof -
  obtain ids where ids: "event_topological_order c g = Inr ids" using from_graphE [OF p] .
  obtain reasons where conflicts: "vp_security_conflicts p = detect_security_conflicts g reasons"
    and reasons: "\<And>i. fmlookup reasons i = (if i \<in> set ids then event_reason (projected_operations g i) else None)"
    using from_graph_security [OF history p ids] by metis
  note order = history_order [OF history ids]
  have "i \<in> set ids" using applicable_event_id [OF history a(1,2)] order(1) by simp
  then have "fmlookup reasons i = Some RotationGenesis"
    using reasons [of i] order(4) [of i] a by (auto simp: event_reason_def note_reason_def)
  then show ?thesis
    unfolding conflicts detect_security_conflicts_def
    by (auto dest!: set_security_conflicts_of simp: concurrent_epoch_rotations_conflict_def)
qed

definition ex_masking_log :: "log_entry list" where
  "ex_masking_log =
     [([], 0, [VaultImported (Sha256Hex ''00'') []]), ([0], 0, [VaultCleared]),
      ([0], 0, [DeviceRevoked (AppId ''d''), VaultImported (Sha256Hex ''00'') []])]"

lemma ex_masking_plain: "plain_log ex_masking_log"
proof -
  have "log_distinct ex_masking_log" by (rule log_distinctI) (simp_all add: ex_masking_log_def)
  moreover have "\<forall>n<length ex_masking_log. plain_entry ex_masking_log n"
    by (simp add: ex_masking_log_def plain_entry_def less_Suc_eq all_conj_distrib numeral_eq_Suc)
  ultimately show ?thesis by (simp add: plain_log_def)
qed

theorem import_masks_revocation_witness:
  "\<exists>p. from_graph (log_crates ex_masking_log) (whole ex_masking_log) ''store_Abcdef_1234'' = Inr p
     \<and> (\<forall>conflict\<in>set (vp_security_conflicts p). ex_id 2 \<notin> set (sc_events conflict))"
proof -
  obtain p where p: "from_graph (log_crates ex_masking_log) (whole ex_masking_log) ''store_Abcdef_1234'' = Inr p"
    using whole_projects [OF ex_masking_plain] .
  have len: "2 < length ex_masking_log" by (simp add: ex_masking_log_def)
  have "log_event ex_masking_log 2 \<in> set (applicable_events (whole ex_masking_log))"
    unfolding whole_applicable_events [OF ex_masking_plain] using len by blast
  from import_masks_revocation [OF whole_history [OF ex_masking_plain] p whole_lookup [OF ex_masking_plain len] this,
      of "AppId ''d''" "Sha256Hex ''00''" "[]"]
  show ?thesis using p by (auto simp: ex_masking_log_def)
qed

subsection \<open>The current checkpoint\<close>

definition has_checkpoint :: "event_graph \<Rightarrow> event_id \<Rightarrow> bool" where
  "has_checkpoint g i \<longleftrightarrow>
     (\<exists>ev. fmlookup (eg_events g) i = Some ev \<and> list_ex is_epoch_checkpoint (operations (body ev)))"

lemma collect_checkpoints:
  assumes "\<And>i. i \<in> set ids \<Longrightarrow> fmlookup (eg_events g) i \<noteq> None"
  shows "case fold_result (collect_checkpoint g) acc ids of
      Inr checkpoints \<Rightarrow> checkpoints = acc @ filter (has_checkpoint g) ids
        \<and> (\<forall>i\<in>set ids. has_checkpoint g i \<longrightarrow>
             (\<exists>ev. fmlookup (eg_events g) i = Some ev \<and> parents (body ev) = [key_epoch (body ev)]))
    | Inl e \<Rightarrow> e = InvalidEpochCheckpointStructure ''checkpoint does not directly commit its key epoch''"
  using assms
proof (induction ids arbitrary: acc)
  case (Cons i ids)
  obtain ev where ev: "fmlookup (eg_events g) i = Some ev" using Cons.prems [of i] by auto
  have rest: "\<And>i. i \<in> set ids \<Longrightarrow> fmlookup (eg_events g) i \<noteq> None" using Cons.prems by simp
  have P: "has_checkpoint g i \<longleftrightarrow> list_ex is_epoch_checkpoint (operations (body ev))"
    using ev by (simp add: has_checkpoint_def)
  have step: "collect_checkpoint g acc i =
      (if \<not> has_checkpoint g i then Inr acc
       else if parents (body ev) \<noteq> [key_epoch (body ev)]
       then Inl (InvalidEpochCheckpointStructure ''checkpoint does not directly commit its key epoch'')
       else Inr (acc @ [i]))"
    using ev unfolding P by (simp add: collect_checkpoint_def event_lookup_def)
  show ?case
    using Cons.IH [OF rest, of acc] Cons.IH [OF rest, of "acc @ [i]"] ev
    by (auto simp: step split: sum.splits)
qed simp

lemma exists_latest:
  assumes antisym: "\<And>x y. x \<in> set xs \<Longrightarrow> y \<in> set xs \<Longrightarrow> event_is_ancestor g x y \<Longrightarrow> event_is_ancestor g y x \<Longrightarrow> x = y"
    and "i \<in> set xs"
  shows "\<exists>k\<in>set (latest_checkpoints g xs). event_is_ancestor g i k"
  using assms(2)
proof (induction "card {o1 \<in> set xs. event_is_ancestor g i o1}" arbitrary: i rule: less_induct)
  case less
  show ?case
  proof (cases "i \<in> set (latest_checkpoints g xs)")
    case True
    then show ?thesis by (auto simp: event_is_ancestor_def is_ancestor_iff)
  next
    case False
    then obtain j where j: "j \<in> set xs" "i \<noteq> j" "event_is_ancestor g i j"
      using less.prems by (auto simp: latest_checkpoints_def list_ex_iff)
    have trans: "event_is_ancestor g i k" if "event_is_ancestor g j k" for k
      using that j(3) unfolding event_is_ancestor_def is_ancestor_iff by (rule rtrancl_trans)
    have "i \<notin> {o1 \<in> set xs. event_is_ancestor g j o1}" using antisym [OF less.prems j(1,3)] j(2) by blast
    moreover have "i \<in> {o1 \<in> set xs. event_is_ancestor g i o1}"
      using less.prems by (simp add: event_is_ancestor_def is_ancestor_iff)
    ultimately have "{o1 \<in> set xs. event_is_ancestor g j o1} \<subset> {o1 \<in> set xs. event_is_ancestor g i o1}"
      using trans by blast
    then have "card {o1 \<in> set xs. event_is_ancestor g j o1} < card {o1 \<in> set xs. event_is_ancestor g i o1}"
      by (intro psubset_card_mono) auto
    from less.hyps [OF this j(1)] show ?thesis using trans by blast
  qed
qed

lemma applicable_antisym:
  assumes "event_graph_wf c g" and "x \<in> set (applicable_ids (eg_causal g))"
    and "event_is_ancestor g x y" and "event_is_ancestor g y x"
  shows "x = y"
proof (rule ccontr)
  assume "x \<noteq> y"
  then have "(x, x) \<in> (next_rel (cg_parents (eg_causal g)))\<^sup>+"
    using assms(3,4) unfolding event_is_ancestor_def is_ancestor_iff
    by (metis rtranclD rtrancl_trancl_trancl)
  then have "x |\<in>| fmdom (cg_quarantined (eg_causal g))"
    using assms(1) wf_graph_quarantined [of "eg_causal g" x] by (auto simp: event_graph_wf_def)
  then show False using assms(2) by (simp add: set_applicable_ids)
qed

text \<open>The current checkpoint of a history is the latest one: when it is committed, it is an applicable
  checkpoint whose only parent is its key epoch and every applicable checkpoint is one of its
  ancestors; an unrotated graph has no applicable checkpoint; and the only other outcomes are
  competing genesis roots and a refused checkpoint structure.\<close>

theorem current_checkpoint_is_latest:
  assumes history: "event_history c g"
  shows "case current_epoch_checkpoint c g of
      Inr (Committed k) \<Rightarrow>
        (\<exists>ev\<in>set (applicable_events g). fmlookup (eg_events g) k = Some ev
           \<and> list_ex is_epoch_checkpoint (operations (body ev)) \<and> parents (body ev) = [key_epoch (body ev)])
        \<and> (\<forall>i\<in>set (applicable_ids (eg_causal g)). has_checkpoint g i \<longrightarrow> event_is_ancestor g i k)
    | Inr Unrotated \<Rightarrow> \<forall>i\<in>set (applicable_ids (eg_causal g)). \<not> has_checkpoint g i
    | Inl e \<Rightarrow> e = MultipleGenesisRoots \<or> (\<exists>reason. e = InvalidEpochCheckpointStructure reason)"
proof (cases "event_topological_order c g")
  case (Inl e)
  obtain ids where "topological_order (eg_causal g) = Inr ids" using history_causal_order [OF history] .
  then have "e = MultipleGenesisRoots"
    using Inl history_validates [OF history] by (auto simp: event_topological_order_def)
  then show ?thesis using Inl by (simp add: current_epoch_checkpoint_def)
next
  case (Inr ids)
  note order = history_order [OF history Inr]
  have wf: "event_graph_wf c g" using event_history_wf [OF history] ..
  have "fmlookup (eg_events g) i \<noteq> None" if "i \<in> set ids" for i using order(4) [OF that] by auto
  from collect_checkpoints [OF this, of ids "[]"] have collected: "case fold_result (collect_checkpoint g) [] ids of
      Inr checkpoints \<Rightarrow> checkpoints = filter (has_checkpoint g) ids
        \<and> (\<forall>i\<in>set ids. has_checkpoint g i \<longrightarrow>
             (\<exists>ev. fmlookup (eg_events g) i = Some ev \<and> parents (body ev) = [key_epoch (body ev)]))
    | Inl e \<Rightarrow> e = InvalidEpochCheckpointStructure ''checkpoint does not directly commit its key epoch''"
    unfolding append_Nil .
  show ?thesis
  proof (cases "fold_result (collect_checkpoint g) [] ids")
    case (Inl e)
    then show ?thesis using collected Inr by (simp add: current_epoch_checkpoint_def)
  next
    case (Inr checkpoints)
    then have checkpoints: "checkpoints = filter (has_checkpoint g) ids"
      and direct: "\<And>i. i \<in> set ids \<Longrightarrow> has_checkpoint g i \<Longrightarrow>
        \<exists>ev. fmlookup (eg_events g) i = Some ev \<and> parents (body ev) = [key_epoch (body ev)]"
      using collected by auto
    have latest: "\<exists>k\<in>set (latest_checkpoints g checkpoints). event_is_ancestor g i k"
      if "i \<in> set (applicable_ids (eg_causal g))" "has_checkpoint g i" for i
      using that applicable_antisym [OF wf]
      by (intro exists_latest) (auto simp: checkpoints order(1))
    consider "length (latest_checkpoints g checkpoints) > 1" | "latest_checkpoints g checkpoints = []"
      | k where "latest_checkpoints g checkpoints = [k]"
      by (cases "latest_checkpoints g checkpoints"; cases "tl (latest_checkpoints g checkpoints)") auto
    then show ?thesis
    proof cases
      case (3 k)
      then have "k \<in> set (latest_checkpoints g checkpoints)" by simp
      then have k: "k \<in> set ids" "has_checkpoint g k" by (auto simp: latest_checkpoints_def checkpoints)
      then obtain ev where ev: "fmlookup (eg_events g) k = Some ev" "parents (body ev) = [key_epoch (body ev)]"
        "list_ex is_epoch_checkpoint (operations (body ev))"
        using direct [OF k] by (auto simp: has_checkpoint_def)
      then have "ev \<in> set (applicable_events g)" using k(1) order(1) by (auto simp: applicable_events_lookup)
      then show ?thesis
        using 3 latest ev Inr \<open>event_topological_order c g = Inr ids\<close>
        by (auto simp: current_epoch_checkpoint_def)
    qed (use latest Inr \<open>event_topological_order c g = Inr ids\<close> in \<open>auto simp: current_epoch_checkpoint_def Let_def\<close>)
  qed
qed

theorem current_checkpoint_is_latest_witness:
  "current_epoch_checkpoint (log_crates ex_revocation_log) (whole ex_revocation_log) \<noteq> Inr Unrotated"
proof
  have plain: "plain_log ex_revocation_log" using ex_revocation_linear by (simp add: linear_log_def)
  assume "current_epoch_checkpoint (log_crates ex_revocation_log) (whole ex_revocation_log) = Inr Unrotated"
  with current_checkpoint_is_latest [OF whole_history [OF plain]]
  have none: "\<forall>i\<in>set (applicable_ids (eg_causal (whole ex_revocation_log))). \<not> has_checkpoint (whole ex_revocation_log) i"
    by simp
  have len: "3 < length ex_revocation_log" by (simp add: ex_revocation_log_def)
  then have "ex_id 3 \<in> set (applicable_ids (eg_causal (whole ex_revocation_log)))"
    unfolding whole_applicable [OF plain] by blast
  moreover have "has_checkpoint (whole ex_revocation_log) (ex_id 3)"
    using whole_lookup [OF plain len] by (simp add: has_checkpoint_def ex_revocation_log_def)
  ultimately show False using none by blast
qed

end
