(* ===== verification/ProjectionOrder.thy ===== *)
theory ProjectionOrder
  imports ProjectionLaws
begin

text \<open>
  The projection and the order of concurrent events: events that touch different secrets commute, so
  every order that respects causality projects to the same state; an event that clears the vault
  does not commute, and the tie-break between it and a concurrent creation decides.
\<close>

subsection \<open>Orders that respect causality\<close>

text \<open>Two orders of the same elements lead to the same state when every pair that neither order is bound
  to keep commutes.\<close>

lemma foldl_to_front:
  assumes "\<And>s A x y. ok A s \<Longrightarrow> x \<in> A \<Longrightarrow> y \<in> A \<Longrightarrow> x \<noteq> y \<Longrightarrow> Q x y \<Longrightarrow> Q y x \<Longrightarrow> f (f s x) y = f (f s y) x"
    and "\<And>s A x. ok A s \<Longrightarrow> x \<in> A \<Longrightarrow> ok (A - {x}) (f s x)"
    and "ok A s" and "set us \<subseteq> A" and "x \<in> A" and "distinct us" and "x \<notin> set us"
    and "\<And>u. u \<in> set us \<Longrightarrow> Q u x \<and> Q x u"
  shows "foldl f s (us @ [x]) = foldl f (f s x) us"
  using assms(3-8)
proof (induction us arbitrary: s A)
  case (Cons u us)
  have ok: "ok (A - {u}) (f s u)" using assms(2) [of A s u] Cons.prems by auto
  have "foldl f (f s u) (us @ [x]) = foldl f (f (f s u) x) us"
    using Cons.prems by (intro Cons.IH [OF ok]) auto
  also have "f (f s u) x = f (f s x) u"
    using Cons.prems assms(1) [of A s u x] by auto
  finally show ?case by simp
qed simp

lemma foldl_ok:
  assumes "\<And>s A x. ok A s \<Longrightarrow> x \<in> A \<Longrightarrow> ok (A - {x}) (f s x)"
    and "ok A s" and "set xs \<subseteq> A" and "distinct xs"
  shows "ok (A - set xs) (foldl f s xs)"
  using assms(2-4)
proof (induction xs arbitrary: s A)
  case (Cons x xs)
  have "ok (A - {x}) (f s x)" using assms(1) [of A s x] Cons.prems by auto
  then have "ok (A - {x} - set xs) (foldl f (f s x) xs)" using Cons.prems by (intro Cons.IH) auto
  moreover have "A - {x} - set xs = A - set (x # xs)" by auto
  ultimately show ?case by simp
qed simp

lemma foldl_reorder:
  assumes comm: "\<And>s A x y. ok A s \<Longrightarrow> x \<in> A \<Longrightarrow> y \<in> A \<Longrightarrow> x \<noteq> y \<Longrightarrow> Q x y \<Longrightarrow> Q y x \<Longrightarrow> f (f s x) y = f (f s y) x"
    and step: "\<And>s A x. ok A s \<Longrightarrow> x \<in> A \<Longrightarrow> ok (A - {x}) (f s x)"
    and "ok (set xs) s" and "set xs = set ys" and "distinct xs" and "distinct ys"
    and "sorted_wrt Q xs" and "sorted_wrt Q ys"
  shows "foldl f s xs = foldl f s ys"
  using assms(3-8)
proof (induction xs arbitrary: s ys)
  case (Cons x xs)
  then obtain us vs where ys: "ys = us @ x # vs" by (metis list.set_intros(1) split_list)
  have Q: "Q u x \<and> Q x u" if "u \<in> set us" for u
  proof -
    have "u \<in> set xs" using that ys Cons.prems(2,4) by auto
    then show ?thesis using that Cons.prems(5,6) ys by (auto simp: sorted_wrt_append)
  qed
  have front: "foldl f s (us @ [x]) = foldl f (f s x) us"
  proof (rule foldl_to_front [where Q = Q and ok = ok and A = "set (x # xs)"])
    show "f (f s x) y = f (f s y) x" if "ok A s" "x \<in> A" "y \<in> A" "x \<noteq> y" "Q x y" "Q y x" for s A x y
      using that by (rule comm)
    show "ok (A - {x}) (f s x)" if "ok A s" "x \<in> A" for s A x using that by (rule step)
    show "Q u x \<and> Q x u" if "u \<in> set us" for u using that by (rule Q)
  qed (use Cons.prems ys in auto)
  have "foldl f s ys = foldl f (f s x) (us @ vs)"
    using front by (simp add: ys)
  also have "\<dots> = foldl f (f s x) xs"
  proof (rule Cons.IH [symmetric])
    have "set (x # xs) - {x} = set xs" using Cons.prems(3) by auto
    then show "ok (set xs) (f s x)" using step [OF Cons.prems(1), of x] by simp
    show "set xs = set (us @ vs)" "distinct (us @ vs)" using Cons.prems(2,3,4) by (auto simp: ys)
    show "sorted_wrt Q (us @ vs)" using Cons.prems(6) by (auto simp: ys sorted_wrt_append)
  qed (use Cons.prems in auto)
  finally show ?case by simp
qed simp

lemma placed_Nil: "placed_after_parents P []"
  by (simp add: placed_after_parents_def)

lemma placed_snoc:
  "placed_after_parents P (xs @ [x]) \<longleftrightarrow> placed_after_parents P xs \<and> (\<forall>p. (x, p) \<in> next_rel P \<longrightarrow> p \<in> set xs)"
  by (auto simp: placed_after_parents_def less_Suc_eq nth_append)

lemma placed_ancestors_first:
  assumes placed: "placed_after_parents P xs" and "distinct xs"
  shows "sorted_wrt (\<lambda>a b. (a, b) \<notin> (next_rel P)\<^sup>+) xs"
proof -
  have before: "\<exists>j<k. xs ! j = b" if "(a, b) \<in> (next_rel P)\<^sup>+" "xs ! k = a" "k < length xs" for a b k
    using that
  proof (induction arbitrary: k rule: converse_trancl_induct)
    case (base a)
    then have "b \<in> set (take k xs)" using placed by (auto simp: placed_after_parents_def)
    then show ?case by (auto simp: in_set_conv_nth)
  next
    case (step a a')
    then have "a' \<in> set (take k xs)" using placed by (auto simp: placed_after_parents_def)
    then obtain j where "j < k" "xs ! j = a'" by (auto simp: in_set_conv_nth)
    with step show ?case by (metis less_trans)
  qed
  show ?thesis
    unfolding sorted_wrt_iff_nth_less
  proof (intro allI impI notI)
    fix i j assume "i < j" "j < length xs" "(xs ! i, xs ! j) \<in> (next_rel P)\<^sup>+"
    with before [of "xs ! i" "xs ! j" i] obtain k where "k < i" "xs ! k = xs ! j" by auto
    then show False using \<open>distinct xs\<close> \<open>i < j\<close> \<open>j < length xs\<close> by (auto simp: nth_eq_iff_index_eq)
  qed
qed

subsection \<open>Operations that commute\<close>

text \<open>Operations on single secrets, and those the projection ignores.\<close>

fun secret_local :: "vault_operation \<Rightarrow> bool" where
  "secret_local (VaultImported _ _) = False"
| "secret_local (EpochCheckpoint _ _ _ _) = False"
| "secret_local (DeviceRevoked _) = False"
| "secret_local (VaultNamed _) = False"
| "secret_local VaultCleared = False"
| "secret_local _ = True"

fun touched_secrets :: "vault_operation \<Rightarrow> secret_id list" where
  "touched_secrets (SecretCreated secret) = [sp_id secret]"
| "touched_secrets (SecretDeleted d) = [d]"
| "touched_secrets (SecretReplaced old_id secret) = [old_id, sp_id secret]"
| "touched_secrets (SecretConflictResolved old_id _ rejected) = old_id # rejected"
| "touched_secrets _ = []"

fun replacement_effect ::
    "event_id \<Rightarrow> secret_id \<Rightarrow> (event_id \<times> secret_id) list option \<Rightarrow> vault_operation \<Rightarrow> (event_id \<times> secret_id) list option" where
  "replacement_effect i sid x (SecretReplaced old_id secret) =
     (if old_id = sid then Some ((case x of Some es \<Rightarrow> es | None \<Rightarrow> []) @ [(i, sp_id secret)]) else x)"
| "replacement_effect i sid x (SecretConflictResolved old_id _ _) = (if old_id = sid then None else x)"
| "replacement_effect i sid x _ = x"

fun conflict_effect :: "secret_id \<Rightarrow> 'a option \<Rightarrow> vault_operation \<Rightarrow> 'a option" where
  "conflict_effect sid x (SecretConflictResolved old_id _ _) = (if old_id = sid then None else x)"
| "conflict_effect sid x _ = x"

lemma untouched_delete: "sid \<notin> set ds \<Longrightarrow> foldl (delete_effect i sid) x ds = x"
  by (induction ds arbitrary: x) (auto simp: delete_effect_def)

lemma untouched_effects:
  assumes "secret_local op" and "sid \<notin> set (touched_secrets op)"
  shows "secret_effect i sid x op = x" and "replacement_effect i sid y op = y" and "conflict_effect sid z op = z"
proof -
  show "secret_effect i sid x op = x"
    using assms by (cases op) (auto simp: insert_effect_def delete_effect_def untouched_delete)
  show "replacement_effect i sid y op = y" using assms by (cases op) auto
  show "conflict_effect sid z op = z" using assms by (cases op) auto
qed

lemma mark_deleted_fields [simp]:
  "vp_store_id (mark_deleted i p d) = vp_store_id p" "vp_epoch (mark_deleted i p d) = vp_epoch p"
  "vp_epoch_history (mark_deleted i p d) = vp_epoch_history p" "vp_vault_name (mark_deleted i p d) = vp_vault_name p"
  "vp_replacement_conflicts (mark_deleted i p d) = vp_replacement_conflicts p"
  "vp_security_conflicts (mark_deleted i p d) = vp_security_conflicts p"
  "vp_unresolved_schema (mark_deleted i p d) = vp_unresolved_schema p" "vp_cleared (mark_deleted i p d) = vp_cleared p"
  by (simp_all add: mark_deleted_def split: option.split)

lemma mark_deleted_fold_fields [simp]:
  "vp_store_id (foldl (mark_deleted i) p ds) = vp_store_id p" "vp_epoch (foldl (mark_deleted i) p ds) = vp_epoch p"
  "vp_epoch_history (foldl (mark_deleted i) p ds) = vp_epoch_history p"
  "vp_vault_name (foldl (mark_deleted i) p ds) = vp_vault_name p"
  "vp_replacement_conflicts (foldl (mark_deleted i) p ds) = vp_replacement_conflicts p"
  "vp_security_conflicts (foldl (mark_deleted i) p ds) = vp_security_conflicts p"
  "vp_unresolved_schema (foldl (mark_deleted i) p ds) = vp_unresolved_schema p"
  "vp_cleared (foldl (mark_deleted i) p ds) = vp_cleared p"
  by (induction ds arbitrary: p) simp_all

lemma insert_secret_fields [simp]:
  "vp_store_id (insert_secret p i s o1) = vp_store_id p" "vp_epoch (insert_secret p i s o1) = vp_epoch p"
  "vp_epoch_history (insert_secret p i s o1) = vp_epoch_history p" "vp_vault_name (insert_secret p i s o1) = vp_vault_name p"
  "vp_replacement_conflicts (insert_secret p i s o1) = vp_replacement_conflicts p"
  "vp_security_conflicts (insert_secret p i s o1) = vp_security_conflicts p"
  "vp_unresolved_schema (insert_secret p i s o1) = vp_unresolved_schema p" "vp_cleared (insert_secret p i s o1) = vp_cleared p"
  by (simp_all add: insert_secret_def)

text \<open>What a local operation changes, field by field.\<close>

lemma local_operation_fields:
  assumes "secret_local op"
  shows "vp_store_id (st_projection (project_operation i s op)) = vp_store_id (st_projection s)"
    "vp_epoch (st_projection (project_operation i s op)) = vp_epoch (st_projection s)"
    "vp_epoch_history (st_projection (project_operation i s op)) = vp_epoch_history (st_projection s)"
    "vp_vault_name (st_projection (project_operation i s op)) = vp_vault_name (st_projection s)"
    "vp_security_conflicts (st_projection (project_operation i s op)) = vp_security_conflicts (st_projection s)"
    "vp_unresolved_schema (st_projection (project_operation i s op)) = vp_unresolved_schema (st_projection s)"
    "vp_cleared (st_projection (project_operation i s op)) = vp_cleared (st_projection s)"
    "st_epoch_events (project_operation i s op) = st_epoch_events s"
  using assms by (cases op; simp add: project_operation_def Let_def)+

lemma project_operation_replacements:
  "fmlookup (st_replacements (project_operation i s op)) sid
    = replacement_effect i sid (fmlookup (st_replacements s) sid) op"
  by (cases op) (simp_all add: project_operation_def Let_def get_or_empty_def split: option.split)

lemma project_operation_conflicts:
  "secret_local op \<Longrightarrow> fmlookup (vp_replacement_conflicts (st_projection (project_operation i s op))) sid
    = conflict_effect sid (fmlookup (vp_replacement_conflicts (st_projection s)) sid) op"
  by (cases op) (simp_all add: project_operation_def Let_def)

lemma project_operation_security:
  "fmlookup (st_security_events (project_operation i s op)) j
    = (if j = i then note_reason (fmlookup (st_security_events s) i) op else fmlookup (st_security_events s) j)"
  by (simp add: project_operation_def Let_def note_security_event_lookup)

lemma projection_state_eqI:
  fixes s t :: projection_state
  assumes "\<And>sid. fmlookup (vp_secrets (st_projection s)) sid = fmlookup (vp_secrets (st_projection t)) sid"
    and "\<And>sid. fmlookup (vp_replacement_conflicts (st_projection s)) sid = fmlookup (vp_replacement_conflicts (st_projection t)) sid"
    and "\<And>sid. fmlookup (st_replacements s) sid = fmlookup (st_replacements t) sid"
    and "\<And>j. fmlookup (st_security_events s) j = fmlookup (st_security_events t) j"
    and "st_epoch_events s = st_epoch_events t"
    and "vp_store_id (st_projection s) = vp_store_id (st_projection t)" "vp_epoch (st_projection s) = vp_epoch (st_projection t)"
    and "vp_epoch_history (st_projection s) = vp_epoch_history (st_projection t)"
    and "vp_vault_name (st_projection s) = vp_vault_name (st_projection t)"
    and "vp_security_conflicts (st_projection s) = vp_security_conflicts (st_projection t)"
    and "vp_unresolved_schema (st_projection s) = vp_unresolved_schema (st_projection t)"
    and "vp_cleared (st_projection s) = vp_cleared (st_projection t)"
  shows "s = t"
proof -
  have "st_projection s = st_projection t"
    using assms(1,2,6-12) by (intro vault_projection.equality) (auto intro: fmap_ext)
  then show ?thesis using assms(3-5) by (intro projection_state.equality) (auto intro: fmap_ext)
qed

lemma local_operations_commute:
  assumes "i \<noteq> j" and a: "secret_local a" and b: "secret_local b"
    and disjoint: "set (touched_secrets a) \<inter> set (touched_secrets b) = {}"
  shows "project_operation j (project_operation i s a) b = project_operation i (project_operation j s b) a"
proof (rule projection_state_eqI)
  fix sid
  note untouched = untouched_effects [OF a, of sid] untouched_effects [OF b, of sid]
  consider "sid \<notin> set (touched_secrets a)" | "sid \<notin> set (touched_secrets b)" using disjoint by auto
  note cases = this
  show "fmlookup (vp_secrets (st_projection (project_operation j (project_operation i s a) b))) sid
      = fmlookup (vp_secrets (st_projection (project_operation i (project_operation j s b) a))) sid"
    using cases by cases (simp_all add: project_operation_lookup untouched)
  show "fmlookup (vp_replacement_conflicts (st_projection (project_operation j (project_operation i s a) b))) sid
      = fmlookup (vp_replacement_conflicts (st_projection (project_operation i (project_operation j s b) a))) sid"
    using cases by cases (simp_all add: project_operation_conflicts a b untouched)
  show "fmlookup (st_replacements (project_operation j (project_operation i s a) b)) sid
      = fmlookup (st_replacements (project_operation i (project_operation j s b) a)) sid"
    using cases by cases (simp_all add: project_operation_replacements untouched)
qed (use assms in \<open>simp_all add: local_operation_fields project_operation_security\<close>)

subsection \<open>Events that commute\<close>

lemma foldl_commute_step:
  assumes "\<And>s b. b \<in> set bs \<Longrightarrow> h (f s a) b = f (h s b) a"
  shows "foldl h (f s a) bs = f (foldl h s bs) a"
  using assms by (induction bs arbitrary: s) auto

lemma foldl_commute:
  assumes "\<And>s a b. a \<in> set as \<Longrightarrow> b \<in> set bs \<Longrightarrow> h (f s a) b = f (h s b) a"
  shows "foldl h (foldl f s as) bs = foldl f (foldl h s bs) as"
  using assms
proof (induction "as" arbitrary: s)
  case (Cons a "as")
  have "foldl h (foldl f (f s a) as) bs = foldl f (foldl h (f s a) bs) as"
    using Cons.prems by (intro Cons.IH) auto
  also have "foldl h (f s a) bs = f (foldl h s bs) a" using Cons.prems by (intro foldl_commute_step) auto
  finally show ?case by simp
qed simp

definition set_epoch :: "crates \<Rightarrow> vault_event \<Rightarrow> projection_state \<Rightarrow> projection_state" where
  "set_epoch c ev s =
     (case event_id_parse c (event_id_str (key_epoch (body ev))) of
        Inl _ \<Rightarrow> s
      | Inr epoch \<Rightarrow> s\<lparr>st_projection := (st_projection s)\<lparr>vp_epoch := CurrentEpoch epoch\<rparr>\<rparr>)"

text \<open>An event that starts no epoch only sets the current one.\<close>

lemma project_epoch_set: "fmlookup (st_epoch_events s) i = None \<Longrightarrow> project_epoch c i ev s = set_epoch c ev s"
  by (auto simp: project_epoch_def set_epoch_def Let_def split: sum.split)

lemma mark_deleted_epoch: "mark_deleted i (p\<lparr>vp_epoch := e\<rparr>) d = (mark_deleted i p d)\<lparr>vp_epoch := e\<rparr>"
  by (simp add: mark_deleted_def split: option.split)

lemma mark_deleted_fold_epoch: "foldl (mark_deleted i) (p\<lparr>vp_epoch := e\<rparr>) ds = (foldl (mark_deleted i) p ds)\<lparr>vp_epoch := e\<rparr>"
  by (induction ds arbitrary: p) (simp_all add: mark_deleted_epoch)

lemma insert_secret_epoch: "insert_secret (p\<lparr>vp_epoch := e\<rparr>) i secret o1 = (insert_secret p i secret o1)\<lparr>vp_epoch := e\<rparr>"
  by (simp add: insert_secret_def)

lemma apply_local_epoch:
  "secret_local op \<Longrightarrow> apply_operation i op (p\<lparr>vp_epoch := e\<rparr>, rs)
    = (let (p', rs') = apply_operation i op (p, rs) in (p'\<lparr>vp_epoch := e\<rparr>, rs'))"
  by (cases op) (simp_all add: mark_deleted_epoch mark_deleted_fold_epoch insert_secret_epoch Let_def)

lemma project_local_set_epoch:
  "secret_local op \<Longrightarrow> project_operation i (set_epoch c ev s) op = set_epoch c ev (project_operation i s op)"
  by (auto simp: project_operation_def set_epoch_def Let_def apply_local_epoch
      split: sum.split prod.split epoch_transition.split)

lemma project_locals_set_epoch:
  "list_all secret_local ops \<Longrightarrow>
    foldl (project_operation i) (set_epoch c ev s) ops = set_epoch c ev (foldl (project_operation i) s ops)"
  by (induction ops arbitrary: s) (simp_all add: project_local_set_epoch)

lemma project_locals_epoch_events:
  "list_all secret_local ops \<Longrightarrow> st_epoch_events (foldl (project_operation i) s ops) = st_epoch_events s"
  by (induction ops arbitrary: s) (simp_all add: local_operation_fields)

lemma project_operations_epoch_events:
  "j \<noteq> i \<Longrightarrow> fmlookup (st_epoch_events (foldl (project_operation i) s ops)) j = fmlookup (st_epoch_events s) j"
  by (induction ops arbitrary: s) (simp_all add: project_operation_def Let_def split: epoch_transition.split)

definition independent_events :: "event_graph \<Rightarrow> event_id \<Rightarrow> event_id \<Rightarrow> bool" where
  "independent_events g i j \<longleftrightarrow>
     (\<exists>a b. fmlookup (eg_events g) i = Some a \<and> fmlookup (eg_events g) j = Some b
        \<and> key_epoch (body a) = key_epoch (body b)
        \<and> list_all secret_local (operations (body a)) \<and> list_all secret_local (operations (body b))
        \<and> (\<forall>op\<in>set (operations (body a)). \<forall>op'\<in>set (operations (body b)).
             set (touched_secrets op) \<inter> set (touched_secrets op') = {}))"

definition event_step :: "crates \<Rightarrow> event_graph \<Rightarrow> projection_state \<Rightarrow> event_id \<Rightarrow> projection_state" where
  "event_step c g s i =
     (let ev = the (fmlookup (eg_events g) i)
      in project_epoch c i ev (foldl (project_operation i) s (operations (body ev))))"

lemma set_epoch_events [simp]: "st_epoch_events (set_epoch c ev s) = st_epoch_events s"
  by (simp add: set_epoch_def split: sum.split)

lemma project_epoch_epoch_events [simp]: "st_epoch_events (project_epoch c i ev s) = st_epoch_events s"
  by (simp add: project_epoch_def Let_def split: sum.split)

lemma event_steps_commute:
  assumes "i \<noteq> j" and "independent_events g i j"
    and fresh: "fmlookup (st_epoch_events s) i = None" "fmlookup (st_epoch_events s) j = None"
  shows "event_step c g (event_step c g s i) j = event_step c g (event_step c g s j) i"
proof -
  obtain a b where a: "fmlookup (eg_events g) i = Some a" "list_all secret_local (operations (body a))"
    and b: "fmlookup (eg_events g) j = Some b" "list_all secret_local (operations (body b))"
    and epoch: "key_epoch (body a) = key_epoch (body b)"
    and disjoint: "\<And>op op'. op \<in> set (operations (body a)) \<Longrightarrow> op' \<in> set (operations (body b)) \<Longrightarrow>
        set (touched_secrets op) \<inter> set (touched_secrets op') = {}"
    using assms(2) unfolding independent_events_def by blast
  have same: "set_epoch c a = set_epoch c b" by (rule ext) (simp add: set_epoch_def epoch)
  have "foldl (project_operation j) (foldl (project_operation i) s (operations (body a))) (operations (body b))
      = foldl (project_operation i) (foldl (project_operation j) s (operations (body b))) (operations (body a))"
    using a(2) b(2) disjoint \<open>i \<noteq> j\<close> by (intro foldl_commute local_operations_commute) (auto simp: list_all_iff)
  then show ?thesis
    using a b fresh
    by (simp add: event_step_def project_epoch_set project_locals_epoch_events project_locals_set_epoch same)
qed

text \<open>C7: the projection of a history does not depend on the tie-break as far as concurrent events touch
  different secrets: when any two concurrent applicable events share their key epoch and only
  create, delete, replace or resolve secrets, none of them in common, every order of the applicable
  events that keeps parents first projects to the very same state.\<close>

theorem projection_ignores_tie_break:
  assumes history: "event_history c g" and p: "from_graph c g st = Inr p"
    and independent: "\<And>i j. i \<in> set (applicable_ids (eg_causal g)) \<Longrightarrow> j \<in> set (applicable_ids (eg_causal g)) \<Longrightarrow>
      events_are_concurrent g i j \<Longrightarrow> independent_events g i j"
    and ys: "distinct ys" "set ys = set (applicable_ids (eg_causal g))" "placed_after_parents (cg_parents (eg_causal g)) ys"
  shows "\<exists>store s. store_id_parse st = Inr store \<and> project_events c g store ys = Inr s \<and> projection_finish g s = p"
proof -
  obtain store ids s where store: "store_id_parse st = Inr store" and ids: "event_topological_order c g = Inr ids"
    and s: "fold_result (project_event c g store) (projection_start store) ids = Inr s"
    and p': "p = projection_finish g s" using from_graphE [OF p] .
  note order = history_order [OF history ids]
  have wf: "event_graph_wf c g" using event_history_wf [OF history] ..
  have outcome: "if \<exists>i\<in>set ids. \<exists>ev. fmlookup (eg_events g) i = Some ev \<and> store_id (body ev) \<noteq> store
    then fold_result (project_event c g store) (projection_start store) ids = Inl ProjectionStoreMismatch
    else \<exists>s'. fold_result (project_event c g store) (projection_start store) ids = Inr s'
           \<and> vp_unresolved_schema (st_projection s') = vp_unresolved_schema (st_projection (projection_start store))"
    by (rule project_fold_outcome) (use order(4) in blast)
  have stores: "\<forall>i\<in>set ids. \<forall>ev. fmlookup (eg_events g) i = Some ev \<longrightarrow> store_id (body ev) = store"
  proof (rule ccontr)
    assume "\<not> (\<forall>i\<in>set ids. \<forall>ev. fmlookup (eg_events g) i = Some ev \<longrightarrow> store_id (body ev) = store)"
    then have "\<exists>i\<in>set ids. \<exists>ev. fmlookup (eg_events g) i = Some ev \<and> store_id (body ev) \<noteq> store" by blast
    from outcome [unfolded if_P [OF this]] s show False by simp
  qed
  have steps: "fold_result (project_event c g store) t is = Inr (foldl (event_step c g) t is)" if "set is \<subseteq> set ids" for t "is"
    using that
  proof (induction "is" arbitrary: t)
    case (Cons i "is")
    have i: "i \<in> set ids" using Cons.prems by simp
    then obtain ev where ev: "fmlookup (eg_events g) i = Some ev" "schema_is_supported (schema_version (body ev))"
      using order(4) [of i] by blast
    moreover have "store_id (body ev) = store" using stores i ev(1) by blast
    ultimately have "project_event c g store t i = Inr (event_step c g t i)"
      by (simp add: project_event_def event_lookup_def event_step_def)
    then show ?case using Cons by simp
  qed simp
  let ?R = "next_rel (cg_parents (eg_causal g))"
  have "foldl (event_step c g) (projection_start store) ids = foldl (event_step c g) (projection_start store) ys"
  proof (rule foldl_reorder [where Q = "\<lambda>a b. (a, b) \<notin> ?R\<^sup>+"
        and ok = "\<lambda>A s. A \<subseteq> set ids \<and> (\<forall>i\<in>A. fmlookup (st_epoch_events s) i = None)"])
    fix t :: projection_state and A x y
    assume ok: "A \<subseteq> set ids \<and> (\<forall>i\<in>A. fmlookup (st_epoch_events t) i = None)" "x \<in> A" "y \<in> A" "x \<noteq> y"
      and "(x, y) \<notin> ?R\<^sup>+" "(y, x) \<notin> ?R\<^sup>+"
    moreover have "z |\<in>| fmdom (cg_parents (eg_causal g))" if "z \<in> set ids" for z
      using that order(1) by (auto simp: set_applicable_ids ancestors_present_iff)
    ultimately have "events_are_concurrent g x y"
      by (auto simp: events_are_concurrent_def are_concurrent_def is_ancestor_iff dest: rtranclD)
    then have "independent_events g x y" using independent ok order(1) by blast
    then show "event_step c g (event_step c g t x) y = event_step c g (event_step c g t y) x"
      using ok by (intro event_steps_commute) auto
  next
    fix t :: projection_state and A x
    assume "A \<subseteq> set ids \<and> (\<forall>i\<in>A. fmlookup (st_epoch_events t) i = None)" "x \<in> A"
    then show "A - {x} \<subseteq> set ids \<and> (\<forall>i\<in>A - {x}. fmlookup (st_epoch_events (event_step c g t x)) i = None)"
      by (auto simp: event_step_def Let_def project_operations_epoch_events)
  qed (use order ys placed_ancestors_first in \<open>auto simp: projection_start_def\<close>)
  then have "project_events c g store ys = Inr s"
    using steps [of ids "projection_start store"] steps [of ys "projection_start store"] s ys(2) order(1)
    by (simp add: project_events_def)
  then show ?thesis using store p' by blast
qed

subsection \<open>Two events on top of an import\<close>

definition fork_log :: "vault_operation \<Rightarrow> vault_operation \<Rightarrow> log_entry list" where
  "fork_log a b = [([], 0, [VaultImported (Sha256Hex ''00'') []]), ([0], 0, [a]), ([0], 0, [b])]"

lemma fork_plain:
  assumes "list_all (\<lambda>op. plain_operation op \<and> operation_wf op \<and> \<not> is_vault_imported op \<and> \<not> is_epoch_checkpoint op) [a, b]"
    and "a \<noteq> b"
  shows "plain_log (fork_log a b)"
proof -
  have "log_distinct (fork_log a b)"
    by (rule log_distinctI) (use assms in \<open>auto simp: fork_log_def\<close>)
  moreover have "\<forall>n<length (fork_log a b). plain_entry (fork_log a b) n"
    using assms by (simp add: fork_log_def plain_entry_def less_Suc_eq all_conj_distrib numeral_eq_Suc)
  ultimately show ?thesis by (simp add: plain_log_def)
qed

lemma fork_lookup:
  assumes "plain_log (fork_log a b)"
  shows "fmlookup (eg_events (whole (fork_log a b))) (ex_id 0) = Some (log_event (fork_log a b) 0)"
    "fmlookup (eg_events (whole (fork_log a b))) (ex_id (Suc 0)) = Some (log_event (fork_log a b) (Suc 0))"
    "fmlookup (eg_events (whole (fork_log a b))) (ex_id 2) = Some (log_event (fork_log a b) 2)"
  by (rule whole_lookup [OF assms], simp add: fork_log_def)+

declare log_graph.simps [simp del]

lemma fork_nth [simp]:
  "fork_log a b ! 0 = ([], 0, [VaultImported (Sha256Hex ''00'') []])" "fork_log a b ! Suc 0 = ([0], 0, [a])"
  "fork_log a b ! 2 = ([0], 0, [b])"
  by (simp_all add: fork_log_def)

lemma fork_ids: "ex_id 0 \<noteq> ex_id (Suc 0)" "ex_id 0 \<noteq> ex_id 2" "ex_id (Suc 0) \<noteq> ex_id 2"
  by (simp_all add: ex_id_inject)

lemma fork_applicable:
  "plain_log (fork_log a b) \<Longrightarrow> set (applicable_ids (eg_causal (whole (fork_log a b)))) = {ex_id 0, ex_id (Suc 0), ex_id 2}"
  unfolding whole_applicable by (auto simp: fork_log_def less_Suc_eq numeral_eq_Suc)

lemma fork_next:
  assumes "plain_log (fork_log a b)"
  shows "(ex_id 0, y) \<notin> next_rel (cg_parents (eg_causal (whole (fork_log a b))))"
    "(ex_id (Suc 0), y) \<in> next_rel (cg_parents (eg_causal (whole (fork_log a b)))) \<longleftrightarrow> y = ex_id 0"
    "(ex_id 2, y) \<in> next_rel (cg_parents (eg_causal (whole (fork_log a b)))) \<longleftrightarrow> y = ex_id 0"
  by (auto simp: next_rel_iff whole_parents [OF assms] fork_lookup [OF assms] normalize_parents_def)

lemma fork_orders:
  assumes "plain_log (fork_log a b)"
  shows "placed_after_parents (cg_parents (eg_causal (whole (fork_log a b)))) [ex_id 0, ex_id (Suc 0), ex_id 2]"
    and "placed_after_parents (cg_parents (eg_causal (whole (fork_log a b)))) [ex_id 0, ex_id 2, ex_id (Suc 0)]"
  using fork_next [OF assms] placed_snoc [of _ "[ex_id 0, ex_id (Suc 0)]" "ex_id 2"]
    placed_snoc [of _ "[ex_id 0, ex_id 2]" "ex_id (Suc 0)"] placed_snoc [of _ "[ex_id 0]"] placed_snoc [of _ "[]" "ex_id 0"]
  by (simp_all add: placed_Nil)

lemma rtrancl_unroll: "(x, y) \<in> R\<^sup>* \<longleftrightarrow> y = x \<or> (\<exists>z. (x, z) \<in> R \<and> (z, y) \<in> R\<^sup>*)"
proof
  assume "(x, y) \<in> R\<^sup>*"
  then show "y = x \<or> (\<exists>z. (x, z) \<in> R \<and> (z, y) \<in> R\<^sup>*)" by (cases rule: converse_rtranclE) blast+
next
  assume "y = x \<or> (\<exists>z. (x, z) \<in> R \<and> (z, y) \<in> R\<^sup>*)"
  then show "(x, y) \<in> R\<^sup>*" by (blast intro: converse_rtrancl_into_rtrancl)
qed

lemma fork_concurrent:
  assumes "plain_log (fork_log a b)"
  shows "events_are_concurrent (whole (fork_log a b)) (ex_id (Suc 0)) (ex_id 2)"
    and "i \<in> {ex_id 0, ex_id (Suc 0), ex_id 2} \<Longrightarrow> j \<in> {ex_id 0, ex_id (Suc 0), ex_id 2} \<Longrightarrow>
      events_are_concurrent (whole (fork_log a b)) i j \<Longrightarrow> {i, j} = {ex_id (Suc 0), ex_id 2}"
proof -
  let ?R = "next_rel (cg_parents (eg_causal (whole (fork_log a b))))"
  have root: "(ex_id 0, y) \<in> ?R\<^sup>* \<longleftrightarrow> y = ex_id 0" for y
    by (subst rtrancl_unroll) (simp add: fork_next [OF assms])
  have one: "(ex_id (Suc 0), y) \<in> ?R\<^sup>* \<longleftrightarrow> y = ex_id (Suc 0) \<or> y = ex_id 0" for y
    by (subst rtrancl_unroll) (simp add: fork_next [OF assms] root)
  have two: "(ex_id 2, y) \<in> ?R\<^sup>* \<longleftrightarrow> y = ex_id 2 \<or> y = ex_id 0" for y
    by (subst rtrancl_unroll) (simp add: fork_next [OF assms] root)
  have "ex_id (Suc 0) |\<in>| fmdom (cg_parents (eg_causal (whole (fork_log a b))))"
    "ex_id 2 |\<in>| fmdom (cg_parents (eg_causal (whole (fork_log a b))))"
    by (simp_all add: fmlookup_dom_iff whole_parents [OF assms] fork_lookup [OF assms])
  then show "events_are_concurrent (whole (fork_log a b)) (ex_id (Suc 0)) (ex_id 2)"
    using fork_ids one two
    by (simp add: events_are_concurrent_def are_concurrent_def is_ancestor_iff)
  assume "i \<in> {ex_id 0, ex_id (Suc 0), ex_id 2}" "j \<in> {ex_id 0, ex_id (Suc 0), ex_id 2}"
    "events_are_concurrent (whole (fork_log a b)) i j"
  then show "{i, j} = {ex_id (Suc 0), ex_id 2}"
    using one two by (auto simp: events_are_concurrent_def are_concurrent_def is_ancestor_iff)
qed

lemma ex_secret_id: "sp_id ex_secret = SecretId ''secret_aaaaaaaaaaa''"
  by (simp add: ex_secret_def)

theorem projection_ignores_tie_break_witness:
  "\<exists>s t. project_events (log_crates (fork_log (SecretCreated ex_secret) (SecretDeleted (SecretId ''x''))))
       (whole (fork_log (SecretCreated ex_secret) (SecretDeleted (SecretId ''x''))))
       (StoreId ''store_Abcdef_1234'') [ex_id 0, ex_id (Suc 0), ex_id 2] = Inr s
     \<and> project_events (log_crates (fork_log (SecretCreated ex_secret) (SecretDeleted (SecretId ''x''))))
       (whole (fork_log (SecretCreated ex_secret) (SecretDeleted (SecretId ''x''))))
       (StoreId ''store_Abcdef_1234'') [ex_id 0, ex_id 2, ex_id (Suc 0)] = Inr t
     \<and> projection_finish (whole (fork_log (SecretCreated ex_secret) (SecretDeleted (SecretId ''x'')))) s
       = projection_finish (whole (fork_log (SecretCreated ex_secret) (SecretDeleted (SecretId ''x'')))) t"
proof -
  let ?log = "fork_log (SecretCreated ex_secret) (SecretDeleted (SecretId ''x''))"
  let ?c = "log_crates ?log" and ?g = "whole ?log"
  have plain: "plain_log ?log" by (rule fork_plain) simp_all
  obtain p where p: "from_graph ?c ?g ''store_Abcdef_1234'' = Inr p" using whole_projects [OF plain] .
  have st: "store_id_parse ''store_Abcdef_1234'' = Inr (StoreId ''store_Abcdef_1234'')" by code_simp
  have independent: "independent_events ?g i j"
    if "i \<in> set (applicable_ids (eg_causal ?g))" "j \<in> set (applicable_ids (eg_causal ?g))" "events_are_concurrent ?g i j" for i j
  proof -
    have "{i, j} = {ex_id (Suc 0), ex_id 2}"
      using that fork_concurrent(2) [OF plain] unfolding fork_applicable [OF plain] by blast
    then have "i = ex_id (Suc 0) \<and> j = ex_id 2 \<or> i = ex_id 2 \<and> j = ex_id (Suc 0)" by (auto simp: doubleton_eq_iff)
    then show ?thesis
      by (auto simp: independent_events_def fork_lookup [OF plain] ex_secret_id)
  qed
  note result = projection_ignores_tie_break [OF whole_history [OF plain] p independent]
  have "\<exists>store s. store_id_parse ''store_Abcdef_1234'' = Inr store
      \<and> project_events ?c ?g store [ex_id 0, ex_id (Suc 0), ex_id 2] = Inr s \<and> projection_finish ?g s = p"
    by (rule result) (use fork_ids fork_applicable [OF plain] fork_orders [OF plain] in auto)
  moreover have "\<exists>store s. store_id_parse ''store_Abcdef_1234'' = Inr store
      \<and> project_events ?c ?g store [ex_id 0, ex_id 2, ex_id (Suc 0)] = Inr s \<and> projection_finish ?g s = p"
    by (rule result) (use fork_ids fork_applicable [OF plain] fork_orders [OF plain] in auto)
  ultimately show ?thesis unfolding st by auto
qed

text \<open>C8: the tie-break between a concurrent creation and clearing of the vault decides whether the secret
  survives. Both orders of the two last events keep parents first, but the order that clears last
  leaves no secret and the order that creates last keeps the new one, so the projection is not
  independent of the tie-break.\<close>

theorem tie_break_decides_clear:
  assumes a: "fmlookup (eg_events g) i = Some a" "operations (body a) = [SecretCreated secret]"
      "schema_is_supported (schema_version (body a))" "store_id (body a) = st"
    and b: "fmlookup (eg_events g) j = Some b" "operations (body b) = [VaultCleared]"
      "schema_is_supported (schema_version (body b))" "store_id (body b) = st"
    and concurrent: "events_are_concurrent g i j"
    and before: "project_events c g st xs = Inr s"
    and placed: "placed_after_parents (cg_parents (eg_causal g)) (xs @ [i, j])"
  shows "\<exists>s1 s2. project_events c g st (xs @ [i, j]) = Inr s1 \<and> project_events c g st (xs @ [j, i]) = Inr s2
    \<and> placed_after_parents (cg_parents (eg_causal g)) (xs @ [j, i])
    \<and> vp_secrets (st_projection s1) = fmempty
    \<and> fmlookup (vp_secrets (st_projection s2)) (sp_id secret) = Some (projected_of i Created secret)"
proof -
  have steps: "project_event c g st t i = Inr (event_step c g t i)" "project_event c g st t j = Inr (event_step c g t j)" for t
    using a b by (simp_all add: project_event_def event_lookup_def event_step_def)
  have folds: "project_events c g st (xs @ ks) = fold_result (project_event c g st) s ks" for ks
    using before by (simp add: project_events_def fold_result_append)
  have secrets: "fmlookup (vp_secrets (st_projection (event_step c g t i))) sid
      = insert_effect i sid Created (fmlookup (vp_secrets (st_projection t)) sid) secret"
    "fmlookup (vp_secrets (st_projection (event_step c g t j))) sid = None" for t sid
    using a b by (simp_all add: event_step_def project_operation_lookup)
  have "(i, j) \<notin> next_rel (cg_parents (eg_causal g))" "(j, i) \<notin> next_rel (cg_parents (eg_causal g))"
    using concurrent by (auto simp: events_are_concurrent_def are_concurrent_def is_ancestor_iff)
  then have "placed_after_parents (cg_parents (eg_causal g)) (xs @ [j, i])"
    using placed placed_snoc [of _ xs i] placed_snoc [of _ xs j]
      placed_snoc [of _ "xs @ [i]" j] placed_snoc [of _ "xs @ [j]" i] by auto
  moreover have "vp_secrets (st_projection (event_step c g (event_step c g s i) j)) = fmempty"
    by (rule fmap_ext) (simp add: secrets)
  ultimately show ?thesis by (simp add: folds steps secrets insert_effect_def)
qed

theorem tie_break_decides_clear_witness:
  "\<exists>s1 s2. vp_secrets (st_projection s1) = fmempty
     \<and> fmlookup (vp_secrets (st_projection s2)) (sp_id ex_secret) = Some (projected_of (ex_id (Suc 0)) Created ex_secret)
     \<and> project_events (log_crates (fork_log (SecretCreated ex_secret) VaultCleared))
          (whole (fork_log (SecretCreated ex_secret) VaultCleared)) (StoreId ''store_Abcdef_1234'')
          [ex_id 0, ex_id (Suc 0), ex_id 2] = Inr s1
     \<and> project_events (log_crates (fork_log (SecretCreated ex_secret) VaultCleared))
          (whole (fork_log (SecretCreated ex_secret) VaultCleared)) (StoreId ''store_Abcdef_1234'')
          [ex_id 0, ex_id 2, ex_id (Suc 0)] = Inr s2"
proof -
  let ?log = "fork_log (SecretCreated ex_secret) VaultCleared"
  let ?c = "log_crates ?log" and ?g = "whole ?log" and ?st = "StoreId ''store_Abcdef_1234''"
  have plain: "plain_log ?log" by (rule fork_plain) simp_all
  obtain s where s: "project_events ?c ?g ?st [ex_id 0] = Inr s"
    by (simp add: project_events_def project_event_def event_lookup_def fork_lookup [OF plain] schema_is_supported_def)
  have placed: "placed_after_parents (cg_parents (eg_causal ?g)) ([ex_id 0] @ [ex_id (Suc 0), ex_id 2])"
    using fork_orders(1) [OF plain] by simp
  show ?thesis
    using tie_break_decides_clear [OF fork_lookup(2) [OF plain] _ _ _ fork_lookup(3) [OF plain] _ _ _
        fork_concurrent(1) [OF plain] s placed, of ex_secret]
    by (auto simp: schema_is_supported_def)
qed

end
