(* ===== verification/EventConvergence.thy ===== *)
theory EventConvergence
  imports ProjectionOrder
begin

text \<open>
  Replicas that hold the same events agree.  The quarantine of a history is characterized by the
  recorded events alone: an event is quarantined exactly when it descends from a cycle or from an
  event that fails its own checks with a complete causal past.  The order in which the events
  arrived, and the passes of \<open>quarantine_rejected\<close> in between, leave no trace, so everything the
  graph and the projection derive is the same on every replica.
\<close>

subsection \<open>Why an event is rejected\<close>

abbreviation event_rel :: "event_graph \<Rightarrow> (event_id \<times> event_id) set" where
  "event_rel g \<equiv> next_rel (parent_map (eg_events g))"

text \<open>What \<open>classify_event_quarantine\<close> decides once the parents are present and not quarantined.\<close>

definition own_check :: "crates \<Rightarrow> event_graph \<Rightarrow> vault_event \<Rightarrow> quarantine_decision event_result" where
  "own_check c g ev =
     (case validate_epoch_checkpoint_structure g ev of
        Inl (InvalidEpochCheckpointStructure reason) \<Rightarrow>
          Inr (Quarantine (''Invalid security epoch checkpoint: '' @ reason))
      | _ \<Rightarrow> classify_event_actor_quarantine c g ev)"

definition rejected_by_itself :: "crates \<Rightarrow> event_graph \<Rightarrow> event_id \<Rightarrow> bool" where
  "rejected_by_itself c g i \<longleftrightarrow>
     (\<exists>ev reason. fmlookup (eg_events g) i = Some ev \<and> own_check c g ev = Inr (Quarantine reason))
     \<and> (event_rel g)\<^sup>* `` {i} \<subseteq> fset (fmdom (eg_events g))"

definition rejection_cause :: "crates \<Rightarrow> event_graph \<Rightarrow> event_id \<Rightarrow> bool" where
  "rejection_cause c g i \<longleftrightarrow>
     (\<exists>r. (i, r) \<in> (event_rel g)\<^sup>* \<and> (rejected_by_itself c g r \<or> (r, r) \<in> (event_rel g)\<^sup>+))"

lemma rejection_cause_descends:
  "(j, i) \<in> event_rel g \<Longrightarrow> rejection_cause c g i \<Longrightarrow> rejection_cause c g j"
  unfolding rejection_cause_def by (meson converse_rtrancl_into_rtrancl)

lemma wf_event_rel:
  assumes "event_graph_wf c g"
  shows "next_rel (cg_parents (eg_causal g)) = event_rel g"
    and "fmdom (cg_parents (eg_causal g)) = fmdom (eg_events g)"
proof -
  have lookup: "\<And>i. fmlookup (cg_parents (eg_causal g)) i
      = map_option (\<lambda>ev. normalize_parents (parents (body ev))) (fmlookup (eg_events g) i)"
    using assms by (simp add: event_graph_wf_def)
  show "next_rel (cg_parents (eg_causal g)) = event_rel g"
    using lookup by (auto simp: next_rel_iff normalize_parents_def)
  show "fmdom (cg_parents (eg_causal g)) = fmdom (eg_events g)"
    using lookup by (auto simp: fmlookup_dom_iff)
qed

lemma own_check_cong: "eg_events g = eg_events h \<Longrightarrow> own_check c g ev = own_check c h ev"
  unfolding own_check_def using authorization_cong [of g h] by presburger

lemma rejection_cause_cong: "eg_events g = eg_events h \<Longrightarrow> rejection_cause c g = rejection_cause c h"
  unfolding rejection_cause_def rejected_by_itself_def using own_check_cong [of g h] by presburger

subsection \<open>The checks of an event look at its causal past only\<close>

lemma visit_order_agree:
  assumes "\<forall>j\<in>(next_rel (parent_map events))\<^sup>* `` set s. fmlookup events' j = fmlookup events j"
  shows "visit_order events' v s = visit_order events v s
    \<and> set (visit_order events v s) \<subseteq> (next_rel (parent_map events))\<^sup>* `` set s"
  using assms
proof (induction events v s rule: visit_order.induct)
  case (2 events v j s)
  have tail: "(next_rel (parent_map events))\<^sup>* `` set s \<subseteq> (next_rel (parent_map events))\<^sup>* `` set (j # s)"
    by auto
  have below: "(next_rel (parent_map events))\<^sup>* `` set (rev (parents (body e)) @ s)
      \<subseteq> (next_rel (parent_map events))\<^sup>* `` set (j # s)" if "fmlookup events j = Some e" for e
  proof -
    have "(j, p) \<in> next_rel (parent_map events)" if "p \<in> set (parents (body e))" for p
      using that \<open>fmlookup events j = Some e\<close> by (simp add: next_rel_iff)
    then show ?thesis by (auto intro: converse_rtrancl_into_rtrancl)
  qed
  have "fmlookup events' j = fmlookup events j" using "2.prems" by auto
  then show ?case
    using 2 tail below by (cases "j |\<in>| v"; cases "fmlookup events j") (simp_all, blast+)
qed simp

lemma past_agree:
  assumes agree: "\<forall>j\<in>(event_rel g)\<^sup>* `` set (parents (body e)). fmlookup (eg_events h) j = fmlookup (eg_events g) j"
  shows "validate_event_actor_authorized c h e = validate_event_actor_authorized c g e"
    and "validate_epoch_checkpoint_structure h e = validate_epoch_checkpoint_structure g e"
    and "own_check c h e = own_check c g e"
proof -
  have agree': "\<forall>j\<in>(event_rel g)\<^sup>* `` set (rev (parents (body e))). fmlookup (eg_events h) j = fmlookup (eg_events g) j"
    using agree by simp
  note order = visit_order_agree [OF agree', of "{||}"]
  have same: "fmlookup (eg_events h) j = fmlookup (eg_events g) j"
    if "j \<in> set (visit_order (eg_events g) {||} (rev (parents (body e))))" for j
    using that order agree' by blast
  have evidence: "evidence_loop (eg_events h) {||} (rev (parents (body e)))
      = evidence_loop (eg_events g) {||} (rev (parents (body e)))"
    unfolding evidence_loop_visits using order same by auto
  have loop: "authorized_loop c (eg_events h) {||} (rev (parents (body e))) no_authorization
      = authorized_loop c (eg_events g) {||} (rev (parents (body e))) no_authorization"
    unfolding authorized_loop_visits using order same by (auto intro!: fold_result_cong)
  show actor: "validate_event_actor_authorized c h e = validate_event_actor_authorized c g e"
    unfolding validate_event_actor_authorized_def is_self_signed_membership_event_def
      ancestry_has_sentinel_architecture_evidence_def authorized_actors_before_def evidence loop by (rule refl)
  have "fmlookup (eg_events h) p = fmlookup (eg_events g) p"
    if "epoch_checkpoint_requirement (body e) = Inr (SecurityRotationParent p)" for p
  proof -
    have "p \<in> set (parents (body e))"
      using that by (auto simp: epoch_checkpoint_requirement_def Let_def split: if_splits list.splits)
    then show ?thesis using agree by auto
  qed
  then show checkpoint: "validate_epoch_checkpoint_structure h e = validate_epoch_checkpoint_structure g e"
    unfolding validate_epoch_checkpoint_structure_def
    by (intro and_then_cong) (auto split: checkpoint_requirement.split)
  have quarantine: "classify_event_actor_quarantine c h e = classify_event_actor_quarantine c g e"
    unfolding classify_event_actor_quarantine_def actor ..
  show "own_check c h e = own_check c g e" unfolding own_check_def checkpoint quarantine ..
qed

text \<open>More events leave the causes of rejection in place.\<close>

lemma closed_past_agrees:
  assumes sub: "\<And>j e. fmlookup (eg_events g) j = Some e \<Longrightarrow> fmlookup (eg_events h) j = Some e"
    and closed: "(event_rel g)\<^sup>* `` {r} \<subseteq> fset (fmdom (eg_events g))"
  shows "(event_rel h)\<^sup>* `` {r} = (event_rel g)\<^sup>* `` {r}"
    and "j \<in> (event_rel g)\<^sup>* `` {r} \<Longrightarrow> fmlookup (eg_events h) j = fmlookup (eg_events g) j"
proof -
  have rel: "event_rel g \<subseteq> event_rel h" using sub by (fastforce simp: next_rel_iff)
  show same: "fmlookup (eg_events h) j = fmlookup (eg_events g) j" if "j \<in> (event_rel g)\<^sup>* `` {r}" for j
    using closed that sub by (fastforce simp: fmlookup_dom_iff)
  have "(r, y) \<in> (event_rel h)\<^sup>* \<Longrightarrow> (r, y) \<in> (event_rel g)\<^sup>*" for y
  proof (induction rule: rtrancl_induct)
    case (step y z)
    then have "(y, z) \<in> event_rel g" using same [of y] by (simp add: next_rel_iff)
    then show ?case using step.IH by (meson rtrancl.rtrancl_into_rtrancl)
  qed simp
  then show "(event_rel h)\<^sup>* `` {r} = (event_rel g)\<^sup>* `` {r}" using rtrancl_mono [OF rel] by auto
qed

lemma rejection_cause_mono:
  assumes sub: "\<And>j e. fmlookup (eg_events g) j = Some e \<Longrightarrow> fmlookup (eg_events h) j = Some e"
    and cause: "rejection_cause c g x"
  shows "rejection_cause c h x"
proof -
  have rel: "event_rel g \<subseteq> event_rel h" using sub by (fastforce simp: next_rel_iff)
  have itself: "rejected_by_itself c h r" if r: "rejected_by_itself c g r" for r
  proof -
    obtain e reason where e: "fmlookup (eg_events g) r = Some e" "own_check c g e = Inr (Quarantine reason)"
      and closed: "(event_rel g)\<^sup>* `` {r} \<subseteq> fset (fmdom (eg_events g))"
      using r by (auto simp: rejected_by_itself_def)
    note past = closed_past_agrees [OF sub closed]
    have "(r, p) \<in> event_rel g" if "p \<in> set (parents (body e))" for p using that e(1) by (simp add: next_rel_iff)
    then have "(event_rel g)\<^sup>* `` set (parents (body e)) \<subseteq> (event_rel g)\<^sup>* `` {r}"
      by (auto intro: converse_rtrancl_into_rtrancl)
    then have "own_check c h e = own_check c g e" using past(2) by (intro past_agree) blast
    moreover have "fset (fmdom (eg_events g)) \<subseteq> fset (fmdom (eg_events h))" using sub by (auto simp: fmlookup_dom_iff)
    ultimately show ?thesis using e sub closed past(1) by (fastforce simp: rejected_by_itself_def)
  qed
  obtain r where "(x, r) \<in> (event_rel g)\<^sup>*" "rejected_by_itself c g r \<or> (r, r) \<in> (event_rel g)\<^sup>+"
    using cause unfolding rejection_cause_def by blast
  then have "(x, r) \<in> (event_rel h)\<^sup>* \<and> (rejected_by_itself c h r \<or> (r, r) \<in> (event_rel h)\<^sup>+)"
    using rtrancl_mono [OF rel] trancl_mono [OF _ rel] itself by blast
  then show ?thesis unfolding rejection_cause_def by blast
qed

subsection \<open>Every rejection has a cause\<close>

definition justified :: "crates \<Rightarrow> event_graph \<Rightarrow> bool" where
  "justified c g \<longleftrightarrow> (\<forall>i. i |\<in>| reject_roots g \<longrightarrow> rejection_cause c g i)"

lemma quarantined_has_cause:
  assumes "event_graph_wf c g" and "justified c g" and "i |\<in>| fmdom (quarantined g)"
  shows "rejection_cause c g i"
proof -
  have "wf_graph (eg_causal g)" using assms(1) by (simp add: event_graph_wf_def)
  then obtain r where r: "r |\<in>| reject_roots g \<or> (r, r) \<in> (event_rel g)\<^sup>+" "(i, r) \<in> (event_rel g)\<^sup>*"
    using assms(3) by (auto simp: quarantined_def wf_graph_quarantined wf_event_rel [OF assms(1)])
  show ?thesis
  proof (cases "r |\<in>| reject_roots g")
    case True
    then obtain s where "(r, s) \<in> (event_rel g)\<^sup>*" "rejected_by_itself c g s \<or> (s, s) \<in> (event_rel g)\<^sup>+"
      using assms(2) unfolding justified_def rejection_cause_def by blast
    then show ?thesis using r(2) unfolding rejection_cause_def by (meson rtrancl_trans)
  next
    case False
    then show ?thesis using r unfolding rejection_cause_def by blast
  qed
qed

lemma classify_has_cause:
  assumes wf: "event_graph_wf c g" and just: "justified c g"
    and decision: "classify_event_quarantine c g i = Inr (Quarantine reason)"
  shows "rejection_cause c g i"
proof -
  obtain ev where ev: "fmlookup (eg_events g) i = Some ev"
    and present: "ancestor_ids_present (eg_causal g) (parents (body ev))"
    and cases: "(\<exists>p\<in>set (parents (body ev)). p |\<in>| fmdom (quarantined g)) \<or> own_check c g ev = Inr (Quarantine reason)"
    using decision
    by (auto simp: classify_event_quarantine_def own_check_def list_ex_iff split: if_splits option.splits)
  have edge: "(i, p) \<in> event_rel g \<longleftrightarrow> p \<in> set (parents (body ev))" for p using ev by (simp add: next_rel_iff)
  show ?thesis
  proof (cases "\<exists>p\<in>set (parents (body ev)). p |\<in>| fmdom (quarantined g)")
    case True
    then obtain p where "(i, p) \<in> event_rel g" "p |\<in>| fmdom (quarantined g)" using edge by blast
    then show ?thesis using quarantined_has_cause [OF wf just] by (blast intro: rejection_cause_descends)
  next
    case False
    have "y \<in> fset (fmdom (eg_events g))" if "(i, y) \<in> (event_rel g)\<^sup>*" for y
      using that
    proof (cases rule: converse_rtranclE)
      case (step p)
      then show ?thesis using edge present by (auto simp: ancestor_ids_present_iff wf_event_rel [OF wf])
    qed (use ev in \<open>auto intro: fmdomI\<close>)
    then have "rejected_by_itself c g i" using False cases ev by (auto simp: rejected_by_itself_def)
    then show ?thesis unfolding rejection_cause_def by blast
  qed
qed

lemma quarantine_pass_justified:
  "event_graph_wf c g \<Longrightarrow> justified c g \<Longrightarrow> quarantine_pass c g changed is = Inr (g', changed') \<Longrightarrow> justified c g'"
proof (induction c g changed "is" rule: quarantine_pass.induct)
  case (2 c g changed i "is")
  show ?case
  proof (cases "classify_event_quarantine c g i")
    case (Inr d)
    show ?thesis
    proof (cases d)
      case Retain
      then show ?thesis using 2 Inr by simp
    next
      case (Quarantine reason)
      let ?g = "g\<lparr>eg_causal := quarantine_event (eg_causal g) \<lparr>quar_id = i, quar_reason = reason\<rparr>\<rparr>"
      have "rejection_cause c ?g = rejection_cause c g" by (rule rejection_cause_cong) simp
      then have "justified c ?g"
        using 2(4) classify_has_cause [OF 2(3,4) Inr [unfolded Quarantine]] by (auto simp: justified_def)
      then show ?thesis
        using 2(2) [OF Inr Quarantine] event_graph_wf_quarantine [OF 2(3)] 2(5) Inr Quarantine by simp
    qed
  qed (use 2 in simp)
qed simp

lemma quarantine_rejected_justified:
  "event_graph_wf c g \<Longrightarrow> justified c g \<Longrightarrow> quarantine_rejected c g = Inr g' \<Longrightarrow> justified c g'"
proof (induction c g rule: quarantine_rejected.induct)
  case (1 c g)
  obtain p where "quarantine_pass c g False (keys_of (eg_events g)) = Inr p"
    using 1(4) by (cases "quarantine_pass c g False (keys_of (eg_events g))")
      (simp_all add: quarantine_rejected.simps [of c g])
  then obtain g1 changed where pass: "quarantine_pass c g False (keys_of (eg_events g)) = Inr (g1, changed)"
    by (cases p) simp
  have rest: "if changed then quarantine_rejected c g1 = Inr g' else g' = g1"
    using 1(4) by (cases changed) (simp_all add: quarantine_rejected.simps [of c g] pass)
  have just: "justified c g1" by (rule quarantine_pass_justified [OF 1(2,3) pass])
  have wf: "event_graph_wf c g1" using quarantine_pass_wf [OF 1(2), of False "keys_of (eg_events g)"] pass by simp
  show ?case using 1(1) [OF pass refl _ wf just] rest just by (cases changed) auto
qed

text \<open>Histories without an event whose id is taken by different bytes, which needs a collision of SHA-256.\<close>

inductive collision_free :: "crates \<Rightarrow> event_graph \<Rightarrow> bool" for c where
  collision_free_new: "collision_free c new_event_graph"
| collision_free_insert: "collision_free c g \<Longrightarrow> insert_vault_event c g r = Inr (g', status) \<Longrightarrow>
    (\<forall>i. event_admission c g r \<noteq> Inr (AdmitConflict i)) \<Longrightarrow> collision_free c g'"

lemma collision_free_history: "collision_free c g \<Longrightarrow> event_history c g"
  by (induction rule: collision_free.induct) (auto intro: event_history.intros)

lemma collision_free_justified: "collision_free c g \<Longrightarrow> justified c g"
proof (induction rule: collision_free.induct)
  case collision_free_new
  then show ?case by (simp add: justified_def new_event_graph_def new_graph_def)
next
  case (collision_free_insert g r g' status)
  have wf: "event_graph_wf c g" using collision_free_history collision_free_insert.hyps(1) event_history_wf by blast
  obtain admission where adm: "event_admission c g r = Inr admission"
    using collision_free_insert.hyps(2) by (cases "event_admission c g r") (auto simp: insert_vault_event_def)
  show ?case
  proof (cases admission)
    case (AdmitInsert i)
    let ?h = "extended g i (gi_event r)"
    have new: "fmlookup (eg_events g) i = None" and id: "body_event_id c (body (gi_event r)) = Inr i"
      using adm AdmitInsert by (auto simp: event_admission_def Let_def and_then_Inr_iff
          split: option.splits if_splits dest: validate_envelope_id)
    have "fmlookup (cg_parents (eg_causal g)) i = None" using wf new by (simp add: event_graph_wf_def)
    then have "cg_quarantine_roots (eg_causal ?h) = cg_quarantine_roots (eg_causal g)"
      by (simp add: extended_def insert_event_def Let_def)
    moreover have "rejection_cause c ?h x" if "rejection_cause c g x" for x
      by (rule rejection_cause_mono [OF _ that]) (use new in \<open>auto simp: extended_def\<close>)
    ultimately have "justified c ?h" using collision_free_insert.IH by (simp add: justified_def)
    moreover have "quarantine_rejected c ?h = Inr g'"
      using collision_free_insert.hyps(2) adm AdmitInsert
      by (auto simp: insert_vault_event_def Let_def and_then_Inr_iff extended_def)
    ultimately show ?thesis
      using quarantine_rejected_justified event_graph_wf_insert [OF wf new id] unfolding extended_def by blast
  qed (use collision_free_insert adm in \<open>auto simp: insert_vault_event_def\<close>)
qed

subsection \<open>The quarantine of a history\<close>

lemma settled_rejects:
  assumes wf: "event_graph_wf c g" and settled: "settled c g" and itself: "rejected_by_itself c g i"
  shows "i |\<in>| fmdom (quarantined g)"
proof (rule ccontr)
  assume not_q: "i |\<notin>| fmdom (quarantined g)"
  obtain ev reason where ev: "fmlookup (eg_events g) i = Some ev" "own_check c g ev = Inr (Quarantine reason)"
    and closed: "(event_rel g)\<^sup>* `` {i} \<subseteq> fset (fmdom (eg_events g))"
    using itself by (auto simp: rejected_by_itself_def)
  have "(i, p) \<in> event_rel g" if "p \<in> set (parents (body ev))" for p using that ev(1) by (simp add: next_rel_iff)
  then have "ancestor_ids_present (eg_causal g) (parents (body ev))"
    using closed by (auto simp: ancestor_ids_present_iff wf_event_rel [OF wf] intro: converse_rtrancl_into_rtrancl)
  moreover have "\<not> list_ex (\<lambda>p. p |\<in>| fmdom (quarantined g)) (parents (body ev))"
    using wf_quarantined_parent [OF wf ev(1)] not_q by (auto simp: list_ex_iff)
  ultimately have "classify_event_quarantine c g i = own_check c g ev"
    using not_q ev(1) by (simp add: classify_event_quarantine_def own_check_def)
  then show False using settled ev by (simp add: settled_def fmdomI)
qed

lemma quarantine_iff_cause:
  assumes "collision_free c g"
  shows "i |\<in>| fmdom (quarantined g) \<longleftrightarrow> rejection_cause c g i"
proof
  have hist: "event_graph_wf c g" "settled c g"
    using event_history_wf [OF collision_free_history [OF assms]] by auto
  show "rejection_cause c g i" if "i |\<in>| fmdom (quarantined g)"
    using quarantined_has_cause [OF hist(1) collision_free_justified [OF assms] that] .
  assume "rejection_cause c g i"
  then obtain r where r: "(i, r) \<in> (event_rel g)\<^sup>*" "rejected_by_itself c g r \<or> (r, r) \<in> (event_rel g)\<^sup>+"
    unfolding rejection_cause_def by blast
  have causal: "wf_graph (eg_causal g)" using hist(1) by (simp add: event_graph_wf_def)
  note iff = wf_graph_quarantined [OF causal, unfolded wf_event_rel [OF hist(1)], folded quarantined_def]
  have "r |\<in>| fmdom (quarantined g)" using settled_rejects [OF hist] r(2) iff by blast
  then show "i |\<in>| fmdom (quarantined g)" using r(1) unfolding iff by (meson rtrancl_trans)
qed

text \<open>C18: the quarantine of a history is a function of its events. In a graph built by insertion, without
  a collision of ids, an event is quarantined exactly when it descends from a cycle or from an event
  whose causal past is complete and that fails the checkpoint check or was signed by an actor its
  past does not authorize; nothing else is ever rejected, and nothing rejected is ever missed.\<close>

theorem quarantine_characterized:
  assumes "collision_free c g"
  shows "fset (fmdom (quarantined g)) = {i. rejection_cause c g i}"
  using quarantine_iff_cause [OF assms] by blast

subsection \<open>Replicas with the same events\<close>

text \<open>Two graphs with the same events, the same recorded parents and the same quarantined ids.\<close>

definition same_view :: "event_graph \<Rightarrow> event_graph \<Rightarrow> bool" where
  "same_view g h \<longleftrightarrow> eg_events g = eg_events h \<and> cg_parents (eg_causal g) = cg_parents (eg_causal h)
     \<and> fmdom (quarantined g) = fmdom (quarantined h)"

lemma collision_free_same_view:
  assumes "collision_free c g" and "collision_free c h" and events: "eg_events g = eg_events h"
  shows "same_view g h"
proof -
  have wf: "event_graph_wf c g" "event_graph_wf c h"
    using assms(1,2) collision_free_history event_history_wf by blast+
  have "cg_parents (eg_causal g) = cg_parents (eg_causal h)"
    using wf events by (intro fmap_ext) (simp add: event_graph_wf_def)
  moreover have "fmdom (quarantined g) = fmdom (quarantined h)"
    using quarantine_iff_cause [OF assms(1)] quarantine_iff_cause [OF assms(2)] rejection_cause_cong [OF events, of c]
    by (auto intro: fset_eqI)
  ultimately show ?thesis using events by (simp add: same_view_def)
qed

lemma view_fields:
  assumes "same_view g h"
  shows "eg_events g = eg_events h" "cg_parents (eg_causal g) = cg_parents (eg_causal h)"
    "fmdom (cg_quarantined (eg_causal g)) = fmdom (cg_quarantined (eg_causal h))"
  using assms by (simp_all add: same_view_def quarantined_def)

lemma view_causal:
  assumes "same_view g h"
  shows "applicable_ids (eg_causal g) = applicable_ids (eg_causal h)"
    and "pending_ids (eg_causal g) = pending_ids (eg_causal h)"
    and "heads (eg_causal g) = heads (eg_causal h)"
    and "is_ancestor (eg_causal g) = is_ancestor (eg_causal h)"
    and "topological_order (eg_causal g) = topological_order (eg_causal h)"
proof -
  note fields = view_fields [OF assms]
  show ids: "applicable_ids (eg_causal g) = applicable_ids (eg_causal h)"
    unfolding applicable_ids_def ancestors_present_def ancestor_ids_present_def fields ..
  show "pending_ids (eg_causal g) = pending_ids (eg_causal h)"
    unfolding pending_ids_def ancestor_ids_present_def fields ..
  show "heads (eg_causal g) = heads (eg_causal h)" unfolding heads_def fields ..
  show "is_ancestor (eg_causal g) = is_ancestor (eg_causal h)"
    by (intro ext) (unfold is_ancestor_def fields, rule refl)
  show "topological_order (eg_causal g) = topological_order (eg_causal h)"
    unfolding topological_order_def fields ids ..
qed

lemma view_events:
  assumes "same_view g h"
  shows "applicable_events g = applicable_events h" and "pending_events g = pending_events h"
    and "event_heads g = event_heads h" and "event_is_ancestor g = event_is_ancestor h"
    and "events_are_concurrent g = events_are_concurrent h" and "event_lookup g = event_lookup h"
    and "event_topological_order c g = event_topological_order c h"
proof -
  note fields = view_fields [OF assms] and causal = view_causal [OF assms]
  show events: "applicable_events g = applicable_events h" unfolding applicable_events_def fields causal ..
  show "pending_events g = pending_events h" unfolding pending_events_def fields causal ..
  show "event_heads g = event_heads h" unfolding event_heads_def causal ..
  show "event_is_ancestor g = event_is_ancestor h" by (intro ext) (simp add: event_is_ancestor_def causal)
  show "events_are_concurrent g = events_are_concurrent h"
    by (intro ext) (simp add: events_are_concurrent_def are_concurrent_def causal fields)
  show "event_lookup g = event_lookup h" by (intro ext) (simp add: event_lookup_def fields)
  have "validate_authorizations c g = validate_authorizations c h"
    unfolding validate_authorizations_def events
      authorization_cong(1) [OF fields(1)] authorization_cong(2) [OF fields(1)] ..
  then show "event_topological_order c g = event_topological_order c h"
    by (simp add: event_topological_order_def causal)
qed

lemma view_security_conflicts:
  assumes "same_view g h"
  shows "security_conflicts_of g reasons ids = security_conflicts_of h reasons ids"
  by (induction ids) (simp_all add: view_events [OF assms])

lemma view_derived:
  assumes "same_view g h"
  shows "from_graph c g st = from_graph c h st"
    and "current_epoch_checkpoint c g = current_epoch_checkpoint c h"
    and "authorized_roster c g = authorized_roster c h"
proof -
  note events = view_events [OF assms]
  have "project_event c g = project_event c h" by (intro ext) (simp add: project_event_def events)
  moreover have "projection_finish g s = projection_finish h s" for s
    unfolding projection_finish_def detect_security_conflicts_def detect_replacement_conflicts_def
      has_concurrent_def events view_security_conflicts [OF assms] ..
  ultimately show "from_graph c g st = from_graph c h st" by (simp add: from_graph_def project_events_def events)
  have "collect_checkpoint g = collect_checkpoint h" by (intro ext) (simp add: collect_checkpoint_def events)
  then show "current_epoch_checkpoint c g = current_epoch_checkpoint c h"
    by (simp add: current_epoch_checkpoint_def latest_checkpoints_def events)
  have "roster_event g = roster_event h" by (intro ext) (simp add: roster_event_def view_fields [OF assms])
  then show "authorized_roster c g = authorized_roster c h"
    by (simp add: authorized_roster_def roster_members_def events)
qed

text \<open>C9: strong eventual consistency of the vault log. Two replicas that hold the same events quarantine
  the same ids, apply the same events, have the same heads and the same topological order, and
  derive the same projection for every store, the same current checkpoint and the same roster,
  whatever order the events reached each of them in.\<close>

theorem replicas_converge:
  assumes "collision_free c g" and "collision_free c h" and "eg_events g = eg_events h"
  shows "fmdom (quarantined g) = fmdom (quarantined h) \<and> applicable_events g = applicable_events h
    \<and> event_heads g = event_heads h \<and> event_topological_order c g = event_topological_order c h
    \<and> from_graph c g st = from_graph c h st
    \<and> current_epoch_checkpoint c g = current_epoch_checkpoint c h
    \<and> authorized_roster c g = authorized_roster c h"
  using view_events [of g h] view_derived [of g h] collision_free_same_view [OF assms]
  by (simp add: same_view_def)

lemma applicable_iff:
  assumes "event_history c g"
  shows "i \<in> set (applicable_ids (eg_causal g)) \<longleftrightarrow>
    i |\<in>| fmdom (eg_events g) \<and> (event_rel g)\<^sup>* `` {i} \<subseteq> fset (fmdom (eg_events g)) \<and> i |\<notin>| fmdom (quarantined g)"
proof -
  have wf: "event_graph_wf c g" using event_history_wf [OF assms] ..
  have "ancestors_present (eg_causal g) i \<longleftrightarrow>
      i |\<in>| fmdom (eg_events g) \<and> (event_rel g)\<^sup>* `` {i} \<subseteq> fset (fmdom (eg_events g))"
  proof (cases "fmlookup (eg_events g) i")
    case None
    then have "fmlookup (cg_parents (eg_causal g)) i = None" using wf by (simp add: event_graph_wf_def)
    then show ?thesis using None by (simp add: ancestors_present_def fmlookup_dom_iff)
  next
    case (Some ev)
    have "(event_rel g)\<^sup>* `` {i} = insert i ((event_rel g)\<^sup>* `` set (parents (body ev)))"
    proof -
      have edge: "(i, p) \<in> event_rel g \<longleftrightarrow> p \<in> set (parents (body ev))" for p using Some by (simp add: next_rel_iff)
      show ?thesis by (auto simp: rtrancl_unroll [of i] edge)
    qed
    then show ?thesis
      using Some wf wf_event_rel [OF wf]
      by (auto simp: ancestors_present_def ancestor_ids_present_iff event_graph_wf_def normalize_parents_def intro: fmdomI)
  qed
  then show ?thesis by (auto simp: set_applicable_ids quarantined_def wf_event_rel [OF wf])
qed


subsection \<open>Two replicas of a fork\<close>

lemma log_collision_free:
  assumes plain: "plain_log log"
  shows "insertion_order log ns \<Longrightarrow> collision_free (log_crates log) (log_graph log ns)"
proof (induction ns)
  case Nil
  then show ?case by (simp add: collision_free_new log_graph.simps)
next
  case (Cons n ns)
  then have order: "insertion_order log ns" by simp
  note step = log_step [OF plain Cons.prems log_history [OF plain order, THEN conjunct2]]
  obtain status where "insert_vault_event (log_crates log) (log_graph log ns) (log_request log n)
      = Inr (log_graph log (n # ns), status)" using step(2) by blast
  from collision_free_insert [OF Cons.IH [OF order] this] show ?case using step(1) by simp
qed

lemma log_graph_events: "eg_events (log_graph log (n # ns)) = fmupd (ex_id n) (log_event log n) (eg_events (log_graph log ns))"
  by (simp add: extended_def log_graph.simps)

abbreviation named_fork :: "log_entry list" where
  "named_fork \<equiv> fork_log (VaultNamed ''home'') (VaultNamed ''work'')"

lemma named_fork_plain: "plain_log named_fork"
  by (rule fork_plain) simp_all

lemma named_fork_orders: "insertion_order named_fork [2, 1, 0]" "insertion_order named_fork [1, 2, 0]"
  by (simp_all add: fork_log_def)

lemma named_fork_events: "eg_events (log_graph named_fork [2, 1, 0]) = eg_events (log_graph named_fork [1, 2, 0])"
  unfolding log_graph_events using fork_ids by (simp add: fmupd_reorder_neq)

theorem replicas_converge_witness:
  "collision_free (log_crates named_fork) (log_graph named_fork [2, 1, 0])
   \<and> collision_free (log_crates named_fork) (log_graph named_fork [1, 2, 0])
   \<and> from_graph (log_crates named_fork) (log_graph named_fork [2, 1, 0]) ''store_Abcdef_1234''
     = from_graph (log_crates named_fork) (log_graph named_fork [1, 2, 0]) ''store_Abcdef_1234''"
  using replicas_converge [OF log_collision_free [OF named_fork_plain named_fork_orders(1)]
      log_collision_free [OF named_fork_plain named_fork_orders(2)] named_fork_events]
    log_collision_free [OF named_fork_plain] named_fork_orders by simp

theorem quarantine_characterized_witness:
  "{i. rejection_cause (log_crates named_fork) (whole named_fork) i} = {}"
proof -
  have "cg_quarantined (eg_causal (whole named_fork)) = fmempty"
    using log_history [OF named_fork_plain whole_insertion_order [OF named_fork_plain order_refl]]
    by (simp add: intact_def)
  then show ?thesis
    using quarantine_characterized [OF log_collision_free [OF named_fork_plain
        whole_insertion_order [OF named_fork_plain order_refl]]]
    by (auto simp: quarantined_def)
qed


end
