(* ===== verification/EventStoreLaws.thy ===== *)
theory EventStoreLaws
  imports EventStore EventConvergence
begin

text \<open>
  What the event store guarantees: a store whose records validate loads into a collision-free
  history, appending and uniting keep it that way, the heads a union reports are those of the graph
  its store loads into, and no incomplete security transition survives a union.
\<close>

subsection \<open>Inserting validated events\<close>

definition valid_at :: "crates \<Rightarrow> string \<Rightarrow> event_id \<Rightarrow> vault_event \<Rightarrow> bool" where
  "valid_at c st i ev \<longleftrightarrow> (\<exists>sid. store_id_parse st = Inr sid \<and> validate_envelope c ev sid = Inr i)"

lemma valid_at_admission:
  assumes "valid_at c st i ev"
  shows "fmlookup (eg_events g) i = None \<Longrightarrow>
      event_admission c g \<lparr>gi_event = ev, gi_expected_store_id = st\<rparr> = Inr (AdmitInsert i)"
  using assms by (auto simp: valid_at_def event_admission_def)

lemma quarantine_rejected_events:
  "quarantine_rejected c g = Inr g' \<Longrightarrow> event_graph_wf c g \<Longrightarrow> eg_events g' = eg_events g"
  using quarantine_rejected_wf [of c g] by auto

lemma insert_next_step:
  assumes free: "collision_free c g" and new: "fmlookup (eg_events g) i = None" and valid: "valid_at c st i ev"
    and step: "insert_next c st g ev = Inr g'"
  shows "collision_free c g' \<and> eg_events g' = fmupd i ev (eg_events g)"
proof -
  let ?r = "\<lparr>gi_event = ev, gi_expected_store_id = st\<rparr>"
  have admitted: "event_admission c g ?r = Inr (AdmitInsert i)" by (rule valid_at_admission [OF valid new])
  obtain status where ins: "insert_vault_event c g ?r = Inr (g', status)"
    using step by (auto simp: insert_next_def split: sum.splits)
  have id: "body_event_id c (body ev) = Inr i" using valid by (auto simp: valid_at_def dest: validate_envelope_id)
  have wf: "event_graph_wf c g" using event_history_wf [OF collision_free_history [OF free]] ..
  have "quarantine_rejected c (extended g i ev) = Inr g'"
    using ins admitted by (auto simp: insert_vault_event_def Let_def and_then_Inr_iff extended_def)
  then have "eg_events g' = fmupd i ev (eg_events g)"
    using quarantine_rejected_events event_graph_wf_insert [OF wf new id] by (fastforce simp: extended_def)
  then show ?thesis using collision_free_insert [OF free ins] admitted by simp
qed

lemma insert_all:
  assumes "fold_result (insert_next c st) g (map snd kvs) = Inr g'" and "collision_free c g"
    and "distinct (map fst kvs)" and "\<And>i ev. (i, ev) \<in> set kvs \<Longrightarrow> valid_at c st i ev \<and> fmlookup (eg_events g) i = None"
  shows "collision_free c g'
    \<and> (\<forall>i. fmlookup (eg_events g') i = (case map_of kvs i of Some ev \<Rightarrow> Some ev | None \<Rightarrow> fmlookup (eg_events g) i))"
  using assms
proof (induction kvs arbitrary: g)
  case (Cons kv kvs)
  obtain i ev where kv: "kv = (i, ev)" by (cases kv)
  obtain g1 where step: "insert_next c st g ev = Inr g1" and rest: "fold_result (insert_next c st) g1 (map snd kvs) = Inr g'"
    using Cons.prems(1) by (auto simp: kv and_then_Inr_iff)
  have one: "collision_free c g1 \<and> eg_events g1 = fmupd i ev (eg_events g)"
    using Cons.prems(4) [of i ev] by (intro insert_next_step [OF Cons.prems(2) _ _ step]) (auto simp: kv)
  have "i \<notin> fst ` set kvs" using Cons.prems(3) by (simp add: kv)
  then have "valid_at c st j e \<and> fmlookup (eg_events g1) j = None" if "(j, e) \<in> set kvs" for j e
    using that Cons.prems(4) [of j e] one by (force simp: image_iff)
  then have "collision_free c g' \<and> (\<forall>j. fmlookup (eg_events g') j
      = (case map_of kvs j of Some e \<Rightarrow> Some e | None \<Rightarrow> fmlookup (eg_events g1) j))"
    using Cons.IH [OF rest] one Cons.prems(3) by (auto simp: kv)
  then show ?case
    using one \<open>i \<notin> fst ` set kvs\<close> by (auto simp: kv map_of_eq_None_iff split: option.splits)
qed simp

text \<open>Loading a map of validated events in the order of their ids.\<close>

definition graph_of :: "crates \<Rightarrow> string \<Rightarrow> (event_id, vault_event) fmap \<Rightarrow> event_graph event_result" where
  "graph_of c st events = fold_result (insert_next c st) new_event_graph (map snd (sorted_list_of_fmap events))"

lemma graph_of_history:
  assumes "graph_of c st events = Inr g" and "\<forall>i ev. fmlookup events i = Some ev \<longrightarrow> valid_at c st i ev"
  shows "collision_free c g" and "eg_events g = events"
proof -
  have empty: "fmlookup (eg_events new_event_graph) i = None" for i by (simp add: new_event_graph_def)
  have "collision_free c g \<and> (\<forall>i. fmlookup (eg_events g) i
      = (case map_of (sorted_list_of_fmap events) i of Some ev \<Rightarrow> Some ev | None \<Rightarrow> fmlookup (eg_events new_event_graph) i))"
    using assms(2) empty
    by (intro insert_all [OF assms(1) [unfolded graph_of_def] collision_free_new]) (auto simp: set_sorted_list_of_fmap)
  moreover have "map_of (sorted_list_of_fmap events) = fmlookup events"
    by (intro ext) (auto simp: map_of_eq_Some_iff set_sorted_list_of_fmap map_of_eq_None_iff split: option.split
        intro!: option.expand)
  ultimately have "collision_free c g" "\<And>i. fmlookup (eg_events g) i = fmlookup events i"
    by (auto simp: empty split: option.splits)
  then show "collision_free c g" "eg_events g = events" by (auto intro: fmap_ext)
qed

subsection \<open>Stores whose records validate\<close>

definition parsed :: "crates \<Rightarrow> bytes \<Rightarrow> vault_event option" where
  "parsed c bs = (case parse_event_storage_bytes c bs of Inr ev \<Rightarrow> Some ev | Inl _ \<Rightarrow> None)"

lemma parsed_iff: "parsed c bs = Some ev \<longleftrightarrow> parse_event_storage_bytes c bs = Inr ev"
  by (simp add: parsed_def split: sum.split)

definition valid_record :: "crates \<Rightarrow> string \<Rightarrow> event_id \<Rightarrow> bytes \<Rightarrow> bool" where
  "valid_record c st i bs \<longleftrightarrow> (\<exists>ev. parsed c bs = Some ev \<and> valid_at c st i ev)"

abbreviation stored :: "local_event_store \<Rightarrow> event_id \<Rightarrow> bytes option" where
  "stored s i \<equiv> fmlookup (rs_events (ls_replica s)) i"

text \<open>The invariant of a store: every record parses and validates under the id it is stored at.\<close>

definition store_valid :: "crates \<Rightarrow> string \<Rightarrow> local_event_store \<Rightarrow> bool" where
  "store_valid c st s \<longleftrightarrow> (\<forall>i bs. stored s i = Some bs \<longrightarrow> valid_record c st i bs)"

lemma local_get_bytes_iff:
  "local_get_bytes s i = (case stored s i of Some bs \<Rightarrow> StoredLocal bs | None \<Rightarrow> UnknownLocalEvent)"
  by (simp add: local_get_bytes_def get_bytes_def split: option.split)

lemma stored_put [simp]:
  "stored (local_put_event s \<lparr>lw_event_id = i, lw_bytes = bs\<rparr>) j
    = (if j = i \<and> stored s i = None then Some bs else stored s j)"
  by (auto simp: local_put_event_def put_bytes_def put_event_eq split: option.split)

lemma collect_local_all:
  assumes "fold_result (collect_local c s excluded) m ids = Inr m'"
  shows "fmlookup m' i = (if i \<in> set ids \<and> i |\<notin>| excluded then Option.bind (stored s i) (parsed c) else fmlookup m i)"
  using assms
proof (induction ids arbitrary: m)
  case (Cons j ids)
  obtain m1 where step: "collect_local c s excluded m j = Inr m1" and rest: "fold_result (collect_local c s excluded) m1 ids = Inr m'"
    using Cons.prems by (auto simp: and_then_Inr_iff)
  have "fmlookup m1 i = (if i = j \<and> i |\<notin>| excluded then Option.bind (stored s i) (parsed c) else fmlookup m i)"
    using step by (auto simp: collect_local_def local_get_bytes_iff and_then_Inr_iff parsed_iff [symmetric]
        split: if_splits option.splits)
  then show ?case using Cons.IH [OF rest] by auto
qed simp

lemma collect_remote_all:
  assumes "fold_result (collect_remote c excluded) m remote = Inr m'"
  shows "fmlookup m' i = (case fmlookup m i of Some ev \<Rightarrow> Some ev
    | None \<Rightarrow> if i |\<in>| excluded then None else Option.bind (map_of remote i) (parsed c))"
  using assms
proof (induction remote arbitrary: m)
  case (Cons r remote)
  obtain j bs where rec: "r = (j, bs)" by (cases r)
  obtain m1 where step: "collect_remote c excluded m r = Inr m1"
    and rest: "fold_result (collect_remote c excluded) m1 remote = Inr m'"
    using Cons.prems by (auto simp: and_then_Inr_iff)
  have "fmlookup m1 i = (if i = j \<and> i |\<notin>| excluded \<and> fmlookup m i = None then parsed c bs else fmlookup m i)
      \<and> (i = j \<and> i |\<notin>| excluded \<and> fmlookup m i = None \<longrightarrow> (\<exists>ev. parsed c bs = Some ev))"
    using step by (auto simp: collect_remote_def rec and_then_Inr_iff parsed_iff [symmetric]
        split: if_splits dest: fmdom_notD intro: fmdom_notI)
  then show ?case using Cons.IH [OF rest] by (auto simp: rec split: option.splits)
qed (simp split: option.split)

text \<open>The bytes a projection of the store and remote records takes for an id.\<close>

definition known_bytes :: "local_event_store \<Rightarrow> (event_id \<times> bytes) list \<Rightarrow> event_id fset \<Rightarrow> event_id \<Rightarrow> bytes option" where
  "known_bytes s remote excluded i =
     (if i |\<in>| excluded then None else case stored s i of Some bs \<Rightarrow> Some bs | None \<Rightarrow> map_of remote i)"

lemma build_local_graph_of:
  assumes valid: "\<And>i bs. known_bytes s remote excluded i = Some bs \<Longrightarrow> valid_record c st i bs"
    and build: "build_local_graph c s remote st excluded = Inr g"
  obtains events where "graph_of c st events = Inr g"
    and "\<forall>i. fmlookup events i = Option.bind (known_bytes s remote excluded i) (parsed c)"
proof -
  obtain m events where m: "fold_result (collect_local c s excluded) fmempty (local_event_ids s) = Inr m"
    and events: "fold_result (collect_remote c excluded) m remote = Inr events"
    and graph: "graph_of c st events = Inr g"
    using build by (auto simp: build_local_graph_def graph_of_def and_then_Inr_iff)
  have stored: "i \<in> set (local_event_ids s) \<longleftrightarrow> stored s i \<noteq> None" for i
    by (auto simp: local_event_ids_def event_ids_def fmlookup_dom_iff)
  have "fmlookup m i = (if i |\<in>| excluded then None else Option.bind (stored s i) (parsed c))" for i
    using collect_local_all [OF m, of i] stored [of i] by (cases "stored s i") auto
  then have "fmlookup events i = Option.bind (known_bytes s remote excluded i) (parsed c)" for i
    using collect_remote_all [OF events, of i] valid [of i]
    by (cases "stored s i") (auto simp: known_bytes_def valid_record_def split: option.splits if_splits)
  then show ?thesis using graph by (intro that) blast+
qed

lemma load_graph_of:
  assumes valid: "store_valid c st s" and events: "\<And>i. fmlookup events i = Option.bind (stored s i) (parsed c)"
  shows "load_graph c s st = graph_of c st events"
proof -
  have parse: "\<exists>bs ev. stored s i = Some bs \<and> parse_event_storage_bytes c bs = Inr ev \<and> fmlookup events i = Some ev"
    if "i |\<in>| fmdom (rs_events (ls_replica s))" for i
    using that valid events [of i] by (fastforce simp: store_valid_def valid_record_def parsed_iff fmlookup_dom_iff)
  have "fmlookup events i = None \<longleftrightarrow> stored s i = None" for i
  proof (cases "stored s i")
    case (Some bs)
    then obtain ev where "fmlookup events i = Some ev" using parse [of i] by (auto intro: fmdomI)
    then show ?thesis using Some by simp
  qed (simp add: events)
  then have "fmdom events = fmdom (rs_events (ls_replica s))"
    by (intro fset_eqI) (simp add: fmlookup_dom_iff flip: not_None_eq)
  then have "graph_of c st events
      = fold_result (\<lambda>g i. insert_next c st g (the (fmlookup events i))) new_event_graph (event_ids (ls_replica s))"
    by (simp add: graph_of_def sorted_list_of_fmap_def comp_def fold_result_map event_ids_def)
  also have "\<dots> = load_graph c s st"
    unfolding load_graph_def
  proof (rule fold_result_cong [OF refl refl])
    fix g i assume "i \<in> set (event_ids (ls_replica s))"
    then obtain bs ev where "stored s i = Some bs" "parse_event_storage_bytes c bs = Inr ev" "fmlookup events i = Some ev"
      using parse [of i] by (auto simp: event_ids_def)
    then show "insert_next c st g (the (fmlookup events i)) = load_event c s st g i"
      by (simp add: load_event_def get_bytes_def)
  qed
  finally show ?thesis ..
qed

subsection \<open>The union\<close>

lemma check_remote_valid:
  assumes "fold_result (check_remote_event c expected) () remote = Inr u" and "store_id_parse st = Inr expected"
    and "(i, bs) \<in> set remote"
  shows "valid_record c st i bs"
  using assms(1,3)
proof (induction remote)
  case (Cons r remote)
  have step: "check_remote_event c expected () r = Inr ()" and rest: "fold_result (check_remote_event c expected) () remote = Inr u"
    using Cons.prems(1) by (auto simp: and_then_Inr_iff)
  show ?case
  proof (cases "r = (i, bs)")
    case True
    obtain ev actual where ev: "parse_remote_event_storage_bytes c bs = Inr ev" "event_id_of c ev = Inr i"
      "validate_envelope c ev expected = Inr actual"
      using step True by (auto simp: check_remote_event_def and_then_Inr_iff split: if_splits)
    have "parse_event_storage_bytes c bs = Inr ev"
      using ev(1) by (auto simp: parse_remote_event_storage_bytes_def split: sum.splits event_error.splits)
    moreover have "actual = i" using validate_envelope_id [OF ev(3)] ev(2) by (simp add: event_id_of_def)
    ultimately show ?thesis using ev(3) assms(2) by (auto simp: valid_record_def parsed_iff valid_at_def)
  next
    case False
    then show ?thesis using Cons.IH rest Cons.prems(2) by auto
  qed
qed simp

lemma visible_subset:
  assumes "visibility_gated_remote_events c s remote st = Inr visible"
  shows "set visible \<subseteq> set remote"
proof -
  let ?parse = "\<lambda>(i, bs). and_then (parse_event_storage_bytes c bs) (\<lambda>ev. Inr (i, bs, ev))"
  have records: "traverse ?parse xs = Inr ys \<Longrightarrow> map (\<lambda>(i, bs, _). (i, bs)) ys = xs" for xs ys
    by (induction xs arbitrary: ys) (auto simp: and_then_Inr_iff)
  obtain hidden ys where ys: "traverse ?parse remote = Inr ys"
    and visible: "visible = map (\<lambda>(i, bs, _). (i, bs)) (filter (\<lambda>(i, _, _). i |\<notin>| hidden) ys)"
    using assms by (auto simp: visibility_gated_remote_events_def and_then_Inr_iff)
  show ?thesis unfolding visible records [OF ys, symmetric] by force
qed

lemma additions_fold:
  assumes "foldl (add_remote s) (acc, ids) records = (acc', ids')"
    and "fset ids = fst ` set acc" and "distinct (map fst acc)" and "\<forall>i\<in>fst ` set acc. stored s i = None"
  shows "set acc' \<subseteq> set acc \<union> set records \<and> distinct (map fst acc') \<and> (\<forall>i\<in>fst ` set acc'. stored s i = None)"
  using assms
proof (induction records arbitrary: acc ids)
  case (Cons r records)
  show ?case
  proof (cases "local_get_bytes s (fst r) \<noteq> UnknownLocalEvent \<or> fst r |\<in>| ids")
    case True
    then have "add_remote s (acc, ids) r = (acc, ids)" by (simp add: add_remote_def)
    then have "foldl (add_remote s) (acc, ids) records = (acc', ids')" using Cons.prems(1) by simp
    from Cons.IH [OF this Cons.prems(2-4)] show ?thesis by auto
  next
    case False
    then have "add_remote s (acc, ids) r = (acc @ [r], finsert (fst r) ids)" by (simp add: add_remote_def)
    then have rest: "foldl (add_remote s) (acc @ [r], finsert (fst r) ids) records = (acc', ids')"
      using Cons.prems(1) by simp
    have "stored s (fst r) = None" "fst r \<notin> fst ` set acc"
      using False Cons.prems(2) by (auto simp: local_get_bytes_iff split: option.splits)
    then have "set acc' \<subseteq> set (acc @ [r]) \<union> set records \<and> distinct (map fst acc') \<and> (\<forall>i\<in>fst ` set acc'. stored s i = None)"
      by (intro Cons.IH [OF rest]) (use Cons.prems(2-4) in simp_all)
    then show ?thesis by auto
  qed
qed simp

text \<open>What a successful preparation has established.\<close>

lemma prepare_unionE:
  assumes "prepare_union c s \<lparr>ru_remote_events = remote, ru_store_id = st\<rparr> = Inr p"
  obtains additions g incomplete accepted where "set additions \<subseteq> set remote" and "distinct (map fst additions)"
    and "\<forall>i bs. (i, bs) \<in> set additions \<longrightarrow> stored s i = None \<and> valid_record c st i bs"
    and "build_local_graph c s additions st {||} = Inr g"
    and "incomplete_security_transition_events c g = Inr incomplete"
    and "build_local_graph c s additions st (fmdom (quarantined g) |\<union>| incomplete) = Inr accepted"
    and "p = \<lparr>pu_local = s, pu_additions = filter (\<lambda>(i, _). i |\<notin>| fmdom (quarantined g) |\<union>| incomplete) additions,
      pu_excluded = fmdom (quarantined g) |\<union>| incomplete, pu_heads = map event_id_str (event_heads accepted)\<rparr>"
proof -
  obtain expected visible g incomplete accepted where sid: "store_id_parse st = Inr expected"
    and check: "fold_result (check_remote_event c expected) () remote = Inr ()"
    and visible: "visibility_gated_remote_events c s remote st = Inr visible"
    and g: "build_local_graph c s (fst (foldl (add_remote s) ([], {||}) visible)) st {||} = Inr g"
    and inc: "incomplete_security_transition_events c g = Inr incomplete"
    and acc: "build_local_graph c s (fst (foldl (add_remote s) ([], {||}) visible)) st
        (fmdom (quarantined g) |\<union>| incomplete) = Inr accepted"
    and p: "p = \<lparr>pu_local = s,
        pu_additions = filter (\<lambda>(i, _). i |\<notin>| fmdom (quarantined g) |\<union>| incomplete) (fst (foldl (add_remote s) ([], {||}) visible)),
        pu_excluded = fmdom (quarantined g) |\<union>| incomplete, pu_heads = map event_id_str (event_heads accepted)\<rparr>"
    using assms by (auto simp: prepare_union_def prepare_union_parts_def Let_def and_then_Inr_iff split: sum.splits)
  obtain additions ids where fold: "foldl (add_remote s) ([], {||}) visible = (additions, ids)" by (cases "foldl (add_remote s) ([], {||}) visible")
  have facts: "set additions \<subseteq> set visible" "distinct (map fst additions)" "\<forall>i\<in>fst ` set additions. stored s i = None"
    using additions_fold [OF fold] by auto
  have sub: "set additions \<subseteq> set remote" using facts(1) visible_subset [OF visible] by auto
  then have "\<forall>i bs. (i, bs) \<in> set additions \<longrightarrow> stored s i = None \<and> valid_record c st i bs"
    using facts(3) check_remote_valid [OF check sid] by force
  from that [OF sub facts(2) this] show ?thesis using g inc acc p fold by simp
qed

lemma committed_bytes:
  assumes "\<forall>i bs. (i, bs) \<in> set additions \<longrightarrow> stored s i = None" and "distinct (map fst additions)"
    and "commit_union \<lparr>pu_local = s, pu_additions = filter (\<lambda>(i, _). i |\<notin>| excluded) additions,
      pu_excluded = excluded, pu_heads = head_ids\<rparr> = out"
  shows "stored (uo_store out) i = known_bytes s additions excluded i"
    and "uo_imported out = map fst (filter (\<lambda>(i, _). i |\<notin>| excluded) additions)" and "uo_heads out = head_ids"
proof -
  let ?step = "\<lambda>(imported, s) (i, bs). (imported @ [i], local_put_event s \<lparr>lw_event_id = i, lw_bytes = bs\<rparr>)"
  have fold: "foldl ?step (imported, t) kvs = (imported @ map fst kvs, u) \<and>
      (\<forall>i. stored u i = (case stored t i of Some bs \<Rightarrow> Some bs | None \<Rightarrow> map_of kvs i))"
    if "u = snd (foldl ?step (imported, t) kvs)" for imported t kvs u
    using that
  proof (induction kvs arbitrary: imported t)
    case (Cons kv kvs)
    obtain j bs where kv: "kv = (j, bs)" by (cases kv)
    from Cons.IH [of "imported @ [j]" "local_put_event t \<lparr>lw_event_id = j, lw_bytes = bs\<rparr>"] Cons.prems
    show ?case by (auto simp: kv split: option.split)
  qed (simp split: option.split)
  let ?kvs = "filter (\<lambda>(i, _). i |\<notin>| excluded) additions"
  let ?start = "s\<lparr>ls_replica := excluding_events (ls_replica s) excluded\<rparr>"
  note all = fold [OF refl, of "[]" ?start ?kvs]
  have out: "out = \<lparr>uo_store = snd (foldl ?step ([], ?start) ?kvs), uo_imported = map fst ?kvs, uo_heads = head_ids\<rparr>"
    using all assms(3) by (simp add: commit_union_def Let_def split: prod.splits)
  show "uo_imported out = map fst ?kvs" "uo_heads out = head_ids" by (simp_all add: out)
  have "stored ?start i = (if i |\<in>| excluded then None else stored s i)" by (simp add: excluding_events_def)
  moreover have "map_of ?kvs i = (if i |\<in>| excluded then None else map_of additions i)"
    by (induction additions) auto
  ultimately show "stored (uo_store out) i = known_bytes s additions excluded i"
    using all by (simp add: out known_bytes_def split: option.split)
qed

text \<open>A graph of part of the events, none of them quarantined in the whole.\<close>

definition part_of :: "event_graph \<Rightarrow> event_graph \<Rightarrow> bool" where
  "part_of h g \<longleftrightarrow> (\<forall>i ev. fmlookup (eg_events h) i = Some ev \<longrightarrow>
     fmlookup (eg_events g) i = Some ev \<and> i |\<notin>| fmdom (quarantined g))"

lemma part_unquarantined:
  assumes "collision_free c g" and "collision_free c h" and part: "part_of h g"
  shows "i |\<notin>| fmdom (quarantined h)"
proof
  assume "i |\<in>| fmdom (quarantined h)"
  then have cause: "rejection_cause c h i" using quarantine_iff_cause [OF assms(2)] by blast
  have sub: "\<And>j e. fmlookup (eg_events h) j = Some e \<Longrightarrow> fmlookup (eg_events g) j = Some e"
    using part by (simp add: part_of_def)
  have "rejection_cause c g i" by (rule rejection_cause_mono [OF sub cause])
  then have "i |\<in>| fmdom (quarantined g)" using quarantine_iff_cause [OF assms(1)] by blast
  moreover have source: "x |\<in>| fmdom (eg_events h)" if "(x, y) \<in> event_rel h" for x y
    using that by (auto simp: next_rel_iff fmlookup_dom_iff split: option.splits)
  obtain r where r: "(i, r) \<in> (event_rel h)\<^sup>*" "rejected_by_itself c h r \<or> (r, r) \<in> (event_rel h)\<^sup>+"
    using cause unfolding rejection_cause_def by blast
  have "r |\<in>| fmdom (eg_events h)"
    using r(2) source by (auto simp: rejected_by_itself_def intro: fmdomI dest: tranclD)
  then have "i |\<in>| fmdom (eg_events h)" using r(1) source by (auto elim: converse_rtranclE)
  ultimately show False using part by (auto simp: part_of_def fmlookup_dom_iff)
qed

lemma part_applicable:
  assumes "collision_free c g" and "collision_free c h" and part: "part_of h g"
    and i: "i \<in> set (applicable_ids (eg_causal h))"
  shows "i \<in> set (applicable_ids (eg_causal g))" and "(event_rel g)\<^sup>* `` {i} \<subseteq> fset (fmdom (eg_events h))"
proof -
  have sub: "\<And>j e. fmlookup (eg_events h) j = Some e \<Longrightarrow> fmlookup (eg_events g) j = Some e"
    using part by (simp add: part_of_def)
  have dom: "j |\<in>| fmdom (eg_events h) \<Longrightarrow> j |\<in>| fmdom (eg_events g) \<and> j |\<notin>| fmdom (quarantined g)" for j
    using part by (auto simp: part_of_def fmlookup_dom_iff)
  have h: "i |\<in>| fmdom (eg_events h)" "(event_rel h)\<^sup>* `` {i} \<subseteq> fset (fmdom (eg_events h))"
    using i applicable_iff [OF collision_free_history [OF assms(2)]] by auto
  show closed: "(event_rel g)\<^sup>* `` {i} \<subseteq> fset (fmdom (eg_events h))"
    using closed_past_agrees(1) [OF sub h(2)] h(2) by simp
  then show "i \<in> set (applicable_ids (eg_causal g))"
    using dom h(1) unfolding applicable_iff [OF collision_free_history [OF assms(1)]] by blast
qed

subsection \<open>Incomplete security transitions\<close>

lemma set_map_filter_iff: "y \<in> set (List.map_filter f xs) \<longleftrightarrow> (\<exists>x\<in>set xs. f x = Some y)"
  by (force simp: List.map_filter_def image_iff)

lemma traverse_Inr_set: "traverse f xs = Inr ys \<Longrightarrow> set ys = {y. \<exists>x\<in>set xs. f x = Inr y}"
  by (induction xs arbitrary: ys) (auto simp: and_then_Inr_iff)

definition open_trigger :: "event_graph \<Rightarrow> event_id \<Rightarrow> bool" where
  "open_trigger g t \<longleftrightarrow> t \<in> set (applicable_ids (eg_causal g))
     \<and> (\<exists>ev. fmlookup (eg_events g) t = Some ev \<and> starts_security_epoch ev)
     \<and> (\<forall>ev\<in>set (applicable_events g). commit_parent ev \<noteq> Some t)"

lemma incomplete_transitions:
  assumes "collision_free c g"
  obtains ids where "incomplete_security_transition_events c g = Inr ids"
    and "\<forall>i. i |\<in>| ids \<longleftrightarrow> i |\<in>| fmdom (eg_events g) \<and> (\<exists>t. open_trigger g t \<and> (i, t) \<in> (event_rel g)\<^sup>*)"
proof -
  have wf: "event_graph_wf c g" using event_history_wf [OF collision_free_history [OF assms]] ..
  let ?triggers = "filter starts_security_epoch (applicable_events g)"
  have recorded: "\<exists>i\<in>set (applicable_ids (eg_causal g)). fmlookup (eg_events g) i = Some ev \<and> event_id_of c ev = Inr i"
    if "ev \<in> set (applicable_events g)" for ev
    using that wf by (auto simp: applicable_events_lookup event_graph_wf_def event_id_of_def)
  then obtain ids where ids: "traverse (event_id_of c) ?triggers = Inr ids"
    using traverse_succeeds [of ?triggers "event_id_of c"] by fastforce
  let ?committed = "fset_of_list (List.map_filter commit_parent (applicable_events g))"
  have committed: "t |\<in>| ?committed \<longleftrightarrow> (\<exists>ev\<in>set (applicable_events g). commit_parent ev = Some t)" for t
    by (simp add: fset_of_list_elem set_map_filter_iff)
  have "t \<in> set ids \<longleftrightarrow> t \<in> set (applicable_ids (eg_causal g))
      \<and> (\<exists>ev. fmlookup (eg_events g) t = Some ev \<and> starts_security_epoch ev)" for t
  proof
    assume "t \<in> set ids"
    then obtain ev where "ev \<in> set ?triggers" "event_id_of c ev = Inr t"
      unfolding traverse_Inr_set [OF ids] by blast
    then show "t \<in> set (applicable_ids (eg_causal g)) \<and> (\<exists>ev. fmlookup (eg_events g) t = Some ev \<and> starts_security_epoch ev)"
      using recorded [of ev] by auto
  next
    assume "t \<in> set (applicable_ids (eg_causal g)) \<and> (\<exists>ev. fmlookup (eg_events g) t = Some ev \<and> starts_security_epoch ev)"
    then obtain ev where ev: "t \<in> set (applicable_ids (eg_causal g))" "fmlookup (eg_events g) t = Some ev" "starts_security_epoch ev" by blast
    then have "ev \<in> set ?triggers" "event_id_of c ev = Inr t"
      using wf by (auto simp: applicable_events_lookup event_graph_wf_def event_id_of_def)
    then show "t \<in> set ids" unfolding traverse_Inr_set [OF ids] by blast
  qed
  moreover obtain opened where opened: "opened = filter (\<lambda>i. i |\<notin>| ?committed) ids" by blast
  ultimately have trigger: "t \<in> set opened \<longleftrightarrow> open_trigger g t" for t
    using committed by (auto simp: open_trigger_def)
  have below: "trigger = i \<or> event_is_ancestor g trigger i \<longleftrightarrow> (i, trigger) \<in> (event_rel g)\<^sup>*" for trigger i
    by (auto simp: event_is_ancestor_def is_ancestor_iff wf_event_rel [OF wf])
  let ?result = "fset_of_list (filter (\<lambda>i. list_ex (\<lambda>trigger. trigger = i \<or> event_is_ancestor g trigger i) opened)
      (keys_of (eg_events g)))"
  have "incomplete_security_transition_events c g = Inr ?result"
    by (simp add: incomplete_security_transition_events_def Let_def ids opened)
  moreover have "\<forall>i. i |\<in>| ?result \<longleftrightarrow> i |\<in>| fmdom (eg_events g) \<and> (\<exists>t. open_trigger g t \<and> (i, t) \<in> (event_rel g)\<^sup>*)"
    by (auto simp: fset_of_list_elem list_ex_iff trigger below)
  ultimately show ?thesis by (rule that)
qed

lemma part_closes_triggers:
  assumes g: "collision_free c g" and h: "collision_free c h"
    and g_ids: "\<And>i. i |\<in>| ids \<longleftrightarrow> i |\<in>| fmdom (eg_events g) \<and> (\<exists>t. open_trigger g t \<and> (i, t) \<in> (event_rel g)\<^sup>*)"
    and part: "\<And>i. fmlookup (eg_events h) i
        = (if i |\<in>| fmdom (quarantined g) \<or> i |\<in>| ids then None else fmlookup (eg_events g) i)"
    and current: "\<And>i ev. fmlookup (eg_events g) i = Some ev \<Longrightarrow> SCHEMA_V3 \<le> schema_version (body ev)"
  shows "\<not> open_trigger h t"
proof
  assume trigger: "open_trigger h t"
  have part_of: "part_of h g" using part by (auto simp: part_of_def split: if_splits)
  have hist: "event_history c g" by (rule collision_free_history [OF g])
  obtain ev where ev: "fmlookup (eg_events h) t = Some ev" "starts_security_epoch ev"
    and t: "t \<in> set (applicable_ids (eg_causal h))" using trigger by (auto simp: open_trigger_def)
  note up = part_applicable [OF g h part_of]
  have t_g: "t \<in> set (applicable_ids (eg_causal g))" "fmlookup (eg_events g) t = Some ev" "t |\<notin>| ids"
    using up(1) [OF t] ev(1) part [of t] by (auto split: if_splits)
  then have "\<not> open_trigger g t" using g_ids [of t] by (auto intro: fmdomI)
  then obtain cp where cp: "cp \<in> set (applicable_events g)" "commit_parent cp = Some t"
    using t_g ev(2) by (auto simp: open_trigger_def)
  then obtain k where k: "k \<in> set (applicable_ids (eg_causal g))" "fmlookup (eg_events g) k = Some cp"
    by (auto simp: applicable_events_lookup)
  have commit: "parents (body cp) = [t]" "list_ex is_epoch_checkpoint (operations (body cp))"
    using cp(2) by (auto simp: commit_parent_def committed_epoch_parent_def split: list.splits if_splits)
  then have edge: "(k, p) \<in> event_rel g \<longleftrightarrow> p = t" for p using k(2) by (simp add: next_rel_iff)
  have "validate_epoch_checkpoint_structure g cp = Inr ()" using history_event_passes [OF hist cp(1)] ..
  then have "length (operations (body cp)) = 1"
    using current [OF k(2)] commit(2)
    by (auto simp: validate_epoch_checkpoint_structure_def epoch_checkpoint_requirement_def Let_def and_then_Inr_iff
        filter_empty_conv list_ex_iff split: if_splits)
  then have "\<not> starts_security_epoch cp"
    using commit(2) by (auto simp: starts_security_epoch_def length_Suc_conv elim!: is_device_revoked.elims)
  then have not_trigger: "\<not> open_trigger g k" using k(2) by (simp add: open_trigger_def)
  have "k |\<notin>| ids"
  proof
    assume "k |\<in>| ids"
    then obtain s where s: "open_trigger g s" "(k, s) \<in> (event_rel g)\<^sup>*" using g_ids by blast
    then have "(t, s) \<in> (event_rel g)\<^sup>*" using not_trigger by (auto simp: rtrancl_unroll [of k] edge)
    then show False using g_ids [of t] s(1) t_g by (auto intro: fmdomI)
  qed
  moreover have "k |\<notin>| fmdom (quarantined g)" using k(1) applicable_iff [OF hist] by blast
  ultimately have k_h: "fmlookup (eg_events h) k = Some cp" using part [of k] k(2) by simp
  have "(event_rel h)\<^sup>* `` {k} \<subseteq> fset (fmdom (eg_events h))"
  proof -
    have edge_h: "(k, p) \<in> event_rel h \<longleftrightarrow> p = t" for p using k_h commit(1) by (simp add: next_rel_iff)
    have "(event_rel h)\<^sup>* `` {t} \<subseteq> fset (fmdom (eg_events h))"
      using t applicable_iff [OF collision_free_history [OF h]] by blast
    then show ?thesis using fmdomI [OF k_h] by (auto simp: rtrancl_unroll [of k] edge_h)
  qed
  then have "k \<in> set (applicable_ids (eg_causal h))"
    using k_h part_unquarantined [OF g h part_of] applicable_iff [OF collision_free_history [OF h]] by (auto intro: fmdomI)
  then have "cp \<in> set (applicable_events h)" using k_h by (auto simp: applicable_events_lookup)
  then show False using trigger cp(2) by (auto simp: open_trigger_def)
qed

subsection \<open>What a union establishes\<close>

lemma union_graphs:
  assumes valid: "store_valid c st s"
    and union: "union_remote c s \<lparr>ru_remote_events = remote, ru_store_id = st\<rparr> = Inr out"
  obtains additions g ids h where "set additions \<subseteq> set remote" and "distinct (map fst additions)"
    and "\<And>i bs. (i, bs) \<in> set additions \<Longrightarrow> stored s i = None \<and> valid_record c st i bs"
    and "collision_free c g" and "\<And>i. fmlookup (eg_events g) i = Option.bind (known_bytes s additions {||} i) (parsed c)"
    and "\<And>i. i |\<in>| ids \<longleftrightarrow> i |\<in>| fmdom (eg_events g) \<and> (\<exists>t. open_trigger g t \<and> (i, t) \<in> (event_rel g)\<^sup>*)"
    and "collision_free c h" and "load_graph c (uo_store out) st = Inr h"
    and "\<And>i. fmlookup (eg_events h) i
        = (if i |\<in>| fmdom (quarantined g) \<or> i |\<in>| ids then None else fmlookup (eg_events g) i)"
    and "uo_heads out = map event_id_str (event_heads h)"
    and "uo_imported out = map fst (filter (\<lambda>(i, _). i |\<notin>| fmdom (quarantined g) |\<union>| ids) additions)"
    and "\<And>i. stored (uo_store out) i = known_bytes s additions (fmdom (quarantined g) |\<union>| ids) i"
    and "store_valid c st (uo_store out)"
proof -
  obtain p where p: "prepare_union c s \<lparr>ru_remote_events = remote, ru_store_id = st\<rparr> = Inr p" and out: "out = commit_union p"
    using union by (auto simp: union_remote_def and_then_Inr_iff)
  obtain additions g ids h where sub: "set additions \<subseteq> set remote" and dist: "distinct (map fst additions)"
    and new': "\<forall>i bs. (i, bs) \<in> set additions \<longrightarrow> stored s i = None \<and> valid_record c st i bs"
    and g: "build_local_graph c s additions st {||} = Inr g"
    and inc: "incomplete_security_transition_events c g = Inr ids"
    and h: "build_local_graph c s additions st (fmdom (quarantined g) |\<union>| ids) = Inr h"
    and p_eq: "p = \<lparr>pu_local = s, pu_additions = filter (\<lambda>(i, _). i |\<notin>| fmdom (quarantined g) |\<union>| ids) additions,
      pu_excluded = fmdom (quarantined g) |\<union>| ids, pu_heads = map event_id_str (event_heads h)\<rparr>"
    using prepare_unionE [OF p] .
  let ?X = "fmdom (quarantined g) |\<union>| ids"
  have new: "stored s i = None \<and> valid_record c st i bs" if "(i, bs) \<in> set additions" for i bs using new' that by blast
  have known: "valid_record c st i bs" if "known_bytes s additions X i = Some bs" for X i bs
    using that valid new [of i bs]
    by (auto simp: known_bytes_def store_valid_def dest: map_of_SomeD split: if_splits option.splits)
  obtain eg where eg: "graph_of c st eg = Inr g" "\<forall>i. fmlookup eg i = Option.bind (known_bytes s additions {||} i) (parsed c)"
    using build_local_graph_of [OF known g] .
  obtain eh where eh: "graph_of c st eh = Inr h" "\<forall>i. fmlookup eh i = Option.bind (known_bytes s additions ?X i) (parsed c)"
    using build_local_graph_of [OF known h] .
  have valid_events: "valid_at c st i ev" if "Option.bind (known_bytes s additions X i) (parsed c) = Some ev" for X i ev
    using that known [of X i] by (auto simp: bind_eq_Some_conv valid_record_def)
  have "\<forall>i ev. fmlookup eg i = Some ev \<longrightarrow> valid_at c st i ev" using valid_events [of "{||}"] eg(2) by simp
  note gg = graph_of_history [OF eg(1) this]
  have "\<forall>i ev. fmlookup eh i = Some ev \<longrightarrow> valid_at c st i ev" using valid_events [of ?X] eh(2) by simp
  note hh = graph_of_history [OF eh(1) this]
  have stored: "\<forall>i bs. (i, bs) \<in> set additions \<longrightarrow> stored s i = None" using new by blast
  note committed = committed_bytes [OF stored dist out [unfolded p_eq, symmetric]]
  have valid_out: "store_valid c st (uo_store out)" using known by (auto simp: store_valid_def committed(1))
  have load: "load_graph c (uo_store out) st = Inr h"
    using load_graph_of [OF valid_out, of eh] eh by (simp add: committed(1))
  obtain ids' where ids': "incomplete_security_transition_events c g = Inr ids'"
    "\<forall>i. i |\<in>| ids' \<longleftrightarrow> i |\<in>| fmdom (eg_events g) \<and> (\<exists>t. open_trigger g t \<and> (i, t) \<in> (event_rel g)\<^sup>*)"
    using incomplete_transitions [OF gg(1)] .
  have restrict: "fmlookup (eg_events h) i = (if i |\<in>| fmdom (quarantined g) \<or> i |\<in>| ids then None else fmlookup (eg_events g) i)" for i
    by (simp add: gg(2) hh(2) eg(2) eh(2) known_bytes_def)
  show ?thesis
    using that [OF sub dist new gg(1) _ _ hh(1) load restrict committed(3,2,1) valid_out] eg(2) gg(2) ids' inc by simp
qed

text \<open>C14: a union leaves a store that loads. When every stored record validates under its id, a successful
  union stores only records that were stored before or that the provider sent and that validate,
  never replaces stored bytes, and the store it returns loads into a graph without any quarantined
  event whose heads are the heads it reports; each imported id was new.\<close>

theorem union_remote_consistent:
  assumes "store_valid c st s"
    and "union_remote c s \<lparr>ru_remote_events = remote, ru_store_id = st\<rparr> = Inr out"
  shows "store_valid c st (uo_store out)
    \<and> (\<exists>h. load_graph c (uo_store out) st = Inr h \<and> fmdom (quarantined h) = {||}
         \<and> uo_heads out = map event_id_str (event_heads h))
    \<and> (\<forall>i bs. stored (uo_store out) i = Some bs \<longrightarrow>
         stored s i = Some bs \<or> (stored s i = None \<and> i \<in> set (uo_imported out) \<and> (i, bs) \<in> set remote))
    \<and> (\<forall>i\<in>set (uo_imported out). stored s i = None)"
  using assms
proof (rule union_graphs)
  fix additions g ids h
  assume sub: "set additions \<subseteq> set remote" and new: "\<And>i bs. (i, bs) \<in> set additions \<Longrightarrow> stored s i = None \<and> valid_record c st i bs"
    and g: "collision_free c g" and h: "collision_free c h" and load: "load_graph c (uo_store out) st = Inr h"
    and restrict: "\<And>i. fmlookup (eg_events h) i
        = (if i |\<in>| fmdom (quarantined g) \<or> i |\<in>| ids then None else fmlookup (eg_events g) i)"
    and heads: "uo_heads out = map event_id_str (event_heads h)"
    and imported: "uo_imported out = map fst (filter (\<lambda>(i, _). i |\<notin>| fmdom (quarantined g) |\<union>| ids) additions)"
    and stored: "\<And>i. stored (uo_store out) i = known_bytes s additions (fmdom (quarantined g) |\<union>| ids) i"
    and valid: "store_valid c st (uo_store out)"
  have "part_of h g" using restrict by (auto simp: part_of_def split: if_splits)
  then have none: "fmdom (quarantined h) = {||}" using part_unquarantined [OF g h] by (auto intro: fset_eqI)
  have "stored s i = Some bs \<or> (stored s i = None \<and> i \<in> set (uo_imported out) \<and> (i, bs) \<in> set remote)"
    if "stored (uo_store out) i = Some bs" for i bs
    using that sub by (force simp: stored known_bytes_def imported dest: map_of_SomeD split: if_splits option.splits)
  moreover have "\<forall>i\<in>set (uo_imported out). stored s i = None" using new by (auto simp: imported)
  ultimately show ?thesis using valid load none heads by blast
qed

text \<open>C13: no half-done security transition is visible after a union. When all known events use the current
  checkpoint schema, the store a successful union returns loads into a graph in which every applicable
  device revocation is directly committed by an applicable checkpoint, so
  \<open>incomplete_security_transition_events\<close> is empty.\<close>

theorem union_hides_incomplete_transitions:
  assumes "store_valid c st s"
    and "union_remote c s \<lparr>ru_remote_events = remote, ru_store_id = st\<rparr> = Inr out"
    and "\<forall>i bs ev. (stored s i = Some bs \<or> (i, bs) \<in> set remote) \<and> parse_event_storage_bytes c bs = Inr ev \<longrightarrow>
      SCHEMA_V3 \<le> schema_version (body ev)"
  shows "\<exists>h. load_graph c (uo_store out) st = Inr h \<and> incomplete_security_transition_events c h = Inr {||}"
  using assms(1,2)
proof (rule union_graphs)
  fix additions g ids h
  assume sub: "set additions \<subseteq> set remote" and g: "collision_free c g" and h: "collision_free c h"
    and events: "\<And>i. fmlookup (eg_events g) i = Option.bind (known_bytes s additions {||} i) (parsed c)"
    and ids: "\<And>i. i |\<in>| ids \<longleftrightarrow> i |\<in>| fmdom (eg_events g) \<and> (\<exists>t. open_trigger g t \<and> (i, t) \<in> (event_rel g)\<^sup>*)"
    and load: "load_graph c (uo_store out) st = Inr h"
    and restrict: "\<And>i. fmlookup (eg_events h) i
        = (if i |\<in>| fmdom (quarantined g) \<or> i |\<in>| ids then None else fmlookup (eg_events g) i)"
  have current: "SCHEMA_V3 \<le> schema_version (body ev)" if "fmlookup (eg_events g) i = Some ev" for i ev
    using that sub assms(3)
    by (fastforce simp: events known_bytes_def bind_eq_Some_conv parsed_iff dest: map_of_SomeD split: option.splits)
  have closed: "\<not> open_trigger h t" for t by (rule part_closes_triggers [OF g h ids restrict]) (rule current)
  obtain ids' where ids': "incomplete_security_transition_events c h = Inr ids'"
    "\<forall>i. i |\<in>| ids' \<longleftrightarrow> i |\<in>| fmdom (eg_events h) \<and> (\<exists>t. open_trigger h t \<and> (i, t) \<in> (event_rel h)\<^sup>*)"
    using incomplete_transitions [OF h] .
  have "ids' = {||}" using ids'(2) closed by (auto intro: fset_eqI)
  then show ?thesis using load ids'(1) by blast
qed

subsection \<open>Appending\<close>

lemma loaded_history:
  assumes valid: "store_valid c st s" and load: "load_graph c s st = Inr g"
  shows "collision_free c g" and "fmlookup (eg_events g) i = Option.bind (stored s i) (parsed c)"
proof -
  let ?events = "fmmap (\<lambda>bs. the (parsed c bs)) (rs_events (ls_replica s))"
  have events: "fmlookup ?events i = Option.bind (stored s i) (parsed c)" for i
    using valid by (cases "stored s i") (fastforce simp: store_valid_def valid_record_def)+
  have graph: "graph_of c st ?events = Inr g" using load load_graph_of [OF valid events] by simp
  have "\<forall>i ev. fmlookup ?events i = Some ev \<longrightarrow> valid_at c st i ev"
    using valid unfolding events by (fastforce simp: store_valid_def valid_record_def bind_eq_Some_conv)
  note loaded = graph_of_history [OF graph this]
  show "collision_free c g" by (rule loaded(1))
  show "fmlookup (eg_events g) i = Option.bind (stored s i) (parsed c)" using events loaded(2) by simp
qed

lemma three_steps:
  "and_then a (\<lambda>x. and_then (b x) (\<lambda>y. and_then d (f y))) = Inr r \<Longrightarrow>
    \<exists>x y z. a = Inr x \<and> b x = Inr y \<and> d = Inr z \<and> f y z = Inr r"
  by (auto simp: and_then_Inr_iff)

lemma insertion_outcome:
  "(if known then Inr (i', bs', duplicate)
    else and_then loaded (\<lambda>g. case step g of Inl (_, cause) \<Rightarrow> Inl cause | Inr (_, status) \<Rightarrow> Inr (i', bs', status)))
      = Inr (i, bs, status)
    \<longleftrightarrow> i' = i \<and> bs' = bs \<and> (if known then status = duplicate else \<exists>g g'. loaded = Inr g \<and> step g = Inr (g', status))"
proof (cases loaded)
  case (Inr g)
  then show ?thesis by (cases "step g") (auto split: prod.splits)
qed auto

lemma append_event_stores:
  assumes "append_event c s \<lparr>la_event = ev, la_store_id = st\<rparr> = Inr out"
  obtains i bs sid where "store_id_parse st = Inr sid" and "validate_envelope c ev sid = Inr i"
    and "serialize_event_storage_yaml c ev = Inr bs" and "ao_event_id out = i"
    and "stored s i \<noteq> None \<and> ao_status out = EventDuplicate \<and> ao_store out = s
      \<or> stored s i = None \<and> (\<exists>g g'. load_graph c s st = Inr g
          \<and> insert_vault_event c g \<lparr>gi_event = ev, gi_expected_store_id = st\<rparr> = Inr (g', ao_status out))
        \<and> ao_store out = (case ao_status out of EventQuarantined _ \<Rightarrow> s | EventDuplicate \<Rightarrow> s
            | _ \<Rightarrow> local_put_event s \<lparr>lw_event_id = i, lw_bytes = bs\<rparr>)"
proof -
  obtain i bs status where prepared: "prepare_append c s \<lparr>la_event = ev, la_store_id = st\<rparr> = Inr (i, bs, status)"
    and out: "out = \<lparr>ao_store = (case status of EventQuarantined _ \<Rightarrow> s | EventDuplicate \<Rightarrow> s
        | _ \<Rightarrow> local_put_event s \<lparr>lw_event_id = i, lw_bytes = bs\<rparr>), ao_event_id = i, ao_status = status\<rparr>"
    using assms by (auto simp: append_event_def Let_def split: sum.splits)
  let ?tail = "\<lambda>i bs. if contains_event (ls_replica s) i then Inr (i, bs, EventDuplicate)
      else and_then (load_graph c s st) (\<lambda>g.
          case insert_vault_event c g \<lparr>gi_event = ev, gi_expected_store_id = st\<rparr> of
            Inl (_, cause) \<Rightarrow> Inl cause
          | Inr (_, status) \<Rightarrow> Inr (i, bs, status))"
  have "and_then (validated (store_id_parse st)) (\<lambda>sid. and_then (validate_envelope c ev sid) (\<lambda>i.
      and_then (serialize_event_storage_yaml c ev) (?tail i))) = Inr (i, bs, status)"
    using prepared unfolding prepare_append_def Let_def local_event_append.simps .
  from three_steps [OF this] obtain sid i' bs' where steps: "validated (store_id_parse st) = Inr sid"
      "validate_envelope c ev sid = Inr i'" "serialize_event_storage_yaml c ev = Inr bs'"
    and tail: "?tail i' bs' = Inr (i, bs, status)" by blast
  note rest = tail [unfolded insertion_outcome]
  then have same: "i' = i" "bs' = bs" by simp_all
  have sid: "store_id_parse st = Inr sid" "validate_envelope c ev sid = Inr i" "serialize_event_storage_yaml c ev = Inr bs"
    using steps by (simp_all add: same)
  have contains: "contains_event (ls_replica s) i \<longleftrightarrow> stored s i \<noteq> None"
    by (auto simp: contains_event_def fmlookup_dom_iff)
  show ?thesis
  proof (rule that [OF sid])
    show "ao_event_id out = i" by (simp add: out)
    show "stored s i \<noteq> None \<and> ao_status out = EventDuplicate \<and> ao_store out = s
      \<or> stored s i = None \<and> (\<exists>g g'. load_graph c s st = Inr g
          \<and> insert_vault_event c g \<lparr>gi_event = ev, gi_expected_store_id = st\<rparr> = Inr (g', ao_status out))
        \<and> ao_store out = (case ao_status out of EventQuarantined _ \<Rightarrow> s | EventDuplicate \<Rightarrow> s
            | _ \<Rightarrow> local_put_event s \<lparr>lw_event_id = i, lw_bytes = bs\<rparr>)"
      using rest contains by (cases "stored s i") (auto simp: out same)
  qed
qed

abbreviation joins_log :: "event_insert_status \<Rightarrow> bool" where
  "joins_log status \<equiv> status = EventApplied \<or> (\<exists>reason. status = EventPending reason)"

text \<open>C16: what an append does to the store. A rejected append returns the store it was given; an accepted one
  returns the id of the event and keeps every record valid, and it stores exactly one new record when
  the event is applied or pending, and nothing when it is quarantined or already stored.\<close>

theorem append_event_exact:
  assumes "store_valid c st s"
    and "\<forall>bs. serialize_event_storage_yaml c ev = Inr bs \<longrightarrow> parse_event_storage_bytes c bs = Inr ev"
  shows "case append_event c s \<lparr>la_event = ev, la_store_id = st\<rparr> of
      Inl rejection \<Rightarrow> sr_store rejection = s
    | Inr out \<Rightarrow> store_valid c st (ao_store out) \<and> body_event_id c (body ev) = Inr (ao_event_id out)
        \<and> (if joins_log (ao_status out)
           then stored s (ao_event_id out) = None
             \<and> (\<exists>bs. serialize_event_storage_yaml c ev = Inr bs
                 \<and> (\<forall>i. stored (ao_store out) i = (if i = ao_event_id out then Some bs else stored s i)))
           else ao_store out = s)"
proof (cases "append_event c s \<lparr>la_event = ev, la_store_id = st\<rparr>")
  case (Inl rejection)
  then have "sr_store rejection = s" by (auto simp: append_event_def Let_def split: sum.splits)
  then show ?thesis using Inl by simp
next
  case (Inr out)
  obtain i bs sid where facts: "store_id_parse st = Inr sid" "validate_envelope c ev sid = Inr i"
      "serialize_event_storage_yaml c ev = Inr bs" "ao_event_id out = i"
    and cases: "stored s i \<noteq> None \<and> ao_status out = EventDuplicate \<and> ao_store out = s
      \<or> stored s i = None \<and> (\<exists>g g'. load_graph c s st = Inr g
          \<and> insert_vault_event c g \<lparr>gi_event = ev, gi_expected_store_id = st\<rparr> = Inr (g', ao_status out))
        \<and> ao_store out = (case ao_status out of EventQuarantined _ \<Rightarrow> s | EventDuplicate \<Rightarrow> s
            | _ \<Rightarrow> local_put_event s \<lparr>lw_event_id = i, lw_bytes = bs\<rparr>)"
    by (rule append_event_stores [OF Inr])
  let ?put = "local_put_event s \<lparr>lw_event_id = i, lw_bytes = bs\<rparr>"
  have "valid_record c st i bs" using facts assms(2) by (auto simp: valid_record_def parsed_iff valid_at_def)
  then have put: "store_valid c st ?put" using assms(1) by (auto simp: store_valid_def)
  have id: "body_event_id c (body ev) = Inr (ao_event_id out)" using validate_envelope_id facts(2,4) by blast
  show ?thesis
  proof (cases "joins_log (ao_status out)")
    case True
    then have "stored s i = None" "ao_store out = ?put" using cases by auto
    then show ?thesis using Inr True put id facts(3,4) by simp
  next
    case False
    then have "ao_store out = s" using cases by (cases "ao_status out") auto
    then show ?thesis using Inr False assms(1) id by simp
  qed
qed


subsection \<open>Classifying and ordering provider records\<close>

lemma remote_stores_fold:
  "fold_result (remote_store_step c) ids events = Inr ids' \<longleftrightarrow>
     (\<forall>(i, bs)\<in>set events. \<exists>e. checked_remote_parse c i bs = Inr e)
     \<and> ids' = ids |\<union>| fset_of_list (List.map_filter (\<lambda>(i, bs). case checked_remote_parse c i bs of
          Inr e \<Rightarrow> Some (store_id_str (checked_store_id e)) | Inl _ \<Rightarrow> None) events)"
proof (induction events arbitrary: ids)
  case (Cons r events)
  obtain i bs where r: "r = (i, bs)" by (cases r)
  show ?case
  proof (cases "checked_remote_parse c i bs")
    case (Inl cause)
    then have "remote_store_step c ids r = Inl cause" by (simp add: remote_store_step_def r)
    then show ?thesis using Inl by (simp add: r)
  next
    case (Inr e)
    then have "remote_store_step c ids r = Inr (finsert (store_id_str (checked_store_id e)) ids)"
      by (simp add: remote_store_step_def r)
    then show ?thesis using Inr Cons.IH [of "finsert (store_id_str (checked_store_id e)) ids"]
      by (simp add: r List.map_filter_def)
  qed
qed (auto simp: List.map_filter_def)

lemma fset_sizes: "ids = {||} \<or> (\<exists>x. ids = {|x|}) \<or> ids \<noteq> {||} \<and> 1 < fcard ids"
proof (cases "card (fset ids) = 1")
  case True
  then obtain x where "fset ids = {x}" by (rule card_1_singletonE)
  then have "ids = {|x|}" by (auto intro!: fset_eqI)
  then show ?thesis by blast
next
  case False
  show ?thesis
  proof (cases "card (fset ids) = 0")
    case True
    then have "ids = {||}" by auto
    then show ?thesis ..
  next
    case False
    then have "1 < fcard ids" using \<open>card (fset ids) \<noteq> 1\<close> unfolding fcard.rep_eq by linarith
    moreover have "ids \<noteq> {||}" using False by auto
    ultimately show ?thesis by blast
  qed
qed

definition remote_stores :: "crates \<Rightarrow> (event_id \<times> bytes) list \<Rightarrow> string set" where
  "remote_stores c events =
     {store_id_str (checked_store_id e) | i bs e. (i, bs) \<in> set events \<and> checked_remote_parse c i bs = Inr e}"

text \<open>Classification checks first and reports exactly. A batch is classified only if every record
  carries its own digest, a supported schema and a valid signature, and then as empty, as one store
  that is the trimmed active one, as a different store, or as several stores, sorted.\<close>

theorem classify_remote_exact:
  "case classify_remote c events active of
     Inl _ \<Rightarrow> \<exists>(i, bs)\<in>set events. \<forall>e. checked_remote_parse c i bs \<noteq> Inr e
   | Inr result \<Rightarrow> (\<forall>(i, bs)\<in>set events. \<exists>e. checked_remote_parse c i bs = Inr e)
       \<and> (case result of
            RemoteEmpty \<Rightarrow> events = []
          | RemoteSameStore st \<Rightarrow> remote_stores c events = {st} \<and> trimmed_identity active \<in> {EmptyIdentity, Identified st}
          | RemoteDifferentStore local st \<Rightarrow>
              remote_stores c events = {st} \<and> trimmed_identity active = Identified local \<and> local \<noteq> st
          | RemoteMultipleStores sts \<Rightarrow>
              set sts = remote_stores c events \<and> sorted sts \<and> distinct sts \<and> 1 < length sts)"
proof -
  let ?ids = "fset_of_list (List.map_filter (\<lambda>(i, bs). case checked_remote_parse c i bs of
          Inr e \<Rightarrow> Some (store_id_str (checked_store_id e)) | Inl _ \<Rightarrow> None) events)"
  have stores: "fset ?ids = remote_stores c events"
    by (force simp: fset_of_list.rep_eq set_map_filter_iff remote_stores_def split: sum.splits)
  show ?thesis
  proof (cases "\<forall>(i, bs)\<in>set events. \<exists>e. checked_remote_parse c i bs = Inr e")
    case False
    have "\<exists>e. fold_result (remote_store_step c) {||} events = Inl e"
    proof (cases "fold_result (remote_store_step c) {||} events")
      case (Inr ids)
      then show ?thesis using False remote_stores_fold [of c "{||}" events ids] by blast
    qed simp
    then obtain e where "fold_result (remote_store_step c) {||} events = Inl e" ..
    then show ?thesis using False by (fastforce simp: classify_remote_def)
  next
    case True
    then have fold: "fold_result (remote_store_step c) {||} events = Inr ?ids"
      by (subst remote_stores_fold) simp
    have nonempty: "events = []" if "?ids = {||}"
    proof (rule ccontr)
      assume "events \<noteq> []"
      then obtain i bs where "(i, bs) \<in> set events" by (cases events) auto
      then have "remote_stores c events \<noteq> {}" using True by (fastforce simp: remote_stores_def)
      then show False using that stores by simp
    qed
    consider (none) "?ids = {||}" | (many) "?ids \<noteq> {||}" "fcard ?ids > 1" | (one) st where "?ids = {|st|}"
      using fset_sizes [of ?ids] by auto
    then show ?thesis
    proof cases
      case none
      then show ?thesis using fold True nonempty by (simp add: classify_remote_def)
    next
      case many
      then have "length (elems ?ids) > 1" by (simp add: fcard.rep_eq sorted_list_of_fset.rep_eq)
      then show ?thesis using many fold True stores by (auto simp: classify_remote_def)
    next
      case one
      have "elems ?ids = [st]" unfolding one by (simp add: sorted_list_of_fset.rep_eq)
      moreover have "remote_stores c events = {st}" using stores unfolding one by simp
      ultimately show ?thesis using fold True unfolding one
        by (auto simp: classify_remote_def fcard.rep_eq split: remote_store_identity.splits)
    qed
  qed
qed

lemma note_priorities:
  assumes "fold_result (note_priority c) m events = Inr priorities" and "distinct (map fst events)"
  shows "(\<forall>bs. (i, bs) \<in> set events \<longrightarrow>
      (\<exists>ev. parse_event_storage_bytes c bs = Inr ev \<and> fmlookup priorities i = Some (publish_priority ev)))
    \<and> (i \<notin> fst ` set events \<longrightarrow> fmlookup priorities i = fmlookup m i)"
  using assms
proof (induction events arbitrary: m)
  case (Cons r events)
  obtain j bs' where r: "r = (j, bs')" by (cases r)
  obtain m1 where step: "note_priority c m (j, bs') = Inr m1" and rest': "fold_result (note_priority c) m1 events = Inr priorities"
    using Cons.prems by (auto simp: r and_then_Inr_iff)
  then obtain ev where ev: "parse_event_storage_bytes c bs' = Inr ev" and "m1 = fmupd j (publish_priority ev) m"
    by (auto simp: note_priority_def and_then_Inr_iff)
  note rest = rest' [unfolded this(2)]
  have "distinct (map fst events)" and fresh: "j \<notin> fst ` set events" using Cons.prems(2) by (auto simp: r)
  note IH = Cons.IH [OF rest this(1)]
  show ?case
  proof (cases "i = j")
    case True
    then have "fmlookup priorities i = Some (publish_priority ev)" using IH fresh by simp
    moreover have "(i, bs) \<in> set (r # events) \<longleftrightarrow> bs = bs'" for bs using True fresh by (force simp: r)
    ultimately show ?thesis using True ev by (simp add: r)
  qed (use IH in \<open>auto simp: r\<close>)
qed simp

lemma sorted_key_before:
  assumes "sorted (map f xs)" and "x \<in> set xs" and "y \<in> set xs" and "f x < f y"
  shows "\<exists>as bs cs. xs = as @ x # bs @ y # cs"
proof -
  obtain as rest where xs: "xs = as @ x # rest" using assms(2) by (meson split_list)
  have "y \<notin> set as" using assms(1,4) by (fastforce simp: xs sorted_append)
  moreover have "y \<noteq> x" using assms(4) by auto
  ultimately have "y \<in> set rest" using assms(3) by (auto simp: xs)
  then show ?thesis using xs by (metis split_list)
qed

text \<open>C17: a checkpoint is published before the transition it commits. The order of provider writes of
  records with distinct ids keeps exactly the records, and when a record starts a security epoch
  without being a checkpoint itself, the record that commits it comes first.\<close>

theorem checkpoint_published_first:
  assumes "order_writes c events = Inr ordered" and "distinct (map fst events)"
    and "(i, bs) \<in> set events" and "parse_event_storage_bytes c bs = Inr trigger"
    and "starts_security_epoch trigger" and "committed_epoch_parent trigger = NotCheckpoint"
    and "(k, bs') \<in> set events" and "parse_event_storage_bytes c bs' = Inr checkpoint"
    and "committed_epoch_parent checkpoint = Commits i"
  shows "mset ordered = mset events \<and> (\<exists>xs ys zs. ordered = xs @ (k, bs') # ys @ (i, bs) # zs)"
proof -
  obtain priorities where fold: "fold_result (note_priority c) fmempty events = Inr priorities"
    and ordered: "ordered = sort_key (\<lambda>(i, _). (case fmlookup priorities i of Some p \<Rightarrow> p | None \<Rightarrow> 1, i)) events"
    using assms(1) by (auto simp: order_writes_def and_then_Inr_iff)
  let ?key = "\<lambda>(i :: event_id, _ :: bytes). (case fmlookup priorities i of Some p \<Rightarrow> p | None \<Rightarrow> 1, i)"
  have "?key (i, bs) = (2, i)" "?key (k, bs') = (0, k)"
    using note_priorities [OF fold assms(2), of i] note_priorities [OF fold assms(2), of k] assms(3-9)
    by (auto simp: publish_priority_def)
  then have less: "?key (k, bs') < ?key (i, bs)" by simp
  have "\<exists>xs ys zs. ordered = xs @ (k, bs') # ys @ (i, bs) # zs"
    by (rule sorted_key_before [where f = ?key]) (use assms(3,7) less in \<open>simp_all add: ordered\<close>)
  then show ?thesis by (simp add: ordered)
qed

end
