(* ===== verification/EventStoreExamples.thy ===== *)
theory EventStoreExamples
  imports EventStoreLaws
begin

text \<open>
  Stores of logs: the first events of a log of one owner as stored records, the rest as provider
  records.  A log has at most ten events here, so the YAML of the n-th event is the byte n and a
  line end, and the ids of its events are in the order of their positions.
\<close>

subsection \<open>Records of a log\<close>

definition log_bytes :: "nat \<Rightarrow> bytes" where
  "log_bytes n = [of_nat n, 10]"

definition short_log :: "log_entry list \<Rightarrow> bool" where
  "short_log log \<longleftrightarrow> plain_log log \<and> length log \<le> 10"

lemma log_event_inject: "plain_log log \<Longrightarrow> m < length log \<Longrightarrow> n < length log \<Longrightarrow> log_event log m = log_event log n \<Longrightarrow> m = n"
proof -
  assume plain: "plain_log log" and m: "m < length log" and n: "n < length log" and eq: "log_event log m = log_event log n"
  have "log_distinct log" using plain by (simp add: plain_log_def)
  from log_body_id(2) [OF this m] log_body_id(2) [OF this n] eq have "ex_id m = ex_id n" by (simp add: log_event_def)
  then show "m = n" using ex_id_inject [of m n] plain_log_small [OF plain] m n by simp
qed

lemma log_yaml_nth:
  assumes "plain_log log" and "n < length log"
  shows "log_yaml log (log_event log n) = [char_of n]"
proof -
  have "log_event log k \<noteq> log_event log n" if "k < n" for k
    using log_event_inject [of log k n] assms that by auto
  then have "takeWhile (\<lambda>k. log_event log k \<noteq> log_event log n) [0..<length log] = take n [0..<length log]"
    using assms by (intro takeWhile_eq_take_P_nth) auto
  then show ?thesis using assms(2) by (simp add: log_yaml_def)
qed

lemma log_serializes:
  assumes "short_log log" and "n < length log"
  shows "serialize_event_storage_yaml (log_crates log) (log_event log n) = Inr (log_bytes n)"
proof -
  have n: "n < 10" "n < 256" and plain: "plain_log log" using assms by (auto simp: short_log_def)
  have "(char_of n :: char) \<noteq> CHR 0x0A"
  proof
    assume "(char_of n :: char) = CHR 0x0A"
    then have "(of_char (char_of n :: char) :: nat) = of_char CHR 0x0A" by (rule arg_cong)
    then show False using n by simp
  qed
  moreover have "(of_char (char_of n :: char) :: u8) = of_nat n"
    using n by (simp add: word_unat_eq_iff unat_of_char unat_of_nat)
  ultimately show ?thesis
    by (simp add: serialize_event_storage_yaml_def log_crates_def log_yaml_nth [OF plain assms(2)] log_bytes_def
        bytes_of_string_def)
qed

lemma log_parses:
  assumes "short_log log" and "n < length log"
  shows "parse_event_storage_bytes (log_crates log) (log_bytes n) = Inr (log_event log n)"
proof -
  have n: "n < 10" "n < 256" using assms by (auto simp: short_log_def)
  then have small: "unat (of_nat n :: u8) = n" by (simp add: unat_of_nat)
  have "(of_nat n :: u8) < 128" using n small by (simp add: word_less_nat_alt)
  then have "utf8_error 0 (log_bytes n) = None"
    by (simp add: log_bytes_def utf8_sequence.simps utf8_width_def)
  moreover have "string_of_bytes (log_bytes n) = char_of n # string_of_bytes [10]"
    by (simp add: string_of_bytes_def log_bytes_def small)
  ultimately show ?thesis
    using n by (simp add: parse_event_storage_bytes_def log_crates_def)
qed

subsection \<open>Stores of prefixes of a log\<close>

abbreviation vault_name :: string where
  "vault_name \<equiv> ''store_Abcdef_1234''"

definition log_records :: "nat \<Rightarrow> nat \<Rightarrow> (event_id \<times> bytes) list" where
  "log_records m n = map (\<lambda>k. (ex_id k, log_bytes k)) [m..<n]"

definition log_store :: "nat \<Rightarrow> local_event_store" where
  "log_store n = \<lparr>ls_replica = \<lparr>rs_events = fmap_of_list (log_records 0 n), rs_outbox = fmempty\<rparr>\<rparr>"

definition log_prefix :: "log_entry list \<Rightarrow> nat \<Rightarrow> event_graph" where
  "log_prefix log n = log_graph log (rev [0..<n])"

lemma map_of_log_records:
  assumes "n \<le> 64"
  shows "map_of (log_records m n) i = Some bs \<longleftrightarrow> (\<exists>k. m \<le> k \<and> k < n \<and> i = ex_id k \<and> bs = log_bytes k)"
proof -
  have "distinct (map fst (log_records m n))"
    using assms ex_id_inject by (auto simp: log_records_def comp_def distinct_map inj_on_def)
  then show ?thesis by (auto simp: map_of_eq_Some_iff log_records_def image_iff)
qed

lemma prefix_order: "plain_log log \<Longrightarrow> n \<le> length log \<Longrightarrow> insertion_order log (rev [0..<n])"
  by (rule whole_insertion_order)

lemma prefix_lookup:
  assumes "plain_log log" and "n \<le> length log"
  shows "fmlookup (eg_events (log_prefix log n)) i = Some ev \<longleftrightarrow> (\<exists>k<n. i = ex_id k \<and> ev = log_event log k)"
  unfolding log_prefix_def
  using log_graph_lookup [OF prefix_order [OF assms] plain_log_small [OF assms(1)], of i ev] by auto

lemma prefix_events_list:
  assumes "short_log log" and "n \<le> length log"
  shows "sorted_list_of_fmap (eg_events (log_prefix log n)) = map (\<lambda>k. (ex_id k, log_event log k)) [0..<n]"
proof -
  have plain: "plain_log log" and n: "n \<le> 10" using assms by (auto simp: short_log_def)
  note lookup = prefix_lookup [OF plain assms(2)]
  have "fset (fmdom (eg_events (log_prefix log n))) = set (map ex_id [0..<n])"
    using lookup by (fastforce simp: fmlookup_dom_iff image_iff)
  moreover have "sorted (map ex_id [0..<n])"
    using ex_id_less n by (auto simp: sorted_iff_nth_mono le_less)
  moreover have "distinct (map ex_id [0..<n])"
    using n ex_id_inject by (auto simp: distinct_map inj_on_def)
  ultimately have "keys_of (eg_events (log_prefix log n)) = map ex_id [0..<n]"
    using sorted_list_of_set.idem_if_sorted_distinct [of "map ex_id [0..<n]"]
    by (simp only: sorted_list_of_fset.rep_eq)
  moreover have "the (fmlookup (eg_events (log_prefix log n)) (ex_id k)) = log_event log k" if "k < n" for k
    using lookup [of "ex_id k" "log_event log k"] that by auto
  ultimately show ?thesis by (simp add: sorted_list_of_fmap_def comp_def)
qed

lemma log_inserts:
  assumes "plain_log log"
  shows "insertion_order log ns \<Longrightarrow>
    fold_result (insert_next (log_crates log) vault_name) new_event_graph (map (log_event log) (rev ns))
      = Inr (log_graph log ns)"
proof (induction ns)
  case Nil
  then show ?case by (simp add: log_graph.simps)
next
  case (Cons n ns)
  then have order: "insertion_order log ns" by simp
  have "\<exists>status. insert_vault_event (log_crates log) (log_graph log ns) (log_request log n)
      = Inr (log_graph log (n # ns), status)"
    using log_step(2) [OF assms Cons.prems log_history [OF assms order, THEN conjunct2]] .
  then have "insert_next (log_crates log) vault_name (log_graph log ns) (log_event log n) = Inr (log_graph log (n # ns))"
    by (auto simp: insert_next_def log_request_def)
  then show ?case using Cons.IH [OF order] by (simp add: fold_result_append)
qed

lemma prefix_graph:
  assumes "short_log log" and "n \<le> length log"
  shows "graph_of (log_crates log) vault_name (eg_events (log_prefix log n)) = Inr (log_prefix log n)"
proof -
  have plain: "plain_log log" using assms by (simp add: short_log_def)
  from log_inserts [OF plain prefix_order [OF plain assms(2)]] show ?thesis
    unfolding graph_of_def prefix_events_list [OF assms] by (simp add: comp_def log_prefix_def)
qed

lemma prefix_free:
  "plain_log log \<Longrightarrow> n \<le> length log \<Longrightarrow> collision_free (log_crates log) (log_prefix log n)"
  unfolding log_prefix_def by (intro log_collision_free prefix_order)

lemma log_valid_record:
  assumes "short_log log" and "k < length log"
  shows "valid_record (log_crates log) vault_name (ex_id k) (log_bytes k)"
proof -
  have plain: "plain_log log" using assms by (simp add: short_log_def)
  then have entry: "plain_entry log k" "log_distinct log" using assms(2) by (auto simp: plain_log_def)
  note facts = plain_entry_facts [OF entry(1)]
  have "validate_envelope (log_crates log) (log_event log k) (StoreId vault_name) = Inr (ex_id k)"
    using facts(2,3,5) by (intro log_event_validates [OF entry(2) assms(2)]) (auto dest: plain_no_legacy)
  moreover have "store_id_parse vault_name = Inr (StoreId vault_name)" by code_simp
  ultimately show ?thesis
    using log_parses [OF assms] by (auto simp: valid_record_def parsed_iff valid_at_def)
qed

lemma log_store_stored: "n \<le> 64 \<Longrightarrow> stored (log_store n) i = Some bs \<longleftrightarrow> (\<exists>k<n. i = ex_id k \<and> bs = log_bytes k)"
  using map_of_log_records [of n 0 i bs] by (simp add: log_store_def fmlookup_of_list)

lemma log_store_valid: "short_log log \<Longrightarrow> n \<le> length log \<Longrightarrow> store_valid (log_crates log) vault_name (log_store n)"
  using log_valid_record [of log] log_store_stored [of n] by (auto simp: store_valid_def short_log_def)

lemma log_store_loads:
  assumes "short_log log" and "n \<le> length log"
  shows "load_graph (log_crates log) (log_store n) vault_name = Inr (log_prefix log n)"
proof -
  have plain: "plain_log log" and n: "n \<le> 64" using assms by (auto simp: short_log_def)
  have "fmlookup (eg_events (log_prefix log n)) i = Option.bind (stored (log_store n) i) (parsed (log_crates log))" for i
  proof (cases "stored (log_store n) i")
    case None
    then have "fmlookup (eg_events (log_prefix log n)) i \<noteq> Some ev" for ev
      using log_store_stored [OF n, of i] prefix_lookup [OF plain assms(2), of i ev] by auto
    then show ?thesis using None by (cases "fmlookup (eg_events (log_prefix log n)) i") auto
  next
    case (Some bs)
    then obtain k where k: "k < n" "i = ex_id k" "bs = log_bytes k" using log_store_stored [OF n] by blast
    then have "fmlookup (eg_events (log_prefix log n)) i = Some (log_event log k)"
      using prefix_lookup [OF plain assms(2)] by blast
    moreover have "parsed (log_crates log) bs = Some (log_event log k)"
      using log_parses [OF assms(1), of k] k assms(2) by (simp add: parsed_iff)
    ultimately show ?thesis using Some by simp
  qed
  from load_graph_of [OF log_store_valid [OF assms] this] show ?thesis using prefix_graph [OF assms] by simp
qed

subsection \<open>Appending and uniting along a log\<close>

lemma fold_result_succeeds: "(\<And>s x. x \<in> set xs \<Longrightarrow> \<exists>s'. f s x = Inr s') \<Longrightarrow> \<exists>s'. fold_result f s xs = Inr s'"
proof (induction xs arbitrary: s)
  case (Cons x xs)
  obtain s' where "f s x = Inr s'" using Cons.prems [of x s] by auto
  moreover obtain t where "fold_result f s' xs = Inr t" using Cons.IH [of s'] Cons.prems by auto
  ultimately show ?case by simp
qed simp

lemma prefix_known:
  assumes "short_log log" and "n \<le> m" and "m \<le> length log"
  shows "Option.bind (known_bytes (log_store n) (log_records n m) {||} i) (parsed (log_crates log))
    = fmlookup (eg_events (log_prefix log m)) i"
proof -
  have plain: "plain_log log" and m: "m \<le> 64" and n: "n \<le> 64" using assms by (auto simp: short_log_def)
  note lookup = prefix_lookup [OF plain assms(3), of i]
  have distinct: "ex_id k = ex_id l \<longleftrightarrow> k = l" if "k < m" "l < m" for k l using that m ex_id_inject [of k l] by simp
  have known: "known_bytes (log_store n) (log_records n m) {||} i = Some bs \<longleftrightarrow> (\<exists>k<m. i = ex_id k \<and> bs = log_bytes k)" for bs
  proof (cases "stored (log_store n) i")
    case None
    then have "n \<le> k" if "i = ex_id k" for k using that None log_store_stored [OF n, of i "log_bytes k"] by (cases "n \<le> k") auto
    then show ?thesis
      using None map_of_log_records [OF m, of n i bs] by (auto simp: known_bytes_def)
  next
    case (Some b)
    then obtain k where k: "k < n" "i = ex_id k" "b = log_bytes k" using log_store_stored [OF n] by blast
    then have "i = ex_id l \<longleftrightarrow> l = k" if "l < m" for l using that distinct [of k l] assms(2) by auto
    then have "(\<exists>l<m. i = ex_id l \<and> bs = log_bytes l) \<longleftrightarrow> bs = log_bytes k"
      using k(1) assms(2) by (metis order_less_le_trans)
    then show ?thesis using Some k(3) by (auto simp: known_bytes_def)
  qed
  show ?thesis
  proof (cases "known_bytes (log_store n) (log_records n m) {||} i")
    case None
    then have "fmlookup (eg_events (log_prefix log m)) i \<noteq> Some ev" for ev
      using known [of "log_bytes _"] lookup [of ev] by auto
    then show ?thesis using None by (cases "fmlookup (eg_events (log_prefix log m)) i") auto
  next
    case (Some bs)
    then obtain k where k: "k < m" "i = ex_id k" "bs = log_bytes k" using known by blast
    then have "fmlookup (eg_events (log_prefix log m)) i = Some (log_event log k)" using lookup by blast
    moreover have "parsed (log_crates log) bs = Some (log_event log k)"
      using log_parses [OF assms(1), of k] k assms(3) by (simp add: parsed_iff)
    ultimately show ?thesis using Some by simp
  qed
qed

lemma prefix_builds:
  assumes log: "short_log log" "n \<le> m" "m \<le> length log"
  shows "build_local_graph (log_crates log) (log_store n) (log_records n m) vault_name {||} = Inr (log_prefix log m)"
proof -
  let ?c = "log_crates log"
  have n: "n \<le> 64" using log by (auto simp: short_log_def)
  have ids: "set (local_event_ids (log_store n)) = ex_id ` {0..<n}"
    using log_store_stored [OF n]
    by (fastforce simp: local_event_ids_def event_ids_def fmlookup_dom_iff image_iff)
  have "\<exists>m'. collect_local ?c (log_store n) {||} ev i = Inr m'" if i: "i \<in> set (local_event_ids (log_store n))" for ev i
  proof -
    obtain k where k: "k < n" "i = ex_id k" using i unfolding ids by auto
    then have "stored (log_store n) i = Some (log_bytes k)" using log_store_stored [OF n] by blast
    then show ?thesis using log_parses [OF log(1), of k] k log by (simp add: collect_local_def local_get_bytes_iff)
  qed
  then obtain start where start: "fold_result (collect_local ?c (log_store n) {||}) fmempty (local_event_ids (log_store n)) = Inr start"
    using fold_result_succeeds by metis
  have "\<exists>m'. collect_remote ?c {||} ev r = Inr m'" if "r \<in> set (log_records n m)" for ev r
    using that log_parses [OF log(1)] log(3) by (auto simp: collect_remote_def log_records_def)
  then obtain events where events: "fold_result (collect_remote ?c {||}) start (log_records n m) = Inr events"
    using fold_result_succeeds by metis
  have "fmlookup events i = Option.bind (known_bytes (log_store n) (log_records n m) {||} i) (parsed ?c)" for i
  proof (cases "stored (log_store n) i")
    case None
    then have "i \<notin> set (local_event_ids (log_store n))"
      by (simp add: local_event_ids_def event_ids_def fmlookup_dom_iff)
    then have "fmlookup start i = None" using collect_local_all [OF start, of i] by simp
    then show ?thesis using collect_remote_all [OF events, of i] None by (simp add: known_bytes_def)
  next
    case (Some bs)
    then obtain k where k: "k < n" "bs = log_bytes k" using log_store_stored [OF n] by blast
    have "parsed ?c bs = Some (log_event log k)" using log_parses [OF log(1), of k] k log(2,3) by (simp add: parsed_iff)
    moreover have "i \<in> set (local_event_ids (log_store n))"
      using Some by (simp add: local_event_ids_def event_ids_def fmlookup_dom_iff)
    ultimately have "fmlookup start i = Some (log_event log k)" using collect_local_all [OF start, of i] Some by simp
    then show ?thesis
      using collect_remote_all [OF events, of i] Some \<open>parsed ?c bs = Some (log_event log k)\<close> by (simp add: known_bytes_def)
  qed
  then have "events = eg_events (log_prefix log m)" using prefix_known [OF log] by (intro fmap_ext) simp
  then show ?thesis
    using start events prefix_graph [OF log(1,3)] by (simp add: build_local_graph_def graph_of_def)
qed

lemma prefix_intact:
  assumes "short_log log" and "n \<le> length log"
  shows "intact (log_crates log) (log_prefix log n)"
  using assms log_history prefix_order unfolding log_prefix_def short_log_def by blast

lemma add_remote_new:
  assumes "distinct (map fst (acc @ records))" and "\<forall>(i, _)\<in>set records. stored s i = None"
  shows "foldl (add_remote s) (acc, fset_of_list (map fst acc)) records
    = (acc @ records, fset_of_list (map fst (acc @ records)))"
  using assms
proof (induction records arbitrary: acc)
  case (Cons r records)
  have "local_get_bytes s (fst r) = UnknownLocalEvent" using Cons.prems(2) by (auto simp: local_get_bytes_iff)
  moreover have "fst r |\<notin>| fset_of_list (map fst acc)" using Cons.prems(1) by (auto simp: fset_of_list_elem)
  ultimately have "add_remote s (acc, fset_of_list (map fst acc)) r = (acc @ [r], fset_of_list (map fst (acc @ [r])))"
    by (simp add: add_remote_def)
  then show ?case using Cons.IH [of "acc @ [r]"] Cons.prems by simp
qed simp

lemma log_union:
  assumes log: "short_log log" "n \<le> m" "m \<le> length log" and closed: "\<And>t. \<not> open_trigger (log_prefix log m) t"
  shows "\<exists>out. union_remote (log_crates log) (log_store n)
      \<lparr>ru_remote_events = log_records n m, ru_store_id = vault_name\<rparr> = Inr out
    \<and> uo_imported out = map ex_id [n..<m]"
proof -
  let ?c = "log_crates log" and ?s = "log_store n" and ?records = "log_records n m" and ?g = "log_prefix log m"
  have plain: "plain_log log" and n: "n \<le> 64" and m: "m \<le> 64" using log by (auto simp: short_log_def)
  obtain ids where ids: "incomplete_security_transition_events ?c ?g = Inr ids"
    "\<forall>i. i |\<in>| ids \<longleftrightarrow> i |\<in>| fmdom (eg_events ?g) \<and> (\<exists>t. open_trigger ?g t \<and> (i, t) \<in> (event_rel ?g)\<^sup>*)"
    using incomplete_transitions [OF prefix_free [OF plain log(3)]] .
  have none: "ids = {||}" using ids(2) closed by (auto intro: fset_eqI)
  have quarantined: "fmdom (quarantined ?g) = {||}"
    using prefix_intact [OF log(1,3)] by (simp add: intact_def quarantined_def)
  have parse: "parse_event_storage_bytes ?c bs = Inr (log_event log k)" if "k < m" "bs = log_bytes k" for k bs
    using that log_parses [OF log(1)] log(3) by simp
  have "check_remote_event ?c (StoreId vault_name) () r = Inr ()" if r: "r \<in> set ?records" for r
  proof -
    obtain k where k: "k < m" "r = (ex_id k, log_bytes k)" using r by (auto simp: log_records_def)
    obtain ev sid where ev: "parsed ?c (log_bytes k) = Some ev" "store_id_parse vault_name = Inr sid"
      "validate_envelope ?c ev sid = Inr (ex_id k)"
      using log_valid_record [OF log(1), of k] k(1) log(3) by (auto simp: valid_record_def valid_at_def)
    moreover have "store_id_parse vault_name = Inr (StoreId vault_name)" by code_simp
    ultimately show ?thesis
      using validate_envelope_id [OF ev(3)]
      by (simp add: check_remote_event_def k(2) parse_remote_event_storage_bytes_def parsed_iff event_id_of_def)
  qed
  then have check: "fold_result (check_remote_event ?c (StoreId vault_name)) () ?records = Inr ()"
    by (induction ?records) (simp_all add: fold_result_unit)
  have visible: "visibility_gated_remote_events ?c ?s ?records vault_name = Inr ?records"
  proof -
    have "traverse (\<lambda>(i, bs). and_then (parse_event_storage_bytes ?c bs) (\<lambda>ev. Inr (i, bs, ev))) ?records
        = Inr (map (\<lambda>k. (ex_id k, log_bytes k, log_event log k)) [n..<m])"
      using parse by (simp add: traverse_Inr_iff log_records_def list_all2_conv_all_nth)
    moreover have "map (\<lambda>(i, bs, _). (i, bs)) (filter (\<lambda>(i, _, _). i |\<notin>| {||})
        (map (\<lambda>k. (ex_id k, log_bytes k, log_event log k)) [n..<m])) = ?records"
      by (simp add: log_records_def comp_def)
    ultimately show ?thesis
      by (simp add: visibility_gated_remote_events_def prefix_builds [OF log] ids(1) none)
  qed
  have distinct: "distinct (map fst ?records)"
    using m ex_id_inject by (auto simp: log_records_def distinct_map inj_on_def)
  have new: "stored ?s i = None" if r: "(i, bs) \<in> set ?records" for i bs
  proof -
    obtain k where k: "n \<le> k" "k < m" "i = ex_id k" using r by (auto simp: log_records_def)
    then have "i \<noteq> ex_id l" if "l < n" for l using that ex_id_inject [of k l] m by simp
    then have "stored ?s i \<noteq> Some b" for b using log_store_stored [OF n, of i b] by blast
    then show ?thesis by (cases "stored ?s i") auto
  qed
  have additions: "fst (foldl (add_remote ?s) ([], {||}) ?records) = ?records"
    using add_remote_new [of "[]" ?records ?s] distinct new by fastforce
  have "prepare_union_parts ?c ?s \<lparr>ru_remote_events = ?records, ru_store_id = vault_name\<rparr>
      = Inr (?records, {||}, map event_id_str (event_heads ?g))"
  proof -
    have "store_id_parse vault_name = Inr (StoreId vault_name)" by code_simp
    then show ?thesis
      by (simp add: prepare_union_parts_def Let_def check visible additions prefix_builds [OF log] ids(1) none quarantined
          filter_id_conv split_beta)
  qed
  then have "union_remote ?c ?s \<lparr>ru_remote_events = ?records, ru_store_id = vault_name\<rparr>
      = Inr (commit_union \<lparr>pu_local = ?s, pu_additions = filter (\<lambda>(i, _). i |\<notin>| {||}) ?records, pu_excluded = {||},
          pu_heads = map event_id_str (event_heads ?g)\<rparr>)"
    by (simp add: union_remote_def prepare_union_def)
  moreover have "uo_imported (commit_union \<lparr>pu_local = ?s, pu_additions = filter (\<lambda>(i, _). i |\<notin>| {||}) ?records,
      pu_excluded = {||}, pu_heads = map event_id_str (event_heads ?g)\<rparr>) = map ex_id [n..<m]"
    using committed_bytes(2) [of ?records ?s "{||}", OF _ distinct refl] new by (simp add: log_records_def comp_def)
  ultimately show ?thesis by blast
qed

subsection \<open>A revocation and its checkpoint\<close>

lemma ex_revocation_short: "short_log ex_revocation_log"
  using ex_revocation_linear by (simp add: short_log_def linear_log_def ex_revocation_log_def)

lemma ex_revocation_closed: "\<not> open_trigger (log_prefix ex_revocation_log 4) t"
proof
  let ?log = ex_revocation_log
  let ?g = "log_prefix ?log 4"
  have plain: "plain_log ?log" using ex_revocation_short by (simp add: short_log_def)
  have "length ?log = 4" by (simp add: ex_revocation_log_def)
  then have whole: "?g = whole ?log" by (simp add: log_prefix_def)
  assume trigger: "open_trigger ?g t"
  then obtain ev where ev: "fmlookup (eg_events ?g) t = Some ev" "starts_security_epoch ev" by (auto simp: open_trigger_def)
  then obtain k where k: "k < 4" "t = ex_id k" "ev = log_event ?log k"
    using prefix_lookup [OF plain, of 4 t ev] by (auto simp: ex_revocation_log_def)
  have "k = 2"
    using ev(2) k by (auto simp: starts_security_epoch_def log_event_def ex_revocation_log_def less_Suc_eq numeral_eq_Suc)
  moreover have "log_event ?log 3 \<in> set (applicable_events ?g)"
    unfolding whole whole_applicable_events [OF plain] by (auto simp: ex_revocation_log_def)
  moreover have "commit_parent (log_event ?log 3) = Some (ex_id 2)"
    by (simp add: commit_parent_def committed_epoch_parent_def log_event_def ex_revocation_log_def)
  ultimately show False using trigger k(2) by (auto simp: open_trigger_def)
qed

theorem union_remote_consistent_witness:
  "\<exists>out h. union_remote (log_crates ex_revocation_log) (log_store 2)
      \<lparr>ru_remote_events = log_records 2 4, ru_store_id = vault_name\<rparr> = Inr out
    \<and> uo_imported out = [ex_id 2, ex_id 3]
    \<and> load_graph (log_crates ex_revocation_log) (uo_store out) vault_name = Inr h
    \<and> uo_heads out = map event_id_str (event_heads h)"
proof -
  have len: "length ex_revocation_log = 4" by (simp add: ex_revocation_log_def)
  obtain out where out: "union_remote (log_crates ex_revocation_log) (log_store 2)
      \<lparr>ru_remote_events = log_records 2 4, ru_store_id = vault_name\<rparr> = Inr out" "uo_imported out = map ex_id [2..<4]"
    using log_union [OF ex_revocation_short, of 2 4] ex_revocation_closed len by auto
  have "store_valid (log_crates ex_revocation_log) vault_name (log_store 2)"
    using log_store_valid [OF ex_revocation_short, of 2] len by simp
  from union_remote_consistent [OF this out(1)] out show ?thesis by (auto simp: upt_conv_Cons)
qed

theorem union_hides_incomplete_transitions_witness:
  "\<exists>out h. union_remote (log_crates ex_revocation_log) (log_store 2)
      \<lparr>ru_remote_events = log_records 2 4, ru_store_id = vault_name\<rparr> = Inr out
    \<and> load_graph (log_crates ex_revocation_log) (uo_store out) vault_name = Inr h
    \<and> incomplete_security_transition_events (log_crates ex_revocation_log) h = Inr {||}"
proof -
  let ?c = "log_crates ex_revocation_log"
  have len: "length ex_revocation_log = 4" by (simp add: ex_revocation_log_def)
  obtain out where out: "union_remote ?c (log_store 2)
      \<lparr>ru_remote_events = log_records 2 4, ru_store_id = vault_name\<rparr> = Inr out"
    using log_union [OF ex_revocation_short, of 2 4] ex_revocation_closed len by auto
  have valid: "store_valid ?c vault_name (log_store 2)"
    using log_store_valid [OF ex_revocation_short, of 2] len by simp
  have current: "SCHEMA_V3 \<le> schema_version (body ev)"
    if known: "stored (log_store 2) i = Some bs \<or> (i, bs) \<in> set (log_records 2 4)"
      and parse: "parse_event_storage_bytes ?c bs = Inr ev" for i bs ev
  proof -
    have "\<exists>k<4. bs = log_bytes k"
    proof (cases "stored (log_store 2) i = Some bs")
      case True
      then obtain k where "k < 2" "bs = log_bytes k" using log_store_stored [of 2 i bs] by auto
      then show ?thesis by (intro exI [of _ k]) simp
    next
      case False
      then obtain k where "k \<in> {2..<4}" "bs = log_bytes k" using known unfolding log_records_def set_map set_upt by blast
      then show ?thesis by (intro exI [of _ k]) simp
    qed
    then obtain k where "k < 4" "bs = log_bytes k" by blast
    then have "ev = log_event ex_revocation_log k"
      using parse log_parses [OF ex_revocation_short, of k] len by simp
    then show ?thesis by (simp add: log_event_def)
  qed
  have "\<forall>i bs ev. (stored (log_store 2) i = Some bs \<or> (i, bs) \<in> set (log_records 2 4))
      \<and> parse_event_storage_bytes ?c bs = Inr ev \<longrightarrow> SCHEMA_V3 \<le> schema_version (body ev)"
    using current by blast
  from union_hides_incomplete_transitions [OF valid out this] show ?thesis using out by blast
qed

theorem checkpoint_published_first_witness:
  "\<exists>ordered xs ys zs. order_writes (log_crates ex_revocation_log) (log_records 2 4) = Inr ordered
    \<and> ordered = xs @ (ex_id 3, log_bytes 3) # ys @ (ex_id 2, log_bytes 2) # zs"
proof -
  let ?c = "log_crates ex_revocation_log"
  have records: "log_records 2 4 = [(ex_id 2, log_bytes 2), (ex_id 3, log_bytes 3)]"
    by (simp add: log_records_def upt_conv_Cons)
  have parse: "parse_event_storage_bytes ?c (log_bytes k) = Inr (log_event ex_revocation_log k)" if "k < 4" for k
    using log_parses [OF ex_revocation_short, of k] that by (simp add: ex_revocation_log_def)
  have "ex_id 2 \<noteq> ex_id 3" by (simp add: ex_id_inject)
  then have distinct: "distinct (map fst (log_records 2 4))" by (simp add: records)
  obtain ordered where ordered: "order_writes ?c (log_records 2 4) = Inr ordered"
    by (simp add: order_writes_def records note_priority_def parse)
  have "starts_security_epoch (log_event ex_revocation_log 2)"
    "committed_epoch_parent (log_event ex_revocation_log 2) = NotCheckpoint"
    "committed_epoch_parent (log_event ex_revocation_log 3) = Commits (ex_id 2)"
    by (simp_all add: starts_security_epoch_def committed_epoch_parent_def log_event_def ex_revocation_log_def)
  then show ?thesis
    using checkpoint_published_first [OF ordered distinct, of "ex_id 2" "log_bytes 2" "log_event ex_revocation_log 2"
        "ex_id 3" "log_bytes 3" "log_event ex_revocation_log 3"] ordered parse
    by (auto simp: records)
qed

lemma log_step_status:
  assumes plain: "plain_log log" and order: "insertion_order log (n # ns)"
    and ins: "insert_vault_event (log_crates log) (log_graph log ns) (log_request log n) = Inr (log_graph log (n # ns), status)"
  shows "joins_log status"
proof -
  have order': "insertion_order log ns" using order by simp
  have intact: "intact (log_crates log) (log_graph log ns)" "intact (log_crates log) (log_graph log (n # ns))"
    using log_history [OF plain order'] log_history [OF plain order] by auto
  have admitted: "event_admission (log_crates log) (log_graph log ns) (log_request log n) = Inr (AdmitInsert (ex_id n))"
    by (rule log_step(1) [OF plain order intact(1)])
  let ?ins = "insert_event (eg_causal (log_graph log ns)) \<lparr>ins_id = ex_id n, ins_parents = parents (body (log_event log n))\<rparr>"
  have new: "fmlookup (eg_events (log_graph log ns)) (ex_id n) = None"
    using admitted by (auto simp: event_admission_def Let_def and_then_Inr_iff log_request_def split: option.splits if_splits)
  then have "fmlookup (cg_parents (eg_causal (log_graph log ns))) (ex_id n) = None"
    using intact(1) by (simp add: intact_def event_graph_wf_def)
  moreover have "cg_quarantined (ci_graph ?ins) = fmempty"
    using intact(2) by (simp add: intact_def log_graph.simps extended_def)
  ultimately have "ci_status ?ins = CausalApplied \<or> (\<exists>missing. ci_status ?ins = CausalPending missing)"
    by (auto simp: insert_event_def Let_def split: if_splits option.splits)
  moreover have "status = event_status (log_graph log (n # ns)) (ex_id n) (ci_status ?ins)"
    using ins admitted by (auto simp: insert_vault_event_def Let_def and_then_Inr_iff log_request_def)
  moreover have "quarantined (log_graph log (n # ns)) = fmempty" using intact(2) by (simp add: intact_def quarantined_def)
  ultimately show ?thesis by (auto simp: event_status_def)
qed

lemma log_store_new:
  assumes "n < 64"
  shows "stored (log_store n) (ex_id n) = None"
proof -
  have "ex_id n \<noteq> ex_id l" if "l < n" for l using that ex_id_inject [of n l] assms by simp
  then have "stored (log_store n) (ex_id n) \<noteq> Some bs" for bs
    using log_store_stored [of n "ex_id n" bs] assms by auto
  then show ?thesis by (cases "stored (log_store n) (ex_id n)") auto
qed

lemma log_store_put:
  assumes "n < 64"
  shows "local_put_event (log_store n) \<lparr>lw_event_id = ex_id n, lw_bytes = log_bytes n\<rparr> = log_store (Suc n)"
proof -
  have new: "map_of (log_records 0 n) (ex_id n) = None"
    using log_store_new [OF assms] by (simp add: log_store_def fmlookup_of_list)
  have "log_records 0 (Suc n) = log_records 0 n @ [(ex_id n, log_bytes n)]" by (simp add: log_records_def)
  then have "fmap_of_list (log_records 0 (Suc n)) = fmupd (ex_id n) (log_bytes n) (fmap_of_list (log_records 0 n))"
    using new by (intro fmap_ext) (simp only: fmlookup_of_list map_of_append map_add_def fmupd_lookup map_of.simps, auto split: option.split)
  then show ?thesis
    using new by (simp add: local_put_event_def put_bytes_def put_event_eq log_store_def fmlookup_of_list)
qed

lemma log_append:
  assumes log: "short_log log" and n: "n < length log"
  obtains out where "append_event (log_crates log) (log_store n) \<lparr>la_event = log_event log n, la_store_id = vault_name\<rparr> = Inr out"
    and "joins_log (ao_status out)" and "ao_event_id out = ex_id n"
    and "ao_store out = local_put_event (log_store n) \<lparr>lw_event_id = ex_id n, lw_bytes = log_bytes n\<rparr>"
proof -
  let ?c = "log_crates log"
  have plain: "plain_log log" and small: "n < 64" using log n by (auto simp: short_log_def)
  have order: "insertion_order log (n # rev [0..<n])" using prefix_order [OF plain, of "Suc n"] n by simp
  obtain status where ins: "insert_vault_event ?c (log_prefix log n) (log_request log n) = Inr (log_graph log (n # rev [0..<n]), status)"
    using log_step(2) [OF plain order] prefix_intact [OF log, of n] n unfolding log_prefix_def by auto
  have status: "joins_log status" using log_step_status [OF plain order ins [unfolded log_prefix_def]] .
  have new: "\<not> contains_event (ls_replica (log_store n)) (ex_id n)"
    using log_store_new [OF small] by (simp add: contains_event_def fmlookup_dom_iff)
  obtain sid where sid: "store_id_parse vault_name = Inr sid" "validate_envelope ?c (log_event log n) sid = Inr (ex_id n)"
    using log_valid_record [OF log n] log_parses [OF log n] by (auto simp: valid_record_def valid_at_def parsed_iff)
  have "prepare_append ?c (log_store n) \<lparr>la_event = log_event log n, la_store_id = vault_name\<rparr>
      = Inr (ex_id n, log_bytes n, status)"
    using sid new log_serializes [OF log n] log_store_loads [OF log, of n] n ins
    by (simp add: prepare_append_def log_request_def)
  then show ?thesis using that status by (auto simp: append_event_def)
qed

lemma log_yaml_law:
  "short_log log \<Longrightarrow> n < length log \<Longrightarrow> \<forall>bs. serialize_event_storage_yaml (log_crates log) (log_event log n) = Inr bs
    \<longrightarrow> parse_event_storage_bytes (log_crates log) bs = Inr (log_event log n)"
  by (simp add: log_serializes log_parses)

theorem append_event_exact_witness:
  "\<exists>out. append_event (log_crates ex_revocation_log) (log_store 1)
      \<lparr>la_event = log_event ex_revocation_log 1, la_store_id = vault_name\<rparr> = Inr out
    \<and> store_valid (log_crates ex_revocation_log) vault_name (ao_store out)
    \<and> stored (ao_store out) (ex_id 1) \<noteq> None"
proof -
  let ?c = "log_crates ex_revocation_log" and ?ev = "log_event ex_revocation_log 1"
  have len: "1 < length ex_revocation_log" by (simp add: ex_revocation_log_def)
  have valid: "store_valid ?c vault_name (log_store 1)" using log_store_valid [OF ex_revocation_short, of 1] len by simp
  note yaml = log_yaml_law [OF ex_revocation_short len]
  obtain out where out: "append_event ?c (log_store 1) \<lparr>la_event = ?ev, la_store_id = vault_name\<rparr> = Inr out"
    "joins_log (ao_status out)" "ao_event_id out = ex_id 1"
    by (rule log_append [OF ex_revocation_short len])
  from append_event_exact [OF valid yaml] out show ?thesis by auto
qed


lemma log_record_checks:
  assumes "short_log log" and "k < length log"
  shows "checked_remote_parse (log_crates log) (ex_id k) (log_bytes k) = Inr \<lparr>cr_event = log_event log k\<rparr>"
proof -
  obtain sid where valid: "validate_envelope (log_crates log) (log_event log k) sid = Inr (ex_id k)"
    using log_valid_record [OF assms] log_parses [OF assms] by (auto simp: valid_record_def valid_at_def parsed_iff)
  then have "schema_is_supported (schema_version (body (log_event log k)))"
    and "validate_actor_signature (log_crates log) (log_event log k) = Inr ()"
    by (auto simp: validate_envelope_def and_then_Inr_iff split: if_splits)
  then show ?thesis
    using validate_envelope_id [OF valid] log_parses [OF assms]
    by (simp add: checked_remote_parse_def parse_remote_event_storage_bytes_def event_id_of_def)
qed

theorem classify_remote_exact_witness:
  "classify_remote (log_crates ex_revocation_log) (log_records 0 4) EmptyIdentity = Inr (RemoteSameStore vault_name)"
proof -
  let ?c = "log_crates ex_revocation_log" and ?records = "log_records 0 4"
  have len: "length ex_revocation_log = 4" by (simp add: ex_revocation_log_def)
  have check: "checked_remote_parse ?c i bs = Inr \<lparr>cr_event = log_event ex_revocation_log k\<rparr>"
    if "i = ex_id k" "bs = log_bytes k" "k < 4" for i bs k
    using that log_record_checks [OF ex_revocation_short, of k] len by simp
  have all: "\<forall>(i, bs)\<in>set ?records. \<exists>e. checked_remote_parse ?c i bs = Inr e" using check by (auto simp: log_records_def)
  have "x \<in> remote_stores ?c ?records \<longleftrightarrow> x = vault_name" for x
  proof
    assume "x \<in> remote_stores ?c ?records"
    then obtain i bs e where e: "(i, bs) \<in> set ?records" "checked_remote_parse ?c i bs = Inr e"
      "x = store_id_str (checked_store_id e)"
      unfolding remote_stores_def by blast
    then obtain k where "k < 4" "i = ex_id k" "bs = log_bytes k" by (auto simp: log_records_def)
    then have "e = \<lparr>cr_event = log_event ex_revocation_log k\<rparr>" using check [of i k bs] e(2) by simp
    then show "x = vault_name" by (simp add: e(3) checked_store_id_def log_event_def)
  next
    assume x: "x = vault_name"
    have "(ex_id 0, log_bytes 0) \<in> set ?records" by (simp add: log_records_def)
    moreover have "x = store_id_str (checked_store_id \<lparr>cr_event = log_event ex_revocation_log 0\<rparr>)"
      by (simp add: x checked_store_id_def log_event_def)
    moreover have "checked_remote_parse ?c (ex_id 0) (log_bytes 0) = Inr \<lparr>cr_event = log_event ex_revocation_log 0\<rparr>"
      by (rule check) simp_all
    ultimately show "x \<in> remote_stores ?c ?records" unfolding remote_stores_def by blast
  qed
  then have stores: "remote_stores ?c ?records = {vault_name}" by blast
  obtain result where result: "classify_remote ?c ?records EmptyIdentity = Inr result"
    using classify_remote_exact [where c = ?c and events = ?records and active = EmptyIdentity] all
    by (cases "classify_remote ?c ?records EmptyIdentity") fastforce+
  have "result = RemoteSameStore vault_name"
  proof (cases result)
    case (RemoteMultipleStores sts)
    then have "set sts = {vault_name}" "distinct sts" "1 < length sts"
      using classify_remote_exact [where c = ?c and events = ?records and active = EmptyIdentity] result stores by auto
    then show ?thesis by (metis One_nat_def card.empty card.insert distinct_card empty_iff finite.emptyI less_irrefl)
  qed (use classify_remote_exact [where c = ?c and events = ?records and active = EmptyIdentity] result stores in
      \<open>auto simp: trimmed_identity_def log_records_def\<close>)
  then show ?thesis using result by simp
qed

end
