(* ===== verification/Location.thy ===== *)
theory Location
  imports EnvelopeLaws
begin

text \<open>
  Where event logs sit at a provider (nook-event-log/src/location.rs), with the identity ids of
  nook-auth2/src/auth/identity.rs that name the folders: paths of event files, CloudKit tags, and
  the placement of a vault among the namespaces found for it.
\<close>

subsection \<open>Identity ids\<close>

datatype identity_id = IdentityId (identity_id_str: string)

abbreviation (input) IDENTITY_ID_PREFIX :: string where "IDENTITY_ID_PREFIX \<equiv> ''idn_''"

definition identity_id_parse :: "string \<Rightarrow> identity_id validation" where
  "identity_id_parse raw =
     (let trimmed = trim raw in
      case strip_prefix IDENTITY_ID_PREFIX trimmed of
        None \<Rightarrow> Inl StoreIdInvalid
      | Some suffix \<Rightarrow>
          if \<not> compact_token_is_valid suffix then Inl StoreIdInvalid else Inr (IdentityId trimmed))"

instantiation identity_id :: linorder
begin

definition less_eq_identity_id :: "identity_id \<Rightarrow> identity_id \<Rightarrow> bool" where
  "less_eq_identity_id a b \<longleftrightarrow> identity_id_str a \<le> identity_id_str b"

definition less_identity_id :: "identity_id \<Rightarrow> identity_id \<Rightarrow> bool" where
  "less_identity_id a b \<longleftrightarrow> identity_id_str a < identity_id_str b"

instance
  by standard (auto simp: less_eq_identity_id_def less_identity_id_def identity_id.expand)

end

subsection \<open>Namespaces\<close>

datatype event_log_location = VaultLocation store_id | IdentityLocation identity_id

datatype namespace_kind = VaultKind | IdentityKind

fun location_kind :: "event_log_location \<Rightarrow> namespace_kind" where
  "location_kind (VaultLocation _) = VaultKind"
| "location_kind (IdentityLocation _) = IdentityKind"

datatype placed_namespace =
  PlacedNamespace (pn_identity: identity_id) (pn_location: event_log_location)

definition identity_log :: "identity_id \<Rightarrow> placed_namespace" where
  "identity_log identity = PlacedNamespace identity (IdentityLocation identity)"

definition vault_namespace :: "identity_id \<Rightarrow> store_id \<Rightarrow> placed_namespace" where
  "vault_namespace identity st = PlacedNamespace identity (VaultLocation st)"

text \<open>The derived orders: variants in the order of the declaration, then fields from the left.\<close>

instantiation event_log_location :: linorder
begin

fun less_eq_event_log_location :: "event_log_location \<Rightarrow> event_log_location \<Rightarrow> bool" where
  "less_eq_event_log_location (VaultLocation a) (VaultLocation b) \<longleftrightarrow> a \<le> b"
| "less_eq_event_log_location (VaultLocation _) (IdentityLocation _) \<longleftrightarrow> True"
| "less_eq_event_log_location (IdentityLocation _) (VaultLocation _) \<longleftrightarrow> False"
| "less_eq_event_log_location (IdentityLocation a) (IdentityLocation b) \<longleftrightarrow> a \<le> b"

definition less_event_log_location :: "event_log_location \<Rightarrow> event_log_location \<Rightarrow> bool" where
  "less_event_log_location a b \<longleftrightarrow> a \<le> b \<and> \<not> b \<le> a"

instance
proof
  fix a b c :: event_log_location
  show "a < b \<longleftrightarrow> a \<le> b \<and> \<not> b \<le> a" by (rule less_event_log_location_def)
  show "a \<le> a" by (cases a) auto
  show "a \<le> b \<Longrightarrow> b \<le> c \<Longrightarrow> a \<le> c" by (cases a; cases b; cases c) auto
  show "a \<le> b \<Longrightarrow> b \<le> a \<Longrightarrow> a = b" by (cases a; cases b) auto
  show "a \<le> b \<or> b \<le> a" by (cases a; cases b) auto
qed

end

instantiation placed_namespace :: linorder
begin

definition less_eq_placed_namespace :: "placed_namespace \<Rightarrow> placed_namespace \<Rightarrow> bool" where
  "less_eq_placed_namespace a b \<longleftrightarrow> pn_identity a < pn_identity b
     \<or> pn_identity a = pn_identity b \<and> pn_location a \<le> pn_location b"

definition less_placed_namespace :: "placed_namespace \<Rightarrow> placed_namespace \<Rightarrow> bool" where
  "less_placed_namespace a b \<longleftrightarrow> a \<le> b \<and> \<not> b \<le> a"

instance
  by standard (auto simp: less_eq_placed_namespace_def less_placed_namespace_def placed_namespace.expand)

end

subsection \<open>Paths\<close>

abbreviation (input) PROVIDER_ROOT_DIR :: string where "PROVIDER_ROOT_DIR \<equiv> ''meta-secret-nook''"
abbreviation (input) IDENTITY_LOG_DIR :: string where "IDENTITY_LOG_DIR \<equiv> ''log''"
abbreviation (input) EVENTS_DIR :: string where "EVENTS_DIR \<equiv> ''events''"

definition identity_dir :: "placed_namespace \<Rightarrow> string" where
  "identity_dir pn = PROVIDER_ROOT_DIR @ ''/'' @ identity_id_str (pn_identity pn)"

definition folder_name :: "placed_namespace \<Rightarrow> string" where
  "folder_name pn = (case pn_location pn of VaultLocation st \<Rightarrow> store_id_str st | IdentityLocation _ \<Rightarrow> IDENTITY_LOG_DIR)"

definition namespace_root :: "placed_namespace \<Rightarrow> string" where
  "namespace_root pn = identity_dir pn @ ''/'' @ folder_name pn @ ''/'' @ EVENTS_DIR"

definition event_path :: "placed_namespace \<Rightarrow> event_id \<Rightarrow> string" where
  "event_path pn i = namespace_root pn @ ''/'' @ encoded_digest i @ ''.yaml''"

text \<open>str::strip_suffix, str::split and str::split_once at one ASCII character.\<close>

definition strip_suffix :: "string \<Rightarrow> string \<Rightarrow> string option" where
  "strip_suffix suffix s = map_option rev (strip_prefix (rev suffix) (rev s))"

fun split_on :: "char \<Rightarrow> string \<Rightarrow> string list" where
  "split_on c [] = [[]]"
| "split_on c (x # xs) =
     (let parts = split_on c xs in if x = c then [] # parts else (x # hd parts) # tl parts)"

fun split_once :: "char \<Rightarrow> string \<Rightarrow> (string \<times> string) option" where
  "split_once c [] = None"
| "split_once c (x # xs) =
     (if x = c then Some ([], xs) else map_option (\<lambda>(before, rest). (x # before, rest)) (split_once c xs))"

definition event_id_from_path :: "crates \<Rightarrow> placed_namespace \<Rightarrow> string \<Rightarrow> event_id option" where
  "event_id_from_path c pn path =
     Option.bind (strip_prefix (namespace_root pn) path) (\<lambda>rest.
     Option.bind (strip_prefix ''/'' rest) (\<lambda>file.
     Option.bind (strip_suffix ''.yaml'' file) (\<lambda>digest.
       if CHR ''/'' \<in> set digest then None
       else case event_id_parse c (''sha256u:'' @ digest) of Inl _ \<Rightarrow> None | Inr i \<Rightarrow> Some i)))"

definition exact_identity :: "string \<Rightarrow> identity_id option" where
  "exact_identity raw =
     (case identity_id_parse raw of Inr i \<Rightarrow> if identity_id_str i = raw then Some i else None | Inl _ \<Rightarrow> None)"

definition exact_store :: "string \<Rightarrow> store_id option" where
  "exact_store raw =
     (case store_id_parse raw of Inr i \<Rightarrow> if store_id_str i = raw then Some i else None | Inl _ \<Rightarrow> None)"

definition from_folders :: "string \<Rightarrow> string \<Rightarrow> placed_namespace option" where
  "from_folders identity folder =
     Option.bind (exact_identity identity) (\<lambda>i.
       if folder = IDENTITY_LOG_DIR then Some (identity_log i)
       else map_option (vault_namespace i) (exact_store folder))"

definition from_event_path :: "string \<Rightarrow> placed_namespace option" where
  "from_event_path path =
     Option.bind (strip_prefix PROVIDER_ROOT_DIR path) (\<lambda>below.
     Option.bind (strip_prefix ''/'' below) (\<lambda>rest.
       case split_on (CHR ''/'') rest of
         [identity, folder, events, file] \<Rightarrow>
           if events \<noteq> EVENTS_DIR then None else if file = [] then None else from_folders identity folder
       | _ \<Rightarrow> None))"

subsection \<open>CloudKit tags\<close>

abbreviation (input) VAULT_TAG_PREFIX :: string where "VAULT_TAG_PREFIX \<equiv> ''vault:''"
abbreviation (input) IDENTITY_TAG_PREFIX :: string where "IDENTITY_TAG_PREFIX \<equiv> ''identity:''"

definition cloudkit_tag :: "placed_namespace \<Rightarrow> string" where
  "cloudkit_tag pn =
     (case pn_location pn of
        VaultLocation st \<Rightarrow> VAULT_TAG_PREFIX @ store_id_str st @ '':'' @ identity_id_str (pn_identity pn)
      | IdentityLocation identity \<Rightarrow> IDENTITY_TAG_PREFIX @ identity_id_str identity)"

definition from_cloudkit_tag :: "string \<Rightarrow> placed_namespace option" where
  "from_cloudkit_tag tag =
     (case strip_prefix IDENTITY_TAG_PREFIX tag of
        Some identity \<Rightarrow> map_option identity_log (exact_identity identity)
      | None \<Rightarrow>
          Option.bind (strip_prefix VAULT_TAG_PREFIX tag) (\<lambda>rest.
          Option.bind (split_once (CHR '':'') rest) (\<lambda>(st, identity).
          Option.bind (exact_identity identity) (\<lambda>i.
            map_option (vault_namespace i) (exact_store st)))))"

definition cloudkit_vault_prefix :: "store_id \<Rightarrow> string" where
  "cloudkit_vault_prefix st = VAULT_TAG_PREFIX @ store_id_str st @ '':''"

fun cloudkit_kind_prefix :: "namespace_kind \<Rightarrow> string" where
  "cloudkit_kind_prefix VaultKind = VAULT_TAG_PREFIX"
| "cloudkit_kind_prefix IdentityKind = IDENTITY_TAG_PREFIX"

subsection \<open>Placement\<close>

datatype vault_placement = Filed placed_namespace | Unfiled

definition placement_of :: "store_id \<Rightarrow> placed_namespace list \<Rightarrow> vault_placement event_result" where
  "placement_of st found =
     (let filed = sort_dedup (filter (\<lambda>placed. pn_location placed = VaultLocation st) found) in
      case filed of
        [] \<Rightarrow> Inr Unfiled
      | [placed] \<Rightarrow> Inr (Filed placed)
      | _ \<Rightarrow> Inl (VaultFiledTwice (store_id_str st)))"

fun for_writer :: "vault_placement \<Rightarrow> store_id \<Rightarrow> identity_id \<Rightarrow> placed_namespace" where
  "for_writer (Filed placed) st writer = placed"
| "for_writer Unfiled st writer = vault_namespace writer st"

subsection \<open>Well-formed namespaces\<close>

text \<open>The namespaces that \<open>identity_log\<close> and \<open>vault_namespace\<close> make of parsed ids.\<close>

definition namespace_wf :: "placed_namespace \<Rightarrow> bool" where
  "namespace_wf pn \<longleftrightarrow>
     (\<exists>raw. identity_id_parse raw = Inr (pn_identity pn))
   \<and> (case pn_location pn of
        VaultLocation st \<Rightarrow> \<exists>raw. store_id_parse raw = Inr st
      | IdentityLocation identity \<Rightarrow> identity = pn_identity pn)"

text \<open>The URL-safe alphabet of base64 has no slash.\<close>

definition b64_url_safe :: "crates \<Rightarrow> bool" where
  "b64_url_safe c \<longleftrightarrow> (\<forall>bs. length bs = 32 \<longrightarrow> CHR ''/'' \<notin> set (b64_encode c bs))"

lemma identity_id_parse_Inr:
  "identity_id_parse raw = Inr i \<Longrightarrow> \<exists>t. compact_token_is_valid t \<and> i = IdentityId (''idn_'' @ t)"
  unfolding identity_id_parse_def Let_def by (auto simp only: strip_prefix_Some split: option.splits if_splits)

lemma identity_id_parse_valid:
  assumes "compact_token_is_valid t"
  shows "identity_id_parse (''idn_'' @ t) = Inr (IdentityId (''idn_'' @ t))"
proof -
  have plain: "list_all plain_char ''idn_''" by (simp add: plain_char_def)
  show ?thesis
    using assms unfolding identity_id_parse_def Let_def trim_prefixed [OF plain token_plain [OF assms]]
      strip_prefix_append option.case by (simp only: simp_thms if_False)
qed

lemma token_separators:
  "compact_token_is_valid t \<Longrightarrow> ch = CHR ''/'' \<or> ch = CHR '':'' \<Longrightarrow> ch \<notin> set t"
  by (auto simp: compact_token_is_valid_def list_all_iff is_ascii_alphanumeric_def is_ascii_digit_def)

lemma exact_identity_valid:
  "compact_token_is_valid t \<Longrightarrow> exact_identity (''idn_'' @ t) = Some (IdentityId (''idn_'' @ t))"
  unfolding exact_identity_def identity_id_parse_valid sum.case identity_id.sel by (simp only: simp_thms if_True)

lemma exact_store_valid:
  "compact_token_is_valid t \<Longrightarrow> exact_store (''store_'' @ t) = Some (StoreId (''store_'' @ t))"
  unfolding exact_store_def store_id_parse_valid sum.case store_id.sel by (simp only: simp_thms if_True)

lemma namespace_wf_cases:
  assumes "namespace_wf pn"
  obtains (vault) t s where "compact_token_is_valid t" "compact_token_is_valid s"
      "pn = vault_namespace (IdentityId (''idn_'' @ t)) (StoreId (''store_'' @ s))"
    | (log) t where "compact_token_is_valid t" "pn = identity_log (IdentityId (''idn_'' @ t))"
proof (cases pn)
  case (PlacedNamespace i l)
  then obtain t where t: "compact_token_is_valid t" "i = IdentityId (''idn_'' @ t)"
    using assms identity_id_parse_Inr by (auto simp: namespace_wf_def)
  show ?thesis
  proof (cases l)
    case (VaultLocation st)
    then obtain s where "compact_token_is_valid s" "st = StoreId (''store_'' @ s)"
      using assms PlacedNamespace store_id_parse_Inr by (auto simp: namespace_wf_def)
    then show ?thesis using vault t PlacedNamespace VaultLocation by (simp add: vault_namespace_def)
  next
    case (IdentityLocation j)
    then show ?thesis using log t PlacedNamespace assms by (simp add: namespace_wf_def identity_log_def)
  qed
qed

lemma from_folders_wf:
  assumes "namespace_wf pn"
  shows "from_folders (identity_id_str (pn_identity pn)) (folder_name pn) = Some pn"
    and "CHR ''/'' \<notin> set (identity_id_str (pn_identity pn))" and "CHR ''/'' \<notin> set (folder_name pn)"
  using assms
  by (cases rule: namespace_wf_cases; force simp: from_folders_def folder_name_def vault_namespace_def
      identity_log_def exact_identity_valid exact_store_valid token_separators
      exact_identity_valid [simplified] exact_store_valid [simplified])+

subsection \<open>Splitting paths\<close>

lemma strip_prefix_step [simp]:
  "strip_prefix [] s = Some s"
  "strip_prefix (a # p) [] = None"
  "strip_prefix (a # p) (b # s) = (if a = b then strip_prefix p s else None)"
  by (auto simp: strip_prefix_def)

lemma split_on_append: "c \<notin> set xs \<Longrightarrow> split_on c (xs @ c # ys) = xs # split_on c ys"
  by (induction xs) (auto simp: Let_def)

lemma split_on_whole: "c \<notin> set xs \<Longrightarrow> split_on c xs = [xs]"
  by (induction xs) (auto simp: Let_def)

lemma split_once_append: "c \<notin> set xs \<Longrightarrow> split_once c (xs @ c # ys) = Some (xs, ys)"
  by (induction xs) auto

lemma strip_suffix_Some: "strip_suffix suffix s = Some r \<longleftrightarrow> s = r @ suffix"
  by (auto simp: strip_suffix_def strip_prefix_Some rev_swap)

lemma from_event_path_below:
  assumes wf: "namespace_wf pn" and name: "CHR ''/'' \<notin> set file" "file \<noteq> []"
  shows "from_event_path (namespace_root pn @ ''/'' @ file) = Some pn"
proof -
  note folders = from_folders_wf [OF wf]
  let ?rest = "identity_id_str (pn_identity pn) @ CHR ''/'' # folder_name pn @ CHR ''/'' # EVENTS_DIR @ CHR ''/'' # file"
  have path: "namespace_root pn @ ''/'' @ file = PROVIDER_ROOT_DIR @ ''/'' @ ?rest"
    by (simp add: namespace_root_def identity_dir_def)
  have "CHR ''/'' \<notin> set EVENTS_DIR" by simp
  then have "split_on (CHR ''/'') ?rest = [identity_id_str (pn_identity pn), folder_name pn, EVENTS_DIR, file]"
    using split_on_append split_on_whole folders(2,3) name(1) by metis
  then show ?thesis
    unfolding from_event_path_def path strip_prefix_append using name(2) folders(1) by simp
qed

subsection \<open>Properties\<close>

lemma path_names_namespace:
  assumes "namespace_wf pn" and "event_id_from_path c pn path = Some i"
  shows "from_event_path path = Some pn"
proof -
  from assms(2) obtain digest where path: "path = namespace_root pn @ ''/'' @ digest @ ''.yaml''"
    and digest: "CHR ''/'' \<notin> set digest"
    by (auto simp: event_id_from_path_def bind_eq_Some_conv strip_prefix_Some strip_suffix_Some split: if_splits)
  show ?thesis unfolding path by (rule from_event_path_below [OF assms(1)]) (use digest in auto)
qed

text \<open>Event files are found where they are written: the path of an event under a namespace names
  exactly this event and this namespace, and no other namespace reads an event from it.\<close>

theorem event_path_roundtrip:
  assumes "crate_laws c" and "b64_url_safe c" and "namespace_wf pn" and "body_event_id c b = Inr i"
  shows "event_id_from_path c pn (event_path pn i) = Some i
    \<and> from_event_path (event_path pn i) = Some pn
    \<and> (\<forall>other. namespace_wf other \<and> other \<noteq> pn \<longrightarrow> event_id_from_path c other (event_path pn i) = None)"
proof -
  obtain bs where bs: "length bs = 32" "i = EventId (''sha256u:'' @ b64_encode c bs)"
    using assms(4) crate_lawsD(7) [OF assms(1)]
    unfolding body_event_id_def and_then_Inr_iff event_id_from_body_bytes_def event_id_from_sha256_bytes_def by blast
  have digest: "encoded_digest i = b64_encode c bs" by (simp add: encoded_digest_def bs(2))
  have slash: "CHR ''/'' \<notin> set (b64_encode c bs)" using assms(2) bs(1) by (simp add: b64_url_safe_def)
  have parse: "event_id_parse c (''sha256u:'' @ b64_encode c bs) = Inr i"
    using body_event_id_parses [OF assms(1,4)] by (simp add: bs(2))
  have "strip_prefix (namespace_root pn) (event_path pn i) = Some (''/'' @ b64_encode c bs @ ''.yaml'')"
    unfolding event_path_def digest strip_prefix_append ..
  moreover have "strip_suffix ''.yaml'' (b64_encode c bs @ ''.yaml'') = Some (b64_encode c bs)"
    by (simp add: strip_suffix_Some)
  ultimately have id: "event_id_from_path c pn (event_path pn i) = Some i"
    using slash parse by (simp add: event_id_from_path_def)
  note pn = path_names_namespace [OF assms(3) id]
  have "event_id_from_path c other (event_path pn i) = None" if "namespace_wf other" "other \<noteq> pn" for other
    using path_names_namespace [OF that(1)] pn that(2) by (metis option.exhaust option.inject)
  then show ?thesis using id pn by simp
qed

text \<open>CloudKit tags carry the namespace: a tag reads back as the namespace it was made of, the
  prefix of a vault matches the tags of exactly that vault, and the prefix of a kind those of
  exactly that kind.\<close>

theorem cloudkit_tag_roundtrip:
  assumes "namespace_wf pn" and "store_id_parse raw = Inr st"
  shows "from_cloudkit_tag (cloudkit_tag pn) = Some pn
    \<and> (strip_prefix (cloudkit_vault_prefix st) (cloudkit_tag pn) \<noteq> None \<longleftrightarrow> pn_location pn = VaultLocation st)
    \<and> (strip_prefix (cloudkit_kind_prefix kind) (cloudkit_tag pn) \<noteq> None \<longleftrightarrow> kind = location_kind (pn_location pn))"
proof -
  obtain u where u: "compact_token_is_valid u" "st = StoreId (''store_'' @ u)"
    using store_id_parse_Inr [OF assms(2)] by blast
  from assms(1) show ?thesis
  proof (cases rule: namespace_wf_cases)
    case (vault t s)
    have colon: "CHR '':'' \<notin> set (''store_'' @ s)" "CHR '':'' \<notin> set (''store_'' @ u)"
      using token_separators vault(2) u(1) by auto
    have tag: "cloudkit_tag pn = ''vault:'' @ (''store_'' @ s) @ CHR '':'' # ''idn_'' @ t"
      by (simp add: vault(3) cloudkit_tag_def vault_namespace_def)
    have read: "from_cloudkit_tag (cloudkit_tag pn) = Some pn"
      using split_once_append [OF colon(1), of "''idn_'' @ t"] exact_identity_valid [OF vault(1)] exact_store_valid [OF vault(2)]
      unfolding from_cloudkit_tag_def tag by (simp add: vault(3))
    have "s = u" if rest: "''store_'' @ s @ '':idn_'' @ t = ''store_'' @ u @ '':'' @ r" for r
    proof -
      have eq: "(''store_'' @ s) @ CHR '':'' # ''idn_'' @ t = (''store_'' @ u) @ CHR '':'' # r" using rest by simp
      have "split_once (CHR '':'') ((''store_'' @ s) @ CHR '':'' # ''idn_'' @ t)
          = split_once (CHR '':'') ((''store_'' @ u) @ CHR '':'' # r)" unfolding eq ..
      then show ?thesis unfolding split_once_append [OF colon(1)] split_once_append [OF colon(2)] by simp
    qed
    then have "strip_prefix (cloudkit_vault_prefix st) (cloudkit_tag pn) \<noteq> None \<longleftrightarrow> pn_location pn = VaultLocation st"
      unfolding tag by (auto simp: cloudkit_vault_prefix_def u(2) vault(3) vault_namespace_def strip_prefix_Some)
    moreover have "strip_prefix (cloudkit_kind_prefix kind) (cloudkit_tag pn) \<noteq> None \<longleftrightarrow> kind = location_kind (pn_location pn)"
      unfolding tag by (cases kind) (simp_all add: vault(3) vault_namespace_def)
    ultimately show ?thesis using read by blast
  next
    case (log t)
    have tag: "cloudkit_tag pn = ''identity:'' @ ''idn_'' @ t"
      by (simp add: log(2) cloudkit_tag_def identity_log_def)
    have "from_cloudkit_tag (cloudkit_tag pn) = Some pn"
      using exact_identity_valid [OF log(1)] unfolding from_cloudkit_tag_def tag by (simp add: log(2))
    moreover have "strip_prefix (cloudkit_kind_prefix kind) (cloudkit_tag pn) \<noteq> None \<longleftrightarrow> kind = location_kind (pn_location pn)"
      unfolding tag by (cases kind) (simp_all add: log(2) identity_log_def)
    moreover have "strip_prefix (cloudkit_vault_prefix st) (cloudkit_tag pn) = None"
      unfolding tag by (simp add: cloudkit_vault_prefix_def)
    moreover have "pn_location pn \<noteq> VaultLocation st" by (simp add: log(2) identity_log_def)
    ultimately show ?thesis by blast
  qed
qed

lemma sort_dedup_singleton: "sort_dedup xs = [x] \<longleftrightarrow> set xs = {x}"
proof
  assume "sort_dedup xs = [x]"
  then have "set (sort_dedup xs) = {x}" by simp
  then show "set xs = {x}" unfolding sort_dedup_set .
next
  assume "set xs = {x}"
  then show "sort_dedup xs = [x]" by (simp add: sort_dedup_eq)
qed

lemma sort_dedup_empty: "sort_dedup xs = [] \<longleftrightarrow> xs = []"
  using sort_dedup_set [of xs] by (metis set_empty)

lemma two_elements: "(\<exists>a\<in>F. \<exists>b\<in>F. a \<noteq> b) \<longleftrightarrow> F \<noteq> {} \<and> (\<forall>p. F \<noteq> {p})"
  by (metis empty_iff insertI1 singletonD subsetI subset_singletonD)

definition filed_namespaces :: "store_id \<Rightarrow> placed_namespace list \<Rightarrow> placed_namespace set" where
  "filed_namespaces st found = {placed \<in> set found. pn_location placed = VaultLocation st}"

lemma placement_cases:
  "placement_of st found =
    (if filed_namespaces st found = {} then Inr Unfiled
     else if \<exists>placed. filed_namespaces st found = {placed}
     then Inr (Filed (THE placed. filed_namespaces st found = {placed}))
     else Inl (VaultFiledTwice (store_id_str st)))"
proof -
  let ?xs = "filter (\<lambda>placed. pn_location placed = VaultLocation st) found"
  have set: "set ?xs = filed_namespaces st found" by (auto simp: filed_namespaces_def)
  show ?thesis
  proof (cases "sort_dedup ?xs")
    case Nil
    then have "filed_namespaces st found = {}" using set by (simp add: sort_dedup_empty)
    then show ?thesis unfolding placement_of_def Nil Let_def by simp
  next
    case (Cons x xs)
    have nonempty: "filed_namespaces st found \<noteq> {}" using set Cons sort_dedup_empty [of ?xs] by (metis list.distinct(1) set_empty)
    show ?thesis
    proof (cases xs)
      case Nil
      then have "filed_namespaces st found = {x}" using Cons sort_dedup_singleton [of ?xs x] set by simp
      then show ?thesis using Cons Nil by (simp add: placement_of_def)
    next
      case (Cons y ys)
      then have "filed_namespaces st found \<noteq> {placed}" for placed
        using \<open>sort_dedup ?xs = x # xs\<close> sort_dedup_singleton [of ?xs placed] set by auto
      then show ?thesis using nonempty \<open>sort_dedup ?xs = x # xs\<close> Cons by (simp add: placement_of_def)
    qed
  qed
qed

text \<open>A vault is filed once: its placement is the only namespace found for it, unfiled when there is
  none and an error exactly when there are two; and writing it to the namespace chosen for the
  writer leaves the vault filed there.\<close>

theorem vault_is_filed_once:
  "(placement_of st found = Inr Unfiled \<longleftrightarrow> filed_namespaces st found = {})
   \<and> (placement_of st found = Inr (Filed placed) \<longleftrightarrow> filed_namespaces st found = {placed})
   \<and> (placement_of st found = Inl e \<longleftrightarrow> e = VaultFiledTwice (store_id_str st)
        \<and> (\<exists>a\<in>filed_namespaces st found. \<exists>b\<in>filed_namespaces st found. a \<noteq> b))
   \<and> (placement_of st found = Inr placement \<longrightarrow>
        placement_of st (for_writer placement st writer # found) = Inr (Filed (for_writer placement st writer)))"
proof -
  have filed: "placement_of st xs = Inr (Filed p) \<longleftrightarrow> filed_namespaces st xs = {p}" for xs p
    by (auto simp: placement_cases)
  have "placement_of st (for_writer placement st writer # found) = Inr (Filed (for_writer placement st writer))"
    if found: "placement_of st found = Inr placement"
  proof (cases placement)
    case (Filed p)
    then have p: "filed_namespaces st found = {p}" using found by (simp add: filed)
    then have "pn_location p = VaultLocation st" by (auto simp: filed_namespaces_def)
    then have "filed_namespaces st (p # found) = {p}" using p by (auto simp: filed_namespaces_def)
    then show ?thesis using Filed by (simp add: filed)
  next
    case Unfiled
    then have "filed_namespaces st found = {}" using found by (auto simp: placement_cases split: if_splits)
    then have "filed_namespaces st (vault_namespace writer st # found) = {vault_namespace writer st}"
      by (auto simp: filed_namespaces_def vault_namespace_def)
    then show ?thesis using Unfiled by (simp add: filed)
  qed
  moreover have "placement_of st found = Inl e \<longleftrightarrow> e = VaultFiledTwice (store_id_str st)
        \<and> (\<exists>a\<in>filed_namespaces st found. \<exists>b\<in>filed_namespaces st found. a \<noteq> b)"
    using two_elements [of "filed_namespaces st found"] unfolding placement_cases by (simp split: if_splits) metis
  moreover have "placement_of st found = Inr Unfiled \<longleftrightarrow> filed_namespaces st found = {}"
    unfolding placement_cases by auto
  ultimately show ?thesis using filed by blast
qed

subsection \<open>Witnesses\<close>

lemma ex_token: "compact_token_is_valid ''Abcdef_1234''"
  by (simp add: compact_token_is_valid_def is_ascii_alphanumeric_def is_ascii_digit_def)

definition ex_namespace :: placed_namespace where
  "ex_namespace = vault_namespace (IdentityId (''idn_'' @ ''Abcdef_1234'')) (StoreId (''store_'' @ ''Abcdef_1234''))"

lemma ex_namespace_wf: "namespace_wf ex_namespace"
  unfolding ex_namespace_def namespace_wf_def vault_namespace_def placed_namespace.sel event_log_location.case
  using identity_id_parse_valid [OF ex_token] store_id_parse_valid [OF ex_token] by blast

lemma ex_b64_url_safe: "b64_url_safe ex_crates"
proof -
  have "char_of (d + 48) \<noteq> CHR ''/''" if "d \<in> set (to_base 64 43 (ex_value bs))" for d bs
  proof
    assume "char_of (d + 48) = CHR ''/''"
    then have "(of_char (char_of (d + 48)) :: nat) = of_char (CHR ''/'')" by simp
    moreover have "d < 64" using to_base_below [OF _ that] by simp
    ultimately show False by simp
  qed
  then show ?thesis by (force simp: b64_url_safe_def ex_crates_def ex_b64_encode_def)
qed

theorem event_path_roundtrip_witness:
  "\<exists>b i. body_event_id ex_crates b = Inr i
    \<and> event_id_from_path ex_crates ex_namespace (event_path ex_namespace i) = Some i"
proof -
  have "\<exists>i. body_event_id ex_crates b = Inr i" for b
    by (simp add: body_event_id_def to_canonical_bytes_def canonical_from_json_def ex_crates_def)
  then obtain b i where "body_event_id ex_crates b = Inr i" by blast
  with event_path_roundtrip [OF ex_crates_laws ex_b64_url_safe ex_namespace_wf this] show ?thesis by blast
qed

theorem cloudkit_tag_roundtrip_witness:
  "from_cloudkit_tag (cloudkit_tag ex_namespace) = Some ex_namespace"
  using cloudkit_tag_roundtrip [OF ex_namespace_wf store_id_parse_valid [OF ex_token]] by blast

theorem vault_is_filed_once_witness:
  "placement_of (StoreId ''s'') [for_writer Unfiled (StoreId ''s'') (IdentityId ''i'')]
    = Inr (Filed (vault_namespace (IdentityId ''i'') (StoreId ''s'')))"
  using vault_is_filed_once [of "StoreId ''s''" "[]" undefined undefined Unfiled "IdentityId ''i''"]
  by (simp add: filed_namespaces_def)

end
