(* ===== verification/IdentityWire.thy ===== *)
theory IdentityWire
  imports Location
begin

text \<open>
  The signed events of the identity control log (nook-event-log/src/identity_control/wire.rs): the
  keys of members, the control operations, the event body with its canonical bytes, the invite
  proof, and the validation of an envelope.

  The crates of the vault log are the field ic_base; age parses recipients and seals bytes.  The
  sealing is a function here: the randomness of one call is part of it.  display_error is the
  Display that thiserror derives for EventError, and the YAML codec is serde_yaml at IdentityEvent.
  Ciphertexts, labels, mount ids and encryption keys are strings, as their newtypes are.
\<close>

subsection \<open>Members\<close>

datatype identity_invite_id = IdentityInviteId (invite_id_str: string)

definition identity_invite_id_parse :: "string \<Rightarrow> identity_invite_id validation" where
  "identity_invite_id_parse raw =
     (let trimmed = trim raw in
      case strip_prefix ''inv_'' trimmed of
        Some token \<Rightarrow>
          if compact_token_is_valid token then Inr (IdentityInviteId trimmed) else Inl IdentityInviteIdInvalid
      | None \<Rightarrow> Inl IdentityInviteIdInvalid)"

datatype recovery_strength = StandardStrength | HighStrength

record identity_member_keys =
  mk_app_id :: app_id
  mk_encryption_public_key :: string
  mk_signing_public_key :: device_signing_public_key
  mk_label :: string

datatype member_device = OwnDevice | SameAs app_id

record member_vault_dek =
  md_app_id :: app_id
  md_secrets_key_ciphertext :: string
  md_members_key_ciphertext :: string

record member_sealed_name =
  sn_app_id :: app_id
  sn_name_ciphertext :: string

record identity_vault_dek_grant =
  dg_store_id :: store_id
  dg_key_epoch :: event_id
  dg_secrets_key_ciphertext :: string
  dg_members_key_ciphertext :: string

datatype s3_key_prefix = BucketRoot | Prefix string

fun prefix_below :: "s3_key_prefix \<Rightarrow> string \<Rightarrow> string" where
  "prefix_below BucketRoot base = base"
| "prefix_below (Prefix path) base = base @ ''/'' @ path"

record s3_mount_target =
  s3_endpoint :: string
  s3_bucket :: string
  s3_key_prefix :: s3_key_prefix

definition location_identity :: "s3_mount_target \<Rightarrow> string" where
  "location_identity t = s3_endpoint t @ ''/'' @ prefix_below (s3_key_prefix t) (s3_bucket t)"

datatype identity_mount_target =
  Github string
| GoogleDrive string
| ICloud string
| LocalFolder string
| S3 s3_mount_target

record identity_provider_mount =
  im_mount_id :: string
  im_label :: string
  im_target :: identity_mount_target

record identity_invite =
  iv_invite_id :: identity_invite_id
  iv_signing_public_key :: device_signing_public_key
  iv_expires_at :: iso_timestamp

subsection \<open>Operations and events\<close>

datatype (plugins only: code size) identity_control_operation =
  IdentityCreated identity_member_keys
| MemberJoinRequested identity_member_keys
| MemberApproved identity_member_keys "identity_vault_dek_grant list" member_device
| MemberJoinDenied app_id
| MemberInvited identity_invite
| MemberJoinedByInvite identity_invite_id identity_member_keys string "identity_vault_dek_grant list"
| RecoveryKeyAdded identity_member_keys string recovery_strength
| MemberRevoked app_id
| IdentityMemberRenamed app_id string
| VaultRegistered store_id event_id "member_vault_dek list"
| VaultDekGranted store_id event_id "member_vault_dek list"
| VaultRemoved store_id
| ProviderMounted identity_provider_mount
| ProviderUnmounted string
| IdentityNamed "member_sealed_name list"

record identity_event_body =
  ib_schema_version :: u32
  ib_identity_id :: identity_id
  ib_actor_id :: auth_key_id
  ib_actor_signing_public_key :: device_signing_public_key
  ib_parents :: "event_id list"
  ib_created_at :: iso_timestamp
  ib_operations :: "identity_control_operation list"

record identity_event =
  ie_body :: identity_event_body
  ie_signature :: string

definition identity_schema_is_supported :: "u32 \<Rightarrow> bool" where
  "identity_schema_is_supported v \<longleftrightarrow> v = 1"

definition is_genesis :: "identity_event_body \<Rightarrow> bool" where
  "is_genesis b \<longleftrightarrow> ib_parents b = []"

record identity_crates =
  ic_base :: crates
  age_recipient :: "string \<Rightarrow> (string, string) result"
  age_seal :: "string \<Rightarrow> string \<Rightarrow> (string, string) result"
  display_error :: "event_error \<Rightarrow> string"
  identity_yaml_to_string :: "identity_event \<Rightarrow> (string, string) result"
  identity_yaml_from_str :: "string \<Rightarrow> (string, identity_event) result"

subsection \<open>The JSON of an identity event body\<close>

definition member_keys_value :: "identity_member_keys \<Rightarrow> json" where
  "member_keys_value m = JObj
     [json_string ''app_id'' (app_id_str (mk_app_id m)),
      json_string ''encryption_public_key'' (mk_encryption_public_key m),
      json_string ''signing_public_key'' (signing_key_str (mk_signing_public_key m)),
      json_string ''label'' (mk_label m)]"

definition member_vault_dek_value :: "member_vault_dek \<Rightarrow> json" where
  "member_vault_dek_value d = JObj
     [json_string ''app_id'' (app_id_str (md_app_id d)),
      json_string ''secrets_key_ciphertext'' (md_secrets_key_ciphertext d),
      json_string ''members_key_ciphertext'' (md_members_key_ciphertext d)]"

definition sealed_name_value :: "member_sealed_name \<Rightarrow> json" where
  "sealed_name_value n = JObj
     [json_string ''app_id'' (app_id_str (sn_app_id n)),
      json_string ''name_ciphertext'' (sn_name_ciphertext n)]"

definition dek_grant_value :: "identity_vault_dek_grant \<Rightarrow> json" where
  "dek_grant_value g = JObj
     [json_string ''store_id'' (store_id_str (dg_store_id g)),
      json_string ''key_epoch'' (event_id_str (dg_key_epoch g)),
      json_string ''secrets_key_ciphertext'' (dg_secrets_key_ciphertext g),
      json_string ''members_key_ciphertext'' (dg_members_key_ciphertext g)]"

fun member_device_value :: "member_device \<Rightarrow> json" where
  "member_device_value OwnDevice = JObj [json_string ''kind'' ''own'']"
| "member_device_value (SameAs app) = JObj [json_string ''kind'' ''same-as'', json_string ''app_id'' (app_id_str app)]"

fun key_prefix_value :: "s3_key_prefix \<Rightarrow> json" where
  "key_prefix_value BucketRoot = JObj [json_string ''state'' ''bucketRoot'']"
| "key_prefix_value (Prefix path) = JObj [json_string ''state'' ''prefix'', json_string ''value'' path]"

fun mount_target_value :: "identity_mount_target \<Rightarrow> json" where
  "mount_target_value (Github repository) =
     JObj [json_string ''kind'' ''github'', json_string ''repository'' repository]"
| "mount_target_value (GoogleDrive folder) =
     JObj [json_string ''kind'' ''google-drive'', json_string ''folder_id'' folder]"
| "mount_target_value (ICloud share) =
     JObj [json_string ''kind'' ''icloud'', json_string ''share_target'' share]"
| "mount_target_value (LocalFolder directory) =
     JObj [json_string ''kind'' ''local-folder'', json_string ''directory_name'' directory]"
| "mount_target_value (S3 target) =
     JObj [json_string ''kind'' ''s3'', json_string ''endpoint'' (s3_endpoint target),
       json_string ''bucket'' (s3_bucket target), (''key_prefix'', key_prefix_value (s3_key_prefix target))]"

definition provider_mount_value :: "identity_provider_mount \<Rightarrow> json" where
  "provider_mount_value m = JObj
     [json_string ''mount_id'' (im_mount_id m), json_string ''label'' (im_label m),
      (''target'', mount_target_value (im_target m))]"

definition invite_value :: "identity_invite \<Rightarrow> json" where
  "invite_value i = JObj
     [json_string ''invite_id'' (invite_id_str (iv_invite_id i)),
      json_string ''signing_public_key'' (signing_key_str (iv_signing_public_key i)),
      json_string ''expires_at'' (iso_timestamp_str (iv_expires_at i))]"

fun recovery_strength_str :: "recovery_strength \<Rightarrow> string" where
  "recovery_strength_str StandardStrength = ''standard''"
| "recovery_strength_str HighStrength = ''high''"

fun control_operation_value :: "identity_control_operation \<Rightarrow> json" where
  "control_operation_value (IdentityCreated founder) =
     JObj [json_string ''type'' ''identity-created'', (''founder'', member_keys_value founder)]"
| "control_operation_value (MemberJoinRequested member) =
     JObj [json_string ''type'' ''member-join-requested'', (''member'', member_keys_value member)]"
| "control_operation_value (MemberApproved member deks device) =
     JObj [json_string ''type'' ''member-approved'', (''member'', member_keys_value member),
       (''vault_deks'', JArr (map dek_grant_value deks)), (''device'', member_device_value device)]"
| "control_operation_value (MemberJoinDenied app) =
     JObj [json_string ''type'' ''member-join-denied'', json_string ''app_id'' (app_id_str app)]"
| "control_operation_value (MemberInvited invite) =
     JObj [json_string ''type'' ''member-invited'', (''invite'', invite_value invite)]"
| "control_operation_value (MemberJoinedByInvite invite member sig deks) =
     JObj [json_string ''type'' ''member-joined-by-invite'', json_string ''invite_id'' (invite_id_str invite),
       (''member'', member_keys_value member), json_string ''invite_signature'' sig,
       (''vault_deks'', JArr (map dek_grant_value deks))]"
| "control_operation_value (RecoveryKeyAdded member sealed strength) =
     JObj [json_string ''type'' ''recovery-key-added'', (''member'', member_keys_value member),
       json_string ''sealed_secret'' sealed, json_string ''strength'' (recovery_strength_str strength)]"
| "control_operation_value (MemberRevoked app) =
     JObj [json_string ''type'' ''member-revoked'', json_string ''app_id'' (app_id_str app)]"
| "control_operation_value (IdentityMemberRenamed app label) =
     JObj [json_string ''type'' ''member-renamed'', json_string ''app_id'' (app_id_str app), json_string ''label'' label]"
| "control_operation_value (VaultRegistered st epoch recipients) =
     JObj [json_string ''type'' ''vault-registered'', json_string ''store_id'' (store_id_str st),
       json_string ''key_epoch'' (event_id_str epoch), (''recipients'', JArr (map member_vault_dek_value recipients))]"
| "control_operation_value (VaultDekGranted st epoch recipients) =
     JObj [json_string ''type'' ''vault-dek-granted'', json_string ''store_id'' (store_id_str st),
       json_string ''key_epoch'' (event_id_str epoch), (''recipients'', JArr (map member_vault_dek_value recipients))]"
| "control_operation_value (VaultRemoved st) =
     JObj [json_string ''type'' ''vault-removed'', json_string ''store_id'' (store_id_str st)]"
| "control_operation_value (ProviderMounted mount) =
     JObj [json_string ''type'' ''provider-mounted'', (''mount'', provider_mount_value mount)]"
| "control_operation_value (ProviderUnmounted mount) =
     JObj [json_string ''type'' ''provider-unmounted'', json_string ''mount_id'' mount]"
| "control_operation_value (IdentityNamed recipients) =
     JObj [json_string ''type'' ''identity-named'', (''recipients'', JArr (map sealed_name_value recipients))]"

definition identity_body_value :: "identity_event_body \<Rightarrow> json" where
  "identity_body_value b = JObj
     [(''schema_version'', JNum (uint (ib_schema_version b))),
      json_string ''identity_id'' (identity_id_str (ib_identity_id b)),
      json_string ''actor_id'' (auth_key_id_str (ib_actor_id b)),
      json_string ''actor_signing_public_key'' (signing_key_str (ib_actor_signing_public_key b)),
      (''parents'', JArr (map (\<lambda>p. JStr (event_id_str p)) (ib_parents b))),
      json_string ''created_at'' (iso_timestamp_str (ib_created_at b)),
      (''operations'', JArr (map control_operation_value (ib_operations b)))]"

definition identity_canonical_bytes :: "identity_crates \<Rightarrow> identity_event_body \<Rightarrow> bytes event_result" where
  "identity_canonical_bytes c b =
     canonical_from_json (ic_base c) (identity_body_value (b\<lparr>ib_parents := sort (ib_parents b)\<rparr>))"

definition identity_body_event_id :: "identity_crates \<Rightarrow> identity_event_body \<Rightarrow> event_id event_result" where
  "identity_body_event_id c b =
     and_then (identity_canonical_bytes c b) (\<lambda>bs. Inr (event_id_from_body_bytes (ic_base c) bs))"

subsection \<open>Signing actors\<close>

text \<open>\<open>AppId::from_sha256_prefix\<close> of the digest of the recipient.\<close>

definition recipient_app_id :: "identity_crates \<Rightarrow> string \<Rightarrow> app_id" where
  "recipient_app_id c recipient =
     AppId (hex_encode (ic_base c) (take 8 (sha256 (ic_base c) (bytes_of_string recipient))))"

definition try_app_id :: "identity_crates \<Rightarrow> string \<Rightarrow> (string, app_id) result" where
  "try_app_id c key =
     (case age_recipient c key of
        Inl e \<Rightarrow> Inl (''Invalid recipient public key: '' @ e)
      | Inr recipient \<Rightarrow> Inr (recipient_app_id c recipient))"

fun control_checked :: "(string, 'a) result \<Rightarrow> 'a event_result" where
  "control_checked (Inl e) = Inl (IdentityControlInvalid e)"
| "control_checked (Inr a) = Inr a"

definition signing_actor :: "identity_crates \<Rightarrow> identity_member_keys \<Rightarrow> auth_key_id event_result" where
  "signing_actor c m =
     (if signing_key_is_empty (mk_signing_public_key m)
      then Inl (IdentityControlInvalid ''identity members require an Ed25519 signing key'')
      else and_then (control_checked (try_app_id c (mk_encryption_public_key m))) (\<lambda>derived.
        if derived \<noteq> mk_app_id m
        then Inl (IdentityControlInvalid
               (''app id '' @ app_id_str (mk_app_id m) @ '' does not match its encryption public key''))
        else actor_id_for_public_key_hex (ic_base c) (signing_key_str (mk_signing_public_key m))))"

subsection \<open>Invite proofs\<close>

abbreviation (input) INVITE_PROOF_PURPOSE :: string where
  "INVITE_PROOF_PURPOSE \<equiv> ''nook-identity-invite-join-v1''"

definition invite_proof_message ::
    "identity_crates \<Rightarrow> identity_id \<Rightarrow> identity_invite_id \<Rightarrow> identity_member_keys \<Rightarrow> bytes event_result" where
  "invite_proof_message c identity invite m =
     canonical_from_json (ic_base c) (JObj
       [json_string ''purpose'' INVITE_PROOF_PURPOSE,
        json_string ''identity_id'' (identity_id_str identity),
        json_string ''invite_id'' (invite_id_str invite),
        json_string ''app_id'' (app_id_str (mk_app_id m)),
        json_string ''encryption_public_key'' (mk_encryption_public_key m),
        json_string ''signing_public_key'' (signing_key_str (mk_signing_public_key m))])"

definition invite_proof_sign ::
    "identity_crates \<Rightarrow> identity_id \<Rightarrow> identity_invite_id \<Rightarrow> identity_member_keys \<Rightarrow> bytes \<Rightarrow> string event_result" where
  "invite_proof_sign c identity invite m key =
     and_then (invite_proof_message c identity invite m) (\<lambda>message.
       Inr (signature_sign (ic_base c) message key))"

definition invite_proof_verify ::
    "identity_crates \<Rightarrow> identity_id \<Rightarrow> identity_invite_id \<Rightarrow> identity_member_keys
      \<Rightarrow> identity_invite \<Rightarrow> string \<Rightarrow> unit event_result" where
  "invite_proof_verify c identity invite m issued sig =
     and_then (verifying_key_from_public_key_hex (ic_base c) (signing_key_str (iv_signing_public_key issued))) (\<lambda>vk.
     and_then (invite_proof_message c identity invite m) (\<lambda>message.
       signature_verify (ic_base c) sig message vk))"

subsection \<open>Signing and validating an event\<close>

definition identity_event_id :: "identity_crates \<Rightarrow> identity_event \<Rightarrow> event_id event_result" where
  "identity_event_id c ev = identity_body_event_id c (ie_body ev)"

definition sign_identity_event :: "identity_crates \<Rightarrow> identity_event_body \<Rightarrow> bytes \<Rightarrow> identity_event event_result" where
  "sign_identity_event c b key =
     and_then (actor_id_for_verifying_key (ic_base c) (verifying_key_of (ic_base c) key)) (\<lambda>actor.
       if actor \<noteq> ib_actor_id b
       then Inl (ActorSigningKeyMismatch (auth_key_id_str (ib_actor_id b)) (auth_key_id_str actor))
       else and_then (identity_canonical_bytes c b) (\<lambda>bs.
         Inr \<lparr>ie_body = b, ie_signature = signature_sign (ic_base c) bs key\<rparr>))"

definition verify_identity_actor :: "identity_crates \<Rightarrow> identity_event \<Rightarrow> unit event_result" where
  "verify_identity_actor c ev =
     (let key = ib_actor_signing_public_key (ie_body ev) in
      if signing_key_is_empty key then Inl MissingActorSigningPublicKey
      else
        and_then (verifying_key_from_public_key_hex (ic_base c) (signing_key_str key)) (\<lambda>vk.
        and_then (actor_id_for_verifying_key (ic_base c) vk) (\<lambda>actor.
          if actor \<noteq> ib_actor_id (ie_body ev)
          then Inl (ActorSigningKeyMismatch (auth_key_id_str (ib_actor_id (ie_body ev))) (auth_key_id_str actor))
          else and_then (identity_canonical_bytes c (ie_body ev)) (\<lambda>bs.
            signature_verify (ic_base c) (ie_signature ev) bs vk))))"

fun is_identity_created :: "identity_control_operation \<Rightarrow> bool" where
  "is_identity_created (IdentityCreated _) = True"
| "is_identity_created _ = False"

definition check_one_grant_per_vault :: "identity_vault_dek_grant list \<Rightarrow> unit event_result" where
  "check_one_grant_per_vault deks =
     (if length (sort_dedup (map dg_store_id deks)) \<noteq> length deks
      then Inl (IdentityControlInvalid ''a member is granted each vault at most once'') else Inr ())"

definition check_recipients :: "string \<Rightarrow> app_id list \<Rightarrow> unit event_result" where
  "check_recipients reason apps =
     (if length (sort_dedup apps) \<noteq> length apps \<or> apps = [] then Inl (IdentityControlInvalid reason) else Inr ())"

text \<open>A sole operation signed by the member it names: the errors of signing_actor come only after the
  count, as in the source.\<close>

definition check_self_signed ::
    "identity_crates \<Rightarrow> identity_event_body \<Rightarrow> identity_member_keys \<Rightarrow> string \<Rightarrow> unit event_result" where
  "check_self_signed c b m reason =
     (if length (ib_operations b) \<noteq> 1 then Inl (IdentityControlInvalid reason)
      else and_then (signing_actor c m) (\<lambda>actor.
        if actor \<noteq> ib_actor_id b then Inl (IdentityControlInvalid reason) else Inr ()))"

fun check_operation :: "identity_crates \<Rightarrow> identity_event_body \<Rightarrow> identity_control_operation \<Rightarrow> unit event_result" where
  "check_operation c b (MemberJoinRequested m) =
     check_self_signed c b m ''a join request must be the sole operation, signed by the joiner''"
| "check_operation c b (MemberApproved m deks _) =
     and_then (signing_actor c m) (\<lambda>_. check_one_grant_per_vault deks)"
| "check_operation c b (MemberInvited invite) =
     and_then (verifying_key_from_public_key_hex (ic_base c) (signing_key_str (iv_signing_public_key invite)))
       (\<lambda>_. Inr ())"
| "check_operation c b (MemberJoinedByInvite _ m _ deks) =
     and_then (check_self_signed c b m ''an invite join must be the sole operation, signed by the joiner'')
       (\<lambda>_. check_one_grant_per_vault deks)"
| "check_operation c b (VaultRegistered _ _ recipients) =
     check_recipients ''vault DEK recipients must be non-empty and unique'' (map md_app_id recipients)"
| "check_operation c b (VaultDekGranted _ _ recipients) =
     check_recipients ''vault DEK recipients must be non-empty and unique'' (map md_app_id recipients)"
| "check_operation c b (IdentityNamed recipients) =
     check_recipients ''identity name recipients must be non-empty and unique'' (map sn_app_id recipients)"
| "check_operation c b _ = Inr ()"

definition validate_operation_structure :: "identity_crates \<Rightarrow> identity_event_body \<Rightarrow> unit event_result" where
  "validate_operation_structure c b =
     (if is_genesis b then
        (case ib_operations b of
           [IdentityCreated founder] \<Rightarrow>
             and_then (signing_actor c founder) (\<lambda>actor.
               if actor \<noteq> ib_actor_id b
               then Inl (IdentityControlInvalid ''identity genesis must be signed by its founder'') else Inr ())
         | _ \<Rightarrow> Inl (IdentityControlInvalid ''identity genesis must be one identity-created operation''))
      else if list_ex is_identity_created (ib_operations b)
      then Inl (IdentityControlInvalid ''only the parentless genesis may create an identity'')
      else fold_result (\<lambda>_ op. check_operation c b op) () (ib_operations b))"

fun beside_itself :: "identity_control_operation \<Rightarrow> bool" where
  "beside_itself (MemberApproved m _ (SameAs app)) \<longleftrightarrow> app = mk_app_id m"
| "beside_itself _ \<longleftrightarrow> False"

definition check_member_devices :: "identity_event_body \<Rightarrow> unit event_result" where
  "check_member_devices b =
     (if list_ex beside_itself (ib_operations b)
      then Inl (IdentityControlInvalid ''a member cannot share a device with itself'') else Inr ())"

definition check_recovery_members :: "identity_crates \<Rightarrow> identity_event_body \<Rightarrow> unit event_result" where
  "check_recovery_members c b =
     fold_result (\<lambda>_ op. case op of
         RecoveryKeyAdded m _ _ \<Rightarrow> and_then (signing_actor c m) (\<lambda>_. Inr ())
       | _ \<Rightarrow> Inr ()) () (ib_operations b)"

definition validate_identity_envelope ::
    "identity_crates \<Rightarrow> identity_event \<Rightarrow> identity_id \<Rightarrow> event_id event_result" where
  "validate_identity_envelope c ev expected =
     (let b = ie_body ev in
      if \<not> identity_schema_is_supported (ib_schema_version b)
      then Inl (UnsupportedIdentitySchemaVersion (ib_schema_version b))
      else if ib_identity_id b \<noteq> expected
      then Inl (IdentityControlInvalid (''event belongs to identity '' @ identity_id_str (ib_identity_id b)
             @ '' instead of '' @ identity_id_str expected))
      else if ib_operations b = []
      then Inl (IdentityControlInvalid ''identity events require at least one operation'')
      else
        and_then (traverse (\<lambda>p. event_id_parse (ic_base c) (event_id_str p)) (ib_parents b)) (\<lambda>_.
        and_then (validate_operation_structure c b) (\<lambda>_.
        and_then (check_member_devices b) (\<lambda>_.
        and_then (check_recovery_members c b) (\<lambda>_.
        and_then (verify_identity_actor c ev) (\<lambda>_.
          identity_event_id c ev))))))"

fun invite_join :: "identity_event \<Rightarrow> (identity_invite_id \<times> identity_member_keys \<times> string) option" where
  "invite_join ev =
     (case ib_operations (ie_body ev) of
        [MemberJoinedByInvite invite m sig _] \<Rightarrow> Some (invite, m, sig)
      | _ \<Rightarrow> None)"

fun is_self_signed_join_request :: "identity_crates \<Rightarrow> identity_event \<Rightarrow> bool" where
  "is_self_signed_join_request c ev =
     (case ib_operations (ie_body ev) of
        [MemberJoinRequested m] \<Rightarrow> signing_actor c m = Inr (ib_actor_id (ie_body ev))
      | _ \<Rightarrow> False)"

definition serialize_identity_event :: "identity_crates \<Rightarrow> identity_event \<Rightarrow> bytes event_result" where
  "serialize_identity_event c ev =
     (case identity_yaml_to_string c ev of
        Inl e \<Rightarrow> Inl (EventSerialize e)
      | Inr yaml \<Rightarrow>
          Inr (bytes_of_string (if yaml \<noteq> [] \<and> last yaml = CHR 0x0A then yaml else yaml @ [CHR 0x0A])))"

definition parse_identity_event :: "identity_crates \<Rightarrow> bytes \<Rightarrow> identity_event event_result" where
  "parse_identity_event c bs =
     (case utf8_error 0 bs of
        Some e \<Rightarrow> Inl (ParseStoredEvent (''identity event bytes are not UTF-8: '' @ utf8_message e))
      | None \<Rightarrow>
          (case identity_yaml_from_str c (string_of_bytes bs) of
             Inl e \<Rightarrow> Inl (ParseStoredEvent (''YAML parse failed: '' @ e))
           | Inr ev \<Rightarrow> Inr ev))"

end
