(* ===== verification/IdentityLog.thy ===== *)
theory IdentityLog
  imports IdentityWire EventGraph
begin

text \<open>
  The identity control log (nook-event-log/src/identity_control/graph.rs): validated events beside
  their causal index, the members effective in a causal past, what members, recovery passphrases
  and invite holders may sign, and the quarantine of everything else.
\<close>

subsection \<open>State\<close>

datatype identity_insert_status =
  IdentityApplied
| IdentityPending "event_id list"
| IdentityQuarantined string
| IdentityDuplicate

record identity_control_log =
  il_identity_id :: identity_id
  il_events :: "(event_id, identity_event) fmap"
  il_causal :: "event_id causal_graph"

datatype member_role = AppRole | RecoveryRole

record member_approval =
  ma_event :: event_id
  ma_app_id :: app_id
  ma_actor :: auth_key_id
  ma_role :: member_role

record membership_history =
  mh_approvals :: "member_approval list"
  mh_revocations :: "(event_id \<times> app_id) list"

record effective_member =
  em_actors :: "auth_key_id fset"
  em_role :: member_role

definition new_identity_log :: "identity_id \<Rightarrow> identity_control_log" where
  "new_identity_log identity = \<lparr>il_identity_id = identity, il_events = fmempty, il_causal = new_graph\<rparr>"

definition identity_quarantined :: "identity_control_log \<Rightarrow> (event_id, string) fmap" where
  "identity_quarantined log = cg_quarantined (il_causal log)"

definition identity_event_ids :: "identity_control_log \<Rightarrow> event_id list" where
  "identity_event_ids log = keys_of (il_events log)"

definition genesis_id :: "identity_control_log \<Rightarrow> event_id option" where
  "genesis_id log =
     map_option fst (find (\<lambda>(_, ev). is_genesis (ie_body ev)) (sorted_list_of_fmap (il_events log)))"

definition applicable_heads :: "identity_control_log \<Rightarrow> event_id list" where
  "applicable_heads log =
     (let applicable = elems (fset_of_list (applicable_ids (il_causal log)));
          referenced = concat (map (\<lambda>ev. ib_parents (ie_body ev)) (List.map_filter (fmlookup (il_events log)) applicable))
      in filter (\<lambda>i. i \<notin> set referenced) applicable)"

definition ordered_applicable_events :: "identity_control_log \<Rightarrow> (event_id \<times> identity_event) list event_result" where
  "ordered_applicable_events log =
     (case topological_order (il_causal log) of
        Inl _ \<Rightarrow> Inl GraphCycle
      | Inr order \<Rightarrow> traverse (\<lambda>i. case fmlookup (il_events log) i of
            Some ev \<Rightarrow> Inr (i, ev)
          | None \<Rightarrow> Inl (MissingEvent (event_id_str i))) order)"

definition identity_is_ancestor :: "identity_control_log \<Rightarrow> event_id \<Rightarrow> event_id \<Rightarrow> bool" where
  "identity_is_ancestor log ancestor descendant = is_ancestor (il_causal log) ancestor descendant"

definition ancestry :: "identity_control_log \<Rightarrow> event_id list \<Rightarrow> event_id fset" where
  "ancestry log ps = reach_loop (fmmap (\<lambda>ev. ib_parents (ie_body ev)) (il_events log)) {||} (rev ps)"

subsection \<open>Members\<close>

fun admitted_member :: "identity_control_operation \<Rightarrow> (identity_member_keys \<times> member_role) option" where
  "admitted_member (IdentityCreated m) = Some (m, AppRole)"
| "admitted_member (MemberApproved m _ _) = Some (m, AppRole)"
| "admitted_member (MemberJoinedByInvite _ m _ _) = Some (m, AppRole)"
| "admitted_member (RecoveryKeyAdded m _ _) = Some (m, RecoveryRole)"
| "admitted_member _ = None"

definition membership_operation ::
    "identity_crates \<Rightarrow> event_id \<Rightarrow> membership_history \<Rightarrow> identity_control_operation \<Rightarrow> membership_history event_result" where
  "membership_operation c i h op =
     (case op of
        MemberRevoked app \<Rightarrow> Inr (h\<lparr>mh_revocations := mh_revocations h @ [(i, app)]\<rparr>)
      | _ \<Rightarrow>
          (case admitted_member op of
             None \<Rightarrow> Inr h
           | Some (m, role) \<Rightarrow>
               and_then (signing_actor c m) (\<lambda>actor.
                 Inr (h\<lparr>mh_approvals := mh_approvals h @
                   [\<lparr>ma_event = i, ma_app_id = mk_app_id m, ma_actor = actor, ma_role = role\<rparr>]\<rparr>))))"

definition membership_event ::
    "identity_crates \<Rightarrow> identity_control_log \<Rightarrow> membership_history \<Rightarrow> event_id \<Rightarrow> membership_history event_result" where
  "membership_event c log h i =
     (case fmlookup (il_events log) i of
        None \<Rightarrow> Inr h
      | Some ev \<Rightarrow> fold_result (membership_operation c i) h (ib_operations (ie_body ev)))"

definition membership_history_of ::
    "identity_crates \<Rightarrow> identity_control_log \<Rightarrow> event_id fset \<Rightarrow> membership_history event_result" where
  "membership_history_of c log events =
     fold_result (membership_event c log) \<lparr>mh_approvals = [], mh_revocations = []\<rparr> (elems events)"

definition approval_survives :: "identity_control_log \<Rightarrow> (event_id \<times> app_id) list \<Rightarrow> member_approval \<Rightarrow> bool" where
  "approval_survives log revocations approval \<longleftrightarrow>
     list_all (\<lambda>(revocation, _). is_ancestor (il_causal log) revocation (ma_event approval))
       (filter (\<lambda>(_, revoked). revoked = ma_app_id approval) revocations)"

fun joined_role :: "member_role \<Rightarrow> member_role \<Rightarrow> member_role" where
  "joined_role AppRole AppRole = AppRole"
| "joined_role RecoveryRole _ = RecoveryRole"
| "joined_role AppRole RecoveryRole = RecoveryRole"

definition admit_approval ::
    "(app_id, effective_member) fmap \<Rightarrow> member_approval \<Rightarrow> (app_id, effective_member) fmap" where
  "admit_approval members approval =
     (let m = (case fmlookup members (ma_app_id approval) of
            Some m \<Rightarrow> m | None \<Rightarrow> \<lparr>em_actors = {||}, em_role = ma_role approval\<rparr>)
      in fmupd (ma_app_id approval)
           \<lparr>em_actors = finsert (ma_actor approval) (em_actors m), em_role = joined_role (em_role m) (ma_role approval)\<rparr>
           members)"

definition effective_members ::
    "identity_crates \<Rightarrow> identity_control_log \<Rightarrow> event_id fset \<Rightarrow> (app_id, effective_member) fmap event_result" where
  "effective_members c log events =
     and_then (membership_history_of c log events) (\<lambda>h.
       Inr (foldl (\<lambda>members approval.
           if approval_survives log (mh_revocations h) approval then admit_approval members approval else members)
         fmempty (mh_approvals h)))"

subsection \<open>What a member may sign\<close>

fun refused_for_recovery ::
    "app_id \<Rightarrow> (app_id, effective_member) fmap \<Rightarrow> identity_control_operation \<Rightarrow> bool" where
  "refused_for_recovery recovery members (MemberApproved m _ OwnDevice) \<longleftrightarrow> mk_app_id m |\<in>| fmdom members"
| "refused_for_recovery recovery members (MemberRevoked app) \<longleftrightarrow> app \<noteq> recovery"
| "refused_for_recovery recovery members _ \<longleftrightarrow> True"

fun readds_member :: "(app_id, effective_member) fmap \<Rightarrow> identity_control_operation \<Rightarrow> bool" where
  "readds_member members (RecoveryKeyAdded m _ _) \<longleftrightarrow> mk_app_id m |\<in>| fmdom members"
| "readds_member members _ \<longleftrightarrow> False"

definition acting_member ::
    "(app_id, effective_member) fmap \<Rightarrow> auth_key_id \<Rightarrow> (app_id \<times> effective_member) option" where
  "acting_member members actor = find (\<lambda>(_, m). actor |\<in>| em_actors m) (sorted_list_of_fmap members)"

definition member_action_rejection ::
    "identity_event \<Rightarrow> (app_id, effective_member) fmap \<Rightarrow> string option" where
  "member_action_rejection ev members =
     Option.bind (acting_member members (ib_actor_id (ie_body ev))) (\<lambda>(acting_app, acting).
       case em_role acting of
         RecoveryRole \<Rightarrow>
           if list_ex (refused_for_recovery acting_app members) (ib_operations (ie_body ev))
           then Some (''Recovery passphrase '' @ app_id_str acting_app
             @ '' may only approve a new app key on its own device or remove itself'')
           else None
       | AppRole \<Rightarrow>
           if list_ex (readds_member members) (ib_operations (ie_body ev))
           then Some ''A recovery passphrase must be a new member of the identity'' else None)"

subsection \<open>Invites\<close>

fun invite_issue :: "identity_invite_id \<Rightarrow> identity_control_operation \<Rightarrow> identity_invite option" where
  "invite_issue wanted (MemberInvited invite) = (if iv_invite_id invite = wanted then Some invite else None)"
| "invite_issue wanted _ = None"

definition issued_invite :: "identity_control_log \<Rightarrow> event_id list \<Rightarrow> identity_invite_id \<Rightarrow> identity_invite option" where
  "issued_invite log ps wanted =
     (let ops = concat (map (\<lambda>ev. ib_operations (ie_body ev))
            (List.map_filter (fmlookup (il_events log)) (elems (ancestry log ps))))
      in case List.map_filter (invite_issue wanted) ops of [] \<Rightarrow> None | invite # _ \<Rightarrow> Some invite)"

definition issued_invite_now :: "identity_control_log \<Rightarrow> identity_invite_id \<Rightarrow> identity_invite option" where
  "issued_invite_now log wanted = issued_invite log (applicable_heads log) wanted"

definition invite_join_holds :: "identity_crates \<Rightarrow> identity_control_log \<Rightarrow> identity_event \<Rightarrow> bool" where
  "invite_join_holds c log ev =
     (case invite_join ev of
        None \<Rightarrow> False
      | Some (invite, m, sig) \<Rightarrow>
          (case issued_invite log (ib_parents (ie_body ev)) invite of
             None \<Rightarrow> False
           | Some issued \<Rightarrow> invite_proof_verify c (il_identity_id log) invite m issued sig = Inr ()))"

definition invite_join_rejection ::
    "identity_crates \<Rightarrow> identity_control_log \<Rightarrow> event_id \<Rightarrow> identity_event \<Rightarrow> string option" where
  "invite_join_rejection c log i ev =
     Option.bind (invite_join ev) (\<lambda>(invite, _, _).
       if \<not> invite_join_holds c log ev
       then Some (''Invite '' @ invite_id_str invite
         @ '' was not issued in causal history or its proof does not verify'')
       else if list_ex (\<lambda>(other_id, other). other_id < i
              \<and> (case invite_join other of Some (other_invite, _, _) \<Rightarrow> other_invite = invite | None \<Rightarrow> False)
              \<and> invite_join_holds c log other) (sorted_list_of_fmap (il_events log))
       then Some (''Invite '' @ invite_id_str invite @ '' was already used'')
       else None)"

subsection \<open>Quarantine of unauthorized events\<close>

fun revokes_member :: "app_id \<Rightarrow> identity_control_operation \<Rightarrow> bool" where
  "revokes_member recovery (MemberRevoked app) \<longleftrightarrow> app = recovery"
| "revokes_member recovery _ \<longleftrightarrow> False"

text \<open>The loop over the applicable ids: the first entitled revocation the event does not precede.\<close>

fun recovery_revocation ::
    "identity_crates \<Rightarrow> identity_control_log \<Rightarrow> event_id \<Rightarrow> app_id \<Rightarrow> event_id list \<Rightarrow> event_id option event_result" where
  "recovery_revocation c log i recovery [] = Inr None"
| "recovery_revocation c log i recovery (r # rs) =
     (if r = i \<or> is_ancestor (il_causal log) i r then recovery_revocation c log i recovery rs
      else case fmlookup (il_events log) r of
          None \<Rightarrow> recovery_revocation c log i recovery rs
        | Some revocation \<Rightarrow>
            if \<not> list_ex (revokes_member recovery) (ib_operations (ie_body revocation))
            then recovery_revocation c log i recovery rs
            else and_then (effective_members c log (ancestry log (ib_parents (ie_body revocation)))) (\<lambda>members.
              if list_ex (\<lambda>(_, m). ib_actor_id (ie_body revocation) |\<in>| em_actors m) (sorted_list_of_fmap members)
              then Inr (Some r) else recovery_revocation c log i recovery rs))"

definition revoked_recovery_rejection ::
    "identity_crates \<Rightarrow> identity_control_log \<Rightarrow> event_id \<Rightarrow> identity_event
      \<Rightarrow> (app_id, effective_member) fmap \<Rightarrow> string option event_result" where
  "revoked_recovery_rejection c log i ev members =
     (case find (\<lambda>(_, m). ib_actor_id (ie_body ev) |\<in>| em_actors m \<and> em_role m = RecoveryRole)
         (sorted_list_of_fmap members) of
        None \<Rightarrow> Inr None
      | Some (recovery, _) \<Rightarrow>
          and_then (recovery_revocation c log i recovery (applicable_ids (il_causal log))) (\<lambda>found.
            Inr (map_option (\<lambda>r. ''Recovery passphrase '' @ app_id_str recovery @ '' was removed by ''
              @ event_id_str r @ '', which this event does not precede'') found)))"

definition unauthorized_reason ::
    "identity_crates \<Rightarrow> identity_control_log \<Rightarrow> event_id \<Rightarrow> string option event_result" where
  "unauthorized_reason c log i =
     (case fmlookup (il_events log) i of
        None \<Rightarrow> Inr None
      | Some ev \<Rightarrow>
          if is_genesis (ie_body ev) \<or> is_self_signed_join_request c ev then Inr None
          else if invite_join ev \<noteq> None then Inr (invite_join_rejection c log i ev)
          else
            and_then (effective_members c log (ancestry log (ib_parents (ie_body ev)))) (\<lambda>members.
              if list_ex (\<lambda>(_, m). ib_actor_id (ie_body ev) |\<in>| em_actors m) (sorted_list_of_fmap members)
              then case member_action_rejection ev members of
                  Some reason \<Rightarrow> Inr (Some reason)
                | None \<Rightarrow> revoked_recovery_rejection c log i ev members
              else Inr (Some (''Identity actor '' @ auth_key_id_str (ib_actor_id (ie_body ev))
                     @ '' was not an identity member in causal history''))))"

definition rejection_text :: "identity_crates \<Rightarrow> identity_control_log \<Rightarrow> event_id \<Rightarrow> string option" where
  "rejection_text c log i =
     (case unauthorized_reason c log i of Inr reason \<Rightarrow> reason | Inl e \<Rightarrow> Some (display_error c e))"

text \<open>One pass over a snapshot of the applicable ids.\<close>

fun identity_pass ::
    "identity_crates \<Rightarrow> identity_control_log \<Rightarrow> bool \<Rightarrow> event_id list \<Rightarrow> identity_control_log \<times> bool"
where
  "identity_pass c log changed [] = (log, changed)"
| "identity_pass c log changed (i # is) =
     (case rejection_text c log i of
        None \<Rightarrow> identity_pass c log changed is
      | Some reason \<Rightarrow>
          identity_pass c
            (log\<lparr>il_causal := quarantine_event (il_causal log) \<lparr>quar_id = i, quar_reason = reason\<rparr>\<rparr>) True is)"

abbreviation rejected_roots :: "identity_control_log \<Rightarrow> event_id fset" where
  "rejected_roots log \<equiv> fmdom (cg_quarantine_roots (il_causal log))"

abbreviation recorded_ids :: "identity_control_log \<Rightarrow> event_id fset" where
  "recorded_ids log \<equiv> fmdom (cg_parents (il_causal log))"

text \<open>A pass changes nothing or rejects an id of its list; what was rejected stays rejected.\<close>

lemma identity_pass_step:
  assumes "identity_pass c log changed is = (log', changed')"
  shows "il_events log' = il_events log \<and> il_identity_id log' = il_identity_id log
    \<and> cg_parents (il_causal log') = cg_parents (il_causal log)
    \<and> rejected_roots log |\<subseteq>| rejected_roots log'
    \<and> (log' = log \<and> changed' = changed
       \<or> changed' \<and> rejected_roots log' |\<subseteq>| fmdom (identity_quarantined log')
         \<and> (\<exists>i\<in>set is. i |\<in>| rejected_roots log'))"
  using assms
proof (induction c log changed "is" rule: identity_pass.induct)
  case (2 c log changed i "is")
  show ?case
  proof (cases "rejection_text c log i")
    case None
    then show ?thesis using 2 by auto
  next
    case (Some reason)
    let ?log = "log\<lparr>il_causal := quarantine_event (il_causal log) \<lparr>quar_id = i, quar_reason = reason\<rparr>\<rparr>"
    have pass: "identity_pass c ?log True is = (log', changed')" using 2(3) Some by simp
    have roots: "rejected_roots ?log |\<subseteq>| fmdom (identity_quarantined ?log)" "i |\<in>| rejected_roots ?log"
        "rejected_roots log |\<subseteq>| rejected_roots ?log"
      using quarantine_event_roots [of "il_causal log" "\<lparr>quar_id = i, quar_reason = reason\<rparr>"]
      by (auto simp: identity_quarantined_def)
    note IH = 2(2) [OF Some pass]
    then have "rejected_roots ?log |\<subseteq>| rejected_roots log'" by blast
    then have grow: "rejected_roots log |\<subseteq>| rejected_roots log'" "i |\<in>| rejected_roots log'"
      using roots(2,3) by (meson fsubset_trans, meson fsubsetD)
    have changed: "changed'" and sub: "rejected_roots log' |\<subseteq>| fmdom (identity_quarantined log')"
      using IH roots(1) by blast+
    have fields: "il_events log' = il_events log" "il_identity_id log' = il_identity_id log"
        "cg_parents (il_causal log') = cg_parents (il_causal log)"
      using IH by simp_all
    show ?thesis using grow changed sub fields by (metis list.set_intros(1))
  qed
qed simp

lemma identity_pass_candidate:
  assumes "identity_pass c log False (applicable_ids (il_causal log)) = (log', True)"
    and "rejected_roots log |\<subseteq>| fmdom (identity_quarantined log)"
  shows "recorded_ids log' |-| rejected_roots log' |\<subset>| recorded_ids log |-| rejected_roots log"
proof -
  note step = identity_pass_step [OF assms(1)]
  then obtain i where i: "i \<in> set (applicable_ids (il_causal log))" "i |\<in>| rejected_roots log'" by auto
  then have "i |\<in>| recorded_ids log" "i |\<notin>| rejected_roots log"
    using assms(2) by (auto simp: set_applicable_ids identity_quarantined_def ancestors_present_iff)
  then have "i |\<in>| recorded_ids log |-| rejected_roots log" "i |\<notin>| recorded_ids log' |-| rejected_roots log'"
    using i(2) by auto
  moreover have "recorded_ids log' |-| rejected_roots log' |\<subseteq>| recorded_ids log |-| rejected_roots log"
    using step by auto
  ultimately show ?thesis by (metis pfsubsetI)
qed

function quarantine_unauthorized :: "identity_crates \<Rightarrow> identity_control_log \<Rightarrow> identity_control_log" where
  "quarantine_unauthorized c log =
     (case identity_pass c log False (applicable_ids (il_causal log)) of
        (log', changed) \<Rightarrow> if changed then quarantine_unauthorized c log' else log')"
  by pat_completeness auto
termination
proof (relation "measures [\<lambda>(c :: identity_crates, log). if rejected_roots log |\<subseteq>| fmdom (identity_quarantined log) then 0 else 1,
    \<lambda>(c, log). fcard (recorded_ids log |-| rejected_roots log)]", goal_cases)
  case (2 c log log' changed)
  then have pass: "identity_pass c log False (applicable_ids (il_causal log)) = (log', True)" by simp
  show ?case
    using identity_pass_step [OF pass] pfsubset_fcard_mono [OF identity_pass_candidate [OF pass]] by auto
qed simp

declare quarantine_unauthorized.simps [simp del]

subsection \<open>Insertion\<close>

definition identity_status ::
    "identity_control_log \<Rightarrow> event_id \<Rightarrow> event_id causal_insert_status \<Rightarrow> identity_insert_status" where
  "identity_status log i inserted =
     (case fmlookup (identity_quarantined log) i of
        Some reason \<Rightarrow> IdentityQuarantined reason
      | None \<Rightarrow>
          (case inserted of
             CausalPending missing \<Rightarrow> IdentityPending missing
           | CausalQuarantined reason \<Rightarrow> IdentityQuarantined reason
           | CausalDuplicate \<Rightarrow> IdentityDuplicate
           | CausalConflict \<Rightarrow> IdentityDuplicate
           | CausalApplied \<Rightarrow> IdentityApplied))"

text \<open>The log with one more event, before quarantine.\<close>

definition with_event :: "identity_control_log \<Rightarrow> event_id \<Rightarrow> identity_event \<Rightarrow> identity_control_log" where
  "with_event log i ev =
     log\<lparr>il_events := fmupd i ev (il_events log),
         il_causal := ci_graph (insert_event (il_causal log) \<lparr>ins_id = i, ins_parents = ib_parents (ie_body ev)\<rparr>)\<rparr>"

definition insert_identity_event ::
    "identity_crates \<Rightarrow> identity_control_log \<Rightarrow> identity_event
      \<Rightarrow> (identity_control_log \<times> event_error, identity_control_log \<times> identity_insert_status) result"
where
  "insert_identity_event c log ev =
     (case validate_identity_envelope c ev (il_identity_id log) of
        Inl cause \<Rightarrow> Inl (log, cause)
      | Inr i \<Rightarrow>
          if i |\<in>| fmdom (il_events log) then Inr (log, IdentityDuplicate)
          else if is_genesis (ie_body ev) \<and> genesis_id log \<noteq> None then Inl (log, MultipleGenesisRoots)
          else
            let inserted = insert_event (il_causal log) \<lparr>ins_id = i, ins_parents = ib_parents (ie_body ev)\<rparr>;
                log' = quarantine_unauthorized c (with_event log i ev)
            in Inr (log', identity_status log' i (ci_status inserted)))"

text \<open>A rejected event ends the union with the log as it was before this event.\<close>

definition union_storage_step ::
    "identity_crates \<Rightarrow> identity_control_log \<Rightarrow> bytes \<Rightarrow> (identity_control_log \<times> event_error, identity_control_log) result"
where
  "union_storage_step c log bs =
     (case parse_identity_event c bs of
        Inl cause \<Rightarrow> Inl (log, cause)
      | Inr ev \<Rightarrow> and_then (insert_identity_event c log ev) (\<lambda>(log', _). Inr log'))"

definition union_storage_bytes ::
    "identity_crates \<Rightarrow> identity_control_log \<Rightarrow> bytes list
      \<Rightarrow> (identity_control_log \<times> event_error, identity_control_log) result"
where
  "union_storage_bytes c log batch = fold_result (union_storage_step c) log batch"

definition identity_storage_bytes :: "identity_crates \<Rightarrow> identity_control_log \<Rightarrow> (event_id \<times> bytes) list event_result" where
  "identity_storage_bytes c log =
     traverse (\<lambda>(i, ev). and_then (serialize_identity_event c ev) (\<lambda>bs. Inr (i, bs)))
       (sorted_list_of_fmap (il_events log))"

end
