(* ===== verification/IdentityState.thy ===== *)
theory IdentityState
  imports IdentityLog
begin

text \<open>
  The identity state that the control log projects to (identity_control/projection.rs), and the
  operations members build on it (identity_control/builder.rs, recovery.rs): members, join
  requests, the envelopes of every vault epoch, mounts and the sealed name.
\<close>

subsection \<open>State\<close>

record identity_recovery_member =
  rv_sealed_secret :: string
  rv_strength :: recovery_strength

datatype identity_member_kind = AppKind member_device | RecoveryKind identity_recovery_member

datatype identity_member_approver =
  ByFounder | ByInvite | ByApp app_id | ByRecoveryPassphrase app_id string

record identity_control_member =
  cm_keys :: identity_member_keys
  cm_approved_in :: event_id
  cm_kind :: identity_member_kind
  cm_approved_by :: identity_member_approver

record identity_join_request =
  jr_member :: identity_member_keys
  jr_request_event :: event_id
  jr_requested_at :: iso_timestamp

record identity_vault_epoch_deks =
  ve_key_epoch :: event_id
  ve_recipients :: "member_vault_dek list"
  ve_revoked_holders :: "app_id list"

record identity_control_vault =
  cv_store_id :: store_id
  cv_registered_in :: event_id
  cv_current_key_epoch :: event_id
  cv_epochs :: "identity_vault_epoch_deks list"

datatype dek_lookup = DekGranted member_vault_dek | DekNotGranted

definition dek_for :: "identity_control_vault \<Rightarrow> app_id \<Rightarrow> event_id \<Rightarrow> dek_lookup" where
  "dek_for v app epoch =
     (case Option.bind (find (\<lambda>e. ve_key_epoch e = epoch) (cv_epochs v))
         (\<lambda>e. find (\<lambda>dek. md_app_id dek = app) (ve_recipients e)) of
        None \<Rightarrow> DekNotGranted
      | Some dek \<Rightarrow> DekGranted dek)"

definition current_dek_for :: "identity_control_vault \<Rightarrow> app_id \<Rightarrow> dek_lookup" where
  "current_dek_for v app = dek_for v app (cv_current_key_epoch v)"

definition vault_revoked_holders :: "identity_control_vault \<Rightarrow> event_id \<Rightarrow> app_id list" where
  "vault_revoked_holders v epoch =
     (case find (\<lambda>e. ve_key_epoch e = epoch) (cv_epochs v) of None \<Rightarrow> [] | Some e \<Rightarrow> ve_revoked_holders e)"

record identity_control_state =
  cs_identity_id :: identity_id
  cs_members :: "identity_control_member list"
  cs_revoked :: "app_id list"
  cs_pending_joins :: "identity_join_request list"
  cs_denied_joins :: "app_id list"
  cs_vaults :: "identity_control_vault list"
  cs_removed_vaults :: "store_id list"
  cs_mounts :: "identity_provider_mount list"
  cs_sealed_name :: "member_sealed_name list"
  cs_heads :: "event_id list"

subsection \<open>Accumulating the applicable events\<close>

record vault_accumulator =
  va_registered_in :: "event_id option"
  va_current_key_epoch :: "event_id option"
  va_epochs :: "(event_id, (app_id, member_vault_dek) fmap) fmap"

definition default_vault :: vault_accumulator where
  "default_vault = \<lparr>va_registered_in = None, va_current_key_epoch = None, va_epochs = fmempty\<rparr>"

definition project_vault ::
    "vault_accumulator \<Rightarrow> store_id \<Rightarrow> (app_id, effective_member) fmap \<Rightarrow> identity_control_vault option" where
  "project_vault va st active =
     Option.bind (va_registered_in va) (\<lambda>registered.
     Option.bind (va_current_key_epoch va) (\<lambda>current.
       Some \<lparr>cv_store_id = st, cv_registered_in = registered, cv_current_key_epoch = current,
         cv_epochs = map (\<lambda>(epoch, recipients).
           let deks = map snd (sorted_list_of_fmap recipients)
           in \<lparr>ve_key_epoch = epoch,
               ve_recipients = filter (\<lambda>dek. md_app_id dek |\<in>| fmdom active) deks,
               ve_revoked_holders = map md_app_id (filter (\<lambda>dek. md_app_id dek |\<notin>| fmdom active) deks)\<rparr>)
           (sorted_list_of_fmap (va_epochs va))\<rparr>))"

datatype admitting_actor = AdmittedByFounder | AdmittedByInvite | AdmittedByMember auth_key_id

record admitted_entry =
  ad_keys :: identity_member_keys
  ad_approved_in :: event_id
  ad_kind :: identity_member_kind
  ad_admitted_by :: admitting_actor

record projection_accumulator =
  pa_created :: bool
  pa_member_keys :: "(app_id, admitted_entry) fmap"
  pa_signers :: "(auth_key_id, app_id) fmap"
  pa_requests :: "identity_join_request list"
  pa_resolutions :: "(event_id \<times> app_id) list"
  pa_denials :: "(event_id \<times> app_id) list"
  pa_vaults :: "(store_id, vault_accumulator) fmap"
  pa_removed_vaults :: "store_id fset"
  pa_mounts :: "(string, identity_provider_mount) fmap"
  pa_sealed_name :: "member_sealed_name list"

definition empty_accumulator :: projection_accumulator where
  "empty_accumulator = \<lparr>pa_created = False, pa_member_keys = fmempty, pa_signers = fmempty, pa_requests = [],
     pa_resolutions = [], pa_denials = [], pa_vaults = fmempty, pa_removed_vaults = {||}, pa_mounts = fmempty,
     pa_sealed_name = []\<rparr>"

definition vault_entry :: "(store_id, vault_accumulator) fmap \<Rightarrow> store_id \<Rightarrow> vault_accumulator" where
  "vault_entry vaults st = (case fmlookup vaults st of Some va \<Rightarrow> va | None \<Rightarrow> default_vault)"

definition epoch_entry :: "vault_accumulator \<Rightarrow> event_id \<Rightarrow> (app_id, member_vault_dek) fmap" where
  "epoch_entry va epoch = (case fmlookup (va_epochs va) epoch of Some m \<Rightarrow> m | None \<Rightarrow> fmempty)"

definition add_dek ::
    "(store_id, vault_accumulator) fmap \<Rightarrow> store_id \<Rightarrow> event_id \<Rightarrow> member_vault_dek
      \<Rightarrow> (store_id, vault_accumulator) fmap" where
  "add_dek vaults st epoch dek =
     (let va = vault_entry vaults st
      in fmupd st (va\<lparr>va_epochs := fmupd epoch (fmupd (md_app_id dek) dek (epoch_entry va epoch)) (va_epochs va)\<rparr>) vaults)"

text \<open>The grants of one admission, each wrapped to the admitted app.\<close>

definition granted_dek :: "app_id \<Rightarrow> identity_vault_dek_grant \<Rightarrow> member_vault_dek" where
  "granted_dek app g =
     \<lparr>md_app_id = app, md_secrets_key_ciphertext = dg_secrets_key_ciphertext g,
      md_members_key_ciphertext = dg_members_key_ciphertext g\<rparr>"

definition admit_member ::
    "identity_crates \<Rightarrow> projection_accumulator \<Rightarrow> event_id \<Rightarrow> identity_member_keys \<Rightarrow> identity_vault_dek_grant list
      \<Rightarrow> identity_member_kind \<Rightarrow> admitting_actor \<Rightarrow> projection_accumulator event_result" where
  "admit_member c pa i m deks kind by_actor =
     and_then (signing_actor c m) (\<lambda>actor.
       Inr (pa\<lparr>pa_signers := fmupd actor (mk_app_id m) (pa_signers pa),
               pa_member_keys := fmupd (mk_app_id m)
                 \<lparr>ad_keys = m, ad_approved_in = i, ad_kind = kind, ad_admitted_by = by_actor\<rparr> (pa_member_keys pa),
               pa_resolutions := pa_resolutions pa @ [(i, mk_app_id m)],
               pa_vaults := foldl (\<lambda>vaults g.
                   add_dek vaults (dg_store_id g) (dg_key_epoch g) (granted_dek (mk_app_id m) g)) (pa_vaults pa) deks\<rparr>))"

text \<open>The vault and its epoch are entered even when there is no recipient.\<close>

definition grant_recipients ::
    "(store_id, vault_accumulator) fmap \<Rightarrow> store_id \<Rightarrow> event_id \<Rightarrow> member_vault_dek list
      \<Rightarrow> (store_id, vault_accumulator) fmap" where
  "grant_recipients vaults st epoch recipients =
     (let va = vault_entry vaults st;
          entered = fmupd st (va\<lparr>va_current_key_epoch := Some epoch,
            va_epochs := fmupd epoch (epoch_entry va epoch) (va_epochs va)\<rparr>) vaults
      in foldl (\<lambda>vaults dek. add_dek vaults st epoch dek) entered recipients)"

fun apply_vault :: "event_id \<Rightarrow> projection_accumulator \<Rightarrow> identity_control_operation \<Rightarrow> projection_accumulator" where
  "apply_vault i pa (VaultRegistered st epoch recipients) =
     (let vaults = grant_recipients (pa_vaults pa) st epoch recipients
      in pa\<lparr>pa_vaults := (case fmlookup vaults st of
           Some va \<Rightarrow> fmupd st (va\<lparr>va_registered_in := Some i\<rparr>) vaults | None \<Rightarrow> vaults)\<rparr>)"
| "apply_vault i pa (VaultDekGranted st epoch recipients) =
     pa\<lparr>pa_vaults := grant_recipients (pa_vaults pa) st epoch recipients\<rparr>"
| "apply_vault i pa (VaultRemoved st) = pa\<lparr>pa_removed_vaults := finsert st (pa_removed_vaults pa)\<rparr>"
| "apply_vault i pa _ = pa"

fun apply_control ::
    "identity_crates \<Rightarrow> event_id \<Rightarrow> identity_event_body \<Rightarrow> projection_accumulator \<Rightarrow> identity_control_operation
      \<Rightarrow> projection_accumulator event_result" where
  "apply_control c i b pa (IdentityCreated founder) =
     admit_member c (pa\<lparr>pa_created := True\<rparr>) i founder [] (AppKind OwnDevice) AdmittedByFounder"
| "apply_control c i b pa (MemberJoinRequested m) =
     Inr (pa\<lparr>pa_requests := pa_requests pa @
       [\<lparr>jr_member = m, jr_request_event = i, jr_requested_at = ib_created_at b\<rparr>]\<rparr>)"
| "apply_control c i b pa (MemberApproved m deks device) =
     admit_member c pa i m deks (AppKind device) (AdmittedByMember (ib_actor_id b))"
| "apply_control c i b pa (MemberJoinedByInvite _ m _ deks) =
     admit_member c pa i m deks (AppKind OwnDevice) AdmittedByInvite"
| "apply_control c i b pa (RecoveryKeyAdded m sealed strength) =
     admit_member c pa i m [] (RecoveryKind \<lparr>rv_sealed_secret = sealed, rv_strength = strength\<rparr>) (AdmittedByMember (ib_actor_id b))"
| "apply_control c i b pa (MemberJoinDenied app) =
     Inr (pa\<lparr>pa_resolutions := pa_resolutions pa @ [(i, app)], pa_denials := pa_denials pa @ [(i, app)]\<rparr>)"
| "apply_control c i b pa (MemberRevoked app) = Inr (pa\<lparr>pa_resolutions := pa_resolutions pa @ [(i, app)]\<rparr>)"
| "apply_control c i b pa (MemberInvited _) = Inr pa"
| "apply_control c i b pa (IdentityMemberRenamed app label) =
     Inr (case fmlookup (pa_member_keys pa) app of
            None \<Rightarrow> pa
          | Some ad \<Rightarrow>
              pa\<lparr>pa_member_keys := fmupd app (ad\<lparr>ad_keys := (ad_keys ad)\<lparr>mk_label := label\<rparr>\<rparr>) (pa_member_keys pa)\<rparr>)"
| "apply_control c i b pa (ProviderMounted mount) =
     Inr (pa\<lparr>pa_mounts := fmupd (im_mount_id mount) mount (pa_mounts pa)\<rparr>)"
| "apply_control c i b pa (ProviderUnmounted mount) = Inr (pa\<lparr>pa_mounts := fmdrop mount (pa_mounts pa)\<rparr>)"
| "apply_control c i b pa (IdentityNamed recipients) = Inr (pa\<lparr>pa_sealed_name := recipients\<rparr>)"
| "apply_control c i b pa op = Inr (apply_vault i pa op)"

definition apply_control_event ::
    "identity_crates \<Rightarrow> projection_accumulator \<Rightarrow> event_id \<times> identity_event \<Rightarrow> projection_accumulator event_result" where
  "apply_control_event c pa p =
     (case p of (i, ev) \<Rightarrow> fold_result (apply_control c i (ie_body ev)) pa (ib_operations (ie_body ev)))"

subsection \<open>Projection\<close>

definition approver_of :: "projection_accumulator \<Rightarrow> admitting_actor \<Rightarrow> identity_member_approver event_result" where
  "approver_of pa by_actor =
     (case by_actor of
        AdmittedByFounder \<Rightarrow> Inr ByFounder
      | AdmittedByInvite \<Rightarrow> Inr ByInvite
      | AdmittedByMember actor \<Rightarrow>
          (case Option.bind (fmlookup (pa_signers pa) actor) (fmlookup (pa_member_keys pa)) of
             None \<Rightarrow> Inl (IdentityControlInvalid (''member approver '' @ auth_key_id_str actor
                       @ '' is not a member of the identity''))
           | Some ad \<Rightarrow>
               (case ad_kind ad of
                  AppKind _ \<Rightarrow> Inr (ByApp (mk_app_id (ad_keys ad)))
                | RecoveryKind _ \<Rightarrow> Inr (ByRecoveryPassphrase (mk_app_id (ad_keys ad)) (mk_label (ad_keys ad))))))"

definition denied_joins ::
    "projection_accumulator \<Rightarrow> identity_control_log \<Rightarrow> identity_join_request list \<Rightarrow> app_id list" where
  "denied_joins pa log pending =
     sort_dedup (map (\<lambda>asked. mk_app_id (jr_member asked)) (filter (\<lambda>asked.
       let app = mk_app_id (jr_member asked) in
         app |\<notin>| fmdom (pa_member_keys pa)
       \<and> \<not> list_ex (\<lambda>p. mk_app_id (jr_member p) = app) pending
       \<and> list_ex (\<lambda>(denial, denied). denied = app \<and> identity_is_ancestor log (jr_request_event asked) denial) (pa_denials pa))
       (pa_requests pa)))"

definition pending_joins ::
    "projection_accumulator \<Rightarrow> identity_control_log \<Rightarrow> (app_id, effective_member) fmap \<Rightarrow> identity_join_request list" where
  "pending_joins pa log active =
     filter (\<lambda>request. mk_app_id (jr_member request) |\<notin>| fmdom active
       \<and> \<not> list_ex (\<lambda>(resolution, app). app = mk_app_id (jr_member request)
              \<and> identity_is_ancestor log (jr_request_event request) resolution) (pa_resolutions pa))
       (pa_requests pa)"

definition active_members ::
    "projection_accumulator \<Rightarrow> (app_id, effective_member) fmap \<Rightarrow> identity_control_member list event_result" where
  "active_members pa active =
     traverse (\<lambda>(app, ad). and_then (approver_of pa (ad_admitted_by ad)) (\<lambda>approver.
         Inr \<lparr>cm_keys = ad_keys ad, cm_approved_in = ad_approved_in ad, cm_kind = ad_kind ad, cm_approved_by = approver\<rparr>))
       (filter (\<lambda>(app, _). app |\<in>| fmdom active) (sorted_list_of_fmap (pa_member_keys pa)))"

definition projected_state ::
    "projection_accumulator \<Rightarrow> identity_control_log \<Rightarrow> (app_id, effective_member) fmap
      \<Rightarrow> identity_control_member list \<Rightarrow> identity_control_state" where
  "projected_state pa log active members =
     (let pending = pending_joins pa log active in
      \<lparr>cs_identity_id = il_identity_id log,
       cs_members = members,
       cs_revoked = filter (\<lambda>app. app |\<notin>| fmdom active) (keys_of (pa_member_keys pa)),
       cs_pending_joins = pending,
       cs_denied_joins = denied_joins pa log pending,
       cs_vaults = List.map_filter (\<lambda>(st, va). project_vault va st active)
         (filter (\<lambda>(st, _). st |\<notin>| pa_removed_vaults pa) (sorted_list_of_fmap (pa_vaults pa))),
       cs_removed_vaults = elems (pa_removed_vaults pa),
       cs_mounts = map snd (sorted_list_of_fmap (pa_mounts pa)),
       cs_sealed_name = filter (\<lambda>sealed. sn_app_id sealed |\<in>| fmdom active) (pa_sealed_name pa),
       cs_heads = applicable_heads log\<rparr>)"

definition project_identity :: "identity_crates \<Rightarrow> identity_control_log \<Rightarrow> identity_control_state event_result" where
  "project_identity c log =
     and_then (ordered_applicable_events log) (\<lambda>ordered.
       let applicable = fset_of_list (map fst ordered) in
       and_then (fold_result (apply_control_event c) empty_accumulator ordered) (\<lambda>pa.
         if \<not> pa_created pa then Inl (IdentityControlInvalid ''identity log has no applicable genesis'')
         else and_then (effective_members c log applicable) (\<lambda>active.
           and_then (active_members pa active) (\<lambda>members.
             Inr (projected_state pa log active members)))))"

subsection \<open>Queries\<close>

definition sealed_name_for :: "identity_control_state \<Rightarrow> app_id \<Rightarrow> string option" where
  "sealed_name_for s app = map_option sn_name_ciphertext (find (\<lambda>n. sn_app_id n = app) (cs_sealed_name s))"

definition state_member :: "identity_control_state \<Rightarrow> app_id \<Rightarrow> identity_control_member option" where
  "state_member s app = find (\<lambda>m. mk_app_id (cm_keys m) = app) (cs_members s)"

definition app_members :: "identity_control_state \<Rightarrow> (identity_control_member \<times> member_device) list" where
  "app_members s = List.map_filter (\<lambda>m. case cm_kind m of AppKind device \<Rightarrow> Some (m, device) | RecoveryKind _ \<Rightarrow> None)
     (cs_members s)"

definition recovery_members :: "identity_control_state \<Rightarrow> (identity_control_member \<times> identity_recovery_member) list" where
  "recovery_members s = List.map_filter (\<lambda>m. case cm_kind m of RecoveryKind r \<Rightarrow> Some (m, r) | AppKind _ \<Rightarrow> None)
     (cs_members s)"

definition recovery_member :: "identity_control_state \<Rightarrow> app_id \<Rightarrow> (identity_control_member \<times> identity_recovery_member) option" where
  "recovery_member s app = find (\<lambda>(m, _). mk_app_id (cm_keys m) = app) (recovery_members s)"

definition share_a_device :: "identity_control_state \<Rightarrow> app_id \<Rightarrow> app_id \<Rightarrow> bool" where
  "share_a_device s app other =
     (let added_beside = (\<lambda>member beside. list_ex (\<lambda>(m, device). mk_app_id (cm_keys m) = member \<and> device = SameAs beside)
            (app_members s))
      in added_beside app other \<or> added_beside other app)"

definition device_members :: "identity_control_state \<Rightarrow> identity_control_member list" where
  "device_members s = map fst (filter (\<lambda>(_, device).
     case device of OwnDevice \<Rightarrow> True | SameAs app \<Rightarrow> state_member s app = None) (app_members s))"

definition state_vault :: "identity_control_state \<Rightarrow> store_id \<Rightarrow> identity_control_vault option" where
  "state_vault s st = find (\<lambda>v. cv_store_id v = st) (cs_vaults s)"

definition pending_join :: "identity_control_state \<Rightarrow> app_id \<Rightarrow> identity_join_request option" where
  "pending_join s app = find (\<lambda>request. mk_app_id (jr_member request) = app) (cs_pending_joins s)"

definition members_missing_current_dek :: "identity_control_state \<Rightarrow> store_id \<Rightarrow> identity_control_member list" where
  "members_missing_current_dek s st =
     (case state_vault s st of
        None \<Rightarrow> []
      | Some v \<Rightarrow> filter (\<lambda>m. current_dek_for v (mk_app_id (cm_keys m)) = DekNotGranted) (cs_members s))"

subsection \<open>Signed appends\<close>

definition signed_identity_event ::
    "identity_crates \<Rightarrow> identity_id \<Rightarrow> event_id list \<Rightarrow> identity_control_operation list \<Rightarrow> bytes \<Rightarrow> iso_timestamp
      \<Rightarrow> identity_event event_result" where
  "signed_identity_event c identity ps ops key at =
     (let vk = verifying_key_of (ic_base c) key in
      and_then (actor_id_for_verifying_key (ic_base c) vk) (\<lambda>actor.
        sign_identity_event c
          \<lparr>ib_schema_version = 1, ib_identity_id = identity, ib_actor_id = actor,
           ib_actor_signing_public_key = signing_key_from_trusted (hex_encode (ic_base c) vk),
           ib_parents = ps, ib_created_at = at, ib_operations = ops\<rparr> key))"

definition identity_genesis ::
    "identity_crates \<Rightarrow> identity_id \<Rightarrow> identity_member_keys \<Rightarrow> bytes \<Rightarrow> iso_timestamp \<Rightarrow> identity_event event_result" where
  "identity_genesis c identity founder key at = signed_identity_event c identity [] [IdentityCreated founder] key at"

definition build_append ::
    "identity_crates \<Rightarrow> identity_control_log \<Rightarrow> identity_control_operation list \<Rightarrow> bytes \<Rightarrow> iso_timestamp
      \<Rightarrow> identity_event event_result" where
  "build_append c log ops key at =
     (let hs = applicable_heads log in
      if hs = [] then Inl (IdentityControlInvalid ''identity log has no applicable genesis to extend'')
      else signed_identity_event c (il_identity_id log) hs ops key at)"

subsection \<open>Wrapping vault keys\<close>

record vault_keys =
  vk_secrets_key :: string
  vk_members_key :: string

record opened_vault_dek =
  ov_store_id :: store_id
  ov_key_epoch :: event_id
  ov_keys :: vault_keys

definition seal_bytes :: "identity_crates \<Rightarrow> string \<Rightarrow> string \<Rightarrow> (string, string) result" where
  "seal_bytes c key plaintext =
     (case age_recipient c key of
        Inl e \<Rightarrow> Inl (''Invalid recipient public key: '' @ e)
      | Inr recipient \<Rightarrow> age_seal c recipient plaintext)"

definition wrap_vault_keys :: "identity_crates \<Rightarrow> identity_member_keys \<Rightarrow> vault_keys \<Rightarrow> member_vault_dek event_result" where
  "wrap_vault_keys c m keys =
     and_then (control_checked (seal_bytes c (mk_encryption_public_key m) (vk_secrets_key keys))) (\<lambda>secrets.
     and_then (control_checked (seal_bytes c (mk_encryption_public_key m) (vk_members_key keys))) (\<lambda>members.
       Inr \<lparr>md_app_id = mk_app_id m, md_secrets_key_ciphertext = secrets, md_members_key_ciphertext = members\<rparr>))"

definition vault_dek_grants ::
    "identity_crates \<Rightarrow> identity_member_keys \<Rightarrow> opened_vault_dek list \<Rightarrow> identity_vault_dek_grant list event_result" where
  "vault_dek_grants c m vaults =
     traverse (\<lambda>opened. and_then (wrap_vault_keys c m (ov_keys opened)) (\<lambda>wrapped.
       Inr \<lparr>dg_store_id = ov_store_id opened, dg_key_epoch = ov_key_epoch opened,
            dg_secrets_key_ciphertext = md_secrets_key_ciphertext wrapped,
            dg_members_key_ciphertext = md_members_key_ciphertext wrapped\<rparr>)) vaults"

definition invite_issue_operation ::
    "identity_crates \<Rightarrow> identity_invite_id \<Rightarrow> bytes \<Rightarrow> iso_timestamp \<Rightarrow> identity_control_operation" where
  "invite_issue_operation c invite key expires_at =
     MemberInvited \<lparr>iv_invite_id = invite,
       iv_signing_public_key = signing_key_from_trusted (hex_encode (ic_base c) (verifying_key_of (ic_base c) key)),
       iv_expires_at = expires_at\<rparr>"

definition invite_join_operation ::
    "identity_crates \<Rightarrow> identity_id \<Rightarrow> identity_invite_id \<Rightarrow> bytes \<Rightarrow> identity_member_keys \<Rightarrow> opened_vault_dek list
      \<Rightarrow> identity_control_operation event_result" where
  "invite_join_operation c identity invite key m vaults =
     and_then (invite_proof_sign c identity invite m key) (\<lambda>sig.
     and_then (vault_dek_grants c m vaults) (\<lambda>deks.
       Inr (MemberJoinedByInvite invite m sig deks)))"

subsection \<open>Operations on the state\<close>

definition require_every_vault :: "identity_control_state \<Rightarrow> opened_vault_dek list \<Rightarrow> unit event_result" where
  "require_every_vault s vaults =
     fold_result (\<lambda>_ v. if list_ex (\<lambda>opened. ov_store_id opened = cv_store_id v
            \<and> ov_key_epoch opened = cv_current_key_epoch v) vaults
         then Inr () else Inl (IdentityApprovalIncomplete (store_id_str (cv_store_id v)))) () (cs_vaults s)"

definition approval_operation ::
    "identity_crates \<Rightarrow> identity_control_state \<Rightarrow> app_id \<Rightarrow> opened_vault_dek list \<Rightarrow> identity_control_operation event_result" where
  "approval_operation c s app vaults =
     (case pending_join s app of
        None \<Rightarrow> Inl (IdentityControlInvalid (''no pending identity join for app '' @ app_id_str app))
      | Some request \<Rightarrow>
          and_then (require_every_vault s vaults) (\<lambda>_.
          and_then (vault_dek_grants c (jr_member request) vaults) (\<lambda>deks.
            Inr (MemberApproved (jr_member request) deks OwnDevice))))"

definition already_member :: "app_id \<Rightarrow> event_error" where
  "already_member app = IdentityControlInvalid (''app '' @ app_id_str app @ '' is already an identity member'')"

definition addition_operation ::
    "identity_crates \<Rightarrow> identity_control_state \<Rightarrow> identity_member_keys \<Rightarrow> opened_vault_dek list \<Rightarrow> member_device
      \<Rightarrow> identity_control_operation event_result" where
  "addition_operation c s m vaults device =
     (if state_member s (mk_app_id m) \<noteq> None then Inl (already_member (mk_app_id m))
      else
        and_then (signing_actor c m) (\<lambda>_.
        and_then (case device of
            OwnDevice \<Rightarrow> Inr ()
          | SameAs app \<Rightarrow>
              if state_member s app = None
              then Inl (IdentityControlInvalid (''app '' @ app_id_str (mk_app_id m) @ '' cannot share the device of app ''
                     @ app_id_str app @ '', which is not a member''))
              else Inr ()) (\<lambda>_.
        and_then (require_every_vault s vaults) (\<lambda>_.
        and_then (vault_dek_grants c m vaults) (\<lambda>deks.
          Inr (MemberApproved m deks device))))))"

definition denial_operation :: "identity_control_state \<Rightarrow> app_id \<Rightarrow> identity_control_operation event_result" where
  "denial_operation s app =
     (if pending_join s app = None
      then Inl (IdentityControlInvalid (''no pending identity join for app '' @ app_id_str app))
      else Inr (MemberJoinDenied app))"

definition revocation_operation :: "identity_control_state \<Rightarrow> app_id \<Rightarrow> identity_control_operation event_result" where
  "revocation_operation s app =
     (case state_member s app of
        None \<Rightarrow> Inl (IdentityControlInvalid (''app '' @ app_id_str app @ '' is not an active identity member''))
      | Some m \<Rightarrow>
          (case cm_kind m of
             AppKind _ \<Rightarrow>
               if length (app_members s) = 1
               then Inl (IdentityControlInvalid ''an identity must keep at least one app key'')
               else Inr (MemberRevoked app)
           | RecoveryKind _ \<Rightarrow> Inr (MemberRevoked app)))"

text \<open>The loop that seals the name once per app; a sealing error ends it.\<close>

definition seal_name_step ::
    "identity_crates \<Rightarrow> string \<Rightarrow> member_sealed_name list \<Rightarrow> identity_member_keys \<Rightarrow> member_sealed_name list event_result" where
  "seal_name_step c name recipients keys =
     (if list_ex (\<lambda>sealed. sn_app_id sealed = mk_app_id keys) recipients then Inr recipients
      else and_then (control_checked (seal_bytes c (mk_encryption_public_key keys) name)) (\<lambda>ciphertext.
        Inr (recipients @ [\<lparr>sn_app_id = mk_app_id keys, sn_name_ciphertext = ciphertext\<rparr>])))"

definition naming_operation ::
    "identity_crates \<Rightarrow> identity_control_state \<Rightarrow> string \<Rightarrow> identity_member_keys option
      \<Rightarrow> identity_control_operation event_result" where
  "naming_operation c s raw joining =
     (let name = trim raw in
      if name = [] then Inl (IdentityControlInvalid ''an identity name must not be blank'')
      else and_then (fold_result (seal_name_step c name) []
          (map cm_keys (cs_members s) @ (case joining of None \<Rightarrow> [] | Some m \<Rightarrow> [m]))) (\<lambda>recipients.
        Inr (IdentityNamed recipients)))"

definition dek_recipients :: "identity_crates \<Rightarrow> identity_control_state \<Rightarrow> vault_keys \<Rightarrow> member_vault_dek list event_result" where
  "dek_recipients c s keys = traverse (\<lambda>m. wrap_vault_keys c (cm_keys m) keys) (cs_members s)"

definition vault_registration_operation ::
    "identity_crates \<Rightarrow> identity_control_state \<Rightarrow> opened_vault_dek \<Rightarrow> identity_control_operation event_result" where
  "vault_registration_operation c s dek =
     (if state_vault s (ov_store_id dek) \<noteq> None
      then Inl (IdentityControlInvalid (''vault '' @ store_id_str (ov_store_id dek)
             @ '' is already registered with this identity''))
      else and_then (dek_recipients c s (ov_keys dek)) (\<lambda>recipients.
        Inr (VaultRegistered (ov_store_id dek) (ov_key_epoch dek) recipients)))"

definition vault_rewrap_operation ::
    "identity_crates \<Rightarrow> identity_control_state \<Rightarrow> opened_vault_dek \<Rightarrow> identity_control_operation event_result" where
  "vault_rewrap_operation c s dek =
     (if state_vault s (ov_store_id dek) = None
      then Inl (IdentityControlInvalid (''vault '' @ store_id_str (ov_store_id dek)
             @ '' is not registered with this identity''))
      else and_then (dek_recipients c s (ov_keys dek)) (\<lambda>recipients.
        Inr (VaultDekGranted (ov_store_id dek) (ov_key_epoch dek) recipients)))"

subsection \<open>Recovery passphrases\<close>

definition recovery_addition_operations ::
    "identity_crates \<Rightarrow> identity_control_state \<Rightarrow> identity_member_keys \<Rightarrow> string \<Rightarrow> recovery_strength
      \<Rightarrow> opened_vault_dek list \<Rightarrow> identity_control_operation list event_result" where
  "recovery_addition_operations c s m sealed strength vaults =
     (if state_member s (mk_app_id m) \<noteq> None then Inl (already_member (mk_app_id m))
      else
        and_then (signing_actor c m) (\<lambda>_.
        and_then (require_every_vault s vaults) (\<lambda>_.
        and_then (traverse (\<lambda>opened. and_then (wrap_vault_keys c m (ov_keys opened)) (\<lambda>wrapped.
            Inr (VaultDekGranted (ov_store_id opened) (ov_key_epoch opened) [wrapped]))) vaults) (\<lambda>grants.
          Inr (RecoveryKeyAdded m sealed strength # grants)))))"

definition recovery_approval_operation ::
    "identity_crates \<Rightarrow> identity_control_state \<Rightarrow> app_id \<Rightarrow> identity_member_keys \<Rightarrow> opened_vault_dek list
      \<Rightarrow> identity_control_operation event_result" where
  "recovery_approval_operation c s recovery m vaults =
     (if recovery_member s recovery = None
      then Inl (IdentityControlInvalid (app_id_str recovery @ '' is not a recovery passphrase of this identity''))
      else if state_member s (mk_app_id m) \<noteq> None then Inl (already_member (mk_app_id m))
      else
        and_then (signing_actor c m) (\<lambda>_.
        and_then (require_every_vault s vaults) (\<lambda>_.
        and_then (vault_dek_grants c m vaults) (\<lambda>deks.
          Inr (MemberApproved m deks OwnDevice)))))"

end
