(* ===== verification/IdentityLaws.thy ===== *)
theory IdentityLaws
  imports IdentityLog EventGraphLaws
begin

text \<open>
  What the identity control log guarantees: a log built by insertion holds validated events only and
  nothing applicable is unauthorized; the members of a causal past are those with an admission that
  every revocation of the app precedes; an invite admits one device; a recovery passphrase is
  confined to its two operations.
\<close>

subsection \<open>Logs built by insertion\<close>

definition identity_log_wf :: "identity_crates \<Rightarrow> identity_control_log \<Rightarrow> bool" where
  "identity_log_wf c log \<longleftrightarrow>
     wf_graph (il_causal log)
   \<and> (\<forall>i. fmlookup (cg_parents (il_causal log)) i
        = map_option (\<lambda>ev. normalize_parents (ib_parents (ie_body ev))) (fmlookup (il_events log) i))
   \<and> (\<forall>i ev. fmlookup (il_events log) i = Some ev \<longrightarrow> validate_identity_envelope c ev (il_identity_id log) = Inr i)"

definition identity_settled :: "identity_crates \<Rightarrow> identity_control_log \<Rightarrow> bool" where
  "identity_settled c log \<longleftrightarrow> (\<forall>i\<in>set (applicable_ids (il_causal log)). rejection_text c log i = None)"

inductive identity_history :: "identity_crates \<Rightarrow> identity_control_log \<Rightarrow> bool" for c where
  identity_history_new: "identity_history c (new_identity_log identity)"
| identity_history_insert: "identity_history c log \<Longrightarrow>
    insert_identity_event c log ev = Inr (log', status) \<Longrightarrow> identity_history c log'"

lemma identity_pass_wf:
  "identity_pass c log changed is = (log', changed') \<Longrightarrow> identity_log_wf c log \<Longrightarrow> identity_log_wf c log'"
  by (induction c log changed "is" rule: identity_pass.induct)
    (auto split: option.splits simp: identity_log_wf_def wf_quarantine_event)

lemma identity_pass_True: "identity_pass c log True is = (log', changed) \<Longrightarrow> changed"
  using identity_pass_step [of c log True "is" log' changed] by blast

lemma identity_pass_unchanged:
  "identity_pass c log False is = (log', False) \<Longrightarrow> log' = log \<and> (\<forall>i\<in>set is. rejection_text c log i = None)"
  by (induction "is") (auto split: option.splits dest: identity_pass_True)

lemma quarantine_unauthorized_wf:
  assumes "identity_log_wf c log"
  shows "identity_log_wf c (quarantine_unauthorized c log) \<and> identity_settled c (quarantine_unauthorized c log)
    \<and> il_events (quarantine_unauthorized c log) = il_events log
    \<and> il_identity_id (quarantine_unauthorized c log) = il_identity_id log
    \<and> cg_parents (il_causal (quarantine_unauthorized c log)) = cg_parents (il_causal log)"
  using assms
proof (induction c log rule: quarantine_unauthorized.induct)
  case (1 c log)
  obtain log1 changed where pass: "identity_pass c log False (applicable_ids (il_causal log)) = (log1, changed)"
    by fastforce
  show ?case
  proof (cases changed)
    case True
    then show ?thesis
      using 1(1) [OF pass [symmetric] True identity_pass_wf [OF pass 1(2)]] identity_pass_step [OF pass]
      by (simp add: quarantine_unauthorized.simps [of c log] pass)
  next
    case False
    then show ?thesis
      using identity_pass_unchanged [of c log "applicable_ids (il_causal log)" log1] pass 1(2)
      by (auto simp: quarantine_unauthorized.simps [of c log] identity_settled_def)
  qed
qed

lemma with_event_wf:
  assumes wf: "identity_log_wf c log" and new: "fmlookup (il_events log) i = None"
    and valid: "validate_identity_envelope c ev (il_identity_id log) = Inr i"
  shows "identity_log_wf c (with_event log i ev)"
proof -
  have "fmlookup (cg_parents (il_causal log)) i = None" using wf new by (simp add: identity_log_wf_def)
  then have "cg_parents (il_causal (with_event log i ev))
      = fmupd i (normalize_parents (ib_parents (ie_body ev))) (cg_parents (il_causal log))"
    using insert_event_parents_new [of "il_causal log" "\<lparr>ins_id = i, ins_parents = ib_parents (ie_body ev)\<rparr>"]
    by (simp add: with_event_def)
  then show ?thesis
    using wf valid by (auto simp: identity_log_wf_def with_event_def wf_insert_event)
qed

lemma insert_identity_event_cases:
  assumes "insert_identity_event c log ev = Inr (log', status)"
  obtains (duplicate) "log' = log"
    | (inserted) i where "validate_identity_envelope c ev (il_identity_id log) = Inr i"
        "fmlookup (il_events log) i = None" "is_genesis (ie_body ev) \<Longrightarrow> genesis_id log = None"
        "log' = quarantine_unauthorized c (with_event log i ev)"
  using assms by (auto simp: insert_identity_event_def Let_def fmlookup_dom_iff split: sum.splits if_splits)

lemma identity_history_wf: "identity_history c log \<Longrightarrow> identity_log_wf c log \<and> identity_settled c log"
proof (induction rule: identity_history.induct)
  case (identity_history_new identity)
  have "cg_parents (new_graph :: event_id causal_graph) = fmempty" by (simp add: new_graph_def)
  then show ?case
    by (auto simp: new_identity_log_def identity_log_wf_def identity_settled_def wf_new_graph set_applicable_ids
        ancestors_present_iff)
next
  case (identity_history_insert log ev log' status)
  from identity_history_insert.hyps(2) show ?case
  proof (cases rule: insert_identity_event_cases)
    case duplicate
    then show ?thesis using identity_history_insert.IH by simp
  next
    case (inserted i)
    then show ?thesis
      using quarantine_unauthorized_wf [OF with_event_wf, of c log i ev] identity_history_insert.IH by simp
  qed
qed

subsection \<open>Admitted members have actors\<close>

lemma fold_result_unit_Inr: "fold_result (\<lambda>_. f) () xs = Inr () \<longleftrightarrow> (\<forall>x\<in>set xs. f x = Inr ())"
  by (induction xs) (auto simp: and_then_Inr_iff)

lemma validated_structure:
  assumes "validate_identity_envelope c ev identity = Inr i"
  shows "validate_operation_structure c (ie_body ev) = Inr ()" and "check_recovery_members c (ie_body ev) = Inr ()"
    and "verify_identity_actor c ev = Inr ()" and "identity_event_id c ev = Inr i"
    and "check_member_devices (ie_body ev) = Inr ()"
  using assms by (auto simp: validate_identity_envelope_def Let_def and_then_Inr_iff split: if_splits)

lemma check_self_signed_Inr:
  "check_self_signed c b m reason = Inr () \<longleftrightarrow> length (ib_operations b) = 1 \<and> signing_actor c m = Inr (ib_actor_id b)"
  by (auto simp: check_self_signed_def and_then_Inr_iff split: if_splits)

lemma admitted_member_actor:
  assumes "validate_identity_envelope c ev identity = Inr i"
    and "op \<in> set (ib_operations (ie_body ev))" and "admitted_member op = Some (m, role)"
  shows "\<exists>actor. signing_actor c m = Inr actor"
proof (cases "is_genesis (ie_body ev)")
  case True
  then show ?thesis
    using validated_structure(1) [OF assms(1)] assms(2,3)
    by (auto simp: validate_operation_structure_def and_then_Inr_iff split: list.splits identity_control_operation.splits)
next
  case False
  then have no_create: "\<not> is_identity_created op" and check: "check_operation c (ie_body ev) op = Inr ()"
    using validated_structure(1) [OF assms(1)] assms(2)
    by (auto simp: validate_operation_structure_def fold_result_unit_Inr list_ex_iff split: if_splits)
  have recovery: "(case op of RecoveryKeyAdded m _ _ \<Rightarrow> and_then (signing_actor c m) (\<lambda>_. Inr ()) | _ \<Rightarrow> Inr ()) = Inr ()"
    using validated_structure(2) [OF assms(1)] assms(2) by (simp add: check_recovery_members_def fold_result_unit_Inr)
  show ?thesis
    using no_create check recovery assms(3)
    by (cases op) (auto simp: and_then_Inr_iff check_self_signed_Inr)
qed

subsection \<open>Membership of a causal past\<close>

definition approvals_in :: "identity_crates \<Rightarrow> event_id \<Rightarrow> identity_control_operation list \<Rightarrow> member_approval list" where
  "approvals_in c i ops = List.map_filter (\<lambda>op.
     case admitted_member op of
       None \<Rightarrow> None
     | Some (m, role) \<Rightarrow>
         (case signing_actor c m of
            Inl _ \<Rightarrow> None
          | Inr actor \<Rightarrow> Some \<lparr>ma_event = i, ma_app_id = mk_app_id m, ma_actor = actor, ma_role = role\<rparr>)) ops"

definition revocations_in :: "event_id \<Rightarrow> identity_control_operation list \<Rightarrow> (event_id \<times> app_id) list" where
  "revocations_in i ops = List.map_filter (\<lambda>op. case op of MemberRevoked app \<Rightarrow> Some (i, app) | _ \<Rightarrow> None) ops"

lemma membership_operations_Inr:
  assumes "\<forall>op\<in>set ops. \<forall>m role. admitted_member op = Some (m, role) \<longrightarrow> (\<exists>actor. signing_actor c m = Inr actor)"
  shows "fold_result (membership_operation c i) h ops
    = Inr (h\<lparr>mh_approvals := mh_approvals h @ approvals_in c i ops,
             mh_revocations := mh_revocations h @ revocations_in i ops\<rparr>)"
  using assms
proof (induction ops arbitrary: h)
  case (Cons op ops)
  have step: "membership_operation c i h op
      = Inr (h\<lparr>mh_approvals := mh_approvals h @ approvals_in c i [op],
               mh_revocations := mh_revocations h @ revocations_in i [op]\<rparr>)"
    using Cons.prems by (cases op) (auto simp: membership_operation_def approvals_in_def revocations_in_def List.map_filter_simps)
  show ?case
    using Cons.IH Cons.prems step by (simp add: approvals_in_def revocations_in_def List.map_filter_def)
qed (simp add: approvals_in_def revocations_in_def List.map_filter_simps)

lemma identity_lookup_valid:
  "identity_log_wf c log \<Longrightarrow> fmlookup (il_events log) i = Some ev \<Longrightarrow>
    validate_identity_envelope c ev (il_identity_id log) = Inr i"
  by (simp add: identity_log_wf_def)

definition event_operations :: "identity_control_log \<Rightarrow> event_id \<Rightarrow> identity_control_operation list" where
  "event_operations log i =
     (case fmlookup (il_events log) i of None \<Rightarrow> [] | Some ev \<Rightarrow> ib_operations (ie_body ev))"

lemma membership_history_Inr:
  assumes "identity_log_wf c log"
  shows "membership_history_of c log E = Inr
    \<lparr>mh_approvals = concat (map (\<lambda>i. approvals_in c i (event_operations log i)) (elems E)),
     mh_revocations = concat (map (\<lambda>i. revocations_in i (event_operations log i)) (elems E))\<rparr>"
proof -
  have "membership_event c log h i = Inr (h
      \<lparr>mh_approvals := mh_approvals h @ approvals_in c i (event_operations log i),
       mh_revocations := mh_revocations h @ revocations_in i (event_operations log i)\<rparr>)" for h i
  proof (cases "fmlookup (il_events log) i")
    case None
    then show ?thesis
      by (simp add: membership_event_def event_operations_def approvals_in_def revocations_in_def List.map_filter_simps)
  next
    case (Some ev)
    have "\<forall>op\<in>set (ib_operations (ie_body ev)). \<forall>m role. admitted_member op = Some (m, role) \<longrightarrow>
        (\<exists>actor. signing_actor c m = Inr actor)"
      using admitted_member_actor [OF identity_lookup_valid [OF assms Some]] by blast
    from membership_operations_Inr [OF this] show ?thesis
      using Some by (simp add: membership_event_def event_operations_def)
  qed
  then have "fold_result (membership_event c log) h is = Inr (h
      \<lparr>mh_approvals := mh_approvals h @ concat (map (\<lambda>i. approvals_in c i (event_operations log i)) is),
       mh_revocations := mh_revocations h @ concat (map (\<lambda>i. revocations_in i (event_operations log i)) is)\<rparr>)" for h "is"
    by (induction "is" arbitrary: h) simp_all
  then show ?thesis by (simp add: membership_history_of_def)
qed

text \<open>An admission of an app by an event of the set, and what lets it stand.\<close>

definition admits_in ::
    "identity_crates \<Rightarrow> identity_control_log \<Rightarrow> event_id fset \<Rightarrow> event_id \<Rightarrow> app_id \<Rightarrow> auth_key_id \<Rightarrow> member_role \<Rightarrow> bool" where
  "admits_in c log E i app actor role \<longleftrightarrow> i |\<in>| E
     \<and> (\<exists>op\<in>set (event_operations log i). \<exists>m. admitted_member op = Some (m, role)
          \<and> mk_app_id m = app \<and> signing_actor c m = Inr actor)"

definition unrevoked_after :: "identity_control_log \<Rightarrow> event_id fset \<Rightarrow> event_id \<Rightarrow> app_id \<Rightarrow> bool" where
  "unrevoked_after log E i app \<longleftrightarrow>
     (\<forall>j. j |\<in>| E \<and> MemberRevoked app \<in> set (event_operations log j) \<longrightarrow> identity_is_ancestor log j i)"

lemma in_map_filter: "y \<in> set (List.map_filter f xs) \<longleftrightarrow> (\<exists>x\<in>set xs. f x = Some y)"
  by (force simp: List.map_filter_def)

lemma set_approvals_in:
  "a \<in> set (approvals_in c i ops) \<longleftrightarrow> ma_event a = i \<and> (\<exists>op\<in>set ops. \<exists>m. admitted_member op = Some (m, ma_role a)
     \<and> mk_app_id m = ma_app_id a \<and> signing_actor c m = Inr (ma_actor a))"
proof -
  have "(case admitted_member op of
       None \<Rightarrow> None
     | Some (m, role) \<Rightarrow>
         (case signing_actor c m of
            Inl _ \<Rightarrow> None
          | Inr actor \<Rightarrow> Some \<lparr>ma_event = i, ma_app_id = mk_app_id m, ma_actor = actor, ma_role = role\<rparr>)) = Some a
      \<longleftrightarrow> ma_event a = i \<and> (\<exists>m. admitted_member op = Some (m, ma_role a)
         \<and> mk_app_id m = ma_app_id a \<and> signing_actor c m = Inr (ma_actor a))" for op
    by (cases a) (auto split: option.splits sum.splits)
  then show ?thesis unfolding approvals_in_def in_map_filter by auto
qed

lemma set_revocations_in: "p \<in> set (revocations_in i ops) \<longleftrightarrow> fst p = i \<and> MemberRevoked (snd p) \<in> set ops"
proof -
  have "(case op of MemberRevoked app \<Rightarrow> Some (i, app) | _ \<Rightarrow> None) = Some p \<longleftrightarrow> fst p = i \<and> op = MemberRevoked (snd p)" for op
    by (cases op; cases p) auto
  then show ?thesis unfolding revocations_in_def in_map_filter by auto
qed

lemma approval_survives_iff:
  assumes "set revocations = (\<Union>j\<in>fset E. set (revocations_in j (event_operations log j)))"
  shows "approval_survives log revocations a \<longleftrightarrow> unrevoked_after log E (ma_event a) (ma_app_id a)"
  unfolding approval_survives_def list_all_iff set_filter assms unrevoked_after_def identity_is_ancestor_def
  by (auto simp: set_revocations_in)

text \<open>The fold over the approvals collects the actors of each app and its joined role.\<close>

lemma joined_role_recovery: "joined_role a b = RecoveryRole \<longleftrightarrow> a = RecoveryRole \<or> b = RecoveryRole"
  by (cases a; cases b) auto

lemma admitted_fold:
  fixes P :: "member_approval \<Rightarrow> bool"
  defines "M \<equiv> \<lambda>as. foldl (\<lambda>members a. if P a then admit_approval members a else members) fmempty as"
  shows "app |\<in>| fmdom (M as) \<longleftrightarrow> (\<exists>a\<in>set as. P a \<and> ma_app_id a = app)"
    and "fmlookup (M as) app = Some m \<Longrightarrow> actor |\<in>| em_actors m \<longleftrightarrow> (\<exists>a\<in>set as. P a \<and> ma_app_id a = app \<and> ma_actor a = actor)"
    and "fmlookup (M as) app = Some m \<Longrightarrow> em_role m = RecoveryRole \<longleftrightarrow> (\<exists>a\<in>set as. P a \<and> ma_app_id a = app \<and> ma_role a = RecoveryRole)"
proof -
  have "(app |\<in>| fmdom (M as) \<longleftrightarrow> (\<exists>a\<in>set as. P a \<and> ma_app_id a = app))
    \<and> (\<forall>m. fmlookup (M as) app = Some m \<longrightarrow>
        (\<forall>actor. actor |\<in>| em_actors m \<longleftrightarrow> (\<exists>a\<in>set as. P a \<and> ma_app_id a = app \<and> ma_actor a = actor))
      \<and> (em_role m = RecoveryRole \<longleftrightarrow> (\<exists>a\<in>set as. P a \<and> ma_app_id a = app \<and> ma_role a = RecoveryRole)))"
  proof (induction as rule: rev_induct)
    case Nil
    then show ?case by (simp add: M_def)
  next
    case (snoc a as)
    have M: "M (as @ [a]) = (if P a then admit_approval (M as) a else M as)" by (simp add: M_def)
    show ?case
    proof (cases "P a \<and> ma_app_id a = app")
      case True
      then show ?thesis
        using snoc.IH fmdom_notI [of "M as" app]
        by (cases "fmlookup (M as) app")
          (auto simp: M admit_approval_def Let_def joined_role_recovery fmlookup_dom_iff)
    next
      case False
      then have "fmlookup (M (as @ [a])) app = fmlookup (M as) app" by (simp add: M admit_approval_def Let_def)
      then show ?thesis using snoc.IH False by (auto simp: fmlookup_dom_iff)
    qed
  qed
  then show "app |\<in>| fmdom (M as) \<longleftrightarrow> (\<exists>a\<in>set as. P a \<and> ma_app_id a = app)"
    and "fmlookup (M as) app = Some m \<Longrightarrow> actor |\<in>| em_actors m \<longleftrightarrow> (\<exists>a\<in>set as. P a \<and> ma_app_id a = app \<and> ma_actor a = actor)"
    and "fmlookup (M as) app = Some m \<Longrightarrow> em_role m = RecoveryRole \<longleftrightarrow> (\<exists>a\<in>set as. P a \<and> ma_app_id a = app \<and> ma_role a = RecoveryRole)"
    by blast+
qed

lemma effective_members_Inr:
  assumes "identity_log_wf c log"
  shows "\<exists>members. effective_members c log E = Inr members
    \<and> (\<forall>app. app |\<in>| fmdom members \<longleftrightarrow> (\<exists>i actor role. admits_in c log E i app actor role \<and> unrevoked_after log E i app))
    \<and> (\<forall>app m. fmlookup members app = Some m \<longrightarrow>
         (\<forall>actor. actor |\<in>| em_actors m \<longleftrightarrow> (\<exists>i role. admits_in c log E i app actor role \<and> unrevoked_after log E i app))
       \<and> (em_role m = RecoveryRole \<longleftrightarrow> (\<exists>i actor. admits_in c log E i app actor RecoveryRole \<and> unrevoked_after log E i app)))"
proof -
  let ?as = "concat (map (\<lambda>i. approvals_in c i (event_operations log i)) (elems E))"
  let ?rs = "concat (map (\<lambda>i. revocations_in i (event_operations log i)) (elems E))"
  let ?P = "approval_survives log ?rs"
  have rs: "set ?rs = (\<Union>j\<in>fset E. set (revocations_in j (event_operations log j)))" by simp
  have approval: "(\<exists>a\<in>set ?as. ?P a \<and> ma_app_id a = app \<and> ma_actor a = actor \<and> ma_role a = role)
      \<longleftrightarrow> (\<exists>i. admits_in c log E i app actor role \<and> unrevoked_after log E i app)" for app actor role
  proof
    assume "\<exists>a\<in>set ?as. ?P a \<and> ma_app_id a = app \<and> ma_actor a = actor \<and> ma_role a = role"
    then show "\<exists>i. admits_in c log E i app actor role \<and> unrevoked_after log E i app"
      unfolding approval_survives_iff [OF rs] by (auto simp: set_approvals_in admits_in_def)
  next
    assume "\<exists>i. admits_in c log E i app actor role \<and> unrevoked_after log E i app"
    then obtain i where "admits_in c log E i app actor role" "unrevoked_after log E i app" by blast
    then show "\<exists>a\<in>set ?as. ?P a \<and> ma_app_id a = app \<and> ma_actor a = actor \<and> ma_role a = role"
      unfolding approval_survives_iff [OF rs]
      by (intro bexI [of _ "\<lparr>ma_event = i, ma_app_id = app, ma_actor = actor, ma_role = role\<rparr>"])
        (auto simp: set_approvals_in admits_in_def)
  qed
  obtain as P where as: "as = ?as" and P: "P = ?P" by blast
  let ?M = "foldl (\<lambda>members a. if P a then admit_approval members a else members) fmempty as"
  let ?Q = "\<lambda>i app actor role. admits_in c log E i app actor role \<and> unrevoked_after log E i app"
  note approval = approval [folded as P]
  have eq: "effective_members c log E = Inr ?M"
    by (simp add: effective_members_def membership_history_Inr [OF assms] as P)
  have dom: "app |\<in>| fmdom ?M \<longleftrightarrow> (\<exists>i actor role. ?Q i app actor role)" for app
    unfolding admitted_fold(1) using approval [of app] by blast
  have role: "em_role m = RecoveryRole \<longleftrightarrow> (\<exists>i actor. ?Q i app actor RecoveryRole)"
    if m: "fmlookup ?M app = Some m" for app m
    unfolding admitted_fold(3) [OF m] using approval [of app _ RecoveryRole] by blast
  have actors: "actor |\<in>| em_actors m \<longleftrightarrow> (\<exists>i role. ?Q i app actor role)"
    if m: "fmlookup ?M app = Some m" for app m actor
    unfolding admitted_fold(2) [OF m] using approval [of app actor] by blast
  show ?thesis using eq dom role actors by (intro exI [of _ ?M]) simp
qed

text \<open>The members before an event, and its own admission, never end in an error.\<close>

definition members_before ::
    "identity_crates \<Rightarrow> identity_control_log \<Rightarrow> identity_event \<Rightarrow> (app_id, effective_member) fmap event_result" where
  "members_before c log ev = effective_members c log (ancestry log (ib_parents (ie_body ev)))"

lemma members_before_Inr: "identity_log_wf c log \<Longrightarrow> \<exists>members. members_before c log ev = Inr members"
  using effective_members_Inr unfolding members_before_def by blast

lemma and_then_total:
  "\<exists>x. r = Inr x \<Longrightarrow> (\<And>x. \<exists>y. f x = Inr y) \<Longrightarrow> \<exists>y. and_then r f = Inr y"
  by auto

lemma recovery_revocation_Inr:
  assumes "identity_log_wf c log"
  shows "\<exists>r. recovery_revocation c log i recovery rs = Inr r"
proof (induction rs)
  case (Cons r rs)
  have "\<exists>y. and_then (members_before c log ev) (\<lambda>members.
      if P members then Inr (Some r) else recovery_revocation c log i recovery rs) = Inr y" for ev P
    by (rule and_then_total [OF members_before_Inr [OF assms]]) (use Cons in simp)
  then show ?case using Cons by (simp add: members_before_def split: option.split)
qed simp

lemma revoked_recovery_rejection_Inr:
  assumes "identity_log_wf c log"
  shows "\<exists>reason. revoked_recovery_rejection c log i ev members = Inr reason"
  unfolding revoked_recovery_rejection_def
  by (auto split: option.split intro!: and_then_total [OF recovery_revocation_Inr [OF assms]])

lemma unauthorized_reason_Inr:
  assumes "identity_log_wf c log"
  shows "\<exists>reason. unauthorized_reason c log i = Inr reason"
proof (cases "fmlookup (il_events log) i")
  case (Some ev)
  have "\<exists>y. (if P then case a of Some reason \<Rightarrow> Inr (Some reason) | None \<Rightarrow> revoked_recovery_rejection c log i ev members
      else Inr (Some t)) = Inr y" for P a members t
    using revoked_recovery_rejection_Inr [OF assms] by (simp split: option.split)
  from and_then_total [OF members_before_Inr [OF assms] this] show ?thesis
    by (simp add: unauthorized_reason_def members_before_def Some)
qed (simp add: unauthorized_reason_def)

lemma settled_reason:
  assumes "identity_log_wf c log" and "identity_settled c log" and "i \<in> set (applicable_ids (il_causal log))"
  shows "unauthorized_reason c log i = Inr None"
  using unauthorized_reason_Inr [OF assms(1), of i] assms(2,3)
  by (auto simp: identity_settled_def rejection_text_def)

lemma applicable_recorded:
  assumes "identity_log_wf c log" and "i \<in> set (applicable_ids (il_causal log))"
  obtains ev where "fmlookup (il_events log) i = Some ev"
proof -
  have "i |\<in>| fmdom (cg_parents (il_causal log))"
    using assms(2) by (auto simp: set_applicable_ids ancestors_present_iff)
  then show ?thesis using assms(1) that by (auto simp: identity_log_wf_def fmlookup_dom_iff)
qed

lemma ordered_applicable_total:
  assumes wf: "identity_log_wf c log"
  obtains evs where "ordered_applicable_events log = Inr evs" and "distinct (map fst evs)"
    and "set (map fst evs) = set (applicable_ids (il_causal log))"
    and "placed_after_parents (cg_parents (il_causal log)) (map fst evs)"
    and "\<forall>(i, ev)\<in>set evs. fmlookup (il_events log) i = Some ev"
proof -
  have causal: "wf_graph (il_causal log)" using wf by (simp add: identity_log_wf_def)
  obtain ids where ids: "topological_order (il_causal log) = Inr ids" "distinct ids"
      "set ids = set (applicable_ids (il_causal log))" "placed_after_parents (cg_parents (il_causal log)) ids"
    using topological_order_total [OF causal] by blast
  let ?f = "\<lambda>i. case fmlookup (il_events log) i of Some ev \<Rightarrow> Inr (i, ev) | None \<Rightarrow> Inl (MissingEvent (event_id_str i))"
  have "\<exists>evs. traverse ?f is = Inr evs \<and> map fst evs = is \<and> (\<forall>(i, ev)\<in>set evs. fmlookup (il_events log) i = Some ev)"
    if "\<forall>i\<in>set is. \<exists>ev. fmlookup (il_events log) i = Some ev" for "is"
    using that by (induction "is") force+
  moreover have "\<forall>i\<in>set ids. \<exists>ev. fmlookup (il_events log) i = Some ev"
    unfolding ids(3) using applicable_recorded [OF wf] by blast
  ultimately obtain evs where "traverse ?f ids = Inr evs" "map fst evs = ids"
      "\<forall>(i, ev)\<in>set evs. fmlookup (il_events log) i = Some ev" by blast
  then show ?thesis using that [of evs] ids unfolding ordered_applicable_events_def by simp
qed

lemma acting_member_Some:
  "acting_member members actor = Some (app, m) \<Longrightarrow> fmlookup members app = Some m \<and> actor |\<in>| em_actors m"
proof -
  assume "acting_member members actor = Some (app, m)"
  then have "(app, m) \<in> set (sorted_list_of_fmap members)" "actor |\<in>| em_actors m"
    by (auto simp: acting_member_def find_Some_iff dest: nth_mem)
  then show ?thesis by (simp add: set_sorted_list_of_fmap)
qed

lemma acting_member_None:
  "acting_member members actor = None \<longleftrightarrow> \<not> list_ex (\<lambda>(_, m). actor |\<in>| em_actors m) (sorted_list_of_fmap members)"
  by (auto simp: acting_member_def find_None_iff list_ex_iff)

subsection \<open>What an applicable event satisfies\<close>

definition signed_by_member :: "(app_id, effective_member) fmap \<Rightarrow> identity_event \<Rightarrow> bool" where
  "signed_by_member members ev \<longleftrightarrow>
     (\<exists>app m. fmlookup members app = Some m \<and> ib_actor_id (ie_body ev) |\<in>| em_actors m)"

lemma signed_by_member_list:
  "list_ex (\<lambda>(_, m). ib_actor_id (ie_body ev) |\<in>| em_actors m) (sorted_list_of_fmap members) \<longleftrightarrow> signed_by_member members ev"
  by (auto simp: list_ex_iff set_sorted_list_of_fmap signed_by_member_def)

lemma recovery_revocation_None:
  assumes "recovery_revocation c log i recovery rs = Inr None" and "r \<in> set rs" and "r \<noteq> i"
    and "fmlookup (il_events log) r = Some revocation"
    and "MemberRevoked recovery \<in> set (ib_operations (ie_body revocation))"
    and "members_before c log revocation = Inr signers" and "signed_by_member signers revocation"
  shows "identity_is_ancestor log i r"
proof -
  have revokes: "list_ex (revokes_member recovery) (ib_operations (ie_body revocation))"
    using assms(5) by (force simp: list_ex_iff)
  show ?thesis
    using assms(1,2)
  proof (induction rs)
    case (Cons x rs)
    then show ?case
      using assms(3,4,6,7) revokes
      by (cases "x = r") (auto simp: identity_is_ancestor_def members_before_def signed_by_member_list and_then_Inr_iff
          split: if_splits option.splits)
  qed simp
qed

text \<open>The three ways an event by its own authority is allowed, and the member's way.\<close>

lemma unauthorized_None:
  assumes "unauthorized_reason c log i = Inr None" and "fmlookup (il_events log) i = Some ev"
  shows "is_genesis (ie_body ev) \<or> is_self_signed_join_request c ev
    \<or> invite_join ev \<noteq> None \<and> invite_join_rejection c log i ev = None
    \<or> (\<exists>members. members_before c log ev = Inr members \<and> signed_by_member members ev
         \<and> member_action_rejection ev members = None \<and> revoked_recovery_rejection c log i ev members = Inr None)"
  using assms unfolding unauthorized_reason_def members_before_def signed_by_member_list
  by (auto simp: and_then_Inr_iff split: if_splits option.splits)

lemma invite_join_not_genesis:
  "validate_identity_envelope c ev identity = Inr i \<Longrightarrow> invite_join ev \<noteq> None \<Longrightarrow>
    \<not> is_genesis (ie_body ev) \<and> \<not> is_self_signed_join_request c ev"
  by (drule validated_structure(1))
    (auto simp: validate_operation_structure_def split: list.splits identity_control_operation.splits if_splits)

lemma invite_join_rejection_None:
  assumes "invite_join ev = Some (invite, m, sig)" and "invite_join_rejection c log i ev = None"
  shows "invite_join_holds c log ev"
    and "fmlookup (il_events log) j = Some other \<Longrightarrow> invite_join other = Some (invite, m', sig') \<Longrightarrow>
      invite_join_holds c log other \<Longrightarrow> i \<le> j"
proof -
  show "invite_join_holds c log ev"
    using assms by (auto simp: invite_join_rejection_def split: if_splits)
  show "i \<le> j" if "fmlookup (il_events log) j = Some other" "invite_join other = Some (invite, m', sig')"
      "invite_join_holds c log other"
  proof (rule ccontr)
    assume "\<not> i \<le> j"
    then have "list_ex (\<lambda>(other_id, other). other_id < i
        \<and> (case invite_join other of Some (other_invite, _, _) \<Rightarrow> other_invite = invite | None \<Rightarrow> False)
        \<and> invite_join_holds c log other) (sorted_list_of_fmap (il_events log))"
      using that by (force simp: list_ex_iff set_sorted_list_of_fmap)
    then show False using assms by (auto simp: invite_join_rejection_def split: if_splits)
  qed
qed

lemma no_members_before_genesis:
  assumes "identity_log_wf c log" and "is_genesis (ie_body ev)" and "members_before c log ev = Inr members"
  shows "fmlookup members app = None"
proof -
  have "ancestry log (ib_parents (ie_body ev)) = {||}" using assms(2) by (simp add: is_genesis_def ancestry_def)
  then have "app |\<notin>| fmdom members"
    using effective_members_Inr [OF assms(1), of "{||}"] assms(3) by (auto simp: members_before_def admits_in_def)
  then show ?thesis by (rule fmdom_notD)
qed

lemma first_recovery:
  assumes "acting_member members actor = Some (app, m)" and "em_role m = RecoveryRole"
  shows "find (\<lambda>(_, m). actor |\<in>| em_actors m \<and> em_role m = RecoveryRole) (sorted_list_of_fmap members) = Some (app, m)"
proof -
  have "find P xs = Some p \<Longrightarrow> Q p \<Longrightarrow> find (\<lambda>x. P x \<and> Q x) xs = Some p" for P Q :: "'a \<Rightarrow> bool" and xs p
    by (induction xs) (auto split: if_splits)
  from this [OF assms(1) [unfolded acting_member_def], of "\<lambda>(_, m). em_role m = RecoveryRole"] assms(2)
  show ?thesis by (simp add: case_prod_unfold)
qed

subsection \<open>Properties\<close>

text \<open>C2: an identity log built by insertion holds no unauthorized applicable event: each one validates
  under its id for this identity, and is the founder's genesis, a join request signed by the app it
  names, an invite join with a valid proof of an invite issued before it, or signed by a member
  effective in its causal past; and ordering the log never fails and lists exactly these events,
  parents first.\<close>

theorem identity_log_is_authorized:
  assumes "identity_history c log"
  shows "(\<forall>i\<in>set (applicable_ids (il_causal log)). \<exists>ev. fmlookup (il_events log) i = Some ev
        \<and> validate_identity_envelope c ev (il_identity_id log) = Inr i
        \<and> (is_genesis (ie_body ev) \<or> is_self_signed_join_request c ev \<or> invite_join_holds c log ev
           \<or> (\<exists>members. members_before c log ev = Inr members \<and> signed_by_member members ev)))
    \<and> (\<exists>evs. ordered_applicable_events log = Inr evs \<and> distinct (map fst evs)
        \<and> set (map fst evs) = set (applicable_ids (il_causal log))
        \<and> placed_after_parents (cg_parents (il_causal log)) (map fst evs))"
proof -
  note wf = conjunct1 [OF identity_history_wf [OF assms]] and settled = conjunct2 [OF identity_history_wf [OF assms]]
  have "\<exists>evs. ordered_applicable_events log = Inr evs \<and> distinct (map fst evs)
        \<and> set (map fst evs) = set (applicable_ids (il_causal log))
        \<and> placed_after_parents (cg_parents (il_causal log)) (map fst evs)"
    using ordered_applicable_total [OF wf] by metis
  moreover have "\<exists>ev. fmlookup (il_events log) i = Some ev
        \<and> validate_identity_envelope c ev (il_identity_id log) = Inr i
        \<and> (is_genesis (ie_body ev) \<or> is_self_signed_join_request c ev \<or> invite_join_holds c log ev
           \<or> (\<exists>members. members_before c log ev = Inr members \<and> signed_by_member members ev))"
    if i: "i \<in> set (applicable_ids (il_causal log))" for i
  proof -
    obtain ev where ev: "fmlookup (il_events log) i = Some ev" using applicable_recorded [OF wf i] .
    note authorized = unauthorized_None [OF settled_reason [OF wf settled i] ev]
    have joins: "invite_join ev \<noteq> None \<and> invite_join_rejection c log i ev = None \<longrightarrow> invite_join_holds c log ev"
      using invite_join_rejection_None(1) by (cases "invite_join ev") auto
    show ?thesis
      by (rule exI [of _ ev]) (use joins identity_lookup_valid [OF wf ev] ev authorized in meson)
  qed
  ultimately show ?thesis by blast
qed

text \<open>C10: of all the joins that use one invite, at most one is applicable: an invite admits one device,
  whatever arrives in whatever order.\<close>

theorem invite_admits_once:
  assumes "identity_history c log"
    and "i \<in> set (applicable_ids (il_causal log))" and "j \<in> set (applicable_ids (il_causal log))"
    and "fmlookup (il_events log) i = Some ev" and "fmlookup (il_events log) j = Some other"
    and "invite_join ev = Some (invite, m, sig)" and "invite_join other = Some (invite, m', sig')"
  shows "i = j"
proof -
  note wf = conjunct1 [OF identity_history_wf [OF assms(1)]] and settled = conjunct2 [OF identity_history_wf [OF assms(1)]]
  have passes: "invite_join_rejection c log k e = None"
    if "k \<in> set (applicable_ids (il_causal log))" "fmlookup (il_events log) k = Some e" "invite_join e \<noteq> None" for k e
    using settled_reason [OF wf settled that(1)] that(2,3)
      invite_join_not_genesis [OF identity_lookup_valid [OF wf that(2)] that(3)]
    by (auto simp: unauthorized_reason_def)
  have "invite_join_rejection c log i ev = None" "invite_join_rejection c log j other = None"
    using passes assms(2-7) by auto
  then have "i \<le> j" "j \<le> i"
    using invite_join_rejection_None assms(4-7) by metis+
  then show ?thesis by simp
qed

text \<open>C11: the members of a causal past are computed without error, and an app is one exactly when some
  admission of it in that past is causally after every revocation of it there, so a concurrent
  revocation wins; its actors are those of such admissions, and an app once so admitted as a
  recovery passphrase keeps that role.\<close>

theorem effective_members_exact:
  assumes "identity_history c log"
  shows "\<exists>members. effective_members c log E = Inr members
    \<and> (\<forall>app. app |\<in>| fmdom members \<longleftrightarrow> (\<exists>i actor role. admits_in c log E i app actor role \<and> unrevoked_after log E i app))
    \<and> (\<forall>app m. fmlookup members app = Some m \<longrightarrow>
         (\<forall>actor. actor |\<in>| em_actors m \<longleftrightarrow> (\<exists>i role. admits_in c log E i app actor role \<and> unrevoked_after log E i app))
       \<and> (em_role m = RecoveryRole \<longleftrightarrow> (\<exists>i actor. admits_in c log E i app actor RecoveryRole \<and> unrevoked_after log E i app)))"
  using effective_members_Inr identity_history_wf [OF assms] by blast

text \<open>C12: a recovery passphrase is confined.  An applicable event signed by it is a self-signed join request,
  or a join by an invite that holds, or it contains only approvals of apps that are no members, on
  their own device, and its own removal, and precedes every applicable removal of the passphrase by
  an entitled member.\<close>

theorem recovery_passphrase_confined:
  assumes "identity_history c log" and "i \<in> set (applicable_ids (il_causal log))"
    and "fmlookup (il_events log) i = Some ev" and "members_before c log ev = Inr members"
    and "acting_member members (ib_actor_id (ie_body ev)) = Some (app, m)" and "em_role m = RecoveryRole"
  shows "is_self_signed_join_request c ev \<or> invite_join_holds c log ev
    \<or> (\<forall>op\<in>set (ib_operations (ie_body ev)). op = MemberRevoked app
          \<or> (\<exists>new deks. op = MemberApproved new deks OwnDevice \<and> mk_app_id new |\<notin>| fmdom members))
      \<and> (\<forall>r revocation signers. r \<in> set (applicable_ids (il_causal log)) \<and> r \<noteq> i
          \<and> fmlookup (il_events log) r = Some revocation
          \<and> MemberRevoked app \<in> set (ib_operations (ie_body revocation))
          \<and> members_before c log revocation = Inr signers \<and> signed_by_member signers revocation
          \<longrightarrow> identity_is_ancestor log i r)"
proof -
  note wf = conjunct1 [OF identity_history_wf [OF assms(1)]] and settled = conjunct2 [OF identity_history_wf [OF assms(1)]]
  have "\<not> is_genesis (ie_body ev)"
    using no_members_before_genesis [OF wf _ assms(4)] acting_member_Some [OF assms(5)] by auto
  then consider "is_self_signed_join_request c ev" | "invite_join ev \<noteq> None" "invite_join_rejection c log i ev = None"
    | "member_action_rejection ev members = None" "revoked_recovery_rejection c log i ev members = Inr None"
    using unauthorized_None [OF settled_reason [OF wf settled assms(2)] assms(3)] assms(4) by auto
  then show ?thesis
  proof cases
    case 2
    then show ?thesis using invite_join_rejection_None(1) by (cases "invite_join ev") auto
  next
    case 3
    have "\<not> refused_for_recovery app members op" if "op \<in> set (ib_operations (ie_body ev))" for op
      using 3(1) that assms(5,6) by (auto simp: member_action_rejection_def list_ex_iff split: if_splits)
    then have "\<forall>op\<in>set (ib_operations (ie_body ev)). op = MemberRevoked app
          \<or> (\<exists>new deks. op = MemberApproved new deks OwnDevice \<and> mk_app_id new |\<notin>| fmdom members)"
      by (metis refused_for_recovery.elims(3))
    moreover have "recovery_revocation c log i app (applicable_ids (il_causal log)) = Inr None"
      using 3(2) first_recovery [OF assms(5,6)] by (auto simp: revoked_recovery_rejection_def and_then_Inr_iff)
    ultimately show ?thesis using recovery_revocation_None by blast
  qed simp
qed

end
