(* ===== verification/IdentityStateLaws.thy ===== *)
theory IdentityStateLaws
  imports IdentityState IdentityLaws
begin

text \<open>
  What the identity state guarantees: projecting a log built by insertion fails only without an
  applicable genesis, its members are the effective ones, nothing of a removed vault or a removed
  member is left in it, and the operations built on it keep every vault open and one app key.
\<close>

subsection \<open>The accumulator\<close>

lemma admit_member_fields:
  assumes "admit_member c pa i m deks kind by_actor = Inr pa'"
  shows "pa_created pa' = pa_created pa" and "pa_removed_vaults pa' = pa_removed_vaults pa"
    and "\<exists>actor. signing_actor c m = Inr actor \<and> pa_signers pa' = fmupd actor (mk_app_id m) (pa_signers pa)"
    and "pa_member_keys pa' = fmupd (mk_app_id m)
      \<lparr>ad_keys = m, ad_approved_in = i, ad_kind = kind, ad_admitted_by = by_actor\<rparr> (pa_member_keys pa)"
  using assms by (auto simp: admit_member_def and_then_Inr_iff)

fun approves_member :: "identity_control_operation \<Rightarrow> bool" where
  "approves_member (MemberApproved _ _ _) = True"
| "approves_member (RecoveryKeyAdded _ _ _) = True"
| "approves_member _ = False"

lemma apply_control_simple:
  assumes "apply_control c i b pa op = Inr pa'"
  shows "pa_created pa' \<longleftrightarrow> pa_created pa \<or> is_identity_created op"
    and "pa_removed_vaults pa' = (case op of VaultRemoved st \<Rightarrow> finsert st (pa_removed_vaults pa) | _ \<Rightarrow> pa_removed_vaults pa)"
    and "case admitted_member op of
        None \<Rightarrow> pa_signers pa' = pa_signers pa
      | Some (m, _) \<Rightarrow> \<exists>actor. signing_actor c m = Inr actor \<and> pa_signers pa' = fmupd actor (mk_app_id m) (pa_signers pa)"
  using assms by (cases op; auto dest: admit_member_fields simp: Let_def split: option.splits)+

lemma apply_control_members:
  assumes "apply_control c i b pa op = Inr pa'"
  shows "fmdom (pa_member_keys pa') = (case admitted_member op of
      Some (m, _) \<Rightarrow> finsert (mk_app_id m) (fmdom (pa_member_keys pa)) | None \<Rightarrow> fmdom (pa_member_keys pa))"
    and "fmlookup (pa_member_keys pa') app = Some ad \<Longrightarrow>
      (\<exists>m role. admitted_member op = Some (m, role) \<and> mk_app_id (ad_keys ad) = app
         \<and> (\<forall>actor. ad_admitted_by ad = AdmittedByMember actor \<longrightarrow> actor = ib_actor_id b \<and> approves_member op))
    \<or> (\<exists>old. fmlookup (pa_member_keys pa) app = Some old \<and> mk_app_id (ad_keys ad) = mk_app_id (ad_keys old)
         \<and> ad_admitted_by ad = ad_admitted_by old)"
  using assms by (cases op; auto dest!: admit_member_fields(4) intro: fmdomI simp: Let_def split: option.splits if_splits)+

lemma apply_control_total:
  assumes "\<And>m role. admitted_member op = Some (m, role) \<Longrightarrow> \<exists>actor. signing_actor c m = Inr actor"
  shows "\<exists>pa'. apply_control c i b pa op = Inr pa'"
  using assms by (cases op) (auto simp: admit_member_def)

text \<open>What an accumulator records of the operations applied so far.\<close>

type_synonym applied_operation = "event_id \<times> identity_event_body \<times> identity_control_operation"

definition admitted_by_ops :: "identity_crates \<Rightarrow> applied_operation set \<Rightarrow> app_id \<Rightarrow> auth_key_id \<Rightarrow> bool" where
  "admitted_by_ops c D app actor \<longleftrightarrow>
     (\<exists>(i, b, op)\<in>D. \<exists>m role. admitted_member op = Some (m, role) \<and> mk_app_id m = app \<and> signing_actor c m = Inr actor)"

definition accumulates :: "identity_crates \<Rightarrow> applied_operation set \<Rightarrow> projection_accumulator \<Rightarrow> bool" where
  "accumulates c D pa \<longleftrightarrow>
     (pa_created pa \<longleftrightarrow> (\<exists>(i, b, op)\<in>D. is_identity_created op))
   \<and> (\<forall>st. st |\<in>| pa_removed_vaults pa \<longleftrightarrow> (\<exists>i b. (i, b, VaultRemoved st) \<in> D))
   \<and> (\<forall>app. app |\<in>| fmdom (pa_member_keys pa) \<longleftrightarrow> (\<exists>actor. admitted_by_ops c D app actor))
   \<and> (\<forall>actor. actor |\<in>| fmdom (pa_signers pa) \<longleftrightarrow> (\<exists>app. admitted_by_ops c D app actor))
   \<and> (\<forall>actor app. fmlookup (pa_signers pa) actor = Some app \<longrightarrow> admitted_by_ops c D app actor)
   \<and> (\<forall>app ad. fmlookup (pa_member_keys pa) app = Some ad \<longrightarrow> mk_app_id (ad_keys ad) = app
        \<and> (\<forall>actor. ad_admitted_by ad = AdmittedByMember actor \<longrightarrow>
             (\<exists>(i, b, op)\<in>D. actor = ib_actor_id b \<and> approves_member op)))"

lemma accumulates_empty: "accumulates c {} empty_accumulator"
  by (simp add: accumulates_def empty_accumulator_def admitted_by_ops_def)

lemma admitted_by_ops_insert:
  "admitted_by_ops c (insert (i, b, op) D) app actor \<longleftrightarrow> admitted_by_ops c D app actor
    \<or> (\<exists>m role. admitted_member op = Some (m, role) \<and> mk_app_id m = app \<and> signing_actor c m = Inr actor)"
  by (auto simp: admitted_by_ops_def)

lemma accumulates_step:
  assumes acc: "accumulates c D pa" and step: "apply_control c i b pa op = Inr pa'"
  shows "accumulates c (insert (i, b, op) D) pa'"
proof -
  note simple = apply_control_simple [OF step] and members = apply_control_members [OF step]
  have created: "pa_created pa' \<longleftrightarrow> (\<exists>(i, b, op)\<in>insert (i, b, op) D. is_identity_created op)"
    and removed: "\<forall>st. st |\<in>| pa_removed_vaults pa' \<longleftrightarrow> (\<exists>j d. (j, d, VaultRemoved st) \<in> insert (i, b, op) D)"
    using acc simple(1,2) by (auto simp: accumulates_def split: identity_control_operation.splits)
  have ops: "admitted_by_ops c (insert (i, b, op) D) app actor \<longleftrightarrow> admitted_by_ops c D app actor
      \<or> (\<exists>m role. admitted_member op = Some (m, role) \<and> mk_app_id m = app \<and> signing_actor c m = Inr actor)"
    for app actor by (rule admitted_by_ops_insert)
  have keys: "app |\<in>| fmdom (pa_member_keys pa') \<longleftrightarrow> (\<exists>actor. admitted_by_ops c (insert (i, b, op) D) app actor)" for app
    using acc members(1) simple(3) unfolding ops accumulates_def by (cases "admitted_member op") auto
  have signers: "actor |\<in>| fmdom (pa_signers pa') \<longleftrightarrow> (\<exists>app. admitted_by_ops c (insert (i, b, op) D) app actor)" for actor
    using acc simple(3) unfolding ops accumulates_def by (cases "admitted_member op") auto
  have signed: "admitted_by_ops c (insert (i, b, op) D) app actor" if "fmlookup (pa_signers pa') actor = Some app" for app actor
    using acc simple(3) that unfolding ops accumulates_def by (cases "admitted_member op") (auto split: if_splits)
  have entry: "mk_app_id (ad_keys ad) = app \<and> (\<forall>actor. ad_admitted_by ad = AdmittedByMember actor \<longrightarrow>
      (\<exists>(i, b, op)\<in>insert (i, b, op) D. actor = ib_actor_id b \<and> approves_member op))"
    if "fmlookup (pa_member_keys pa') app = Some ad" for app ad
    using members(2) [OF that]
  proof
    assume "\<exists>old. fmlookup (pa_member_keys pa) app = Some old \<and> mk_app_id (ad_keys ad) = mk_app_id (ad_keys old)
         \<and> ad_admitted_by ad = ad_admitted_by old"
    then obtain old where old: "fmlookup (pa_member_keys pa) app = Some old"
      "mk_app_id (ad_keys ad) = mk_app_id (ad_keys old)" "ad_admitted_by ad = ad_admitted_by old" by blast
    then show ?thesis using acc unfolding accumulates_def by auto
  qed auto
  show ?thesis using created removed keys signers signed entry unfolding accumulates_def by blast
qed

lemma accumulate_operations:
  assumes "\<forall>op\<in>set ops. \<forall>m role. admitted_member op = Some (m, role) \<longrightarrow> (\<exists>actor. signing_actor c m = Inr actor)"
    and "accumulates c D pa"
  shows "\<exists>pa'. fold_result (apply_control c i b) pa ops = Inr pa' \<and> accumulates c (D \<union> {(i, b, op) | op. op \<in> set ops}) pa'"
  using assms
proof (induction ops arbitrary: D pa)
  case (Cons op ops)
  obtain pa1 where step: "apply_control c i b pa op = Inr pa1" using apply_control_total Cons.prems(1) by force
  have "accumulates c (insert (i, b, op) D) pa1" by (rule accumulates_step [OF Cons.prems(2) step])
  from Cons.IH [OF _ this] obtain pa2 where "fold_result (apply_control c i b) pa1 ops = Inr pa2"
      "accumulates c (insert (i, b, op) D \<union> {(i, b, op) | op. op \<in> set ops}) pa2"
    using Cons.prems(1) by auto
  moreover have "insert (i, b, op) D \<union> {(i, b, op) | op. op \<in> set ops} = D \<union> {(i, b, op') | op'. op' \<in> set (op # ops)}"
    by auto
  ultimately show ?case using step by simp
qed simp

definition operations_of :: "(event_id \<times> identity_event) list \<Rightarrow> applied_operation set" where
  "operations_of evs = {(i, ie_body ev, op) | i ev op. (i, ev) \<in> set evs \<and> op \<in> set (ib_operations (ie_body ev))}"

lemma accumulate_events:
  assumes wf: "identity_log_wf c log" and "\<forall>(i, ev)\<in>set evs. fmlookup (il_events log) i = Some ev"
  shows "\<exists>pa. fold_result (apply_control_event c) empty_accumulator evs = Inr pa \<and> accumulates c (operations_of evs) pa"
  using assms(2)
proof (induction evs rule: rev_induct)
  case Nil
  then show ?case by (simp add: operations_of_def accumulates_empty)
next
  case (snoc p evs)
  obtain i ev where p: "p = (i, ev)" by (cases p)
  from snoc obtain pa where pa: "fold_result (apply_control_event c) empty_accumulator evs = Inr pa"
      "accumulates c (operations_of evs) pa" by auto
  have "fmlookup (il_events log) i = Some ev" using snoc.prems p by simp
  then have "\<forall>op\<in>set (ib_operations (ie_body ev)). \<forall>m role. admitted_member op = Some (m, role) \<longrightarrow>
      (\<exists>actor. signing_actor c m = Inr actor)"
    using admitted_member_actor identity_lookup_valid [OF wf] by blast
  from accumulate_operations [OF this pa(2), of i "ie_body ev"] obtain pa' where pa':
      "apply_control_event c pa p = Inr pa'"
      "accumulates c (operations_of evs \<union> {(i, ie_body ev, op) | op. op \<in> set (ib_operations (ie_body ev))}) pa'"
    by (auto simp: apply_control_event_def p)
  have "operations_of (evs @ [p]) = operations_of evs \<union> {(i, ie_body ev, op) | op. op \<in> set (ib_operations (ie_body ev))}"
    by (auto simp: operations_of_def p)
  then show ?case using pa pa' by (simp add: fold_result_append)
qed

subsection \<open>The causal past of an applicable event is applicable\<close>

lemma identity_next_rel:
  assumes "identity_log_wf c log"
  shows "next_rel (fmmap (\<lambda>ev. ib_parents (ie_body ev)) (il_events log)) = next_rel (cg_parents (il_causal log))"
  using assms by (auto simp: next_rel_iff identity_log_wf_def normalize_parents_def)

lemma fset_ancestry:
  assumes "identity_log_wf c log"
  shows "fset (ancestry log ps) = (next_rel (cg_parents (il_causal log)))\<^sup>* `` set ps"
  by (simp add: ancestry_def reach_loop_from_empty identity_next_rel [OF assms])

lemma past_applicable:
  assumes wf: "identity_log_wf c log" and "i \<in> set (applicable_ids (il_causal log))"
    and ev: "fmlookup (il_events log) i = Some ev" and j: "j |\<in>| ancestry log (ib_parents (ie_body ev))"
  shows "j \<in> set (applicable_ids (il_causal log))"
proof -
  have causal: "wf_graph (il_causal log)" using wf by (simp add: identity_log_wf_def)
  obtain p where p: "p \<in> set (ib_parents (ie_body ev))" "(p, j) \<in> (next_rel (cg_parents (il_causal log)))\<^sup>*"
    using j fset_ancestry [OF wf] by auto
  have "(i, p) \<in> next_rel (cg_parents (il_causal log))"
    using p(1) ev wf by (auto simp: next_rel_iff identity_log_wf_def normalize_parents_def)
  then have "p \<in> set (applicable_ids (il_causal log))" using applicable_parent_closed [OF causal assms(2)] by blast
  from p(2) this show ?thesis
  proof (induction rule: rtrancl_induct)
    case (step y z)
    then show ?case using applicable_parent_closed [OF causal] by blast
  qed
qed

subsection \<open>Projection\<close>

lemma join_request_shape: "is_self_signed_join_request c ev \<Longrightarrow> \<exists>m. ib_operations (ie_body ev) = [MemberJoinRequested m]"
  by (cases "tl (ib_operations (ie_body ev))") (auto split: list.splits identity_control_operation.splits)

lemma invite_join_shape: "invite_join ev \<noteq> None \<Longrightarrow>
    \<exists>invite m sig deks. ib_operations (ie_body ev) = [MemberJoinedByInvite invite m sig deks]"
  by (auto split: list.splits identity_control_operation.splits)

declare is_self_signed_join_request.simps [simp del] invite_join.simps [simp del]

lemma approver_signed:
  assumes wf: "identity_log_wf c log" and settled: "identity_settled c log"
    and i: "i \<in> set (applicable_ids (il_causal log))" and ev: "fmlookup (il_events log) i = Some ev"
    and op: "op \<in> set (ib_operations (ie_body ev))" "approves_member op"
  obtains members where "members_before c log ev = Inr members" and "signed_by_member members ev"
proof -
  have valid: "validate_identity_envelope c ev (il_identity_id log) = Inr i" by (rule identity_lookup_valid [OF wf ev])
  have "\<not> is_genesis (ie_body ev)"
    using validated_structure(1) [OF valid] op
    by (auto simp: validate_operation_structure_def split: list.splits identity_control_operation.splits)
  moreover have "\<not> is_self_signed_join_request c ev" "invite_join ev = None"
    using op join_request_shape [of c ev] invite_join_shape [of ev] by fastforce+
  ultimately show ?thesis using unauthorized_None [OF settled_reason [OF wf settled i] ev] that by auto
qed

lemma genesis_creates:
  assumes "validate_identity_envelope c ev identity = Inr i"
  shows "is_genesis (ie_body ev) \<longleftrightarrow> (\<exists>op\<in>set (ib_operations (ie_body ev)). is_identity_created op)"
  using validated_structure(1) [OF assms]
  by (auto simp: validate_operation_structure_def list_ex_iff split: list.splits identity_control_operation.splits if_splits)

lemma project_identity_parts:
  assumes "identity_history c log"
  obtains evs pa active where "ordered_applicable_events log = Inr evs"
    and "set (map fst evs) = set (applicable_ids (il_causal log))"
    and "\<forall>(i, ev)\<in>set evs. fmlookup (il_events log) i = Some ev"
    and "fold_result (apply_control_event c) empty_accumulator evs = Inr pa" and "accumulates c (operations_of evs) pa"
    and "effective_members c log (fset_of_list (map fst evs)) = Inr active"
    and "\<exists>members. active_members pa active = Inr members"
proof -
  note wf = conjunct1 [OF identity_history_wf [OF assms]] and settled = conjunct2 [OF identity_history_wf [OF assms]]
  obtain evs where evs: "ordered_applicable_events log = Inr evs" "set (map fst evs) = set (applicable_ids (il_causal log))"
      "\<forall>(i, ev)\<in>set evs. fmlookup (il_events log) i = Some ev"
    using ordered_applicable_total [OF wf] by metis
  obtain pa where pa: "fold_result (apply_control_event c) empty_accumulator evs = Inr pa"
      "accumulates c (operations_of evs) pa"
    using accumulate_events [OF wf evs(3)] by blast
  obtain active where active: "effective_members c log (fset_of_list (map fst evs)) = Inr active"
    using effective_members_Inr [OF wf] by blast
  have "\<exists>a. approver_of pa (ad_admitted_by ad) = Inr a" if ad: "fmlookup (pa_member_keys pa) app = Some ad" for app ad
  proof (cases "ad_admitted_by ad")
    case (AdmittedByMember actor)
    then obtain i b op where "(i, b, op) \<in> operations_of evs" "actor = ib_actor_id b" "approves_member op"
      using pa(2) ad unfolding accumulates_def by blast
    then obtain ev where ev: "(i, ev) \<in> set evs" "op \<in> set (ib_operations (ie_body ev))" "approves_member op"
        "actor = ib_actor_id (ie_body ev)"
      by (auto simp: operations_of_def)
    then have i: "i \<in> set (applicable_ids (il_causal log))" "fmlookup (il_events log) i = Some ev"
      using evs(2,3) by force+
    obtain members where members: "members_before c log ev = Inr members" "signed_by_member members ev"
      using approver_signed [OF wf settled i ev(2,3)] .
    then obtain j a role where j: "admits_in c log (ancestry log (ib_parents (ie_body ev))) j a actor role"
      using effective_members_Inr [OF wf, of "ancestry log (ib_parents (ie_body ev))"]
      unfolding members_before_def signed_by_member_def ev(4) by (metis Inr_inject)
    then have "j \<in> set (map fst evs)" using past_applicable [OF wf i] evs(2) by (auto simp: admits_in_def)
    then obtain e where e: "(j, e) \<in> set evs" by auto
    then have "fmlookup (il_events log) j = Some e" using evs(3) by auto
    then have "admitted_by_ops c (operations_of evs) a actor"
      using j e unfolding admits_in_def admitted_by_ops_def operations_of_def event_operations_def by fastforce
    then obtain app' where "fmlookup (pa_signers pa) actor = Some app'" "admitted_by_ops c (operations_of evs) app' actor"
      using pa(2) unfolding accumulates_def by (metis fmdomE)
    moreover from this obtain ad' where "fmlookup (pa_member_keys pa) app' = Some ad'"
      using pa(2) unfolding accumulates_def by (metis fmdomE)
    ultimately show ?thesis
      using AdmittedByMember by (cases "ad_kind ad'") (auto simp: approver_of_def)
  qed (simp_all add: approver_of_def)
  then have "\<exists>members. active_members pa active = Inr members"
    unfolding active_members_def traverse_ok_iff by (force simp: set_sorted_list_of_fmap)
  with evs pa active show ?thesis using that by blast
qed

lemma identity_projects_iff:
  assumes "identity_history c log"
  shows "(\<exists>s. project_identity c log = Inr s)
    \<longleftrightarrow> (\<exists>i\<in>set (applicable_ids (il_causal log)). \<exists>ev. fmlookup (il_events log) i = Some ev \<and> is_genesis (ie_body ev))"
proof -
  note wf = conjunct1 [OF identity_history_wf [OF assms]]
  obtain evs pa active where parts: "ordered_applicable_events log = Inr evs"
    "set (map fst evs) = set (applicable_ids (il_causal log))"
    "\<forall>(i, ev)\<in>set evs. fmlookup (il_events log) i = Some ev"
    "fold_result (apply_control_event c) empty_accumulator evs = Inr pa" "accumulates c (operations_of evs) pa"
    "effective_members c log (fset_of_list (map fst evs)) = Inr active" "\<exists>members. active_members pa active = Inr members"
    using project_identity_parts [OF assms] .
  have "pa_created pa \<longleftrightarrow> (\<exists>(i, ev)\<in>set evs. \<exists>op\<in>set (ib_operations (ie_body ev)). is_identity_created op)"
    using parts(5) by (fastforce simp: accumulates_def operations_of_def)
  also have "\<dots> \<longleftrightarrow> (\<exists>(i, ev)\<in>set evs. is_genesis (ie_body ev))"
    using genesis_creates identity_lookup_valid [OF wf] parts(3) by fast
  also have "\<dots> \<longleftrightarrow> (\<exists>i\<in>set (applicable_ids (il_causal log)). \<exists>ev. fmlookup (il_events log) i = Some ev \<and> is_genesis (ie_body ev))"
    unfolding parts(2) [symmetric] using parts(3) by force
  finally have created: "pa_created pa \<longleftrightarrow> \<dots>" .
  have "(\<exists>s. project_identity c log = Inr s) \<longleftrightarrow> pa_created pa"
    using parts(4,6,7) by (auto simp: project_identity_def parts(1) Let_def)
  then show ?thesis using created by blast
qed

text \<open>Projecting an identity log built by insertion succeeds exactly when a genesis event is
  applicable, and otherwise fails with the error that says so: no member's keys, approver or
  order is ever missing.\<close>

theorem identity_projection_total:
  assumes "identity_history c log"
  shows "((\<exists>s. project_identity c log = Inr s)
      \<longleftrightarrow> (\<exists>i\<in>set (applicable_ids (il_causal log)). \<exists>ev. fmlookup (il_events log) i = Some ev \<and> is_genesis (ie_body ev)))
    \<and> (\<forall>e. project_identity c log = Inl e \<longrightarrow> e = IdentityControlInvalid ''identity log has no applicable genesis'')"
proof -
  obtain evs pa active where parts: "ordered_applicable_events log = Inr evs"
    "fold_result (apply_control_event c) empty_accumulator evs = Inr pa"
    "effective_members c log (fset_of_list (map fst evs)) = Inr active" "\<exists>members. active_members pa active = Inr members"
    using project_identity_parts [OF assms] .
  then have "e = IdentityControlInvalid ''identity log has no applicable genesis''" if "project_identity c log = Inl e" for e
    using that by (auto simp: project_identity_def Let_def split: if_splits)
  then show ?thesis using identity_projects_iff [OF assms] by blast
qed

lemma project_identity_Inr:
  assumes "identity_history c log" and "project_identity c log = Inr s"
  obtains evs pa active members where "set (map fst evs) = set (applicable_ids (il_causal log))"
    and "\<forall>(i, ev)\<in>set evs. fmlookup (il_events log) i = Some ev" and "accumulates c (operations_of evs) pa"
    and "effective_members c log (fset_of_list (applicable_ids (il_causal log))) = Inr active"
    and "active_members pa active = Inr members" and "s = projected_state pa log active members"
proof -
  obtain evs pa active where parts: "ordered_applicable_events log = Inr evs"
    "set (map fst evs) = set (applicable_ids (il_causal log))"
    "\<forall>(i, ev)\<in>set evs. fmlookup (il_events log) i = Some ev"
    "fold_result (apply_control_event c) empty_accumulator evs = Inr pa" "accumulates c (operations_of evs) pa"
    "effective_members c log (fset_of_list (map fst evs)) = Inr active" "\<exists>members. active_members pa active = Inr members"
    using project_identity_parts [OF assms(1)] .
  have "fset_of_list (map fst evs) = fset_of_list (applicable_ids (il_causal log))"
    by (rule fset_inject [THEN iffD1]) (simp only: fset_of_list.rep_eq parts(2))
  then show ?thesis
    using that [OF parts(2,3,5)] parts assms(2) by (auto simp: project_identity_def Let_def split: if_splits)
qed

lemma active_members_apps:
  assumes "active_members pa active = Inr members"
    and "\<forall>app ad. fmlookup (pa_member_keys pa) app = Some ad \<longrightarrow> mk_app_id (ad_keys ad) = app"
    and "fmdom active |\<subseteq>| fmdom (pa_member_keys pa)"
  shows "map (\<lambda>m. mk_app_id (cm_keys m)) members = keys_of active"
proof -
  let ?f = "\<lambda>(app, ad). and_then (approver_of pa (ad_admitted_by ad)) (\<lambda>approver.
     Inr \<lparr>cm_keys = ad_keys ad, cm_approved_in = ad_approved_in ad, cm_kind = ad_kind ad, cm_approved_by = approver\<rparr>)"
  let ?xs = "filter (\<lambda>(app, _). app |\<in>| fmdom active) (sorted_list_of_fmap (pa_member_keys pa))"
  have "traverse ?f xs = Inr ys \<Longrightarrow> \<forall>(app, ad)\<in>set xs. mk_app_id (ad_keys ad) = app \<Longrightarrow>
      map (\<lambda>m. mk_app_id (cm_keys m)) ys = map fst xs" for xs ys
    by (induction xs arbitrary: ys) (auto simp: and_then_Inr_iff)
  from this [of ?xs members] have "map (\<lambda>m. mk_app_id (cm_keys m)) members = map fst ?xs"
    using assms(1,2) by (simp add: active_members_def set_sorted_list_of_fmap)
  also have "map fst ?xs = filter (\<lambda>app. app |\<in>| fmdom active) (keys_of (pa_member_keys pa))"
    unfolding map_fst_sorted_list_of_fmap [symmetric] filter_map comp_def by (simp only: case_prod_unfold)
  also have "\<dots> = keys_of active"
    by (rule sorted_distinct_set_unique) (use assms(3) in \<open>auto simp: sorted_wrt_filter\<close>)
  finally show ?thesis .
qed

text \<open>The apps that applicable events admitted.\<close>

definition ever_admitted :: "identity_crates \<Rightarrow> identity_control_log \<Rightarrow> app_id set" where
  "ever_admitted c log =
     {app. \<exists>i actor role. admits_in c log (fset_of_list (applicable_ids (il_causal log))) i app actor role}"

lemma operations_of_events:
  assumes "set (map fst evs) = set (applicable_ids (il_causal log))"
    and "\<forall>(i, ev)\<in>set evs. fmlookup (il_events log) i = Some ev"
  shows "(\<exists>b. (i, b, op) \<in> operations_of evs)
    \<longleftrightarrow> i \<in> set (applicable_ids (il_causal log)) \<and> op \<in> set (event_operations log i)"
proof -
  have "(\<exists>b. (i, b, op) \<in> operations_of evs) \<longleftrightarrow> (\<exists>ev. (i, ev) \<in> set evs \<and> op \<in> set (ib_operations (ie_body ev)))"
    by (auto simp: operations_of_def)
  also have "\<dots> \<longleftrightarrow> i \<in> set (map fst evs) \<and> op \<in> set (event_operations log i)"
    using assms(2) by (force simp: event_operations_def)
  finally show ?thesis unfolding assms(1) .
qed

lemma admitted_by_ops_iff:
  assumes "set (map fst evs) = set (applicable_ids (il_causal log))"
    and "\<forall>(i, ev)\<in>set evs. fmlookup (il_events log) i = Some ev"
  shows "(\<exists>actor. admitted_by_ops c (operations_of evs) app actor) \<longleftrightarrow> app \<in> ever_admitted c log"
proof -
  have "(\<exists>actor. admitted_by_ops c (operations_of evs) app actor) \<longleftrightarrow>
      (\<exists>i op. (\<exists>b. (i, b, op) \<in> operations_of evs)
        \<and> (\<exists>actor m role. admitted_member op = Some (m, role) \<and> mk_app_id m = app \<and> signing_actor c m = Inr actor))"
    unfolding admitted_by_ops_def by blast
  then show ?thesis
    unfolding operations_of_events [OF assms] ever_admitted_def admits_in_def by (simp add: fset_of_list_elem) blast
qed

lemma project_identity_apps:
  assumes "identity_history c log" and "accumulates c (operations_of evs) pa"
    and "set (map fst evs) = set (applicable_ids (il_causal log))"
    and "\<forall>(i, ev)\<in>set evs. fmlookup (il_events log) i = Some ev"
    and "effective_members c log (fset_of_list (applicable_ids (il_causal log))) = Inr active"
    and "active_members pa active = Inr members"
  shows "app |\<in>| fmdom (pa_member_keys pa) \<longleftrightarrow> app \<in> ever_admitted c log"
    and "map (\<lambda>m. mk_app_id (cm_keys m)) members = keys_of active"
proof -
  note wf = conjunct1 [OF identity_history_wf [OF assms(1)]]
  show keys: "app |\<in>| fmdom (pa_member_keys pa) \<longleftrightarrow> app \<in> ever_admitted c log" for app
    using assms(2) admitted_by_ops_iff [OF assms(3,4)] by (simp add: accumulates_def)
  have "app \<in> ever_admitted c log" if "app |\<in>| fmdom active" for app
    using effective_members_Inr [OF wf, of "fset_of_list (applicable_ids (il_causal log))"] assms(5) that
    unfolding ever_admitted_def mem_Collect_eq by (metis Inr_inject)
  then have "fmdom active |\<subseteq>| fmdom (pa_member_keys pa)" using keys by blast
  moreover have "\<forall>app ad. fmlookup (pa_member_keys pa) app = Some ad \<longrightarrow> mk_app_id (ad_keys ad) = app"
    using assms(2) by (simp add: accumulates_def)
  ultimately show "map (\<lambda>m. mk_app_id (cm_keys m)) members = keys_of active"
    using active_members_apps [OF assms(6)] by blast
qed

text \<open>C20: the projected identity state is exact: its members are the effective members of all applicable
  events in the order of their apps, every other app ever admitted is listed as revoked, the removed
  vaults are those an applicable event removes and no listed vault is among them, and the envelopes
  and names it lists are sealed to members only, the former holders apart.\<close>

theorem identity_state_exact:
  assumes "identity_history c log" and "project_identity c log = Inr s"
  shows "\<exists>active. effective_members c log (fset_of_list (applicable_ids (il_causal log))) = Inr active
    \<and> map (\<lambda>m. mk_app_id (cm_keys m)) (cs_members s) = keys_of active
    \<and> set (cs_revoked s) = ever_admitted c log - fset (fmdom active)
    \<and> set (cs_removed_vaults s)
        = {st. \<exists>i\<in>set (applicable_ids (il_causal log)). VaultRemoved st \<in> set (event_operations log i)}
    \<and> (\<forall>v\<in>set (cs_vaults s). cv_store_id v \<notin> set (cs_removed_vaults s)
        \<and> (\<forall>e\<in>set (cv_epochs v). (\<forall>dek\<in>set (ve_recipients e). md_app_id dek |\<in>| fmdom active)
             \<and> (\<forall>app\<in>set (ve_revoked_holders e). app |\<notin>| fmdom active)))
    \<and> (\<forall>n\<in>set (cs_sealed_name s). sn_app_id n |\<in>| fmdom active)"
proof -
  obtain evs pa active members where evs: "set (map fst evs) = set (applicable_ids (il_causal log))"
      "\<forall>(i, ev)\<in>set evs. fmlookup (il_events log) i = Some ev"
    and pa: "accumulates c (operations_of evs) pa"
    and active: "effective_members c log (fset_of_list (applicable_ids (il_causal log))) = Inr active"
    and members: "active_members pa active = Inr members" and s: "s = projected_state pa log active members"
    using project_identity_Inr [OF assms] .
  note keys = project_identity_apps(1) [OF assms(1) pa evs active members]
    and apps = project_identity_apps(2) [OF assms(1) pa evs active members]
  have removed: "st |\<in>| pa_removed_vaults pa \<longleftrightarrow>
      (\<exists>i\<in>set (applicable_ids (il_causal log)). VaultRemoved st \<in> set (event_operations log i))" for st
  proof -
    have "st |\<in>| pa_removed_vaults pa \<longleftrightarrow> (\<exists>i. \<exists>b. (i, b, VaultRemoved st) \<in> operations_of evs)"
      using pa unfolding accumulates_def by blast
    then show ?thesis unfolding operations_of_events [OF evs] by blast
  qed
  have vault: "cv_store_id v = st
      \<and> (\<forall>e\<in>set (cv_epochs v). (\<forall>dek\<in>set (ve_recipients e). md_app_id dek |\<in>| fmdom active)
             \<and> (\<forall>app\<in>set (ve_revoked_holders e). app |\<notin>| fmdom active))"
    if "project_vault va st active = Some v" for va st v
    using that by (auto simp: project_vault_def bind_eq_Some_conv Let_def)
  have "\<forall>v\<in>set (cs_vaults s). cv_store_id v \<notin> set (cs_removed_vaults s)
        \<and> (\<forall>e\<in>set (cv_epochs v). (\<forall>dek\<in>set (ve_recipients e). md_app_id dek |\<in>| fmdom active)
             \<and> (\<forall>app\<in>set (ve_revoked_holders e). app |\<notin>| fmdom active))"
  proof
    fix v assume "v \<in> set (cs_vaults s)"
    then obtain st va where "st |\<notin>| pa_removed_vaults pa" "project_vault va st active = Some v"
      by (auto simp: s projected_state_def Let_def in_map_filter)
    with vault [OF this(2)] show "cv_store_id v \<notin> set (cs_removed_vaults s)
        \<and> (\<forall>e\<in>set (cv_epochs v). (\<forall>dek\<in>set (ve_recipients e). md_app_id dek |\<in>| fmdom active)
             \<and> (\<forall>app\<in>set (ve_revoked_holders e). app |\<notin>| fmdom active))"
      by (simp add: s projected_state_def Let_def)
  qed
  moreover have "set (cs_revoked s) = ever_admitted c log - fset (fmdom active)"
    using keys by (auto simp: s projected_state_def Let_def)
  moreover have "set (cs_removed_vaults s)
      = {st. \<exists>i\<in>set (applicable_ids (il_causal log)). VaultRemoved st \<in> set (event_operations log i)}"
    using removed by (auto simp: s projected_state_def Let_def)
  moreover have "\<forall>n\<in>set (cs_sealed_name s). sn_app_id n |\<in>| fmdom active" by (simp add: s projected_state_def Let_def)
  moreover have "cs_members s = members" by (simp add: s projected_state_def Let_def)
  ultimately show ?thesis using active apps by blast
qed

subsection \<open>Operations built on the state\<close>

lemma projected_members_distinct:
  assumes "identity_history c log" and "project_identity c log = Inr s"
  shows "distinct (map (\<lambda>m. mk_app_id (cm_keys m)) (cs_members s))"
proof -
  obtain evs pa active members where evs: "set (map fst evs) = set (applicable_ids (il_causal log))"
      "\<forall>(i, ev)\<in>set evs. fmlookup (il_events log) i = Some ev"
    and pa: "accumulates c (operations_of evs) pa"
    and active: "effective_members c log (fset_of_list (applicable_ids (il_causal log))) = Inr active"
    and members: "active_members pa active = Inr members" and s: "s = projected_state pa log active members"
    using project_identity_Inr [OF assms] .
  then show ?thesis using project_identity_apps(2) [OF assms(1) pa evs active members]
    by (simp add: projected_state_def Let_def)
qed

lemma add_dek_lookup:
  "fmlookup (epoch_entry (vault_entry (add_dek vaults st epoch dek) st') epoch') app =
    (if st' = st \<and> epoch' = epoch \<and> app = md_app_id dek then Some dek
     else fmlookup (epoch_entry (vault_entry vaults st') epoch') app)"
  by (auto simp: add_dek_def vault_entry_def epoch_entry_def Let_def default_vault_def split: option.split)

lemma granted_lookup:
  assumes "g \<in> set deks"
  shows "\<exists>dek. fmlookup (epoch_entry (vault_entry (foldl (\<lambda>vaults g.
      add_dek vaults (dg_store_id g) (dg_key_epoch g) (granted_dek app g)) vaults deks) (dg_store_id g)) (dg_key_epoch g)) app = Some dek"
  using assms
proof (induction deks rule: rev_induct)
  case (snoc x deks)
  then show ?case by (cases "g = x") (auto simp: add_dek_lookup granted_dek_def)
qed simp

lemma require_every_vault_Inr:
  "require_every_vault s vaults = Inr () \<longleftrightarrow> (\<forall>v\<in>set (cs_vaults s). \<exists>opened\<in>set vaults.
     ov_store_id opened = cv_store_id v \<and> ov_key_epoch opened = cv_current_key_epoch v)"
  unfolding require_every_vault_def fold_result_unit_Inr by (auto simp: list_ex_iff split: if_splits)

lemma vault_dek_grants_cover:
  "vault_dek_grants c m vaults = Inr deks \<Longrightarrow> opened \<in> set vaults \<Longrightarrow>
    \<exists>g\<in>set deks. dg_store_id g = ov_store_id opened \<and> dg_key_epoch g = ov_key_epoch opened"
  unfolding vault_dek_grants_def by (induction vaults arbitrary: deks) (auto simp: and_then_Inr_iff)

lemma granted_every_vault:
  assumes "require_every_vault s vaults = Inr ()" and "vault_dek_grants c m vaults = Inr deks"
    and "apply_control c i b pa (MemberApproved m deks device) = Inr pa'" and "v \<in> set (cs_vaults s)"
  shows "\<exists>dek. fmlookup (epoch_entry (vault_entry (pa_vaults pa') (cv_store_id v)) (cv_current_key_epoch v)) (mk_app_id m) = Some dek"
proof -
  obtain g where g: "g \<in> set deks" "dg_store_id g = cv_store_id v" "dg_key_epoch g = cv_current_key_epoch v"
    using assms(1,2,4) vault_dek_grants_cover unfolding require_every_vault_Inr by metis
  have "pa_vaults pa' = foldl (\<lambda>vaults g. add_dek vaults (dg_store_id g) (dg_key_epoch g) (granted_dek (mk_app_id m) g))
      (pa_vaults pa) deks"
    using assms(3) by (auto simp: admit_member_def and_then_Inr_iff)
  then show ?thesis using granted_lookup [OF g(1), of "mk_app_id m" "pa_vaults pa"] g(2,3) by simp
qed

text \<open>C21: a new member can open every vault: when the operation that admits an app key was built as an
  approval of a pending join, as an addition by a member, or as an approval by a recovery passphrase,
  applying it leaves that app an envelope for the current epoch of every vault of the state it was
  built on.  A join by invite is not among them: it takes what the invite grants.\<close>

theorem new_member_opens_every_vault:
  assumes "approval_operation c s app vaults = Inr op \<or> addition_operation c s added vaults device = Inr op
    \<or> recovery_approval_operation c s recovery added vaults = Inr op"
    and "apply_control c i b pa op = Inr pa'" and "v \<in> set (cs_vaults s)"
  shows "\<exists>m deks device. op = MemberApproved m deks device
    \<and> (\<exists>dek. fmlookup (epoch_entry (vault_entry (pa_vaults pa') (cv_store_id v)) (cv_current_key_epoch v)) (mk_app_id m) = Some dek)"
proof -
  have "\<exists>m deks dev. op = MemberApproved m deks dev \<and> require_every_vault s vaults = Inr ()
      \<and> vault_dek_grants c m vaults = Inr deks"
    using assms(1)
  proof (elim disjE)
    assume "approval_operation c s app vaults = Inr op"
    then show ?thesis by (auto simp: approval_operation_def and_then_Inr_iff split: option.splits)
  next
    assume "addition_operation c s added vaults device = Inr op"
    then show ?thesis by (simp add: addition_operation_def and_then_Inr_iff split: if_splits) blast
  next
    assume "recovery_approval_operation c s recovery added vaults = Inr op"
    then show ?thesis by (simp add: recovery_approval_operation_def and_then_Inr_iff split: if_splits) blast
  qed
  then show ?thesis using granted_every_vault assms(2,3) by metis
qed

text \<open>An identity keeps an app key: an operation that revokes a member is built for members only, and
  while the identity has app keys at all, one other than the revoked member's remains.\<close>

theorem revocation_keeps_app_key:
  assumes "identity_history c log" and "project_identity c log = Inr s" and "revocation_operation s app = Inr op"
  shows "op = MemberRevoked app \<and> (\<exists>m\<in>set (cs_members s). mk_app_id (cm_keys m) = app)
    \<and> (app_members s = [] \<or> (\<exists>(m, device)\<in>set (app_members s). mk_app_id (cm_keys m) \<noteq> app))"
proof -
  obtain m where "state_member s app = Some m" and op: "op = MemberRevoked app"
    and kind: "(\<exists>device. cm_kind m = AppKind device) \<longrightarrow> length (app_members s) \<noteq> 1"
    using assms(3) by (auto simp: revocation_operation_def split: option.splits identity_member_kind.splits if_splits)
  then have m: "m \<in> set (cs_members s)" "mk_app_id (cm_keys m) = app"
    by (auto simp: state_member_def find_Some_iff)
  note distinct = projected_members_distinct [OF assms(1,2)]
  have same: "m' = m" if "m' \<in> set (cs_members s)" "mk_app_id (cm_keys m') = app" for m'
    using distinct that m by (metis distinct_map inj_on_def)
  have apps: "(m', d) \<in> set (app_members s) \<longleftrightarrow> m' \<in> set (cs_members s) \<and> cm_kind m' = AppKind d" for m' d
  proof -
    have "(case cm_kind x of AppKind device \<Rightarrow> Some (x, device) | RecoveryKind _ \<Rightarrow> None) = Some (m', d)
        \<longleftrightarrow> x = m' \<and> cm_kind m' = AppKind d" for x
      by (cases "cm_kind x") auto
    then show ?thesis unfolding app_members_def in_map_filter by auto
  qed
  have "distinct (app_members s)"
    using distinct unfolding app_members_def List.map_filter_def distinct_map
    by (auto simp: inj_on_def split: identity_member_kind.splits)
  then have "\<exists>(m', d)\<in>set (app_members s). m' \<noteq> m" if "app_members s \<noteq> []"
  proof (cases "app_members s")
    case (Cons p ps)
    show ?thesis
    proof (cases ps)
      case Nil
      then have "\<not> (\<exists>device. cm_kind m = AppKind device)" using kind Cons by auto
      then show ?thesis using Cons apps [of "fst p" "snd p"] by (auto intro!: bexI [of _ p])
    next
      case (Cons q qs)
      obtain a x a' x' where pq: "p = (a, x)" "q = (a', x')" by (cases p; cases q)
      then have listed: "(a, x) \<noteq> (a', x')" "(a, x) \<in> set (app_members s)" "(a', x') \<in> set (app_members s)"
        using \<open>distinct (app_members s)\<close> \<open>app_members s = p # ps\<close> \<open>ps = q # qs\<close> by auto
      then have "cm_kind a = AppKind x" "cm_kind a' = AppKind x'" using apps by blast+
      then have "a \<noteq> a'" using listed(1) by auto
      then have "a \<noteq> m \<or> a' \<noteq> m" by auto
      then show ?thesis using listed(2,3) by blast
    qed
  qed (use that in simp)
  then show ?thesis using m op apps same by blast
qed

end
