(* ===== verification/IdentityExamples.thy ===== *)
theory IdentityExamples
  imports IdentityStateLaws
begin

text \<open>
  Identity logs of small scripts.  A script lists, for each event, its parents, the party that signs
  it and what it does; the crates give the n-th event the n-th example id.  The log built from the
  events of a script is followed by a machine on positions, which is evaluated: what it answers is
  what insertion into the log does.
\<close>

subsection \<open>Crates and parties\<close>

text \<open>A body is written as the number of characters after the first one of its time.\<close>

definition time_stamp :: "json \<Rightarrow> nat" where
  "time_stamp v =
     (case v of JObj entries \<Rightarrow> (case map_of entries ''created_at'' of Some (JStr s) \<Rightarrow> length s - 1 | _ \<Rightarrow> 0)
      | _ \<Rightarrow> 0)"

definition stamp_crates :: crates where
  "stamp_crates = ex_crates\<lparr>json_to_vec := \<lambda>v. Inr [of_nat (time_stamp v)]\<rparr>"

definition idc :: identity_crates where
  "idc = \<lparr>ic_base = stamp_crates, age_recipient = Inr, age_seal = (\<lambda>recipient plaintext. Inr (recipient @ plaintext)),
     display_error = (\<lambda>_. ''error''), identity_yaml_to_string = (\<lambda>_. Inr ''event''),
     identity_yaml_from_str = (\<lambda>_. Inl ''no event'')\<rparr>"

lemma stamp_crates_fields [simp]:
  "hex_encode stamp_crates = ex_hex_encode" "sha256 stamp_crates = (\<lambda>bs. replicate 32 (hd (bs @ [0])))"
  "verifying_key_of stamp_crates = (\<lambda>k. replicate 32 (of_nat (length k)))"
  "b64_encode stamp_crates = b64_encode ex_crates"
  by (simp_all add: stamp_crates_def ex_crates_def)

lemma stamp_crates_laws: "crate_laws stamp_crates"
  using ex_crates_laws by (simp add: crate_laws_def stamp_crates_def)

lemma idc_fields [simp]: "ic_base idc = stamp_crates" "age_recipient idc = Inr"
  by (simp_all add: idc_def)

definition party_key :: "nat \<Rightarrow> bytes" where
  "party_key k = replicate k 0"

definition party_hex :: "nat \<Rightarrow> string" where
  "party_hex k = ex_hex_encode (replicate 32 (of_nat k))"

definition party_app :: "nat \<Rightarrow> app_id" where
  "party_app k = AppId (ex_hex_encode (replicate 8 (of_nat k)))"

definition party_actor :: "nat \<Rightarrow> auth_key_id" where
  "party_actor k = AuthKeyId (''key_'' @ party_hex k)"

definition party :: "nat \<Rightarrow> identity_member_keys" where
  "party k = \<lparr>mk_app_id = party_app k, mk_encryption_public_key = [char_of k],
     mk_signing_public_key = Ed25519Hex (party_hex k), mk_label = ''party''\<rparr>"

lemma party_fields [simp]: "mk_app_id (party k) = party_app k"
  by (simp add: party_def)

lemma ex_hex_inject: "ex_hex_encode a = ex_hex_encode b \<longleftrightarrow> a = b"
  by (metis ex_hex(1) sum.inject(2))

lemma of_nat_byte_inject: "a < 256 \<Longrightarrow> b < 256 \<Longrightarrow> (of_nat a :: u8) = of_nat b \<longleftrightarrow> a = b"
  by (simp add: word_unat_eq_iff unat_of_nat)

lemma party_inject:
  assumes "a < 256" and "b < 256"
  shows "party_app a = party_app b \<longleftrightarrow> a = b" and "party_actor a = party_actor b \<longleftrightarrow> a = b"
  using of_nat_byte_inject [OF assms]
  by (auto simp: party_app_def party_actor_def party_hex_def ex_hex_inject replicate_eq_replicate)

lemma party_signs [simp]: "actor_id_for_verifying_key stamp_crates (replicate 32 (of_nat k)) = Inr (party_actor k)"
  using actor_id_of_key [OF stamp_crates_laws, of "replicate 32 (of_nat k)"]
  by (simp add: party_actor_def party_hex_def)

lemma party_key_parses [simp]:
  "verifying_key_from_public_key_hex stamp_crates (party_hex k) = Inr (replicate 32 (of_nat k))"
  using key_from_public_hex [OF stamp_crates_laws, of "party_key k"] by (simp add: party_key_def party_hex_def)

lemma party_signing_actor [simp]: "k < 256 \<Longrightarrow> signing_actor idc (party k) = Inr (party_actor k)"
proof -
  assume "k < 256"
  then have "(of_char (char_of k :: char) :: u8) = of_nat k"
    by (simp add: word_unat_eq_iff unat_of_char unat_of_nat)
  then show ?thesis
    by (simp add: signing_actor_def party_def signing_key_is_empty_def try_app_id_def recipient_app_id_def
        bytes_of_string_def party_app_def actor_id_for_public_key_hex_def)
qed

subsection \<open>Scripts\<close>

datatype scripted =
  Creates nat | Approves nat | AddsRecovery nat | Revokes nat | Issues | Joins nat

definition home :: identity_id where
  "home = IdentityId ''identity_Abcdef_1234''"

definition the_invite :: identity_invite_id where
  "the_invite = IdentityInviteId ''inv_Abcdef_1234''"

definition scripted_signature :: "nat \<Rightarrow> nat \<Rightarrow> string" where
  "scripted_signature n k = signature_sign stamp_crates [of_nat n] (party_key k)"

fun scripted_operation :: "scripted \<Rightarrow> identity_control_operation" where
  "scripted_operation (Creates k) = IdentityCreated (party k)"
| "scripted_operation (Approves k) = MemberApproved (party k) [] OwnDevice"
| "scripted_operation (AddsRecovery k) = RecoveryKeyAdded (party k) ''sealed'' HighStrength"
| "scripted_operation (Revokes k) = MemberRevoked (party_app k)"
| "scripted_operation Issues = MemberInvited
     \<lparr>iv_invite_id = the_invite, iv_signing_public_key = Ed25519Hex (party_hex 9),
      iv_expires_at = IsoTimestamp ''2026-07-28T12:00:00Z''\<rparr>"
| "scripted_operation (Joins k) = MemberJoinedByInvite the_invite (party k) (scripted_signature 0 9) []"

type_synonym script = "(nat list \<times> nat \<times> scripted list) list"

abbreviation parents_at :: "script \<Rightarrow> nat \<Rightarrow> nat list" where "parents_at t n \<equiv> fst (t ! n)"
abbreviation signer_at :: "script \<Rightarrow> nat \<Rightarrow> nat" where "signer_at t n \<equiv> fst (snd (t ! n))"
abbreviation acts_at :: "script \<Rightarrow> nat \<Rightarrow> scripted list" where "acts_at t n \<equiv> snd (snd (t ! n))"

definition scripted_body :: "script \<Rightarrow> nat \<Rightarrow> identity_event_body" where
  "scripted_body t n =
     \<lparr>ib_schema_version = 1, ib_identity_id = home, ib_actor_id = party_actor (signer_at t n),
      ib_actor_signing_public_key = Ed25519Hex (party_hex (signer_at t n)),
      ib_parents = map ex_id (parents_at t n),
      ib_created_at = IsoTimestamp (CHR ''T'' # replicate n (CHR ''0'')),
      ib_operations = map scripted_operation (acts_at t n)\<rparr>"

definition scripted_event :: "script \<Rightarrow> nat \<Rightarrow> identity_event" where
  "scripted_event t n = \<lparr>ie_body = scripted_body t n, ie_signature = scripted_signature n (signer_at t n)\<rparr>"

fun acted_party :: "scripted \<Rightarrow> nat" where
  "acted_party (Creates k) = k"
| "acted_party (Approves k) = k"
| "acted_party (AddsRecovery k) = k"
| "acted_party (Revokes k) = k"
| "acted_party Issues = 0"
| "acted_party (Joins k) = k"

fun is_join :: "scripted \<Rightarrow> bool" where
  "is_join (Joins _) = True"
| "is_join _ = False"

fun creates :: "scripted \<Rightarrow> bool" where
  "creates (Creates _) = True"
| "creates _ = False"

text \<open>The first event creates the identity; an invite join stands alone and is signed by its joiner.\<close>

definition sound_entry :: "script \<Rightarrow> nat \<Rightarrow> bool" where
  "sound_entry t n \<longleftrightarrow>
     (case t ! n of (ps, s, acts) \<Rightarrow>
        s < 256 \<and> acts \<noteq> [] \<and> list_all (\<lambda>p. p < n) ps \<and> (ps = [] \<longleftrightarrow> n = 0)
      \<and> list_all (\<lambda>a. acted_party a < 256) acts
      \<and> (if n = 0 then acts = [Creates s] else \<not> list_ex creates acts)
      \<and> (list_ex is_join acts \<longrightarrow> acts = [Joins s]))"

definition sound_script :: "script \<Rightarrow> bool" where
  "sound_script t \<longleftrightarrow> length t \<le> 60 \<and> list_all (sound_entry t) [0..<length t]"

subsection \<open>Scripted events validate\<close>

lemma time_stamp_object:
  assumes "distinct (map fst entries)" and "map_of entries ''created_at'' = Some (JStr s)"
  shows "time_stamp (canonicalize_json (JObj entries)) = length s - 1"
proof -
  have "map_of (map (\<lambda>(key, item). (key, canonicalize_json item)) xs) k = map_option canonicalize_json (map_of xs k)"
    for xs :: "(string \<times> json) list" and k
    by (induction xs) auto
  then show ?thesis using assms by (simp add: time_stamp_def map_of_sort_key)
qed

lemma scripted_bytes: "identity_canonical_bytes idc (scripted_body t n) = Inr [of_nat n]"
proof -
  let ?b = "(scripted_body t n)\<lparr>ib_parents := sort (ib_parents (scripted_body t n))\<rparr>"
  obtain entries where entries: "identity_body_value ?b = JObj entries"
    and keys: "map fst entries = [''schema_version'', ''identity_id'', ''actor_id'', ''actor_signing_public_key'',
      ''parents'', ''created_at'', ''operations'']"
    and at: "entries ! 5 = (''created_at'', JStr (CHR ''T'' # replicate n (CHR ''0'')))"
    by (simp add: identity_body_value_def scripted_body_def)
  have distinct: "distinct (map fst entries)" unfolding keys by code_simp
  have "5 < length entries" using arg_cong [OF keys, of length] by simp
  then have "(''created_at'', JStr (CHR ''T'' # replicate n (CHR ''0''))) \<in> set entries" using at by (metis nth_mem)
  then have "map_of entries ''created_at'' = Some (JStr (CHR ''T'' # replicate n (CHR ''0'')))"
    using distinct by (simp add: map_of_eq_Some_iff)
  from time_stamp_object [OF distinct this] show ?thesis
    by (simp add: identity_canonical_bytes_def entries canonical_from_json_def stamp_crates_def del: canonicalize_json.simps)
qed

lemma scripted_id: "identity_event_id idc (scripted_event t n) = Inr (ex_id n)"
  by (simp add: identity_event_id_def identity_body_event_id_def scripted_event_def scripted_bytes
      event_id_from_body_bytes_def event_id_from_sha256_bytes_def ex_id_def)

lemma scripted_signature_verifies:
  "signature_verify stamp_crates (scripted_signature n k) [of_nat n] (replicate 32 (of_nat k)) = Inr ()"
  using signature_verifies [OF stamp_crates_laws, of "[of_nat n]" "party_key k"]
  by (simp add: scripted_signature_def party_key_def)

lemma stamp_id_parses: "event_id_parse stamp_crates (event_id_str (ex_id n)) = Inr (ex_id n)"
  using event_id_from_digest_parses [OF stamp_crates_laws, of "replicate 32 (of_nat n)"]
  by (simp add: ex_id_def event_id_from_sha256_bytes_def)

lemma scripted_body_fields [simp]:
  "ib_identity_id (scripted_body t n) = home" "ib_actor_id (scripted_body t n) = party_actor (signer_at t n)"
  "ib_parents (scripted_body t n) = map ex_id (parents_at t n)"
  "ib_operations (scripted_body t n) = map scripted_operation (acts_at t n)"
  "ib_schema_version (scripted_body t n) = 1"
  "ib_actor_signing_public_key (scripted_body t n) = Ed25519Hex (party_hex (signer_at t n))"
  by (simp_all add: scripted_body_def)

lemma scripted_event_body [simp]: "ie_body (scripted_event t n) = scripted_body t n"
  by (simp add: scripted_event_def)

lemma scripted_actor: "verify_identity_actor idc (scripted_event t n) = Inr ()"
  by (simp add: verify_identity_actor_def Let_def scripted_bytes signing_key_is_empty_def)
    (simp add: scripted_event_def scripted_signature_verifies)

lemma scripted_operation_checks:
  assumes "acted_party a < 256" and "\<not> creates a" and "is_join a \<Longrightarrow> acts_at t n = [Joins (signer_at t n)] \<and> a = Joins (signer_at t n)"
  shows "check_operation idc (scripted_body t n) (scripted_operation a) = Inr ()"
    and "\<not> beside_itself (scripted_operation a)" and "\<not> is_identity_created (scripted_operation a)"
  using assms by (cases a; simp add: check_self_signed_def check_one_grant_per_vault_def sort_dedup_def)+

lemma sound_entryD:
  assumes "sound_entry t n"
  shows "signer_at t n < 256" and "acts_at t n \<noteq> []" and "p \<in> set (parents_at t n) \<Longrightarrow> p < n"
    and "parents_at t n = [] \<longleftrightarrow> n = 0" and "a \<in> set (acts_at t n) \<Longrightarrow> acted_party a < 256"
    and "n = 0 \<Longrightarrow> acts_at t n = [Creates (signer_at t n)]" and "n \<noteq> 0 \<Longrightarrow> a \<in> set (acts_at t n) \<Longrightarrow> \<not> creates a"
    and "a \<in> set (acts_at t n) \<Longrightarrow> is_join a \<Longrightarrow> acts_at t n = [Joins (signer_at t n)] \<and> a = Joins (signer_at t n)"
  using assms by (auto simp: sound_entry_def list_all_iff list_ex_iff split: prod.splits if_splits)

lemma scripted_valid:
  assumes "sound_entry t n"
  shows "validate_identity_envelope idc (scripted_event t n) home = Inr (ex_id n)"
proof -
  note sound = sound_entryD [OF assms]
  have genesis: "is_genesis (scripted_body t n) \<longleftrightarrow> n = 0" using sound(4) by (simp add: is_genesis_def)
  have operations: "validate_operation_structure idc (scripted_body t n) = Inr ()"
  proof (cases "n = 0")
    case True
    then show ?thesis
      using sound(1,6) genesis by (simp add: validate_operation_structure_def)
  next
    case False
    then show ?thesis
      using genesis scripted_operation_checks [OF sound(5) sound(7) sound(8)]
      by (auto simp: validate_operation_structure_def fold_result_unit_Inr list_ex_iff)
  qed
  have devices: "\<not> beside_itself (scripted_operation a)" for a by (cases a) auto
  have "(case scripted_operation a of RecoveryKeyAdded m _ _ \<Rightarrow> and_then (signing_actor idc m) (\<lambda>_. Inr ()) | _ \<Rightarrow> Inr ()) = Inr ()"
    if "a \<in> set (acts_at t n)" for a
    using sound(5) [OF that] by (cases a) auto
  then have recovery: "check_recovery_members idc (scripted_body t n) = Inr ()"
    unfolding check_recovery_members_def fold_result_unit_Inr by auto
  have "\<exists>ys. traverse (\<lambda>p. event_id_parse stamp_crates (event_id_str p)) (map ex_id ps) = Inr ys" for ps
    unfolding traverse_ok_iff by (auto simp: stamp_id_parses)
  then obtain ys where "traverse (\<lambda>p. event_id_parse stamp_crates (event_id_str p)) (map ex_id (parents_at t n)) = Inr ys"
    by blast
  then show ?thesis
    using operations devices recovery scripted_actor scripted_id sound(2)
    by (simp add: validate_identity_envelope_def identity_schema_is_supported_def check_member_devices_def list_ex_iff)
qed

subsection \<open>Logs of a script\<close>

function below :: "script \<Rightarrow> nat \<Rightarrow> nat list" where
  "below t n = concat (map (\<lambda>p. p # below t p) (filter (\<lambda>p. p < n) (parents_at t n)))"
  by pat_completeness auto
termination by (relation "measure snd") auto

declare below.simps [simp del]

lemma in_below: "m \<in> set (below t n) \<longleftrightarrow> (\<exists>p\<in>set (parents_at t n). p < n \<and> (m = p \<or> m \<in> set (below t p)))"
  by (subst below.simps) auto

lemma below_less: "m \<in> set (below t n) \<Longrightarrow> m < n"
proof (induction n rule: less_induct)
  case (less n)
  then show ?case using in_below [of m t n] by fastforce
qed

lemma below_step:
  assumes "m \<in> set (below t n)" and "p \<in> set (parents_at t m)" and "p < m"
  shows "p \<in> set (below t n)"
  using assms(1)
proof (induction n rule: less_induct)
  case (less n)
  then obtain q where q: "q \<in> set (parents_at t n)" "q < n" "m = q \<or> m \<in> set (below t q)" by (auto simp: in_below [of m t n])
  then have "p \<in> set (below t q)" using less.IH [of q] assms(2,3) in_below [of p t q] by auto
  then show ?case using q(1,2) in_below [of p t n] by auto
qed

definition alive :: "script \<Rightarrow> nat list \<Rightarrow> nat \<Rightarrow> bool" where
  "alive t Q n \<longleftrightarrow> list_all (\<lambda>m. m \<notin> set Q) (n # below t n)"

text \<open>The log holds the events at the positions D, of which those at Q were rejected.\<close>

definition represents :: "script \<Rightarrow> identity_control_log \<Rightarrow> nat list \<Rightarrow> nat list \<Rightarrow> bool" where
  "represents t log D Q \<longleftrightarrow>
     sound_script t \<and> distinct D \<and> set D \<subseteq> {..<length t} \<and> (\<forall>n\<in>set D. set (parents_at t n) \<subseteq> set D)
   \<and> identity_log_wf idc log \<and> il_identity_id log = home
   \<and> (\<forall>i ev. fmlookup (il_events log) i = Some ev \<longleftrightarrow> (\<exists>n\<in>set D. i = ex_id n \<and> ev = scripted_event t n))
   \<and> fset (rejected_roots log) = ex_id ` set Q \<and> set Q \<subseteq> set D"

lemma representsD:
  assumes "represents t log D Q"
  shows "sound_script t" and "distinct D" and "n \<in> set D \<Longrightarrow> n < length t" and "n \<in> set D \<Longrightarrow> n < 60"
    and "n \<in> set D \<Longrightarrow> sound_entry t n" and "n \<in> set D \<Longrightarrow> p \<in> set (parents_at t n) \<Longrightarrow> p \<in> set D \<and> p < n"
    and "identity_log_wf idc log" and "il_identity_id log = home"
    and "fmlookup (il_events log) i = Some ev \<longleftrightarrow> (\<exists>n\<in>set D. i = ex_id n \<and> ev = scripted_event t n)"
    and "fset (rejected_roots log) = ex_id ` set Q" and "set Q \<subseteq> set D"
proof -
  have sound: "sound_entry t n" if "n \<in> set D" for n
    using assms that by (auto simp: represents_def sound_script_def list_all_iff)
  show "n \<in> set D \<Longrightarrow> p \<in> set (parents_at t n) \<Longrightarrow> p \<in> set D \<and> p < n"
    using assms sound_entryD(3) [OF sound] by (auto simp: represents_def)
  show "fmlookup (il_events log) i = Some ev \<longleftrightarrow> (\<exists>n\<in>set D. i = ex_id n \<and> ev = scripted_event t n)"
    using assms by (simp add: represents_def)
qed (use assms in \<open>auto simp: represents_def sound_script_def list_all_iff\<close>)

lemma represents_inject:
  "represents t log D Q \<Longrightarrow> m \<in> set D \<Longrightarrow> n \<in> set D \<Longrightarrow> ex_id m = ex_id n \<longleftrightarrow> m = n"
  using ex_id_inject [of m n] representsD(4) by fastforce

lemma represents_lookup:
  "represents t log D Q \<Longrightarrow> n \<in> set D \<Longrightarrow> fmlookup (il_events log) (ex_id n) = Some (scripted_event t n)"
  using representsD(9) by blast

lemma below_recorded: "represents t log D Q \<Longrightarrow> n \<in> set D \<Longrightarrow> m \<in> set (below t n) \<Longrightarrow> m \<in> set D"
proof (induction n rule: less_induct)
  case (less n)
  then show ?case using representsD(6) [OF less.prems(1,2)] in_below [of m t n] by blast
qed

abbreviation causal_rel :: "identity_control_log \<Rightarrow> (event_id \<times> event_id) set" where
  "causal_rel log \<equiv> next_rel (cg_parents (il_causal log))"

lemma represents_rel:
  assumes "represents t log D Q"
  shows "(x, y) \<in> causal_rel log \<longleftrightarrow> (\<exists>n\<in>set D. \<exists>p\<in>set (parents_at t n). x = ex_id n \<and> y = ex_id p)"
proof -
  have "fmlookup (cg_parents (il_causal log)) x
      = map_option (\<lambda>ev. normalize_parents (ib_parents (ie_body ev))) (fmlookup (il_events log) x)"
    using representsD(7) [OF assms] by (simp add: identity_log_wf_def)
  then have "(x, y) \<in> causal_rel log \<longleftrightarrow> (\<exists>ev. fmlookup (il_events log) x = Some ev \<and> y \<in> set (ib_parents (ie_body ev)))"
    by (auto simp: next_rel_iff normalize_parents_def)
  also have "\<dots> \<longleftrightarrow> (\<exists>n\<in>set D. x = ex_id n \<and> y \<in> set (ib_parents (ie_body (scripted_event t n))))"
    unfolding representsD(9) [OF assms] by blast
  also have "\<dots> \<longleftrightarrow> (\<exists>n\<in>set D. x = ex_id n \<and> (\<exists>p\<in>set (parents_at t n). y = ex_id p))"
    unfolding scripted_event_body scripted_body_fields(3) set_map image_iff by (rule refl)
  finally show ?thesis by blast
qed

lemma represents_past:
  assumes r: "represents t log D Q" and n: "n \<in> set D"
  shows "(ex_id n, y) \<in> (causal_rel log)\<^sup>* \<longleftrightarrow> (\<exists>m\<in>set (n # below t n). y = ex_id m)"
proof
  assume "(ex_id n, y) \<in> (causal_rel log)\<^sup>*"
  then show "\<exists>m\<in>set (n # below t n). y = ex_id m"
  proof (induction rule: rtrancl_induct)
    case (step y z)
    then obtain m where m: "m \<in> set (n # below t n)" "y = ex_id m" by blast
    then have "m \<in> set D" using n below_recorded [OF r n] by auto
    moreover obtain k p where k: "k \<in> set D" "p \<in> set (parents_at t k)" "y = ex_id k" "z = ex_id p"
      using step.hyps(2) represents_rel [OF r] by blast
    ultimately have p: "p \<in> set (parents_at t m)" using m(2) represents_inject [OF r] by blast
    then have "p < m" using representsD(6) [OF r \<open>m \<in> set D\<close>] by blast
    then have "p \<in> set (below t n)"
      using m(1) p below_step [of m t n p] in_below [of p t n] by auto
    then show ?case using k(4) by auto
  qed simp
next
  have "(ex_id n, ex_id m) \<in> (causal_rel log)\<^sup>*" if "m \<in> set (below t n)" for m
    using n that
  proof (induction n rule: less_induct)
    case (less n)
    then obtain p where p: "p \<in> set (parents_at t n)" "p < n" "m = p \<or> m \<in> set (below t p)" by (auto simp: in_below [of m t n])
    then have "(ex_id n, ex_id p) \<in> causal_rel log" "p \<in> set D"
      using represents_rel [OF r] representsD(6) [OF r less.prems(1)] less.prems(1) by blast+
    then show ?case using less.IH [of p] p by (auto intro: converse_rtrancl_into_rtrancl)
  qed
  then show "\<exists>m\<in>set (n # below t n). y = ex_id m \<Longrightarrow> (ex_id n, y) \<in> (causal_rel log)\<^sup>*" by auto
qed

lemma represents_ancestor:
  assumes "represents t log D Q" and "m \<in> set D" and "n \<in> set D"
  shows "is_ancestor (il_causal log) (ex_id m) (ex_id n) \<longleftrightarrow> m \<in> set (n # below t n)"
proof -
  have "ex_id m = ex_id k \<longleftrightarrow> m = k" if "k \<in> set (n # below t n)" for k
    using that represents_inject [OF assms(1,2)] assms(3) below_recorded [OF assms(1,3)] by auto
  then show ?thesis unfolding is_ancestor_iff represents_past [OF assms(1,3)] by auto
qed

lemma represents_ancestry:
  assumes r: "represents t log D Q" and n: "n \<in> set D"
  shows "fset (ancestry log (ib_parents (scripted_body t n))) = ex_id ` set (below t n)"
proof -
  have parents: "p \<in> set D \<and> p < n" if "p \<in> set (parents_at t n)" for p using representsD(6) [OF r n that] .
  have "fset (ancestry log (ib_parents (scripted_body t n))) = (\<Union>p\<in>set (parents_at t n). (causal_rel log)\<^sup>* `` {ex_id p})"
    unfolding fset_ancestry [OF representsD(7) [OF r]] by auto
  also have "\<dots> = (\<Union>p\<in>set (parents_at t n). ex_id ` set (p # below t p))"
    using represents_past [OF r] parents by (intro SUP_cong) auto
  also have "\<dots> = ex_id ` (\<Union>p\<in>set (parents_at t n). set (p # below t p))" by blast
  also have "(\<Union>p\<in>set (parents_at t n). set (p # below t p)) = set (below t n)"
    using parents by (auto simp: in_below [of _ t n])
  finally show ?thesis .
qed

lemma represents_quarantined:
  assumes r: "represents t log D Q" and n: "n \<in> set D"
  shows "ex_id n |\<in>| fmdom (cg_quarantined (il_causal log)) \<longleftrightarrow> \<not> alive t Q n"
proof -
  have causal: "wf_graph (il_causal log)" using representsD(7) [OF r] by (simp add: identity_log_wf_def)
  have acyclic: "(x, x) \<notin> (causal_rel log)\<^sup>+" for x
  proof
    assume "(x, x) \<in> (causal_rel log)\<^sup>+"
    then obtain y where y: "(x, y) \<in> causal_rel log" "(y, x) \<in> (causal_rel log)\<^sup>*" by (blast dest: tranclD)
    from y(1) obtain k p where "k \<in> set D" "p \<in> set (parents_at t k)" "x = ex_id k" "y = ex_id p"
      unfolding represents_rel [OF r] by blast
    with y(2) have k: "k \<in> set D" "p \<in> set (parents_at t k)" "(ex_id p, ex_id k) \<in> (causal_rel log)\<^sup>*" by simp_all
    then have p: "p \<in> set D" "p < k" using representsD(6) [OF r] by blast+
    obtain m where m: "m \<in> set (p # below t p)" "ex_id k = ex_id m" using k(3) represents_past [OF r p(1)] by blast
    have "m \<in> set D" using m(1) below_recorded [OF r p(1)] p(1) by (cases "m = p") simp_all
    then have "m = k" using m(2) represents_inject [OF r k(1)] by blast
    then show False using m(1) p(2) below_less by fastforce
  qed
  have rejected: "ex_id m |\<in>| rejected_roots log \<longleftrightarrow> m \<in> set Q" if "m \<in> set (n # below t n)" for m
  proof -
    have "m \<in> set D" using that below_recorded [OF r n] n by auto
    then have "\<forall>q\<in>set Q. ex_id m = ex_id q \<longrightarrow> m = q"
      using represents_inject [OF r] representsD(11) [OF r] by blast
    then show ?thesis unfolding representsD(10) [OF r] image_iff by auto
  qed
  have "\<not> alive t Q n \<longleftrightarrow> (\<exists>m\<in>set (n # below t n). m \<in> set Q)" by (metis alive_def list_all_iff)
  also have "\<dots> \<longleftrightarrow> (\<exists>m\<in>set (n # below t n). ex_id m |\<in>| rejected_roots log)"
    by (rule bex_cong [OF refl]) (rule rejected [symmetric])
  also have "\<dots> \<longleftrightarrow> (\<exists>x. x |\<in>| rejected_roots log \<and> (ex_id n, x) \<in> (causal_rel log)\<^sup>*)"
    unfolding represents_past [OF r n] by auto
  finally show ?thesis unfolding wf_graph_quarantined [OF causal] using acyclic by simp
qed

lemma represents_applicable:
  assumes r: "represents t log D Q"
  shows "applicable_ids (il_causal log) = map ex_id (filter (alive t Q) (sort D))"
proof -
  have recorded: "fset (recorded_ids log) = ex_id ` set D"
  proof -
    have "i |\<in>| recorded_ids log \<longleftrightarrow> (\<exists>ev. fmlookup (il_events log) i = Some ev)" for i
      using representsD(7) [OF r] by (simp add: identity_log_wf_def fmlookup_dom_iff)
    then show ?thesis unfolding representsD(9) [OF r] by blast
  qed
  have "i \<in> set (applicable_ids (il_causal log)) \<longleftrightarrow> i \<in> ex_id ` {n \<in> set D. alive t Q n}" for i
  proof (cases "i \<in> ex_id ` set D")
    case True
    then obtain n where n: "n \<in> set D" "i = ex_id n" by blast
    have "y \<in> ex_id ` set D" if "(i, y) \<in> (causal_rel log)\<^sup>*" for y
      using that represents_past [OF r n(1), of y] below_recorded [OF r n(1)] n by auto
    then have "ancestors_present (il_causal log) i" unfolding ancestors_present_iff recorded by blast
    moreover have "i \<in> ex_id ` {n \<in> set D. alive t Q n} \<longleftrightarrow> alive t Q n"
      using n represents_inject [OF r n(1)] by auto
    ultimately show ?thesis
      using represents_quarantined [OF r n(1)] n(2) by (simp add: set_applicable_ids)
  next
    case False
    then have "\<not> ancestors_present (il_causal log) i" unfolding ancestors_present_iff recorded by auto
    then show ?thesis using False by (auto simp: set_applicable_ids)
  qed
  then have "set (applicable_ids (il_causal log)) = set (map ex_id (filter (alive t Q) (sort D)))"
    unfolding set_map set_filter set_sort by blast
  moreover have "sorted (map ex_id (filter (alive t Q) (sort D)))"
  proof -
    have small: "ex_id m \<le> ex_id n" if "m < n" "n \<in> set D" for m n
      using ex_id_less [OF that(1)] representsD(4) [OF r that(2)] by (simp add: less_imp_le)
    have "sorted_wrt (<) (filter (alive t Q) (sort D))"
      using representsD(2) [OF r] by (intro sorted_wrt_filter) (simp add: strict_sorted_iff)
    then have "sorted_wrt (\<lambda>m n. ex_id m \<le> ex_id n) (filter (alive t Q) (sort D))"
      by (rule sorted_wrt_mono_rel [rotated]) (use small in auto)
    then show ?thesis by (simp add: sorted_map)
  qed
  moreover have "distinct (map ex_id (filter (alive t Q) (sort D)))"
    using representsD(2) [OF r] represents_inject [OF r] by (simp add: distinct_map inj_on_def)
  moreover have "sorted (applicable_ids (il_causal log))" by (simp add: applicable_ids_def sorted_wrt_filter)
  ultimately show ?thesis by (intro sorted_distinct_set_unique) simp_all
qed

subsection \<open>Members at positions\<close>

fun admitted_party :: "scripted \<Rightarrow> (nat \<times> member_role) option" where
  "admitted_party (Creates k) = Some (k, AppRole)"
| "admitted_party (Approves k) = Some (k, AppRole)"
| "admitted_party (Joins k) = Some (k, AppRole)"
| "admitted_party (AddsRecovery k) = Some (k, RecoveryRole)"
| "admitted_party _ = None"

definition stands :: "script \<Rightarrow> nat list \<Rightarrow> nat \<Rightarrow> nat \<Rightarrow> member_role \<Rightarrow> bool" where
  "stands t E i k role \<longleftrightarrow> (\<exists>a\<in>set (acts_at t i). admitted_party a = Some (k, role))
     \<and> (\<forall>j\<in>set E. Revokes k \<in> set (acts_at t j) \<longrightarrow> j \<in> set (i # below t i))"

definition member_in :: "script \<Rightarrow> nat list \<Rightarrow> nat \<Rightarrow> bool" where
  "member_in t E k \<longleftrightarrow> (\<exists>i\<in>set E. stands t E i k AppRole \<or> stands t E i k RecoveryRole)"

definition recovery_in :: "script \<Rightarrow> nat list \<Rightarrow> nat \<Rightarrow> bool" where
  "recovery_in t E k \<longleftrightarrow> (\<exists>i\<in>set E. stands t E i k RecoveryRole)"

definition party_member :: "script \<Rightarrow> nat list \<Rightarrow> nat \<Rightarrow> effective_member" where
  "party_member t E k =
     \<lparr>em_actors = {|party_actor k|}, em_role = (if recovery_in t E k then RecoveryRole else AppRole)\<rparr>"

definition depicts :: "script \<Rightarrow> nat list \<Rightarrow> (app_id, effective_member) fmap \<Rightarrow> bool" where
  "depicts t E members \<longleftrightarrow>
     (\<forall>app m. fmlookup members app = Some m \<longleftrightarrow> (\<exists>k<256. app = party_app k \<and> member_in t E k \<and> m = party_member t E k))"

lemma admitted_scripted:
  "admitted_member (scripted_operation a) = map_option (\<lambda>(k, role). (party k, role)) (admitted_party a)"
  by (cases a) auto

lemma admitted_acted: "admitted_party a = Some (k, role) \<Longrightarrow> acted_party a = k"
  by (cases a) auto

lemma revokes_scripted:
  assumes "k < 256" and "\<And>a. a \<in> set acts \<Longrightarrow> acted_party a < 256"
  shows "MemberRevoked (party_app k) \<in> scripted_operation ` set acts \<longleftrightarrow> Revokes k \<in> set acts"
proof
  assume "MemberRevoked (party_app k) \<in> scripted_operation ` set acts"
  then obtain a where a: "a \<in> set acts" "scripted_operation a = MemberRevoked (party_app k)" by auto
  have "a = Revokes k" using a(2) assms(2) [OF a(1)] party_inject(1) [OF _ assms(1)] by (cases a) auto
  then show "Revokes k \<in> set acts" using a(1) by simp
qed force

lemma represents_operations:
  "represents t log D Q \<Longrightarrow> n \<in> set D \<Longrightarrow> event_operations log (ex_id n) = map scripted_operation (acts_at t n)"
  by (simp add: event_operations_def represents_lookup)

lemma represents_acted:
  "represents t log D Q \<Longrightarrow> n \<in> set D \<Longrightarrow> a \<in> set (acts_at t n) \<Longrightarrow> acted_party a < 256"
  using sound_entryD(5) representsD(5) by blast

lemma represents_admits:
  assumes r: "represents t log D Q" and E: "set E \<subseteq> set D" and X: "fset X = ex_id ` set E"
  shows "(\<exists>i. admits_in idc log X i app actor role \<and> unrevoked_after log X i app)
    \<longleftrightarrow> (\<exists>k<256. app = party_app k \<and> actor = party_actor k \<and> (\<exists>n\<in>set E. stands t E n k role))"
proof -
  have admits: "admits_in idc log X (ex_id n) app actor role
      \<longleftrightarrow> (\<exists>k<256. app = party_app k \<and> actor = party_actor k \<and> (\<exists>a\<in>set (acts_at t n). admitted_party a = Some (k, role)))"
    if n: "n \<in> set E" for n
  proof -
    have "n \<in> set D" using n E by blast
    note acted = represents_acted [OF r this] and ops = represents_operations [OF r this]
    have "ex_id n |\<in>| X" using n X by auto
    then have "admits_in idc log X (ex_id n) app actor role
        \<longleftrightarrow> (\<exists>a\<in>set (acts_at t n). \<exists>k. admitted_party a = Some (k, role) \<and> party_app k = app \<and> signing_actor idc (party k) = Inr actor)"
    proof -
      have "(\<exists>m. admitted_member (scripted_operation a) = Some (m, role) \<and> mk_app_id m = app \<and> signing_actor idc m = Inr actor)
          \<longleftrightarrow> (\<exists>k. admitted_party a = Some (k, role) \<and> party_app k = app \<and> signing_actor idc (party k) = Inr actor)" for a
        by (cases "admitted_party a") (auto simp: admitted_scripted)
      then show ?thesis unfolding admits_in_def ops set_map using \<open>ex_id n |\<in>| X\<close> by (simp add: bex_simps)
    qed
    also have "\<dots> \<longleftrightarrow> (\<exists>a\<in>set (acts_at t n). \<exists>k<256. admitted_party a = Some (k, role) \<and> app = party_app k \<and> actor = party_actor k)"
      using acted admitted_acted by (intro bex_cong [OF refl]) fastforce
    finally show ?thesis by blast
  qed
  have unrevoked: "unrevoked_after log X (ex_id n) (party_app k)
      \<longleftrightarrow> (\<forall>j\<in>set E. Revokes k \<in> set (acts_at t j) \<longrightarrow> j \<in> set (n # below t n))"
    if n: "n \<in> set E" and k: "k < 256" for n k
  proof -
    have "unrevoked_after log X (ex_id n) (party_app k) \<longleftrightarrow> (\<forall>j\<in>set E.
        MemberRevoked (party_app k) \<in> set (event_operations log (ex_id j)) \<longrightarrow> is_ancestor (il_causal log) (ex_id j) (ex_id n))"
      unfolding unrevoked_after_def identity_is_ancestor_def X by auto
    also have "\<dots> \<longleftrightarrow> (\<forall>j\<in>set E. Revokes k \<in> set (acts_at t j) \<longrightarrow> j \<in> set (n # below t n))"
    proof (rule ball_cong [OF refl])
      fix j assume "j \<in> set E"
      then have j: "j \<in> set D" and nD: "n \<in> set D" using E n by blast+
      show "(MemberRevoked (party_app k) \<in> set (event_operations log (ex_id j)) \<longrightarrow> is_ancestor (il_causal log) (ex_id j) (ex_id n))
          \<longleftrightarrow> (Revokes k \<in> set (acts_at t j) \<longrightarrow> j \<in> set (n # below t n))"
        unfolding represents_operations [OF r j] set_map represents_ancestor [OF r j nD]
        using revokes_scripted [OF k represents_acted [OF r j]] by simp
    qed
    finally show ?thesis .
  qed
  show ?thesis
  proof
    assume "\<exists>i. admits_in idc log X i app actor role \<and> unrevoked_after log X i app"
    then obtain i where i: "admits_in idc log X i app actor role" "unrevoked_after log X i app" by blast
    then obtain n where n: "n \<in> set E" "i = ex_id n" using X by (auto simp: admits_in_def)
    with i admits [OF n(1)] obtain k where "k < 256" "app = party_app k" "actor = party_actor k"
        "\<exists>a\<in>set (acts_at t n). admitted_party a = Some (k, role)" by blast
    then show "\<exists>k<256. app = party_app k \<and> actor = party_actor k \<and> (\<exists>n\<in>set E. stands t E n k role)"
      using n i(2) unrevoked [OF n(1)] unfolding stands_def by blast
  next
    assume "\<exists>k<256. app = party_app k \<and> actor = party_actor k \<and> (\<exists>n\<in>set E. stands t E n k role)"
    then obtain k n where k: "k < 256" "app = party_app k" "actor = party_actor k" "n \<in> set E" "stands t E n k role" by blast
    then have "admits_in idc log X (ex_id n) app actor role" "unrevoked_after log X (ex_id n) app"
      using admits [OF k(4)] unrevoked [OF k(4,1)] unfolding stands_def by blast+
    then show "\<exists>i. admits_in idc log X i app actor role \<and> unrevoked_after log X i app" by blast
  qed
qed

lemma represents_members:
  assumes r: "represents t log D Q" and E: "set E \<subseteq> set D" and X: "fset X = ex_id ` set E"
  obtains members where "effective_members idc log X = Inr members" and "depicts t E members"
proof -
  note admits = represents_admits [OF r E X]
  obtain members where members: "effective_members idc log X = Inr members"
    and dom: "\<And>app. app |\<in>| fmdom members \<longleftrightarrow> (\<exists>i actor role. admits_in idc log X i app actor role \<and> unrevoked_after log X i app)"
    and entry: "\<And>app m. fmlookup members app = Some m \<Longrightarrow>
      (\<forall>actor. actor |\<in>| em_actors m \<longleftrightarrow> (\<exists>i role. admits_in idc log X i app actor role \<and> unrevoked_after log X i app))
      \<and> (em_role m = RecoveryRole \<longleftrightarrow> (\<exists>i actor. admits_in idc log X i app actor RecoveryRole \<and> unrevoked_after log X i app))"
    using effective_members_Inr [OF representsD(7) [OF r], of X] by blast
  have roles: "(\<exists>role. P role) \<longleftrightarrow> P AppRole \<or> P RecoveryRole" for P by (metis member_role.exhaust)
  have dom': "app |\<in>| fmdom members \<longleftrightarrow> (\<exists>k<256. app = party_app k \<and> member_in t E k)" for app
    unfolding dom member_in_def roles using admits [of app] by blast
  have entry': "m = party_member t E k" if k: "k < 256" "fmlookup members (party_app k) = Some m" for k m
  proof -
    have "member_in t E k" using dom' [of "party_app k"] k party_inject(1) by (metis fmdomI)
    have admitted: "(\<exists>i. admits_in idc log X i (party_app k) actor role \<and> unrevoked_after log X i (party_app k))
        \<longleftrightarrow> actor = party_actor k \<and> (\<exists>n\<in>set E. stands t E n k role)" for actor role
      unfolding admits using k(1) party_inject(1) by blast
    have "actor |\<in>| em_actors m \<longleftrightarrow> (\<exists>role. \<exists>i. admits_in idc log X i (party_app k) actor role \<and> unrevoked_after log X i (party_app k))"
      for actor using conjunct1 [OF entry [OF k(2)]] by blast
    then have "actor |\<in>| em_actors m \<longleftrightarrow> actor = party_actor k" for actor
      unfolding admitted roles using \<open>member_in t E k\<close> member_in_def by auto
    then have "em_actors m = {|party_actor k|}" by (intro fset_eqI) simp
    moreover have "em_role m = RecoveryRole
        \<longleftrightarrow> (\<exists>actor. \<exists>i. admits_in idc log X i (party_app k) actor RecoveryRole \<and> unrevoked_after log X i (party_app k))"
      using conjunct2 [OF entry [OF k(2)]] by blast
    then have "em_role m = RecoveryRole \<longleftrightarrow> recovery_in t E k" unfolding admitted recovery_in_def by simp
    ultimately show ?thesis by (cases m; cases "em_role m") (auto simp: party_member_def)
  qed
  have "fmlookup members app = Some m \<longleftrightarrow> (\<exists>k<256. app = party_app k \<and> member_in t E k \<and> m = party_member t E k)" for app m
  proof
    assume m: "fmlookup members app = Some m"
    then obtain k where k: "k < 256" "app = party_app k" "member_in t E k" using dom' fmdomI by metis
    then show "\<exists>k<256. app = party_app k \<and> member_in t E k \<and> m = party_member t E k" using entry' m by blast
  next
    assume "\<exists>k<256. app = party_app k \<and> member_in t E k \<and> m = party_member t E k"
    then obtain k where k: "k < 256" "app = party_app k" "member_in t E k" "m = party_member t E k" by blast
    then obtain m' where "fmlookup members app = Some m'" using dom' fmdomE by metis
    then show "fmlookup members app = Some m" using entry' k by blast
  qed
  then show ?thesis using that [OF members] by (simp add: depicts_def)
qed

subsection \<open>Rejections at positions\<close>

fun refused_at :: "script \<Rightarrow> nat list \<Rightarrow> nat \<Rightarrow> scripted \<Rightarrow> bool" where
  "refused_at t E s (Approves k) \<longleftrightarrow> member_in t E k"
| "refused_at t E s (Revokes k) \<longleftrightarrow> k \<noteq> s"
| "refused_at t E s _ \<longleftrightarrow> True"

fun readds_at :: "script \<Rightarrow> nat list \<Rightarrow> scripted \<Rightarrow> bool" where
  "readds_at t E (AddsRecovery k) \<longleftrightarrow> member_in t E k"
| "readds_at t E _ \<longleftrightarrow> False"

definition revoked_at :: "script \<Rightarrow> nat \<Rightarrow> nat \<Rightarrow> nat \<Rightarrow> bool" where
  "revoked_at t n s r \<longleftrightarrow> r \<noteq> n \<and> n \<notin> set (below t r) \<and> Revokes s \<in> set (acts_at t r)
     \<and> member_in t (below t r) (signer_at t r)"

definition issued_at :: "script \<Rightarrow> nat \<Rightarrow> bool" where
  "issued_at t n \<longleftrightarrow> (\<exists>m\<in>set (below t n). Issues \<in> set (acts_at t m))"

definition joins_at :: "script \<Rightarrow> nat \<Rightarrow> bool" where
  "joins_at t n \<longleftrightarrow> list_ex is_join (acts_at t n)"

definition rejects :: "script \<Rightarrow> nat list \<Rightarrow> nat list \<Rightarrow> nat \<Rightarrow> bool" where
  "rejects t D Q n \<longleftrightarrow> n \<noteq> 0 \<and>
     (if joins_at t n then \<not> issued_at t n \<or> (\<exists>m\<in>set D. m < n \<and> joins_at t m \<and> issued_at t m)
      else let E = below t n; s = signer_at t n in
        \<not> member_in t E s
        \<or> (if recovery_in t E s
           then list_ex (refused_at t E s) (acts_at t n) \<or> (\<exists>r\<in>set D. alive t Q r \<and> revoked_at t n s r)
           else list_ex (readds_at t E) (acts_at t n)))"

lemma depicts_member: "depicts t E members \<Longrightarrow> k < 256 \<Longrightarrow> party_app k |\<in>| fmdom members \<longleftrightarrow> member_in t E k"
  using party_inject(1) unfolding depicts_def fmlookup_dom_iff by blast

lemma depicts_signer:
  assumes "depicts t E members" and "s < 256"
  shows "fmlookup members app = Some m \<and> party_actor s |\<in>| em_actors m
    \<longleftrightarrow> app = party_app s \<and> member_in t E s \<and> m = party_member t E s"
proof -
  have "party_actor s |\<in>| em_actors (party_member t E k) \<longleftrightarrow> k = s" if "k < 256" for k
    using party_inject(2) [OF assms(2) that] by (auto simp: party_member_def)
  then have "(\<exists>k<256. app = party_app k \<and> member_in t E k \<and> m = party_member t E k) \<and> party_actor s |\<in>| em_actors m
      \<longleftrightarrow> app = party_app s \<and> member_in t E s \<and> m = party_member t E s"
    using assms(2) by blast
  then show ?thesis using assms(1) unfolding depicts_def by (simp only:)
qed

lemma depicts_acting:
  assumes "depicts t E members" and "s < 256"
  shows "acting_member members (party_actor s) = (if member_in t E s then Some (party_app s, party_member t E s) else None)"
    and "list_ex (\<lambda>(_, m). party_actor s |\<in>| em_actors m) (sorted_list_of_fmap members) \<longleftrightarrow> member_in t E s"
    and "find (\<lambda>(_, m). party_actor s |\<in>| em_actors m \<and> em_role m = RecoveryRole) (sorted_list_of_fmap members)
      = (if member_in t E s \<and> recovery_in t E s then Some (party_app s, party_member t E s) else None)"
proof -
  note signer = depicts_signer [OF assms]
  show exists: "list_ex (\<lambda>(_, m). party_actor s |\<in>| em_actors m) (sorted_list_of_fmap members) \<longleftrightarrow> member_in t E s"
    unfolding list_ex_iff using signer by (auto simp: set_sorted_list_of_fmap)
  show acting: "acting_member members (party_actor s) = (if member_in t E s then Some (party_app s, party_member t E s) else None)"
  proof (cases "acting_member members (party_actor s)")
    case None
    then show ?thesis using exists by (simp add: acting_member_None)
  next
    case (Some p)
    then show ?thesis using acting_member_Some [of members "party_actor s" "fst p" "snd p"] signer [of "fst p" "snd p"]
      by (cases p) auto
  qed
  show "find (\<lambda>(_, m). party_actor s |\<in>| em_actors m \<and> em_role m = RecoveryRole) (sorted_list_of_fmap members)
      = (if member_in t E s \<and> recovery_in t E s then Some (party_app s, party_member t E s) else None)"
  proof (cases "member_in t E s \<and> recovery_in t E s")
    case True
    then show ?thesis using first_recovery [of members "party_actor s"] acting by (simp add: party_member_def)
  next
    case False
    have "\<not> (case p of (_, m) \<Rightarrow> party_actor s |\<in>| em_actors m \<and> em_role m = RecoveryRole)"
      if "p \<in> set (sorted_list_of_fmap members)" for p
      using that False signer [of "fst p" "snd p"] by (auto simp: set_sorted_list_of_fmap party_member_def)
    then have "find (\<lambda>(_, m). party_actor s |\<in>| em_actors m \<and> em_role m = RecoveryRole) (sorted_list_of_fmap members) = None"
      by (auto simp: find_None_iff)
    then show ?thesis using False by simp
  qed
qed

lemma depicts_refused:
  assumes "depicts t E members" and "s < 256" and "acted_party a < 256"
  shows "refused_for_recovery (party_app s) members (scripted_operation a) \<longleftrightarrow> refused_at t E s a"
    and "readds_member members (scripted_operation a) \<longleftrightarrow> readds_at t E a"
  using assms depicts_member [OF assms(1)] party_inject(1) by (cases a; simp)+

lemma represents_before:
  assumes r: "represents t log D Q" and n: "n \<in> set D"
  obtains members where "effective_members idc log (ancestry log (ib_parents (scripted_body t n))) = Inr members"
    and "depicts t (below t n) members"
  using represents_members [OF r, of "below t n"] represents_ancestry [OF r n] below_recorded [OF r n] by blast

lemma represents_revocation:
  assumes r: "represents t log D Q" and n: "n \<in> set D" and s: "s < 256" and "set rs \<subseteq> set D"
  shows "recovery_revocation idc log (ex_id n) (party_app s) (map ex_id rs) = Inr None \<longleftrightarrow> \<not> (\<exists>x\<in>set rs. revoked_at t n s x)"
  using assms(4)
proof (induction rs)
  case (Cons x rs)
  then have x: "x \<in> set D" and IH: "recovery_revocation idc log (ex_id n) (party_app s) (map ex_id rs) = Inr None
      \<longleftrightarrow> \<not> (\<exists>x\<in>set rs. revoked_at t n s x)" by auto
  obtain members where members: "effective_members idc log (ancestry log (ib_parents (scripted_body t x))) = Inr members"
    and depicts: "depicts t (below t x) members" by (rule represents_before [OF r x])
  have signer: "signer_at t x < 256" using sound_entryD(1) representsD(5) [OF r x] .
  have "list_ex (revokes_member (party_app s)) (map scripted_operation (acts_at t x)) \<longleftrightarrow> Revokes s \<in> set (acts_at t x)"
  proof -
    have "revokes_member (party_app s) op \<longleftrightarrow> op = MemberRevoked (party_app s)" for op by (cases op) auto
    then show ?thesis
      using revokes_scripted [OF s represents_acted [OF r x]] by (simp add: list_ex_iff image_iff)
  qed
  then show ?case
    using IH members depicts_acting(2) [OF depicts signer] represents_ancestor [OF r n x] represents_inject [OF r x n]
    by (simp add: represents_lookup [OF r x] revoked_at_def)
qed simp

subsection \<open>Rejection in the log and at positions\<close>

lemma represents_less:
  assumes r: "represents t log D Q" and "m \<in> set D" and "n \<in> set D"
  shows "ex_id m < ex_id n \<longleftrightarrow> m < n"
  using ex_id_less [of m n] ex_id_less [of n m] representsD(4) [OF r assms(2)] representsD(4) [OF r assms(3)]
  by (cases m n rule: linorder_cases) (auto simp: not_less_iff_gr_or_eq)

lemma scripted_not_request: "\<not> is_self_signed_join_request idc (scripted_event t n)"
proof
  assume "is_self_signed_join_request idc (scripted_event t n)"
  then obtain m where "map scripted_operation (acts_at t n) = [MemberJoinRequested m]"
    using join_request_shape by fastforce
  then obtain a where "scripted_operation a = MemberJoinRequested m" by auto
  then show False by (cases a) auto
qed

lemma scripted_invite_join:
  assumes "sound_entry t n"
  shows "invite_join (scripted_event t n)
    = (if joins_at t n then Some (the_invite, party (signer_at t n), scripted_signature 0 9) else None)"
proof (cases "joins_at t n")
  case True
  then have "acts_at t n = [Joins (signer_at t n)]"
    using sound_entryD(8) [OF assms] by (auto simp: joins_at_def list_ex_iff)
  then show ?thesis using True by (simp add: invite_join.simps)
next
  case False
  have "invite_join (scripted_event t n) = None"
  proof (rule ccontr)
    assume "invite_join (scripted_event t n) \<noteq> None"
    then obtain invite m sig deks where "map scripted_operation (acts_at t n) = [MemberJoinedByInvite invite m sig deks]"
      using invite_join_shape by fastforce
    then obtain a where "acts_at t n = [a]" "scripted_operation a = MemberJoinedByInvite invite m sig deks" by auto
    then show False using False by (cases a) (auto simp: joins_at_def)
  qed
  then show ?thesis using False by simp
qed

lemma scripted_issue: "invite_issue the_invite (scripted_operation a) = (if a = Issues then Some
   \<lparr>iv_invite_id = the_invite, iv_signing_public_key = Ed25519Hex (party_hex 9),
    iv_expires_at = IsoTimestamp ''2026-07-28T12:00:00Z''\<rparr> else None)"
  by (cases a) auto

lemma represents_issued:
  assumes r: "represents t log D Q" and n: "n \<in> set D"
  shows "issued_invite log (ib_parents (scripted_body t n)) the_invite = (if issued_at t n then Some
   \<lparr>iv_invite_id = the_invite, iv_signing_public_key = Ed25519Hex (party_hex 9),
    iv_expires_at = IsoTimestamp ''2026-07-28T12:00:00Z''\<rparr> else None)"
proof -
  let ?inv = "\<lparr>iv_invite_id = the_invite, iv_signing_public_key = Ed25519Hex (party_hex 9),
    iv_expires_at = IsoTimestamp ''2026-07-28T12:00:00Z''\<rparr>"
  let ?evs = "List.map_filter (fmlookup (il_events log)) (elems (ancestry log (ib_parents (scripted_body t n))))"
  let ?found = "List.map_filter (invite_issue the_invite) (concat (map (\<lambda>ev. ib_operations (ie_body ev)) ?evs))"
  have "set ?evs = scripted_event t ` set (below t n)"
  proof -
    have "ev \<in> set ?evs \<longleftrightarrow> (\<exists>m\<in>set (below t n). fmlookup (il_events log) (ex_id m) = Some ev)" for ev
      unfolding in_map_filter using represents_ancestry [OF r n] by simp
    then show ?thesis using represents_lookup [OF r] below_recorded [OF r n] by auto
  qed
  then have "x \<in> set ?found \<longleftrightarrow> x = ?inv \<and> issued_at t n" for x
    unfolding in_map_filter by (auto simp: scripted_issue issued_at_def split: if_splits)
  then show ?thesis by (cases ?found) (auto simp: issued_invite_def Let_def)
qed

lemma proof_verifies: "invite_proof_verify idc home the_invite (party k) \<lparr>iv_invite_id = the_invite,
    iv_signing_public_key = Ed25519Hex (party_hex 9), iv_expires_at = at\<rparr> (scripted_signature 0 9) = Inr ()"
proof -
  obtain entries where entries: "invite_proof_message idc home the_invite (party k) = canonical_from_json stamp_crates (JObj entries)"
    and keys: "map fst entries = [''purpose'', ''identity_id'', ''invite_id'', ''app_id'', ''encryption_public_key'', ''signing_public_key'']"
    by (simp add: invite_proof_message_def)
  have "''created_at'' \<notin> set (map fst entries)" unfolding keys by code_simp
  then have "map_of (map (\<lambda>(key, item). (key, canonicalize_json item)) (sort_key fst entries)) ''created_at'' = None"
    by (force simp: map_of_eq_None_iff)
  then have "time_stamp (canonicalize_json (JObj entries)) = 0" by (simp add: time_stamp_def)
  then have "invite_proof_message idc home the_invite (party k) = Inr [of_nat 0]"
    by (simp add: entries canonical_from_json_def stamp_crates_def del: canonicalize_json.simps)
  then show ?thesis using scripted_signature_verifies [of 0 9] by (simp add: invite_proof_verify_def)
qed

lemma represents_join_holds:
  assumes r: "represents t log D Q" and n: "n \<in> set D"
  shows "invite_join_holds idc log (scripted_event t n) \<longleftrightarrow> joins_at t n \<and> issued_at t n"
  using represents_issued [OF r n] scripted_invite_join [OF representsD(5) [OF r n]] representsD(8) [OF r]
  by (simp add: invite_join_holds_def proof_verifies)

lemma represents_join_rejection:
  assumes r: "represents t log D Q" and n: "n \<in> set D" and join: "joins_at t n"
  shows "invite_join_rejection idc log (ex_id n) (scripted_event t n) = None
    \<longleftrightarrow> issued_at t n \<and> \<not> (\<exists>m\<in>set D. m < n \<and> joins_at t m \<and> issued_at t m)"
proof -
  have "list_ex (\<lambda>(other_id, other). other_id < ex_id n
        \<and> (case invite_join other of Some (other_invite, _, _) \<Rightarrow> other_invite = the_invite | None \<Rightarrow> False)
        \<and> invite_join_holds idc log other) (sorted_list_of_fmap (il_events log))
      \<longleftrightarrow> (\<exists>m\<in>set D. ex_id m < ex_id n
        \<and> (case invite_join (scripted_event t m) of Some (other_invite, _, _) \<Rightarrow> other_invite = the_invite | None \<Rightarrow> False)
        \<and> invite_join_holds idc log (scripted_event t m))"
    unfolding list_ex_iff using representsD(9) [OF r] by (auto simp: set_sorted_list_of_fmap)
  also have "\<dots> \<longleftrightarrow> (\<exists>m\<in>set D. m < n \<and> joins_at t m \<and> issued_at t m)"
  proof (rule bex_cong [OF refl])
    fix m assume m: "m \<in> set D"
    show "(ex_id m < ex_id n
        \<and> (case invite_join (scripted_event t m) of Some (other_invite, _, _) \<Rightarrow> other_invite = the_invite | None \<Rightarrow> False)
        \<and> invite_join_holds idc log (scripted_event t m)) \<longleftrightarrow> (m < n \<and> joins_at t m \<and> issued_at t m)"
      using represents_less [OF r m n] represents_join_holds [OF r m] scripted_invite_join [OF representsD(5) [OF r m]] by auto
  qed
  finally show ?thesis
    using scripted_invite_join [OF representsD(5) [OF r n]] join represents_join_holds [OF r n]
    by (auto simp: invite_join_rejection_def)
qed

lemma represents_rejects:
  assumes r: "represents t log D Q" and n: "n \<in> set D"
  shows "rejection_text idc log (ex_id n) = None \<longleftrightarrow> \<not> rejects t D Q n"
proof -
  note entry = representsD(5) [OF r n]
  have no_reason: "rejection_text idc log (ex_id n) = None \<longleftrightarrow> unauthorized_reason idc log (ex_id n) = Inr None"
    using unauthorized_reason_Inr [OF representsD(7) [OF r], of "ex_id n"] by (auto simp: rejection_text_def)
  have genesis: "is_genesis (scripted_body t n) \<longleftrightarrow> n = 0" using sound_entryD(4) [OF entry] by (simp add: is_genesis_def)
  note simps = unauthorized_reason_def represents_lookup [OF r n] genesis scripted_not_request scripted_invite_join [OF entry]
  consider "n = 0" | "n \<noteq> 0" "joins_at t n" | "n \<noteq> 0" "\<not> joins_at t n" by blast
  then show ?thesis
  proof cases
    case 1
    then show ?thesis
      unfolding no_reason using represents_lookup [OF r n] genesis by (simp add: unauthorized_reason_def rejects_def)
  next
    case 2
    then show ?thesis unfolding no_reason using represents_join_rejection [OF r n] by (auto simp: simps rejects_def)
  next
    case 3
    let ?E = "below t n" and ?s = "signer_at t n"
    obtain members where members: "effective_members idc log (ancestry log (ib_parents (scripted_body t n))) = Inr members"
      and depicts: "depicts t ?E members" by (rule represents_before [OF r n])
    have s: "?s < 256" by (rule sound_entryD(1) [OF entry])
    note acting = depicts_acting [OF depicts s]
    have refused: "list_ex (refused_for_recovery (party_app ?s) members) (map scripted_operation (acts_at t n))
        \<longleftrightarrow> list_ex (refused_at t ?E ?s) (acts_at t n)"
      "list_ex (readds_member members) (map scripted_operation (acts_at t n)) \<longleftrightarrow> list_ex (readds_at t ?E) (acts_at t n)"
      unfolding list_ex_iff using depicts_refused [OF depicts s sound_entryD(5) [OF entry]] by auto
    have revoked: "recovery_revocation idc log (ex_id n) (party_app ?s) (applicable_ids (il_causal log)) = Inr None
        \<longleftrightarrow> \<not> (\<exists>x\<in>set D. alive t Q x \<and> revoked_at t n ?s x)"
      using represents_revocation [OF r n s, of "filter (alive t Q) (sort D)"] represents_applicable [OF r] by auto
    obtain found where found: "recovery_revocation idc log (ex_id n) (party_app ?s) (applicable_ids (il_causal log)) = Inr found"
      using recovery_revocation_Inr [OF representsD(7) [OF r]] by blast
    show ?thesis
      unfolding no_reason using 3 members acting refused revoked found
      by (auto simp: simps rejects_def Let_def member_action_rejection_def revoked_recovery_rejection_def party_member_def
          split: if_splits option.splits)
  qed
qed

subsection \<open>Quarantine and insertion at positions\<close>

fun pass_at :: "script \<Rightarrow> nat list \<Rightarrow> nat list \<Rightarrow> bool \<Rightarrow> nat list \<Rightarrow> nat list \<times> bool" where
  "pass_at t D Q changed [] = (Q, changed)"
| "pass_at t D Q changed (n # ns) =
     (if rejects t D Q n then pass_at t D (n # Q) True ns else pass_at t D Q changed ns)"

primrec settle_at :: "script \<Rightarrow> nat list \<Rightarrow> nat list \<Rightarrow> nat \<Rightarrow> nat list option" where
  "settle_at t D Q 0 = None"
| "settle_at t D Q (Suc k) =
     (case pass_at t D Q False (filter (alive t Q) (sort D)) of
        (Q', changed) \<Rightarrow> if changed then settle_at t D Q' k else Some Q')"

text \<open>The positions in the order of arrival, the last one first.\<close>

primrec run_at :: "script \<Rightarrow> nat list \<Rightarrow> (nat list \<times> nat list) option" where
  "run_at t [] = Some ([], [])"
| "run_at t (n # ns) = Option.bind (run_at t ns) (\<lambda>(D, Q).
     if n < length t \<and> n \<notin> set D \<and> list_all (\<lambda>p. p \<in> set D) (parents_at t n)
     then map_option (\<lambda>Q'. (n # D, Q')) (settle_at t (n # D) Q (length D + 2)) else None)"

definition inserted :: "identity_crates \<Rightarrow> identity_id \<Rightarrow> identity_event list \<Rightarrow> identity_control_log event_result" where
  "inserted c identity evs = fold_result (\<lambda>log ev.
     case insert_identity_event c log ev of Inl (_, e) \<Rightarrow> Inl e | Inr (log', _) \<Rightarrow> Inr log') (new_identity_log identity) evs"

lemma inserted_snoc: "inserted c identity (evs @ [ev]) = and_then (inserted c identity evs) (\<lambda>log.
    case insert_identity_event c log ev of Inl (_, e) \<Rightarrow> Inl e | Inr (log', _) \<Rightarrow> Inr log')"
proof -
  have "and_then r Inr = r" for r :: "identity_control_log event_result" by (cases r) simp_all
  then show ?thesis by (simp add: inserted_def fold_result_append)
qed

lemma inserted_history: "inserted c identity evs = Inr log \<Longrightarrow> identity_history c log"
proof (induction evs arbitrary: log rule: rev_induct)
  case Nil
  then show ?case by (auto simp: inserted_def intro: identity_history_new)
next
  case (snoc ev evs)
  then obtain log1 where log1: "identity_history c log1" and
      "(case insert_identity_event c log1 ev of Inl (_, e) \<Rightarrow> Inl e | Inr (log', _) \<Rightarrow> Inr log') = Inr log"
    by (auto simp: inserted_snoc and_then_Inr_iff)
  then obtain status where "insert_identity_event c log1 ev = Inr (log, status)"
    by (cases "insert_identity_event c log1 ev") auto
  then show ?case using identity_history_insert [OF log1] by blast
qed

lemma represents_reject:
  assumes r: "represents t log D Q" and n: "n \<in> set D"
  shows "represents t (log\<lparr>il_causal := quarantine_event (il_causal log) \<lparr>quar_id = ex_id n, quar_reason = reason\<rparr>\<rparr>) D (n # Q)"
proof -
  let ?h = "quarantine_event (il_causal log) \<lparr>quar_id = ex_id n, quar_reason = reason\<rparr>"
  have "cg_parents ?h = cg_parents (il_causal log)" by simp
  moreover have "fset (fmdom (cg_quarantine_roots ?h)) = insert (ex_id n) (fset (rejected_roots log))"
    by (auto simp: quarantine_event_def merge_quarantine_reason_def split: option.splits dest: fmdomI)
  moreover have "identity_log_wf idc (log\<lparr>il_causal := ?h\<rparr>)"
    using representsD(7) [OF r] by (simp add: identity_log_wf_def wf_quarantine_event)
  ultimately show ?thesis using r n unfolding represents_def by auto
qed

lemma represents_pass:
  "represents t log D Q \<Longrightarrow> set ns \<subseteq> set D \<Longrightarrow> pass_at t D Q changed ns = (Q', changed') \<Longrightarrow>
    \<exists>log'. identity_pass idc log changed (map ex_id ns) = (log', changed') \<and> represents t log' D Q'"
proof (induction ns arbitrary: log Q changed)
  case (Cons n ns)
  then have n: "n \<in> set D" "set ns \<subseteq> set D" by auto
  note rejects = represents_rejects [OF Cons.prems(1) n(1)]
  show ?case
  proof (cases "rejection_text idc log (ex_id n)")
    case None
    then show ?thesis using Cons.IH [OF Cons.prems(1) n(2)] Cons.prems(3) rejects by simp
  next
    case (Some reason)
    then show ?thesis
      using Cons.IH [OF represents_reject [OF Cons.prems(1) n(1)] n(2)] Cons.prems(3) rejects by simp
  qed
qed simp

lemma represents_settle:
  "represents t log D Q \<Longrightarrow> settle_at t D Q k = Some Q' \<Longrightarrow> represents t (quarantine_unauthorized idc log) D Q'"
proof (induction k arbitrary: log Q)
  case (Suc k)
  obtain Q1 changed where pass: "pass_at t D Q False (filter (alive t Q) (sort D)) = (Q1, changed)" by fastforce
  then obtain log1 where log1: "identity_pass idc log False (applicable_ids (il_causal log)) = (log1, changed)"
    and r1: "represents t log1 D Q1"
    using represents_pass [OF Suc.prems(1) _ pass] represents_applicable [OF Suc.prems(1)] by auto
  show ?case
  proof (cases changed)
    case True
    then have "quarantine_unauthorized idc log = quarantine_unauthorized idc log1"
      by (simp add: quarantine_unauthorized.simps [of idc log] log1)
    then show ?thesis using Suc.IH [OF r1] Suc.prems(2) pass True by simp
  next
    case False
    then show ?thesis
      using r1 Suc.prems(2) pass by (simp add: quarantine_unauthorized.simps [of idc log] log1)
  qed
qed simp

lemma represents_new: "sound_script t \<Longrightarrow> represents t (new_identity_log home) [] []"
  using identity_history_wf [OF identity_history_new [of idc home]]
  by (auto simp: represents_def new_identity_log_def new_graph_def)

lemma represents_insert:
  assumes r: "represents t log D Q" and n: "n < length t" "n \<notin> set D" "set (parents_at t n) \<subseteq> set D"
  shows "represents t (with_event log (ex_id n) (scripted_event t n)) (n # D) Q"
    and "\<exists>status. insert_identity_event idc log (scripted_event t n)
      = Inr (quarantine_unauthorized idc (with_event log (ex_id n) (scripted_event t n)), status)"
proof -
  let ?log = "with_event log (ex_id n) (scripted_event t n)"
  have entry: "sound_entry t n" and small: "n < 256"
    using representsD(1) [OF r] n(1) by (auto simp: sound_script_def list_all_iff)
  have "ex_id n \<noteq> ex_id m" if "m \<in> set D" for m
    using ex_id_inject [OF small, of m] representsD(4) [OF r that] that n(2) by auto
  then have new: "fmlookup (il_events log) (ex_id n) = None"
    using representsD(9) [OF r, of "ex_id n"] by (metis not_None_eq)
  have valid: "validate_identity_envelope idc (scripted_event t n) (il_identity_id log) = Inr (ex_id n)"
    using scripted_valid [OF entry] representsD(8) [OF r] by simp
  have wf: "identity_log_wf idc ?log" by (rule with_event_wf [OF representsD(7) [OF r] new valid])
  have "fmlookup (cg_parents (il_causal log)) (ex_id n) = None"
    using representsD(7) [OF r] new by (simp add: identity_log_wf_def)
  then have roots: "rejected_roots ?log = rejected_roots log" by (simp add: with_event_def insert_event_def Let_def)
  have "fmlookup (il_events ?log) i = Some ev \<longleftrightarrow> (\<exists>m\<in>set (n # D). i = ex_id m \<and> ev = scripted_event t m)" for i ev
    using representsD(9) [OF r, of i ev] new by (auto simp: with_event_def)
  moreover have "il_identity_id ?log = home" using representsD(8) [OF r] by (simp add: with_event_def)
  ultimately show "represents t ?log (n # D) Q"
    using r n wf roots unfolding represents_def by auto
  have "is_genesis (scripted_body t m) \<longleftrightarrow> m = 0" if "sound_entry t m" for m
    using sound_entryD(4) [OF that] by (simp add: is_genesis_def)
  then have "is_genesis (scripted_body t n) \<Longrightarrow> genesis_id log = None"
    using n(2) entry representsD(5) [OF r] representsD(9) [OF r]
    by (auto simp: genesis_id_def find_None_iff set_sorted_list_of_fmap)
  then show "\<exists>status. insert_identity_event idc log (scripted_event t n) = Inr (quarantine_unauthorized idc ?log, status)"
    using valid new by (auto simp: insert_identity_event_def Let_def fmlookup_dom_iff)
qed

lemma run_represents:
  assumes "sound_script t" and "run_at t ns = Some (D, Q)"
  shows "\<exists>log. inserted idc home (map (scripted_event t) (rev ns)) = Inr log \<and> represents t log D Q"
  using assms(2)
proof (induction ns arbitrary: D Q)
  case Nil
  then show ?case using represents_new [OF assms(1)] by (simp add: inserted_def)
next
  case (Cons n ns)
  then obtain D1 Q1 where run: "run_at t ns = Some (D1, Q1)" and D: "D = n # D1"
    and n: "n < length t" "n \<notin> set D1" "set (parents_at t n) \<subseteq> set D1"
    and settle: "settle_at t (n # D1) Q1 (length D1 + 2) = Some Q"
    by (auto simp: bind_eq_Some_conv list_all_iff subset_eq simp del: settle_at.simps split: if_splits)
  obtain log where log: "inserted idc home (map (scripted_event t) (rev ns)) = Inr log" "represents t log D1 Q1"
    using Cons.IH [OF run] by blast
  note insert = represents_insert [OF log(2) n]
  from insert(2) log(1) have "inserted idc home (map (scripted_event t) (rev (n # ns)))
      = Inr (quarantine_unauthorized idc (with_event log (ex_id n) (scripted_event t n)))"
    by (auto simp: inserted_snoc)
  then show ?case using represents_settle [OF insert(1) settle] D by blast
qed

subsection \<open>Two scripts\<close>

text \<open>A founder, a recovery passphrase, the app it approves, an invite and its join.\<close>

definition growing :: script where
  "growing = [([], 1, [Creates 1]), ([0], 1, [AddsRecovery 2]), ([1], 2, [Approves 3]),
     ([2], 3, [Issues]), ([3], 4, [Joins 4])]"

text \<open>Two recovery passphrases 2 and 3.  The founder revokes 2, which concurrently approves 4; 4
  revokes 3, which concurrently approves 5.\<close>

definition diverging :: script where
  "diverging = [([], 1, [Creates 1]), ([0], 1, [AddsRecovery 2, AddsRecovery 3]), ([1], 1, [Revokes 2]),
     ([1], 2, [Approves 4]), ([3], 4, [Revokes 3]), ([1], 3, [Approves 5])]"

lemma growing_run: "run_at growing [4, 3, 2, 1, 0] = Some ([4, 3, 2, 1, 0], [])"
  by code_simp

lemma diverging_run:
  "run_at diverging [2, 5, 4, 3, 1, 0] = Some ([2, 5, 4, 3, 1, 0], [3, 5])"
  "run_at diverging [5, 4, 3, 2, 1, 0] = Some ([5, 4, 3, 2, 1, 0], [3])"
  by code_simp+

subsection \<open>The growing identity\<close>

lemma growing_log:
  obtains log where "represents growing log [4, 3, 2, 1, 0] []" and "identity_history idc log"
    and "applicable_ids (il_causal log) = map ex_id [0, 1, 2, 3, 4]"
proof -
  have "sound_script growing" by code_simp
  from run_represents [OF this growing_run] obtain log where
    "inserted idc home (map (scripted_event growing) (rev [4, 3, 2, 1, 0])) = Inr log"
    and r: "represents growing log [4, 3, 2, 1, 0] []" by blast
  moreover have "filter (alive growing []) (sort [4, 3, 2, 1, 0]) = [0, 1, 2, 3, 4]" by code_simp
  ultimately show ?thesis using that [OF r] inserted_history represents_applicable [OF r] by simp
qed

lemma represents_applicable_iff:
  "represents t log D Q \<Longrightarrow> n \<in> set D \<Longrightarrow> ex_id n \<in> set (applicable_ids (il_causal log)) \<longleftrightarrow> alive t Q n"
proof -
  assume r: "represents t log D Q" and n: "n \<in> set D"
  have "ex_id n \<in> ex_id ` {m \<in> set D. alive t Q m} \<longleftrightarrow> alive t Q n"
    using represents_inject [OF r n] n by auto
  then show ?thesis unfolding represents_applicable [OF r] set_map set_filter set_sort .
qed

lemma represents_genesis: "represents t log D Q \<Longrightarrow> 0 \<in> set D \<Longrightarrow> alive t Q 0 \<Longrightarrow>
  \<exists>i\<in>set (applicable_ids (il_causal log)). \<exists>ev. fmlookup (il_events log) i = Some ev \<and> is_genesis (ie_body ev)"
  using represents_applicable_iff [of t log D Q 0] represents_lookup [of t log D Q 0]
    sound_entryD(4) [OF representsD(5) [of t log D Q 0]]
  by (intro bexI [of _ "ex_id 0"] exI [of _ "scripted_event t 0"]) (auto simp: is_genesis_def)

lemma represents_projects:
  assumes "represents t log D Q" and "identity_history idc log" and "0 \<in> set D" and "alive t Q 0"
  obtains s where "project_identity idc log = Inr s"
  using identity_projects_iff [OF assms(2)] represents_genesis [OF assms(1,3,4)] by blast

text \<open>The members of the projected state are those at the alive positions.\<close>

lemma represents_state:
  assumes r: "represents t log D Q" and h: "identity_history idc log" and s: "project_identity idc log = Inr s"
    and k: "k < 256"
  shows "party_app k \<in> set (map (\<lambda>m. mk_app_id (cm_keys m)) (cs_members s)) \<longleftrightarrow> member_in t (filter (alive t Q) (sort D)) k"
proof -
  let ?E = "filter (alive t Q) (sort D)" and ?X = "fset_of_list (applicable_ids (il_causal log))"
  have X: "fset ?X = ex_id ` set ?E" by (simp only: fset_of_list.rep_eq represents_applicable [OF r] set_map)
  have E: "set ?E \<subseteq> set D" by auto
  obtain active where active: "effective_members idc log ?X = Inr active" and depicts: "depicts t ?E active"
    by (rule represents_members [OF r E X])
  obtain evs pa active' members where evs: "set (map fst evs) = set (applicable_ids (il_causal log))"
      "\<forall>(i, ev)\<in>set evs. fmlookup (il_events log) i = Some ev"
    and pa: "accumulates idc (operations_of evs) pa" and active': "effective_members idc log ?X = Inr active'"
    and members: "active_members pa active' = Inr members" and state: "s = projected_state pa log active' members"
    using project_identity_Inr [OF h s] .
  have "map (\<lambda>m. mk_app_id (cm_keys m)) (cs_members s) = keys_of active"
    using project_identity_apps(2) [OF h pa evs active' members] active active'
    by (simp add: state projected_state_def Let_def)
  then show ?thesis using depicts_member [OF depicts k] by simp
qed

theorem identity_log_is_authorized_witness:
  "\<exists>log. identity_history idc log \<and> set (applicable_ids (il_causal log)) = ex_id ` {0, 1, 2, 3, 4}
    \<and> (\<forall>i\<in>set (applicable_ids (il_causal log)). \<exists>ev. fmlookup (il_events log) i = Some ev
        \<and> validate_identity_envelope idc ev (il_identity_id log) = Inr i)
    \<and> (\<exists>evs. ordered_applicable_events log = Inr evs \<and> length evs = 5)"
proof -
  obtain log where r: "represents growing log [4, 3, 2, 1, 0] []" and h: "identity_history idc log"
    and ids: "applicable_ids (il_causal log) = map ex_id [0, 1, 2, 3, 4]" by (rule growing_log)
  from identity_log_is_authorized [OF h] obtain evs where evs: "ordered_applicable_events log = Inr evs"
      "distinct (map fst evs)" "set (map fst evs) = set (applicable_ids (il_causal log))" by blast
  have "length evs = card (set (map fst evs))" using evs(2) by (metis distinct_card length_map)
  also have "\<dots> = length (applicable_ids (il_causal log))" unfolding evs(3) by (rule distinct_card) simp
  finally have "length evs = 5" by (simp add: ids)
  moreover have "set (applicable_ids (il_causal log)) = ex_id ` {0, 1, 2, 3, 4}" unfolding ids by simp
  moreover have "\<forall>i\<in>set (applicable_ids (il_causal log)). \<exists>ev. fmlookup (il_events log) i = Some ev
      \<and> validate_identity_envelope idc ev (il_identity_id log) = Inr i"
    using identity_log_is_authorized [OF h] by blast
  ultimately show ?thesis using h evs(1) by blast
qed

theorem invite_admits_once_witness:
  "\<exists>log ev m sig. identity_history idc log \<and> ex_id 4 \<in> set (applicable_ids (il_causal log))
    \<and> fmlookup (il_events log) (ex_id 4) = Some ev \<and> invite_join ev = Some (the_invite, m, sig)
    \<and> (\<forall>j other m' sig'. j \<in> set (applicable_ids (il_causal log)) \<and> fmlookup (il_events log) j = Some other
        \<and> invite_join other = Some (the_invite, m', sig') \<longrightarrow> ex_id 4 = j)"
proof -
  obtain log where r: "represents growing log [4, 3, 2, 1, 0] []" and h: "identity_history idc log"
    and ids: "applicable_ids (il_causal log) = map ex_id [0, 1, 2, 3, 4]" by (rule growing_log)
  have applicable: "ex_id 4 \<in> set (applicable_ids (il_causal log))"
    by (simp add: ids)
  have ev: "fmlookup (il_events log) (ex_id 4) = Some (scripted_event growing 4)" using represents_lookup [OF r] by simp
  have "joins_at growing 4" by code_simp
  then have join: "invite_join (scripted_event growing 4)
      = Some (the_invite, party (signer_at growing 4), scripted_signature 0 9)"
    using scripted_invite_join representsD(5) [OF r] by simp
  show ?thesis
    using h applicable ev join invite_admits_once [OF h applicable _ ev _ join]
    by (intro exI [of _ log] exI [of _ "scripted_event growing 4"]) blast
qed

theorem effective_members_exact_witness:
  "\<exists>log members. identity_history idc log \<and> effective_members idc log {|ex_id 0, ex_id 1|} = Inr members
    \<and> (\<forall>app. app |\<in>| fmdom members \<longleftrightarrow>
        (\<exists>i actor role. admits_in idc log {|ex_id 0, ex_id 1|} i app actor role \<and> unrevoked_after log {|ex_id 0, ex_id 1|} i app))
    \<and> party_app 1 |\<in>| fmdom members \<and> party_app 2 |\<in>| fmdom members"
proof -
  obtain log where r: "represents growing log [4, 3, 2, 1, 0] []" and h: "identity_history idc log"
    and ids: "applicable_ids (il_causal log) = map ex_id [0, 1, 2, 3, 4]" by (rule growing_log)
  obtain members where members: "effective_members idc log {|ex_id 0, ex_id 1|} = Inr members" "depicts growing [0, 1] members"
    using represents_members [OF r, of "[0, 1]" "{|ex_id 0, ex_id 1|}"] by auto
  have "member_in growing [0, 1] 1 \<and> member_in growing [0, 1] 2" by code_simp
  then have "party_app 1 |\<in>| fmdom members \<and> party_app 2 |\<in>| fmdom members"
    using depicts_member [OF members(2)] by simp
  then show ?thesis
    using h members(1) effective_members_exact [OF h, of "{|ex_id 0, ex_id 1|}"]
    by (intro exI [of _ log] exI [of _ members]) auto
qed

theorem recovery_passphrase_confined_witness:
  "\<exists>log ev members m. identity_history idc log \<and> fmlookup (il_events log) (ex_id 2) = Some ev
    \<and> members_before idc log ev = Inr members
    \<and> acting_member members (ib_actor_id (ie_body ev)) = Some (party_app 2, m) \<and> em_role m = RecoveryRole
    \<and> (is_self_signed_join_request idc ev \<or> invite_join_holds idc log ev
       \<or> (\<forall>op\<in>set (ib_operations (ie_body ev)). op = MemberRevoked (party_app 2)
          \<or> (\<exists>new deks. op = MemberApproved new deks OwnDevice \<and> mk_app_id new |\<notin>| fmdom members)))"
proof -
  obtain log where r: "represents growing log [4, 3, 2, 1, 0] []" and h: "identity_history idc log"
    and ids: "applicable_ids (il_causal log) = map ex_id [0, 1, 2, 3, 4]" by (rule growing_log)
  let ?ev = "scripted_event growing 2"
  have applicable: "ex_id 2 \<in> set (applicable_ids (il_causal log))"
    by (simp add: ids)
  have ev: "fmlookup (il_events log) (ex_id 2) = Some ?ev" using represents_lookup [OF r] by simp
  obtain members where members: "effective_members idc log (ancestry log (ib_parents (scripted_body growing 2))) = Inr members"
      "depicts growing (below growing 2) members"
    using represents_before [OF r, of 2] by auto
  have "member_in growing (below growing 2) 2" "recovery_in growing (below growing 2) 2" "signer_at growing 2 = 2" by code_simp+
  then have acting: "acting_member members (ib_actor_id (ie_body ?ev)) = Some (party_app 2, party_member growing (below growing 2) 2)"
      "em_role (party_member growing (below growing 2) 2) = RecoveryRole"
    using depicts_acting(1) [OF members(2), of 2] by (simp_all add: party_member_def)
  have before: "members_before idc log ?ev = Inr members" using members(1) by (simp add: members_before_def)
  show ?thesis
    using h ev before acting recovery_passphrase_confined [OF h applicable ev before acting]
    by (intro exI [of _ log] exI [of _ ?ev] exI [of _ members] exI) blast
qed

theorem identity_projection_total_witness:
  "\<exists>log s. identity_history idc log \<and> project_identity idc log = Inr s
    \<and> (\<exists>i\<in>set (applicable_ids (il_causal log)). \<exists>ev. fmlookup (il_events log) i = Some ev \<and> is_genesis (ie_body ev))"
proof -
  obtain log where r: "represents growing log [4, 3, 2, 1, 0] []" and h: "identity_history idc log"
    and ids: "applicable_ids (il_causal log) = map ex_id [0, 1, 2, 3, 4]" by (rule growing_log)
  have "alive growing [] 0" by code_simp
  then have "\<exists>i\<in>set (applicable_ids (il_causal log)). \<exists>ev. fmlookup (il_events log) i = Some ev \<and> is_genesis (ie_body ev)"
    using represents_genesis [OF r] by simp
  then show ?thesis using h identity_projection_total [OF h] by blast
qed

lemma growing_state:
  obtains log s where "represents growing log [4, 3, 2, 1, 0] []" and "identity_history idc log"
    and "project_identity idc log = Inr s"
    and "\<forall>k<256. party_app k \<in> set (map (\<lambda>m. mk_app_id (cm_keys m)) (cs_members s)) \<longleftrightarrow> member_in growing [0, 1, 2, 3, 4] k"
proof -
  obtain log where r: "represents growing log [4, 3, 2, 1, 0] []" and h: "identity_history idc log"
    and ids: "applicable_ids (il_causal log) = map ex_id [0, 1, 2, 3, 4]" by (rule growing_log)
  have "alive growing [] 0" and alive: "filter (alive growing []) (sort [4, 3, 2, 1, 0]) = [0, 1, 2, 3, 4]" by code_simp+
  then obtain s where s: "project_identity idc log = Inr s" using represents_projects [OF r h] by auto
  show ?thesis using that [OF r h s] represents_state [OF r h s] unfolding alive by blast
qed

theorem identity_state_exact_witness:
  "\<exists>log s active. identity_history idc log \<and> project_identity idc log = Inr s
    \<and> effective_members idc log (fset_of_list (applicable_ids (il_causal log))) = Inr active
    \<and> map (\<lambda>m. mk_app_id (cm_keys m)) (cs_members s) = keys_of active
    \<and> party_app 1 |\<in>| fmdom active \<and> party_app 2 |\<in>| fmdom active \<and> party_app 3 |\<in>| fmdom active
    \<and> party_app 4 |\<in>| fmdom active"
proof -
  obtain log s where "represents growing log [4, 3, 2, 1, 0] []" and h: "identity_history idc log" and s: "project_identity idc log = Inr s"
    and members: "\<forall>k<256. party_app k \<in> set (map (\<lambda>m. mk_app_id (cm_keys m)) (cs_members s))
      \<longleftrightarrow> member_in growing [0, 1, 2, 3, 4] k" by (rule growing_state)
  from identity_state_exact [OF h s] obtain active where
    active: "effective_members idc log (fset_of_list (applicable_ids (il_causal log))) = Inr active"
    and apps: "map (\<lambda>m. mk_app_id (cm_keys m)) (cs_members s) = keys_of active" by blast
  have "member_in growing [0, 1, 2, 3, 4] 1" "member_in growing [0, 1, 2, 3, 4] 2" "member_in growing [0, 1, 2, 3, 4] 3"
    "member_in growing [0, 1, 2, 3, 4] 4" by code_simp+
  then have "party_app 1 |\<in>| fmdom active" "party_app 2 |\<in>| fmdom active" "party_app 3 |\<in>| fmdom active"
    "party_app 4 |\<in>| fmdom active"
    using members unfolding apps by simp_all
  then show ?thesis using h s active apps by blast
qed

text \<open>Of two members one can be revoked: the other is an app key, or the first is no app key.\<close>

lemma some_member_revocable:
  assumes "a \<in> set (cs_members s)" and "b \<in> set (cs_members s)" and "mk_app_id (cm_keys a) \<noteq> mk_app_id (cm_keys b)"
  shows "\<exists>app op. revocation_operation s app = Inr op"
proof (rule ccontr)
  assume none: "\<not> ?thesis"
  have only: "\<exists>m. state_member s (mk_app_id (cm_keys x)) = Some m \<and> m \<in> set (cs_members s)
      \<and> mk_app_id (cm_keys m) = mk_app_id (cm_keys x) \<and> (\<exists>device. cm_kind m = AppKind device) \<and> length (app_members s) = 1"
    if x: "x \<in> set (cs_members s)" for x
  proof -
    obtain m where m: "state_member s (mk_app_id (cm_keys x)) = Some m"
      using x by (cases "state_member s (mk_app_id (cm_keys x))") (auto simp: state_member_def find_None_iff)
    then have "m \<in> set (cs_members s)" "mk_app_id (cm_keys m) = mk_app_id (cm_keys x)"
      by (auto simp: state_member_def find_Some_iff)
    moreover have "\<not> (\<exists>op. revocation_operation s (mk_app_id (cm_keys x)) = Inr op)" using none by blast
    then have "(\<exists>device. cm_kind m = AppKind device) \<and> length (app_members s) = 1"
      using m by (cases "cm_kind m") (auto simp: revocation_operation_def split: if_splits)
    ultimately show ?thesis using m by blast
  qed
  obtain m n where "m \<in> set (cs_members s)" "n \<in> set (cs_members s)" "mk_app_id (cm_keys m) \<noteq> mk_app_id (cm_keys n)"
    and kinds: "\<exists>device. cm_kind m = AppKind device" "\<exists>device. cm_kind n = AppKind device" and one: "length (app_members s) = 1"
    using only [OF assms(1)] only [OF assms(2)] assms(3) by metis
  then obtain d e where "(m, d) \<in> set (app_members s)" "(n, e) \<in> set (app_members s)"
    unfolding app_members_def in_map_filter by force
  then have "m = n" using one by (cases "app_members s") auto
  then show False using \<open>mk_app_id (cm_keys m) \<noteq> mk_app_id (cm_keys n)\<close> by simp
qed

theorem revocation_keeps_app_key_witness:
  "\<exists>log s app op. identity_history idc log \<and> project_identity idc log = Inr s \<and> revocation_operation s app = Inr op
    \<and> op = MemberRevoked app \<and> (\<exists>m\<in>set (cs_members s). mk_app_id (cm_keys m) = app)"
proof -
  obtain log s where "represents growing log [4, 3, 2, 1, 0] []" and h: "identity_history idc log" and s: "project_identity idc log = Inr s"
    and members: "\<forall>k<256. party_app k \<in> set (map (\<lambda>m. mk_app_id (cm_keys m)) (cs_members s))
      \<longleftrightarrow> member_in growing [0, 1, 2, 3, 4] k" by (rule growing_state)
  have "member_in growing [0, 1, 2, 3, 4] 1" "member_in growing [0, 1, 2, 3, 4] 3" by code_simp+
  then have "party_app 1 \<in> set (map (\<lambda>m. mk_app_id (cm_keys m)) (cs_members s))"
      "party_app 3 \<in> set (map (\<lambda>m. mk_app_id (cm_keys m)) (cs_members s))"
    using members by simp_all
  then obtain a b where members: "a \<in> set (cs_members s)" "b \<in> set (cs_members s)"
      and apps: "mk_app_id (cm_keys a) = party_app 1" "mk_app_id (cm_keys b) = party_app 3" by auto
  have "mk_app_id (cm_keys a) \<noteq> mk_app_id (cm_keys b)" unfolding apps using party_inject(1) [of 1 3] by simp
  from some_member_revocable [OF members this] obtain app op where op: "revocation_operation s app = Inr op" by blast
  from revocation_keeps_app_key [OF h s op] show ?thesis using h s op by blast
qed

text \<open>A state of one vault, and the app 2 added to it.\<close>

definition one_vault :: identity_control_state where
  "one_vault = \<lparr>cs_identity_id = home, cs_members = [], cs_revoked = [], cs_pending_joins = [], cs_denied_joins = [],
     cs_vaults = [\<lparr>cv_store_id = StoreId ''store_Abcdef_1234'', cv_registered_in = ex_id 1, cv_current_key_epoch = ex_id 1,
       cv_epochs = []\<rparr>],
     cs_removed_vaults = [], cs_mounts = [], cs_sealed_name = [], cs_heads = []\<rparr>"

definition opened_vault :: opened_vault_dek where
  "opened_vault = \<lparr>ov_store_id = StoreId ''store_Abcdef_1234'', ov_key_epoch = ex_id 1,
     ov_keys = \<lparr>vk_secrets_key = ''s'', vk_members_key = ''m''\<rparr>\<rparr>"

theorem new_member_opens_every_vault_witness:
  "\<exists>op pa' v (m :: identity_member_keys) dek. addition_operation idc one_vault (party 2) [opened_vault] OwnDevice = Inr op
    \<and> apply_control idc (ex_id 2) (scripted_body growing 2) empty_accumulator op = Inr pa' \<and> v \<in> set (cs_vaults one_vault)
    \<and> fmlookup (epoch_entry (vault_entry (pa_vaults pa') (cv_store_id v)) (cv_current_key_epoch v)) (mk_app_id m) = Some dek"
proof -
  obtain v where v: "v \<in> set (cs_vaults one_vault)" by (simp add: one_vault_def)
  have "\<exists>deks. vault_dek_grants idc (party 2) [opened_vault] = Inr deks"
    by (simp add: vault_dek_grants_def wrap_vault_keys_def seal_bytes_def idc_def)
  moreover have "require_every_vault one_vault [opened_vault] = Inr ()"
    by (simp add: require_every_vault_def one_vault_def opened_vault_def)
  ultimately obtain op where op: "addition_operation idc one_vault (party 2) [opened_vault] OwnDevice = Inr op"
      and approved: "\<exists>deks. op = MemberApproved (party 2) deks OwnDevice"
    by (auto simp: addition_operation_def state_member_def one_vault_def)
  then obtain pa' where pa': "apply_control idc (ex_id 2) (scripted_body growing 2) empty_accumulator op = Inr pa'"
    by (auto simp: admit_member_def)
  from new_member_opens_every_vault [OF disjI2 [OF disjI1 [OF op]] pa' v] obtain m :: identity_member_keys and dek where
    "fmlookup (epoch_entry (vault_entry (pa_vaults pa') (cv_store_id v)) (cv_current_key_epoch v)) (mk_app_id m) = Some dek"
    by blast
  with op pa' v show ?thesis by (intro exI conjI) assumption+
qed

subsection \<open>Diverging replicas\<close>

text \<open>C3: the state of an identity depends on the order in which its events arrive.  A replica that
  receives the approval by a recovery passphrase while the revocation of that passphrase is
  applicable rejects it for good, although that revocation is itself rejected when a concurrent
  revocation arrives; a replica that receives the same events in another order, parents first,
  accepts the approved app as a member.\<close>

theorem identity_replicas_diverge:
  "\<exists>evs evs' log log' s s'. set evs = set evs' \<and> length evs = length evs'
    \<and> inserted idc home evs = Inr log \<and> inserted idc home evs' = Inr log' \<and> il_events log = il_events log'
    \<and> project_identity idc log = Inr s \<and> project_identity idc log' = Inr s'
    \<and> party_app 5 \<notin> set (map (\<lambda>m. mk_app_id (cm_keys m)) (cs_members s))
    \<and> party_app 5 \<in> set (map (\<lambda>m. mk_app_id (cm_keys m)) (cs_members s'))"
proof -
  let ?ns = "[2, 5, 4, 3, 1, 0]" and ?ns' = "[5, 4, 3, 2, 1, 0]"
  have sound: "sound_script diverging" by code_simp
  obtain log log' where log: "inserted idc home (map (scripted_event diverging) (rev ?ns)) = Inr log"
      "represents diverging log ?ns [3, 5]"
    and log': "inserted idc home (map (scripted_event diverging) (rev ?ns')) = Inr log'" "represents diverging log' ?ns' [3]"
    using run_represents [OF sound diverging_run(1)] run_represents [OF sound diverging_run(2)] by blast
  have "fmlookup (il_events log) i = Some ev \<longleftrightarrow> fmlookup (il_events log') i = Some ev" for i ev
    unfolding representsD(9) [OF log(2)] representsD(9) [OF log'(2)] by auto
  then have "fmlookup (il_events log) i = fmlookup (il_events log') i" for i by (metis not_Some_eq)
  then have events: "il_events log = il_events log'" by (rule fmap_ext)
  have alive: "alive diverging [3, 5] 0" "alive diverging [3] 0" by code_simp+
  note h = inserted_history [OF log(1)] and h' = inserted_history [OF log'(1)]
  obtain s where s: "project_identity idc log = Inr s" using represents_projects [OF log(2) h _ alive(1)] by auto
  obtain s' where s': "project_identity idc log' = Inr s'" using represents_projects [OF log'(2) h' _ alive(2)] by auto
  have "\<not> member_in diverging (filter (alive diverging [3, 5]) (sort ?ns)) 5"
    "member_in diverging (filter (alive diverging [3]) (sort ?ns')) 5" by code_simp+
  then have "party_app 5 \<notin> set (map (\<lambda>m. mk_app_id (cm_keys m)) (cs_members s))"
      "party_app 5 \<in> set (map (\<lambda>m. mk_app_id (cm_keys m)) (cs_members s'))"
    using represents_state [OF log(2) h s, of 5] represents_state [OF log'(2) h' s', of 5] by simp_all
  moreover have "set (map (scripted_event diverging) (rev ?ns)) = set (map (scripted_event diverging) (rev ?ns'))" by auto
  moreover have "length (map (scripted_event diverging) (rev ?ns)) = length (map (scripted_event diverging) (rev ?ns'))" by simp
  ultimately show ?thesis using log(1) log'(1) events s s' by blast
qed

end
