(* ===== verification/LocalIdentity.thy ===== *)
theory LocalIdentity
  imports IdentityState OwnedState
begin

text \<open>
  The identity record an installation keeps (nook-auth2/src/auth/identity.rs with
  identity/transition.rs and identity/legacy.rs, identity_epoch.rs, identity_dek_grant.rs, and the
  keys of auth/multi_device/state.rs and key_actions.rs it uses): app keys, the members of an
  identity, the envelopes of its vaults, and the transitions of the record.

  A transition of the code consumes the record and returns it in both branches; here a rejection is
  a record of the identity it gives back and the cause.  What the code draws at random is an
  argument: the result of IdentityId::generate and of VaultKeys::generate.  Sealing is a function,
  as in IdentityWire: the randomness of one call is part of it.
\<close>

subsection \<open>App keys\<close>

text \<open>
  The crates: those of the identity log, and age at an X25519 secret.  age_to_public renders the
  recipient of a secret; age_open decrypts an armored envelope and reads the plaintext as UTF-8.
\<close>

record key_crates =
  kc_identity :: identity_crates
  age_parse_secret :: "string \<Rightarrow> (string, string) result"
  age_to_public :: "string \<Rightarrow> string"
  age_open :: "string \<Rightarrow> string \<Rightarrow> (string, string) result"

record app_key =
  ak_secret :: string
  ak_app_id :: app_id

definition recipient_digest :: "key_crates \<Rightarrow> string \<Rightarrow> bytes" where
  "recipient_digest c recipient = sha256 (ic_base (kc_identity c)) (bytes_of_string recipient)"

definition derived_app_id :: "key_crates \<Rightarrow> string \<Rightarrow> app_id" where
  "derived_app_id c recipient = AppId (hex_encode (ic_base (kc_identity c)) (take 8 (recipient_digest c recipient)))"

definition derived_auth_id :: "key_crates \<Rightarrow> string \<Rightarrow> auth_key_id" where
  "derived_auth_id c recipient =
     AuthKeyId (AUTH_KEY_ID_PREFIX @ hex_encode (ic_base (kc_identity c)) (recipient_digest c recipient))"

definition app_key_from_secret :: "key_crates \<Rightarrow> string \<Rightarrow> app_key multi_device" where
  "app_key_from_secret c secret =
     (case age_parse_secret c secret of
        Inl e \<Rightarrow> Inl (InvalidDeviceIdentity e)
      | Inr i \<Rightarrow> Inr \<lparr>ak_secret = i, ak_app_id = derived_app_id c (age_to_public c i)\<rparr>)"

definition app_public_key :: "key_crates \<Rightarrow> app_key \<Rightarrow> string" where
  "app_public_key c k = age_to_public c (ak_secret k)"

definition app_auth_id :: "key_crates \<Rightarrow> app_key \<Rightarrow> auth_key_id" where
  "app_auth_id c k = derived_auth_id c (age_to_public c (ak_secret k))"

definition public_key_app_id :: "key_crates \<Rightarrow> string \<Rightarrow> app_id multi_device" where
  "public_key_app_id c key =
     (case age_recipient (kc_identity c) key of
        Inl e \<Rightarrow> Inl (InvalidRecipientPublicKey e)
      | Inr recipient \<Rightarrow> Inr (derived_app_id c recipient))"

definition public_key_auth_id :: "key_crates \<Rightarrow> string \<Rightarrow> auth_key_id multi_device" where
  "public_key_auth_id c key =
     (case age_recipient (kc_identity c) key of
        Inl e \<Rightarrow> Inl (InvalidRecipientPublicKey e)
      | Inr recipient \<Rightarrow> Inr (derived_auth_id c recipient))"

definition public_key_seal :: "key_crates \<Rightarrow> string \<Rightarrow> string \<Rightarrow> string multi_device" where
  "public_key_seal c key plaintext =
     (case age_recipient (kc_identity c) key of
        Inl e \<Rightarrow> Inl (InvalidRecipientPublicKey e)
      | Inr recipient \<Rightarrow>
          (case age_seal (kc_identity c) recipient plaintext of Inl e \<Rightarrow> Inl (Age e) | Inr sealed \<Rightarrow> Inr sealed))"

definition symmetric_key_parse :: "string \<Rightarrow> string validation" where
  "symmetric_key_parse raw =
     (let key = trim raw in
      if length key \<noteq> 64 \<or> \<not> list_all is_ascii_hexdigit key then Inl SymmetricKeyInvalid else Inr key)"

definition app_open_utf8 :: "key_crates \<Rightarrow> app_key \<Rightarrow> string \<Rightarrow> string multi_device" where
  "app_open_utf8 c k envelope = (case age_open c (ak_secret k) envelope of Inl e \<Rightarrow> Inl (Age e) | Inr s \<Rightarrow> Inr s)"

definition app_seal_utf8 :: "key_crates \<Rightarrow> app_key \<Rightarrow> string \<Rightarrow> string multi_device" where
  "app_seal_utf8 c k plaintext =
     (case age_seal (kc_identity c) (age_to_public c (ak_secret k)) plaintext of Inl e \<Rightarrow> Inl (Age e) | Inr s \<Rightarrow> Inr s)"

definition decrypt_envelope :: "key_crates \<Rightarrow> app_key \<Rightarrow> string \<Rightarrow> string multi_device" where
  "decrypt_envelope c k envelope =
     and_then (app_open_utf8 c k envelope) (\<lambda>plaintext.
       case symmetric_key_parse plaintext of Inl e \<Rightarrow> Inl (Validation e) | Inr key \<Rightarrow> Inr key)"

subsection \<open>Members and vault envelopes\<close>

datatype member_label = NamedMember string | UnnamedMember

record identity_member =
  lm_app_id :: app_id
  lm_auth_id :: auth_key_id
  lm_public_key :: string
  lm_signing_public_key :: device_signing_public_key
  lm_label :: member_label

datatype key_binding = Matches | DifferentKeyMaterial

definition binding_to_app_key :: "key_crates \<Rightarrow> identity_member \<Rightarrow> app_key \<Rightarrow> key_binding" where
  "binding_to_app_key c m k =
     (if lm_auth_id m = app_auth_id c k \<and> lm_public_key m = app_public_key c k then Matches else DifferentKeyMaterial)"

definition binding_to_member :: "identity_member \<Rightarrow> identity_member \<Rightarrow> key_binding" where
  "binding_to_member m other =
     (if lm_auth_id m = lm_auth_id other \<and> lm_public_key m = lm_public_key other then Matches else DifferentKeyMaterial)"

record member_dek_envelope =
  me_app_id :: app_id
  me_envelope :: string

datatype dek_epoch = LegacyUnknown | KnownEpoch (epoch_key: identity_vault_event_id) (epoch_checkpoint: identity_vault_event_id)

record vault_dek =
  dk_store_id :: store_id
  dk_key_epoch :: dek_epoch
  dk_secrets_envelopes :: "member_dek_envelope list"
  dk_members_envelopes :: "member_dek_envelope list"

datatype granted_envelopes = NotGranted | Granted member_dek_envelope member_dek_envelope

definition envelope_of :: "app_id \<Rightarrow> member_dek_envelope list \<Rightarrow> member_dek_envelope option" where
  "envelope_of app es = find (\<lambda>e. me_app_id e = app) es"

definition app_envelopes :: "vault_dek \<Rightarrow> app_id \<Rightarrow> granted_envelopes" where
  "app_envelopes d app =
     (case (envelope_of app (dk_secrets_envelopes d), envelope_of app (dk_members_envelopes d)) of
        (Some secrets, Some members) \<Rightarrow> Granted secrets members
      | _ \<Rightarrow> NotGranted)"

datatype dek_epoch_update =
  ObserveEpoch dek_epoch "identity_vault_event_id list"
| RotateEpoch identity_vault_event_id "identity_vault_event_id list" identity_vault_event_id identity_vault_event_id

fun committed_epoch :: "dek_epoch_update \<Rightarrow> dek_epoch" where
  "committed_epoch (ObserveEpoch epoch_id _) = epoch_id"
| "committed_epoch (RotateEpoch _ _ epoch_id checkpoint) = KnownEpoch epoch_id checkpoint"

fun vault_event_id_str :: "identity_vault_event_id \<Rightarrow> string" where
  "vault_event_id_str (IdentityVaultEventId s) = s"

fun epoch_label :: "dek_epoch \<Rightarrow> string" where
  "epoch_label LegacyUnknown = ''legacy-unknown''"
| "epoch_label (KnownEpoch epoch_id checkpoint) = vault_event_id_str epoch_id @ ''@'' @ vault_event_id_str checkpoint"

text \<open>next_epoch: the match of the source, its guards in order; every other case is stale.\<close>

definition stale_epoch :: "dek_epoch \<Rightarrow> dek_epoch_update \<Rightarrow> multi_device_error" where
  "stale_epoch current update = StaleVaultDekEpoch
     (case update of ObserveEpoch epoch_id _ \<Rightarrow> epoch_label epoch_id
                   | RotateEpoch previous _ _ _ \<Rightarrow> vault_event_id_str previous)
     (epoch_label current)"

fun next_epoch :: "dek_epoch \<Rightarrow> dek_epoch_update \<Rightarrow> dek_epoch multi_device" where
  "next_epoch LegacyUnknown (ObserveEpoch epoch_id _) = Inr epoch_id"
| "next_epoch (KnownEpoch current_epoch current_checkpoint) (ObserveEpoch (KnownEpoch epoch_id checkpoint) ancestors) =
     (if current_epoch = epoch_id \<and> (current_checkpoint = checkpoint \<or> current_checkpoint \<in> set ancestors)
      then Inr (KnownEpoch epoch_id checkpoint)
      else Inl (stale_epoch (KnownEpoch current_epoch current_checkpoint) (ObserveEpoch (KnownEpoch epoch_id checkpoint) ancestors)))"
| "next_epoch (KnownEpoch current_epoch current_checkpoint) (ObserveEpoch LegacyUnknown ancestors) =
     Inl (stale_epoch (KnownEpoch current_epoch current_checkpoint) (ObserveEpoch LegacyUnknown ancestors))"
| "next_epoch LegacyUnknown (RotateEpoch _ _ epoch_id checkpoint) = Inr (KnownEpoch epoch_id checkpoint)"
| "next_epoch (KnownEpoch current_epoch current_checkpoint) (RotateEpoch previous previous_ancestors epoch_id checkpoint) =
     (if (current_epoch = previous \<or> current_epoch \<in> set previous_ancestors) \<and> current_checkpoint \<in> set previous_ancestors
         \<or> current_epoch = epoch_id \<and> (current_checkpoint = checkpoint \<or> current_checkpoint \<in> set previous_ancestors)
      then Inr (KnownEpoch epoch_id checkpoint)
      else Inl (stale_epoch (KnownEpoch current_epoch current_checkpoint)
        (RotateEpoch previous previous_ancestors epoch_id checkpoint)))"

subsection \<open>Wrapping keys for members, comparing a grant\<close>

definition seal_for :: "key_crates \<Rightarrow> string \<Rightarrow> identity_member \<Rightarrow> member_dek_envelope multi_device" where
  "seal_for c key m =
     and_then (public_key_seal c (lm_public_key m) key) (\<lambda>sealed. Inr \<lparr>me_app_id = lm_app_id m, me_envelope = sealed\<rparr>)"

definition wrap_step ::
    "key_crates \<Rightarrow> vault_keys \<Rightarrow> member_dek_envelope list \<times> member_dek_envelope list \<Rightarrow> identity_member
      \<Rightarrow> (member_dek_envelope list \<times> member_dek_envelope list) multi_device" where
  "wrap_step c keys es m =
     and_then (seal_for c (vk_secrets_key keys) m) (\<lambda>s.
     and_then (seal_for c (vk_members_key keys) m) (\<lambda>e. Inr (fst es @ [s], snd es @ [e])))"

definition wrap_vault_keys_for_members :: "key_crates \<Rightarrow> vault_keys \<Rightarrow> identity_member list \<Rightarrow> store_id \<Rightarrow> vault_dek multi_device" where
  "wrap_vault_keys_for_members c keys ms store =
     and_then (fold_result (wrap_step c keys) ([], []) ms) (\<lambda>es.
       Inr \<lparr>dk_store_id = store, dk_key_epoch = LegacyUnknown,
            dk_secrets_envelopes = fst es, dk_members_envelopes = snd es\<rparr>)"

datatype grant_reconciliation = Current | RewrapRequired

definition covers_members :: "identity_member list \<Rightarrow> member_dek_envelope list \<Rightarrow> bool" where
  "covers_members ms es = list_all (\<lambda>m. length (filter (\<lambda>e. me_app_id e = lm_app_id m) es) = 1) ms"

definition opens_to :: "key_crates \<Rightarrow> app_key \<Rightarrow> member_dek_envelope \<Rightarrow> string \<Rightarrow> bool" where
  "opens_to c k e key \<longleftrightarrow> decrypt_envelope c k (me_envelope e) = Inr key"

definition reconciliation_with ::
    "key_crates \<Rightarrow> vault_dek \<Rightarrow> app_key \<Rightarrow> identity_member list \<Rightarrow> vault_keys \<Rightarrow> dek_epoch \<Rightarrow> grant_reconciliation" where
  "reconciliation_with c d k ms keys epoch =
     (if dk_key_epoch d \<noteq> epoch \<or> length (dk_secrets_envelopes d) \<noteq> length ms \<or> length (dk_members_envelopes d) \<noteq> length ms
      then RewrapRequired
      else if \<not> covers_members ms (dk_secrets_envelopes d) \<or> \<not> covers_members ms (dk_members_envelopes d)
      then RewrapRequired
      else case app_envelopes d (ak_app_id k) of
        NotGranted \<Rightarrow> RewrapRequired
      | Granted secrets members \<Rightarrow>
          if opens_to c k secrets (vk_secrets_key keys) \<and> opens_to c k members (vk_members_key keys)
          then Current else RewrapRequired)"

subsection \<open>The identity record\<close>

text \<open>IdentityControlEpoch is a u64 that counts up and stays at its maximum.\<close>

type_synonym control_epoch = "64 word"

definition control_epoch_initial :: control_epoch where
  "control_epoch_initial = 1"

definition control_epoch_next :: "control_epoch \<Rightarrow> control_epoch" where
  "control_epoch_next e = (if e = - 1 then e else e + 1)"

record identity_record =
  ir_identity_id :: identity_id
  ir_label :: string
  ir_control_epoch :: control_epoch
  ir_members :: "identity_member list"
  ir_vault_deks :: "vault_dek list"

record record_rejection =
  rr_identity :: identity_record
  rr_cause :: multi_device_error

type_synonym 'a record_transition = "(record_rejection, 'a) result"

text \<open>The closure of a transition answers, and the record it was given comes back with the error.\<close>

definition settle :: "identity_record \<Rightarrow> 'a multi_device \<Rightarrow> 'a record_transition" where
  "settle r outcome =
     (case outcome of Inl cause \<Rightarrow> Inl \<lparr>rr_identity = r, rr_cause = cause\<rparr> | Inr a \<Rightarrow> Inr a)"

definition advance :: "identity_record \<Rightarrow> identity_record" where
  "advance r = r\<lparr>ir_control_epoch := control_epoch_next (ir_control_epoch r)\<rparr>"

definition app_key_member :: "key_crates \<Rightarrow> app_key \<Rightarrow> member_label \<Rightarrow> identity_member" where
  "app_key_member c k label =
     \<lparr>lm_app_id = ak_app_id k, lm_auth_id = app_auth_id c k, lm_public_key = app_public_key c k,
      lm_signing_public_key = Unavailable, lm_label = label\<rparr>"

definition create_with_app_key ::
    "key_crates \<Rightarrow> identity_id multi_device \<Rightarrow> string \<Rightarrow> app_key \<Rightarrow> member_label \<Rightarrow> identity_record multi_device" where
  "create_with_app_key c generated label k member_label =
     and_then generated (\<lambda>i.
       Inr \<lparr>ir_identity_id = i, ir_label = label, ir_control_epoch = control_epoch_initial,
            ir_members = [app_key_member c k member_label], ir_vault_deks = []\<rparr>)"

definition has_members :: "identity_record \<Rightarrow> bool" where
  "has_members r \<longleftrightarrow> ir_members r \<noteq> []"

definition find_member :: "app_id \<Rightarrow> identity_member list \<Rightarrow> identity_member option" where
  "find_member app ms = find (\<lambda>m. lm_app_id m = app) ms"

definition has_app_id :: "identity_record \<Rightarrow> app_id \<Rightarrow> bool" where
  "has_app_id r app \<longleftrightarrow> list_ex (\<lambda>m. lm_app_id m = app) (ir_members r)"

definition find_dek :: "store_id \<Rightarrow> vault_dek list \<Rightarrow> vault_dek option" where
  "find_dek store ds = find (\<lambda>d. dk_store_id d = store) ds"

definition record_vault_dek :: "identity_record \<Rightarrow> store_id \<Rightarrow> vault_dek option" where
  "record_vault_dek r store = find_dek store (ir_vault_deks r)"

definition owns_vault :: "identity_record \<Rightarrow> store_id \<Rightarrow> bool" where
  "owns_vault r store \<longleftrightarrow> record_vault_dek r store \<noteq> None"

text \<open>A generated pair of keys goes with the record that holds its envelopes.\<close>

definition generate_vault_dek ::
    "key_crates \<Rightarrow> vault_keys multi_device \<Rightarrow> identity_record \<Rightarrow> store_id \<Rightarrow> (identity_record \<times> vault_keys) record_transition" where
  "generate_vault_dek c generated r store = settle r
     (if \<not> has_members r
      then Inl (InvalidDeviceIdentity ''identity must have at least one app key before creating a vault'')
      else if list_ex (\<lambda>d. dk_store_id d = store) (ir_vault_deks r)
      then Inl (InvalidDeviceIdentity ''identity already holds a DEK for this vault'')
      else and_then generated (\<lambda>keys.
        and_then (wrap_vault_keys_for_members c keys (ir_members r) store) (\<lambda>d.
          Inr ((advance r)\<lparr>ir_vault_deks := ir_vault_deks r @ [d]\<rparr>, keys))))"

datatype committed_vault_keys = Opened vault_keys | VaultNotCreated

definition different_key_material :: multi_device_error where
  "different_key_material = InvalidDeviceIdentity ''existing app id has different key material''"

text \<open>The lookup several operations start with: the key's own member, bound to its key material.\<close>

definition bound_member :: "key_crates \<Rightarrow> identity_record \<Rightarrow> app_key \<Rightarrow> identity_member multi_device" where
  "bound_member c r k =
     (case find_member (ak_app_id k) (ir_members r) of
        None \<Rightarrow> Inl IdentityEnrollmentRequired
      | Some m \<Rightarrow> if binding_to_app_key c m k = DifferentKeyMaterial then Inl different_key_material else Inr m)"

definition existing_vault_keys ::
    "key_crates \<Rightarrow> identity_record \<Rightarrow> app_key \<Rightarrow> store_id \<Rightarrow> committed_vault_keys multi_device" where
  "existing_vault_keys c r k store =
     and_then (bound_member c r k) (\<lambda>_.
       case record_vault_dek r store of
         None \<Rightarrow> Inr VaultNotCreated
       | Some d \<Rightarrow>
           (case app_envelopes d (ak_app_id k) of
              NotGranted \<Rightarrow> Inl IdentityEnrollmentRequired
            | Granted secrets members \<Rightarrow>
                and_then (decrypt_envelope c k (me_envelope secrets)) (\<lambda>s.
                and_then (decrypt_envelope c k (me_envelope members)) (\<lambda>m.
                  Inr (Opened \<lparr>vk_secrets_key = s, vk_members_key = m\<rparr>)))))"

definition open_vault_dek :: "key_crates \<Rightarrow> identity_record \<Rightarrow> app_key \<Rightarrow> store_id \<Rightarrow> vault_keys multi_device" where
  "open_vault_dek c r k store =
     and_then (existing_vault_keys c r k store) (\<lambda>committed.
       case committed of Opened keys \<Rightarrow> Inr keys | VaultNotCreated \<Rightarrow> Inl IdentityEnrollmentRequired)"

definition open_or_generate_vault_dek ::
    "key_crates \<Rightarrow> vault_keys multi_device \<Rightarrow> identity_record \<Rightarrow> app_key \<Rightarrow> store_id
      \<Rightarrow> (identity_record \<times> vault_keys) record_transition" where
  "open_or_generate_vault_dek c generated r k store =
     (case existing_vault_keys c r k store of
        Inr (Opened keys) \<Rightarrow> Inr (r, keys)
      | Inr VaultNotCreated \<Rightarrow> generate_vault_dek c generated r store
      | Inl cause \<Rightarrow> Inl \<lparr>rr_identity = r, rr_cause = cause\<rparr>)"

subsection \<open>Granting a member the vaults of an app key\<close>

definition vault_not_owned :: multi_device_error where
  "vault_not_owned = InvalidDeviceIdentity ''identity does not own the vault being granted''"

definition covers_same_apps :: "vault_dek \<Rightarrow> bool" where
  "covers_same_apps d \<longleftrightarrow>
     (let apps = map me_app_id (dk_secrets_envelopes d) in
      length apps = length (dk_members_envelopes d)
      \<and> list_all (\<lambda>app. length (filter (\<lambda>e. me_app_id e = app) (dk_members_envelopes d)) = 1) apps)"

definition authorized_members :: "identity_record \<Rightarrow> vault_dek \<Rightarrow> identity_member list multi_device" where
  "authorized_members r d =
     traverse (\<lambda>app. case find_member app (ir_members r) of
         None \<Rightarrow> Inl (InvalidDeviceIdentity ''vault grant references an unknown identity member'')
       | Some m \<Rightarrow> Inr m) (map me_app_id (dk_secrets_envelopes d))"

definition with_grantee :: "identity_member \<Rightarrow> identity_member list \<Rightarrow> identity_member list" where
  "with_grantee m ms = (if list_all (\<lambda>candidate. lm_app_id candidate \<noteq> lm_app_id m) ms then ms @ [m] else ms)"

text \<open>One pass of the staging loop: the index of the vault and the grant that will replace it.\<close>

definition stage_replacement ::
    "key_crates \<Rightarrow> identity_record \<Rightarrow> identity_member \<Rightarrow> store_id \<times> vault_keys \<Rightarrow> (nat \<times> vault_dek) multi_device" where
  "stage_replacement c r m item =
     (case position (\<lambda>d. dk_store_id d = fst item) (ir_vault_deks r) of
        None \<Rightarrow> Inl vault_not_owned
      | Some i \<Rightarrow>
          (case get_at (ir_vault_deks r) i of
             None \<Rightarrow> Inl vault_not_owned
           | Some d \<Rightarrow>
               if \<not> covers_same_apps d
               then Inl (InvalidDeviceIdentity ''identity vault grant has inconsistent recipient envelopes'')
               else and_then (authorized_members r d) (\<lambda>ms.
                 and_then (wrap_vault_keys_for_members c (snd item) (with_grantee m ms) (fst item)) (\<lambda>replacement.
                   Inr (i, replacement\<lparr>dk_key_epoch := dk_key_epoch d\<rparr>)))))"

text \<open>The loop that writes the staged grants stops at an index out of range, with what it wrote.\<close>

fun apply_replacements :: "vault_dek list \<Rightarrow> (nat \<times> vault_dek) list \<Rightarrow> vault_dek list \<times> multi_device_error option" where
  "apply_replacements ds [] = (ds, None)"
| "apply_replacements ds ((i, replacement) # rest) =
     (if i < length ds then apply_replacements (ds[i := replacement]) rest else (ds, Some vault_not_owned))"

definition grant_member_to_vaults ::
    "key_crates \<Rightarrow> identity_record \<Rightarrow> identity_member \<Rightarrow> (store_id \<times> vault_keys) list \<Rightarrow> identity_record record_transition" where
  "grant_member_to_vaults c r m keys_by_store =
     (case traverse (stage_replacement c r m) keys_by_store of
        Inl cause \<Rightarrow> Inl \<lparr>rr_identity = r, rr_cause = cause\<rparr>
      | Inr replacements \<Rightarrow>
          (case apply_replacements (ir_vault_deks r) replacements of
             (ds, Some cause) \<Rightarrow> Inl \<lparr>rr_identity = r\<lparr>ir_vault_deks := ds\<rparr>, rr_cause = cause\<rparr>
           | (ds, None) \<Rightarrow>
               Inr (let granted = r\<lparr>ir_vault_deks := ds\<rparr>
                    in if keys_by_store \<noteq> [] then advance granted else granted)))"

subsection \<open>Members\<close>

definition add_member :: "identity_record \<Rightarrow> identity_member \<Rightarrow> identity_record record_transition" where
  "add_member r m = settle r
     (if list_ex (\<lambda>existing. lm_app_id existing = lm_app_id m) (ir_members r)
      then Inl (InvalidDeviceIdentity ''app key is already a member of this identity'')
      else Inr (advance (r\<lparr>ir_members := ir_members r @ [m]\<rparr>)))"

definition set_member_signing_public_key ::
    "identity_record \<Rightarrow> app_id \<Rightarrow> device_signing_public_key \<Rightarrow> identity_record record_transition" where
  "set_member_signing_public_key r app key = settle r
     (case find_member app (ir_members r) of
        None \<Rightarrow> Inl IdentityEnrollmentRequired
      | Some m \<Rightarrow>
          Inr (if lm_signing_public_key m \<noteq> key
               then advance (r\<lparr>ir_members := update_first (\<lambda>m. lm_app_id m = app)
                      (\<lambda>m. m\<lparr>lm_signing_public_key := key\<rparr>) (ir_members r)\<rparr>)
               else r))"

definition retain_envelopes :: "(app_id \<Rightarrow> bool) \<Rightarrow> vault_dek \<Rightarrow> vault_dek" where
  "retain_envelopes keep d =
     d\<lparr>dk_secrets_envelopes := filter (\<lambda>e. keep (me_app_id e)) (dk_secrets_envelopes d),
       dk_members_envelopes := filter (\<lambda>e. keep (me_app_id e)) (dk_members_envelopes d)\<rparr>"

definition remove_member :: "identity_record \<Rightarrow> app_id \<Rightarrow> identity_record record_transition" where
  "remove_member r app = settle r
     (case position (\<lambda>m. lm_app_id m = app) (ir_members r) of
        None \<Rightarrow> Inl (InvalidDeviceIdentity ''app key is not a member of this identity'')
      | Some i \<Rightarrow>
          if length (ir_members r) = 1
          then Inl (InvalidDeviceIdentity ''identity must keep at least one app key'')
          else Inr (advance
            (r\<lparr>ir_vault_deks := map (retain_envelopes (\<lambda>a. a \<noteq> app)) (ir_vault_deks r),
               ir_members := remove_at i (ir_members r)\<rparr>)))"

subsection \<open>Legacy vaults\<close>

record dek_reconciliation =
  rc_secrets_envelope :: string
  rc_members_envelope :: string
  rc_epoch_update :: dek_epoch_update
  rc_authorized_auth_ids :: "auth_key_id list"

definition opened_reconciliation :: "key_crates \<Rightarrow> app_key \<Rightarrow> dek_reconciliation \<Rightarrow> vault_keys multi_device" where
  "opened_reconciliation c k rc =
     and_then (decrypt_envelope c k (rc_secrets_envelope rc)) (\<lambda>s.
     and_then (decrypt_envelope c k (rc_members_envelope rc)) (\<lambda>m.
       Inr \<lparr>vk_secrets_key = s, vk_members_key = m\<rparr>))"

text \<open>The members a reconciliation authorizes; the error names the operation that asks.\<close>

definition reconciled_members ::
    "string \<Rightarrow> identity_record \<Rightarrow> app_key \<Rightarrow> dek_reconciliation \<Rightarrow> identity_member list multi_device" where
  "reconciled_members refusal r k rc =
     (let ms = filter (\<lambda>m. lm_auth_id m \<in> set (rc_authorized_auth_ids rc)) (ir_members r) in
      if \<not> list_ex (\<lambda>m. lm_app_id m = ak_app_id k) ms then Inl (InvalidDeviceIdentity refusal) else Inr ms)"

definition legacy_not_owned :: multi_device_error where
  "legacy_not_owned = InvalidDeviceIdentity ''identity does not own this legacy vault''"

definition reconcile_legacy_vault_member ::
    "key_crates \<Rightarrow> identity_record \<Rightarrow> app_key \<Rightarrow> store_id \<Rightarrow> dek_reconciliation \<Rightarrow> identity_record record_transition" where
  "reconcile_legacy_vault_member c r k store rc = settle r
     (and_then (bound_member c r k) (\<lambda>_.
      case position (\<lambda>d. dk_store_id d = store) (ir_vault_deks r) of
        None \<Rightarrow> Inl legacy_not_owned
      | Some i \<Rightarrow>
      (case get_at (ir_vault_deks r) i of
        None \<Rightarrow> Inl legacy_not_owned
      | Some d \<Rightarrow>
        and_then (next_epoch (dk_key_epoch d) (rc_epoch_update rc)) (\<lambda>epoch.
        and_then (opened_reconciliation c k rc) (\<lambda>keys.
        and_then (reconciled_members ''reconciling app key is not authorized for this vault'' r k rc) (\<lambda>ms.
        if reconciliation_with c d k ms keys epoch = Current then Inr r
        else and_then (wrap_vault_keys_for_members c keys ms store) (\<lambda>wrapped.
          let rewrapped = wrapped\<lparr>dk_key_epoch := epoch\<rparr> in
          Inr (if d \<noteq> rewrapped then advance (r\<lparr>ir_vault_deks := (ir_vault_deks r)[i := rewrapped]\<rparr>) else r))))))))"

definition record_import_legacy_vault ::
    "key_crates \<Rightarrow> identity_record \<Rightarrow> app_key \<Rightarrow> store_id \<Rightarrow> dek_reconciliation \<Rightarrow> identity_record record_transition" where
  "record_import_legacy_vault c r k store rc = settle r
     (and_then (bound_member c r k) (\<lambda>_.
      and_then (opened_reconciliation c k rc) (\<lambda>keys.
      and_then (reconciled_members ''importing app key is not authorized for this vault'' r k rc) (\<lambda>ms.
      and_then (wrap_vault_keys_for_members c keys ms store) (\<lambda>wrapped.
        Inr (advance (r\<lparr>ir_vault_deks :=
          ir_vault_deks r @ [wrapped\<lparr>dk_key_epoch := committed_epoch (rc_epoch_update rc)\<rparr>]\<rparr>)))))))"

definition synthesize_from_legacy_vault ::
    "identity_id multi_device \<Rightarrow> string \<Rightarrow> identity_member \<Rightarrow> store_id \<Rightarrow> string \<Rightarrow> string \<Rightarrow> dek_epoch
      \<Rightarrow> identity_record multi_device" where
  "synthesize_from_legacy_vault generated label m store secrets_envelope members_envelope epoch =
     and_then generated (\<lambda>i.
       Inr \<lparr>ir_identity_id = i, ir_label = label, ir_control_epoch = control_epoch_initial, ir_members = [m],
            ir_vault_deks = [\<lparr>dk_store_id = store, dk_key_epoch = epoch,
              dk_secrets_envelopes = [\<lparr>me_app_id = lm_app_id m, me_envelope = secrets_envelope\<rparr>],
              dk_members_envelopes = [\<lparr>me_app_id = lm_app_id m, me_envelope = members_envelope\<rparr>]\<rparr>]\<rparr>)"

definition identity_fingerprint :: "key_crates \<Rightarrow> identity_id \<Rightarrow> string" where
  "identity_fingerprint c i =
     hex_encode (ic_base (kc_identity c))
       (take 8 (sha256 (ic_base (kc_identity c)) (bytes_of_string (identity_id_str i))))"

end
