(* ===== verification/LocalIdentityLaws.thy ===== *)
theory LocalIdentityLaws
  imports LocalIdentity
begin

text \<open>
  What the transitions of the identity record keep and do: members and vaults stay distinct and the
  recipients of a vault stay members; a grant opens for exactly the members it was wrapped for, to
  the keys it was wrapped from; a rejected transition gives the record back unchanged; the epoch of
  a vault grant only moves forward.
\<close>

named_theorems record_simps "what the record transitions read and write"

subsection \<open>Documented behaviour of age\<close>

text \<open>
  A secret's own recipient parses to itself, and what is sealed to it opens again.  The keys of a
  vault have the shape that SymmetricKey admits.
\<close>

definition age_laws :: "key_crates \<Rightarrow> bool" where
  "age_laws c \<longleftrightarrow>
     (\<forall>s. age_recipient (kc_identity c) (age_to_public c s) = Inr (age_to_public c s))
     \<and> (\<forall>s plaintext. \<exists>sealed. age_seal (kc_identity c) (age_to_public c s) plaintext = Inr sealed
          \<and> age_open c s sealed = Inr plaintext)"

definition symmetric_keys :: "vault_keys \<Rightarrow> bool" where
  "symmetric_keys keys \<longleftrightarrow> symmetric_key_parse (vk_secrets_key keys) = Inr (vk_secrets_key keys)
     \<and> symmetric_key_parse (vk_members_key keys) = Inr (vk_members_key keys)"

lemma sealed_opens:
  assumes "age_laws c" and "public_key_seal c (app_public_key c k) key = Inr sealed"
    and "symmetric_key_parse key = Inr key"
  shows "decrypt_envelope c k sealed = Inr key"
proof -
  obtain s where "age_seal (kc_identity c) (age_to_public c (ak_secret k)) key = Inr s"
    "age_open c (ak_secret k) s = Inr key" using assms(1) unfolding age_laws_def by blast
  moreover have "age_recipient (kc_identity c) (age_to_public c (ak_secret k)) = Inr (age_to_public c (ak_secret k))"
    using assms(1) unfolding age_laws_def by blast
  ultimately show ?thesis using assms(2,3)
    by (simp add: public_key_seal_def app_public_key_def decrypt_envelope_def app_open_utf8_def)
qed

lemma sealing_succeeds:
  assumes "age_laws c"
  shows "\<exists>sealed. public_key_seal c (app_public_key c k) key = Inr sealed"
proof -
  obtain s where "age_seal (kc_identity c) (age_to_public c (ak_secret k)) key = Inr s"
    using assms unfolding age_laws_def by blast
  moreover have "age_recipient (kc_identity c) (age_to_public c (ak_secret k)) = Inr (age_to_public c (ak_secret k))"
    using assms unfolding age_laws_def by blast
  ultimately show ?thesis by (simp add: public_key_seal_def app_public_key_def)
qed

text \<open>The identity log seals with the same function; it renders the errors.\<close>

lemma seal_bytes_public_key_seal:
  "seal_bytes (kc_identity c) key plaintext = Inr sealed \<longleftrightarrow> public_key_seal c key plaintext = Inr sealed"
  by (auto simp: seal_bytes_def public_key_seal_def split: sum.splits)

lemma decrypted_key_parses:
  assumes "decrypt_envelope c k e = Inr key"
  shows "symmetric_key_parse key = Inr key"
proof -
  obtain plaintext where "(case symmetric_key_parse plaintext of Inl e \<Rightarrow> Inl (Validation e) | Inr key \<Rightarrow> Inr key) = Inr key"
    using assms unfolding decrypt_envelope_def by (rule and_then_InrE)
  then have "symmetric_key_parse plaintext = Inr key" by (cases "symmetric_key_parse plaintext") auto
  then have key: "length key = 64" "list_all is_ascii_hexdigit key"
    by (auto simp: symmetric_key_parse_def Let_def split: if_splits)
  then have "trim key = key" by (intro trim_plain) (auto simp: list_all_iff hexdigit_plain)
  with key show ?thesis by (simp add: symmetric_key_parse_def)
qed

subsection \<open>Wrapped grants\<close>

lemma seal_for_Inr:
  "seal_for c key m = Inr e \<longleftrightarrow> me_app_id e = lm_app_id m \<and> public_key_seal c (lm_public_key m) key = Inr (me_envelope e)"
  by (cases e) (auto simp: seal_for_def and_then_Inr_iff)

lemma wrap_step_Inr:
  "wrap_step c keys p m = Inr p' \<longleftrightarrow> (\<exists>s e. seal_for c (vk_secrets_key keys) m = Inr s
     \<and> seal_for c (vk_members_key keys) m = Inr e \<and> p' = (fst p @ [s], snd p @ [e]))"
  by (auto simp: wrap_step_def and_then_Inr_iff)

lemma wrap_fold:
  assumes "fold_result (wrap_step c keys) (ss, es) ms = Inr (ss', es')"
  obtains ss'' es'' where "ss' = ss @ ss''" "es' = es @ es''"
    "list_all2 (\<lambda>m e. seal_for c (vk_secrets_key keys) m = Inr e) ms ss''"
    "list_all2 (\<lambda>m e. seal_for c (vk_members_key keys) m = Inr e) ms es''"
  using assms
proof (induction ms arbitrary: ss es thesis)
  case Nil
  show ?case using Nil(2) by (intro Nil(1) [of "[]" "[]"]) auto
next
  case (Cons m ms)
  obtain s e where se: "seal_for c (vk_secrets_key keys) m = Inr s" "seal_for c (vk_members_key keys) m = Inr e"
    and rest: "fold_result (wrap_step c keys) (ss @ [s], es @ [e]) ms = Inr (ss', es')"
    using Cons.prems(2) by (auto simp: and_then_Inr_iff wrap_step_Inr)
  obtain ss'' es'' where "ss' = (ss @ [s]) @ ss''" "es' = (es @ [e]) @ es''"
    "list_all2 (\<lambda>m e. seal_for c (vk_secrets_key keys) m = Inr e) ms ss''"
    "list_all2 (\<lambda>m e. seal_for c (vk_members_key keys) m = Inr e) ms es''"
    using Cons.IH [OF _ rest] by blast
  then show ?case using se by (intro Cons.prems(1) [of "s # ss''" "e # es''"]) auto
qed

lemma wrapped:
  assumes "wrap_vault_keys_for_members c keys ms store = Inr d"
  shows "dk_store_id d = store" "dk_key_epoch d = LegacyUnknown"
    "list_all2 (\<lambda>m e. seal_for c (vk_secrets_key keys) m = Inr e) ms (dk_secrets_envelopes d)"
    "list_all2 (\<lambda>m e. seal_for c (vk_members_key keys) m = Inr e) ms (dk_members_envelopes d)"
proof -
  obtain ss es where f: "fold_result (wrap_step c keys) ([], []) ms = Inr (ss, es)"
    and d: "d = \<lparr>dk_store_id = store, dk_key_epoch = LegacyUnknown, dk_secrets_envelopes = ss, dk_members_envelopes = es\<rparr>"
    using assms by (auto simp: wrap_vault_keys_for_members_def and_then_Inr_iff)
  show "dk_store_id d = store" "dk_key_epoch d = LegacyUnknown" using d by simp_all
  show "list_all2 (\<lambda>m e. seal_for c (vk_secrets_key keys) m = Inr e) ms (dk_secrets_envelopes d)"
    "list_all2 (\<lambda>m e. seal_for c (vk_members_key keys) m = Inr e) ms (dk_members_envelopes d)"
    using wrap_fold [OF f] unfolding d by auto
qed

lemma sealed_recipients:
  "list_all2 (\<lambda>m e. seal_for c key m = Inr e) ms es \<Longrightarrow> map me_app_id es = map lm_app_id ms"
  by (induction rule: list_all2_induct) (auto simp: seal_for_Inr)

lemma wrapped_recipients:
  assumes "wrap_vault_keys_for_members c keys ms store = Inr d"
  shows "map me_app_id (dk_secrets_envelopes d) = map lm_app_id ms"
    "map me_app_id (dk_members_envelopes d) = map lm_app_id ms"
  using wrapped(3,4) [OF assms] sealed_recipients by blast+

lemma wrapping_succeeds:
  assumes "age_laws c" and "\<And>m. m \<in> set ms \<Longrightarrow> \<exists>k. lm_public_key m = app_public_key c k"
  shows "\<exists>d. wrap_vault_keys_for_members c keys ms store = Inr d"
proof -
  have seals: "\<exists>e. seal_for c key m = Inr e" if m: "m \<in> set ms" for m key
  proof -
    obtain k where "lm_public_key m = app_public_key c k" using assms(2) [OF m] by blast
    then show ?thesis using sealing_succeeds [OF assms(1), of k key] by (auto simp: seal_for_def)
  qed
  have "\<exists>es. fold_result (wrap_step c keys) s ms = Inr es" for s
    using seals
  proof (induction ms arbitrary: s)
    case (Cons m ms)
    obtain a b where "seal_for c (vk_secrets_key keys) m = Inr a" "seal_for c (vk_members_key keys) m = Inr b"
      using Cons.prems by (meson list.set_intros(1))
    then show ?case using Cons by (simp add: wrap_step_def)
  qed simp
  then obtain es where "fold_result (wrap_step c keys) ([], []) ms = Inr es" by blast
  then show ?thesis by (simp add: wrap_vault_keys_for_members_def)
qed

text \<open>The envelope a wrapped grant holds for a member is the one sealed to it.\<close>

lemma sealed_envelope_of:
  assumes "list_all2 (\<lambda>m e. seal_for c key m = Inr e) ms es" and "distinct (map lm_app_id ms)" and "m \<in> set ms"
  obtains e where "envelope_of (lm_app_id m) es = Some e" "public_key_seal c (lm_public_key m) key = Inr (me_envelope e)"
  using assms
proof (induction arbitrary: thesis rule: list_all2_induct)
  case (Cons x xs y ys)
  show ?case
  proof (cases "m = x")
    case True
    then show ?thesis using Cons.hyps(1) by (intro Cons.prems(1) [of y]) (auto simp: envelope_of_def seal_for_Inr)
  next
    case False
    then have m: "m \<in> set xs" "distinct (map lm_app_id xs)" using Cons.prems(2,3) by auto
    have "lm_app_id m \<noteq> lm_app_id x" using m(1) Cons.prems(2) by (auto simp: image_iff)
    then have "me_app_id y \<noteq> lm_app_id m" using Cons.hyps(1) by (auto simp: seal_for_Inr)
    moreover obtain e where "envelope_of (lm_app_id m) ys = Some e"
      "public_key_seal c (lm_public_key m) key = Inr (me_envelope e)" using Cons.IH m by blast
    ultimately show ?thesis by (intro Cons.prems(1) [of e]) (auto simp: envelope_of_def)
  qed
qed simp

definition bound_to :: "key_crates \<Rightarrow> identity_member \<Rightarrow> app_key \<Rightarrow> bool" where
  "bound_to c m k \<longleftrightarrow> lm_app_id m = ak_app_id k \<and> binding_to_app_key c m k = Matches"

lemma bound_toD:
  assumes "bound_to c m k"
  shows "lm_app_id m = ak_app_id k" "lm_public_key m = app_public_key c k" "lm_auth_id m = app_auth_id c k"
  using assms by (auto simp: bound_to_def binding_to_app_key_def split: if_splits)

lemma wrapped_opens:
  assumes "age_laws c" and "wrap_vault_keys_for_members c keys ms store = Inr d" and "symmetric_keys keys"
    and "distinct (map lm_app_id ms)" and "m \<in> set ms" and "bound_to c m k"
  obtains s e where "app_envelopes d (ak_app_id k) = Granted s e"
    "decrypt_envelope c k (me_envelope s) = Inr (vk_secrets_key keys)"
    "decrypt_envelope c k (me_envelope e) = Inr (vk_members_key keys)"
proof -
  obtain s where s: "envelope_of (lm_app_id m) (dk_secrets_envelopes d) = Some s"
    "public_key_seal c (lm_public_key m) (vk_secrets_key keys) = Inr (me_envelope s)"
    using sealed_envelope_of [OF wrapped(3) [OF assms(2)] assms(4,5)] by blast
  obtain e where e: "envelope_of (lm_app_id m) (dk_members_envelopes d) = Some e"
    "public_key_seal c (lm_public_key m) (vk_members_key keys) = Inr (me_envelope e)"
    using sealed_envelope_of [OF wrapped(4) [OF assms(2)] assms(4,5)] by blast
  note m = bound_toD [OF assms(6)]
  show ?thesis
  proof (rule that [of s e])
    show "app_envelopes d (ak_app_id k) = Granted s e" using s(1) e(1) m(1) by (simp add: app_envelopes_def)
    show "decrypt_envelope c k (me_envelope s) = Inr (vk_secrets_key keys)"
      using sealed_opens [OF assms(1)] s(2) m(2) assms(3) by (simp add: symmetric_keys_def)
    show "decrypt_envelope c k (me_envelope e) = Inr (vk_members_key keys)"
      using sealed_opens [OF assms(1)] e(2) m(2) assms(3) by (simp add: symmetric_keys_def)
  qed
qed

subsection \<open>Well-formed records\<close>

text \<open>
  Members and vaults are distinct, and the envelopes of a vault list each recipient once, the same
  for both keys, and only members of the identity.
\<close>

definition grant_wf :: "app_id set \<Rightarrow> vault_dek \<Rightarrow> bool" where
  "grant_wf apps d \<longleftrightarrow> map me_app_id (dk_members_envelopes d) = map me_app_id (dk_secrets_envelopes d)
     \<and> distinct (map me_app_id (dk_secrets_envelopes d)) \<and> me_app_id ` set (dk_secrets_envelopes d) \<subseteq> apps"

abbreviation member_apps :: "identity_member list \<Rightarrow> app_id set" where
  "member_apps ms \<equiv> lm_app_id ` set ms"

definition record_wf :: "identity_record \<Rightarrow> bool" where
  "record_wf r \<longleftrightarrow> distinct (map lm_app_id (ir_members r)) \<and> distinct (map dk_store_id (ir_vault_deks r))
     \<and> (\<forall>d\<in>set (ir_vault_deks r). grant_wf (member_apps (ir_members r)) d)"

lemma record_wfD:
  assumes "record_wf r"
  shows "distinct (map lm_app_id (ir_members r))" "distinct (map dk_store_id (ir_vault_deks r))"
    "d \<in> set (ir_vault_deks r) \<Longrightarrow> grant_wf (member_apps (ir_members r)) d"
  using assms by (auto simp: record_wf_def)

lemma record_wfI:
  assumes "distinct (map lm_app_id (ir_members r))" and "distinct (map dk_store_id (ir_vault_deks r))"
    and "\<And>d. d \<in> set (ir_vault_deks r) \<Longrightarrow> grant_wf (member_apps (ir_members r)) d"
  shows "record_wf r"
  using assms by (auto simp: record_wf_def)

lemma grant_wf_mono: "grant_wf apps d \<Longrightarrow> apps \<subseteq> apps' \<Longrightarrow> grant_wf apps' d"
  by (auto simp: grant_wf_def)

lemma grant_wf_epoch [simp]: "grant_wf apps (d\<lparr>dk_key_epoch := e\<rparr>) = grant_wf apps d"
  by (simp add: grant_wf_def)

lemma wrapped_grant_wf:
  assumes "wrap_vault_keys_for_members c keys ms store = Inr d" and "distinct (map lm_app_id ms)" and "member_apps ms \<subseteq> apps"
  shows "grant_wf apps d"
  using wrapped_recipients [OF assms(1)] assms(2,3) by (simp add: grant_wf_def flip: set_map)

lemma map_filter_key: "map f (filter (\<lambda>x. P (f x)) xs) = filter P (map f xs)"
  by (simp add: filter_map comp_def)

lemma retained_grant_wf:
  assumes "grant_wf apps d" and "\<And>a. a \<in> apps \<Longrightarrow> keep a \<Longrightarrow> a \<in> apps'"
  shows "grant_wf apps' (retain_envelopes keep d)"
proof -
  have "distinct (map me_app_id (filter (\<lambda>e. keep (me_app_id e)) (dk_secrets_envelopes d)))"
    using assms(1) by (simp add: grant_wf_def distinct_map_filter)
  then show ?thesis using assms by (auto simp: grant_wf_def retain_envelopes_def map_filter_key)
qed

lemma settle_Inr [simp]: "settle r outcome = Inr a \<longleftrightarrow> outcome = Inr a"
  by (auto simp: settle_def split: sum.splits)

lemma settle_Inl: "settle r outcome = Inl rejected \<Longrightarrow> rr_identity rejected = r \<and> outcome = Inl (rr_cause rejected)"
  by (auto simp: settle_def split: sum.splits)

lemma advance_simps [simp]:
  "ir_identity_id (advance r) = ir_identity_id r" "ir_label (advance r) = ir_label r"
  "ir_members (advance r) = ir_members r" "ir_vault_deks (advance r) = ir_vault_deks r"
  "ir_control_epoch (advance r) = control_epoch_next (ir_control_epoch r)"
  by (simp_all add: advance_def)

lemma advance_wf [simp]: "record_wf (advance r) = record_wf r"
  by (simp add: record_wf_def)

lemma record_vault_dek_Some: "record_vault_dek r store = Some d \<Longrightarrow> d \<in> set (ir_vault_deks r) \<and> dk_store_id d = store"
  by (auto simp: record_vault_dek_def find_dek_def dest: find_SomeD)

lemma owns_vault_iff: "owns_vault r store \<longleftrightarrow> store \<in> dk_store_id ` set (ir_vault_deks r)"
  by (auto simp: owns_vault_def record_vault_dek_def find_dek_def find_None_iff_key)

lemma find_member_Some: "find_member app ms = Some m \<Longrightarrow> m \<in> set ms \<and> lm_app_id m = app"
  by (auto simp: find_member_def dest: find_SomeD)

lemma find_member_None: "find_member app ms = None \<longleftrightarrow> app \<notin> member_apps ms"
  by (simp add: find_member_def find_None_iff_key)

lemma find_member_unique: "distinct (map lm_app_id ms) \<Longrightarrow> m \<in> set ms \<Longrightarrow> find_member (lm_app_id m) ms = Some m"
  by (simp add: find_member_def find_unique)

lemma member_apps_list_ex: "list_ex (\<lambda>m. lm_app_id m = app) ms \<longleftrightarrow> app \<in> member_apps ms"
  by (auto simp: list_ex_iff)

lemma bound_member_Inr:
  "bound_member c r k = Inr m \<longleftrightarrow> find_member (ak_app_id k) (ir_members r) = Some m \<and> bound_to c m k"
  by (auto simp: bound_member_def bound_to_def dest: find_member_Some split: option.splits if_splits)
    (metis key_binding.exhaust)

lemma bound_member_mem:
  assumes "bound_member c r k = Inr m"
  shows "m \<in> set (ir_members r)" "bound_to c m k" "ak_app_id k \<in> member_apps (ir_members r)"
proof -
  have m: "m \<in> set (ir_members r)" "lm_app_id m = ak_app_id k"
    using assms find_member_Some unfolding bound_member_Inr by blast+
  show "m \<in> set (ir_members r)" by (fact m(1))
  show "bound_to c m k" using assms unfolding bound_member_Inr by blast
  show "ak_app_id k \<in> member_apps (ir_members r)" using m by (auto simp flip: m(2))
qed

text \<open>Adding a grant for a vault the record does not have yet.\<close>

lemma new_grant_wf:
  assumes "record_wf r" and "\<not> owns_vault r (dk_store_id d)" and "grant_wf (member_apps (ir_members r)) d"
  shows "record_wf (r\<lparr>ir_vault_deks := ir_vault_deks r @ [d]\<rparr>)"
  using assms by (auto simp: record_wf_def owns_vault_iff)

text \<open>Replacing the grant of a vault.\<close>

lemma replaced_grant_wf:
  assumes "record_wf r" and "i < length (ir_vault_deks r)" and "dk_store_id d = dk_store_id (ir_vault_deks r ! i)"
    and "grant_wf (member_apps (ir_members r)) d"
  shows "record_wf (r\<lparr>ir_vault_deks := (ir_vault_deks r)[i := d]\<rparr>)"
proof (rule record_wfI)
  show "distinct (map dk_store_id (ir_vault_deks (r\<lparr>ir_vault_deks := (ir_vault_deks r)[i := d]\<rparr>)))"
    using record_wfD(2) [OF assms(1)] assms(2,3) by (simp add: map_list_update_same)
  show "grant_wf (member_apps (ir_members (r\<lparr>ir_vault_deks := (ir_vault_deks r)[i := d]\<rparr>))) d'"
    if "d' \<in> set (ir_vault_deks (r\<lparr>ir_vault_deks := (ir_vault_deks r)[i := d]\<rparr>))" for d'
    using that set_update_subset_insert [of "ir_vault_deks r" i d] record_wfD(3) [OF assms(1)] assms(4) by auto
qed (use record_wfD(1) [OF assms(1)] in simp)

subsection \<open>Every transition keeps well-formedness\<close>

lemma create_wf: "create_with_app_key c generated label k member_label = Inr r \<Longrightarrow> record_wf r"
  by (auto simp: create_with_app_key_def and_then_Inr_iff record_wf_def)

lemma generate_vault_dek_Inr:
  "generate_vault_dek c generated r store = Inr (r', keys) \<longleftrightarrow>
     has_members r \<and> \<not> owns_vault r store \<and> generated = Inr keys
     \<and> (\<exists>d. wrap_vault_keys_for_members c keys (ir_members r) store = Inr d
          \<and> r' = (advance r)\<lparr>ir_vault_deks := ir_vault_deks r @ [d]\<rparr>)"
  by (auto simp: generate_vault_dek_def and_then_Inr_iff owns_vault_iff list_ex_iff)

lemma generate_wf:
  assumes "record_wf r" and "generate_vault_dek c generated r store = Inr (r', keys)"
  shows "record_wf r'"
proof -
  obtain d where d: "\<not> owns_vault r store" "wrap_vault_keys_for_members c keys (ir_members r) store = Inr d"
    and r': "r' = (advance r)\<lparr>ir_vault_deks := ir_vault_deks r @ [d]\<rparr>"
    using assms(2) by (auto simp: generate_vault_dek_Inr)
  have "record_wf (advance r)" using assms(1) by simp
  moreover have "\<not> owns_vault (advance r) (dk_store_id d)" using d wrapped(1) [OF d(2)] by (simp add: owns_vault_iff)
  moreover have "grant_wf (member_apps (ir_members (advance r))) d"
    using wrapped_grant_wf [OF d(2)] record_wfD(1) [OF assms(1)] by simp
  ultimately show ?thesis using new_grant_wf [of "advance r" d] r' by simp
qed

lemma open_or_generate_cases:
  assumes "open_or_generate_vault_dek c generated r k store = Inr (r', keys)"
  obtains (opened) "existing_vault_keys c r k store = Inr (Opened keys)" "r' = r"
    | (generated) "existing_vault_keys c r k store = Inr VaultNotCreated" "generate_vault_dek c generated r store = Inr (r', keys)"
  using assms by (auto simp: open_or_generate_vault_dek_def split: sum.splits committed_vault_keys.splits)

lemma open_or_generate_wf:
  "record_wf r \<Longrightarrow> open_or_generate_vault_dek c generated r k store = Inr (r', keys) \<Longrightarrow> record_wf r'"
  by (erule open_or_generate_cases) (auto intro: generate_wf)

lemma add_member_Inr:
  "add_member r m = Inr r' \<longleftrightarrow> lm_app_id m \<notin> member_apps (ir_members r)
     \<and> r' = advance (r\<lparr>ir_members := ir_members r @ [m]\<rparr>)"
  by (auto simp: add_member_def member_apps_list_ex)

lemma add_member_wf:
  assumes "record_wf r" and "add_member r m = Inr r'"
  shows "record_wf r'"
proof -
  have r': "lm_app_id m \<notin> member_apps (ir_members r)" "r' = advance (r\<lparr>ir_members := ir_members r @ [m]\<rparr>)"
    using assms(2) by (simp_all add: add_member_Inr)
  have "record_wf (r\<lparr>ir_members := ir_members r @ [m]\<rparr>)"
    using r'(1) assms(1) by (auto simp: record_wf_def intro: grant_wf_mono)
  then show ?thesis using r'(2) by simp
qed

text \<open>A change of members that keeps their app ids keeps the record well formed.\<close>

lemma same_apps_wf:
  assumes "record_wf r" and "map lm_app_id ms = map lm_app_id (ir_members r)"
  shows "record_wf (r\<lparr>ir_members := ms\<rparr>)"
proof -
  have "member_apps ms = member_apps (ir_members r)" using assms(2) by (metis list.set_map)
  then show ?thesis using assms by (simp add: record_wf_def)
qed

lemma set_signing_wf:
  assumes "record_wf r" and "set_member_signing_public_key r app key = Inr r'"
  shows "record_wf r'"
proof -
  have "record_wf (r\<lparr>ir_members := update_first (\<lambda>m. lm_app_id m = app) (\<lambda>m. m\<lparr>lm_signing_public_key := key\<rparr>) (ir_members r)\<rparr>)"
    using assms(1) by (rule same_apps_wf) (simp add: map_update_first)
  then show ?thesis
    using assms by (auto simp: set_member_signing_public_key_def split: option.splits if_splits)
qed

lemma remove_member_Inr:
  "remove_member r app = Inr r' \<longleftrightarrow> (\<exists>i. position (\<lambda>m. lm_app_id m = app) (ir_members r) = Some i
     \<and> length (ir_members r) \<noteq> 1
     \<and> r' = advance (r\<lparr>ir_vault_deks := map (retain_envelopes (\<lambda>a. a \<noteq> app)) (ir_vault_deks r),
               ir_members := remove_at i (ir_members r)\<rparr>))"
  by (auto simp: remove_member_def split: option.splits)

lemma removed_member_apps:
  assumes "distinct (map lm_app_id ms)" and "position (\<lambda>m. lm_app_id m = app) ms = Some i"
  shows "member_apps (remove_at i ms) = member_apps ms - {app}"
proof -
  have i: "i < length (map lm_app_id ms)" "map lm_app_id ms ! i = app" using position_SomeD [OF assms(2)] by auto
  have "set (remove_at i (map lm_app_id ms)) = set (map lm_app_id ms) - {app}"
    using set_remove_at [OF assms(1) i(1)] i(2) by simp
  then show ?thesis by (metis map_remove_at list.set_map)
qed

lemma remove_member_wf:
  assumes "record_wf r" and "remove_member r app = Inr r'"
  shows "record_wf r'"
proof -
  obtain i where i: "position (\<lambda>m. lm_app_id m = app) (ir_members r) = Some i"
    and r': "r' = advance (r\<lparr>ir_vault_deks := map (retain_envelopes (\<lambda>a. a \<noteq> app)) (ir_vault_deks r),
               ir_members := remove_at i (ir_members r)\<rparr>)"
    using assms(2) unfolding remove_member_Inr by blast
  note apps = removed_member_apps [OF record_wfD(1) [OF assms(1)] i]
  have stores: "map dk_store_id (ir_vault_deks r') = map dk_store_id (ir_vault_deks r)"
    unfolding r' by (simp add: retain_envelopes_def comp_def)
  show ?thesis
  proof (rule record_wfI)
    show "distinct (map lm_app_id (ir_members r'))"
      using record_wfD(1) [OF assms(1)] unfolding r' by (simp add: map_remove_at distinct_remove_at)
    show "distinct (map dk_store_id (ir_vault_deks r'))" using record_wfD(2) [OF assms(1)] stores by simp
    show "grant_wf (member_apps (ir_members r')) d" if "d \<in> set (ir_vault_deks r')" for d
      using that record_wfD(3) [OF assms(1)] unfolding r' by (auto simp: apps intro: retained_grant_wf)
  qed
qed

lemma authorized_members_Inr:
  assumes "authorized_members r d = Inr ms"
  shows "map lm_app_id ms = map me_app_id (dk_secrets_envelopes d)" "set ms \<subseteq> set (ir_members r)"
proof -
  have all: "list_all2 (\<lambda>app m. find_member app (ir_members r) = Some m) (map me_app_id (dk_secrets_envelopes d)) ms"
    using assms unfolding authorized_members_def traverse_Inr_iff
    by (auto elim!: list_all2_mono split: option.splits)
  have sound: "map lm_app_id ms = apps \<and> set ms \<subseteq> set (ir_members r)"
    if "list_all2 (\<lambda>app m. find_member app (ir_members r) = Some m) apps ms" for apps ms
    using that by (induction rule: list_all2_induct) (auto dest: find_member_Some)
  show "map lm_app_id ms = map me_app_id (dk_secrets_envelopes d)" "set ms \<subseteq> set (ir_members r)"
    using sound [OF all] by simp_all
qed

lemma with_grantee_apps:
  assumes "distinct (map lm_app_id ms)"
  shows "distinct (map lm_app_id (with_grantee m ms))" "member_apps (with_grantee m ms) = insert (lm_app_id m) (member_apps ms)"
  using assms by (auto simp: with_grantee_def list_all_iff image_iff) (metis)

lemma stage_replacement_Inr:
  assumes "stage_replacement c r m (store, keys) = Inr (i, d')"
  obtains ms w where "position (\<lambda>d. dk_store_id d = store) (ir_vault_deks r) = Some i"
    "authorized_members r (ir_vault_deks r ! i) = Inr ms"
    "wrap_vault_keys_for_members c keys (with_grantee m ms) store = Inr w"
    "d' = w\<lparr>dk_key_epoch := dk_key_epoch (ir_vault_deks r ! i)\<rparr>"
  using assms by (auto simp: stage_replacement_def and_then_Inr_iff split: option.splits if_splits)

text \<open>What staging promises of the grant that will replace another.\<close>

lemma staged_replacement:
  assumes "record_wf r" and "lm_app_id m \<in> member_apps (ir_members r)"
    and "stage_replacement c r m (store, keys) = Inr (i, d')"
  shows "i < length (ir_vault_deks r)" "dk_store_id (ir_vault_deks r ! i) = store" "dk_store_id d' = store"
    "grant_wf (member_apps (ir_members r)) d'"
    "me_app_id ` set (dk_secrets_envelopes d') = insert (lm_app_id m) (me_app_id ` set (dk_secrets_envelopes (ir_vault_deks r ! i)))"
proof -
  let ?d = "ir_vault_deks r ! i"
  obtain ms w where pos: "position (\<lambda>d. dk_store_id d = store) (ir_vault_deks r) = Some i"
    and ms: "authorized_members r ?d = Inr ms" and w: "wrap_vault_keys_for_members c keys (with_grantee m ms) store = Inr w"
    and d': "d' = w\<lparr>dk_key_epoch := dk_key_epoch ?d\<rparr>"
    using assms(3) by (rule stage_replacement_Inr)
  show i: "i < length (ir_vault_deks r)" and "dk_store_id ?d = store" using position_SomeD [OF pos] by auto
  have d: "?d \<in> set (ir_vault_deks r)" using i by simp
  have dist: "distinct (map lm_app_id ms)"
    using record_wfD(3) [OF assms(1) d] authorized_members_Inr(1) [OF ms] by (simp add: grant_wf_def)
  have apps: "member_apps ms = me_app_id ` set (dk_secrets_envelopes ?d)"
    using authorized_members_Inr(1) [OF ms] by (metis list.set_map)
  show "dk_store_id d' = store" using wrapped(1) [OF w] d' by simp
  have "member_apps (with_grantee m ms) \<subseteq> member_apps (ir_members r)"
    using with_grantee_apps(2) [OF dist, of m] authorized_members_Inr(2) [OF ms] assms(2) by auto
  then show "grant_wf (member_apps (ir_members r)) d'"
    using wrapped_grant_wf [OF w with_grantee_apps(1) [OF dist]] d' by simp
  have "me_app_id ` set (dk_secrets_envelopes w) = member_apps (with_grantee m ms)"
    using wrapped_recipients(1) [OF w] by (metis list.set_map)
  then show "me_app_id ` set (dk_secrets_envelopes d') = insert (lm_app_id m) (me_app_id ` set (dk_secrets_envelopes ?d))"
    using with_grantee_apps(2) [OF dist, of m] apps d' by simp
qed

lemma apply_replacements_all:
  "\<forall>(i, d)\<in>set reps. i < length ds \<Longrightarrow>
     apply_replacements ds reps = (fold (\<lambda>(i, d) ds. ds[i := d]) reps ds, None)"
  by (induction reps arbitrary: ds) auto

lemma staged_list:
  assumes "record_wf r" and "lm_app_id m \<in> member_apps (ir_members r)"
    and "traverse (stage_replacement c r m) items = Inr reps"
  shows "\<forall>(i, d)\<in>set reps. i < length (ir_vault_deks r)
      \<and> dk_store_id d = dk_store_id (ir_vault_deks r ! i) \<and> grant_wf (member_apps (ir_members r)) d"
proof -
  have "list_all2 (\<lambda>item p. stage_replacement c r m item = Inr p) items reps" using assms(3) by (simp add: traverse_Inr_iff)
  then show ?thesis
  proof (induction rule: list_all2_induct)
    case (Cons item items p reps)
    then show ?case using staged_replacement [OF assms(1,2), of c "fst item" "snd item" "fst p" "snd p"] by auto
  qed simp
qed

lemma replaced_all_wf:
  assumes "record_wf r" and "\<forall>(i, d)\<in>set reps. i < length (ir_vault_deks r)
      \<and> dk_store_id d = dk_store_id (ir_vault_deks r ! i) \<and> grant_wf (member_apps (ir_members r)) d"
  shows "record_wf (r\<lparr>ir_vault_deks := fold (\<lambda>(i, d) ds. ds[i := d]) reps (ir_vault_deks r)\<rparr>)"
  using assms
proof (induction reps arbitrary: r)
  case (Cons p reps)
  let ?r = "r\<lparr>ir_vault_deks := (ir_vault_deks r)[fst p := snd p]\<rparr>"
  have p: "fst p < length (ir_vault_deks r)" "dk_store_id (snd p) = dk_store_id (ir_vault_deks r ! fst p)"
    "grant_wf (member_apps (ir_members r)) (snd p)" using Cons.prems(2) by auto
  have wf: "record_wf ?r" using replaced_grant_wf [OF Cons.prems(1) p] .
  have "dk_store_id (ir_vault_deks ?r ! j) = dk_store_id (ir_vault_deks r ! j)" if "j < length (ir_vault_deks r)" for j
    using that p by (cases "j = fst p") auto
  then have "record_wf (?r\<lparr>ir_vault_deks := fold (\<lambda>(i, d) ds. ds[i := d]) reps (ir_vault_deks ?r)\<rparr>)"
    using Cons.prems(2) by (intro Cons.IH [OF wf]) auto
  then show ?case by (cases p) simp
qed simp

lemma grant_member_Inr:
  assumes "record_wf r" and "lm_app_id m \<in> member_apps (ir_members r)"
    and "grant_member_to_vaults c r m items = Inr r'"
  obtains reps where "traverse (stage_replacement c r m) items = Inr reps"
    "ir_vault_deks r' = fold (\<lambda>(i, d) ds. ds[i := d]) reps (ir_vault_deks r)" "ir_members r' = ir_members r"
proof -
  obtain reps where reps: "traverse (stage_replacement c r m) items = Inr reps"
    using assms(3) by (auto simp: grant_member_to_vaults_def split: sum.splits)
  have "apply_replacements (ir_vault_deks r) reps = (fold (\<lambda>(i, d) ds. ds[i := d]) reps (ir_vault_deks r), None)"
    using staged_list [OF assms(1,2) reps] by (intro apply_replacements_all) auto
  then have "r' = (let granted = r\<lparr>ir_vault_deks := fold (\<lambda>(i, d) ds. ds[i := d]) reps (ir_vault_deks r)\<rparr>
      in if items \<noteq> [] then advance granted else granted)"
    using assms(3) reps by (simp add: grant_member_to_vaults_def)
  then show ?thesis using that [OF reps] by (simp add: Let_def split: if_splits)
qed

lemma grant_member_wf:
  assumes "record_wf r" and "lm_app_id m \<in> member_apps (ir_members r)"
    and "grant_member_to_vaults c r m items = Inr r'"
  shows "record_wf r'"
proof -
  obtain reps where reps: "traverse (stage_replacement c r m) items = Inr reps"
    "ir_vault_deks r' = fold (\<lambda>(i, d) ds. ds[i := d]) reps (ir_vault_deks r)" "ir_members r' = ir_members r"
    using assms by (rule grant_member_Inr)
  show ?thesis
    using replaced_all_wf [OF assms(1) staged_list [OF assms(1,2) reps(1)]] reps(2,3) by (simp add: record_wf_def)
qed

subsection \<open>Legacy vaults\<close>

definition authorized_by :: "dek_reconciliation \<Rightarrow> identity_record \<Rightarrow> identity_member list" where
  "authorized_by rc r = filter (\<lambda>m. lm_auth_id m \<in> set (rc_authorized_auth_ids rc)) (ir_members r)"

lemma authorized_by_apps:
  assumes "record_wf r"
  shows "distinct (map lm_app_id (authorized_by rc r))" "member_apps (authorized_by rc r) \<subseteq> member_apps (ir_members r)"
  using record_wfD(1) [OF assms] by (auto simp: authorized_by_def distinct_map_filter)

lemma reconciled_members_Inr:
  "reconciled_members refusal r k rc = Inr ms \<longleftrightarrow>
     ms = authorized_by rc r \<and> ak_app_id k \<in> member_apps (authorized_by rc r)"
  by (auto simp: reconciled_members_def authorized_by_def Let_def member_apps_list_ex)

text \<open>The cases of a reconciliation that is accepted.\<close>

lemma reconcile_Inr:
  assumes "reconcile_legacy_vault_member c r k store rc = Inr r'"
  obtains i m keys epoch where
    "position (\<lambda>d. dk_store_id d = store) (ir_vault_deks r) = Some i" "bound_member c r k = Inr m"
    "next_epoch (dk_key_epoch (ir_vault_deks r ! i)) (rc_epoch_update rc) = Inr epoch"
    "opened_reconciliation c k rc = Inr keys" "ak_app_id k \<in> member_apps (authorized_by rc r)"
    "reconciliation_with c (ir_vault_deks r ! i) k (authorized_by rc r) keys epoch = Current \<and> r' = r
     \<or> (\<exists>w. wrap_vault_keys_for_members c keys (authorized_by rc r) store = Inr w
          \<and> ir_vault_deks r' = (ir_vault_deks r)[i := w\<lparr>dk_key_epoch := epoch\<rparr>] \<and> ir_members r' = ir_members r)"
proof -
  obtain m where m: "bound_member c r k = Inr m"
    and rest: "(case position (\<lambda>d. dk_store_id d = store) (ir_vault_deks r) of
        None \<Rightarrow> Inl legacy_not_owned
      | Some i \<Rightarrow>
      (case get_at (ir_vault_deks r) i of
        None \<Rightarrow> Inl legacy_not_owned
      | Some d \<Rightarrow>
        and_then (next_epoch (dk_key_epoch d) (rc_epoch_update rc)) (\<lambda>epoch.
        and_then (opened_reconciliation c k rc) (\<lambda>keys.
        and_then (reconciled_members ''reconciling app key is not authorized for this vault'' r k rc) (\<lambda>ms.
        if reconciliation_with c d k ms keys epoch = Current then Inr r
        else and_then (wrap_vault_keys_for_members c keys ms store) (\<lambda>wrapped.
          let rewrapped = wrapped\<lparr>dk_key_epoch := epoch\<rparr> in
          Inr (if d \<noteq> rewrapped then advance (r\<lparr>ir_vault_deks := (ir_vault_deks r)[i := rewrapped]\<rparr>) else r))))))) = Inr r'"
    using assms unfolding reconcile_legacy_vault_member_def settle_Inr by (rule and_then_InrE)
  from rest obtain i where i: "position (\<lambda>d. dk_store_id d = store) (ir_vault_deks r) = Some i"
    by (auto split: option.splits)
  let ?d = "ir_vault_deks r ! i"
  obtain epoch keys where parts: "next_epoch (dk_key_epoch ?d) (rc_epoch_update rc) = Inr epoch"
      "opened_reconciliation c k rc = Inr keys" "ak_app_id k \<in> member_apps (authorized_by rc r)"
    and outcome: "(if reconciliation_with c ?d k (authorized_by rc r) keys epoch = Current then Inr r
        else and_then (wrap_vault_keys_for_members c keys (authorized_by rc r) store) (\<lambda>wrapped.
          let rewrapped = wrapped\<lparr>dk_key_epoch := epoch\<rparr> in
          Inr (if ?d \<noteq> rewrapped then advance (r\<lparr>ir_vault_deks := (ir_vault_deks r)[i := rewrapped]\<rparr>) else r))) = Inr r'"
    using rest i by (auto simp: and_then_Inr_iff reconciled_members_Inr)
  show ?thesis
  proof (rule that [OF i m parts])
    show "reconciliation_with c ?d k (authorized_by rc r) keys epoch = Current \<and> r' = r
     \<or> (\<exists>w. wrap_vault_keys_for_members c keys (authorized_by rc r) store = Inr w
          \<and> ir_vault_deks r' = (ir_vault_deks r)[i := w\<lparr>dk_key_epoch := epoch\<rparr>] \<and> ir_members r' = ir_members r)"
    proof (cases "reconciliation_with c ?d k (authorized_by rc r) keys epoch = Current")
      case False
      then obtain w where w: "wrap_vault_keys_for_members c keys (authorized_by rc r) store = Inr w"
        "r' = (if ?d \<noteq> w\<lparr>dk_key_epoch := epoch\<rparr>
           then advance (r\<lparr>ir_vault_deks := (ir_vault_deks r)[i := w\<lparr>dk_key_epoch := epoch\<rparr>]\<rparr>) else r)"
        using outcome by (auto simp: and_then_Inr_iff Let_def)
      then have "ir_vault_deks r' = (ir_vault_deks r)[i := w\<lparr>dk_key_epoch := epoch\<rparr>]" "ir_members r' = ir_members r"
        by (auto split: if_splits) (metis list_update_id)
      then show ?thesis using w(1) by blast
    qed (use outcome in simp)
  qed
qed

lemma reconcile_wf:
  assumes "record_wf r" and "reconcile_legacy_vault_member c r k store rc = Inr r'"
  shows "record_wf r'"
proof -
  from assms(2) obtain i keys epoch where i: "position (\<lambda>d. dk_store_id d = store) (ir_vault_deks r) = Some i"
    and outcome: "r' = r \<or> (\<exists>w. wrap_vault_keys_for_members c keys (authorized_by rc r) store = Inr w
          \<and> ir_vault_deks r' = (ir_vault_deks r)[i := w\<lparr>dk_key_epoch := epoch\<rparr>] \<and> ir_members r' = ir_members r)"
    by (rule reconcile_Inr) blast
  from outcome show ?thesis
  proof (elim disjE exE conjE)
    fix w assume w: "wrap_vault_keys_for_members c keys (authorized_by rc r) store = Inr w"
      and r': "ir_vault_deks r' = (ir_vault_deks r)[i := w\<lparr>dk_key_epoch := epoch\<rparr>]" "ir_members r' = ir_members r"
    have "record_wf (r\<lparr>ir_vault_deks := (ir_vault_deks r)[i := w\<lparr>dk_key_epoch := epoch\<rparr>]\<rparr>)"
    proof (rule replaced_grant_wf [OF assms(1) position_SomeD(1) [OF i]])
      show "dk_store_id (w\<lparr>dk_key_epoch := epoch\<rparr>) = dk_store_id (ir_vault_deks r ! i)"
        using wrapped(1) [OF w] position_SomeD(2) [OF i] by simp
      show "grant_wf (member_apps (ir_members r)) (w\<lparr>dk_key_epoch := epoch\<rparr>)"
        using wrapped_grant_wf [OF w authorized_by_apps [OF assms(1)]] by simp
    qed
    then show "record_wf r'" using r' by (simp add: record_wf_def)
  qed (use assms(1) in simp)
qed

lemma record_import_Inr:
  assumes "record_import_legacy_vault c r k store rc = Inr r'"
  obtains m keys w where "bound_member c r k = Inr m" "opened_reconciliation c k rc = Inr keys"
    "ak_app_id k \<in> member_apps (authorized_by rc r)" "wrap_vault_keys_for_members c keys (authorized_by rc r) store = Inr w"
    "r' = advance (r\<lparr>ir_vault_deks := ir_vault_deks r @ [w\<lparr>dk_key_epoch := committed_epoch (rc_epoch_update rc)\<rparr>]\<rparr>)"
  using assms by (auto simp: record_import_legacy_vault_def and_then_Inr_iff reconciled_members_Inr)

lemma record_import_wf:
  assumes "record_wf r" and "\<not> owns_vault r store" and "record_import_legacy_vault c r k store rc = Inr r'"
  shows "record_wf r'"
proof -
  obtain keys w where w: "wrap_vault_keys_for_members c keys (authorized_by rc r) store = Inr w"
    and r': "r' = advance (r\<lparr>ir_vault_deks := ir_vault_deks r @ [w\<lparr>dk_key_epoch := committed_epoch (rc_epoch_update rc)\<rparr>]\<rparr>)"
    using assms(3) by (rule record_import_Inr)
  show ?thesis unfolding r' advance_wf
  proof (rule new_grant_wf [OF assms(1)])
    show "\<not> owns_vault r (dk_store_id (w\<lparr>dk_key_epoch := committed_epoch (rc_epoch_update rc)\<rparr>))"
      using assms(2) wrapped(1) [OF w] by simp
    show "grant_wf (member_apps (ir_members r)) (w\<lparr>dk_key_epoch := committed_epoch (rc_epoch_update rc)\<rparr>)"
      using wrapped_grant_wf [OF w authorized_by_apps [OF assms(1)]] by simp
  qed
qed

lemma synthesize_wf: "synthesize_from_legacy_vault generated label m store s e epoch = Inr r \<Longrightarrow> record_wf r"
  by (auto simp: synthesize_from_legacy_vault_def and_then_Inr_iff record_wf_def grant_wf_def)

end
