(* ===== verification/IdentityAccess.thy ===== *)
theory IdentityAccess
  imports LocalIdentityLaws
begin

text \<open>
  The access an identity record stands for: its members, and for each vault the members that hold
  its keys.  Every transition of the record is an operation on this matrix, and what the envelopes
  of a vault open to follows it.
\<close>

subsection \<open>The access matrix\<close>

record access =
  ac_members :: "app_id set"
  ac_grants :: "store_id \<Rightarrow> app_id set option"

definition recipients :: "vault_dek \<Rightarrow> app_id set" where
  "recipients d = me_app_id ` set (dk_secrets_envelopes d)"

definition access_of :: "identity_record \<Rightarrow> access" where
  "access_of r = \<lparr>ac_members = member_apps (ir_members r),
     ac_grants = (\<lambda>store. map_option recipients (record_vault_dek r store))\<rparr>"

datatype access_action =
  KeepAccess
| GenerateVault store_id
| AssignVault store_id "app_id set"
| GrantVaults app_id "store_id list"
| AddMember app_id
| RemoveMember app_id

fun access_step :: "access_action \<Rightarrow> access \<Rightarrow> access" where
  "access_step KeepAccess a = a"
| "access_step (GenerateVault store) a = a\<lparr>ac_grants := (ac_grants a)(store \<mapsto> ac_members a)\<rparr>"
| "access_step (AssignVault store apps) a = a\<lparr>ac_grants := (ac_grants a)(store \<mapsto> apps)\<rparr>"
| "access_step (GrantVaults app stores) a = a\<lparr>ac_grants := (\<lambda>store.
     if store \<in> set stores then map_option (insert app) (ac_grants a store) else ac_grants a store)\<rparr>"
| "access_step (AddMember app) a = a\<lparr>ac_members := insert app (ac_members a)\<rparr>"
| "access_step (RemoveMember app) a =
     \<lparr>ac_members = ac_members a - {app}, ac_grants = (\<lambda>store. map_option (\<lambda>apps. apps - {app}) (ac_grants a store))\<rparr>"

inductive record_step :: "key_crates \<Rightarrow> access_action \<Rightarrow> identity_record \<Rightarrow> identity_record \<Rightarrow> bool" for c where
  opened_or_made: "open_or_generate_vault_dek c generated r k store = Inr (r', keys) \<Longrightarrow>
    record_step c (if owns_vault r store then KeepAccess else GenerateVault store) r r'"
| granting: "lm_app_id m \<in> member_apps (ir_members r) \<Longrightarrow> grant_member_to_vaults c r m items = Inr r' \<Longrightarrow>
    record_step c (GrantVaults (lm_app_id m) (map fst items)) r r'"
| adding: "add_member r m = Inr r' \<Longrightarrow> record_step c (AddMember (lm_app_id m)) r r'"
| signing: "set_member_signing_public_key r app key = Inr r' \<Longrightarrow> record_step c KeepAccess r r'"
| removing: "remove_member r app = Inr r' \<Longrightarrow> record_step c (RemoveMember app) r r'"
| reconciling: "reconcile_legacy_vault_member c r k store rc = Inr r' \<Longrightarrow>
    record_step c (AssignVault store (member_apps (authorized_by rc r))) r r'"
| importing: "\<not> owns_vault r store \<Longrightarrow> record_import_legacy_vault c r k store rc = Inr r' \<Longrightarrow>
    record_step c (AssignVault store (member_apps (authorized_by rc r))) r r'"

lemma record_step_wf: "record_step c a r r' \<Longrightarrow> record_wf r \<Longrightarrow> record_wf r'"
  by (induction rule: record_step.induct)
    (auto intro: open_or_generate_wf grant_member_wf add_member_wf set_signing_wf remove_member_wf reconcile_wf record_import_wf)

interpretation rec_state: owned_state record_wf "\<lambda>r r'. \<exists>a. record_step c a r r'" for c
  by unfold_locales (auto intro: record_step_wf)

subsection \<open>Recipients after a transition\<close>

lemma access_eqI:
  assumes "member_apps (ir_members r') = ac_members a"
    and "\<And>store. map_option recipients (record_vault_dek r' store) = ac_grants a store"
  shows "access_of r' = a"
  using assms by (simp add: access_of_def)

lemma record_vault_dek_append:
  assumes "ir_vault_deks r' = ir_vault_deks r @ [d]" and "\<not> owns_vault r (dk_store_id d)"
  shows "record_vault_dek r' store = (if store = dk_store_id d then Some d else record_vault_dek r store)"
proof -
  have "find P (xs @ ys) = (case find P xs of Some x \<Rightarrow> Some x | None \<Rightarrow> find P ys)" for P and xs ys :: "vault_dek list"
    by (induction xs) auto
  moreover have "find (\<lambda>x. dk_store_id x = dk_store_id d) (ir_vault_deks r) = None"
    using assms(2) by (auto simp: owns_vault_def record_vault_dek_def find_dek_def)
  ultimately show ?thesis using assms(1)
    by (auto simp: record_vault_dek_def find_dek_def split: option.splits)
qed

lemma wrapped_recipients_set:
  "wrap_vault_keys_for_members c keys ms store = Inr d \<Longrightarrow> recipients d = member_apps ms"
  using wrapped_recipients(1) by (metis list.set_map recipients_def)

lemma recipients_epoch [simp]: "recipients (d\<lparr>dk_key_epoch := e\<rparr>) = recipients d"
  by (simp add: recipients_def)

lemma position_by_key: "position (\<lambda>x. f x = k) xs = position (\<lambda>y. y = k) (map f xs)"
  by (induction xs) auto

text \<open>Grants that change in place: the vaults are the same, the recipients those of the new list.\<close>

lemma record_vault_dek_nth:
  assumes "map dk_store_id (ir_vault_deks r') = map dk_store_id (ir_vault_deks r)"
  shows "record_vault_dek r' store =
    map_option (nth (ir_vault_deks r')) (position (\<lambda>d. dk_store_id d = store) (ir_vault_deks r))"
  using assms by (simp add: record_vault_dek_def find_dek_def find_position position_by_key [of dk_store_id])

lemma record_vault_dek_update:
  assumes "position (\<lambda>d. dk_store_id d = store) (ir_vault_deks r) = Some i"
    and "ir_vault_deks r' = (ir_vault_deks r)[i := d]" and "dk_store_id d = store"
  shows "record_vault_dek r' other = (if other = store then Some d else record_vault_dek r other)"
proof -
  note i = position_SomeD [OF assms(1)]
  have "map dk_store_id (ir_vault_deks r') = map dk_store_id (ir_vault_deks r)"
    using assms(2,3) i by (simp add: map_list_update_same)
  note lookup = record_vault_dek_nth [OF this, of other] record_vault_dek_nth [of r r other, OF refl]
  show ?thesis
  proof (cases "other = store")
    case True
    then show ?thesis using lookup(1) assms(1,2) i by simp
  next
    case False
    have "j \<noteq> i" if "position (\<lambda>d. dk_store_id d = other) (ir_vault_deks r) = Some j" for j
      using position_SomeD(2) [OF that] i(2) False by auto
    then show ?thesis using lookup assms(2) False
      by (cases "position (\<lambda>d. dk_store_id d = other) (ir_vault_deks r)") auto
  qed
qed

text \<open>A grant that is current covers exactly the members it is compared with.\<close>

lemma covering_recipients:
  assumes "covers_members ms es" and "length es = length ms" and "distinct (map lm_app_id ms)"
  shows "me_app_id ` set es = member_apps ms"
proof -
  have sub: "member_apps ms \<subseteq> me_app_id ` set es"
  proof
    fix app assume "app \<in> member_apps ms"
    then obtain m where "m \<in> set ms" "app = lm_app_id m" by blast
    then have "length (filter (\<lambda>e. me_app_id e = app) es) = 1" using assms(1) by (simp add: covers_members_def list_all_iff)
    then have "filter (\<lambda>e. me_app_id e = app) es \<noteq> []" by auto
    then show "app \<in> me_app_id ` set es" by (auto simp: filter_empty_conv)
  qed
  have "card (me_app_id ` set es) \<le> length es" by (metis card_length length_map list.set_map)
  also have "\<dots> = card (member_apps ms)" using assms(2,3) by (metis distinct_card length_map list.set_map)
  finally show ?thesis using sub by (metis List.finite_set card_subset_eq finite_imageI card_mono le_antisym)
qed

lemma current_recipients:
  assumes "reconciliation_with c d k ms keys epoch = Current" and "distinct (map lm_app_id ms)"
  shows "recipients d = member_apps ms" "dk_key_epoch d = epoch"
    "\<exists>s e. app_envelopes d (ak_app_id k) = Granted s e \<and> opens_to c k s (vk_secrets_key keys) \<and> opens_to c k e (vk_members_key keys)"
  using assms(1) covering_recipients [OF _ _ assms(2), of "dk_secrets_envelopes d"]
  by (auto simp: reconciliation_with_def recipients_def split: if_splits granted_envelopes.splits)

lemma retained_grants:
  assumes "ir_vault_deks r' = map (retain_envelopes keep) (ir_vault_deks r)"
  shows "record_vault_dek r' store = map_option (retain_envelopes keep) (record_vault_dek r store)"
proof -
  have "find (\<lambda>d. dk_store_id d = store) (map (retain_envelopes keep) ds)
      = map_option (retain_envelopes keep) (find (\<lambda>d. dk_store_id d = store) ds)" for ds
    by (induction ds) (auto simp: retain_envelopes_def)
  then show ?thesis using assms by (simp add: record_vault_dek_def find_dek_def)
qed

lemma retained_recipients: "recipients (retain_envelopes keep d) = {a \<in> recipients d. keep a}"
  by (auto simp: recipients_def retain_envelopes_def)

text \<open>The staged grants, written one after the other.\<close>

lemma granted_recipients:
  assumes "\<forall>(i, d)\<in>set reps. recipients d = insert app (recipients (ds0 ! i)) \<and> i < length ds0"
    and "length ds = length ds0" and "j < length ds0"
    and "recipients (ds ! j) = recipients (ds0 ! j) \<or> recipients (ds ! j) = insert app (recipients (ds0 ! j))"
  shows "recipients (fold (\<lambda>(i, d) ds. ds[i := d]) reps ds ! j) =
    (if j \<in> fst ` set reps then insert app (recipients (ds0 ! j)) else recipients (ds ! j))"
  using assms
proof (induction reps arbitrary: ds)
  case (Cons p reps)
  have p: "recipients (snd p) = insert app (recipients (ds0 ! fst p))" "fst p < length ds0"
    using Cons.prems(1) by auto
  have "recipients (fold (\<lambda>(i, d) ds. ds[i := d]) reps (ds[fst p := snd p]) ! j) =
    (if j \<in> fst ` set reps then insert app (recipients (ds0 ! j)) else recipients (ds[fst p := snd p] ! j))"
    using Cons.prems p by (intro Cons.IH) (auto simp: nth_list_update)
  then show ?case using p Cons.prems(2,3) by (cases p) (auto simp: nth_list_update)
qed simp

lemma fold_update_keys:
  assumes "\<forall>(i, d)\<in>set reps. i < length ds \<and> f d = f (ds ! i)"
  shows "map f (fold (\<lambda>(i, d) ds. ds[i := d]) reps ds) = map f ds"
  using assms
proof (induction reps arbitrary: ds)
  case (Cons p reps)
  have p: "fst p < length ds" "f (snd p) = f (ds ! fst p)" using Cons.prems by auto
  then have same: "map f (ds[fst p := snd p]) = map f ds" by (simp add: map_list_update_same)
  then have "f (ds[fst p := snd p] ! j) = f (ds ! j)" if "j < length ds" for j
    using that by (metis length_list_update nth_map)
  then have "map f (fold (\<lambda>(i, d) ds. ds[i := d]) reps (ds[fst p := snd p])) = map f (ds[fst p := snd p])"
    using Cons.prems by (intro Cons.IH) auto
  then show ?case using same by (cases p) simp
qed simp

lemma granting_access:
  assumes "record_wf r" and "lm_app_id m \<in> member_apps (ir_members r)" and "grant_member_to_vaults c r m items = Inr r'"
  shows "access_of r' = access_step (GrantVaults (lm_app_id m) (map fst items)) (access_of r)"
proof -
  obtain reps where reps: "traverse (stage_replacement c r m) items = Inr reps"
    and r': "ir_vault_deks r' = fold (\<lambda>(i, d) ds. ds[i := d]) reps (ir_vault_deks r)" "ir_members r' = ir_members r"
    using assms by (rule grant_member_Inr)
  have stage: "fst p < length (ir_vault_deks r) \<and> dk_store_id (ir_vault_deks r ! fst p) = fst item
      \<and> dk_store_id (snd p) = fst item \<and> recipients (snd p) = insert (lm_app_id m) (recipients (ir_vault_deks r ! fst p))"
    if "stage_replacement c r m item = Inr p" for item p
    using staged_replacement [OF assms(1,2), of c "fst item" "snd item" "fst p" "snd p"] that by (simp add: recipients_def)
  have all: "list_all2 (\<lambda>item p. stage_replacement c r m item = Inr p) items reps" using reps by (simp add: traverse_Inr_iff)
  have staged: "\<forall>(i, d)\<in>set reps. i < length (ir_vault_deks r) \<and> dk_store_id d = dk_store_id (ir_vault_deks r ! i)
      \<and> recipients d = insert (lm_app_id m) (recipients (ir_vault_deks r ! i))"
    using all by (induction rule: list_all2_induct) (use stage in fastforce)+
  have stores: "map (\<lambda>p. dk_store_id (ir_vault_deks r ! fst p)) reps = map fst items"
    using all by (induction rule: list_all2_induct) (use stage in auto)
  have keys: "map dk_store_id (ir_vault_deks r') = map dk_store_id (ir_vault_deks r)"
    unfolding r' using staged by (intro fold_update_keys) auto
  have at: "recipients (ir_vault_deks r' ! j) = (if j \<in> fst ` set reps
      then insert (lm_app_id m) (recipients (ir_vault_deks r ! j)) else recipients (ir_vault_deks r ! j))"
    if "j < length (ir_vault_deks r)" for j
    unfolding r' using staged that by (intro granted_recipients) auto
  have named: "j \<in> fst ` set reps \<longleftrightarrow> dk_store_id (ir_vault_deks r ! j) \<in> set (map fst items)"
    if "j < length (ir_vault_deks r)" for j
  proof
    assume "j \<in> fst ` set reps"
    then show "dk_store_id (ir_vault_deks r ! j) \<in> set (map fst items)" unfolding stores [symmetric] by auto
  next
    assume "dk_store_id (ir_vault_deks r ! j) \<in> set (map fst items)"
    then obtain p where p: "p \<in> set reps" "dk_store_id (ir_vault_deks r ! fst p) = dk_store_id (ir_vault_deks r ! j)"
      unfolding stores [symmetric] by auto
    moreover have "fst p < length (ir_vault_deks r)" using staged p(1) by auto
    ultimately have "fst p = j" using record_wfD(2) [OF assms(1)] that by (auto simp: distinct_conv_nth)
    then show "j \<in> fst ` set reps" using p(1) by auto
  qed
  show ?thesis
  proof (rule access_eqI)
    show "map_option recipients (record_vault_dek r' store) =
        ac_grants (access_step (GrantVaults (lm_app_id m) (map fst items)) (access_of r)) store" for store
    proof (cases "position (\<lambda>d. dk_store_id d = store) (ir_vault_deks r)")
      case None
      then show ?thesis
        by (simp add: record_vault_dek_nth [OF keys] record_vault_dek_nth [of r r] access_of_def)
    next
      case (Some j)
      note j = position_SomeD [OF Some]
      have "j \<in> fst ` set reps \<longleftrightarrow> store \<in> fst ` set items" using named [OF j(1)] j(2) by simp
      then show ?thesis using Some at [OF j(1)]
        by (simp add: record_vault_dek_nth [OF keys] record_vault_dek_nth [of r r] access_of_def)
    qed
  qed (simp add: r' access_of_def)
qed

lemma generating_access:
  assumes "generate_vault_dek c generated r store = Inr (r', keys)"
  shows "access_of r' = access_step (GenerateVault store) (access_of r)"
proof -
  obtain d where d: "\<not> owns_vault r store" "wrap_vault_keys_for_members c keys (ir_members r) store = Inr d"
    and r': "r' = (advance r)\<lparr>ir_vault_deks := ir_vault_deks r @ [d]\<rparr>"
    using assms by (auto simp: generate_vault_dek_Inr)
  have d': "dk_store_id d = store" "recipients d = member_apps (ir_members r)"
    using wrapped(1) [OF d(2)] wrapped_recipients_set [OF d(2)] by simp_all
  show ?thesis
    using d(1) d' record_vault_dek_append [of r' r d] by (intro access_eqI) (simp_all add: r' access_of_def)
qed

lemma importing_access:
  assumes "\<not> owns_vault r store" and "record_import_legacy_vault c r k store rc = Inr r'"
  shows "access_of r' = access_step (AssignVault store (member_apps (authorized_by rc r))) (access_of r)"
proof -
  obtain keys w where w: "wrap_vault_keys_for_members c keys (authorized_by rc r) store = Inr w"
    and r': "r' = advance (r\<lparr>ir_vault_deks := ir_vault_deks r @ [w\<lparr>dk_key_epoch := committed_epoch (rc_epoch_update rc)\<rparr>]\<rparr>)"
    using assms(2) by (rule record_import_Inr)
  show ?thesis
    using assms(1) wrapped(1) [OF w] wrapped_recipients_set [OF w]
      record_vault_dek_append [of r' r "w\<lparr>dk_key_epoch := committed_epoch (rc_epoch_update rc)\<rparr>"]
    by (intro access_eqI) (simp_all add: r' access_of_def)
qed

lemma reconciling_access:
  assumes "record_wf r" and "reconcile_legacy_vault_member c r k store rc = Inr r'"
  shows "access_of r' = access_step (AssignVault store (member_apps (authorized_by rc r))) (access_of r)"
proof -
  from assms(2) obtain i keys epoch where i: "position (\<lambda>d. dk_store_id d = store) (ir_vault_deks r) = Some i"
    and outcome: "reconciliation_with c (ir_vault_deks r ! i) k (authorized_by rc r) keys epoch = Current \<and> r' = r
     \<or> (\<exists>w. wrap_vault_keys_for_members c keys (authorized_by rc r) store = Inr w
          \<and> ir_vault_deks r' = (ir_vault_deks r)[i := w\<lparr>dk_key_epoch := epoch\<rparr>] \<and> ir_members r' = ir_members r)"
    by (rule reconcile_Inr)
  from outcome show ?thesis
  proof (elim disjE exE conjE)
    assume cur: "reconciliation_with c (ir_vault_deks r ! i) k (authorized_by rc r) keys epoch = Current" and r': "r' = r"
    have "recipients (ir_vault_deks r ! i) = member_apps (authorized_by rc r)"
      using current_recipients(1) [OF cur authorized_by_apps(1) [OF assms(1)]] .
    moreover have "record_vault_dek r store = Some (ir_vault_deks r ! i)" using i by (simp add: record_vault_dek_nth)
    ultimately show ?thesis by (intro access_eqI) (auto simp: r' access_of_def)
  next
    fix w assume w: "wrap_vault_keys_for_members c keys (authorized_by rc r) store = Inr w"
      and r': "ir_vault_deks r' = (ir_vault_deks r)[i := w\<lparr>dk_key_epoch := epoch\<rparr>]" "ir_members r' = ir_members r"
    have "record_vault_dek r' other = (if other = store then Some (w\<lparr>dk_key_epoch := epoch\<rparr>) else record_vault_dek r other)" for other
      using record_vault_dek_update [OF i r'(1)] wrapped(1) [OF w] by simp
    then show ?thesis using wrapped_recipients_set [OF w] r'(2) by (intro access_eqI) (simp_all add: access_of_def)
  qed
qed

lemma removing_access:
  assumes "record_wf r" and "remove_member r app = Inr r'"
  shows "access_of r' = access_step (RemoveMember app) (access_of r)"
proof -
  obtain i where i: "position (\<lambda>m. lm_app_id m = app) (ir_members r) = Some i"
    and r': "r' = advance (r\<lparr>ir_vault_deks := map (retain_envelopes (\<lambda>a. a \<noteq> app)) (ir_vault_deks r),
               ir_members := remove_at i (ir_members r)\<rparr>)"
    using assms(2) unfolding remove_member_Inr by blast
  have "{a \<in> A. a \<noteq> app} = A - {app}" for A by auto
  then show ?thesis
    using removed_member_apps [OF record_wfD(1) [OF assms(1)] i] retained_grants [of r' "\<lambda>a. a \<noteq> app" r]
    by (intro access_eqI) (simp_all add: r' access_of_def option.map_comp comp_def retained_recipients)
qed

lemma access_of_advance [simp]: "access_of (advance r) = access_of r"
  by (simp add: access_of_def record_vault_dek_def)

lemma access_of_members: "member_apps ms = member_apps (ir_members r) \<Longrightarrow> access_of (r\<lparr>ir_members := ms\<rparr>) = access_of r"
  by (simp add: access_of_def record_vault_dek_def)

lemma signing_access:
  assumes "set_member_signing_public_key r app key = Inr r'"
  shows "access_of r' = access_of r"
proof -
  let ?ms = "update_first (\<lambda>m. lm_app_id m = app) (\<lambda>m. m\<lparr>lm_signing_public_key := key\<rparr>) (ir_members r)"
  have "map lm_app_id ?ms = map lm_app_id (ir_members r)" by (simp add: map_update_first)
  then have apps: "member_apps ?ms = member_apps (ir_members r)" by (metis list.set_map)
  have "r' = r \<or> r' = advance (r\<lparr>ir_members := ?ms\<rparr>)"
    using assms by (auto simp: set_member_signing_public_key_def split: option.splits if_splits)
  then show ?thesis using access_of_members [OF apps] by (elim disjE) (simp_all only: access_of_advance)
qed

lemma record_step_access:
  "record_step c a r r' \<Longrightarrow> record_wf r \<Longrightarrow> access_of r' = access_step a (access_of r)"
proof (induction rule: record_step.induct)
  case (opened_or_made generated r k store r' keys)
  have owned: "owns_vault r store" if "existing_vault_keys c r k store = Inr (Opened keys)"
    using that by (auto simp: existing_vault_keys_def owns_vault_def and_then_Inr_iff split: option.splits)
  from opened_or_made(1) show ?case
  proof (cases rule: open_or_generate_cases)
    case opened
    then show ?thesis using owned by simp
  next
    case generated
    moreover have "\<not> owns_vault r store" using generated(2) by (simp add: generate_vault_dek_Inr)
    ultimately show ?thesis using generating_access [OF generated(2)] by simp
  qed
next
  case (adding r m r')
  then show ?case by (auto simp: add_member_Inr access_of_def record_vault_dek_def)
qed (simp_all add: granting_access reconciling_access importing_access removing_access signing_access del: access_step.simps(2-6))

text \<open>C22: Every transition of a well-formed record is the operation on the access matrix it stands
  for, and leaves a well-formed record.\<close>

theorem record_transitions_refine_access:
  assumes "record_wf r" and "record_step c a r r'"
  shows "record_wf r' \<and> access_of r' = access_step a (access_of r)"
  using record_step_wf [OF assms(2,1)] record_step_access [OF assms(2,1)] by blast

text \<open>Whatever transitions follow the creation of a record, each vault and each member is listed
  once, and only members of the identity are recipients of a vault.\<close>

theorem reached_recipients_are_members:
  assumes "create_with_app_key c generated label k member_label = Inr r0"
    and "(\<lambda>r r'. \<exists>a. record_step c a r r')\<^sup>*\<^sup>* r0 r"
  shows "record_wf r \<and> (\<forall>store d. record_vault_dek r store = Some d \<longrightarrow> recipients d \<subseteq> ac_members (access_of r))"
proof -
  have wf: "record_wf r" using rec_state.reached [OF assms(2) create_wf [OF assms(1)]] .
  moreover have "recipients d \<subseteq> ac_members (access_of r)" if "record_vault_dek r store = Some d" for store d
    using record_wfD(3) [OF wf] record_vault_dek_Some [OF that] by (simp add: access_of_def recipients_def grant_wf_def)
  ultimately show ?thesis by blast
qed

subsection \<open>What the envelopes open to\<close>

lemma existing_vault_keys_eq:
  assumes "bound_member c r' k = bound_member c r k"
    and "map_option (\<lambda>d. app_envelopes d (ak_app_id k)) (record_vault_dek r' store)
       = map_option (\<lambda>d. app_envelopes d (ak_app_id k)) (record_vault_dek r store)"
  shows "existing_vault_keys c r' k store = existing_vault_keys c r k store"
  using assms by (cases "record_vault_dek r store"; cases "record_vault_dek r' store")
    (simp_all add: existing_vault_keys_def)

lemma open_granted:
  assumes "bound_member c r k = Inr m" and "record_vault_dek r store = Some d"
    and "app_envelopes d (ak_app_id k) = Granted s e"
    and "decrypt_envelope c k (me_envelope s) = Inr (vk_secrets_key keys)"
    and "decrypt_envelope c k (me_envelope e) = Inr (vk_members_key keys)"
  shows "existing_vault_keys c r k store = Inr (Opened keys)" "open_vault_dek c r k store = Inr keys"
  using assms by (simp_all add: existing_vault_keys_def open_vault_dek_def)

lemma open_vault_dek_Inr:
  "open_vault_dek c r k store = Inr keys \<longleftrightarrow> existing_vault_keys c r k store = Inr (Opened keys)"
proof (cases "existing_vault_keys c r k store")
  case (Inr committed)
  then show ?thesis by (cases committed) (simp_all add: open_vault_dek_def)
qed (simp add: open_vault_dek_def)

lemma not_recipient:
  assumes "record_wf r" and "record_vault_dek r store = Some d" and "app \<notin> recipients d"
  shows "app_envelopes d app = NotGranted"
proof -
  have "envelope_of app (dk_secrets_envelopes d) = None"
    using assms(3) by (simp add: envelope_of_def find_None_iff_key recipients_def)
  then show ?thesis by (simp add: app_envelopes_def)
qed

lemma bound_member_same: "ir_members r' = ir_members r \<Longrightarrow> bound_member c r' k = bound_member c r k"
  by (simp add: bound_member_def)

lemma existing_same_grant:
  assumes "ir_members r' = ir_members r" and "record_vault_dek r' store = record_vault_dek r store"
  shows "existing_vault_keys c r' k store = existing_vault_keys c r k store"
  using assms(2) by (intro existing_vault_keys_eq bound_member_same assms(1)) simp

text \<open>A grant wrapped for members of the record opens for each of them.\<close>

lemma wrapped_grant_opens:
  assumes "age_laws c" and "symmetric_keys keys" and "distinct (map lm_app_id ms)"
    and "wrap_vault_keys_for_members c keys ms store = Inr w"
    and "record_vault_dek r store = Some (w\<lparr>dk_key_epoch := epoch\<rparr>)"
    and "bound_member c r k = Inr m" and "m \<in> set ms"
  shows "open_vault_dek c r k store = Inr keys"
proof -
  obtain s e where "app_envelopes w (ak_app_id k) = Granted s e"
    "decrypt_envelope c k (me_envelope s) = Inr (vk_secrets_key keys)"
    "decrypt_envelope c k (me_envelope e) = Inr (vk_members_key keys)"
    using wrapped_opens [OF assms(1,4,2,3,7) bound_member_mem(2) [OF assms(6)]] by blast
  moreover have "app_envelopes (w\<lparr>dk_key_epoch := epoch\<rparr>) = app_envelopes w" by (simp add: app_envelopes_def fun_eq_iff)
  ultimately show ?thesis using open_granted(2) [OF assms(6,5)] by simp
qed

lemma generated_keys_open:
  assumes "age_laws c" and "record_wf r" and "symmetric_keys keys"
    and "generate_vault_dek c generated r store = Inr (r', keys)" and "bound_member c r k = Inr m"
  shows "open_vault_dek c r' k store = Inr keys
    \<and> (\<forall>other. other \<noteq> store \<longrightarrow> existing_vault_keys c r' k other = existing_vault_keys c r k other)"
proof -
  obtain d where d: "\<not> owns_vault r store" "wrap_vault_keys_for_members c keys (ir_members r) store = Inr d"
    and r': "r' = (advance r)\<lparr>ir_vault_deks := ir_vault_deks r @ [d]\<rparr>"
    using assms(4) by (auto simp: generate_vault_dek_Inr)
  have lookup: "record_vault_dek r' other = (if other = store then Some d else record_vault_dek r other)" for other
    using record_vault_dek_append [of r' r d] d(1) wrapped(1) [OF d(2)] r' by simp
  have bound: "bound_member c r' k = Inr m" using assms(5) by (simp add: r' bound_member_def)
  have "d\<lparr>dk_key_epoch := LegacyUnknown\<rparr> = d" using wrapped(2) [OF d(2)] by simp
  then have "record_vault_dek r' store = Some (d\<lparr>dk_key_epoch := LegacyUnknown\<rparr>)" using lookup [of store] by simp
  then have "open_vault_dek c r' k store = Inr keys"
    using wrapped_grant_opens [OF assms(1,3) record_wfD(1) [OF assms(2)] d(2) _ bound bound_member_mem(1) [OF assms(5)]] by simp
  moreover have "existing_vault_keys c r' k other = existing_vault_keys c r k other" if "other \<noteq> store" for other
    using that lookup [of other] by (intro existing_same_grant) (simp_all add: r')
  ultimately show ?thesis by simp
qed

text \<open>The keys generated for a vault open for every member of the identity, and nothing changes
  for the other vaults.\<close>

theorem generated_keys_open_for_members:
  assumes "age_laws c" and "record_wf r" and "symmetric_keys keys"
    and "generate_vault_dek c generated r store = Inr (r', keys)" and "bound_member c r k = Inr m"
  shows "open_vault_dek c r' k store = Inr keys
    \<and> (\<forall>other. other \<noteq> store \<longrightarrow> existing_vault_keys c r' k other = existing_vault_keys c r k other)"
  using assms by (rule generated_keys_open)

text \<open>A reconciled vault opens for the reconciling key to the keys of the reconciliation, its
  grant has the next epoch and the authorized members as recipients, and a member that is not
  authorized has to enroll again.\<close>

theorem reconciled_vault_is_the_authorized_members:
  assumes "age_laws c" and "record_wf r" and "reconcile_legacy_vault_member c r k store rc = Inr r'"
  shows "\<exists>keys d d'. opened_reconciliation c k rc = Inr keys \<and> open_vault_dek c r' k store = Inr keys
    \<and> record_vault_dek r store = Some d \<and> record_vault_dek r' store = Some d'
    \<and> next_epoch (dk_key_epoch d) (rc_epoch_update rc) = Inr (dk_key_epoch d')
    \<and> recipients d' = member_apps (authorized_by rc r)
    \<and> (\<forall>k'. bound_member c r k' = bound_member c r' k')
    \<and> (\<forall>k' m. bound_member c r k' = Inr m \<and> m \<notin> set (authorized_by rc r)
         \<longrightarrow> open_vault_dek c r' k' store = Inl IdentityEnrollmentRequired)"
proof -
  from assms(3) obtain i m keys epoch where i: "position (\<lambda>d. dk_store_id d = store) (ir_vault_deks r) = Some i"
    and m: "bound_member c r k = Inr m"
    and epoch: "next_epoch (dk_key_epoch (ir_vault_deks r ! i)) (rc_epoch_update rc) = Inr epoch"
    and keys: "opened_reconciliation c k rc = Inr keys" and own: "ak_app_id k \<in> member_apps (authorized_by rc r)"
    and outcome: "reconciliation_with c (ir_vault_deks r ! i) k (authorized_by rc r) keys epoch = Current \<and> r' = r
     \<or> (\<exists>w. wrap_vault_keys_for_members c keys (authorized_by rc r) store = Inr w
          \<and> ir_vault_deks r' = (ir_vault_deks r)[i := w\<lparr>dk_key_epoch := epoch\<rparr>] \<and> ir_members r' = ir_members r)"
    by (rule reconcile_Inr)
  let ?d = "ir_vault_deks r ! i"
  note dist = authorized_by_apps(1) [OF assms(2), of rc]
  have d: "record_vault_dek r store = Some ?d" using i by (simp add: record_vault_dek_nth)
  have sym: "symmetric_keys keys"
    using keys by (auto simp: opened_reconciliation_def and_then_Inr_iff symmetric_keys_def dest: decrypted_key_parses)
  have members: "ir_members r' = ir_members r" using outcome by auto
  have m_auth: "m \<in> set (authorized_by rc r)"
  proof -
    obtain m' where m': "m' \<in> set (authorized_by rc r)" "lm_app_id m' = ak_app_id k" using own by auto
    then have "m' \<in> set (ir_members r)" by (simp add: authorized_by_def)
    then have "find_member (ak_app_id k) (ir_members r) = Some m'"
      using find_member_unique [OF record_wfD(1) [OF assms(2)]] m'(2) by metis
    then show ?thesis using m m'(1) by (simp add: bound_member_Inr)
  qed
  have "\<exists>d'. record_vault_dek r' store = Some d' \<and> dk_key_epoch d' = epoch
      \<and> recipients d' = member_apps (authorized_by rc r) \<and> open_vault_dek c r' k store = Inr keys"
    using outcome
  proof (elim disjE exE conjE)
    assume cur: "reconciliation_with c ?d k (authorized_by rc r) keys epoch = Current" and r': "r' = r"
    obtain s e where "app_envelopes ?d (ak_app_id k) = Granted s e" "opens_to c k s (vk_secrets_key keys)"
      "opens_to c k e (vk_members_key keys)" using current_recipients(3) [OF cur dist] by blast
    then have "open_vault_dek c r k store = Inr keys" using open_granted(2) [OF m d] by (simp add: opens_to_def)
    then show ?thesis using d current_recipients(1,2) [OF cur dist] r' by simp
  next
    fix w assume w: "wrap_vault_keys_for_members c keys (authorized_by rc r) store = Inr w"
      and r': "ir_vault_deks r' = (ir_vault_deks r)[i := w\<lparr>dk_key_epoch := epoch\<rparr>]"
    have d': "record_vault_dek r' store = Some (w\<lparr>dk_key_epoch := epoch\<rparr>)"
      using record_vault_dek_update [OF i r'] wrapped(1) [OF w] by simp
    have "open_vault_dek c r' k store = Inr keys"
      using wrapped_grant_opens [OF assms(1) sym dist w d' _ m_auth] m bound_member_same [OF members] by simp
    then show ?thesis using d' wrapped_recipients_set [OF w] by simp
  qed
  then obtain d' where d': "record_vault_dek r' store = Some d'" "dk_key_epoch d' = epoch"
    "recipients d' = member_apps (authorized_by rc r)" "open_vault_dek c r' k store = Inr keys" by blast
  have "open_vault_dek c r' k' store = Inl IdentityEnrollmentRequired"
    if k': "bound_member c r k' = Inr m'" "m' \<notin> set (authorized_by rc r)" for k' m'
  proof -
    note mem = bound_member_mem [OF k'(1)] bound_toD(1) [OF bound_member_mem(2) [OF k'(1)]]
    have "ak_app_id k' \<notin> member_apps (authorized_by rc r)"
    proof
      assume "ak_app_id k' \<in> member_apps (authorized_by rc r)"
      then obtain m'' where m'': "m'' \<in> set (authorized_by rc r)" "lm_app_id m'' = lm_app_id m'" using mem(4) by auto
      then have "m'' \<in> set (ir_members r)" by (simp add: authorized_by_def)
      then have "m'' = m'" using find_member_unique [OF record_wfD(1) [OF assms(2)]] mem(1) m''(2)
        by (metis option.inject)
      then show False using m''(1) k'(2) by simp
    qed
    then have "app_envelopes d' (ak_app_id k') = NotGranted"
      using not_recipient [OF reconcile_wf [OF assms(2,3)] d'(1)] d'(3) by simp
    then show ?thesis using d'(1) k'(1) bound_member_same [OF members, of c k']
      by (simp add: open_vault_dek_def existing_vault_keys_def)
  qed
  then show ?thesis using keys d d' epoch bound_member_same [OF members] by auto
qed

lemma envelope_of_retained:
  "envelope_of app (filter (\<lambda>e. keep (me_app_id e)) es) = (if keep app then envelope_of app es else None)"
  unfolding envelope_of_def by (induction es) auto

lemma app_envelopes_retained:
  "app_envelopes (retain_envelopes keep d) app = (if keep app then app_envelopes d app else NotGranted)"
  by (simp add: app_envelopes_def retain_envelopes_def envelope_of_retained)

text \<open>C34: A removed member opens no vault of the identity any more; every other member opens what it
  opened before.\<close>

theorem removed_member_is_locked_out:
  assumes "record_wf r" and "remove_member r app = Inr r'"
  shows "(ak_app_id k = app \<longrightarrow> open_vault_dek c r' k store = Inl IdentityEnrollmentRequired)
    \<and> (ak_app_id k \<noteq> app \<longrightarrow> existing_vault_keys c r' k store = existing_vault_keys c r k store)"
proof -
  obtain i where i: "position (\<lambda>m. lm_app_id m = app) (ir_members r) = Some i"
    and r': "r' = advance (r\<lparr>ir_vault_deks := map (retain_envelopes (\<lambda>a. a \<noteq> app)) (ir_vault_deks r),
               ir_members := remove_at i (ir_members r)\<rparr>)"
    using assms(2) unfolding remove_member_Inr by blast
  note apps = removed_member_apps [OF record_wfD(1) [OF assms(1)] i]
  have lookup: "find_member a (ir_members r') = (if a = app then None else find_member a (ir_members r))" for a
  proof (cases "find_member a (ir_members r)")
    case None
    then have "a \<notin> member_apps (ir_members r)" by (simp add: find_member_None)
    then have "find_member a (ir_members r') = None" by (simp add: find_member_None r' apps)
    then show ?thesis using None by simp
  next
    case (Some m)
    then have m: "m \<in> set (ir_members r)" "lm_app_id m = a" using find_member_Some by blast+
    show ?thesis
    proof (cases "a = app")
      case False
      then have "a \<in> member_apps (ir_members r')" using apps m by (auto simp: r')
      then obtain m' where m': "m' \<in> set (ir_members r')" "lm_app_id m' = a" by auto
      then have "m' \<in> set (ir_members r)" using set_remove_at_subset [of i "ir_members r"] unfolding r' by auto
      then have "m' = m" using find_member_unique [OF record_wfD(1) [OF assms(1)]] m m'(2) by (metis option.inject)
      then show ?thesis
        using find_member_unique [OF record_wfD(1) [OF remove_member_wf [OF assms]] m'(1)] m'(2) Some False by simp
    qed (simp add: find_member_None r' apps)
  qed
  have grants: "record_vault_dek r' store = map_option (retain_envelopes (\<lambda>a. a \<noteq> app)) (record_vault_dek r store)"
    by (rule retained_grants) (simp add: r')
  show ?thesis
  proof (intro conjI impI)
    assume "ak_app_id k = app"
    then show "open_vault_dek c r' k store = Inl IdentityEnrollmentRequired"
      by (simp add: open_vault_dek_def existing_vault_keys_def bound_member_def lookup)
  next
    assume "ak_app_id k \<noteq> app"
    then show "existing_vault_keys c r' k store = existing_vault_keys c r k store"
      by (intro existing_vault_keys_eq) (simp_all add: bound_member_def lookup grants option.map_comp comp_def app_envelopes_retained)
  qed
qed

text \<open>A grant that is rejected leaves the record as it was, whichever of its vaults failed.\<close>

theorem rejected_grant_changes_nothing:
  assumes "record_wf r" and "lm_app_id m \<in> member_apps (ir_members r)"
    and "grant_member_to_vaults c r m items = Inl rejected"
  shows "rr_identity rejected = r \<and> (\<exists>item\<in>set items. stage_replacement c r m item = Inl (rr_cause rejected))"
proof (cases "traverse (stage_replacement c r m) items")
  case (Inl e)
  have "traverse f xs = Inl e \<Longrightarrow> \<exists>x\<in>set xs. f x = Inl e" for f :: "store_id \<times> vault_keys \<Rightarrow> (nat \<times> vault_dek) multi_device" and xs
    by (induction xs) (auto simp: and_then_Inl_iff)
  from this [OF Inl] show ?thesis using assms(3) Inl by (auto simp: grant_member_to_vaults_def)
next
  case (Inr reps)
  have "apply_replacements (ir_vault_deks r) reps = (fold (\<lambda>(i, d) ds. ds[i := d]) reps (ir_vault_deks r), None)"
    using staged_list [OF assms(1,2) Inr] by (intro apply_replacements_all) auto
  then show ?thesis using assms(3) Inr by (simp add: grant_member_to_vaults_def)
qed

text \<open>The last grant staged for a vault is the one that is written.\<close>

lemma fold_update_nth:
  assumes "j \<in> fst ` set reps" and "\<forall>(i, d)\<in>set reps. i < length ds"
  shows "\<exists>d. (j, d) \<in> set reps \<and> fold (\<lambda>(i, d) ds. ds[i := d]) reps ds ! j = d"
  using assms
proof (induction reps arbitrary: ds rule: rev_induct)
  case (snoc p reps)
  have len: "length (fold (\<lambda>(i, d) ds. ds[i := d]) reps ds) = length ds" for ds :: "'a list"
    by (induction reps arbitrary: ds) auto
  show ?case
  proof (cases "fst p = j")
    case True
    then show ?thesis using snoc.prems(2) len by (intro exI [of _ "snd p"]) (cases p, auto)
  next
    case False
    then have "j \<in> fst ` set reps" using snoc.prems(1) by auto
    then obtain d where "(j, d) \<in> set reps" "fold (\<lambda>(i, d) ds. ds[i := d]) reps ds ! j = d"
      using snoc.IH snoc.prems(2) by (metis (no_types, lifting) Un_iff case_prodD case_prodI2 set_append)
    then show ?thesis using False by (intro exI [of _ d]) (cases p, auto)
  qed
qed simp

lemma member_by_app:
  assumes "record_wf r" and "m \<in> set (ir_members r)" and "ms \<subseteq> set (ir_members r)" and "lm_app_id m \<in> lm_app_id ` ms"
  shows "m \<in> ms"
proof -
  obtain m' where "m' \<in> ms" "lm_app_id m' = lm_app_id m" using assms(4) by auto
  moreover have "inj_on lm_app_id (set (ir_members r))" using record_wfD(1) [OF assms(1)] by (simp add: distinct_map)
  ultimately show ?thesis using assms(2,3) by (metis inj_onD subsetD)
qed

lemma list_all2_partner:
  "list_all2 P xs ys \<Longrightarrow> x \<in> set xs \<Longrightarrow> \<exists>y\<in>set ys. P x y"
  "list_all2 P xs ys \<Longrightarrow> y \<in> set ys \<Longrightarrow> \<exists>x\<in>set xs. P x y"
  by (induction rule: list_all2_induct) auto

lemma granted_vault:
  assumes "record_wf r" and "m \<in> set (ir_members r)" and "grant_member_to_vaults c r m items = Inr r'"
    and "distinct (map fst items)" and "(store, keys) \<in> set items"
  obtains d ms w where "record_vault_dek r store = Some d" "set ms \<subseteq> set (ir_members r)" "distinct (map lm_app_id ms)"
    "member_apps ms = insert (lm_app_id m) (recipients d)" "wrap_vault_keys_for_members c keys ms store = Inr w"
    "record_vault_dek r' store = Some (w\<lparr>dk_key_epoch := dk_key_epoch d\<rparr>)"
proof -
  have app: "lm_app_id m \<in> member_apps (ir_members r)" using assms(2) by simp
  obtain reps where reps: "traverse (stage_replacement c r m) items = Inr reps"
    and r': "ir_vault_deks r' = fold (\<lambda>(i, d) ds. ds[i := d]) reps (ir_vault_deks r)" "ir_members r' = ir_members r"
    using assms(1) app assms(3) by (rule grant_member_Inr)
  have all: "list_all2 (\<lambda>item p. stage_replacement c r m item = Inr p) items reps" using reps by (simp add: traverse_Inr_iff)
  obtain i d' where stage: "stage_replacement c r m (store, keys) = Inr (i, d')" "(i, d') \<in> set reps"
    using list_all2_partner(1) [OF all assms(5)] by auto
  note sr = staged_replacement [OF assms(1) app stage(1)]
  have "\<exists>d. (i, d) \<in> set reps \<and> ir_vault_deks r' ! i = d"
    unfolding r' using stage(2) staged_list [OF assms(1) app reps] by (intro fold_update_nth) force+
  then obtain d'' where d'': "(i, d'') \<in> set reps" "ir_vault_deks r' ! i = d''" by blast
  obtain item where item: "item \<in> set items" "stage_replacement c r m item = Inr (i, d'')"
    using list_all2_partner(2) [OF all d''(1)] by auto
  have "fst item = store"
    using staged_replacement(2) [OF assms(1) app, of c "fst item" "snd item" i d''] item(2) sr(2) by simp
  then have "item = (store, keys)"
    using assms(4,5) item(1) by (metis distinct_map fst_conv inj_onD)
  then have new: "ir_vault_deks r' ! i = d'" using item(2) stage(1) d''(2) by simp
  obtain ms w where pos: "position (\<lambda>d. dk_store_id d = store) (ir_vault_deks r) = Some i"
    and ms: "authorized_members r (ir_vault_deks r ! i) = Inr ms"
    and w: "wrap_vault_keys_for_members c keys (with_grantee m ms) store = Inr w"
    and d': "d' = w\<lparr>dk_key_epoch := dk_key_epoch (ir_vault_deks r ! i)\<rparr>"
    using stage(1) by (rule stage_replacement_Inr)
  have d: "record_vault_dek r store = Some (ir_vault_deks r ! i)" using pos by (simp add: record_vault_dek_nth)
  have "map dk_store_id (ir_vault_deks r') = map dk_store_id (ir_vault_deks r)"
    unfolding r' using staged_list [OF assms(1) app reps] by (intro fold_update_keys) auto
  then have lookup: "record_vault_dek r' store = Some d'" using pos new by (simp add: record_vault_dek_nth)
  have dist: "distinct (map lm_app_id ms)"
    using record_wfD(3) [OF assms(1)] position_SomeD(3) [OF pos] authorized_members_Inr(1) [OF ms] by (simp add: grant_wf_def)
  have "member_apps ms = recipients (ir_vault_deks r ! i)"
    using authorized_members_Inr(1) [OF ms] by (metis list.set_map recipients_def)
  then have apps: "member_apps (with_grantee m ms) = insert (lm_app_id m) (recipients (ir_vault_deks r ! i))"
    using with_grantee_apps(2) [OF dist] by simp
  have "set (with_grantee m ms) \<subseteq> set (ir_members r)"
    using authorized_members_Inr(2) [OF ms] assms(2) by (auto simp: with_grantee_def)
  then show ?thesis using that [OF d _ with_grantee_apps(1) [OF dist] apps w] lookup d' by simp
qed

text \<open>C33: After a grant the new member and every earlier recipient of a listed vault open it to the keys
  the grant was made with.\<close>

theorem granted_vault_opens_for_recipients:
  assumes "age_laws c" and "record_wf r" and "m \<in> set (ir_members r)" and "distinct (map fst items)"
    and "(store, keys) \<in> set items" and "symmetric_keys keys" and "grant_member_to_vaults c r m items = Inr r'"
    and "bound_member c r k = Inr m'" and "m' = m \<or> (\<exists>d. record_vault_dek r store = Some d \<and> ak_app_id k \<in> recipients d)"
  shows "open_vault_dek c r' k store = Inr keys"
proof -
  obtain d ms w where d: "record_vault_dek r store = Some d" and ms: "set ms \<subseteq> set (ir_members r)" "distinct (map lm_app_id ms)"
      "member_apps ms = insert (lm_app_id m) (recipients d)" and w: "wrap_vault_keys_for_members c keys ms store = Inr w"
      and r': "record_vault_dek r' store = Some (w\<lparr>dk_key_epoch := dk_key_epoch d\<rparr>)"
    using granted_vault [OF assms(2,3,7,4,5)] by blast
  note m' = bound_member_mem [OF assms(8)] bound_toD(1) [OF bound_member_mem(2) [OF assms(8)]]
  have "lm_app_id m' \<in> member_apps ms" using assms(9) d ms(3) m'(4) by auto
  then have "m' \<in> set ms" using member_by_app [OF assms(2) m'(1) ms(1)] by simp
  moreover have "ir_members r' = ir_members r"
    using assms(2) imageI [OF assms(3), of lm_app_id] assms(7) by (rule grant_member_Inr)
  then have "bound_member c r' k = Inr m'" using bound_member_same assms(8) by metis
  ultimately show ?thesis using wrapped_grant_opens [OF assms(1,6) ms(2) w r'] by blast
qed

text \<open>Opening a vault that is opened or generated once gives the same keys and the same record
  on every retry, whatever a later generator would draw.\<close>

theorem retried_opening_is_stable:
  assumes "age_laws c" and "record_wf r" and "symmetric_keys drawn"
    and "open_or_generate_vault_dek c (Inr drawn) r k store = Inr (r', keys)"
  shows "open_or_generate_vault_dek c generated r' k store = Inr (r', keys)"
  using assms(4)
proof (cases rule: open_or_generate_cases)
  case opened
  then show ?thesis using assms(4) by (simp add: open_or_generate_vault_dek_def)
next
  case generated
  have keys: "keys = drawn" using generated(2) by (auto simp: generate_vault_dek_Inr)
  obtain m where "bound_member c r k = Inr m" using generated(1) by (auto simp: existing_vault_keys_def and_then_Inr_iff)
  then have "open_vault_dek c r' k store = Inr keys"
    using generated_keys_open [OF assms(1,2) _ generated(2)] assms(3) keys by blast
  then have "existing_vault_keys c r' k store = Inr (Opened keys)"
    by (simp add: open_vault_dek_Inr)
  then show ?thesis by (simp add: open_or_generate_vault_dek_def)
qed

subsection \<open>Epochs of a grant\<close>

text \<open>
  The events before an event are its strict ancestors.  An update is causal when the ancestors it
  carries are ancestors of the checkpoint it brings.
\<close>

fun causal_update :: "(identity_vault_event_id \<Rightarrow> identity_vault_event_id set) \<Rightarrow> dek_epoch_update \<Rightarrow> bool" where
  "causal_update before (ObserveEpoch LegacyUnknown _) \<longleftrightarrow> True"
| "causal_update before (ObserveEpoch (KnownEpoch _ checkpoint) ancestors) \<longleftrightarrow> set ancestors \<subseteq> before checkpoint"
| "causal_update before (RotateEpoch _ ancestors _ checkpoint) \<longleftrightarrow> set ancestors \<subseteq> before checkpoint"

fun not_behind :: "(identity_vault_event_id \<Rightarrow> identity_vault_event_id set) \<Rightarrow> dek_epoch \<Rightarrow> dek_epoch \<Rightarrow> bool" where
  "not_behind before LegacyUnknown _ \<longleftrightarrow> True"
| "not_behind before (KnownEpoch _ _) LegacyUnknown \<longleftrightarrow> False"
| "not_behind before (KnownEpoch _ old) (KnownEpoch _ new) \<longleftrightarrow> new = old \<or> old \<in> before new"

text \<open>The epoch a causal update is accepted with is the one it commits, is never behind the epoch
  of the grant, and the same update is accepted again without a change.\<close>

theorem accepted_epoch_moves_forward:
  assumes "causal_update before update" and "next_epoch current update = Inr epoch"
  shows "epoch = committed_epoch update \<and> not_behind before current epoch \<and> next_epoch epoch update = Inr epoch"
  using assms
proof (induction current update rule: next_epoch.induct)
  case (1 e ancestors)
  then show ?case by (cases e) auto
qed (auto split: if_splits)

text \<open>Once a grant has moved to a later checkpoint, an observation of an earlier one is refused as
  stale, with both epochs in the error.\<close>

theorem stale_observation_is_refused:
  assumes "\<And>x. x \<notin> before x" and "\<And>x y z. x \<in> before y \<Longrightarrow> y \<in> before z \<Longrightarrow> x \<in> before z"
    and "old \<in> before new" and "set ancestors \<subseteq> before old"
  shows "next_epoch (KnownEpoch epoch new) (ObserveEpoch (KnownEpoch old_epoch old) ancestors)
    = Inl (StaleVaultDekEpoch (epoch_label (KnownEpoch old_epoch old)) (epoch_label (KnownEpoch epoch new)))"
proof -
  have "new \<noteq> old" using assms(1,3) by blast
  moreover have "new \<notin> set ancestors" using assms by blast
  ultimately show ?thesis by (simp add: stale_epoch_def)
qed

end
