(* ===== verification/IdentityDirectory.thy ===== *)
theory IdentityDirectory
  imports LocalIdentity
begin

text \<open>
  The identities of one installation (nook-auth2/src/auth/identity_directory.rs with its transition,
  recovery, replication and invitation modules): the directory and its validation, the transitions
  that hand one record to a record transition and put it back at its place, the mirror of the
  replicated identity log, and the retirement of app keys.

  A rejected transition gives the directory back, as the code does.  The hash sets of the code are
  sets, walked only in the order of the lists they are built from.
\<close>

subsection \<open>The directory\<close>

datatype identity_selection = SelectionEmpty | Selected identity_id

record identity_directory =
  dr_identities :: "identity_record list"
  dr_selection :: identity_selection
  dr_retired_app_ids :: "app_id list"

record directory_rejection =
  dj_directory :: identity_directory
  dj_cause :: multi_device_error

type_synonym 'a directory_transition = "(directory_rejection, 'a) result"

definition settle_directory :: "identity_directory \<Rightarrow> 'a multi_device \<Rightarrow> 'a directory_transition" where
  "settle_directory d outcome =
     (case outcome of Inl cause \<Rightarrow> Inl \<lparr>dj_directory = d, dj_cause = cause\<rparr> | Inr a \<Rightarrow> Inr a)"

definition empty_directory :: identity_directory where
  "empty_directory = \<lparr>dr_identities = [], dr_selection = SelectionEmpty, dr_retired_app_ids = []\<rparr>"

text \<open>\<open>HashSet::insert\<close> over a list: the first element already there is the error.\<close>

definition insert_fresh :: "('a \<Rightarrow> multi_device_error) \<Rightarrow> 'a set \<Rightarrow> 'a \<Rightarrow> 'a set multi_device" where
  "insert_fresh dup seen x = (if x \<in> seen then Inl (dup x) else Inr (insert x seen))"

record validation_sets =
  vs_ids :: "identity_id set"
  vs_app_ids :: "app_id set"
  vs_vaults :: "store_id set"

definition validate_record :: "app_id set \<Rightarrow> validation_sets \<Rightarrow> identity_record \<Rightarrow> validation_sets multi_device" where
  "validate_record retired seen r =
     and_then (insert_fresh (\<lambda>i. DuplicateIdentity (identity_id_str i)) (vs_ids seen) (ir_identity_id r)) (\<lambda>ids.
       if list_ex (\<lambda>m. lm_app_id m \<in> retired) (ir_members r) then Inl RetiredAppKey
       else
         and_then (fold_result (insert_fresh (\<lambda>a. DuplicateAppKeyOwnership (app_id_str a))) (vs_app_ids seen)
           (map lm_app_id (ir_members r))) (\<lambda>apps.
         and_then (fold_result (insert_fresh (\<lambda>s. DuplicateVaultOwnership (store_id_str s))) (vs_vaults seen)
           (map dk_store_id (ir_vault_deks r))) (\<lambda>vaults.
         Inr \<lparr>vs_ids = ids, vs_app_ids = apps, vs_vaults = vaults\<rparr>)))"

definition validate_directory :: "identity_directory \<Rightarrow> unit multi_device" where
  "validate_directory d =
     (let retired = set (dr_retired_app_ids d) in
      if card retired \<noteq> length (dr_retired_app_ids d)
      then Inl (InvalidDeviceIdentity ''identity directory contains duplicate retired app ids'')
      else
        and_then (fold_result (validate_record retired) \<lparr>vs_ids = {}, vs_app_ids = {}, vs_vaults = {}\<rparr> (dr_identities d)) (\<lambda>seen.
          case dr_selection d of
            SelectionEmpty \<Rightarrow> Inr ()
          | Selected i \<Rightarrow> if dr_identities d \<noteq> [] \<and> i \<in> vs_ids seen then Inr () else Inl InvalidIdentitySelection))"

definition from_records :: "identity_record list \<Rightarrow> identity_selection \<Rightarrow> identity_directory multi_device" where
  "from_records rs selection =
     (let d = \<lparr>dr_identities = rs, dr_selection = selection, dr_retired_app_ids = []\<rparr>
      in and_then (validate_directory d) (\<lambda>_. Inr d))"

definition ensure_app_key_active :: "identity_directory \<Rightarrow> app_key \<Rightarrow> unit multi_device" where
  "ensure_app_key_active d k = (if ak_app_id k \<in> set (dr_retired_app_ids d) then Inl RetiredAppKey else Inr ())"

definition find_identity :: "identity_id \<Rightarrow> identity_record list \<Rightarrow> identity_record option" where
  "find_identity i rs = find (\<lambda>r. ir_identity_id r = i) rs"

definition identity_not_found :: "identity_id \<Rightarrow> multi_device_error" where
  "identity_not_found i = IdentityNotFound (identity_id_str i)"

definition selected :: "identity_directory \<Rightarrow> identity_record multi_device" where
  "selected d =
     (case dr_selection d of
        SelectionEmpty \<Rightarrow> Inl InvalidIdentitySelection
      | Selected i \<Rightarrow>
          (case find_identity i (dr_identities d) of None \<Rightarrow> Inl InvalidIdentitySelection | Some r \<Rightarrow> Inr r))"

definition vault_owner :: "store_id \<Rightarrow> identity_record list \<Rightarrow> identity_record option" where
  "vault_owner store rs = find (\<lambda>r. owns_vault r store) rs"

subsection \<open>Handing out one record\<close>

record detached_record =
  dt_directory :: identity_directory
  dt_index :: nat
  dt_record :: identity_record

definition take_identity :: "identity_directory \<Rightarrow> identity_id \<Rightarrow> detached_record directory_transition" where
  "take_identity d i =
     (case position (\<lambda>r. ir_identity_id r = i) (dr_identities d) of
        None \<Rightarrow> Inl \<lparr>dj_directory = d, dj_cause = identity_not_found i\<rparr>
      | Some n \<Rightarrow> Inr \<lparr>dt_directory = d\<lparr>dr_identities := remove_at n (dr_identities d)\<rparr>, dt_index = n,
                      dt_record = dr_identities d ! n\<rparr>)"

definition put_back :: "detached_record \<Rightarrow> identity_record \<Rightarrow> identity_directory" where
  "put_back t r = (dt_directory t)\<lparr>dr_identities := insert_at (dt_index t) r (dr_identities (dt_directory t))\<rparr>"

definition update_detached ::
    "detached_record \<Rightarrow> (identity_record \<Rightarrow> identity_record record_transition) \<Rightarrow> identity_directory directory_transition" where
  "update_detached t operation =
     (case operation (dt_record t) of
        Inr r \<Rightarrow> Inr (put_back t r)
      | Inl rejected \<Rightarrow> Inl \<lparr>dj_directory = put_back t (rr_identity rejected), dj_cause = rr_cause rejected\<rparr>)"

definition open_keys_detached ::
    "detached_record \<Rightarrow> (identity_record \<Rightarrow> (identity_record \<times> vault_keys) record_transition)
      \<Rightarrow> (identity_directory \<times> vault_keys) directory_transition" where
  "open_keys_detached t operation =
     (case operation (dt_record t) of
        Inr (r, keys) \<Rightarrow> Inr (put_back t r, keys)
      | Inl rejected \<Rightarrow> Inl \<lparr>dj_directory = put_back t (rr_identity rejected), dj_cause = rr_cause rejected\<rparr>)"

definition select_resolved :: "identity_directory \<times> identity_id \<Rightarrow> identity_directory \<times> identity_id" where
  "select_resolved p = ((fst p)\<lparr>dr_selection := Selected (snd p)\<rparr>, snd p)"

subsection \<open>Creating and selecting identities\<close>

definition create_identity ::
    "key_crates \<Rightarrow> identity_id multi_device \<Rightarrow> identity_directory \<Rightarrow> string \<Rightarrow> app_key \<Rightarrow> member_label
      \<Rightarrow> (identity_directory \<times> identity_id) directory_transition" where
  "create_identity c generated d raw_label k member_label = settle_directory d
     (and_then (ensure_app_key_active d k) (\<lambda>_.
      let label = trim raw_label in
      if label = [] then Inl IdentityLabelEmpty
      else and_then (create_with_app_key c generated label k member_label) (\<lambda>r.
        Inr (d\<lparr>dr_identities := dr_identities d @ [r], dr_selection := Selected (ir_identity_id r)\<rparr>,
             ir_identity_id r))))"

definition select_identity :: "identity_directory \<Rightarrow> identity_id \<Rightarrow> identity_directory directory_transition" where
  "select_identity d i = settle_directory d
     (if \<not> list_ex (\<lambda>r. ir_identity_id r = i) (dr_identities d) then Inl (identity_not_found i)
      else Inr (d\<lparr>dr_selection := Selected i\<rparr>))"

datatype app_key_membership = Enrolled identity_id | Unenrolled

definition matching_identity ::
    "key_crates \<Rightarrow> app_key \<Rightarrow> identity_id list \<Rightarrow> identity_record \<Rightarrow> identity_id list multi_device" where
  "matching_identity c k found r =
     (case find_member (ak_app_id k) (ir_members r) of
        None \<Rightarrow> Inr found
      | Some m \<Rightarrow>
          if lm_auth_id m \<noteq> app_auth_id c k \<or> lm_public_key m \<noteq> app_public_key c k then Inl different_key_material
          else Inr (found @ [ir_identity_id r]))"

definition identity_for_app_key :: "key_crates \<Rightarrow> identity_directory \<Rightarrow> app_key \<Rightarrow> app_key_membership multi_device" where
  "identity_for_app_key c d k =
     and_then (ensure_app_key_active d k) (\<lambda>_.
     and_then (fold_result (matching_identity c k) [] (dr_identities d)) (\<lambda>found.
       if length found > 1 then Inl (InvalidDeviceIdentity ''app key belongs to multiple local identities'')
       else Inr (case found of [] \<Rightarrow> Unenrolled | _ \<Rightarrow> Enrolled (last found))))"

definition validate_vault_enrollment :: "key_crates \<Rightarrow> identity_directory \<Rightarrow> app_key \<Rightarrow> store_id \<Rightarrow> unit multi_device" where
  "validate_vault_enrollment c d k store =
     and_then (ensure_app_key_active d k) (\<lambda>_.
       case vault_owner store (dr_identities d) of
         None \<Rightarrow> Inr ()
       | Some owner \<Rightarrow>
           (case find_member (ak_app_id k) (ir_members owner) of
              None \<Rightarrow> Inl IdentityEnrollmentRequired
            | Some m \<Rightarrow>
                if lm_auth_id m \<noteq> app_auth_id c k \<or> lm_public_key m \<noteq> app_public_key c k then Inl different_key_material
                else Inr ()))"

definition directory_set_signing_key ::
    "identity_directory \<Rightarrow> identity_id \<Rightarrow> app_id \<Rightarrow> device_signing_public_key \<Rightarrow> identity_directory directory_transition" where
  "directory_set_signing_key d i app key =
     and_then (take_identity d i) (\<lambda>t. update_detached t (\<lambda>r. set_member_signing_public_key r app key))"

definition add_selected_member :: "identity_directory \<Rightarrow> identity_member \<Rightarrow> identity_directory directory_transition" where
  "add_selected_member d m =
     (case selected d of
        Inl cause \<Rightarrow> Inl \<lparr>dj_directory = d, dj_cause = cause\<rparr>
      | Inr r \<Rightarrow> and_then (take_identity d (ir_identity_id r)) (\<lambda>t. update_detached t (\<lambda>r. add_member r m)))"

definition replace_selected :: "identity_directory \<Rightarrow> identity_record \<Rightarrow> identity_directory directory_transition" where
  "replace_selected d r = settle_directory d
     (if dr_selection d \<noteq> Selected (ir_identity_id r) then Inl InvalidIdentitySelection
      else if list_ex (\<lambda>m. lm_app_id m \<in> set (dr_retired_app_ids d)) (ir_members r) then Inl RetiredAppKey
      else case position (\<lambda>identity. ir_identity_id identity = ir_identity_id r) (dr_identities d) of
        None \<Rightarrow> Inl InvalidIdentitySelection
      | Some n \<Rightarrow> Inr (d\<lparr>dr_identities := (dr_identities d)[n := r]\<rparr>))"

subsection \<open>Vaults of the directory\<close>

record legacy_import =
  li_label :: string
  li_app_key :: app_key
  li_store_id :: store_id
  li_reconciliation :: dek_reconciliation

datatype import_destination = VaultOwner identity_id | AppKeyOwner identity_id | NewIdentity

definition legacy_import_destination :: "key_crates \<Rightarrow> identity_directory \<Rightarrow> legacy_import \<Rightarrow> import_destination multi_device" where
  "legacy_import_destination c d q =
     and_then (ensure_app_key_active d (li_app_key q)) (\<lambda>_.
       case vault_owner (li_store_id q) (dr_identities d) of
         Some r \<Rightarrow> Inr (VaultOwner (ir_identity_id r))
       | None \<Rightarrow>
           and_then (identity_for_app_key c d (li_app_key q)) (\<lambda>membership.
             case membership of Enrolled i \<Rightarrow> Inr (AppKeyOwner i) | Unenrolled \<Rightarrow> Inr NewIdentity))"

definition import_new_legacy_identity ::
    "key_crates \<Rightarrow> identity_id multi_device \<Rightarrow> identity_directory \<Rightarrow> legacy_import
      \<Rightarrow> (identity_directory \<times> identity_id) directory_transition" where
  "import_new_legacy_identity c generated d q = settle_directory d
     (let rc = li_reconciliation q in
      and_then (synthesize_from_legacy_vault generated (li_label q) (app_key_member c (li_app_key q) UnnamedMember)
          (li_store_id q) (rc_secrets_envelope rc) (rc_members_envelope rc) (committed_epoch (rc_epoch_update rc))) (\<lambda>r.
        Inr (select_resolved (d\<lparr>dr_identities := dr_identities d @ [r]\<rparr>, ir_identity_id r))))"

definition import_legacy_vault ::
    "key_crates \<Rightarrow> identity_id multi_device \<Rightarrow> identity_directory \<Rightarrow> legacy_import
      \<Rightarrow> (identity_directory \<times> identity_id) directory_transition" where
  "import_legacy_vault c generated d q =
     (case legacy_import_destination c d q of
        Inl cause \<Rightarrow> Inl \<lparr>dj_directory = d, dj_cause = cause\<rparr>
      | Inr (VaultOwner i) \<Rightarrow>
          and_then (take_identity d i) (\<lambda>t.
          and_then (update_detached t (\<lambda>r.
              reconcile_legacy_vault_member c r (li_app_key q) (li_store_id q) (li_reconciliation q))) (\<lambda>d'.
            Inr (select_resolved (d', i))))
      | Inr (AppKeyOwner i) \<Rightarrow>
          and_then (take_identity d i) (\<lambda>t.
          and_then (update_detached t (\<lambda>r.
              record_import_legacy_vault c r (li_app_key q) (li_store_id q) (li_reconciliation q))) (\<lambda>d'.
            Inr (select_resolved (d', i))))
      | Inr NewIdentity \<Rightarrow> import_new_legacy_identity c generated d q)"

definition reconciliation_owner :: "identity_directory \<Rightarrow> app_key \<Rightarrow> store_id \<Rightarrow> identity_id multi_device" where
  "reconciliation_owner d k store =
     and_then (ensure_app_key_active d k) (\<lambda>_.
       case vault_owner store (dr_identities d) of
         None \<Rightarrow> Inl (IdentityNotFound (''vault:'' @ store_id_str store))
       | Some r \<Rightarrow> Inr (ir_identity_id r))"

definition reconcile_vault_dek ::
    "key_crates \<Rightarrow> identity_directory \<Rightarrow> app_key \<Rightarrow> store_id \<Rightarrow> dek_reconciliation
      \<Rightarrow> (identity_directory \<times> identity_id) directory_transition" where
  "reconcile_vault_dek c d k store rc =
     (case reconciliation_owner d k store of
        Inl cause \<Rightarrow> Inl \<lparr>dj_directory = d, dj_cause = cause\<rparr>
      | Inr i \<Rightarrow>
          and_then (take_identity d i) (\<lambda>t.
          and_then (update_detached t (\<lambda>r. reconcile_legacy_vault_member c r k store rc)) (\<lambda>d'. Inr (d', i))))"

definition opening_owner :: "identity_directory \<Rightarrow> app_key \<Rightarrow> store_id \<Rightarrow> identity_record multi_device" where
  "opening_owner d k store =
     and_then (ensure_app_key_active d k) (\<lambda>_.
       case vault_owner store (dr_identities d) of Some r \<Rightarrow> Inr r | None \<Rightarrow> selected d)"

definition directory_open_vault_dek :: "key_crates \<Rightarrow> identity_directory \<Rightarrow> app_key \<Rightarrow> store_id \<Rightarrow> vault_keys multi_device" where
  "directory_open_vault_dek c d k store = and_then (opening_owner d k store) (\<lambda>r. open_vault_dek c r k store)"

definition vault_opening_identity :: "identity_directory \<Rightarrow> app_key \<Rightarrow> store_id \<Rightarrow> identity_id multi_device" where
  "vault_opening_identity d k store = and_then (opening_owner d k store) (\<lambda>r. Inr (ir_identity_id r))"

definition directory_open_or_generate ::
    "key_crates \<Rightarrow> vault_keys multi_device \<Rightarrow> identity_directory \<Rightarrow> app_key \<Rightarrow> store_id
      \<Rightarrow> (identity_directory \<times> vault_keys) directory_transition" where
  "directory_open_or_generate c generated d k store =
     (case vault_opening_identity d k store of
        Inl cause \<Rightarrow> Inl \<lparr>dj_directory = d, dj_cause = cause\<rparr>
      | Inr i \<Rightarrow>
          and_then (take_identity d i) (\<lambda>t.
            open_keys_detached t (\<lambda>r. open_or_generate_vault_dek c generated r k store)))"

definition admit_owned_vault_opening :: "identity_directory \<Rightarrow> identity_id \<Rightarrow> app_key \<Rightarrow> store_id \<Rightarrow> unit multi_device" where
  "admit_owned_vault_opening d i k store =
     and_then (ensure_app_key_active d k) (\<lambda>_.
       if list_ex (\<lambda>r. owns_vault r store \<and> ir_identity_id r \<noteq> i) (dr_identities d)
       then Inl (DuplicateVaultOwnership (store_id_str store)) else Inr ())"

definition open_vault_dek_for_identity ::
    "key_crates \<Rightarrow> identity_directory \<Rightarrow> identity_id \<Rightarrow> app_key \<Rightarrow> store_id \<Rightarrow> vault_keys multi_device" where
  "open_vault_dek_for_identity c d i k store =
     and_then (admit_owned_vault_opening d i k store) (\<lambda>_.
       case find_identity i (dr_identities d) of
         None \<Rightarrow> Inl (identity_not_found i)
       | Some r \<Rightarrow> open_vault_dek c r k store)"

definition open_or_generate_for_identity ::
    "key_crates \<Rightarrow> vault_keys multi_device \<Rightarrow> identity_directory \<Rightarrow> identity_id \<Rightarrow> app_key \<Rightarrow> store_id
      \<Rightarrow> (identity_directory \<times> vault_keys) directory_transition" where
  "open_or_generate_for_identity c generated d i k store =
     (case admit_owned_vault_opening d i k store of
        Inl cause \<Rightarrow> Inl \<lparr>dj_directory = d, dj_cause = cause\<rparr>
      | Inr _ \<Rightarrow>
          and_then (take_identity d i) (\<lambda>t.
            open_keys_detached t (\<lambda>r. open_or_generate_vault_dek c generated r k store)))"

end
