(* ===== verification/DirectoryReplication.thy ===== *)
theory DirectoryReplication
  imports IdentityDirectory
begin

text \<open>
  The mirror of the replicated identity log in the local directory
  (nook-auth2/src/auth/identity_directory/replication.rs), the retirement of app keys (recovery.rs),
  and the choice of the key that joins an invited identity (invitation.rs).

  The record transition of replication changes the record in place and may stop half way; both its
  callers work on a copy that they drop then, so an error stands for the copy as well.
\<close>

subsection \<open>Replicated membership of one record\<close>

record replicated_grant =
  rg_store_id :: store_id
  rg_secrets_envelope :: string
  rg_members_envelope :: string

record replicated_membership =
  rm_identity_id :: identity_id
  rm_app_key :: app_key
  rm_members :: "identity_member list"
  rm_revoked :: "app_id list"
  rm_own_grants :: "replicated_grant list"
  rm_removed_vaults :: "store_id list"

text \<open>A pass of a loop over a state that also says whether anything has changed.\<close>

definition mirror_member ::
    "identity_member list \<times> bool \<Rightarrow> identity_member \<Rightarrow> (identity_member list \<times> bool) multi_device" where
  "mirror_member s replicated =
     (case find_member (lm_app_id replicated) (fst s) of
        None \<Rightarrow> Inr (fst s @ [replicated], True)
      | Some local \<Rightarrow>
          if binding_to_member local replicated = DifferentKeyMaterial
          then Inl (InvalidDeviceIdentity ''replicated member has different key material'')
          else if lm_signing_public_key local \<noteq> lm_signing_public_key replicated \<or> lm_label local \<noteq> lm_label replicated
          then Inr (update_first (\<lambda>m. lm_app_id m = lm_app_id replicated)
                 (\<lambda>m. m\<lparr>lm_signing_public_key := lm_signing_public_key replicated, lm_label := lm_label replicated\<rparr>) (fst s), True)
          else Inr s)"

definition drop_revoked_envelopes :: "app_id list \<Rightarrow> vault_dek \<Rightarrow> vault_dek" where
  "drop_revoked_envelopes revoked d = retain_envelopes (\<lambda>a. a \<notin> set revoked) d"

definition lost_envelopes :: "vault_dek \<Rightarrow> vault_dek \<Rightarrow> bool" where
  "lost_envelopes old new \<longleftrightarrow> length (dk_secrets_envelopes new) \<noteq> length (dk_secrets_envelopes old)
     \<or> length (dk_members_envelopes new) \<noteq> length (dk_members_envelopes old)"

definition holds_envelopes :: "app_id \<Rightarrow> vault_dek \<Rightarrow> bool" where
  "holds_envelopes own d \<longleftrightarrow> list_ex (\<lambda>e. me_app_id e = own) (dk_secrets_envelopes d)
     \<and> list_ex (\<lambda>e. me_app_id e = own) (dk_members_envelopes d)"

definition refill_grant :: "app_id \<Rightarrow> replicated_grant \<Rightarrow> vault_dek \<Rightarrow> vault_dek" where
  "refill_grant own g d =
     d\<lparr>dk_secrets_envelopes := filter (\<lambda>e. me_app_id e \<noteq> own) (dk_secrets_envelopes d)
          @ [\<lparr>me_app_id = own, me_envelope = rg_secrets_envelope g\<rparr>],
       dk_members_envelopes := filter (\<lambda>e. me_app_id e \<noteq> own) (dk_members_envelopes d)
          @ [\<lparr>me_app_id = own, me_envelope = rg_members_envelope g\<rparr>]\<rparr>"

definition mirror_grant ::
    "key_crates \<Rightarrow> replicated_membership \<Rightarrow> vault_dek list \<times> bool \<Rightarrow> replicated_grant \<Rightarrow> (vault_dek list \<times> bool) multi_device" where
  "mirror_grant c q s g =
     (if rg_store_id g \<in> set (rm_removed_vaults q) then Inr s
      else
        and_then (decrypt_envelope c (rm_app_key q) (rg_secrets_envelope g)) (\<lambda>_.
        and_then (decrypt_envelope c (rm_app_key q) (rg_members_envelope g)) (\<lambda>_.
        let own = ak_app_id (rm_app_key q) in
        case find_dek (rg_store_id g) (fst s) of
          Some d \<Rightarrow>
            Inr (if holds_envelopes own d then s
                 else (update_first (\<lambda>d. dk_store_id d = rg_store_id g) (refill_grant own g) (fst s), True))
        | None \<Rightarrow>
            Inr (fst s @ [\<lparr>dk_store_id = rg_store_id g, dk_key_epoch = LegacyUnknown,
                   dk_secrets_envelopes = [\<lparr>me_app_id = own, me_envelope = rg_secrets_envelope g\<rparr>],
                   dk_members_envelopes = [\<lparr>me_app_id = own, me_envelope = rg_members_envelope g\<rparr>]\<rparr>], True))))"

definition retain_members :: "replicated_membership \<Rightarrow> identity_member list \<times> bool \<Rightarrow> identity_member list \<times> bool" where
  "retain_members q mirrored =
     (let members = filter (\<lambda>m. lm_app_id m \<notin> set (rm_revoked q)) (fst mirrored)
      in (members, snd mirrored \<or> length members \<noteq> length (fst mirrored)))"

definition retain_vaults :: "replicated_membership \<Rightarrow> vault_dek list \<Rightarrow> bool \<Rightarrow> vault_dek list \<times> bool" where
  "retain_vaults q ds changed =
     (let stripped = map (drop_revoked_envelopes (rm_revoked q)) ds;
          kept = filter (\<lambda>d. dk_store_id d \<notin> set (rm_removed_vaults q)) stripped
      in (kept, changed \<or> list_ex (\<lambda>(old, new). lost_envelopes old new) (zip ds stripped)
            \<or> length kept \<noteq> length stripped))"

definition mirrored_record ::
    "identity_record \<Rightarrow> identity_member list \<Rightarrow> vault_dek list \<times> bool \<Rightarrow> identity_record \<times> bool" where
  "mirrored_record r members granted =
     (let mirror = r\<lparr>ir_members := members, ir_vault_deks := fst granted\<rparr>
      in (if snd granted then advance mirror else mirror, snd granted))"

definition record_apply_replicated ::
    "key_crates \<Rightarrow> app_id set \<Rightarrow> replicated_membership \<Rightarrow> identity_record \<Rightarrow> (identity_record \<times> bool) multi_device" where
  "record_apply_replicated c elsewhere q r =
     (if ak_app_id (rm_app_key q) \<in> set (rm_revoked q)
      then Inl (AppKeyRevokedFromIdentity (identity_id_str (ir_identity_id r)))
      else
        and_then (bound_member c r (rm_app_key q)) (\<lambda>_.
        and_then (fold_result mirror_member (ir_members r, False)
            (filter (\<lambda>m. lm_app_id m \<notin> elsewhere) (rm_members q))) (\<lambda>mirrored.
        and_then (fold_result (mirror_grant c q)
            (retain_vaults q (ir_vault_deks r) (snd (retain_members q mirrored))) (rm_own_grants q)) (\<lambda>granted.
          Inr (mirrored_record r (fst (retain_members q mirrored)) granted)))))"

subsection \<open>Replication into the directory\<close>

definition listed_elsewhere :: "identity_directory \<Rightarrow> identity_id \<Rightarrow> app_id set" where
  "listed_elsewhere d i =
     set (concat (map (\<lambda>r. map lm_app_id (ir_members r)) (filter (\<lambda>r. ir_identity_id r \<noteq> i) (dr_identities d))))"

text \<open>The candidate replaces the directory once it validates.\<close>

definition validated_directory :: "identity_directory \<Rightarrow> identity_directory multi_device" where
  "validated_directory candidate = and_then (validate_directory candidate) (\<lambda>_. Inr candidate)"

definition apply_replicated_membership ::
    "key_crates \<Rightarrow> identity_directory \<Rightarrow> replicated_membership \<Rightarrow> identity_directory directory_transition" where
  "apply_replicated_membership c d q = settle_directory d
     (case find_identity (rm_identity_id q) (dr_identities d) of
        None \<Rightarrow> Inl (identity_not_found (rm_identity_id q))
      | Some r \<Rightarrow>
          and_then (record_apply_replicated c (listed_elsewhere d (rm_identity_id q)) q r) (\<lambda>applied.
            validated_directory (d\<lparr>dr_identities :=
              update_first (\<lambda>r. ir_identity_id r = rm_identity_id q) (\<lambda>_. fst applied) (dr_identities d)\<rparr>)))"

datatype adopted_label = LabelKept | LabelInvited string

definition relabelled :: "adopted_label \<Rightarrow> identity_record \<Rightarrow> identity_record multi_device" where
  "relabelled l r =
     (case l of
        LabelKept \<Rightarrow> Inr r
      | LabelInvited raw \<Rightarrow> let label = trim raw in if label = [] then Inl IdentityLabelEmpty else Inr (r\<lparr>ir_label := label\<rparr>))"

definition already_local :: "identity_id \<Rightarrow> multi_device_error" where
  "already_local i = ReplicatedIdentityAlreadyLocal (identity_id_str i)"

definition adopt_replicated_identity ::
    "identity_directory \<Rightarrow> identity_id \<Rightarrow> identity_id \<Rightarrow> adopted_label \<Rightarrow> identity_directory directory_transition" where
  "adopt_replicated_identity d local replicated l = settle_directory d
     (if list_ex (\<lambda>r. ir_identity_id r = replicated) (dr_identities d) then Inl (already_local replicated)
      else case find_identity local (dr_identities d) of
        None \<Rightarrow> Inl (identity_not_found local)
      | Some r \<Rightarrow>
          and_then (relabelled l (advance (r\<lparr>ir_identity_id := replicated\<rparr>))) (\<lambda>adopted.
            validated_directory (d\<lparr>dr_identities :=
                update_first (\<lambda>r. ir_identity_id r = local) (\<lambda>_. adopted) (dr_identities d),
              dr_selection := (if dr_selection d = Selected local then Selected replicated else dr_selection d)\<rparr>)))"

definition add_replicated_identity ::
    "key_crates \<Rightarrow> identity_id multi_device \<Rightarrow> identity_directory \<Rightarrow> string \<Rightarrow> replicated_membership
      \<Rightarrow> identity_directory directory_transition" where
  "add_replicated_identity c generated d raw_label q = settle_directory d
     (if list_ex (\<lambda>r. ir_identity_id r = rm_identity_id q) (dr_identities d) then Inl (already_local (rm_identity_id q))
      else and_then (identity_for_app_key c d (rm_app_key q)) (\<lambda>membership.
        case membership of
          Enrolled i \<Rightarrow> Inl (AppKeyBelongsToAnotherIdentity (identity_id_str i))
        | Unenrolled \<Rightarrow>
            let label = trim raw_label in
            if label = [] then Inl IdentityLabelEmpty
            else
              and_then (create_with_app_key c generated label (rm_app_key q) UnnamedMember) (\<lambda>r.
              and_then (record_apply_replicated c (listed_elsewhere d (rm_identity_id q)) q
                  (r\<lparr>ir_identity_id := rm_identity_id q\<rparr>)) (\<lambda>applied.
                validated_directory (d\<lparr>dr_identities := dr_identities d @ [fst applied],
                  dr_selection := (if dr_selection d = SelectionEmpty then Selected (rm_identity_id q) else dr_selection d)\<rparr>)))))"

subsection \<open>Retiring app keys\<close>

datatype recovery_retirement = RetireInstallation app_id | PreserveRetiredKeys

definition retire_app_id :: "identity_directory \<Rightarrow> app_id \<Rightarrow> identity_directory" where
  "retire_app_id d app =
     (if app \<in> set (dr_retired_app_ids d) then d else d\<lparr>dr_retired_app_ids := dr_retired_app_ids d @ [app]\<rparr>)"

definition reset_for_device_recovery :: "identity_directory \<Rightarrow> recovery_retirement \<Rightarrow> identity_directory" where
  "reset_for_device_recovery d retirement =
     (let cleared = d\<lparr>dr_identities := [], dr_selection := SelectionEmpty\<rparr> in
      case retirement of RetireInstallation app \<Rightarrow> retire_app_id cleared app | PreserveRetiredKeys \<Rightarrow> cleared)"

definition clear_selection :: "identity_directory \<Rightarrow> identity_directory" where
  "clear_selection d = d\<lparr>dr_selection := SelectionEmpty\<rparr>"

definition require_retiring_member :: "identity_record \<Rightarrow> app_id \<Rightarrow> unit multi_device" where
  "require_retiring_member r app =
     (if \<not> list_ex (\<lambda>m. lm_app_id m = app) (ir_members r)
      then Inl (InvalidDeviceIdentity ''retired app key does not belong to the selected identity'') else Inr ())"

definition admit_local_key_retirement :: "identity_directory \<Rightarrow> identity_id \<Rightarrow> app_id \<Rightarrow> nat multi_device" where
  "admit_local_key_retirement d i app =
     and_then (validate_directory d) (\<lambda>_.
       case position (\<lambda>r. ir_identity_id r = i) (dr_identities d) of
         None \<Rightarrow> Inl (identity_not_found i)
       | Some n \<Rightarrow>
           (case get_at (dr_identities d) n of
              None \<Rightarrow> Inl (identity_not_found i)
            | Some r \<Rightarrow> and_then (require_retiring_member r app) (\<lambda>_. Inr n)))"

definition retire_identity_member ::
    "identity_directory \<Rightarrow> nat \<Rightarrow> identity_id \<Rightarrow> app_id \<Rightarrow> identity_directory directory_transition" where
  "retire_identity_member d n i app =
     (case get_at (dr_identities d) n of
        None \<Rightarrow> Inl \<lparr>dj_directory = d, dj_cause = identity_not_found i\<rparr>
      | Some r \<Rightarrow>
          and_then
            (if length (ir_members r) = 1
             then let rest = remove_at n (dr_identities d) in
               Inr (d\<lparr>dr_identities := rest,
                      dr_selection := (case rest of [] \<Rightarrow> SelectionEmpty | first # _ \<Rightarrow> Selected (ir_identity_id first))\<rparr>)
             else and_then (take_identity d i) (\<lambda>t. update_detached t (\<lambda>r. remove_member r app))) (\<lambda>d'.
          Inr (retire_app_id d' app)))"

definition retire_local_identity_key ::
    "identity_directory \<Rightarrow> identity_id \<Rightarrow> app_id \<Rightarrow> identity_directory directory_transition" where
  "retire_local_identity_key d i app =
     (case admit_local_key_retirement d i app of
        Inl cause \<Rightarrow> Inl \<lparr>dj_directory = d, dj_cause = cause\<rparr>
      | Inr n \<Rightarrow> retire_identity_member d n i app)"

subsection \<open>Joining an invited identity\<close>

datatype local_log = LogEmpty | LogReplicated

datatype invitation_binding = AlreadyBound | Adopt identity_id

datatype connection_key = CurrentAppKey | NewAppKey

definition is_fresh_local_identity :: "identity_record \<Rightarrow> local_log \<Rightarrow> bool" where
  "is_fresh_local_identity r log \<longleftrightarrow> log = LogEmpty \<and> ir_vault_deks r = [] \<and> length (ir_members r) = 1"

definition local_identity_for_app_key :: "key_crates \<Rightarrow> identity_directory \<Rightarrow> app_key \<Rightarrow> identity_record multi_device" where
  "local_identity_for_app_key c d k =
     and_then (identity_for_app_key c d k) (\<lambda>membership.
       case membership of
         Unenrolled \<Rightarrow> Inl IdentityEnrollmentRequired
       | Enrolled i \<Rightarrow>
           (case find_identity i (dr_identities d) of None \<Rightarrow> Inl (identity_not_found i) | Some r \<Rightarrow> Inr r))"

definition invitation_binding_of ::
    "key_crates \<Rightarrow> identity_directory \<Rightarrow> app_key \<Rightarrow> identity_id \<Rightarrow> local_log \<Rightarrow> invitation_binding multi_device" where
  "invitation_binding_of c d k invited log =
     and_then (local_identity_for_app_key c d k) (\<lambda>r.
       if ir_identity_id r = invited then Inr AlreadyBound
       else if list_ex (\<lambda>r. ir_identity_id r = invited) (dr_identities d) then Inl (already_local invited)
       else if \<not> is_fresh_local_identity r log
       then Inl (AppKeyBelongsToAnotherIdentity (identity_id_str (ir_identity_id r)))
       else Inr (Adopt (ir_identity_id r)))"

definition name_fresh_identity ::
    "key_crates \<Rightarrow> identity_directory \<Rightarrow> app_key \<Rightarrow> string \<Rightarrow> local_log \<Rightarrow> identity_directory multi_device" where
  "name_fresh_identity c d k label log =
     (if trim label = [] then Inl IdentityLabelEmpty
      else and_then (local_identity_for_app_key c d k) (\<lambda>local.
        if \<not> is_fresh_local_identity local log
        then Inl (IdentityAlreadyInUse (identity_id_str (ir_identity_id local)))
        else Inr (d\<lparr>dr_identities := map (\<lambda>r.
          if ir_identity_id r = ir_identity_id local then r\<lparr>ir_label := label\<rparr> else r) (dr_identities d)\<rparr>)))"

definition connection_key_for ::
    "key_crates \<Rightarrow> identity_directory \<Rightarrow> app_key \<Rightarrow> local_log \<Rightarrow> connection_key multi_device" where
  "connection_key_for c d k log =
     and_then (identity_for_app_key c d k) (\<lambda>membership.
       if membership = Unenrolled then Inr CurrentAppKey
       else Inr (case log of LogEmpty \<Rightarrow> CurrentAppKey | LogReplicated \<Rightarrow> NewAppKey))"

end
