(* ===== verification/DirectoryLaws.thy ===== *)
theory DirectoryLaws
  imports IdentityAccess DirectoryReplication
begin

text \<open>
  The directory of identities keeps what its validation checks: one owner per app key and per vault,
  one record per identity, no member with a retired key, a selection that exists.  A rejected
  transition gives the directory back; a retired key is refused everywhere.
\<close>

subsection \<open>What validation checks\<close>

definition app_ids_of :: "identity_record \<Rightarrow> app_id list" where
  "app_ids_of r = map lm_app_id (ir_members r)"

definition stores_of :: "identity_record \<Rightarrow> store_id list" where
  "stores_of r = map dk_store_id (ir_vault_deks r)"

definition listed_apps :: "identity_directory \<Rightarrow> app_id set" where
  "listed_apps d = (\<Union>r\<in>set (dr_identities d). set (app_ids_of r))"

definition owned_stores :: "identity_directory \<Rightarrow> store_id set" where
  "owned_stores d = (\<Union>r\<in>set (dr_identities d). set (stores_of r))"

definition directory_valid :: "identity_directory \<Rightarrow> bool" where
  "directory_valid d \<longleftrightarrow>
     distinct (dr_retired_app_ids d)
     \<and> distinct (map ir_identity_id (dr_identities d))
     \<and> distinct (concat (map app_ids_of (dr_identities d)))
     \<and> distinct (concat (map stores_of (dr_identities d)))
     \<and> listed_apps d \<inter> set (dr_retired_app_ids d) = {}
     \<and> (\<forall>i. dr_selection d = Selected i \<longrightarrow> i \<in> ir_identity_id ` set (dr_identities d))"

lemma fold_insert_fresh:
  "fold_result (insert_fresh dup) seen xs = Inr s \<longleftrightarrow> distinct xs \<and> set xs \<inter> seen = {} \<and> s = seen \<union> set xs"
  by (induction xs arbitrary: seen) (auto simp: insert_fresh_def)

lemma validate_record_Inr:
  "validate_record retired seen r = Inr s \<longleftrightarrow>
     ir_identity_id r \<notin> vs_ids seen \<and> set (app_ids_of r) \<inter> retired = {}
     \<and> distinct (app_ids_of r) \<and> set (app_ids_of r) \<inter> vs_app_ids seen = {}
     \<and> distinct (stores_of r) \<and> set (stores_of r) \<inter> vs_vaults seen = {}
     \<and> s = \<lparr>vs_ids = insert (ir_identity_id r) (vs_ids seen), vs_app_ids = vs_app_ids seen \<union> set (app_ids_of r),
            vs_vaults = vs_vaults seen \<union> set (stores_of r)\<rparr>"
  by (auto simp: validate_record_def insert_fresh_def and_then_Inr_iff fold_insert_fresh list_ex_iff app_ids_of_def stores_of_def)

lemma disjoint_Un: "(A \<union> B) \<inter> C = {} \<longleftrightarrow> A \<inter> C = {} \<and> B \<inter> C = {}" "A \<inter> (B \<union> C) = {} \<longleftrightarrow> A \<inter> B = {} \<and> A \<inter> C = {}"
  by auto

lemma fold_validate_record:
  "fold_result (validate_record retired) seen rs = Inr s \<longleftrightarrow>
     distinct (map ir_identity_id rs) \<and> ir_identity_id ` set rs \<inter> vs_ids seen = {}
     \<and> distinct (concat (map app_ids_of rs)) \<and> set (concat (map app_ids_of rs)) \<inter> vs_app_ids seen = {}
     \<and> set (concat (map app_ids_of rs)) \<inter> retired = {}
     \<and> distinct (concat (map stores_of rs)) \<and> set (concat (map stores_of rs)) \<inter> vs_vaults seen = {}
     \<and> s = \<lparr>vs_ids = vs_ids seen \<union> ir_identity_id ` set rs, vs_app_ids = vs_app_ids seen \<union> set (concat (map app_ids_of rs)),
            vs_vaults = vs_vaults seen \<union> set (concat (map stores_of rs))\<rparr>"
proof (induction rs arbitrary: seen)
  case Nil
  then show ?case by (cases seen) auto
next
  case (Cons r rs)
  define A where "A = set (concat (map app_ids_of rs))"
  define S where "S = set (concat (map stores_of rs))"
  have parts: "set (concat (map app_ids_of (r # rs))) = set (app_ids_of r) \<union> A"
    "set (concat (map stores_of (r # rs))) = set (stores_of r) \<union> S"
    "distinct (concat (map app_ids_of (r # rs))) \<longleftrightarrow>
      distinct (app_ids_of r) \<and> distinct (concat (map app_ids_of rs)) \<and> set (app_ids_of r) \<inter> A = {}"
    "distinct (concat (map stores_of (r # rs))) \<longleftrightarrow>
      distinct (stores_of r) \<and> distinct (concat (map stores_of rs)) \<and> set (stores_of r) \<inter> S = {}"
    "A \<inter> (X \<union> Y) = {} \<longleftrightarrow> A \<inter> X = {} \<and> Y \<inter> A = {}" "S \<inter> (V \<union> W) = {} \<longleftrightarrow> S \<inter> V = {} \<and> W \<inter> S = {}" for X Y V W
    unfolding A_def S_def by auto
  show ?case unfolding fold_result.simps and_then_Inr_iff validate_record_Inr Cons.IH parts A_def [symmetric] S_def [symmetric]
    by (auto simp: disjoint_Un Un_assoc)
qed

lemma validate_directory_iff: "validate_directory d = Inr () \<longleftrightarrow> directory_valid d"
proof -
  have dup: "card (set (dr_retired_app_ids d)) \<noteq> length (dr_retired_app_ids d) \<longleftrightarrow> \<not> distinct (dr_retired_app_ids d)"
    by (metis card_distinct distinct_card)
  have sel: "(case dr_selection d of SelectionEmpty \<Rightarrow> Inr ()
        | Selected i \<Rightarrow> if dr_identities d \<noteq> [] \<and> i \<in> ids then Inr () else Inl InvalidIdentitySelection) = Inr ()
      \<longleftrightarrow> (\<forall>i. dr_selection d = Selected i \<longrightarrow> i \<in> ids)" if "ids = ir_identity_id ` set (dr_identities d)" for ids
    using that by (auto split: identity_selection.splits)
  show ?thesis unfolding validate_directory_def Let_def dup
    by (auto simp: and_then_Inr_iff fold_validate_record sel directory_valid_def listed_apps_def UN_iff)
qed

text \<open>The validation of a directory accepts exactly the directories with one record per identity,
  one owner per app key and per vault, no retired member and an existing selection.\<close>

theorem validation_is_the_invariant: "validate_directory d = Inr () \<longleftrightarrow> directory_valid d"
  by (rule validate_directory_iff)

subsection \<open>A record handed out and put back\<close>

lemma settle_directory_Inr [simp]: "settle_directory d outcome = Inr a \<longleftrightarrow> outcome = Inr a"
  by (auto simp: settle_directory_def split: sum.splits)

lemma settle_directory_Inl: "settle_directory d outcome = Inl rejected \<Longrightarrow> dj_directory rejected = d \<and> outcome = Inl (dj_cause rejected)"
  by (auto simp: settle_directory_def split: sum.splits)

text \<open>Updating one record: the record at the position of its id is replaced.\<close>

lemma put_back_replaces:
  assumes "take_identity d i = Inr t"
  obtains n where "position (\<lambda>r. ir_identity_id r = i) (dr_identities d) = Some n" "dt_record t = dr_identities d ! n"
    "\<forall>r. put_back t r = d\<lparr>dr_identities := (dr_identities d)[n := r]\<rparr>"
proof -
  obtain n where n: "position (\<lambda>r. ir_identity_id r = i) (dr_identities d) = Some n"
    and t: "t = \<lparr>dt_directory = d\<lparr>dr_identities := remove_at n (dr_identities d)\<rparr>, dt_index = n, dt_record = dr_identities d ! n\<rparr>"
    using assms by (auto simp: take_identity_def split: option.splits)
  show ?thesis
    using that [OF n] position_SomeD(1) [OF n] by (simp add: t put_back_def insert_at_remove_at)
qed

lemma take_identity_Inl: "take_identity d i = Inl rejected \<Longrightarrow> dj_directory rejected = d \<and> i \<notin> ir_identity_id ` set (dr_identities d)"
  by (auto simp: take_identity_def position_None split: option.splits)

lemma updating_Inr:
  assumes "and_then (take_identity d i) (\<lambda>t. update_detached t operation) = Inr d'"
  obtains n r where "position (\<lambda>r. ir_identity_id r = i) (dr_identities d) = Some n"
    "operation (dr_identities d ! n) = Inr r" "d' = d\<lparr>dr_identities := (dr_identities d)[n := r]\<rparr>"
proof -
  obtain t where t: "take_identity d i = Inr t" "update_detached t operation = Inr d'" using assms by (rule and_then_InrE)
  obtain n where n: "position (\<lambda>r. ir_identity_id r = i) (dr_identities d) = Some n" "dt_record t = dr_identities d ! n"
    "\<forall>r. put_back t r = d\<lparr>dr_identities := (dr_identities d)[n := r]\<rparr>" using t(1) by (rule put_back_replaces)
  show ?thesis using that [OF n(1)] t(2) n(2,3) by (auto simp: update_detached_def split: sum.splits)
qed

lemma opening_Inr:
  assumes "and_then (take_identity d i) (\<lambda>t. open_keys_detached t operation) = Inr (d', keys)"
  obtains n r where "position (\<lambda>r. ir_identity_id r = i) (dr_identities d) = Some n"
    "operation (dr_identities d ! n) = Inr (r, keys)" "d' = d\<lparr>dr_identities := (dr_identities d)[n := r]\<rparr>"
proof -
  obtain t where t: "take_identity d i = Inr t" "open_keys_detached t operation = Inr (d', keys)" using assms by (rule and_then_InrE)
  obtain n where n: "position (\<lambda>r. ir_identity_id r = i) (dr_identities d) = Some n" "dt_record t = dr_identities d ! n"
    "\<forall>r. put_back t r = d\<lparr>dr_identities := (dr_identities d)[n := r]\<rparr>" using t(1) by (rule put_back_replaces)
  show ?thesis using that [OF n(1)] t(2) n(2,3) by (auto simp: open_keys_detached_def split: sum.splits)
qed

text \<open>A record transition that gives its record back on rejection, lifted to the directory.\<close>

definition returns_record :: "(identity_record \<Rightarrow> 'a record_transition) \<Rightarrow> bool" where
  "returns_record operation \<longleftrightarrow> (\<forall>r rejected. operation r = Inl rejected \<longrightarrow> rr_identity rejected = r)"

lemma updating_Inl:
  assumes "and_then (take_identity d i) (\<lambda>t. update_detached t operation) = Inl rejected" and "returns_record operation"
  shows "dj_directory rejected = d"
  using assms(1)
proof (cases rule: and_then_InlE)
  case (2 t)
  obtain n where n: "position (\<lambda>r. ir_identity_id r = i) (dr_identities d) = Some n" "dt_record t = dr_identities d ! n"
    "\<forall>r. put_back t r = d\<lparr>dr_identities := (dr_identities d)[n := r]\<rparr>" using 2(1) by (rule put_back_replaces)
  show ?thesis using 2(2) n assms(2) by (auto simp: update_detached_def returns_record_def split: sum.splits)
qed (simp add: take_identity_Inl)

lemma opening_Inl:
  assumes "and_then (take_identity d i) (\<lambda>t. open_keys_detached t operation) = Inl rejected" and "returns_record operation"
  shows "dj_directory rejected = d"
  using assms(1)
proof (cases rule: and_then_InlE)
  case (2 t)
  obtain n where n: "position (\<lambda>r. ir_identity_id r = i) (dr_identities d) = Some n" "dt_record t = dr_identities d ! n"
    "\<forall>r. put_back t r = d\<lparr>dr_identities := (dr_identities d)[n := r]\<rparr>" using 2(1) by (rule put_back_replaces)
  show ?thesis using 2(2) n assms(2) by (auto simp: open_keys_detached_def returns_record_def split: sum.splits)
qed (simp add: take_identity_Inl)

lemma settled_returns: "returns_record (\<lambda>r. settle r (outcome r))"
  by (auto simp: returns_record_def settle_def split: sum.splits)

lemma record_transitions_return:
  "returns_record (\<lambda>r. set_member_signing_public_key r app key)" "returns_record (\<lambda>r. add_member r m)"
  "returns_record (\<lambda>r. remove_member r app)" "returns_record (\<lambda>r. reconcile_legacy_vault_member c r k store rc)"
  "returns_record (\<lambda>r. record_import_legacy_vault c r k store rc)" "returns_record (\<lambda>r. generate_vault_dek c generated r store)"
  unfolding set_member_signing_public_key_def add_member_def remove_member_def reconcile_legacy_vault_member_def
    record_import_legacy_vault_def generate_vault_dek_def by (rule settled_returns)+

lemma open_or_generate_returns: "returns_record (\<lambda>r. open_or_generate_vault_dek c generated r k store)"
  using record_transitions_return(6) [of c generated store]
  by (auto simp: returns_record_def open_or_generate_vault_dek_def split: sum.splits committed_vault_keys.splits)

lemma resolving_Inl:
  assumes "and_then (take_identity d i) (\<lambda>t. and_then (update_detached t operation) (\<lambda>d'. Inr (f d'))) = Inl rejected"
    and "returns_record operation"
  shows "dj_directory rejected = d"
proof -
  have "and_then (take_identity d i) (\<lambda>t. update_detached t operation) = Inl rejected"
    using assms(1) by (auto simp: and_then_Inl_iff)
  then show ?thesis using assms(2) by (rule updating_Inl)
qed

lemma resolving_Inr:
  assumes "and_then (take_identity d i) (\<lambda>t. and_then (update_detached t operation) (\<lambda>d'. Inr (f d'))) = Inr p"
  obtains d' where "and_then (take_identity d i) (\<lambda>t. update_detached t operation) = Inr d'" "p = f d'"
  using assms by (auto simp: and_then_Inr_iff)

text \<open>A rejected import, reconciliation, opening, signing-key update or retirement gives the
  directory back as it was.\<close>

theorem rejected_transition_returns_the_directory:
  "(import_legacy_vault c generated d q = Inl rejected \<longrightarrow> dj_directory rejected = d)
   \<and> (reconcile_vault_dek c d k store rc = Inl rejected \<longrightarrow> dj_directory rejected = d)
   \<and> (directory_open_or_generate c drawn d k store = Inl rejected \<longrightarrow> dj_directory rejected = d)
   \<and> (open_or_generate_for_identity c drawn d i k store = Inl rejected \<longrightarrow> dj_directory rejected = d)
   \<and> (directory_set_signing_key d i app key = Inl rejected \<longrightarrow> dj_directory rejected = d)
   \<and> (add_selected_member d m = Inl rejected \<longrightarrow> dj_directory rejected = d)
   \<and> (retire_local_identity_key d i app = Inl rejected \<longrightarrow> dj_directory rejected = d)"
proof (intro conjI impI)
  assume "import_legacy_vault c generated d q = Inl rejected"
  then show "dj_directory rejected = d"
    by (auto simp: import_legacy_vault_def import_new_legacy_identity_def split: sum.splits import_destination.splits
        dest: settle_directory_Inl intro: resolving_Inl record_transitions_return)
next
  assume "reconcile_vault_dek c d k store rc = Inl rejected"
  then show "dj_directory rejected = d"
    by (auto simp: reconcile_vault_dek_def split: sum.splits intro: resolving_Inl record_transitions_return)
next
  assume "directory_open_or_generate c drawn d k store = Inl rejected"
  then show "dj_directory rejected = d"
    by (auto simp: directory_open_or_generate_def split: sum.splits intro: opening_Inl open_or_generate_returns)
next
  assume "open_or_generate_for_identity c drawn d i k store = Inl rejected"
  then show "dj_directory rejected = d"
    by (auto simp: open_or_generate_for_identity_def split: sum.splits intro: opening_Inl open_or_generate_returns)
next
  assume "directory_set_signing_key d i app key = Inl rejected"
  then show "dj_directory rejected = d"
    unfolding directory_set_signing_key_def by (rule updating_Inl) (rule record_transitions_return)
next
  assume "add_selected_member d m = Inl rejected"
  then show "dj_directory rejected = d"
    by (auto simp: add_selected_member_def split: sum.splits intro: updating_Inl record_transitions_return)
next
  assume r: "retire_local_identity_key d i app = Inl rejected"
  have "dj_directory rejected = d" if "retire_identity_member d n i app = Inl rejected" for n
  proof (cases "get_at (dr_identities d) n")
    case None
    then show ?thesis using that by (auto simp: retire_identity_member_def)
  next
    case (Some found)
    then have "and_then (take_identity d i) (\<lambda>t. update_detached t (\<lambda>r. remove_member r app)) = Inl rejected"
      using that by (auto simp: retire_identity_member_def and_then_Inl_iff Let_def split: if_splits)
    then show ?thesis by (rule updating_Inl) (rule record_transitions_return)
  qed
  then show "dj_directory rejected = d" using r by (auto simp: retire_local_identity_key_def split: sum.splits)
qed

subsection \<open>What the transitions keep\<close>

definition directory_wf :: "identity_directory \<Rightarrow> bool" where
  "directory_wf d \<longleftrightarrow> directory_valid d \<and> (\<forall>r\<in>set (dr_identities d). record_wf r)"

lemma directory_wfD:
  assumes "directory_wf d"
  shows "distinct (dr_retired_app_ids d)" "distinct (map ir_identity_id (dr_identities d))"
    "distinct (concat (map app_ids_of (dr_identities d)))" "distinct (concat (map stores_of (dr_identities d)))"
    "listed_apps d \<inter> set (dr_retired_app_ids d) = {}" "r \<in> set (dr_identities d) \<Longrightarrow> record_wf r"
    "dr_selection d = Selected i \<Longrightarrow> i \<in> ir_identity_id ` set (dr_identities d)"
  using assms by (auto simp: directory_wf_def directory_valid_def)

lemma distinct_concat_update:
  assumes "distinct (concat xss)" and "n < length xss" and "distinct ys"
    and "\<And>y. y \<in> set ys \<Longrightarrow> y \<in> set (xss ! n) \<or> y \<notin> set (concat xss)"
  shows "distinct (concat (xss[n := ys]))"
proof -
  define before where "before = concat (take n xss)"
  define after where "after = concat (drop (Suc n) xss)"
  have old: "concat xss = before @ xss ! n @ after"
    using arg_cong [OF id_take_nth_drop [OF assms(2)], of concat] by (simp add: before_def after_def)
  have new: "concat (xss[n := ys]) = before @ ys @ after"
    using assms(2) by (simp add: upd_conv_take_nth_drop before_def after_def)
  have "set ys \<inter> (set before \<union> set after) = {}"
  proof (rule ccontr)
    assume "\<not> ?thesis"
    then obtain y where "y \<in> set ys" "y \<in> set before \<union> set after" by blast
    then show False using assms(1,4) unfolding old by auto
  qed
  then show ?thesis using assms(1,3) unfolding old new by auto
qed

lemma concat_map_update: "concat (map f (xs[n := x])) = concat ((map f xs)[n := f x])"
  by (simp add: map_update)

text \<open>A record replaced under its id, whose apps and vaults are its own or nobody's.\<close>

lemma replaced_record_wf:
  assumes "directory_wf d" and "n < length (dr_identities d)" and "ir_identity_id r = ir_identity_id (dr_identities d ! n)"
    and "record_wf r"
    and "\<And>a. a \<in> set (app_ids_of r) \<Longrightarrow> a \<in> set (app_ids_of (dr_identities d ! n)) \<or> a \<notin> listed_apps d \<union> set (dr_retired_app_ids d)"
    and "\<And>s. s \<in> set (stores_of r) \<Longrightarrow> s \<in> set (stores_of (dr_identities d ! n)) \<or> s \<notin> owned_stores d"
  shows "directory_wf (d\<lparr>dr_identities := (dr_identities d)[n := r]\<rparr>)"
proof -
  let ?rs = "(dr_identities d)[n := r]"
  note wf = directory_wfD [OF assms(1)]
  have mem: "x \<in> set ?rs \<Longrightarrow> x = r \<or> x \<in> set (dr_identities d)" for x
    using set_update_subset_insert [of "dr_identities d" n r] by auto
  have ids: "map ir_identity_id ?rs = map ir_identity_id (dr_identities d)"
    using assms(2,3) by (rule map_list_update_same)
  have apps: "distinct (concat (map app_ids_of ?rs))"
    unfolding concat_map_update using wf(3) assms(2,5) record_wfD(1) [OF assms(4)]
    by (intro distinct_concat_update) (auto simp: app_ids_of_def listed_apps_def)
  have stores: "distinct (concat (map stores_of ?rs))"
    unfolding concat_map_update using wf(4) assms(2,6) record_wfD(2) [OF assms(4)]
    by (intro distinct_concat_update) (auto simp: stores_of_def owned_stores_def)
  have active: "listed_apps (d\<lparr>dr_identities := ?rs\<rparr>) \<inter> set (dr_retired_app_ids d) = {}"
  proof (rule ccontr)
    assume "\<not> ?thesis"
    then obtain x a where "x \<in> set ?rs" "a \<in> set (app_ids_of x)" "a \<in> set (dr_retired_app_ids d)"
      by (auto simp: listed_apps_def)
    moreover have "a \<in> listed_apps d" if "x \<in> set (dr_identities d)" "a \<in> set (app_ids_of x)" for x a
      using that by (auto simp: listed_apps_def)
    ultimately show False using mem assms(2,5) wf(5) nth_mem by blast
  qed
  have sel: "i \<in> ir_identity_id ` set ?rs" if "dr_selection d = Selected i" for i
    using wf(7) [OF that] ids by (metis list.set_map)
  show ?thesis
    using wf(1,2,6) ids apps stores active sel mem assms(4) unfolding directory_wf_def directory_valid_def by auto
qed

text \<open>A new record under a fresh id, with apps and vaults nobody lists.\<close>

lemma added_record_wf:
  assumes "directory_wf d" and "record_wf r" and "ir_identity_id r \<notin> ir_identity_id ` set (dr_identities d)"
    and "set (app_ids_of r) \<inter> (listed_apps d \<union> set (dr_retired_app_ids d)) = {}"
    and "set (stores_of r) \<inter> owned_stores d = {}"
    and "\<And>i. selection = Selected i \<Longrightarrow> i = ir_identity_id r \<or> dr_selection d = Selected i"
  shows "directory_wf (d\<lparr>dr_identities := dr_identities d @ [r], dr_selection := selection\<rparr>)"
proof -
  note wf = directory_wfD [OF assms(1)]
  have "distinct (app_ids_of r)" "distinct (stores_of r)"
    using record_wfD(1,2) [OF assms(2)] by (simp_all add: app_ids_of_def stores_of_def)
  then show ?thesis
    using wf assms(2-6) unfolding directory_wf_def directory_valid_def
    by (auto simp: listed_apps_def owned_stores_def)
qed

lemma selection_wf:
  assumes "directory_wf d" and "\<And>i. selection = Selected i \<Longrightarrow> i \<in> ir_identity_id ` set (dr_identities d)"
  shows "directory_wf (d\<lparr>dr_selection := selection\<rparr>)"
  using assms by (auto simp: directory_wf_def directory_valid_def listed_apps_def)

lemma retire_app_id_wf:
  assumes "directory_wf d" and "app \<notin> listed_apps d"
  shows "directory_wf (retire_app_id d app)"
  using assms by (auto simp: retire_app_id_def directory_wf_def directory_valid_def listed_apps_def)

text \<open>The owner of a vault.\<close>

lemma vault_owner_Some: "vault_owner store rs = Some r \<Longrightarrow> r \<in> set rs \<and> owns_vault r store"
  by (auto simp: vault_owner_def dest: find_SomeD)

lemma vault_owner_None: "vault_owner store (dr_identities d) = None \<longleftrightarrow> store \<notin> owned_stores d"
  by (auto simp: vault_owner_def find_None_iff owned_stores_def stores_of_def owns_vault_iff)

lemma owns_vault_stores: "owns_vault r store \<longleftrightarrow> store \<in> set (stores_of r)"
  by (simp add: owns_vault_iff stores_of_def)

lemma record_at:
  assumes "directory_wf d" and "position (\<lambda>r. ir_identity_id r = i) (dr_identities d) = Some n"
  shows "dr_identities d ! n \<in> set (dr_identities d)" "record_wf (dr_identities d ! n)" "ir_identity_id (dr_identities d ! n) = i"
  using position_SomeD [OF assms(2)] directory_wfD(6) [OF assms(1)] by auto

lemma record_of_id:
  assumes "directory_wf d" and "r \<in> set (dr_identities d)"
    and "position (\<lambda>x. ir_identity_id x = ir_identity_id r) (dr_identities d) = Some n"
  shows "dr_identities d ! n = r"
  using directory_wfD(2) [OF assms(1)] position_SomeD [OF assms(3)] assms(2)
  by (metis distinct_map inj_onD)

text \<open>A transition of one record, as the access matrix sees it, keeps the apps and stores apart.\<close>

lemma step_apps_stores:
  assumes "record_step c a r r'" and "record_wf r"
  shows "set (app_ids_of r') = ac_members (access_step a (access_of r))"
    "set (stores_of r') = dom (ac_grants (access_step a (access_of r)))"
proof -
  have "set (app_ids_of r') = ac_members (access_of r')" by (simp add: app_ids_of_def access_of_def)
  moreover have "set (stores_of r') = dom (ac_grants (access_of r'))"
  proof -
    have "store \<in> set (stores_of r') \<longleftrightarrow> record_vault_dek r' store \<noteq> None" for store
      by (metis owns_vault_def owns_vault_stores)
    then show ?thesis by (auto simp: access_of_def dom_def)
  qed
  ultimately show "set (app_ids_of r') = ac_members (access_step a (access_of r))"
    "set (stores_of r') = dom (ac_grants (access_step a (access_of r)))"
    using record_step_access [OF assms] by simp_all
qed

lemma grant_identity: "grant_member_to_vaults c r m items = Inr r' \<Longrightarrow> ir_identity_id r' = ir_identity_id r"
  by (auto simp: grant_member_to_vaults_def Let_def split: sum.splits prod.splits option.splits if_splits)

lemma reconcile_identity: "reconcile_legacy_vault_member c r k store rc = Inr r' \<Longrightarrow> ir_identity_id r' = ir_identity_id r"
  by (auto simp: reconcile_legacy_vault_member_def and_then_Inr_iff Let_def split: option.splits if_splits)

lemma record_step_identity: "record_step c a r r' \<Longrightarrow> ir_identity_id r' = ir_identity_id r"
proof (induction rule: record_step.induct)
  case (opened_or_made generated r k store r' keys)
  then show ?case by (rule open_or_generate_cases) (auto simp: generate_vault_dek_Inr)
next
  case (importing r store k rc r')
  then show ?case by (auto elim: record_import_Inr)
qed (auto simp: grant_identity reconcile_identity add_member_Inr set_member_signing_public_key_def remove_member_Inr
      split: option.splits if_splits)

text \<open>A step of one record that takes only apps and stores nobody else has.\<close>

lemma stepped_record_wf:
  assumes "directory_wf d" and "position (\<lambda>r. ir_identity_id r = i) (dr_identities d) = Some n"
    and "record_step c a (dr_identities d ! n) r'"
    and "ac_members (access_step a (access_of (dr_identities d ! n))) \<subseteq>
      ac_members (access_of (dr_identities d ! n)) \<union> - (listed_apps d \<union> set (dr_retired_app_ids d))"
    and "dom (ac_grants (access_step a (access_of (dr_identities d ! n)))) \<subseteq>
      dom (ac_grants (access_of (dr_identities d ! n))) \<union> - owned_stores d"
  shows "directory_wf (d\<lparr>dr_identities := (dr_identities d)[n := r']\<rparr>)"
proof (rule replaced_record_wf [OF assms(1)])
  let ?r = "dr_identities d ! n"
  note at = record_at [OF assms(1,2)]
  note now = step_apps_stores [OF assms(3) at(2)]
  have own: "set (app_ids_of ?r) = ac_members (access_of ?r)" by (simp add: app_ids_of_def access_of_def)
  have held: "set (stores_of ?r) = dom (ac_grants (access_of ?r))"
    by (auto simp: access_of_def dom_def owns_vault_def simp flip: owns_vault_stores)
  show "n < length (dr_identities d)" using position_SomeD(1) [OF assms(2)] .
  show "ir_identity_id r' = ir_identity_id ?r" using record_step_identity [OF assms(3)] .
  show "record_wf r'" using record_step_wf [OF assms(3) at(2)] .
  show "app \<in> set (app_ids_of ?r) \<or> app \<notin> listed_apps d \<union> set (dr_retired_app_ids d)" if "app \<in> set (app_ids_of r')" for app
    using that assms(4) unfolding now(1) own by blast
  show "s \<in> set (stores_of ?r) \<or> s \<notin> owned_stores d" if "s \<in> set (stores_of r')" for s
    using that assms(5) unfolding now(2) held by blast
qed

text \<open>Steps that add neither an app nor a vault.\<close>

lemma owned_grant: "owns_vault r store \<Longrightarrow> store \<in> dom (ac_grants (access_of r))"
  by (auto simp: access_of_def owns_vault_def)

lemma confined_record_wf:
  assumes "directory_wf d" and "position (\<lambda>r. ir_identity_id r = i) (dr_identities d) = Some n"
    and "record_step c a (dr_identities d ! n) r'"
    and "a = KeepAccess \<or> (\<exists>app. a = RemoveMember app)
      \<or> (\<exists>store apps. a \<in> {AssignVault store apps, GenerateVault store} \<and> (owns_vault (dr_identities d ! n) store \<or> store \<notin> owned_stores d))"
  shows "directory_wf (d\<lparr>dr_identities := (dr_identities d)[n := r']\<rparr>)"
proof (rule stepped_record_wf [OF assms(1-3)])
  show "ac_members (access_step a (access_of (dr_identities d ! n)))
      \<subseteq> ac_members (access_of (dr_identities d ! n)) \<union> - (listed_apps d \<union> set (dr_retired_app_ids d))"
    using assms(4) by auto
  show "dom (ac_grants (access_step a (access_of (dr_identities d ! n))))
      \<subseteq> dom (ac_grants (access_of (dr_identities d ! n))) \<union> - owned_stores d"
    using assms(4) by (auto dest: owned_grant split: if_splits)
qed

subsection \<open>App keys of the directory\<close>

lemma app_in_record: "app \<in> set (app_ids_of r) \<longleftrightarrow> find_member app (ir_members r) \<noteq> None"
  by (auto simp: app_ids_of_def find_member_None)

lemma matching_fold:
  assumes "fold_result (matching_identity c k) found rs = Inr all"
  shows "all = found @ map ir_identity_id (filter (\<lambda>r. ak_app_id k \<in> set (app_ids_of r)) rs)"
  using assms
proof (induction rs arbitrary: found)
  case (Cons r rs)
  then obtain found' where f: "matching_identity c k found r = Inr found'" "fold_result (matching_identity c k) found' rs = Inr all"
    by (auto simp: and_then_Inr_iff)
  then show ?case using Cons.IH [OF f(2)]
    by (auto simp: matching_identity_def app_in_record split: option.splits if_splits)
qed simp

lemma identity_for_app_key_Inr:
  assumes "identity_for_app_key c d k = Inr membership"
  shows "ak_app_id k \<notin> set (dr_retired_app_ids d)"
    "membership = Unenrolled \<Longrightarrow> ak_app_id k \<notin> listed_apps d"
    "membership = Enrolled i \<Longrightarrow> \<exists>r\<in>set (dr_identities d). ir_identity_id r = i \<and> ak_app_id k \<in> set (app_ids_of r)"
proof -
  obtain all where active: "ensure_app_key_active d k = Inr ()" and all: "fold_result (matching_identity c k) [] (dr_identities d) = Inr all"
    and m: "membership = (case all of [] \<Rightarrow> Unenrolled | _ \<Rightarrow> Enrolled (last all))"
    using assms by (auto simp: identity_for_app_key_def and_then_Inr_iff split: if_splits)
  have eq: "all = map ir_identity_id (filter (\<lambda>r. ak_app_id k \<in> set (app_ids_of r)) (dr_identities d))"
    using matching_fold [OF all] by simp
  show "ak_app_id k \<notin> set (dr_retired_app_ids d)" using active by (auto simp: ensure_app_key_active_def split: if_splits)
  show "ak_app_id k \<notin> listed_apps d" if "membership = Unenrolled"
    using that m eq by (cases all) (auto simp: listed_apps_def filter_empty_conv)
  show "\<exists>r\<in>set (dr_identities d). ir_identity_id r = i \<and> ak_app_id k \<in> set (app_ids_of r)" if "membership = Enrolled i"
  proof -
    have "all \<noteq> []" "last all = i" using that m by (auto split: list.splits)
    then have "i \<in> set all" using last_in_set by blast
    then show ?thesis unfolding eq by auto
  qed
qed

subsection \<open>The transitions keep the directory well formed\<close>

lemma app_key_member_app [simp]: "lm_app_id (app_key_member c k label) = ak_app_id k"
  by (simp add: app_key_member_def)

lemma created_record:
  assumes "create_with_app_key c generated label k member_label = Inr r"
  shows "generated = Inr (ir_identity_id r)" "record_wf r" "app_ids_of r = [ak_app_id k]" "stores_of r = []"
  using assms create_wf by (auto simp: create_with_app_key_def and_then_Inr_iff app_ids_of_def stores_of_def)

lemma create_identity_wf:
  assumes "directory_wf d" and "ak_app_id k \<notin> listed_apps d"
    and "\<And>i. generated = Inr i \<Longrightarrow> i \<notin> ir_identity_id ` set (dr_identities d)"
    and "create_identity c generated d label k member_label = Inr (d', i)"
  shows "directory_wf d'"
proof -
  obtain r where active: "ensure_app_key_active d k = Inr ()" and r: "create_with_app_key c generated (trim label) k member_label = Inr r"
    and d': "d' = d\<lparr>dr_identities := dr_identities d @ [r], dr_selection := Selected (ir_identity_id r)\<rparr>"
    using assms(4) by (auto simp: create_identity_def and_then_Inr_iff Let_def split: if_splits)
  have "ak_app_id k \<notin> set (dr_retired_app_ids d)" using active by (auto simp: ensure_app_key_active_def split: if_splits)
  then show ?thesis unfolding d'
    using created_record [OF r] assms(2,3) by (intro added_record_wf [OF assms(1)]) auto
qed

lemma synthesized_record:
  assumes "synthesize_from_legacy_vault generated label m store s e epoch = Inr r"
  shows "generated = Inr (ir_identity_id r)" "record_wf r" "app_ids_of r = [lm_app_id m]" "stores_of r = [store]"
  using assms synthesize_wf by (auto simp: synthesize_from_legacy_vault_def and_then_Inr_iff app_ids_of_def stores_of_def)

lemma updated_in: "position (\<lambda>r. ir_identity_id r = i) (dr_identities d) = Some n \<Longrightarrow> ir_identity_id r = i \<Longrightarrow>
    i \<in> ir_identity_id ` set (dr_identities (d\<lparr>dr_identities := (dr_identities d)[n := r]\<rparr>))"
  using position_SomeD(1) [of "\<lambda>r. ir_identity_id r = i" "dr_identities d" n] set_update_memI by fastforce

lemma selected_wf: "directory_wf d \<Longrightarrow> i \<in> ir_identity_id ` set (dr_identities d) \<Longrightarrow> directory_wf (d\<lparr>dr_selection := Selected i\<rparr>)"
  by (rule selection_wf) simp_all

text \<open>Reconciling a vault the record owns, importing one nobody owns.\<close>

lemma reconciling_wf:
  assumes "directory_wf d" and "vault_owner store (dr_identities d) = Some owner"
    and "and_then (take_identity d (ir_identity_id owner)) (\<lambda>t. update_detached t (\<lambda>r. reconcile_legacy_vault_member c r k store rc)) = Inr d'"
  shows "directory_wf d'" "ir_identity_id owner \<in> ir_identity_id ` set (dr_identities d')"
proof -
  obtain n r' where n: "position (\<lambda>r. ir_identity_id r = ir_identity_id owner) (dr_identities d) = Some n"
    and r': "reconcile_legacy_vault_member c (dr_identities d ! n) k store rc = Inr r'"
    and d': "d' = d\<lparr>dr_identities := (dr_identities d)[n := r']\<rparr>" using assms(3) by (rule updating_Inr)
  have owner: "owner \<in> set (dr_identities d)" "owns_vault owner store" using vault_owner_Some [OF assms(2)] by auto
  have "dr_identities d ! n = owner" using record_of_id [OF assms(1) owner(1) n] .
  then show "directory_wf d'" unfolding d'
    using confined_record_wf [OF assms(1) n reconciling [OF r']] owner(2) by blast
  show "ir_identity_id owner \<in> ir_identity_id ` set (dr_identities d')" unfolding d'
    using updated_in [OF n] reconcile_identity [OF r'] record_at(3) [OF assms(1) n] by simp
qed

lemma importing_wf:
  assumes "directory_wf d" and "vault_owner store (dr_identities d) = None"
    and "and_then (take_identity d i) (\<lambda>t. update_detached t (\<lambda>r. record_import_legacy_vault c r k store rc)) = Inr d'"
  shows "directory_wf d'" "i \<in> ir_identity_id ` set (dr_identities d')"
proof -
  obtain n r' where n: "position (\<lambda>r. ir_identity_id r = i) (dr_identities d) = Some n"
    and r': "record_import_legacy_vault c (dr_identities d ! n) k store rc = Inr r'"
    and d': "d' = d\<lparr>dr_identities := (dr_identities d)[n := r']\<rparr>" using assms(3) by (rule updating_Inr)
  have free: "store \<notin> owned_stores d" using assms(2) by (simp add: vault_owner_None)
  then have not_owned: "\<not> owns_vault (dr_identities d ! n) store"
    using record_at(1) [OF assms(1) n] by (auto simp: owned_stores_def owns_vault_stores)
  note step = importing [OF not_owned r']
  show "directory_wf d'" unfolding d' using confined_record_wf [OF assms(1) n step] free by blast
  show "i \<in> ir_identity_id ` set (dr_identities d')" unfolding d'
    using updated_in [OF n] record_step_identity [OF step] record_at(3) [OF assms(1) n] by simp
qed

lemma import_legacy_wf:
  assumes "directory_wf d"
    and "legacy_import_destination c d q = Inr NewIdentity \<Longrightarrow> \<forall>j. generated = Inr j \<longrightarrow> j \<notin> ir_identity_id ` set (dr_identities d)"
    and "import_legacy_vault c generated d q = Inr (d', i)"
  shows "directory_wf d'"
proof -
  obtain destination where dest: "legacy_import_destination c d q = Inr destination"
    using assms(3) by (auto simp: import_legacy_vault_def split: sum.splits)
  show ?thesis
  proof (cases "vault_owner (li_store_id q) (dr_identities d)")
    case (Some owner)
    then have "destination = VaultOwner (ir_identity_id owner)"
      using dest by (auto simp: legacy_import_destination_def and_then_Inr_iff)
    then obtain d1 where d1: "and_then (take_identity d (ir_identity_id owner)) (\<lambda>t. update_detached t (\<lambda>r.
        reconcile_legacy_vault_member c r (li_app_key q) (li_store_id q) (li_reconciliation q))) = Inr d1"
      and "(d', i) = select_resolved (d1, ir_identity_id owner)"
      using assms(3) dest by (auto simp: import_legacy_vault_def elim: resolving_Inr)
    then show ?thesis using reconciling_wf [OF assms(1) Some d1] selected_wf by (simp add: select_resolved_def)
  next
    case None
    then obtain membership where m: "identity_for_app_key c d (li_app_key q) = Inr membership"
      and destination: "(case membership of Enrolled i \<Rightarrow> Inr (AppKeyOwner i) | Unenrolled \<Rightarrow> Inr NewIdentity) = (Inr destination :: import_destination multi_device)"
      using dest unfolding legacy_import_destination_def None option.case by (elim and_then_InrE)
    show ?thesis
    proof (cases membership)
      case (Enrolled owner)
      then obtain d1 where d1: "and_then (take_identity d owner) (\<lambda>t. update_detached t (\<lambda>r.
          record_import_legacy_vault c r (li_app_key q) (li_store_id q) (li_reconciliation q))) = Inr d1"
        and "(d', i) = select_resolved (d1, owner)"
        using assms(3) dest destination
        by (auto simp: import_legacy_vault_def elim!: resolving_Inr [where f = "\<lambda>d'. select_resolved (d', owner)"])
      then show ?thesis using importing_wf [OF assms(1) None d1] selected_wf by (simp add: select_resolved_def)
    next
      case Unenrolled
      then have "import_new_legacy_identity c generated d q = Inr (d', i)"
        using assms(3) dest destination by (simp add: import_legacy_vault_def)
      then obtain r where r: "synthesize_from_legacy_vault generated (li_label q) (app_key_member c (li_app_key q) UnnamedMember)
          (li_store_id q) (rc_secrets_envelope (li_reconciliation q)) (rc_members_envelope (li_reconciliation q))
          (committed_epoch (rc_epoch_update (li_reconciliation q))) = Inr r"
        and d': "d' = d\<lparr>dr_identities := dr_identities d @ [r], dr_selection := Selected (ir_identity_id r)\<rparr>"
        by (auto simp: import_new_legacy_identity_def and_then_Inr_iff Let_def select_resolved_def)
      have "legacy_import_destination c d q = Inr NewIdentity" using dest destination Unenrolled by simp
      then show ?thesis unfolding d'
        using synthesized_record [OF r] assms(2) identity_for_app_key_Inr(1,2) [OF m] Unenrolled None
        by (intro added_record_wf [OF assms(1)]) (auto simp: vault_owner_None)
    qed
  qed
qed

lemma distinct_concat_map_same:
  "distinct (concat (map f xs)) \<Longrightarrow> x \<in> set xs \<Longrightarrow> y \<in> set xs \<Longrightarrow> a \<in> set (f x) \<Longrightarrow> a \<in> set (f y) \<Longrightarrow> x = y"
  by (induction xs) fastforce+

lemma one_owner:
  assumes "directory_wf d" and "x \<in> set (dr_identities d)" and "y \<in> set (dr_identities d)"
  shows "app \<in> set (app_ids_of x) \<Longrightarrow> app \<in> set (app_ids_of y) \<Longrightarrow> x = y"
    "owns_vault x store \<Longrightarrow> owns_vault y store \<Longrightarrow> x = y"
  using distinct_concat_map_same [OF directory_wfD(3) [OF assms(1)] assms(2,3)]
    distinct_concat_map_same [OF directory_wfD(4) [OF assms(1)] assms(2,3)] by (auto simp: owns_vault_stores)

lemma reconcile_dek_wf:
  assumes "directory_wf d" and "reconcile_vault_dek c d k store rc = Inr (d', i)"
  shows "directory_wf d'"
proof -
  obtain owner where owner: "vault_owner store (dr_identities d) = Some owner"
    and d1: "and_then (take_identity d (ir_identity_id owner)) (\<lambda>t.
      and_then (update_detached t (\<lambda>r. reconcile_legacy_vault_member c r k store rc)) (\<lambda>d'. Inr (d', ir_identity_id owner))) = Inr (d', i)"
    using assms(2) by (auto simp: reconcile_vault_dek_def reconciliation_owner_def and_then_Inr_iff split: sum.splits option.splits)
  have "and_then (take_identity d (ir_identity_id owner)) (\<lambda>t. update_detached t (\<lambda>r. reconcile_legacy_vault_member c r k store rc)) = Inr d'"
    using d1 by (auto simp: and_then_Inr_iff)
  then show ?thesis by (rule reconciling_wf(1) [OF assms(1) owner])
qed

lemma opened_wf:
  assumes "directory_wf d" and "owns_vault (dr_identities d ! n) store \<or> store \<notin> owned_stores d"
    and "position (\<lambda>r. ir_identity_id r = i) (dr_identities d) = Some n"
    and "open_or_generate_vault_dek c drawn (dr_identities d ! n) k store = Inr (r', keys)"
  shows "directory_wf (d\<lparr>dr_identities := (dr_identities d)[n := r']\<rparr>)"
  using confined_record_wf [OF assms(1,3) opened_or_made [OF assms(4)]] assms(2) by auto

lemma opening_owner_Inr:
  assumes "opening_owner d k store = Inr owner"
  shows "ak_app_id k \<notin> set (dr_retired_app_ids d)" "owner \<in> set (dr_identities d)" "owns_vault owner store \<or> store \<notin> owned_stores d"
    "vault_owner store (dr_identities d) = Some owner
      \<or> vault_owner store (dr_identities d) = None \<and> dr_selection d = Selected (ir_identity_id owner)"
proof -
  have active: "ensure_app_key_active d k = Inr ()"
    and owner: "(case vault_owner store (dr_identities d) of Some r \<Rightarrow> Inr r | None \<Rightarrow> selected d) = Inr owner"
    using assms by (auto simp: opening_owner_def and_then_Inr_iff)
  show "ak_app_id k \<notin> set (dr_retired_app_ids d)" using active by (auto simp: ensure_app_key_active_def split: if_splits)
  show "owner \<in> set (dr_identities d)" "owns_vault owner store \<or> store \<notin> owned_stores d"
    "vault_owner store (dr_identities d) = Some owner
      \<or> vault_owner store (dr_identities d) = None \<and> dr_selection d = Selected (ir_identity_id owner)"
    using owner by (auto simp: selected_def find_identity_def vault_owner_None split: option.splits identity_selection.splits
        dest!: vault_owner_Some find_SomeD)
qed

lemma directory_opening:
  assumes "directory_wf d" and "directory_open_or_generate c drawn d k store = Inr (d', keys)"
  obtains owner n r' where "opening_owner d k store = Inr owner"
    "position (\<lambda>r. ir_identity_id r = ir_identity_id owner) (dr_identities d) = Some n" "dr_identities d ! n = owner"
    "open_or_generate_vault_dek c drawn owner k store = Inr (r', keys)" "d' = d\<lparr>dr_identities := (dr_identities d)[n := r']\<rparr>"
proof -
  obtain owner where owner: "opening_owner d k store = Inr owner"
    and d1: "and_then (take_identity d (ir_identity_id owner)) (\<lambda>t. open_keys_detached t (\<lambda>r. open_or_generate_vault_dek c drawn r k store)) = Inr (d', keys)"
    using assms(2) by (auto simp: directory_open_or_generate_def vault_opening_identity_def and_then_Inr_iff split: sum.splits)
  obtain n r' where n: "position (\<lambda>r. ir_identity_id r = ir_identity_id owner) (dr_identities d) = Some n"
    and r': "open_or_generate_vault_dek c drawn (dr_identities d ! n) k store = Inr (r', keys)"
    and d': "d' = d\<lparr>dr_identities := (dr_identities d)[n := r']\<rparr>" using d1 by (rule opening_Inr)
  have "dr_identities d ! n = owner" using record_of_id [OF assms(1) opening_owner_Inr(2) [OF owner] n] .
  then show ?thesis using that [OF owner n _ _ d'] r' by simp
qed

lemma open_or_generate_directory_wf:
  assumes "directory_wf d" and "directory_open_or_generate c drawn d k store = Inr (d', keys)"
  shows "directory_wf d'"
proof -
  obtain owner n r' where owner: "opening_owner d k store = Inr owner"
    and n: "position (\<lambda>r. ir_identity_id r = ir_identity_id owner) (dr_identities d) = Some n" "dr_identities d ! n = owner"
    and r': "open_or_generate_vault_dek c drawn owner k store = Inr (r', keys)"
    and d': "d' = d\<lparr>dr_identities := (dr_identities d)[n := r']\<rparr>"
    using assms by (rule directory_opening)
  show ?thesis unfolding d' using opened_wf [OF assms(1) _ n(1)] opening_owner_Inr(3) [OF owner] r' n(2) by blast
qed

lemma open_for_identity_wf:
  assumes "directory_wf d" and "open_or_generate_for_identity c drawn d i k store = Inr (d', keys)"
  shows "directory_wf d'"
proof -
  have admitted: "\<not> list_ex (\<lambda>r. owns_vault r store \<and> ir_identity_id r \<noteq> i) (dr_identities d)"
    and d1: "and_then (take_identity d i) (\<lambda>t. open_keys_detached t (\<lambda>r. open_or_generate_vault_dek c drawn r k store)) = Inr (d', keys)"
    using assms(2) by (auto simp: open_or_generate_for_identity_def admit_owned_vault_opening_def and_then_Inr_iff split: sum.splits if_splits)
  obtain n r' where n: "position (\<lambda>r. ir_identity_id r = i) (dr_identities d) = Some n"
    and r': "open_or_generate_vault_dek c drawn (dr_identities d ! n) k store = Inr (r', keys)"
    and d': "d' = d\<lparr>dr_identities := (dr_identities d)[n := r']\<rparr>" using d1 by (rule opening_Inr)
  have "owns_vault (dr_identities d ! n) store \<or> store \<notin> owned_stores d"
  proof (rule disjCI)
    assume "\<not> store \<notin> owned_stores d"
    then obtain r where r: "r \<in> set (dr_identities d)" "owns_vault r store" by (auto simp: owned_stores_def owns_vault_stores)
    then have "ir_identity_id r = i" using admitted by (auto simp: list_ex_iff)
    then show "owns_vault (dr_identities d ! n) store" using record_of_id [OF assms(1) r(1)] n r(2) by simp
  qed
  then show ?thesis unfolding d' using opened_wf [OF assms(1) _ n r'] by simp
qed

lemma set_signing_key_wf:
  assumes "directory_wf d" and "directory_set_signing_key d i app key = Inr d'"
  shows "directory_wf d'"
proof -
  obtain n r' where n: "position (\<lambda>r. ir_identity_id r = i) (dr_identities d) = Some n"
    and r': "set_member_signing_public_key (dr_identities d ! n) app key = Inr r'"
    and d': "d' = d\<lparr>dr_identities := (dr_identities d)[n := r']\<rparr>"
    using assms(2) unfolding directory_set_signing_key_def by (rule updating_Inr)
  show ?thesis unfolding d' using confined_record_wf [OF assms(1) n signing [OF r']] by blast
qed

subsection \<open>The mirror of the replicated log\<close>

lemma mirror_member_apps:
  assumes "mirror_member s m = Inr s'" and "distinct (map lm_app_id (fst s))"
  shows "distinct (map lm_app_id (fst s'))" "member_apps (fst s') = insert (lm_app_id m) (member_apps (fst s))"
proof -
  show "distinct (map lm_app_id (fst s'))"
    using assms by (auto simp: mirror_member_def map_update_first find_member_None split: option.splits if_splits)
  show "member_apps (fst s') = insert (lm_app_id m) (member_apps (fst s))"
  proof (cases "find_member (lm_app_id m) (fst s)")
    case None
    then show ?thesis using assms(1) by (auto simp: mirror_member_def)
  next
    case (Some local)
    have "map lm_app_id (fst s') = map lm_app_id (fst s)"
      using assms(1) Some by (auto simp: mirror_member_def map_update_first split: if_splits)
    then have "member_apps (fst s') = member_apps (fst s)" by (metis list.set_map)
    moreover have "lm_app_id m \<in> member_apps (fst s)" using find_member_Some [OF Some] by (metis imageI)
    ultimately show ?thesis by auto
  qed
qed

lemma mirror_fold_apps:
  assumes "fold_result mirror_member s ms = Inr s'" and "distinct (map lm_app_id (fst s))"
  shows "distinct (map lm_app_id (fst s'))" "member_apps (fst s') = member_apps (fst s) \<union> member_apps ms"
proof -
  have "distinct (map lm_app_id (fst s')) \<and> member_apps (fst s') = member_apps (fst s) \<union> member_apps ms"
    using assms
  proof (induction ms arbitrary: s)
    case (Cons m ms)
    then obtain s1 where s1: "mirror_member s m = Inr s1" "fold_result mirror_member s1 ms = Inr s'" by (auto simp: and_then_Inr_iff)
    note one = mirror_member_apps [OF s1(1) Cons.prems(2)]
    show ?case using Cons.IH [OF s1(2) one(1)] one(2) by auto
  qed simp
  then show "distinct (map lm_app_id (fst s'))" "member_apps (fst s') = member_apps (fst s) \<union> member_apps ms" by simp_all
qed

lemma refilled_grant_wf:
  assumes "grant_wf apps d" and "own \<in> apps"
  shows "grant_wf apps (refill_grant own g d)"
proof -
  have "map me_app_id (filter (\<lambda>e. me_app_id e \<noteq> own) (dk_members_envelopes d))
      = map me_app_id (filter (\<lambda>e. me_app_id e \<noteq> own) (dk_secrets_envelopes d))"
    using assms(1) unfolding map_filter_key [of me_app_id "\<lambda>a. a \<noteq> own"] by (simp add: grant_wf_def)
  then show ?thesis using assms by (auto simp: grant_wf_def refill_grant_def distinct_map_filter)
qed

text \<open>The vaults after a replicated grant: well-formed grants of distinct vaults.\<close>

definition grants_wf :: "app_id set \<Rightarrow> vault_dek list \<Rightarrow> bool" where
  "grants_wf apps ds \<longleftrightarrow> distinct (map dk_store_id ds) \<and> (\<forall>d\<in>set ds. grant_wf apps d)"

lemma refill_store [simp]: "dk_store_id (refill_grant own g d) = dk_store_id d"
  by (simp add: refill_grant_def)

lemma find_dek_None: "find_dek store ds = None \<longleftrightarrow> store \<notin> dk_store_id ` set ds"
  by (simp add: find_dek_def find_None_iff_key)

lemma mirror_grant_wf:
  assumes "mirror_grant c q s g = Inr s'" and "grants_wf apps (fst s)" and "ak_app_id (rm_app_key q) \<in> apps"
  shows "grants_wf apps (fst s')"
proof -
  let ?own = "ak_app_id (rm_app_key q)"
  have cases: "s' = s
    \<or> (\<exists>d. find_dek (rg_store_id g) (fst s) = Some d)
        \<and> fst s' = update_first (\<lambda>d. dk_store_id d = rg_store_id g) (refill_grant ?own g) (fst s)
    \<or> find_dek (rg_store_id g) (fst s) = None \<and> fst s' = fst s @ [\<lparr>dk_store_id = rg_store_id g, dk_key_epoch = LegacyUnknown,
                   dk_secrets_envelopes = [\<lparr>me_app_id = ?own, me_envelope = rg_secrets_envelope g\<rparr>],
                   dk_members_envelopes = [\<lparr>me_app_id = ?own, me_envelope = rg_members_envelope g\<rparr>]\<rparr>]"
  proof (cases "rg_store_id g \<in> set (rm_removed_vaults q)")
    case True
    then show ?thesis using assms(1) by (simp add: mirror_grant_def)
  next
    case False
    then show ?thesis using assms(1)
      by (cases "find_dek (rg_store_id g) (fst s)") (auto simp: mirror_grant_def and_then_Inr_iff Let_def)
  qed
  then show ?thesis
  proof (elim disjE conjE)
    assume new: "fst s' = update_first (\<lambda>d. dk_store_id d = rg_store_id g) (refill_grant ?own g) (fst s)"
    have "set (fst s') \<subseteq> set (fst s) \<union> refill_grant ?own g ` set (fst s)"
      unfolding new using set_update_first by fastforce
    moreover have "map dk_store_id (fst s') = map dk_store_id (fst s)" unfolding new by (simp add: map_update_first)
    ultimately show ?thesis using assms(2,3) refilled_grant_wf by (fastforce simp: grants_wf_def)
  next
    assume "find_dek (rg_store_id g) (fst s) = None" and "fst s' = fst s @ [\<lparr>dk_store_id = rg_store_id g, dk_key_epoch = LegacyUnknown,
                   dk_secrets_envelopes = [\<lparr>me_app_id = ?own, me_envelope = rg_secrets_envelope g\<rparr>],
                   dk_members_envelopes = [\<lparr>me_app_id = ?own, me_envelope = rg_members_envelope g\<rparr>]\<rparr>]"
    then show ?thesis using assms(2,3) by (auto simp: grants_wf_def find_dek_None grant_wf_def)
  qed (use assms(2) in simp)
qed

lemma mirrored_record_simps [simp]:
  "ir_members (fst (mirrored_record r ms granted)) = ms" "ir_vault_deks (fst (mirrored_record r ms granted)) = fst granted"
  "ir_identity_id (fst (mirrored_record r ms granted)) = ir_identity_id r" "snd (mirrored_record r ms granted) = snd granted"
  by (simp_all add: mirrored_record_def Let_def)

lemma record_apply_Inr:
  assumes "record_apply_replicated c elsewhere q r = Inr p"
  obtains mirrored granted where "ak_app_id (rm_app_key q) \<notin> set (rm_revoked q)" "\<exists>m. bound_member c r (rm_app_key q) = Inr m"
    "fold_result mirror_member (ir_members r, False) (filter (\<lambda>m. lm_app_id m \<notin> elsewhere) (rm_members q)) = Inr mirrored"
    "fold_result (mirror_grant c q)
       (retain_vaults q (ir_vault_deks r) (snd (retain_members q mirrored))) (rm_own_grants q) = Inr granted"
    "p = mirrored_record r (fst (retain_members q mirrored)) granted"
  using assms by (auto simp: record_apply_replicated_def and_then_Inr_iff split: if_splits)

lemma record_apply_wf:
  assumes "record_wf r" and "record_apply_replicated c elsewhere q r = Inr p"
  shows "record_wf (fst p)" "ir_identity_id (fst p) = ir_identity_id r"
proof -
  obtain mirrored granted where own: "ak_app_id (rm_app_key q) \<notin> set (rm_revoked q)" "\<exists>m. bound_member c r (rm_app_key q) = Inr m"
    and mirrored: "fold_result mirror_member (ir_members r, False) (filter (\<lambda>m. lm_app_id m \<notin> elsewhere) (rm_members q)) = Inr mirrored"
    and granted: "fold_result (mirror_grant c q)
       (retain_vaults q (ir_vault_deks r) (snd (retain_members q mirrored))) (rm_own_grants q) = Inr granted"
    and p: "p = mirrored_record r (fst (retain_members q mirrored)) granted"
    using assms(2) by (rule record_apply_Inr)
  note mf = mirror_fold_apps [OF mirrored]
  have dist: "distinct (map lm_app_id (fst mirrored))" using mf(1) record_wfD(1) [OF assms(1)] by simp
  have apps: "member_apps (ir_members r) \<subseteq> member_apps (fst mirrored)" using mf(2) record_wfD(1) [OF assms(1)] by simp
  let ?members = "fst (retain_members q mirrored)"
  have members: "?members = filter (\<lambda>m. lm_app_id m \<notin> set (rm_revoked q)) (fst mirrored)" by (simp add: retain_members_def Let_def)
  have kept: "a \<in> member_apps ?members" if "a \<in> member_apps (ir_members r)" "a \<notin> set (rm_revoked q)" for a
    using that apps unfolding members by fastforce
  have "grants_wf (member_apps ?members) (fst (retain_vaults q (ir_vault_deks r) b))" for b
  proof -
    have "map dk_store_id (map (drop_revoked_envelopes (rm_revoked q)) (ir_vault_deks r)) = map dk_store_id (ir_vault_deks r)"
      by (simp add: drop_revoked_envelopes_def retain_envelopes_def)
    then have "distinct (map dk_store_id (fst (retain_vaults q (ir_vault_deks r) b)))"
      using record_wfD(2) [OF assms(1)] by (simp only: retain_vaults_def Let_def fst_conv distinct_map_filter)
    moreover have "grant_wf (member_apps ?members) (drop_revoked_envelopes (rm_revoked q) d)" if "d \<in> set (ir_vault_deks r)" for d
      unfolding drop_revoked_envelopes_def by (rule retained_grant_wf [OF record_wfD(3) [OF assms(1) that]]) (rule kept)
    ultimately show ?thesis by (auto simp: grants_wf_def retain_vaults_def Let_def)
  qed
  moreover have "ak_app_id (rm_app_key q) \<in> member_apps ?members" using own bound_member_mem(3) kept by blast
  ultimately have "grants_wf (member_apps ?members) (fst granted)"
    using fold_result_invariant [OF granted, of "\<lambda>s. grants_wf (member_apps ?members) (fst s)"] mirror_grant_wf by blast
  then show "record_wf (fst p)" unfolding record_wf_def grants_wf_def p
    using dist by (simp add: members distinct_map_filter)
  show "ir_identity_id (fst p) = ir_identity_id r" by (simp add: p)
qed

text \<open>Replicated changes validate the directory they answer; the records stay well formed.\<close>

lemma validated_wf:
  assumes "validated_directory candidate = Inr d" and "\<And>r. r \<in> set (dr_identities candidate) \<Longrightarrow> record_wf r"
  shows "directory_wf d" "d = candidate"
proof -
  have "validate_directory candidate = Inr ()" "d = candidate"
    using assms(1) by (auto simp: validated_directory_def and_then_Inr_iff)
  then show "directory_wf d" "d = candidate" using assms(2) by (simp_all add: directory_wf_def validate_directory_iff)
qed

lemma update_first_mem: "x \<in> set (update_first P (\<lambda>_. r) xs) \<Longrightarrow> x = r \<or> x \<in> set xs"
  using set_update_first [of P "\<lambda>_. r" xs] by auto

lemma find_identity_Some: "find_identity i rs = Some r \<Longrightarrow> r \<in> set rs \<and> ir_identity_id r = i"
  by (auto simp: find_identity_def dest: find_SomeD)

lemma apply_membership_wf:
  assumes "directory_wf d" and "apply_replicated_membership c d q = Inr d'"
  shows "directory_wf d'"
proof -
  obtain r p where r: "find_identity (rm_identity_id q) (dr_identities d) = Some r"
    and p: "record_apply_replicated c (listed_elsewhere d (rm_identity_id q)) q r = Inr p"
    and v: "validated_directory (d\<lparr>dr_identities :=
        update_first (\<lambda>r. ir_identity_id r = rm_identity_id q) (\<lambda>_. fst p) (dr_identities d)\<rparr>) = Inr d'"
    using assms(2) by (auto simp: apply_replicated_membership_def and_then_Inr_iff split: option.splits)
  have "record_wf r" using directory_wfD(6) [OF assms(1)] find_identity_Some [OF r] by blast
  then have "record_wf (fst p)" using record_apply_wf(1) p by blast
  then show ?thesis using directory_wfD(6) [OF assms(1)]
    by (intro validated_wf(1) [OF v]) (auto dest!: update_first_mem)
qed

lemma relabelled_wf: "relabelled l r = Inr r' \<Longrightarrow> record_wf r \<Longrightarrow> record_wf r'"
  by (auto simp: relabelled_def Let_def record_wf_def split: adopted_label.splits if_splits)

lemma adopt_wf:
  assumes "directory_wf d" and "adopt_replicated_identity d local replicated l = Inr d'"
  shows "directory_wf d'"
proof -
  obtain r adopted where r: "find_identity local (dr_identities d) = Some r"
    and adopted: "relabelled l (advance (r\<lparr>ir_identity_id := replicated\<rparr>)) = Inr adopted"
    and v: "validated_directory (d\<lparr>dr_identities :=
                update_first (\<lambda>r. ir_identity_id r = local) (\<lambda>_. adopted) (dr_identities d),
              dr_selection := (if dr_selection d = Selected local then Selected replicated else dr_selection d)\<rparr>) = Inr d'"
    using assms(2) by (auto simp: adopt_replicated_identity_def and_then_Inr_iff split: option.splits if_splits)
  have "record_wf r" using directory_wfD(6) [OF assms(1)] find_identity_Some [OF r] by blast
  then have "record_wf (advance (r\<lparr>ir_identity_id := replicated\<rparr>))" by (simp add: record_wf_def)
  then have "record_wf adopted" using relabelled_wf [OF adopted] by blast
  then show ?thesis using directory_wfD(6) [OF assms(1)]
    by (intro validated_wf(1) [OF v]) (auto dest!: update_first_mem)
qed

lemma add_replicated_wf:
  assumes "directory_wf d" and "add_replicated_identity c generated d label q = Inr d'"
  shows "directory_wf d'"
proof -
  obtain membership where m: "identity_for_app_key c d (rm_app_key q) = Inr membership"
    using assms(2) by (auto simp: add_replicated_identity_def and_then_Inr_iff split: if_splits)
  moreover have "membership = Unenrolled"
    using assms(2) m by (cases membership) (auto simp: add_replicated_identity_def split: if_splits)
  ultimately obtain r p where r: "create_with_app_key c generated (trim label) (rm_app_key q) UnnamedMember = Inr r"
    and p: "record_apply_replicated c (listed_elsewhere d (rm_identity_id q)) q (r\<lparr>ir_identity_id := rm_identity_id q\<rparr>) = Inr p"
    and v: "validated_directory (d\<lparr>dr_identities := dr_identities d @ [fst p],
        dr_selection := (if dr_selection d = SelectionEmpty then Selected (rm_identity_id q) else dr_selection d)\<rparr>) = Inr d'"
    using assms(2) by (auto simp: add_replicated_identity_def and_then_Inr_iff Let_def split: if_split_asm)
  have "record_wf (r\<lparr>ir_identity_id := rm_identity_id q\<rparr>)" using create_wf [OF r] by (simp add: record_wf_def)
  then have "record_wf (fst p)" using record_apply_wf(1) p by blast
  then show ?thesis using directory_wfD(6) [OF assms(1)] by (intro validated_wf(1) [OF v]) auto
qed

lemma listed_apps_concat: "listed_apps d = set (concat (map app_ids_of (dr_identities d)))"
  by (simp add: listed_apps_def)

lemma relabel_all_wf:
  assumes "directory_wf d"
  shows "directory_wf (d\<lparr>dr_identities := map (\<lambda>r. if P r then r\<lparr>ir_label := label\<rparr> else r) (dr_identities d)\<rparr>)"
proof -
  let ?f = "\<lambda>r. if P r then r\<lparr>ir_label := label\<rparr> else r"
  have same: "ir_identity_id \<circ> ?f = ir_identity_id" "app_ids_of \<circ> ?f = app_ids_of" "stores_of \<circ> ?f = stores_of"
    by (auto simp: app_ids_of_def stores_of_def)
  note wf = directory_wfD [OF assms]
  have "listed_apps (d\<lparr>dr_identities := map ?f (dr_identities d)\<rparr>) = listed_apps d"
    by (simp add: listed_apps_concat same del: set_concat)
  moreover have "ir_identity_id ` set (map ?f (dr_identities d)) = ir_identity_id ` set (dr_identities d)"
    by (simp only: set_map image_comp same)
  moreover have "\<forall>r\<in>set (map ?f (dr_identities d)). record_wf r" using wf(6) by (auto simp: record_wf_def)
  ultimately show ?thesis using wf unfolding directory_wf_def directory_valid_def by (simp add: same)
qed

lemma name_fresh_wf: "directory_wf d \<Longrightarrow> name_fresh_identity c d k label log = Inr d' \<Longrightarrow> directory_wf d'"
  by (auto simp: name_fresh_identity_def and_then_Inr_iff relabel_all_wf split: if_splits)

lemma reset_wf:
  assumes "directory_wf d"
  shows "directory_wf (reset_for_device_recovery d retirement)"
proof -
  have "directory_wf (d\<lparr>dr_identities := [], dr_selection := SelectionEmpty\<rparr>)"
    using directory_wfD(1) [OF assms] by (simp add: directory_wf_def directory_valid_def listed_apps_def)
  then show ?thesis using retire_app_id_wf
    by (auto simp: reset_for_device_recovery_def Let_def listed_apps_def split: recovery_retirement.splits)
qed

text \<open>Without the record at a position.\<close>

lemma without_record_wf:
  assumes "directory_wf d" and "n < length (dr_identities d)"
    and "\<And>i. selection = Selected i \<Longrightarrow> i \<in> ir_identity_id ` set (remove_at n (dr_identities d))"
  shows "directory_wf (d\<lparr>dr_identities := remove_at n (dr_identities d), dr_selection := selection\<rparr>)"
    "app \<in> set (app_ids_of (dr_identities d ! n)) \<Longrightarrow>
      app \<notin> listed_apps (d\<lparr>dr_identities := remove_at n (dr_identities d), dr_selection := selection\<rparr>)"
proof -
  let ?rs = "remove_at n (dr_identities d)"
  note wf = directory_wfD [OF assms(1)]
  define before where "before = take n (dr_identities d)"
  define after where "after = drop (Suc n) (dr_identities d)"
  have old: "dr_identities d = before @ dr_identities d ! n # after" and new: "?rs = before @ after"
    using split_at [OF assms(2)] by (simp_all add: before_def after_def remove_at_def)
  have apps: "distinct (concat (map app_ids_of (before @ dr_identities d ! n # after)))"
    and stores: "distinct (concat (map stores_of (before @ dr_identities d ! n # after)))"
    using wf(3,4) old by metis+
  have "distinct (concat (map app_ids_of ?rs))" "distinct (concat (map stores_of ?rs))"
    using apps stores unfolding new by auto
  moreover have "distinct (map ir_identity_id ?rs)" using distinct_remove_at [OF wf(2)] by (simp add: map_remove_at)
  moreover have "listed_apps (d\<lparr>dr_identities := ?rs, dr_selection := selection\<rparr>) \<subseteq> listed_apps d"
    using set_remove_at_subset [of n "dr_identities d"] by (auto simp: listed_apps_def)
  ultimately show "directory_wf (d\<lparr>dr_identities := ?rs, dr_selection := selection\<rparr>)"
    using wf(1,5,6) assms(3) set_remove_at_subset [of n "dr_identities d"] unfolding directory_wf_def directory_valid_def by auto
  show "app \<notin> listed_apps (d\<lparr>dr_identities := ?rs, dr_selection := selection\<rparr>)" if "app \<in> set (app_ids_of (dr_identities d ! n))"
    using apps that unfolding listed_apps_def by (simp add: new) blast
qed

subsection \<open>Retiring a local key\<close>

lemma retire_local_Inr:
  assumes "retire_local_identity_key d i app = Inr d'"
  obtains n where "directory_valid d" "position (\<lambda>r. ir_identity_id r = i) (dr_identities d) = Some n"
    "app \<in> set (app_ids_of (dr_identities d ! n))"
    "length (ir_members (dr_identities d ! n)) = 1
       \<and> d' = retire_app_id (d\<lparr>dr_identities := remove_at n (dr_identities d),
            dr_selection := (case remove_at n (dr_identities d) of [] \<Rightarrow> SelectionEmpty | first # _ \<Rightarrow> Selected (ir_identity_id first))\<rparr>) app
     \<or> (\<exists>r'. remove_member (dr_identities d ! n) app = Inr r'
         \<and> d' = retire_app_id (d\<lparr>dr_identities := (dr_identities d)[n := r']\<rparr>) app)"
proof -
  obtain n where v: "validate_directory d = Inr ()" and n: "position (\<lambda>r. ir_identity_id r = i) (dr_identities d) = Some n"
    and app: "require_retiring_member (dr_identities d ! n) app = Inr ()" and d': "retire_identity_member d n i app = Inr d'"
    using assms by (auto simp: retire_local_identity_key_def admit_local_key_retirement_def and_then_Inr_iff split: sum.splits option.splits)
  have mem: "app \<in> set (app_ids_of (dr_identities d ! n))"
    using app by (auto simp: require_retiring_member_def list_ex_iff app_ids_of_def split: if_splits)
  have at: "get_at (dr_identities d) n = Some (dr_identities d ! n)" using n by simp
  show ?thesis
  proof (cases "length (ir_members (dr_identities d ! n)) = 1")
    case True
    then show ?thesis using d' at v mem by (intro that [OF _ n]) (simp_all add: retire_identity_member_def Let_def validate_directory_iff)
  next
    case False
    then obtain d1 where d1: "and_then (take_identity d i) (\<lambda>t. update_detached t (\<lambda>r. remove_member r app)) = Inr d1"
      and d': "d' = retire_app_id d1 app"
      using d' at by (auto simp: retire_identity_member_def and_then_Inr_iff)
    obtain n' r' where "position (\<lambda>r. ir_identity_id r = i) (dr_identities d) = Some n'"
      "remove_member (dr_identities d ! n') app = Inr r'" "d1 = d\<lparr>dr_identities := (dr_identities d)[n' := r']\<rparr>"
      using d1 by (rule updating_Inr)
    then show ?thesis using v mem n d' by (intro that [OF _ n]) (auto simp: validate_directory_iff)
  qed
qed

lemma retired_in: "app \<in> set (dr_retired_app_ids (retire_app_id d app))"
  by (auto simp: retire_app_id_def)

lemma retire_identities [simp]: "dr_identities (retire_app_id d app) = dr_identities d"
  by (simp add: retire_app_id_def)

lemma removed_member_unlisted:
  assumes "directory_wf d" and "position (\<lambda>r. ir_identity_id r = i) (dr_identities d) = Some n"
    and "app \<in> set (app_ids_of (dr_identities d ! n))" and "remove_member (dr_identities d ! n) app = Inr r'"
  shows "app \<notin> listed_apps (d\<lparr>dr_identities := (dr_identities d)[n := r']\<rparr>)"
proof
  assume "app \<in> listed_apps (d\<lparr>dr_identities := (dr_identities d)[n := r']\<rparr>)"
  then obtain x where x: "x \<in> set ((dr_identities d)[n := r'])" "app \<in> set (app_ids_of x)" by (auto simp: listed_apps_def)
  note at = record_at [OF assms(1,2)]
  have gone: "app \<notin> set (app_ids_of r')" using step_apps_stores(1) [OF removing [OF assms(4)] at(2)] by simp
  have n: "n < length (dr_identities d)" using position_SomeD(1) [OF assms(2)] .
  obtain j where j: "j < length (dr_identities d)" "x = (dr_identities d)[n := r'] ! j" using x(1) by (auto simp: in_set_conv_nth)
  then have "j \<noteq> n" using x(2) gone n by auto
  then have "x = dr_identities d ! j" using j by simp
  then have same: "dr_identities d ! j = dr_identities d ! n" using one_owner(1) [OF assms(1) _ at(1) _ assms(3)] x(2) j(1) by simp
  then have "map ir_identity_id (dr_identities d) ! j = map ir_identity_id (dr_identities d) ! n" using j(1) n by simp
  then show False using directory_wfD(2) [OF assms(1)] j(1) n \<open>j \<noteq> n\<close> by (simp only: nth_eq_iff_index_eq length_map)
qed

lemma retire_local_wf:
  assumes "directory_wf d" and "retire_local_identity_key d i app = Inr d'"
  shows "directory_wf d'" "app \<in> set (dr_retired_app_ids d')"
proof -
  obtain n where n: "position (\<lambda>r. ir_identity_id r = i) (dr_identities d) = Some n"
    and mem: "app \<in> set (app_ids_of (dr_identities d ! n))"
    and d': "length (ir_members (dr_identities d ! n)) = 1
       \<and> d' = retire_app_id (d\<lparr>dr_identities := remove_at n (dr_identities d),
            dr_selection := (case remove_at n (dr_identities d) of [] \<Rightarrow> SelectionEmpty | first # _ \<Rightarrow> Selected (ir_identity_id first))\<rparr>) app
     \<or> (\<exists>r'. remove_member (dr_identities d ! n) app = Inr r'
         \<and> d' = retire_app_id (d\<lparr>dr_identities := (dr_identities d)[n := r']\<rparr>) app)"
    using assms(2) by (rule retire_local_Inr)
  show "app \<in> set (dr_retired_app_ids d')" using d' retired_in by (elim disjE exE conjE) metis+
  from d' show "directory_wf d'"
  proof (elim disjE exE conjE)
    let ?sel = "case remove_at n (dr_identities d) of [] \<Rightarrow> SelectionEmpty | first # _ \<Rightarrow> Selected (ir_identity_id first)"
    assume "d' = retire_app_id (d\<lparr>dr_identities := remove_at n (dr_identities d), dr_selection := ?sel\<rparr>) app"
    moreover have "j \<in> ir_identity_id ` set (remove_at n (dr_identities d))" if "?sel = Selected j" for j
      using that by (auto split: list.splits)
    ultimately show "directory_wf d'"
      using without_record_wf [OF assms(1) position_SomeD(1) [OF n], of ?sel] mem retire_app_id_wf by metis
  next
    fix r' assume r': "remove_member (dr_identities d ! n) app = Inr r'"
      and d': "d' = retire_app_id (d\<lparr>dr_identities := (dr_identities d)[n := r']\<rparr>) app"
    show "directory_wf d'" unfolding d'
      using confined_record_wf [OF assms(1) n removing [OF r']] removed_member_unlisted [OF assms(1) n mem r'] retire_app_id_wf by blast
  qed
qed

subsection \<open>Directories that are reached\<close>

text \<open>
  The public transitions of a directory, each under the arguments it takes: a step is a call that
  succeeds.  The identity ids and vault keys a call draws at random are among its arguments.
\<close>

datatype directory_op =
  OpCreate "identity_id multi_device" string app_key member_label
| OpSelect identity_id
| OpClear
| OpImport "identity_id multi_device" legacy_import
| OpReconcile app_key store_id dek_reconciliation
| OpOpen "vault_keys multi_device" app_key store_id
| OpOpenFor "vault_keys multi_device" identity_id app_key store_id
| OpSign identity_id app_id device_signing_public_key
| OpAddMember identity_member
| OpReplace identity_record
| OpMirror replicated_membership
| OpAdopt identity_id identity_id adopted_label
| OpAddReplicated "identity_id multi_device" string replicated_membership
| OpName app_key string local_log
| OpRetire app_id
| OpRetireLocal identity_id app_id
| OpReset recovery_retirement

inductive directory_step :: "key_crates \<Rightarrow> identity_directory \<Rightarrow> directory_op \<Rightarrow> identity_directory \<Rightarrow> bool" for c where
  creates: "create_identity c generated d label k member_label = Inr (d', i) \<Longrightarrow>
    directory_step c d (OpCreate generated label k member_label) d'"
| selects: "select_identity d i = Inr d' \<Longrightarrow> directory_step c d (OpSelect i) d'"
| clears: "directory_step c d OpClear (clear_selection d)"
| imports_vault: "import_legacy_vault c generated d q = Inr (d', i) \<Longrightarrow> directory_step c d (OpImport generated q) d'"
| reconciles: "reconcile_vault_dek c d k store rc = Inr (d', i) \<Longrightarrow> directory_step c d (OpReconcile k store rc) d'"
| opens_vault: "directory_open_or_generate c drawn d k store = Inr (d', keys) \<Longrightarrow> directory_step c d (OpOpen drawn k store) d'"
| opens_for: "open_or_generate_for_identity c drawn d i k store = Inr (d', keys) \<Longrightarrow>
    directory_step c d (OpOpenFor drawn i k store) d'"
| signs: "directory_set_signing_key d i app key = Inr d' \<Longrightarrow> directory_step c d (OpSign i app key) d'"
| adds_member: "add_selected_member d m = Inr d' \<Longrightarrow> directory_step c d (OpAddMember m) d'"
| replaces: "replace_selected d r = Inr d' \<Longrightarrow> directory_step c d (OpReplace r) d'"
| mirrors: "apply_replicated_membership c d q = Inr d' \<Longrightarrow> directory_step c d (OpMirror q) d'"
| adopts: "adopt_replicated_identity d local replicated l = Inr d' \<Longrightarrow> directory_step c d (OpAdopt local replicated l) d'"
| adds: "add_replicated_identity c generated d label q = Inr d' \<Longrightarrow> directory_step c d (OpAddReplicated generated label q) d'"
| names: "name_fresh_identity c d k label log = Inr d' \<Longrightarrow> directory_step c d (OpName k label log) d'"
| retires: "directory_step c d (OpRetire app) (retire_app_id d app)"
| retires_local: "retire_local_identity_key d i app = Inr d' \<Longrightarrow> directory_step c d (OpRetireLocal i app) d'"
| resets: "directory_step c d (OpReset retirement) (reset_for_device_recovery d retirement)"

definition fresh_identity :: "identity_directory \<Rightarrow> identity_id multi_device \<Rightarrow> bool" where
  "fresh_identity d generated \<longleftrightarrow> (\<forall>i. generated = Inr i \<longrightarrow> i \<notin> ir_identity_id ` set (dr_identities d))"

definition apart_from_others :: "identity_directory \<Rightarrow> identity_record \<Rightarrow> bool" where
  "apart_from_others d r \<longleftrightarrow> (\<forall>x\<in>set (dr_identities d). ir_identity_id x \<noteq> ir_identity_id r \<longrightarrow>
     set (app_ids_of x) \<inter> set (app_ids_of r) = {} \<and> set (stores_of x) \<inter> set (stores_of r) = {})"

text \<open>What five of the operations leave to their caller.  The others check what they need.\<close>

fun caller_condition :: "key_crates \<Rightarrow> identity_directory \<Rightarrow> directory_op \<Rightarrow> bool" where
  "caller_condition c d (OpCreate generated label k member_label) \<longleftrightarrow> ak_app_id k \<notin> listed_apps d \<and> fresh_identity d generated"
| "caller_condition c d (OpImport generated q) \<longleftrightarrow>
     (legacy_import_destination c d q = Inr NewIdentity \<longrightarrow> fresh_identity d generated)"
| "caller_condition c d (OpAddMember m) \<longleftrightarrow> lm_app_id m \<notin> listed_apps d \<union> set (dr_retired_app_ids d)"
| "caller_condition c d (OpReplace r) \<longleftrightarrow> record_wf r \<and> apart_from_others d r"
| "caller_condition c d (OpRetire app) \<longleftrightarrow> app \<notin> listed_apps d"
| "caller_condition c d op \<longleftrightarrow> True"

definition directory_call :: "key_crates \<Rightarrow> identity_directory \<Rightarrow> identity_directory \<Rightarrow> bool" where
  "directory_call c d d' \<longleftrightarrow> (\<exists>op. directory_step c d op d')"

definition careful_call :: "key_crates \<Rightarrow> identity_directory \<Rightarrow> identity_directory \<Rightarrow> bool" where
  "careful_call c d d' \<longleftrightarrow> (\<exists>op. directory_step c d op d' \<and> caller_condition c d op)"

lemma select_wf: "directory_wf d \<Longrightarrow> select_identity d i = Inr d' \<Longrightarrow> directory_wf d'"
  by (auto simp: select_identity_def list_ex_iff intro!: selected_wf split: if_splits)

text \<open>A member added to the selected record, and a record in its place.\<close>

lemma add_selected_Inr:
  assumes "directory_wf d" and "add_selected_member d m = Inr d'"
  obtains n r' where "n < length (dr_identities d)" "record_wf (dr_identities d ! n)" "add_member (dr_identities d ! n) m = Inr r'"
    "position (\<lambda>r. ir_identity_id r = ir_identity_id (dr_identities d ! n)) (dr_identities d) = Some n"
    "d' = d\<lparr>dr_identities := (dr_identities d)[n := r']\<rparr>"
proof -
  obtain r :: identity_record where "and_then (take_identity d (ir_identity_id r)) (\<lambda>t. update_detached t (\<lambda>r. add_member r m)) = Inr d'"
    using assms(2) by (auto simp: add_selected_member_def split: sum.splits)
  then obtain n r' where n: "position (\<lambda>x. ir_identity_id x = ir_identity_id r) (dr_identities d) = Some n"
    and r': "add_member (dr_identities d ! n) m = Inr r'" "d' = d\<lparr>dr_identities := (dr_identities d)[n := r']\<rparr>" by (rule updating_Inr)
  show ?thesis using that position_SomeD(1) [OF n] record_at(2,3) [OF assms(1) n] r' n by metis
qed

lemma replace_selected_Inr:
  assumes "directory_wf d" and "replace_selected d r = Inr d'"
  obtains n where "n < length (dr_identities d)" "ir_identity_id (dr_identities d ! n) = ir_identity_id r"
    "set (app_ids_of r) \<inter> set (dr_retired_app_ids d) = {}" "d' = d\<lparr>dr_identities := (dr_identities d)[n := r]\<rparr>"
proof -
  obtain n where n: "position (\<lambda>x. ir_identity_id x = ir_identity_id r) (dr_identities d) = Some n"
    and active: "\<not> list_ex (\<lambda>m. lm_app_id m \<in> set (dr_retired_app_ids d)) (ir_members r)"
    and d': "d' = d\<lparr>dr_identities := (dr_identities d)[n := r]\<rparr>"
    using assms(2) by (auto simp: replace_selected_def split: if_splits option.splits)
  have "set (app_ids_of r) \<inter> set (dr_retired_app_ids d) = {}" using active by (auto simp: list_ex_iff app_ids_of_def)
  then show ?thesis using that position_SomeD(1) [OF n] record_at(3) [OF assms(1) n] d' by blast
qed

lemma add_selected_wf:
  assumes "directory_wf d" and "add_selected_member d m = Inr d'" and "lm_app_id m \<notin> listed_apps d \<union> set (dr_retired_app_ids d)"
  shows "directory_wf d'"
proof -
  obtain n r' where r': "add_member (dr_identities d ! n) m = Inr r'"
    and n: "position (\<lambda>r. ir_identity_id r = ir_identity_id (dr_identities d ! n)) (dr_identities d) = Some n"
    and d': "d' = d\<lparr>dr_identities := (dr_identities d)[n := r']\<rparr>" using assms(1,2) by (rule add_selected_Inr)
  show ?thesis unfolding d' using assms(3) by (intro stepped_record_wf [OF assms(1) n adding [OF r']]) auto
qed

lemma replace_selected_wf:
  assumes "directory_wf d" and "replace_selected d r = Inr d'" and "record_wf r" and "apart_from_others d r"
  shows "directory_wf d'"
proof -
  obtain n where n: "n < length (dr_identities d)" "ir_identity_id (dr_identities d ! n) = ir_identity_id r"
    and active: "set (app_ids_of r) \<inter> set (dr_retired_app_ids d) = {}" and d': "d' = d\<lparr>dr_identities := (dr_identities d)[n := r]\<rparr>"
    using assms(1,2) by (rule replace_selected_Inr)
  have own: "x = dr_identities d ! n" if "x \<in> set (dr_identities d)" "ir_identity_id x = ir_identity_id r" for x
    using directory_wfD(2) [OF assms(1)] that n by (metis distinct_map inj_onD nth_mem)
  show ?thesis unfolding d'
  proof (rule replaced_record_wf [OF assms(1) n(1) n(2) [symmetric] assms(3)])
    show "a \<in> set (app_ids_of (dr_identities d ! n)) \<or> a \<notin> listed_apps d \<union> set (dr_retired_app_ids d)" if "a \<in> set (app_ids_of r)" for a
      using that assms(4) active own unfolding apart_from_others_def listed_apps_def by blast
    show "s \<in> set (stores_of (dr_identities d ! n)) \<or> s \<notin> owned_stores d" if "s \<in> set (stores_of r)" for s
      using that assms(4) own unfolding apart_from_others_def owned_stores_def by blast
  qed
qed

lemma step_wf:
  assumes "directory_step c d op d'" and "directory_wf d" and "caller_condition c d op"
  shows "directory_wf d'"
  using assms
proof (induction rule: directory_step.induct)
  case (creates generated d label k member_label d' i)
  then show ?case by (auto simp: fresh_identity_def intro: create_identity_wf)
next
  case (imports_vault generated d q d' i)
  then show ?case by (auto simp: fresh_identity_def intro: import_legacy_wf)
qed (auto intro: select_wf reconcile_dek_wf open_or_generate_directory_wf open_for_identity_wf set_signing_key_wf
      apply_membership_wf adopt_wf add_replicated_wf name_fresh_wf retire_app_id_wf retire_local_wf(1) reset_wf selection_wf
      add_selected_wf replace_selected_wf simp: clear_selection_def)

interpretation dir_state: owned_state directory_wf "careful_call c" for c
  by unfold_locales (auto simp: careful_call_def intro: step_wf)

subsection \<open>The conditions are needed\<close>

lemma appended_record:
  assumes "directory_wf (d\<lparr>dr_identities := dr_identities d @ [r], dr_selection := selection\<rparr>)"
  shows "ir_identity_id r \<notin> ir_identity_id ` set (dr_identities d)" "set (app_ids_of r) \<inter> listed_apps d = {}"
  using assms by (auto simp: directory_wf_def directory_valid_def listed_apps_def)

lemma updated_record_apart:
  assumes "directory_wf d" and "n < length (dr_identities d)" and "ir_identity_id (dr_identities d ! n) = ir_identity_id r"
    and "directory_wf (d\<lparr>dr_identities := (dr_identities d)[n := r]\<rparr>)"
  shows "record_wf r" "apart_from_others d r" "set (app_ids_of r) \<inter> set (dr_retired_app_ids d) = {}"
proof -
  let ?d = "d\<lparr>dr_identities := (dr_identities d)[n := r]\<rparr>"
  have r: "r \<in> set (dr_identities ?d)" using assms(2) by (simp add: set_update_memI)
  then show "record_wf r" using directory_wfD(6) [OF assms(4)] by blast
  show "set (app_ids_of r) \<inter> set (dr_retired_app_ids d) = {}" using directory_wfD(5) [OF assms(4)] r by (auto simp: listed_apps_def)
  have other: "x \<in> set (dr_identities ?d)" if "x \<in> set (dr_identities d)" "ir_identity_id x \<noteq> ir_identity_id r" for x
  proof -
    obtain j where "j < length (dr_identities d)" "x = dr_identities d ! j" using \<open>x \<in> set (dr_identities d)\<close> by (auto simp: in_set_conv_nth)
    moreover have "j \<noteq> n" using that(2) assms(3) calculation(2) by auto
    ultimately show ?thesis by (auto simp: in_set_conv_nth intro!: exI [of _ j])
  qed
  show "apart_from_others d r" unfolding apart_from_others_def
    using one_owner [OF assms(4) other r] by (auto simp: owns_vault_stores)
qed

lemma step_needs:
  assumes "directory_step c d op d'" and "directory_wf d" and "directory_wf d'"
  shows "caller_condition c d op"
  using assms
proof (induction rule: directory_step.induct)
  case (creates generated d label k member_label d' i)
  then obtain r where r: "create_with_app_key c generated (trim label) k member_label = Inr r"
    and d': "d' = d\<lparr>dr_identities := dr_identities d @ [r], dr_selection := Selected (ir_identity_id r)\<rparr>"
    by (auto simp: create_identity_def and_then_Inr_iff Let_def split: if_splits)
  show ?case using created_record(1,3) [OF r] appended_record creates.prems(2) unfolding d' by (fastforce simp: fresh_identity_def)
next
  case (imports_vault generated d q d' i)
  have "fresh_identity d generated" if new: "legacy_import_destination c d q = Inr NewIdentity"
  proof -
    obtain r where r: "synthesize_from_legacy_vault generated (li_label q) (app_key_member c (li_app_key q) UnnamedMember)
        (li_store_id q) (rc_secrets_envelope (li_reconciliation q)) (rc_members_envelope (li_reconciliation q))
        (committed_epoch (rc_epoch_update (li_reconciliation q))) = Inr r"
      and d': "d' = d\<lparr>dr_identities := dr_identities d @ [r], dr_selection := Selected (ir_identity_id r)\<rparr>"
      using imports_vault.hyps new
      by (auto simp: import_legacy_vault_def import_new_legacy_identity_def and_then_Inr_iff Let_def select_resolved_def)
    show ?thesis using synthesized_record(1) [OF r] appended_record(1) imports_vault.prems(2) unfolding d' by (fastforce simp: fresh_identity_def)
  qed
  then show ?case by simp
next
  case (adds_member d m d')
  obtain n r' where n: "n < length (dr_identities d)" and r': "add_member (dr_identities d ! n) m = Inr r'"
    and d': "d' = d\<lparr>dr_identities := (dr_identities d)[n := r']\<rparr>" using adds_member.prems(1) adds_member.hyps by (rule add_selected_Inr)
  have own: "lm_app_id m \<notin> set (app_ids_of (dr_identities d ! n))" and new: "lm_app_id m \<in> set (app_ids_of r')"
    and id: "ir_identity_id (dr_identities d ! n) = ir_identity_id r'"
    using r' by (auto simp: add_member_Inr app_ids_of_def)
  note apart = updated_record_apart [OF adds_member.prems(1) n id adds_member.prems(2) [unfolded d']]
  have "x = dr_identities d ! n" if "x \<in> set (dr_identities d)" "ir_identity_id x = ir_identity_id r'" for x
    using directory_wfD(2) [OF adds_member.prems(1)] that n id by (metis distinct_map inj_onD nth_mem)
  then have "lm_app_id m \<notin> listed_apps d" using apart(2) own new unfolding apart_from_others_def listed_apps_def by blast
  then show ?case using apart(3) new by auto
next
  case (replaces d r d')
  obtain n where n: "n < length (dr_identities d)" "ir_identity_id (dr_identities d ! n) = ir_identity_id r"
    and d': "d' = d\<lparr>dr_identities := (dr_identities d)[n := r]\<rparr>" using replaces.prems(1) replaces.hyps by (rule replace_selected_Inr)
  show ?case using updated_record_apart(1,2) [OF replaces.prems(1) n replaces.prems(2) [unfolded d']] by simp
next
  case (retires d app)
  then show ?case using directory_wfD(5) [of "retire_app_id d app"] by (auto simp: retire_app_id_def listed_apps_def split: if_splits)
qed simp_all

lemma empty_directory_wf: "directory_wf empty_directory"
  by (simp add: empty_directory_def directory_wf_def directory_valid_def listed_apps_def)

text \<open>C23: Every directory reached from the empty one by calls whose caller's conditions hold passes
  validation, so it can be stored and loaded again, and no vault and no app key has two owners.  The
  conditions are that a created identity has an unlisted key and a fresh id, an imported new one a
  fresh id, an added member an unlisted and active key, a replacing record keys and vaults no other
  record has, and a key retired by its id alone is listed nowhere; every other call checks what it
  needs.  None can be dropped: from a directory reached so, a successful call leads to a well-formed
  directory exactly when its condition holds.\<close>

theorem reached_directories_validate:
  assumes "(careful_call c)\<^sup>*\<^sup>* empty_directory d"
  shows "validate_directory d = Inr ()
    \<and> (\<forall>x\<in>set (dr_identities d). \<forall>y\<in>set (dr_identities d).
        (owns_vault x store \<and> owns_vault y store \<or> has_app_id x app \<and> has_app_id y app) \<longrightarrow> x = y)
    \<and> (\<forall>op d'. directory_step c d op d' \<longrightarrow>
        (validate_directory d' = Inr () \<and> (\<forall>r\<in>set (dr_identities d'). record_wf r) \<longleftrightarrow> caller_condition c d op))"
proof -
  have wf: "directory_wf d" using dir_state.reached [OF assms empty_directory_wf] .
  have "has_app_id x app \<longleftrightarrow> app \<in> set (app_ids_of x)" for x by (auto simp: has_app_id_def list_ex_iff app_ids_of_def)
  moreover have "directory_wf d' \<longleftrightarrow> caller_condition c d op" if "directory_step c d op d'" for op d'
    using step_wf step_needs that wf by blast
  ultimately show ?thesis using wf one_owner [OF wf] unfolding validate_directory_iff directory_wf_def by blast
qed

end
