(* ===== verification/DirectoryUse.thy ===== *)
theory DirectoryUse
  imports DirectoryLaws
begin

text \<open>
  The directory in use: vaults open again whatever is selected, a retired key opens nothing, an
  invited identity is adopted as decided, the mirror of the replicated log settles, and a directory
  that skips the checks of its callers is one that validation refuses.
\<close>

subsection \<open>Opening a vault again\<close>

lemma directory_with_record:
  assumes "directory_wf d" and "r \<in> set (dr_identities d)" and "owns_vault r store"
    and "ak_app_id k \<notin> set (dr_retired_app_ids d)"
  shows "directory_open_vault_dek c d k store = open_vault_dek c r k store"
proof -
  have "vault_owner store (dr_identities d) \<noteq> None"
    using assms(2,3) by (auto simp: vault_owner_None owned_stores_def owns_vault_stores)
  then obtain owner where owner: "vault_owner store (dr_identities d) = Some owner" by blast
  then have "owner = r" using vault_owner_Some [OF owner] one_owner(2) [OF assms(1) _ assms(2)] assms(3) by blast
  then show ?thesis using owner assms(4)
    by (simp add: directory_open_vault_dek_def opening_owner_def ensure_app_key_active_def)
qed

text \<open>C25: A vault opened or generated through the directory opens to the same keys afterwards, whichever
  identity is selected by then.\<close>

theorem opened_vault_reopens_under_any_selection:
  assumes "age_laws c" and "directory_wf d" and "symmetric_keys drawn"
    and "directory_open_or_generate c (Inr drawn) d k store = Inr (d', keys)"
    and "\<And>i. selection = Selected i \<Longrightarrow> i \<in> ir_identity_id ` set (dr_identities d')"
  shows "directory_open_vault_dek c (d'\<lparr>dr_selection := selection\<rparr>) k store = Inr keys"
proof -
  obtain owner n r' where owner: "opening_owner d k store = Inr owner"
    and n: "position (\<lambda>r. ir_identity_id r = ir_identity_id owner) (dr_identities d) = Some n" "dr_identities d ! n = owner"
    and r': "open_or_generate_vault_dek c (Inr drawn) owner k store = Inr (r', keys)"
    and d': "d' = d\<lparr>dr_identities := (dr_identities d)[n := r']\<rparr>"
    using assms(2,4) by (rule directory_opening)
  have wf: "directory_wf d'" using open_or_generate_directory_wf [OF assms(2,4)] .
  have owner_wf: "record_wf owner" using directory_wfD(6) [OF assms(2)] opening_owner_Inr(2) [OF owner] .
  have stable: "existing_vault_keys c r' k store = Inr (Opened keys)"
    using r'
  proof (cases rule: open_or_generate_cases)
    case opened
    then show ?thesis using r' by (simp add: open_or_generate_vault_dek_def)
  next
    case generated
    obtain m where m: "bound_member c owner k = Inr m" using generated(1) by (auto simp: existing_vault_keys_def and_then_Inr_iff)
    have "keys = drawn" using generated(2) by (auto simp: generate_vault_dek_Inr)
    then have "open_vault_dek c r' k store = Inr keys"
      using generated_keys_open [OF assms(1) owner_wf _ generated(2) m] assms(3) by blast
    then show ?thesis by (simp add: open_vault_dek_Inr)
  qed
  then have "owns_vault r' store" by (auto simp: existing_vault_keys_def owns_vault_def and_then_Inr_iff split: option.splits)
  moreover have "r' \<in> set (dr_identities d')" unfolding d' using position_SomeD(1) [OF n(1)] by (simp add: set_update_memI)
  moreover have "ak_app_id k \<notin> set (dr_retired_app_ids d')" using opening_owner_Inr(1) [OF owner] d' by simp
  ultimately have "directory_open_vault_dek c (d'\<lparr>dr_selection := selection\<rparr>) k store = open_vault_dek c r' k store"
    using selection_wf [OF wf, of selection] assms(5) by (intro directory_with_record) simp_all
  then show ?thesis using stable by (simp add: open_vault_dek_Inr)
qed

subsection \<open>Retired keys\<close>

lemma put_back_retired:
  assumes "take_identity d i = Inr t"
  shows "dr_retired_app_ids (put_back t r) = dr_retired_app_ids d"
  using assms by (auto simp: take_identity_def put_back_def split: option.splits)

lemma updated_retired:
  "take_identity d i = Inr t \<Longrightarrow> update_detached t operation = Inr d' \<Longrightarrow> dr_retired_app_ids d' = dr_retired_app_ids d"
  by (auto simp: update_detached_def put_back_retired split: sum.splits)

lemma opened_retired:
  "take_identity d i = Inr t \<Longrightarrow> open_keys_detached t operation = Inr (d', keys) \<Longrightarrow> dr_retired_app_ids d' = dr_retired_app_ids d"
  by (auto simp: open_keys_detached_def put_back_retired split: sum.splits)

lemma import_retired:
  "import_legacy_vault c generated d q = Inr (d', i) \<Longrightarrow> dr_retired_app_ids d' = dr_retired_app_ids d"
  by (auto simp: import_legacy_vault_def import_new_legacy_identity_def and_then_Inr_iff Let_def select_resolved_def updated_retired
      split: sum.splits import_destination.splits)

lemma validated_is_candidate: "validated_directory candidate = Inr d \<Longrightarrow> d = candidate"
  by (auto simp: validated_directory_def and_then_Inr_iff)

lemma replicated_retired:
  "apply_replicated_membership c d q = Inr d' \<Longrightarrow> dr_retired_app_ids d' = dr_retired_app_ids d"
  "adopt_replicated_identity d local replicated l = Inr d' \<Longrightarrow> dr_retired_app_ids d' = dr_retired_app_ids d"
  by (auto simp: apply_replicated_membership_def adopt_replicated_identity_def and_then_Inr_iff
      split: option.splits if_split_asm dest!: validated_is_candidate)

lemma add_replicated_retired:
  assumes "add_replicated_identity c generated d label q = Inr d'"
  shows "dr_retired_app_ids d' = dr_retired_app_ids d"
proof -
  obtain membership where "identity_for_app_key c d (rm_app_key q) = Inr membership"
    using assms by (auto simp: add_replicated_identity_def and_then_Inr_iff split: if_splits)
  then show ?thesis using assms
    by (cases membership) (auto simp: add_replicated_identity_def and_then_Inr_iff Let_def split: if_split_asm
        dest!: validated_is_candidate)
qed

lemma retired_grows: "set (dr_retired_app_ids d) \<subseteq> set (dr_retired_app_ids (retire_app_id d app))"
  by (auto simp: retire_app_id_def)

lemma retire_local_retired:
  assumes "retire_local_identity_key d i app = Inr d'"
  shows "set (dr_retired_app_ids d) \<subseteq> set (dr_retired_app_ids d')"
  using assms by (rule retire_local_Inr) (elim disjE exE conjE; simp add: retire_app_id_def; blast)

lemma reset_retired: "set (dr_retired_app_ids d) \<subseteq> set (dr_retired_app_ids (reset_for_device_recovery d retirement))"
  by (auto simp: reset_for_device_recovery_def retire_app_id_def Let_def split: recovery_retirement.splits)

lemma retired_stays: "directory_step c d op d' \<Longrightarrow> set (dr_retired_app_ids d) \<subseteq> set (dr_retired_app_ids d')"
  by (induction rule: directory_step.induct)
    (auto simp: create_identity_def select_identity_def clear_selection_def directory_open_or_generate_def
      open_or_generate_for_identity_def directory_set_signing_key_def name_fresh_identity_def reconcile_vault_dek_def
      add_selected_member_def replace_selected_def
      and_then_Inr_iff Let_def import_retired updated_retired opened_retired replicated_retired add_replicated_retired
      retire_app_id_def dest: retire_local_retired [THEN subsetD] reset_retired [THEN subsetD]
      split: if_splits sum.splits option.splits)

lemma retired_stays_reached: "(directory_call c)\<^sup>*\<^sup>* d d' \<Longrightarrow> set (dr_retired_app_ids d) \<subseteq> set (dr_retired_app_ids d')"
  by (induction rule: rtranclp_induct) (auto simp: directory_call_def dest: retired_stays)

text \<open>Adding a member to the selected identity is the one call that does not ask whether its key is
  retired: it succeeds for a retired key, and the directory it answers is refused by validation.\<close>

lemma retired_member_is_added_again:
  assumes "directory_wf d" and "selected d = Inr r" and "lm_app_id m \<in> set (dr_retired_app_ids d)"
  shows "\<exists>d'. add_selected_member d m = Inr d' \<and> validate_directory d' \<noteq> Inr ()"
proof -
  have r: "r \<in> set (dr_identities d)" using assms(2)
    by (auto simp: selected_def find_identity_def split: identity_selection.splits option.splits dest: find_SomeD)
  then obtain n where n: "position (\<lambda>x. ir_identity_id x = ir_identity_id r) (dr_identities d) = Some n"
    by (cases "position (\<lambda>x. ir_identity_id x = ir_identity_id r) (dr_identities d)") (auto simp: position_None)
  have at: "dr_identities d ! n = r" using record_of_id [OF assms(1) r n] .
  have "lm_app_id m \<notin> set (app_ids_of r)" using directory_wfD(5) [OF assms(1)] assms(3) r by (auto simp: listed_apps_def)
  then have r': "add_member r m = Inr (advance (r\<lparr>ir_members := ir_members r @ [m]\<rparr>))"
    by (simp add: add_member_Inr app_ids_of_def)
  then obtain d' where d': "add_selected_member d m = Inr d'"
    using n assms(2) at by (auto simp: add_selected_member_def take_identity_def update_detached_def)
  have "\<not> caller_condition c d (OpAddMember m)" for c using assms(3) by simp
  moreover have "record_wf x" if "x \<in> set (dr_identities d')" for x
  proof -
    obtain k s where k: "position (\<lambda>r. ir_identity_id r = ir_identity_id (dr_identities d ! k)) (dr_identities d) = Some k"
      "add_member (dr_identities d ! k) m = Inr s" "d' = d\<lparr>dr_identities := (dr_identities d)[k := s]\<rparr>"
      using assms(1) d' by (rule add_selected_Inr)
    have "record_wf s" using add_member_wf [OF record_at(2) [OF assms(1) k(1)] k(2)] .
    moreover have "x = s \<or> x \<in> set (dr_identities d)"
      using that set_update_subset_insert [of "dr_identities d" k s] unfolding k(3) by auto
    ultimately show ?thesis using directory_wfD(6) [OF assms(1)] by blast
  qed
  ultimately show ?thesis
    using d' step_needs [OF directory_step.adds_member [OF d'] assms(1)] by (metis directory_wf_def validate_directory_iff)
qed

text \<open>C24: A retired key is refused from then on.  Whatever calls follow, with their callers' conditions or
  without, the key creates no identity, imports, opens, generates and reconciles no vault, and is
  enrolled nowhere; and as long as the callers' conditions hold, no identity lists it either.\<close>

theorem retired_key_is_refused_forever:
  assumes "directory_wf d" and "retire_local_identity_key d i (ak_app_id k) = Inr d'" and "(directory_call c)\<^sup>*\<^sup>* d' d''"
  shows "directory_open_vault_dek c d'' k store = Inl RetiredAppKey
    \<and> open_vault_dek_for_identity c d'' j k store = Inl RetiredAppKey
    \<and> validate_vault_enrollment c d'' k store = Inl RetiredAppKey
    \<and> identity_for_app_key c d'' k = Inl RetiredAppKey
    \<and> create_identity c generated d'' label k member_label = Inl \<lparr>dj_directory = d'', dj_cause = RetiredAppKey\<rparr>
    \<and> directory_open_or_generate c drawn d'' k store = Inl \<lparr>dj_directory = d'', dj_cause = RetiredAppKey\<rparr>
    \<and> open_or_generate_for_identity c drawn d'' j k store = Inl \<lparr>dj_directory = d'', dj_cause = RetiredAppKey\<rparr>
    \<and> reconcile_vault_dek c d'' k store rc = Inl \<lparr>dj_directory = d'', dj_cause = RetiredAppKey\<rparr>
    \<and> (li_app_key q = k \<longrightarrow> import_legacy_vault c generated d'' q = Inl \<lparr>dj_directory = d'', dj_cause = RetiredAppKey\<rparr>)
    \<and> ((careful_call c)\<^sup>*\<^sup>* d' d'' \<longrightarrow> validate_directory d'' = Inr () \<and> ak_app_id k \<notin> listed_apps d'')"
proof -
  have retired: "ak_app_id k \<in> set (dr_retired_app_ids d'')"
    using retired_stays_reached [OF assms(3)] retire_local_wf(2) [OF assms(1,2)] by blast
  then have "ensure_app_key_active d'' k = Inl RetiredAppKey" by (simp add: ensure_app_key_active_def)
  moreover have "validate_directory d'' = Inr () \<and> ak_app_id k \<notin> listed_apps d''" if "(careful_call c)\<^sup>*\<^sup>* d' d''"
  proof -
    have "directory_wf d''" using dir_state.reached [OF that retire_local_wf(1) [OF assms(1,2)]] .
    then show ?thesis using directory_wfD(5) retired by (auto simp: validate_directory_iff directory_wf_def)
  qed
  ultimately show ?thesis
    by (simp add: directory_open_vault_dek_def opening_owner_def validate_vault_enrollment_def identity_for_app_key_def
        create_identity_def settle_directory_def directory_open_or_generate_def vault_opening_identity_def
        open_vault_dek_for_identity_def open_or_generate_for_identity_def admit_owned_vault_opening_def
        reconcile_vault_dek_def reconciliation_owner_def import_legacy_vault_def legacy_import_destination_def)
qed

subsection \<open>The identity of an app key\<close>

lemma matching_succeeds:
  assumes "\<And>r. r \<in> set rs \<Longrightarrow> find_member (ak_app_id k) (ir_members r) = None \<or> (\<exists>m. bound_member c r k = Inr m)"
  shows "fold_result (matching_identity c k) found rs
    = Inr (found @ map ir_identity_id (filter (\<lambda>r. ak_app_id k \<in> set (app_ids_of r)) rs))"
  using assms
proof (induction rs arbitrary: found)
  case (Cons r rs)
  have step: "matching_identity c k found r = Inr (if ak_app_id k \<in> set (app_ids_of r) then found @ [ir_identity_id r] else found)"
  proof (cases "find_member (ak_app_id k) (ir_members r)")
    case None
    then show ?thesis by (simp add: matching_identity_def app_in_record)
  next
    case (Some m)
    then obtain m' where "bound_member c r k = Inr m'" using Cons.prems [of r] by auto
    then have "bound_to c m k" using Some by (simp add: bound_member_Inr)
    then show ?thesis using Some bound_toD [of c m k] by (simp add: matching_identity_def app_in_record)
  qed
  show ?case using Cons.IH Cons.prems by (simp add: step)
qed simp

lemma matching_binds:
  assumes "fold_result (matching_identity c k) found rs = Inr all" and "r \<in> set rs" and "ak_app_id k \<in> set (app_ids_of r)"
  shows "\<exists>m. bound_member c r k = Inr m"
  using assms
proof (induction rs arbitrary: found)
  case (Cons x rs)
  then obtain found' where f: "matching_identity c k found x = Inr found'" "fold_result (matching_identity c k) found' rs = Inr all"
    by (auto simp: and_then_Inr_iff)
  show ?case
  proof (cases "r = x")
    case True
    then obtain m where m: "find_member (ak_app_id k) (ir_members r) = Some m" using Cons.prems(3) by (auto simp: app_in_record)
    then have "bound_to c m k" using f(1) True find_member_Some [OF m]
      by (auto simp: matching_identity_def bound_to_def binding_to_app_key_def split: if_splits)
    then show ?thesis using m by (auto simp: bound_member_Inr)
  next
    case False
    then show ?thesis using Cons.IH [OF f(2)] Cons.prems by simp
  qed
qed simp

lemma only_listing:
  assumes "directory_wf d" and "r \<in> set (dr_identities d)" and "app \<in> set (app_ids_of r)"
  shows "filter (\<lambda>r. app \<in> set (app_ids_of r)) (dr_identities d) = [r]"
proof -
  have "distinct (filter (\<lambda>r. app \<in> set (app_ids_of r)) (dr_identities d))"
    using directory_wfD(2) [OF assms(1)] by (simp add: distinct_map)
  moreover have "x = r" if "x \<in> set (dr_identities d)" "app \<in> set (app_ids_of x)" for x
    using one_owner(1) [OF assms(1) that(1) assms(2) that(2) assms(3)] .
  then have "set (filter (\<lambda>r. app \<in> set (app_ids_of r)) (dr_identities d)) = {r}"
    unfolding set_filter using assms(2,3) by blast
  moreover have "xs = [x]" if "distinct xs" "set xs = {x}" for xs and x :: identity_record
    using that by (cases xs rule: remdups_adj.cases) auto
  ultimately show ?thesis by blast
qed

lemma identity_for_app_key_bound:
  assumes "directory_wf d"
  shows "identity_for_app_key c d k = Inr (Enrolled i) \<longleftrightarrow> ak_app_id k \<notin> set (dr_retired_app_ids d)
    \<and> (\<exists>r\<in>set (dr_identities d). ir_identity_id r = i \<and> (\<exists>m. bound_member c r k = Inr m))"
proof
  assume enrolled: "identity_for_app_key c d k = Inr (Enrolled i)"
  obtain r where r: "r \<in> set (dr_identities d)" "ir_identity_id r = i" "ak_app_id k \<in> set (app_ids_of r)"
    using identity_for_app_key_Inr(3) [OF enrolled] by blast
  obtain all where "fold_result (matching_identity c k) [] (dr_identities d) = Inr all"
    using enrolled by (auto simp: identity_for_app_key_def and_then_Inr_iff)
  then have "\<exists>m. bound_member c r k = Inr m" using matching_binds r(1,3) by blast
  then show "ak_app_id k \<notin> set (dr_retired_app_ids d)
    \<and> (\<exists>r\<in>set (dr_identities d). ir_identity_id r = i \<and> (\<exists>m. bound_member c r k = Inr m))"
    using identity_for_app_key_Inr(1) [OF enrolled] r(1,2) by blast
next
  assume "ak_app_id k \<notin> set (dr_retired_app_ids d)
    \<and> (\<exists>r\<in>set (dr_identities d). ir_identity_id r = i \<and> (\<exists>m. bound_member c r k = Inr m))"
  then obtain r m where active: "ak_app_id k \<notin> set (dr_retired_app_ids d)" and r: "r \<in> set (dr_identities d)" "ir_identity_id r = i"
    and m: "bound_member c r k = Inr m" by blast
  have listed: "ak_app_id k \<in> set (app_ids_of r)" using bound_member_mem(3) [OF m] by (simp add: app_ids_of_def)
  note only = only_listing [OF assms r(1) listed]
  have "find_member (ak_app_id k) (ir_members x) = None \<or> (\<exists>m. bound_member c x k = Inr m)" if "x \<in> set (dr_identities d)" for x
    using one_owner(1) [OF assms that r(1) _ listed] m by (auto simp: app_in_record)
  then have "fold_result (matching_identity c k) [] (dr_identities d) = Inr [i]"
    using matching_succeeds [of "dr_identities d" k c "[]"] only r(2) by simp
  then show "identity_for_app_key c d k = Inr (Enrolled i)"
    using active by (simp add: identity_for_app_key_def ensure_app_key_active_def)
qed

text \<open>A record under another id, in the place of the one it was.\<close>

lemma renamed_record_valid:
  assumes "directory_wf d" and "n < length (dr_identities d)" and "ir_identity_id r \<notin> ir_identity_id ` set (dr_identities d)"
    and "app_ids_of r = app_ids_of (dr_identities d ! n)" and "stores_of r = stores_of (dr_identities d ! n)" and "record_wf r"
    and "\<And>i. selection = Selected i \<Longrightarrow> i = ir_identity_id r \<or> i \<in> ir_identity_id ` set (dr_identities d) \<and> i \<noteq> ir_identity_id (dr_identities d ! n)"
  shows "directory_wf (d\<lparr>dr_identities := (dr_identities d)[n := r], dr_selection := selection\<rparr>)"
proof -
  let ?rs = "(dr_identities d)[n := r]"
  note wf = directory_wfD [OF assms(1)]
  have mem: "x \<in> set ?rs \<Longrightarrow> x = r \<or> x \<in> set (dr_identities d)" for x
    using set_update_subset_insert [of "dr_identities d" n r] by auto
  have "map app_ids_of ?rs = map app_ids_of (dr_identities d)" "map stores_of ?rs = map stores_of (dr_identities d)"
    using assms(2,4,5) by (simp_all add: map_list_update_same)
  moreover have "listed_apps (d\<lparr>dr_identities := ?rs, dr_selection := selection\<rparr>) = listed_apps d"
    using assms(2,4) by (simp add: listed_apps_concat map_list_update_same del: set_concat)
  moreover have "distinct (map ir_identity_id ?rs)"
    using wf(2) assms(2,3) by (simp add: map_update distinct_list_update)
  moreover have "i \<in> ir_identity_id ` set ?rs" if i: "selection = Selected i" for i
  proof (cases "i = ir_identity_id r")
    case True
    then show ?thesis using assms(2) by (simp add: set_update_memI)
  next
    case False
    then obtain x where x: "x \<in> set (dr_identities d)" "ir_identity_id x = i" "i \<noteq> ir_identity_id (dr_identities d ! n)"
      using assms(7) [OF i] by auto
    then obtain j where j: "j < length (dr_identities d)" "dr_identities d ! j = x" by (auto simp: in_set_conv_nth)
    then have "j \<noteq> n" using x by auto
    then have "?rs ! j = x" using j by simp
    then show ?thesis using j(1) x(2) by (metis image_eqI length_list_update nth_mem)
  qed
  moreover have "\<forall>x\<in>set ?rs. record_wf x" using mem assms(6) wf(6) by blast
  ultimately show ?thesis
    using wf(1,3,4,5) unfolding directory_wf_def directory_valid_def by simp
qed

lemma update_first_at: "position P xs = Some n \<Longrightarrow> update_first P (\<lambda>_. y) xs = xs[n := y]"
  by (simp add: update_first_position)


text \<open>C28: An app key that creates a second identity leaves a directory that validation refuses and in
  which the key belongs to no identity.\<close>

theorem second_identity_of_a_key_is_refused_later:
  assumes "create_identity c g d label k l = Inr (d1, i1)" and "create_identity c g' d1 label' k l' = Inr (d2, i2)"
  shows "validate_directory d2 \<noteq> Inr () \<and> (\<forall>i. identity_for_app_key c d2 k \<noteq> Inr (Enrolled i))"
proof -
  obtain r1 where r1: "create_with_app_key c g (trim label) k l = Inr r1"
    and d1: "d1 = d\<lparr>dr_identities := dr_identities d @ [r1], dr_selection := Selected (ir_identity_id r1)\<rparr>"
    using assms(1) by (auto simp: create_identity_def and_then_Inr_iff Let_def split: if_splits)
  obtain r2 where r2: "create_with_app_key c g' (trim label') k l' = Inr r2"
    and d2: "d2 = d1\<lparr>dr_identities := dr_identities d1 @ [r2], dr_selection := Selected (ir_identity_id r2)\<rparr>"
    using assms(2) by (auto simp: create_identity_def and_then_Inr_iff Let_def split: if_splits)
  have ids: "dr_identities d2 = dr_identities d @ [r1, r2]" by (simp add: d1 d2)
  have "\<not> distinct (concat (map app_ids_of (dr_identities d2)))"
    using created_record(3) [OF r1] created_record(3) [OF r2] by (simp add: ids)
  then have "\<not> directory_valid d2" by (simp add: directory_valid_def)
  moreover have "identity_for_app_key c d2 k \<noteq> Inr (Enrolled i)" for i
  proof
    assume "identity_for_app_key c d2 k = Inr (Enrolled i)"
    then obtain all where all: "fold_result (matching_identity c k) [] (dr_identities d2) = Inr all" "length all \<le> 1"
      by (auto simp: identity_for_app_key_def and_then_Inr_iff split: if_splits)
    then show False
      using matching_fold [OF all(1)] created_record(3) [OF r1] created_record(3) [OF r2] by (simp add: ids)
  qed
  ultimately show ?thesis by (simp add: validate_directory_iff)
qed

subsection \<open>The mirror settles\<close>

lemma fold_result_stable: "(\<And>x. x \<in> set xs \<Longrightarrow> f s x = Inr s) \<Longrightarrow> fold_result f s xs = Inr s"
  by (induction xs) auto

lemma find_filter_keep: "(\<And>x. Q x \<Longrightarrow> P x) \<Longrightarrow> find Q (filter P xs) = find Q xs"
  by (induction xs) auto

lemma find_append_Some: "find P xs = Some x \<Longrightarrow> find P (xs @ ys) = Some x"
  by (induction xs) (auto split: if_splits)

lemma find_append_None: "find P xs = None \<Longrightarrow> find P (xs @ ys) = find P ys"
  by (induction xs) (auto split: if_splits)

definition mirrors_member :: "identity_member list \<Rightarrow> identity_member \<Rightarrow> bool" where
  "mirrors_member ms m \<longleftrightarrow> (\<exists>l. find_member (lm_app_id m) ms = Some l \<and> binding_to_member l m = Matches
     \<and> lm_signing_public_key l = lm_signing_public_key m \<and> lm_label l = lm_label m)"

lemma mirror_member_stable: "mirrors_member (fst s) m \<Longrightarrow> mirror_member s m = Inr s"
  by (auto simp: mirrors_member_def mirror_member_def)

lemma mirror_member_find:
  assumes "mirror_member s m = Inr s'"
  shows "find_member app (fst s') = (if app = lm_app_id m
      then (case find_member app (fst s) of None \<Rightarrow> Some m
        | Some l \<Rightarrow> Some (l\<lparr>lm_signing_public_key := lm_signing_public_key m, lm_label := lm_label m\<rparr>))
      else find_member app (fst s))"
proof (cases "find_member (lm_app_id m) (fst s)")
  case None
  then have s': "fst s' = fst s @ [m]" using assms by (auto simp: mirror_member_def)
  show ?thesis
  proof (cases "app = lm_app_id m")
    case True
    then show ?thesis using None s' by (simp add: find_member_def find_append_None)
  next
    case False
    then show ?thesis unfolding s' find_member_def
      by (cases "find (\<lambda>m. lm_app_id m = app) (fst s)") (simp_all add: find_append_Some find_append_None)
  qed
next
  case (Some l)
  let ?f = "\<lambda>l. l\<lparr>lm_signing_public_key := lm_signing_public_key m, lm_label := lm_label m\<rparr>"
  show ?thesis
  proof (cases "lm_signing_public_key l \<noteq> lm_signing_public_key m \<or> lm_label l \<noteq> lm_label m")
    case True
    then have s': "fst s' = update_first (\<lambda>x. lm_app_id x = lm_app_id m) ?f (fst s)"
      using assms Some by (auto simp: mirror_member_def split: if_splits)
    show ?thesis
    proof (cases "app = lm_app_id m")
      case True
      have "find (\<lambda>x. lm_app_id x = lm_app_id m) (update_first (\<lambda>x. lm_app_id x = lm_app_id m) ?f (fst s)) = Some (?f l)"
        using Some find_member_Some [OF Some] by (intro find_update_first_same) (simp_all add: find_member_def)
      then show ?thesis using Some True unfolding s' find_member_def by simp
    next
      case False
      then show ?thesis unfolding s' find_member_def by (simp add: find_update_first_other)
    qed
  next
    case False
    then have "fst s' = fst s" using assms Some by (auto simp: mirror_member_def split: if_splits)
    moreover have "?f l = l" using False by simp
    ultimately show ?thesis using Some by auto
  qed
qed

lemma mirror_member_mirrors:
  assumes "mirror_member s m = Inr s'"
  shows "mirrors_member (fst s') m"
proof (cases "find_member (lm_app_id m) (fst s)")
  case None
  then show ?thesis using mirror_member_find [OF assms] by (simp add: mirrors_member_def binding_to_member_def)
next
  case (Some l)
  then have "binding_to_member l m = Matches"
    using assms by (cases "binding_to_member l m") (auto simp: mirror_member_def split: if_splits)
  then show ?thesis using mirror_member_find [OF assms] Some by (simp add: mirrors_member_def binding_to_member_def)
qed

lemma mirror_fold_mirrors:
  assumes "fold_result mirror_member s ms = Inr s'" and "distinct (map lm_app_id ms)" and "m \<in> set ms"
  shows "mirrors_member (fst s') m"
proof -
  have keep: "mirrors_member (fst s') m" if "fold_result mirror_member s ms = Inr s'" "lm_app_id m \<notin> member_apps ms"
      "mirrors_member (fst s) m" for s ms and m :: identity_member
    using that
  proof (induction ms arbitrary: s)
    case (Cons x ms)
    then obtain s1 where s1: "mirror_member s x = Inr s1" "fold_result mirror_member s1 ms = Inr s'" by (auto simp: and_then_Inr_iff)
    have "mirrors_member (fst s1) m" using Cons.prems(2,3) mirror_member_find [OF s1(1)] by (auto simp: mirrors_member_def)
    then show ?case using Cons.IH [OF s1(2)] Cons.prems(2) by simp
  qed simp
  show ?thesis
    using assms
  proof (induction ms arbitrary: s)
    case (Cons x ms)
    then obtain s1 where s1: "mirror_member s x = Inr s1" "fold_result mirror_member s1 ms = Inr s'" by (auto simp: and_then_Inr_iff)
    show ?case
    proof (cases "m = x")
      case True
      then show ?thesis using keep [OF s1(2)] mirror_member_mirrors [OF s1(1)] Cons.prems(2) by simp
    next
      case False
      then show ?thesis using Cons.IH [OF s1(2)] Cons.prems by simp
    qed
  qed simp
qed

lemma mirror_fold_bound:
  assumes "fold_result mirror_member s ms = Inr s'" and "find_member app (fst s) = Some l"
  shows "\<exists>l'. find_member app (fst s') = Some l' \<and> lm_auth_id l' = lm_auth_id l \<and> lm_public_key l' = lm_public_key l"
  using assms
proof (induction ms arbitrary: s l)
  case (Cons m ms)
  then obtain s1 where s1: "mirror_member s m = Inr s1" "fold_result mirror_member s1 ms = Inr s'" by (auto simp: and_then_Inr_iff)
  have "\<exists>l1. find_member app (fst s1) = Some l1 \<and> lm_auth_id l1 = lm_auth_id l \<and> lm_public_key l1 = lm_public_key l"
    using mirror_member_find [OF s1(1), of app] Cons.prems(2) by (cases "app = lm_app_id m") auto
  then obtain l1 where "find_member app (fst s1) = Some l1" "lm_auth_id l1 = lm_auth_id l" "lm_public_key l1 = lm_public_key l"
    by blast
  then show ?case using Cons.IH [OF s1(2)] by metis
qed simp

definition clean_grant :: "replicated_membership \<Rightarrow> vault_dek \<Rightarrow> bool" where
  "clean_grant q d \<longleftrightarrow> dk_store_id d \<notin> set (rm_removed_vaults q)
     \<and> (\<forall>e\<in>set (dk_secrets_envelopes d) \<union> set (dk_members_envelopes d). me_app_id e \<notin> set (rm_revoked q))"

definition holds_own :: "replicated_membership \<Rightarrow> vault_dek list \<Rightarrow> store_id \<Rightarrow> bool" where
  "holds_own q ds store \<longleftrightarrow> (\<exists>d. find_dek store ds = Some d \<and> holds_envelopes (ak_app_id (rm_app_key q)) d)"

lemma clean_vaults_stay:
  assumes "\<forall>d\<in>set ds. clean_grant q d"
  shows "retain_vaults q ds changed = (ds, changed)"
proof -
  have "drop_revoked_envelopes (rm_revoked q) d = d" if "d \<in> set ds" for d
    using assms that by (simp add: drop_revoked_envelopes_def retain_envelopes_def clean_grant_def)
  then have "map (drop_revoked_envelopes (rm_revoked q)) ds = ds" by (simp add: map_idI)
  moreover have "filter (\<lambda>d. dk_store_id d \<notin> set (rm_removed_vaults q)) ds = ds"
    using assms by (simp add: clean_grant_def)
  moreover have "\<not> list_ex (\<lambda>(old, new). lost_envelopes old new) (zip ds ds)"
    by (auto simp: list_ex_iff zip_same lost_envelopes_def)
  ultimately show ?thesis by (simp add: retain_vaults_def Let_def)
qed

lemma retained_vaults_clean: "d \<in> set (fst (retain_vaults q ds changed)) \<Longrightarrow> clean_grant q d"
  by (auto simp: retain_vaults_def Let_def clean_grant_def drop_revoked_envelopes_def retain_envelopes_def)

lemma refill_grant_holds: "holds_envelopes own (refill_grant own g d)" "dk_store_id (refill_grant own g d) = dk_store_id d"
  by (simp_all add: holds_envelopes_def refill_grant_def list_ex_iff)

lemma mirror_grant_cases:
  assumes "mirror_grant c q s g = Inr s'"
  obtains "s' = s" "rg_store_id g \<in> set (rm_removed_vaults q) \<or> holds_own q (fst s) (rg_store_id g)"
  | d where "find_dek (rg_store_id g) (fst s) = Some d"
      "fst s' = update_first (\<lambda>d. dk_store_id d = rg_store_id g) (refill_grant (ak_app_id (rm_app_key q)) g) (fst s)"
  | d where "find_dek (rg_store_id g) (fst s) = None" "rg_store_id g \<notin> set (rm_removed_vaults q)"
      "dk_store_id d = rg_store_id g" "fst s' = fst s @ [d]" "holds_envelopes (ak_app_id (rm_app_key q)) d"
      "\<forall>e\<in>set (dk_secrets_envelopes d) \<union> set (dk_members_envelopes d). me_app_id e = ak_app_id (rm_app_key q)"
proof (cases "rg_store_id g \<in> set (rm_removed_vaults q)")
  case True
  then show ?thesis using assms that(1) by (simp add: mirror_grant_def)
next
  case False
  show ?thesis
  proof (cases "find_dek (rg_store_id g) (fst s)")
    case None
    then show ?thesis using assms False
      by (intro that(3) [of "\<lparr>dk_store_id = rg_store_id g, dk_key_epoch = LegacyUnknown,
          dk_secrets_envelopes = [\<lparr>me_app_id = ak_app_id (rm_app_key q), me_envelope = rg_secrets_envelope g\<rparr>],
          dk_members_envelopes = [\<lparr>me_app_id = ak_app_id (rm_app_key q), me_envelope = rg_members_envelope g\<rparr>]\<rparr>"])
        (auto simp: mirror_grant_def and_then_Inr_iff Let_def holds_envelopes_def)
  next
    case (Some d)
    then show ?thesis using assms False that(1) that(2) [OF Some]
      by (auto simp: mirror_grant_def and_then_Inr_iff Let_def holds_own_def split: if_splits)
  qed
qed

lemma mirror_grant_clean:
  assumes "mirror_grant c q s g = Inr s'" and "\<forall>d\<in>set (fst s). clean_grant q d"
    and "ak_app_id (rm_app_key q) \<notin> set (rm_revoked q)"
  shows "\<forall>d\<in>set (fst s'). clean_grant q d"
  using assms(1)
proof (cases rule: mirror_grant_cases)
  case (2 d)
  have "clean_grant q (refill_grant (ak_app_id (rm_app_key q)) g d)" if "clean_grant q d" for d
    using that assms(3) by (auto simp: clean_grant_def refill_grant_def)
  then show ?thesis using 2(2) assms(2) set_update_first by fastforce
next
  case (3 d)
  then show ?thesis using assms(2,3) by (auto simp: clean_grant_def)
qed (use assms(2) in simp)

lemma mirror_grant_keeps:
  assumes "mirror_grant c q s g = Inr s'" and "holds_own q (fst s) store"
  shows "holds_own q (fst s') store"
  using assms(1)
proof (cases rule: mirror_grant_cases)
  case (2 d)
  show ?thesis
  proof (cases "store = rg_store_id g")
    case True
    have "find (\<lambda>d. dk_store_id d = rg_store_id g) (fst s') = Some (refill_grant (ak_app_id (rm_app_key q)) g d)"
      unfolding 2(2) using 2(1) find_SomeD [of _ "fst s" d]
      by (intro find_update_first_same) (auto simp: find_dek_def refill_grant_holds)
    then show ?thesis using True by (simp add: holds_own_def find_dek_def refill_grant_holds)
  next
    case False
    then show ?thesis using assms(2) unfolding holds_own_def find_dek_def 2(2)
      by (simp add: find_update_first_other refill_grant_holds)
  qed
next
  case (3 d)
  then show ?thesis using assms(2) unfolding holds_own_def find_dek_def by (auto intro: find_append_Some)
qed (use assms(2) in simp)

definition mirrors_grant :: "key_crates \<Rightarrow> replicated_membership \<Rightarrow> vault_dek list \<Rightarrow> replicated_grant \<Rightarrow> bool" where
  "mirrors_grant c q ds g \<longleftrightarrow> rg_store_id g \<in> set (rm_removed_vaults q)
     \<or> (\<exists>s m. decrypt_envelope c (rm_app_key q) (rg_secrets_envelope g) = Inr s
         \<and> decrypt_envelope c (rm_app_key q) (rg_members_envelope g) = Inr m) \<and> holds_own q ds (rg_store_id g)"

lemma mirrors_grant_stable: "mirrors_grant c q (fst s) g \<Longrightarrow> mirror_grant c q s g = Inr s"
  by (auto simp: mirrors_grant_def mirror_grant_def holds_own_def)

lemma mirror_grant_mirrors:
  assumes "mirror_grant c q s g = Inr s'"
  shows "mirrors_grant c q (fst s') g"
proof (cases "rg_store_id g \<in> set (rm_removed_vaults q)")
  case False
  have "holds_own q (fst s') (rg_store_id g)"
    using assms
  proof (cases rule: mirror_grant_cases)
    case 1
    then show ?thesis using False by simp
  next
    case (2 d)
    have "find (\<lambda>d. dk_store_id d = rg_store_id g) (fst s') = Some (refill_grant (ak_app_id (rm_app_key q)) g d)"
      unfolding 2(2) using 2(1) find_SomeD [of _ "fst s" d]
      by (intro find_update_first_same) (auto simp: find_dek_def refill_grant_holds)
    then show ?thesis by (simp add: holds_own_def find_dek_def refill_grant_holds)
  next
    case (3 d)
    then show ?thesis unfolding holds_own_def find_dek_def by (simp add: find_append_None)
  qed
  moreover have "\<exists>s m. decrypt_envelope c (rm_app_key q) (rg_secrets_envelope g) = Inr s
      \<and> decrypt_envelope c (rm_app_key q) (rg_members_envelope g) = Inr m"
    using assms False by (auto simp: mirror_grant_def and_then_Inr_iff)
  ultimately show ?thesis by (simp add: mirrors_grant_def)
qed (simp add: mirrors_grant_def)

lemma mirror_grant_keeps_mirrored:
  assumes "mirror_grant c q s g = Inr s'" and "mirrors_grant c q (fst s) h"
  shows "mirrors_grant c q (fst s') h"
  using mirror_grant_keeps [OF assms(1)] assms(2) by (auto simp: mirrors_grant_def)

lemma fold_result_keeps:
  assumes "fold_result f s xs = Inr s'" and "\<And>s x s'. f s x = Inr s' \<Longrightarrow> I s \<Longrightarrow> I s'" and "I s"
  shows "I s'"
  using assms(1,3)
proof (induction xs arbitrary: s)
  case (Cons x xs)
  then obtain s1 where "f s x = Inr s1" "fold_result f s1 xs = Inr s'" by (auto simp: and_then_Inr_iff)
  then show ?case using Cons.IH assms(2) Cons.prems(2) by blast
qed simp

lemma mirror_grants_mirror:
  assumes "fold_result (mirror_grant c q) s gs = Inr s'"
  shows "\<forall>g\<in>set gs. mirrors_grant c q (fst s') g"
  using assms
proof (induction gs arbitrary: s)
  case (Cons g gs)
  then obtain s1 where s1: "mirror_grant c q s g = Inr s1" "fold_result (mirror_grant c q) s1 gs = Inr s'"
    by (auto simp: and_then_Inr_iff)
  have "mirrors_grant c q (fst s') g"
    using fold_result_keeps [OF s1(2), of "\<lambda>s. mirrors_grant c q (fst s) g"] mirror_grant_keeps_mirrored
      mirror_grant_mirrors [OF s1(1)] by blast
  then show ?case using Cons.IH [OF s1(2)] by simp
qed simp

text \<open>C27: The mirror of a replicated log settles after one pass: applied again, the same membership changes
  nothing and says so.\<close>

theorem replication_settles:
  assumes "record_apply_replicated c elsewhere q r = Inr (r', changed)"
    and "distinct (map lm_app_id (rm_members q))" and "member_apps (rm_members q) \<inter> set (rm_revoked q) = {}"
  shows "record_apply_replicated c elsewhere q r' = Inr (r', False)"
proof -
  let ?ms = "filter (\<lambda>m. lm_app_id m \<notin> elsewhere) (rm_members q)" and ?own = "ak_app_id (rm_app_key q)"
  obtain m mirrored granted where active: "?own \<notin> set (rm_revoked q)" and m: "bound_member c r (rm_app_key q) = Inr m"
    and mirrored: "fold_result mirror_member (ir_members r, False) ?ms = Inr mirrored"
    and granted: "fold_result (mirror_grant c q) (retain_vaults q (ir_vault_deks r) (snd (retain_members q mirrored))) (rm_own_grants q)
      = Inr granted"
    and r': "r' = fst (mirrored_record r (fst (retain_members q mirrored)) granted)"
    using assms(1) by (auto simp: record_apply_replicated_def and_then_Inr_iff split: if_splits)
  have members: "ir_members r' = filter (\<lambda>m. lm_app_id m \<notin> set (rm_revoked q)) (fst mirrored)"
    and deks: "ir_vault_deks r' = fst granted"
    unfolding r' by (simp_all add: mirrored_record_def retain_members_def Let_def advance_def)
  have found: "find_member app (ir_members r') = find_member app (fst mirrored)" if "app \<notin> set (rm_revoked q)" for app
    unfolding members find_member_def using that by (intro find_filter_keep) auto
  have "mirrors_member (ir_members r') x" if "x \<in> set ?ms" for x
  proof -
    have "lm_app_id x \<notin> set (rm_revoked q)" using assms(3) that by auto
    then have "find_member (lm_app_id x) (ir_members r') = find_member (lm_app_id x) (fst mirrored)" by (rule found)
    moreover have "mirrors_member (fst mirrored) x"
      using mirror_fold_mirrors [OF mirrored _ that] assms(2) by (simp add: distinct_map inj_on_def)
    ultimately show ?thesis by (simp add: mirrors_member_def)
  qed
  then have stable: "fold_result mirror_member (ir_members r', False) ?ms = Inr (ir_members r', False)"
    by (intro fold_result_stable mirror_member_stable) simp
  have "find_member ?own (ir_members r) = Some m" "bound_to c m (rm_app_key q)" using m by (simp_all add: bound_member_Inr)
  then obtain l where "find_member ?own (ir_members r') = Some l" "lm_auth_id l = lm_auth_id m" "lm_public_key l = lm_public_key m"
    using mirror_fold_bound [OF mirrored] found [OF active] by fastforce
  then have "bound_member c r' (rm_app_key q) = Inr l"
    using \<open>bound_to c m (rm_app_key q)\<close> by (simp add: bound_member_def bound_to_def binding_to_app_key_def find_member_Some)
  moreover have "retain_members q (ir_members r', False) = (ir_members r', False)"
    by (simp add: retain_members_def members)
  moreover have "\<forall>d\<in>set (fst granted). clean_grant q d"
    using fold_result_keeps [OF granted, of "\<lambda>s. \<forall>d\<in>set (fst s). clean_grant q d"] mirror_grant_clean [OF _ _ active]
      retained_vaults_clean by blast
  then have "retain_vaults q (ir_vault_deks r') False = (ir_vault_deks r', False)"
    unfolding deks by (rule clean_vaults_stay)
  moreover have "fold_result (mirror_grant c q) (ir_vault_deks r', False) (rm_own_grants q) = Inr (ir_vault_deks r', False)"
    using mirror_grants_mirror [OF granted] deks by (intro fold_result_stable mirrors_grant_stable) simp
  moreover have "r'\<lparr>ir_members := ir_members r', ir_vault_deks := ir_vault_deks r'\<rparr> = r'" by simp
  ultimately show ?thesis
    using active stable by (simp add: record_apply_replicated_def mirrored_record_def)
qed

end
