(* ===== verification/LocalKeyring.thy ===== *)
theory LocalKeyring
  imports IdentityAccess
begin

text \<open>
  The keyring of the identities an installation protects (nook-auth2/src/auth/local_identity_keyring.rs
  with local_identity_keyring/transition.rs): an entry per identity with its wrapped app key and the
  sealed seed of its event signing key.  The wrapped app key is a parameter: the keyring only stores
  it.  Entries are unique by identity and by app key; the keyring refines a map from identities.
\<close>

subsection \<open>Entries\<close>

record 'w keyring_entry =
  ke_identity_id :: identity_id
  ke_app_id :: app_id
  ke_wrapped_app_key :: 'w
  ke_signing_seed_envelope :: string

definition derive_from_seed :: "key_crates \<Rightarrow> string \<Rightarrow> device_signing_public_key multi_device" where
  "derive_from_seed c signing_seed =
     (case signing_seed_parse signing_seed of
        Inl e \<Rightarrow> Inl (Validation e)
      | Inr seed \<Rightarrow>
          (case hex_decode (ic_base (kc_identity c)) seed of
             Inl _ \<Rightarrow> Inl (InvalidDeviceIdentity ''event signing seed is not hexadecimal'')
           | Inr seed_bytes \<Rightarrow>
               if length seed_bytes \<noteq> 32 then Inl (InvalidDeviceIdentity ''event signing seed has the wrong length'')
               else Inr (signing_key_from_trusted
                 (hex_encode (ic_base (kc_identity c)) (verifying_key_of (ic_base (kc_identity c)) seed_bytes)))))"

definition require_matching_app_key :: "'w keyring_entry \<Rightarrow> app_key \<Rightarrow> unit multi_device" where
  "require_matching_app_key e k =
     (if ke_app_id e \<noteq> ak_app_id k
      then Inl (InvalidDeviceIdentity ''local identity keyring app id does not match the unlocked app key'') else Inr ())"

definition open_signing_seed :: "key_crates \<Rightarrow> 'w keyring_entry \<Rightarrow> app_key \<Rightarrow> string multi_device" where
  "open_signing_seed c e k =
     and_then (require_matching_app_key e k) (\<lambda>_.
     and_then (app_open_utf8 c k (ke_signing_seed_envelope e)) (\<lambda>plaintext.
       case signing_seed_parse plaintext of Inl v \<Rightarrow> Inl (Validation v) | Inr seed \<Rightarrow> Inr seed))"

definition signing_public_key_of :: "key_crates \<Rightarrow> 'w keyring_entry \<Rightarrow> app_key \<Rightarrow> device_signing_public_key multi_device" where
  "signing_public_key_of c e k = and_then (open_signing_seed c e k) (derive_from_seed c)"

definition protected_entry ::
    "key_crates \<Rightarrow> identity_id \<Rightarrow> app_key \<Rightarrow> 'w \<Rightarrow> string \<Rightarrow> 'w keyring_entry multi_device" where
  "protected_entry c i k wrapped signing_seed =
     and_then (derive_from_seed c signing_seed) (\<lambda>public_key.
     and_then (app_seal_utf8 c k signing_seed) (\<lambda>envelope.
       let e = \<lparr>ke_identity_id = i, ke_app_id = ak_app_id k, ke_wrapped_app_key = wrapped,
                ke_signing_seed_envelope = envelope\<rparr> in
       and_then (signing_public_key_of c e k) (\<lambda>opened.
         if opened \<noteq> public_key then Inl (InvalidDeviceIdentity ''protected signing seed verification failed'')
         else Inr e)))"

text \<open>A rejected change of an entry gives the entry back.\<close>

record 'w entry_rejection =
  ej_entry :: "'w keyring_entry"
  ej_cause :: multi_device_error

definition entry_replace_wrapped :: "'w keyring_entry \<Rightarrow> app_id \<Rightarrow> 'w \<Rightarrow> ('w entry_rejection, 'w keyring_entry) result" where
  "entry_replace_wrapped e app wrapped =
     (if ke_app_id e \<noteq> app
      then Inl \<lparr>ej_entry = e, ej_cause = InvalidDeviceIdentity ''cannot replace a wrapped app key owned by a different app id''\<rparr>
      else Inr (e\<lparr>ke_wrapped_app_key := wrapped\<rparr>))"

subsection \<open>The keyring\<close>

record 'w local_keyring =
  lk_version :: u32
  lk_entries :: "'w keyring_entry list"

record 'w keyring_rejection =
  kj_keyring :: "'w local_keyring"
  kj_cause :: multi_device_error

type_synonym ('w, 'a) keyring_transition = "('w keyring_rejection, 'a) result"

definition settle_keyring :: "'w local_keyring \<Rightarrow> 'a multi_device \<Rightarrow> ('w, 'a) keyring_transition" where
  "settle_keyring K outcome =
     (case outcome of Inl cause \<Rightarrow> Inl \<lparr>kj_keyring = K, kj_cause = cause\<rparr> | Inr a \<Rightarrow> Inr a)"

definition LOCAL_IDENTITY_KEYRING_VERSION :: u32 where "LOCAL_IDENTITY_KEYRING_VERSION = 1"

definition empty_keyring :: "'w local_keyring" where
  "empty_keyring = \<lparr>lk_version = LOCAL_IDENTITY_KEYRING_VERSION, lk_entries = []\<rparr>"

definition duplicate_identity :: "identity_id \<Rightarrow> multi_device_error" where
  "duplicate_identity i = DuplicateIdentity (identity_id_str i)"

definition duplicate_app_key :: "app_id \<Rightarrow> multi_device_error" where
  "duplicate_app_key app = DuplicateAppKeyOwnership (app_id_str app)"

definition validate_entry ::
    "identity_id set \<times> app_id set \<Rightarrow> 'w keyring_entry \<Rightarrow> (identity_id set \<times> app_id set) multi_device" where
  "validate_entry seen e =
     (if ke_identity_id e \<in> fst seen then Inl (duplicate_identity (ke_identity_id e))
      else if ke_app_id e \<in> snd seen then Inl (duplicate_app_key (ke_app_id e))
      else Inr (insert (ke_identity_id e) (fst seen), insert (ke_app_id e) (snd seen)))"

definition validate_keyring :: "'w local_keyring \<Rightarrow> unit multi_device" where
  "validate_keyring K =
     (if lk_version K \<noteq> LOCAL_IDENTITY_KEYRING_VERSION
      then Inl (InvalidDeviceIdentity (''unsupported local identity keyring version: '' @ digits (unat (lk_version K))))
      else and_then (fold_result validate_entry ({}, {}) (lk_entries K)) (\<lambda>_. Inr ()))"

definition keyring_from_entries :: "'w keyring_entry list \<Rightarrow> 'w local_keyring multi_device" where
  "keyring_from_entries es =
     (let K = \<lparr>lk_version = LOCAL_IDENTITY_KEYRING_VERSION, lk_entries = es\<rparr>
      in and_then (validate_keyring K) (\<lambda>_. Inr K))"

datatype 'w identity_protection = ProtectedEntry "'w keyring_entry" | Unprotected

definition keyring_entry_of :: "'w local_keyring \<Rightarrow> identity_id \<Rightarrow> 'w identity_protection" where
  "keyring_entry_of K i =
     (case find (\<lambda>e. ke_identity_id e = i) (lk_entries K) of Some e \<Rightarrow> ProtectedEntry e | None \<Rightarrow> Unprotected)"

definition require_protected :: "'w identity_protection \<Rightarrow> 'w keyring_entry multi_device" where
  "require_protected p =
     (case p of
        ProtectedEntry e \<Rightarrow> Inr e
      | Unprotected \<Rightarrow> Inl (InvalidDeviceIdentity ''Identity has no protected local keyring entry''))"

definition no_keyring_owner :: multi_device_error where
  "no_keyring_owner = InvalidDeviceIdentity ''wrapped app key has no local keyring owner''"

definition keyring_replace_wrapped :: "'w local_keyring \<Rightarrow> app_id \<Rightarrow> 'w \<Rightarrow> ('w, 'w local_keyring) keyring_transition" where
  "keyring_replace_wrapped K app wrapped = settle_keyring K
     (case position (\<lambda>e. ke_app_id e = app) (lk_entries K) of
        None \<Rightarrow> Inl no_keyring_owner
      | Some n \<Rightarrow>
          (case get_at (lk_entries K) n of
             None \<Rightarrow> Inl no_keyring_owner
           | Some e \<Rightarrow> Inr (K\<lparr>lk_entries := (lk_entries K)[n := e\<lparr>ke_wrapped_app_key := wrapped\<rparr>]\<rparr>)))"

definition admit_insertion :: "'w local_keyring \<Rightarrow> 'w keyring_entry \<Rightarrow> unit multi_device" where
  "admit_insertion K e =
     (case keyring_entry_of K (ke_identity_id e) of
        ProtectedEntry _ \<Rightarrow> Inl (duplicate_identity (ke_identity_id e))
      | Unprotected \<Rightarrow>
          if list_ex (\<lambda>existing. ke_app_id existing = ke_app_id e) (lk_entries K)
          then Inl (duplicate_app_key (ke_app_id e)) else validate_keyring K)"

definition keyring_insert :: "'w local_keyring \<Rightarrow> 'w keyring_entry \<Rightarrow> ('w, 'w local_keyring) keyring_transition" where
  "keyring_insert K e = settle_keyring K
     (and_then (admit_insertion K e) (\<lambda>_. Inr (K\<lparr>lk_entries := lk_entries K @ [e]\<rparr>)))"

definition entry_index :: "'w local_keyring \<Rightarrow> identity_id \<Rightarrow> nat multi_device" where
  "entry_index K i =
     (case position (\<lambda>e. ke_identity_id e = i) (lk_entries K) of None \<Rightarrow> Inl (IdentityNotFound (identity_id_str i)) | Some n \<Rightarrow> Inr n)"

definition admit_replacement :: "'w local_keyring \<Rightarrow> 'w keyring_entry \<Rightarrow> nat multi_device" where
  "admit_replacement K e =
     and_then (validate_keyring K) (\<lambda>_.
     and_then (entry_index K (ke_identity_id e)) (\<lambda>n.
       case get_at (lk_entries K) n of
         None \<Rightarrow> Inl (IdentityNotFound (identity_id_str (ke_identity_id e)))
       | Some existing \<Rightarrow>
           if ke_app_id existing \<noteq> ke_app_id e
           then Inl (InvalidDeviceIdentity ''cannot replace a local identity keyring entry with a different app id'')
           else Inr n))"

definition keyring_replace :: "'w local_keyring \<Rightarrow> 'w keyring_entry \<Rightarrow> ('w, 'w local_keyring) keyring_transition" where
  "keyring_replace K e = settle_keyring K
     (and_then (admit_replacement K e) (\<lambda>n.
       case get_at (lk_entries K) n of
         None \<Rightarrow> Inl (IdentityNotFound (identity_id_str (ke_identity_id e)))
       | Some _ \<Rightarrow> Inr (K\<lparr>lk_entries := (lk_entries K)[n := e]\<rparr>)))"

definition rebind_identity ::
    "'w local_keyring \<Rightarrow> identity_id \<Rightarrow> identity_id \<Rightarrow> ('w, 'w local_keyring) keyring_transition" where
  "rebind_identity K local replicated = settle_keyring K
     (and_then
       (and_then (validate_keyring K) (\<lambda>_.
          if list_ex (\<lambda>e. ke_identity_id e = replicated) (lk_entries K)
          then Inl (ReplicatedIdentityAlreadyLocal (identity_id_str replicated))
          else entry_index K local)) (\<lambda>n.
       case get_at (lk_entries K) n of
         None \<Rightarrow> Inl (IdentityNotFound (identity_id_str local))
       | Some e \<Rightarrow> Inr (K\<lparr>lk_entries := (lk_entries K)[n := e\<lparr>ke_identity_id := replicated\<rparr>]\<rparr>)))"

definition keyring_remove ::
    "'w local_keyring \<Rightarrow> identity_id \<Rightarrow> ('w, 'w local_keyring \<times> 'w keyring_entry) keyring_transition" where
  "keyring_remove K i = settle_keyring K
     (and_then (entry_index K i) (\<lambda>n.
        Inr (K\<lparr>lk_entries := remove_at n (lk_entries K)\<rparr>, lk_entries K ! n)))"

subsection \<open>Signing seeds\<close>

lemma signing_seed_trimmed: "signing_seed_parse raw = Inr seed \<Longrightarrow> seed = trim raw"
  by (auto simp: signing_seed_parse_def Let_def split: if_splits)

lemma protected_entry_Inr:
  assumes "protected_entry c i k wrapped raw = Inr e"
  obtains seed pk where "signing_seed_parse raw = Inr seed" "derive_from_seed c raw = Inr pk"
    "app_seal_utf8 c k raw = Inr (ke_signing_seed_envelope e)" "signing_public_key_of c e k = Inr pk"
    "ke_identity_id e = i" "ke_app_id e = ak_app_id k" "ke_wrapped_app_key e = wrapped"
  using assms by (auto simp: protected_entry_def and_then_Inr_iff Let_def derive_from_seed_def split: if_splits sum.splits)

lemma protected_seed_opens:
  assumes "age_laws c" and "signing_seed_parse raw = Inr seed" and "app_seal_utf8 c k raw = Inr (ke_signing_seed_envelope e)"
    and "ke_app_id e = ak_app_id k"
  shows "open_signing_seed c e k = Inr seed"
proof -
  obtain sealed where "age_seal (kc_identity c) (age_to_public c (ak_secret k)) raw = Inr sealed" "age_open c (ak_secret k) sealed = Inr raw"
    using assms(1) unfolding age_laws_def by blast
  then have "app_open_utf8 c k (ke_signing_seed_envelope e) = Inr raw"
    using assms(3) by (simp add: app_seal_utf8_def app_open_utf8_def)
  then show ?thesis using assms(2,4) by (simp add: open_signing_seed_def require_matching_app_key_def)
qed

text \<open>C36: A seed of 32 bytes in hexadecimal is always protected, and the entry gives it back, trimmed, to the
  app key it was made for, with the public key of the seed; every other app key is refused.\<close>

theorem protected_seed_is_kept:
  assumes "age_laws c" and "signing_seed_parse raw = Inr seed"
    and "hex_decode (ic_base (kc_identity c)) seed = Inr seed_bytes" and "length seed_bytes = 32"
  shows "\<exists>e. protected_entry c i k wrapped raw = Inr e \<and> seed = trim raw
    \<and> open_signing_seed c e k = Inr seed \<and> signing_public_key_of c e k = derive_from_seed c raw
    \<and> ke_identity_id e = i \<and> ke_wrapped_app_key e = wrapped
    \<and> (\<forall>other. ak_app_id other \<noteq> ak_app_id k \<longrightarrow> (\<exists>cause. open_signing_seed c e other = Inl cause))"
proof -
  obtain pk where pk: "derive_from_seed c raw = Inr pk" using assms(2-4) by (simp add: derive_from_seed_def)
  obtain sealed where sealed: "app_seal_utf8 c k raw = Inr sealed"
    using assms(1) unfolding age_laws_def app_seal_utf8_def by (metis sum.simps(6))
  define e where "e = \<lparr>ke_identity_id = i, ke_app_id = ak_app_id k, ke_wrapped_app_key = wrapped, ke_signing_seed_envelope = sealed\<rparr>"
  have opened: "open_signing_seed c e k = Inr seed" by (intro protected_seed_opens [OF assms(1,2)]) (simp_all add: e_def sealed)
  have trimmed: "signing_seed_parse seed = Inr seed"
    using assms(2) trim_plain [OF hex_plain, of seed] by (auto simp: signing_seed_parse_def Let_def split: if_splits)
  then have key: "signing_public_key_of c e k = derive_from_seed c raw"
    using opened assms(2) by (simp add: signing_public_key_of_def derive_from_seed_def)
  have "protected_entry c i k wrapped raw = Inr e"
    using pk sealed key unfolding e_def by (simp add: protected_entry_def)
  moreover have "\<exists>cause. open_signing_seed c e other = Inl cause" if "ak_app_id other \<noteq> ak_app_id k" for other
    using that by (auto simp: e_def open_signing_seed_def require_matching_app_key_def)
  ultimately show ?thesis using opened key signing_seed_trimmed [OF assms(2)] by (auto simp: e_def)
qed

subsection \<open>Validation\<close>

definition keyring_wf :: "'w local_keyring \<Rightarrow> bool" where
  "keyring_wf K \<longleftrightarrow> lk_version K = LOCAL_IDENTITY_KEYRING_VERSION
     \<and> distinct (map ke_identity_id (lk_entries K)) \<and> distinct (map ke_app_id (lk_entries K))"

lemma validate_entries:
  "fold_result validate_entry (ids, apps) es = Inr seen \<longleftrightarrow>
     distinct (map ke_identity_id es) \<and> distinct (map ke_app_id es)
     \<and> ids \<inter> ke_identity_id ` set es = {} \<and> apps \<inter> ke_app_id ` set es = {}
     \<and> seen = (ke_identity_id ` set es \<union> ids, ke_app_id ` set es \<union> apps)"
proof (induction es arbitrary: ids apps)
  case (Cons e es)
  then show ?case by (auto simp: validate_entry_def)
qed auto

text \<open>Validation decides the invariant.\<close>

lemma validate_keyring_iff: "validate_keyring K = Inr () \<longleftrightarrow> keyring_wf K"
  by (auto simp: validate_keyring_def keyring_wf_def and_then_Inr_iff validate_entries)

lemma settle_keyring_Inr [simp]: "settle_keyring K outcome = Inr a \<longleftrightarrow> outcome = Inr a"
  by (cases outcome) (simp_all add: settle_keyring_def)

lemma settle_keyring_Inl: "settle_keyring K outcome = Inl j \<Longrightarrow> kj_keyring j = K"
  by (cases outcome) (auto simp: settle_keyring_def)

subsection \<open>The keyring as a map\<close>

definition protects :: "'w local_keyring \<Rightarrow> identity_id \<Rightarrow> 'w keyring_entry option" where
  "protects K i = find (\<lambda>e. ke_identity_id e = i) (lk_entries K)"

datatype 'w keyring_change =
    EntryInserted "'w keyring_entry"
  | EntryReplaced "'w keyring_entry"
  | KeyRewrapped app_id 'w
  | IdentityRebound identity_id identity_id
  | EntryRemoved identity_id

fun change_keyring :: "'w local_keyring \<Rightarrow> 'w keyring_change \<Rightarrow> ('w, 'w local_keyring) keyring_transition" where
  "change_keyring K (EntryInserted e) = keyring_insert K e"
| "change_keyring K (EntryReplaced e) = keyring_replace K e"
| "change_keyring K (KeyRewrapped app w) = keyring_replace_wrapped K app w"
| "change_keyring K (IdentityRebound local replicated) = rebind_identity K local replicated"
| "change_keyring K (EntryRemoved i) = and_then (keyring_remove K i) (\<lambda>removed. Inr (fst removed))"

text \<open>What a change means for the map from identities to entries.\<close>

fun change_map ::
    "'w keyring_change \<Rightarrow> (identity_id \<Rightarrow> 'w keyring_entry option) \<Rightarrow> identity_id \<Rightarrow> 'w keyring_entry option" where
  "change_map (EntryInserted e) m = m(ke_identity_id e \<mapsto> e)"
| "change_map (EntryReplaced e) m = m(ke_identity_id e \<mapsto> e)"
| "change_map (KeyRewrapped app w) m =
     (\<lambda>i. map_option (\<lambda>e. if ke_app_id e = app then e\<lparr>ke_wrapped_app_key := w\<rparr> else e) (m i))"
| "change_map (IdentityRebound local replicated) m =
     m(local := None, replicated := map_option (\<lambda>e. e\<lparr>ke_identity_id := replicated\<rparr>) (m local))"
| "change_map (EntryRemoved i) m = m(i := None)"

lemma protects_mem: "distinct (map ke_identity_id (lk_entries K)) \<Longrightarrow>
    protects K i = Some e \<longleftrightarrow> e \<in> set (lk_entries K) \<and> ke_identity_id e = i"
  using find_unique [of ke_identity_id "lk_entries K" e] by (auto simp: protects_def dest: find_SomeD)

lemma map_eqI: "(\<And>i x. f i = Some x \<longleftrightarrow> g i = Some x) \<Longrightarrow> f = g"
  by (metis ext not_None_eq)

text \<open>Two valid lists with the same entries at every identity give the same map.\<close>

lemma protects_eqI:
  assumes "keyring_wf K" and "\<And>i e. m i = Some e \<longleftrightarrow> e \<in> set (lk_entries K) \<and> ke_identity_id e = i"
  shows "protects K = m"
  using assms by (intro map_eqI) (simp add: protects_mem keyring_wf_def)

lemma set_list_update: "i < length xs \<Longrightarrow> distinct xs \<Longrightarrow> set (xs[i := y]) = insert y (set xs - {xs ! i})"
  by (rule set_update_distinct)

lemma updated_entries:
  assumes "keyring_wf K" and "n < length (lk_entries K)"
    and "ke_identity_id e = ke_identity_id (lk_entries K ! n) \<or> ke_identity_id e \<notin> ke_identity_id ` set (lk_entries K)"
    and "ke_app_id e = ke_app_id (lk_entries K ! n)"
  shows "keyring_wf (K\<lparr>lk_entries := (lk_entries K)[n := e]\<rparr>)"
    and "set ((lk_entries K)[n := e]) = insert e (set (lk_entries K) - {lk_entries K ! n})"
proof -
  have d: "distinct (map ke_identity_id (lk_entries K))" "distinct (map ke_app_id (lk_entries K))"
    using assms(1) by (simp_all add: keyring_wf_def)
  have "distinct (map ke_identity_id ((lk_entries K)[n := e]))"
    using assms(2,3) d(1) map_list_update_same [of n "lk_entries K" ke_identity_id e]
    by (auto simp: map_update intro: distinct_list_update)
  then show "keyring_wf (K\<lparr>lk_entries := (lk_entries K)[n := e]\<rparr>)"
    using assms(1,2,4) d(2) map_list_update_same [of n "lk_entries K" ke_app_id e] by (simp add: keyring_wf_def)
  show "set ((lk_entries K)[n := e]) = insert e (set (lk_entries K) - {lk_entries K ! n})"
    using d(1) assms(2) by (intro set_list_update) (auto simp: distinct_map)
qed

lemma entries_injective:
  assumes "keyring_wf K" and "e \<in> set (lk_entries K)" and "e' \<in> set (lk_entries K)"
  shows "ke_identity_id e = ke_identity_id e' \<Longrightarrow> e = e'" and "ke_app_id e = ke_app_id e' \<Longrightarrow> e = e'"
  using assms by (auto simp: keyring_wf_def distinct_map inj_on_def)

lemma protects_wf: "keyring_wf K \<Longrightarrow> protects K i = Some e \<longleftrightarrow> e \<in> set (lk_entries K) \<and> ke_identity_id e = i"
  by (simp add: protects_mem keyring_wf_def)

lemma insert_refines:
  assumes "keyring_wf K" and "keyring_insert K e = Inr K'"
  shows "keyring_wf K' \<and> protects K' = change_map (EntryInserted e) (protects K)"
proof -
  have K': "K' = K\<lparr>lk_entries := lk_entries K @ [e]\<rparr>"
    and fresh: "ke_identity_id e \<notin> ke_identity_id ` set (lk_entries K)" "ke_app_id e \<notin> ke_app_id ` set (lk_entries K)"
    using assms(2)
    by (auto simp: keyring_insert_def and_then_Inr_iff admit_insertion_def keyring_entry_of_def list_ex_iff find_None_iff
        split: option.splits if_splits)
  have wf: "keyring_wf K'" using assms(1) fresh by (auto simp: K' keyring_wf_def)
  have new: "ke_identity_id x \<noteq> ke_identity_id e" if "x \<in> set (lk_entries K)" for x
    using fresh(1) that by (metis image_eqI)
  have "(change_map (EntryInserted e) (protects K)) i = Some x \<longleftrightarrow> x \<in> set (lk_entries K') \<and> ke_identity_id x = i" for i x
    using new [of x] protects_wf [OF assms(1), of i x] by (cases "i = ke_identity_id e") (auto simp: K')
  then show ?thesis using wf protects_eqI by blast
qed

lemma update_refines:
  assumes "keyring_wf K" and "n < length (lk_entries K)" and "K' = K\<lparr>lk_entries := (lk_entries K)[n := e]\<rparr>"
    and "ke_identity_id e = ke_identity_id (lk_entries K ! n) \<or> ke_identity_id e \<notin> ke_identity_id ` set (lk_entries K)"
    and "ke_app_id e = ke_app_id (lk_entries K ! n)"
  shows "keyring_wf K' \<and> protects K' = (protects K)(ke_identity_id (lk_entries K ! n) := None, ke_identity_id e \<mapsto> e)"
proof -
  note updated = updated_entries [OF assms(1,2,4,5)]
  have n: "lk_entries K ! n \<in> set (lk_entries K)" using assms(2) by simp
  have wf: "keyring_wf K'" using updated(1) assms(3) by simp
  have "((protects K)(ke_identity_id (lk_entries K ! n) := None, ke_identity_id e \<mapsto> e)) i = Some x
      \<longleftrightarrow> x \<in> set (lk_entries K') \<and> ke_identity_id x = i" for i x
  proof -
    let ?old = "lk_entries K ! n"
    have same: "x = ?old" if "x \<in> set (lk_entries K)" "ke_identity_id x = ke_identity_id ?old"
      using entries_injective(1) [OF assms(1) that(1) n that(2)] .
    have new: "x = ?old" if x: "x \<in> set (lk_entries K)" "ke_identity_id x = ke_identity_id e"
    proof (cases "ke_identity_id e = ke_identity_id ?old")
      case True
      then show ?thesis using same x by simp
    next
      case False
      then have "ke_identity_id x \<notin> ke_identity_id ` set (lk_entries K)" using assms(4) x(2) by simp
      then show ?thesis using x(1) by blast
    qed
    have entries: "x \<in> set (lk_entries K') \<longleftrightarrow> x = e \<or> x \<in> set (lk_entries K) \<and> x \<noteq> ?old"
      by (simp add: assms(3) updated(2))
    consider "i = ke_identity_id e" | "i \<noteq> ke_identity_id e" "i = ke_identity_id ?old"
      | "i \<noteq> ke_identity_id e" "i \<noteq> ke_identity_id ?old" by blast
    then show ?thesis
    proof cases
      case 1
      then show ?thesis unfolding entries using new by auto
    next
      case 2
      then show ?thesis unfolding entries using same by auto
    next
      case 3
      then show ?thesis unfolding entries using protects_wf [OF assms(1), of i x] by auto
    qed
  qed
  then show ?thesis using wf protects_eqI by blast
qed

lemma replace_refines:
  assumes "keyring_wf K" and "keyring_replace K e = Inr K'"
  shows "keyring_wf K' \<and> protects K' = change_map (EntryReplaced e) (protects K)"
proof -
  obtain n where n: "position (\<lambda>x. ke_identity_id x = ke_identity_id e) (lk_entries K) = Some n"
    and app: "ke_app_id e = ke_app_id (lk_entries K ! n)" and K': "K' = K\<lparr>lk_entries := (lk_entries K)[n := e]\<rparr>"
    using assms(2)
    by (auto simp: keyring_replace_def and_then_Inr_iff admit_replacement_def entry_index_def split: option.splits if_splits)
  then show ?thesis
    using update_refines [OF assms(1) position_SomeD(1) [OF n] K'] position_SomeD(2) [OF n] by simp
qed

lemma rewrap_refines:
  assumes "keyring_wf K" and "keyring_replace_wrapped K app w = Inr K'"
  shows "keyring_wf K' \<and> protects K' = change_map (KeyRewrapped app w) (protects K)"
proof -
  obtain n where n: "position (\<lambda>x. ke_app_id x = app) (lk_entries K) = Some n"
    and K': "K' = K\<lparr>lk_entries := (lk_entries K)[n := (lk_entries K ! n)\<lparr>ke_wrapped_app_key := w\<rparr>]\<rparr>"
    using assms(2) by (auto simp: keyring_replace_wrapped_def split: option.splits)
  let ?e = "lk_entries K ! n"
  note at = position_SomeD [OF n]
  have "change_map (KeyRewrapped app w) (protects K) = (protects K)(ke_identity_id ?e \<mapsto> ?e\<lparr>ke_wrapped_app_key := w\<rparr>)"
  proof (rule map_eqI)
    fix i x
    show "change_map (KeyRewrapped app w) (protects K) i = Some x
      \<longleftrightarrow> ((protects K)(ke_identity_id ?e \<mapsto> ?e\<lparr>ke_wrapped_app_key := w\<rparr>)) i = Some x"
    proof (cases "i = ke_identity_id ?e")
      case True
      have "protects K i = Some ?e" using protects_wf [OF assms(1)] at(3) True by simp
      then show ?thesis using at(2) True by auto
    next
      case False
      have "ke_app_id y \<noteq> app" if "protects K i = Some y" for y
        using that False protects_wf [OF assms(1)] entries_injective(2) [OF assms(1) _ at(3)] at(2) by auto
      then show ?thesis using False by (cases "protects K i") auto
    qed
  qed
  then show ?thesis using update_refines [OF assms(1) at(1) K'] by simp
qed

lemma rebind_refines:
  assumes "keyring_wf K" and "rebind_identity K local replicated = Inr K'"
  shows "keyring_wf K' \<and> protects K' = change_map (IdentityRebound local replicated) (protects K)"
proof -
  obtain n where n: "position (\<lambda>x. ke_identity_id x = local) (lk_entries K) = Some n"
    and fresh: "\<forall>e\<in>set (lk_entries K). ke_identity_id e \<noteq> replicated"
    and K': "K' = K\<lparr>lk_entries := (lk_entries K)[n := (lk_entries K ! n)\<lparr>ke_identity_id := replicated\<rparr>]\<rparr>"
    using assms(2)
    by (auto simp: rebind_identity_def and_then_Inr_iff entry_index_def list_ex_iff split: option.splits if_splits)
  note at = position_SomeD [OF n]
  have "protects K local = Some (lk_entries K ! n)" using protects_wf [OF assms(1)] at(2,3) by simp
  then show ?thesis using update_refines [OF assms(1) at(1) K'] fresh at(2) by (simp add: image_iff) blast
qed

lemma remove_refines:
  assumes "keyring_wf K" and "keyring_remove K i = Inr (K', e)"
  shows "keyring_wf K' \<and> protects K' = change_map (EntryRemoved i) (protects K) \<and> protects K i = Some e"
proof -
  obtain n where n: "position (\<lambda>x. ke_identity_id x = i) (lk_entries K) = Some n"
    and K': "K' = K\<lparr>lk_entries := remove_at n (lk_entries K)\<rparr>" and e: "e = lk_entries K ! n"
    using assms(2) by (auto simp: keyring_remove_def and_then_Inr_iff entry_index_def split: option.splits)
  note at = position_SomeD [OF n]
  have d: "distinct (lk_entries K)" using assms(1) by (auto simp: keyring_wf_def distinct_map)
  have wf: "keyring_wf K'"
    using assms(1) by (simp add: K' keyring_wf_def map_remove_at distinct_remove_at)
  have "(change_map (EntryRemoved i) (protects K)) j = Some x \<longleftrightarrow> x \<in> set (lk_entries K') \<and> ke_identity_id x = j" for j x
    using protects_wf [OF assms(1)] entries_injective(1) [OF assms(1) _ at(3)] at(2)
    by (auto simp: K' set_remove_at [OF d at(1)])
  then show ?thesis using wf protects_eqI protects_wf [OF assms(1)] at(2,3) e by blast
qed

lemma change_refines:
  assumes "keyring_wf K" and "change_keyring K ch = Inr K'"
  shows "keyring_wf K' \<and> protects K' = change_map ch (protects K)"
proof (cases ch)
  case (EntryInserted e)
  then show ?thesis using insert_refines [OF assms(1)] assms(2) by simp
next
  case (EntryReplaced e)
  then show ?thesis using replace_refines [OF assms(1)] assms(2) by simp
next
  case (KeyRewrapped app w)
  then show ?thesis using rewrap_refines [OF assms(1)] assms(2) by simp
next
  case (IdentityRebound local replicated)
  then show ?thesis using rebind_refines [OF assms(1)] assms(2) by simp
next
  case (EntryRemoved i)
  then obtain e where "keyring_remove K i = Inr (K', e)" using assms(2) by (auto simp: and_then_Inr_iff)
  then show ?thesis using remove_refines [OF assms(1)] EntryRemoved by simp
qed

lemma rejected_change: "change_keyring K ch = Inl j \<Longrightarrow> kj_keyring j = K"
  by (cases ch) (auto simp: keyring_insert_def keyring_replace_def keyring_replace_wrapped_def rebind_identity_def
      keyring_remove_def and_then_Inl_iff settle_keyring_Inl)

definition keyring_step :: "'w local_keyring \<Rightarrow> 'w local_keyring \<Rightarrow> bool" where
  "keyring_step K K' \<longleftrightarrow> (\<exists>ch. change_keyring K ch = Inr K')"

interpretation keyring_state: owned_state keyring_wf keyring_step
  by unfold_locales (auto simp: keyring_step_def dest: change_refines)

text \<open>C35: The keyring is a map from identities to entries: every accepted change of a valid keyring is the
  change of the map and leaves it valid, and every refused one gives the keyring back.\<close>

theorem keyring_refines_a_map:
  assumes "validate_keyring K = Inr ()"
  shows "case change_keyring K ch of
      Inr K' \<Rightarrow> validate_keyring K' = Inr () \<and> protects K' = change_map ch (protects K)
    | Inl rejected \<Rightarrow> kj_keyring rejected = K"
  using assms change_refines [of K ch] rejected_change [of K ch]
  by (auto simp: validate_keyring_iff split: sum.split)

text \<open>Every keyring reached from one that validates validates, so no identity and no app key has two
  entries.\<close>

theorem reached_keyrings_validate:
  assumes "keyring_from_entries es = Inr K" and "keyring_step\<^sup>*\<^sup>* K K'"
  shows "validate_keyring K' = Inr () \<and> keyring_from_entries (lk_entries K') = Inr K'
    \<and> distinct (map ke_identity_id (lk_entries K')) \<and> distinct (map ke_app_id (lk_entries K'))"
proof -
  have "keyring_wf K" using assms(1) by (auto simp: keyring_from_entries_def and_then_Inr_iff Let_def simp flip: validate_keyring_iff)
  then have wf: "keyring_wf K'" using keyring_state.reached assms(2) by blast
  then have "\<lparr>lk_version = LOCAL_IDENTITY_KEYRING_VERSION, lk_entries = lk_entries K'\<rparr> = K'" by (simp add: keyring_wf_def)
  then show ?thesis using wf
    by (simp add: keyring_from_entries_def flip: validate_keyring_iff) (simp add: validate_keyring_iff keyring_wf_def)
qed

end
