(* ===== verification/DirectoryExamples.thy ===== *)
theory DirectoryExamples
  imports DirectoryUse LocalKeyring
begin

text \<open>
  Concrete records, directories and keyrings at which the properties of the local identity theories
  are applied: a sealing that writes the recipient before the plaintext, two app keys, a vault
  whose keys are 64 hexadecimal digits, and the transitions from an empty directory.
\<close>

subsection \<open>A concrete sealing\<close>

definition dx_seal :: "string \<Rightarrow> string \<Rightarrow> (string, string) result" where
  "dx_seal recipient plaintext = Inr ((recipient @ ''/'') @ plaintext)"

definition dx_open :: "string \<Rightarrow> string \<Rightarrow> (string, string) result" where
  "dx_open secret sealed =
     (case strip_prefix (secret @ ''/'') sealed of None \<Rightarrow> Inl ''no matching key'' | Some plaintext \<Rightarrow> Inr plaintext)"

definition dx_crates :: identity_crates where
  "dx_crates = \<lparr>ic_base = ex_crates, age_recipient = Inr, age_seal = dx_seal, display_error = (\<lambda>_. ''error''),
     identity_yaml_to_string = (\<lambda>_. Inr ''event''), identity_yaml_from_str = (\<lambda>_. Inl ''no event'')\<rparr>"

definition dxc :: key_crates where
  "dxc = \<lparr>kc_identity = dx_crates, age_parse_secret = Inr, age_to_public = (\<lambda>s. s), age_open = dx_open\<rparr>"

lemma dxc_fields [simp]:
  "ic_base (kc_identity dxc) = ex_crates" "age_recipient (kc_identity dxc) = Inr" "age_seal (kc_identity dxc) = dx_seal"
  "age_to_public dxc s = s" "age_open dxc = dx_open"
  by (simp_all add: dxc_def dx_crates_def)

lemma dxc_laws: "age_laws dxc"
  by (simp add: age_laws_def dx_seal_def dx_open_def del: append_assoc)

definition dx_key :: "string \<Rightarrow> app_key" where
  "dx_key s = \<lparr>ak_secret = s, ak_app_id = AppId s\<rparr>"

definition dx_keys :: vault_keys where
  "dx_keys = \<lparr>vk_secrets_key = replicate 64 (CHR ''a''), vk_members_key = replicate 64 (CHR ''b'')\<rparr>"

lemma dx_digits: "is_ascii_hexdigit c \<Longrightarrow> symmetric_key_parse (replicate 64 c) = Inr (replicate 64 c)"
  by (simp add: symmetric_key_parse_def trim_plain hexdigit_plain list_all_iff)

lemma dx_keys_laws: "symmetric_keys dx_keys"
proof -
  have "is_ascii_hexdigit (CHR ''a'')" "is_ascii_hexdigit (CHR ''b'')" by code_simp+
  then show ?thesis by (simp add: symmetric_keys_def dx_keys_def dx_digits)
qed

definition dx_id :: "string \<Rightarrow> identity_id" where "dx_id s = IdentityId (''identity_'' @ s)"

definition dx_store :: store_id where "dx_store = StoreId ''store_Abcdef_1234''"

abbreviation dx_member :: "string \<Rightarrow> identity_member" where
  "dx_member s \<equiv> app_key_member dxc (dx_key s) UnnamedMember"

subsection \<open>A record with two members and a vault\<close>

definition dx_record :: identity_record where
  "dx_record = \<lparr>ir_identity_id = dx_id ''a'', ir_label = ''home'', ir_control_epoch = control_epoch_initial,
     ir_members = [dx_member ''a''], ir_vault_deks = []\<rparr>"

definition dx_pair :: identity_record where
  "dx_pair = advance (dx_record\<lparr>ir_members := [dx_member ''a'', dx_member ''b'']\<rparr>)"

definition dx_grant :: "string list \<Rightarrow> vault_dek" where
  "dx_grant ss = \<lparr>dk_store_id = dx_store, dk_key_epoch = LegacyUnknown,
     dk_secrets_envelopes = map (\<lambda>s. \<lparr>me_app_id = AppId s, me_envelope = (s @ ''/'') @ vk_secrets_key dx_keys\<rparr>) ss,
     dk_members_envelopes = map (\<lambda>s. \<lparr>me_app_id = AppId s, me_envelope = (s @ ''/'') @ vk_members_key dx_keys\<rparr>) ss\<rparr>"

lemma dx_member_fields [simp]: "lm_app_id (dx_member s) = AppId s" "lm_public_key (dx_member s) = s"
  "ak_app_id (dx_key s) = AppId s" "ak_secret (dx_key s) = s"
  by (simp_all add: app_key_member_def dx_key_def app_public_key_def)

lemma dx_created: "create_with_app_key dxc (Inr (dx_id ''a'')) ''home'' (dx_key ''a'') UnnamedMember = Inr dx_record"
  by (simp add: create_with_app_key_def dx_record_def)

lemma dx_added: "add_member dx_record (dx_member ''b'') = Inr dx_pair"
  by (simp add: add_member_def dx_record_def dx_pair_def)

lemma dx_wrapped: "wrap_vault_keys_for_members dxc dx_keys (map dx_member ss) dx_store = Inr (dx_grant ss)"
proof -
  have "fold_result (wrap_step dxc dx_keys) es (map dx_member ss)
      = Inr (fst es @ dk_secrets_envelopes (dx_grant ss), snd es @ dk_members_envelopes (dx_grant ss))" for es
    by (induction ss arbitrary: es) (simp_all add: wrap_step_def seal_for_def public_key_seal_def dx_seal_def dx_grant_def)
  then show ?thesis by (simp add: wrap_vault_keys_for_members_def dx_grant_def)
qed

lemma dx_bound: "find_member (AppId s) (ir_members r) = Some (dx_member s) \<Longrightarrow> bound_member dxc r (dx_key s) = Inr (dx_member s)"
  by (simp add: bound_member_def binding_to_app_key_def app_key_member_def)

definition dx_vault_record :: identity_record where
  "dx_vault_record = (advance dx_pair)\<lparr>ir_vault_deks := [dx_grant [''a'', ''b'']]\<rparr>"

lemma dx_generated: "generate_vault_dek dxc (Inr dx_keys) dx_pair dx_store = Inr (dx_vault_record, dx_keys)"
  using dx_wrapped [of "[''a'', ''b'']"]
  by (simp add: generate_vault_dek_def dx_pair_def dx_record_def has_members_def advance_def dx_vault_record_def)

lemma dx_wf: "record_wf dx_record" "record_wf dx_pair" "record_wf dx_vault_record"
proof -
  show r: "record_wf dx_record" using create_wf [OF dx_created] .
  show p: "record_wf dx_pair" using add_member_wf [OF r dx_added] .
  show "record_wf dx_vault_record" using generate_wf [OF p dx_generated] .
qed

lemma dx_vault_bound: "s \<in> {''a'', ''b''} \<Longrightarrow> bound_member dxc dx_pair (dx_key s) = Inr (dx_member s)"
  "s \<in> {''a'', ''b''} \<Longrightarrow> bound_member dxc dx_vault_record (dx_key s) = Inr (dx_member s)"
  by (auto intro!: dx_bound simp: dx_pair_def dx_vault_record_def dx_record_def advance_def find_member_def)

theorem record_transitions_refine_access_witness:
  "record_wf dx_pair \<and> access_of dx_pair = access_step (AddMember (AppId ''b'')) (access_of dx_record)"
proof -
  have "record_step dxc (AddMember (AppId ''b'')) dx_record dx_pair"
    using record_step.adding [OF dx_added] by simp
  then show ?thesis by (rule record_transitions_refine_access [OF dx_wf(1)])
qed

theorem generated_keys_open_for_members_witness:
  "open_vault_dek dxc dx_vault_record (dx_key ''b'') dx_store = Inr dx_keys"
  using generated_keys_open_for_members [OF dxc_laws dx_wf(2) dx_keys_laws dx_generated dx_vault_bound(1), of "''b''"] by simp

definition dx_trio :: identity_record where
  "dx_trio = advance (dx_vault_record\<lparr>ir_members := map dx_member [''a'', ''b'', ''c'']\<rparr>)"

lemma dx_trio_added: "add_member dx_vault_record (dx_member ''c'') = Inr dx_trio"
  by (simp add: add_member_def dx_trio_def dx_vault_record_def dx_pair_def dx_record_def advance_def)

definition dx_shared :: identity_record where
  "dx_shared = advance (dx_trio\<lparr>ir_vault_deks := [dx_grant [''a'', ''b'', ''c'']]\<rparr>)"

lemma dx_granted: "grant_member_to_vaults dxc dx_trio (dx_member ''c'') [(dx_store, dx_keys)] = Inr dx_shared"
proof -
  have deks: "ir_vault_deks dx_trio = [dx_grant [''a'', ''b'']]" "ir_members dx_trio = map dx_member [''a'', ''b'', ''c'']"
    by (simp_all add: dx_trio_def dx_vault_record_def advance_def)
  have store: "dk_store_id (dx_grant ss) = dx_store" for ss by (simp add: dx_grant_def)
  have "covers_same_apps (dx_grant [''a'', ''b''])" by (simp add: covers_same_apps_def dx_grant_def)
  moreover have "authorized_members dx_trio (dx_grant [''a'', ''b'']) = Inr (map dx_member [''a'', ''b''])"
    by (simp add: authorized_members_def deks dx_grant_def find_member_def)
  moreover have "with_grantee (dx_member ''c'') (map dx_member [''a'', ''b'']) = map dx_member [''a'', ''b'', ''c'']"
    by (simp add: with_grantee_def)
  ultimately have "stage_replacement dxc dx_trio (dx_member ''c'') (dx_store, dx_keys) = Inr (0, dx_grant [''a'', ''b'', ''c''])"
    using dx_wrapped [of "[''a'', ''b'', ''c'']"]
    by (simp add: stage_replacement_def deks store get_at_def) (simp add: dx_grant_def)
  then show ?thesis by (simp add: grant_member_to_vaults_def deks dx_shared_def)
qed

theorem granted_vault_opens_for_recipients_witness:
  "open_vault_dek dxc dx_shared (dx_key ''a'') dx_store = Inr dx_keys"
proof -
  have "record_wf dx_trio" using add_member_wf [OF dx_wf(3) dx_trio_added] .
  moreover have "bound_member dxc dx_trio (dx_key ''a'') = Inr (dx_member ''a'')"
    by (rule dx_bound) (simp add: dx_trio_def find_member_def advance_def)
  moreover have "record_vault_dek dx_trio dx_store = Some (dx_grant [''a'', ''b''])"
    by (simp add: record_vault_dek_def find_dek_def dx_trio_def dx_vault_record_def advance_def) (simp add: dx_grant_def)
  moreover have "ak_app_id (dx_key ''a'') \<in> recipients (dx_grant [''a'', ''b''])"
    by (simp add: recipients_def dx_grant_def)
  moreover have "dx_member ''c'' \<in> set (ir_members dx_trio)" by (simp add: dx_trio_def advance_def)
  ultimately show ?thesis
    using granted_vault_opens_for_recipients [OF dxc_laws, of dx_trio "dx_member ''c''" "[(dx_store, dx_keys)]" dx_store dx_keys
        dx_shared "dx_key ''a''" "dx_member ''a''"] dx_keys_laws dx_granted by simp
qed

theorem removed_member_is_locked_out_witness:
  "\<exists>r. remove_member dx_vault_record (AppId ''a'') = Inr r
    \<and> open_vault_dek dxc r (dx_key ''a'') dx_store = Inl IdentityEnrollmentRequired
    \<and> existing_vault_keys dxc r (dx_key ''b'') dx_store = existing_vault_keys dxc dx_vault_record (dx_key ''b'') dx_store"
proof -
  have "\<exists>r. remove_member dx_vault_record (AppId ''a'') = Inr r"
    by (simp add: remove_member_def dx_vault_record_def dx_pair_def dx_record_def advance_def)
  then obtain r where r: "remove_member dx_vault_record (AppId ''a'') = Inr r" by blast
  show ?thesis
    using removed_member_is_locked_out [OF dx_wf(3) r, of "dx_key ''a''" dxc dx_store]
      removed_member_is_locked_out [OF dx_wf(3) r, of "dx_key ''b''" dxc dx_store] r by simp
qed

subsection \<open>A directory with one identity\<close>

definition dx_home :: identity_directory where
  "dx_home = \<lparr>dr_identities = [dx_record], dr_selection = Selected (dx_id ''a''), dr_retired_app_ids = []\<rparr>"

lemma dx_label: "trim ''home'' = ''home''"
proof -
  have "list_all plain_char ''home''" by code_simp
  then show ?thesis by (rule trim_plain)
qed

lemma dx_home_created:
  "create_identity dxc (Inr (dx_id ''a'')) empty_directory ''home'' (dx_key ''a'') UnnamedMember = Inr (dx_home, dx_id ''a'')"
  using dx_created by (simp add: create_identity_def settle_directory_def ensure_app_key_active_def empty_directory_def dx_label)
    (simp add: dx_home_def dx_record_def)

lemma dx_home_reached: "(careful_call dxc)\<^sup>*\<^sup>* empty_directory dx_home"
proof -
  have "directory_step dxc empty_directory (OpCreate (Inr (dx_id ''a'')) ''home'' (dx_key ''a'') UnnamedMember) dx_home"
    using dx_home_created by (rule directory_step.creates)
  moreover have "caller_condition dxc empty_directory (OpCreate (Inr (dx_id ''a'')) ''home'' (dx_key ''a'') UnnamedMember)"
    by (simp add: fresh_identity_def empty_directory_def listed_apps_def)
  ultimately have "careful_call dxc empty_directory dx_home" unfolding careful_call_def by blast
  then show ?thesis by blast
qed

lemma dx_home_wf: "directory_wf dx_home"
  using dir_state.reached [OF dx_home_reached empty_directory_wf] .

theorem reached_directories_validate_witness: "validate_directory dx_home = Inr ()"
  using reached_directories_validate [OF dx_home_reached] by simp

theorem retired_key_is_refused_forever_witness:
  "\<exists>d. retire_local_identity_key dx_home (dx_id ''a'') (AppId ''a'') = Inr d
    \<and> directory_open_vault_dek dxc d (dx_key ''a'') dx_store = Inl RetiredAppKey"
proof -
  have "validate_directory dx_home = Inr ()" using dx_home_wf by (simp add: validate_directory_iff directory_wf_def)
  then have "\<exists>d. retire_local_identity_key dx_home (dx_id ''a'') (ak_app_id (dx_key ''a'')) = Inr d"
    by (simp add: retire_local_identity_key_def admit_local_key_retirement_def retire_identity_member_def
        require_retiring_member_def get_at_def Let_def dx_home_def dx_record_def)
  then obtain d where d: "retire_local_identity_key dx_home (dx_id ''a'') (ak_app_id (dx_key ''a'')) = Inr d" by blast
  show ?thesis using retired_key_is_refused_forever [OF dx_home_wf d, of dxc d] d by auto
qed

theorem opened_vault_reopens_under_any_selection_witness:
  "\<exists>d. directory_open_or_generate dxc (Inr dx_keys) dx_home (dx_key ''a'') dx_store = Inr (d, dx_keys)
    \<and> directory_open_vault_dek dxc (d\<lparr>dr_selection := SelectionEmpty\<rparr>) (dx_key ''a'') dx_store = Inr dx_keys"
proof -
  have "bound_member dxc dx_record (dx_key ''a'') = Inr (dx_member ''a'')"
    by (rule dx_bound) (simp add: dx_record_def find_member_def)
  then have "\<exists>d. directory_open_or_generate dxc (Inr dx_keys) dx_home (dx_key ''a'') dx_store = Inr (d, dx_keys)"
    using dx_wrapped [of "[''a'']"]
    by (simp add: directory_open_or_generate_def vault_opening_identity_def opening_owner_def ensure_app_key_active_def
        dx_home_def vault_owner_def selected_def find_identity_def take_identity_def open_keys_detached_def
        open_or_generate_vault_dek_def existing_vault_keys_def owns_vault_def record_vault_dek_def find_dek_def
        generate_vault_dek_def has_members_def settle_def)
      (simp add: dx_record_def find_dek_def)
  then obtain d where d: "directory_open_or_generate dxc (Inr dx_keys) dx_home (dx_key ''a'') dx_store = Inr (d, dx_keys)" by blast
  show ?thesis
    using opened_vault_reopens_under_any_selection [OF dxc_laws dx_home_wf dx_keys_laws d, of SelectionEmpty] d by auto
qed

lemma dx_enrolled: "local_identity_for_app_key dxc dx_home (dx_key ''a'') = Inr dx_record"
  by (simp add: local_identity_for_app_key_def identity_for_app_key_def ensure_app_key_active_def matching_identity_def
      dx_home_def dx_record_def find_member_def find_identity_def)
    (simp add: app_key_member_def app_public_key_def dx_key_def)


definition dx_membership :: replicated_membership where
  "dx_membership = \<lparr>rm_identity_id = dx_id ''a'', rm_app_key = dx_key ''a'',
     rm_members = [(dx_member ''a'')\<lparr>lm_label := NamedMember ''laptop''\<rparr>, dx_member ''b''], rm_revoked = [AppId ''c''],
     rm_own_grants = [\<lparr>rg_store_id = dx_store, rg_secrets_envelope = (''a'' @ ''/'') @ vk_secrets_key dx_keys,
       rg_members_envelope = (''a'' @ ''/'') @ vk_members_key dx_keys\<rparr>], rm_removed_vaults = []\<rparr>"

theorem replication_settles_witness:
  "\<exists>r. record_apply_replicated dxc {} dx_membership dx_record = Inr (r, True)
    \<and> record_apply_replicated dxc {} dx_membership r = Inr (r, False)"
proof -
  have "bound_member dxc dx_record (dx_key ''a'') = Inr (dx_member ''a'')"
    by (rule dx_bound) (simp add: dx_record_def find_member_def)
  moreover have "decrypt_envelope dxc (dx_key ''a'') ((''a'' @ ''/'') @ key) = Inr key"
    if "symmetric_key_parse key = Inr key" for key
    using that by (simp add: decrypt_envelope_def app_open_utf8_def dx_open_def del: append_assoc)
  moreover have "symmetric_key_parse (vk_secrets_key dx_keys) = Inr (vk_secrets_key dx_keys)"
      "symmetric_key_parse (vk_members_key dx_keys) = Inr (vk_members_key dx_keys)"
    using dx_keys_laws by (simp_all add: symmetric_keys_def)
  moreover have "ir_members dx_record = [dx_member ''a'']" "ir_vault_deks dx_record = []" by (simp_all add: dx_record_def)
  ultimately have "\<exists>r. record_apply_replicated dxc {} dx_membership dx_record = Inr (r, True)"
    by (simp add: record_apply_replicated_def dx_membership_def mirror_member_def find_member_def binding_to_member_def
        mirror_grant_def find_dek_def retain_members_def retain_vaults_def mirrored_record_def Let_def)
  then obtain r where r: "record_apply_replicated dxc {} dx_membership dx_record = Inr (r, True)" by blast
  have "distinct (map lm_app_id (rm_members dx_membership))"
      "member_apps (rm_members dx_membership) \<inter> set (rm_revoked dx_membership) = {}"
    by (simp_all add: dx_membership_def)
  from replication_settles [OF r this] show ?thesis using r by blast
qed

theorem second_identity_of_a_key_is_refused_later_witness:
  "\<exists>d i. create_identity dxc (Inr (dx_id ''b'')) dx_home ''home'' (dx_key ''a'') UnnamedMember = Inr (d, i)
    \<and> validate_directory d \<noteq> Inr ()"
proof -
  have "\<exists>d i. create_identity dxc (Inr (dx_id ''b'')) dx_home ''home'' (dx_key ''a'') UnnamedMember = Inr (d, i)"
    by (simp add: create_identity_def ensure_app_key_active_def dx_label create_with_app_key_def dx_home_def)
  then obtain d i where d: "create_identity dxc (Inr (dx_id ''b'')) dx_home ''home'' (dx_key ''a'') UnnamedMember = Inr (d, i)"
    by blast
  show ?thesis using second_identity_of_a_key_is_refused_later [OF dx_home_created d] d by blast
qed

subsection \<open>A keyring with one entry\<close>

definition dx_entry :: "nat keyring_entry" where
  "dx_entry = \<lparr>ke_identity_id = dx_id ''a'', ke_app_id = AppId ''a'', ke_wrapped_app_key = 7, ke_signing_seed_envelope = ''sealed''\<rparr>"

theorem keyring_refines_a_map_witness:
  "\<exists>K. change_keyring empty_keyring (EntryInserted dx_entry) = Inr K \<and> validate_keyring K = Inr ()
    \<and> protects K (dx_id ''a'') = Some dx_entry"
proof -
  have "validate_keyring (empty_keyring :: nat local_keyring) = Inr ()"
    by (simp add: validate_keyring_iff keyring_wf_def empty_keyring_def)
  note refined = keyring_refines_a_map [OF this, of "EntryInserted dx_entry"]
  have "\<exists>K. change_keyring empty_keyring (EntryInserted dx_entry) = Inr K"
    using \<open>validate_keyring empty_keyring = Inr ()\<close>
    by (simp add: keyring_insert_def admit_insertion_def keyring_entry_of_def) (simp add: empty_keyring_def)
  then obtain K where "change_keyring empty_keyring (EntryInserted dx_entry) = Inr K" by blast
  then show ?thesis using refined by (simp add: dx_entry_def)
qed

theorem protected_seed_is_kept_witness:
  "\<exists>e. protected_entry dxc (dx_id ''a'') (dx_key ''a'') (7 :: nat) (ex_hex_encode (replicate 32 1)) = Inr e
    \<and> open_signing_seed dxc e (dx_key ''a'') = Inr (ex_hex_encode (replicate 32 1))"
proof -
  let ?seed = "ex_hex_encode (replicate 32 1)"
  have decoded: "hex_decode (ic_base (kc_identity dxc)) ?seed = Inr (replicate 32 1)" by (simp add: ex_crates_def ex_hex(1))
  have "list_all is_ascii_hexdigit ?seed" "length ?seed = 64" by (simp_all add: ex_hex)
  then have "signing_seed_parse ?seed = Inr ?seed" by (simp add: signing_seed_parse_def trim_plain hex_plain)
  from protected_seed_is_kept [OF dxc_laws this decoded, of "dx_id ''a''" "dx_key ''a''" 7]
  show ?thesis by auto
qed

end
