(* ===== verification/VaultMembers.thy ===== *)
theory VaultMembers
  imports LocalIdentity
begin

text \<open>
  The member records of a vault (nook-auth2/src/auth/multi_device: state.rs, roster.rs, join.rs,
  access.rs and key_actions.rs): the kinds of record that share the flat row of a secret, the state
  they are kept in, the encrypted roster with its changes, join requests and enrollment.

  The JSON of a record is rendered and read by serde_json, which is a parameter, as is age with a
  scrypt recipient behind VaultCrypto; the text of the error of a failing call is the parameter's.
\<close>

subsection \<open>Records\<close>

record auth_envelopes =
  ae_secrets_key :: string
  ae_members_key :: string

record join_request =
  jr_device_id :: device_id
  jr_public_key :: string
  jr_signing_public_key :: device_signing_public_key
  jr_requested_at :: string

record member_entry =
  me_pk_id :: auth_key_id
  me_pk :: string
  me_label :: member_label
  me_enrolled_at :: string

record vault_member =
  vm_auth_id :: auth_key_id
  vm_device_id :: device_id
  vm_public_key :: string
  vm_enrolled_at :: string
  vm_label :: member_label

datatype share_version = ShareLegacy | ShareCurrent

definition share_version_from :: "u32 \<Rightarrow> (string, share_version) result" where
  "share_version_from value =
     (if value = 1 then Inr ShareLegacy else if value = 2 then Inr ShareCurrent
      else Inl ''unsupported Sentinel share version'')"

record share_envelope =
  sh_version :: share_version
  sh_threshold :: u8
  sh_required_participants :: u8
  sh_share_index :: u8
  sh_ciphertext :: string

record sentinel_participant_entry =
  pe_device_id :: device_id
  pe_encryption_public_key :: string
  pe_signing_public_key :: device_signing_public_key
  pe_label :: string
  pe_enrolled_at :: string

record member_crates =
  mc_keys :: key_crates
  auth_to_json :: "auth_envelopes \<Rightarrow> (string, string) result"
  auth_from_json :: "string \<Rightarrow> (string, auth_envelopes) result"
  join_to_json :: "join_request \<Rightarrow> (string, string) result"
  join_from_json :: "string \<Rightarrow> (string, join_request) result"
  entry_to_json :: "member_entry \<Rightarrow> (string, string) result"
  entry_from_json :: "string \<Rightarrow> (string, member_entry) result"
  share_to_json :: "share_envelope \<Rightarrow> (string, string) result"
  share_from_json :: "string \<Rightarrow> (string, share_envelope) result"
  scrypt_seal :: "string \<Rightarrow> string \<Rightarrow> (string, string) result"
  scrypt_open :: "string \<Rightarrow> string \<Rightarrow> (string, string) result"

definition parse_auth_envelopes :: "member_crates \<Rightarrow> string \<Rightarrow> auth_envelopes multi_device" where
  "parse_auth_envelopes c value =
     (case auth_from_json c value of Inl e \<Rightarrow> Inl (AuthEnvelopeJson e) | Inr a \<Rightarrow> Inr a)"

definition parse_join_request :: "member_crates \<Rightarrow> string \<Rightarrow> join_request multi_device" where
  "parse_join_request c value = (case join_from_json c value of Inl e \<Rightarrow> Inl (JoinRequestJson e) | Inr j \<Rightarrow> Inr j)"

definition parse_share_envelope :: "member_crates \<Rightarrow> string \<Rightarrow> share_envelope multi_device" where
  "parse_share_envelope c value = (case share_from_json c value of Inl e \<Rightarrow> Inl (SentinelShareJson e) | Inr s \<Rightarrow> Inr s)"

definition auth_record_json :: "member_crates \<Rightarrow> auth_envelopes \<Rightarrow> string multi_device" where
  "auth_record_json c a = (case auth_to_json c a of Inl e \<Rightarrow> Inl (AuthEnvelopesSerialize e) | Inr s \<Rightarrow> Inr s)"

definition join_record_json :: "member_crates \<Rightarrow> join_request \<Rightarrow> string multi_device" where
  "join_record_json c j = (case join_to_json c j of Inl e \<Rightarrow> Inl (JoinRequestSerialize e) | Inr s \<Rightarrow> Inr s)"

definition share_record_json :: "member_crates \<Rightarrow> share_envelope \<Rightarrow> string multi_device" where
  "share_record_json c sh = (case share_to_json c sh of Inl e \<Rightarrow> Inl (SentinelShareSerialize e) | Inr s \<Rightarrow> Inr s)"

subsection \<open>Keys of rows\<close>

abbreviation (input) MEMBER_RECORD_PREFIX :: string where "MEMBER_RECORD_PREFIX \<equiv> ''member:''"

abbreviation (input) SENTINEL_SHARE_RECORD_PREFIX :: string where
  "SENTINEL_SHARE_RECORD_PREFIX \<equiv> ''sentinel_share:''"

abbreviation (input) AGE_ARMOR_MARKER :: string where "AGE_ARMOR_MARKER \<equiv> ''BEGIN AGE ENCRYPTED FILE''"

definition member_record_key :: "auth_key_id \<Rightarrow> string" where
  "member_record_key i = MEMBER_RECORD_PREFIX @ auth_key_id_str i"

definition sentinel_share_record_key :: "device_id \<Rightarrow> string" where
  "sentinel_share_record_key d = SENTINEL_SHARE_RECORD_PREFIX @ app_id_str d"

definition member_record_key_matches :: "auth_key_id \<Rightarrow> string \<Rightarrow> bool" where
  "member_record_key_matches i stored_key \<longleftrightarrow>
     stored_key = member_record_key i
     \<or> (case auth_key_id_parse (auth_key_id_str i) of
          Inr normalized \<Rightarrow> stored_key = member_record_key normalized
        | Inl _ \<Rightarrow> False)"

text \<open>\<open>str::contains\<close>.\<close>

fun has_substring :: "string \<Rightarrow> string \<Rightarrow> bool" where
  "has_substring p [] = (p = [])"
| "has_substring p (c # s) = (take (length p) (c # s) = p \<or> has_substring p s)"

definition age_armored_parse :: "string \<Rightarrow> string validation" where
  "age_armored_parse raw = (if \<not> has_substring AGE_ARMOR_MARKER raw then Inl AgeArmoredInvalid else Inr raw)"

definition undeclared_row :: "string \<Rightarrow> string \<Rightarrow> stored_secret_record" where
  "undeclared_row key value = \<lparr>sr_key = SecretId key, sr_secret_type = Undeclared, sr_value = value\<rparr>"

abbreviation row_key :: "stored_secret_record \<Rightarrow> string" where "row_key r \<equiv> secret_id_str (sr_key r)"

subsection \<open>The kind of a row\<close>

datatype vault_meta_record =
  MetaSecret secret_id secret_type string
| MetaAuth auth_key_id auth_envelopes
| MetaJoin device_id join_request
| MetaMember auth_key_id string
| MetaShare device_id share_envelope

definition classify_share :: "member_crates \<Rightarrow> string \<Rightarrow> string \<Rightarrow> vault_meta_record multi_device" where
  "classify_share c device_id_str value =
     (case app_id_parse device_id_str of
        Inl e \<Rightarrow> Inl (Validation e)
      | Inr d \<Rightarrow> and_then (parse_share_envelope c value) (\<lambda>share. Inr (MetaShare d share)))"

definition classify_member :: "stored_secret_record \<Rightarrow> auth_key_id option" where
  "classify_member r =
     (case strip_prefix MEMBER_RECORD_PREFIX (row_key r) of
        None \<Rightarrow> None
      | Some pk_id \<Rightarrow>
          if has_substring ''BEGIN AGE ENCRYPTED FILE'' (sr_value r)
          then (case auth_key_id_parse pk_id of Inl _ \<Rightarrow> None | Inr i \<Rightarrow> Some i) else None)"

definition classify_auth :: "member_crates \<Rightarrow> stored_secret_record \<Rightarrow> (auth_key_id \<times> auth_envelopes) option" where
  "classify_auth c r =
     (if auth_key_id_is_valid (row_key r)
      then (case parse_auth_envelopes c (sr_value r) of
              Inl _ \<Rightarrow> None
            | Inr envelopes \<Rightarrow>
                (case auth_key_id_parse (row_key r) of Inl _ \<Rightarrow> None | Inr i \<Rightarrow> Some (i, envelopes)))
      else None)"

definition classify :: "member_crates \<Rightarrow> stored_secret_record \<Rightarrow> vault_meta_record multi_device" where
  "classify c r =
     (case strip_prefix SENTINEL_SHARE_RECORD_PREFIX (row_key r) of
        Some device_id_str \<Rightarrow> classify_share c device_id_str (sr_value r)
      | None \<Rightarrow>
          (case parse_join_request c (sr_value r) of
             Inr req \<Rightarrow> Inr (MetaJoin (jr_device_id req) req)
           | Inl _ \<Rightarrow>
               (case classify_member r of
                  Some i \<Rightarrow> Inr (MetaMember i (sr_value r))
                | None \<Rightarrow>
                    (case classify_auth c r of
                       Some (i, envelopes) \<Rightarrow> Inr (MetaAuth i envelopes)
                     | None \<Rightarrow>
                         Inr (MetaSecret (sr_key r)
                           (case sr_secret_type r of SecretDeclared kind \<Rightarrow> kind | Undeclared \<Rightarrow> SecureNote)
                           (sr_value r))))))"

definition meta_to_stored :: "member_crates \<Rightarrow> vault_meta_record \<Rightarrow> stored_secret_record multi_device" where
  "meta_to_stored c m =
     (case m of
        MetaSecret i kind payload \<Rightarrow> Inr \<lparr>sr_key = i, sr_secret_type = SecretDeclared kind, sr_value = payload\<rparr>
      | MetaAuth i envelopes \<Rightarrow>
          and_then (auth_record_json c envelopes) (\<lambda>json. Inr (undeclared_row (auth_key_id_str i) json))
      | MetaJoin _ req \<Rightarrow>
          and_then (join_record_json c req) (\<lambda>json. Inr (undeclared_row (app_id_str (jr_device_id req)) json))
      | MetaMember i payload \<Rightarrow> Inr (undeclared_row (member_record_key i) payload)
      | MetaShare d share \<Rightarrow>
          and_then (share_record_json c share) (\<lambda>json. Inr (undeclared_row (sentinel_share_record_key d) json)))"

subsection \<open>The state of the member records\<close>

record vault_meta_state =
  ms_secrets :: "(secret_id, secret_type \<times> string) fmap"
  ms_auth :: "(auth_key_id, auth_envelopes) fmap"
  ms_joins :: "(device_id, join_request) fmap"
  ms_members :: "(auth_key_id, string) fmap"
  ms_enrolled_devices :: "(device_id, join_request) fmap"
  ms_sentinel_shares :: "(device_id, share_envelope) fmap"
  ms_sentinel_participants :: "(device_id, sentinel_participant_entry) fmap"

definition empty_meta_state :: vault_meta_state where
  "empty_meta_state = \<lparr>ms_secrets = fmempty, ms_auth = fmempty, ms_joins = fmempty, ms_members = fmempty,
     ms_enrolled_devices = fmempty, ms_sentinel_shares = fmempty, ms_sentinel_participants = fmempty\<rparr>"

definition meta_state_is_empty :: "vault_meta_state \<Rightarrow> bool" where
  "meta_state_is_empty s \<longleftrightarrow> fmdom (ms_secrets s) = {||} \<and> fmdom (ms_auth s) = {||} \<and> fmdom (ms_joins s) = {||}
     \<and> fmdom (ms_members s) = {||} \<and> fmdom (ms_enrolled_devices s) = {||} \<and> fmdom (ms_sentinel_shares s) = {||}
     \<and> fmdom (ms_sentinel_participants s) = {||}"

fun insert_meta :: "vault_meta_record \<Rightarrow> vault_meta_state \<Rightarrow> vault_meta_state" where
  "insert_meta (MetaSecret i kind payload) s = s\<lparr>ms_secrets := fmupd i (kind, payload) (ms_secrets s)\<rparr>"
| "insert_meta (MetaAuth i envelopes) s = s\<lparr>ms_auth := fmupd i envelopes (ms_auth s)\<rparr>"
| "insert_meta (MetaJoin d req) s = s\<lparr>ms_joins := fmupd d req (ms_joins s)\<rparr>"
| "insert_meta (MetaMember i payload) s = s\<lparr>ms_members := fmupd i payload (ms_members s)\<rparr>"
| "insert_meta (MetaShare d share) s = s\<lparr>ms_sentinel_shares := fmupd d share (ms_sentinel_shares s)\<rparr>"

definition apply_record :: "member_crates \<Rightarrow> vault_meta_state \<Rightarrow> stored_secret_record \<Rightarrow> vault_meta_state multi_device" where
  "apply_record c s r = and_then (classify c r) (\<lambda>m. Inr (insert_meta m s))"

definition from_stored_records :: "member_crates \<Rightarrow> stored_secret_record list \<Rightarrow> vault_meta_state multi_device" where
  "from_stored_records c rs = fold_result (apply_record c) empty_meta_state rs"

text \<open>replace_member_records and replace_join_records of the state keep the rows of one kind only.\<close>

definition keep_member :: "member_crates \<Rightarrow> (auth_key_id, string) fmap \<Rightarrow> stored_secret_record \<Rightarrow> (auth_key_id, string) fmap multi_device" where
  "keep_member c members r =
     and_then (classify c r) (\<lambda>m. Inr (case m of MetaMember i payload \<Rightarrow> fmupd i payload members | _ \<Rightarrow> members))"

definition replace_state_members :: "member_crates \<Rightarrow> stored_secret_record list \<Rightarrow> vault_meta_state \<Rightarrow> vault_meta_state multi_device" where
  "replace_state_members c rows s =
     and_then (fold_result (keep_member c) fmempty rows) (\<lambda>members. Inr (s\<lparr>ms_members := members\<rparr>))"

definition keep_join :: "member_crates \<Rightarrow> (device_id, join_request) fmap \<Rightarrow> stored_secret_record \<Rightarrow> (device_id, join_request) fmap multi_device" where
  "keep_join c joins r =
     and_then (classify c r) (\<lambda>m. Inr (case m of MetaJoin d req \<Rightarrow> fmupd d req joins | _ \<Rightarrow> joins))"

definition replace_state_joins :: "member_crates \<Rightarrow> stored_secret_record list \<Rightarrow> vault_meta_state \<Rightarrow> vault_meta_state multi_device" where
  "replace_state_joins c rows s =
     and_then (fold_result (keep_join c) fmempty rows) (\<lambda>joins. Inr (s\<lparr>ms_joins := joins\<rparr>))"

definition parsed_or :: "'a validation \<Rightarrow> ('a \<Rightarrow> 'b \<Rightarrow> 'b) \<Rightarrow> 'b \<Rightarrow> 'b" where
  "parsed_or parsed f b = (case parsed of Inl _ \<Rightarrow> b | Inr a \<Rightarrow> f a b)"

definition remove_key :: "vault_meta_state \<Rightarrow> string \<Rightarrow> vault_meta_state" where
  "remove_key s key =
     (let s1 = parsed_or (app_id_parse key) (\<lambda>d s. s\<lparr>ms_joins := fmdrop d (ms_joins s)\<rparr>) s;
          s2 = (case strip_prefix MEMBER_RECORD_PREFIX key of
                  None \<Rightarrow> s1
                | Some pk_id \<Rightarrow> parsed_or (auth_key_id_parse pk_id) (\<lambda>i s. s\<lparr>ms_members := fmdrop i (ms_members s)\<rparr>) s1);
          s3 = parsed_or (auth_key_id_parse key) (\<lambda>i s. s\<lparr>ms_auth := fmdrop i (ms_auth s)\<rparr>) s2;
          s4 = (case strip_prefix SENTINEL_SHARE_RECORD_PREFIX key of
                  None \<Rightarrow> s3
                | Some device \<Rightarrow>
                    parsed_or (app_id_parse device) (\<lambda>d s. s\<lparr>ms_sentinel_shares := fmdrop d (ms_sentinel_shares s)\<rparr>) s3)
      in s4\<lparr>ms_secrets := fmdrop (SecretId key) (ms_secrets s4)\<rparr>)"

text \<open>Flattening leaves out the rows whose JSON does not render and sorts by the key.\<close>

definition rendered :: "stored_secret_record multi_device list \<Rightarrow> stored_secret_record list" where
  "rendered rs = concat (map (\<lambda>r. case r of Inl _ \<Rightarrow> [] | Inr row \<Rightarrow> [row]) rs)"

definition to_stored_records :: "member_crates \<Rightarrow> vault_meta_state \<Rightarrow> stored_secret_record list" where
  "to_stored_records c s = sort_key row_key
     (map (\<lambda>(i, kind, payload). \<lparr>sr_key = i, sr_secret_type = SecretDeclared kind, sr_value = payload\<rparr>)
         (sorted_list_of_fmap (ms_secrets s))
      @ rendered (map (\<lambda>(i, envelopes). meta_to_stored c (MetaAuth i envelopes)) (sorted_list_of_fmap (ms_auth s)))
      @ rendered (map (\<lambda>(_, req). meta_to_stored c (MetaJoin (jr_device_id req) req)) (sorted_list_of_fmap (ms_joins s)))
      @ map (\<lambda>(i, payload). undeclared_row (member_record_key i) payload) (sorted_list_of_fmap (ms_members s))
      @ rendered (map (\<lambda>(d, share). meta_to_stored c (MetaShare d share)) (sorted_list_of_fmap (ms_sentinel_shares s))))"

subsection \<open>Reading the rows\<close>

definition list_join_requests :: "member_crates \<Rightarrow> stored_secret_record list \<Rightarrow> join_request list multi_device" where
  "list_join_requests c rs =
     and_then (traverse (classify c) rs) (\<lambda>ms.
       Inr (concat (map (\<lambda>m. case m of MetaJoin _ req \<Rightarrow> [req] | _ \<Rightarrow> []) ms)))"

fun has_multi_device_records :: "member_crates \<Rightarrow> stored_secret_record list \<Rightarrow> bool multi_device" where
  "has_multi_device_records c [] = Inr False"
| "has_multi_device_records c (r # rs) =
     and_then (classify c r) (\<lambda>m. case m of MetaSecret _ _ _ \<Rightarrow> has_multi_device_records c rs | _ \<Rightarrow> Inr True)"

definition keep_user_record :: "member_crates \<Rightarrow> stored_secret_record list \<Rightarrow> stored_secret_record \<Rightarrow> stored_secret_record list multi_device" where
  "keep_user_record c kept r =
     and_then (classify c r) (\<lambda>m. Inr (case m of MetaSecret _ _ _ \<Rightarrow> kept @ [r] | _ \<Rightarrow> kept))"

definition user_records :: "member_crates \<Rightarrow> stored_secret_record list \<Rightarrow> stored_secret_record list multi_device" where
  "user_records c rs = fold_result (keep_user_record c) [] rs"

definition auth_envelopes_of :: "member_crates \<Rightarrow> stored_secret_record list \<Rightarrow> app_key \<Rightarrow> auth_envelopes multi_device" where
  "auth_envelopes_of c rs k =
     (let auth_id = app_auth_id (mc_keys c) k in
      case find (\<lambda>r. row_key r = auth_key_id_str auth_id) rs of
        None \<Rightarrow> Inl (AuthEnvelopeNotFound (app_id_str (ak_app_id k)) (auth_key_id_str auth_id))
      | Some r \<Rightarrow> parse_auth_envelopes c (sr_value r))"

definition view_secrets_key :: "member_crates \<Rightarrow> stored_secret_record list \<Rightarrow> app_key \<Rightarrow> string multi_device" where
  "view_secrets_key c rs k = and_then (auth_envelopes_of c rs k) (\<lambda>a. decrypt_envelope (mc_keys c) k (ae_secrets_key a))"

definition view_members_key :: "member_crates \<Rightarrow> stored_secret_record list \<Rightarrow> app_key \<Rightarrow> string multi_device" where
  "view_members_key c rs k = and_then (auth_envelopes_of c rs k) (\<lambda>a. decrypt_envelope (mc_keys c) k (ae_members_key a))"

definition issue_auth_record :: "member_crates \<Rightarrow> auth_key_id \<Rightarrow> string \<Rightarrow> string \<Rightarrow> string \<Rightarrow> stored_secret_record multi_device" where
  "issue_auth_record c auth_id secrets_key members_key recipient =
     and_then (public_key_seal (mc_keys c) recipient secrets_key) (\<lambda>s.
     and_then (public_key_seal (mc_keys c) recipient members_key) (\<lambda>m.
     and_then (auth_record_json c \<lparr>ae_secrets_key = s, ae_members_key = m\<rparr>) (\<lambda>json.
       Inr (undeclared_row (auth_key_id_str auth_id) json))))"

definition app_auth_record :: "member_crates \<Rightarrow> app_key \<Rightarrow> string \<Rightarrow> string \<Rightarrow> stored_secret_record multi_device" where
  "app_auth_record c k secrets_key members_key =
     issue_auth_record c (app_auth_id (mc_keys c) k) secrets_key members_key (app_public_key (mc_keys c) k)"

end
