(* ===== verification/VaultRoster.thy ===== *)
theory VaultRoster
  imports VaultMembers
begin

text \<open>
  The encrypted roster of a vault and what changes it (nook-auth2/src/auth/multi_device/roster.rs,
  join.rs and access.rs): building and resolving member rows, renaming and revoking members,
  approving and denying join requests, enrollment of a device and the state of its access.
\<close>

subsection \<open>Members and entries\<close>

definition member_from_identity :: "member_crates \<Rightarrow> app_key \<Rightarrow> string \<Rightarrow> vault_member" where
  "member_from_identity c k enrolled_at =
     \<lparr>vm_auth_id = app_auth_id (mc_keys c) k, vm_device_id = ak_app_id k, vm_public_key = app_public_key (mc_keys c) k,
      vm_enrolled_at = enrolled_at, vm_label = UnnamedMember\<rparr>"

definition member_of_join :: "member_crates \<Rightarrow> join_request \<Rightarrow> vault_member multi_device" where
  "member_of_join c req =
     and_then (public_key_auth_id (mc_keys c) (jr_public_key req)) (\<lambda>i.
       Inr \<lparr>vm_auth_id = i, vm_device_id = jr_device_id req, vm_public_key = jr_public_key req,
            vm_enrolled_at = jr_requested_at req, vm_label = UnnamedMember\<rparr>)"

definition entry_of_member :: "vault_member \<Rightarrow> member_entry" where
  "entry_of_member m = \<lparr>me_pk_id = vm_auth_id m, me_pk = vm_public_key m, me_label = vm_label m, me_enrolled_at = vm_enrolled_at m\<rparr>"

definition member_of_entry :: "member_crates \<Rightarrow> member_entry \<Rightarrow> vault_member multi_device" where
  "member_of_entry c e =
     and_then (public_key_app_id (mc_keys c) (me_pk e)) (\<lambda>d.
       Inr \<lparr>vm_auth_id = me_pk_id e, vm_device_id = d, vm_public_key = me_pk e, vm_enrolled_at = me_enrolled_at e,
            vm_label = me_label e\<rparr>)"

definition encrypt_member_entry :: "member_crates \<Rightarrow> member_entry \<Rightarrow> string \<Rightarrow> string multi_device" where
  "encrypt_member_entry c e members_key =
     (case entry_to_json c e of
        Inl err \<Rightarrow> Inl (MemberEntrySerialize err)
      | Inr json \<Rightarrow> (case scrypt_seal c members_key json of Inl err \<Rightarrow> Inl (VaultCrypto err) | Inr sealed \<Rightarrow> Inr sealed))"

definition decrypt_member_entry :: "member_crates \<Rightarrow> string \<Rightarrow> string \<Rightarrow> member_entry multi_device" where
  "decrypt_member_entry c ciphertext members_key =
     (case scrypt_open c members_key ciphertext of
        Inl err \<Rightarrow> Inl (VaultCrypto err)
      | Inr json \<Rightarrow> (case entry_from_json c json of Inl err \<Rightarrow> Inl (MemberEntryJson err) | Inr e \<Rightarrow> Inr e))"

subsection \<open>Member rows\<close>

definition member_row :: "member_crates \<Rightarrow> string \<Rightarrow> vault_member \<Rightarrow> stored_secret_record multi_device" where
  "member_row c members_key m =
     (let e = entry_of_member m in
      and_then (encrypt_member_entry c e members_key) (\<lambda>sealed.
        Inr (undeclared_row (member_record_key (me_pk_id e)) sealed)))"

definition build_members_records :: "member_crates \<Rightarrow> vault_member list \<Rightarrow> string \<Rightarrow> stored_secret_record list multi_device" where
  "build_members_records c roster members_key = traverse (member_row c members_key) roster"

definition is_member_row :: "vault_meta_record \<Rightarrow> bool" where
  "is_member_row m \<longleftrightarrow> (case m of MetaMember _ _ \<Rightarrow> True | _ \<Rightarrow> False)"

definition expected_member_key :: "auth_key_id \<Rightarrow> string" where
  "expected_member_key i =
     (let pk_id = (case auth_key_id_parse (auth_key_id_str i) of Inl _ \<Rightarrow> auth_key_id_str i | Inr n \<Rightarrow> auth_key_id_str n)
      in member_record_key (case auth_key_id_parse pk_id of Inl _ \<Rightarrow> i | Inr n \<Rightarrow> n))"

definition resolved_member :: "member_crates \<Rightarrow> string \<Rightarrow> stored_secret_record \<Rightarrow> vault_member multi_device" where
  "resolved_member c members_key r =
     (case age_armored_parse (sr_value r) of
        Inl e \<Rightarrow> Inl (Validation e)
      | Inr ciphertext \<Rightarrow>
          and_then (decrypt_member_entry c ciphertext members_key) (\<lambda>e.
            if \<not> member_record_key_matches (me_pk_id e) (row_key r)
            then Inl (MemberRecordKeyMismatch (expected_member_key (me_pk_id e)) (row_key r))
            else member_of_entry c e))"

definition resolve_row :: "member_crates \<Rightarrow> string \<Rightarrow> vault_member list \<Rightarrow> stored_secret_record \<Rightarrow> vault_member list multi_device" where
  "resolve_row c members_key roster r =
     and_then (classify c r) (\<lambda>m.
       if \<not> is_member_row m then Inr roster
       else and_then (resolved_member c members_key r) (\<lambda>member. Inr (roster @ [member])))"

definition resolve_member_roster :: "member_crates \<Rightarrow> stored_secret_record list \<Rightarrow> string \<Rightarrow> vault_member list multi_device" where
  "resolve_member_roster c rs members_key =
     and_then (fold_result (resolve_row c members_key) [] rs) (\<lambda>roster. Inr (sort_key vm_auth_id roster))"

definition roster_add_member :: "vault_member list \<Rightarrow> vault_member \<Rightarrow> vault_member list" where
  "roster_add_member roster m = sort_key vm_auth_id (filter (\<lambda>x. vm_auth_id x \<noteq> vm_auth_id m) roster @ [m])"

definition genesis_members_records :: "member_crates \<Rightarrow> app_key \<Rightarrow> string \<Rightarrow> string \<Rightarrow> stored_secret_record list multi_device" where
  "genesis_members_records c k members_key enrolled_at =
     build_members_records c [member_from_identity c k enrolled_at] members_key"

definition keep_other_row :: "member_crates \<Rightarrow> stored_secret_record list \<Rightarrow> stored_secret_record \<Rightarrow> stored_secret_record list multi_device" where
  "keep_other_row c kept r = and_then (classify c r) (\<lambda>m. Inr (if is_member_row m then kept else kept @ [r]))"

definition replace_member_records ::
    "member_crates \<Rightarrow> stored_secret_record list \<Rightarrow> stored_secret_record list \<Rightarrow> stored_secret_record list multi_device" where
  "replace_member_records c rs member_records =
     and_then (fold_result (keep_other_row c) [] rs) (\<lambda>kept. Inr (kept @ member_records))"

text \<open>The length limit counts bytes of the trimmed name.\<close>

definition rename_vault_member ::
    "member_crates \<Rightarrow> stored_secret_record list \<Rightarrow> string \<Rightarrow> auth_key_id \<Rightarrow> string \<Rightarrow> stored_secret_record list multi_device" where
  "rename_vault_member c rs members_key auth_id label =
     (if \<not> auth_key_id_is_valid (auth_key_id_str auth_id) then Inl InvalidMemberId
      else let trimmed = trim label in
      if length trimmed > 80 then Inl DeviceNameTooLong
      else and_then (resolve_member_roster c rs members_key) (\<lambda>roster.
        if \<not> list_ex (\<lambda>m. vm_auth_id m = auth_id) roster then Inl DeviceNotFound
        else
          let updated_label = (if trimmed = [] then UnnamedMember else NamedMember trimmed) in
          build_members_records c
            (map (\<lambda>m. if vm_auth_id m = auth_id then m\<lparr>vm_label := updated_label\<rparr> else m) roster) members_key))"

definition revoke_vault_member ::
    "member_crates \<Rightarrow> stored_secret_record list \<Rightarrow> string \<Rightarrow> auth_key_id \<Rightarrow> stored_secret_record list multi_device" where
  "revoke_vault_member c rs members_key auth_id =
     (if \<not> auth_key_id_is_valid (auth_key_id_str auth_id) then Inl InvalidMemberId
      else and_then (resolve_member_roster c rs members_key) (\<lambda>roster.
        if length roster \<le> 1 then Inl CannotRemoveLastAccess
        else case find (\<lambda>m. vm_auth_id m = auth_id) roster of
          None \<Rightarrow> Inl DeviceNotFound
        | Some revoked \<Rightarrow>
            let share_key = sentinel_share_record_key (vm_device_id revoked);
                updated = filter (\<lambda>r. row_key r \<noteq> auth_key_id_str auth_id \<and> row_key r \<noteq> member_record_key auth_id
                                      \<and> row_key r \<noteq> share_key) rs;
                remaining = filter (\<lambda>m. vm_auth_id m \<noteq> auth_id) roster
            in and_then (build_members_records c remaining members_key) (\<lambda>rows.
                 replace_member_records c updated rows)))"

subsection \<open>Join requests\<close>

definition issue_join_request ::
    "member_crates \<Rightarrow> app_key \<Rightarrow> string \<Rightarrow> device_signing_public_key \<Rightarrow> stored_secret_record multi_device" where
  "issue_join_request c k requested_at public_signing_key =
     and_then (join_record_json c \<lparr>jr_device_id = ak_app_id k, jr_public_key = app_public_key (mc_keys c) k,
         jr_signing_public_key = public_signing_key, jr_requested_at = requested_at\<rparr>) (\<lambda>json.
       Inr (undeclared_row (app_id_str (ak_app_id k)) json))"

text \<open>The roster an approval writes: when the member rows do not resolve, only approver and joiner.\<close>

definition approved_roster ::
    "member_crates \<Rightarrow> app_key \<Rightarrow> stored_secret_record list \<Rightarrow> string \<Rightarrow> join_request \<Rightarrow> vault_member list multi_device" where
  "approved_roster c approver rs members_key req =
     (case resolve_member_roster c rs members_key of
        Inr existing \<Rightarrow> and_then (member_of_join c req) (\<lambda>m. Inr (roster_add_member existing m))
      | Inl _ \<Rightarrow>
          and_then (member_of_join c req) (\<lambda>m. Inr [member_from_identity c approver (jr_requested_at req), m]))"

definition approve_join ::
    "member_crates \<Rightarrow> vault_keys \<Rightarrow> join_request \<Rightarrow> app_key \<Rightarrow> stored_secret_record list
      \<Rightarrow> (stored_secret_record \<times> string \<times> stored_secret_record list) multi_device" where
  "approve_join c keys req approver rs =
     and_then (public_key_auth_id (mc_keys c) (jr_public_key req)) (\<lambda>pk_id.
     and_then (issue_auth_record c pk_id (vk_secrets_key keys) (vk_members_key keys) (jr_public_key req)) (\<lambda>auth_record.
     and_then (approved_roster c approver rs (vk_members_key keys) req) (\<lambda>roster.
     and_then (build_members_records c roster (vk_members_key keys)) (\<lambda>member_records.
       Inr (auth_record, app_id_str (jr_device_id req), member_records)))))"

definition deny_join :: "stored_secret_record list \<Rightarrow> device_id \<Rightarrow> stored_secret_record list" where
  "deny_join rs d = filter (\<lambda>r. row_key r \<noteq> app_id_str d) rs"

datatype enrollment_keys = SeparateKeys string string | SharedKey string

definition enrollment_with_shared_secret :: "string \<Rightarrow> enrollment_keys multi_device" where
  "enrollment_with_shared_secret shared =
     (case symmetric_key_parse shared of Inl e \<Rightarrow> Inl (Validation e) | Inr key \<Rightarrow> Inr (SharedKey key))"

definition enroll_device ::
    "member_crates \<Rightarrow> enrollment_keys \<Rightarrow> app_key \<Rightarrow> string
      \<Rightarrow> (stored_secret_record \<times> stored_secret_record list) multi_device" where
  "enroll_device c keys k enrolled_at =
     (case keys of
        SeparateKeys secrets_key members_key \<Rightarrow>
          and_then (app_auth_record c k secrets_key members_key) (\<lambda>auth.
          and_then (genesis_members_records c k members_key enrolled_at) (\<lambda>members. Inr (auth, members)))
      | SharedKey shared \<Rightarrow>
          and_then (app_auth_record c k shared shared) (\<lambda>auth.
          and_then (genesis_members_records c k shared enrolled_at) (\<lambda>members. Inr (auth, members))))"

subsection \<open>Access of a device\<close>

datatype self_roster_sync = RosterCurrent | RosterUpdated "stored_secret_record list"

definition ensure_self_in_roster ::
    "member_crates \<Rightarrow> stored_secret_record list \<Rightarrow> app_key \<Rightarrow> string \<Rightarrow> self_roster_sync multi_device" where
  "ensure_self_in_roster c rs k members_key =
     and_then (resolve_member_roster c rs members_key) (\<lambda>roster.
       if list_ex (\<lambda>m. vm_auth_id m = app_auth_id (mc_keys c) k) roster then Inr RosterCurrent
       else and_then (build_members_records c (roster_add_member roster (member_from_identity c k ''self-sync'')) members_key)
         (\<lambda>rows. Inr (RosterUpdated rows)))"

datatype connect_access_status = AccessReady | NeedsEnrollment | JoinPending

definition assess_connect_access :: "member_crates \<Rightarrow> stored_secret_record list \<Rightarrow> app_key \<Rightarrow> connect_access_status multi_device" where
  "assess_connect_access c rs k =
     and_then (from_stored_records c rs) (\<lambda>s. Inr
       (let auth_id = app_auth_id (mc_keys c) k; d = ak_app_id k in
        if auth_id |\<in>| fmdom (ms_auth s) \<or> auth_id |\<in>| fmdom (ms_members s) \<or> d |\<in>| fmdom (ms_sentinel_shares s)
        then AccessReady
        else if d |\<in>| fmdom (ms_joins s) then JoinPending else NeedsEnrollment))"

definition device_is_enrolled :: "member_crates \<Rightarrow> stored_secret_record list \<Rightarrow> app_key \<Rightarrow> bool multi_device" where
  "device_is_enrolled c rs k = and_then (assess_connect_access c rs k) (\<lambda>status. Inr (status = AccessReady))"

datatype device_join_status = JoinIsPending join_request | NotRequested

definition pending_join_for_device :: "member_crates \<Rightarrow> stored_secret_record list \<Rightarrow> device_id \<Rightarrow> device_join_status multi_device" where
  "pending_join_for_device c rs d =
     and_then (list_join_requests c rs) (\<lambda>joins.
       Inr (case find (\<lambda>req. jr_device_id req = d) joins of Some req \<Rightarrow> JoinIsPending req | None \<Rightarrow> NotRequested))"

end
