(* ===== verification/VaultRosterLaws.thy ===== *)
theory VaultRosterLaws
  imports VaultRoster IdentityAccess
begin

text \<open>
  What the member records of a vault guarantee: rows written for a roster resolve to it, a revoked
  member keeps no row, and a device adds itself once.
\<close>

subsection \<open>The crates\<close>

text \<open>
  serde_json reads back what it renders of a value whose fields parse, age opens what it seals under
  the same key and writes an armored text, which starts with the armor header and so is no JSON object;
  the JSON of auth envelopes lacks the fields of a join request.
\<close>

definition entry_readable :: "member_crates \<Rightarrow> member_entry \<Rightarrow> bool" where
  "entry_readable c e \<longleftrightarrow> auth_key_id_parse (auth_key_id_str (me_pk_id e)) = Inr (me_pk_id e)
     \<and> (\<exists>d. public_key_app_id (mc_keys c) (me_pk e) = Inr d)"

definition armored :: "string \<Rightarrow> bool" where
  "armored s \<longleftrightarrow> strip_prefix ''-----BEGIN AGE ENCRYPTED FILE-----'' s \<noteq> None"

lemma armored_marker: "armored s \<Longrightarrow> has_substring ''BEGIN AGE ENCRYPTED FILE'' s"
  by (auto simp: armored_def strip_prefix_Some)

definition member_laws :: "member_crates \<Rightarrow> bool" where
  "member_laws c \<longleftrightarrow>
     (\<forall>e json. entry_readable c e \<and> entry_to_json c e = Inr json \<longrightarrow> entry_from_json c json = Inr e)
   \<and> (\<forall>key s sealed. scrypt_seal c key s = Inr sealed \<longrightarrow> scrypt_open c key sealed = Inr s \<and> armored sealed)
   \<and> (\<forall>recipient plaintext sealed. age_seal (kc_identity (mc_keys c)) recipient plaintext = Inr sealed \<longrightarrow> armored sealed)
   \<and> (\<forall>s. armored s \<longrightarrow> (\<exists>e. join_from_json c s = Inl e))
   \<and> (\<forall>a json. armored (ae_secrets_key a) \<and> armored (ae_members_key a) \<and> auth_to_json c a = Inr json
        \<longrightarrow> auth_from_json c json = Inr a \<and> (\<exists>e. join_from_json c json = Inl e))"

lemma member_lawsD:
  assumes "member_laws c"
  shows "entry_readable c e \<Longrightarrow> entry_to_json c e = Inr json \<Longrightarrow> entry_from_json c json = Inr e"
    and "scrypt_seal c key s = Inr sealed \<Longrightarrow> scrypt_open c key sealed = Inr s"
    and "scrypt_seal c key s = Inr sealed \<Longrightarrow> armored sealed"
    and "armored s \<Longrightarrow> \<exists>e. join_from_json c s = Inl e"
    and "age_seal (kc_identity (mc_keys c)) recipient s = Inr sealed \<Longrightarrow> armored sealed"
    and "armored (ae_secrets_key a) \<Longrightarrow> armored (ae_members_key a) \<Longrightarrow> auth_to_json c a = Inr json
      \<Longrightarrow> auth_from_json c json = Inr a \<and> (\<exists>e. join_from_json c json = Inl e)"
  using assms unfolding member_laws_def by blast+

lemma sealed_armored: "member_laws c \<Longrightarrow> public_key_seal (mc_keys c) key plaintext = Inr sealed \<Longrightarrow> armored sealed"
  using member_lawsD(5) by (auto simp: public_key_seal_def split: sum.splits)

lemma auth_record_json_Inr: "auth_record_json c a = Inr json \<longleftrightarrow> auth_to_json c a = Inr json"
  by (auto simp: auth_record_json_def split: sum.splits)

subsection \<open>Keys of rows\<close>

lemma strip_member_key [simp]: "strip_prefix ''member:'' (member_record_key i) = Some (auth_key_id_str i)"
  by (simp add: member_record_key_def del: append.simps)

lemma strip_share_member_key [simp]: "strip_prefix ''sentinel_share:'' (member_record_key i) = None"
  by (simp add: strip_prefix_def member_record_key_def)

lemma member_record_key_inject [simp]: "member_record_key i = member_record_key j \<longleftrightarrow> i = j"
  by (cases i; cases j) (simp add: member_record_key_def)

lemma member_key_no_share [simp]: "member_record_key i \<noteq> sentinel_share_record_key d"
  by (simp add: member_record_key_def sentinel_share_record_key_def)

lemma parsed_auth_key:
  assumes "auth_key_id_parse (auth_key_id_str i) = Inr i"
  obtains digest where "i = AuthKeyId (''key_'' @ digest)" "auth_is_digest digest"
  using auth_key_id_parse_Inr [OF assms] by blast

lemma auth_key_no_row_key:
  assumes "auth_key_id_parse (auth_key_id_str i) = Inr i"
  shows "member_record_key j \<noteq> auth_key_id_str i"
  using assms by (rule parsed_auth_key) (simp add: member_record_key_def)

lemma member_matches_own: "member_record_key_matches i (member_record_key i)"
  by (simp add: member_record_key_matches_def)

subsection \<open>Resolving rows\<close>

definition is_member_record :: "member_crates \<Rightarrow> stored_secret_record \<Rightarrow> bool" where
  "is_member_record c r \<longleftrightarrow> (\<exists>i payload. classify c r = Inr (MetaMember i payload))"

definition classifies :: "member_crates \<Rightarrow> stored_secret_record \<Rightarrow> bool" where
  "classifies c r \<longleftrightarrow> (\<exists>m. classify c r = Inr m)"

lemma is_member_row_iff: "is_member_row m \<longleftrightarrow> (\<exists>i payload. m = MetaMember i payload)"
  by (cases m) (simp_all add: is_member_row_def)

lemma resolve_rows:
  "fold_result (resolve_row c key) acc rs = Inr out \<longleftrightarrow> list_all (classifies c) rs
     \<and> (\<exists>roster. traverse (resolved_member c key) (filter (is_member_record c) rs) = Inr roster \<and> out = acc @ roster)"
proof (induction rs arbitrary: acc)
  case (Cons r rs)
  show ?case
  proof (cases "classify c r")
    case (Inl e)
    then show ?thesis by (simp add: resolve_row_def classifies_def)
  next
    case (Inr m)
    then have "is_member_record c r \<longleftrightarrow> is_member_row m" by (simp add: is_member_record_def is_member_row_iff)
    then show ?thesis using Inr Cons.IH by (auto simp: resolve_row_def classifies_def and_then_Inr_iff)
  qed
qed auto

lemma replaced_rows:
  "replace_member_records c rs rows = Inr out \<longleftrightarrow>
     list_all (classifies c) rs \<and> out = filter (\<lambda>r. \<not> is_member_record c r) rs @ rows"
proof -
  have "fold_result (keep_other_row c) acc rs = Inr kept \<longleftrightarrow>
      list_all (classifies c) rs \<and> kept = acc @ filter (\<lambda>r. \<not> is_member_record c r) rs" for acc kept
  proof (induction rs arbitrary: acc)
    case (Cons r rs)
    show ?case
    proof (cases "classify c r")
      case (Inr m)
      then have "is_member_record c r \<longleftrightarrow> is_member_row m" by (simp add: is_member_record_def is_member_row_iff)
      then show ?thesis using Inr Cons.IH by (auto simp: keep_other_row_def classifies_def)
    qed (simp add: keep_other_row_def classifies_def)
  qed auto
  then show ?thesis by (auto simp: replace_member_records_def and_then_Inr_iff)
qed

subsection \<open>Writing a roster\<close>

definition roster_wf :: "member_crates \<Rightarrow> vault_member list \<Rightarrow> bool" where
  "roster_wf c roster \<longleftrightarrow> (\<forall>m\<in>set roster. auth_key_id_parse (auth_key_id_str (vm_auth_id m)) = Inr (vm_auth_id m)
     \<and> public_key_app_id (mc_keys c) (vm_public_key m) = Inr (vm_device_id m))"

lemma written_row:
  assumes "member_laws c" and "member_row c key m = Inr row"
    and "auth_key_id_parse (auth_key_id_str (vm_auth_id m)) = Inr (vm_auth_id m)"
    and "public_key_app_id (mc_keys c) (vm_public_key m) = Inr (vm_device_id m)"
  shows "row_key row = member_record_key (vm_auth_id m)" and "classify c row = Inr (MetaMember (vm_auth_id m) (sr_value row))"
    and "resolved_member c key row = Inr m"
proof -
  obtain json sealed where json: "entry_to_json c (entry_of_member m) = Inr json" and sealed: "scrypt_seal c key json = Inr sealed"
    and row: "row = undeclared_row (member_record_key (vm_auth_id m)) sealed"
    using assms(2) by (auto simp: member_row_def Let_def and_then_Inr_iff encrypt_member_entry_def entry_of_member_def split: sum.splits)
  have armor: "armored sealed" using member_lawsD(3) [OF assms(1) sealed] .
  show "row_key row = member_record_key (vm_auth_id m)" by (simp add: row undeclared_row_def)
  obtain e where "join_from_json c sealed = Inl e" using member_lawsD(4) [OF assms(1) armor] by blast
  then show "classify c row = Inr (MetaMember (vm_auth_id m) (sr_value row))"
    using armor assms(3) by (simp add: row undeclared_row_def classify_def parse_join_request_def classify_member_def armored_marker)
  have "entry_readable c (entry_of_member m)" using assms(3,4) by (simp add: entry_readable_def entry_of_member_def)
  then have "entry_from_json c json = Inr (entry_of_member m)" using member_lawsD(1) [OF assms(1)] json by blast
  moreover have "member_of_entry c (entry_of_member m) = Inr m" using assms(4) by (simp add: member_of_entry_def entry_of_member_def)
  moreover have "me_pk_id (entry_of_member m) = vm_auth_id m" by (simp add: entry_of_member_def)
  ultimately show "resolved_member c key row = Inr m"
    using member_lawsD(2) [OF assms(1) sealed] armor member_matches_own [of "vm_auth_id m"]
    by (simp add: row undeclared_row_def resolved_member_def age_armored_parse_def armored_marker decrypt_member_entry_def)
qed

lemma written_rows:
  assumes "member_laws c" and "roster_wf c roster" and "build_members_records c roster key = Inr rows"
  shows "map row_key rows = map (\<lambda>m. member_record_key (vm_auth_id m)) roster"
    and "list_all (classifies c) rows" and "list_all (is_member_record c) rows"
    and "traverse (resolved_member c key) rows = Inr roster"
proof -
  have "map row_key rows = map (\<lambda>m. member_record_key (vm_auth_id m)) roster \<and> list_all (classifies c) rows
      \<and> list_all (is_member_record c) rows \<and> traverse (resolved_member c key) rows = Inr roster"
    using assms(2,3)
  proof (induction roster arbitrary: rows)
    case (Cons m roster)
    then obtain row rest where row: "member_row c key m = Inr row" and rest: "build_members_records c roster key = Inr rest"
      and rows: "rows = row # rest" by (auto simp: build_members_records_def and_then_Inr_iff)
    have wf: "roster_wf c roster" "auth_key_id_parse (auth_key_id_str (vm_auth_id m)) = Inr (vm_auth_id m)"
      "public_key_app_id (mc_keys c) (vm_public_key m) = Inr (vm_device_id m)" using Cons.prems(1) by (simp_all add: roster_wf_def)
    note written = written_row [OF assms(1) row wf(2,3)]
    then show ?case using Cons.IH [OF wf(1) rest] by (auto simp: rows classifies_def is_member_record_def)
  qed (simp add: build_members_records_def)
  then show "map row_key rows = map (\<lambda>m. member_record_key (vm_auth_id m)) roster" "list_all (classifies c) rows"
    "list_all (is_member_record c) rows" "traverse (resolved_member c key) rows = Inr roster" by auto
qed

lemma resolved_after_replacement:
  assumes "member_laws c" and "roster_wf c roster" and "build_members_records c roster key = Inr rows"
    and "replace_member_records c rs rows = Inr rs'"
  shows "resolve_member_roster c rs' key = Inr (sort_key vm_auth_id roster)"
    and "filter (\<lambda>r. \<not> is_member_record c r) rs' = filter (\<lambda>r. \<not> is_member_record c r) rs"
    and "filter (is_member_record c) rs' = rows"
proof -
  note written = written_rows [OF assms(1-3)]
  have rs': "rs' = filter (\<lambda>r. \<not> is_member_record c r) rs @ rows" and all: "list_all (classifies c) rs"
    using assms(4) by (simp_all add: replaced_rows)
  have members: "filter (is_member_record c) rows = rows" "filter (\<lambda>r. \<not> is_member_record c r) rows = []"
    using written(3) by (simp_all add: list_all_iff filter_empty_conv)
  then show kept: "filter (is_member_record c) rs' = rows" by (simp add: rs')
  have "list_all (classifies c) rs'" using all written(2) by (auto simp: rs' list_all_iff)
  then show "resolve_member_roster c rs' key = Inr (sort_key vm_auth_id roster)"
    using written(4) by (simp add: resolve_member_roster_def and_then_Inr_iff resolve_rows kept)
  show "filter (\<lambda>r. \<not> is_member_record c r) rs' = filter (\<lambda>r. \<not> is_member_record c r) rs"
    using members(2) by (simp add: rs')
qed

text \<open>The rows written for a roster resolve to it, sorted by id, whatever other rows the vault has, and
  replacing the member rows keeps the other rows as they are.\<close>

theorem roster_round_trips:
  assumes "member_laws c" and "roster_wf c roster" and "build_members_records c roster key = Inr rows"
    and "replace_member_records c rs rows = Inr rs'"
  shows "resolve_member_roster c rs' key = Inr (sort_key vm_auth_id roster)
    \<and> filter (\<lambda>r. \<not> is_member_record c r) rs' = filter (\<lambda>r. \<not> is_member_record c r) rs"
  using resolved_after_replacement [OF assms] by simp

subsection \<open>Revoking a member\<close>

lemma roster_wf_filter: "roster_wf c roster \<Longrightarrow> roster_wf c (filter P roster)"
  by (simp add: roster_wf_def)

lemma sorted_filter_self: "sorted (map f xs) \<Longrightarrow> sort_key f (filter P xs) = filter P xs"
  by (simp add: sort_key_id_if_sorted sorted_filter)

lemma resolved_sorted: "resolve_member_roster c rs key = Inr roster \<Longrightarrow> sorted (map vm_auth_id roster)"
  by (auto simp: resolve_member_roster_def and_then_Inr_iff)

lemma revoke_Inr:
  assumes "revoke_vault_member c rs key i = Inr rs'"
  obtains roster revoked rows where "resolve_member_roster c rs key = Inr roster" "1 < length roster"
    "revoked \<in> set roster" "vm_auth_id revoked = i" "find (\<lambda>m. vm_auth_id m = i) roster = Some revoked"
    "build_members_records c (filter (\<lambda>m. vm_auth_id m \<noteq> i) roster) key = Inr rows"
    "replace_member_records c (filter (\<lambda>r. row_key r \<noteq> auth_key_id_str i \<and> row_key r \<noteq> member_record_key i
        \<and> row_key r \<noteq> sentinel_share_record_key (vm_device_id revoked)) rs) rows = Inr rs'"
  using assms find_SomeD
  by (fastforce simp: revoke_vault_member_def and_then_Inr_iff Let_def not_le split: if_splits option.splits)

text \<open>C29: A revoked member is off the roster, every other member stays on it, no auth row, member row or
  Sentinel share of the revoked device is left, and its key opens no key of the vault.\<close>

theorem revoked_member_keeps_no_row:
  assumes "member_laws c" and "resolve_member_roster c rs key = Inr roster" and "roster_wf c roster"
    and "revoke_vault_member c rs key i = Inr rs'"
  shows "resolve_member_roster c rs' key = Inr (filter (\<lambda>m. vm_auth_id m \<noteq> i) roster)
    \<and> (\<forall>r\<in>set rs'. row_key r \<noteq> auth_key_id_str i \<and> row_key r \<noteq> member_record_key i)
    \<and> (\<exists>revoked\<in>set roster. vm_auth_id revoked = i
         \<and> (\<forall>r\<in>set rs'. row_key r \<noteq> sentinel_share_record_key (vm_device_id revoked)))
    \<and> (app_auth_id (mc_keys c) k = i \<longrightarrow> view_secrets_key c rs' k = Inl (AuthEnvelopeNotFound (app_id_str (ak_app_id k)) (auth_key_id_str i))
         \<and> view_members_key c rs' k = Inl (AuthEnvelopeNotFound (app_id_str (ak_app_id k)) (auth_key_id_str i)))"
proof -
  let ?rest = "filter (\<lambda>m. vm_auth_id m \<noteq> i) roster"
  obtain revoked rows where revoked: "revoked \<in> set roster" "vm_auth_id revoked = i"
    and rows: "build_members_records c ?rest key = Inr rows"
    and replaced: "replace_member_records c (filter (\<lambda>r. row_key r \<noteq> auth_key_id_str i \<and> row_key r \<noteq> member_record_key i
        \<and> row_key r \<noteq> sentinel_share_record_key (vm_device_id revoked)) rs) rows = Inr rs'"
    using assms(2,4) by (elim revoke_Inr) simp
  have wf: "roster_wf c ?rest" using roster_wf_filter [OF assms(3)] .
  have valid: "auth_key_id_parse (auth_key_id_str i) = Inr i" using assms(3) revoked by (auto simp: roster_wf_def)
  have written: "row_key r \<noteq> auth_key_id_str i \<and> row_key r \<noteq> member_record_key i \<and> row_key r \<noteq> sentinel_share_record_key d"
    if r: "r \<in> set rows" for r d
  proof -
    have "row_key r \<in> set (map row_key rows)" using r by simp
    then have "row_key r \<in> set (map (\<lambda>m. member_record_key (vm_auth_id m)) ?rest)"
      unfolding written_rows(1) [OF assms(1) wf rows] .
    then obtain m where "m \<in> set ?rest" "row_key r = member_record_key (vm_auth_id m)" unfolding set_map by blast
    then show ?thesis using auth_key_no_row_key [OF valid] by simp
  qed
  have rs': "rs' = filter (\<lambda>r. \<not> is_member_record c r) (filter (\<lambda>r. row_key r \<noteq> auth_key_id_str i \<and> row_key r \<noteq> member_record_key i
        \<and> row_key r \<noteq> sentinel_share_record_key (vm_device_id revoked)) rs) @ rows"
    using replaced by (simp add: replaced_rows)
  have gone: "\<forall>r\<in>set rs'. row_key r \<noteq> auth_key_id_str i \<and> row_key r \<noteq> member_record_key i
      \<and> row_key r \<noteq> sentinel_share_record_key (vm_device_id revoked)"
    using written by (auto simp: rs')
  then have "find (\<lambda>r. row_key r = auth_key_id_str i) rs' = None" by (simp add: find_None_iff)
  then have "app_auth_id (mc_keys c) k = i \<longrightarrow>
      auth_envelopes_of c rs' k = Inl (AuthEnvelopeNotFound (app_id_str (ak_app_id k)) (auth_key_id_str i))"
    by (simp add: auth_envelopes_of_def)
  moreover have "resolve_member_roster c rs' key = Inr ?rest"
    using resolved_after_replacement(1) [OF assms(1) wf rows replaced] sorted_filter_self [OF resolved_sorted [OF assms(2)]] by simp
  ultimately show ?thesis using gone revoked by (auto simp: view_secrets_key_def view_members_key_def)
qed

subsection \<open>Devices that join\<close>

lemma app_public_auth_id: "age_laws (mc_keys c) \<Longrightarrow>
    public_key_auth_id (mc_keys c) (app_public_key (mc_keys c) k) = Inr (app_auth_id (mc_keys c) k)"
  by (simp add: age_laws_def public_key_auth_id_def app_public_key_def app_auth_id_def)

lemma roster_add_wf:
  assumes "roster_wf c roster" and "roster_wf c [m]"
  shows "roster_wf c (roster_add_member roster m)"
  using assms by (auto simp: roster_wf_def roster_add_member_def)

lemma roster_add_sorted: "sort_key vm_auth_id (roster_add_member roster m) = roster_add_member roster m"
  by (simp add: roster_add_member_def sort_key_id_if_sorted)

definition app_key_derived :: "member_crates \<Rightarrow> app_key \<Rightarrow> bool" where
  "app_key_derived c k \<longleftrightarrow> public_key_app_id (mc_keys c) (app_public_key (mc_keys c) k) = Inr (ak_app_id k)
     \<and> auth_key_id_parse (auth_key_id_str (app_auth_id (mc_keys c) k)) = Inr (app_auth_id (mc_keys c) k)"

definition requested_by :: "member_crates \<Rightarrow> join_request \<Rightarrow> app_key \<Rightarrow> bool" where
  "requested_by c req k \<longleftrightarrow> jr_public_key req = app_public_key (mc_keys c) k \<and> jr_device_id req = ak_app_id k"

lemma joining_member:
  assumes "age_laws (mc_keys c)" and "requested_by c req k"
  shows "member_of_join c req = Inr (member_from_identity c k (jr_requested_at req))"
  using assms app_public_auth_id [OF assms(1), of k] by (simp add: member_of_join_def requested_by_def member_from_identity_def)

lemma identity_member_wf: "app_key_derived c k \<Longrightarrow> roster_wf c [member_from_identity c k at]"
  by (simp add: roster_wf_def member_from_identity_def app_key_derived_def)

subsection \<open>Adding the own device\<close>

text \<open>A device that is missing from the roster adds itself once: with the rows it wrote, it is on the roster
  and asking again changes nothing.\<close>

theorem device_adds_itself_once:
  assumes "member_laws c" and "app_key_derived c k" and "resolve_member_roster c rs key = Inr roster" and "roster_wf c roster"
    and "ensure_self_in_roster c rs k key = Inr (RosterUpdated rows)" and "replace_member_records c rs rows = Inr rs'"
  shows "ensure_self_in_roster c rs' k key = Inr RosterCurrent
    \<and> resolve_member_roster c rs' key = Inr (roster_add_member roster (member_from_identity c k ''self-sync''))"
proof -
  let ?new = "roster_add_member roster (member_from_identity c k ''self-sync'')"
  have rows: "build_members_records c ?new key = Inr rows"
    using assms(3,5) by (auto simp: ensure_self_in_roster_def and_then_Inr_iff split: if_splits)
  have wf: "roster_wf c ?new" using roster_add_wf [OF assms(4) identity_member_wf [OF assms(2)]] .
  have "resolve_member_roster c rs' key = Inr ?new"
    using resolved_after_replacement(1) [OF assms(1) wf rows assms(6)] by (simp add: roster_add_sorted)
  moreover have "list_ex (\<lambda>m. vm_auth_id m = app_auth_id (mc_keys c) k) ?new"
    by (auto simp: list_ex_iff roster_add_member_def member_from_identity_def)
  ultimately show ?thesis by (simp add: ensure_self_in_roster_def)
qed

end
