(* ===== verification/VaultStateLaws.thy ===== *)
theory VaultStateLaws
  imports VaultRosterLaws
begin

text \<open>
  The state of a vault's member records and its rows: every well-formed record is stored as a row that
  classifies back to it, and a state survives being flattened to rows and read again.
\<close>

subsection \<open>The state and its rows\<close>

definition meta_wf :: "member_crates \<Rightarrow> vault_meta_record \<Rightarrow> bool" where
  "meta_wf c m = (case m of
       MetaSecret i _ payload \<Rightarrow> secret_id_parse (secret_id_str i) = Inr i \<and> armored payload
     | MetaAuth i a \<Rightarrow> auth_key_id_parse (auth_key_id_str i) = Inr i \<and> armored (ae_secrets_key a) \<and> armored (ae_members_key a)
         \<and> (\<exists>json. auth_to_json c a = Inr json)
     | MetaJoin d req \<Rightarrow> d = jr_device_id req \<and> app_id_parse (app_id_str d) = Inr d
         \<and> (\<exists>json. join_to_json c req = Inr json \<and> join_from_json c json = Inr req)
     | MetaMember i payload \<Rightarrow> auth_key_id_parse (auth_key_id_str i) = Inr i \<and> armored payload
     | MetaShare d share \<Rightarrow> app_id_parse (app_id_str d) = Inr d
         \<and> (\<exists>json. share_to_json c share = Inr json \<and> share_from_json c json = Inr share))"

lemma valid_auth_key: "auth_is_digest digest \<Longrightarrow> auth_key_id_is_valid (''key_'' @ digest)"
  using strip_prefix_append [of "''key_''" digest] by (simp add: auth_key_id_is_valid_def auth_digest_from_def)

lemma app_id_shape:
  assumes "app_id_parse (app_id_str d) = Inr d"
  shows "app_id_is_valid (app_id_str d)"
  using assms by (cases d) (auto simp: app_id_parse_def Let_def split: if_splits)

lemma app_id_no_share:
  assumes "app_id_parse (app_id_str d) = Inr d"
  shows "strip_prefix ''sentinel_share:'' (app_id_str d) = None"
proof (rule ccontr)
  assume "strip_prefix ''sentinel_share:'' (app_id_str d) \<noteq> None"
  then obtain rest where "app_id_str d = ''sentinel_share:'' @ rest" by (auto simp: strip_prefix_Some)
  then have "is_ascii_hexdigit (CHR ''s'')" using app_id_shape [OF assms] by (simp add: app_id_is_valid_def)
  moreover have "\<not> is_ascii_hexdigit (CHR ''s'')" by code_simp
  ultimately show False by blast
qed

text \<open>Every well-formed record is stored as a row that classifies back to it.\<close>

lemma stored_record_classifies:
  assumes "member_laws c" and "meta_wf c m"
  shows "\<exists>row. meta_to_stored c m = Inr row \<and> classify c row = Inr m"
proof (cases m)
  case (MetaSecret i kind payload)
  then have id: "secret_id_parse (secret_id_str i) = Inr i" and armor: "armored payload" using assms(2) by (simp_all add: meta_wf_def)
  obtain token where i: "secret_id_str i = ''secret_'' @ token"
    using id by (auto simp: secret_id_parse_def Let_def split: if_splits option.splits)
  have "\<not> auth_key_id_is_valid (secret_id_str i)" by (simp add: i auth_key_id_is_valid_def auth_digest_from_def strip_prefix_def)
  moreover obtain e where "join_from_json c payload = Inl e" using member_lawsD(4) [OF assms(1) armor] by blast
  moreover have "strip_prefix ''sentinel_share:'' (secret_id_str i) = None" "strip_prefix ''member:'' (secret_id_str i) = None"
    by (simp_all add: i strip_prefix_def)
  ultimately show ?thesis
    by (simp add: MetaSecret meta_to_stored_def classify_def parse_join_request_def classify_member_def classify_auth_def)
next
  case (MetaAuth i a)
  then obtain json where json: "auth_to_json c a = Inr json" and id: "auth_key_id_parse (auth_key_id_str i) = Inr i"
    and armor: "armored (ae_secrets_key a)" "armored (ae_members_key a)" using assms(2) by (auto simp: meta_wf_def)
  obtain digest where i: "i = AuthKeyId (''key_'' @ digest)" "auth_is_digest digest" using parsed_auth_key [OF id] .
  have reads: "auth_from_json c json = Inr a \<and> (\<exists>e. join_from_json c json = Inl e)" using member_lawsD(6) [OF assms(1) armor json] .
  then obtain e where e: "join_from_json c json = Inl e" by blast
  have prefixes: "strip_prefix ''sentinel_share:'' (auth_key_id_str i) = None" "strip_prefix ''member:'' (auth_key_id_str i) = None"
    by (simp_all add: i strip_prefix_def)
  have valid: "auth_key_id_is_valid (auth_key_id_str i)" using valid_auth_key [OF i(2)] by (simp add: i(1))
  show ?thesis using json reads e prefixes valid id
    by (auto simp: MetaAuth meta_to_stored_def auth_record_json_def undeclared_row_def classify_def parse_join_request_def
        classify_member_def classify_auth_def parse_auth_envelopes_def)
next
  case (MetaJoin d req)
  then obtain json where "join_to_json c req = Inr json" "join_from_json c json = Inr req" and d: "d = jr_device_id req"
    and id: "app_id_parse (app_id_str d) = Inr d" using assms(2) by (auto simp: meta_wf_def)
  then show ?thesis using app_id_no_share [OF id]
    by (simp add: MetaJoin meta_to_stored_def join_record_json_def undeclared_row_def classify_def parse_join_request_def)
next
  case (MetaMember i payload)
  then have id: "auth_key_id_parse (auth_key_id_str i) = Inr i" and armor: "armored payload" using assms(2) by (simp_all add: meta_wf_def)
  obtain e where "join_from_json c payload = Inl e" using member_lawsD(4) [OF assms(1) armor] by blast
  then show ?thesis using id armor
    by (simp add: MetaMember meta_to_stored_def undeclared_row_def classify_def parse_join_request_def classify_member_def armored_marker)
next
  case (MetaShare d share)
  then obtain json where "share_to_json c share = Inr json" "share_from_json c json = Inr share" "app_id_parse (app_id_str d) = Inr d"
    using assms(2) by (auto simp: meta_wf_def)
  moreover have "strip_prefix ''sentinel_share:'' (sentinel_share_record_key d) = Some (app_id_str d)"
    unfolding sentinel_share_record_key_def by (rule strip_prefix_append)
  ultimately show ?thesis
    by (simp add: MetaShare meta_to_stored_def share_record_json_def undeclared_row_def classify_def classify_share_def parse_share_envelope_def)
qed

definition state_metas :: "vault_meta_state \<Rightarrow> vault_meta_record set" where
  "state_metas s = {MetaSecret i kind payload |i kind payload. fmlookup (ms_secrets s) i = Some (kind, payload)}
     \<union> {MetaAuth i a |i a. fmlookup (ms_auth s) i = Some a} \<union> {MetaJoin d req |d req. fmlookup (ms_joins s) d = Some req}
     \<union> {MetaMember i payload |i payload. fmlookup (ms_members s) i = Some payload}
     \<union> {MetaShare d share |d share. fmlookup (ms_sentinel_shares s) d = Some share}"

lemma read_rows: "from_stored_records c rs = Inr s \<longleftrightarrow>
    (\<exists>ms. traverse (classify c) rs = Inr ms \<and> s = fold insert_meta ms empty_meta_state)"
proof -
  have "fold_result (apply_record c) s0 rs = Inr s \<longleftrightarrow> (\<exists>ms. traverse (classify c) rs = Inr ms \<and> s = fold insert_meta ms s0)" for s0
    by (induction rs arbitrary: s0) (auto simp: apply_record_def and_then_Inr_iff)
  then show ?thesis by (simp add: from_stored_records_def)
qed

text \<open>What a list of records inserts, when it has one record for each key.\<close>

datatype meta_slot = SecretSlot secret_id | AuthSlot auth_key_id | JoinSlot device_id | MemberSlot auth_key_id | ShareSlot device_id

fun slot_of :: "vault_meta_record \<Rightarrow> meta_slot" where
  "slot_of (MetaSecret i _ _) = SecretSlot i"
| "slot_of (MetaAuth i _) = AuthSlot i"
| "slot_of (MetaJoin d _) = JoinSlot d"
| "slot_of (MetaMember i _) = MemberSlot i"
| "slot_of (MetaShare d _) = ShareSlot d"

lemma state_metas_functional: "inj_on slot_of (state_metas s)"
  by (auto simp: inj_on_def state_metas_def)

lemma insert_meta_rest:
  "ms_enrolled_devices (fold insert_meta ms s) = ms_enrolled_devices s"
  "ms_sentinel_participants (fold insert_meta ms s) = ms_sentinel_participants s"
proof (induction ms arbitrary: s)
  case (Cons m ms)
  { case 1 show ?case using Cons.IH(1) by (cases m) simp_all }
  { case 2 show ?case using Cons.IH(2) by (cases m) simp_all }
qed simp_all

lemma inserted_meta:
  assumes "inj_on slot_of (insert m (state_metas s))"
  shows "state_metas (insert_meta m s) = insert m (state_metas s)"
proof -
  have other: "x = m" if "x \<in> state_metas s" "slot_of x = slot_of m" for x
    using inj_onD [OF assms that(2)] that(1) by simp
  show ?thesis
  proof (cases m)
    case (MetaSecret i kind payload)
    have "fmlookup (ms_secrets s) i = Some (k, p) \<Longrightarrow> k = kind \<and> p = payload" for k p
      using other [of "MetaSecret i k p"] by (simp add: MetaSecret state_metas_def)
    then show ?thesis by (auto simp: MetaSecret state_metas_def split: if_splits)
  next
    case (MetaAuth i a)
    have "fmlookup (ms_auth s) i = Some a' \<Longrightarrow> a' = a" for a'
      using other [of "MetaAuth i a'"] by (simp add: MetaAuth state_metas_def)
    then show ?thesis by (auto simp: MetaAuth state_metas_def split: if_splits)
  next
    case (MetaJoin d req)
    have "fmlookup (ms_joins s) d = Some q \<Longrightarrow> q = req" for q
      using other [of "MetaJoin d q"] by (simp add: MetaJoin state_metas_def)
    then show ?thesis by (auto simp: MetaJoin state_metas_def split: if_splits)
  next
    case (MetaMember i payload)
    have "fmlookup (ms_members s) i = Some p \<Longrightarrow> p = payload" for p
      using other [of "MetaMember i p"] by (simp add: MetaMember state_metas_def)
    then show ?thesis by (auto simp: MetaMember state_metas_def split: if_splits)
  next
    case (MetaShare d share)
    have "fmlookup (ms_sentinel_shares s) d = Some h \<Longrightarrow> h = share" for h
      using other [of "MetaShare d h"] by (simp add: MetaShare state_metas_def)
    then show ?thesis by (auto simp: MetaShare state_metas_def split: if_splits)
  qed
qed

lemma inserted_metas:
  assumes "inj_on slot_of (state_metas s \<union> set ms)"
  shows "state_metas (fold insert_meta ms s) = state_metas s \<union> set ms"
  using assms
proof (induction ms arbitrary: s)
  case (Cons m ms)
  have "inj_on slot_of (insert m (state_metas s))" by (rule inj_on_subset [OF Cons.prems]) auto
  then have "state_metas (insert_meta m s) = insert m (state_metas s)" by (rule inserted_meta)
  then show ?case using Cons by simp
qed simp

lemma in_state_metas:
  "MetaSecret i kind payload \<in> state_metas s \<longleftrightarrow> fmlookup (ms_secrets s) i = Some (kind, payload)"
  "MetaAuth a e \<in> state_metas s \<longleftrightarrow> fmlookup (ms_auth s) a = Some e"
  "MetaJoin d req \<in> state_metas s \<longleftrightarrow> fmlookup (ms_joins s) d = Some req"
  "MetaMember a payload \<in> state_metas s \<longleftrightarrow> fmlookup (ms_members s) a = Some payload"
  "MetaShare d share \<in> state_metas s \<longleftrightarrow> fmlookup (ms_sentinel_shares s) d = Some share"
  by (simp_all add: state_metas_def)

lemma fmap_eq_Some: "(\<And>k v. fmlookup f k = Some v \<longleftrightarrow> fmlookup g k = Some v) \<Longrightarrow> f = g"
  by (metis fmap_ext not_None_eq)

lemma state_metas_determine:
  assumes same: "state_metas s = state_metas t" and "ms_enrolled_devices s = ms_enrolled_devices t"
    and "ms_sentinel_participants s = ms_sentinel_participants t"
  shows "s = t"
proof -
  have "fmlookup (ms_secrets s) i = Some v \<longleftrightarrow> fmlookup (ms_secrets t) i = Some v" for i v
    by (cases v) (simp add: same flip: in_state_metas(1))
  then have "ms_secrets s = ms_secrets t" by (rule fmap_eq_Some)
  moreover have "ms_auth s = ms_auth t" by (rule fmap_eq_Some) (simp add: same flip: in_state_metas(2))
  moreover have "ms_joins s = ms_joins t" by (rule fmap_eq_Some) (simp add: same flip: in_state_metas(3))
  moreover have "ms_members s = ms_members t" by (rule fmap_eq_Some) (simp add: same flip: in_state_metas(4))
  moreover have "ms_sentinel_shares s = ms_sentinel_shares t" by (rule fmap_eq_Some) (simp add: same flip: in_state_metas(5))
  ultimately show ?thesis using assms(2,3) by simp
qed

subsection \<open>Flattening\<close>

lemma rendered_row: "row \<in> set (rendered rs) \<longleftrightarrow> Inr row \<in> set rs"
  by (force simp: rendered_def split: sum.splits)

lemma bex_state_metas: "(\<exists>m\<in>state_metas s. P m) \<longleftrightarrow>
    (\<exists>i kind payload. fmlookup (ms_secrets s) i = Some (kind, payload) \<and> P (MetaSecret i kind payload))
    \<or> (\<exists>i a. fmlookup (ms_auth s) i = Some a \<and> P (MetaAuth i a))
    \<or> (\<exists>d req. fmlookup (ms_joins s) d = Some req \<and> P (MetaJoin d req))
    \<or> (\<exists>i payload. fmlookup (ms_members s) i = Some payload \<and> P (MetaMember i payload))
    \<or> (\<exists>d share. fmlookup (ms_sentinel_shares s) d = Some share \<and> P (MetaShare d share))"
  unfolding state_metas_def by blast

lemma listed_entry: "(k, v) \<in> set (sorted_list_of_fmap f) \<longleftrightarrow> fmlookup f k = Some v"
  by (auto simp: set_sorted_list_of_fmap)

lemma image_of_entries: "y \<in> set (map (\<lambda>(k, v). g k v) (sorted_list_of_fmap f)) \<longleftrightarrow> (\<exists>k v. fmlookup f k = Some v \<and> g k v = y)"
proof
  assume "y \<in> set (map (\<lambda>(k, v). g k v) (sorted_list_of_fmap f))"
  then show "\<exists>k v. fmlookup f k = Some v \<and> g k v = y" by (fastforce simp: listed_entry)
next
  assume "\<exists>k v. fmlookup f k = Some v \<and> g k v = y"
  then obtain k v where "fmlookup f k = Some v" and y: "y = g k v" by blast
  then have "(k, v) \<in> set (sorted_list_of_fmap f)" by (simp add: listed_entry)
  then show "y \<in> set (map (\<lambda>(k, v). g k v) (sorted_list_of_fmap f))" unfolding y set_map by (rule rev_image_eqI) simp
qed

lemma flattened_rows: "row \<in> set (to_stored_records c s) \<longleftrightarrow> (\<exists>m\<in>state_metas s. meta_to_stored c m = Inr row)"
proof -
  have secrets: "row \<in> set (map (\<lambda>(i, kind, payload). \<lparr>sr_key = i, sr_secret_type = SecretDeclared kind, sr_value = payload\<rparr>)
        (sorted_list_of_fmap (ms_secrets s)))
      \<longleftrightarrow> (\<exists>i kind payload. fmlookup (ms_secrets s) i = Some (kind, payload) \<and> meta_to_stored c (MetaSecret i kind payload) = Inr row)"
    unfolding image_of_entries by (auto simp: meta_to_stored_def)
  have joins: "meta_to_stored c (MetaJoin d req) = and_then (join_record_json c req)
      (\<lambda>json. Inr (undeclared_row (app_id_str (jr_device_id req)) json))" for d req
    by (simp add: meta_to_stored_def)
  have members: "undeclared_row (member_record_key i) payload = row \<longleftrightarrow> meta_to_stored c (MetaMember i payload) = Inr row" for i payload
    by (simp add: meta_to_stored_def)
  show ?thesis
    unfolding bex_state_metas to_stored_records_def set_sort set_append Un_iff rendered_row secrets
    by (simp only: image_of_entries joins members)
qed

lemma traversed_set: "traverse f rs = Inr ms \<Longrightarrow> set ms = {m. \<exists>r\<in>set rs. f r = Inr m}"
  by (induction rs arbitrary: ms) (auto simp: and_then_Inr_iff)

lemma classified_state:
  assumes "member_laws c" and "\<forall>m\<in>state_metas s. meta_wf c m"
  obtains ms where "traverse (classify c) (to_stored_records c s) = Inr ms" "set ms = state_metas s"
proof -
  let ?rows = "to_stored_records c s"
  have stored: "\<exists>row. meta_to_stored c m = Inr row \<and> classify c row = Inr m" if "m \<in> state_metas s" for m
    using stored_record_classifies [OF assms(1)] assms(2) that by blast
  have row: "\<exists>m\<in>state_metas s. meta_to_stored c m = Inr r \<and> classify c r = Inr m" if "r \<in> set ?rows" for r
    using that stored unfolding flattened_rows by fastforce
  then obtain ms where ms: "traverse (classify c) ?rows = Inr ms"
    using traverse_ok_iff [of "classify c" ?rows] by blast
  have "set ms = state_metas s"
  proof (intro equalityI subsetI)
    fix m assume "m \<in> set ms"
    then obtain r where "r \<in> set ?rows" "classify c r = Inr m" using traversed_set [OF ms] by blast
    then show "m \<in> state_metas s" using row by fastforce
  next
    fix m assume "m \<in> state_metas s"
    then obtain r where "r \<in> set ?rows" "classify c r = Inr m" using stored flattened_rows by blast
    then show "m \<in> set ms" using traversed_set [OF ms] by blast
  qed
  then show ?thesis using that ms by blast
qed

text \<open>C32: A state of well-formed records survives being flattened to rows and read again, up to the two maps
  that have no rows: every record of every kind comes back under its key, and none is taken for another kind.\<close>

theorem state_round_trips:
  assumes "member_laws c" and "\<forall>m\<in>state_metas s. meta_wf c m"
  shows "from_stored_records c (to_stored_records c s)
    = Inr (s\<lparr>ms_enrolled_devices := fmempty, ms_sentinel_participants := fmempty\<rparr>)"
proof -
  let ?t = "s\<lparr>ms_enrolled_devices := fmempty, ms_sentinel_participants := fmempty\<rparr>"
  obtain ms where ms: "traverse (classify c) (to_stored_records c s) = Inr ms" "set ms = state_metas s"
    using classified_state [OF assms] .
  have "state_metas empty_meta_state = {}" by (simp add: state_metas_def empty_meta_state_def)
  then have "state_metas (fold insert_meta ms empty_meta_state) = state_metas s"
    using inserted_metas [of empty_meta_state ms] state_metas_functional [of s] ms(2) by simp
  moreover have "state_metas ?t = state_metas s" by (simp add: state_metas_def)
  ultimately have "fold insert_meta ms empty_meta_state = ?t"
    by (intro state_metas_determine) (simp_all add: insert_meta_rest empty_meta_state_def)
  then show ?thesis using ms(1) by (auto simp: read_rows)
qed

end
