(* ===== verification/VaultApproval.thy ===== *)
theory VaultApproval
  imports VaultStateLaws
begin

text \<open>
  Approving a join request in a Simple vault (nook-wasm/src/manager/multi_device.rs, the Simple arm of
  approve_join_request): the request is looked up in the rows of the state, approved against them, and
  the state loses the request, overwrites the auth row and takes the new member rows.  The session
  check, the key of the approver and the storage of the change surround it in the code.

  The state is changed in place, so a failing call returns the state it had reached.  The code turns
  each error into the same JavaScript error; manager_error keeps them apart by the call that failed.
\<close>

subsection \<open>The operation\<close>

datatype manager_error = ManagerDatabase string | ManagerValidation validation_error
  | ManagerMultiDevice multi_device_error | ManagerSerialization string

fun with_error :: "('e \<Rightarrow> 'f) \<Rightarrow> ('e, 'a) result \<Rightarrow> ('f, 'a) result" where
  "with_error f (Inl e) = Inl (f e)"
| "with_error f (Inr a) = Inr a"

definition requested_approval ::
    "member_crates \<Rightarrow> string \<Rightarrow> string \<Rightarrow> app_key \<Rightarrow> string \<Rightarrow> stored_secret_record list
      \<Rightarrow> (manager_error, join_request \<times> stored_secret_record \<times> string \<times> stored_secret_record list) result" where
  "requested_approval c vault_secrets_key vault_members_key approver join_device_id rs =
     and_then (with_error ManagerMultiDevice (list_join_requests c rs)) (\<lambda>pending.
     and_then (with_error ManagerValidation (app_id_parse join_device_id)) (\<lambda>join_device.
       case find (\<lambda>entry. jr_device_id entry = join_device) pending of
         None \<Rightarrow> Inl (ManagerDatabase ''Join request not found.'')
       | Some req \<Rightarrow>
           and_then (with_error ManagerValidation (symmetric_key_parse vault_secrets_key)) (\<lambda>secrets_key.
           and_then (with_error ManagerValidation (symmetric_key_parse vault_members_key)) (\<lambda>members_key.
           and_then (with_error ManagerMultiDevice (approve_join c
               \<lparr>vk_secrets_key = secrets_key, vk_members_key = members_key\<rparr> req approver rs)) (\<lambda>approval.
             Inr (req, approval))))))"

definition apply_approval ::
    "member_crates \<Rightarrow> vault_meta_state \<Rightarrow> stored_secret_record \<times> string \<times> stored_secret_record list
      \<Rightarrow> vault_meta_state \<times> (manager_error, auth_envelopes) result" where
  "apply_approval c s approval = (case approval of (auth_record, join_key, member_records) \<Rightarrow>
     (let s1 = remove_key s join_key in
      case apply_record c s1 auth_record of
        Inl e \<Rightarrow> (s1, Inl (ManagerMultiDevice e))
      | Inr s2 \<Rightarrow>
          (case replace_state_members c member_records s2 of
             Inl e \<Rightarrow> (s2, Inl (ManagerMultiDevice e))
           | Inr s3 \<Rightarrow> (s3, with_error ManagerSerialization (auth_from_json c (sr_value auth_record))))))"

definition approve_join_request ::
    "member_crates \<Rightarrow> string \<Rightarrow> string \<Rightarrow> app_key \<Rightarrow> string \<Rightarrow> vault_meta_state
      \<Rightarrow> vault_meta_state \<times> (manager_error, vault_operation) result" where
  "approve_join_request c vault_secrets_key vault_members_key approver join_device_id s =
     (case requested_approval c vault_secrets_key vault_members_key approver join_device_id (to_stored_records c s) of
        Inl e \<Rightarrow> (s, Inl e)
      | Inr (req, approval) \<Rightarrow>
          (case apply_approval c s approval of (s', outcome) \<Rightarrow>
            (s', and_then outcome (\<lambda>envelopes.
              Inr (JoinApproved (jr_device_id req) (jr_public_key req) (jr_signing_public_key req) []
                (ae_secrets_key envelopes) (ae_members_key envelopes))))))"

subsection \<open>Removing a key\<close>

lemma dropped_metas:
  "state_metas (s\<lparr>ms_joins := fmdrop d (ms_joins s)\<rparr>) \<subseteq> state_metas s"
  "state_metas (s\<lparr>ms_members := fmdrop i (ms_members s)\<rparr>) \<subseteq> state_metas s"
  "state_metas (s\<lparr>ms_auth := fmdrop i (ms_auth s)\<rparr>) \<subseteq> state_metas s"
  "state_metas (s\<lparr>ms_sentinel_shares := fmdrop d (ms_sentinel_shares s)\<rparr>) \<subseteq> state_metas s"
  "state_metas (s\<lparr>ms_secrets := fmdrop k (ms_secrets s)\<rparr>) \<subseteq> state_metas s"
  by (auto simp: state_metas_def split: if_splits)

lemma parsed_or_metas:
  assumes "\<And>a t. state_metas (f a t) \<subseteq> state_metas t" and "state_metas t \<subseteq> state_metas s"
  shows "state_metas (parsed_or parsed f t) \<subseteq> state_metas s"
  using assms by (fastforce simp: parsed_or_def split: sum.splits)

lemma remove_key_metas: "state_metas (remove_key s key) \<subseteq> state_metas s"
proof -
  let ?s1 = "parsed_or (app_id_parse key) (\<lambda>d s. s\<lparr>ms_joins := fmdrop d (ms_joins s)\<rparr>) s"
  let ?s2 = "case strip_prefix MEMBER_RECORD_PREFIX key of None \<Rightarrow> ?s1
      | Some pk_id \<Rightarrow> parsed_or (auth_key_id_parse pk_id) (\<lambda>i s. s\<lparr>ms_members := fmdrop i (ms_members s)\<rparr>) ?s1"
  let ?s3 = "parsed_or (auth_key_id_parse key) (\<lambda>i s. s\<lparr>ms_auth := fmdrop i (ms_auth s)\<rparr>) ?s2"
  let ?s4 = "case strip_prefix SENTINEL_SHARE_RECORD_PREFIX key of None \<Rightarrow> ?s3
      | Some device \<Rightarrow> parsed_or (app_id_parse device) (\<lambda>d s. s\<lparr>ms_sentinel_shares := fmdrop d (ms_sentinel_shares s)\<rparr>) ?s3"
  have 1: "state_metas ?s1 \<subseteq> state_metas s" by (intro parsed_or_metas dropped_metas order_refl)
  have 2: "state_metas ?s2 \<subseteq> state_metas s" using 1 by (cases "strip_prefix MEMBER_RECORD_PREFIX key") (simp_all add: parsed_or_metas dropped_metas)
  have 3: "state_metas ?s3 \<subseteq> state_metas s" using 2 by (intro parsed_or_metas dropped_metas)
  have 4: "state_metas ?s4 \<subseteq> state_metas s"
    using 3 by (cases "strip_prefix SENTINEL_SHARE_RECORD_PREFIX key") (simp_all add: parsed_or_metas dropped_metas)
  have "state_metas (?s4\<lparr>ms_secrets := fmdrop (SecretId key) (ms_secrets ?s4)\<rparr>) \<subseteq> state_metas s"
    using dropped_metas(5) 4 by (rule order_trans)
  then show ?thesis unfolding remove_key_def Let_def .
qed

lemma remove_key_join:
  assumes "app_id_parse key = Inr d"
  shows "fmlookup (ms_joins (remove_key s key)) d = None"
  using assms by (simp add: remove_key_def parsed_or_def Let_def split: sum.splits option.splits)

subsection \<open>The member rows of a state\<close>

definition state_wf :: "member_crates \<Rightarrow> vault_meta_state \<Rightarrow> bool" where
  "state_wf c s \<longleftrightarrow> (\<forall>m\<in>state_metas s. meta_wf c m)"

lemma state_row:
  assumes "member_laws c" and "state_wf c s" and "r \<in> set (to_stored_records c s)"
  obtains m where "m \<in> state_metas s" "meta_to_stored c m = Inr r" "classify c r = Inr m"
proof -
  obtain m where "m \<in> state_metas s" "meta_to_stored c m = Inr r" using assms(3) flattened_rows by blast
  then show ?thesis using that stored_record_classifies [OF assms(1)] assms(2) by (fastforce simp: state_wf_def)
qed

lemma state_rows_classify: "member_laws c \<Longrightarrow> state_wf c s \<Longrightarrow> list_all (classifies c) (to_stored_records c s)"
  by (auto simp: list_all_iff classifies_def elim: state_row)

definition member_rows :: "vault_meta_state \<Rightarrow> stored_secret_record list" where
  "member_rows s = map (\<lambda>(i, payload). undeclared_row (member_record_key i) payload) (sorted_list_of_fmap (ms_members s))"

lemma member_rows_keys: "map row_key (member_rows s) = map member_record_key (keys_of (ms_members s))"
  by (simp add: member_rows_def undeclared_row_def comp_def split_def flip: map_fst_sorted_list_of_fmap)

lemma distinct_of_map: "distinct (map f xs) \<Longrightarrow> distinct xs"
  by (simp add: distinct_map)

lemma inj_member_record_key: "inj member_record_key"
  by (simp add: inj_def)

lemma member_rows_distinct: "distinct (map row_key (member_rows s))"
  unfolding member_rows_keys by (simp add: distinct_map inj_on_subset [OF inj_member_record_key])

lemma member_row_in: "r \<in> set (member_rows s) \<longleftrightarrow>
    (\<exists>i payload. fmlookup (ms_members s) i = Some payload \<and> r = undeclared_row (member_record_key i) payload)"
  unfolding member_rows_def image_of_entries by blast

lemma filter_rows:
  assumes "\<And>x. x \<in> set xs \<Longrightarrow> \<not> P x"
  shows "filter P xs = []"
  using assms by (simp add: filter_empty_conv)

lemma state_member_records:
  assumes "member_laws c" and "state_wf c s"
  shows "filter (is_member_record c) (to_stored_records c s) = sort_key row_key (member_rows s)"
proof -
  have kind: "is_member_record c r \<longleftrightarrow> is_member_row m" if "m \<in> state_metas s" "meta_to_stored c m = Inr r" for r m
    using stored_record_classifies [OF assms(1), of m] assms(2) that by (auto simp: is_member_record_def is_member_row_iff state_wf_def)
  have none: "filter (is_member_record c) (rendered (map (\<lambda>(k, v). g k v) (sorted_list_of_fmap f))) = []"
    if "\<And>k v. fmlookup f k = Some v \<Longrightarrow> \<exists>m\<in>state_metas s. g k v = meta_to_stored c m \<and> \<not> is_member_row m" for g and f :: "('a::linorder, 'b) fmap"
  proof (rule filter_rows)
    fix r assume "r \<in> set (rendered (map (\<lambda>(k, v). g k v) (sorted_list_of_fmap f)))"
    then obtain k v where "fmlookup f k = Some v" "g k v = Inr r" unfolding rendered_row image_of_entries by blast
    then show "\<not> is_member_record c r" using that kind by metis
  qed
  have secrets: "filter (is_member_record c) (map (\<lambda>(i, kind, payload). \<lparr>sr_key = i, sr_secret_type = SecretDeclared kind, sr_value = payload\<rparr>)
      (sorted_list_of_fmap (ms_secrets s))) = []"
  proof (rule filter_rows)
    fix r assume "r \<in> set (map (\<lambda>(i, kind, payload). \<lparr>sr_key = i, sr_secret_type = SecretDeclared kind, sr_value = payload\<rparr>)
      (sorted_list_of_fmap (ms_secrets s)))"
    then obtain i kind payload where "fmlookup (ms_secrets s) i = Some (kind, payload)"
      "r = \<lparr>sr_key = i, sr_secret_type = SecretDeclared kind, sr_value = payload\<rparr>" unfolding image_of_entries by auto
    then show "\<not> is_member_record c r"
      using kind [of "MetaSecret i kind payload" r] by (simp add: in_state_metas meta_to_stored_def is_member_row_def)
  qed
  have members: "filter (is_member_record c) (member_rows s) = member_rows s"
  proof (rule filter_True, rule ballI)
    fix r assume "r \<in> set (member_rows s)"
    then obtain i payload where "fmlookup (ms_members s) i = Some payload" "r = undeclared_row (member_record_key i) payload"
      unfolding member_row_in by blast
    then show "is_member_record c r" using kind [of "MetaMember i payload" r]
      by (simp add: in_state_metas meta_to_stored_def is_member_row_def)
  qed
  have auths: "filter (is_member_record c) (rendered (map (\<lambda>(i, envelopes). meta_to_stored c (MetaAuth i envelopes))
      (sorted_list_of_fmap (ms_auth s)))) = []"
  proof (rule none)
    fix i a assume "fmlookup (ms_auth s) i = Some a"
    then show "\<exists>m\<in>state_metas s. meta_to_stored c (MetaAuth i a) = meta_to_stored c m \<and> \<not> is_member_row m"
      by (intro bexI [of _ "MetaAuth i a"]) (simp_all add: in_state_metas is_member_row_def)
  qed
  have joins: "filter (is_member_record c) (rendered (map (\<lambda>(_, req). meta_to_stored c (MetaJoin (jr_device_id req) req))
      (sorted_list_of_fmap (ms_joins s)))) = []"
  proof (rule none)
    fix d req assume "fmlookup (ms_joins s) d = Some req"
    then show "\<exists>m\<in>state_metas s. meta_to_stored c (MetaJoin (jr_device_id req) req) = meta_to_stored c m \<and> \<not> is_member_row m"
      by (intro bexI [of _ "MetaJoin d req"]) (simp_all add: in_state_metas is_member_row_def meta_to_stored_def)
  qed
  have shares: "filter (is_member_record c) (rendered (map (\<lambda>(d, share). meta_to_stored c (MetaShare d share))
      (sorted_list_of_fmap (ms_sentinel_shares s)))) = []"
  proof (rule none)
    fix d share assume "fmlookup (ms_sentinel_shares s) d = Some share"
    then show "\<exists>m\<in>state_metas s. meta_to_stored c (MetaShare d share) = meta_to_stored c m \<and> \<not> is_member_row m"
      by (intro bexI [of _ "MetaShare d share"]) (simp_all add: in_state_metas is_member_row_def)
  qed
  show ?thesis
    unfolding to_stored_records_def filter_sort filter_append secrets member_rows_def [symmetric] members auths joins shares by simp
qed

subsection \<open>The roster of a state\<close>

lemma resolved_rows_keys:
  assumes "traverse (resolved_member c key) rs = Inr roster" and "roster_wf c roster"
  shows "map row_key rs = map (\<lambda>m. member_record_key (vm_auth_id m)) roster"
  using assms
proof (induction rs arbitrary: roster)
  case (Cons r rs)
  then obtain m rest where m: "resolved_member c key r = Inr m" and rest: "traverse (resolved_member c key) rs = Inr rest"
    and roster: "roster = m # rest" by (auto simp: and_then_Inr_iff)
  obtain e where e: "member_record_key_matches (me_pk_id e) (row_key r)" "member_of_entry c e = Inr m"
    using m by (auto simp: resolved_member_def and_then_Inr_iff split: sum.splits if_splits)
  have "me_pk_id e = vm_auth_id m" using e(2) by (auto simp: member_of_entry_def and_then_Inr_iff)
  moreover have "auth_key_id_parse (auth_key_id_str (vm_auth_id m)) = Inr (vm_auth_id m)"
    using Cons.prems(2) by (simp add: roster roster_wf_def)
  ultimately have "row_key r = member_record_key (vm_auth_id m)" using e(1) by (auto simp: member_record_key_matches_def)
  then show ?case using Cons.IH [OF rest] Cons.prems(2) by (simp add: roster roster_wf_def)
qed simp

lemma state_roster_distinct:
  assumes "member_laws c" and "state_wf c s" and "resolve_member_roster c (to_stored_records c s) key = Inr roster" and "roster_wf c roster"
  shows "distinct (map vm_auth_id roster)"
proof -
  obtain found where found: "traverse (resolved_member c key) (sort_key row_key (member_rows s)) = Inr found"
    and roster: "roster = sort_key vm_auth_id found"
    using assms(3) by (auto simp: resolve_member_roster_def and_then_Inr_iff resolve_rows state_member_records [OF assms(1,2)])
  have "roster_wf c found" using assms(4) by (simp add: roster roster_wf_def)
  then have "map row_key (sort_key row_key (member_rows s)) = map (\<lambda>m. member_record_key (vm_auth_id m)) found"
    using resolved_rows_keys [OF found] by simp
  moreover have "distinct (map row_key (sort_key row_key (member_rows s)))"
    using member_rows_distinct [of s] by (simp add: distinct_map)
  ultimately have "distinct (map member_record_key (map vm_auth_id found))" by (simp add: comp_def)
  then have "distinct (map vm_auth_id found)" using distinct_of_map by blast
  then show ?thesis by (simp add: roster distinct_map)
qed

text \<open>Rows that resolve in one order resolve in every order.\<close>

lemma traverse_permuted:
  assumes "traverse f xs = Inr ys" and "mset xs' = mset xs"
  shows "\<exists>ys'. traverse f xs' = Inr ys' \<and> mset ys' = mset ys"
proof -
  have all: "\<forall>x\<in>set xs'. \<exists>y. f x = Inr y" using assms traverse_ok_iff [of f xs] mset_eq_setD [OF assms(2)] by blast
  then obtain ys' where ys': "traverse f xs' = Inr ys'" using traverse_ok_iff [of f xs'] by blast
  have image: "mset zs = image_mset (\<lambda>x. projr (f x)) (mset us)" if "traverse f us = Inr zs" for us zs
    using that by (induction us arbitrary: zs) (auto simp: and_then_Inr_iff)
  show ?thesis using ys' image [OF ys'] image [OF assms(1)] assms(2) by simp
qed

lemma state_roster:
  assumes "member_laws c" and "state_wf c s" and "roster_wf c roster" and "distinct (map vm_auth_id roster)"
    and "build_members_records c roster key = Inr rows" and "set (member_rows s) = set rows"
  shows "resolve_member_roster c (to_stored_records c s) key = Inr (sort_key vm_auth_id roster)"
proof -
  note written = written_rows [OF assms(1,3,5)]
  have "distinct (map row_key rows)"
    unfolding written(1) using assms(4) inj_on_subset [OF inj_member_record_key] by (simp add: distinct_map inj_on_def)
  then have "distinct rows" by (rule distinct_of_map)
  moreover have "distinct (member_rows s)" using member_rows_distinct by (rule distinct_of_map)
  ultimately have same: "mset (sort_key row_key (member_rows s)) = mset rows"
    using assms(6) by (simp add: set_eq_iff_mset_eq_distinct)
  obtain found where found: "traverse (resolved_member c key) (sort_key row_key (member_rows s)) = Inr found" "mset found = mset roster"
    using traverse_permuted [OF written(4) same] by blast
  have "sort_key vm_auth_id found = sort_key vm_auth_id roster"
    using found(2) assms(4) mset_eq_setD [OF found(2)] by (intro sort_key_inj_key_eq) (simp_all add: distinct_map)
  then show ?thesis using found(1) state_rows_classify [OF assms(1,2)]
    by (simp add: resolve_member_roster_def and_then_Inr_iff resolve_rows state_member_records [OF assms(1,2)])
qed

text \<open>The member map after new rows replace it.\<close>

lemma kept_members:
  assumes "list_all (\<lambda>r. \<exists>i. classify c r = Inr (MetaMember i (sr_value r)) \<and> r = undeclared_row (member_record_key i) (sr_value r)) rows"
    and "distinct (map row_key rows)"
  shows "\<exists>members. fold_result (keep_member c) acc rows = Inr members
    \<and> (\<forall>i p. fmlookup members i = Some p \<longleftrightarrow> undeclared_row (member_record_key i) p \<in> set rows
        \<or> member_record_key i \<notin> row_key ` set rows \<and> fmlookup acc i = Some p)"
  using assms
proof (induction rows arbitrary: acc)
  case (Cons r rows)
  then obtain i where i: "classify c r = Inr (MetaMember i (sr_value r))" "r = undeclared_row (member_record_key i) (sr_value r)" by auto
  have key: "row_key r = member_record_key i" using arg_cong [OF i(2), of row_key] by (simp add: undeclared_row_def)
  have later: "undeclared_row (member_record_key i) p \<notin> set rows" for p
    using Cons.prems(2) by (auto simp: key undeclared_row_def image_iff)
  obtain members where m: "fold_result (keep_member c) (fmupd i (sr_value r) acc) rows = Inr members"
    "\<forall>j p. fmlookup members j = Some p \<longleftrightarrow> undeclared_row (member_record_key j) p \<in> set rows
        \<or> member_record_key j \<notin> row_key ` set rows \<and> fmlookup (fmupd i (sr_value r) acc) j = Some p"
    using Cons.IH [of "fmupd i (sr_value r) acc"] Cons.prems by auto
  have same: "undeclared_row (member_record_key j) p = r \<longleftrightarrow> j = i \<and> p = sr_value r" for j p
    by (subst i(2)) (auto simp: undeclared_row_def)
  have "fmlookup members j = Some p \<longleftrightarrow> undeclared_row (member_record_key j) p \<in> set (r # rows)
        \<or> member_record_key j \<notin> row_key ` set (r # rows) \<and> fmlookup acc j = Some p" for j p
    using m(2) later same key Cons.prems(2) by (cases "j = i") auto
  moreover have "keep_member c acc r = Inr (fmupd i (sr_value r) acc)" using i(1) by (simp add: keep_member_def)
  then have "fold_result (keep_member c) acc (r # rows) = Inr members" using m(1) by simp
  ultimately show ?case by blast
qed simp

subsection \<open>The auth row of a state\<close>

lemma find_only:
  assumes "x \<in> set xs" and "P x" and "\<And>y. y \<in> set xs \<Longrightarrow> P y \<Longrightarrow> y = x"
  shows "find P xs = Some x"
proof (cases "find P xs")
  case None
  then show ?thesis using assms(1,2) by (simp add: find_None_iff)
next
  case (Some y)
  then have "y \<in> set xs" "P y" using find_SomeD by fast+
  then show ?thesis using Some assms(3) by blast
qed

lemma app_id_no_key:
  assumes "app_id_parse (app_id_str d) = Inr d"
  shows "app_id_str d \<noteq> ''key_'' @ digest"
proof
  assume "app_id_str d = ''key_'' @ digest"
  then have "is_ascii_hexdigit (CHR ''k'')" using app_id_shape [OF assms] by (simp add: app_id_is_valid_def)
  moreover have "\<not> is_ascii_hexdigit (CHR ''k'')" by code_simp
  ultimately show False by blast
qed

lemma state_envelopes:
  assumes "member_laws c" and "state_wf c s" and "fmlookup (ms_auth s) (app_auth_id (mc_keys c) k) = Some a"
  shows "auth_envelopes_of c (to_stored_records c s) k = Inr a"
proof -
  let ?i = "app_auth_id (mc_keys c) k"
  have in_s: "MetaAuth ?i a \<in> state_metas s" using assms(3) by (simp add: in_state_metas)
  then have wf: "meta_wf c (MetaAuth ?i a)" using assms(2) by (simp add: state_wf_def)
  then obtain json where json: "auth_to_json c a = Inr json" and id: "auth_key_id_parse (auth_key_id_str ?i) = Inr ?i"
    and armor: "armored (ae_secrets_key a)" "armored (ae_members_key a)" by (auto simp: meta_wf_def)
  let ?row = "undeclared_row (auth_key_id_str ?i) json"
  have row: "meta_to_stored c (MetaAuth ?i a) = Inr ?row" using json by (simp add: meta_to_stored_def auth_record_json_def)
  have only: "r = ?row" if r: "r \<in> set (to_stored_records c s)" and key: "row_key r = auth_key_id_str ?i" for r
  proof -
    obtain m where m: "m \<in> state_metas s" "meta_to_stored c m = Inr r" using state_row [OF assms(1,2) r] by blast
    obtain digest where digest: "auth_key_id_str ?i = ''key_'' @ digest" using parsed_auth_key [OF id] by (metis auth_key_id.sel)
    have "meta_wf c m" using m(1) assms(2) by (simp add: state_wf_def)
    then show ?thesis
    proof (cases m)
      case (MetaSecret j kind payload)
      then have "\<exists>token. secret_id_str j = ''secret_'' @ token"
        using \<open>meta_wf c m\<close> by (auto simp: meta_wf_def secret_id_parse_def Let_def split: if_splits option.splits)
      then show ?thesis using m(2) key digest by (auto simp: MetaSecret meta_to_stored_def)
    next
      case (MetaAuth j b)
      then have "row_key r = auth_key_id_str j" using m(2) by (auto simp: meta_to_stored_def and_then_Inr_iff undeclared_row_def)
      then have "j = ?i" using key by (simp add: auth_key_id.expand)
      then have "b = a" using m(1) assms(3) by (simp add: MetaAuth in_state_metas)
      then show ?thesis using m(2) row \<open>j = ?i\<close> by (simp add: MetaAuth)
    next
      case (MetaJoin d req)
      then have "app_id_parse (app_id_str d) = Inr d" "row_key r = app_id_str d"
        using \<open>meta_wf c m\<close> m(2) by (auto simp: meta_wf_def meta_to_stored_def and_then_Inr_iff undeclared_row_def)
      then show ?thesis using app_id_no_key key digest by metis
    next
      case (MetaMember j payload)
      then have "row_key r = member_record_key j" using m(2) by (auto simp: meta_to_stored_def undeclared_row_def)
      then show ?thesis using auth_key_no_row_key [OF id] key by metis
    next
      case (MetaShare d share)
      then have "row_key r = sentinel_share_record_key d" using m(2) by (auto simp: meta_to_stored_def and_then_Inr_iff undeclared_row_def)
      then show ?thesis using key digest by (simp add: sentinel_share_record_key_def)
    qed
  qed
  have "?row \<in> set (to_stored_records c s)" using in_s row flattened_rows by blast
  moreover have "row_key ?row = auth_key_id_str ?i" by (simp add: undeclared_row_def)
  ultimately have "find (\<lambda>r. row_key r = auth_key_id_str ?i) (to_stored_records c s) = Some ?row"
    using only by (rule find_only)
  moreover have "auth_from_json c json = Inr a" using member_lawsD(6) [OF assms(1) armor json] by blast
  ultimately show ?thesis by (simp add: auth_envelopes_of_def undeclared_row_def parse_auth_envelopes_def)
qed

subsection \<open>The state after an approval\<close>

definition auth_row_of :: "member_crates \<Rightarrow> app_key \<Rightarrow> vault_keys \<Rightarrow> stored_secret_record \<Rightarrow> bool" where
  "auth_row_of c k keys row \<longleftrightarrow>
     issue_auth_record c (app_auth_id (mc_keys c) k) (vk_secrets_key keys) (vk_members_key keys) (app_public_key (mc_keys c) k) = Inr row"

lemma auth_row_meta:
  assumes "member_laws c" and "age_laws (mc_keys c)" and "symmetric_keys keys" and "app_key_derived c k" and "auth_row_of c k keys row"
  obtains a where "classify c row = Inr (MetaAuth (app_auth_id (mc_keys c) k) a)" "meta_wf c (MetaAuth (app_auth_id (mc_keys c) k) a)"
    "auth_from_json c (sr_value row) = Inr a"
    "decrypt_envelope (mc_keys c) k (ae_secrets_key a) = Inr (vk_secrets_key keys)"
    "decrypt_envelope (mc_keys c) k (ae_members_key a) = Inr (vk_members_key keys)"
proof -
  let ?i = "app_auth_id (mc_keys c) k"
  obtain s m json where s: "public_key_seal (mc_keys c) (app_public_key (mc_keys c) k) (vk_secrets_key keys) = Inr s"
    and m: "public_key_seal (mc_keys c) (app_public_key (mc_keys c) k) (vk_members_key keys) = Inr m"
    and json: "auth_to_json c \<lparr>ae_secrets_key = s, ae_members_key = m\<rparr> = Inr json" and row: "row = undeclared_row (auth_key_id_str ?i) json"
    using assms(5) by (auto simp: auth_row_of_def issue_auth_record_def and_then_Inr_iff auth_record_json_Inr)
  let ?a = "\<lparr>ae_secrets_key = s, ae_members_key = m\<rparr>"
  have armor: "armored s" "armored m" using sealed_armored [OF assms(1)] s m by blast+
  have wf: "meta_wf c (MetaAuth ?i ?a)" using armor json assms(4) by (simp add: meta_wf_def app_key_derived_def)
  have "meta_to_stored c (MetaAuth ?i ?a) = Inr row" using json row by (simp add: meta_to_stored_def auth_record_json_def)
  then have "classify c row = Inr (MetaAuth ?i ?a)" using stored_record_classifies [OF assms(1) wf] by auto
  moreover have "auth_from_json c (sr_value row) = Inr ?a"
    using member_lawsD(6) [OF assms(1), of ?a] armor json by (simp add: row undeclared_row_def)
  moreover have "symmetric_key_parse (vk_secrets_key keys) = Inr (vk_secrets_key keys)" "symmetric_key_parse (vk_members_key keys) = Inr (vk_members_key keys)"
    using assms(3) by (simp_all add: symmetric_keys_def)
  ultimately show ?thesis using that wf sealed_opens [OF assms(2) s] sealed_opens [OF assms(2) m] by simp
qed

lemma built_rows:
  assumes "member_laws c" and "roster_wf c roster" and "build_members_records c roster key = Inr rows"
  shows "list_all (\<lambda>r. \<exists>i. classify c r = Inr (MetaMember i (sr_value r)) \<and> r = undeclared_row (member_record_key i) (sr_value r)
      \<and> meta_wf c (MetaMember i (sr_value r))) rows"
proof -
  have all: "list_all2 (\<lambda>m r. member_row c key m = Inr r) roster rows"
    using assms(3) by (simp add: build_members_records_def traverse_Inr_iff)
  show ?thesis unfolding list_all_iff
  proof
    fix r assume "r \<in> set rows"
    then obtain n where "n < length rows" "r = rows ! n" by (auto simp: in_set_conv_nth)
    then obtain m where m: "m \<in> set roster" "member_row c key m = Inr r"
      using that [of "roster ! n"] list_all2_nthD2 [OF all] list_all2_lengthD [OF all] nth_mem by metis
    have wf: "auth_key_id_parse (auth_key_id_str (vm_auth_id m)) = Inr (vm_auth_id m)"
      "public_key_app_id (mc_keys c) (vm_public_key m) = Inr (vm_device_id m)" using m(1) assms(2) by (simp_all add: roster_wf_def)
    obtain json where "scrypt_seal c key json = Inr (sr_value r)" "r = undeclared_row (member_record_key (vm_auth_id m)) (sr_value r)"
      using m(2) by (auto simp: member_row_def Let_def and_then_Inr_iff encrypt_member_entry_def entry_of_member_def undeclared_row_def
          split: sum.splits)
    then show "\<exists>i. classify c r = Inr (MetaMember i (sr_value r)) \<and> r = undeclared_row (member_record_key i) (sr_value r)
        \<and> meta_wf c (MetaMember i (sr_value r))"
      using written_row(2) [OF assms(1) m(2) wf] member_lawsD(3) [OF assms(1)] wf(1) by (auto simp: meta_wf_def)
  qed
qed

lemma applied_approval:
  assumes "member_laws c" and "age_laws (mc_keys c)" and "symmetric_keys keys" and "app_key_derived c k" and "auth_row_of c k keys auth"
    and "state_wf c s" and "roster_wf c roster" and "distinct (map vm_auth_id roster)" and "build_members_records c roster key = Inr rows"
  obtains s' a where "apply_approval c s (auth, join_key, rows) = (s', Inr a)" "state_wf c s'" "set (member_rows s') = set rows"
    "ms_joins s' = ms_joins (remove_key s join_key)" "fmlookup (ms_auth s') (app_auth_id (mc_keys c) k) = Some a"
    "decrypt_envelope (mc_keys c) k (ae_secrets_key a) = Inr (vk_secrets_key keys)"
    "decrypt_envelope (mc_keys c) k (ae_members_key a) = Inr (vk_members_key keys)"
proof -
  let ?i = "app_auth_id (mc_keys c) k"
  obtain a where a: "classify c auth = Inr (MetaAuth ?i a)" "meta_wf c (MetaAuth ?i a)" "auth_from_json c (sr_value auth) = Inr a"
    "decrypt_envelope (mc_keys c) k (ae_secrets_key a) = Inr (vk_secrets_key keys)"
    "decrypt_envelope (mc_keys c) k (ae_members_key a) = Inr (vk_members_key keys)"
    using assms(1-5) by (rule auth_row_meta)
  note built = built_rows [OF assms(1,7,9)]
  have "distinct (map row_key rows)" unfolding written_rows(1) [OF assms(1,7,9)]
    using assms(8) inj_on_subset [OF inj_member_record_key] by (simp add: distinct_map inj_on_def)
  then obtain members where members: "fold_result (keep_member c) fmempty rows = Inr members"
    "\<forall>i p. fmlookup members i = Some p \<longleftrightarrow> undeclared_row (member_record_key i) p \<in> set rows"
    using kept_members [of c rows fmempty] built by (auto simp: list_all_iff)
  let ?s = "(insert_meta (MetaAuth ?i a) (remove_key s join_key))\<lparr>ms_members := members\<rparr>"
  have applied: "apply_approval c s (auth, join_key, rows) = (?s, Inr a)"
    using a(1,3) members(1) by (simp add: apply_approval_def Let_def apply_record_def replace_state_members_def)
  have rows: "undeclared_row (member_record_key i) p \<in> set rows \<Longrightarrow> meta_wf c (MetaMember i p)" for i p
    using built by (fastforce simp: list_all_iff undeclared_row_def)
  have "m = MetaAuth ?i a \<or> m \<in> state_metas s \<or> (\<exists>i p. m = MetaMember i p \<and> undeclared_row (member_record_key i) p \<in> set rows)"
    if "m \<in> state_metas ?s" for m
    using that subsetD [OF remove_key_metas [of s join_key], of m] members(2)
    by (cases m) (auto simp: in_state_metas split: if_splits)
  then have wf: "state_wf c ?s" using a(2) assms(6) rows unfolding state_wf_def by blast
  have "r \<in> set (member_rows ?s) \<longleftrightarrow> r \<in> set rows" for r
  proof
    assume "r \<in> set rows"
    then obtain i where i: "r = undeclared_row (member_record_key i) (sr_value r)" using built by (auto simp: list_all_iff)
    then have "undeclared_row (member_record_key i) (sr_value r) \<in> set rows" using \<open>r \<in> set rows\<close> by metis
    then have "fmlookup (ms_members ?s) i = Some (sr_value r)" using members(2) by simp
    then show "r \<in> set (member_rows ?s)" using i unfolding member_row_in by blast
  qed (use members(2) in \<open>auto simp: member_row_in\<close>)
  then show ?thesis using that [OF applied wf] a(4,5) by auto
qed

text \<open>The pending request of a device is the one the state holds for it.\<close>

lemma pending_request:
  assumes "member_laws c" and "state_wf c s" and "fmlookup (ms_joins s) d = Some req"
  obtains pending where "list_join_requests c (to_stored_records c s) = Inr pending"
    "find (\<lambda>entry. jr_device_id entry = d) pending = Some req"
proof -
  obtain ms where ms: "traverse (classify c) (to_stored_records c s) = Inr ms" "set ms = state_metas s"
    using classified_state [OF assms(1)] assms(2) unfolding state_wf_def by blast
  let ?pending = "concat (map (\<lambda>m. case m of MetaJoin _ req \<Rightarrow> [req] | _ \<Rightarrow> []) ms)"
  have mem: "q \<in> set ?pending \<longleftrightarrow> (\<exists>e. fmlookup (ms_joins s) e = Some q)" for q
  proof -
    have "q \<in> set ?pending \<longleftrightarrow> (\<exists>m\<in>set ms. \<exists>e. m = MetaJoin e q)"
      by (auto split: vault_meta_record.splits)
    then show ?thesis using ms(2) by (auto simp: in_state_metas)
  qed
  have device: "e = jr_device_id q" if "fmlookup (ms_joins s) e = Some q" for e q
    using assms(2) that in_state_metas(3) [of e q s] by (auto simp: state_wf_def meta_wf_def)
  have "q = req" if "q \<in> set ?pending" "jr_device_id q = d" for q
    using that assms(3) device unfolding mem by auto
  moreover have "req \<in> set ?pending" "jr_device_id req = d" using assms(3) device unfolding mem by auto
  ultimately have "find (\<lambda>entry. jr_device_id entry = d) ?pending = Some req" by (intro find_only)
  then show ?thesis using that ms(1) by (simp add: list_join_requests_def)
qed

subsection \<open>Approving a request\<close>

lemma join_of_state:
  assumes "state_wf c s" and "fmlookup (ms_joins s) d = Some req"
  shows "app_id_parse (app_id_str d) = Inr d" "jr_device_id req = d"
  using assms in_state_metas(3) [of d req s] by (auto simp: state_wf_def meta_wf_def)

lemma approval_parts:
  assumes "member_laws c" and "age_laws (mc_keys c)" and "symmetric_keys keys" and "state_wf c s"
    and "fmlookup (ms_joins s) (ak_app_id k) = Some req" and "requested_by c req k"
    and "approve_join_request c (vk_secrets_key keys) (vk_members_key keys) approver (app_id_str (ak_app_id k)) s = (s', Inr op)"
  obtains auth roster rows outcome where "auth_row_of c k keys auth"
    "approved_roster c approver (to_stored_records c s) (vk_members_key keys) req = Inr roster"
    "build_members_records c roster (vk_members_key keys) = Inr rows"
    "apply_approval c s (auth, app_id_str (ak_app_id k), rows) = (s', outcome)"
proof -
  obtain pending where pending: "list_join_requests c (to_stored_records c s) = Inr pending"
    "find (\<lambda>entry. jr_device_id entry = ak_app_id k) pending = Some req" using pending_request [OF assms(1,4,5)] .
  note join = join_of_state [OF assms(4,5)]
  have parsed: "symmetric_key_parse (vk_secrets_key keys) = Inr (vk_secrets_key keys)"
    "symmetric_key_parse (vk_members_key keys) = Inr (vk_members_key keys)" using assms(3) by (simp_all add: symmetric_keys_def)
  have eta: "\<lparr>vk_secrets_key = vk_secrets_key keys, vk_members_key = vk_members_key keys\<rparr> = keys" by simp
  obtain approval where approval: "approve_join c keys req approver (to_stored_records c s) = Inr approval"
    and applied: "\<exists>outcome. apply_approval c s approval = (s', outcome)"
    using assms(7) pending join parsed
    by (cases "approve_join c keys req approver (to_stored_records c s)")
      (auto simp: approve_join_request_def requested_approval_def eta split: prod.splits)
  have key: "jr_public_key req = app_public_key (mc_keys c) k" using assms(6) by (simp add: requested_by_def)
  obtain auth roster rows where "auth_row_of c k keys auth"
    "approved_roster c approver (to_stored_records c s) (vk_members_key keys) req = Inr roster"
    "build_members_records c roster (vk_members_key keys) = Inr rows" "approval = (auth, app_id_str (ak_app_id k), rows)"
    using approval app_public_auth_id [OF assms(2), of k] join(2)
    by (auto simp: approve_join_def key and_then_Inr_iff auth_row_of_def)
  then show ?thesis using that applied by blast
qed

text \<open>C30: After the approval of a pending request in a Simple vault whose member rows resolve, the approved
  device opens both keys of the vault, whatever auth row it had before, its request is gone, and it
  stands on the roster beside every earlier member.\<close>

theorem approved_device_opens_the_vault:
  assumes "member_laws c" and "age_laws (mc_keys c)" and "symmetric_keys keys" and "state_wf c s"
    and "app_key_derived c k" and "fmlookup (ms_joins s) (ak_app_id k) = Some req" and "requested_by c req k"
    and "approve_join_request c (vk_secrets_key keys) (vk_members_key keys) approver (app_id_str (ak_app_id k)) s = (s', Inr op)"
    and "resolve_member_roster c (to_stored_records c s) (vk_members_key keys) = Inr roster" and "roster_wf c roster"
  shows "state_wf c s' \<and> fmlookup (ms_joins s') (ak_app_id k) = None
    \<and> view_secrets_key c (to_stored_records c s') k = Inr (vk_secrets_key keys)
    \<and> view_members_key c (to_stored_records c s') k = Inr (vk_members_key keys)
    \<and> resolve_member_roster c (to_stored_records c s') (vk_members_key keys)
        = Inr (roster_add_member roster (member_from_identity c k (jr_requested_at req)))"
proof -
  let ?m = "member_from_identity c k (jr_requested_at req)" and ?i = "app_auth_id (mc_keys c) k"
  obtain auth new rows outcome where auth: "auth_row_of c k keys auth"
    and new: "approved_roster c approver (to_stored_records c s) (vk_members_key keys) req = Inr new"
    and rows: "build_members_records c new (vk_members_key keys) = Inr rows"
    and applied: "apply_approval c s (auth, app_id_str (ak_app_id k), rows) = (s', outcome)"
    using approval_parts [OF assms(1-4,6-8)] .
  have new': "new = roster_add_member roster ?m"
    using new assms(9) joining_member [OF assms(2,7)] by (simp add: approved_roster_def)
  have wf: "roster_wf c new" unfolding new' using assms(10) identity_member_wf [OF assms(5)] by (rule roster_add_wf)
  have "distinct (map vm_auth_id roster)" using state_roster_distinct [OF assms(1,4,9,10)] .
  then have distinct: "distinct (map vm_auth_id new)"
    by (auto simp: new' roster_add_member_def distinct_map inj_on_def)
  obtain a where s': "state_wf c s'" "set (member_rows s') = set rows" "ms_joins s' = ms_joins (remove_key s (app_id_str (ak_app_id k)))"
    "fmlookup (ms_auth s') ?i = Some a"
    and keys: "decrypt_envelope (mc_keys c) k (ae_secrets_key a) = Inr (vk_secrets_key keys)"
    "decrypt_envelope (mc_keys c) k (ae_members_key a) = Inr (vk_members_key keys)"
    using applied_approval [OF assms(1-3,5) auth assms(4) wf distinct rows, of "app_id_str (ak_app_id k)"] applied by (metis prod.inject)
  have "fmlookup (ms_joins s') (ak_app_id k) = None"
    using remove_key_join [OF join_of_state(1) [OF assms(4,6)]] s'(3) by simp
  moreover have "resolve_member_roster c (to_stored_records c s') (vk_members_key keys) = Inr new"
    using state_roster [OF assms(1) s'(1) wf distinct rows s'(2)] by (simp add: new' roster_add_sorted)
  ultimately show ?thesis
    using state_envelopes [OF assms(1) s'(1,4)] keys s'(1) by (simp add: view_secrets_key_def view_members_key_def new')
qed

text \<open>Of two member rows under one key the later one counts.\<close>

lemma repeated_member_row:
  assumes "classify c r = Inr (MetaMember i (sr_value r))" and "classify c r' = Inr (MetaMember i (sr_value r'))"
  shows "apply_approval c s (auth, join_key, [r, r']) = apply_approval c s (auth, join_key, [r'])"
proof -
  have "replace_state_members c [r, r'] t = replace_state_members c [r'] t" for t
    using assms by (simp add: replace_state_members_def keep_member_def)
  then show ?thesis by (simp add: apply_approval_def Let_def split: sum.split)
qed

text \<open>C31: When the member rows of a Simple vault do not resolve, an approval replaces them all: only the
  approver and the approved device are members then, whoever was one before.\<close>

theorem unreadable_roster_is_replaced:
  assumes "member_laws c" and "age_laws (mc_keys c)" and "symmetric_keys keys" and "state_wf c s"
    and "app_key_derived c k" and "app_key_derived c approver"
    and "fmlookup (ms_joins s) (ak_app_id k) = Some req" and "requested_by c req k"
    and "approve_join_request c (vk_secrets_key keys) (vk_members_key keys) approver (app_id_str (ak_app_id k)) s = (s', Inr op)"
    and "resolve_member_roster c (to_stored_records c s) (vk_members_key keys) = Inl e"
  shows "\<exists>roster. resolve_member_roster c (to_stored_records c s') (vk_members_key keys) = Inr roster
    \<and> vm_auth_id ` set roster = {app_auth_id (mc_keys c) approver, app_auth_id (mc_keys c) k}"
proof -
  let ?a = "member_from_identity c approver (jr_requested_at req)" and ?m = "member_from_identity c k (jr_requested_at req)"
  have ids: "vm_auth_id ?a = app_auth_id (mc_keys c) approver" "vm_auth_id ?m = app_auth_id (mc_keys c) k"
    by (simp_all add: member_from_identity_def)
  obtain auth new rows outcome where auth: "auth_row_of c k keys auth"
    and new: "approved_roster c approver (to_stored_records c s) (vk_members_key keys) req = Inr new"
    and rows: "build_members_records c new (vk_members_key keys) = Inr rows"
    and applied: "apply_approval c s (auth, app_id_str (ak_app_id k), rows) = (s', outcome)"
    using approval_parts [OF assms(1-4,7-9)] .
  have new': "new = [?a, ?m]" using new assms(10) joining_member [OF assms(2,8)] by (simp add: approved_roster_def)
  have wf: "roster_wf c [?a, ?m]" "roster_wf c [?m]"
    using identity_member_wf [OF assms(5)] identity_member_wf [OF assms(6)] by (simp_all add: roster_wf_def)
  have conclude: "resolve_member_roster c (to_stored_records c s') (vk_members_key keys) = Inr (sort_key vm_auth_id roster)"
    if "roster_wf c roster" "distinct (map vm_auth_id roster)" "build_members_records c roster (vk_members_key keys) = Inr rows'"
      "apply_approval c s (auth, app_id_str (ak_app_id k), rows') = (s', outcome)" for roster rows'
  proof -
    have "state_wf c s'" "set (member_rows s') = set rows'"
      using applied_approval [OF assms(1-3,5) auth assms(4) that(1-3), of "app_id_str (ak_app_id k)"] that(4) by (metis prod.inject)+
    then show ?thesis using state_roster [OF assms(1) _ that(1-3)] by blast
  qed
  show ?thesis
  proof (cases "app_auth_id (mc_keys c) approver = app_auth_id (mc_keys c) k")
    case False
    then have "resolve_member_roster c (to_stored_records c s') (vk_members_key keys) = Inr (sort_key vm_auth_id [?a, ?m])"
      using rows applied by (intro conclude [OF wf(1)]) (simp_all add: ids new')
    then show ?thesis using ids by (metis (no_types, lifting) image_empty image_insert list.set(1) list.set(2) set_sort)
  next
    case True
    obtain r r' where r: "member_row c (vk_members_key keys) ?a = Inr r" "member_row c (vk_members_key keys) ?m = Inr r'" "rows = [r, r']"
      using rows by (auto simp: new' build_members_records_def and_then_Inr_iff)
    have "classify c r = Inr (MetaMember (vm_auth_id ?m) (sr_value r))" "classify c r' = Inr (MetaMember (vm_auth_id ?m) (sr_value r'))"
      using written_row(2) [OF assms(1) r(1)] written_row(2) [OF assms(1) r(2)] wf True ids by (simp_all add: roster_wf_def)
    then have "apply_approval c s (auth, app_id_str (ak_app_id k), [r']) = (s', outcome)"
      using applied repeated_member_row r(3) by metis
    moreover have "build_members_records c [?m] (vk_members_key keys) = Inr [r']" using r(2) by (simp add: build_members_records_def)
    ultimately have "resolve_member_roster c (to_stored_records c s') (vk_members_key keys) = Inr (sort_key vm_auth_id [?m])"
      by (intro conclude [OF wf(2)]) simp_all
    then show ?thesis using ids True by auto
  qed
qed

end
