(* ===== verification/VaultRosterExamples.thy ===== *)
theory VaultRosterExamples
  imports VaultApproval DirectoryExamples
begin

text \<open>
  Concrete vaults at which the properties of the member records are applied: a JSON that writes each
  field after its length, a sealing that writes the armor header and the key before the plaintext,
  and the records of three devices.
\<close>

subsection \<open>A concrete JSON\<close>

definition mx_field :: "string \<Rightarrow> string" where
  "mx_field s = replicate (length s) (CHR ''1'') @ CHR ''.'' # s"

definition mx_take :: "string \<Rightarrow> string \<times> string" where
  "mx_take s = (let n = length (takeWhile (\<lambda>ch. ch = CHR ''1'') s); body = drop (Suc n) s in (take n body, drop n body))"

lemma mx_taken [simp]: "mx_take (mx_field s @ rest) = (s, rest)"
proof -
  have "takeWhile (\<lambda>ch. ch = CHR ''1'') (mx_field s @ rest) = replicate (length s) (CHR ''1'')"
    by (simp add: mx_field_def takeWhile_replicate takeWhile_append)
  then show ?thesis by (simp add: mx_take_def mx_field_def)
qed

lemma mx_taken_end [simp]: "mx_take (mx_field s) = (s, [])"
  using mx_taken [of s "[]"] by (simp del: mx_taken)

definition mx_entry :: "member_entry \<Rightarrow> string" where
  "mx_entry e = mx_field (auth_key_id_str (me_pk_id e)) @ mx_field (me_pk e) @ mx_field (me_enrolled_at e)
     @ (case me_label e of UnnamedMember \<Rightarrow> ''u'' | NamedMember l \<Rightarrow> CHR ''n'' # l)"

definition mx_read_entry :: "string \<Rightarrow> member_entry" where
  "mx_read_entry s =
     (let (i, s1) = mx_take s; (pk, s2) = mx_take s1; (at, label) = mx_take s2 in
      \<lparr>me_pk_id = AuthKeyId i, me_pk = pk,
       me_label = (if take 1 label = ''u'' then UnnamedMember else NamedMember (drop 1 label)), me_enrolled_at = at\<rparr>)"

lemma mx_entry_read: "mx_read_entry (mx_entry e) = e"
  by (simp add: mx_read_entry_def mx_entry_def split: member_label.splits)

definition mx_auth :: "auth_envelopes \<Rightarrow> string" where
  "mx_auth a = CHR ''A'' # mx_field (ae_secrets_key a) @ ae_members_key a"

definition mx_read_auth :: "string \<Rightarrow> (string, auth_envelopes) result" where
  "mx_read_auth s =
     (if take 1 s \<noteq> ''A'' then Inl ''no envelopes''
      else let (a, m) = mx_take (drop 1 s) in Inr \<lparr>ae_secrets_key = a, ae_members_key = m\<rparr>)"

definition mx_join :: "join_request \<Rightarrow> string" where
  "mx_join j = CHR ''J'' # mx_field (app_id_str (jr_device_id j)) @ mx_field (jr_public_key j) @ mx_field (jr_requested_at j)
     @ (case jr_signing_public_key j of Unavailable \<Rightarrow> ''u'' | Ed25519Hex sk \<Rightarrow> CHR ''e'' # sk)"

definition mx_read_join :: "string \<Rightarrow> (string, join_request) result" where
  "mx_read_join s =
     (if take 1 s \<noteq> ''J'' then Inl ''no join request''
      else let (d, s1) = mx_take (drop 1 s); (pk, s2) = mx_take s1; (requested_at, sk) = mx_take s2 in
        Inr \<lparr>jr_device_id = AppId d, jr_public_key = pk,
          jr_signing_public_key = (if take 1 sk = ''u'' then Unavailable else Ed25519Hex (drop 1 sk)), jr_requested_at = requested_at\<rparr>)"

lemma mx_join_read: "mx_read_join (mx_join j) = Inr j"
  by (simp add: mx_read_join_def mx_join_def split: device_signing_public_key.splits)

definition mx_armor :: string where "mx_armor = ''-----BEGIN AGE ENCRYPTED FILE-----''"

definition mx_seal :: "string \<Rightarrow> string \<Rightarrow> (string, string) result" where
  "mx_seal key plaintext = Inr (mx_armor @ mx_field key @ plaintext)"

definition mx_open :: "string \<Rightarrow> string \<Rightarrow> (string, string) result" where
  "mx_open key sealed =
     (case strip_prefix (mx_armor @ mx_field key) sealed of None \<Rightarrow> Inl ''no matching key'' | Some plaintext \<Rightarrow> Inr plaintext)"

lemma mx_opens: "mx_open key (mx_armor @ mx_field key @ s) = Inr s"
  using strip_prefix_append [of "mx_armor @ mx_field key" s] by (simp add: mx_open_def)

lemma mx_armored: "armored (mx_armor @ s)"
  unfolding armored_def mx_armor_def strip_prefix_append by simp

definition mx_keys :: key_crates where
  "mx_keys = \<lparr>kc_identity = dx_crates\<lparr>age_seal := mx_seal\<rparr>, age_parse_secret = Inr, age_to_public = (\<lambda>s. s), age_open = mx_open\<rparr>"

definition mxc :: member_crates where
  "mxc = \<lparr>mc_keys = mx_keys, auth_to_json = (\<lambda>a. Inr (mx_auth a)), auth_from_json = mx_read_auth,
     join_to_json = (\<lambda>j. Inr (mx_join j)), join_from_json = mx_read_join, entry_to_json = (\<lambda>e. Inr (mx_entry e)),
     entry_from_json = (\<lambda>s. Inr (mx_read_entry s)), share_to_json = (\<lambda>_. Inl ''no share''), share_from_json = (\<lambda>_. Inl ''no share''),
     scrypt_seal = mx_seal, scrypt_open = mx_open\<rparr>"

lemma mxc_fields [simp]:
  "ic_base (kc_identity (mc_keys mxc)) = ex_crates" "age_recipient (kc_identity (mc_keys mxc)) = Inr"
  "age_seal (kc_identity (mc_keys mxc)) = mx_seal" "age_to_public (mc_keys mxc) s = s" "age_open (mc_keys mxc) = mx_open"
  "join_from_json mxc = mx_read_join" "entry_to_json mxc = (\<lambda>e. Inr (mx_entry e))" "auth_to_json mxc = (\<lambda>a. Inr (mx_auth a))"
  "auth_from_json mxc = mx_read_auth" "join_to_json mxc = (\<lambda>j. Inr (mx_join j))" "scrypt_seal mxc = mx_seal"
  by (simp_all add: mxc_def mx_keys_def dx_crates_def)

lemma mxc_age_laws: "age_laws (mc_keys mxc)"
  by (simp add: age_laws_def mx_seal_def mx_opens)

lemma mxc_member_laws: "member_laws mxc"
proof -
  have "mx_read_auth (mx_auth a) = Inr a" for a by (simp add: mx_read_auth_def mx_auth_def)
  moreover have "\<exists>e. mx_read_join (mx_auth a) = Inl e" for a by (simp add: mx_read_join_def mx_auth_def)
  moreover have "\<exists>e. mx_read_join s = Inl e" if "armored s" for s
    using that by (auto simp: armored_def strip_prefix_Some mx_read_join_def)
  ultimately show ?thesis unfolding member_laws_def
    by (auto simp: mxc_def mx_keys_def mx_entry_read mx_seal_def mx_opens mx_armored)
qed

subsection \<open>Devices and a roster\<close>

definition mx_key :: "string \<Rightarrow> app_key" where
  "mx_key s = \<lparr>ak_secret = s, ak_app_id = derived_app_id (mc_keys mxc) s\<rparr>"

abbreviation mx_auth_id :: "string \<Rightarrow> auth_key_id" where "mx_auth_id s \<equiv> app_auth_id (mc_keys mxc) (mx_key s)"

lemma mx_digest: "mx_auth_id s = AuthKeyId (''key_'' @ ex_hex_encode (recipient_digest (mc_keys mxc) s))"
    "auth_is_digest (ex_hex_encode (recipient_digest (mc_keys mxc) s))"
  by (simp_all add: app_auth_id_def derived_auth_id_def mx_key_def auth_is_digest_def ex_hex recipient_digest_def)
    (simp_all add: ex_crates_def)

lemma mx_auth_id_parses: "auth_key_id_parse (auth_key_id_str (mx_auth_id s)) = Inr (mx_auth_id s)"
  using auth_key_id_parse_valid [OF mx_digest(2)] by (simp add: mx_digest(1))

lemma mx_auth_id_valid: "auth_key_id_is_valid (auth_key_id_str (mx_auth_id s))"
  using valid_auth_key [OF mx_digest(2)] by (simp add: mx_digest(1))

lemma mx_auth_id_inject: "mx_auth_id [c] = mx_auth_id [d] \<longleftrightarrow> c = d"
proof
  assume "mx_auth_id [c] = mx_auth_id [d]"
  then have "ex_hex_encode (recipient_digest (mc_keys mxc) [c]) = ex_hex_encode (recipient_digest (mc_keys mxc) [d])"
    by (simp add: mx_digest(1))
  then have "recipient_digest (mc_keys mxc) [c] = recipient_digest (mc_keys mxc) [d]" by (metis ex_hex(1) sum.inject(2))
  then have "bytes_of_string [c] = bytes_of_string [d]" by (simp add: recipient_digest_def ex_crates_def bytes_of_string_def)
  then have "string_of_bytes (bytes_of_string [c]) = string_of_bytes (bytes_of_string [d])" by (rule arg_cong)
  then show "c = d" unfolding string_of_bytes_of_string by simp
qed simp

lemma mx_key_derived: "app_key_derived mxc (mx_key s)"
  using mx_auth_id_parses [of s] by (simp add: app_key_derived_def public_key_app_id_def app_public_key_def mx_key_def)

abbreviation mx_member :: "string \<Rightarrow> vault_member" where
  "mx_member s \<equiv> member_from_identity mxc (mx_key s) ''now''"

lemma mx_member_id [simp]: "vm_auth_id (mx_member s) = mx_auth_id s"
  by (simp add: member_from_identity_def)

lemma mx_built: "\<exists>rows. build_members_records mxc roster key = Inr rows"
  unfolding build_members_records_def traverse_ok_iff by (simp add: member_row_def Let_def encrypt_member_entry_def mx_seal_def)

lemma mx_roster_wf: "roster_wf mxc (map mx_member ss)"
  using mx_key_derived by (auto simp: roster_wf_def member_from_identity_def mx_auth_id_parses app_key_derived_def)

abbreviation mx_secret_key :: string where "mx_secret_key \<equiv> vk_members_key dx_keys"

definition mx_rows :: "string list \<Rightarrow> stored_secret_record list" where
  "mx_rows ss = (case build_members_records mxc (map mx_member ss) mx_secret_key of Inl _ \<Rightarrow> [] | Inr rows \<Rightarrow> rows)"

lemma mx_rows_built: "build_members_records mxc (map mx_member ss) mx_secret_key = Inr (mx_rows ss)"
  using mx_built [of "map mx_member ss" mx_secret_key] by (auto simp: mx_rows_def)

lemmas mx_rows_written = written_rows [OF mxc_member_laws mx_roster_wf mx_rows_built]

lemma mx_rows_classify: "list_all (classifies mxc) (mx_rows ss)" "list_all (is_member_record mxc) (mx_rows ss)"
  by (rule mx_rows_written)+

lemma mx_rows_resolve: "resolve_member_roster mxc (mx_rows ss) mx_secret_key = Inr (sort_key vm_auth_id (map mx_member ss))"
proof -
  have "filter (is_member_record mxc) (mx_rows ss) = mx_rows ss" using mx_rows_classify(2) [of ss] by (simp add: list_all_iff)
  then show ?thesis using mx_rows_classify(1) [of ss] mx_rows_written(4) [of ss]
    by (simp add: resolve_member_roster_def and_then_Inr_iff resolve_rows)
qed

subsection \<open>Revoking\<close>

lemma found_if_member: "x \<in> set xs \<Longrightarrow> P x \<Longrightarrow> \<exists>y. find P xs = Some y"
  by (induction xs) auto

lemma mx_revoked: "\<exists>rs'. revoke_vault_member mxc (mx_rows [''a'', ''b'']) mx_secret_key (mx_auth_id ''b'') = Inr rs'"
proof -
  let ?roster = "sort_key vm_auth_id (map mx_member [''a'', ''b''])" and ?rs = "mx_rows [''a'', ''b'']" and ?i = "mx_auth_id ''b''"
  have "mx_member ''b'' \<in> set ?roster" by (simp del: sort_key_simps)
  then obtain revoked where revoked: "find (\<lambda>m. vm_auth_id m = ?i) ?roster = Some revoked"
    using found_if_member [of "mx_member ''b''" ?roster "\<lambda>m. vm_auth_id m = ?i"] by auto
  obtain rows where rows: "build_members_records mxc (filter (\<lambda>m. vm_auth_id m \<noteq> ?i) ?roster) mx_secret_key = Inr rows"
    using mx_built by blast
  have "list_all (classifies mxc) (filter P ?rs)" for P using mx_rows_classify(1) [of "[''a'', ''b'']"] by (auto simp: list_all_iff)
  then have "\<exists>rs'. replace_member_records mxc (filter P ?rs) rows = Inr rs'" for P by (simp add: replaced_rows)
  then show ?thesis
    using mx_rows_resolve [of "[''a'', ''b'']"] revoked rows mx_auth_id_valid [of "''b''"]
    by (simp add: revoke_vault_member_def Let_def)
qed

lemma revoked_member_keeps_no_row_witness:
  "\<exists>rs'. revoke_vault_member mxc (mx_rows [''a'', ''b'']) mx_secret_key (mx_auth_id ''b'') = Inr rs'
    \<and> resolve_member_roster mxc rs' mx_secret_key = Inr [mx_member ''a'']
    \<and> view_secrets_key mxc rs' (mx_key ''b'')
        = Inl (AuthEnvelopeNotFound (app_id_str (ak_app_id (mx_key ''b''))) (auth_key_id_str (mx_auth_id ''b'')))"
proof -
  let ?roster = "sort_key vm_auth_id (map mx_member [''a'', ''b''])"
  obtain rs' where rs': "revoke_vault_member mxc (mx_rows [''a'', ''b'']) mx_secret_key (mx_auth_id ''b'') = Inr rs'"
    using mx_revoked by blast
  have "roster_wf mxc ?roster" using mx_roster_wf [of "[''a'', ''b'']"] by (simp add: roster_wf_def)
  note revoked = revoked_member_keeps_no_row [OF mxc_member_laws mx_rows_resolve this rs', of "mx_key ''b''"]
  have "filter (\<lambda>m. vm_auth_id m \<noteq> mx_auth_id ''b'') ?roster = [mx_member ''a'']"
    by (simp add: filter_sort mx_auth_id_inject)
  then show ?thesis using rs' revoked by metis
qed

subsection \<open>A request\<close>

definition mx_request :: join_request where
  "mx_request = \<lparr>jr_device_id = ak_app_id (mx_key ''c''), jr_public_key = ''c'', jr_signing_public_key = Unavailable, jr_requested_at = ''now''\<rparr>"

lemma mx_requested: "requested_by mxc mx_request (mx_key ''c'')"
  by (simp add: requested_by_def mx_request_def app_public_key_def mx_key_def)

lemma mx_joins: "member_from_identity mxc (mx_key ''c'') (jr_requested_at mx_request) = mx_member ''c''"
  by (simp add: mx_request_def)

lemma mx_issued: "\<exists>row. issue_auth_record mxc (mx_auth_id s) k m (app_public_key (mc_keys mxc) (mx_key s)) = Inr row"
  by (simp add: issue_auth_record_def public_key_seal_def mx_seal_def auth_record_json_def)

subsection \<open>A state\<close>

definition mx_envelopes :: auth_envelopes where
  "mx_envelopes = \<lparr>ae_secrets_key = mx_armor @ ''s'', ae_members_key = mx_armor @ ''m''\<rparr>"

definition mx_state :: vault_meta_state where
  "mx_state = empty_meta_state\<lparr>
     ms_auth := fmupd (mx_auth_id ''a'') mx_envelopes fmempty, ms_members := fmupd (mx_auth_id ''a'') mx_armor fmempty,
     ms_joins := fmupd (jr_device_id mx_request) mx_request fmempty,
     ms_enrolled_devices := fmupd (jr_device_id mx_request) mx_request fmempty\<rparr>"

lemma mx_state_metas: "state_metas mx_state
    = {MetaAuth (mx_auth_id ''a'') mx_envelopes, MetaMember (mx_auth_id ''a'') mx_armor, MetaJoin (jr_device_id mx_request) mx_request}"
  by (auto simp: state_metas_def mx_state_def empty_meta_state_def split: if_splits)

lemma mx_request_wf: "meta_wf mxc (MetaJoin (jr_device_id mx_request) mx_request)"
proof -
  have "app_id_is_valid (app_id_str (jr_device_id mx_request))"
    by (simp add: mx_request_def mx_key_def derived_app_id_def app_id_is_valid_def recipient_digest_def)
      (simp add: ex_crates_def ex_hex)
  then have "app_id_parse (app_id_str (jr_device_id mx_request)) = Inr (jr_device_id mx_request)"
    using app_id_parse_valid by (metis app_id.collapse)
  then show ?thesis by (simp add: meta_wf_def mx_join_read)
qed

lemma mx_member_wf: "armored payload \<Longrightarrow> meta_wf mxc (MetaMember (mx_auth_id s) payload)"
  by (simp add: meta_wf_def mx_auth_id_parses)

lemma mx_armor_armored: "armored mx_armor"
  using mx_armored [of "[]"] by simp

lemma mx_state_wf: "\<forall>m\<in>state_metas mx_state. meta_wf mxc m"
  using mx_request_wf mx_member_wf [OF mx_armor_armored]
  by (simp add: mx_state_metas) (simp add: meta_wf_def mx_auth_id_parses mx_envelopes_def mx_armored)

lemma state_round_trips_witness:
  "from_stored_records mxc (to_stored_records mxc mx_state) = Inr (mx_state\<lparr>ms_enrolled_devices := fmempty\<rparr>)"
  using state_round_trips [OF mxc_member_laws mx_state_wf] by (simp add: mx_state_def empty_meta_state_def)

subsection \<open>Approving\<close>

text \<open>A vault with the given member rows and the pending request of device c.\<close>

definition mx_vault :: "(auth_key_id, string) fmap \<Rightarrow> vault_meta_state" where
  "mx_vault members = empty_meta_state\<lparr>ms_members := members, ms_joins := fmupd (jr_device_id mx_request) mx_request fmempty\<rparr>"

lemma mx_vault_fields [simp]: "ms_members (mx_vault members) = members"
    "ms_joins (mx_vault members) = fmupd (jr_device_id mx_request) mx_request fmempty"
  by (simp_all add: mx_vault_def)

lemma mx_vault_wf:
  assumes "\<And>i p. fmlookup members i = Some p \<Longrightarrow> meta_wf mxc (MetaMember i p)"
  shows "state_wf mxc (mx_vault members)"
proof -
  have "m = MetaJoin (jr_device_id mx_request) mx_request \<or> (\<exists>i p. m = MetaMember i p \<and> fmlookup members i = Some p)"
    if "m \<in> state_metas (mx_vault members)" for m
    using that by (cases m) (auto simp: in_state_metas mx_vault_def empty_meta_state_def split: if_splits)
  then show ?thesis using assms mx_request_wf unfolding state_wf_def by blast
qed

definition mx_members :: "string list \<Rightarrow> (auth_key_id, string) fmap" where
  "mx_members ss = (case fold_result (keep_member mxc) fmempty (mx_rows ss) of Inl _ \<Rightarrow> fmempty | Inr members \<Rightarrow> members)"

lemma mx_members_lookup:
  assumes "distinct (map mx_auth_id ss)"
  shows "fmlookup (mx_members ss) i = Some p \<longleftrightarrow> undeclared_row (member_record_key i) p \<in> set (mx_rows ss)"
    "fmlookup (mx_members ss) i = Some p \<Longrightarrow> meta_wf mxc (MetaMember i p)"
proof -
  note built = built_rows [OF mxc_member_laws mx_roster_wf mx_rows_built, of ss]
  have "distinct (map row_key (mx_rows ss))"
    unfolding mx_rows_written(1) using assms by (simp add: distinct_map inj_on_def comp_def)
  then obtain members where m: "fold_result (keep_member mxc) fmempty (mx_rows ss) = Inr members"
    "\<forall>i p. fmlookup members i = Some p \<longleftrightarrow> undeclared_row (member_record_key i) p \<in> set (mx_rows ss)"
    using kept_members [of mxc "mx_rows ss" fmempty] built by (auto simp: list_all_iff)
  then show lookup: "fmlookup (mx_members ss) i = Some p \<longleftrightarrow> undeclared_row (member_record_key i) p \<in> set (mx_rows ss)"
    by (simp add: mx_members_def)
  show "meta_wf mxc (MetaMember i p)" if "fmlookup (mx_members ss) i = Some p"
    using that built unfolding lookup by (fastforce simp: list_all_iff undeclared_row_def)
qed

lemma mx_approved:
  assumes "state_wf mxc (mx_vault members)"
    and "approved_roster mxc (mx_key ''a'') (to_stored_records mxc (mx_vault members)) mx_secret_key mx_request = Inr roster"
    and "roster_wf mxc roster" and "distinct (map vm_auth_id roster)"
  shows "\<exists>s op. approve_join_request mxc (vk_secrets_key dx_keys) mx_secret_key (mx_key ''a'') (app_id_str (ak_app_id (mx_key ''c'')))
    (mx_vault members) = (s, Inr op)"
proof -
  let ?k = "mx_key ''c''" and ?s = "mx_vault members"
  have key: "jr_public_key mx_request = app_public_key (mc_keys mxc) ?k" by (simp add: mx_request_def app_public_key_def mx_key_def)
  have device: "jr_device_id mx_request = ak_app_id ?k" by (simp add: mx_request_def)
  have lookup: "fmlookup (ms_joins ?s) (ak_app_id ?k) = Some mx_request" by (simp add: device)
  obtain pending where pending: "list_join_requests mxc (to_stored_records mxc ?s) = Inr pending"
    "find (\<lambda>entry. jr_device_id entry = ak_app_id ?k) pending = Some mx_request"
    using pending_request [OF mxc_member_laws assms(1) lookup] .
  obtain row where row: "issue_auth_record mxc (mx_auth_id ''c'') (vk_secrets_key dx_keys) mx_secret_key (jr_public_key mx_request) = Inr row"
    using mx_issued [of "''c''"] unfolding key by blast
  obtain rows where rows: "build_members_records mxc roster mx_secret_key = Inr rows" using mx_built by blast
  have approval: "approve_join mxc dx_keys mx_request (mx_key ''a'') (to_stored_records mxc ?s) = Inr (row, app_id_str (ak_app_id ?k), rows)"
    using row app_public_auth_id [OF mxc_age_laws, of ?k] assms(2) rows device by (simp add: approve_join_def flip: key)
  have "auth_row_of mxc ?k dx_keys row" using row by (simp add: auth_row_of_def key)
  then obtain s' a where "apply_approval mxc ?s (row, app_id_str (ak_app_id ?k), rows) = (s', Inr a)"
    using applied_approval [OF mxc_member_laws mxc_age_laws dx_keys_laws mx_key_derived _ assms(1,3,4) rows] by blast
  moreover have eta: "\<lparr>vk_secrets_key = vk_secrets_key dx_keys, vk_members_key = mx_secret_key\<rparr> = dx_keys" by simp
  ultimately show ?thesis
    using pending approval join_of_state(1) [OF assms(1) lookup] dx_keys_laws
    by (simp add: approve_join_request_def requested_approval_def symmetric_keys_def eta)
qed

lemma mx_home: "state_wf mxc (mx_vault (mx_members [''a'']))"
    "resolve_member_roster mxc (to_stored_records mxc (mx_vault (mx_members [''a'']))) mx_secret_key = Inr [mx_member ''a'']"
proof -
  have single: "distinct (map mx_auth_id [''a''])" by simp
  show wf: "state_wf mxc (mx_vault (mx_members [''a'']))" using mx_members_lookup(2) [OF single] by (rule mx_vault_wf)
  have "r \<in> set (member_rows (mx_vault (mx_members [''a'']))) \<longleftrightarrow> r \<in> set (mx_rows [''a''])" for r
    unfolding member_row_in using mx_members_lookup(1) [OF single] built_rows [OF mxc_member_laws mx_roster_wf mx_rows_built, of "[''a'']"]
    by (force simp: list_all_iff)
  then have "set (member_rows (mx_vault (mx_members [''a'']))) = set (mx_rows [''a''])" by blast
  then show "resolve_member_roster mxc (to_stored_records mxc (mx_vault (mx_members [''a'']))) mx_secret_key = Inr [mx_member ''a'']"
    using state_roster [OF mxc_member_laws wf mx_roster_wf _ mx_rows_built, of "[''a'']"] by simp
qed

lemma approved_device_opens_the_vault_witness:
  "\<exists>s op. approve_join_request mxc (vk_secrets_key dx_keys) mx_secret_key (mx_key ''a'') (app_id_str (ak_app_id (mx_key ''c'')))
      (mx_vault (mx_members [''a''])) = (s, Inr op)
    \<and> view_secrets_key mxc (to_stored_records mxc s) (mx_key ''c'') = Inr (vk_secrets_key dx_keys)
    \<and> resolve_member_roster mxc (to_stored_records mxc s) mx_secret_key = Inr (roster_add_member [mx_member ''a''] (mx_member ''c''))"
proof -
  let ?s = "mx_vault (mx_members [''a''])"
  have wf: "roster_wf mxc [mx_member ''a'']" "roster_wf mxc [mx_member ''c'']"
    using mx_roster_wf [of "[''a'']"] mx_roster_wf [of "[''c'']"] by simp_all
  have joined: "approved_roster mxc (mx_key ''a'') (to_stored_records mxc ?s) mx_secret_key mx_request
      = Inr (roster_add_member [mx_member ''a''] (mx_member ''c''))"
    using mx_home(2) joining_member [OF mxc_age_laws mx_requested] mx_joins by (simp add: approved_roster_def)
  have "distinct (map vm_auth_id (roster_add_member [mx_member ''a''] (mx_member ''c'')))"
    by (auto simp: roster_add_member_def distinct_map inj_on_def dest: arg_cong [of _ _ vm_auth_id])
  then obtain s op where step: "approve_join_request mxc (vk_secrets_key dx_keys) mx_secret_key (mx_key ''a'')
      (app_id_str (ak_app_id (mx_key ''c''))) ?s = (s, Inr op)"
    using mx_approved [OF mx_home(1) joined roster_add_wf [OF wf]] by blast
  have "fmlookup (ms_joins ?s) (ak_app_id (mx_key ''c'')) = Some mx_request" by (simp add: mx_request_def)
  then show ?thesis
    using step approved_device_opens_the_vault [OF mxc_member_laws mxc_age_laws dx_keys_laws mx_home(1) mx_key_derived _
        mx_requested step mx_home(2) wf(1)] unfolding mx_joins by blast
qed

text \<open>A vault of the devices a and b with one more member row that no key of the vault opens.\<close>

definition mx_broken :: vault_meta_state where
  "mx_broken = mx_vault (fmupd (mx_auth_id ''z'') mx_armor (mx_members [''a'', ''b'']))"

lemma mx_broken_wf: "state_wf mxc mx_broken"
  unfolding mx_broken_def
proof (rule mx_vault_wf)
  fix i p assume "fmlookup (fmupd (mx_auth_id ''z'') mx_armor (mx_members [''a'', ''b''])) i = Some p"
  then have "i = mx_auth_id ''z'' \<and> p = mx_armor \<or> fmlookup (mx_members [''a'', ''b'']) i = Some p" by (auto split: if_splits)
  then show "meta_wf mxc (MetaMember i p)"
    using mx_member_wf [OF mx_armor_armored] mx_members_lookup(2) [of "[''a'', ''b'']"] by (auto simp: mx_auth_id_inject)
qed

lemma mx_broken_fails: "\<exists>e. resolve_member_roster mxc (to_stored_records mxc mx_broken) mx_secret_key = Inl e"
proof (cases "resolve_member_roster mxc (to_stored_records mxc mx_broken) mx_secret_key")
  case (Inr roster)
  let ?bad = "undeclared_row (member_record_key (mx_auth_id ''z'')) mx_armor"
  have "?bad \<in> set (member_rows mx_broken)" unfolding member_row_in by (auto simp: mx_broken_def)
  moreover have "\<exists>ys. traverse (resolved_member mxc mx_secret_key) (sort_key row_key (member_rows mx_broken)) = Inr ys"
    using Inr state_member_records [OF mxc_member_laws mx_broken_wf]
    by (auto simp: resolve_member_roster_def and_then_Inr_iff resolve_rows)
  moreover have "scrypt_open mxc mx_secret_key mx_armor = Inl ''no matching key''"
    by (simp add: mxc_def mx_open_def mx_field_def mx_armor_def strip_prefix_def dx_keys_def)
  then have "\<exists>e. resolved_member mxc mx_secret_key ?bad = Inl e"
    using armored_marker [OF mx_armor_armored] by (simp add: resolved_member_def undeclared_row_def age_armored_parse_def decrypt_member_entry_def)
  ultimately show ?thesis unfolding traverse_ok_iff set_sort by fastforce
qed simp

lemma unreadable_roster_is_replaced_witness:
  "\<exists>s op roster. fmlookup (ms_members mx_broken) (mx_auth_id ''b'') \<noteq> None
    \<and> approve_join_request mxc (vk_secrets_key dx_keys) mx_secret_key (mx_key ''a'') (app_id_str (ak_app_id (mx_key ''c''))) mx_broken = (s, Inr op)
    \<and> resolve_member_roster mxc (to_stored_records mxc s) mx_secret_key = Inr roster \<and> mx_auth_id ''b'' \<notin> vm_auth_id ` set roster"
proof -
  obtain e where fails: "resolve_member_roster mxc (to_stored_records mxc mx_broken) mx_secret_key = Inl e" using mx_broken_fails by blast
  have wf: "roster_wf mxc [mx_member ''a'', mx_member ''c'']" using mx_roster_wf [of "[''a'', ''c'']"] by simp
  have joined: "approved_roster mxc (mx_key ''a'') (to_stored_records mxc mx_broken) mx_secret_key mx_request
      = Inr [mx_member ''a'', mx_member ''c'']"
    using fails joining_member [OF mxc_age_laws mx_requested] mx_joins by (simp add: approved_roster_def mx_request_def)
  obtain s op where step: "approve_join_request mxc (vk_secrets_key dx_keys) mx_secret_key (mx_key ''a'')
      (app_id_str (ak_app_id (mx_key ''c''))) mx_broken = (s, Inr op)"
    using mx_approved [OF mx_broken_wf [unfolded mx_broken_def] joined [unfolded mx_broken_def] wf]
    by (auto simp: mx_auth_id_inject mx_broken_def)
  have "fmlookup (ms_joins mx_broken) (ak_app_id (mx_key ''c'')) = Some mx_request" by (simp add: mx_request_def mx_broken_def)
  note replaced = unreadable_roster_is_replaced [OF mxc_member_laws mxc_age_laws dx_keys_laws mx_broken_wf mx_key_derived mx_key_derived
      this mx_requested step fails]
  obtain roster where "resolve_member_roster mxc (to_stored_records mxc s) mx_secret_key = Inr roster"
    "vm_auth_id ` set roster = {mx_auth_id ''a'', mx_auth_id ''c''}" using replaced by blast
  moreover have "fmlookup (ms_members mx_broken) (mx_auth_id ''b'') \<noteq> None"
  proof -
    have "member_record_key (mx_auth_id ''b'') \<in> set (map row_key (mx_rows [''a'', ''b'']))" unfolding mx_rows_written(1) by simp
    then obtain r where r: "r \<in> set (mx_rows [''a'', ''b''])" "row_key r = member_record_key (mx_auth_id ''b'')" by auto
    then obtain i where i: "r = undeclared_row (member_record_key i) (sr_value r)"
      using built_rows [OF mxc_member_laws mx_roster_wf mx_rows_built, of "[''a'', ''b'']"] by (auto simp: list_all_iff)
    have "row_key r = member_record_key i" by (subst i) (simp add: undeclared_row_def)
    then have "i = mx_auth_id ''b''" using r(2) by simp
    with i have "fmlookup (mx_members [''a'', ''b'']) (mx_auth_id ''b'') = Some (sr_value r)"
      using mx_members_lookup(1) [of "[''a'', ''b'']"] r(1) by (simp add: mx_auth_id_inject)
    then show ?thesis by (simp add: mx_broken_def mx_auth_id_inject)
  qed
  ultimately show ?thesis using step by (auto simp: mx_auth_id_inject)
qed

end
