(* ===== verification/Spec2Isabelle.thy ===== *)
theory Spec2Isabelle
  imports Prelude Errors CausalUnion ReplicaStore Ids Slip39 EventStoreExamples IdentityExamples DirectoryExamples
    VaultRosterExamples
begin

text \<open>
  Verification library of the Nook platform (src/nook-app/nook-platform).

  Parts.  Nook keeps a vault as a set of signed events that devices replicate through storage
  providers.  nook-replication orders the events and stores their bytes.  nook-event-log signs and
  validates the events, decides which are authorized, projects the vault from them and exchanges
  them with providers.  nook-auth2 names vaults, devices and secrets, and shares the master secret
  of a Sentinel vault among devices.

  Theories, in the order the code uses them.
    Prelude      errors as sums, worklist closures, sorted views of finite maps, and the contracts
                 of keyed buffers and join replication as locales.
    Errors       the error enums of nook-auth2.
    CausalGraph  nook-replication/src/causal_graph.rs: insert, quarantine, cycle index, ordering.
    CausalUnion  causal_graph/union.rs and the properties of the graph: every operation is a join
                 with a one-request graph, so replay converges whatever the order.
    ReplicaStore replica_store.rs: immutable event bytes and per-provider outboxes.
    Text, Ids    nook-auth2/src/ids.rs, wire/metadata.rs, records.rs: identifier parsers.
    Gf256, Lagrange, Shamir
                 auth/slip39/polynomial.rs: the byte field, interpolation, split and recovery.
    Slip39Words, Mnemonic
                 auth/slip39/mnemonic.rs and the word list: packing, checksum, encode and decode.
    Slip39       auth/slip39.rs and slip39/cipher.rs: issue, admission, recovery.
    Events       nook-event-log/src/event.rs, errors.rs, epoch*.rs, fingerprint.rs: the operations
                 and bodies of events with their structural checks.
    EventJson    event_bytes.rs and the serde attributes: a body as a JSON value, canonical order.
    Envelope     canonical.rs, signing.rs, event.rs, builder.rs: identifiers, signatures, the
                 signing identity, validation and construction of envelopes.
    EnvelopeLaws what validation proves of an envelope, what the builder guarantees, and a concrete
                 instance of the crates.
    EventGraph, EventGraphLaws
                 graph.rs, graph/authorization.rs, graph/roster.rs: validated insertion, quarantine
                 of unauthorized events, the roster; the invariant of graphs built by insertion.
    Projection, ProjectionLaws, ProjectionOrder
                 projection.rs and its modules: secrets, epochs, conflicts; the projection as a
                 fold over effects, and its independence of the order of concurrent events.
    EventLogExamples
                 logs of concrete events as histories, for the witnesses.
    EventConvergence
                 the quarantine of a history as a function of its events alone, so replicas with
                 equal events agree on everything derived from the graph.
    EventStore, EventStoreLaws, EventStoreExamples
                 store.rs, store/*.rs, remote_epoch_visibility.rs: loading, appending, classifying
                 remote records, incomplete security transitions, and the prepared union.
    Location     location.rs and the identity ids of nook-auth2/src/auth/identity.rs: where the logs of
                 vaults and identities are filed at a provider.
    IdentityWire, IdentityLog, IdentityLaws
                 identity_control/wire.rs and graph.rs: the signed events that say who the members of
                 an identity are, their validation, the members effective in a causal past, what
                 recovery passphrases and invite holders may sign; what a log built by insertion holds.
    IdentityState, IdentityStateLaws
                 identity_control/projection.rs, builder.rs, recovery.rs: the state a log projects to,
                 the operations members build on it, and what both guarantee.
    IdentityExamples
                 logs of scripted identity events, followed by a machine on positions that is
                 evaluated, for the witnesses; and two replicas that diverge.
    OwnedState   lists changed by position, and the contract of a state that transitions hand on.
    LocalIdentity, LocalIdentityLaws, IdentityAccess
                 auth/identity.rs with transition.rs and legacy.rs, identity_epoch.rs,
                 identity_dek_grant.rs and the app keys of multi_device: the record an installation
                 keeps of an identity; its invariant; the record as a refinement of an access matrix.
    IdentityDirectory, DirectoryReplication
                 auth/identity_directory.rs and its modules transition, replication, recovery and
                 invitation: the identities of one installation.
    DirectoryLaws, DirectoryUse
                 a step relation over all public operations of the directory, labelled by the call;
                 validation as an invariant of the calls whose callers check what the operation does
                 not (caller_condition), rejections that give the directory back; reopening,
                 retirement, adoption, the settled mirror.
    LocalKeyring auth/local_identity_keyring.rs: the protected entries, as a map from identities.
    DirectoryExamples
                 records, directories and keyrings for the witnesses of these theories.
    VaultMembers, VaultRoster
                 auth/multi_device/state.rs, key_actions.rs, roster.rs, join.rs, access.rs: the kinds of
                 member record that share the row of a secret, the state they are kept in, the encrypted
                 roster, join requests, approval, enrollment and access.
    VaultRosterLaws, VaultStateLaws
                 what revocation and self-enrollment leave behind, and the state and its rows as a
                 round trip.
    VaultApproval, VaultRosterExamples
                 nook-wasm/src/manager/multi_device.rs, the Simple arm of approve_join_request: the
                 request found, approved and written to the state, which a failing call leaves as far
                 as it came; what an approval leaves behind; and vaults of concrete devices for the
                 witnesses.  The session check and the storage of the change are not modelled there.

  Parameters.  SHA-256, PBKDF2 and the random source are function arguments of the Slip39
  theories, and their theorems hold for every such function.  The record identity_crates of
  IdentityWire adds age recipients and sealing, the display text of errors and the YAML codec of
  identity events; no theorem assumes anything of them.  The crates nook-event-log calls (hex,
  base64, sha2, ed25519-dalek, serde_json, serde_yaml) are the fields of the record crates of
  Envelope.  crate_laws states their documented behaviour where a theorem needs it: hex and base64
  decode what they encode, and a signature made with a key verifies under it.  That a digest
  determines its input is assumed of single histories only (collision_free), never of the hash.
  EnvelopeLaws.ex_crates and EventLogExamples.log_crates instantiate the record and the witnesses are
  evaluated there; IdentityExamples.idc does so for identity logs.  The record key_crates of
  LocalIdentity adds age at an X25519 secret; age_laws states that sealing to the recipient of a
  secret succeeds and opens with it, and DirectoryExamples.dxc instantiates it.  The record
  member_crates of VaultMembers adds age with a symmetric key and the JSON of member records;
  member_laws states that both read back what they write, that what age writes starts with its armor
  header, and that such a text and the JSON of auth envelopes are no join request;
  VaultRosterExamples.mxc instantiates it.  The ids and keys
  the code draws at random are arguments of the transitions that draw them.

  Properties.  The causal graph converges under replay in any order and its order never fails; the
  event graph applies only validated events, which are authorized by their past or are roots or
  membership events their signers make for themselves, whatever arrives in whatever order; the
  projection contains authentic secrets only and does not depend on the order of concurrent
  events; a store appends exactly what its own reload would accept, hides incomplete security
  transitions, and reports the heads of the graph it leaves behind.  An identity log holds
  authorized events only, an invite admits one device, a recovery passphrase stays confined, and
  a new member can open every vault; but the members can depend on the order of arrival, which
  identity_replicas_diverge shows on six events.  The local record of an identity grants exactly
  what its access matrix says, a directory of identities validates exactly as long as the callers
  of five operations keep their conditions (a key that creates a second identity breaks it, and so
  does a retired key that is added again), retired keys stay refused, and a vault reopens to the keys
  it was made with.  A revoked
  member keeps no row and opens no key, an approved device opens both, and the member records
  survive being stored; an approval over a member row that cannot be read drops the other members.
  Shares of a secret recover it and admit only a quorum of one issue; mnemonics and identifiers
  round trip.

  Loops.  Each while loop of the source is a recursive function with a measure, so its termination
  is proved and no fuel is needed.

  Not modelled: the random generation of ids and keys, enrollment, device key protection,
  the issue and unlock of Sentinel share records (the rest of nook-auth2/src/auth), the application layers
  nook-core and nook-companion-core, the browser bindings (nook-wasm but for the approval named
  above, nook-companion-wasm), the
  generated translation keys, storage and network I/O, and the age encryption of payloads (a
  ciphertext is an opaque string).  Each is a component of the code of its own, not a parameter
  of the parts above.
\<close>

end
